(* ===== verification/Prelude.thy ===== *)
theory Prelude
  imports Main "HOL-Library.Word" "HOL-Library.Monad_Syntax"
begin

text \<open>
  Shared vocabulary of the development: the fixed-width integers of the C sources, C strings
  (a \<open>string\<close> holds the bytes before the terminating NUL), the character classes and
  string routines of the C library in the "C" locale, and lemmas on lists and options used by
  several components.

  A computation that may run into undefined behaviour (an access outside an array, a
  shift by the width of the type, a NULL dereference) or that may never return has a result of
  type \<open>'a option\<close>: \<open>None\<close> stands for that failure. Failed allocations, which
  end the process through \<open>i_critical\<close> or \<open>err\<close>, are not modelled.
\<close>

unbundle bit_operations_syntax

type_synonym u8 = "8 word"
type_synonym u16 = "16 word"
type_synonym u32 = "32 word"

named_theorems len_simps \<open>effect of operations on the number of unread characters\<close>
named_theorems c_str_simps \<open>evaluation rules of the C string routines\<close>

section \<open>Characters\<close>

definition char_code :: "char \<Rightarrow> int" where
  "char_code c = of_char c"

text \<open>A \<open>char\<close> of the sources is signed: bytes from 128 on read as negative ints.\<close>

definition schar_code :: "char \<Rightarrow> int" where
  "schar_code c = (let n = of_char c in if n < 128 then n else n - 256)"

definition isdigit_c :: "int \<Rightarrow> bool" where
  "isdigit_c c \<longleftrightarrow> 48 \<le> c \<and> c \<le> 57"

definition isupper_c :: "int \<Rightarrow> bool" where
  "isupper_c c \<longleftrightarrow> 65 \<le> c \<and> c \<le> 90"

definition isalpha_c :: "int \<Rightarrow> bool" where
  "isalpha_c c \<longleftrightarrow> isupper_c c \<or> (97 \<le> c \<and> c \<le> 122)"

definition isspace_c :: "int \<Rightarrow> bool" where
  "isspace_c c \<longleftrightarrow> c = 32 \<or> (9 \<le> c \<and> c \<le> 13)"

definition tolower_c :: "int \<Rightarrow> int" where
  "tolower_c c = (if isupper_c c then c + 32 else c)"

text \<open>Storing an int in a \<open>char\<close> keeps its low byte.\<close>

definition to_char :: "int \<Rightarrow> char" where
  "to_char c = char_of c"

definition char_tolower :: "char \<Rightarrow> char" where
  "char_tolower c = to_char (tolower_c (char_code c))"

definition char_isspace :: "char \<Rightarrow> bool" where
  "char_isspace c = isspace_c (char_code c)"

lemma char_code_bounds: "0 \<le> char_code c \<and> char_code c < 256"
  unfolding char_code_def by (cases c) (simp split: prod.splits)

lemma to_char_char_code [simp]: "to_char (char_code c) = c"
  by (simp add: to_char_def char_code_def)

lemma char_code_inject [simp]: "char_code c = char_code d \<longleftrightarrow> c = d"
  by (metis to_char_char_code)

lemma to_char_schar_code [simp]: "to_char (schar_code c) = c"
proof -
  have "(of_char c - 256 :: int) mod 256 = of_char c"
    by (simp add: char_code_bounds [unfolded char_code_def])
  then have "char_of (of_char c - 256 :: int) = (char_of (of_char c :: int) :: char)"
    by (metis char_of_mod_256)
  then show ?thesis by (simp add: to_char_def schar_code_def Let_def)
qed

section \<open>C strings\<close>

definition NUL :: char where
  "NUL = CHR 0x00"

text \<open>The C string at the start of a character array.\<close>

definition c_str :: "char list \<Rightarrow> string" where
  "c_str buf = takeWhile (\<lambda>c. c \<noteq> NUL) buf"

lemma c_str_no_NUL [simp]: "NUL \<notin> set (c_str buf)"
  unfolding c_str_def using set_takeWhileD by force

lemma c_str_id [simp]: "NUL \<notin> set s \<Longrightarrow> c_str s = s"
  unfolding c_str_def by (auto simp: takeWhile_eq_all_conv)

lemma c_str_append_NUL [simp]: "NUL \<notin> set s \<Longrightarrow> c_str (s @ NUL # rest) = s"
  unfolding c_str_def by (subst takeWhile_append2) auto

lemma length_c_str [simp]: "length (c_str s) \<le> length s"
  unfolding c_str_def by (rule length_takeWhile_le)

text \<open>\<open>strncasecmp (a, b, strlen (b)) == 0\<close> and \<open>strcasecmp (a, b) == 0\<close>.\<close>

definition casecmp_eq :: "string \<Rightarrow> string \<Rightarrow> bool" where
  "casecmp_eq a b \<longleftrightarrow> map char_tolower a = map char_tolower b"

definition match_prefix_nocase :: "string \<Rightarrow> string \<Rightarrow> bool" where
  "match_prefix_nocase a b \<longleftrightarrow> length b \<le> length a \<and> casecmp_eq (take (length b) a) b"

section \<open>Numbers\<close>

text \<open>An \<open>int\<close> of the sources: arithmetic wraps at 32 bits.\<close>

definition wrap_int :: "int \<Rightarrow> int" where
  "wrap_int x = sint (word_of_int x :: 32 word)"

lemma wrap_int_id [simp]: "- (2 ^ 31) \<le> x \<Longrightarrow> x < 2 ^ 31 \<Longrightarrow> wrap_int x = x"
  unfolding wrap_int_def by (subst sint_sbintrunc') (simp add: signed_take_bit_int_eq_self)

text \<open>Decimal output of \<open>\<percent>u\<close>, most significant digit first.\<close>

fun dec_digits :: "nat \<Rightarrow> string" where
  "dec_digits n = (if n < 10 then [char_of (48 + n)] else dec_digits (n div 10) @ [char_of (48 + n mod 10)])"

declare dec_digits.simps [simp del]

section \<open>Lists and options\<close>

definition nth_opt :: "'a list \<Rightarrow> nat \<Rightarrow> 'a option" where
  "nth_opt xs i = (if i < length xs then Some (xs ! i) else None)"

lemma nth_opt_Some [simp]: "nth_opt xs i = Some x \<longleftrightarrow> i < length xs \<and> x = xs ! i"
  by (auto simp: nth_opt_def)

lemma nth_opt_in [simp]: "i < length xs \<Longrightarrow> nth_opt xs i = Some (xs ! i)"
  by (simp add: nth_opt_def)

lemma card_index_update:
  assumes "p < length xs" and "\<not> P (xs ! p)" and "P y"
  shows "length (filter P (xs[p := y])) = Suc (length (filter P xs))"
proof -
  have "{i. i < length (xs[p := y]) \<and> P (xs[p := y] ! i)} = insert p {i. i < length xs \<and> P (xs ! i)}"
    using assms by (auto simp: nth_list_update)
  then show ?thesis
    using assms by (simp add: length_filter_conv_card)
qed

lemma card_index_same:
  assumes "p < length xs" and "P (xs ! p)" and "P y"
  shows "length (filter P (xs[p := y])) = length (filter P xs)"
proof -
  have "{i. i < length (xs[p := y]) \<and> P (xs[p := y] ! i)} = {i. i < length xs \<and> P (xs ! i)}"
    using assms by (auto simp: nth_list_update)
  then show ?thesis by (simp add: length_filter_conv_card)
qed

lemma filter_not_all_ex:
  "length (filter P xs) < length xs \<Longrightarrow> \<exists>i < length xs. \<not> P (xs ! i)"
  by (metis filter_True in_set_conv_nth less_irrefl)

lemma distinct_map_filter_index:
  assumes "\<And>p q. p < length xs \<Longrightarrow> q < length xs \<Longrightarrow> P (xs ! p) \<Longrightarrow> P (xs ! q) \<Longrightarrow> f (xs ! p) = f (xs ! q) \<Longrightarrow> p = q"
  shows "distinct (map f (filter P xs))"
  using assms
proof (induction xs)
  case (Cons x xs)
  have "distinct (map f (filter P xs))"
    using Cons.prems [of "Suc _" "Suc _"] by (intro Cons.IH) auto
  moreover have "f x \<notin> f ` set (filter P xs)" if "P x"
  proof
    assume "f x \<in> f ` set (filter P xs)"
    then obtain q where "q < length xs" "P (xs ! q)" "f (xs ! q) = f x"
      by (auto simp: in_set_conv_nth)
    then show False using Cons.prems [of 0 "Suc q"] that by simp
  qed
  ultimately show ?case by simp
qed simp

lemma option_eqI: "(\<And>v. x = Some v \<longleftrightarrow> y = Some v) \<Longrightarrow> x = y"
  by (cases x; cases y) auto

section \<open>Folds that may fail\<close>

fun fold_opt :: "('s \<Rightarrow> 'a \<Rightarrow> 's option) \<Rightarrow> 's \<Rightarrow> 'a list \<Rightarrow> 's option" where
  "fold_opt f s [] = Some s"
| "fold_opt f s (x # xs) = Option.bind (f s x) (\<lambda>s'. fold_opt f s' xs)"

lemma fold_opt_append:
  "fold_opt f s (xs @ ys) = Option.bind (fold_opt f s xs) (\<lambda>s'. fold_opt f s' ys)"
  by (induction xs arbitrary: s) (auto simp: bind_assoc)

end
