(* ===== verification/Linked_List.thy ===== *)
theory Linked_List
  imports Prelude
begin

text \<open>
  Models \<open>src/src/list.c\<close> and \<open>src/src/queue.c\<close>: the singly linked list with its size
  counter, and the FIFO queue on top of it. The chain of \<open>List_entry\<close> structs that
  starts at \<open>list->head\<close> and ends in a NULL \<open>next\<close> is a HOL list of the entries'
  values; a NULL value or list is \<open>None\<close>.
\<close>

record 'a List_T =
  list_size :: int
  list_head :: "'a list"

definition List_create :: "'a List_T" where
  "List_create = \<lparr>list_size = 0, list_head = []\<rparr>"

text \<open>The loop of \<open>List_insert_after\<close> walks to the entry whose \<open>next\<close> is NULL.\<close>

fun link_last :: "'a list \<Rightarrow> 'a \<Rightarrow> 'a list" where
  "link_last [] v = [v]"
| "link_last [e] v = [e, v]"
| "link_last (e # e' # es) v = e # link_last (e' # es) v"

definition List_insert_after :: "'a List_T \<Rightarrow> 'a \<Rightarrow> 'a List_T" where
  "List_insert_after l v =
     (let l1 = l\<lparr>list_size := list_size l + 1\<rparr> in
      if list_head l1 \<noteq> [] then l1\<lparr>list_head := link_last (list_head l1) v\<rparr>
      else l1\<lparr>list_head := [v]\<rparr>)"

definition List_insert_head :: "'a List_T \<Rightarrow> 'a \<Rightarrow> 'a List_T" where
  "List_insert_head l v = l\<lparr>list_size := list_size l + 1, list_head := v # list_head l\<rparr>"

definition List_remove_head :: "'a List_T \<Rightarrow> 'a option \<times> 'a List_T" where
  "List_remove_head l =
     (case list_head l of
        [] \<Rightarrow> (None, l)
      | e # es \<Rightarrow> (Some e, l\<lparr>list_head := es, list_size := list_size l - 1\<rparr>))"

text \<open>Every value is handed to the destructor, in list order.\<close>

definition List_remove_all :: "'a List_T \<Rightarrow> 'a list \<times> 'a List_T" where
  "List_remove_all l = (list_head l, l\<lparr>list_size := 0, list_head := []\<rparr>)"

fun List_size :: "'a List_T option \<Rightarrow> int" where
  "List_size (Some l) = list_size l"
| "List_size None = 0"

definition List_wf :: "'a List_T \<Rightarrow> bool" where
  "List_wf l \<longleftrightarrow> list_size l = int (length (list_head l))"

lemma link_last_append [simp]: "link_last es v = es @ [v]"
  by (induction es v rule: link_last.induct) auto

lemma List_insert_after_head [simp]:
  "list_head (List_insert_after l v) = list_head l @ [v]"
  by (simp add: List_insert_after_def Let_def)

lemma List_insert_after_size [simp]:
  "list_size (List_insert_after l v) = list_size l + 1"
  by (simp add: List_insert_after_def Let_def)

lemma List_insert_head_head [simp]: "list_head (List_insert_head l v) = v # list_head l"
  by (simp add: List_insert_head_def)

lemma List_create_head [simp]: "list_head List_create = []" and
  List_create_wf [simp]: "List_wf List_create"
  by (simp_all add: List_create_def List_wf_def)

lemma List_insert_after_wf [simp]: "List_wf (List_insert_after l v) \<longleftrightarrow> List_wf l"
  by (simp add: List_wf_def)

lemma List_insert_head_wf [simp]: "List_wf (List_insert_head l v) \<longleftrightarrow> List_wf l"
  by (simp add: List_wf_def List_insert_head_def)

lemma List_remove_head_wf: "List_wf l \<Longrightarrow> List_wf (snd (List_remove_head l))"
  by (simp add: List_wf_def List_remove_head_def split: list.splits)

lemma List_remove_all_wf [simp]: "List_wf (snd (List_remove_all l))"
  by (simp add: List_wf_def List_remove_all_def)

section \<open>The queue\<close>

record 'a Queue_T =
  queue_list :: "'a List_T"

definition Queue_create :: "'a Queue_T" where
  "Queue_create = \<lparr>queue_list = List_create\<rparr>"

definition Queue_enqueue :: "'a Queue_T \<Rightarrow> 'a \<Rightarrow> 'a Queue_T" where
  "Queue_enqueue q v = q\<lparr>queue_list := List_insert_after (queue_list q) v\<rparr>"

definition Queue_dequeue :: "'a Queue_T \<Rightarrow> 'a option \<times> 'a Queue_T" where
  "Queue_dequeue q =
     (let (v, l) = List_remove_head (queue_list q) in (v, q\<lparr>queue_list := l\<rparr>))"

definition Queue_size :: "'a Queue_T \<Rightarrow> int" where
  "Queue_size q = List_size (Some (queue_list q))"

definition queue_elems :: "'a Queue_T \<Rightarrow> 'a list" where
  "queue_elems q = list_head (queue_list q)"

definition queue_wf :: "'a Queue_T \<Rightarrow> bool" where
  "queue_wf q \<longleftrightarrow> List_wf (queue_list q)"

text \<open>What a client of the queue relies on: first in, first out, with an exact size.\<close>

locale fifo =
  fixes emp :: 'q
    and enq :: "'q \<Rightarrow> 'a \<Rightarrow> 'q"
    and deq :: "'q \<Rightarrow> 'a option \<times> 'q"
    and siz :: "'q \<Rightarrow> int"
    and elems :: "'q \<Rightarrow> 'a list"
    and wf :: "'q \<Rightarrow> bool"
  assumes emp: "elems emp = []" "wf emp"
    and enq: "wf q \<Longrightarrow> elems (enq q x) = elems q @ [x]" "wf q \<Longrightarrow> wf (enq q x)"
    and deq_Nil: "wf q \<Longrightarrow> elems q = [] \<Longrightarrow> deq q = (None, q)"
    and deq_Cons: "wf q \<Longrightarrow> elems q = x # xs \<Longrightarrow> fst (deq q) = Some x \<and> elems (snd (deq q)) = xs"
    and deq_wf: "wf q \<Longrightarrow> wf (snd (deq q))"
    and siz: "wf q \<Longrightarrow> siz q = int (length (elems q))"
begin

fun drain :: "nat \<Rightarrow> 'q \<Rightarrow> 'a list" where
  "drain 0 q = []"
| "drain (Suc n) q = (case deq q of (None, _) \<Rightarrow> [] | (Some x, q') \<Rightarrow> x # drain n q')"

lemma foldl_enq: "wf q \<Longrightarrow> wf (foldl enq q xs) \<and> elems (foldl enq q xs) = elems q @ xs"
  by (induction xs arbitrary: q) (auto simp: enq)

lemma drain_elems: "wf q \<Longrightarrow> drain n q = take n (elems q)"
proof (induction n arbitrary: q)
  case 0
  then show ?case by simp
next
  case (Suc n)
  show ?case
  proof (cases "elems q")
    case Nil
    with Suc.prems show ?thesis by (simp add: deq_Nil)
  next
    case (Cons x xs)
    obtain v q' where "deq q = (v, q')" by (cases "deq q")
    with Suc Cons deq_Cons [OF Suc.prems Cons] deq_wf [OF Suc.prems] show ?thesis by simp
  qed
qed

lemma enq_drain: "siz (foldl enq emp xs) = int (length xs) \<and> drain (length xs) (foldl enq emp xs) = xs"
  using foldl_enq [OF emp(2), of xs] by (simp add: siz drain_elems emp(1))

end

interpretation lq: fifo Queue_create Queue_enqueue Queue_dequeue Queue_size queue_elems queue_wf
  by unfold_locales
    (auto simp: Queue_create_def Queue_enqueue_def Queue_dequeue_def Queue_size_def queue_elems_def
      queue_wf_def List_remove_head_def List_wf_def List_create_def split: list.splits)

text \<open>The dequeue loop of the sources, \<open>while (Queue_size (q) > 0) Queue_dequeue (q)\<close>, on
  at most \<open>n\<close> elements.\<close>

fun Queue_drain :: "nat \<Rightarrow> 'a Queue_T \<Rightarrow> 'a list" where
  "Queue_drain 0 q = []"
| "Queue_drain (Suc n) q =
     (if Queue_size q > 0
      then (case Queue_dequeue q of (None, _) \<Rightarrow> [] | (Some x, q') \<Rightarrow> x # Queue_drain n q')
      else [])"

lemma Queue_drain_eq: "queue_wf q \<Longrightarrow> Queue_drain n q = lq.drain n q"
proof (induction n arbitrary: q)
  case (Suc n)
  show ?case
  proof (cases "Queue_size q > 0")
    case True
    obtain v q' where d: "Queue_dequeue q = (v, q')" by (cases "Queue_dequeue q")
    with lq.deq_wf [OF Suc.prems] have "queue_wf q'" by simp
    with Suc.IH True d show ?thesis by (simp split: option.splits)
  next
    case False
    with lq.siz [OF Suc.prems] have "queue_elems q = []" by simp
    with False show ?thesis using lq.deq_Nil [OF Suc.prems] by simp
  qed
qed simp

end
