(* ===== verification/Hash_Table.thy ===== *)
theory Hash_Table
  imports Linked_List
begin

text \<open>
  Models \<open>src/src/hash.c\<close> and the structs of \<open>src/src/hash.h\<close>: the open-addressing hash
  table with linear probing that holds configuration sections, configuration variables and
  blacklists. A slot is unused when its value is NULL (\<open>None\<close>). The bucket array is
  allocated by the first insertion; until then \<open>entries\<close> is NULL (\<open>None\<close>).

  The value destructor only releases memory and is not modelled. \<open>None\<close> as the result of
  an operation stands for a division by a zero size, a NULL dereference or an access outside the
  bucket array; the lemmas show that none of these happens on a table in its invariant.
\<close>

definition MAX_KEY_LEN :: nat where
  "MAX_KEY_LEN = 255"

record 'v Hash_entry =
  entry_k :: string
  entry_v :: "'v option"

record 'v Hash_T =
  hash_size :: nat
  num_entries :: nat
  entries :: "'v Hash_entry list option"

text \<open>The djb2 hash, in 32-bit unsigned arithmetic over signed chars.\<close>

fun Hash_lookup_loop :: "u32 \<Rightarrow> string \<Rightarrow> u32" where
  "Hash_lookup_loop hash [] = hash"
| "Hash_lookup_loop hash (c # key) =
     Hash_lookup_loop ((push_bit 5 hash + hash) + word_of_int (schar_code c)) key"

definition Hash_lookup :: "string \<Rightarrow> u32" where
  "Hash_lookup key = Hash_lookup_loop 5381 key"

definition Hash_create :: "nat \<Rightarrow> 'v Hash_T" where
  "Hash_create sz = \<lparr>hash_size = sz, num_entries = 0, entries = None\<rparr>"

definition unused_entry :: "'v Hash_entry" where
  "unused_entry = \<lparr>entry_k = [], entry_v = None\<rparr>"

definition Hash_create_entries :: "'v Hash_T \<Rightarrow> 'v Hash_T" where
  "Hash_create_entries h =
     h\<lparr>num_entries := 0, entries := Some (replicate (hash_size h) unused_entry)\<rparr>"

text \<open>
  The do-while loop of \<open>Hash_find_entry\<close>: \<open>n\<close> is the size of the table, \<open>j\<close> the home slot,
  \<open>i\<close> the current one. The loop ends when \<open>i\<close> comes back to \<open>j\<close>, after at most
  \<open>n\<close> rounds, so \<open>n\<close> is enough fuel.
\<close>

fun Hash_find_loop :: "'v Hash_entry list \<Rightarrow> nat \<Rightarrow> string \<Rightarrow> nat \<Rightarrow> nat \<Rightarrow> nat \<Rightarrow> nat option" where
  "Hash_find_loop es n key j 0 i = None"
| "Hash_find_loop es n key j (Suc fuel) i =
     (case nth_opt es i of
        None \<Rightarrow> None
      | Some cur \<Rightarrow>
          if entry_k cur = key \<or> entry_v cur = None then Some i
          else (let i' = (i + 1) mod n in
                if i' \<noteq> j then Hash_find_loop es n key j fuel i' else Some i))"

definition Hash_find_entry :: "'v Hash_T \<Rightarrow> string \<Rightarrow> nat option" where
  "Hash_find_entry h key =
     (case entries h of
        None \<Rightarrow> None
      | Some es \<Rightarrow>
          if hash_size h = 0 then None
          else (let j = unat (Hash_lookup key) mod hash_size h in
                Hash_find_loop es (hash_size h) key j (hash_size h) j))"

definition Hash_get :: "'v Hash_T \<Rightarrow> string \<Rightarrow> 'v option option" where
  "Hash_get h key =
     (case entries h of
        None \<Rightarrow> Some None
      | Some es \<Rightarrow>
          do { i \<leftarrow> Hash_find_entry h key;
               e \<leftarrow> nth_opt es i;
               Some (entry_v e) })"

text \<open>
  Insertion into a full table first rehashes every entry, by recursive insertions, into an array
  of twice the size. The recursion is written with an explicit depth; \<open>Hash_insert_depth\<close>
  below shows that depth 2 is always enough.
\<close>

fun Hash_rehash :: "('v Hash_T \<Rightarrow> string \<Rightarrow> 'v \<Rightarrow> 'v Hash_T option) \<Rightarrow> 'v Hash_entry list
    \<Rightarrow> 'v Hash_T \<Rightarrow> 'v Hash_T option" where
  "Hash_rehash ins [] h = Some h"
| "Hash_rehash ins (e # es) h =
     (case entry_v e of
        None \<Rightarrow> Hash_rehash ins es h
      | Some v \<Rightarrow> do { h1 \<leftarrow> ins h (entry_k e) v; Hash_rehash ins es h1 })"

definition Hash_resize :: "('v Hash_T \<Rightarrow> string \<Rightarrow> 'v \<Rightarrow> 'v Hash_T option) \<Rightarrow> 'v Hash_T \<Rightarrow> nat
    \<Rightarrow> 'v Hash_T option" where
  "Hash_resize ins h new_size =
     (if new_size \<le> hash_size h then Some h
      else do { old_entries \<leftarrow> entries h;
                Hash_rehash ins old_entries
                  (h\<lparr>entries := Some (replicate new_size unused_entry),
                     hash_size := new_size, num_entries := 0\<rparr>) })"

text \<open>The part of \<open>Hash_insert\<close> after the table has been allocated or grown.\<close>

definition Hash_store :: "'v Hash_T \<Rightarrow> string \<Rightarrow> 'v \<Rightarrow> 'v Hash_T option" where
  "Hash_store h key value =
     do { i \<leftarrow> Hash_find_entry h key;
          es \<leftarrow> entries h;
          e \<leftarrow> nth_opt es i;
          Some (h\<lparr>num_entries := (if entry_v e \<noteq> None then num_entries h else num_entries h + 1),
                  entries := Some (es[i := \<lparr>entry_k = take MAX_KEY_LEN key, entry_v = Some value\<rparr>])\<rparr>) }"

fun Hash_insert_d :: "nat \<Rightarrow> 'v Hash_T \<Rightarrow> string \<Rightarrow> 'v \<Rightarrow> 'v Hash_T option" where
  "Hash_insert_d 0 h key value = None"
| "Hash_insert_d (Suc d) h key value =
     do { h1 \<leftarrow> (if entries h = None then Some (Hash_create_entries h)
                 else if num_entries h \<ge> hash_size h
                 then Hash_resize (Hash_insert_d d) h (2 * hash_size h)
                 else Some h);
          Hash_store h1 key value }"

declare Hash_insert_d.simps(2) [simp del]

definition Hash_insert :: "'v Hash_T \<Rightarrow> string \<Rightarrow> 'v \<Rightarrow> 'v Hash_T option" where
  "Hash_insert = Hash_insert_d 2"

definition Hash_delete :: "'v Hash_T \<Rightarrow> string \<Rightarrow> 'v Hash_T option" where
  "Hash_delete h key =
     (case entries h of
        None \<Rightarrow> Some h
      | Some es \<Rightarrow>
          do { i \<leftarrow> Hash_find_entry h key;
               e \<leftarrow> nth_opt es i;
               Some (if entry_v e \<noteq> None
                     then h\<lparr>entries := Some (es[i := \<lparr>entry_k = [], entry_v = None\<rparr>]),
                            num_entries := num_entries h - 1\<rparr>
                     else h) })"

definition Hash_reset :: "'v Hash_T \<Rightarrow> 'v Hash_T" where
  "Hash_reset h =
     (if num_entries h = 0 then h
      else h\<lparr>entries := map_option (map (\<lambda>e. e\<lparr>entry_v := None\<rparr>)) (entries h), num_entries := 0\<rparr>)"

fun collect_keys :: "'v Hash_entry list \<Rightarrow> string List_T \<Rightarrow> string List_T" where
  "collect_keys [] ks = ks"
| "collect_keys (e # es) ks =
     (if entry_v e \<noteq> None then collect_keys es (List_insert_after ks (entry_k e)) else collect_keys es ks)"

definition Hash_keys :: "'v Hash_T \<Rightarrow> string List_T option" where
  "Hash_keys h =
     (if num_entries h > 0
      then Some (collect_keys (case entries h of None \<Rightarrow> [] | Some es \<Rightarrow> es) List_create)
      else None)"

section \<open>Abstraction and invariant\<close>

definition occ :: "'v Hash_entry \<Rightarrow> bool" where
  "occ e \<longleftrightarrow> entry_v e \<noteq> None"

text \<open>The map a table stands for: its used slots, first one first.\<close>

definition slots_map :: "'v Hash_entry list \<Rightarrow> string \<rightharpoonup> 'v" where
  "slots_map es = map_of (map (\<lambda>e. (entry_k e, the (entry_v e))) (filter occ es))"

definition hash_map :: "'v Hash_T \<Rightarrow> string \<rightharpoonup> 'v" where
  "hash_map h = (case entries h of None \<Rightarrow> Map.empty | Some es \<Rightarrow> slots_map es)"

definition home :: "nat \<Rightarrow> string \<Rightarrow> nat" where
  "home n key = unat (Hash_lookup key) mod n"

text \<open>Every used slot is reached from its home slot through used slots only.\<close>

definition chained :: "'v Hash_entry list \<Rightarrow> nat \<Rightarrow> bool" where
  "chained es p \<longleftrightarrow>
     (\<exists>t < length es. p = (home (length es) (entry_k (es ! p)) + t) mod length es \<and>
        (\<forall>u < t. occ (es ! ((home (length es) (entry_k (es ! p)) + u) mod length es))))"

definition slots_ok :: "'v Hash_entry list \<Rightarrow> bool" where
  "slots_ok es \<longleftrightarrow>
     0 < length es \<and>
     (\<forall>p < length es. occ (es ! p) \<longrightarrow> chained es p \<and> length (entry_k (es ! p)) \<le> MAX_KEY_LEN) \<and>
     (\<forall>p < length es. \<forall>q < length es. occ (es ! p) \<and> occ (es ! q) \<and> entry_k (es ! p) = entry_k (es ! q)
        \<longrightarrow> p = q)"

definition hash_inv :: "'v Hash_T \<Rightarrow> bool" where
  "hash_inv h \<longleftrightarrow>
     0 < hash_size h \<and>
     (case entries h of
        None \<Rightarrow> num_entries h = 0
      | Some es \<Rightarrow> length es = hash_size h \<and> slots_ok es \<and> num_entries h = length (filter occ es))"

section \<open>The probe loop\<close>

lemma home_less: "0 < n \<Longrightarrow> home n key < n"
  by (simp add: home_def)

lemma probe_inj_le:
  assumes "(j + t) mod n = (j + u) mod n" and "t \<le> u" and "u < (n::nat)"
  shows "t = u"
proof -
  have "n dvd (j + u) - (j + t)"
    using assms(1,2) by (metis add_le_cancel_left mod_eq_dvd_iff_nat)
  then have "n dvd u - t" by simp
  with assms show ?thesis by (auto dest: dvd_imp_le)
qed

lemma probe_inj:
  assumes "(j + t) mod n = (j + u) mod n" and "t < n" and "u < (n::nat)"
  shows "t = u"
  using assms probe_inj_le [of j t n u] probe_inj_le [of j u n t] by (cases "t \<le> u") auto

definition probe_stop :: "'v Hash_entry list \<Rightarrow> string \<Rightarrow> nat \<Rightarrow> bool" where
  "probe_stop es key p \<longleftrightarrow> entry_k (es ! p) = key \<or> \<not> occ (es ! p)"

lemma Hash_find_loop_spec:
  assumes "length es = n" and "t < n" and "j < n"
  shows "\<exists>t'. t \<le> t' \<and> t' < n \<and>
      Hash_find_loop es n key j (n - t) ((j + t) mod n) = Some ((j + t') mod n) \<and>
      (\<forall>u. t \<le> u \<and> u < t' \<longrightarrow> \<not> probe_stop es key ((j + u) mod n)) \<and>
      (probe_stop es key ((j + t') mod n) \<or> t' = n - 1)"
  using assms(2)
proof (induction "n - t" arbitrary: t)
  case 0
  then show ?case by simp
next
  case (Suc m)
  let ?p = "(j + t) mod n"
  from Suc.hyps(2) Suc.prems have fuel: "n - t = Suc (n - Suc t)" by simp
  have p: "?p < n" using assms(3) by simp
  have nxt: "(?p + 1) mod n = (j + Suc t) mod n" by (simp add: mod_Suc_eq)
  show ?case
  proof (cases "probe_stop es key ?p")
    case True
    then show ?thesis
      using p assms(1) Suc.prems by (intro exI [of _ t]) (auto simp: fuel probe_stop_def occ_def)
  next
    case False
    show ?thesis
    proof (cases "Suc t = n")
      case True
      then have "(j + Suc t) mod n = j" using assms(3) by simp
      with False p assms(1) nxt show ?thesis
        using Suc.prems True by (intro exI [of _ t]) (auto simp: fuel probe_stop_def occ_def)
    next
      case ne: False
      have "(j + Suc t) mod n \<noteq> j"
      proof
        assume "(j + Suc t) mod n = j"
        then have "(j + Suc t) mod n = (j + 0) mod n" using assms(3) by simp
        then show False using ne Suc.prems probe_inj [of j "Suc t" n 0] by simp
      qed
      with False p assms(1) nxt have step:
        "Hash_find_loop es n key j (n - t) ?p =
         Hash_find_loop es n key j (n - Suc t) ((j + Suc t) mod n)"
        by (auto simp: fuel probe_stop_def occ_def)
      have "\<exists>t'. Suc t \<le> t' \<and> t' < n \<and>
          Hash_find_loop es n key j (n - Suc t) ((j + Suc t) mod n) = Some ((j + t') mod n) \<and>
          (\<forall>u. Suc t \<le> u \<and> u < t' \<longrightarrow> \<not> probe_stop es key ((j + u) mod n)) \<and>
          (probe_stop es key ((j + t') mod n) \<or> t' = n - 1)"
        using Suc.hyps ne Suc.prems by (intro Suc.hyps(1)) auto
      then show ?thesis
        unfolding step using False by (metis Suc_leD Suc_leI le_neq_implies_less)
    qed
  qed
qed

lemma Hash_find_entry_spec:
  assumes "entries h = Some es" and "length es = hash_size h" and "0 < hash_size h"
  obtains t where "t < hash_size h"
    and "Hash_find_entry h key = Some ((home (hash_size h) key + t) mod hash_size h)"
    and "\<And>u. u < t \<Longrightarrow> \<not> probe_stop es key ((home (hash_size h) key + u) mod hash_size h)"
    and "probe_stop es key ((home (hash_size h) key + t) mod hash_size h) \<or> t = hash_size h - 1"
proof -
  have "home (hash_size h) key < hash_size h" using assms(3) by (rule home_less)
  then show thesis
    using Hash_find_loop_spec [of es "hash_size h" 0 "home (hash_size h) key" key] assms that
    by (auto simp: Hash_find_entry_def home_def Let_def)
qed

lemma slots_okD:
  assumes "slots_ok es" and "p < length es" and "occ (es ! p)"
  shows "chained es p" and "length (entry_k (es ! p)) \<le> MAX_KEY_LEN"
    and "\<And>q. q < length es \<Longrightarrow> occ (es ! q) \<Longrightarrow> entry_k (es ! q) = entry_k (es ! p) \<Longrightarrow> q = p"
  using assms by (auto simp: slots_ok_def)

text \<open>The slot of a stored key is found; a missing key finds an unused slot, if there is one.\<close>

lemma find_present:
  assumes "entries h = Some es" and "length es = hash_size h" and "slots_ok es"
    and "p < length es" and "occ (es ! p)" and "entry_k (es ! p) = key"
  shows "Hash_find_entry h key = Some p"
proof -
  let ?n = "hash_size h" let ?j = "home (hash_size h) key"
  have n: "0 < ?n" using assms(2,3) by (simp add: slots_ok_def)
  obtain t where t: "t < ?n" "p = (?j + t) mod ?n" "\<And>u. u < t \<Longrightarrow> occ (es ! ((?j + u) mod ?n))"
    using slots_okD(1) [OF assms(3-5)] assms(2,6) by (auto simp: chained_def)
  obtain t' where t': "t' < ?n" "Hash_find_entry h key = Some ((?j + t') mod ?n)"
      "\<And>u. u < t' \<Longrightarrow> \<not> probe_stop es key ((?j + u) mod ?n)"
      "probe_stop es key ((?j + t') mod ?n) \<or> t' = ?n - 1"
    using Hash_find_entry_spec [OF assms(1,2) n] by blast
  have "\<not> t < t'"
    using t'(3) [of t] t(2) assms(6) by (auto simp: probe_stop_def)
  moreover have "\<not> t' < t"
  proof
    assume lt: "t' < t"
    with t(1) t'(4) have "probe_stop es key ((?j + t') mod ?n)" by auto
    moreover have o: "occ (es ! ((?j + t') mod ?n))" using t(3) lt by simp
    ultimately have "entry_k (es ! ((?j + t') mod ?n)) = key" by (simp add: probe_stop_def)
    then have "(?j + t') mod ?n = p"
      using slots_okD(3) [OF assms(3-5), of "(?j + t') mod ?n"] o assms(2,6) n by simp
    then show False using t(1,2) t'(1) lt probe_inj [of ?j t' ?n t] by simp
  qed
  ultimately show ?thesis using t'(2) t(2) by simp
qed

lemma find_absent:
  assumes "entries h = Some es" and "length es = hash_size h" and "0 < hash_size h"
    and absent: "\<And>p. p < length es \<Longrightarrow> occ (es ! p) \<Longrightarrow> entry_k (es ! p) \<noteq> key"
    and free: "length (filter occ es) < length es"
  obtains t where "t < hash_size h"
    and "Hash_find_entry h key = Some ((home (hash_size h) key + t) mod hash_size h)"
    and "\<not> occ (es ! ((home (hash_size h) key + t) mod hash_size h))"
    and "\<And>u. u < t \<Longrightarrow> occ (es ! ((home (hash_size h) key + u) mod hash_size h))"
proof -
  let ?n = "hash_size h" let ?j = "home (hash_size h) key"
  obtain t where t: "t < ?n" "Hash_find_entry h key = Some ((?j + t) mod ?n)"
      "\<And>u. u < t \<Longrightarrow> \<not> probe_stop es key ((?j + u) mod ?n)"
      "probe_stop es key ((?j + t) mod ?n) \<or> t = ?n - 1"
    using Hash_find_entry_spec [OF assms(1-3)] by blast
  have before: "occ (es ! ((?j + u) mod ?n))" if "u < t" for u
    using t(3) [OF that] by (simp add: probe_stop_def)
  have "\<not> occ (es ! ((?j + t) mod ?n))"
  proof
    assume o: "occ (es ! ((?j + t) mod ?n))"
    with absent assms(2,3) have "\<not> probe_stop es key ((?j + t) mod ?n)" by (simp add: probe_stop_def)
    with t(4) have last: "t = ?n - 1" by simp
    obtain q where q: "q < length es" "\<not> occ (es ! q)" using filter_not_all_ex [OF free] by blast
    obtain u where "u < ?n" "q = (?j + u) mod ?n"
    proof
      show "(q + (?n - ?j)) mod ?n < ?n" using assms(3) by simp
      have "?j < ?n" using assms(3) by (rule home_less)
      then have "(?j + (q + (?n - ?j)) mod ?n) mod ?n = (q + ?n) mod ?n"
        by (metis add.assoc add.commute le_add_diff_inverse2 less_imp_le_nat mod_add_left_eq)
      then show "q = (?j + (q + (?n - ?j)) mod ?n) mod ?n" using q(1) assms(2) by simp
    qed
    then show False using q(2) before [of u] o last by (cases "u = t") auto
  qed
  with t before show thesis using that by blast
qed

section \<open>Lookup and insertion refine a finite map\<close>

lemma slots_map_iff:
  assumes "slots_ok es"
  shows "slots_map es key = Some v \<longleftrightarrow> (\<exists>p < length es. entry_k (es ! p) = key \<and> entry_v (es ! p) = Some v)"
proof -
  let ?kv = "\<lambda>e. (entry_k e, the (entry_v e))"
  have "distinct (map entry_k (filter occ es))"
    using assms by (intro distinct_map_filter_index) (auto simp: slots_ok_def)
  then have "distinct (map fst (map ?kv (filter occ es)))"
    by (simp add: comp_def)
  then have "slots_map es key = Some v \<longleftrightarrow> (key, v) \<in> set (map ?kv (filter occ es))"
    unfolding slots_map_def by (rule map_of_eq_Some_iff)
  also have "\<dots> \<longleftrightarrow> (\<exists>e \<in> set es. entry_k e = key \<and> entry_v e = Some v)"
    by (auto simp: occ_def image_iff)
  also have "\<dots> \<longleftrightarrow> (\<exists>p < length es. entry_k (es ! p) = key \<and> entry_v (es ! p) = Some v)"
    by (metis in_set_conv_nth)
  finally show ?thesis .
qed

lemma hash_map_Some_iff:
  assumes "hash_inv h" and "entries h = Some es"
  shows "hash_map h key = Some v \<longleftrightarrow> (\<exists>p < length es. entry_k (es ! p) = key \<and> entry_v (es ! p) = Some v)"
  using assms by (simp add: hash_map_def hash_inv_def slots_map_iff)

lemma hash_map_NoneD:
  assumes "hash_inv h" and "entries h = Some es" and "hash_map h key = None"
    and "p < length es" and "occ (es ! p)"
  shows "entry_k (es ! p) \<noteq> key"
proof
  assume "entry_k (es ! p) = key"
  moreover obtain v where "entry_v (es ! p) = Some v" using assms(5) by (auto simp: occ_def)
  ultimately have "hash_map h key = Some v" using assms(4) hash_map_Some_iff [OF assms(1,2)] by auto
  with assms(3) show False by simp
qed

lemma Hash_get_present:
  assumes "hash_inv h" and "hash_map h key = Some v"
  shows "Hash_get h key = Some (Some v)"
proof -
  obtain es where es: "entries h = Some es" using assms(2) by (cases "entries h") (auto simp: hash_map_def)
  then obtain p where p: "p < length es" "entry_k (es ! p) = key" "entry_v (es ! p) = Some v"
    using assms by (auto simp: hash_map_Some_iff)
  then have "Hash_find_entry h key = Some p"
    using assms(1) es by (intro find_present) (auto simp: hash_inv_def occ_def)
  with es p show ?thesis by (simp add: Hash_get_def)
qed

lemma Hash_get_absent:
  assumes "hash_inv h" and "hash_map h key = None" and "num_entries h < hash_size h"
  shows "Hash_get h key = Some None"
proof (cases "entries h")
  case None
  then show ?thesis by (simp add: Hash_get_def)
next
  case (Some es)
  have len: "length es = hash_size h" "0 < hash_size h" "length (filter occ es) < length es"
    using assms(1,3) Some by (auto simp: hash_inv_def)
  obtain t where "Hash_find_entry h key = Some ((home (hash_size h) key + t) mod hash_size h)"
      "\<not> occ (es ! ((home (hash_size h) key + t) mod hash_size h))"
    using find_absent [OF Some len(1,2) hash_map_NoneD [OF assms(1) Some assms(2)] len(3)] by blast
  with Some len show ?thesis by (simp add: Hash_get_def occ_def)
qed

lemma chained_mono:
  assumes "chained es p" and "length es' = length es" and "entry_k (es' ! p) = entry_k (es ! p)"
    and "\<And>q. q < length es \<Longrightarrow> occ (es ! q) \<Longrightarrow> occ (es' ! q)" and "0 < length es"
  shows "chained es' p"
  using assms by (auto simp: chained_def)

lemma slots_map_update:
  assumes ok: "slots_ok es" "slots_ok (es[p := \<lparr>entry_k = key, entry_v = Some value\<rparr>])"
    and p: "p < length es" and here: "occ (es ! p) \<Longrightarrow> entry_k (es ! p) = key"
    and only: "\<And>q. q < length es \<Longrightarrow> occ (es ! q) \<Longrightarrow> entry_k (es ! q) = key \<Longrightarrow> q = p"
  shows "slots_map (es[p := \<lparr>entry_k = key, entry_v = Some value\<rparr>]) = (slots_map es)(key \<mapsto> value)"
proof (intro ext option_eqI)
  fix k v
  let ?es = "es[p := \<lparr>entry_k = key, entry_v = Some value\<rparr>]"
  have "slots_map ?es k = Some v \<longleftrightarrow> (\<exists>q < length es. entry_k (?es ! q) = k \<and> entry_v (?es ! q) = Some v)"
    by (simp add: slots_map_iff [OF ok(2)])
  also have "\<dots> \<longleftrightarrow> (if k = key then v = value
      else \<exists>q < length es. entry_k (es ! q) = k \<and> entry_v (es ! q) = Some v)"
  proof (cases "k = key")
    case True
    have "q = p" if "q < length es" "entry_k (?es ! q) = key" "entry_v (?es ! q) = Some v" for q
    proof (rule ccontr)
      assume ne: "q \<noteq> p"
      with that have "occ (es ! q)" "entry_k (es ! q) = key" by (simp_all add: occ_def)
      with only that(1) ne show False by blast
    qed
    then have "(\<exists>q < length es. entry_k (?es ! q) = key \<and> entry_v (?es ! q) = Some v) \<longleftrightarrow>
        entry_k (?es ! p) = key \<and> entry_v (?es ! p) = Some v"
      using p by blast
    with True p show ?thesis by auto
  next
    case False
    have "entry_k (?es ! q) = k \<and> entry_v (?es ! q) = Some v \<longleftrightarrow> entry_k (es ! q) = k \<and> entry_v (es ! q) = Some v"
      if "q < length es" for q
      using that False here p by (cases "q = p") (auto simp: occ_def)
    with False show ?thesis by auto
  qed
  also have "\<dots> \<longleftrightarrow> ((slots_map es)(key \<mapsto> value)) k = Some v"
    by (auto simp: slots_map_iff [OF ok(1)])
  finally show "slots_map ?es k = Some v \<longleftrightarrow> ((slots_map es)(key \<mapsto> value)) k = Some v" .
qed

text \<open>Storing a key in the slot the search returns keeps the invariant and updates the map.\<close>

lemma slots_ok_same:
  assumes "slots_ok es" and "length es' = length es"
    and "\<And>q. q < length es \<Longrightarrow> occ (es' ! q) = occ (es ! q) \<and> entry_k (es' ! q) = entry_k (es ! q)"
  shows "slots_ok es'"
  unfolding slots_ok_def
proof (intro conjI allI impI)
  show "0 < length es'" using assms by (simp add: slots_ok_def)
next
  fix q assume "q < length es'" "occ (es' ! q)"
  then have q: "q < length es" "occ (es ! q)" using assms(2,3) by simp_all
  from slots_okD(1) [OF assms(1) this] have "chained es q" .
  then show "chained es' q"
    by (rule chained_mono) (use assms q in \<open>auto simp: slots_ok_def\<close>)
next
  fix q assume "q < length es'" "occ (es' ! q)"
  then show "length (entry_k (es' ! q)) \<le> MAX_KEY_LEN" using assms slots_okD(2) [OF assms(1)] by simp
next
  fix q r assume "q < length es'" "r < length es'"
    "occ (es' ! q) \<and> occ (es' ! r) \<and> entry_k (es' ! q) = entry_k (es' ! r)"
  then show "q = r" using assms slots_okD(3) [OF assms(1)] by simp
qed

lemma slots_ok_add:
  assumes ok: "slots_ok es" and p: "p < length es" and free: "\<not> occ (es ! p)"
    and new: "\<And>q. q < length es \<Longrightarrow> occ (es ! q) \<Longrightarrow> entry_k (es ! q) \<noteq> key"
    and chain: "t < length es" "p = (home (length es) key + t) mod length es"
      "\<And>u. u < t \<Longrightarrow> occ (es ! ((home (length es) key + u) mod length es))"
    and len: "length key \<le> MAX_KEY_LEN"
  shows "slots_ok (es[p := \<lparr>entry_k = key, entry_v = Some value\<rparr>])" (is "slots_ok ?es")
proof -
  have n: "0 < length es" using ok by (simp add: slots_ok_def)
  have occ': "occ (?es ! q) \<longleftrightarrow> q = p \<or> occ (es ! q)" if "q < length es" for q
    using that p by (auto simp: nth_list_update occ_def)
  have key': "entry_k (?es ! q) = (if q = p then key else entry_k (es ! q))" if "q < length es" for q
    using that p by (auto simp: nth_list_update)
  have "chained ?es q" if q: "q < length es" "occ (?es ! q)" for q
  proof (cases "q = p")
    case True
    then show ?thesis unfolding chained_def
      using chain p key' n occ' by (intro exI [of _ t]) auto
  next
    case False
    then have "chained es q" using q occ' slots_okD(1) [OF ok] by simp
    then show ?thesis
      using q key' n False by (rule_tac chained_mono [of es q ?es]) (auto simp: occ')
  qed
  moreover have "length (entry_k (?es ! q)) \<le> MAX_KEY_LEN" if q: "q < length es" "occ (?es ! q)" for q
    using q occ' key' len slots_okD(2) [OF ok] by auto
  moreover have "q = r" if "q < length es" "r < length es" "occ (?es ! q)" "occ (?es ! r)"
      "entry_k (?es ! q) = entry_k (?es ! r)" for q r
    using that occ' key' new slots_okD(3) [OF ok] by (auto split: if_splits)
  ultimately show ?thesis using n by (auto simp: slots_ok_def)
qed

lemma Hash_store_correct:
  assumes inv: "hash_inv h" and es: "entries h = Some es" and len: "length key \<le> MAX_KEY_LEN"
    and room: "num_entries h < hash_size h"
  obtains h' where "Hash_store h key value = Some h'" and "hash_inv h'"
    and "hash_map h' = (hash_map h)(key \<mapsto> value)" and "entries h' \<noteq> None"
    and "hash_size h' = hash_size h" and "num_entries h' \<le> Suc (num_entries h)"
proof -
  have ok: "slots_ok es" and n: "length es = hash_size h" "0 < hash_size h"
    and cnt: "num_entries h = length (filter occ es)"
    using inv es by (auto simp: hash_inv_def)
  let ?e = "\<lparr>entry_k = key, entry_v = Some value\<rparr>"
  have "\<exists>p < length es. Hash_find_entry h key = Some p \<and> slots_ok (es[p := ?e]) \<and>
      (occ (es ! p) \<longrightarrow> entry_k (es ! p) = key) \<and>
      (\<forall>q < length es. occ (es ! q) \<longrightarrow> entry_k (es ! q) = key \<longrightarrow> q = p)"
  proof (cases "\<exists>p < length es. occ (es ! p) \<and> entry_k (es ! p) = key")
    case True
    then obtain p where p: "p < length es" "occ (es ! p)" "entry_k (es ! p) = key" by blast
    then have "Hash_find_entry h key = Some p" using find_present [OF es n(1) ok] by simp
    moreover have "slots_ok (es[p := ?e])"
      using p by (intro slots_ok_same [OF ok]) (auto simp: nth_list_update occ_def)
    moreover have "q = p" if "q < length es" "occ (es ! q)" "entry_k (es ! q) = key" for q
      using slots_okD(3) [OF ok p(1,2)] that p(3) by simp
    ultimately show ?thesis using p(1,3) by blast
  next
    case False
    then have new: "\<And>q. q < length es \<Longrightarrow> occ (es ! q) \<Longrightarrow> entry_k (es ! q) \<noteq> key" by blast
    obtain t where t: "t < hash_size h"
        "Hash_find_entry h key = Some ((home (hash_size h) key + t) mod hash_size h)"
        "\<not> occ (es ! ((home (hash_size h) key + t) mod hash_size h))"
        "\<And>u. u < t \<Longrightarrow> occ (es ! ((home (hash_size h) key + u) mod hash_size h))"
      using find_absent [OF es n new] cnt room n by auto
    let ?p = "(home (hash_size h) key + t) mod hash_size h"
    have p: "?p < length es" using n by simp
    have "slots_ok (es[?p := ?e])"
      by (rule slots_ok_add [OF ok p t(3) new _ _ _ len, where t = t]) (simp_all add: t(1,4) n(1))
    then show ?thesis using t(2,3) p new by (intro exI [of _ ?p] conjI) simp_all
  qed
  then obtain p where p: "p < length es" "Hash_find_entry h key = Some p" "slots_ok (es[p := ?e])"
      "occ (es ! p) \<Longrightarrow> entry_k (es ! p) = key"
      "\<And>q. q < length es \<Longrightarrow> occ (es ! q) \<Longrightarrow> entry_k (es ! q) = key \<Longrightarrow> q = p"
    by blast
  let ?h = "h\<lparr>num_entries := (if entry_v (es ! p) \<noteq> None then num_entries h else num_entries h + 1),
      entries := Some (es[p := ?e])\<rparr>"
  show thesis
  proof (rule that [of ?h])
    show "Hash_store h key value = Some ?h"
      using p(1,2) es len by (simp add: Hash_store_def)
    have "length (filter occ (es[p := ?e])) =
        (if occ (es ! p) then length (filter occ es) else Suc (length (filter occ es)))"
      using p(1) card_index_same [of p es occ ?e] card_index_update [of p es occ ?e] by (auto simp: occ_def)
    then show "hash_inv ?h" using p(3) n cnt by (auto simp: hash_inv_def occ_def)
    have "slots_map (es[p := ?e]) = (slots_map es)(key \<mapsto> value)"
      by (rule slots_map_update) (fact ok p)+
    with es show "hash_map ?h = (hash_map h)(key \<mapsto> value)" by (simp add: hash_map_def)
  qed auto
qed

section \<open>Growing the table\<close>

definition slot_pairs :: "'v Hash_entry list \<Rightarrow> (string \<times> 'v) list" where
  "slot_pairs es = map (\<lambda>e. (entry_k e, the (entry_v e))) (filter occ es)"

lemma slots_map_pairs: "slots_map es = map_of (slot_pairs es)"
  by (simp add: slots_map_def slot_pairs_def)

lemma map_of_rev_distinct: "distinct (map fst xs) \<Longrightarrow> map_of (rev xs) = map_of xs"
  by (intro ext option_eqI) (simp add: map_of_eq_Some_iff rev_map [symmetric])

lemma slots_ok_distinct: "slots_ok es \<Longrightarrow> distinct (map fst (slot_pairs es))"
  unfolding slot_pairs_def using distinct_map_filter_index [of es occ entry_k]
  by (auto simp: slots_ok_def comp_def)

lemma slots_ok_replicate [simp]: "0 < n \<Longrightarrow> slots_ok (replicate n unused_entry)"
  by (simp add: slots_ok_def occ_def unused_entry_def)

lemma filter_occ_replicate [simp]: "filter occ (replicate n unused_entry) = []"
  by (simp add: filter_empty_conv occ_def unused_entry_def)

lemma Hash_create_entries_inv [simp]: "0 < hash_size h \<Longrightarrow> hash_inv (Hash_create_entries h)"
  by (simp add: Hash_create_entries_def hash_inv_def)

lemma Hash_create_inv [simp]: "0 < n \<Longrightarrow> hash_inv (Hash_create n)"
  by (simp add: Hash_create_def hash_inv_def)

lemma Hash_create_map [simp]: "hash_map (Hash_create n) = Map.empty"
  by (simp add: hash_map_def Hash_create_def)

lemma Hash_insert_d_room:
  "entries h \<noteq> None \<Longrightarrow> num_entries h < hash_size h \<Longrightarrow> Hash_insert_d (Suc d) h key v = Hash_store h key v"
  by (auto simp: Hash_insert_d.simps(2))

lemma Hash_rehash_correct:
  assumes "hash_inv h" and "entries h \<noteq> None"
    and "num_entries h + length (filter occ es) \<le> hash_size h"
    and "\<And>e. e \<in> set es \<Longrightarrow> occ e \<Longrightarrow> length (entry_k e) \<le> MAX_KEY_LEN"
  shows "\<exists>h'. Hash_rehash Hash_store es h = Some h' \<and>
      (\<forall>d. Hash_rehash (Hash_insert_d (Suc d)) es h = Some h') \<and> hash_inv h' \<and> entries h' \<noteq> None \<and>
      hash_size h' = hash_size h \<and> num_entries h' \<le> num_entries h + length (filter occ es) \<and>
      hash_map h' = hash_map h ++ map_of (rev (slot_pairs es))"
  using assms
proof (induction es arbitrary: h)
  case Nil
  then show ?case by (simp add: slot_pairs_def)
next
  case (Cons e es)
  show ?case
  proof (cases "entry_v e")
    case None
    then show ?thesis using Cons.IH [of h] Cons.prems by (simp add: occ_def slot_pairs_def)
  next
    case (Some v)
    then have o: "occ e" by (simp add: occ_def)
    then have room: "num_entries h < hash_size h" using Cons.prems(3) by simp
    obtain es0 where es0: "entries h = Some es0" using Cons.prems(2) by auto
    have len: "length (entry_k e) \<le> MAX_KEY_LEN" using Cons.prems(4) o by simp
    obtain h1 where h1: "Hash_store h (entry_k e) v = Some h1" "hash_inv h1"
        "hash_map h1 = (hash_map h)(entry_k e \<mapsto> v)" "entries h1 \<noteq> None"
        "hash_size h1 = hash_size h" "num_entries h1 \<le> Suc (num_entries h)"
      by (rule Hash_store_correct [OF Cons.prems(1) es0 len room])
    have ins: "Hash_insert_d (Suc d) h (entry_k e) v = Some h1" for d
      using Hash_insert_d_room [OF Cons.prems(2) room] h1(1) by simp
    have room': "num_entries h1 + length (filter occ es) \<le> hash_size h1"
      using h1(5,6) Cons.prems(3) o by simp
    obtain h' where h': "Hash_rehash Hash_store es h1 = Some h'"
        "\<forall>d. Hash_rehash (Hash_insert_d (Suc d)) es h1 = Some h'" "hash_inv h'" "entries h' \<noteq> None"
        "hash_size h' = hash_size h1" "num_entries h' \<le> num_entries h1 + length (filter occ es)"
        "hash_map h' = hash_map h1 ++ map_of (rev (slot_pairs es))"
      using Cons.IH [OF h1(2,4) room'] Cons.prems(4) by auto
    have "hash_map h' = hash_map h ++ map_of (rev (slot_pairs (e # es)))"
      using h'(7) h1(3) Some o by (simp add: slot_pairs_def map_add_upd_left map_add_upd [symmetric])
    moreover have "num_entries h' \<le> num_entries h + length (filter occ (e # es))"
      using h'(6) h1(6) o by simp
    ultimately show ?thesis
      using h'(1-5) h1(1,5) ins Some by (intro exI [of _ h']) simp
  qed
qed

lemma Hash_resize_correct:
  assumes inv: "hash_inv h" and es: "entries h = Some es"
  shows "\<exists>h'. (\<forall>d. Hash_resize (Hash_insert_d (Suc d)) h (2 * hash_size h) = Some h') \<and> hash_inv h' \<and>
      entries h' \<noteq> None \<and> hash_size h' = 2 * hash_size h \<and> num_entries h' < hash_size h' \<and>
      hash_map h' = hash_map h"
proof -
  have ok: "slots_ok es" and n: "length es = hash_size h" "0 < hash_size h"
    using inv es by (auto simp: hash_inv_def)
  let ?h = "h\<lparr>entries := Some (replicate (2 * hash_size h) unused_entry),
      hash_size := 2 * hash_size h, num_entries := 0\<rparr>"
  have inv0: "hash_inv ?h" and room: "length (filter occ es) \<le> hash_size h"
    using n by (auto simp: hash_inv_def intro: order_trans [OF length_filter_le])
  have keys: "length (entry_k e) \<le> MAX_KEY_LEN" if "e \<in> set es" "occ e" for e
    using that slots_okD(2) [OF ok] by (metis in_set_conv_nth)
  obtain h' where h': "\<forall>d. Hash_rehash (Hash_insert_d (Suc d)) es ?h = Some h'" "hash_inv h'"
      "entries h' \<noteq> None" "hash_size h' = hash_size ?h"
      "num_entries h' \<le> num_entries ?h + length (filter occ es)"
      "hash_map h' = hash_map ?h ++ map_of (rev (slot_pairs es))"
    using Hash_rehash_correct [OF inv0, of es] keys room by auto
  have "hash_map ?h = Map.empty" by (simp add: hash_map_def slots_map_def)
  then have "hash_map h' = hash_map h"
    using h'(6) es map_of_rev_distinct [OF slots_ok_distinct [OF ok]]
    by (simp add: hash_map_def slots_map_pairs)
  with h' n es room show ?thesis by (intro exI [of _ h']) (auto simp: Hash_resize_def)
qed

lemma Hash_insert_d_correct:
  assumes inv: "hash_inv h" and len: "length key \<le> MAX_KEY_LEN"
  shows "\<exists>h'. (\<forall>d. Hash_insert_d (Suc (Suc d)) h key v = Some h') \<and> hash_inv h' \<and>
      hash_map h' = (hash_map h)(key \<mapsto> v) \<and> entries h' \<noteq> None \<and>
      hash_size h' \<in> {hash_size h, 2 * hash_size h}"
proof -
  let ?prep = "\<lambda>d. if entries h = None then Some (Hash_create_entries h)
      else if num_entries h \<ge> hash_size h
      then Hash_resize (Hash_insert_d (Suc d)) h (2 * hash_size h) else Some h"
  obtain h1 where h1: "\<And>d. ?prep d = Some h1" "hash_inv h1" "entries h1 \<noteq> None"
      "num_entries h1 < hash_size h1" "hash_map h1 = hash_map h"
      "hash_size h1 \<in> {hash_size h, 2 * hash_size h}"
  proof (cases "entries h")
    case None
    then show thesis using inv
      by (intro that [of "Hash_create_entries h"])
        (auto simp: hash_inv_def Hash_create_entries_def hash_map_def slots_map_def)
  next
    case (Some es)
    show thesis
    proof (cases "num_entries h \<ge> hash_size h")
      case True
      then show thesis using Hash_resize_correct [OF inv Some] Some that by auto
    next
      case False
      then show thesis using Some inv by (intro that [of h]) auto
    qed
  qed
  obtain es1 where es1: "entries h1 = Some es1" using h1(3) by auto
  obtain h' where h': "Hash_store h1 key v = Some h'" "hash_inv h'"
      "hash_map h' = (hash_map h1)(key \<mapsto> v)" "entries h' \<noteq> None" "hash_size h' = hash_size h1"
    by (rule Hash_store_correct [OF h1(2) es1 len h1(4)])
  have "Hash_insert_d (Suc (Suc d)) h key v = Some h'" for d
    unfolding Hash_insert_d.simps(2) [of "Suc d"] h1(1) using h'(1) by simp
  with h' h1 show ?thesis by auto
qed

text \<open>Two levels of recursion are enough: deeper ones give the same table.\<close>

lemma Hash_insert_depth:
  assumes "hash_inv h" and "length key \<le> MAX_KEY_LEN"
  shows "Hash_insert_d (Suc (Suc d)) h key v = Hash_insert h key v"
  using Hash_insert_d_correct [OF assms, of v] unfolding Hash_insert_def numeral_2_eq_2 by auto

lemma Hash_insert_correct:
  assumes "hash_inv h" and "length key \<le> MAX_KEY_LEN"
  obtains h' where "Hash_insert h key v = Some h'" and "hash_inv h'"
    and "hash_map h' = (hash_map h)(key \<mapsto> v)" and "entries h' \<noteq> None"
    and "hash_size h' \<in> {hash_size h, 2 * hash_size h}"
  using Hash_insert_d_correct [OF assms, of v] unfolding Hash_insert_def numeral_2_eq_2 by auto

lemma hash_entries_card:
  assumes "hash_inv h"
  shows "num_entries h = card (dom (hash_map h))"
proof (cases "entries h")
  case None
  then show ?thesis using assms by (simp add: hash_inv_def hash_map_def)
next
  case (Some es)
  then have ok: "slots_ok es" "num_entries h = length (slot_pairs es)" using assms by (auto simp: hash_inv_def slot_pairs_def)
  then have "card (set (map fst (slot_pairs es))) = num_entries h" using slots_ok_distinct distinct_card by fastforce
  then show ?thesis using Some by (simp add: hash_map_def slots_map_pairs dom_map_of_conv_image_fst)
qed

section \<open>Full tables, deletion and key listing\<close>

text \<open>A full table has no unused slot to stop the search, which then ends on the slot before
  the home slot and returns the value stored there under another key.\<close>

lemma Hash_get_full:
  assumes inv: "hash_inv h" and full: "num_entries h = hash_size h" and absent: "hash_map h key = None"
  shows "\<exists>key' v. key' \<noteq> key \<and> hash_map h key' = Some v \<and> Hash_get h key = Some (Some v)"
proof -
  obtain es where es: "entries h = Some es" using inv full by (cases "entries h") (auto simp: hash_inv_def)
  have n: "length es = hash_size h" "0 < hash_size h" using inv es by (auto simp: hash_inv_def)
  have "filter occ es = es"
    using inv es full n by (simp add: hash_inv_def) (metis filter_id_conv length_filter_less nat_neq_iff)
  then have all: "occ (es ! p)" if "p < length es" for p using that by (metis filter_id_conv nth_mem)
  obtain t where t: "Hash_find_entry h key = Some ((home (hash_size h) key + t) mod hash_size h)"
    using Hash_find_entry_spec [OF es n] by blast
  let ?p = "(home (hash_size h) key + t) mod hash_size h"
  have p: "?p < length es" using n by simp
  obtain v where v: "entry_v (es ! ?p) = Some v" using all [OF p] by (auto simp: occ_def)
  have "hash_map h (entry_k (es ! ?p)) = Some v"
    using p v hash_map_Some_iff [OF inv es] by blast
  moreover have "entry_k (es ! ?p) \<noteq> key"
    using hash_map_NoneD [OF inv es absent p all [OF p]] .
  moreover have "Hash_get h key = Some (Some v)" using es t p v by (simp add: Hash_get_def)
  ultimately show ?thesis by blast
qed

lemma collect_keys_head: "list_head (collect_keys es ks) = list_head ks @ map entry_k (filter occ es)"
  by (induction es arbitrary: ks) (auto simp: occ_def)

lemma collect_keys_wf: "List_wf ks \<Longrightarrow> List_wf (collect_keys es ks)"
  by (induction es arbitrary: ks) auto

lemma Hash_keys_correct:
  assumes inv: "hash_inv h"
  shows "case Hash_keys h of
      None \<Rightarrow> hash_map h = Map.empty
    | Some ks \<Rightarrow> List_wf ks \<and> distinct (list_head ks) \<and> set (list_head ks) = dom (hash_map h)
        \<and> list_size ks = int (num_entries h)"
proof (cases "entries h")
  case None
  then show ?thesis using inv by (simp add: Hash_keys_def hash_inv_def hash_map_def)
next
  case (Some es)
  have ok: "slots_ok es" and cnt: "num_entries h = length (filter occ es)"
    using inv Some by (auto simp: hash_inv_def)
  show ?thesis
  proof (cases "num_entries h > 0")
    case True
    have wf: "List_wf (collect_keys es List_create)" by (simp add: collect_keys_wf)
    moreover have "distinct (map entry_k (filter occ es))"
      using ok by (intro distinct_map_filter_index) (auto simp: slots_ok_def)
    moreover have "set (map entry_k (filter occ es)) = dom (hash_map h)"
      using Some by (auto simp: hash_map_def slots_map_def dom_map_of_conv_image_fst image_image)
    ultimately show ?thesis
      using True Some cnt by (simp add: Hash_keys_def collect_keys_head List_wf_def)
  next
    case False
    then show ?thesis using Some cnt by (simp add: Hash_keys_def hash_map_def slots_map_def)
  qed
qed

section \<open>The contract of a keyed store\<close>

text \<open>
  What the configuration and the list of blacklists rely on: a value stored under a valid key is the
  one found under it, and other keys keep theirs.
\<close>

locale keyed_store =
  fixes inv :: "'t \<Rightarrow> bool" and put :: "'t \<Rightarrow> 'k \<Rightarrow> 'v \<Rightarrow> 't option" and get :: "'t \<Rightarrow> 'k \<Rightarrow> 'v option option"
    and abs :: "'t \<Rightarrow> 'k \<rightharpoonup> 'v" and valid :: "'k \<Rightarrow> bool"
  assumes put_ok: "inv t \<Longrightarrow> valid k \<Longrightarrow> \<exists>t'. put t k v = Some t' \<and> inv t' \<and> abs t' = (abs t)(k \<mapsto> v)"
    and get_present: "inv t \<Longrightarrow> abs t k = Some v \<Longrightarrow> get t k = Some (Some v)"
begin

lemma put_get:
  assumes "inv t" and "valid k"
  shows "\<exists>t'. put t k v = Some t' \<and> inv t' \<and> get t' k = Some (Some v) \<and>
           (\<forall>k' v'. k' \<noteq> k \<longrightarrow> abs t k' = Some v' \<longrightarrow> get t' k' = Some (Some v'))"
proof -
  obtain t' where t': "put t k v = Some t'" "inv t'" "abs t' = (abs t)(k \<mapsto> v)"
    using put_ok [OF assms] by blast
  then show ?thesis using get_present [of t'] by auto
qed

lemma put_all:
  assumes "inv t" and "\<forall>(k, v)\<in>set kvs. valid k"
  shows "\<exists>t'. fold_opt (\<lambda>t (k, v). put t k v) t kvs = Some t' \<and> inv t' \<and> abs t' = abs t ++ map_of (rev kvs)"
  using assms
proof (induction kvs arbitrary: t)
  case (Cons kv kvs)
  obtain k v where kv: "kv = (k, v)" by (cases kv)
  obtain t1 where t1: "put t k v = Some t1" "inv t1" "abs t1 = (abs t)(k \<mapsto> v)"
    using put_ok [of t k v] Cons.prems by (auto simp: kv)
  have "abs t ++ map_of (rev (kv # kvs)) = abs t1 ++ map_of (rev kvs)"
    by (rule ext) (simp add: kv t1(3) map_add_def split: option.split)
  then show ?case using Cons.IH [OF t1(2)] Cons.prems(2) t1(1) by (auto simp: kv)
qed simp

end

interpretation ht: keyed_store hash_inv Hash_insert Hash_get hash_map "\<lambda>k. length k \<le> MAX_KEY_LEN"
proof
  fix h :: "'v Hash_T" and k :: string and v
  assume "hash_inv h" "length k \<le> MAX_KEY_LEN"
  then show "\<exists>h'. Hash_insert h k v = Some h' \<and> hash_inv h' \<and> hash_map h' = (hash_map h)(k \<mapsto> v)"
    by (rule Hash_insert_correct [where v = v]) blast
qed (rule Hash_get_present)

section \<open>Properties\<close>

lemma Hash_find_loop_numeral:
  "Hash_find_loop es n key j (numeral f) i =
     (case nth_opt es i of
        None \<Rightarrow> None
      | Some cur \<Rightarrow>
          if entry_k cur = key \<or> entry_v cur = None then Some i
          else (let i' = (i + 1) mod n in
                if i' \<noteq> j then Hash_find_loop es n key j (pred_numeral f) i' else Some i))"
  by (simp add: numeral_eq_Suc)

lemmas small_table_simps = Hash_insert_def numeral_2_eq_2 Hash_insert_d.simps Hash_create_def Hash_create_entries_def
  Hash_store_def Hash_find_entry_def Hash_find_loop_numeral Hash_lookup_def Hash_delete_def Hash_get_def nth_opt_def
  unused_entry_def schar_code_def char_code_def MAX_KEY_LEN_def Let_def

text \<open>Insertions keep the size or double it.\<close>

lemma Hash_insert_all_size:
  assumes "hash_inv h" and "\<forall>(k, v)\<in>set kvs. length k \<le> MAX_KEY_LEN"
    and "fold_opt (\<lambda>h (k, v). Hash_insert h k v) h kvs = Some h'"
  shows "hash_size h \<le> hash_size h'"
  using assms
proof (induction kvs arbitrary: h)
  case (Cons kv kvs)
  obtain k v where kv: "kv = (k, v)" by (cases kv)
  have len: "length k \<le> MAX_KEY_LEN" using Cons.prems(2) by (simp add: kv)
  obtain h1 where h1: "Hash_insert h k v = Some h1" "hash_inv h1" "hash_size h1 \<in> {hash_size h, 2 * hash_size h}"
    using Hash_insert_correct [OF Cons.prems(1) len, where v = v] .
  then have "hash_size h1 \<le> hash_size h'" using Cons.IH [OF h1(2)] Cons.prems(2,3) by (simp add: kv)
  then show ?case using h1(3) by auto
qed simp

text \<open>While a slot is unused, every lookup is that of the map.\<close>

lemma Hash_get_room:
  assumes "hash_inv h" and "num_entries h < hash_size h"
  shows "Hash_get h k = Some (hash_map h k)"
  using Hash_get_absent [OF assms(1), of k] Hash_get_present [OF assms(1), of k] assms(2)
  by (cases "hash_map h k") auto

text \<open>
  C27. A table of any positive size takes any number of insertions with keys of at most 255
  characters, growing as it needs to. It then stands for the map that holds the value stored last
  under each key and nothing else, it has as many entries as different keys were stored, and it
  answers for every stored key with the value stored last. While a slot is unused, so always when
  fewer keys were stored than the table was created for, it answers for every key, stored or not,
  exactly as the map does. (A table that is full misleads on a key that is not stored:
  \<open>Hash_get_full_wrong\<close> below.)
\<close>

theorem Hash_insert_get:
  assumes "0 < n" and "\<forall>(k, v)\<in>set kvs. length k \<le> MAX_KEY_LEN"
  shows "\<exists>h. fold_opt (\<lambda>h (k, v). Hash_insert h k v) (Hash_create n) kvs = Some h \<and> hash_inv h \<and>
           hash_map h = map_of (rev kvs) \<and> num_entries h = card (fst ` set kvs) \<and>
           (\<forall>k v. map_of (rev kvs) k = Some v \<longrightarrow> Hash_get h k = Some (Some v)) \<and>
           (card (fst ` set kvs) < n \<or> num_entries h < hash_size h \<longrightarrow>
              (\<forall>k. Hash_get h k = Some (map_of (rev kvs) k)))"
proof -
  obtain h where h: "fold_opt (\<lambda>h (k, v). Hash_insert h k v) (Hash_create n) kvs = Some h" "hash_inv h"
      "hash_map h = map_of (rev kvs)"
    using ht.put_all [of "Hash_create n" kvs] assms by auto
  have size: "n \<le> hash_size h"
    using Hash_insert_all_size [OF Hash_create_inv [OF assms(1)] assms(2) h(1)] by (simp add: Hash_create_def)
  have num: "num_entries h = card (fst ` set kvs)"
    using hash_entries_card [OF h(2)] by (simp add: h(3) dom_map_of_conv_image_fst)
  show ?thesis
    using h num size ht.get_present [OF h(2)] Hash_get_room [OF h(2)] by (intro exI [of _ h]) auto
qed

text \<open>
  C27 at three insertions, the last of which replaces a value, into a table of size 1, where the
  stored keys are found, and into one of size 3, where also a key that was not stored is told.
\<close>

theorem Hash_insert_get_witness:
  "(\<exists>h. fold_opt (\<lambda>h (k, v). Hash_insert h k v) (Hash_create 1) [(''a'', 1::int), (''b'', 2), (''a'', 3)] = Some h \<and>
       Hash_get h ''a'' = Some (Some 3) \<and> Hash_get h ''b'' = Some (Some 2)) \<and>
   (\<exists>h. fold_opt (\<lambda>h (k, v). Hash_insert h k v) (Hash_create 3) [(''a'', 1::int), (''b'', 2), (''a'', 3)] = Some h \<and>
       Hash_get h ''a'' = Some (Some 3) \<and> Hash_get h ''b'' = Some (Some 2) \<and> Hash_get h ''c'' = Some None)"
proof -
  let ?kvs = "[(''a'', 1::int), (''b'', 2), (''a'', 3)]"
  have keys: "\<forall>(k, v)\<in>set ?kvs. length k \<le> MAX_KEY_LEN" by (simp add: MAX_KEY_LEN_def)
  have "card (fst ` set ?kvs) < 3" by (simp add: insert_commute)
  then have "\<exists>h. fold_opt (\<lambda>h (k, v). Hash_insert h k v) (Hash_create 3) ?kvs = Some h \<and>
      (\<forall>k. Hash_get h k = Some (map_of (rev ?kvs) k))"
    using Hash_insert_get [OF zero_less_numeral keys] by blast
  moreover have "\<exists>h. fold_opt (\<lambda>h (k, v). Hash_insert h k v) (Hash_create 1) ?kvs = Some h \<and>
      (\<forall>k v. map_of (rev ?kvs) k = Some v \<longrightarrow> Hash_get h k = Some (Some v))"
    using Hash_insert_get [OF zero_less_one keys] by blast
  ultimately show ?thesis by auto
qed

text \<open>
  On a full table \<open>Hash_get\<close> answers for a key that is not stored with the value of another key.
\<close>

theorem Hash_get_full_wrong:
  assumes "hash_inv h" and "num_entries h = hash_size h" and "hash_map h key = None"
  shows "\<exists>key' v. key' \<noteq> key \<and> hash_map h key' = Some v \<and> Hash_get h key = Some (Some v)"
  using Hash_get_full [OF assms] .

text \<open>The statement at a table of size 1 that holds one key.\<close>

theorem Hash_get_full_wrong_witness:
  "\<exists>h. Hash_insert (Hash_create 1) ''a'' (7::int) = Some h \<and>
       (\<exists>key' v. key' \<noteq> ''b'' \<and> hash_map h key' = Some v \<and> Hash_get h ''b'' = Some (Some v))"
proof -
  have "hash_inv (Hash_create 1 :: int Hash_T)" "length ''a'' \<le> MAX_KEY_LEN" by (simp_all add: MAX_KEY_LEN_def)
  then obtain h where h: "Hash_insert (Hash_create 1) ''a'' (7::int) = Some h" "hash_inv h"
    "hash_map h = (hash_map (Hash_create 1))(''a'' \<mapsto> 7)"
    by (rule Hash_insert_correct)
  have "map_option (\<lambda>h. (num_entries h, hash_size h)) (Hash_insert (Hash_create 1) ''a'' (7::int)) = Some (1, 1)"
    by (simp add: small_table_simps)
  then have "num_entries h = hash_size h" using h(1) by simp
  then show ?thesis using Hash_get_full_wrong [of h "''b''"] h by auto
qed

text \<open>
  \<open>Hash_delete\<close> clears a slot without repairing the probe chain: in a table of size 4 that holds
  the colliding keys a and e, deleting a makes e unreachable.
\<close>

theorem Hash_delete_loses_key:
  "Option.bind (fold_opt (\<lambda>h (k, v). Hash_insert h k v) (Hash_create 4) [(''a'', 1::int), (''e'', 2)])
     (\<lambda>h. Option.bind (Hash_delete h ''a'') (\<lambda>h'. Hash_get h' ''e'')) = Some None"
proof -
  have homes: "unat (Hash_lookup ''a'') mod 4 = 2" "unat (Hash_lookup ''e'') mod 4 = 2"
    by (simp_all add: Hash_lookup_def schar_code_def)
  note steps = Hash_insert_def numeral_2_eq_2 Hash_insert_d.simps Hash_store_def Hash_find_entry_def
    Hash_find_loop_numeral nth_opt_def MAX_KEY_LEN_def homes Let_def
  let ?u = "unused_entry :: int Hash_entry"
  have 1: "Hash_insert (Hash_create 4) ''a'' (1::int) =
      Some \<lparr>hash_size = 4, num_entries = Suc 0, entries = Some [?u, ?u, \<lparr>entry_k = ''a'', entry_v = Some 1\<rparr>, ?u]\<rparr>"
    by (simp add: steps Hash_create_def Hash_create_entries_def) (simp add: numeral_eq_Suc unused_entry_def)
  have 2: "Hash_insert \<lparr>hash_size = 4, num_entries = Suc 0, entries = Some [?u, ?u, \<lparr>entry_k = ''a'', entry_v = Some 1\<rparr>, ?u]\<rparr> ''e'' 2 =
      Some \<lparr>hash_size = 4, num_entries = 2, entries = Some [?u, ?u, \<lparr>entry_k = ''a'', entry_v = Some 1\<rparr>,
        \<lparr>entry_k = ''e'', entry_v = Some 2\<rparr>]\<rparr>"
    by (simp add: steps) (simp add: unused_entry_def)
  show ?thesis
    by (simp add: 1 2 Hash_delete_def Hash_get_def Hash_find_entry_def homes Hash_find_loop_numeral nth_opt_def)
qed

text \<open>
  The key list of a table that satisfies the invariant holds every stored key exactly once; it is
  absent only for an empty table.
\<close>

theorem Hash_keys_exact:
  assumes "hash_inv h"
  shows "case Hash_keys h of
      None \<Rightarrow> hash_map h = Map.empty
    | Some ks \<Rightarrow> List_wf ks \<and> distinct (list_head ks) \<and> set (list_head ks) = dom (hash_map h)"
  using Hash_keys_correct [OF assms] by (simp split: option.splits)

text \<open>The statement at a table with two keys.\<close>

theorem Hash_keys_exact_witness:
  "\<exists>h. fold_opt (\<lambda>h (k, v). Hash_insert h k v) (Hash_create 5) [(''a'', 1::int), (''b'', 2)] = Some h \<and>
       (case Hash_keys h of None \<Rightarrow> hash_map h = Map.empty
        | Some ks \<Rightarrow> set (list_head ks) = dom (hash_map h))"
proof -
  obtain h where h: "fold_opt (\<lambda>h (k, v). Hash_insert h k v) (Hash_create 5) [(''a'', 1::int), (''b'', 2)] = Some h"
    "hash_inv h"
    using ht.put_all [of "Hash_create 5" "[(''a'', 1::int), (''b'', 2)]"] by (auto simp: MAX_KEY_LEN_def)
  from Hash_keys_exact [OF h(2)] show ?thesis using h(1) by (auto split: option.splits)
qed

end
