(* ===== verification/Config.thy ===== *)
theory Config
  imports Hash_Table
begin

text \<open>
  Models \<open>src/src/config_value.c\<close>, \<open>src/src/config_section.c\<close> and \<open>src/src/greyd_config.c\<close>:
  configuration values, sections of named values and the configuration that holds sections,
  blacklist and whitelist definitions and the queue of included files.

  Sections are shared: the parser and the setters keep a pointer to a section the tables also
  hold. The configuration therefore carries a store of sections, and the tables and the parser hold
  indices into it. Values are only reachable through one section and are kept by value. \<open>None\<close> is
  an undefined access of a table, a store or a NULL list. \<open>glob\<close> belongs to the C library's view of
  the file system and is a parameter.
\<close>

section \<open>Values\<close>

datatype Config_value = Int_value int | Str_value string | List_value "Config_value list"

definition CONFIG_VAL_TYPE_INT :: int where "CONFIG_VAL_TYPE_INT = 1"
definition CONFIG_VAL_TYPE_STR :: int where "CONFIG_VAL_TYPE_STR = 2"
definition CONFIG_VAL_TYPE_LIST :: int where "CONFIG_VAL_TYPE_LIST = 3"

fun cv_type :: "Config_value \<Rightarrow> int" where
  "cv_type (Int_value i) = CONFIG_VAL_TYPE_INT"
| "cv_type (Str_value s) = CONFIG_VAL_TYPE_STR"
| "cv_type (List_value l) = CONFIG_VAL_TYPE_LIST"

fun cv_str :: "Config_value option \<Rightarrow> string option" where
  "cv_str (Some (Str_value s)) = Some s"
| "cv_str _ = None"

fun cv_int :: "Config_value option \<Rightarrow> int" where
  "cv_int (Some (Int_value i)) = i"
| "cv_int _ = - 1"

fun cv_list :: "Config_value option \<Rightarrow> Config_value list option" where
  "cv_list (Some (List_value l)) = Some l"
| "cv_list _ = None"

fun Config_value_clone :: "Config_value \<Rightarrow> Config_value" where
  "Config_value_clone (Int_value i) = Int_value i"
| "Config_value_clone (Str_value s) = Str_value s"
| "Config_value_clone (List_value l) = List_value (fold (\<lambda>v acc. acc @ [Config_value_clone v]) l [])"

section \<open>Sections\<close>

definition CONFIG_SEC_INIT_ENTRIES :: nat where "CONFIG_SEC_INIT_ENTRIES = 25"

record Config_section_T =
  sec_name :: string
  sec_vars :: "Config_value Hash_T"

definition Config_section_create :: "string \<Rightarrow> Config_section_T" where
  "Config_section_create name = \<lparr>sec_name = name, sec_vars = Hash_create CONFIG_SEC_INIT_ENTRIES\<rparr>"

definition Config_section_get :: "Config_section_T \<Rightarrow> string \<Rightarrow> Config_value option option" where
  "Config_section_get section varname = Hash_get (sec_vars section) varname"

definition Config_section_delete :: "Config_section_T \<Rightarrow> string \<Rightarrow> Config_section_T option" where
  "Config_section_delete section varname =
     map_option (\<lambda>h. section\<lparr>sec_vars := h\<rparr>) (Hash_delete (sec_vars section) varname)"

definition Config_section_set :: "Config_section_T \<Rightarrow> string \<Rightarrow> Config_value \<Rightarrow> Config_section_T option" where
  "Config_section_set section varname value =
     map_option (\<lambda>h. section\<lparr>sec_vars := h\<rparr>) (Hash_insert (sec_vars section) varname value)"

definition Config_section_set_int :: "Config_section_T \<Rightarrow> string \<Rightarrow> int \<Rightarrow> Config_section_T option" where
  "Config_section_set_int section varname value = Config_section_set section varname (Int_value value)"

definition Config_section_set_str :: "Config_section_T \<Rightarrow> string \<Rightarrow> string \<Rightarrow> Config_section_T option" where
  "Config_section_set_str section varname value = Config_section_set section varname (Str_value value)"

definition Config_section_get_int :: "Config_section_T \<Rightarrow> string \<Rightarrow> int \<Rightarrow> int option" where
  "Config_section_get_int section varname default_int =
     do { v \<leftarrow> Config_section_get section varname;
          Some (case v of Some (Int_value i) \<Rightarrow> i | _ \<Rightarrow> default_int) }"

definition Config_section_get_str :: "Config_section_T \<Rightarrow> string \<Rightarrow> string option \<Rightarrow> string option option" where
  "Config_section_get_str section varname default_str =
     do { v \<leftarrow> Config_section_get section varname;
          Some (case v of Some (Str_value s) \<Rightarrow> Some s | _ \<Rightarrow> default_str) }"

definition Config_section_get_list :: "Config_section_T \<Rightarrow> string \<Rightarrow> Config_value list option option" where
  "Config_section_get_list section varname =
     do { v \<leftarrow> Config_section_get section varname; Some (cv_list v) }"

section \<open>The configuration\<close>

definition CONFIG_INIT_SECTIONS :: nat where "CONFIG_INIT_SECTIONS = 8"
definition CONFIG_INIT_INCLUDES :: nat where "CONFIG_INIT_INCLUDES = 3"
definition CONFIG_DEFAULT_SECTION :: string where "CONFIG_DEFAULT_SECTION = ''default''"

type_synonym secref = nat

record Config_T =
  cfg_store :: "Config_section_T list"
  cfg_sections :: "secref Hash_T"
  cfg_blacklists :: "secref Hash_T"
  cfg_whitelists :: "secref Hash_T"
  cfg_processed_includes :: "int Hash_T"
  cfg_includes :: "string Queue_T"

definition Config_create :: Config_T where
  "Config_create =
     \<lparr>cfg_store = [], cfg_sections = Hash_create CONFIG_INIT_SECTIONS,
      cfg_blacklists = Hash_create CONFIG_INIT_SECTIONS, cfg_whitelists = Hash_create CONFIG_INIT_SECTIONS,
      cfg_processed_includes = Hash_create CONFIG_INIT_INCLUDES, cfg_includes = Queue_create\<rparr>"

text \<open>Allocation, reading and writing of a section in the store.\<close>

definition new_section :: "Config_T \<Rightarrow> string \<Rightarrow> secref \<times> Config_T" where
  "new_section config name =
     (length (cfg_store config), config\<lparr>cfg_store := cfg_store config @ [Config_section_create name]\<rparr>)"

definition get_sec :: "Config_T \<Rightarrow> secref \<Rightarrow> Config_section_T option" where
  "get_sec config r = nth_opt (cfg_store config) r"

definition update_sec :: "Config_T \<Rightarrow> secref \<Rightarrow> (Config_section_T \<Rightarrow> Config_section_T option) \<Rightarrow> Config_T option" where
  "update_sec config r f =
     do { s \<leftarrow> get_sec config r; s' \<leftarrow> f s; Some (config\<lparr>cfg_store := (cfg_store config)[r := s']\<rparr>) }"

definition Config_add_section :: "Config_T \<Rightarrow> secref \<Rightarrow> Config_T option" where
  "Config_add_section config r =
     do { s \<leftarrow> get_sec config r; h \<leftarrow> Hash_insert (cfg_sections config) (sec_name s) r;
          Some (config\<lparr>cfg_sections := h\<rparr>) }"

definition Config_add_blacklist :: "Config_T \<Rightarrow> secref \<Rightarrow> Config_T option" where
  "Config_add_blacklist config r =
     do { s \<leftarrow> get_sec config r; h \<leftarrow> Hash_insert (cfg_blacklists config) (sec_name s) r;
          Some (config\<lparr>cfg_blacklists := h\<rparr>) }"

definition Config_add_whitelist :: "Config_T \<Rightarrow> secref \<Rightarrow> Config_T option" where
  "Config_add_whitelist config r =
     do { s \<leftarrow> get_sec config r; h \<leftarrow> Hash_insert (cfg_whitelists config) (sec_name s) r;
          Some (config\<lparr>cfg_whitelists := h\<rparr>) }"

definition Config_get_section :: "Config_T \<Rightarrow> string \<Rightarrow> secref option option" where
  "Config_get_section config section_name = Hash_get (cfg_sections config) section_name"

definition Config_get_blacklist :: "Config_T \<Rightarrow> string \<Rightarrow> secref option option" where
  "Config_get_blacklist config section_name = Hash_get (cfg_blacklists config) section_name"

definition Config_get_whitelist :: "Config_T \<Rightarrow> string \<Rightarrow> secref option option" where
  "Config_get_whitelist config section_name = Hash_get (cfg_whitelists config) section_name"

definition default_section :: "string option \<Rightarrow> string" where
  "default_section section_name = (case section_name of None \<Rightarrow> CONFIG_DEFAULT_SECTION | Some s \<Rightarrow> s)"

definition Config_get_str :: "Config_T \<Rightarrow> string \<Rightarrow> string option \<Rightarrow> string option \<Rightarrow> string option option" where
  "Config_get_str config varname section_name default_str =
     do { r \<leftarrow> Hash_get (cfg_sections config) (default_section section_name);
          case r of None \<Rightarrow> Some default_str
          | Some ref \<Rightarrow> do { s \<leftarrow> get_sec config ref; Config_section_get_str s varname default_str } }"

definition Config_get_int :: "Config_T \<Rightarrow> string \<Rightarrow> string option \<Rightarrow> int \<Rightarrow> int option" where
  "Config_get_int config varname section_name default_int =
     do { r \<leftarrow> Hash_get (cfg_sections config) (default_section section_name);
          case r of None \<Rightarrow> Some default_int
          | Some ref \<Rightarrow> do { s \<leftarrow> get_sec config ref; Config_section_get_int s varname default_int } }"

definition Config_get_list :: "Config_T \<Rightarrow> string \<Rightarrow> string option \<Rightarrow> Config_value list option option" where
  "Config_get_list config varname section_name =
     do { r \<leftarrow> Hash_get (cfg_sections config) (default_section section_name);
          case r of None \<Rightarrow> Some None
          | Some ref \<Rightarrow> do { s \<leftarrow> get_sec config ref; Config_section_get_list s varname } }"

text \<open>Looking a section up and creating it when it is not there, as the setters do.\<close>

definition find_or_create :: "Config_T \<Rightarrow> string \<Rightarrow> (secref \<times> Config_T) option" where
  "find_or_create config name =
     do { r \<leftarrow> Hash_get (cfg_sections config) name;
          case r of
            Some ref \<Rightarrow> Some (ref, config)
          | None \<Rightarrow>
              (let (ref, config1) = new_section config name
               in do { config2 \<leftarrow> Config_add_section config1 ref; Some (ref, config2) }) }"

definition Config_set_int :: "Config_T \<Rightarrow> string \<Rightarrow> string option \<Rightarrow> int \<Rightarrow> Config_T option" where
  "Config_set_int config varname section_name value =
     do { (ref, config1) \<leftarrow> find_or_create config (default_section section_name);
          update_sec config1 ref (\<lambda>s. Config_section_set_int s varname value) }"

definition Config_set_str :: "Config_T \<Rightarrow> string \<Rightarrow> string option \<Rightarrow> string \<Rightarrow> Config_T option" where
  "Config_set_str config varname section_name value =
     do { (ref, config1) \<leftarrow> find_or_create config (default_section section_name);
          update_sec config1 ref (\<lambda>s. Config_section_set_str s varname value) }"

definition Config_delete :: "Config_T \<Rightarrow> string \<Rightarrow> string option \<Rightarrow> Config_T option" where
  "Config_delete config varname section_name =
     do { r \<leftarrow> Hash_get (cfg_sections config) (default_section section_name);
          case r of None \<Rightarrow> Some config
          | Some ref \<Rightarrow> update_sec config ref (\<lambda>s. Config_section_delete s varname) }"

definition Config_append_list_str :: "Config_T \<Rightarrow> string \<Rightarrow> string \<Rightarrow> string \<Rightarrow> Config_T option" where
  "Config_append_list_str config varname section_name str =
     do { (ref, config1) \<leftarrow> find_or_create config section_name;
          update_sec config1 ref (\<lambda>s. do {
            v \<leftarrow> Config_section_get s varname;
            s1 \<leftarrow> (if v = None then Config_section_set s varname (List_value []) else Some s);
            l \<leftarrow> Config_section_get_list s1 varname;
            case l of None \<Rightarrow> None
            | Some vs \<Rightarrow> Config_section_set s1 varname (List_value (vs @ [Str_value str])) }) }"

fun merge_vars :: "Config_section_T \<Rightarrow> string list \<Rightarrow> Config_section_T \<Rightarrow> Config_section_T option" where
  "merge_vars from_section [] to = Some to"
| "merge_vars from_section (k # ks) to =
     do { v \<leftarrow> Hash_get (sec_vars from_section) k;
          from_val \<leftarrow> v;
          to' \<leftarrow> Config_section_set to k (Config_value_clone from_val);
          merge_vars from_section ks to' }"

fun merge_sections :: "Config_T \<Rightarrow> string list \<Rightarrow> Config_T \<Rightarrow> Config_T option" where
  "merge_sections from [] config = Some config"
| "merge_sections from (k # ks) config =
     do { (ref, config1) \<leftarrow> find_or_create config k;
          fr \<leftarrow> Hash_get (cfg_sections from) k;
          fref \<leftarrow> fr;
          from_section \<leftarrow> get_sec from fref;
          config2 \<leftarrow> (case Hash_keys (sec_vars from_section) of
                       None \<Rightarrow> Some config1
                     | Some section_keys \<Rightarrow> update_sec config1 ref (merge_vars from_section (list_head section_keys)));
          merge_sections from ks config2 }"

definition Config_merge :: "Config_T \<Rightarrow> Config_T \<Rightarrow> Config_T option" where
  "Config_merge config from =
     (case Hash_keys (cfg_sections from) of
        None \<Rightarrow> Some config
      | Some keys \<Rightarrow> merge_sections from (list_head keys) config)"

fun enqueue_includes :: "string list \<Rightarrow> Config_T \<Rightarrow> Config_T option" where
  "enqueue_includes [] config = Some config"
| "enqueue_includes (m # ms) config =
     do { seen \<leftarrow> Hash_get (cfg_processed_includes config) m;
          enqueue_includes ms (if seen = None then config\<lparr>cfg_includes := Queue_enqueue (cfg_includes config) m\<rparr>
                               else config) }"

definition Config_add_include :: "(string \<Rightarrow> string list option) \<Rightarrow> Config_T \<Rightarrow> string \<Rightarrow> Config_T option" where
  "Config_add_include glob config file =
     (case glob file of None \<Rightarrow> Some config | Some paths \<Rightarrow> enqueue_includes paths config)"

section \<open>Laws of sections and configurations\<close>

interpretation cs: keyed_store "\<lambda>s. hash_inv (sec_vars s)" Config_section_set Config_section_get
  "\<lambda>s. hash_map (sec_vars s)" "\<lambda>k. length k \<le> MAX_KEY_LEN"
proof
  fix s :: Config_section_T and k :: string and v
  assume "hash_inv (sec_vars s)" "length k \<le> MAX_KEY_LEN"
  then show "\<exists>s'. Config_section_set s k v = Some s' \<and> hash_inv (sec_vars s') \<and>
      hash_map (sec_vars s') = (hash_map (sec_vars s))(k \<mapsto> v)"
    using ht.put_ok [of "sec_vars s" k v] by (auto simp: Config_section_set_def)
qed (simp add: Config_section_get_def ht.get_present)

text \<open>The variables a configuration defines, and its invariant.\<close>

definition cfg_abs :: "Config_T \<Rightarrow> string \<Rightarrow> string \<rightharpoonup> Config_value" where
  "cfg_abs c sec var =
     (case hash_map (cfg_sections c) sec of
        None \<Rightarrow> None
      | Some r \<Rightarrow> (if r < length (cfg_store c) then hash_map (sec_vars (cfg_store c ! r)) var else None))"

definition cfg_inv :: "Config_T \<Rightarrow> bool" where
  "cfg_inv c \<longleftrightarrow>
     hash_inv (cfg_sections c) \<and> (\<forall>s\<in>set (cfg_store c). hash_inv (sec_vars s)) \<and>
     (\<forall>sec r. hash_map (cfg_sections c) sec = Some r \<longrightarrow> r < length (cfg_store c)) \<and>
     inj_on (hash_map (cfg_sections c)) (dom (hash_map (cfg_sections c)))"

text \<open>A lookup of a section answers truly: the section is there, or the table has room.\<close>

definition lookup_safe :: "Config_T \<Rightarrow> string \<Rightarrow> bool" where
  "lookup_safe c sec \<longleftrightarrow>
     hash_map (cfg_sections c) sec \<noteq> None \<or> num_entries (cfg_sections c) < hash_size (cfg_sections c)"

lemma Config_create_inv: "cfg_inv Config_create" "lookup_safe Config_create sec" "cfg_abs Config_create = (\<lambda>sec. Map.empty)"
  by (auto simp: cfg_inv_def Config_create_def lookup_safe_def cfg_abs_def CONFIG_INIT_SECTIONS_def Hash_create_def fun_eq_iff
      split: option.split) (auto simp: hash_map_def hash_inv_def)

lemma lookup_section:
  assumes "cfg_inv c" and "lookup_safe c sec"
  shows "Hash_get (cfg_sections c) sec = Some (hash_map (cfg_sections c) sec)"
proof (cases "hash_map (cfg_sections c) sec")
  case None
  then show ?thesis using assms Hash_get_absent by (auto simp: cfg_inv_def lookup_safe_def)
next
  case (Some r)
  then show ?thesis using assms(1) ht.get_present by (auto simp: cfg_inv_def)
qed

lemma find_or_create_ok:
  assumes "cfg_inv c" and "lookup_safe c sec" and "length sec \<le> MAX_KEY_LEN"
  obtains r c1 where "find_or_create c sec = Some (r, c1)" and "cfg_inv c1" and "cfg_abs c1 = cfg_abs c"
    and "hash_map (cfg_sections c1) sec = Some r" and "r < length (cfg_store c1)"
proof (cases "hash_map (cfg_sections c) sec")
  case (Some r)
  then have "find_or_create c sec = Some (r, c)" "r < length (cfg_store c)"
    using lookup_section [OF assms(1,2)] assms(1) by (auto simp: find_or_create_def cfg_inv_def)
  then show ?thesis using that Some assms(1) by blast
next
  case None
  let ?r = "length (cfg_store c)"
  let ?c1 = "c\<lparr>cfg_store := cfg_store c @ [Config_section_create sec]\<rparr>"
  obtain h where h: "Hash_insert (cfg_sections c) sec ?r = Some h" "hash_inv h"
    "hash_map h = (hash_map (cfg_sections c))(sec \<mapsto> ?r)"
    using ht.put_ok [of "cfg_sections c" sec ?r] assms(1,3) by (auto simp: cfg_inv_def)
  let ?c2 = "?c1\<lparr>cfg_sections := h\<rparr>"
  have "find_or_create c sec = Some (?r, ?c2)"
    using lookup_section [OF assms(1,2)] None h(1)
    by (simp add: find_or_create_def new_section_def Config_add_section_def get_sec_def nth_opt_def Config_section_create_def)
  moreover have rng: "\<forall>s r. hash_map (cfg_sections c) s = Some r \<longrightarrow> r < ?r" using assms(1) by (simp add: cfg_inv_def)
  moreover have "cfg_inv ?c2"
  proof -
    have "inj_on (hash_map h) (dom (hash_map h))"
    proof (rule inj_onI)
      fix x y assume "x \<in> dom (hash_map h)" "y \<in> dom (hash_map h)" "hash_map h x = hash_map h y"
      then show "x = y"
        using assms(1) rng h(3) by (auto simp: cfg_inv_def dom_def inj_on_def split: if_splits)
    qed
    then show ?thesis
      using assms(1) h rng by (auto simp: cfg_inv_def Config_section_create_def CONFIG_SEC_INIT_ENTRIES_def less_SucI)
  qed
  moreover have "cfg_abs ?c2 = cfg_abs c"
    using h(3) None rng
    by (auto simp: cfg_abs_def fun_eq_iff nth_append Config_section_create_def split: option.splits if_splits)
       (meson less_SucI)
  ultimately show ?thesis using that h(3) by simp
qed

definition set_value :: "Config_T \<Rightarrow> string \<Rightarrow> string \<Rightarrow> Config_value \<Rightarrow> Config_T option" where
  "set_value c var sec v =
     do { (ref, c1) \<leftarrow> find_or_create c sec; update_sec c1 ref (\<lambda>s. Config_section_set s var v) }"

lemma set_value_ok:
  assumes "cfg_inv c" and "lookup_safe c sec" and "length sec \<le> MAX_KEY_LEN" and "length var \<le> MAX_KEY_LEN"
  obtains c' where "set_value c var sec v = Some c'" and "cfg_inv c'" and "lookup_safe c' sec"
    and "cfg_abs c' = (cfg_abs c)(sec := (cfg_abs c sec)(var \<mapsto> v))"
proof -
  obtain r c1 where f: "find_or_create c sec = Some (r, c1)" "cfg_inv c1" "cfg_abs c1 = cfg_abs c"
    "hash_map (cfg_sections c1) sec = Some r" "r < length (cfg_store c1)"
    using find_or_create_ok [OF assms(1-3)] by blast
  have "hash_inv (sec_vars (cfg_store c1 ! r))" using f(2,5) by (auto simp: cfg_inv_def)
  then obtain s' where s': "Config_section_set (cfg_store c1 ! r) var v = Some s'" "hash_inv (sec_vars s')"
    "hash_map (sec_vars s') = (hash_map (sec_vars (cfg_store c1 ! r)))(var \<mapsto> v)"
    using cs.put_ok assms(4) by blast
  let ?c' = "c1\<lparr>cfg_store := (cfg_store c1)[r := s']\<rparr>"
  have "set_value c var sec v = Some ?c'"
    using f(1,5) s'(1) by (simp add: set_value_def update_sec_def get_sec_def nth_opt_def)
  moreover have "cfg_inv ?c'"
    using f(2) s'(2) set_update_subset_insert [of "cfg_store c1" r s'] by (auto simp: cfg_inv_def)
  moreover have "lookup_safe ?c' sec" using f(4) by (simp add: lookup_safe_def)
  moreover have "cfg_abs ?c' = (cfg_abs c1)(sec := (cfg_abs c1 sec)(var \<mapsto> v))"
  proof (rule ext)
    fix x
    show "cfg_abs ?c' x = ((cfg_abs c1)(sec := (cfg_abs c1 sec)(var \<mapsto> v))) x"
    proof (cases "x = sec")
      case True
      then show ?thesis using f(4,5) s'(3) by (auto simp: cfg_abs_def fun_eq_iff)
    next
      case False
      then have "hash_map (cfg_sections c1) x \<noteq> Some r"
        using f(2,4) by (auto simp: cfg_inv_def inj_on_def dom_def)
      then show ?thesis using False by (auto simp: cfg_abs_def fun_eq_iff split: option.splits)
    qed
  qed
  ultimately show ?thesis using that f(3) by simp
qed

lemma get_value:
  assumes "cfg_inv c" and "cfg_abs c sec var = Some v"
  shows "\<exists>r s. Hash_get (cfg_sections c) sec = Some (Some r) \<and> get_sec c r = Some s \<and>
           Config_section_get s var = Some (Some v)"
proof -
  obtain r where r: "hash_map (cfg_sections c) sec = Some r" "r < length (cfg_store c)"
    "hash_map (sec_vars (cfg_store c ! r)) var = Some v"
    using assms(2) by (auto simp: cfg_abs_def split: option.splits if_splits)
  moreover have "hash_inv (sec_vars (cfg_store c ! r))" "hash_inv (cfg_sections c)"
    using assms(1) r(2) by (auto simp: cfg_inv_def)
  ultimately show ?thesis
    using ht.get_present [of "cfg_sections c" sec r] cs.get_present [of "cfg_store c ! r" var v]
    by (auto simp: get_sec_def nth_opt_def)
qed

lemma get_int: "cfg_inv c \<Longrightarrow> cfg_abs c (default_section sec) var = Some (Int_value i) \<Longrightarrow> Config_get_int c var sec d = Some i"
  using get_value [of c "default_section sec" var "Int_value i"]
  by (auto simp: Config_get_int_def Config_section_get_int_def)

lemma get_str: "cfg_inv c \<Longrightarrow> cfg_abs c (default_section sec) var = Some (Str_value x) \<Longrightarrow> Config_get_str c var sec d = Some (Some x)"
  using get_value [of c "default_section sec" var "Str_value x"]
  by (auto simp: Config_get_str_def Config_section_get_str_def)

text \<open>An empty configuration answers with the defaults.\<close>

lemma Config_create_get [simp]:
  "Config_get_int Config_create var sec d = Some d" "Config_get_str Config_create var sec x = Some x"
proof -
  have "Hash_get (cfg_sections Config_create) s = Some None" for s
    using lookup_section [OF Config_create_inv(1,2), of s]
    by (simp add: Config_create_def CONFIG_INIT_SECTIONS_def)
  then show "Config_get_int Config_create var sec d = Some d" "Config_get_str Config_create var sec x = Some x"
    by (simp_all add: Config_get_int_def Config_get_str_def)
qed

section \<open>Properties\<close>

text \<open>
  Setting an integer or a string and reading it back: on a configuration in its invariant, and
  when the section exists or the section table is not full, \<open>Config_set_int\<close> and
  \<open>Config_set_str\<close> succeed, the getters return the value set, and every other variable keeps its
  value.
\<close>

theorem Config_set_get:
  assumes "cfg_inv c" and "lookup_safe c (default_section sec)"
    and "length (default_section sec) \<le> MAX_KEY_LEN" and "length var \<le> MAX_KEY_LEN"
  shows "(\<exists>c'. Config_set_int c var sec i = Some c' \<and> cfg_inv c' \<and> Config_get_int c' var sec d = Some i \<and>
            (\<forall>sec' var'. (sec', var') \<noteq> (default_section sec, var) \<longrightarrow> cfg_abs c' sec' var' = cfg_abs c sec' var')) \<and>
         (\<exists>c'. Config_set_str c var sec x = Some c' \<and> cfg_inv c' \<and> Config_get_str c' var sec y = Some (Some x) \<and>
            (\<forall>sec' var'. (sec', var') \<noteq> (default_section sec, var) \<longrightarrow> cfg_abs c' sec' var' = cfg_abs c sec' var'))"
proof (rule conjI)
  obtain c1 where c1: "set_value c var (default_section sec) (Int_value i) = Some c1" "cfg_inv c1"
    "cfg_abs c1 = (cfg_abs c)(default_section sec := (cfg_abs c (default_section sec))(var \<mapsto> Int_value i))"
    using set_value_ok [OF assms] by blast
  then show "\<exists>c'. Config_set_int c var sec i = Some c' \<and> cfg_inv c' \<and> Config_get_int c' var sec d = Some i \<and>
      (\<forall>sec' var'. (sec', var') \<noteq> (default_section sec, var) \<longrightarrow> cfg_abs c' sec' var' = cfg_abs c sec' var')"
    using get_int [of c1 sec var i d]
    by (auto simp: Config_set_int_def set_value_def Config_section_set_int_def)
next
  obtain c1 where c1: "set_value c var (default_section sec) (Str_value x) = Some c1" "cfg_inv c1"
    "cfg_abs c1 = (cfg_abs c)(default_section sec := (cfg_abs c (default_section sec))(var \<mapsto> Str_value x))"
    using set_value_ok [OF assms] by blast
  then show "\<exists>c'. Config_set_str c var sec x = Some c' \<and> cfg_inv c' \<and> Config_get_str c' var sec y = Some (Some x) \<and>
      (\<forall>sec' var'. (sec', var') \<noteq> (default_section sec, var) \<longrightarrow> cfg_abs c' sec' var' = cfg_abs c sec' var')"
    using get_str [of c1 sec var x y]
    by (auto simp: Config_set_str_def set_value_def Config_section_set_str_def)
qed

text \<open>The statement at the empty configuration.\<close>

theorem Config_set_get_witness:
  "\<exists>c'. Config_set_int Config_create ''enable'' (Some ''grey'') 1 = Some c' \<and>
        Config_get_int c' ''enable'' (Some ''grey'') 0 = Some 1"
  using Config_set_get [of Config_create "Some ''grey''" "''enable''" 1 0 "[]" None] Config_create_inv
  by (auto simp: default_section_def MAX_KEY_LEN_def)

end
