(* ===== verification/Lexer.thy ===== *)
theory Lexer
  imports Prelude
begin

text \<open>
  Models \<open>src/src/lexer_source.c\<close>, \<open>src/src/lexer.c\<close> and the struct of
  \<open>src/src/lexer.h\<close>: character sources with one character of push-back, and the line-counting
  layer the two tokenisers share.

  A string source holds its buffer and an index and returns its characters sign-extended, as a
  \<open>char\<close> converts to \<open>int\<close>; a file or gzip source is the sequence of the bytes still to be
  read, returned as unsigned values. \<open>EOF\<close> is -1. Read errors of the operating system end the
  sequence and are not told apart from its end.
\<close>

section \<open>Sources\<close>

abbreviation (input) "EOF \<equiv> (- 1 :: int)"

datatype Lexer_source = Source_str "char list" nat | Source_file "char list" | Source_gz "char list"

definition Lexer_source_create_from_str :: "char list \<Rightarrow> Lexer_source" where
  "Lexer_source_create_from_str buf = Source_str buf 0"

definition Lexer_source_create_from_file :: "char list \<Rightarrow> Lexer_source" where
  "Lexer_source_create_from_file contents = Source_file contents"

definition Lexer_source_create_from_fd :: "char list \<Rightarrow> Lexer_source" where
  "Lexer_source_create_from_fd contents = Source_file contents"

definition Lexer_source_create_from_gz :: "char list \<Rightarrow> Lexer_source" where
  "Lexer_source_create_from_gz contents = Source_gz contents"

fun Lexer_source_getc :: "Lexer_source \<Rightarrow> int \<times> Lexer_source" where
  "Lexer_source_getc (Source_str buf i) =
     (if i < length buf then (schar_code (buf ! i), Source_str buf (i + 1)) else (EOF, Source_str buf i))"
| "Lexer_source_getc (Source_file []) = (EOF, Source_file [])"
| "Lexer_source_getc (Source_file (c # cs)) = (char_code c, Source_file cs)"
| "Lexer_source_getc (Source_gz []) = (EOF, Source_gz [])"
| "Lexer_source_getc (Source_gz (c # cs)) = (char_code c, Source_gz cs)"

fun Lexer_source_ungetc :: "Lexer_source \<Rightarrow> int \<Rightarrow> Lexer_source" where
  "Lexer_source_ungetc (Source_str buf i) c = Source_str buf (i - 1)"
| "Lexer_source_ungetc (Source_file cs) c = (if c = EOF then Source_file cs else Source_file (to_char c # cs))"
| "Lexer_source_ungetc (Source_gz cs) c = (if c < 0 then Source_gz cs else Source_gz (to_char c # cs))"

text \<open>The characters still to be read.\<close>

fun unread :: "Lexer_source \<Rightarrow> char list" where
  "unread (Source_str buf i) = drop i buf"
| "unread (Source_file cs) = cs"
| "unread (Source_gz cs) = cs"

text \<open>What the lexers rely on: a character that is read comes off the front, and pushing it back
  restores the source.\<close>

locale char_source =
  fixes getc :: "'s \<Rightarrow> int \<times> 's" and ungetc :: "'s \<Rightarrow> int \<Rightarrow> 's" and todo :: "'s \<Rightarrow> char list"
  assumes getc_end: "todo s = [] \<Longrightarrow> getc s = (EOF, s)"
    and getc_next: "todo s = c # cs \<Longrightarrow> todo (snd (getc s)) = cs \<and> to_char (fst (getc s)) = c"
    and ungetc_getc: "getc s = (k, s') \<Longrightarrow> 0 \<le> k \<Longrightarrow> ungetc s' k = s"
begin

lemma getc_shrinks: "getc s = (k, s') \<Longrightarrow> k \<noteq> EOF \<Longrightarrow> length (todo s') < length (todo s)"
  using getc_end [of s] getc_next [of s] by (cases "todo s") auto

lemma getc_le: "getc s = (k, s') \<Longrightarrow> length (todo s') \<le> length (todo s)"
  using getc_end [of s] getc_next [of s] by (cases "todo s") auto

end

lemma Lexer_source_ungetc_getc:
  "Lexer_source_getc s = (k, s') \<Longrightarrow> 0 \<le> k \<Longrightarrow> Lexer_source_ungetc s' k = s"
  by (induction s rule: Lexer_source_getc.induct) (auto split: if_splits)

interpretation src: char_source Lexer_source_getc Lexer_source_ungetc unread
proof
  fix s c cs
  assume "unread s = c # cs"
  then show "unread (snd (Lexer_source_getc s)) = cs \<and> to_char (fst (Lexer_source_getc s)) = c"
  proof (induction s rule: Lexer_source_getc.induct)
    case (1 buf i)
    then have "i < length buf" by (metis drop_eq_Nil linorder_not_le list.discI unread.simps(1))
    then show ?case using 1 by (simp add: Cons_nth_drop_Suc [symmetric])
  qed simp_all
next
  show "unread s = [] \<Longrightarrow> Lexer_source_getc s = (EOF, s)" for s
    by (induction s rule: Lexer_source_getc.induct) auto
qed (rule Lexer_source_ungetc_getc)

section \<open>The lexer\<close>

definition LEXER_MAX_STR_LEN :: nat where "LEXER_MAX_STR_LEN = 256"

datatype Lexer_token_value = Val_i int | Val_s "char list"

record Lexer_T =
  current_value :: Lexer_token_value
  current_token :: int
  seen_end :: bool
  current_line :: int
  current_line_pos :: int
  prev_line_pos :: int
  lex_source :: Lexer_source

text \<open>\<open>Lexer_create\<close> leaves the current token and value unset; they are parameters.\<close>

definition Lexer_create :: "Lexer_token_value \<Rightarrow> int \<Rightarrow> Lexer_source \<Rightarrow> Lexer_T" where
  "Lexer_create v tok source =
     \<lparr>current_value = v, current_token = tok, seen_end = False, current_line = 0, current_line_pos = 0,
      prev_line_pos = 0, lex_source = source\<rparr>"

definition Lexer_getc :: "Lexer_T \<Rightarrow> int \<times> Lexer_T" where
  "Lexer_getc lexer =
     (let (c, src) = Lexer_source_getc (lex_source lexer);
          l1 = lexer\<lparr>lex_source := src, prev_line_pos := current_line_pos lexer\<rparr>
      in (c, if c = 10 then l1\<lparr>current_line := current_line l1 + 1, current_line_pos := 0\<rparr>
             else l1\<lparr>current_line_pos := current_line_pos l1 + 1\<rparr>))"

definition Lexer_ungetc :: "Lexer_T \<Rightarrow> int \<Rightarrow> Lexer_T" where
  "Lexer_ungetc lexer c =
     (let l1 = (if c = 10 then lexer\<lparr>current_line := current_line lexer - 1, current_line_pos := prev_line_pos lexer\<rparr>
                else if current_line_pos lexer > 0 then lexer\<lparr>current_line_pos := current_line_pos lexer - 1\<rparr>
                else lexer)
      in l1\<lparr>lex_source := Lexer_source_ungetc (lex_source l1) c\<rparr>)"

definition Lexer_reuse_char :: "Lexer_T \<Rightarrow> int \<Rightarrow> Lexer_T" where
  "Lexer_reuse_char lexer c = (if c = EOF \<or> c < 0 then lexer\<lparr>seen_end := True\<rparr> else Lexer_ungetc lexer c)"

definition lex_todo :: "Lexer_T \<Rightarrow> char list" where
  "lex_todo l = unread (lex_source l)"

definition return_tok :: "int \<Rightarrow> Lexer_T \<Rightarrow> int \<times> Lexer_T" where
  "return_tok tok l = (tok, l\<lparr>current_token := tok\<rparr>)"

lemma Lexer_getc_source:
  "Lexer_getc l = (c, l') \<Longrightarrow> Lexer_source_getc (lex_source l) = (c, lex_source l') \<and> seen_end l' = seen_end l \<and>
     current_value l' = current_value l \<and> current_token l' = current_token l"
  by (auto simp: Lexer_getc_def Let_def split: prod.splits if_splits)

lemma Lexer_getc_shrinks: "Lexer_getc l = (c, l') \<Longrightarrow> c \<noteq> EOF \<Longrightarrow> length (lex_todo l') < length (lex_todo l)"
  using src.getc_shrinks Lexer_getc_source unfolding lex_todo_def by blast

lemma Lexer_getc_le: "Lexer_getc l = (c, l') \<Longrightarrow> length (lex_todo l') \<le> length (lex_todo l)"
  using src.getc_le Lexer_getc_source unfolding lex_todo_def by blast

lemma Lexer_getc_end: "lex_todo l = [] \<Longrightarrow> \<exists>l'. Lexer_getc l = (EOF, l') \<and> lex_source l' = lex_source l \<and> seen_end l' = seen_end l"
  using src.getc_end [of "lex_source l"] by (simp add: lex_todo_def Lexer_getc_def)

text \<open>A character below 128 is read alike from every kind of source.\<close>

lemma Lexer_source_getc_ascii:
  "unread s = c # cs \<Longrightarrow> char_code c < 128 \<Longrightarrow> fst (Lexer_source_getc s) = char_code c"
proof (induction s rule: Lexer_source_getc.induct)
  case (1 buf i)
  then have "i < length buf" by (metis drop_eq_Nil linorder_not_le list.discI unread.simps(1))
  then show ?case using 1 by (simp add: Cons_nth_drop_Suc [symmetric] schar_code_def char_code_def Let_def)
qed auto

lemma Lexer_getc_ascii:
  assumes "lex_todo l = c # cs" and "char_code c < 128"
  obtains l' where "Lexer_getc l = (char_code c, l')" and "lex_todo l' = cs" and "seen_end l' = seen_end l"
    and "current_value l' = current_value l"
proof -
  have "fst (Lexer_source_getc (lex_source l)) = char_code c"
    using Lexer_source_getc_ascii assms unfolding lex_todo_def by blast
  moreover have "unread (snd (Lexer_source_getc (lex_source l))) = cs"
    using src.getc_next assms(1) unfolding lex_todo_def by blast
  ultimately show thesis
    by (intro that [of "snd (Lexer_getc l)"]) (auto simp: Lexer_getc_def lex_todo_def Let_def split: prod.splits)
qed

lemma Lexer_ungetc_todo:
  assumes "Lexer_getc l = (c, l')" and "0 \<le> c"
  shows "lex_source (Lexer_ungetc l' c) = lex_source l" and "seen_end (Lexer_ungetc l' c) = seen_end l"
    and "current_value (Lexer_ungetc l' c) = current_value l'"
  using Lexer_getc_source [OF assms(1)] src.ungetc_getc [OF _ assms(2)] by (auto simp: Lexer_ungetc_def Let_def)

lemma Lexer_reuse_char_le:
  assumes "Lexer_getc l = (c, l')"
  shows "length (lex_todo (Lexer_reuse_char l' c)) \<le> length (lex_todo l)"
  using Lexer_ungetc_todo(1) [OF assms] Lexer_getc_le [OF assms]
  by (cases "0 \<le> c") (auto simp: Lexer_reuse_char_def lex_todo_def)

text \<open>Reading up to the end of a line, as both tokenisers do after a hash sign.\<close>

function skip_comment :: "Lexer_T \<Rightarrow> int \<times> Lexer_T" where
  "skip_comment lexer =
     (let (c, l1) = Lexer_getc lexer in if c \<noteq> 10 \<and> c \<noteq> EOF then skip_comment l1 else (c, l1))"
  by pat_completeness auto
termination
  by (relation "measure (\<lambda>l. length (lex_todo l))") (auto dest: Lexer_getc_shrinks [OF sym])

declare skip_comment.simps [simp del]

lemma skip_comment_spec:
  "skip_comment l = (c, l') \<Longrightarrow> \<exists>l0. Lexer_getc l0 = (c, l') \<and> length (lex_todo l0) \<le> length (lex_todo l)"
proof (induction l rule: skip_comment.induct)
  case (1 l)
  obtain k l1 where g: "Lexer_getc l = (k, l1)" by fastforce
  show ?case
  proof (cases "k \<noteq> 10 \<and> k \<noteq> EOF")
    case True
    then have "skip_comment l1 = (c, l')" using 1(2) g by (subst (asm) skip_comment.simps) simp
    from 1(1) [OF g [symmetric] refl True this] show ?thesis using Lexer_getc_le [OF g] by auto
  next
    case False
    then have "c = k \<and> l' = l1" using 1(2) g by (subst (asm) skip_comment.simps) auto
    then show ?thesis using g by blast
  qed
qed

lemma skip_comment_reuse:
  "skip_comment l = (c, l') \<Longrightarrow> length (lex_todo (Lexer_reuse_char l' c)) \<le> length (lex_todo l)"
  using skip_comment_spec [of l c l'] Lexer_reuse_char_le by (meson le_trans)

end
