(* ===== verification/Config_Lexer.thy ===== *)
theory Config_Lexer
  imports Lexer
begin

text \<open>
  Models \<open>src/src/config_lexer.c\<close>, the tokeniser of configuration files and of the messages the
  processes exchange: integers, names and reserved words, quoted strings with escapes, comments and
  punctuation. Every other character ends the token stream. The token buffer holds 257 characters;
  a token can have that many, which puts its terminator one byte behind the buffer, in the padding of
  the union. Integer overflow wraps at 32 bits. The character classes are those of the C locale, and
  are false for negative codes.
\<close>

definition CONFIG_LEXER_TOK_STR :: int where "CONFIG_LEXER_TOK_STR = 100"
definition CONFIG_LEXER_TOK_INT :: int where "CONFIG_LEXER_TOK_INT = 101"
definition CONFIG_LEXER_TOK_EQ :: int where "CONFIG_LEXER_TOK_EQ = 102"
definition CONFIG_LEXER_TOK_NAME :: int where "CONFIG_LEXER_TOK_NAME = 103"
definition CONFIG_LEXER_TOK_SECTION :: int where "CONFIG_LEXER_TOK_SECTION = 104"
definition CONFIG_LEXER_TOK_INCLUDE :: int where "CONFIG_LEXER_TOK_INCLUDE = 105"
definition CONFIG_LEXER_TOK_BRACKET_L :: int where "CONFIG_LEXER_TOK_BRACKET_L = 106"
definition CONFIG_LEXER_TOK_BRACKET_R :: int where "CONFIG_LEXER_TOK_BRACKET_R = 107"
definition CONFIG_LEXER_TOK_EOF :: int where "CONFIG_LEXER_TOK_EOF = 108"
definition CONFIG_LEXER_TOK_EOL :: int where "CONFIG_LEXER_TOK_EOL = 109"
definition CONFIG_LEXER_TOK_COMMA :: int where "CONFIG_LEXER_TOK_COMMA = 110"
definition CONFIG_LEXER_TOK_SQBRACK_L :: int where "CONFIG_LEXER_TOK_SQBRACK_L = 111"
definition CONFIG_LEXER_TOK_SQBRACK_R :: int where "CONFIG_LEXER_TOK_SQBRACK_R = 112"
definition CONFIG_LEXER_TOK_BLACKLIST :: int where "CONFIG_LEXER_TOK_BLACKLIST = 113"
definition CONFIG_LEXER_TOK_WHITELIST :: int where "CONFIG_LEXER_TOK_WHITELIST = 114"

lemmas config_toks = CONFIG_LEXER_TOK_STR_def CONFIG_LEXER_TOK_INT_def CONFIG_LEXER_TOK_EQ_def
  CONFIG_LEXER_TOK_NAME_def CONFIG_LEXER_TOK_SECTION_def CONFIG_LEXER_TOK_INCLUDE_def
  CONFIG_LEXER_TOK_BRACKET_L_def CONFIG_LEXER_TOK_BRACKET_R_def CONFIG_LEXER_TOK_EOF_def
  CONFIG_LEXER_TOK_EOL_def CONFIG_LEXER_TOK_COMMA_def CONFIG_LEXER_TOK_SQBRACK_L_def
  CONFIG_LEXER_TOK_SQBRACK_R_def CONFIG_LEXER_TOK_BLACKLIST_def CONFIG_LEXER_TOK_WHITELIST_def

section \<open>The loops of a token\<close>

function lex_int :: "Lexer_T \<Rightarrow> int \<Rightarrow> int \<times> int \<times> Lexer_T" where
  "lex_int lexer i =
     (let (c, l1) = Lexer_getc lexer in
      if isdigit_c c then lex_int l1 (wrap_int (i * 10 + (c - 48))) else (i, c, l1))"
  by pat_completeness auto
termination
  by (relation "measure (\<lambda>(l, i). length (lex_todo l))")
     (auto dest: Lexer_getc_shrinks [OF sym] simp: isdigit_c_def)

declare lex_int.simps [simp del]

text \<open>\<open>lex_name\<close>: the characters stored so far; the next one is read before the length is checked.\<close>

function lex_name :: "Lexer_T \<Rightarrow> char list \<Rightarrow> char list \<times> int \<times> Lexer_T" where
  "lex_name lexer s =
     (let (c, l1) = Lexer_getc lexer in
      if (isalpha_c c \<or> isdigit_c c \<or> c = 95) \<and> length s \<le> LEXER_MAX_STR_LEN
      then lex_name l1 (s @ [to_char (tolower_c c)]) else (s, c, l1))"
  by pat_completeness auto
termination
  by (relation "measure (\<lambda>(l, s). length (lex_todo l))")
     (auto dest: Lexer_getc_shrinks [OF sym] simp: isdigit_c_def isalpha_c_def isupper_c_def)

declare lex_name.simps [simp del]

function lex_string :: "Lexer_T \<Rightarrow> bool \<Rightarrow> char list \<Rightarrow> char list \<times> int \<times> Lexer_T" where
  "lex_string lexer seen_esc s =
     (let (c, l1) = Lexer_getc lexer in
      if (c \<noteq> 34 \<or> seen_esc) \<and> length s \<le> LEXER_MAX_STR_LEN \<and> c \<noteq> EOF
      then if c = 92 \<and> \<not> seen_esc then lex_string l1 True s
           else lex_string l1 False (s @ [to_char c])
      else (s, c, l1))"
  by pat_completeness auto
termination
  by (relation "measure (\<lambda>(l, e, s). length (lex_todo l))") (auto dest: Lexer_getc_shrinks [OF sym])

declare lex_string.simps [simp del]

definition name_token :: "char list \<Rightarrow> int" where
  "name_token s =
     (if s = ''section'' then CONFIG_LEXER_TOK_SECTION
      else if s = ''include'' then CONFIG_LEXER_TOK_INCLUDE
      else if s = ''blacklist'' then CONFIG_LEXER_TOK_BLACKLIST
      else if s = ''whitelist'' then CONFIG_LEXER_TOK_WHITELIST
      else CONFIG_LEXER_TOK_NAME)"

function Config_lexer_next_token :: "Lexer_T \<Rightarrow> int \<times> Lexer_T" where
  "Config_lexer_next_token lexer =
     (if seen_end lexer then (CONFIG_LEXER_TOK_EOF, lexer)
      else (let (c, l1) = Lexer_getc lexer in
        if isdigit_c c
        then (let (i, c', l2) = lex_int l1 (c - 48);
                  l3 = Lexer_reuse_char (l2\<lparr>current_value := Val_i i\<rparr>) c'
              in return_tok CONFIG_LEXER_TOK_INT l3)
        else if isalpha_c c
        then (let (s, c', l2) = lex_name l1 [to_char (tolower_c c)];
                  l3 = Lexer_reuse_char (l2\<lparr>current_value := Val_s s\<rparr>) c'
              in return_tok (name_token s) l3)
        else if c = 32 \<or> c = 9 \<or> c = 13 then Config_lexer_next_token l1
        else if c = 35
        then (let (c', l2) = skip_comment l1 in Config_lexer_next_token (Lexer_reuse_char l2 c'))
        else if c = 34
        then (let (s, c', l2) = lex_string l1 False [];
                  l3 = (if c' \<noteq> 34 then Lexer_reuse_char l2 c' else l2)
              in return_tok CONFIG_LEXER_TOK_STR (l3\<lparr>current_value := Val_s s\<rparr>))
        else if c = 59 \<or> c = 10 then return_tok CONFIG_LEXER_TOK_EOL l1
        else if c = 44 then return_tok CONFIG_LEXER_TOK_COMMA l1
        else if c = 61 then return_tok CONFIG_LEXER_TOK_EQ l1
        else if c = 123 then return_tok CONFIG_LEXER_TOK_BRACKET_L l1
        else if c = 125 then return_tok CONFIG_LEXER_TOK_BRACKET_R l1
        else if c = 91 then return_tok CONFIG_LEXER_TOK_SQBRACK_L l1
        else if c = 93 then return_tok CONFIG_LEXER_TOK_SQBRACK_R l1
        else (CONFIG_LEXER_TOK_EOF, l1)))"
  by pat_completeness auto
termination
  by (relation "measure (\<lambda>l. length (lex_todo l))")
     (auto dest!: Lexer_getc_shrinks [OF sym] skip_comment_reuse [OF sym])

declare Config_lexer_next_token.simps [simp del]

section \<open>Progress\<close>

lemma lex_int_le: "lex_int l i = (v, c, l') \<Longrightarrow> \<exists>l0. Lexer_getc l0 = (c, l') \<and> length (lex_todo l0) \<le> length (lex_todo l)"
proof (induction l i rule: lex_int.induct)
  case (1 l i)
  obtain k l1 where g: "Lexer_getc l = (k, l1)" by fastforce
  show ?case
  proof (cases "isdigit_c k")
    case True
    then have "lex_int l1 (wrap_int (i * 10 + (k - 48))) = (v, c, l')"
      using 1(2) g by (subst (asm) lex_int.simps) simp
    then show ?thesis using 1(1) [OF g [symmetric] refl True] Lexer_getc_le [OF g] by fastforce
  next
    case False
    then have "c = k \<and> l' = l1" using 1(2) g by (subst (asm) lex_int.simps) simp
    then show ?thesis using g by blast
  qed
qed

lemma lex_name_le: "lex_name l s = (v, c, l') \<Longrightarrow> \<exists>l0. Lexer_getc l0 = (c, l') \<and> length (lex_todo l0) \<le> length (lex_todo l)"
proof (induction l s rule: lex_name.induct)
  case (1 l s)
  obtain k l1 where g: "Lexer_getc l = (k, l1)" by fastforce
  show ?case
  proof (cases "(isalpha_c k \<or> isdigit_c k \<or> k = 95) \<and> length s \<le> LEXER_MAX_STR_LEN")
    case True
    then have "lex_name l1 (s @ [to_char (tolower_c k)]) = (v, c, l')"
      using 1(2) g by (subst (asm) lex_name.simps) simp
    then show ?thesis using 1(1) [OF g [symmetric] refl True] Lexer_getc_le [OF g] by fastforce
  next
    case False
    then have "c = k \<and> l' = l1" using 1(2) g by (subst (asm) lex_name.simps) (auto split: if_splits)
    then show ?thesis using g by blast
  qed
qed

lemma lex_string_le:
  "lex_string l e s = (v, c, l') \<Longrightarrow> \<exists>l0. Lexer_getc l0 = (c, l') \<and> length (lex_todo l0) \<le> length (lex_todo l)"
proof (induction l e s rule: lex_string.induct)
  case (1 l e s)
  obtain k l1 where g: "Lexer_getc l = (k, l1)" by fastforce
  show ?case
  proof (cases "(k \<noteq> 34 \<or> e) \<and> length s \<le> LEXER_MAX_STR_LEN \<and> k \<noteq> EOF")
    case True
    show ?thesis
    proof (cases "k = 92 \<and> \<not> e")
      case esc: True
      then have "lex_string l1 True s = (v, c, l')" using 1(3) g True by (subst (asm) lex_string.simps) auto
      then show ?thesis using 1(1) [OF g [symmetric] refl True esc] Lexer_getc_le [OF g] by fastforce
    next
      case esc: False
      then have "lex_string l1 False (s @ [to_char k]) = (v, c, l')"
        using 1(3) g True by (subst (asm) lex_string.simps) (auto split: if_splits)
      then show ?thesis using 1(2) [OF g [symmetric] refl True esc] Lexer_getc_le [OF g] by fastforce
    qed
  next
    case False
    then have "c = k \<and> l' = l1" using 1(3) g by (subst (asm) lex_string.simps) (auto split: if_splits)
    then show ?thesis using g by blast
  qed
qed

lemma reuse_value: "length (lex_todo (Lexer_reuse_char (l\<lparr>current_value := v\<rparr>) c)) = length (lex_todo (Lexer_reuse_char l c))"
  by (simp add: Lexer_reuse_char_def Lexer_ungetc_def lex_todo_def Let_def)

lemma Config_lexer_progress:
  "Config_lexer_next_token l = (tok, l') \<Longrightarrow>
   length (lex_todo l') + (if tok = CONFIG_LEXER_TOK_EOF then 0 else 1) \<le> length (lex_todo l)"
proof (induction l rule: Config_lexer_next_token.induct)
  case (1 l)
  note H = \<open>Config_lexer_next_token l = (tok, l')\<close>
  show ?case
  proof (cases "seen_end l")
    case True
    then show ?thesis using H by (subst (asm) Config_lexer_next_token.simps) auto
  next
    case False
    obtain c l1 where g: "Lexer_getc l = (c, l1)" by fastforce
    note le = Lexer_getc_le [OF g] and lt = Lexer_getc_shrinks [OF g]
    consider "isdigit_c c" | "\<not> isdigit_c c" "isalpha_c c" | "c = 32 \<or> c = 9 \<or> c = 13" | "c = 35" | "c = 34"
      | "\<not> isdigit_c c" "\<not> isalpha_c c" "c \<noteq> 32 \<and> c \<noteq> 9 \<and> c \<noteq> 13" "c \<noteq> 35" "c \<noteq> 34" by blast
    then show ?thesis
    proof cases
      case 1
      obtain i c' l2 where d: "lex_int l1 (c - 48) = (i, c', l2)" by (metis prod_cases3)
      obtain l0 where "Lexer_getc l0 = (c', l2)" "length (lex_todo l0) \<le> length (lex_todo l1)"
        using lex_int_le [OF d] by blast
      then have "length (lex_todo (Lexer_reuse_char (l2\<lparr>current_value := Val_i i\<rparr>) c')) \<le> length (lex_todo l1)"
        using Lexer_reuse_char_le [of l0 c' l2] by (simp add: reuse_value)
      then show ?thesis
        using 1 H False g d lt
        by (subst (asm) Config_lexer_next_token.simps) (auto simp: Let_def return_tok_def lex_todo_def isdigit_c_def)
    next
      case 2
      obtain s c' l2 where d: "lex_name l1 [to_char (tolower_c c)] = (s, c', l2)" by (metis prod_cases3)
      obtain l0 where "Lexer_getc l0 = (c', l2)" "length (lex_todo l0) \<le> length (lex_todo l1)"
        using lex_name_le [OF d] by blast
      then have "length (lex_todo (Lexer_reuse_char (l2\<lparr>current_value := Val_s s\<rparr>) c')) \<le> length (lex_todo l1)"
        using Lexer_reuse_char_le [of l0 c' l2] by (simp add: reuse_value)
      moreover have "c \<noteq> EOF" using 2 by (auto simp: isalpha_c_def isupper_c_def)
      ultimately show ?thesis
        using 2 H False g d lt
        by (subst (asm) Config_lexer_next_token.simps) (auto simp: Let_def return_tok_def lex_todo_def)
    next
      case 3
      then have "Config_lexer_next_token l1 = (tok, l')"
        using H False g
        by (subst (asm) Config_lexer_next_token.simps) (auto simp: isdigit_c_def isalpha_c_def isupper_c_def)
      then show ?thesis
        using "1.IH"(1) [OF False g [symmetric] refl _ _ 3] 3 le by (auto simp: isdigit_c_def isalpha_c_def isupper_c_def)
    next
      case 4
      obtain c' l2 where s: "skip_comment l1 = (c', l2)" by fastforce
      have "Config_lexer_next_token (Lexer_reuse_char l2 c') = (tok, l')"
        using H False g 4 s
        by (subst (asm) Config_lexer_next_token.simps) (auto simp: isdigit_c_def isalpha_c_def isupper_c_def)
      then show ?thesis
        using "1.IH"(2) [OF False g [symmetric] refl _ _ _ 4 s [symmetric] refl] 4 le skip_comment_reuse [OF s]
        by (auto simp: isdigit_c_def isalpha_c_def isupper_c_def)
    next
      case 5
      obtain s c' l2 where d: "lex_string l1 False [] = (s, c', l2)" by (metis prod_cases3)
      obtain l0 where l0: "Lexer_getc l0 = (c', l2)" "length (lex_todo l0) \<le> length (lex_todo l1)"
        using lex_string_le [OF d] by blast
      have "length (lex_todo (if c' \<noteq> 34 then Lexer_reuse_char l2 c' else l2)) \<le> length (lex_todo l1)"
        using Lexer_reuse_char_le [OF l0(1)] Lexer_getc_le [OF l0(1)] l0(2) by auto
      then show ?thesis
        using 5 H False g d lt
        by (subst (asm) Config_lexer_next_token.simps)
           (auto simp: Let_def return_tok_def lex_todo_def isdigit_c_def isalpha_c_def isupper_c_def split: if_splits)
    next
      case 6
      then show ?thesis
        using H False g le lt
        by (subst (asm) Config_lexer_next_token.simps)
           (auto simp: return_tok_def lex_todo_def config_toks split: if_splits)
    qed
  qed
qed

end
