(* ===== verification/Config_Parser.thy ===== *)
theory Config_Parser
  imports Config Config_Lexer
begin

text \<open>
  Models \<open>src/src/config_parser.c\<close>: the recursive descent parser that fills a configuration. The
  parser does not backtrack: an alternative that fails leaves the tokens it consumed consumed, so
  every function threads the parser state through both outcomes. \<open>None\<close> is undefined behaviour: a
  NULL dereference, or a name of 257 characters copied with its terminator into a buffer of 257.
\<close>

section \<open>State and token functions\<close>

record Config_parser_T =
  cp_lexer :: Lexer_T
  cp_config :: Config_T
  cp_section :: "secref option"
  cp_value :: "Config_value list option"
  cp_sectype :: int
  cp_curr :: int

type_synonym grammar = "Config_parser_T \<Rightarrow> (bool \<times> Config_parser_T) option"

definition Config_parser_create :: "Lexer_T \<Rightarrow> Config_T \<Rightarrow> int \<Rightarrow> int \<Rightarrow> Config_parser_T" where
  "Config_parser_create lexer config sectype tok =
     \<lparr>cp_lexer = lexer, cp_config = config, cp_section = None, cp_value = None, cp_sectype = sectype, cp_curr = tok\<rparr>"

definition cp_advance :: "Config_parser_T \<Rightarrow> Config_parser_T" where
  "cp_advance p = (let (tok, l) = Config_lexer_next_token (cp_lexer p) in p\<lparr>cp_curr := tok, cp_lexer := l\<rparr>)"

definition cp_left :: "Config_parser_T \<Rightarrow> nat" where
  "cp_left p = length (lex_todo (cp_lexer p)) + (if cp_curr p = CONFIG_LEXER_TOK_EOF then 0 else 1)"

lemma cp_advance_le: "cp_left (cp_advance p) \<le> length (lex_todo (cp_lexer p))"
  using Config_lexer_progress [of "cp_lexer p"] by (auto simp: cp_advance_def cp_left_def split: prod.splits)

lemma cp_advance_less: "cp_curr p \<noteq> CONFIG_LEXER_TOK_EOF \<Longrightarrow> cp_left (cp_advance p) < cp_left p"
  and cp_advance_left: "cp_left (cp_advance p) \<le> cp_left p"
  using cp_advance_le [of p] by (simp_all add: cp_left_def)

function cp_skip_eols :: "Config_parser_T \<Rightarrow> Config_parser_T" where
  "cp_skip_eols p = (if cp_curr p = CONFIG_LEXER_TOK_EOL then cp_skip_eols (cp_advance p) else p)"
  by pat_completeness auto
termination by (relation "measure cp_left") (auto intro!: cp_advance_less simp: config_toks)

declare cp_skip_eols.simps [simp del]

definition accept_no_advance :: "Config_parser_T \<Rightarrow> int \<Rightarrow> bool" where
  "accept_no_advance p tok \<longleftrightarrow> tok = cp_curr p"

definition accept :: "int \<Rightarrow> Config_parser_T \<Rightarrow> bool \<times> Config_parser_T" where
  "accept tok p =
     (if accept_no_advance p tok
      then (True, if tok = CONFIG_LEXER_TOK_EOL then cp_skip_eols (cp_advance p) else cp_advance p)
      else (False, p))"

text \<open>The short-circuit operators of the grammar functions.\<close>

definition acc :: "int \<Rightarrow> grammar" where
  "acc tok p = Some (accept tok p)"

definition and_then :: "grammar \<Rightarrow> grammar \<Rightarrow> grammar" where
  "and_then f g p = do { (ok, p1) \<leftarrow> f p; if ok then g p1 else Some (False, p1) }"

definition or_else :: "grammar \<Rightarrow> grammar \<Rightarrow> grammar" where
  "or_else f g p = do { (ok, p1) \<leftarrow> f p; if ok then Some (True, p1) else g p1 }"

definition lex_int_value :: "Lexer_T \<Rightarrow> int" where
  "lex_int_value l = (case current_value l of Val_i i \<Rightarrow> i | Val_s s \<Rightarrow> 0)"

definition lex_str_value :: "Lexer_T \<Rightarrow> string" where
  "lex_str_value l = (case current_value l of Val_i i \<Rightarrow> [] | Val_s s \<Rightarrow> c_str s)"

section \<open>Lists\<close>

definition grammar_list_value :: grammar where
  "grammar_list_value p =
     (if accept_no_advance p CONFIG_LEXER_TOK_INT
      then do { vs \<leftarrow> cp_value p;
                Some (True, (cp_advance p)\<lparr>cp_value := Some (vs @ [Int_value (lex_int_value (cp_lexer p))])\<rparr>) }
      else if accept_no_advance p CONFIG_LEXER_TOK_STR
      then do { vs \<leftarrow> cp_value p;
                Some (True, (cp_advance p)\<lparr>cp_value := Some (vs @ [Str_value (lex_str_value (cp_lexer p))])\<rparr>) }
      else Some (False, p))"

lemma cp_skip_eols_left: "cp_left (cp_skip_eols p) \<le> cp_left p"
proof (induction p rule: cp_skip_eols.induct)
  case (1 p)
  then show ?case using cp_advance_left [of p] by (subst cp_skip_eols.simps) auto
qed

lemma accept_left: "accept tok p = (ok, p') \<Longrightarrow> cp_left p' \<le> cp_left p"
  using cp_skip_eols_left [of "cp_advance p"] cp_advance_left [of p] by (auto simp: accept_def split: if_splits)

lemma accept_less: "accept tok p = (True, p') \<Longrightarrow> tok \<noteq> CONFIG_LEXER_TOK_EOF \<Longrightarrow> cp_left p' < cp_left p"
  using cp_skip_eols_left [of "cp_advance p"] cp_advance_less [of p]
  by (auto simp: accept_def accept_no_advance_def split: if_splits)

lemma cp_left_upd [simp]:
  "cp_left (p\<lparr>cp_value := v\<rparr>) = cp_left p" "cp_left (p\<lparr>cp_config := c\<rparr>) = cp_left p"
  "cp_left (p\<lparr>cp_section := s\<rparr>) = cp_left p" "cp_left (p\<lparr>cp_sectype := t\<rparr>) = cp_left p"
  by (simp_all add: cp_left_def)

text \<open>A grammar function never gives tokens back.\<close>

definition forward :: "grammar \<Rightarrow> bool" where
  "forward f \<longleftrightarrow> (\<forall>p ok p'. f p = Some (ok, p') \<longrightarrow> cp_left p' \<le> cp_left p)"

lemma forwardD: "forward f \<Longrightarrow> f p = Some (ok, p') \<Longrightarrow> cp_left p' \<le> cp_left p"
  unfolding forward_def by blast

lemma forward_acc [simp]: "forward (acc tok)"
  by (auto simp: forward_def acc_def dest: accept_left)

lemma forward_and [simp]: "forward f \<Longrightarrow> forward g \<Longrightarrow> forward (and_then f g)"
  unfolding forward_def and_then_def
  by (auto simp: bind_eq_Some_conv split: if_splits) (meson le_trans)+

lemma forward_or [simp]: "forward f \<Longrightarrow> forward g \<Longrightarrow> forward (or_else f g)"
  unfolding forward_def or_else_def
  by (auto simp: bind_eq_Some_conv split: if_splits) (meson le_trans)+

lemma forward_list_value [simp]: "forward grammar_list_value"
  using cp_advance_left by (auto simp: forward_def grammar_list_value_def bind_eq_Some_conv split: if_splits)

function grammar_list_values :: grammar where
  "grammar_list_values p =
     (case accept CONFIG_LEXER_TOK_COMMA p of
        (False, p1) \<Rightarrow> Some (True, p1)
      | (True, p1) \<Rightarrow>
          (case and_then (acc CONFIG_LEXER_TOK_EOL) grammar_list_value p1 of
             None \<Rightarrow> None
           | Some (True, p2) \<Rightarrow> grammar_list_values p2
           | Some (False, p2) \<Rightarrow>
               (case grammar_list_value p2 of
                  None \<Rightarrow> None
                | Some (True, p3) \<Rightarrow> grammar_list_values p3
                | Some (False, p3) \<Rightarrow> Some (True, p3))))"
  by pat_completeness auto
termination
  by (relation "measure cp_left")
     (auto dest!: accept_less [OF sym] forwardD [OF forward_list_value]
        forwardD [OF forward_and [OF forward_acc forward_list_value]] simp: config_toks)

declare grammar_list_values.simps [simp del]

lemma grammar_list_values_true: "grammar_list_values p = Some (ok, p') \<Longrightarrow> ok \<and> cp_left p' \<le> cp_left p"
proof (induction p rule: grammar_list_values.induct)
  case (1 p)
  obtain ok1 p1 where a: "accept CONFIG_LEXER_TOK_COMMA p = (ok1, p1)" by fastforce
  have le: "cp_left p1 \<le> cp_left p" by (rule accept_left [OF a])
  show ?case
  proof (cases ok1)
    case False
    then show ?thesis using 1(3) a le by (subst (asm) grammar_list_values.simps) auto
  next
    case True
    obtain ok2 p2 where b: "and_then (acc CONFIG_LEXER_TOK_EOL) grammar_list_value p1 = Some (ok2, p2)"
      using 1(3) a True by (subst (asm) grammar_list_values.simps) (auto split: option.splits)
    have le2: "cp_left p2 \<le> cp_left p1" using forwardD [OF forward_and [OF forward_acc forward_list_value] b] .
    show ?thesis
    proof (cases ok2)
      case t: True
      then have "grammar_list_values p2 = Some (ok, p')"
        using 1(3) a True b by (subst (asm) grammar_list_values.simps) auto
      then show ?thesis using 1(1) [OF a [symmetric] _ b refl] True t le le2 by auto
    next
      case f: False
      obtain ok3 p3 where v: "grammar_list_value p2 = Some (ok3, p3)"
        using 1(3) a True b f by (subst (asm) grammar_list_values.simps) (auto split: option.splits)
      have le3: "cp_left p3 \<le> cp_left p2" using forwardD [OF forward_list_value v] .
      then show ?thesis
        using 1(2) [OF a [symmetric] _ b refl _ v refl] 1(3) a True b f v le le2
        by (subst (asm) grammar_list_values.simps) (auto split: bool.splits)
    qed
  qed
qed

lemma forward_list_values [simp]: "forward grammar_list_values"
  using grammar_list_values_true by (auto simp: forward_def)

definition grammar_list_statements :: grammar where
  "grammar_list_statements = and_then grammar_list_value grammar_list_values"

definition grammar_list :: grammar where
  "grammar_list p =
     (let (ok, p1) = accept CONFIG_LEXER_TOK_SQBRACK_L p in
      if ok
      then and_then
             (or_else (and_then (acc CONFIG_LEXER_TOK_EOL) grammar_list_statements) grammar_list_statements)
             (or_else (and_then (acc CONFIG_LEXER_TOK_EOL) (acc CONFIG_LEXER_TOK_SQBRACK_R))
                      (acc CONFIG_LEXER_TOK_SQBRACK_R))
             (p1\<lparr>cp_value := Some []\<rparr>)
      else Some (False, p1))"

lemma forward_list [simp]: "forward grammar_list"
proof -
  let ?f = "and_then
             (or_else (and_then (acc CONFIG_LEXER_TOK_EOL) grammar_list_statements) grammar_list_statements)
             (or_else (and_then (acc CONFIG_LEXER_TOK_EOL) (acc CONFIG_LEXER_TOK_SQBRACK_R))
                      (acc CONFIG_LEXER_TOK_SQBRACK_R))"
  have f: "forward ?f" by (simp add: grammar_list_statements_def)
  have "cp_left p' \<le> cp_left p" if H: "grammar_list p = Some (ok, p')" for p ok p'
  proof -
    obtain b p1 where a: "accept CONFIG_LEXER_TOK_SQBRACK_L p = (b, p1)" by fastforce
    then show ?thesis
      using H accept_left [OF a] forwardD [OF f, of "p1\<lparr>cp_value := Some []\<rparr>" ok p']
      by (auto simp: grammar_list_def split: if_splits)
  qed
  then show ?thesis by (simp add: forward_def)
qed

section \<open>Assignments, sections and includes\<close>

definition current_section :: "Config_parser_T \<Rightarrow> secref option" where
  "current_section p =
     (case cp_section p of
        Some r \<Rightarrow> Some r
      | None \<Rightarrow> Option.bind (Config_get_section (cp_config p) CONFIG_DEFAULT_SECTION) id)"

definition assign :: "Config_parser_T \<Rightarrow> string \<Rightarrow> Config_value \<Rightarrow> Config_parser_T option" where
  "assign p varname v =
     do { r \<leftarrow> current_section p;
          c \<leftarrow> update_sec (cp_config p) r (\<lambda>s. Config_section_set s varname v);
          Some (p\<lparr>cp_config := c\<rparr>) }"

definition grammar_assignment :: grammar where
  "grammar_assignment p =
     (if accept_no_advance p CONFIG_LEXER_TOK_NAME
      then (let varname = lex_str_value (cp_lexer p) in
            if length varname > LEXER_MAX_STR_LEN then None
            else (let (ok, p1) = accept CONFIG_LEXER_TOK_EQ (cp_advance p) in
              if ok
              then if accept_no_advance p1 CONFIG_LEXER_TOK_INT
                   then do { p2 \<leftarrow> assign p1 varname (Int_value (lex_int_value (cp_lexer p1)));
                             Some (True, cp_advance p2) }
                   else if accept_no_advance p1 CONFIG_LEXER_TOK_STR
                   then do { p2 \<leftarrow> assign p1 varname (Str_value (lex_str_value (cp_lexer p1)));
                             Some (True, cp_advance p2) }
                   else do { (okl, p2) \<leftarrow> grammar_list p1;
                             if okl
                             then do { vs \<leftarrow> cp_value p2;
                                       p3 \<leftarrow> assign p2 varname (List_value vs);
                                       Some (True, p3\<lparr>cp_value := None\<rparr>) }
                             else Some (False, p2) }
              else Some (False, p1)))
      else Some (False, p))"

lemma assign_left: "assign p varname v = Some p' \<Longrightarrow> cp_left p' = cp_left p"
  by (auto simp: assign_def bind_eq_Some_conv)

lemma forward_assignment [simp]: "forward grammar_assignment"
proof -
  have "cp_left p' \<le> cp_left p" if H: "grammar_assignment p = Some (ok, p')" for p ok p'
  proof -
    obtain ok1 p1 where a: "accept CONFIG_LEXER_TOK_EQ (cp_advance p) = (ok1, p1)" by fastforce
    have le: "cp_left p1 \<le> cp_left p" using accept_left [OF a] cp_advance_left [of p] by simp
    show ?thesis
      using H a le cp_advance_left
      by (auto simp: grammar_assignment_def Let_def bind_eq_Some_conv dest!: assign_left forwardD [OF forward_list]
          split: if_splits) (metis le_trans)+
  qed
  then show ?thesis by (simp add: forward_def)
qed

lemma accept_snd_left: "cp_left (snd (accept tok p)) \<le> cp_left p"
  using accept_left [of tok p] by (cases "accept tok p") auto

lemma eol_then_less:
  "forward f \<Longrightarrow> and_then (acc CONFIG_LEXER_TOK_EOL) f p = Some (True, p1) \<Longrightarrow> cp_left p1 < cp_left p"
proof -
  assume f: "forward f" and H: "and_then (acc CONFIG_LEXER_TOK_EOL) f p = Some (True, p1)"
  obtain p2 where p2: "accept CONFIG_LEXER_TOK_EOL p = (True, p2)" "f p2 = Some (True, p1)"
    using H by (auto simp: and_then_def acc_def split: prod.splits if_splits)
  then show ?thesis
    using accept_less [OF p2(1)] forwardD [OF f p2(2)] by (auto simp: config_toks)
qed

function grammar_section_assignments :: grammar where
  "grammar_section_assignments p =
     (case and_then (acc CONFIG_LEXER_TOK_EOL) grammar_assignment (snd (accept CONFIG_LEXER_TOK_COMMA p)) of
        None \<Rightarrow> None
      | Some (False, p1) \<Rightarrow> Some (True, p1)
      | Some (True, p1) \<Rightarrow> grammar_section_assignments p1)"
  by pat_completeness auto
termination
  by (relation "measure cp_left") (auto dest!: eol_then_less [OF forward_assignment]
      intro: less_le_trans accept_snd_left)

declare grammar_section_assignments.simps [simp del]

lemma forward_section_assignments [simp]: "forward grammar_section_assignments"
proof -
  have "grammar_section_assignments p = Some (ok, p') \<Longrightarrow> cp_left p' \<le> cp_left p" for p ok p'
  proof (induction p rule: grammar_section_assignments.induct)
    case (1 p)
    obtain b p0 where p0: "accept CONFIG_LEXER_TOK_COMMA p = (b, p0)" by fastforce
    obtain y p1 where y: "and_then (acc CONFIG_LEXER_TOK_EOL) grammar_assignment p0 = Some (y, p1)"
      using 1(2) p0 by (subst (asm) grammar_section_assignments.simps) (auto split: option.splits)
    have le: "cp_left p1 \<le> cp_left p"
      using forwardD [OF forward_and [OF forward_acc forward_assignment] y] accept_left [OF p0] by simp
    show ?case
    proof (cases y)
      case True
      then have "grammar_section_assignments p1 = Some (ok, p')"
        using 1(2) p0 y by (subst (asm) grammar_section_assignments.simps) simp
      then show ?thesis using 1(1) [of "(y, p1)" y p1] y True p0 le by simp
    next
      case False
      then show ?thesis using 1(2) p0 y le by (subst (asm) grammar_section_assignments.simps) simp
    qed
  qed
  then show ?thesis by (simp add: forward_def)
qed

definition grammar_section_statements :: grammar where
  "grammar_section_statements = and_then grammar_assignment grammar_section_assignments"

definition grammar_section_type :: grammar where
  "grammar_section_type p =
     (if accept_no_advance p CONFIG_LEXER_TOK_SECTION \<or> accept_no_advance p CONFIG_LEXER_TOK_BLACKLIST \<or>
         accept_no_advance p CONFIG_LEXER_TOK_WHITELIST
      then Some (True, cp_advance (p\<lparr>cp_sectype := cp_curr p\<rparr>))
      else Some (False, p))"

definition open_section :: "Config_parser_T \<Rightarrow> string \<Rightarrow> Config_parser_T option" where
  "open_section p secname =
     (let (r, c) = new_section (cp_config p) secname
      in do { c' \<leftarrow> (if cp_sectype p = CONFIG_LEXER_TOK_SECTION then Config_add_section c r
                     else if cp_sectype p = CONFIG_LEXER_TOK_BLACKLIST then Config_add_blacklist c r
                     else if cp_sectype p = CONFIG_LEXER_TOK_WHITELIST then Config_add_whitelist c r
                     else Some c);
              Some (p\<lparr>cp_section := Some r, cp_config := c'\<rparr>) })"

definition section_body :: grammar where
  "section_body =
     and_then grammar_section_statements
       (or_else (and_then (acc CONFIG_LEXER_TOK_EOL) (acc CONFIG_LEXER_TOK_BRACKET_R)) (acc CONFIG_LEXER_TOK_BRACKET_R))"

definition grammar_section :: grammar where
  "grammar_section p =
     do { (ok, p1) \<leftarrow> grammar_section_type p;
          if ok \<and> accept_no_advance p1 CONFIG_LEXER_TOK_NAME
          then (let secname = lex_str_value (cp_lexer p1) in
                if length secname > LEXER_MAX_STR_LEN then None
                else (let p2 = snd (accept CONFIG_LEXER_TOK_EOL (cp_advance p1));
                          (okb, p3) = accept CONFIG_LEXER_TOK_BRACKET_L p2
                      in if okb
                         then do { p4 \<leftarrow> open_section (snd (accept CONFIG_LEXER_TOK_EOL p3)) secname;
                                   (okc, p5) \<leftarrow> section_body p4;
                                   Some (if okc then (True, p5\<lparr>cp_section := None\<rparr>) else (False, p5)) }
                         else Some (False, p3)))
          else Some (False, p1) }"

definition grammar_include :: "(string \<Rightarrow> string list option) \<Rightarrow> grammar" where
  "grammar_include glob p =
     (let (ok, p1) = accept CONFIG_LEXER_TOK_INCLUDE p in
      if ok \<and> accept_no_advance p1 CONFIG_LEXER_TOK_STR
      then do { c \<leftarrow> Config_add_include glob (cp_config p1) (lex_str_value (cp_lexer p1));
                Some (True, cp_advance (p1\<lparr>cp_config := c\<rparr>)) }
      else Some (False, p1))"

definition grammar_statement :: "(string \<Rightarrow> string list option) \<Rightarrow> grammar" where
  "grammar_statement glob = or_else (or_else grammar_assignment grammar_section) (grammar_include glob)"

lemma forward_section_type [simp]: "forward grammar_section_type"
proof -
  have "cp_left (cp_advance (p\<lparr>cp_sectype := t\<rparr>)) \<le> cp_left p" for p t
    using cp_advance_left [of "p\<lparr>cp_sectype := t\<rparr>"] by simp
  then show ?thesis by (auto simp: forward_def grammar_section_type_def split: if_splits)
qed

lemma forward_section_body [simp]: "forward section_body"
  by (simp add: section_body_def grammar_section_statements_def)

lemma open_section_left: "open_section p secname = Some p' \<Longrightarrow> cp_left p' = cp_left p"
  by (auto simp: open_section_def Let_def new_section_def bind_eq_Some_conv)

lemma forward_section [simp]: "forward grammar_section"
proof -
  have "cp_left p' \<le> cp_left p" if H: "grammar_section p = Some (ok, p')" for p ok p'
  proof -
    obtain ok1 p1 where t: "grammar_section_type p = Some (ok1, p1)"
      using H by (auto simp: grammar_section_def bind_eq_Some_conv)
    obtain a2 p2 where 2: "accept CONFIG_LEXER_TOK_EOL (cp_advance p1) = (a2, p2)" by fastforce
    obtain a3 p3 where 3: "accept CONFIG_LEXER_TOK_BRACKET_L p2 = (a3, p3)" by fastforce
    obtain a4 p4 where 4: "accept CONFIG_LEXER_TOK_EOL p3 = (a4, p4)" by fastforce
    have le: "cp_left p1 \<le> cp_left p" "cp_left p2 \<le> cp_left p1" "cp_left p3 \<le> cp_left p2" "cp_left p4 \<le> cp_left p3"
      using forwardD [OF forward_section_type t] accept_left [OF 2] accept_left [OF 3] accept_left [OF 4]
        cp_advance_left [of p1] by auto
    have "p' = p1 \<or> p' = p3 \<or> (\<exists>p5 okc p6. open_section p4 (lex_str_value (cp_lexer p1)) = Some p5 \<and>
        section_body p5 = Some (okc, p6) \<and> cp_left p' = cp_left p6)"
      using H t 2 3 4
      by (auto simp: grammar_section_def Let_def bind_eq_Some_conv split: if_splits)
    then show ?thesis
      using le by (auto dest!: open_section_left forwardD [OF forward_section_body])
  qed
  then show ?thesis by (simp add: forward_def)
qed

lemma forward_include [simp]: "forward (grammar_include glob)"
proof -
  have "cp_left p' \<le> cp_left p" if H: "grammar_include glob p = Some (ok, p')" for p ok p'
  proof -
    obtain a p1 where a: "accept CONFIG_LEXER_TOK_INCLUDE p = (a, p1)" by fastforce
    have "cp_left (cp_advance (p1\<lparr>cp_config := c\<rparr>)) \<le> cp_left p1" for c
      using cp_advance_left [of "p1\<lparr>cp_config := c\<rparr>"] by simp
    then show ?thesis
      using H a accept_left [OF a]
      by (auto simp: grammar_include_def bind_eq_Some_conv split: if_splits) (metis le_trans)
  qed
  then show ?thesis by (simp add: forward_def)
qed

lemma forward_statement [simp]: "forward (grammar_statement glob)"
  by (simp add: grammar_statement_def)

section \<open>Statements\<close>

function grammar_statements :: "(string \<Rightarrow> string list option) \<Rightarrow> grammar" where
  "grammar_statements glob p =
     (case and_then (acc CONFIG_LEXER_TOK_EOL) (grammar_statement glob) p of
        None \<Rightarrow> None
      | Some (False, p1) \<Rightarrow> Some (True, p1)
      | Some (True, p1) \<Rightarrow> grammar_statements glob p1)"
  by pat_completeness auto
termination
  by (relation "measure (\<lambda>(glob, p). cp_left p)") (auto dest!: eol_then_less [OF forward_statement])

declare grammar_statements.simps [simp del]

text \<open>\<open>Config_parser_start\<close>, with the parser's configuration set to the one passed in.\<close>

definition Config_parser_start :: "(string \<Rightarrow> string list option) \<Rightarrow> Config_parser_T \<Rightarrow> Config_T
    \<Rightarrow> (bool \<times> Config_parser_T) option" where
  "Config_parser_start glob parser config =
     do { g \<leftarrow> Config_get_section config CONFIG_DEFAULT_SECTION;
          config1 \<leftarrow> (case g of
                        Some r \<Rightarrow> Some config
                      | None \<Rightarrow> (let (r, c) = new_section config CONFIG_DEFAULT_SECTION in Config_add_section c r));
          or_else (and_then (and_then (grammar_statement glob) (grammar_statements glob)) (acc CONFIG_LEXER_TOK_EOF))
                  (acc CONFIG_LEXER_TOK_EOF)
            (snd (accept CONFIG_LEXER_TOK_EOL (cp_advance (parser\<lparr>cp_config := config1\<rparr>)))) }"

end
