(* ===== verification/IP.thy ===== *)
theory IP
  imports Linked_List
begin

text \<open>
  Models \<open>src/src/ip.c\<close> and the structs of \<open>src/src/ip.h\<close>: CIDR blocks, the decomposition
  of an address range into CIDR blocks, the conversion of \<open>address/bits\<close> strings to a
  masked address, and masked matching.

  The four 32-bit words of a \<open>struct IP_addr\<close> are kept in network byte order, most significant
  byte first, as \<open>ntohl\<close> would read them; the bitwise operations and comparisons of the code
  work on them alike. \<open>inet_pton\<close> and \<open>getaddrinfo\<close> belong to the resolver library
  and are parameters.
\<close>

definition AF_INET :: u16 where "AF_INET = 2"
definition AF_INET6 :: u16 where "AF_INET6 = 10"
definition IP_MAX_MASKBITS :: nat where "IP_MAX_MASKBITS = 128"
definition IP_MAX_MASKBITS_V4 :: nat where "IP_MAX_MASKBITS_V4 = 32"

record IP_cidr =
  cidr_addr :: u32
  cidr_bits :: nat

record IP_addr =
  addr32 :: "u32 list"

definition zero_addr :: IP_addr where
  "zero_addr = \<lparr>addr32 = [0, 0, 0, 0]\<rparr>"

section \<open>CIDR blocks and ranges\<close>

definition imask :: "nat \<Rightarrow> u32" where
  "imask b = (if b = 0 then 0 else push_bit (32 - b) 0xffffffff)"

fun max_block :: "u32 \<Rightarrow> nat \<Rightarrow> nat" where
  "max_block addr 0 = 0"
| "max_block addr (Suc b) = (if addr AND imask b \<noteq> addr then Suc b else max_block addr b)"

function max_diff_loop :: "u32 \<Rightarrow> u32 \<Rightarrow> nat \<Rightarrow> nat" where
  "max_diff_loop a b bits =
     (if bits < 32
      then if a AND imask bits \<noteq> b AND imask bits then bits else max_diff_loop a b (bits + 1)
      else bits)"
  by pat_completeness auto
termination by (relation "measure (\<lambda>(a, b, bits). 32 - bits)") auto

declare max_diff_loop.simps [simp del]

definition max_diff :: "u32 \<Rightarrow> u32 \<Rightarrow> nat" where
  "max_diff a b = max_diff_loop a (b + 1) 0"

text \<open>\<open>1 << n\<close> on an \<open>int\<close>: undefined from the width of the type on.\<close>

definition shl_one :: "nat \<Rightarrow> u32 option" where
  "shl_one n = (if n < 32 then Some (push_bit n 1) else None)"

definition IP_cidr_to_range :: "IP_cidr \<Rightarrow> (u32 \<times> u32) option" where
  "IP_cidr_to_range cidr =
     do { len \<leftarrow> shl_one (32 - cidr_bits cidr);
          Some (cidr_addr cidr, cidr_addr cidr + len - 1) }"

text \<open>\<open>inet_ntoa\<close>: the four bytes in decimal, separated by dots.\<close>

definition inet_ntoa :: "u32 \<Rightarrow> string" where
  "inet_ntoa a =
     dec_digits (unat (drop_bit 24 a AND 255)) @ ''.'' @ dec_digits (unat (drop_bit 16 a AND 255)) @ ''.'' @
     dec_digits (unat (drop_bit 8 a AND 255)) @ ''.'' @ dec_digits (unat (a AND 255))"

definition IP_cidr_to_str :: "IP_cidr \<Rightarrow> string" where
  "IP_cidr_to_str cidr = inet_ntoa (cidr_addr cidr) @ ''/'' @ dec_digits (cidr_bits cidr)"

text \<open>
  One round of the while loop of \<open>IP_range_to_cidr_list\<close>: it appends a block, counts it and moves the
  start behind it, modulo \<open>2 ^ 32\<close>; \<open>None\<close> when the shift is undefined.
\<close>

definition IP_range_step ::
    "string List_T \<Rightarrow> int \<Rightarrow> u32 \<Rightarrow> u32 \<Rightarrow> (string List_T \<times> int \<times> u32) option" where
  "IP_range_step cidrs nadded st en =
     (let maxsize = max (max_block st 32) (max_diff st en) in
      do { len \<leftarrow> shl_one (32 - maxsize);
           Some (List_insert_after cidrs (IP_cidr_to_str \<lparr>cidr_addr = st, cidr_bits = maxsize\<rparr>),
                 nadded + 1, st + len) })"

text \<open>The loop; \<open>None\<close> when a round is undefined or when it never ends.\<close>

partial_function (option) IP_range_loop ::
    "string List_T \<Rightarrow> int \<Rightarrow> u32 \<Rightarrow> u32 \<Rightarrow> (int \<times> string List_T) option" where
  "IP_range_loop cidrs nadded st en =
     (if st \<le> en then
        Option.bind (IP_range_step cidrs nadded st en) (\<lambda>(cidrs, nadded, st). IP_range_loop cidrs nadded st en)
      else Some (nadded, cidrs))"

definition IP_range_to_cidr_list :: "string List_T \<Rightarrow> u32 \<Rightarrow> u32 \<Rightarrow> (int \<times> string List_T) option" where
  "IP_range_to_cidr_list cidrs st en = IP_range_loop cidrs 0 st en"

section \<open>Addresses with masks\<close>

text \<open>The \<open>\<percent>u\<close> conversion of \<open>sscanf\<close>: blanks, an optional sign, then digits, read as
  \<open>strtoul\<close> does and stored in 32 bits.\<close>

fun dec_value :: "nat \<Rightarrow> string \<Rightarrow> nat" where
  "dec_value n [] = n"
| "dec_value n (c # cs) = dec_value (10 * n + (of_char c - 48)) cs"

definition scan_unsigned :: "string \<Rightarrow> u32 option" where
  "scan_unsigned s =
     (let s1 = dropWhile char_isspace s;
          neg = (s1 \<noteq> [] \<and> hd s1 = CHR ''-'');
          s2 = (if s1 \<noteq> [] \<and> (hd s1 = CHR ''-'' \<or> hd s1 = CHR ''+'') then tl s1 else s1);
          ds = takeWhile (\<lambda>c. isdigit_c (char_code c)) s2
      in if ds = [] then None
         else (let n = dec_value 0 ds in
               if n \<ge> 2 ^ 64 then Some (-1)
               else Some (if neg then - of_nat n else of_nat n)))"

text \<open>\<open>sscanf (address, "\<percent>39[^/]/\<percent>u", parsed, &maskbits) == 2\<close>\<close>

definition scan_cidr :: "string \<Rightarrow> (string \<times> u32) option" where
  "scan_cidr address =
     (let parsed = takeWhile (\<lambda>c. c \<noteq> CHR ''/'') (take 39 address);
          rest = drop (length parsed) address
      in if parsed = [] \<or> rest = [] \<or> hd rest \<noteq> CHR ''/'' then None
         else map_option (Pair parsed) (scan_unsigned (tl rest)))"

text \<open>The mask loops: whole words of ones, then the leading bits of the next word.\<close>

fun mask_words :: "nat \<Rightarrow> nat \<Rightarrow> u32 list \<Rightarrow> nat \<times> nat \<times> u32 list" where
  "mask_words maskbits j m =
     (if maskbits \<ge> 32 then mask_words (maskbits - 32) (j + 1) (m[j := 0xffffffff])
      else (maskbits, j, m))"

declare mask_words.simps [simp del]

fun mask_fill :: "nat \<Rightarrow> nat \<Rightarrow> u32 \<Rightarrow> u32" where
  "mask_fill i maskbits w =
     (if i > 31 - maskbits then mask_fill (i - 1) maskbits (w OR push_bit i 1) else w)"

declare mask_fill.simps [simp del]

definition prefix_mask :: "nat \<Rightarrow> u32 list" where
  "prefix_mask maskbits =
     (let (k, j, m) = mask_words maskbits 0 [0, 0, 0, 0]
      in if k > 0 then m[j := mask_fill 31 k (m ! j)] else m)"

definition IP_str_to_addr_mask ::
    "(u16 \<Rightarrow> string \<Rightarrow> IP_addr option) \<Rightarrow> string \<Rightarrow> u16 \<Rightarrow> int \<times> IP_addr \<times> IP_addr \<times> u16" where
  "IP_str_to_addr_mask inet_pton address af =
     (case scan_cidr address of
        None \<Rightarrow> (-1, zero_addr, zero_addr, af)
      | Some (parsed, maskbits) \<Rightarrow>
          if maskbits = 0 \<or> unat maskbits > IP_MAX_MASKBITS then (-1, zero_addr, zero_addr, af)
          else (let af' = (if CHR '':'' \<in> set parsed then AF_INET6 else AF_INET) in
                if af' = AF_INET \<and> unat maskbits > IP_MAX_MASKBITS_V4
                then (-1, zero_addr, zero_addr, af')
                else (case inet_pton af' parsed of
                        None \<Rightarrow> (-1, zero_addr, zero_addr, af')
                      | Some n \<Rightarrow>
                          (let m = prefix_mask (unat maskbits) in
                           (0, \<lparr>addr32 = map2 (AND) (addr32 n) m\<rparr>, \<lparr>addr32 = m\<rparr>, af')))))"

definition IP_match_addr :: "IP_addr \<Rightarrow> IP_addr \<Rightarrow> IP_addr \<Rightarrow> u16 \<Rightarrow> bool" where
  "IP_match_addr a m b af =
     (if af = AF_INET then addr32 a ! 0 = (addr32 b ! 0 AND addr32 m ! 0)
      else if af = AF_INET6 then
        addr32 a ! 0 = (addr32 b ! 0 AND addr32 m ! 0) \<and> addr32 a ! 1 = (addr32 b ! 1 AND addr32 m ! 1) \<and>
        addr32 a ! 2 = (addr32 b ! 2 AND addr32 m ! 2) \<and> addr32 a ! 3 = (addr32 b ! 3 AND addr32 m ! 3)
      else False)"

definition IP_check_addr :: "(u16 \<Rightarrow> string \<Rightarrow> bool) \<Rightarrow> string \<Rightarrow> int" where
  "IP_check_addr getaddrinfo_numeric addr =
     (let sa = (if CHR '':'' \<in> set addr then AF_INET6 else AF_INET)
      in if getaddrinfo_numeric sa addr then uint sa else -1)"

text \<open>A \<open>sockaddr_storage\<close>: its family and the words of its address.\<close>

record sockaddr =
  sa_family :: u16
  sa_words :: "u32 list"
  sa_port :: nat

definition IP_sockaddr_to_addr :: "sockaddr \<Rightarrow> IP_addr \<Rightarrow> int \<times> IP_addr" where
  "IP_sockaddr_to_addr sa addr =
     (uint (sa_family sa),
      if sa_family sa = AF_INET then addr\<lparr>addr32 := (addr32 addr)[0 := sa_words sa ! 0]\<rparr>
      else if sa_family sa = AF_INET6 then addr\<lparr>addr32 := sa_words sa\<rparr>
      else addr)"

section \<open>Masks and prefixes\<close>

lemma word_ffffffff: "(0xffffffff :: u32) = - 1"
  by simp

lemma bit_imask: "b \<le> 32 \<Longrightarrow> bit (imask b) i \<longleftrightarrow> 32 - b \<le> i \<and> i < 32"
  unfolding imask_def word_ffffffff
  by (auto simp: bit_simps possible_bit_word)

lemma and_imask: "b \<le> 32 \<Longrightarrow> w AND imask b = push_bit (32 - b) (drop_bit (32 - b) w)"
  by (rule bit_word_eqI) (auto simp: bit_and_iff bit_imask bit_push_bit_iff bit_drop_bit_eq)

lemma unat_u32_less: "unat (w :: u32) < 2 ^ 32"
  using unsigned_less [of w, where 'a = nat] by simp

lemma unat_and_imask: "b \<le> 32 \<Longrightarrow> unat (w AND imask b) = unat w div 2 ^ (32 - b) * 2 ^ (32 - b)"
proof -
  assume b: "b \<le> 32"
  have w: "take_bit 32 (unat w) = unat w"
    by (rule take_bit_nat_eq_self) (rule unat_u32_less)
  have lt: "unat w div 2 ^ (32 - b) * 2 ^ (32 - b) < 2 ^ 32"
    by (rule le_less_trans [OF div_times_less_eq_dividend]) (rule unat_u32_less)
  have "unat (w AND imask b) = take_bit 32 (unat w div 2 ^ (32 - b) * 2 ^ (32 - b))"
    unfolding and_imask [OF b] unsigned_push_bit_eq unsigned_drop_bit_eq
    by (simp add: push_bit_eq_mult drop_bit_eq_div w)
  then show ?thesis using take_bit_nat_eq_self [OF lt] by simp
qed

lemma imask_eq_iff:
  "b \<le> 32 \<Longrightarrow> v AND imask b = w AND imask b \<longleftrightarrow> unat v div 2 ^ (32 - b) = unat w div 2 ^ (32 - b)"
  by (simp add: word_unat_eq_iff unat_and_imask)

lemma imask_self_iff: "b \<le> 32 \<Longrightarrow> w AND imask b = w \<longleftrightarrow> 2 ^ (32 - b) dvd unat w"
  by (auto simp: word_unat_eq_iff unat_and_imask) (metis dvd_triv_right)

section \<open>The range decomposition\<close>

text \<open>\<open>max_block\<close> finds the shortest prefix whose block starts at the address.\<close>

lemma max_block_le: "max_block a b \<le> b"
  by (induction b) auto

lemma max_block_aligned: "b \<le> 32 \<Longrightarrow> a AND imask b = a \<Longrightarrow> a AND imask (max_block a b) = a"
  by (induction b) auto

lemma max_block_dvd: "2 ^ (32 - max_block a 32) dvd unat a"
proof -
  have "a AND imask 32 = a" by (simp add: imask_self_iff)
  then show ?thesis
    using max_block_aligned [of 32 a] max_block_le [of a 32] by (simp add: imask_self_iff)
qed

text \<open>\<open>max_diff\<close> finds the shortest prefix that tells the address from the end of the range.\<close>

lemma max_diff_loop_spec:
  assumes "bits \<le> 32" and "a \<noteq> b"
  shows "bits \<le> max_diff_loop a b bits \<and> max_diff_loop a b bits \<le> 32 \<and>
         a AND imask (max_diff_loop a b bits) \<noteq> b AND imask (max_diff_loop a b bits)"
  using assms
proof (induction a b bits rule: max_diff_loop.induct)
  case (1 a b bits)
  have full: "a AND imask 32 \<noteq> b AND imask 32"
    using 1(3) by (simp add: imask_eq_iff) (simp add: word_unat_eq_iff)
  show ?case
    by (subst (1 2 3 4) max_diff_loop.simps) (use 1 full in \<open>auto simp: le_Suc_eq\<close>)
qed

lemma max_diff_spec:
  assumes "a \<le> b" and "b < 0xffffffff"
  shows "1 \<le> max_diff a b" and "max_diff a b \<le> 32"
    and "unat a div 2 ^ (32 - max_diff a b) \<noteq> Suc (unat b) div 2 ^ (32 - max_diff a b)"
proof -
  have u: "unat (b + 1) = Suc (unat b)"
    using assms(2) by (simp add: word_less_nat_alt unat_word_ariths unat_arith_simps)
  have ne: "a \<noteq> b + 1"
    using assms(1) u by (auto simp: word_le_nat_alt)
  note sp = max_diff_loop_spec [OF _ ne, of 0, folded max_diff_def]
  show "max_diff a b \<le> 32" using sp by simp
  show "1 \<le> max_diff a b"
  proof (rule ccontr)
    assume "\<not> 1 \<le> max_diff a b"
    then have "max_diff a b = 0" by simp
    then show False using sp by (simp add: imask_def)
  qed
  show "unat a div 2 ^ (32 - max_diff a b) \<noteq> Suc (unat b) div 2 ^ (32 - max_diff a b)"
    using sp imask_eq_iff [of "max_diff a b" a "b + 1"] by (simp add: u)
qed

text \<open>The block the loop emits is aligned, has at least one bit of prefix and stays in the range.\<close>

lemma div_eq_coarser:
  "i \<le> j \<Longrightarrow> (a::nat) div 2 ^ i = b div 2 ^ i \<Longrightarrow> a div 2 ^ j = b div 2 ^ j"
  by (metis div_mult2_eq le_add_diff_inverse power_add)

lemma aligned_block_fits:
  assumes "(d::nat) dvd a" and "a \<le> b" and "a div d \<noteq> b div d" and "0 < d"
  shows "a + d \<le> b"
proof -
  have "a div d < b div d"
    using assms(2,3) div_le_mono [of a b d] by linarith
  then have "(a div d + 1) * d \<le> b"
    by (metis Suc_eq_plus1 Suc_leI div_times_less_eq_dividend le_trans mult_le_mono1)
  then show ?thesis using assms(1) by (simp add: add_mult_distrib)
qed

definition range_bits :: "u32 \<Rightarrow> u32 \<Rightarrow> nat" where
  "range_bits st en = max (max_block st 32) (max_diff st en)"

lemma range_bits_spec:
  assumes "st \<le> en" and "en < 0xffffffff"
  defines "k \<equiv> range_bits st en"
  shows "1 \<le> k" and "k \<le> 32" and "2 ^ (32 - k) dvd unat st"
    and "unat st + 2 ^ (32 - k) \<le> Suc (unat en)"
proof -
  note md = max_diff_spec [OF assms(1,2)]
  show k1: "1 \<le> k" and k32: "k \<le> 32"
    using md max_block_le [of st 32] by (auto simp: k_def range_bits_def)
  show dvd: "2 ^ (32 - k) dvd unat st"
    by (rule dvd_trans [OF le_imp_power_dvd max_block_dvd]) (simp add: k_def range_bits_def)
  have "unat st div 2 ^ (32 - k) \<noteq> Suc (unat en) div 2 ^ (32 - k)"
    using md(3) div_eq_coarser [of "32 - k" "32 - max_diff st en" "unat st" "Suc (unat en)"]
    by (metis diff_le_mono2 k_def max.cobounded2 range_bits_def)
  then show "unat st + 2 ^ (32 - k) \<le> Suc (unat en)"
    using assms(1) dvd by (intro aligned_block_fits) (auto simp: word_le_nat_alt)
qed

text \<open>
  A list of blocks tiles the addresses from \<open>s\<close> up to, not including, \<open>e\<close>: each block is
  aligned to its size and starts where the one before it ends.
\<close>

fun tiles :: "nat \<Rightarrow> nat \<Rightarrow> IP_cidr list \<Rightarrow> bool" where
  "tiles s e [] \<longleftrightarrow> s = e"
| "tiles s e (c # cs) \<longleftrightarrow>
     unat (cidr_addr c) = s \<and> 1 \<le> cidr_bits c \<and> cidr_bits c \<le> 32 \<and>
     2 ^ (32 - cidr_bits c) dvd s \<and> tiles (s + 2 ^ (32 - cidr_bits c)) e cs"

text \<open>The addresses a CIDR block stands for: those that agree with it on the masked bits.\<close>

definition cidr_set :: "IP_cidr \<Rightarrow> u32 set" where
  "cidr_set c = {a. a AND imask (cidr_bits c) = cidr_addr c}"

lemma cidr_set_interval:
  assumes "cidr_bits c \<le> 32" and "2 ^ (32 - cidr_bits c) dvd unat (cidr_addr c)"
  shows "a \<in> cidr_set c \<longleftrightarrow>
         unat (cidr_addr c) \<le> unat a \<and> unat a < unat (cidr_addr c) + 2 ^ (32 - cidr_bits c)"
proof -
  obtain q where q: "unat (cidr_addr c) = 2 ^ (32 - cidr_bits c) * q"
    using assms(2) by blast
  have "a \<in> cidr_set c \<longleftrightarrow> unat a div 2 ^ (32 - cidr_bits c) = q"
    using assms(1) by (auto simp: cidr_set_def word_unat_eq_iff unat_and_imask q)
  also have "\<dots> \<longleftrightarrow> q * 2 ^ (32 - cidr_bits c) \<le> unat a \<and> unat a < (q + 1) * 2 ^ (32 - cidr_bits c)"
    by (metis Suc_eq_plus1 div_nat_eqI dividend_less_div_times div_times_less_eq_dividend
        add.commute mult.commute mult_Suc zero_less_numeral zero_less_power)
  finally show ?thesis by (simp add: q algebra_simps)
qed

lemma tiles_le: "tiles s e cs \<Longrightarrow> s \<le> e"
  by (induction cs arbitrary: s) force+

lemma tiles_union: "tiles s e cs \<Longrightarrow> a \<in> \<Union> (cidr_set ` set cs) \<longleftrightarrow> s \<le> unat a \<and> unat a < e"
proof (induction cs arbitrary: s)
  case (Cons c cs)
  let ?t = "s + 2 ^ (32 - cidr_bits c)"
  have t: "tiles ?t e cs" using Cons.prems by simp
  have "a \<in> \<Union> (cidr_set ` set cs) \<longleftrightarrow> ?t \<le> unat a \<and> unat a < e" by (rule Cons.IH [OF t])
  moreover have "a \<in> cidr_set c \<longleftrightarrow> s \<le> unat a \<and> unat a < ?t"
    using cidr_set_interval [of c a] Cons.prems by simp
  ultimately show ?case using tiles_le [OF t] by auto
qed simp

lemma tiles_bits: "tiles s e cs \<Longrightarrow> c \<in> set cs \<Longrightarrow> 1 \<le> cidr_bits c \<and> cidr_bits c \<le> 32"
  by (induction cs arbitrary: s) auto

lemma tiles_disjoint:
  "tiles s e cs \<Longrightarrow> i < j \<Longrightarrow> j < length cs \<Longrightarrow> cidr_set (cs ! i) \<inter> cidr_set (cs ! j) = {}"
proof (induction cs arbitrary: s i j)
  case (Cons c cs)
  show ?case
  proof (cases i)
    case 0
    then obtain j' where j: "j = Suc j'" "j' < length cs" using Cons.prems by (cases j) auto
    have "cidr_set (cs ! j') \<subseteq> {a. s + 2 ^ (32 - cidr_bits c) \<le> unat a}"
      using tiles_union [of "s + 2 ^ (32 - cidr_bits c)" e cs] Cons.prems(1) j(2) by fastforce
    then show ?thesis
      using 0 j Cons.prems(1) cidr_set_interval [of c] by fastforce
  next
    case (Suc i')
    then show ?thesis using Cons by (cases j) auto
  qed
qed simp

lemma shl_one_range: "1 \<le> k \<Longrightarrow> k \<le> 32 \<Longrightarrow> shl_one (32 - k) = Some (push_bit (32 - k) 1)"
  by (simp add: shl_one_def)

lemma unat_push_one: "n < 32 \<Longrightarrow> unat (push_bit n 1 :: u32) = 2 ^ n"
  by (simp only: unsigned_push_bit_eq) (simp add: push_bit_eq_mult take_bit_nat_eq_self)

lemma IP_range_loop_correct:
  assumes "en < 0xffffffff" and "unat st \<le> Suc (unat en)"
  shows "\<exists>cs cidrs'. IP_range_loop cidrs nadded st en = Some (nadded + int (length cs), cidrs') \<and>
           list_head cidrs' = list_head cidrs @ map IP_cidr_to_str cs \<and>
           tiles (unat st) (Suc (unat en)) cs"
  using assms(2)
proof (induction "Suc (unat en) - unat st" arbitrary: st cidrs nadded rule: less_induct)
  case less
  show ?case
  proof (cases "st \<le> en")
    case False
    then have "unat st = Suc (unat en)" using less.prems by (simp add: word_le_nat_alt)
    moreover have "IP_range_loop cidrs nadded st en = Some (nadded, cidrs)"
      using False by (subst IP_range_loop.simps) simp
    ultimately show ?thesis by (intro exI [of _ "[]"]) simp
  next
    case True
    let ?k = "range_bits st en"
    let ?c = "\<lparr>cidr_addr = st, cidr_bits = ?k\<rparr>"
    let ?st = "st + push_bit (32 - ?k) 1"
    note rb = range_bits_spec [OF True assms(1)]
    have en: "unat en < 2 ^ 32 - 1" using assms(1) by (simp add: word_less_nat_alt)
    have u: "unat ?st = unat st + 2 ^ (32 - ?k)"
      using rb en unat_push_one [of "32 - ?k"] by (simp add: unat_word_ariths)
    have step: "IP_range_loop cidrs nadded st en =
        IP_range_loop (List_insert_after cidrs (IP_cidr_to_str ?c)) (nadded + 1) ?st en"
      using True rb by (subst IP_range_loop.simps) (simp add: IP_range_step_def shl_one_range range_bits_def Let_def)
    have pos: "(0::nat) < 2 ^ (32 - ?k)" by simp
    have dec: "Suc (unat en) - unat ?st < Suc (unat en) - unat st"
      using rb(4) pos unfolding u by linarith
    obtain cs cidrs' where
      "IP_range_loop (List_insert_after cidrs (IP_cidr_to_str ?c)) (nadded + 1) ?st en =
         Some (nadded + 1 + int (length cs), cidrs')"
      "list_head cidrs' = list_head cidrs @ IP_cidr_to_str ?c # map IP_cidr_to_str cs"
      "tiles (unat ?st) (Suc (unat en)) cs"
      using less.hyps [OF dec, of "List_insert_after cidrs (IP_cidr_to_str ?c)" "nadded + 1"] rb u by auto
    then show ?thesis
      using rb u by (intro exI [of _ "?c # cs"] exI [of _ cidrs']) (simp add: step)
  qed
qed

lemma IP_range_loop_wf:
  assumes "IP_range_loop cidrs n st en = Some r"
  shows "List_wf cidrs \<longrightarrow> List_wf (snd r)"
proof (rule IP_range_loop.raw_induct [OF _ assms, where P = "\<lambda>l k s e r. List_wf l \<longrightarrow> List_wf (snd r)"])
  fix loop l k s e r
  assume IH: "\<And>l k s e r. loop l k s e = Some r \<Longrightarrow> List_wf l \<longrightarrow> List_wf (snd r)"
    and run: "(if s \<le> e then Option.bind (IP_range_step l k s e) (\<lambda>(l, k, s). loop l k s e)
      else Some (k, l)) = Some r"
  from run show "List_wf l \<longrightarrow> List_wf (snd r)"
    by (auto simp: IP_range_step_def bind_eq_Some_conv Let_def split: if_splits dest: IH)
qed

text \<open>With the last address of the space as its end the loop never leaves.\<close>

lemma IP_range_loop_end:
  assumes "IP_range_loop cidrs nadded st en = Some r"
  shows "en \<noteq> 0xffffffff"
proof (rule IP_range_loop.raw_induct [OF _ assms, where P = "\<lambda>cidrs nadded st en r. en \<noteq> 0xffffffff"])
  fix loop :: "string List_T \<Rightarrow> int \<Rightarrow> u32 \<Rightarrow> u32 \<Rightarrow> (int \<times> string List_T) option"
  fix cidrs nadded r and st en :: u32
  assume IH: "\<And>cidrs nadded st en r. loop cidrs nadded st en = Some r \<Longrightarrow> en \<noteq> 0xffffffff"
    and eq: "(if st \<le> en
        then Option.bind (IP_range_step cidrs nadded st en) (\<lambda>(cidrs, nadded, st). loop cidrs nadded st en)
        else Some (nadded, cidrs)) = Some r"
  show "en \<noteq> 0xffffffff"
  proof (cases "st \<le> en")
    case True
    then obtain l k s where "loop l k s en = Some r" using eq by (auto simp: bind_eq_Some_conv)
    then show ?thesis by (rule IH)
  next
    case False
    then show ?thesis using unat_u32_less [of st] by (auto simp: word_le_nat_alt)
  qed
qed

lemma IP_range_loop_diverges: "IP_range_loop cidrs nadded st 0xffffffff = None"
  using IP_range_loop_end [of cidrs nadded st "0xffffffff"]
  by (cases "IP_range_loop cidrs nadded st 0xffffffff") auto

text \<open>The rounds of that loop are all defined: a block is never the whole address space.\<close>

lemma max_block_pos: "st \<noteq> 0 \<Longrightarrow> 1 \<le> b \<Longrightarrow> 1 \<le> max_block st b"
proof (induction b)
  case (Suc b)
  then show ?case by (cases b) (auto simp: imask_def)
qed simp

lemma max_diff_zero: "max_diff 0 0xffffffff = 32"
proof -
  have loop: "max_diff_loop a a bits = 32" if "bits \<le> 32" for a bits
    using that by (induction "32 - bits" arbitrary: bits) (subst max_diff_loop.simps, auto)+
  have wrap: "(0xffffffff :: u32) + 1 = 0" by simp
  show ?thesis unfolding max_diff_def wrap by (rule loop) simp
qed

lemma range_bits_end: "1 \<le> range_bits st 0xffffffff \<and> range_bits st 0xffffffff \<le> 32"
proof -
  have "max_diff_loop a b bits \<le> 32" if "bits \<le> 32" for a b bits
    using that by (induction a b bits rule: max_diff_loop.induct) (subst max_diff_loop.simps, auto)
  then have "range_bits st 0xffffffff \<le> 32"
    using max_block_le [of st 32] by (simp add: range_bits_def max_diff_def)
  moreover have "1 \<le> range_bits st 0xffffffff"
    using max_block_pos [of st 32] by (cases "st = 0") (auto simp: range_bits_def max_diff_zero)
  ultimately show ?thesis by simp
qed

lemma IP_range_step_end:
  "IP_range_step cidrs nadded st 0xffffffff =
     Some (List_insert_after cidrs (IP_cidr_to_str \<lparr>cidr_addr = st, cidr_bits = range_bits st 0xffffffff\<rparr>),
           nadded + 1, st + push_bit (32 - range_bits st 0xffffffff) 1)"
  using range_bits_end [of st] by (simp add: IP_range_step_def Let_def range_bits_def shl_one_range)

section \<open>Masks of addresses\<close>

lemma mask_fill_bit:
  assumes "k \<le> 32" and "i < 32"
  shows "bit (mask_fill i k w) n \<longleftrightarrow> bit w n \<or> (31 - k < n \<and> n \<le> i)"
  using assms
proof (induction i k w rule: mask_fill.induct)
  case (1 i k w)
  show ?case
    by (subst mask_fill.simps) (use 1 in \<open>auto simp: bit_simps possible_bit_word le_Suc_eq\<close>)
qed

text \<open>Bit \<open>i\<close> of the 128-bit mask, counted from the most significant bit of the first word.\<close>

lemma prefix_mask_length: "mb \<le> 128 \<Longrightarrow> length (prefix_mask mb) = 4"
proof -
  have "length (snd (snd (mask_words k j m))) = length m" for k j m
    by (induction k j m rule: mask_words.induct) (subst mask_words.simps, auto)
  from this [of mb 0 "[0, 0, 0, 0]"] show ?thesis
    by (auto simp: prefix_mask_def Let_def split: prod.splits)
qed

lemma mask_words_cases:
  assumes "mb < 128"
  shows "mask_words mb 0 [0, 0, 0, 0] =
    (mb mod 32, mb div 32, map (\<lambda>j. if j < mb div 32 then 0xffffffff else 0) [0..<4])"
proof -
  have r: "mb mod 32 < 32" by simp
  have mb: "mb = mb div 32 * 32 + mb mod 32" by simp
  have "mask_words (q * 32 + k) 0 [0, 0, 0, 0] =
      (k, q, map (\<lambda>j. if j < q then 0xffffffff else 0) [0..<4])" if "q < 4" "k < 32" for q k
  proof -
    have "q = 0 \<or> q = 1 \<or> q = 2 \<or> q = 3" using that(1) by linarith
    then show ?thesis using that(2) by (elim disjE) (simp_all add: mask_words.simps upt_rec)
  qed
  from this [of "mb div 32" "mb mod 32"] show ?thesis
    using assms r mb by (simp add: div_less_iff_less_mult)
qed

lemma prefix_mask_bit:
  assumes "mb \<le> 128" and "j < 4" and "i < 32"
  shows "bit (prefix_mask mb ! j) (31 - i) \<longleftrightarrow> 32 * j + i < mb"
proof (cases "mb = 128")
  case True
  have "prefix_mask 128 = replicate 4 0xffffffff"
    by (simp add: prefix_mask_def mask_words.simps numeral_eq_Suc)
  then have "prefix_mask mb ! j = - 1" using True assms(2) by (simp only: nth_replicate word_ffffffff)
  then show ?thesis using True assms by (simp add: possible_bit_word)
next
  case False
  then have mb: "mb < 128" using assms(1) by simp
  have q: "mb div 32 < 4" using mb by (simp add: div_less_iff_less_mult)
  have mbe: "mb = 32 * (mb div 32) + mb mod 32" and r: "mb mod 32 < 32" by simp_all
  let ?m = "map (\<lambda>j. if j < mb div 32 then 0xffffffff else 0) [0..<4] :: u32 list"
  have pm: "prefix_mask mb = (if mb mod 32 > 0 then ?m[mb div 32 := mask_fill 31 (mb mod 32) 0] else ?m)"
    using q by (simp add: prefix_mask_def mask_words_cases [OF mb] Let_def)
  have nth: "prefix_mask mb ! j = (if j < mb div 32 then - 1
      else if j = mb div 32 \<and> mb mod 32 > 0 then mask_fill 31 (mb mod 32) 0 else 0)"
    using assms(2) q unfolding pm word_ffffffff by (auto simp: nth_list_update)
  consider "j < mb div 32" | "j = mb div 32" | "j > mb div 32" by linarith
  then show ?thesis
  proof cases
    case 1
    then have "32 * j + 32 \<le> 32 * (mb div 32)" by simp
    then have "32 * j + i < mb" using mbe assms(3) by linarith
    then show ?thesis using 1 by (simp add: nth possible_bit_word)
  next
    case 2
    have "bit (prefix_mask mb ! j) (31 - i) \<longleftrightarrow> 0 < mb mod 32 \<and> 31 - mb mod 32 < 31 - i"
      using mask_fill_bit [of "mb mod 32" 31 0 "31 - i"] r 2 unfolding nth by simp
    also have "\<dots> \<longleftrightarrow> i < mb mod 32" using r assms(3) by linarith
    also have "\<dots> \<longleftrightarrow> 32 * j + i < mb" using mbe 2 by linarith
    finally show ?thesis .
  next
    case 3
    then have "32 * (mb div 32) + 32 \<le> 32 * j" by simp
    then have "mb \<le> 32 * j + i" using mbe r by linarith
    then show ?thesis using 3 by (simp add: nth)
  qed
qed

definition addr_bit :: "IP_addr \<Rightarrow> nat \<Rightarrow> bool" where
  "addr_bit a i = bit (addr32 a ! (i div 32)) (31 - i mod 32)"

lemma masked_word_eq_iff:
  assumes "mb \<le> 128" and "j < 4"
  shows "(v AND prefix_mask mb ! j) = (w AND prefix_mask mb ! j) \<longleftrightarrow>
         (\<forall>i<32. 32 * j + i < mb \<longrightarrow> bit v (31 - i) = bit w (31 - i))"
proof
  assume eq: "(v AND prefix_mask mb ! j) = (w AND prefix_mask mb ! j)"
  show "\<forall>i<32. 32 * j + i < mb \<longrightarrow> bit v (31 - i) = bit w (31 - i)"
  proof (intro allI impI)
    fix i :: nat assume "i < 32" "32 * j + i < mb"
    then have "bit (prefix_mask mb ! j) (31 - i)" using prefix_mask_bit [OF assms] by blast
    moreover have "bit (v AND prefix_mask mb ! j) (31 - i) = bit (w AND prefix_mask mb ! j) (31 - i)"
      using eq by simp
    ultimately show "bit v (31 - i) = bit w (31 - i)" by (simp add: bit_and_iff)
  qed
next
  assume agree: "\<forall>i<32. 32 * j + i < mb \<longrightarrow> bit v (31 - i) = bit w (31 - i)"
  show "(v AND prefix_mask mb ! j) = (w AND prefix_mask mb ! j)"
  proof (rule bit_word_eqI)
    fix n assume "n < LENGTH(32)"
    then have n: "31 - n < 32" "31 - (31 - n) = n" by simp_all
    then show "bit (v AND prefix_mask mb ! j) n = bit (w AND prefix_mask mb ! j) n"
      using agree [rule_format, OF n(1)] prefix_mask_bit [OF assms n(1)] by (auto simp: bit_and_iff)
  qed
qed

lemma all_bits_by_word:
  "(\<forall>i<mb. P (i div 32) (i mod 32)) \<longleftrightarrow> (\<forall>j. \<forall>i<32. 32 * j + i < mb \<longrightarrow> P j i)" for mb :: nat
proof
  assume H: "\<forall>i<mb. P (i div 32) (i mod 32)"
  show "\<forall>j. \<forall>i<32. 32 * j + i < mb \<longrightarrow> P j i"
  proof (intro allI impI)
    fix j i :: nat assume "i < 32" "32 * j + i < mb"
    then show "P j i" using H [rule_format, of "32 * j + i"] by simp
  qed
qed (metis mod_less_divisor mult_div_mod_eq zero_less_numeral)

lemma masked_addr_eq_iff:
  assumes "mb \<le> 32 * n" and "n \<le> 4"
  shows "(\<forall>j<n. (addr32 v ! j AND prefix_mask mb ! j) = (addr32 w ! j AND prefix_mask mb ! j)) \<longleftrightarrow>
         (\<forall>i<mb. addr_bit v i = addr_bit w i)"
proof -
  have mb: "mb \<le> 128" using assms by simp
  have small: "j < n" if "32 * j + i < mb" for i j
  proof -
    have "32 * j < 32 * n" using that assms(1) by linarith
    then show ?thesis by simp
  qed
  have "(\<forall>j<n. (addr32 v ! j AND prefix_mask mb ! j) = (addr32 w ! j AND prefix_mask mb ! j)) \<longleftrightarrow>
        (\<forall>j<n. \<forall>i<32. 32 * j + i < mb \<longrightarrow> bit (addr32 v ! j) (31 - i) = bit (addr32 w ! j) (31 - i))"
    using masked_word_eq_iff [OF mb] assms(2) by simp
  also have "\<dots> \<longleftrightarrow>
        (\<forall>j. \<forall>i<32. 32 * j + i < mb \<longrightarrow> bit (addr32 v ! j) (31 - i) = bit (addr32 w ! j) (31 - i))"
    using small by blast
  finally show ?thesis
    using all_bits_by_word [of mb "\<lambda>j i. bit (addr32 v ! j) (31 - i) = bit (addr32 w ! j) (31 - i)"]
    by (simp add: addr_bit_def)
qed

lemma IP_match_addr_words:
  "IP_match_addr a m b af \<longleftrightarrow>
     (af = AF_INET \<and> (\<forall>j<1. addr32 a ! j = (addr32 b ! j AND addr32 m ! j))) \<or>
     (af = AF_INET6 \<and> (\<forall>j<4. addr32 a ! j = (addr32 b ! j AND addr32 m ! j)))"
  by (auto simp: IP_match_addr_def AF_INET_def AF_INET6_def less_Suc_eq numeral_eq_Suc)

lemma IP_match_masked:
  assumes "length (addr32 n) = 4" and "mb \<le> (if af = AF_INET then 32 else 128)"
    and "af = AF_INET \<or> af = AF_INET6"
  shows "IP_match_addr \<lparr>addr32 = map2 (AND) (addr32 n) (prefix_mask mb)\<rparr> \<lparr>addr32 = prefix_mask mb\<rparr> b af \<longleftrightarrow>
         (\<forall>i<mb. addr_bit b i = addr_bit n i)"
proof -
  have mb: "mb \<le> 128" using assms(2) by (simp split: if_splits)
  have nth: "map2 (AND) (addr32 n) (prefix_mask mb) ! j = (addr32 n ! j AND prefix_mask mb ! j)"
    if "j < 4" for j
    using that assms(1) prefix_mask_length [OF mb] by simp
  have ne: "AF_INET \<noteq> AF_INET6" by (simp add: AF_INET_def AF_INET6_def)
  show ?thesis
    using assms(3)
  proof
    assume af: "af = AF_INET"
    then show ?thesis
      using masked_addr_eq_iff [of mb 1 n b] assms(2) ne nth by (simp add: IP_match_addr_words eq_commute)
  next
    assume af: "af = AF_INET6"
    then show ?thesis
      using masked_addr_eq_iff [of mb 4 n b] assms(2) ne nth by (simp add: IP_match_addr_words eq_commute)
  qed
qed

lemma dvd_block_fits: "(d::nat) dvd a \<Longrightarrow> d dvd b \<Longrightarrow> a < b \<Longrightarrow> a + d \<le> b"
  by (auto elim!: dvdE) (metis Suc_leI mult.commute mult_Suc nat_mult_le_cancel1 add.commute
      mult_less_cancel2 mult_le_mono1)

lemma unat_add_minus_one:
  "unat w = d \<Longrightarrow> 0 < d \<Longrightarrow> unat v + d \<le> 2 ^ 32 \<Longrightarrow> unat (v + w - 1) = unat v + d - 1" for v w :: u32
proof -
  assume A: "unat w = d" "0 < d" "unat v + d \<le> 2 ^ 32"
  have "w \<noteq> 0" using A by auto
  then have w1: "unat (w - 1) = d - 1" using A(1) by (simp add: unat_minus_one)
  have "unat (v + (w - 1)) = unat v + unat (w - 1)"
    by (rule unat_add_lem [THEN iffD1]) (use A w1 in simp)
  then show ?thesis using w1 A by (simp add: algebra_simps)
qed

section \<open>Properties\<close>

text \<open>
  C23. For every range that ends below 255.255.255.255, \<open>IP_range_to_cidr_list\<close> returns: it appends
  to the list the strings of CIDR blocks that are pairwise disjoint, have 1 to 32 prefix bits, and
  together contain exactly the addresses of the range; it returns their number.
\<close>

theorem IP_range_to_cidr_list_exact:
  assumes "st \<le> en" and "en < 0xffffffff"
  shows "\<exists>cs cidrs'. IP_range_to_cidr_list cidrs st en = Some (int (length cs), cidrs') \<and>
           list_head cidrs' = list_head cidrs @ map IP_cidr_to_str cs \<and>
           (\<forall>c\<in>set cs. 1 \<le> cidr_bits c \<and> cidr_bits c \<le> 32) \<and>
           (\<Union> (cidr_set ` set cs) = {st..en}) \<and>
           (\<forall>i j. i < j \<longrightarrow> j < length cs \<longrightarrow> cidr_set (cs ! i) \<inter> cidr_set (cs ! j) = {})"
proof -
  obtain cs cidrs' where r:
    "IP_range_to_cidr_list cidrs st en = Some (int (length cs), cidrs')"
    "list_head cidrs' = list_head cidrs @ map IP_cidr_to_str cs"
    and t: "tiles (unat st) (Suc (unat en)) cs"
    using IP_range_loop_correct [OF assms(2), of st cidrs 0] assms(1)
    by (auto simp: word_le_nat_alt IP_range_to_cidr_list_def)
  have "\<forall>c\<in>set cs. 1 \<le> cidr_bits c \<and> cidr_bits c \<le> 32"
    using tiles_bits [OF t] by blast
  moreover have "\<Union> (cidr_set ` set cs) = {st..en}"
    by (rule set_eqI) (simp only: tiles_union [OF t] atLeastAtMost_iff word_le_nat_alt less_Suc_eq_le)
  ultimately show ?thesis
    using r tiles_disjoint [OF t] by blast
qed

text \<open>C23 at the range 10.0.0.5 to 10.0.0.7.\<close>

theorem IP_range_to_cidr_list_exact_witness:
  "(0x0a000005 :: u32) \<le> 0x0a000007 \<and> (0x0a000007 :: u32) < 0xffffffff \<and>
   (\<exists>cs cidrs'. IP_range_to_cidr_list List_create 0x0a000005 0x0a000007 = Some (int (length cs), cidrs') \<and>
      list_head cidrs' = map IP_cidr_to_str cs \<and> \<Union> (cidr_set ` set cs) = {0x0a000005..0x0a000007})"
  using IP_range_to_cidr_list_exact [of "0x0a000005" "0x0a000007" List_create] by auto

text \<open>
  C38. When the range ends at 255.255.255.255, \<open>IP_range_to_cidr_list\<close> runs forever, whatever its
  start: there is an infinite sequence of rounds of its loop, each of them defined and each entered
  because the start is not above the end. Round \<open>i\<close> appends to the list one more block, of 1 to 32 prefix
  bits at the current start, and moves the start behind that block, wrapping around; so the list
  grows without bound and no result is ever returned.
\<close>

theorem IP_range_to_cidr_list_diverges:
  "IP_range_to_cidr_list cidrs st 0xffffffff = None \<and>
   (\<exists>run. run 0 = (cidrs, 0, st) \<and>
      (\<forall>i. \<exists>l s l' s' c.
         run i = (l, int i, s) \<and> s \<le> 0xffffffff \<and>
         IP_range_step l (int i) s 0xffffffff = Some (l', int (Suc i), s') \<and> run (Suc i) = (l', int (Suc i), s') \<and>
         cidr_addr c = s \<and> 1 \<le> cidr_bits c \<and> cidr_bits c \<le> 32 \<and>
         list_head l' = list_head l @ [IP_cidr_to_str c] \<and> s' = s + 2 ^ (32 - cidr_bits c)))"
proof -
  define run where "run = rec_nat (cidrs, 0, st) (\<lambda>_ (l, k, s). the (IP_range_step l k s 0xffffffff))"
  have run: "run 0 = (cidrs, 0, st)" "\<And>i. run (Suc i) = (case run i of (l, k, s) \<Rightarrow> the (IP_range_step l k s 0xffffffff))"
    by (simp_all add: run_def)
  have count: "fst (snd (run i)) = int i" for i
    by (induction i) (auto simp: run IP_range_step_end split: prod.splits)
  have "\<exists>l s l' s' c.
      run i = (l, int i, s) \<and> s \<le> 0xffffffff \<and>
      IP_range_step l (int i) s 0xffffffff = Some (l', int (Suc i), s') \<and> run (Suc i) = (l', int (Suc i), s') \<and>
      cidr_addr c = s \<and> 1 \<le> cidr_bits c \<and> cidr_bits c \<le> 32 \<and>
      list_head l' = list_head l @ [IP_cidr_to_str c] \<and> s' = s + 2 ^ (32 - cidr_bits c)" for i
  proof -
    obtain l s where i: "run i = (l, int i, s)" using count [of i] by (cases "run i") auto
    have "s \<le> 0xffffffff" using unat_u32_less [of s] by (simp add: word_le_nat_alt)
    then show ?thesis
      using i range_bits_end [of s]
      by (intro exI [of _ l] exI [of _ s] exI [of _ "List_insert_after l (IP_cidr_to_str \<lparr>cidr_addr = s, cidr_bits = range_bits s 0xffffffff\<rparr>)"]
            exI [of _ "s + push_bit (32 - range_bits s 0xffffffff) 1"] exI [of _ "\<lparr>cidr_addr = s, cidr_bits = range_bits s 0xffffffff\<rparr>"])
        (simp add: run IP_range_step_end push_bit_eq_mult)
  qed
  then show ?thesis
    using run(1) by (auto simp: IP_range_to_cidr_list_def IP_range_loop_diverges intro!: exI [of _ run])
qed

text \<open>
  An address string with a valid mask length converts without an error, and the pair of address and
  mask it yields matches exactly the addresses that agree with the parsed address on the leading bits;
  the family follows from a colon in the string.
\<close>

theorem IP_str_to_addr_mask_match:
  assumes "scan_cidr address = Some (parsed, mb)"
    and "1 \<le> unat mb" and "unat mb \<le> (if CHR '':'' \<in> set parsed then 128 else 32)"
    and "inet_pton (if CHR '':'' \<in> set parsed then AF_INET6 else AF_INET) parsed = Some p"
    and "length (addr32 p) = 4"
  shows "\<exists>n m af'. IP_str_to_addr_mask inet_pton address af = (0, n, m, af') \<and>
           af' = (if CHR '':'' \<in> set parsed then AF_INET6 else AF_INET) \<and>
           (\<forall>b. IP_match_addr n m b af' \<longleftrightarrow> (\<forall>i<unat mb. addr_bit b i = addr_bit p i))"
proof -
  have "mb \<noteq> 0" using assms(2) by auto
  moreover have "AF_INET \<noteq> AF_INET6" by (simp add: AF_INET_def AF_INET6_def)
  ultimately show ?thesis
    using assms IP_match_masked [OF assms(5), of "unat mb" "if CHR '':'' \<in> set parsed then AF_INET6 else AF_INET"]
    by (auto simp: IP_str_to_addr_mask_def IP_MAX_MASKBITS_def IP_MAX_MASKBITS_V4_def Let_def)
qed

text \<open>The statement at \<open>10.1.0.0/16\<close>, with a resolver that knows this one address.\<close>

theorem IP_str_to_addr_mask_match_witness:
  "\<exists>n m af'. IP_str_to_addr_mask (\<lambda>af s. if s = ''10.1.0.0'' then Some \<lparr>addr32 = [0x0a010000, 0, 0, 0]\<rparr> else None)
       ''10.1.0.0/16'' 0 = (0, n, m, af') \<and> af' = AF_INET \<and>
     (\<forall>b. IP_match_addr n m b af' \<longleftrightarrow> (\<forall>i<16. addr_bit b i = addr_bit \<lparr>addr32 = [0x0a010000, 0, 0, 0]\<rparr> i))"
  using IP_str_to_addr_mask_match [of "''10.1.0.0/16''" "''10.1.0.0''" 16
      "\<lambda>af s. if s = ''10.1.0.0'' then Some \<lparr>addr32 = [0x0a010000, 0, 0, 0]\<rparr> else None"
      "\<lparr>addr32 = [0x0a010000, 0, 0, 0]\<rparr>" 0]
  by (simp add: scan_cidr_def scan_unsigned_def isdigit_c_def char_code_def char_isspace_def isspace_c_def Let_def)

text \<open>
  \<open>IP_cidr_to_range\<close> of an aligned block with 1 to 32 prefix bits gives its first and last
  address; with no prefix bits its shift by 32 is undefined.
\<close>

theorem IP_cidr_to_range_exact:
  "(1 \<le> cidr_bits c \<and> cidr_bits c \<le> 32 \<and> cidr_addr c AND imask (cidr_bits c) = cidr_addr c \<longrightarrow>
      (\<exists>lo hi. IP_cidr_to_range c = Some (lo, hi) \<and> {lo..hi} = cidr_set c)) \<and>
   (cidr_bits c = 0 \<longrightarrow> IP_cidr_to_range c = None)"
proof (intro conjI impI)
  assume A: "1 \<le> cidr_bits c \<and> cidr_bits c \<le> 32 \<and> cidr_addr c AND imask (cidr_bits c) = cidr_addr c"
  let ?s = "32 - cidr_bits c"
  have d: "2 ^ ?s dvd unat (cidr_addr c)" using A imask_self_iff by blast
  have s: "?s < 32" using A by simp
  have fit: "unat (cidr_addr c) + 2 ^ ?s \<le> 2 ^ 32"
    by (rule dvd_block_fits) (use d unat_u32_less [of "cidr_addr c"] le_imp_power_dvd [of ?s 32 "2::nat"] in simp_all)
  have pos: "(0::nat) < 2 ^ ?s" by simp
  have u: "unat (cidr_addr c + push_bit ?s 1 - 1) = unat (cidr_addr c) + 2 ^ ?s - 1"
    by (rule unat_add_minus_one) (use fit pos unat_push_one [OF s] in auto)
  have "{cidr_addr c .. cidr_addr c + push_bit ?s 1 - 1} = cidr_set c"
  proof (rule set_eqI)
    fix a
    have "a \<in> cidr_set c \<longleftrightarrow> unat (cidr_addr c) \<le> unat a \<and> unat a < unat (cidr_addr c) + 2 ^ ?s"
      using cidr_set_interval d A by blast
    moreover have "unat a < unat (cidr_addr c) + 2 ^ ?s \<longleftrightarrow> unat a \<le> unat (cidr_addr c) + 2 ^ ?s - 1"
      using pos by linarith
    ultimately show "a \<in> {cidr_addr c .. cidr_addr c + push_bit ?s 1 - 1} \<longleftrightarrow> a \<in> cidr_set c"
      unfolding atLeastAtMost_iff word_le_nat_alt u by blast
  qed
  then show "\<exists>lo hi. IP_cidr_to_range c = Some (lo, hi) \<and> {lo..hi} = cidr_set c"
    using A by (simp add: IP_cidr_to_range_def shl_one_range)
qed (simp add: IP_cidr_to_range_def shl_one_def)

text \<open>The statement at 10.0.0.0/8 and at a block without prefix bits.\<close>

theorem IP_cidr_to_range_exact_witness:
  "(\<exists>lo hi. IP_cidr_to_range \<lparr>cidr_addr = 0x0a000000, cidr_bits = 8\<rparr> = Some (lo, hi) \<and>
      {lo..hi} = cidr_set \<lparr>cidr_addr = 0x0a000000, cidr_bits = 8\<rparr>) \<and>
   IP_cidr_to_range \<lparr>cidr_addr = 0, cidr_bits = 0\<rparr> = None"
  using IP_cidr_to_range_exact [of "\<lparr>cidr_addr = 0x0a000000, cidr_bits = 8\<rparr>"]
    IP_cidr_to_range_exact [of "\<lparr>cidr_addr = 0, cidr_bits = 0\<rparr>"]
  by (simp add: imask_def)

end
