(* ===== verification/Trie.thy ===== *)
theory Trie
  imports Prelude
begin

text \<open>
  Models \<open>src/src/trie.c\<close>: the binary radix trie over byte strings, with insertion by splitting the
  leaf a key leads to and lookup by one descent. A node is a \<open>struct Trie\<close>; its \<open>klen\<close> is the
  length of its key, and the comparison function, which every node copies from the root, is an
  argument of the operations. Reading a bit past the end of a key, or the key of an inner node, is
  undefined and gives \<open>None\<close>.
\<close>

section \<open>Nodes and operations\<close>

datatype Trie = Trie (t_key: "u8 list option") (t_branch: nat) (t_kid0: "Trie option") (t_kid1: "Trie option")

definition BIT :: "u8 list \<Rightarrow> nat \<Rightarrow> bool option" where
  "BIT x n = (if n div 8 < length x then Some (bit (x ! (n div 8)) (7 - n mod 8)) else None)"

definition IS_LEAF :: "Trie \<Rightarrow> bool" where
  "IS_LEAF t = (t_kid0 t = None \<and> t_kid1 t = None)"

fun set_kid :: "bool \<Rightarrow> Trie \<Rightarrow> Trie \<Rightarrow> Trie" where
  "set_kid b k (Trie key br k0 k1) = (if b then Trie key br k0 (Some k) else Trie key br (Some k) k1)"

definition Trie_create :: "u8 list option \<Rightarrow> Trie" where
  "Trie_create key = Trie key 0 None None"

fun memcmp :: "u8 list \<Rightarrow> u8 list \<Rightarrow> int" where
  "memcmp (a # as) (b # bs) = (if a = b then memcmp as bs else if a < b then -1 else 1)"
| "memcmp _ _ = 0"

definition bytecmp :: "u8 list \<Rightarrow> u8 list \<Rightarrow> int option" where
  "bytecmp a b =
     Some (if length a \<noteq> length b then (if length a > length b then 1 else -1) else memcmp a b)"

type_synonym trie_cmp = "u8 list \<Rightarrow> u8 list \<Rightarrow> int option"

text \<open>The loop that finds the first bit in which the keys differ: the bit and the last value of
  \<open>val\<close>, which is unset when the loop never reads the key.\<close>

function split_bit :: "u8 list \<Rightarrow> u8 list \<Rightarrow> nat \<Rightarrow> bool option \<Rightarrow> (nat \<times> bool) option" where
  "split_bit tkey key i val =
     (if i < length key * 8
      then do { b1 \<leftarrow> BIT tkey i; b2 \<leftarrow> BIT key i;
                if b1 = b2 then split_bit tkey key (i + 1) (Some b2) else Some (i, b2) }
      else map_option (Pair i) val)"
  by pat_completeness auto
termination by (relation "measure (\<lambda>(tkey, key, i, val). length key * 8 - i)") auto

declare split_bit.simps [simp del]

definition split_leaf :: "u8 list \<Rightarrow> u8 list \<Rightarrow> Trie option" where
  "split_leaf tkey key =
     do { (i, val) \<leftarrow> split_bit tkey key 0 None;
          Some (set_kid (\<not> val) (Trie_create (Some tkey))
                 (set_kid val (Trie_create (Some key)) (Trie None i None None))) }"

text \<open>The descent of \<open>Trie_insert\<close> from a node on, and what it does where it stops.\<close>

fun insert_at :: "trie_cmp \<Rightarrow> u8 list \<Rightarrow> Trie \<Rightarrow> Trie option" where
  "insert_at cmp key (Trie k br None None) =
     (case k of None \<Rightarrow> None
      | Some tkey \<Rightarrow> do { c \<leftarrow> cmp tkey key; if c = 0 then Some (Trie k br None None) else split_leaf tkey key })"
| "insert_at cmp key (Trie k br k0 k1) =
     (if br \<ge> length key * 8 then None
      else case BIT key br of
             None \<Rightarrow> None
           | Some False \<Rightarrow>
               (case k0 of None \<Rightarrow> Some (Trie k br (Some (Trie_create (Some key))) k1)
                | Some t \<Rightarrow> map_option (\<lambda>t'. Trie k br (Some t') k1) (insert_at cmp key t))
           | Some True \<Rightarrow>
               (case k1 of None \<Rightarrow> Some (Trie k br k0 (Some (Trie_create (Some key))))
                | Some t \<Rightarrow> map_option (\<lambda>t'. Trie k br k0 (Some t')) (insert_at cmp key t)))"

definition Trie_insert :: "trie_cmp \<Rightarrow> Trie \<Rightarrow> u8 list \<Rightarrow> Trie option" where
  "Trie_insert cmp trie key =
     (if IS_LEAF trie \<and> t_key trie = None
      then do { b \<leftarrow> BIT key 0; Some (set_kid b (Trie_create (Some key)) trie) }
      else insert_at cmp key trie)"

fun Trie_contains :: "trie_cmp \<Rightarrow> Trie option \<Rightarrow> u8 list \<Rightarrow> bool option" where
  "Trie_contains cmp None key = Some False"
| "Trie_contains cmp (Some (Trie k br None None)) key =
     (case k of None \<Rightarrow> Some False | Some tkey \<Rightarrow> map_option (\<lambda>c. c = 0) (cmp tkey key))"
| "Trie_contains cmp (Some (Trie k br k0 k1)) key =
     (if br \<ge> length key * 8 then Some False
      else case BIT key br of
             None \<Rightarrow> None
           | Some b \<Rightarrow> Trie_contains cmp (if b then k1 else k0) key)"

section \<open>The keys of a trie and its invariant\<close>

text \<open>
  The nodes reached by a descent, the keys at the leaves, and the invariant: a leaf holds a key, an
  inner node holds none, and every key below the \<open>b\<close> child of a node has the value \<open>b\<close> at the
  branching bit of the node.
\<close>

fun trie_keys :: "Trie option \<Rightarrow> u8 list set" where
  "trie_keys None = {}"
| "trie_keys (Some (Trie k br k0 k1)) = set_option k \<union> trie_keys k0 \<union> trie_keys k1"

fun trie_inv :: "nat \<Rightarrow> Trie option \<Rightarrow> bool" where
  "trie_inv n None \<longleftrightarrow> True"
| "trie_inv n (Some (Trie k br k0 k1)) \<longleftrightarrow>
     (if k0 = None \<and> k1 = None then \<exists>key. k = Some key \<and> length key = n
      else k = None \<and> br < n * 8 \<and>
           (\<forall>key\<in>trie_keys k0. BIT key br = Some False) \<and> (\<forall>key\<in>trie_keys k1. BIT key br = Some True) \<and>
           trie_inv n k0 \<and> trie_inv n k1)"

definition trie_ok :: "nat \<Rightarrow> Trie \<Rightarrow> bool" where
  "trie_ok n t \<longleftrightarrow> t = Trie_create None \<or> trie_inv n (Some t)"

fun trie_branches :: "Trie option \<Rightarrow> nat set" where
  "trie_branches None = {}"
| "trie_branches (Some (Trie k br k0 k1)) =
     (if k0 = None \<and> k1 = None then {} else insert br (trie_branches k0 \<union> trie_branches k1))"

text \<open>The position at which two keys first differ.\<close>

definition first_diff :: "u8 list \<Rightarrow> u8 list \<Rightarrow> nat \<Rightarrow> bool" where
  "first_diff a b i \<longleftrightarrow> BIT a i \<noteq> BIT b i \<and> (\<forall>j<i. BIT a j = BIT b j)"

lemma BIT_some: "n < length x * 8 \<Longrightarrow> \<exists>b. BIT x n = Some b"
  by (simp add: BIT_def less_mult_imp_div_less)

lemma BIT_none: "length x * 8 \<le> n \<Longrightarrow> BIT x n = None"
  by (simp add: BIT_def linorder_not_less less_eq_div_iff_mult_less_eq)

lemma BIT_at: "i < length x \<Longrightarrow> k < 8 \<Longrightarrow> BIT x (i * 8 + k) = Some (bit (x ! i) (7 - k))"
  by (simp add: BIT_def)

lemma keys_eq_by_bits:
  assumes "length a = length b" and "\<And>i. i < length a * 8 \<Longrightarrow> BIT a i = BIT b i"
  shows "a = b"
proof (rule nth_equalityI [OF assms(1)])
  fix i assume i: "i < length a"
  show "a ! i = b ! i"
  proof (rule bit_word_eqI)
    fix n assume "n < LENGTH(8)"
    then have n: "n < 8" by simp
    have "i * 8 + (7 - n) < length a * 8" using i n by linarith
    from assms(2) [OF this] show "bit (a ! i) n = bit (b ! i) n"
      using BIT_at [of i a "7 - n"] BIT_at [of i b "7 - n"] i n assms(1) by simp
  qed
qed

lemma memcmp_zero: "length a = length b \<Longrightarrow> memcmp a b = 0 \<longleftrightarrow> a = b"
  by (induction a b rule: memcmp.induct) auto

lemma bytecmp_zero [simp]: "bytecmp a b = Some 0 \<longleftrightarrow> a = b"
  by (auto simp: bytecmp_def memcmp_zero)

lemma split_bit_spec:
  assumes "length tkey = length key" and "tkey \<noteq> key" and "\<And>j. j < i \<Longrightarrow> BIT tkey j = BIT key j"
    and "i \<le> length key * 8"
  shows "\<exists>k val. split_bit tkey key i v = Some (k, val) \<and> k < length key * 8 \<and> first_diff tkey key k \<and>
           BIT key k = Some val \<and> BIT tkey k = Some (\<not> val)"
  using assms
proof (induction tkey key i v rule: split_bit.induct)
  case (1 tkey key i v)
  have lt: "i < length key * 8"
  proof (rule ccontr)
    assume "\<not> i < length key * 8"
    then have "tkey = key" using 1 by (intro keys_eq_by_bits) auto
    then show False using 1 by simp
  qed
  obtain b1 b2 where b: "BIT tkey i = Some b1" "BIT key i = Some b2"
    using BIT_some [of i tkey] BIT_some [of i key] lt 1 by auto
  show ?case
  proof (cases "b1 = b2")
    case True
    have "split_bit tkey key i v = split_bit tkey key (i + 1) (Some b2)"
      using lt b True by (subst split_bit.simps) simp
    moreover have "\<And>j. j < i + 1 \<Longrightarrow> BIT tkey j = BIT key j"
      using 1(4) b True by (auto simp: less_Suc_eq)
    ultimately show ?thesis
      using 1(1) [OF lt b True] 1(2,3) lt by simp
  next
    case False
    then show ?thesis
      using lt b 1 by (subst split_bit.simps) (auto simp: first_diff_def)
  qed
qed

lemma split_leaf_spec:
  assumes "length tkey = n" and "length key = n" and "tkey \<noteq> key"
  shows "\<exists>t. split_leaf tkey key = Some t \<and> trie_inv n (Some t) \<and> trie_keys (Some t) = {tkey, key} \<and>
           (\<forall>i\<in>trie_branches (Some t). first_diff tkey key i)"
proof -
  obtain k val where "split_bit tkey key 0 None = Some (k, val)" "k < n * 8" "first_diff tkey key k"
    "BIT key k = Some val" "BIT tkey k = Some (\<not> val)"
    using split_bit_spec [of tkey key 0 None] assms by auto
  then show ?thesis
    using assms by (cases val) (auto simp: split_leaf_def Trie_create_def)
qed

lemma leaf_cases:
  obtains (leaf) k br where "t = Trie k br None None"
  | (inner) k br k0 k1 where "t = Trie k br k0 k1" "k0 \<noteq> None \<or> k1 \<noteq> None"
  by (cases t) blast

lemma insert_at_inner:
  "k0 \<noteq> None \<or> k1 \<noteq> None \<Longrightarrow> insert_at cmp key (Trie k br k0 k1) =
     (if br \<ge> length key * 8 then None
      else case BIT key br of
             None \<Rightarrow> None
           | Some False \<Rightarrow>
               (case k0 of None \<Rightarrow> Some (Trie k br (Some (Trie_create (Some key))) k1)
                | Some t \<Rightarrow> map_option (\<lambda>t'. Trie k br (Some t') k1) (insert_at cmp key t))
           | Some True \<Rightarrow>
               (case k1 of None \<Rightarrow> Some (Trie k br k0 (Some (Trie_create (Some key))))
                | Some t \<Rightarrow> map_option (\<lambda>t'. Trie k br k0 (Some t')) (insert_at cmp key t)))"
  by (cases k0; cases k1; hypsubst_thin) simp_all

lemma Trie_contains_inner:
  "k0 \<noteq> None \<or> k1 \<noteq> None \<Longrightarrow> Trie_contains cmp (Some (Trie k br k0 k1)) key =
     (if br \<ge> length key * 8 then Some False
      else case BIT key br of None \<Rightarrow> None | Some b \<Rightarrow> Trie_contains cmp (if b then k1 else k0) key)"
  by (cases k0; cases k1; hypsubst_thin) simp_all

lemma trie_induct [case_names none leaf inner]:
  assumes "P None" and "\<And>k br. P (Some (Trie k br None None))"
    and "\<And>k br k0 k1. k0 \<noteq> None \<or> k1 \<noteq> None \<Longrightarrow> P k0 \<Longrightarrow> P k1 \<Longrightarrow> P (Some (Trie k br k0 k1))"
  shows "P t"
proof (induction t rule: trie_keys.induct)
  case (2 k br k0 k1)
  show ?case
  proof (cases "k0 = None \<and> k1 = None")
    case True
    then show ?thesis using assms(2) by simp
  next
    case False
    then show ?thesis using assms(3) 2 by blast
  qed
qed (rule assms(1))

lemma trie_inv_inner:
  "k0 \<noteq> None \<or> k1 \<noteq> None \<Longrightarrow> trie_inv n (Some (Trie k br k0 k1)) \<longleftrightarrow>
     k = None \<and> br < n * 8 \<and>
     (\<forall>key\<in>trie_keys k0. BIT key br = Some False) \<and> (\<forall>key\<in>trie_keys k1. BIT key br = Some True) \<and>
     trie_inv n k0 \<and> trie_inv n k1"
  by auto

lemma trie_branches_inner:
  "k0 \<noteq> None \<or> k1 \<noteq> None \<Longrightarrow>
   trie_branches (Some (Trie k br k0 k1)) = insert br (trie_branches k0 \<union> trie_branches k1)"
  by auto

lemmas inner_simps = trie_inv_inner trie_branches_inner Trie_contains_inner insert_at_inner

section \<open>Lookup\<close>

text \<open>A query that agrees with a stored key on every branching bit is compared with that key.\<close>

lemma Trie_contains_path:
  assumes "trie_inv n t" and "k \<in> trie_keys t" and "length q = n"
    and "\<forall>i \<in> trie_branches t. BIT q i = BIT k i"
  shows "Trie_contains cmp t q = map_option (\<lambda>c. c = 0) (cmp k q)"
  using assms(1,2,4)
proof (induction t rule: trie_induct)
  case (inner key br k0 k1)
  have inv: "br < n * 8" "\<forall>key\<in>trie_keys k0. BIT key br = Some False"
    "\<forall>key\<in>trie_keys k1. BIT key br = Some True" "trie_inv n k0" "trie_inv n k1"
    and k: "k \<in> trie_keys k0 \<or> k \<in> trie_keys k1"
    and br: "BIT q br = BIT k br" "\<forall>i\<in>trie_branches k0. BIT q i = BIT k i"
    "\<forall>i\<in>trie_branches k1. BIT q i = BIT k i"
    using inner.prems inner.hyps(1) by (auto simp: inner_simps simp del: trie_inv.simps trie_branches.simps)
  from k show ?case
  proof
    assume "k \<in> trie_keys k0"
    then show ?thesis using inner.IH(1) inv br inner.hyps(1) assms(3) by (simp add: inner_simps)
  next
    assume "k \<in> trie_keys k1"
    then show ?thesis using inner.IH(2) inv br inner.hyps(1) assms(3) by (simp add: inner_simps)
  qed
qed auto

text \<open>A lookup that succeeds has found a stored key the comparison accepts.\<close>

lemma Trie_contains_sound:
  "Trie_contains cmp t q = Some True \<Longrightarrow> \<exists>k\<in>trie_keys t. cmp k q = Some 0"
proof (induction t rule: trie_induct)
  case (leaf k br)
  then show ?case by (auto split: option.splits)
next
  case (inner k br k0 k1)
  then show ?case
    by (auto simp: Trie_contains_inner split: if_splits option.splits)
qed simp

lemma Trie_contains_total:
  assumes "trie_inv n t" and "length q = n" and "\<forall>k\<in>trie_keys t. \<exists>c. cmp k q = Some c"
  shows "\<exists>r. Trie_contains cmp t q = Some r"
  using assms(1,3)
proof (induction t rule: trie_induct)
  case (inner k br k0 k1)
  then obtain b where "BIT q br = Some b" using assms(2) BIT_some [of br q] by (auto split: if_splits)
  then show ?case using inner by (auto simp: Trie_contains_inner split: if_splits)
qed auto

section \<open>Insertion\<close>

text \<open>
  What an insertion does to the keys and to the branching bits: it returns the trie as it is when the
  comparison accepts a stored key, and adds the key otherwise.
\<close>

definition inserted :: "trie_cmp \<Rightarrow> nat \<Rightarrow> u8 list \<Rightarrow> Trie option \<Rightarrow> Trie option \<Rightarrow> bool" where
  "inserted cmp n key t t' \<longleftrightarrow>
     trie_inv n t' \<and>
     (t' = t \<and> (\<exists>k\<in>trie_keys t. cmp k key = Some 0) \<or> trie_keys t' = insert key (trie_keys t)) \<and>
     (\<forall>i\<in>trie_branches t'. i \<in> trie_branches t \<or> (\<exists>k\<in>trie_keys t. first_diff k key i))"

lemma inserted_kid:
  assumes "trie_inv n (Some (Trie k br k0 k1))" and "k0 \<noteq> None \<or> k1 \<noteq> None"
    and "BIT key br = Some b" and "inserted cmp n key (if b then k1 else k0) (Some t')"
  shows "inserted cmp n key (Some (Trie k br k0 k1))
           (Some (if b then Trie k br k0 (Some t') else Trie k br (Some t') k1))"
  using assms
  by (cases b)
     (auto simp: inserted_def inner_simps simp del: trie_inv.simps trie_branches.simps)

lemma inserted_new: "length key = n \<Longrightarrow> inserted cmp n key None (Some (Trie_create (Some key)))"
  by (simp add: inserted_def Trie_create_def)

lemma insert_at_spec:
  assumes "trie_inv n (Some t)" and "length key = n"
    and "\<forall>k\<in>trie_keys (Some t). \<exists>c. cmp k key = Some c \<and> (c = 0 \<or> k \<noteq> key)"
  shows "\<exists>t'. insert_at cmp key t = Some t' \<and> inserted cmp n key (Some t) (Some t')"
proof -
  have "trie_inv n s \<Longrightarrow> (\<forall>k\<in>trie_keys s. \<exists>c. cmp k key = Some c \<and> (c = 0 \<or> k \<noteq> key)) \<Longrightarrow>
    s = Some t \<Longrightarrow> \<exists>t'. insert_at cmp key t = Some t' \<and> inserted cmp n key (Some t) (Some t')" for s t
  proof (induction s arbitrary: t rule: trie_induct)
    case (leaf k br)
    then obtain tkey c where k: "k = Some tkey" "length tkey = n" "cmp tkey key = Some c" "c = 0 \<or> tkey \<noteq> key"
      by auto
    then show ?case
      using leaf split_leaf_spec [of tkey n key] assms(2)
      by (cases "c = 0") (auto simp: inserted_def insert_commute)
  next
    case (inner k br k0 k1)
    have br: "br < length key * 8" and k01: "trie_inv n k0" "trie_inv n k1"
      using inner.prems(1) inner.hyps(1) assms(2) by (simp_all add: inner_simps del: trie_inv.simps)
    obtain b where b: "BIT key br = Some b" using BIT_some [OF br] by blast
    have sub: "\<exists>t'. (case (if b then k1 else k0) of None \<Rightarrow> t' = Trie_create (Some key)
        | Some t \<Rightarrow> insert_at cmp key t = Some t') \<and> inserted cmp n key (if b then k1 else k0) (Some t')"
      using inner.IH inner.prems(2) k01 inserted_new [OF assms(2)]
      by (cases b; cases k0; cases k1) auto
    then obtain t' where t': "case (if b then k1 else k0) of None \<Rightarrow> t' = Trie_create (Some key)
        | Some t \<Rightarrow> insert_at cmp key t = Some t'" and ins: "inserted cmp n key (if b then k1 else k0) (Some t')"
      by blast
    have "insert_at cmp key t = Some (if b then Trie k br k0 (Some t') else Trie k br (Some t') k1)"
      using t' inner.hyps(1) inner.prems(3) b br by (auto simp: insert_at_inner split: if_splits option.splits bool.splits)
    then show ?case
      using inserted_kid [OF inner.prems(1) inner.hyps(1) b ins] inner.prems(3) by blast
  qed simp
  then show ?thesis using assms by blast
qed

lemma trie_inv_key_length: "trie_inv n t \<Longrightarrow> k \<in> trie_keys t \<Longrightarrow> length k = n"
proof (induction t rule: trie_induct)
  case (inner k br k0 k1)
  then show ?case by (auto simp: inner_simps simp del: trie_inv.simps)
qed auto

lemma Trie_insert_spec:
  assumes "trie_ok n t" and "length key = n" and "0 < n"
    and "\<forall>k\<in>trie_keys (Some t). \<exists>c. cmp k key = Some c \<and> (c = 0 \<or> k \<noteq> key)"
  shows "\<exists>t'. Trie_insert cmp t key = Some t' \<and> trie_ok n t' \<and>
           (t' = t \<and> (\<exists>k\<in>trie_keys (Some t). cmp k key = Some 0) \<or>
            trie_keys (Some t') = insert key (trie_keys (Some t))) \<and>
           (\<forall>i\<in>trie_branches (Some t'). i = 0 \<or> i \<in> trie_branches (Some t) \<or>
              (\<exists>k\<in>trie_keys (Some t). first_diff k key i))"
proof (cases "t = Trie_create None")
  case True
  obtain b where b: "BIT key 0 = Some b" using BIT_some [of 0 key] assms(2,3) by auto
  then show ?thesis
    using True assms(2,3)
    by (cases b) (auto simp: Trie_insert_def IS_LEAF_def Trie_create_def trie_ok_def)
next
  case False
  then have inv: "trie_inv n (Some t)" using assms(1) by (simp add: trie_ok_def)
  then have "Trie_insert cmp t key = insert_at cmp key t"
    by (cases t rule: leaf_cases) (auto simp: Trie_insert_def IS_LEAF_def)
  then show ?thesis
    using insert_at_spec [where cmp = cmp, OF inv assms(2,4)] by (auto simp: inserted_def trie_ok_def)
qed

section \<open>The contract of a set of patterns\<close>

text \<open>
  What the callers of a trie or of a blacklist rely on: patterns are added one by one, and a query is
  answered by whether some pattern added so far accepts it.
\<close>

locale pattern_set =
  fixes emp :: 't and ins :: "'t \<Rightarrow> 'k \<Rightarrow> 't option" and mem :: "'t \<Rightarrow> 'q \<Rightarrow> bool option"
    and inv :: "'t \<Rightarrow> bool" and elems :: "'t \<Rightarrow> 'k set"
    and validk :: "'k \<Rightarrow> bool" and validq :: "'q \<Rightarrow> bool" and acc :: "'k \<Rightarrow> 'q \<Rightarrow> bool"
  assumes emp_inv: "inv emp" and emp_elems: "elems emp = {}"
    and ins_ok: "inv t \<Longrightarrow> validk k \<Longrightarrow> \<exists>t'. ins t k = Some t' \<and> inv t' \<and> elems t' = insert k (elems t)"
    and mem_ok: "inv t \<Longrightarrow> validq q \<Longrightarrow> mem t q = Some (\<exists>k\<in>elems t. acc k q)"
begin

lemma add_all_from:
  "inv t \<Longrightarrow> \<forall>k\<in>set ks. validk k \<Longrightarrow> \<exists>t'. fold_opt ins t ks = Some t' \<and> inv t' \<and> elems t' = set ks \<union> elems t"
proof (induction ks arbitrary: t)
  case (Cons k ks)
  obtain t1 where "ins t k = Some t1" "inv t1" "elems t1 = insert k (elems t)"
    using ins_ok [of t k] Cons.prems by auto
  then show ?case using Cons.IH [of t1] Cons.prems by auto
qed simp

lemma add_all_mem:
  assumes "\<forall>k\<in>set ks. validk k"
  shows "\<exists>t. fold_opt ins emp ks = Some t \<and> inv t \<and> (\<forall>q. validq q \<longrightarrow> mem t q = Some (\<exists>k\<in>set ks. acc k q))"
  using add_all_from [OF emp_inv assms] emp_elems mem_ok by force

lemma add_all_mono:
  assumes "\<forall>k\<in>set (ks @ ls). validk k" and "validq q" and "fold_opt ins emp ks = Some t"
    and "mem t q = Some True"
  shows "\<exists>t'. fold_opt ins emp (ks @ ls) = Some t' \<and> mem t' q = Some True"
proof -
  have "\<exists>k\<in>set ks. acc k q"
    using add_all_mem [of ks] assms by auto
  then show ?thesis using add_all_mem [of "ks @ ls"] assms(1,2) by auto
qed

end

lemma Trie_contains_bytecmp:
  assumes "trie_ok n t" and "length q = n"
  shows "Trie_contains bytecmp (Some t) q = Some (q \<in> trie_keys (Some t))"
proof (cases "t = Trie_create None")
  case False
  then have inv: "trie_inv n (Some t)" using assms(1) by (simp add: trie_ok_def)
  show ?thesis
  proof (cases "q \<in> trie_keys (Some t)")
    case True
    then show ?thesis
      using Trie_contains_path [OF inv True assms(2), of bytecmp] bytecmp_zero [of q q] by simp
  next
    case False
    obtain r where "Trie_contains bytecmp (Some t) q = Some r"
      using Trie_contains_total [OF inv assms(2), of bytecmp] by (auto simp: bytecmp_def)
    then show ?thesis using False Trie_contains_sound [of bytecmp "Some t" q] by auto
  qed
qed (simp add: Trie_create_def)

interpretation bt: pattern_set "Trie_create None" "Trie_insert bytecmp" "\<lambda>t. Trie_contains bytecmp (Some t)"
  "trie_ok (Suc n)" "\<lambda>t. trie_keys (Some t)" "\<lambda>k. length k = Suc n" "\<lambda>k. length k = Suc n" "(=)" for n
proof
  fix t and k :: "u8 list"
  assume t: "trie_ok (Suc n) t" and k: "length k = Suc n"
  have "\<forall>k'\<in>trie_keys (Some t). \<exists>c. bytecmp k' k = Some c \<and> (c = 0 \<or> k' \<noteq> k)"
    by (auto simp: bytecmp_def memcmp_zero)
  from Trie_insert_spec [where cmp = bytecmp, OF t k _ this]
  show "\<exists>t'. Trie_insert bytecmp t k = Some t' \<and> trie_ok (Suc n) t' \<and>
      trie_keys (Some t') = insert k (trie_keys (Some t))"
    by auto
next
  show "trie_ok (Suc n) t \<Longrightarrow> length q = Suc n \<Longrightarrow>
      Trie_contains bytecmp (Some t) q = Some (\<exists>k\<in>trie_keys (Some t). k = q)" for t q
    by (simp add: Trie_contains_bytecmp)
qed (simp_all add: trie_ok_def Trie_create_def)

section \<open>Properties\<close>

text \<open>
  C24. A trie that compares keys byte by byte is exactly the set of the keys inserted: inserting keys of
  one length into an empty trie never fails, and \<open>Trie_contains\<close> then answers whether the key asked
  for is one of them.
\<close>

theorem Trie_set_semantics:
  assumes "\<forall>k\<in>set ks. length k = Suc n" and "length q = Suc n"
  shows "\<exists>t. fold_opt (Trie_insert bytecmp) (Trie_create None) ks = Some t \<and>
           Trie_contains bytecmp (Some t) q = Some (q \<in> set ks)"
  using bt.add_all_mem [OF assms(1)] assms(2) by auto

text \<open>C24 at three two-byte keys.\<close>

theorem Trie_set_semantics_witness:
  "\<exists>t. fold_opt (Trie_insert bytecmp) (Trie_create None) [[1, 2], [1, 3], [9, 9]] = Some t \<and>
       Trie_contains bytecmp (Some t) [1, 3] = Some True"
  using Trie_set_semantics [of "[[1, 2], [1, 3], [9, 9]]" 1 "[1, 3]"] by simp

end
