(* ===== verification/Utils.thy ===== *)
theory Utils
  imports Prelude
begin

text \<open>
  Models the string helpers of \<open>src/src/utils.c\<close> and its \<open>src/src/utils.h\<close>: the bounded copies
  \<open>sstrncat\<close> and \<open>sstrncpy\<close>, the normalisation of a mail address, and the path
  \<open>close_pidfile\<close> unlinks. A destination is the list of the characters of its array; a write
  past its end is undefined and gives \<open>None\<close>. The process calls \<open>drop_privs\<close> and
  \<open>write_pidfile\<close> only issue system calls and are not modelled.
\<close>

section \<open>Buffers\<close>

definition buf_write :: "char list \<Rightarrow> nat \<Rightarrow> char list \<Rightarrow> char list option" where
  "buf_write buf i cs =
     (if i + length cs \<le> length buf then Some (take i buf @ cs @ drop (i + length cs) buf) else None)"

definition strnlen :: "char list \<Rightarrow> nat \<Rightarrow> nat" where
  "strnlen s n = length (c_str (take n s))"

lemma buf_write_length: "buf_write buf i cs = Some buf' \<Longrightarrow> length buf' = length buf"
  by (auto simp: buf_write_def split: if_splits)

lemma take_c_str: "NUL \<notin> set (take n s) \<Longrightarrow> c_str s = take n s @ c_str (drop n s)"
proof -
  assume "NUL \<notin> set (take n s)"
  then have "c_str (take n s @ drop n s) = take n s @ c_str (drop n s)"
    unfolding c_str_def by (intro takeWhile_append2) auto
  then show ?thesis by simp
qed

section \<open>Bounded copies\<close>

definition sstrncpy :: "char list \<Rightarrow> string \<Rightarrow> nat \<Rightarrow> (nat \<times> char list) option" where
  "sstrncpy dst src dsize =
     (let slen = length src in
      if dsize \<noteq> 0
      then (let dlen = (if dsize > slen then slen else dsize - 1) in
            do { d1 \<leftarrow> buf_write dst 0 (take dlen src);
                 d2 \<leftarrow> buf_write d1 dlen [NUL];
                 Some (slen, d2) })
      else Some (slen, dst))"

definition sstrncat :: "char list \<Rightarrow> string \<Rightarrow> nat \<Rightarrow> (nat \<times> char list) option" where
  "sstrncat dst src dsize =
     (let slen = length src; dlen = strnlen dst dsize in
      if dlen \<noteq> dsize
      then (let count = (if slen > dsize - dlen - 1 then dsize - dlen - 1 else slen) in
            do { d1 \<leftarrow> buf_write dst dlen (take count src);
                 d2 \<leftarrow> buf_write d1 (dlen + count) [NUL];
                 Some (slen + dlen, d2) })
      else Some (slen + dlen, dst))"

section \<open>Mail addresses\<close>

definition addr_char_ok :: "char \<Rightarrow> bool" where
  "addr_char_ok c \<longleftrightarrow> c \<noteq> CHR 0x5c \<and> c \<noteq> CHR 0x22 \<and> c \<noteq> CHR ''>'' \<and> c \<noteq> CHR ''<''"

fun normalize_loop :: "string \<Rightarrow> char list \<Rightarrow> nat \<Rightarrow> int \<Rightarrow> char list option" where
  "normalize_loop [] buf cp buf_size = Some buf"
| "normalize_loop (c # cs) buf cp buf_size =
     (if buf_size > 0 then
        if addr_char_ok c
        then do { buf' \<leftarrow> buf_write buf cp [char_tolower c]; normalize_loop cs buf' (cp + 1) buf_size }
        else normalize_loop cs buf cp buf_size
      else Some buf)"

definition normalize_email_addr :: "string \<Rightarrow> char list \<Rightarrow> int \<Rightarrow> char list option" where
  "normalize_email_addr addr buf buf_size =
     (let addr' = (if addr \<noteq> [] \<and> hd addr = CHR ''<'' then tl addr else addr)
      in do { buf' \<leftarrow> normalize_loop addr' buf 0 buf_size;
              if buf_size \<ge> 1 then buf_write buf' (nat (buf_size - 1)) [NUL] else None })"

section \<open>The pid file\<close>

fun strstr :: "string \<Rightarrow> string \<Rightarrow> string option" where
  "strstr [] needle = (if needle = [] then Some [] else None)"
| "strstr (c # cs) needle =
     (if take (length needle) (c # cs) = needle then Some (c # cs) else strstr cs needle)"

definition close_pidfile :: "string \<Rightarrow> string option \<Rightarrow> string" where
  "close_pidfile path chroot_dir =
     (case chroot_dir of
        Some dir \<Rightarrow>
          if length path > length dir
          then (case strstr path dir of None \<Rightarrow> path | Some p \<Rightarrow> drop (length dir) p)
          else path
      | None \<Rightarrow> path)"

section \<open>What the copies leave in the buffer\<close>

lemma sstrncpy_spec:
  assumes "1 \<le> dsize" and "dsize \<le> length dst" and "NUL \<notin> set src"
  shows "\<exists>d. sstrncpy dst src dsize = Some (length src, d) \<and> length d = length dst \<and>
           c_str d = take (dsize - 1) src \<and> drop dsize d = drop dsize dst"
proof -
  let ?n = "min (length src) (dsize - 1)"
  have n: "(if dsize > length src then length src else dsize - 1) = ?n" "?n < length dst"
    using assms by auto
  have "sstrncpy dst src dsize = Some (length src, take ?n src @ NUL # drop (Suc ?n) dst)"
    using assms n unfolding sstrncpy_def Let_def n(1) by (auto simp: buf_write_def)
  moreover have "NUL \<notin> set (take ?n src)" using assms(3) by (meson in_set_takeD)
  ultimately show ?thesis
    using assms n by (auto simp: min_def drop_Cons')
qed

lemma strnlen_le: "strnlen s n \<le> n"
  unfolding strnlen_def by (metis length_c_str length_take min.boundedE)

lemma strnlen_prefix: "take (strnlen s n) s = c_str (take n s)"
proof -
  obtain r where "take n s = c_str (take n s) @ r"
    unfolding c_str_def by (metis takeWhile_dropWhile_id)
  then show ?thesis
    unfolding strnlen_def
    by (metis append_eq_conv_conj append_take_drop_id append.assoc)
qed

lemma sstrncat_spec:
  assumes "dsize \<le> length dst" and "NUL \<notin> set src" and "strnlen dst dsize < dsize"
  shows "\<exists>d. sstrncat dst src dsize = Some (length src + strnlen dst dsize, d) \<and> length d = length dst \<and>
           c_str d = take (dsize - 1) (c_str (take dsize dst) @ src)"
proof -
  let ?l = "length (c_str (take dsize dst))"
  let ?c = "if length src > dsize - ?l - 1 then dsize - ?l - 1 else length src"
  have c: "?l + ?c < dsize" using assms(3) by (auto simp: strnlen_def)
  have eq: "sstrncat dst src dsize =
      Some (length src + ?l, c_str (take dsize dst) @ take ?c src @ NUL # drop (Suc (?l + ?c)) dst)"
    using assms c unfolding sstrncat_def Let_def by (auto simp: buf_write_def strnlen_def strnlen_prefix [unfolded strnlen_def])
  have "NUL \<notin> set (c_str (take dsize dst) @ take ?c src)"
    using assms(2) by (auto dest: in_set_takeD)
  then have "c_str ((c_str (take dsize dst) @ take ?c src) @ NUL # drop (Suc (?l + ?c)) dst) =
      c_str (take dsize dst) @ take ?c src" by (rule c_str_append_NUL)
  then show ?thesis
    using eq c assms(1,3) by (auto simp: strnlen_def)
qed

lemma char_tolower_NUL: "NUL = char_tolower c \<longleftrightarrow> c = NUL"
proof
  assume "NUL = char_tolower c"
  then have "(of_char NUL :: int) = of_char (char_of (tolower_c (char_code c)))"
    by (simp add: char_tolower_def to_char_def)
  then have "tolower_c (char_code c) mod 256 = 0" by (simp add: NUL_def)
  moreover have "0 \<le> tolower_c (char_code c)" "tolower_c (char_code c) < 256"
    using char_code_bounds [of c] by (auto simp: tolower_c_def isupper_c_def)
  ultimately have "tolower_c (char_code c) = 0" by simp
  then have "char_code c = char_code NUL"
    by (simp add: tolower_c_def isupper_c_def char_code_def NUL_def split: if_splits)
  then show "c = NUL" by simp
next
  assume "c = NUL"
  moreover have "tolower_c (char_code NUL) = char_code NUL"
    by (simp add: tolower_c_def isupper_c_def char_code_def NUL_def)
  ultimately show "NUL = char_tolower c" by (simp add: char_tolower_def)
qed

section \<open>What a normalised address looks like\<close>

definition strip_angle :: "string \<Rightarrow> string" where
  "strip_angle addr = (if addr \<noteq> [] \<and> hd addr = CHR ''<'' then tl addr else addr)"

definition normal_chars :: "string \<Rightarrow> string" where
  "normal_chars addr = map char_tolower (filter addr_char_ok (strip_angle addr))"

lemma normalize_loop_spec:
  assumes "0 < buf_size" and "cp + length (filter addr_char_ok cs) \<le> length buf"
  shows "normalize_loop cs buf cp buf_size =
     Some (take cp buf @ map char_tolower (filter addr_char_ok cs) @
           drop (cp + length (filter addr_char_ok cs)) buf)"
  using assms
proof (induction cs arbitrary: buf cp)
  case (Cons c cs)
  show ?case
  proof (cases "addr_char_ok c")
    case True
    let ?b = "take cp buf @ [char_tolower c] @ drop (Suc cp) buf"
    have w: "buf_write buf cp [char_tolower c] = Some ?b"
      using Cons.prems True by (simp add: buf_write_def)
    show ?thesis
      using Cons.IH [of "Suc cp" ?b] Cons.prems True w by (simp add: min_def add.commute)
  qed (use Cons in simp)
qed simp

text \<open>
  The loop never counts the buffer size down and never ends the copied text: what was in the buffer
  before remains behind the new address.
\<close>

lemma normalize_email_addr_spec:
  assumes "length (normal_chars addr) < n" and "n \<le> length buf"
  shows "normalize_email_addr addr buf (int n) =
     Some ((normal_chars addr @ drop (length (normal_chars addr)) buf)[n - 1 := NUL])"
proof -
  let ?k = "length (normal_chars addr)"
  have "normalize_loop (strip_angle addr) buf 0 (int n) = Some (normal_chars addr @ drop ?k buf)"
    using assms by (subst normalize_loop_spec) (auto simp: normal_chars_def)
  then show ?thesis
    using assms by (auto simp: normalize_email_addr_def strip_angle_def [symmetric] Let_def buf_write_def
        upd_conv_take_nth_drop nat_diff_distrib)
qed

lemma normalize_zeroed:
  assumes "NUL \<notin> set addr" and "length addr < n"
  shows "map_option c_str (normalize_email_addr addr (replicate n NUL) (int n)) = Some (normal_chars addr)"
proof -
  have "length (normal_chars addr) \<le> length addr"
    unfolding normal_chars_def strip_angle_def by (simp, metis diff_le_self le_trans length_filter_le length_tl)
  then have k: "length (normal_chars addr) < n" using assms(2) by simp
  have "set (filter addr_char_ok (strip_angle addr)) \<subseteq> set addr"
    by (auto simp: strip_angle_def dest: list.set_sel(2) split: if_splits)
  then have nul: "NUL \<notin> set (normal_chars addr)"
    using assms(1) by (auto simp: normal_chars_def char_tolower_NUL)
  have "(normal_chars addr @ replicate (n - length (normal_chars addr)) NUL)[n - 1 := NUL] =
      normal_chars addr @ replicate (n - length (normal_chars addr)) NUL"
    using k by (subst list_update_same_conv) (auto simp: nth_append)
  also have "\<dots> = normal_chars addr @ NUL # replicate (n - length (normal_chars addr) - 1) NUL"
    using k by (cases "n - length (normal_chars addr)") auto
  finally have r: "(normal_chars addr @ replicate (n - length (normal_chars addr)) NUL)[n - 1 := NUL] =
      normal_chars addr @ NUL # replicate (n - length (normal_chars addr) - 1) NUL" .
  show ?thesis
    using normalize_email_addr_spec [OF k, of "replicate n NUL"] r c_str_append_NUL [OF nul] by simp
qed

section \<open>Properties\<close>

text \<open>
  Into a buffer that holds only zeros and is longer than the address, \<open>normalize_email_addr\<close>
  stores the address without its leading angle bracket, in lower case and without quotes, backslashes
  and angle brackets.
\<close>

theorem normalize_email_addr_zeroed:
  assumes "NUL \<notin> set addr" and "length addr < n"
  shows "map_option c_str (normalize_email_addr addr (replicate n NUL) (int n)) = Some (normal_chars addr)"
  by (rule normalize_zeroed [OF assms])

text \<open>The statement at an address in angle brackets.\<close>

theorem normalize_email_addr_zeroed_witness:
  "map_option c_str (normalize_email_addr ''<Bob@X.org>'' (replicate 16 NUL) 16) = Some ''bob@x.org''"
proof -
  have "normal_chars ''<Bob@X.org>'' = ''bob@x.org''" by code_simp
  then show ?thesis
    using normalize_email_addr_zeroed [of "''<Bob@X.org>''" 16] by (simp add: NUL_def)
qed

text \<open>
  A shorter address does not replace a longer one in the same buffer: the end of the earlier
  address remains behind it.
\<close>

theorem normalize_email_addr_stale:
  "Option.bind (normalize_email_addr ''<alice@example.org>'' (replicate 24 NUL) 24)
     (\<lambda>buf. map_option c_str (normalize_email_addr ''<bob@x.org>'' buf 24)) = Some ''bob@x.orgmple.org''"
  by code_simp

text \<open>
  \<open>sstrncpy\<close> into a buffer of at least \<open>dsize\<close> characters stores the longest prefix of the
  source that fits together with its terminator, and leaves what lies behind \<open>dsize\<close> unchanged;
  \<open>sstrncat\<close> appends in the same way to the string the buffer holds.
\<close>

theorem bounded_copies:
  assumes "1 \<le> dsize" and "dsize \<le> length dst" and "NUL \<notin> set src"
  shows "(\<exists>d. sstrncpy dst src dsize = Some (length src, d) \<and> length d = length dst \<and>
            c_str d = take (dsize - 1) src \<and> drop dsize d = drop dsize dst) \<and>
         (strnlen dst dsize < dsize \<longrightarrow>
            (\<exists>d. sstrncat dst src dsize = Some (length src + strnlen dst dsize, d) \<and> length d = length dst \<and>
               c_str d = take (dsize - 1) (c_str (take dsize dst) @ src)))"
  using sstrncpy_spec [OF assms] sstrncat_spec [OF assms(2,3)] by blast

text \<open>The statement at a buffer of four characters that holds a string of one character.\<close>

theorem bounded_copies_witness:
  "(\<exists>d. sstrncpy [CHR ''x'', NUL, NUL, NUL] ''abcdef'' 4 = Some (6, d) \<and> c_str d = ''abc'') \<and>
   (\<exists>d. sstrncat [CHR ''x'', NUL, NUL, NUL] ''abcdef'' 4 = Some (7, d) \<and> c_str d = ''xab'')"
  using bounded_copies [of 4 "[CHR ''x'', NUL, NUL, NUL]" "''abcdef''"]
  by (auto simp: NUL_def strnlen_def c_str_def)

end
