(* ===== verification/Blacklist.thy ===== *)
theory Blacklist
  imports IP Trie Utils "HOL-Library.Multiset"
begin

text \<open>
  Models \<open>src/src/blacklist.c\<close> and \<open>src/src/blacklist.h\<close>: lists of addresses kept as an array
  of entries or as a trie, the membership test, and \<open>Blacklist_collapse\<close>, which turns the marked
  ends of black and white ranges into CIDR blocks.

  The array of a list is a block of memory with a capacity in entries, zeroed by \<open>calloc\<close>; a read
  or write outside its capacity is undefined and gives \<open>None\<close>. \<open>qsort\<close> leaves the order of equal
  elements open and is a parameter. Ranges store the address as the number the caller passes;
  addresses added by name store the four words of \<open>IP_str_to_addr_mask\<close>.
\<close>

section \<open>Data\<close>

definition BL_TYPE_WHITE :: int where "BL_TYPE_WHITE = 0"
definition BL_TYPE_BLACK :: int where "BL_TYPE_BLACK = 1"
definition BL_STORAGE_LIST :: int where "BL_STORAGE_LIST = 0"
definition BL_STORAGE_TRIE :: int where "BL_STORAGE_TRIE = 1"
definition BLACKLIST_INIT_SIZE :: nat where "BLACKLIST_INIT_SIZE = 1024 * 1024"

record Blacklist_entry =
  be_address :: IP_addr
  be_mask :: IP_addr
  be_black :: int
  be_white :: int

text \<open>\<open>sizeof (struct Blacklist_entry)\<close>: two addresses and two bytes, padded to a word.\<close>

definition sizeof_Blacklist_entry :: nat where "sizeof_Blacklist_entry = 36"

definition zero_entry :: Blacklist_entry where
  "zero_entry = \<lparr>be_address = zero_addr, be_mask = zero_addr, be_black = 0, be_white = 0\<rparr>"

text \<open>A block of entries: its capacity and the entries up to the last one written.\<close>

record entry_block =
  blk_cap :: nat
  blk_vals :: "Blacklist_entry list"

definition read_entry :: "entry_block option \<Rightarrow> nat \<Rightarrow> Blacklist_entry option" where
  "read_entry blk i =
     do { b \<leftarrow> blk;
          if i < blk_cap b then Some (if i < length (blk_vals b) then blk_vals b ! i else zero_entry) else None }"

definition write_entry :: "entry_block option \<Rightarrow> nat \<Rightarrow> Blacklist_entry \<Rightarrow> entry_block option" where
  "write_entry blk i e =
     do { b \<leftarrow> blk;
          if i < blk_cap b
          then Some (b\<lparr>blk_vals := (blk_vals b @ replicate (i + 1 - length (blk_vals b)) zero_entry)[i := e]\<rparr>)
          else None }"

record Blacklist_T =
  bl_name :: string
  bl_message :: string
  bl_size :: nat
  bl_count :: nat
  bl_type :: int
  bl_trie :: "Trie option"
  bl_entries :: "entry_block option"

section \<open>Operations\<close>

definition Blacklist_create :: "string \<Rightarrow> string \<Rightarrow> int \<Rightarrow> Blacklist_T" where
  "Blacklist_create name message flags =
     (let bl = \<lparr>bl_name = name, bl_message = message, bl_size = 0, bl_count = 0, bl_type = 0,
                bl_trie = None, bl_entries = None\<rparr>
      in if flags = BL_STORAGE_LIST
         then bl\<lparr>bl_entries := Some \<lparr>blk_cap = BLACKLIST_INIT_SIZE, blk_vals = []\<rparr>,
                 bl_size := BLACKLIST_INIT_SIZE, bl_type := BL_STORAGE_LIST\<rparr>
         else if flags = BL_STORAGE_TRIE
         then bl\<lparr>bl_type := BL_STORAGE_TRIE, bl_trie := Some (Trie_create None)\<rparr>
         else bl)"

text \<open>
  \<open>struct Blacklist_trie_entry\<close> as the bytes of the key: the family (little endian), two bytes of
  padding, the address and the mask in network order.
\<close>

definition word_bytes :: "u32 \<Rightarrow> u8 list" where
  "word_bytes w = [ucast (drop_bit 24 w), ucast (drop_bit 16 w), ucast (drop_bit 8 w), ucast w]"

definition bytes_word :: "u8 list \<Rightarrow> nat \<Rightarrow> u32" where
  "bytes_word bs i =
     push_bit 24 (ucast (bs ! i)) OR push_bit 16 (ucast (bs ! (i + 1))) OR
     push_bit 8 (ucast (bs ! (i + 2))) OR ucast (bs ! (i + 3))"

definition trie_entry_bytes :: "u16 \<Rightarrow> IP_addr \<Rightarrow> IP_addr \<Rightarrow> u8 list" where
  "trie_entry_bytes af a m =
     [ucast af, ucast (drop_bit 8 af), 0, 0] @
     word_bytes (addr32 a ! 0) @ word_bytes (addr32 a ! 1) @ word_bytes (addr32 a ! 2) @ word_bytes (addr32 a ! 3) @
     word_bytes (addr32 m ! 0) @ word_bytes (addr32 m ! 1) @ word_bytes (addr32 m ! 2) @ word_bytes (addr32 m ! 3)"

definition entry_af :: "u8 list \<Rightarrow> u16" where
  "entry_af bs = ucast (bs ! 0) OR push_bit 8 (ucast (bs ! 1))"

definition entry_addr :: "u8 list \<Rightarrow> nat \<Rightarrow> IP_addr" where
  "entry_addr bs i = \<lparr>addr32 = map (\<lambda>j. bytes_word bs (i + 4 * j)) [0..<4]\<rparr>"

definition cmp_trie_entry :: "u8 list \<Rightarrow> u8 list \<Rightarrow> int option" where
  "cmp_trie_entry a b =
     (if length a < 36 \<or> length b < 36 then None
      else Some (if IP_match_addr (entry_addr a 4) (entry_addr a 20) (entry_addr b 4) (entry_af b) then 0 else 1))"

fun match_entries :: "entry_block option \<Rightarrow> IP_addr \<Rightarrow> u16 \<Rightarrow> nat \<Rightarrow> nat \<Rightarrow> bool option" where
  "match_entries blk source af i 0 = Some False"
| "match_entries blk source af i (Suc n) =
     do { e \<leftarrow> read_entry blk i;
          if IP_match_addr (be_address e) (be_mask e) source af then Some True
          else match_entries blk source af (i + 1) n }"

definition Blacklist_match :: "Blacklist_T \<Rightarrow> IP_addr \<Rightarrow> u16 \<Rightarrow> bool option" where
  "Blacklist_match list source af =
     (if bl_type list = BL_STORAGE_TRIE
      then Trie_contains cmp_trie_entry (bl_trie list) (trie_entry_bytes af source zero_addr)
      else match_entries (bl_entries list) source af 0 (bl_count list))"

text \<open>\<open>grow_entries\<close>: the new size is passed to \<open>realloc\<close> in bytes.\<close>

definition grow_entries :: "Blacklist_T \<Rightarrow> Blacklist_T" where
  "grow_entries list =
     (if bl_count list \<ge> (bl_size list + 2 ^ 64 - 2) mod 2 ^ 64
      then (let cap = (bl_size list + BLACKLIST_INIT_SIZE) div sizeof_Blacklist_entry
            in list\<lparr>bl_entries := Some \<lparr>blk_cap = cap,
                      blk_vals = (case bl_entries list of None \<Rightarrow> [] | Some b \<Rightarrow> take cap (blk_vals b))\<rparr>,
                    bl_size := bl_size list + BLACKLIST_INIT_SIZE\<rparr>)
      else list)"

definition Blacklist_add ::
    "(u16 \<Rightarrow> string \<Rightarrow> IP_addr option) \<Rightarrow> Blacklist_T \<Rightarrow> string \<Rightarrow> (int \<times> Blacklist_T) option" where
  "Blacklist_add inet_pton list address =
     (let (ret, n, m, af) = IP_str_to_addr_mask inet_pton address 0
      in if bl_type list = BL_STORAGE_TRIE
         then do { trie \<leftarrow> bl_trie list;
                   trie' \<leftarrow> Trie_insert cmp_trie_entry trie (trie_entry_bytes af n m);
                   Some (ret, list\<lparr>bl_count := bl_count list + 1, bl_trie := Some trie'\<rparr>) }
         else (let list1 = grow_entries list; i = bl_count list1
               in do { e \<leftarrow> read_entry (bl_entries list1) i;
                       blk \<leftarrow> write_entry (bl_entries list1) i (e\<lparr>be_address := n, be_mask := m\<rparr>);
                       Some (ret, list1\<lparr>bl_count := i + 1, bl_entries := Some blk\<rparr>) }))"

definition set_s_addr :: "u32 \<Rightarrow> Blacklist_entry \<Rightarrow> Blacklist_entry" where
  "set_s_addr w e = e\<lparr>be_address := (be_address e)\<lparr>addr32 := (addr32 (be_address e))[0 := w]\<rparr>\<rparr>"

definition s_addr :: "Blacklist_entry \<Rightarrow> u32" where
  "s_addr e = addr32 (be_address e) ! 0"

definition Blacklist_add_range :: "Blacklist_T \<Rightarrow> u32 \<Rightarrow> u32 \<Rightarrow> int \<Rightarrow> Blacklist_T option" where
  "Blacklist_add_range list st en type =
     (if st > en then Some list
      else (let list1 = grow_entries list
            in case bl_entries list1 of
                 None \<Rightarrow> Some list1
               | Some b \<Rightarrow>
                   (let i = bl_count list1;
                        (bk, wh) = (if type = BL_TYPE_WHITE then (0, 1) else (1, 0))
                    in do { e0 \<leftarrow> read_entry (Some b) i;
                            b0 \<leftarrow> write_entry (Some b) i ((set_s_addr st e0)\<lparr>be_black := bk, be_white := wh\<rparr>);
                            e1 \<leftarrow> read_entry (Some b0) (i + 1);
                            b1 \<leftarrow> write_entry (Some b0) (i + 1) ((set_s_addr en e1)\<lparr>be_black := - bk, be_white := - wh\<rparr>);
                            Some (list1\<lparr>bl_count := i + 2, bl_entries := Some b1\<rparr>) })))"

definition cmp_ipv4_entry :: "Blacklist_entry \<Rightarrow> Blacklist_entry \<Rightarrow> int" where
  "cmp_ipv4_entry a b = (if s_addr a > s_addr b then 1 else if s_addr a < s_addr b then -1 else 0)"

text \<open>The do-while loop of \<open>Blacklist_collapse\<close>: it reads on until an entry has another address.\<close>

function collapse_same :: "entry_block \<Rightarrow> u32 \<Rightarrow> nat \<Rightarrow> int \<Rightarrow> int \<Rightarrow> (nat \<times> int \<times> int) option" where
  "collapse_same b addr i bs ws =
     (if i < blk_cap b then
        do { e \<leftarrow> read_entry (Some b) i;
             nx \<leftarrow> read_entry (Some b) (i + 1);
             if s_addr nx = addr then collapse_same b addr (i + 1) (bs + be_black e) (ws + be_white e)
             else Some (i + 1, bs + be_black e, ws + be_white e) }
      else None)"
  by pat_completeness auto
termination by (relation "measure (\<lambda>(b, addr, i, bs, ws). blk_cap b - i)") auto

declare collapse_same.simps [simp del]

lemma collapse_same_progress: "collapse_same b addr i bs ws = Some (i', bs', ws') \<Longrightarrow> i < i'"
proof (induction b addr i bs ws rule: collapse_same.induct)
  case (1 b addr i bs ws)
  from 1(2) show ?case
    by (subst (asm) collapse_same.simps) (fastforce simp: bind_eq_Some_conv split: if_splits dest: 1(1))
qed

definition next_state :: "int \<Rightarrow> int \<Rightarrow> int \<Rightarrow> int" where
  "next_state state bs ws =
     (let state' = (if state = 1 \<and> bs = 0 then 0 else if state = 0 \<and> bs > 0 then 1 else state)
      in if ws > 0 then 0 else state')"

function collapse_loop ::
    "entry_block \<Rightarrow> nat \<Rightarrow> nat \<Rightarrow> int \<Rightarrow> int \<Rightarrow> int \<Rightarrow> u32 \<Rightarrow> string List_T \<Rightarrow> string List_T option" where
  "collapse_loop b cnt i bs ws state bstart cidrs =
     (if i < cnt then
        (case read_entry (Some b) i of
           None \<Rightarrow> None
         | Some e \<Rightarrow>
             (case collapse_same b (s_addr e) i bs ws of
                None \<Rightarrow> None
              | Some (i', bs', ws') \<Rightarrow>
                  (let state' = next_state state bs' ws';
                       bstart' = (if state = 0 \<and> state' = 1 then s_addr e else bstart)
                   in if state = 1 \<and> state' = 0
                      then (case IP_range_to_cidr_list cidrs bstart' (s_addr e - 1) of
                              None \<Rightarrow> None
                            | Some (nadded, cidrs') \<Rightarrow> collapse_loop b cnt i' bs' ws' state' bstart' cidrs')
                      else collapse_loop b cnt i' bs' ws' state' bstart' cidrs)))
      else Some cidrs)"
  by pat_completeness auto
termination
  by (relation "measure (\<lambda>(b, cnt, i, bs, ws, state, bstart, cidrs). cnt - i)")
     (auto dest!: collapse_same_progress)

declare collapse_loop.simps [simp del]

definition Blacklist_collapse ::
    "((Blacklist_entry \<Rightarrow> Blacklist_entry \<Rightarrow> int) \<Rightarrow> Blacklist_entry list \<Rightarrow> Blacklist_entry list) \<Rightarrow>
     Blacklist_T \<Rightarrow> (Blacklist_T \<times> string List_T option) option" where
  "Blacklist_collapse qsort blacklist =
     (if bl_count blacklist = 0 then Some (blacklist, None)
      else do { b \<leftarrow> bl_entries blacklist;
                let b' = b\<lparr>blk_vals := qsort cmp_ipv4_entry (take (bl_count blacklist) (blk_vals b)) @
                                       drop (bl_count blacklist) (blk_vals b)\<rparr>;
                cidrs \<leftarrow> collapse_loop b' (bl_count blacklist) 0 0 0 0 0 List_create;
                Some (blacklist\<lparr>bl_entries := Some b'\<rparr>, Some cidrs) })"

section \<open>The sweep of the collapse\<close>

text \<open>
  The number of black and of white ranges open at an address, read off the entries up to it, and the
  addresses that are black and not white.
\<close>

definition bs_at :: "Blacklist_entry list \<Rightarrow> u32 \<Rightarrow> int" where
  "bs_at es x = (\<Sum>e\<leftarrow>es. if s_addr e \<le> x then be_black e else 0)"

definition ws_at :: "Blacklist_entry list \<Rightarrow> u32 \<Rightarrow> int" where
  "ws_at es x = (\<Sum>e\<leftarrow>es. if s_addr e \<le> x then be_white e else 0)"

definition bad_addr :: "Blacklist_entry list \<Rightarrow> u32 \<Rightarrow> bool" where
  "bad_addr es x \<longleftrightarrow> bs_at es x > 0 \<and> ws_at es x \<le> 0"

abbreviation (input) bsum :: "Blacklist_entry list \<Rightarrow> int" where
  "bsum es \<equiv> (\<Sum>e\<leftarrow>es. be_black e)"

abbreviation (input) wsum :: "Blacklist_entry list \<Rightarrow> int" where
  "wsum es \<equiv> (\<Sum>e\<leftarrow>es. be_white e)"

lemma sum_list_gap:
  assumes "\<forall>e\<in>set (take i es). s_addr e \<le> x" and "\<forall>e\<in>set (drop i es). x < s_addr e"
  shows "(\<Sum>e\<leftarrow>es. if s_addr e \<le> x then f e else (0::int)) = (\<Sum>e\<leftarrow>take i es. f e)"
proof -
  have t: "map (\<lambda>e. if s_addr e \<le> x then f e else 0) (take i es) = map f (take i es)"
    using assms(1) by simp
  have d: "map (\<lambda>e. if s_addr e \<le> x then f e else 0) (drop i es) = map (\<lambda>e. 0) (drop i es)"
    using assms(2) by (fastforce simp: linorder_not_le)
  have "(\<Sum>e\<leftarrow>take i es @ drop i es. if s_addr e \<le> x then f e else 0) = (\<Sum>e\<leftarrow>take i es. f e)"
    unfolding map_append sum_list_append t d by simp
  then show ?thesis by simp
qed

text \<open>The blocks of memory the sweep reads: sorted entries, then at least one zeroed one.\<close>

definition sweep_ok :: "entry_block \<Rightarrow> bool" where
  "sweep_ok b \<longleftrightarrow> length (blk_vals b) < blk_cap b \<and> sorted (map s_addr (blk_vals b)) \<and>
     (blk_vals b \<noteq> [] \<longrightarrow> s_addr (last (blk_vals b)) \<noteq> 0)"

lemma read_entry_val: "i < length (blk_vals b) \<Longrightarrow> sweep_ok b \<Longrightarrow> read_entry (Some b) i = Some (blk_vals b ! i)"
  by (simp add: read_entry_def sweep_ok_def)

lemma read_entry_end: "sweep_ok b \<Longrightarrow> read_entry (Some b) (length (blk_vals b)) = Some zero_entry"
  by (simp add: read_entry_def sweep_ok_def)

lemma collapse_same_spec:
  assumes "sweep_ok b" and "i < length (blk_vals b)" and "addr = s_addr (blk_vals b ! i)"
    and "bs = bsum (take i (blk_vals b))" and "ws = wsum (take i (blk_vals b))"
  shows "\<exists>i'. collapse_same b addr i bs ws =
            Some (i', bsum (take i' (blk_vals b)), wsum (take i' (blk_vals b))) \<and>
          i < i' \<and> i' \<le> length (blk_vals b) \<and> (\<forall>j. i \<le> j \<and> j < i' \<longrightarrow> s_addr (blk_vals b ! j) = addr) \<and>
          (i' < length (blk_vals b) \<longrightarrow> addr < s_addr (blk_vals b ! i'))"
  using assms(2-5)
proof (induction "length (blk_vals b) - i" arbitrary: i bs ws rule: less_induct)
  case less
  let ?es = "blk_vals b"
  have cap: "i < blk_cap b" and cap1: "length ?es < blk_cap b" and srt: "sorted (map s_addr ?es)"
    using assms(1) less.prems(1) by (auto simp: sweep_ok_def)
  have sums: "bs + be_black (?es ! i) = bsum (take (Suc i) ?es)" "ws + be_white (?es ! i) = wsum (take (Suc i) ?es)"
    using less.prems by (simp_all add: take_Suc_conv_app_nth)
  show ?case
  proof (cases "Suc i < length ?es")
    case True
    have rd: "read_entry (Some b) i = Some (?es ! i)" "read_entry (Some b) (i + 1) = Some (?es ! Suc i)"
      using True assms(1) read_entry_val by auto
    have le: "addr \<le> s_addr (?es ! Suc i)"
      using sorted_nth_mono [OF srt, of i "Suc i"] True less.prems(2) by simp
    show ?thesis
    proof (cases "s_addr (?es ! Suc i) = addr")
      case same: True
      have dec: "length ?es - Suc i < length ?es - i" using less.prems(1) by simp
      obtain i' where IH: "collapse_same b addr (Suc i) (bs + be_black (?es ! i)) (ws + be_white (?es ! i)) =
            Some (i', bsum (take i' ?es), wsum (take i' ?es))"
        "Suc i < i'" "i' \<le> length ?es" "\<forall>j. Suc i \<le> j \<and> j < i' \<longrightarrow> s_addr (?es ! j) = addr"
        "i' < length ?es \<longrightarrow> addr < s_addr (?es ! i')"
        using less.hyps [OF dec True same [symmetric] sums] by blast
      have "collapse_same b addr i bs ws = Some (i', bsum (take i' ?es), wsum (take i' ?es))"
        using cap rd same IH(1) by (subst collapse_same.simps) simp
      moreover have "\<forall>j. i \<le> j \<and> j < i' \<longrightarrow> s_addr (?es ! j) = addr"
        using IH(4) less.prems(2) by (metis Suc_leI le_neq_implies_less)
      ultimately show ?thesis using IH(2,3,5) by (intro exI [of _ i']) auto
    next
      case False
      have "collapse_same b addr i bs ws = Some (Suc i, bsum (take (Suc i) ?es), wsum (take (Suc i) ?es))"
        using cap rd False sums by (subst collapse_same.simps) simp
      then show ?thesis
        using True False le less.prems(2) by (intro exI [of _ "Suc i"]) (auto simp: less_Suc_eq_le)
    qed
  next
    case False
    then have last: "Suc i = length ?es" using less.prems(1) by simp
    then have "last ?es = ?es ! i" by (metis diff_Suc_1 last_conv_nth length_0_conv nat.discI)
    then have ne: "addr \<noteq> 0"
      using assms(1) less.prems(1,2) by (auto simp: sweep_ok_def)
    have rd: "read_entry (Some b) i = Some (?es ! i)" "read_entry (Some b) (i + 1) = Some zero_entry"
      using less.prems(1) last assms(1) read_entry_val [of i b] read_entry_end [OF assms(1)] by auto
    have "s_addr zero_entry = 0" by (simp add: s_addr_def zero_entry_def zero_addr_def)
    then have "collapse_same b addr i bs ws = Some (Suc i, bsum (take (Suc i) ?es), wsum (take (Suc i) ?es))"
      using cap rd ne sums by (subst collapse_same.simps) simp
    moreover have "\<forall>j. i \<le> j \<and> j < Suc i \<longrightarrow> s_addr (?es ! j) = addr"
      using less.prems(2) by (metis le_antisym less_Suc_eq_le)
    ultimately show ?thesis
      using last by (intro exI [of _ "Suc i"]) simp
  qed
qed

lemma word_pred_less:
  assumes "v < (w :: u32)"
  shows "v \<le> w - 1" and "w - 1 < 0xffffffff" and "\<And>x. x \<le> w - 1 \<longleftrightarrow> x < w"
proof -
  have "w \<noteq> 0" using assms by auto
  then have u: "unat (w - 1) = unat w - 1" and pos: "0 < unat w" by (auto simp: unat_minus_one unat_gt_0)
  show "v \<le> w - 1" using assms u by (auto simp: word_le_nat_alt word_less_nat_alt)
  show "w - 1 < 0xffffffff" using u pos unat_u32_less [of w] by (simp add: word_less_nat_alt)
  show "x \<le> w - 1 \<longleftrightarrow> x < w" for x using u pos by (auto simp: word_le_nat_alt word_less_nat_alt)
qed

text \<open>Between two group boundaries of the sorted entries the counts do not change.\<close>

lemma at_boundary:
  assumes "sorted (map s_addr es)" and "i \<le> length es"
    and "0 < i \<Longrightarrow> s_addr (es ! (i - 1)) \<le> x" and "i < length es \<Longrightarrow> x < s_addr (es ! i)"
  shows "bs_at es x = bsum (take i es)" and "ws_at es x = wsum (take i es)"
proof -
  have t: "\<forall>e\<in>set (take i es). s_addr e \<le> x"
  proof
    fix e assume "e \<in> set (take i es)"
    then obtain j where j: "j < i" "e = es ! j"
      by (metis in_set_conv_nth length_take min_less_iff_conj nth_take)
    then have "s_addr (es ! j) \<le> s_addr (es ! (i - 1))"
      using sorted_nth_mono [OF assms(1), of j "i - 1"] assms(2) by simp
    then show "s_addr e \<le> x" using assms(3) j by fastforce
  qed
  have d: "\<forall>e\<in>set (drop i es). x < s_addr e"
  proof
    fix e assume "e \<in> set (drop i es)"
    then obtain j where j: "i + j < length es" "e = es ! (i + j)"
      by (metis in_set_conv_nth length_drop less_diff_conv nth_drop add.commute assms(2))
    then have "s_addr (es ! i) \<le> s_addr (es ! (i + j))"
      using sorted_nth_mono [OF assms(1), of i "i + j"] by simp
    then show "x < s_addr e" using assms(4) j by fastforce
  qed
  show "bs_at es x = bsum (take i es)" "ws_at es x = wsum (take i es)"
    unfolding bs_at_def ws_at_def using sum_list_gap [OF t d] by auto
qed

text \<open>
  The state of the sweep in front of entry \<open>i\<close>, a group boundary: the open counts, whether the gap
  in front of the entry is black, and the addresses emitted so far.
\<close>

definition sweep_inv ::
    "Blacklist_entry list \<Rightarrow> nat \<Rightarrow> int \<Rightarrow> int \<Rightarrow> int \<Rightarrow> u32 \<Rightarrow> IP_cidr list \<Rightarrow> bool" where
  "sweep_inv es i bs ws state bstart cs \<longleftrightarrow>
     i \<le> length es \<and> bs = bsum (take i es) \<and> ws = wsum (take i es) \<and>
     (0 < i \<and> i < length es \<longrightarrow> s_addr (es ! (i - 1)) < s_addr (es ! i)) \<and>
     (state = 0 \<or> state = 1) \<and> (state = 1 \<longleftrightarrow> bs > 0 \<and> ws \<le> 0) \<and>
     (state = 1 \<longrightarrow> (i < length es \<longrightarrow> bstart < s_addr (es ! i)) \<and>
        (\<forall>x. bstart \<le> x \<and> (i < length es \<longrightarrow> x < s_addr (es ! i)) \<longrightarrow> bad_addr es x)) \<and>
     (\<forall>x. x \<in> \<Union> (cidr_set ` set cs) \<longleftrightarrow>
        bad_addr es x \<and> (if state = 1 then x < bstart else i < length es \<longrightarrow> x < s_addr (es ! i)))"

lemma sweep_invD:
  assumes "sweep_inv es i bs ws state bstart cs"
  shows "i \<le> length es" and "bs = bsum (take i es)" and "ws = wsum (take i es)"
    and "state = 0 \<or> state = 1" and "state = 1 \<longleftrightarrow> bs > 0 \<and> ws \<le> 0"
    and "state = 1 \<Longrightarrow> i < length es \<Longrightarrow> bstart < s_addr (es ! i)"
    and "\<And>x. state = 1 \<Longrightarrow> bstart \<le> x \<Longrightarrow> i < length es \<longrightarrow> x < s_addr (es ! i) \<Longrightarrow> bad_addr es x"
    and "\<And>x. x \<in> \<Union> (cidr_set ` set cs) \<longleftrightarrow>
        bad_addr es x \<and> (if state = 1 then x < bstart else i < length es \<longrightarrow> x < s_addr (es ! i))"
  using assms unfolding sweep_inv_def by (elim conjE, assumption | elim conjE, blast | elim conjE, erule spec)+

lemma next_state_eq: "0 \<le> bs \<Longrightarrow> state = 0 \<or> state = 1 \<Longrightarrow> next_state state bs ws = (if bs > 0 \<and> ws \<le> 0 then 1 else 0)"
  by (auto simp: next_state_def Let_def)

lemma sweep_gap:
  assumes "sorted (map s_addr es)" and "i \<le> length es" and "i' \<le> length es" and "i < i'"
    and "\<forall>j. i \<le> j \<and> j < i' \<longrightarrow> s_addr (es ! j) = a"
    and "a \<le> x" and "i' < length es \<longrightarrow> x < s_addr (es ! i')"
  shows "bad_addr es x \<longleftrightarrow> bsum (take i' es) > 0 \<and> wsum (take i' es) \<le> 0"
proof -
  have "i \<le> i' - 1 \<and> i' - 1 < i'" using assms(4) by linarith
  then have "s_addr (es ! (i' - 1)) = a" using assms(5) by blast
  then show ?thesis
    using at_boundary [of es i' x] assms by (simp add: bad_addr_def)
qed

lemma sweep_step:
  assumes "sweep_inv es i bs ws state bstart cs" and "i < length es"
    and "i < i'" and "i' \<le> length es" and "s_addr (es ! (i' - 1)) = s_addr (es ! i)"
    and "i' < length es \<longrightarrow> s_addr (es ! i) < s_addr (es ! i')"
    and gap: "\<forall>x. s_addr (es ! i) \<le> x \<longrightarrow> (i' < length es \<longrightarrow> x < s_addr (es ! i')) \<longrightarrow>
           (bad_addr es x \<longleftrightarrow> bsum (take i' es) > 0 \<and> wsum (take i' es) \<le> 0)"
    and st: "st' = (if bsum (take i' es) > 0 \<and> wsum (take i' es) \<le> 0 then 1 else 0)"
    and cs': "\<forall>x. x \<in> \<Union> (cidr_set ` set cs') \<longleftrightarrow> x \<in> \<Union> (cidr_set ` set cs) \<or>
           state = 1 \<and> st' = 0 \<and> bstart \<le> x \<and> x < s_addr (es ! i)"
  shows "sweep_inv es i' (bsum (take i' es)) (wsum (take i' es)) st'
           (if state = 0 \<and> st' = 1 then s_addr (es ! i) else bstart) cs'"
proof -
  let ?a = "s_addr (es ! i)"
  let ?nx = "\<lambda>x. i' < length es \<longrightarrow> x < s_addr (es ! i')"
  note D = sweep_invD [OF assms(1)]
  note st01 = D(4)
  have U: "x \<in> \<Union> (cidr_set ` set cs) \<longleftrightarrow> bad_addr es x \<and> (if state = 1 then x < bstart else x < ?a)" for x
    using D(8) [of x] assms(2) by simp
  have open1: "bstart < ?a" "bstart \<le> x \<Longrightarrow> x < ?a \<Longrightarrow> bad_addr es x" if "state = 1" for x
    using D(6) D(7) [of x] assms(2) that by auto
  have gap': "bad_addr es x \<longleftrightarrow> st' = 1" if "\<not> x < ?a" "?nx x" for x
    using gap [rule_format, of x] that st by (simp add: linorder_not_less)
  have nx: "?nx x" if "x < ?a" for x using that assms(6) by (meson less_trans)
  have 1: "?nx (if state = 0 \<and> st' = 1 then ?a else bstart)" if "st' = 1"
    using that st01 assms(6) open1(1) nx by auto
  have 2: "bad_addr es x" if "st' = 1" "(if state = 0 \<and> st' = 1 then ?a else bstart) \<le> x" "?nx x" for x
  proof (cases "x < ?a")
    case True
    then show ?thesis using that(1,2) st01 open1(2) by (auto split: if_splits)
  qed (use gap' that in blast)
  have 3: "x \<in> \<Union> (cidr_set ` set cs') \<longleftrightarrow>
      bad_addr es x \<and> (if st' = 1 then x < (if state = 0 \<and> st' = 1 then ?a else bstart) else ?nx x)" for x
  proof (cases "x < ?a")
    case True
    then show ?thesis using st01 U [of x] cs' [rule_format, of x] open1(1) open1(2) [of x] nx [OF True] st by (auto simp: linorder_not_less)
  next
    case False
    then have "\<not> x < bstart" if "state = 1" using open1(1) [OF that] by (meson less_trans)
    then show ?thesis using False st01 U [of x] cs' [rule_format, of x] gap' [OF False] st by auto
  qed
  show ?thesis
    unfolding sweep_inv_def
    using assms(3-6) st 1 2 3 by auto
qed

lemma collapse_loop_correct:
  assumes "sweep_ok b" and "\<And>x. 0 \<le> bs_at (blk_vals b) x"
    and "sweep_inv (blk_vals b) i bs ws state bstart cs"
    and "bsum (blk_vals b) = 0" and "list_head cidrs = map IP_cidr_to_str cs"
  shows "\<exists>cidrs' cs'. collapse_loop b (length (blk_vals b)) i bs ws state bstart cidrs = Some cidrs' \<and>
           list_head cidrs' = map IP_cidr_to_str cs' \<and> \<Union> (cidr_set ` set cs') = {x. bad_addr (blk_vals b) x}"
  using assms(3,5)
proof (induction "length (blk_vals b) - i" arbitrary: i bs ws state bstart cs cidrs rule: less_induct)
  case less
  let ?es = "blk_vals b" and ?n = "length (blk_vals b)"
  have srt: "sorted (map s_addr ?es)" using assms(1) by (simp add: sweep_ok_def)
  note D = sweep_invD [OF less.prems(1)]
  show ?case
  proof (cases "i < ?n")
    case False
    then have "i = ?n" using D(1) by simp
    moreover have "state = 0" using D(2,4,5) assms(4) calculation by auto
    moreover have "\<Union> (cidr_set ` set cs) = {x. bad_addr ?es x}"
      by (rule set_eqI) (simp only: D(8) calculation, simp)
    ultimately show ?thesis
      using less.prems(2) by (subst collapse_loop.simps) auto
  next
    case True
    let ?a = "s_addr (?es ! i)"
    obtain i' where cs': "collapse_same b ?a i bs ws = Some (i', bsum (take i' ?es), wsum (take i' ?es))"
      and i': "i < i'" "i' \<le> ?n" "\<forall>j. i \<le> j \<and> j < i' \<longrightarrow> s_addr (?es ! j) = ?a"
        "i' < ?n \<longrightarrow> ?a < s_addr (?es ! i')"
      using collapse_same_spec [OF assms(1) True refl D(2,3)] by blast
    let ?bs = "bsum (take i' ?es)" and ?ws = "wsum (take i' ?es)"
    let ?st = "next_state state ?bs ?ws"
    let ?bst = "if state = 0 \<and> ?st = 1 then ?a else bstart"
    have gap: "\<forall>x. ?a \<le> x \<longrightarrow> (i' < ?n \<longrightarrow> x < s_addr (?es ! i')) \<longrightarrow>
        (bad_addr ?es x \<longleftrightarrow> ?bs > 0 \<and> ?ws \<le> 0)"
      by (intro allI impI) (rule sweep_gap [OF srt less_imp_le [OF True] i'(2,1,3)])
    have "i \<le> i' - 1 \<and> i' - 1 < i'" using i'(1) by linarith
    then have a1: "s_addr (?es ! (i' - 1)) = ?a" using i'(3) by blast
    then have "bs_at ?es ?a = ?bs"
      using at_boundary(1) [OF srt i'(2), of ?a] i'(4) by simp
    then have bs0: "0 \<le> ?bs" using assms(2) [of ?a] by simp
    have st: "?st = (if ?bs > 0 \<and> ?ws \<le> 0 then 1 else 0)" by (rule next_state_eq [OF bs0 D(4)])
    note step = sweep_step [OF less.prems(1) True i'(1,2) a1 i'(4) gap st]
    have dec: "?n - i' < ?n - i" using i'(1) True by linarith
    note IH = less.hyps [OF dec]
    have rd: "read_entry (Some b) i = Some (?es ! i)" using read_entry_val [OF True assms(1)] .
    show ?thesis
    proof (cases "state = 1 \<and> ?st = 0")
      case False
      have eq: "collapse_loop b ?n i bs ws state bstart cidrs = collapse_loop b ?n i' ?bs ?ws ?st ?bst cidrs"
        using True rd cs' False by (subst collapse_loop.simps) (auto simp: Let_def)
      have "\<forall>x. x \<in> \<Union> (cidr_set ` set cs) \<longleftrightarrow> x \<in> \<Union> (cidr_set ` set cs) \<or>
           state = 1 \<and> ?st = 0 \<and> bstart \<le> x \<and> x < ?a"
        using False by blast
      from IH [OF step [OF this] less.prems(2)] show ?thesis unfolding eq .
    next
      case emit: True
      have lt: "bstart < ?a" using D(6) True emit by simp
      then have le: "bstart \<le> ?a - 1" and small: "?a - 1 < 0xffffffff"
        and iff: "\<And>x. x \<le> ?a - 1 \<longleftrightarrow> x < ?a"
        using word_pred_less [OF lt] by auto
      obtain k cs1 cidrs1 where r: "IP_range_to_cidr_list cidrs bstart (?a - 1) = Some (k, cidrs1)"
        "list_head cidrs1 = map IP_cidr_to_str (cs @ cs1)" "tiles (unat bstart) (Suc (unat (?a - 1))) cs1"
        using IP_range_loop_correct [OF small, of bstart cidrs 0] le less.prems(2)
        by (auto simp: word_le_nat_alt IP_range_to_cidr_list_def)
      have U1: "x \<in> \<Union> (cidr_set ` set cs1) \<longleftrightarrow> bstart \<le> x \<and> x < ?a" for x
        unfolding tiles_union [OF r(3)] iff [symmetric] word_le_nat_alt less_Suc_eq_le ..
      have eq: "collapse_loop b ?n i bs ws state bstart cidrs = collapse_loop b ?n i' ?bs ?ws ?st ?bst cidrs1"
        using True rd cs' emit r(1) by (subst collapse_loop.simps) (auto simp: Let_def)
      have "\<forall>x. x \<in> \<Union> (cidr_set ` set (cs @ cs1)) \<longleftrightarrow> x \<in> \<Union> (cidr_set ` set cs) \<or>
           state = 1 \<and> ?st = 0 \<and> bstart \<le> x \<and> x < ?a"
        using emit by (auto simp only: set_append image_Un Union_Un_distrib Un_iff U1)
      from IH [OF step [OF this] r(2)] show ?thesis unfolding eq .
    qed
  qed
qed

lemma collapse_loop_wf: "collapse_loop b cnt i bs ws state bstart cidrs = Some cidrs' \<Longrightarrow> List_wf cidrs \<Longrightarrow> List_wf cidrs'"
proof (induction b cnt i bs ws state bstart cidrs rule: collapse_loop.induct)
  case (1 b cnt i bs ws state bstart cidrs)
  show ?case
  proof (cases "i < cnt")
    case False
    then show ?thesis using 1(3,4) by (simp add: collapse_loop.simps)
  next
    case True
    then obtain e i' bs' ws' where e: "read_entry (Some b) i = Some e" "collapse_same b (s_addr e) i bs ws = Some (i', bs', ws')"
      using 1(3) by (subst (asm) collapse_loop.simps) (auto split: option.splits)
    let ?state = "next_state state bs' ws'"
    let ?start = "if state = 0 \<and> ?state = 1 then s_addr e else bstart"
    show ?thesis
    proof (cases "state = 1 \<and> ?state = 0")
      case edge: True
      then obtain k l where l: "IP_range_to_cidr_list cidrs ?start (s_addr e - 1) = Some (k, l)"
          "collapse_loop b cnt i' bs' ws' ?state ?start l = Some cidrs'"
        using 1(3) True e by (subst (asm) collapse_loop.simps) (auto simp: Let_def split: option.splits)
      have "List_wf l" using IP_range_loop_wf [of cidrs 0 ?start "s_addr e - 1" "(k, l)"] l(1) 1(4) by (simp add: IP_range_to_cidr_list_def)
      then show ?thesis using 1(1) [OF True e(1,2) refl refl refl refl edge l(1) refl l(2)] by blast
    next
      case False
      then have "collapse_loop b cnt i' bs' ws' ?state ?start cidrs = Some cidrs'"
        using 1(3) unfolding collapse_loop.simps [of b cnt i bs ws state bstart cidrs]
        by (simp only: True e False Let_def option.case prod.case if_True if_False)
      then show ?thesis using 1(2) [OF True e(1,2) refl refl refl refl False] 1(4) by blast
    qed
  qed
qed

lemma Blacklist_collapse_wf: "Blacklist_collapse qsort bl = Some (bl', Some cidrs) \<Longrightarrow> List_wf cidrs"
  by (auto simp: Blacklist_collapse_def Let_def bind_eq_Some_conv split: if_splits dest: collapse_loop_wf)

section \<open>Lists of ranges\<close>

definition range_entry :: "u32 \<Rightarrow> int \<Rightarrow> int \<Rightarrow> Blacklist_entry" where
  "range_entry w bk wh = (set_s_addr w zero_entry)\<lparr>be_black := bk, be_white := wh\<rparr>"

definition range_entries :: "u32 \<times> u32 \<times> int \<Rightarrow> Blacklist_entry list" where
  "range_entries = (\<lambda>(st, en, type).
     if st > en then []
     else if type = BL_TYPE_WHITE then [range_entry st 0 1, range_entry en 0 (- 1)]
     else [range_entry st 1 0, range_entry en (- 1) 0])"

definition list_of_ranges :: "string \<Rightarrow> string \<Rightarrow> Blacklist_entry list \<Rightarrow> Blacklist_T" where
  "list_of_ranges name message es =
     (Blacklist_create name message BL_STORAGE_LIST)
       \<lparr>bl_count := length es, bl_entries := Some \<lparr>blk_cap = BLACKLIST_INIT_SIZE, blk_vals = es\<rparr>\<rparr>"

lemma create_list_of_ranges: "Blacklist_create name message BL_STORAGE_LIST = list_of_ranges name message []"
  by (simp add: Blacklist_create_def list_of_ranges_def)

lemma range_entry_simps [simp]:
  "s_addr (range_entry w bk wh) = w" "be_black (range_entry w bk wh) = bk" "be_white (range_entry w bk wh) = wh"
  by (simp_all add: range_entry_def s_addr_def set_s_addr_def zero_entry_def zero_addr_def)

lemma write_entry_end:
  "length es < blk_cap b \<Longrightarrow> blk_vals b = es \<Longrightarrow> write_entry (Some b) (length es) e = Some (b\<lparr>blk_vals := es @ [e]\<rparr>)"
  by (simp add: write_entry_def)

lemma read_entry_fresh:
  "length es < blk_cap b \<Longrightarrow> blk_vals b = es \<Longrightarrow> read_entry (Some b) (length es) = Some zero_entry"
  by (simp add: read_entry_def)

lemma grow_entries_room:
  "length es < BLACKLIST_INIT_SIZE - 2 \<Longrightarrow> grow_entries (list_of_ranges name message es) = list_of_ranges name message es"
  by (simp add: grow_entries_def list_of_ranges_def Blacklist_create_def Let_def BLACKLIST_INIT_SIZE_def)

lemma add_range_entries:
  assumes "length es < BLACKLIST_INIT_SIZE - 2"
  shows "Blacklist_add_range (list_of_ranges name message es) st en type =
         Some (list_of_ranges name message (es @ range_entries (st, en, type)))"
proof (cases "st > en")
  case False
  let ?b = "\<lparr>blk_cap = BLACKLIST_INIT_SIZE, blk_vals = es\<rparr>"
  have cap: "length es < BLACKLIST_INIT_SIZE" "length (es @ [e]) < BLACKLIST_INIT_SIZE" for e
    using assms by (simp_all add: BLACKLIST_INIT_SIZE_def)
  let ?be = "\<lambda>es'. \<lparr>blk_cap = BLACKLIST_INIT_SIZE, blk_vals = es'\<rparr>"
  have rw: "read_entry (Some ?b) (length es) = Some zero_entry"
    "write_entry (Some ?b) (length es) e = Some (?be (es @ [e]))"
    "read_entry (Some (?be (es @ [e]))) (Suc (length es)) = Some zero_entry"
    "write_entry (Some (?be (es @ [e]))) (Suc (length es)) e' = Some (?be (es @ [e, e']))" for e e'
    using read_entry_fresh [of es ?b] write_entry_end [of es ?b e] cap
      read_entry_fresh [of "es @ [e]" "?be (es @ [e])"] write_entry_end [of "es @ [e]" "?be (es @ [e])" e']
    by simp_all
  have fields: "bl_entries (list_of_ranges name message es) = Some ?b"
    "bl_count (list_of_ranges name message es) = length es"
    by (simp_all add: list_of_ranges_def)
  have upd: "(list_of_ranges name message es)\<lparr>bl_count := n, bl_entries := Some (?be es')\<rparr> =
      list_of_ranges name message es'" if "n = length es'" for n es'
    using that by (simp add: list_of_ranges_def)
  show ?thesis
    using False assms
    by (simp add: Blacklist_add_range_def grow_entries_room fields rw upd range_entries_def
        range_entry_def Let_def)
qed (simp add: Blacklist_add_range_def range_entries_def)

lemma add_ranges:
  "length es + 2 * length rs < BLACKLIST_INIT_SIZE \<Longrightarrow>
   fold_opt (\<lambda>bl (st, en, type). Blacklist_add_range bl st en type) (list_of_ranges name message es) rs =
   Some (list_of_ranges name message (es @ concat (map range_entries rs)))"
proof (induction rs arbitrary: es)
  case (Cons r rs)
  obtain st en type where r: "r = (st, en, type)" by (cases r)
  have len: "length (range_entries r) \<le> 2" by (simp add: range_entries_def split: prod.splits)
  show ?case
    using Cons.IH [of "es @ range_entries r"] Cons.prems len add_range_entries [of es name message st en type]
    by (simp add: r)
qed simp

text \<open>The addresses inside the ranges of a kind: the end of a range is the first address after it.\<close>

definition in_black :: "(u32 \<times> u32 \<times> int) list \<Rightarrow> u32 \<Rightarrow> bool" where
  "in_black rs x \<longleftrightarrow> (\<exists>(st, en, type)\<in>set rs. type \<noteq> BL_TYPE_WHITE \<and> st \<le> x \<and> x < en)"

definition in_white :: "(u32 \<times> u32 \<times> int) list \<Rightarrow> u32 \<Rightarrow> bool" where
  "in_white rs x \<longleftrightarrow> (\<exists>(st, en, type)\<in>set rs. type = BL_TYPE_WHITE \<and> st \<le> x \<and> x < en)"

lemma bs_at_append [simp]: "bs_at (es @ es') x = bs_at es x + bs_at es' x"
  and ws_at_append [simp]: "ws_at (es @ es') x = ws_at es x + ws_at es' x"
  by (simp_all add: bs_at_def ws_at_def)

lemma range_at:
  "bs_at (range_entries (st, en, type)) x = (if type \<noteq> BL_TYPE_WHITE \<and> st \<le> x \<and> x < en then 1 else 0)"
  "ws_at (range_entries (st, en, type)) x = (if type = BL_TYPE_WHITE \<and> st \<le> x \<and> x < en then 1 else 0)"
  by (auto simp: bs_at_def ws_at_def range_entries_def)

lemma ranges_at:
  "0 \<le> bs_at (concat (map range_entries rs)) x \<and> 0 \<le> ws_at (concat (map range_entries rs)) x \<and>
   (bs_at (concat (map range_entries rs)) x > 0 \<longleftrightarrow> in_black rs x) \<and>
   (ws_at (concat (map range_entries rs)) x > 0 \<longleftrightarrow> in_white rs x)"
proof (induction rs)
  case (Cons r rs)
  obtain st en type where "r = (st, en, type)" by (cases r)
  then show ?case using Cons by (auto simp: range_at in_black_def in_white_def)
qed (simp add: bs_at_def ws_at_def in_black_def in_white_def)

lemma bsum_ranges: "bsum (concat (map range_entries rs)) = 0"
  by (induction rs) (auto simp: range_entries_def split: prod.splits)

lemma sum_list_mset_eq: "mset xs = mset ys \<Longrightarrow> sum_list (map f xs) = sum_list (map f ys)" for f :: "'a \<Rightarrow> int"
  by (metis mset_map sum_mset_sum_list)

lemma at_mset:
  "mset es = mset es' \<Longrightarrow> bs_at es x = bs_at es' x \<and> ws_at es x = ws_at es' x \<and> bsum es = bsum es'"
  unfolding bs_at_def ws_at_def by (intro conjI sum_list_mset_eq)

text \<open>What \<open>qsort\<close> promises: a permutation, ordered by the comparison function.\<close>

definition qsort_spec :: "(('a \<Rightarrow> 'a \<Rightarrow> int) \<Rightarrow> 'a list \<Rightarrow> 'a list) \<Rightarrow> ('a \<Rightarrow> 'a \<Rightarrow> int) \<Rightarrow> bool" where
  "qsort_spec qsort cmp \<longleftrightarrow> (\<forall>xs. mset (qsort cmp xs) = mset xs \<and> sorted_wrt (\<lambda>a b. cmp a b \<le> 0) (qsort cmp xs))"

lemma qsort_sorted: "qsort_spec qsort cmp_ipv4_entry \<Longrightarrow> sorted (map s_addr (qsort cmp_ipv4_entry xs))"
  unfolding sorted_map
  by (rule sorted_wrt_mono_rel [of _ "\<lambda>a b. cmp_ipv4_entry a b \<le> 0"])
     (auto simp: qsort_spec_def cmp_ipv4_entry_def split: if_splits)

lemma collapse_ranges:
  assumes "qsort_spec qsort cmp_ipv4_entry" and "2 * length rs < BLACKLIST_INIT_SIZE"
    and "\<exists>(st, en, type)\<in>set rs. st \<le> en \<and> en \<noteq> 0"
  defines "es \<equiv> concat (map range_entries rs)"
  shows "\<exists>bl' cidrs cs. Blacklist_collapse qsort (list_of_ranges name message es) = Some (bl', Some cidrs) \<and>
           list_head cidrs = map IP_cidr_to_str cs \<and>
           \<Union> (cidr_set ` set cs) = {x. in_black rs x \<and> \<not> in_white rs x}"
proof -
  let ?qs = "qsort cmp_ipv4_entry es"
  let ?b = "\<lparr>blk_cap = BLACKLIST_INIT_SIZE, blk_vals = ?qs\<rparr>"
  have ms: "mset ?qs = mset es" using assms(1) by (simp add: qsort_spec_def)
  then have len: "length ?qs = length es" and st: "set ?qs = set es"
    by (rule mset_eq_length, rule mset_eq_setD)
  have "length es \<le> 2 * length rs"
    unfolding es_def by (induction rs) (auto simp: range_entries_def split: prod.splits)
  then have small: "length es < BLACKLIST_INIT_SIZE" using assms(2) by simp
  obtain e where e: "e \<in> set ?qs" "s_addr e \<noteq> 0"
  proof -
    obtain s n ty where "(s, n, ty) \<in> set rs" "s \<le> n" "n \<noteq> 0" using assms(3) by auto
    then have "\<exists>e\<in>set (range_entries (s, n, ty)). s_addr e \<noteq> 0" by (auto simp: range_entries_def)
    then obtain e where "e \<in> set (range_entries (s, n, ty))" "s_addr e \<noteq> 0" by blast
    moreover from this \<open>(s, n, ty) \<in> set rs\<close> have "e \<in> set es" unfolding es_def by auto
    ultimately show thesis using that unfolding st by blast
  qed
  have srt: "sorted (map s_addr ?qs)" by (rule qsort_sorted [OF assms(1)])
  have "s_addr (last ?qs) \<noteq> 0"
  proof -
    obtain j where j: "j < length ?qs" "?qs ! j = e" using e(1) by (auto simp: in_set_conv_nth)
    then have "s_addr e \<le> s_addr (?qs ! (length ?qs - 1))"
      using sorted_nth_mono [OF srt, of j "length ?qs - 1"] by simp
    moreover have "last ?qs = ?qs ! (length ?qs - 1)" using j(1) by (intro last_conv_nth) auto
    ultimately show ?thesis using e(2) by auto
  qed
  then have ok: "sweep_ok ?b" using srt small len by (simp add: sweep_ok_def)
  have at: "bs_at ?qs x = bs_at es x" "ws_at ?qs x = ws_at es x" "bsum ?qs = 0" for x
    using at_mset [OF ms] bsum_ranges [of rs] by (simp_all add: es_def)
  have bad: "bad_addr ?qs x \<longleftrightarrow> in_black rs x \<and> \<not> in_white rs x" for x
    unfolding bad_addr_def at using ranges_at [of rs x] by (auto simp: es_def)
  have inv: "sweep_inv ?qs 0 0 0 0 0 []"
  proof -
    have "\<not> (bad_addr ?qs x \<and> (0 < length ?qs \<longrightarrow> x < s_addr (?qs ! 0)))" for x
      using at_boundary [of ?qs 0 x] srt e(1) by (auto simp: bad_addr_def)
    then show ?thesis by (simp add: sweep_inv_def)
  qed
  obtain cidrs cs where r: "collapse_loop ?b (length ?qs) 0 0 0 0 0 List_create = Some cidrs"
    "list_head cidrs = map IP_cidr_to_str cs" "\<Union> (cidr_set ` set cs) = {x. bad_addr ?qs x}"
    using collapse_loop_correct [OF ok, of 0 0 0 0 0 "[]" List_create] inv at ranges_at [of rs]
    by (auto simp: es_def)
  have "es \<noteq> []" using e(1) len by auto
  then have "Blacklist_collapse qsort (list_of_ranges name message es) =
      Some (list_of_ranges name message es\<lparr>bl_entries := Some ?b\<rparr>, Some cidrs)"
    using r(1) len by (simp add: Blacklist_collapse_def list_of_ranges_def)
  then show ?thesis using r(2,3) bad by auto
qed

section \<open>Properties of the collapse\<close>

text \<open>
  C22. Collapsing a list of ranges: after adding any ranges that fit the initial array, one of them not
  empty at zero, \<open>Blacklist_collapse\<close> returns CIDR strings whose blocks contain exactly the addresses
  that lie in some black range and in no white range.
\<close>

theorem Blacklist_collapse_exact:
  assumes "qsort_spec qsort cmp_ipv4_entry" and "2 * length rs < BLACKLIST_INIT_SIZE"
    and "\<exists>(st, en, type)\<in>set rs. st \<le> en \<and> en \<noteq> 0"
  shows "\<exists>bl bl' cidrs cs.
           fold_opt (\<lambda>bl (st, en, type). Blacklist_add_range bl st en type)
             (Blacklist_create name message BL_STORAGE_LIST) rs = Some bl \<and>
           Blacklist_collapse qsort bl = Some (bl', Some cidrs) \<and>
           list_head cidrs = map IP_cidr_to_str cs \<and>
           \<Union> (cidr_set ` set cs) = {x. in_black rs x \<and> \<not> in_white rs x}"
  using collapse_ranges [OF assms] add_ranges [of "[]" rs] assms(2) by (simp add: create_list_of_ranges)

text \<open>C22 at a black range with a white hole, sorted by \<open>sort_key\<close>.\<close>

theorem Blacklist_collapse_exact_witness:
  "\<exists>bl bl' cidrs cs.
     fold_opt (\<lambda>bl (st, en, type). Blacklist_add_range bl st en type)
       (Blacklist_create ''nixspam'' ''spam'' BL_STORAGE_LIST) [(10, 20, 1), (12, 14, 0)] = Some bl \<and>
     Blacklist_collapse (\<lambda>cmp. sort_key s_addr) bl = Some (bl', Some cidrs) \<and>
     list_head cidrs = map IP_cidr_to_str cs \<and>
     \<Union> (cidr_set ` set cs) = {x. 10 \<le> x \<and> x < 20 \<and> \<not> (12 \<le> x \<and> x < 14)}"
proof -
  have "sorted_wrt (\<lambda>a b. cmp_ipv4_entry a b \<le> 0) (sort_key s_addr xs)" for xs
    using sorted_sort_key [of s_addr xs] unfolding sorted_map
    by (rule sorted_wrt_mono_rel [rotated]) (auto simp: cmp_ipv4_entry_def)
  then have "qsort_spec (\<lambda>cmp. sort_key s_addr) cmp_ipv4_entry" by (simp add: qsort_spec_def)
  from Blacklist_collapse_exact [OF this, of "[(10, 20, 1), (12, 14, 0)]" "''nixspam''" "''spam''"]
  show ?thesis by (auto simp: BLACKLIST_INIT_SIZE_def in_black_def in_white_def BL_TYPE_WHITE_def)
qed

lemma collapse_same_runs_out:
  assumes "\<And>j e. read_entry (Some b) j = Some e \<Longrightarrow> s_addr e = addr"
  shows "collapse_same b addr i bs ws = None"
proof (induction "blk_cap b - i" arbitrary: i bs ws rule: less_induct)
  case less
  show ?case
  proof (cases "i < blk_cap b")
    case True
    then have "collapse_same b addr (i + 1) bs' ws' = None" for bs' ws' using less by simp
    then show ?thesis
      using assms by (subst collapse_same.simps) (auto split: option.splits bind_splits)
  qed (simp add: collapse_same.simps)
qed

text \<open>
  A list whose only range runs from 0 to 0, which the parser produces for
  0.0.0.0-255.255.255.255, makes \<open>Blacklist_collapse\<close> read past the end of its array.
\<close>

theorem Blacklist_collapse_zero_range:
  "\<exists>bl. Blacklist_add_range (Blacklist_create name message BL_STORAGE_LIST) 0 0 BL_TYPE_BLACK = Some bl \<and>
        Blacklist_collapse (\<lambda>cmp. sort_key s_addr) bl = None"
proof -
  let ?es = "range_entries (0, 0, BL_TYPE_BLACK)"
  let ?b = "\<lparr>blk_cap = BLACKLIST_INIT_SIZE, blk_vals = sort_key s_addr ?es\<rparr>"
  have add: "Blacklist_add_range (Blacklist_create name message BL_STORAGE_LIST) 0 0 BL_TYPE_BLACK =
      Some (list_of_ranges name message ?es)"
    by (simp add: create_list_of_ranges add_range_entries BLACKLIST_INIT_SIZE_def)
  have "e \<in> set (sort_key s_addr ?es) \<Longrightarrow> s_addr e = 0" for e
    by (auto simp: range_entries_def split: if_splits)
  moreover have "s_addr zero_entry = 0" by (simp add: s_addr_def zero_entry_def zero_addr_def)
  ultimately have rd: "read_entry (Some ?b) j = Some e \<Longrightarrow> s_addr e = 0" for j e
    by (auto simp: read_entry_def split: if_splits dest!: nth_mem [of j "sort_key s_addr ?es"])
       (metis length_sort nth_mem set_sort)
  have "collapse_loop ?b 2 0 0 0 0 0 List_create = None"
    using collapse_same_runs_out [OF rd]
    by (subst collapse_loop.simps) (auto dest: rd split: option.splits)
  then have "Blacklist_collapse (\<lambda>cmp. sort_key s_addr) (list_of_ranges name message ?es) = None"
    by (simp add: Blacklist_collapse_def list_of_ranges_def range_entries_def BL_TYPE_BLACK_def BL_TYPE_WHITE_def
        Let_def numeral_2_eq_2)
  then show ?thesis using add by blast
qed

end
