(* ===== verification/Blacklist_Match.thy ===== *)
theory Blacklist_Match
  imports Blacklist
begin

text \<open>
  Membership in a blacklist kept as a trie: the bytes of a trie entry read back, the contract of a
  set of patterns for entries of one family and one prefix length, and the failure of the lookup when
  prefix lengths are mixed. Also the array of entries, matched one by one, and its growth.
\<close>

section \<open>The bytes of an entry\<close>

lemma entry_length [simp]: "length (trie_entry_bytes af a m) = 36"
  by (simp add: trie_entry_bytes_def word_bytes_def)

lemma bytes_word_bytes:
  "bs ! i = ucast (drop_bit 24 w) \<Longrightarrow> bs ! (i + 1) = ucast (drop_bit 16 w) \<Longrightarrow>
   bs ! (i + 2) = ucast (drop_bit 8 w) \<Longrightarrow> bs ! (i + 3) = ucast w \<Longrightarrow> bytes_word bs i = w"
  unfolding bytes_word_def
  by (rule bit_word_eqI, rename_tac n, case_tac "n < 8"; case_tac "n < 16"; case_tac "n < 24")
     (auto simp: bit_simps possible_bit_word)

lemma entry_af_bytes [simp]: "entry_af (trie_entry_bytes af a m) = af"
  unfolding entry_af_def trie_entry_bytes_def
  by (rule bit_word_eqI) (auto simp: bit_simps possible_bit_word not_le)

lemma four_words: "length ws = 4 \<Longrightarrow> map (\<lambda>j. ws ! j) [0..<4] = ws"
  by (metis map_nth)

lemma entry_nth:
  assumes "j < 4" and "k < 4"
  shows "trie_entry_bytes af a m ! (4 + (4 * j + k)) = word_bytes (addr32 a ! j) ! k"
    and "trie_entry_bytes af a m ! (20 + (4 * j + k)) = word_bytes (addr32 m ! j) ! k"
proof -
  have j: "j = 0 \<or> j = 1 \<or> j = 2 \<or> j = 3" and k: "k = 0 \<or> k = 1 \<or> k = 2 \<or> k = 3"
    using assms by auto
  show "trie_entry_bytes af a m ! (4 + (4 * j + k)) = word_bytes (addr32 a ! j) ! k"
    and "trie_entry_bytes af a m ! (20 + (4 * j + k)) = word_bytes (addr32 m ! j) ! k"
    using j k by (auto simp: trie_entry_bytes_def word_bytes_def)
qed

lemma entry_word:
  assumes "j < 4"
  shows "bytes_word (trie_entry_bytes af a m) (4 + 4 * j) = addr32 a ! j"
    and "bytes_word (trie_entry_bytes af a m) (20 + 4 * j) = addr32 m ! j"
  using entry_nth [OF assms, of 0] entry_nth [OF assms, of 1] entry_nth [OF assms, of 2] entry_nth [OF assms, of 3]
  by (auto simp: word_bytes_def intro!: bytes_word_bytes)

lemma entry_addr_bytes [simp]: "length (addr32 a) = 4 \<Longrightarrow> entry_addr (trie_entry_bytes af a m) 4 = a"
  and entry_mask_bytes [simp]: "length (addr32 m) = 4 \<Longrightarrow> entry_addr (trie_entry_bytes af a m) 20 = m"
proof -
  have m4: "map (\<lambda>j. bytes_word (trie_entry_bytes af a m) (4 + 4 * j)) [0..<4] = map (\<lambda>j. addr32 a ! j) [0..<4]"
    "map (\<lambda>j. bytes_word (trie_entry_bytes af a m) (20 + 4 * j)) [0..<4] = map (\<lambda>j. addr32 m ! j) [0..<4]"
    by (rule map_cong, simp, simp add: entry_word)+
  show "length (addr32 a) = 4 \<Longrightarrow> entry_addr (trie_entry_bytes af a m) 4 = a"
    and "length (addr32 m) = 4 \<Longrightarrow> entry_addr (trie_entry_bytes af a m) 20 = m"
    unfolding entry_addr_def m4 by (simp_all add: four_words)
qed

lemma cmp_trie_entry_bytes:
  assumes "length (addr32 a) = 4" and "length (addr32 m) = 4" and "length (addr32 q) = 4"
  shows "cmp_trie_entry (trie_entry_bytes af a m) (trie_entry_bytes af' q m') =
           Some (if IP_match_addr a m q af' then 0 else 1)"
  using assms by (simp add: cmp_trie_entry_def)

text \<open>The bits of an entry, as the trie numbers them.\<close>

lemma word_bytes_bit: "k < 4 \<Longrightarrow> r < 8 \<Longrightarrow> bit (word_bytes w ! k) (7 - r) = bit w (31 - (8 * k + r))"
proof -
  assume "k < 4" "r < 8"
  then consider "k = 0" | "k = 1" | "k = 2" | "k = 3" by linarith
  moreover have "7 - r < 8" by simp
  ultimately show ?thesis
    using \<open>r < 8\<close> by cases (simp_all add: word_bytes_def bit_simps possible_bit_word)
qed

lemma split_index: "i < 128 \<Longrightarrow> \<exists>j k r. j < 4 \<and> k < 4 \<and> r < 8 \<and> i = 32 * j + 8 * k + r" for i :: nat
proof -
  assume i: "i < 128"
  have "i = 32 * (i div 32) + 8 * (i mod 32 div 8) + i mod 32 mod 8"
    by (metis add.assoc mult_div_mod_eq)
  moreover have "i div 32 < 4" "i mod 32 mod 8 < 8" using i by auto
  moreover have "i mod 32 div 8 < 4" by (simp add: div_less_iff_less_mult)
  ultimately show ?thesis by blast
qed

lemma entry_BIT:
  assumes "i < 128"
  shows "BIT (trie_entry_bytes af a m) (32 + i) = Some (addr_bit a i)"
    and "BIT (trie_entry_bytes af a m) (160 + i) = Some (addr_bit m i)"
proof -
  obtain j k r where i: "j < 4" "k < 4" "r < 8" "i = 32 * j + 8 * k + r" using split_index [OF assms] by blast
  have a: "addr_bit x i = bit (addr32 x ! j) (31 - (8 * k + r))" for x
  proof -
    have s: "8 * k + r < 32" "i = (8 * k + r) + j * 32" using i by linarith+
    then have "i div 32 = j" "i mod 32 = 8 * k + r" unfolding s(2) by simp_all
    then show ?thesis by (simp add: addr_bit_def)
  qed
  have "32 + i = (4 + (4 * j + k)) * 8 + r" "160 + i = (20 + (4 * j + k)) * 8 + r" using i by auto
  then show "BIT (trie_entry_bytes af a m) (32 + i) = Some (addr_bit a i)"
    and "BIT (trie_entry_bytes af a m) (160 + i) = Some (addr_bit m i)"
    using BIT_at [of "4 + (4 * j + k)" "trie_entry_bytes af a m" r] BIT_at [of "20 + (4 * j + k)" "trie_entry_bytes af a m" r]
      i entry_nth [of j k] word_bytes_bit [OF i(2,3)] a by (simp_all only: entry_length)
qed

lemma entry_BIT_af:
  assumes "i < 32"
  shows "BIT (trie_entry_bytes af a m) i = BIT (trie_entry_bytes af a' m') i"
proof -
  have "i div 8 < 4" using assms by auto
  then have "i div 8 = 0 \<or> i div 8 = 1 \<or> i div 8 = 2 \<or> i div 8 = 3" by linarith
  then have "trie_entry_bytes af a m ! (i div 8) = trie_entry_bytes af a' m' ! (i div 8)"
    by (auto simp: trie_entry_bytes_def)
  then show ?thesis using assms by (simp add: BIT_def)
qed

section \<open>Entries of one family and prefix length\<close>

definition masked :: "nat \<Rightarrow> IP_addr \<Rightarrow> IP_addr" where
  "masked mb n = \<lparr>addr32 = map2 (AND) (addr32 n) (prefix_mask mb)\<rparr>"

definition pat_key :: "u16 \<Rightarrow> nat \<Rightarrow> IP_addr \<Rightarrow> u8 list" where
  "pat_key af mb n = trie_entry_bytes af (masked mb n) \<lparr>addr32 = prefix_mask mb\<rparr>"

definition query_key :: "u16 \<Rightarrow> IP_addr \<Rightarrow> u8 list" where
  "query_key af q = trie_entry_bytes af q zero_addr"

definition prefix_ok :: "u16 \<Rightarrow> nat \<Rightarrow> bool" where
  "prefix_ok af mb \<longleftrightarrow> (af = AF_INET \<and> mb \<le> 32) \<or> (af = AF_INET6 \<and> mb \<le> 128)"

definition uniform_key :: "u16 \<Rightarrow> nat \<Rightarrow> u8 list \<Rightarrow> bool" where
  "uniform_key af mb k \<longleftrightarrow> prefix_ok af mb \<and> (\<exists>n. length (addr32 n) = 4 \<and> k = pat_key af mb n)"

lemma prefix_ok_128: "prefix_ok af mb \<Longrightarrow> mb \<le> 128"
  by (auto simp: prefix_ok_def)

lemma masked_length [simp]: "length (addr32 n) = 4 \<Longrightarrow> mb \<le> 128 \<Longrightarrow> length (addr32 (masked mb n)) = 4"
  by (simp add: masked_def prefix_mask_length)

lemma mask_bit: "mb \<le> 128 \<Longrightarrow> i < 128 \<Longrightarrow> addr_bit \<lparr>addr32 = prefix_mask mb\<rparr> i \<longleftrightarrow> i < mb"
  using prefix_mask_bit [of mb "i div 32" "i mod 32"] by (simp add: addr_bit_def div_less_iff_less_mult)

lemma masked_bit:
  assumes "length (addr32 n) = 4" and "mb \<le> 128" and "i < 128"
  shows "addr_bit (masked mb n) i \<longleftrightarrow> i < mb \<and> addr_bit n i"
proof -
  have "i div 32 < 4" using assms(3) by (simp add: div_less_iff_less_mult)
  then have "addr32 (masked mb n) ! (i div 32) = (addr32 n ! (i div 32) AND prefix_mask mb ! (i div 32))"
    using assms prefix_mask_length [OF assms(2)] by (simp add: masked_def)
  then show ?thesis
    using mask_bit [OF assms(2,3)] by (auto simp: addr_bit_def bit_and_iff)
qed

lemma pat_match:
  assumes "prefix_ok af mb" and "length (addr32 n) = 4"
  shows "IP_match_addr (masked mb n) \<lparr>addr32 = prefix_mask mb\<rparr> q af \<longleftrightarrow> (\<forall>i<mb. addr_bit q i = addr_bit n i)"
  using IP_match_masked [OF assms(2), of mb af q] assms(1)
  by (auto simp: prefix_ok_def masked_def AF_INET_def AF_INET6_def)

lemma pat_cmp:
  assumes "prefix_ok af mb" and "length (addr32 n) = 4" and "length (addr32 q) = 4"
  shows "cmp_trie_entry (pat_key af mb n) (trie_entry_bytes af q m) =
         Some (if \<forall>i<mb. addr_bit q i = addr_bit n i then 0 else 1)"
  using cmp_trie_entry_bytes [of "masked mb n" "\<lparr>addr32 = prefix_mask mb\<rparr>" q af af m]
    pat_match [OF assms(1,2), of q] assms prefix_ok_128 [OF assms(1)]
  by (simp add: pat_key_def prefix_mask_length)

lemma pat_cmp_pat:
  assumes "prefix_ok af mb" and "length (addr32 n) = 4" and "length (addr32 n') = 4"
  shows "cmp_trie_entry (pat_key af mb n) (pat_key af mb n') =
         Some (if \<forall>i<mb. addr_bit n' i = addr_bit n i then 0 else 1)"
proof -
  have "(\<forall>i<mb. addr_bit (masked mb n') i = addr_bit n i) \<longleftrightarrow> (\<forall>i<mb. addr_bit n' i = addr_bit n i)"
    using masked_bit [OF assms(3) prefix_ok_128 [OF assms(1)]] prefix_ok_128 [OF assms(1)] by auto
  then show ?thesis
    using pat_cmp [OF assms(1,2), of "masked mb n'" "\<lparr>addr32 = prefix_mask mb\<rparr>"] assms prefix_ok_128 [OF assms(1)]
    by (simp add: pat_key_def [of af mb n'])
qed

lemma pat_BIT:
  assumes "prefix_ok af mb" and "length (addr32 n) = 4"
  shows "i < 128 \<Longrightarrow> BIT (pat_key af mb n) (32 + i) = Some (i < mb \<and> addr_bit n i)"
    and "i < 128 \<Longrightarrow> BIT (pat_key af mb n) (160 + i) = Some (i < mb)"
    and "288 \<le> i \<Longrightarrow> BIT (pat_key af mb n) i = None"
  using assms prefix_ok_128 [OF assms(1)]
  by (simp_all add: pat_key_def entry_BIT masked_bit mask_bit BIT_none)

lemma pat_first_diff:
  assumes "prefix_ok af mb" and "length (addr32 n) = 4" and "length (addr32 n') = 4"
    and "first_diff (pat_key af mb n) (pat_key af mb n') i"
  shows "32 \<le> i \<and> i < 32 + mb \<and> addr_bit n (i - 32) \<noteq> addr_bit n' (i - 32)"
proof -
  have ne: "BIT (pat_key af mb n) i \<noteq> BIT (pat_key af mb n') i" using assms(4) by (simp add: first_diff_def)
  consider "i < 32" | j where "i = 32 + j" "j < 128" | j where "i = 160 + j" "j < 128" | "288 \<le> i"
  proof -
    have "i < 32 \<or> i = 32 + (i - 32) \<and> i - 32 < 128 \<or> i = 160 + (i - 160) \<and> i - 160 < 128 \<or> 288 \<le> i"
      by linarith
    then show thesis using that by blast
  qed
  then show ?thesis
  proof cases
    case 1
    then show ?thesis using ne entry_BIT_af unfolding pat_key_def by blast
  qed (use ne assms in \<open>auto simp: pat_BIT\<close>)
qed

lemma pat_key_eq:
  assumes "prefix_ok af mb" and "length (addr32 n) = 4" and "length (addr32 n') = 4"
    and "\<forall>i<mb. addr_bit n' i = addr_bit n i"
  shows "pat_key af mb n = pat_key af mb n'"
proof (rule ccontr)
  assume "pat_key af mb n \<noteq> pat_key af mb n'"
  then obtain i where "first_diff (pat_key af mb n) (pat_key af mb n') i"
    using split_bit_spec [of "pat_key af mb n" "pat_key af mb n'" 0 None] by (auto simp: pat_key_def)
  from pat_first_diff [OF assms(1-3) this] show False using assms(4) by auto
qed

definition uniform_inv :: "u16 \<Rightarrow> nat \<Rightarrow> Trie \<Rightarrow> bool" where
  "uniform_inv af mb t \<longleftrightarrow> trie_ok 36 t \<and> (\<forall>k\<in>trie_keys (Some t). uniform_key af mb k) \<and>
     trie_branches (Some t) \<subseteq> insert 0 {32..<32 + mb}"

lemma uniform_insert:
  assumes "uniform_inv af mb t" and "uniform_key af mb k"
  shows "\<exists>t'. Trie_insert cmp_trie_entry t k = Some t' \<and> uniform_inv af mb t' \<and>
           trie_keys (Some t') = insert k (trie_keys (Some t))"
proof -
  obtain n where ok: "prefix_ok af mb" and n: "length (addr32 n) = 4" "k = pat_key af mb n"
    using assms(2) by (auto simp: uniform_key_def)
  have keys: "\<exists>n'. length (addr32 n') = 4 \<and> k' = pat_key af mb n'" if "k' \<in> trie_keys (Some t)" for k'
    using assms(1) that by (auto simp: uniform_inv_def uniform_key_def)
  have len: "length k = 36" by (simp add: n pat_key_def)
  have cmp: "\<forall>k'\<in>trie_keys (Some t). \<exists>c. cmp_trie_entry k' k = Some c \<and> (c = 0 \<or> k' \<noteq> k)"
  proof
    fix k' assume "k' \<in> trie_keys (Some t)"
    then obtain n' where n': "length (addr32 n') = 4" "k' = pat_key af mb n'" using keys by blast
    show "\<exists>c. cmp_trie_entry k' k = Some c \<and> (c = 0 \<or> k' \<noteq> k)"
    proof (cases "\<forall>i<mb. addr_bit n i = addr_bit n' i")
      case False
      then have "cmp_trie_entry k' k = Some 1" using pat_cmp_pat [OF ok n'(1) n(1)] by (simp add: n n')
      moreover have "cmp_trie_entry k k = Some 0" using pat_cmp_pat [OF ok n(1) n(1)] by (simp add: n)
      ultimately show ?thesis by auto
    qed (use pat_cmp_pat [OF ok n'(1) n(1)] in \<open>simp add: n n'\<close>)
  qed
  have same: "k' = k" if "k' \<in> trie_keys (Some t)" "cmp_trie_entry k' k = Some 0" for k'
  proof -
    from keys [OF that(1)] obtain n' where n': "length (addr32 n') = 4" "k' = pat_key af mb n'" by blast
    then show ?thesis
      using that(2) pat_cmp_pat [OF ok n'(1) n(1)] pat_key_eq [OF ok n'(1) n(1)] by (auto simp: n(2) split: if_splits)
  qed
  obtain t' where t': "Trie_insert cmp_trie_entry t k = Some t'" "trie_ok 36 t'"
    "t' = t \<and> (\<exists>k'\<in>trie_keys (Some t). cmp_trie_entry k' k = Some 0) \<or>
       trie_keys (Some t') = insert k (trie_keys (Some t))"
    "\<forall>i\<in>trie_branches (Some t'). i = 0 \<or> i \<in> trie_branches (Some t) \<or>
       (\<exists>k'\<in>trie_keys (Some t). first_diff k' k i)"
    using Trie_insert_spec [where cmp = cmp_trie_entry, OF _ len _ cmp] assms(1) by (auto simp: uniform_inv_def)
  have ks: "trie_keys (Some t') = insert k (trie_keys (Some t))"
    using t'(3) same by auto
  have "trie_branches (Some t') \<subseteq> insert 0 {32..<32 + mb}"
  proof
    fix i assume "i \<in> trie_branches (Some t')"
    then consider "i = 0 \<or> i \<in> trie_branches (Some t)"
      | n' where "length (addr32 n') = 4" "first_diff (pat_key af mb n') (pat_key af mb n) i"
      using t'(4) keys n(2) by blast
    then show "i \<in> insert 0 {32..<32 + mb}"
    proof cases
      case 1
      then show ?thesis using assms(1) by (auto simp: uniform_inv_def)
    next
      case 2
      then show ?thesis using pat_first_diff [OF ok 2(1) n(1) 2(2)] by auto
    qed
  qed
  then have "uniform_inv af mb t'"
    using t'(2) ks assms by (auto simp: uniform_inv_def)
  then show ?thesis using t'(1) ks by blast
qed

lemma uniform_contains:
  assumes "uniform_inv af mb t" and "length (addr32 q) = 4"
  shows "Trie_contains cmp_trie_entry (Some t) (query_key af q) =
         Some (\<exists>k\<in>trie_keys (Some t). cmp_trie_entry k (query_key af q) = Some 0)"
proof (cases "t = Trie_create None")
  case False
  then have inv: "trie_inv 36 (Some t)" using assms(1) by (simp add: uniform_inv_def trie_ok_def)
  have len: "length (query_key af q) = 36" by (simp add: query_key_def)
  have keys: "\<exists>n. prefix_ok af mb \<and> length (addr32 n) = 4 \<and> k = pat_key af mb n" if "k \<in> trie_keys (Some t)" for k
    using assms(1) that by (auto simp: uniform_inv_def uniform_key_def)
  show ?thesis
  proof (cases "\<exists>k\<in>trie_keys (Some t). cmp_trie_entry k (query_key af q) = Some 0")
    case True
    then obtain k n where k: "k \<in> trie_keys (Some t)" "cmp_trie_entry k (query_key af q) = Some 0"
      and n: "prefix_ok af mb" "length (addr32 n) = 4" "k = pat_key af mb n" using keys by blast
    have agree: "\<forall>i<mb. addr_bit q i = addr_bit n i"
      using k(2) pat_cmp [OF n(1,2) assms(2)] by (auto simp: query_key_def n(3) split: if_splits)
    have "\<forall>i\<in>trie_branches (Some t). BIT (query_key af q) i = BIT k i"
    proof
      fix i assume "i \<in> trie_branches (Some t)"
      then have "i = 0 \<or> 32 \<le> i \<and> i < 32 + mb" using assms(1) by (auto simp: uniform_inv_def)
      then show "BIT (query_key af q) i = BIT k i"
      proof
        assume "i = 0"
        then show ?thesis unfolding query_key_def n(3) pat_key_def by (simp add: entry_BIT_af)
      next
        assume i: "32 \<le> i \<and> i < 32 + mb"
        then obtain j where j: "i = 32 + j" "j < mb" by (metis add_less_cancel_left le_Suc_ex)
        then show ?thesis
          using agree prefix_ok_128 [OF n(1)] by (simp add: query_key_def n(3) pat_BIT [OF n(1,2)] entry_BIT)
      qed
    qed
    then show ?thesis
      using Trie_contains_path [OF inv k(1) len, of cmp_trie_entry] k True by auto
  next
    case none: False
    have "\<forall>k\<in>trie_keys (Some t). \<exists>c. cmp_trie_entry k (query_key af q) = Some c"
    proof
      fix k assume "k \<in> trie_keys (Some t)"
      from keys [OF this] obtain n where "prefix_ok af mb" "length (addr32 n) = 4" "k = pat_key af mb n" by blast
      then show "\<exists>c. cmp_trie_entry k (query_key af q) = Some c"
        using pat_cmp [of af mb n q zero_addr] assms(2) by (simp add: query_key_def)
    qed
    from Trie_contains_total [where cmp = cmp_trie_entry, OF inv len this] obtain r where
      "Trie_contains cmp_trie_entry (Some t) (query_key af q) = Some r" by blast
    then show ?thesis using none Trie_contains_sound [of cmp_trie_entry "Some t" "query_key af q"] by auto
  qed
qed (simp add: Trie_create_def)

interpretation ut: pattern_set "Trie_create None" "Trie_insert cmp_trie_entry"
  "\<lambda>t q. Trie_contains cmp_trie_entry (Some t) (query_key af q)" "uniform_inv af mb" "\<lambda>t. trie_keys (Some t)"
  "uniform_key af mb" "\<lambda>q. length (addr32 q) = 4" "\<lambda>k q. cmp_trie_entry k (query_key af q) = Some 0" for af mb
  by unfold_locales
     (simp_all add: uniform_insert uniform_contains, simp_all add: uniform_inv_def trie_ok_def Trie_create_def)

text \<open>Whatever entries a trie holds, a lookup ends with an answer.\<close>

lemma Blacklist_match_total:
  assumes "bl_type bl = BL_STORAGE_TRIE" and "bl_trie bl = Some t" and "trie_ok 36 t"
  obtains r where "Blacklist_match bl a af = Some r"
proof (cases "t = Trie_create None")
  case True
  then show ?thesis using that [of False] assms(1,2) by (simp add: Blacklist_match_def Trie_create_def)
next
  case False
  then have "trie_inv 36 (Some t)" using assms(3) by (simp add: trie_ok_def)
  then show ?thesis
    using Trie_contains_total [of 36 "Some t" "trie_entry_bytes af a zero_addr" cmp_trie_entry] trie_inv_key_length [of 36 "Some t"]
      that assms(1,2) by (auto simp: cmp_trie_entry_def Blacklist_match_def)
qed

section \<open>Adding addresses by name\<close>

definition address_ok :: "(u16 \<Rightarrow> string \<Rightarrow> IP_addr option) \<Rightarrow> u16 \<Rightarrow> nat \<Rightarrow> string \<Rightarrow> IP_addr \<Rightarrow> bool" where
  "address_ok inet_pton af mb s p \<longleftrightarrow>
     prefix_ok af mb \<and> 1 \<le> mb \<and> length (addr32 p) = 4 \<and>
     (\<exists>parsed w. scan_cidr s = Some (parsed, w) \<and> unat w = mb \<and> inet_pton af parsed = Some p \<and>
        af = (if CHR '':'' \<in> set parsed then AF_INET6 else AF_INET))"

lemma address_ok_addr_mask:
  "address_ok inet_pton af mb s p \<Longrightarrow>
   IP_str_to_addr_mask inet_pton s af0 = (0, masked mb p, \<lparr>addr32 = prefix_mask mb\<rparr>, af)"
  by (auto simp: address_ok_def IP_str_to_addr_mask_def prefix_ok_def IP_MAX_MASKBITS_def
      IP_MAX_MASKBITS_V4_def masked_def Let_def AF_INET_def AF_INET6_def)

lemma address_ok_key: "address_ok inet_pton af mb s p \<Longrightarrow> uniform_key af mb (pat_key af mb p)"
  by (auto simp: address_ok_def uniform_key_def)

definition named_key :: "(u16 \<Rightarrow> string \<Rightarrow> IP_addr option) \<Rightarrow> string \<Rightarrow> u8 list \<Rightarrow> bool" where
  "named_key inet_pton s k \<longleftrightarrow>
     (\<exists>n m af. IP_str_to_addr_mask inet_pton s 0 = (0, n, m, af) \<and> k = trie_entry_bytes af n m)"

lemma address_ok_named: "address_ok inet_pton af mb s p \<Longrightarrow> named_key inet_pton s (pat_key af mb p)"
  by (auto simp: named_key_def pat_key_def address_ok_addr_mask)

lemma add_by_name:
  assumes "list_all2 (named_key inet_pton) ss ks" and "bl_type bl = BL_STORAGE_TRIE"
    and "bl_trie bl = Some t" and "fold_opt (Trie_insert cmp_trie_entry) t ks = Some t'"
  shows "fold_opt (\<lambda>bl s. map_option snd (Blacklist_add inet_pton bl s)) bl ss =
         Some (bl\<lparr>bl_count := bl_count bl + length ss, bl_trie := Some t'\<rparr>)"
  using assms
proof (induction ss ks arbitrary: bl t rule: list_all2_induct)
  case (Cons s ss k ks)
  then obtain t1 where t1: "Trie_insert cmp_trie_entry t k = Some t1"
    "fold_opt (Trie_insert cmp_trie_entry) t1 ks = Some t'"
    by (auto simp: bind_eq_Some_conv)
  let ?bl = "bl\<lparr>bl_count := bl_count bl + 1, bl_trie := Some t1\<rparr>"
  have "Blacklist_add inet_pton bl s = Some (0, ?bl)"
    using Cons.prems t1(1) Cons.hyps(1) by (auto simp: Blacklist_add_def named_key_def)
  then show ?case using Cons.IH [of ?bl t1] Cons.prems(1) t1(2) by simp
qed simp

lemma match_by_name:
  assumes "list_all2 (named_key inet_pton) ss ks"
    and "fold_opt (Trie_insert cmp_trie_entry) (Trie_create None) ks = Some t"
  shows "\<exists>bl. fold_opt (\<lambda>bl s. map_option snd (Blacklist_add inet_pton bl s))
                 (Blacklist_create name message BL_STORAGE_TRIE) ss = Some bl \<and>
           Blacklist_match bl q af = Trie_contains cmp_trie_entry (Some t) (query_key af q)"
  using add_by_name [OF assms(1) _ _ assms(2), of "Blacklist_create name message BL_STORAGE_TRIE"]
  by (simp add: Blacklist_create_def Blacklist_match_def query_key_def BL_STORAGE_LIST_def BL_STORAGE_TRIE_def)

text \<open>Networks of one family and one prefix length: what the list then holds and matches.\<close>

lemma add_by_name_fields:
  "fold_opt (\<lambda>bl s. map_option snd (Blacklist_add inet_pton bl s)) bl ss = Some bl' \<Longrightarrow> bl_name bl' = bl_name bl \<and> bl_message bl' = bl_message bl"
proof (induction ss arbitrary: bl)
  case (Cons s ss)
  then obtain ret bl1 where b: "Blacklist_add inet_pton bl s = Some (ret, bl1)" by (auto simp: bind_eq_Some_conv)
  then have "bl_name bl1 = bl_name bl \<and> bl_message bl1 = bl_message bl"
    by (auto simp: Blacklist_add_def grow_entries_def Let_def bind_eq_Some_conv split: prod.splits if_splits)
  then show ?case using Cons b by auto
qed simp

lemma uniform_by_name:
  assumes "list_all2 (address_ok inet_pton af mb) ss ps"
  shows "\<exists>bl. fold_opt (\<lambda>bl s. map_option snd (Blacklist_add inet_pton bl s))
                 (Blacklist_create name message BL_STORAGE_TRIE) ss = Some bl \<and> bl_name bl = name \<and> bl_message bl = message \<and>
           (\<forall>q. length (addr32 q) = 4 \<longrightarrow> Blacklist_match bl q af = Some (\<exists>p\<in>set ps. \<forall>i<mb. addr_bit q i = addr_bit p i))"
proof -
  let ?bl0 = "Blacklist_create name message BL_STORAGE_TRIE"
  have okp: "\<exists>s. address_ok inet_pton af mb s p" if "p \<in> set ps" for p
    using assms(1) that by (metis in_set_conv_nth list_all2_conv_all_nth)
  then have keys: "\<forall>k\<in>set (map (pat_key af mb) ps). uniform_key af mb k" using address_ok_key by fastforce
  have named: "list_all2 (named_key inet_pton) ss (map (pat_key af mb) ps)"
    using assms(1) by (simp add: list_all2_map2 list_all2_mono address_ok_named)
  obtain t where t: "fold_opt (Trie_insert cmp_trie_entry) (Trie_create None) (map (pat_key af mb) ps) = Some t"
    using ut.add_all_mem [OF keys] by blast
  then obtain bl where bl: "fold_opt (\<lambda>bl s. map_option snd (Blacklist_add inet_pton bl s)) ?bl0 ss = Some bl"
    using match_by_name [OF named t] by blast
  have "Blacklist_match bl q af = Some (\<exists>p\<in>set ps. \<forall>i<mb. addr_bit q i = addr_bit p i)" if q: "length (addr32 q) = 4" for q
  proof -
    have m: "Trie_contains cmp_trie_entry (Some t) (query_key af q) =
        Some (\<exists>k\<in>set (map (pat_key af mb) ps). cmp_trie_entry k (query_key af q) = Some 0)"
      using ut.add_all_mem [OF keys] t q by auto
    have "cmp_trie_entry (pat_key af mb p) (query_key af q) = Some 0 \<longleftrightarrow> (\<forall>i<mb. addr_bit q i = addr_bit p i)" if "p \<in> set ps" for p
      using okp [OF that] pat_cmp [of af mb p q zero_addr] q by (auto simp: address_ok_def query_key_def)
    then have "(\<exists>k\<in>set (map (pat_key af mb) ps). cmp_trie_entry k (query_key af q) = Some 0) \<longleftrightarrow>
        (\<exists>p\<in>set ps. \<forall>i<mb. addr_bit q i = addr_bit p i)" by auto
    then show ?thesis using match_by_name [OF named t, of name message q af] bl m by simp
  qed
  moreover have "bl_name bl = name \<and> bl_message bl = message" using add_by_name_fields [OF bl] by (simp add: Blacklist_create_def Let_def)
  ultimately show ?thesis using bl by blast
qed

section \<open>Properties\<close>

text \<open>
  C25. A blacklist kept as a trie whose addresses all have one family and one prefix length answers
  \<open>Blacklist_match\<close> exactly: a source matches if and only if it agrees with some added address on the
  prefix.
\<close>

theorem Blacklist_match_uniform:
  assumes "list_all2 (address_ok inet_pton af mb) ss ps" and "length (addr32 q) = 4"
  shows "\<exists>bl. fold_opt (\<lambda>bl s. map_option snd (Blacklist_add inet_pton bl s))
                 (Blacklist_create name message BL_STORAGE_TRIE) ss = Some bl \<and>
           Blacklist_match bl q af = Some (\<exists>p\<in>set ps. \<forall>i<mb. addr_bit q i = addr_bit p i)"
  using uniform_by_name [OF assms(1)] assms(2) by blast

text \<open>A resolver that knows the addresses of the examples.\<close>

definition example_pton :: "u16 \<Rightarrow> string \<Rightarrow> IP_addr option" where
  "example_pton af s =
     (if s = ''10.1.0.0'' then Some \<lparr>addr32 = [0x0a010000, 0, 0, 0]\<rparr>
      else if s = ''10.2.0.0'' then Some \<lparr>addr32 = [0x0a020000, 0, 0, 0]\<rparr>
      else if s = ''11.0.0.0'' then Some \<lparr>addr32 = [0x0b000000, 0, 0, 0]\<rparr>
      else None)"

lemma example_masks: "prefix_mask 16 = [0xffff0000, 0, 0, 0]" "prefix_mask 8 = [0xff000000, 0, 0, 0]"
  by code_simp+

lemma example_addrs:
  "IP_str_to_addr_mask example_pton ''10.1.0.0/16'' 0 =
     (0, \<lparr>addr32 = [0x0a010000, 0, 0, 0]\<rparr>, \<lparr>addr32 = [0xffff0000, 0, 0, 0]\<rparr>, AF_INET)"
  "IP_str_to_addr_mask example_pton ''10.2.0.0/16'' 0 =
     (0, \<lparr>addr32 = [0x0a020000, 0, 0, 0]\<rparr>, \<lparr>addr32 = [0xffff0000, 0, 0, 0]\<rparr>, AF_INET)"
  "IP_str_to_addr_mask example_pton ''11.0.0.0/8'' 0 =
     (0, \<lparr>addr32 = [0x0b000000, 0, 0, 0]\<rparr>, \<lparr>addr32 = [0xff000000, 0, 0, 0]\<rparr>, AF_INET)"
  by (simp_all add: IP_str_to_addr_mask_def scan_cidr_def scan_unsigned_def isdigit_c_def char_code_def
      char_isspace_def isspace_c_def Let_def example_pton_def example_masks IP_MAX_MASKBITS_def IP_MAX_MASKBITS_V4_def)

lemma example_trie:
 "Option.bind (fold_opt (Trie_insert cmp_trie_entry) (Trie_create None)
    [trie_entry_bytes AF_INET \<lparr>addr32 = [0x0a010000, 0, 0, 0]\<rparr> \<lparr>addr32 = [0xffff0000, 0, 0, 0]\<rparr>,
    trie_entry_bytes AF_INET \<lparr>addr32 = [0x0a020000, 0, 0, 0]\<rparr> \<lparr>addr32 = [0xffff0000, 0, 0, 0]\<rparr>,
    trie_entry_bytes AF_INET \<lparr>addr32 = [0x0b000000, 0, 0, 0]\<rparr> \<lparr>addr32 = [0xff000000, 0, 0, 0]\<rparr>])
   (\<lambda>t. Trie_contains cmp_trie_entry (Some t) (trie_entry_bytes AF_INET \<lparr>addr32 = [0x0b020304, 0, 0, 0]\<rparr> zero_addr)) = Some False"
  by code_simp
text \<open>C25 at two networks of 16 bits.\<close>

theorem Blacklist_match_uniform_witness:
  "\<exists>bl. fold_opt (\<lambda>bl s. map_option snd (Blacklist_add example_pton bl s))
          (Blacklist_create ''a'' ''b'' BL_STORAGE_TRIE) [''10.1.0.0/16'', ''10.2.0.0/16''] = Some bl \<and>
     Blacklist_match bl \<lparr>addr32 = [0x0a020304, 0, 0, 0]\<rparr> AF_INET =
       Some (\<exists>p\<in>{\<lparr>addr32 = [0x0a010000, 0, 0, 0]\<rparr>, \<lparr>addr32 = [0x0a020000, 0, 0, 0]\<rparr>}.
               \<forall>i<16. addr_bit \<lparr>addr32 = [0x0a020304, 0, 0, 0]\<rparr> i = addr_bit p i)"
  using Blacklist_match_uniform [of example_pton AF_INET 16 "[''10.1.0.0/16'', ''10.2.0.0/16'']"
      "[\<lparr>addr32 = [0x0a010000, 0, 0, 0]\<rparr>, \<lparr>addr32 = [0x0a020000, 0, 0, 0]\<rparr>]" "\<lparr>addr32 = [0x0a020304, 0, 0, 0]\<rparr>"]
  by (simp add: address_ok_def prefix_ok_def example_pton_def scan_cidr_def scan_unsigned_def isdigit_c_def
      char_code_def char_isspace_def isspace_c_def Let_def)

text \<open>
  With mixed prefix lengths the trie misses matches: after adding 10.1.0.0/16, 10.2.0.0/16 and
  11.0.0.0/8 the address 11.2.3.4 is not found, although the last network contains it.
\<close>

theorem Blacklist_match_mixed_misses:
  "\<exists>bl. fold_opt (\<lambda>bl s. map_option snd (Blacklist_add example_pton bl s))
          (Blacklist_create ''a'' ''b'' BL_STORAGE_TRIE) [''10.1.0.0/16'', ''10.2.0.0/16'', ''11.0.0.0/8''] = Some bl \<and>
        Blacklist_match bl \<lparr>addr32 = [0x0b020304, 0, 0, 0]\<rparr> AF_INET = Some False"
proof -
  have n: "list_all2 (named_key example_pton) [''10.1.0.0/16'', ''10.2.0.0/16'', ''11.0.0.0/8'']
    [trie_entry_bytes AF_INET \<lparr>addr32 = [0x0a010000, 0, 0, 0]\<rparr> \<lparr>addr32 = [0xffff0000, 0, 0, 0]\<rparr>,
     trie_entry_bytes AF_INET \<lparr>addr32 = [0x0a020000, 0, 0, 0]\<rparr> \<lparr>addr32 = [0xffff0000, 0, 0, 0]\<rparr>,
     trie_entry_bytes AF_INET \<lparr>addr32 = [0x0b000000, 0, 0, 0]\<rparr> \<lparr>addr32 = [0xff000000, 0, 0, 0]\<rparr>]"
    by (simp add: named_key_def example_addrs)
  from example_trie show ?thesis
    unfolding bind_eq_Some_conv query_key_def [symmetric]
    by (elim exE conjE) (drule match_by_name [OF n, of _ "''a''" "''b''" "\<lparr>addr32 = [0x0b020304, 0, 0, 0]\<rparr>" AF_INET], simp)
qed

text \<open>
  \<open>Blacklist_add\<close> stores an entry for an address it rejects: when the conversion fails, a new
  list of either storage matches every IPv4 and every IPv6 source afterwards.
\<close>

theorem Blacklist_add_malformed_matches_all:
  assumes "IP_str_to_addr_mask inet_pton address 0 = (- 1, zero_addr, zero_addr, af)"
    and "storage = BL_STORAGE_LIST \<or> storage = BL_STORAGE_TRIE"
    and "qaf = AF_INET \<or> qaf = AF_INET6" and "length (addr32 q) = 4"
  shows "\<exists>bl. Blacklist_add inet_pton (Blacklist_create name message storage) address = Some (- 1, bl) \<and>
              Blacklist_match bl q qaf = Some True"
proof -
  have af: "af = 0 \<or> af = AF_INET \<or> af = AF_INET6"
    using assms(1) by (auto simp: IP_str_to_addr_mask_def Let_def split: option.splits if_splits)
  have z: "IP_match_addr zero_addr zero_addr q qaf"
    using assms(3) by (auto simp: IP_match_addr_def zero_addr_def AF_INET_def AF_INET6_def)
  have k0: "BIT (trie_entry_bytes af' a m) 0 = Some False" if "af' = 0 \<or> af' = AF_INET \<or> af' = AF_INET6" for af' a m
    using that by (auto simp: BIT_def trie_entry_bytes_def AF_INET_def AF_INET6_def bit_simps)
  have c: "cmp_trie_entry (trie_entry_bytes af zero_addr zero_addr) (trie_entry_bytes qaf q zero_addr) = Some 0"
    using z assms(4) by (simp add: cmp_trie_entry_bytes zero_addr_def)
  show ?thesis
    using assms(2)
  proof
    assume st: "storage = BL_STORAGE_LIST"
    have "zero_entry\<lparr>be_address := zero_addr, be_mask := zero_addr\<rparr> = zero_entry" by (simp add: zero_entry_def)
    then have "Blacklist_add inet_pton (list_of_ranges name message []) address =
        Some (- 1, list_of_ranges name message [zero_entry])"
      using assms(1)
      by (simp add: Blacklist_add_def list_of_ranges_def Blacklist_create_def grow_entries_def BLACKLIST_INIT_SIZE_def
          BL_STORAGE_LIST_def BL_STORAGE_TRIE_def Let_def read_entry_def write_entry_def)
    moreover have "Blacklist_match (list_of_ranges name message [zero_entry]) q qaf = Some True"
      using z by (simp add: Blacklist_match_def list_of_ranges_def Blacklist_create_def BLACKLIST_INIT_SIZE_def
          BL_STORAGE_LIST_def BL_STORAGE_TRIE_def read_entry_def zero_entry_def)
    ultimately show ?thesis by (simp add: st create_list_of_ranges)
  next
    assume st: "storage = BL_STORAGE_TRIE"
    then show ?thesis
      using assms(1,3) c k0 [OF af] k0 [of qaf]
      by (auto simp: Blacklist_add_def Blacklist_create_def Blacklist_match_def BL_STORAGE_LIST_def BL_STORAGE_TRIE_def
          Trie_insert_def IS_LEAF_def Trie_create_def)
  qed
qed

text \<open>The statement at a bare address, which has no prefix length.\<close>

theorem Blacklist_add_malformed_matches_all_witness:
  "\<exists>bl. Blacklist_add example_pton (Blacklist_create ''permitted-proxies'' ''m'' BL_STORAGE_LIST) ''1.2.3.4'' =
          Some (- 1, bl) \<and> Blacklist_match bl \<lparr>addr32 = [0x06060606, 0, 0, 0]\<rparr> AF_INET = Some True"
  using Blacklist_add_malformed_matches_all [of example_pton "''1.2.3.4''" 0 BL_STORAGE_LIST AF_INET
      "\<lparr>addr32 = [0x06060606, 0, 0, 0]\<rparr>" "''permitted-proxies''" "''m''"]
  by (simp add: IP_str_to_addr_mask_def scan_cidr_def)

text \<open>
  The array of entries does not grow: \<open>grow_entries\<close> passes a number of entries to
  \<open>realloc\<close>, which takes bytes, so that the range after the first 524287 is written outside the
  array.
\<close>

theorem Blacklist_add_range_overflow:
  assumes "length rs = 524287" and "\<forall>(st, en, type)\<in>set rs. st \<le> en" and "st \<le> en"
  shows "\<exists>bl. fold_opt (\<lambda>bl (st, en, type). Blacklist_add_range bl st en type)
                (Blacklist_create name message BL_STORAGE_LIST) rs = Some bl \<and>
              Blacklist_add_range bl st en type = None"
proof -
  let ?es = "concat (map range_entries rs)"
  have len: "length ?es = 2 * length rs"
    using assms(2) by (induction rs) (auto simp: range_entries_def split: prod.splits)
  have "Blacklist_add_range (list_of_ranges name message ?es) st en type = None"
    using assms(1,3) len
    by (simp add: Blacklist_add_range_def list_of_ranges_def Blacklist_create_def grow_entries_def Let_def
        BLACKLIST_INIT_SIZE_def sizeof_Blacklist_entry_def read_entry_def)
  then show ?thesis
    using add_ranges [of "[]" rs name message] assms(1) by (simp add: create_list_of_ranges BLACKLIST_INIT_SIZE_def)
qed

text \<open>The statement at copies of one range.\<close>

theorem Blacklist_add_range_overflow_witness:
  "\<exists>bl. fold_opt (\<lambda>bl (st, en, type). Blacklist_add_range bl st en type)
          (Blacklist_create ''a'' ''b'' BL_STORAGE_LIST) (replicate 524287 (1, 2, 1)) = Some bl \<and>
        Blacklist_add_range bl 5 6 1 = None"
  using Blacklist_add_range_overflow [of "replicate 524287 (1, 2, 1)" 5 6 "''a''" "''b''" 1] by simp

end
