(* ===== verification/Greyd.thy ===== *)
theory Greyd
  imports Config_Parser Blacklist_Match
begin

text \<open>
  Models \<open>src/src/greyd.c\<close>: the messages between the processes of the daemon. The main process
  reads blacklists from its configuration socket, the greylister writes such a message for its
  traplist, and the firewall process answers destination lookups and replaces whitelists.

  Output streams are the text written to them. The resolver functions of the C library and the
  firewall handle are parameters: \<open>getaddrinfo\<close> yields the socket address of a numeric address,
  \<open>lookup_orig_dst\<close> the original destination of a redirected connection. The setup of the firewall
  process (privileges, descriptors, the polling loop) is not modelled.
\<close>

section \<open>Printing\<close>

text \<open>\<open>\<percent>d\<close> of a signed and \<open>\<percent>u\<close> of an unsigned int.\<close>

definition show_int :: "int \<Rightarrow> string" where
  "show_int i = (if i < 0 then ''-'' @ dec_digits (nat (- i)) else dec_digits (nat i))"

definition quoted :: "string \<Rightarrow> string" where
  "quoted s = [CHR 0x22] @ s @ [CHR 0x22]"

text \<open>The loop that prints a list of quoted strings, separated by commas.\<close>

fun print_items :: "string list \<Rightarrow> bool \<Rightarrow> string" where
  "print_items [] first = []"
| "print_items (s # ss) first = (if first then [] else '','') @ quoted s @ print_items ss False"

section \<open>Blacklists over the configuration socket\<close>

definition send_item :: "(string \<Rightarrow> int) \<Rightarrow> string \<Rightarrow> string" where
  "send_item check ip =
     (if CHR ''/'' \<in> set ip then ip else ip @ ''/'' @ (if check ip = uint AF_INET then ''32'' else ''128''))"

definition Greyd_send_config :: "(string \<Rightarrow> int) \<Rightarrow> string \<Rightarrow> string \<Rightarrow> string List_T \<Rightarrow> string" where
  "Greyd_send_config check name msg ips =
     (if List_size (Some ips) > 0
      then ''name='' @ quoted name @ [CHR 0x0A] @ ''message='' @ quoted msg @ [CHR 0x0A] @ ''ips=['' @
           print_items (map (send_item check) (list_head ips)) True @ '']'' @ [CHR 0x0A] @ ''%'' @ [CHR 0x0A]
      else [])"

text \<open>The parser a process makes for one message, with what \<open>malloc\<close> leaves uninitialised.\<close>

definition message_parser :: "Lexer_T \<Rightarrow> int \<Rightarrow> int \<Rightarrow> Config_parser_T" where
  "message_parser lexer sectype tok = Config_parser_create lexer Config_create sectype tok"

fun add_values :: "(u16 \<Rightarrow> string \<Rightarrow> IP_addr option) \<Rightarrow> Config_value list \<Rightarrow> Blacklist_T \<Rightarrow> Blacklist_T option" where
  "add_values inet_pton [] bl = Some bl"
| "add_values inet_pton (v # vs) bl =
     (case cv_str (Some v) of
        None \<Rightarrow> add_values inet_pton vs bl
      | Some addr \<Rightarrow> do { (ret, bl') \<leftarrow> Blacklist_add inet_pton bl addr; add_values inet_pton vs bl' })"

definition Greyd_process_config :: "(string \<Rightarrow> string list option) \<Rightarrow> (u16 \<Rightarrow> string \<Rightarrow> IP_addr option) \<Rightarrow> Config_parser_T
    \<Rightarrow> Blacklist_T Hash_T \<Rightarrow> Blacklist_T Hash_T option" where
  "Greyd_process_config glob inet_pton parser blacklists =
     do { (ok, p) \<leftarrow> Config_parser_start glob parser Config_create;
          if ok
          then do { name \<leftarrow> Config_get_str (cp_config p) ''name'' None None;
                    msg \<leftarrow> Config_get_str (cp_config p) ''message'' None None;
                    ips \<leftarrow> Config_get_list (cp_config p) ''ips'' None;
                    case (name, msg, ips) of
                      (Some n, Some m, Some vs) \<Rightarrow>
                        do { bl \<leftarrow> add_values inet_pton vs (Blacklist_create n m BL_STORAGE_TRIE);
                             Hash_insert blacklists n bl }
                    | _ \<Rightarrow> Some blacklists }
          else Some blacklists }"

definition Greyd_set_proxy_protocol_permitted_proxies :: "(u16 \<Rightarrow> string \<Rightarrow> IP_addr option) \<Rightarrow> Config_value list option
    \<Rightarrow> Blacklist_T option" where
  "Greyd_set_proxy_protocol_permitted_proxies inet_pton cidrs =
     (let bl = Blacklist_create ''permitted-proxies'' ''permitted upstream proxies'' BL_STORAGE_LIST
      in case cidrs of None \<Rightarrow> Some bl | Some vs \<Rightarrow> if vs = [] then Some bl else add_values inet_pton vs bl)"

section \<open>Messages to the firewall process\<close>

record fw_sock =
  fs_addr :: sockaddr
  fs_port :: u16

record fw_env =
  getaddrinfo :: "string \<Rightarrow> sockaddr option"
  lookup_orig_dst :: "fw_sock \<Rightarrow> fw_sock \<Rightarrow> sockaddr option"
  getnameinfo :: "sockaddr \<Rightarrow> string option"
  check_addr :: "string \<Rightarrow> int"

text \<open>What a message makes the process do: write a reply, or replace a set of the firewall.\<close>

datatype fw_action = Fw_reply string | Fw_replace string "string list" int

fun valid_ips :: "(string \<Rightarrow> int) \<Rightarrow> Config_value list \<Rightarrow> string List_T \<Rightarrow> string List_T" where
  "valid_ips check [] wl = wl"
| "valid_ips check (v # vs) wl =
     valid_ips check vs
       (case cv_str (Some v) of
          None \<Rightarrow> wl
        | Some addr \<Rightarrow> if check addr \<noteq> - 1 then List_insert_after wl addr else wl)"

text \<open>The string of a message, which is a string for the defaults that are passed.\<close>

definition nat_lookup :: "fw_env \<Rightarrow> string \<Rightarrow> string \<Rightarrow> u16 \<Rightarrow> u16 \<Rightarrow> fw_action list" where
  "nat_lookup fw src proxy src_port proxy_port =
     (if src_port = 0 \<or> proxy_port = 0 then []
      else case (getaddrinfo fw src, getaddrinfo fw proxy) of
        (Some ss_src, Some ss_proxy) \<Rightarrow>
          (case lookup_orig_dst fw \<lparr>fs_addr = ss_src, fs_port = src_port\<rparr> \<lparr>fs_addr = ss_proxy, fs_port = proxy_port\<rparr> of
             None \<Rightarrow> []
           | Some ss_dst \<Rightarrow>
               (let dst = (case getnameinfo fw ss_dst of None \<Rightarrow> [] | Some s \<Rightarrow> s)
                in [Fw_reply (''dst='' @ quoted dst @ [CHR 0x0A] @ ''%'' @ [CHR 0x0A])]))
      | _ \<Rightarrow> [])"

definition Greyd_process_fw_message :: "fw_env \<Rightarrow> Config_T \<Rightarrow> fw_action list option" where
  "Greyd_process_fw_message fw message =
     do { type \<leftarrow> Config_get_str message ''type'' None None;
          case type of
            None \<Rightarrow> Some []
          | Some ty \<Rightarrow>
              if ty = ''nat''
              then do { src \<leftarrow> Config_get_str message ''src'' None (Some []);
                        proxy \<leftarrow> Config_get_str message ''proxy'' None (Some []);
                        sp \<leftarrow> Config_get_int message ''src_port'' None 0;
                        pp \<leftarrow> Config_get_int message ''proxy_port'' None 0;
                        s \<leftarrow> src; p \<leftarrow> proxy;
                        Some (nat_lookup fw s p (word_of_int sp) (word_of_int pp)) }
              else if ty = ''replace''
              then do { name \<leftarrow> Config_get_str message ''name'' None (Some []);
                        af \<leftarrow> Config_get_int message ''af'' None (uint AF_INET);
                        ips \<leftarrow> Config_get_list message ''ips'' None;
                        n \<leftarrow> name;
                        Some (case ips of
                                None \<Rightarrow> []
                              | Some vs \<Rightarrow>
                                  (let wl = valid_ips (check_addr fw) vs List_create
                                   in if List_size (Some wl) > 0
                                      then [Fw_replace n (list_head wl) (sint (word_of_int af :: 16 word))] else [])) }
              else Some [] }"

end
