(* ===== verification/Greydb.thy ===== *)
theory Greydb
  imports Linked_List IP
begin

text \<open>
  Models \<open>src/src/greydb.h\<close> and the dispatch functions of \<open>src/src/greydb.c\<close>: the keys and
  values of the greylisting database, the table of driver functions a database handle carries, and
  the state of an address. The contract every driver has to meet is the locale \<open>greydb\<close>; the
  theory \<open>Bdb\<close> shows that the Berkeley DB driver meets it, and the greylister of the theory
  \<open>Grey\<close> is verified against it.

  The driver-specific handle has the type variable \<open>'h\<close>. An operation that ends the process
  (\<open>i_critical\<close>, \<open>i_error\<close>, \<open>exit\<close>) or whose behaviour is undefined has the result
  \<open>None\<close>. Times are \<open>int64_t\<close> seconds and are modelled as integers; the counters are
  \<open>int\<close> and wrap.
\<close>

section \<open>Keys and values\<close>

record Grey_tuple =
  gt_ip :: string
  gt_helo :: string
  gt_from :: string
  gt_to :: string

record Grey_data =
  gd_first :: int
  gd_pass :: int
  gd_expire :: int
  gd_bcount :: int
  gd_pcount :: int

text \<open>The tag of the union is the constructor; \<open>KEY_OTHER\<close> is a zeroed key with a foreign tag.\<close>

datatype DB_key = KEY_IP string | KEY_MAIL string | KEY_TUPLE Grey_tuple | KEY_DOM string
  | KEY_DOM_PART string | KEY_OTHER int

record DB_val =
  val_type :: int
  val_gd :: Grey_data

definition DB_VAL_GREY :: int where "DB_VAL_GREY = 1"
definition DB_ENTRIES :: int where "DB_ENTRIES = 1"
definition DB_SPAMTRAPS :: int where "DB_SPAMTRAPS = 2"
definition DB_DOMAINS :: int where "DB_DOMAINS = 4"

definition GREYDB_ERR :: int where "GREYDB_ERR = - 1"
definition GREYDB_FOUND :: int where "GREYDB_FOUND = 0"
definition GREYDB_OK :: int where "GREYDB_OK = 1"
definition GREYDB_NOT_FOUND :: int where "GREYDB_NOT_FOUND = 2"

text \<open>The size of a buffer for an address, from the socket headers.\<close>

definition INET6_ADDRSTRLEN :: nat where "INET6_ADDRSTRLEN = 46"

lemmas greydb_codes = GREYDB_ERR_def GREYDB_FOUND_def GREYDB_OK_def GREYDB_NOT_FOUND_def

section \<open>The driver functions of a handle\<close>

text \<open>
  A lookup yields the return code and the value it stored, if it stored one. A scan yields the code,
  the handle and the two whitelists and the traplist it extended.
\<close>

record 'h DB_handle_T =
  db_open :: "'h \<Rightarrow> int \<Rightarrow> 'h option"
  db_start_txn :: "'h \<Rightarrow> (int \<times> 'h) option"
  db_commit_txn :: "'h \<Rightarrow> (int \<times> 'h) option"
  db_rollback_txn :: "'h \<Rightarrow> (int \<times> 'h) option"
  db_put :: "'h \<Rightarrow> DB_key \<Rightarrow> DB_val \<Rightarrow> (int \<times> 'h) option"
  db_get :: "'h \<Rightarrow> DB_key \<Rightarrow> (int \<times> DB_val option) option"
  db_del :: "'h \<Rightarrow> DB_key \<Rightarrow> (int \<times> 'h) option"
  db_scan :: "'h \<Rightarrow> int \<Rightarrow> string List_T \<Rightarrow> string List_T \<Rightarrow> string List_T \<Rightarrow> int
     \<Rightarrow> (int \<times> 'h \<times> string List_T \<times> string List_T \<times> string List_T) option"

definition DB_open :: "'h DB_handle_T \<Rightarrow> 'h \<Rightarrow> int \<Rightarrow> 'h option" where
  "DB_open D handle flags = db_open D handle flags"

definition DB_start_txn :: "'h DB_handle_T \<Rightarrow> 'h \<Rightarrow> (int \<times> 'h) option" where
  "DB_start_txn D handle = db_start_txn D handle"

definition DB_commit_txn :: "'h DB_handle_T \<Rightarrow> 'h \<Rightarrow> (int \<times> 'h) option" where
  "DB_commit_txn D handle = db_commit_txn D handle"

definition DB_rollback_txn :: "'h DB_handle_T \<Rightarrow> 'h \<Rightarrow> (int \<times> 'h) option" where
  "DB_rollback_txn D handle = db_rollback_txn D handle"

definition DB_put :: "'h DB_handle_T \<Rightarrow> 'h \<Rightarrow> DB_key \<Rightarrow> DB_val \<Rightarrow> (int \<times> 'h) option" where
  "DB_put D handle key val = db_put D handle key val"

definition DB_get :: "'h DB_handle_T \<Rightarrow> 'h \<Rightarrow> DB_key \<Rightarrow> (int \<times> DB_val option) option" where
  "DB_get D handle key = db_get D handle key"

definition DB_del :: "'h DB_handle_T \<Rightarrow> 'h \<Rightarrow> DB_key \<Rightarrow> (int \<times> 'h) option" where
  "DB_del D handle key = db_del D handle key"

definition DB_scan :: "'h DB_handle_T \<Rightarrow> 'h \<Rightarrow> int \<Rightarrow> string List_T \<Rightarrow> string List_T \<Rightarrow> string List_T \<Rightarrow> int
     \<Rightarrow> (int \<times> 'h \<times> string List_T \<times> string List_T \<times> string List_T) option" where
  "DB_scan D handle now whitelist whitelist_ipv6 traplist white_exp =
     db_scan D handle now whitelist whitelist_ipv6 traplist white_exp"

lemmas DB_dispatch = DB_open_def DB_start_txn_def DB_commit_txn_def DB_rollback_txn_def DB_put_def DB_get_def
  DB_del_def DB_scan_def

text \<open>\<open>DB_addr_state\<close>, over the lookup of its handle: 0 unknown, 1 trapped, 2 white, -1 error.\<close>

definition DB_addr_state :: "(DB_key \<Rightarrow> (int \<times> DB_val option) option) \<Rightarrow> string \<Rightarrow> int option" where
  "DB_addr_state get addr =
     do { (ret, val) \<leftarrow> get (KEY_IP addr);
          if ret = GREYDB_NOT_FOUND then Some 0
          else if ret = GREYDB_FOUND
          then do { v \<leftarrow> val; Some (if gd_pcount (val_gd v) = - 1 then 1 else 2) }
          else Some (- 1) }"

section \<open>Keys a database can hold\<close>

text \<open>The strings of a key are C strings. A partial domain only serves to look domains up.\<close>

fun key_ok :: "DB_key \<Rightarrow> bool" where
  "key_ok (KEY_IP s) \<longleftrightarrow> NUL \<notin> set s"
| "key_ok (KEY_MAIL s) \<longleftrightarrow> NUL \<notin> set s"
| "key_ok (KEY_DOM s) \<longleftrightarrow> NUL \<notin> set s"
| "key_ok (KEY_TUPLE gt) \<longleftrightarrow> NUL \<notin> set (gt_ip gt) \<and> NUL \<notin> set (gt_helo gt) \<and> NUL \<notin> set (gt_from gt) \<and> NUL \<notin> set (gt_to gt)"
| "key_ok _ \<longleftrightarrow> False"

text \<open>The suffix comparison that matches an address against a permitted domain.\<close>

definition dom_matches :: "string \<Rightarrow> string \<Rightarrow> bool" where
  "dom_matches part domain \<longleftrightarrow>
     length domain \<le> length part \<and> casecmp_eq (drop (length part - length domain) part) domain"

section \<open>What a scan has to achieve\<close>

type_synonym db_view = "DB_key \<rightharpoonup> DB_val"

definition val_expired :: "int \<Rightarrow> DB_val \<Rightarrow> bool" where
  "val_expired now v \<longleftrightarrow> gd_expire (val_gd v) \<le> now \<and> gd_pcount (val_gd v) > - 2"

definition val_trap :: "DB_val \<Rightarrow> bool" where
  "val_trap v \<longleftrightarrow> gd_pcount (val_gd v) = - 1"

definition val_passes :: "int \<Rightarrow> DB_val \<Rightarrow> bool" where
  "val_passes now v \<longleftrightarrow> \<not> val_expired now v \<and> gd_pcount (val_gd v) \<ge> 0 \<and> gd_pass (val_gd v) \<le> now"

text \<open>An address is trapped, on the point of being whitelisted, or has a valid whitelist entry.\<close>

definition ip_trapped :: "int \<Rightarrow> db_view \<Rightarrow> string \<Rightarrow> bool" where
  "ip_trapped now m s \<longleftrightarrow> (\<exists>v. m (KEY_IP s) = Some v \<and> val_trap v \<and> \<not> val_expired now v)"

definition ip_passes :: "int \<Rightarrow> db_view \<Rightarrow> string \<Rightarrow> bool" where
  "ip_passes now m s \<longleftrightarrow> (\<exists>t v. m (KEY_TUPLE t) = Some v \<and> gt_ip t = s \<and> val_passes now v)"

definition ip_white :: "int \<Rightarrow> db_view \<Rightarrow> string \<Rightarrow> bool" where
  "ip_white now m s \<longleftrightarrow> (\<exists>v. m (KEY_IP s) = Some v \<and> val_passes now v)"

text \<open>
  The result of a scan at time \<open>now\<close>: the addresses \<open>A\<close> it whitelists, those it traps \<open>T\<close>, and
  the entries it leaves. The order in which the driver visits the entries decides about an address
  whose trap has just expired, so the specification is a relation.
\<close>

definition white_val :: "int \<Rightarrow> int \<Rightarrow> DB_val \<Rightarrow> DB_val" where
  "white_val now white_exp v =
     \<lparr>val_type = DB_VAL_GREY, val_gd = (val_gd v)\<lparr>gd_expire := now + white_exp\<rparr>\<rparr>"

definition scan_spec :: "int \<Rightarrow> int \<Rightarrow> db_view \<Rightarrow> db_view \<Rightarrow> string set \<Rightarrow> string set \<Rightarrow> bool" where
  "scan_spec now white_exp m m' A T \<longleftrightarrow>
     T = {s. ip_trapped now m s} \<and>
     (\<forall>s\<in>A. \<not> ip_trapped now m s \<and> (ip_passes now m s \<or> ip_white now m s)) \<and>
     (\<forall>s. ip_white now m s \<longrightarrow> s \<in> A) \<and>
     (\<forall>s. ip_passes now m s \<and> (\<forall>v. m (KEY_IP s) = Some v \<longrightarrow> \<not> val_trap v) \<longrightarrow>
        s \<in> A \<and> (\<exists>t v. m (KEY_TUPLE t) = Some v \<and> gt_ip t = s \<and> val_passes now v \<and>
                   m' (KEY_IP s) = Some (white_val now white_exp v))) \<and>
     (\<forall>k v. m' k = Some v \<and> (\<exists>s. k = KEY_IP s \<or> (\<exists>t. k = KEY_TUPLE t)) \<longrightarrow> \<not> val_expired now v) \<and>
     (\<forall>s. ip_trapped now m s \<longrightarrow> m' (KEY_IP s) = m (KEY_IP s)) \<and>
     (\<forall>s. m' (KEY_IP s) = m (KEY_IP s) \<or>
        m' (KEY_IP s) = None \<and> (\<exists>v. m (KEY_IP s) = Some v \<and> val_expired now v) \<or>
        s \<in> A \<and> (\<exists>t v. m (KEY_TUPLE t) = Some v \<and> gt_ip t = s \<and> val_passes now v \<and>
                   m' (KEY_IP s) = Some (white_val now white_exp v))) \<and>
     (\<forall>s\<in>A. ip_white now m' s) \<and>
     (\<forall>t. m' (KEY_TUPLE t) = m (KEY_TUPLE t) \<or>
        (m' (KEY_TUPLE t) = None \<and> (\<exists>v. m (KEY_TUPLE t) = Some v \<and> (val_expired now v \<or> val_passes now v \<and> gt_ip t \<in> A)))) \<and>
     (\<forall>t v. m' (KEY_TUPLE t) = Some v \<and> val_passes now v \<longrightarrow> (\<exists>v'. m (KEY_IP (gt_ip t)) = Some v' \<and> val_trap v')) \<and>
     (\<forall>d. m' (KEY_MAIL d) = m (KEY_MAIL d) \<and> m' (KEY_DOM d) = m (KEY_DOM d))"

lemma scan_specD:
  assumes "scan_spec now white_exp m m' A T"
  shows "T = {s. ip_trapped now m s}"
    and "s \<in> A \<Longrightarrow> \<not> ip_trapped now m s \<and> (ip_passes now m s \<or> ip_white now m s)"
    and "ip_passes now m s \<Longrightarrow> \<forall>v. m (KEY_IP s) = Some v \<longrightarrow> \<not> val_trap v \<Longrightarrow>
      s \<in> A \<and> (\<exists>t v. m (KEY_TUPLE t) = Some v \<and> gt_ip t = s \<and> val_passes now v \<and> m' (KEY_IP s) = Some (white_val now white_exp v))"
    and "m' (KEY_IP s) = m (KEY_IP s) \<or> m' (KEY_IP s) = None \<and> (\<exists>v. m (KEY_IP s) = Some v \<and> val_expired now v) \<or>
      s \<in> A \<and> (\<exists>t v. m (KEY_TUPLE t) = Some v \<and> gt_ip t = s \<and> val_passes now v \<and> m' (KEY_IP s) = Some (white_val now white_exp v))"
    and "m' (KEY_TUPLE t) = m (KEY_TUPLE t) \<or> m' (KEY_TUPLE t) = None"
    and "m' (KEY_TUPLE t) = Some v \<Longrightarrow> val_passes now v \<Longrightarrow> \<exists>v'. m (KEY_IP (gt_ip t)) = Some v' \<and> val_trap v'"
    and "ip_trapped now m s \<Longrightarrow> m' (KEY_IP s) = m (KEY_IP s)"
    and "s \<in> A \<Longrightarrow> ip_white now m' s"
proof -
  note c = assms [unfolded scan_spec_def]
  show "T = {s. ip_trapped now m s}" using c by (elim conjE)
  show "s \<in> A \<Longrightarrow> \<not> ip_trapped now m s \<and> (ip_passes now m s \<or> ip_white now m s)" using c by (elim conjE bspec)
  show "ip_passes now m s \<Longrightarrow> \<forall>v. m (KEY_IP s) = Some v \<longrightarrow> \<not> val_trap v \<Longrightarrow>
      s \<in> A \<and> (\<exists>t v. m (KEY_TUPLE t) = Some v \<and> gt_ip t = s \<and> val_passes now v \<and> m' (KEY_IP s) = Some (white_val now white_exp v))"
    using c by (elim conjE) simp
  show "m' (KEY_IP s) = m (KEY_IP s) \<or> m' (KEY_IP s) = None \<and> (\<exists>v. m (KEY_IP s) = Some v \<and> val_expired now v) \<or>
      s \<in> A \<and> (\<exists>t v. m (KEY_TUPLE t) = Some v \<and> gt_ip t = s \<and> val_passes now v \<and> m' (KEY_IP s) = Some (white_val now white_exp v))"
    using c by (elim conjE spec)
  show "m' (KEY_TUPLE t) = m (KEY_TUPLE t) \<or> m' (KEY_TUPLE t) = None" using c by (elim conjE) metis
  show "m' (KEY_TUPLE t) = Some v \<Longrightarrow> val_passes now v \<Longrightarrow> \<exists>v'. m (KEY_IP (gt_ip t)) = Some v' \<and> val_trap v'"
    using c by (elim conjE) simp
  show "ip_trapped now m s \<Longrightarrow> m' (KEY_IP s) = m (KEY_IP s)" using c by (elim conjE) simp
  show "s \<in> A \<Longrightarrow> ip_white now m' s" using c by (elim conjE bspec)
qed

text \<open>The two whitelists and the traplist after the addresses \<open>A\<close> and \<open>Tr\<close> have been appended.\<close>

definition scan_lists :: "(string \<Rightarrow> bool) \<Rightarrow> string List_T \<times> string List_T \<times> string List_T \<Rightarrow> string list \<Rightarrow> string list
    \<Rightarrow> string List_T \<times> string List_T \<times> string List_T \<Rightarrow> bool" where
  "scan_lists v6 start A Tr ls \<longleftrightarrow>
     (case (start, ls) of ((W, W6, T), (W', W6', T')) \<Rightarrow>
        list_head W' = list_head W @ filter (\<lambda>s. \<not> v6 s) A \<and> list_head W6' = list_head W6 @ filter v6 A \<and>
        list_head T' = list_head T @ Tr \<and>
        (List_wf W \<longrightarrow> List_wf W') \<and> (List_wf W6 \<longrightarrow> List_wf W6') \<and> (List_wf T \<longrightarrow> List_wf T'))"

section \<open>Scanning entry by entry\<close>

text \<open>
  The state of a scan that began on the entries \<open>m0\<close> and has visited the keys \<open>S\<close>: the entries
  \<open>m\<close>, the whitelisted addresses \<open>A\<close> and the trapped addresses \<open>T\<close>.
\<close>

definition tuple_inv :: "int \<Rightarrow> db_view \<Rightarrow> DB_key set \<Rightarrow> db_view \<Rightarrow> string set \<Rightarrow> bool" where
  "tuple_inv now m0 S m A \<longleftrightarrow>
     (\<forall>t. m (KEY_TUPLE t) = m0 (KEY_TUPLE t) \<or>
        m (KEY_TUPLE t) = None \<and> KEY_TUPLE t \<in> S \<and>
        (\<exists>v. m0 (KEY_TUPLE t) = Some v \<and> (val_expired now v \<or> val_passes now v \<and> gt_ip t \<in> A))) \<and>
     (\<forall>t v. KEY_TUPLE t \<in> S \<and> m (KEY_TUPLE t) = Some v \<longrightarrow>
        \<not> val_expired now v \<and> (val_passes now v \<longrightarrow> (\<exists>v'. m0 (KEY_IP (gt_ip t)) = Some v' \<and> val_trap v'))) \<and>
     (\<forall>d. m (KEY_MAIL d) = m0 (KEY_MAIL d) \<and> m (KEY_DOM d) = m0 (KEY_DOM d))"

definition ip_inv :: "int \<Rightarrow> int \<Rightarrow> db_view \<Rightarrow> DB_key set \<Rightarrow> db_view \<Rightarrow> string set \<Rightarrow> bool" where
  "ip_inv now white_exp m0 S m A \<longleftrightarrow>
     (\<forall>s. ip_trapped now m0 s \<longrightarrow> m (KEY_IP s) = m0 (KEY_IP s)) \<and>
     (\<forall>s. m (KEY_IP s) = m0 (KEY_IP s) \<or>
        m (KEY_IP s) = None \<and> (\<exists>v. m0 (KEY_IP s) = Some v \<and> val_expired now v) \<or>
        s \<in> A \<and> (\<exists>t v. m0 (KEY_TUPLE t) = Some v \<and> gt_ip t = s \<and> val_passes now v \<and>
                    m (KEY_IP s) = Some (white_val now white_exp v))) \<and>
     (\<forall>s v. KEY_IP s \<in> S \<and> m (KEY_IP s) = Some v \<longrightarrow> \<not> val_expired now v)"

definition out_inv :: "int \<Rightarrow> int \<Rightarrow> db_view \<Rightarrow> DB_key set \<Rightarrow> db_view \<Rightarrow> string set \<Rightarrow> string set \<Rightarrow> bool" where
  "out_inv now white_exp m0 S m A T \<longleftrightarrow>
     T = {s. ip_trapped now m0 s \<and> KEY_IP s \<in> S} \<and>
     (\<forall>s\<in>A. \<not> ip_trapped now m0 s \<and> (ip_passes now m0 s \<or> ip_white now m0 s)) \<and>
     (\<forall>s. ip_white now m0 s \<and> KEY_IP s \<in> S \<longrightarrow> s \<in> A) \<and>
     (\<forall>t v. m0 (KEY_TUPLE t) = Some v \<and> val_passes now v \<and> KEY_TUPLE t \<in> S \<and>
        (\<forall>v'. m0 (KEY_IP (gt_ip t)) = Some v' \<longrightarrow> \<not> val_trap v') \<longrightarrow>
        gt_ip t \<in> A \<and> (\<exists>t' v'. m0 (KEY_TUPLE t') = Some v' \<and> gt_ip t' = gt_ip t \<and> val_passes now v' \<and>
           m (KEY_IP (gt_ip t)) = Some (white_val now white_exp v')))"

definition scan_inv :: "int \<Rightarrow> int \<Rightarrow> db_view \<Rightarrow> DB_key set \<Rightarrow> db_view \<Rightarrow> string set \<Rightarrow> string set \<Rightarrow> bool" where
  "scan_inv now white_exp m0 S m A T \<longleftrightarrow>
     tuple_inv now m0 S m A \<and> ip_inv now white_exp m0 S m A \<and> out_inv now white_exp m0 S m A T \<and>
     (\<forall>s\<in>A. ip_white now m s)"

lemmas scan_invs = scan_inv_def tuple_inv_def ip_inv_def out_inv_def

lemma scan_inv_start: "scan_inv now white_exp m {} m {} {}"
  by (simp add: scan_invs)

lemma ip_invD:
  assumes "ip_inv now white_exp m0 S m A"
  shows "ip_trapped now m0 s \<Longrightarrow> m (KEY_IP s) = m0 (KEY_IP s)"
    and "m (KEY_IP s) = m0 (KEY_IP s) \<or>
      m (KEY_IP s) = None \<and> (\<exists>v. m0 (KEY_IP s) = Some v \<and> val_expired now v) \<or>
      s \<in> A \<and> (\<exists>t v. m0 (KEY_TUPLE t) = Some v \<and> gt_ip t = s \<and> val_passes now v \<and>
                  m (KEY_IP s) = Some (white_val now white_exp v))"
    and "KEY_IP s \<in> S \<Longrightarrow> m (KEY_IP s) = Some v \<Longrightarrow> \<not> val_expired now v"
  using assms unfolding ip_inv_def by blast+

lemma ip_invI:
  assumes "\<And>s. ip_trapped now m0 s \<Longrightarrow> m (KEY_IP s) = m0 (KEY_IP s)"
    and "\<And>s. m (KEY_IP s) = m0 (KEY_IP s) \<or>
      m (KEY_IP s) = None \<and> (\<exists>v. m0 (KEY_IP s) = Some v \<and> val_expired now v) \<or>
      s \<in> A \<and> (\<exists>t v. m0 (KEY_TUPLE t) = Some v \<and> gt_ip t = s \<and> val_passes now v \<and>
                  m (KEY_IP s) = Some (white_val now white_exp v))"
    and "\<And>s v. KEY_IP s \<in> S \<Longrightarrow> m (KEY_IP s) = Some v \<Longrightarrow> \<not> val_expired now v"
  shows "ip_inv now white_exp m0 S m A"
  using assms unfolding ip_inv_def by blast

lemma out_invD:
  assumes "out_inv now white_exp m0 S m A T"
  shows "T = {s. ip_trapped now m0 s \<and> KEY_IP s \<in> S}"
    and "s \<in> A \<Longrightarrow> \<not> ip_trapped now m0 s \<and> (ip_passes now m0 s \<or> ip_white now m0 s)"
    and "ip_white now m0 s \<Longrightarrow> KEY_IP s \<in> S \<Longrightarrow> s \<in> A"
    and "m0 (KEY_TUPLE t) = Some v \<Longrightarrow> val_passes now v \<Longrightarrow> KEY_TUPLE t \<in> S \<Longrightarrow>
      \<forall>v'. m0 (KEY_IP (gt_ip t)) = Some v' \<longrightarrow> \<not> val_trap v' \<Longrightarrow>
      gt_ip t \<in> A \<and> (\<exists>t' v'. m0 (KEY_TUPLE t') = Some v' \<and> gt_ip t' = gt_ip t \<and> val_passes now v' \<and>
         m (KEY_IP (gt_ip t)) = Some (white_val now white_exp v'))"
  using assms unfolding out_inv_def by blast+

lemma out_invI:
  assumes "T = {s. ip_trapped now m0 s \<and> KEY_IP s \<in> S}"
    and "\<And>s. s \<in> A \<Longrightarrow> \<not> ip_trapped now m0 s \<and> (ip_passes now m0 s \<or> ip_white now m0 s)"
    and "\<And>s. ip_white now m0 s \<Longrightarrow> KEY_IP s \<in> S \<Longrightarrow> s \<in> A"
    and "\<And>t v. m0 (KEY_TUPLE t) = Some v \<Longrightarrow> val_passes now v \<Longrightarrow> KEY_TUPLE t \<in> S \<Longrightarrow>
      \<forall>v'. m0 (KEY_IP (gt_ip t)) = Some v' \<longrightarrow> \<not> val_trap v' \<Longrightarrow>
      gt_ip t \<in> A \<and> (\<exists>t' v'. m0 (KEY_TUPLE t') = Some v' \<and> gt_ip t' = gt_ip t \<and> val_passes now v' \<and>
         m (KEY_IP (gt_ip t)) = Some (white_val now white_exp v'))"
  shows "out_inv now white_exp m0 S m A T"
  using assms unfolding out_inv_def by blast

lemma white_val_simps [simp]:
  "\<not> val_trap v \<Longrightarrow> \<not> val_trap (white_val now white_exp v)"
  "val_passes now v \<Longrightarrow> \<not> val_trap (white_val now white_exp v)"
  "0 < white_exp \<Longrightarrow> \<not> val_expired now (white_val now white_exp v)"
  by (auto simp: white_val_def val_trap_def val_expired_def val_passes_def)

lemma passes_not: "val_passes now v \<Longrightarrow> \<not> val_expired now v \<and> \<not> val_trap v"
  by (auto simp: val_passes_def val_trap_def)

lemma white_val_passes: "0 < white_exp \<Longrightarrow> val_passes now v \<Longrightarrow> val_passes now (white_val now white_exp v)"
  by (auto simp: white_val_def val_passes_def val_expired_def)

lemma ip_inv_trap:
  assumes "ip_inv now white_exp m0 S m A" and "m (KEY_IP s) = Some v" and "val_trap v"
  shows "m0 (KEY_IP s) = Some v"
proof -
  have "m (KEY_IP s) \<noteq> Some (white_val now white_exp w)" if "val_passes now w" for w
    using white_val_simps(2) [OF that, of white_exp] assms(2,3) by auto
  then show ?thesis using assms(1,2) unfolding ip_inv_def by (metis option.distinct(1))
qed

text \<open>A tuple that has been visited and is neither expired nor whitelisted.\<close>

lemma scan_keep_tuple:
  assumes inv: "scan_inv now white_exp m0 S m A T" and k: "m (KEY_TUPLE t) = Some v" "\<not> val_expired now v"
    and trapped: "val_passes now v \<Longrightarrow> \<exists>v'. m (KEY_IP (gt_ip t)) = Some v' \<and> val_trap v'"
  shows "scan_inv now white_exp m0 (insert (KEY_TUPLE t) S) m A T"
proof -
  have m0: "m0 (KEY_TUPLE t) = Some v" using inv k(1) unfolding scan_inv_def tuple_inv_def by (metis option.distinct(1))
  have tr: "\<exists>v'. m0 (KEY_IP (gt_ip t)) = Some v' \<and> val_trap v'" if "val_passes now v"
    using trapped [OF that] ip_inv_trap [of now white_exp m0 S m A "gt_ip t"] inv by (auto simp: scan_inv_def)
  show ?thesis
    using inv k m0 tr unfolding scan_inv_def
    by (intro conjI) (fastforce simp: tuple_inv_def, fastforce simp: ip_inv_def, fastforce simp: out_inv_def,
        fastforce simp: ip_white_def)
qed

lemma scan_drop_tuple:
  assumes inv: "scan_inv now white_exp m0 S m A T" and k: "m (KEY_TUPLE t) = Some v" "val_expired now v"
  shows "scan_inv now white_exp m0 (insert (KEY_TUPLE t) S) (m(KEY_TUPLE t := None)) A T"
proof -
  have m0: "m0 (KEY_TUPLE t) = Some v" using inv k(1) unfolding scan_inv_def tuple_inv_def by (metis option.distinct(1))
  show ?thesis
    using inv k m0 passes_not [of now v] unfolding scan_inv_def
    by (intro conjI) (fastforce simp: tuple_inv_def, fastforce simp: ip_inv_def, fastforce simp: out_inv_def,
        fastforce simp: ip_white_def)
qed

lemma scan_drop_ip:
  assumes inv: "scan_inv now white_exp m0 S m A T" and w: "0 < white_exp"
    and k: "m (KEY_IP s) = Some v" "val_expired now v"
  shows "scan_inv now white_exp m0 (insert (KEY_IP s) S) (m(KEY_IP s := None)) A T"
proof -
  have "v \<noteq> white_val now white_exp u" for u
    using white_val_simps(3) [OF w] k(2) by blast
  then have new: "m (KEY_IP s) \<noteq> Some (white_val now white_exp u)" for u using k(1) by auto
  then have m0: "m0 (KEY_IP s) = Some v" using inv k(1) unfolding scan_inv_def ip_inv_def by (metis option.distinct(1))
  then have nt: "\<not> ip_trapped now m0 s" and nw: "\<not> ip_white now m0 s"
    using k(2) by (auto simp: ip_trapped_def ip_white_def val_passes_def)
  have out: "out_inv now white_exp m0 S m A T" using inv by (simp add: scan_inv_def)
  have "out_inv now white_exp m0 (insert (KEY_IP s) S) (m(KEY_IP s := None)) A T"
  proof (rule out_invI)
    show "T = {u. ip_trapped now m0 u \<and> KEY_IP u \<in> insert (KEY_IP s) S}" using out_invD(1) [OF out] nt by auto
    show "u \<in> A" if "ip_white now m0 u" "KEY_IP u \<in> insert (KEY_IP s) S" for u
      using out_invD(3) [OF out that(1)] that nw by auto
    show "gt_ip t \<in> A \<and> (\<exists>t' v'. m0 (KEY_TUPLE t') = Some v' \<and> gt_ip t' = gt_ip t \<and> val_passes now v' \<and>
        (m(KEY_IP s := None)) (KEY_IP (gt_ip t)) = Some (white_val now white_exp v'))"
      if "m0 (KEY_TUPLE t) = Some v1" "val_passes now v1" "KEY_TUPLE t \<in> insert (KEY_IP s) S"
        "\<forall>v'. m0 (KEY_IP (gt_ip t)) = Some v' \<longrightarrow> \<not> val_trap v'" for t v1
      using out_invD(4) [OF out that(1,2) _ that(4)] that(3) new by (cases "gt_ip t = s") auto
  qed (use out_invD(2) [OF out] in blast)
  moreover have "ip_inv now white_exp m0 (insert (KEY_IP s) S) (m(KEY_IP s := None)) A"
  proof (rule ip_invI)
    have ip: "ip_inv now white_exp m0 S m A" using inv by (simp add: scan_inv_def)
    show "(m(KEY_IP s := None)) (KEY_IP u) = m0 (KEY_IP u)" if "ip_trapped now m0 u" for u
      using ip_invD(1) [OF ip that] nt that by auto
    show "(m(KEY_IP s := None)) (KEY_IP u) = m0 (KEY_IP u) \<or>
      (m(KEY_IP s := None)) (KEY_IP u) = None \<and> (\<exists>v. m0 (KEY_IP u) = Some v \<and> val_expired now v) \<or>
      u \<in> A \<and> (\<exists>t v. m0 (KEY_TUPLE t) = Some v \<and> gt_ip t = u \<and> val_passes now v \<and>
                  (m(KEY_IP s := None)) (KEY_IP u) = Some (white_val now white_exp v))" for u
      using ip_invD(2) [OF ip, of u] m0 k(2) by (cases "u = s") simp_all
    show "\<not> val_expired now v'" if "KEY_IP u \<in> insert (KEY_IP s) S" "(m(KEY_IP s := None)) (KEY_IP u) = Some v'" for u v'
      using ip_invD(3) [OF ip, of u v'] that by (auto split: if_splits)
  qed
  moreover have "tuple_inv now m0 (insert (KEY_IP s) S) (m(KEY_IP s := None)) A"
    using inv by (simp add: scan_inv_def tuple_inv_def)
  moreover have "\<forall>u\<in>A. ip_white now (m(KEY_IP s := None)) u"
    using inv k by (auto simp: scan_inv_def ip_white_def val_passes_def)
  ultimately show ?thesis by (simp add: scan_inv_def)
qed

lemma scan_trap_ip:
  assumes inv: "scan_inv now white_exp m0 S m A T" and k: "m (KEY_IP s) = Some v" "\<not> val_expired now v" "val_trap v"
  shows "scan_inv now white_exp m0 (insert (KEY_IP s) S) m A (insert s T)"
proof -
  have m0: "m0 (KEY_IP s) = Some v"
    using ip_inv_trap [of now white_exp m0 S m A s v] inv k by (simp add: scan_inv_def)
  then have tr: "ip_trapped now m0 s" and nw: "\<not> ip_white now m0 s"
    using k(2,3) passes_not by (auto simp: ip_trapped_def ip_white_def)
  show ?thesis
    using inv k tr nw unfolding scan_inv_def
    by (intro conjI) (fastforce simp: tuple_inv_def, fastforce simp: ip_inv_def, fastforce simp: out_inv_def,
        fastforce simp: ip_white_def)
qed

lemma scan_other_ip:
  assumes inv: "scan_inv now white_exp m0 S m A T"
    and k: "m (KEY_IP s) = Some v" "\<not> val_expired now v" "\<not> val_trap v"
    and A': "val_passes now v \<Longrightarrow> s \<in> A'" "A \<subseteq> A'" "A' \<subseteq> insert s A" "s \<in> A' \<Longrightarrow> s \<in> A \<or> val_passes now v"
  shows "scan_inv now white_exp m0 (insert (KEY_IP s) S) m A' T"
proof -
  have nt: "\<not> ip_trapped now m0 s"
    using inv k by (auto simp: scan_inv_def ip_inv_def ip_trapped_def)
  have new: "s \<in> A \<or> m0 (KEY_IP s) = Some v"
    using inv k(1) unfolding scan_inv_def ip_inv_def by (metis option.distinct(1))
  then have white: "s \<in> A' \<Longrightarrow> s \<in> A \<or> ip_white now m0 s" and nw: "ip_white now m0 s \<Longrightarrow> s \<in> A'"
    using A' by (auto simp: ip_white_def)
  have "out_inv now white_exp m0 (insert (KEY_IP s) S) m A' T"
  proof (rule out_invI)
    have out: "out_inv now white_exp m0 S m A T" using inv by (simp add: scan_inv_def)
    show "T = {u. ip_trapped now m0 u \<and> KEY_IP u \<in> insert (KEY_IP s) S}" using out_invD(1) [OF out] nt by auto
    show "\<not> ip_trapped now m0 u \<and> (ip_passes now m0 u \<or> ip_white now m0 u)" if "u \<in> A'" for u
      using out_invD(2) [OF out, of u] A'(3) that white nt by auto
    show "u \<in> A'" if "ip_white now m0 u" "KEY_IP u \<in> insert (KEY_IP s) S" for u
      using out_invD(3) [OF out that(1)] that A'(2) nw by auto
    show "gt_ip t \<in> A' \<and> (\<exists>t' v'. m0 (KEY_TUPLE t') = Some v' \<and> gt_ip t' = gt_ip t \<and> val_passes now v' \<and>
        m (KEY_IP (gt_ip t)) = Some (white_val now white_exp v'))"
      if "m0 (KEY_TUPLE t) = Some v1" "val_passes now v1" "KEY_TUPLE t \<in> insert (KEY_IP s) S"
        "\<forall>v'. m0 (KEY_IP (gt_ip t)) = Some v' \<longrightarrow> \<not> val_trap v'" for t v1
      using out_invD(4) [OF out that(1,2) _ that(4)] that(3) A'(2) by auto
  qed
  moreover have "tuple_inv now m0 (insert (KEY_IP s) S) m A'"
    using inv A'(2) unfolding scan_inv_def tuple_inv_def by blast
  moreover have "ip_inv now white_exp m0 (insert (KEY_IP s) S) m A'"
  proof (rule ip_invI)
    have ip: "ip_inv now white_exp m0 S m A" using inv by (simp add: scan_inv_def)
    show "m (KEY_IP u) = m0 (KEY_IP u) \<or>
      m (KEY_IP u) = None \<and> (\<exists>v. m0 (KEY_IP u) = Some v \<and> val_expired now v) \<or>
      u \<in> A' \<and> (\<exists>t v. m0 (KEY_TUPLE t) = Some v \<and> gt_ip t = u \<and> val_passes now v \<and>
                  m (KEY_IP u) = Some (white_val now white_exp v))" for u
      using ip_invD(2) [OF ip, of u] A'(2) by blast
    show "\<not> val_expired now v'" if "KEY_IP u \<in> insert (KEY_IP s) S" "m (KEY_IP u) = Some v'" for u v'
      using ip_invD(3) [OF ip, of u v'] that k(1,2) by auto
  qed (use inv ip_invD(1) in \<open>auto simp: scan_inv_def\<close>)
  moreover have "\<forall>u\<in>A'. ip_white now m u"
    using inv A'(3,4) k(1) by (auto simp: scan_inv_def ip_white_def)
  ultimately show ?thesis by (simp add: scan_inv_def)
qed

lemma scan_pass_tuple:
  assumes inv: "scan_inv now white_exp m0 S m A T" and w: "0 < white_exp"
    and k: "m (KEY_TUPLE t) = Some v" "val_passes now v"
    and free: "\<forall>v'. m (KEY_IP (gt_ip t)) = Some v' \<longrightarrow> \<not> val_trap v'"
  shows "scan_inv now white_exp m0 (insert (KEY_TUPLE t) S)
    (m(KEY_IP (gt_ip t) \<mapsto> white_val now white_exp v, KEY_TUPLE t := None)) (insert (gt_ip t) A) T"
    (is "scan_inv _ _ _ ?S ?m ?A _")
proof -
  have m0: "m0 (KEY_TUPLE t) = Some v" using inv k(1) unfolding scan_inv_def tuple_inv_def by (metis option.distinct(1))
  have nt: "\<not> ip_trapped now m0 (gt_ip t)"
    using inv free unfolding scan_inv_def ip_inv_def ip_trapped_def by metis
  have ps: "ip_passes now m0 (gt_ip t)" using m0 k(2) by (auto simp: ip_passes_def)
  note E = passes_not [OF k(2)]
  have "tuple_inv now m0 ?S ?m ?A"
  proof -
    have tup: "tuple_inv now m0 S m A" using inv by (simp add: scan_inv_def)
    have "?m (KEY_TUPLE u) = m0 (KEY_TUPLE u) \<or> ?m (KEY_TUPLE u) = None \<and> KEY_TUPLE u \<in> ?S \<and>
        (\<exists>v. m0 (KEY_TUPLE u) = Some v \<and> (val_expired now v \<or> val_passes now v \<and> gt_ip u \<in> ?A))" for u
      using tup m0 k(2) by (cases "u = t") (auto simp: tuple_inv_def)
    moreover have "\<forall>u v'. KEY_TUPLE u \<in> ?S \<and> ?m (KEY_TUPLE u) = Some v' \<longrightarrow>
        \<not> val_expired now v' \<and> (val_passes now v' \<longrightarrow> (\<exists>w. m0 (KEY_IP (gt_ip u)) = Some w \<and> val_trap w))"
      using tup unfolding tuple_inv_def by auto
    moreover have "\<forall>d. ?m (KEY_MAIL d) = m0 (KEY_MAIL d) \<and> ?m (KEY_DOM d) = m0 (KEY_DOM d)"
      using tup by (auto simp: tuple_inv_def)
    ultimately show ?thesis unfolding tuple_inv_def by blast
  qed
  moreover have "ip_inv now white_exp m0 ?S ?m ?A"
  proof -
    have "\<forall>s. ip_trapped now m0 s \<longrightarrow> ?m (KEY_IP s) = m0 (KEY_IP s)"
      using inv nt by (auto simp: scan_inv_def ip_inv_def)
    moreover have "?m (KEY_IP s) = m0 (KEY_IP s) \<or>
        ?m (KEY_IP s) = None \<and> (\<exists>v. m0 (KEY_IP s) = Some v \<and> val_expired now v) \<or>
        s \<in> ?A \<and> (\<exists>t v. m0 (KEY_TUPLE t) = Some v \<and> gt_ip t = s \<and> val_passes now v \<and>
                    ?m (KEY_IP s) = Some (white_val now white_exp v))" for s
      using inv m0 k(2) by (cases "s = gt_ip t") (auto simp: scan_inv_def ip_inv_def)
    moreover have "\<forall>s v'. KEY_IP s \<in> ?S \<and> ?m (KEY_IP s) = Some v' \<longrightarrow> \<not> val_expired now v'"
      using inv white_val_simps(3) [OF w] by (auto simp: scan_inv_def ip_inv_def)
    ultimately show ?thesis unfolding ip_inv_def by blast
  qed
  moreover have "out_inv now white_exp m0 ?S ?m ?A T"
  proof -
    have "gt_ip u \<in> ?A \<and> (\<exists>t' v'. m0 (KEY_TUPLE t') = Some v' \<and> gt_ip t' = gt_ip u \<and> val_passes now v' \<and>
           ?m (KEY_IP (gt_ip u)) = Some (white_val now white_exp v'))"
      if "m0 (KEY_TUPLE u) = Some v1 \<and> val_passes now v1 \<and> KEY_TUPLE u \<in> ?S \<and>
        (\<forall>v'. m0 (KEY_IP (gt_ip u)) = Some v' \<longrightarrow> \<not> val_trap v')" for u v1
      using inv m0 k(2) that by (cases "gt_ip u = gt_ip t") (auto simp: scan_inv_def out_inv_def)
    then show ?thesis
      using inv nt ps unfolding scan_inv_def out_inv_def by (intro conjI) blast+
  qed
  moreover have "\<forall>s\<in>?A. ip_white now ?m s"
    using inv white_val_passes [OF w k(2)] by (auto simp: scan_inv_def ip_white_def)
  ultimately show ?thesis by (simp add: scan_inv_def)
qed

lemma scan_done:
  assumes inv: "scan_inv now white_exp m0 S m A T" and w: "0 < white_exp"
    and all: "\<forall>s. m0 (KEY_IP s) \<noteq> None \<and> m (KEY_IP s) \<noteq> None \<longrightarrow> KEY_IP s \<in> S"
      "\<forall>t. m0 (KEY_TUPLE t) \<noteq> None \<and> m (KEY_TUPLE t) \<noteq> None \<longrightarrow> KEY_TUPLE t \<in> S"
  shows "scan_spec now white_exp m0 m A T"
proof -
  have seen_t: "KEY_TUPLE t \<in> S" if "m0 (KEY_TUPLE t) \<noteq> None" for t
    using inv all(2) that unfolding scan_inv_def tuple_inv_def by metis
  have T: "T = {s. ip_trapped now m0 s}"
  proof -
    have "KEY_IP s \<in> S" if "ip_trapped now m0 s" for s
      using inv all(1) that unfolding scan_inv_def ip_inv_def ip_trapped_def by (metis option.distinct(1))
    then show ?thesis using inv out_invD(1) [of now white_exp m0 S m A T] by (auto simp: scan_inv_def)
  qed
  have white: "s \<in> A" if "ip_white now m0 s" for s
  proof -
    from that obtain v where v: "m0 (KEY_IP s) = Some v" "val_passes now v" by (auto simp: ip_white_def)
    then have "m (KEY_IP s) = m0 (KEY_IP s) \<or> s \<in> A"
      using inv passes_not [OF v(2)] unfolding scan_inv_def ip_inv_def by (metis option.inject)
    then show ?thesis using inv all(1) that v(1) unfolding scan_inv_def out_inv_def by force
  qed
  have passes: "s \<in> A \<and> (\<exists>t v. m0 (KEY_TUPLE t) = Some v \<and> gt_ip t = s \<and> val_passes now v \<and>
      m (KEY_IP s) = Some (white_val now white_exp v))"
    if "ip_passes now m0 s" "\<forall>v. m0 (KEY_IP s) = Some v \<longrightarrow> \<not> val_trap v" for s
    using inv that seen_t unfolding scan_inv_def out_inv_def ip_passes_def by fastforce
  have old_ip: "\<not> val_expired now v" if "m (KEY_IP s) = Some v" for s v
    using inv all(1) white_val_simps(3) [OF w] that unfolding scan_inv_def ip_inv_def
    by (metis option.distinct(1) option.inject)
  have old_t: "\<not> val_expired now v \<and> (val_passes now v \<longrightarrow> (\<exists>v'. m0 (KEY_IP (gt_ip t)) = Some v' \<and> val_trap v'))"
    if "m (KEY_TUPLE t) = Some v" for t v
    using inv all(2) that unfolding scan_inv_def tuple_inv_def by (metis option.distinct(1))
  have out: "out_inv now white_exp m0 S m A T" and ip: "ip_inv now white_exp m0 S m A" and tup: "tuple_inv now m0 S m A"
    using inv by (simp_all add: scan_inv_def)
  have left: "m (KEY_IP s) = m0 (KEY_IP s) \<or>
      m (KEY_IP s) = None \<and> (\<exists>v. m0 (KEY_IP s) = Some v \<and> val_expired now v) \<or>
      s \<in> A \<and> (\<exists>t v. m0 (KEY_TUPLE t) = Some v \<and> gt_ip t = s \<and> val_passes now v \<and>
                 m (KEY_IP s) = Some (white_val now white_exp v))" for s
    by (rule ip_invD(2) [OF ip, of s])
  have listed: "ip_white now m s" if "s \<in> A" for s using inv that by (simp add: scan_inv_def)
  show ?thesis
    unfolding scan_spec_def
  proof (intro conjI allI ballI impI)
    show "\<not> val_expired now v" if "m k = Some v \<and> (\<exists>s. k = KEY_IP s \<or> (\<exists>t. k = KEY_TUPLE t))" for k v
      using that old_ip old_t by blast
    show "m (KEY_IP s) = m0 (KEY_IP s)" if "ip_trapped now m0 s" for s
      using ip_invD(1) [OF ip that] .
    show "\<exists>v'. m0 (KEY_IP (gt_ip t)) = Some v' \<and> val_trap v'" if "m (KEY_TUPLE t) = Some v \<and> val_passes now v" for t v
      using old_t that by blast
  qed (use T white passes left listed out_invD(2) [OF out] tup in \<open>auto simp: tuple_inv_def\<close>)
qed

section \<open>The contract of a driver\<close>

text \<open>The keys of addresses and tuples, which the greylister itself writes.\<close>

fun entry_key :: "DB_key \<Rightarrow> bool" where
  "entry_key (KEY_IP s) = True"
| "entry_key (KEY_TUPLE gt) = True"
| "entry_key _ = False"

text \<open>
  \<open>inv\<close> holds of a handle, \<open>ready\<close> of one that has been opened. \<open>view\<close> is what a lookup
  through the handle sees, \<open>saved\<close> what an open transaction returns to when it is aborted. \<open>v6\<close>
  tells the addresses of the IPv6 whitelist. \<open>ok\<close> holds of the keys the driver can tell apart, and
  \<open>scannable\<close> of the entries for which its scan does what the specification says.
\<close>

locale greydb =
  fixes D :: "'h DB_handle_T" and inv :: "'h \<Rightarrow> bool" and ready :: "'h \<Rightarrow> bool" and view :: "'h \<Rightarrow> db_view"
    and saved :: "'h \<Rightarrow> db_view option" and v6 :: "string \<Rightarrow> bool" and ok :: "DB_key \<Rightarrow> bool"
    and scannable :: "int \<Rightarrow> db_view \<Rightarrow> bool"
  assumes ready_inv: "ready h \<Longrightarrow> inv h"
    and ok_key: "ok k \<Longrightarrow> key_ok k"
    and ok_tuple: "ok (KEY_TUPLE gt) \<Longrightarrow> ok (KEY_IP (gt_ip gt)) \<and> ok (KEY_MAIL (gt_to gt))"
    and view_ok: "ready h \<Longrightarrow> view h k = Some v \<Longrightarrow> ok k \<and> val_type v = DB_VAL_GREY"
    and scannable_tuple: "scannable now m \<Longrightarrow> - 1 \<le> gd_pcount (val_gd v) \<Longrightarrow> m (KEY_IP (gt_ip gt)) = None \<Longrightarrow>
      scannable now (m(KEY_TUPLE gt \<mapsto> v))"
    and open_law: "DB_open D h f = Some h' \<Longrightarrow> inv h \<Longrightarrow> ready h' \<and> view h' = view h \<and> saved h' = saved h"
    and start_law: "DB_start_txn D h = Some (r, h') \<Longrightarrow> ready h \<Longrightarrow> saved h = None \<Longrightarrow>
      ready h' \<and> view h' = view h \<and> saved h' = Some (view h)"
    and commit_law: "DB_commit_txn D h = Some (r, h') \<Longrightarrow> ready h \<Longrightarrow> saved h = Some m \<Longrightarrow>
      ready h' \<and> view h' = view h \<and> saved h' = None"
    and rollback_law: "DB_rollback_txn D h = Some (r, h') \<Longrightarrow> ready h \<Longrightarrow>
      ready h' \<and> view h' = (case saved h of None \<Rightarrow> view h | Some m \<Rightarrow> m) \<and> saved h' = None"
    and get_law: "DB_get D h k = Some (r, vo) \<Longrightarrow> ready h \<Longrightarrow> ok k \<Longrightarrow>
      r = GREYDB_FOUND \<and> vo = view h k \<and> vo \<noteq> None \<or> r = GREYDB_NOT_FOUND \<and> view h k = None \<or> r = GREYDB_ERR"
    and get_part_law: "DB_get D h (KEY_DOM_PART s) = Some (r, vo) \<Longrightarrow> ready h \<Longrightarrow>
      r = GREYDB_FOUND \<and> (\<exists>d. view h (KEY_DOM d) \<noteq> None \<and> dom_matches s d) \<or>
      r = GREYDB_NOT_FOUND \<and> (\<forall>d. view h (KEY_DOM d) \<noteq> None \<longrightarrow> \<not> dom_matches s d) \<or> r = GREYDB_ERR"
    and put_law: "DB_put D h k v = Some (r, h') \<Longrightarrow> ready h \<Longrightarrow> ok k \<Longrightarrow> entry_key k \<Longrightarrow> val_type v = DB_VAL_GREY \<Longrightarrow>
      ready h' \<and> saved h' = saved h \<and>
      (r = GREYDB_OK \<and> view h' = (view h)(k \<mapsto> v) \<or> r = GREYDB_ERR \<and> view h' = view h)"
    and del_law: "DB_del D h k = Some (r, h') \<Longrightarrow> ready h \<Longrightarrow> ok k \<Longrightarrow>
      ready h' \<and> saved h' = saved h \<and>
      (r = GREYDB_OK \<and> view h' = (view h)(k := None) \<or>
       r = GREYDB_NOT_FOUND \<and> view h k = None \<and> view h' = view h \<or> r = GREYDB_ERR \<and> view h' = view h)"
    and scan_law: "DB_scan D h now W W6 T wexp = Some (r, h', W', W6', T') \<Longrightarrow> ready h \<Longrightarrow> 0 < wexp \<Longrightarrow> scannable now (view h) \<Longrightarrow>
      ready h' \<and> saved h' = saved h \<and>
      (r = GREYDB_OK \<longrightarrow> (\<exists>A Tr. scan_lists v6 (W, W6, T) A Tr (W', W6', T') \<and>
         scan_spec now wexp (view h) (view h') (set A) (set Tr)))"

text \<open>A driver that works: no operation fails or ends the process.\<close>

locale greydb_live = greydb +
  assumes open_live: "inv h \<Longrightarrow> DB_open D h f \<noteq> None"
    and start_live: "ready h \<Longrightarrow> saved h = None \<Longrightarrow> DB_start_txn D h \<noteq> None"
    and commit_live: "ready h \<Longrightarrow> saved h = Some m \<Longrightarrow> DB_commit_txn D h \<noteq> None"
    and get_live: "ready h \<Longrightarrow> ok k \<or> k = KEY_DOM_PART s \<Longrightarrow> \<exists>r vo. DB_get D h k = Some (r, vo) \<and> r \<noteq> GREYDB_ERR"
    and put_live: "ready h \<Longrightarrow> ok k \<Longrightarrow> entry_key k \<Longrightarrow> val_type v = DB_VAL_GREY \<Longrightarrow> \<exists>h'. DB_put D h k v = Some (GREYDB_OK, h')"
    and del_live: "ready h \<Longrightarrow> ok k \<Longrightarrow> \<exists>r h'. DB_del D h k = Some (r, h') \<and> r \<noteq> GREYDB_ERR"
    and scan_live: "ready h \<Longrightarrow> 0 < wexp \<Longrightarrow> scannable now (view h) \<Longrightarrow>
      \<exists>h' W' W6' T'. DB_scan D h now W W6 T wexp = Some (GREYDB_OK, h', W', W6', T')"

text \<open>A driver that also stores the spam traps and domains that an administrator adds, with their values.\<close>

locale greydb_admin = greydb_live +
  assumes put_any_law: "DB_put D h k v = Some (r, h') \<Longrightarrow> ready h \<Longrightarrow> ok k \<Longrightarrow> val_type v = DB_VAL_GREY \<Longrightarrow>
      ready h' \<and> saved h' = saved h \<and>
      (r = GREYDB_OK \<and> view h' = (view h)(k \<mapsto> v) \<or> r = GREYDB_ERR \<and> view h' = view h)"
    and put_any_live: "ready h \<Longrightarrow> ok k \<Longrightarrow> val_type v = DB_VAL_GREY \<Longrightarrow> \<exists>h'. DB_put D h k v = Some (GREYDB_OK, h')"

end
