(* ===== verification/Bdb.thy ===== *)
theory Bdb
  imports Greydb
begin

text \<open>
  Models \<open>src/drivers/bdb.c\<close>, the Berkeley DB driver: the packing of keys, the transaction, lookup
  and update functions, iterators and the scan that expires, traps and whitelists addresses.

  The Berkeley DB library itself is a parameter \<open>L\<close>: a record of the calls the driver makes, over
  a type \<open>'e\<close> of environments and a type \<open>'c\<close> of cursors. What the driver relies on are the laws
  of the locale \<open>bdb_library\<close>. A stored value is the byte image of a \<open>DB_val\<close>, made and read
  by \<open>memcpy\<close>, and is represented by that value. \<open>i_error\<close> and \<open>i_critical\<close> end the
  process, so that every failed library call of the driver has the result \<open>None\<close>.
\<close>

section \<open>The library and the handle\<close>

datatype bdb_file = File_db | File_spamtraps | File_domains

text \<open>
  The calls return the library's code, 0 for success. A cursor read yields the code, key and value
  bytes and the moved cursor. The flag of an update or lookup says whether it runs inside the
  transaction of the handle.
\<close>

record ('e, 'c) bdb_lib =
  lib_notfound :: int
  lib_open :: "'e \<Rightarrow> int \<Rightarrow> int \<times> 'e"
  lib_txn_begin :: "'e \<Rightarrow> int \<times> 'e"
  lib_txn_commit :: "'e \<Rightarrow> int \<times> 'e"
  lib_txn_abort :: "'e \<Rightarrow> int \<times> 'e"
  lib_put :: "bdb_file \<Rightarrow> bool \<Rightarrow> char list \<Rightarrow> DB_val \<Rightarrow> 'e \<Rightarrow> int \<times> 'e"
  lib_get :: "bdb_file \<Rightarrow> bool \<Rightarrow> char list \<Rightarrow> 'e \<Rightarrow> int \<times> DB_val"
  lib_del :: "bdb_file \<Rightarrow> bool \<Rightarrow> char list \<Rightarrow> 'e \<Rightarrow> int \<times> 'e"
  lib_cursor :: "bdb_file \<Rightarrow> bool \<Rightarrow> 'e \<Rightarrow> int \<times> 'c"
  lib_c_next :: "'c \<Rightarrow> 'e \<Rightarrow> int \<times> char list \<times> DB_val \<times> 'c"
  lib_c_put :: "'c \<Rightarrow> DB_val \<Rightarrow> 'e \<Rightarrow> int \<times> 'e"
  lib_c_del :: "'c \<Rightarrow> 'e \<Rightarrow> int \<times> 'e"

record 'e bdb_handle =
  bh_env :: 'e
  bh_open :: bool
  bh_txn :: bool

record 'c bdb_cursor =
  bc_curr :: "'c list"
  itr_current :: int

section \<open>Packing of keys\<close>

text \<open>A \<open>short\<close> in the byte order of the machine, least significant byte first.\<close>

definition short_bytes :: "int \<Rightarrow> char list" where
  "short_bytes t = [to_char t, to_char (t div 256)]"

definition bytes_short :: "char \<Rightarrow> char \<Rightarrow> int" where
  "bytes_short a b = char_code a + 256 * schar_code b"

definition DB_KEY_IP :: int where "DB_KEY_IP = 1"
definition DB_KEY_MAIL :: int where "DB_KEY_MAIL = 2"
definition DB_KEY_TUPLE :: int where "DB_KEY_TUPLE = 3"
definition DB_KEY_DOM :: int where "DB_KEY_DOM = 4"
definition DB_KEY_DOM_PART :: int where "DB_KEY_DOM_PART = 5"

lemmas key_types = DB_KEY_IP_def DB_KEY_MAIL_def DB_KEY_TUPLE_def DB_KEY_DOM_def DB_KEY_DOM_PART_def

text \<open>A partial domain leaves the zeroed buffer of its length; a zeroed key holds a NULL string.\<close>

fun pack_key :: "DB_key \<Rightarrow> char list option" where
  "pack_key (KEY_IP s) = Some (short_bytes DB_KEY_IP @ s @ [NUL])"
| "pack_key (KEY_MAIL s) = Some (short_bytes DB_KEY_MAIL @ s @ [NUL])"
| "pack_key (KEY_DOM s) = Some (short_bytes DB_KEY_DOM @ s @ [NUL])"
| "pack_key (KEY_TUPLE gt) =
     Some (short_bytes DB_KEY_TUPLE @ gt_ip gt @ [NUL] @ gt_helo gt @ [NUL] @ gt_from gt @ [NUL] @ gt_to gt @ [NUL])"
| "pack_key (KEY_DOM_PART s) = Some (short_bytes DB_KEY_DOM_PART @ replicate (length s + 1) NUL)"
| "pack_key (KEY_OTHER t) = None"

text \<open>The string at the start of a buffer and what follows its terminator; \<open>None\<close> without one.\<close>

definition buf_str :: "char list \<Rightarrow> (string \<times> char list) option" where
  "buf_str buf = (if NUL \<in> set buf then Some (c_str buf, drop (length (c_str buf) + 1) buf) else None)"

definition unpack_key :: "char list \<Rightarrow> DB_key option" where
  "unpack_key buf =
     (case buf of
        a # b # s \<Rightarrow>
          (let t = bytes_short a b in
           if t = DB_KEY_IP then map_option (KEY_IP \<circ> fst) (buf_str s)
           else if t = DB_KEY_MAIL then map_option (KEY_MAIL \<circ> fst) (buf_str s)
           else if t = DB_KEY_DOM then map_option (KEY_DOM \<circ> fst) (buf_str s)
           else if t = DB_KEY_TUPLE
           then do { (ip, s1) \<leftarrow> buf_str s; (helo, s2) \<leftarrow> buf_str s1; (from, s3) \<leftarrow> buf_str s2; (to, s4) \<leftarrow> buf_str s3;
                     Some (KEY_TUPLE \<lparr>gt_ip = ip, gt_helo = helo, gt_from = from, gt_to = to\<rparr>) }
           else Some (KEY_OTHER t))
      | _ \<Rightarrow> None)"

fun key_file :: "DB_key \<Rightarrow> bdb_file" where
  "key_file (KEY_MAIL s) = File_spamtraps"
| "key_file (KEY_DOM s) = File_domains"
| "key_file _ = File_db"

section \<open>Transactions\<close>

definition Mod_db_open :: "('e, 'c) bdb_lib \<Rightarrow> 'e bdb_handle \<Rightarrow> int \<Rightarrow> 'e bdb_handle option" where
  "Mod_db_open L bh flags =
     (if bh_open bh then Some bh
      else (let (ret, env) = lib_open L (bh_env bh) flags
            in if ret \<noteq> 0 then None else Some (bh\<lparr>bh_env := env, bh_open := True\<rparr>)))"

definition Mod_db_start_txn :: "('e, 'c) bdb_lib \<Rightarrow> 'e bdb_handle \<Rightarrow> (int \<times> 'e bdb_handle) option" where
  "Mod_db_start_txn L bh =
     (if bh_txn bh then Some (- 1, bh)
      else (let (ret, env) = lib_txn_begin L (bh_env bh)
            in if ret \<noteq> 0 then None else Some (ret, bh\<lparr>bh_env := env, bh_txn := True\<rparr>)))"

definition Mod_db_commit_txn :: "('e, 'c) bdb_lib \<Rightarrow> 'e bdb_handle \<Rightarrow> (int \<times> 'e bdb_handle) option" where
  "Mod_db_commit_txn L bh =
     (if \<not> bh_txn bh then Some (- 1, bh)
      else (let (ret, env) = lib_txn_commit L (bh_env bh)
            in if ret \<noteq> 0 then None else Some (ret, bh\<lparr>bh_env := env, bh_txn := False\<rparr>)))"

definition Mod_db_rollback_txn :: "('e, 'c) bdb_lib \<Rightarrow> 'e bdb_handle \<Rightarrow> (int \<times> 'e bdb_handle) option" where
  "Mod_db_rollback_txn L bh =
     (if \<not> bh_txn bh then Some (- 1, bh)
      else (let (ret, env) = lib_txn_abort L (bh_env bh) in Some (ret, bh\<lparr>bh_env := env, bh_txn := False\<rparr>)))"

section \<open>Iterators\<close>

definition open_cursor :: "('e, 'c) bdb_lib \<Rightarrow> 'e bdb_handle \<Rightarrow> bdb_file \<Rightarrow> 'c option" where
  "open_cursor L bh f =
     (if \<not> bh_open bh then None
      else (let (ret, c) = lib_cursor L f (bh_txn bh) (bh_env bh) in if ret \<noteq> 0 then None else Some c))"

definition Mod_db_get_itr :: "('e, 'c) bdb_lib \<Rightarrow> 'e bdb_handle \<Rightarrow> int \<Rightarrow> 'c bdb_cursor option" where
  "Mod_db_get_itr L bh types =
     do { c1 \<leftarrow> (if types AND DB_ENTRIES \<noteq> 0 then map_option (\<lambda>c. [c]) (open_cursor L bh File_db) else Some []);
          c2 \<leftarrow> (if types AND DB_SPAMTRAPS \<noteq> 0 then map_option (\<lambda>c. [c]) (open_cursor L bh File_spamtraps) else Some []);
          c3 \<leftarrow> (if types AND DB_DOMAINS \<noteq> 0 then map_option (\<lambda>c. [c]) (open_cursor L bh File_domains) else Some []);
          Some \<lparr>bc_curr = c1 @ c2 @ c3, itr_current = - 1\<rparr> }"

fun itr_next_loop :: "('e, 'c) bdb_lib \<Rightarrow> 'e \<Rightarrow> 'c list \<Rightarrow> int \<Rightarrow> (int \<times> (DB_key \<times> DB_val) option \<times> 'c bdb_cursor) option" where
  "itr_next_loop L env [] cur = Some (GREYDB_NOT_FOUND, None, \<lparr>bc_curr = [], itr_current = cur\<rparr>)"
| "itr_next_loop L env (c # cs) cur =
     (let (ret, dbkey, dbval, c') = lib_c_next L c env in
      if ret = 0
      then do { key \<leftarrow> unpack_key dbkey;
                Some (GREYDB_FOUND, Some (key, dbval), \<lparr>bc_curr = c' # cs, itr_current = cur + 1\<rparr>) }
      else if ret = lib_notfound L then itr_next_loop L env cs cur
      else None)"

definition Mod_db_itr_next :: "('e, 'c) bdb_lib \<Rightarrow> 'e bdb_handle \<Rightarrow> 'c bdb_cursor
    \<Rightarrow> (int \<times> (DB_key \<times> DB_val) option \<times> 'c bdb_cursor) option" where
  "Mod_db_itr_next L bh itr = itr_next_loop L (bh_env bh) (bc_curr itr) (itr_current itr)"

definition Mod_db_itr_replace_curr :: "('e, 'c) bdb_lib \<Rightarrow> 'e bdb_handle \<Rightarrow> 'c bdb_cursor \<Rightarrow> DB_val
    \<Rightarrow> (int \<times> 'e bdb_handle) option" where
  "Mod_db_itr_replace_curr L bh itr val =
     (case bc_curr itr of
        [] \<Rightarrow> None
      | c # cs \<Rightarrow> (let (ret, env) = lib_c_put L c val (bh_env bh)
                   in if ret \<noteq> 0 then None else Some (GREYDB_OK, bh\<lparr>bh_env := env\<rparr>)))"

definition Mod_db_itr_del_curr :: "('e, 'c) bdb_lib \<Rightarrow> 'e bdb_handle \<Rightarrow> 'c bdb_cursor \<Rightarrow> (int \<times> 'e bdb_handle) option" where
  "Mod_db_itr_del_curr L bh itr =
     (case bc_curr itr of
        [] \<Rightarrow> None
      | c # cs \<Rightarrow> (let (ret, env) = lib_c_del L c (bh_env bh)
                   in if ret \<noteq> 0 then None else Some (GREYDB_OK, bh\<lparr>bh_env := env\<rparr>)))"

text \<open>The member \<open>data.s\<close> of a key, which shares its storage with the address of a tuple.\<close>

fun key_s :: "DB_key \<Rightarrow> string option" where
  "key_s (KEY_TUPLE gt) = Some (gt_ip gt)"
| "key_s (KEY_OTHER t) = None"
| "key_s (KEY_IP s) = Some s"
| "key_s (KEY_MAIL s) = Some s"
| "key_s (KEY_DOM s) = Some s"
| "key_s (KEY_DOM_PART s) = Some s"

partial_function (option) partial_dom_loop :: "('e, 'c) bdb_lib \<Rightarrow> 'e bdb_handle \<Rightarrow> string \<Rightarrow> 'c bdb_cursor \<Rightarrow> bool \<Rightarrow> bool option" where
  "partial_dom_loop L bh part itr match =
     do { (ret, kv, itr') \<leftarrow> Mod_db_itr_next L bh itr;
          if ret \<noteq> GREYDB_NOT_FOUND
          then do { (key, val) \<leftarrow> kv;
                    domain \<leftarrow> key_s key;
                    partial_dom_loop L bh part itr' (dom_matches part domain \<or> match) }
          else Some match }"

definition check_partial_dom :: "('e, 'c) bdb_lib \<Rightarrow> 'e bdb_handle \<Rightarrow> string \<Rightarrow> int option" where
  "check_partial_dom L bh part =
     do { itr \<leftarrow> Mod_db_get_itr L bh DB_DOMAINS;
          match \<leftarrow> partial_dom_loop L bh part itr False;
          Some (if match then GREYDB_FOUND else GREYDB_NOT_FOUND) }"

section \<open>Lookup and update\<close>

definition Mod_db_put :: "('e, 'c) bdb_lib \<Rightarrow> 'e bdb_handle \<Rightarrow> DB_key \<Rightarrow> DB_val \<Rightarrow> (int \<times> 'e bdb_handle) option" where
  "Mod_db_put L bh key val =
     do { dbkey \<leftarrow> pack_key key;
          if \<not> bh_open bh then None
          else (let (ret, env) = lib_put L (key_file key) (bh_txn bh) dbkey val (bh_env bh)
                in if ret \<noteq> 0 then None else Some (GREYDB_OK, bh\<lparr>bh_env := env\<rparr>)) }"

definition Mod_db_get :: "('e, 'c) bdb_lib \<Rightarrow> 'e bdb_handle \<Rightarrow> DB_key \<Rightarrow> (int \<times> DB_val option) option" where
  "Mod_db_get L bh key =
     (case key of
        KEY_DOM_PART s \<Rightarrow> map_option (\<lambda>ret. (ret, None)) (check_partial_dom L bh s)
      | _ \<Rightarrow> do { dbkey \<leftarrow> pack_key key;
                 if \<not> bh_open bh then None
                 else (let (ret, val) = lib_get L (key_file key) (bh_txn bh) dbkey (bh_env bh)
                       in if ret = 0 then Some (GREYDB_FOUND, Some val)
                          else if ret = lib_notfound L then Some (GREYDB_NOT_FOUND, None)
                          else None) })"

definition Mod_db_del :: "('e, 'c) bdb_lib \<Rightarrow> 'e bdb_handle \<Rightarrow> DB_key \<Rightarrow> (int \<times> 'e bdb_handle) option" where
  "Mod_db_del L bh key =
     do { dbkey \<leftarrow> pack_key key;
          if \<not> bh_open bh then None
          else (let (ret, env) = lib_del L (key_file key) (bh_txn bh) dbkey (bh_env bh)
                in if ret = 0 then Some (GREYDB_OK, bh\<lparr>bh_env := env\<rparr>)
                   else if ret = lib_notfound L then Some (GREYDB_NOT_FOUND, bh\<lparr>bh_env := env\<rparr>)
                   else None) }"

section \<open>The scan\<close>

type_synonym 'e scan_state = "'e bdb_handle \<times> string List_T \<times> string List_T \<times> string List_T"

definition add_white :: "(string \<Rightarrow> int) \<Rightarrow> string \<Rightarrow> 'e scan_state \<Rightarrow> 'e scan_state" where
  "add_white check s = (\<lambda>(bh, W, W6, T).
     if check s = uint AF_INET6 then (bh, W, List_insert_after W6 s, T) else (bh, List_insert_after W s, W6, T))"

text \<open>
  The body of the scan's loop for one entry. The first component of the result is the code with which
  the loop is left, if it is left. \<open>check\<close> is \<open>IP_check_addr\<close>.
\<close>

definition scan_entry :: "('e, 'c) bdb_lib \<Rightarrow> (string \<Rightarrow> int) \<Rightarrow> int \<Rightarrow> int \<Rightarrow> 'c bdb_cursor \<Rightarrow> DB_key \<Rightarrow> DB_val
    \<Rightarrow> 'e scan_state \<Rightarrow> (int option \<times> 'e scan_state) option" where
  "scan_entry L check now white_exp itr key val st =
     (let (bh, W, W6, T) = st; gd = val_gd val in
      if val_type val \<noteq> DB_VAL_GREY then Some (None, st)
      else if gd_expire gd \<le> now \<and> gd_pcount gd > - 2
      then do { (ret, bh1) \<leftarrow> Mod_db_itr_del_curr L bh itr;
                Some (if ret \<noteq> GREYDB_OK then Some GREYDB_ERR else None, (bh1, W, W6, T)) }
      else if gd_pcount gd = - 1
      then (case key of KEY_IP s \<Rightarrow> Some (None, (bh, W, W6, List_insert_after T s)) | _ \<Rightarrow> Some (None, st))
      else if gd_pcount gd \<ge> 0 \<and> gd_pass gd \<le> now
      then (case key of
              KEY_TUPLE gt \<Rightarrow>
                do { state \<leftarrow> DB_addr_state (Mod_db_get L bh) (gt_ip gt);
                     if state = 1 then Some (None, st)
                     else if state = - 1 then Some (Some GREYDB_ERR, st)
                     else (let (bh', W', W6', T') = add_white check (gt_ip gt) st;
                               wval = \<lparr>val_type = DB_VAL_GREY, val_gd = gd\<lparr>gd_expire := now + white_exp\<rparr>\<rparr>
                           in do { (ret, bh1) \<leftarrow> Mod_db_put L bh' (KEY_IP (gt_ip gt)) wval;
                                   if ret \<noteq> GREYDB_OK then Some (Some GREYDB_ERR, (bh1, W', W6', T'))
                                   else do { (ret2, bh2) \<leftarrow> Mod_db_itr_del_curr L bh1 itr;
                                             Some (if ret2 \<noteq> GREYDB_OK then Some GREYDB_ERR else None, (bh2, W', W6', T')) } }) }
            | KEY_IP s \<Rightarrow> Some (None, add_white check s st)
            | _ \<Rightarrow> Some (None, st))
      else Some (None, st))"

partial_function (option) scan_loop :: "('e, 'c) bdb_lib \<Rightarrow> (string \<Rightarrow> int) \<Rightarrow> int \<Rightarrow> int \<Rightarrow> 'c bdb_cursor
    \<Rightarrow> 'e scan_state \<Rightarrow> (int \<times> 'e scan_state) option" where
  "scan_loop L check now white_exp itr st =
     do { (ret, kv, itr') \<leftarrow> Mod_db_itr_next L (fst st) itr;
          if ret = GREYDB_FOUND
          then do { (key, val) \<leftarrow> kv;
                    (stop, st') \<leftarrow> scan_entry L check now white_exp itr' key val st;
                    case stop of Some r \<Rightarrow> Some (r, st') | None \<Rightarrow> scan_loop L check now white_exp itr' st' }
          else Some (GREYDB_OK, st) }"

definition Mod_scan_db :: "('e, 'c) bdb_lib \<Rightarrow> (string \<Rightarrow> int) \<Rightarrow> 'e bdb_handle \<Rightarrow> int \<Rightarrow> string List_T \<Rightarrow> string List_T
    \<Rightarrow> string List_T \<Rightarrow> int \<Rightarrow> (int \<times> 'e scan_state) option" where
  "Mod_scan_db L check bh now whitelist whitelist_ipv6 traplist white_exp =
     do { itr \<leftarrow> Mod_db_get_itr L bh DB_ENTRIES;
          scan_loop L check now white_exp itr (bh, whitelist, whitelist_ipv6, traplist) }"

text \<open>The functions of the driver, as \<open>DB_init\<close> looks them up.\<close>

definition bdb_driver :: "('e, 'c) bdb_lib \<Rightarrow> (string \<Rightarrow> int) \<Rightarrow> 'e bdb_handle DB_handle_T" where
  "bdb_driver L check =
     \<lparr>db_open = Mod_db_open L, db_start_txn = Mod_db_start_txn L, db_commit_txn = Mod_db_commit_txn L,
      db_rollback_txn = Mod_db_rollback_txn L, db_put = Mod_db_put L, db_get = Mod_db_get L, db_del = Mod_db_del L,
      db_scan = Mod_scan_db L check\<rparr>"

section \<open>Keys survive packing\<close>

lemma buf_str_append: "NUL \<notin> set s \<Longrightarrow> buf_str (s @ NUL # rest) = Some (s, rest)"
  by (simp add: buf_str_def)

lemma bytes_short_bytes:
  assumes "0 \<le> t" and "t < 128"
  shows "\<exists>a b. short_bytes t = [a, b] \<and> bytes_short a b = t"
proof -
  have "char_code (to_char t) = t" and "t div 256 = 0" and "schar_code (to_char 0) = 0"
    using assms by (simp_all add: char_code_def schar_code_def to_char_def)
  then show ?thesis by (simp add: short_bytes_def bytes_short_def)
qed

lemma unpack_pack_key:
  assumes "key_ok k"
  shows "\<exists>b. pack_key k = Some b \<and> unpack_key b = Some k"
proof (cases k)
  case (KEY_IP s)
  obtain a b where "short_bytes DB_KEY_IP = [a, b]" "bytes_short a b = DB_KEY_IP"
    using bytes_short_bytes [of DB_KEY_IP] by (auto simp: key_types)
  then show ?thesis using assms KEY_IP buf_str_append [of s "[]"] by (simp add: unpack_key_def)
next
  case (KEY_MAIL s)
  obtain a b where "short_bytes DB_KEY_MAIL = [a, b]" "bytes_short a b = DB_KEY_MAIL"
    using bytes_short_bytes [of DB_KEY_MAIL] by (auto simp: key_types)
  then show ?thesis using assms KEY_MAIL buf_str_append [of s "[]"] by (simp add: unpack_key_def key_types)
next
  case (KEY_DOM s)
  obtain a b where "short_bytes DB_KEY_DOM = [a, b]" "bytes_short a b = DB_KEY_DOM"
    using bytes_short_bytes [of DB_KEY_DOM] by (auto simp: key_types)
  then show ?thesis using assms KEY_DOM buf_str_append [of s "[]"] by (simp add: unpack_key_def key_types)
next
  case (KEY_TUPLE gt)
  obtain a b where "short_bytes DB_KEY_TUPLE = [a, b]" "bytes_short a b = DB_KEY_TUPLE"
    using bytes_short_bytes [of DB_KEY_TUPLE] by (auto simp: key_types)
  then show ?thesis using assms KEY_TUPLE by (simp add: unpack_key_def key_types buf_str_append)
qed (use assms in auto)

definition packed :: "DB_key \<Rightarrow> char list" where
  "packed k = the (pack_key k)"

lemma pack_packed: "key_ok k \<Longrightarrow> pack_key k = Some (packed k)"
  using unpack_pack_key [of k] by (auto simp: packed_def)

lemma unpack_packed: "key_ok k \<Longrightarrow> unpack_key (packed k) = Some k"
  using unpack_pack_key [of k] by (auto simp: packed_def)

lemma packed_inject: "key_ok k \<Longrightarrow> key_ok j \<Longrightarrow> packed k = packed j \<longleftrightarrow> k = j"
  by (metis option.inject unpack_packed)

section \<open>What the driver relies on\<close>

type_synonym bdb_content = "bdb_file \<Rightarrow> char list \<rightharpoonup> DB_val"

text \<open>
  The laws of the library. \<open>content\<close> is what lookups in an environment see, \<open>backup\<close> the content
  at the begin of its open transaction. A cursor has a file, the keys the file had when it was
  opened, the keys it has returned and the key it stands on. It never returns a key twice, and only
  ends when every key it started with has been returned or deleted; it may or may not return a key
  inserted meanwhile.
\<close>

locale bdb_library =
  fixes L :: "('e, 'c) bdb_lib" and content :: "'e \<Rightarrow> bdb_content" and backup :: "'e \<Rightarrow> bdb_content option"
    and c_file :: "'c \<Rightarrow> bdb_file" and c_start :: "'c \<Rightarrow> char list set" and c_seen :: "'c \<Rightarrow> char list set"
    and c_at :: "'c \<Rightarrow> char list option"
  assumes notfound: "lib_notfound L \<noteq> 0"
    and finite_content: "finite (dom (content e f))"
    and lib_open: "lib_open L e fl = (0, e') \<Longrightarrow> content e' = content e \<and> backup e' = backup e"
    and lib_begin: "lib_txn_begin L e = (0, e') \<Longrightarrow> backup e = None \<Longrightarrow>
      content e' = content e \<and> backup e' = Some (content e)"
    and lib_commit: "lib_txn_commit L e = (0, e') \<Longrightarrow> backup e = Some m \<Longrightarrow> content e' = content e \<and> backup e' = None"
    and lib_abort: "lib_txn_abort L e = (r, e') \<Longrightarrow> backup e = Some m \<Longrightarrow> content e' = m \<and> backup e' = None"
    and lib_put: "lib_put L f x k v e = (0, e') \<Longrightarrow> x = (backup e \<noteq> None) \<Longrightarrow>
      content e' = (content e)(f := (content e f)(k \<mapsto> v)) \<and> backup e' = backup e"
    and lib_get: "lib_get L f x k e = (r, v) \<Longrightarrow> x = (backup e \<noteq> None) \<Longrightarrow>
      (r = 0 \<longrightarrow> content e f k = Some v) \<and> (r = lib_notfound L \<longrightarrow> content e f k = None)"
    and lib_del: "lib_del L f x k e = (r, e') \<Longrightarrow> x = (backup e \<noteq> None) \<Longrightarrow> backup e' = backup e \<and>
      (r = 0 \<longrightarrow> content e' = (content e)(f := (content e f)(k := None))) \<and> (r = lib_notfound L \<longrightarrow> content e f k = None \<and> content e' = content e)"
    and lib_cursor: "lib_cursor L f x e = (0, c) \<Longrightarrow> x = (backup e \<noteq> None) \<Longrightarrow>
      c_file c = f \<and> c_start c = dom (content e f) \<and> c_seen c = {}"
    and lib_next: "lib_c_next L c e = (0, k, v, c') \<Longrightarrow>
      content e (c_file c) k = Some v \<and> k \<notin> c_seen c \<and> c_at c' = Some k \<and> c_seen c' = insert k (c_seen c) \<and>
      c_file c' = c_file c \<and> c_start c' = c_start c"
    and lib_end: "lib_c_next L c e = (lib_notfound L, k, v, c') \<Longrightarrow> c_start c \<inter> dom (content e (c_file c)) \<subseteq> c_seen c"
    and lib_c_del: "lib_c_del L c e = (0, e') \<Longrightarrow> c_at c = Some k \<Longrightarrow>
      content e' = (content e)(c_file c := (content e (c_file c))(k := None)) \<and> backup e' = backup e"

text \<open>A library whose calls succeed.\<close>

locale bdb_live = bdb_library +
  assumes open_ok: "fst (lib_open L e fl) = 0" and begin_ok: "fst (lib_txn_begin L e) = 0"
    and commit_ok: "fst (lib_txn_commit L e) = 0" and put_ok: "fst (lib_put L f x k v e) = 0"
    and get_ok: "fst (lib_get L f x k e) \<in> {0, lib_notfound L}"
    and del_ok: "fst (lib_del L f x k e) \<in> {0, lib_notfound L}"
    and cursor_ok: "fst (lib_cursor L f x e) = 0"
    and next_ok: "fst (lib_c_next L c e) \<in> {0, lib_notfound L}"
    and c_del_ok: "c_at c = Some k \<Longrightarrow> content e (c_file c) k \<noteq> None \<Longrightarrow> fst (lib_c_del L c e) = 0"

text \<open>The keys and values the driver's databases hold, and the view of them.\<close>

definition content_wf :: "bdb_content \<Rightarrow> bool" where
  "content_wf m \<longleftrightarrow> (\<forall>f b v. m f b = Some v \<longrightarrow>
     val_type v = DB_VAL_GREY \<and> (\<exists>k. key_ok k \<and> key_file k = f \<and> b = packed k))"

definition content_view :: "bdb_content \<Rightarrow> db_view" where
  "content_view m k = (if key_ok k then m (key_file k) (packed k) else None)"

lemma content_view_update:
  "key_ok k \<Longrightarrow> content_view (m(key_file k := (m (key_file k))(packed k := x))) = (content_view m)(k := x)"
  by (rule ext) (auto simp: content_view_def packed_inject)

lemma content_wf_update:
  assumes "content_wf m" and "key_ok k" and "\<forall>v. x = Some v \<longrightarrow> val_type v = DB_VAL_GREY"
  shows "content_wf (m(key_file k := (m (key_file k))(packed k := x)))"
  using assms by (auto simp: content_wf_def split: if_splits)

lemma content_wf_view: "content_wf m \<Longrightarrow> m f b = Some v \<Longrightarrow> \<exists>k. key_ok k \<and> key_file k = f \<and> b = packed k \<and> content_view m k = Some v"
  by (fastforce simp: content_wf_def content_view_def)

section \<open>The driver against the laws of the library\<close>

definition bdb_inv :: "('e \<Rightarrow> bdb_content) \<Rightarrow> ('e \<Rightarrow> bdb_content option) \<Rightarrow> 'e bdb_handle \<Rightarrow> bool" where
  "bdb_inv content backup bh \<longleftrightarrow>
     (bh_txn bh \<longleftrightarrow> backup (bh_env bh) \<noteq> None) \<and> content_wf (content (bh_env bh)) \<and>
     (\<forall>m. backup (bh_env bh) = Some m \<longrightarrow> content_wf m)"

definition bdb_ready :: "('e \<Rightarrow> bdb_content) \<Rightarrow> ('e \<Rightarrow> bdb_content option) \<Rightarrow> 'e bdb_handle \<Rightarrow> bool" where
  "bdb_ready content backup bh \<longleftrightarrow> bdb_inv content backup bh \<and> bh_open bh"

definition bdb_view :: "('e \<Rightarrow> bdb_content) \<Rightarrow> 'e bdb_handle \<Rightarrow> db_view" where
  "bdb_view content bh = content_view (content (bh_env bh))"

definition bdb_saved :: "('e \<Rightarrow> bdb_content option) \<Rightarrow> 'e bdb_handle \<Rightarrow> db_view option" where
  "bdb_saved backup bh = map_option content_view (backup (bh_env bh))"

lemmas bdb_defs = bdb_ready_def bdb_inv_def bdb_view_def bdb_saved_def

context bdb_library
begin

lemma view_content: "key_ok k \<Longrightarrow> bdb_view content bh k = content (bh_env bh) (key_file k) (packed k)"
  by (simp add: bdb_view_def content_view_def)

lemma put_driver:
  assumes "Mod_db_put L bh k v = Some (r, bh')" and "bdb_ready content backup bh" and "key_ok k"
    and "val_type v = DB_VAL_GREY"
  shows "r = GREYDB_OK \<and> bdb_ready content backup bh' \<and> bdb_saved backup bh' = bdb_saved backup bh \<and>
    bdb_view content bh' = (bdb_view content bh)(k \<mapsto> v)"
proof -
  obtain env where put: "lib_put L (key_file k) (bh_txn bh) (packed k) v (bh_env bh) = (0, env)"
    and res: "r = GREYDB_OK" "bh' = bh\<lparr>bh_env := env\<rparr>"
    using assms(1,3) by (auto simp: Mod_db_put_def pack_packed Let_def split: prod.splits if_splits)
  from lib_put [OF put] assms(2) have
    "content env = (content (bh_env bh))(key_file k := (content (bh_env bh) (key_file k))(packed k \<mapsto> v))"
    "backup env = backup (bh_env bh)"
    by (auto simp: bdb_defs)
  then show ?thesis
    using assms(2-4) res by (auto simp: bdb_defs content_view_update content_wf_update)
qed

lemma get_driver:
  assumes "Mod_db_get L bh k = Some (r, vo)" and "bdb_ready content backup bh" and "key_ok k"
  shows "r = GREYDB_FOUND \<and> vo = bdb_view content bh k \<and> vo \<noteq> None \<or>
    r = GREYDB_NOT_FOUND \<and> bdb_view content bh k = None"
proof -
  obtain ret val where get: "lib_get L (key_file k) (bh_txn bh) (packed k) (bh_env bh) = (ret, val)" by fastforce
  have "bh_txn bh = (backup (bh_env bh) \<noteq> None)" using assms(2) by (simp add: bdb_defs)
  from lib_get [OF get this] show ?thesis
    using assms get pack_packed [OF assms(3)] notfound by (cases k) (auto simp: Mod_db_get_def view_content split: if_splits)
qed

lemma del_driver:
  assumes "Mod_db_del L bh k = Some (r, bh')" and "bdb_ready content backup bh" and "key_ok k"
  shows "bdb_ready content backup bh' \<and> bdb_saved backup bh' = bdb_saved backup bh \<and>
    (r = GREYDB_OK \<and> bdb_view content bh' = (bdb_view content bh)(k := None) \<or>
     r = GREYDB_NOT_FOUND \<and> bdb_view content bh k = None \<and> bdb_view content bh' = bdb_view content bh)"
proof -
  obtain ret env where del: "lib_del L (key_file k) (bh_txn bh) (packed k) (bh_env bh) = (ret, env)" by fastforce
  have "bh_txn bh = (backup (bh_env bh) \<noteq> None)" using assms(2) by (simp add: bdb_defs)
  from lib_del [OF del this] show ?thesis
    using assms del notfound
    by (auto simp: Mod_db_del_def pack_packed bdb_defs content_view_update content_wf_update greydb_codes content_view_def
        split: if_splits)
qed

lemma del_curr_driver:
  assumes "Mod_db_itr_del_curr L bh itr = Some (r, bh')" and "bdb_ready content backup bh" and "key_ok k"
    and "bc_curr itr = c # cs" and "c_at c = Some (packed k)" and "c_file c = key_file k"
  shows "r = GREYDB_OK \<and> bdb_ready content backup bh' \<and> bdb_saved backup bh' = bdb_saved backup bh \<and>
    bdb_view content bh' = (bdb_view content bh)(k := None)"
proof -
  obtain env where del: "lib_c_del L c (bh_env bh) = (0, env)" and res: "r = GREYDB_OK" "bh' = bh\<lparr>bh_env := env\<rparr>"
    using assms(1,4) by (auto simp: Mod_db_itr_del_curr_def Let_def split: prod.splits if_splits)
  from lib_c_del [OF del assms(5)] show ?thesis
    using assms(2,3,6) res by (auto simp: bdb_defs content_view_update content_wf_update)
qed

lemma addr_state_driver:
  assumes "DB_addr_state (Mod_db_get L bh) s = Some x" and "bdb_ready content backup bh" and "NUL \<notin> set s"
  shows "x \<noteq> - 1 \<and> (x = 1 \<longleftrightarrow> (\<exists>v. bdb_view content bh (KEY_IP s) = Some v \<and> val_trap v))"
proof -
  obtain r vo where g: "Mod_db_get L bh (KEY_IP s) = Some (r, vo)"
    using assms(1) by (auto simp: DB_addr_state_def bind_eq_Some_conv)
  from get_driver [OF g assms(2)] assms(1,3) g show ?thesis
    by (auto simp: DB_addr_state_def greydb_codes val_trap_def split: if_splits)
qed

text \<open>The next entry of an iterator over one file.\<close>

lemma next_driver:
  assumes "Mod_db_itr_next L bh itr = Some (ret, kv, itr')" and "bdb_ready content backup bh" and "bc_curr itr = [c]"
  shows "ret = GREYDB_FOUND \<and> (\<exists>k v c'. kv = Some (k, v) \<and> key_ok k \<and> key_file k = c_file c \<and>
      bdb_view content bh k = Some v \<and> val_type v = DB_VAL_GREY \<and> bc_curr itr' = [c'] \<and> packed k \<notin> c_seen c \<and>
      c_at c' = Some (packed k) \<and> c_seen c' = insert (packed k) (c_seen c) \<and> c_file c' = c_file c \<and> c_start c' = c_start c) \<or>
    ret = GREYDB_NOT_FOUND \<and> c_start c \<inter> dom (content (bh_env bh) (c_file c)) \<subseteq> c_seen c"
proof -
  obtain r b v c' where n: "lib_c_next L c (bh_env bh) = (r, b, v, c')" by (metis prod_cases4)
  consider "r = 0" | "r = lib_notfound L" "r \<noteq> 0" | "r \<noteq> 0" "r \<noteq> lib_notfound L" by blast
  then show ?thesis
  proof cases
    case 1
    have nx: "content (bh_env bh) (c_file c) b = Some v" "b \<notin> c_seen c" "c_at c' = Some b"
      "c_seen c' = insert b (c_seen c)" "c_file c' = c_file c" "c_start c' = c_start c"
      using lib_next [of c "bh_env bh" b v c'] n 1 by auto
    have wf: "content_wf (content (bh_env bh))" using assms(2) by (simp add: bdb_defs)
    then obtain k where k: "key_ok k" "key_file k = c_file c" "b = packed k"
      using content_wf_view [OF wf nx(1)] by blast
    moreover have "val_type v = DB_VAL_GREY" using wf nx(1) by (auto simp: content_wf_def)
    moreover have "bdb_view content bh k = Some v" using k nx(1) by (simp add: view_content)
    ultimately show ?thesis
      using assms(1,3) n 1 nx by (auto simp: Mod_db_itr_next_def unpack_packed)
  next
    case 2
    then show ?thesis
      using assms(1,3) n lib_end [of c "bh_env bh" b v c'] by (simp add: Mod_db_itr_next_def)
  next
    case 3
    then show ?thesis using assms(1,3) n by (simp add: Mod_db_itr_next_def)
  qed
qed

text \<open>The invariant of the scan's loop. \<open>U\<close> bounds the keys the cursor can return.\<close>

definition loop_inv :: "(string \<Rightarrow> int) \<Rightarrow> int \<Rightarrow> int \<Rightarrow> db_view \<Rightarrow> char list set \<Rightarrow> db_view option
    \<Rightarrow> string List_T \<times> string List_T \<times> string List_T \<Rightarrow> 'c \<Rightarrow> DB_key set \<Rightarrow> string list \<Rightarrow> string list \<Rightarrow> 'e scan_state \<Rightarrow> bool" where
  "loop_inv check now w m0 U sv start c S A Tr st \<longleftrightarrow>
     bdb_ready content backup (fst st) \<and> bdb_saved backup (fst st) = sv \<and>
     c_file c = File_db \<and> c_seen c = packed ` S \<and> (\<forall>k\<in>S. key_ok k) \<and>
     c_start c = {packed k |k. key_ok k \<and> key_file k = File_db \<and> m0 k \<noteq> None} \<and>
     scan_inv now w m0 S (bdb_view content (fst st)) (set A) (set Tr) \<and>
     scan_lists (\<lambda>s. check s = uint AF_INET6) start A Tr (snd st) \<and>
     finite U \<and> (\<forall>k. key_file k = File_db \<and> bdb_view content (fst st) k \<noteq> None \<longrightarrow> packed k \<in> U) \<and>
     (\<forall>t. m0 (KEY_TUPLE t) \<noteq> None \<longrightarrow> packed (KEY_IP (gt_ip t)) \<in> U)"

lemma loop_inv_step:
  assumes "loop_inv check now w m0 U sv start c S A Tr (bh, ls)"
    and "key_ok k" and "bdb_ready content backup bh'" and "bdb_saved backup bh' = bdb_saved backup bh"
    and "c_seen c' = insert (packed k) (c_seen c)" and "c_file c' = c_file c" and "c_start c' = c_start c"
    and "scan_inv now w m0 (insert k S) (bdb_view content bh') (set A') (set Tr')"
    and "scan_lists (\<lambda>s. check s = uint AF_INET6) start A' Tr' ls'"
    and "\<forall>j. key_file j = File_db \<and> bdb_view content bh' j \<noteq> None \<longrightarrow> packed j \<in> U"
  shows "loop_inv check now w m0 U sv start c' (insert k S) A' Tr' (bh', ls')"
  using assms by (auto simp: loop_inv_def)

lemma add_white_lists:
  "scan_lists (\<lambda>s. check s = uint AF_INET6) start A Tr ls \<Longrightarrow>
   \<exists>ls'. add_white check s (bh, ls) = (bh, ls') \<and> scan_lists (\<lambda>s. check s = uint AF_INET6) start (A @ [s]) Tr ls'"
  by (cases ls) (auto simp: add_white_def scan_lists_def)

lemma loop_invD:
  assumes "loop_inv check now w m0 U sv start c S A Tr (bh, ls)"
  shows "bdb_ready content backup bh" and "scan_inv now w m0 S (bdb_view content bh) (set A) (set Tr)"
    and "scan_lists (\<lambda>s. check s = uint AF_INET6) start A Tr ls" and "c_file c = File_db"
    and "\<forall>j. key_file j = File_db \<and> bdb_view content bh j \<noteq> None \<longrightarrow> packed j \<in> U"
    and "m0 (KEY_TUPLE t) \<noteq> None \<Longrightarrow> packed (KEY_IP (gt_ip t)) \<in> U"
  using assms by (auto simp: loop_inv_def)

text \<open>The cursor after it has returned a key, and the entry under it.\<close>

definition moved :: "'c \<Rightarrow> 'c bdb_cursor \<Rightarrow> 'c \<Rightarrow> DB_key \<Rightarrow> bool" where
  "moved c itr' c' k \<longleftrightarrow> bc_curr itr' = [c'] \<and> c_at c' = Some (packed k) \<and> c_seen c' = insert (packed k) (c_seen c) \<and>
     c_file c' = c_file c \<and> c_start c' = c_start c \<and> key_ok k \<and> key_file k = c_file c"

lemma scan_entry_stay:
  assumes I: "loop_inv check now w m0 U sv start c S A Tr (bh, ls)" and mv: "moved c itr' c' k"
    and inv: "scan_inv now w m0 (insert k S) (bdb_view content bh) (set A') (set Tr')"
    and lists: "scan_lists (\<lambda>s. check s = uint AF_INET6) start A' Tr' ls'"
  shows "loop_inv check now w m0 U sv start c' (insert k S) A' Tr' (bh, ls')"
  using loop_inv_step [OF I _ loop_invD(1) [OF I] refl _ _ _ inv lists loop_invD(5) [OF I]] mv by (simp add: moved_def)

lemma scan_entry_expired:
  assumes I: "loop_inv check now w m0 U sv start c S A Tr (bh, ls)" and mv: "moved c itr' c' k"
    and v: "val_type v = DB_VAL_GREY" "val_expired now v"
    and inv: "scan_inv now w m0 (insert k S) ((bdb_view content bh)(k := None)) (set A) (set Tr)"
    and e: "scan_entry L check now w itr' k v (bh, ls) = Some (stop, bh', ls')"
  shows "stop = None \<and> loop_inv check now w m0 U sv start c' (insert k S) A Tr (bh', ls')"
proof -
  obtain r where d: "Mod_db_itr_del_curr L bh itr' = Some (r, bh')" "ls' = ls"
      "stop = (if r \<noteq> GREYDB_OK then Some GREYDB_ERR else None)"
    using e v by (cases ls) (auto simp: scan_entry_def Let_def val_expired_def bind_eq_Some_conv)
  have dd: "r = GREYDB_OK" "bdb_ready content backup bh'" "bdb_saved backup bh' = bdb_saved backup bh"
    "bdb_view content bh' = (bdb_view content bh)(k := None)"
    using del_curr_driver [OF d(1) loop_invD(1) [OF I], of k c'] mv by (auto simp: moved_def)
  have "\<forall>j. key_file j = File_db \<and> bdb_view content bh' j \<noteq> None \<longrightarrow> packed j \<in> U"
    using loop_invD(5) [OF I] dd(4) by simp
  then show ?thesis
    using loop_inv_step [OF I _ dd(2,3), of k c' A Tr ls] inv dd(1,4) d(2,3) loop_invD(3) [OF I] mv
    by (simp add: moved_def)
qed

lemma scan_entry_ip:
  assumes I: "loop_inv check now w m0 U sv start c S A Tr (bh, ls)" and w: "0 < w"
    and mv: "moved c itr' c' (KEY_IP s)" and k: "bdb_view content bh (KEY_IP s) = Some v" "val_type v = DB_VAL_GREY"
    and e: "scan_entry L check now w itr' (KEY_IP s) v (bh, ls) = Some (stop, bh', ls')"
  shows "stop = None \<and> (\<exists>A' Tr'. loop_inv check now w m0 U sv start c' (insert (KEY_IP s) S) A' Tr' (bh', ls'))"
proof -
  note inv = loop_invD(2) [OF I] and lists = loop_invD(3) [OF I] and stay = scan_entry_stay [OF I mv]
  obtain W W6 T where ls: "ls = (W, W6, T)" by (metis prod_cases3)
  consider "val_expired now v" | "\<not> val_expired now v" "val_trap v"
    | "\<not> val_expired now v" "\<not> val_trap v" "val_passes now v"
    | "\<not> val_expired now v" "\<not> val_trap v" "\<not> val_passes now v" by blast
  then show ?thesis
  proof cases
    case 1
    show ?thesis using scan_entry_expired [OF I mv k(2) 1 scan_drop_ip [OF inv w k(1) 1] e] by blast
  next
    case 2
    then have "stop = None" "bh' = bh" "ls' = (W, W6, List_insert_after T s)"
      using e k(2) ls by (auto simp: scan_entry_def Let_def val_expired_def val_trap_def)
    moreover have "scan_lists (\<lambda>s. check s = uint AF_INET6) start A (Tr @ [s]) (W, W6, List_insert_after T s)"
      using lists ls by (simp add: scan_lists_def)
    moreover have "scan_inv now w m0 (insert (KEY_IP s) S) (bdb_view content bh) (set A) (set (Tr @ [s]))"
      using scan_trap_ip [OF inv k(1) 2] by simp
    ultimately show ?thesis using stay by blast
  next
    case 3
    obtain ls1 where a: "add_white check s (bh, ls) = (bh, ls1)"
      "scan_lists (\<lambda>s. check s = uint AF_INET6) start (A @ [s]) Tr ls1" using add_white_lists [OF lists] by blast
    have "stop = None" "bh' = bh" "ls' = ls1"
      using e k(2) 3 a(1) ls by (auto simp: scan_entry_def Let_def val_expired_def val_trap_def val_passes_def)
    moreover have "scan_inv now w m0 (insert (KEY_IP s) S) (bdb_view content bh) (set (A @ [s])) (set Tr)"
      by (rule scan_other_ip [OF inv k(1) 3(1,2)]) (use 3(3) in auto)
    ultimately show ?thesis using stay a(2) by blast
  next
    case 4
    then have "stop = None" "bh' = bh" "ls' = ls"
      using e k(2) ls
      by (auto simp: scan_entry_def Let_def val_expired_def val_trap_def val_passes_def split: if_splits)
    moreover have "scan_inv now w m0 (insert (KEY_IP s) S) (bdb_view content bh) (set A) (set Tr)"
      by (rule scan_other_ip [OF inv k(1) 4(1,2)]) (use 4(3) in auto)
    ultimately show ?thesis using stay lists by blast
  qed
qed

text \<open>A tuple whose sender is whitelisted: the address entry is written and the tuple removed.\<close>

lemma scan_entry_whitelist:
  assumes I: "loop_inv check now w m0 U sv start c S A Tr (bh, ls)" and w: "0 < w"
    and mv: "moved c itr' c' (KEY_TUPLE t)" and k: "bdb_view content bh (KEY_TUPLE t) = Some v" "val_type v = DB_VAL_GREY"
    and ps: "val_passes now v" and x: "DB_addr_state (Mod_db_get L bh) (gt_ip t) = Some x" "x \<noteq> 1"
    and e: "scan_entry L check now w itr' (KEY_TUPLE t) v (bh, ls) = Some (stop, bh', ls')"
  shows "stop = None \<and> loop_inv check now w m0 U sv start c' (insert (KEY_TUPLE t) S) (A @ [gt_ip t]) Tr (bh', ls')"
proof -
  have ok: "key_ok (KEY_TUPLE t)" and nul: "NUL \<notin> set (gt_ip t)" using mv by (auto simp: moved_def)
  note ready = loop_invD(1) [OF I] and st = addr_state_driver [OF x(1) loop_invD(1) [OF I] nul]
  obtain ls1 where a: "add_white check (gt_ip t) (bh, ls) = (bh, ls1)"
    "scan_lists (\<lambda>s. check s = uint AF_INET6) start (A @ [gt_ip t]) Tr ls1" using add_white_lists [OF loop_invD(3) [OF I]] by blast
  have res: "do { (ret, bh1) \<leftarrow> Mod_db_put L bh (KEY_IP (gt_ip t)) (white_val now w v);
          if ret \<noteq> GREYDB_OK then Some (Some GREYDB_ERR, (bh1, ls1))
          else do { (ret2, bh2) \<leftarrow> Mod_db_itr_del_curr L bh1 itr';
                    Some (if ret2 \<noteq> GREYDB_OK then Some GREYDB_ERR else None, (bh2, ls1)) } } = Some (stop, bh', ls')"
    using e k(2) ps x st a(1) unfolding scan_entry_def
    by (auto simp: white_val_def Let_def val_expired_def val_passes_def split: if_splits prod.splits)
  then obtain r1 bh1 where p1: "Mod_db_put L bh (KEY_IP (gt_ip t)) (white_val now w v) = Some (r1, bh1)"
    by (auto simp: bind_eq_Some_conv)
  have dd: "r1 = GREYDB_OK" "bdb_ready content backup bh1" "bdb_saved backup bh1 = bdb_saved backup bh"
    "bdb_view content bh1 = (bdb_view content bh)(KEY_IP (gt_ip t) \<mapsto> white_val now w v)"
    using put_driver [OF p1 ready] nul by (auto simp: white_val_def)
  obtain r2 where p2: "Mod_db_itr_del_curr L bh1 itr' = Some (r2, bh')" "ls' = ls1"
    "stop = (if r2 \<noteq> GREYDB_OK then Some GREYDB_ERR else None)"
    using res p1 dd(1) by (auto simp: bind_eq_Some_conv)
  have ee: "r2 = GREYDB_OK" "bdb_ready content backup bh'" "bdb_saved backup bh' = bdb_saved backup bh"
    "bdb_view content bh' = (bdb_view content bh)(KEY_IP (gt_ip t) \<mapsto> white_val now w v, KEY_TUPLE t := None)"
    using del_curr_driver [OF p2(1) dd(2) ok, of c'] mv dd(3,4) by (auto simp: moved_def)
  have "m0 (KEY_TUPLE t) \<noteq> None"
    using loop_invD(2) [OF I] k(1) unfolding scan_inv_def tuple_inv_def by (metis option.distinct(1))
  then have "\<forall>j. key_file j = File_db \<and> bdb_view content bh' j \<noteq> None \<longrightarrow> packed j \<in> U"
    using ee(4) loop_invD(5,6) [OF I] by simp
  moreover have "\<forall>v'. bdb_view content bh (KEY_IP (gt_ip t)) = Some v' \<longrightarrow> \<not> val_trap v'" using st x(2) by blast
  ultimately show ?thesis
    using loop_inv_step [OF I ok ee(2,3), of c' "A @ [gt_ip t]" Tr ls1] scan_pass_tuple [OF loop_invD(2) [OF I] w k(1) ps]
      a(2) ee(1,4) p2(2,3) mv by (simp add: moved_def)
qed

lemma scan_entry_tuple:
  assumes I: "loop_inv check now w m0 U sv start c S A Tr (bh, ls)" and w: "0 < w"
    and mv: "moved c itr' c' (KEY_TUPLE t)" and k: "bdb_view content bh (KEY_TUPLE t) = Some v" "val_type v = DB_VAL_GREY"
    and e: "scan_entry L check now w itr' (KEY_TUPLE t) v (bh, ls) = Some (stop, bh', ls')"
  shows "stop = None \<and> (\<exists>A' Tr'. loop_inv check now w m0 U sv start c' (insert (KEY_TUPLE t) S) A' Tr' (bh', ls'))"
proof -
  note inv = loop_invD(2) [OF I] and lists = loop_invD(3) [OF I] and stay = scan_entry_stay [OF I mv]
  have nul: "NUL \<notin> set (gt_ip t)" using mv by (auto simp: moved_def)
  consider "val_expired now v" | "\<not> val_expired now v" "\<not> val_passes now v" | "\<not> val_expired now v" "val_passes now v" by blast
  then show ?thesis
  proof cases
    case 1
    show ?thesis using scan_entry_expired [OF I mv k(2) 1 scan_drop_tuple [OF inv k(1) 1] e] by blast
  next
    case 2
    then have "stop = None" "bh' = bh" "ls' = ls"
      using e k(2) by (auto simp: scan_entry_def Let_def val_expired_def val_passes_def split: if_splits prod.splits)
    moreover have "scan_inv now w m0 (insert (KEY_TUPLE t) S) (bdb_view content bh) (set A) (set Tr)"
      by (rule scan_keep_tuple [OF inv k(1) 2(1)]) (use 2(2) in blast)
    ultimately show ?thesis using stay lists by blast
  next
    case 3
    obtain x where x: "DB_addr_state (Mod_db_get L bh) (gt_ip t) = Some x"
      using e k(2) 3
      by (cases ls) (auto simp: scan_entry_def Let_def val_expired_def val_passes_def bind_eq_Some_conv split: if_splits)
    show ?thesis
    proof (cases "x = 1")
      case True
      then have "stop = None" "bh' = bh" "ls' = ls"
        using e k(2) 3 x
        by (auto simp: scan_entry_def Let_def val_expired_def val_passes_def split: if_splits prod.splits)
      moreover have "scan_inv now w m0 (insert (KEY_TUPLE t) S) (bdb_view content bh) (set A) (set Tr)"
        by (rule scan_keep_tuple [OF inv k(1) 3(1)])
           (use True addr_state_driver [OF x loop_invD(1) [OF I] nul] in blast)
      ultimately show ?thesis using stay lists by blast
    next
      case False
      show ?thesis using scan_entry_whitelist [OF I w mv k 3(2) x False e] by blast
    qed
  qed
qed

lemma file_db_cases: "key_ok k \<Longrightarrow> key_file k = File_db \<Longrightarrow> (\<exists>s. k = KEY_IP s) \<or> (\<exists>t. k = KEY_TUPLE t)"
  by (cases k) auto

text \<open>One round of the loop: it ends with every key seen, or visits a new key and keeps the invariant.\<close>

lemma scan_round:
  assumes I: "loop_inv check now w m0 U sv start c S A Tr st" and w: "0 < w" and itr: "bc_curr itr = [c]"
    and n: "Mod_db_itr_next L (fst st) itr = Some (ret, kv, itr')"
  shows "ret \<noteq> GREYDB_FOUND \<and> scan_spec now w m0 (bdb_view content (fst st)) (set A) (set Tr) \<or>
    ret = GREYDB_FOUND \<and> (\<exists>k v c'. kv = Some (k, v) \<and> bc_curr itr' = [c'] \<and> packed k \<in> U - c_seen c \<and>
      c_seen c' = insert (packed k) (c_seen c) \<and> moved c itr' c' k \<and> bdb_view content (fst st) k = Some v \<and> val_type v = DB_VAL_GREY \<and>
      (\<forall>stop st'. scan_entry L check now w itr' k v st = Some (stop, st') \<longrightarrow>
         stop = None \<and> (\<exists>A' Tr'. loop_inv check now w m0 U sv start c' (insert k S) A' Tr' st')))"
proof -
  obtain bh ls where st: "st = (bh, ls)" by (metis surj_pair)
  note I' = I [unfolded st]
  have f: "c_file c = File_db" and seen: "c_seen c = packed ` S" "\<forall>k\<in>S. key_ok k"
    and start: "c_start c = {packed k |k. key_ok k \<and> key_file k = File_db \<and> m0 k \<noteq> None}"
    using I by (auto simp: loop_inv_def)
  from next_driver [OF n _ itr] consider
      k v c' where "ret = GREYDB_FOUND" "kv = Some (k, v)" "bdb_view content bh k = Some v" "val_type v = DB_VAL_GREY"
        "packed k \<notin> c_seen c" "moved c itr' c' k"
    | "ret = GREYDB_NOT_FOUND" "c_start c \<inter> dom (content (bh_env bh) (c_file c)) \<subseteq> c_seen c"
    using loop_invD(1) [OF I'] st by (auto simp: moved_def)
  then show ?thesis
  proof cases
    case 1
    have k: "key_ok k" "key_file k = File_db" using 1(6) f by (auto simp: moved_def)
    then consider s where "k = KEY_IP s" | t where "k = KEY_TUPLE t" using file_db_cases by blast
    then have "stop = None \<and> (\<exists>A' Tr'. loop_inv check now w m0 U sv start c' (insert k S) A' Tr' (bh', ls'))"
      if "scan_entry L check now w itr' k v (bh, ls) = Some (stop, bh', ls')" for stop bh' ls'
    proof cases
      case (1 s)
      then show ?thesis
        using scan_entry_ip [OF I' w, of itr' c' s v] that \<open>moved c itr' c' k\<close> \<open>bdb_view content bh k = Some v\<close>
          \<open>val_type v = DB_VAL_GREY\<close> by blast
    next
      case (2 t)
      then show ?thesis
        using scan_entry_tuple [OF I' w, of itr' c' t v] that \<open>moved c itr' c' k\<close> \<open>bdb_view content bh k = Some v\<close>
          \<open>val_type v = DB_VAL_GREY\<close> by blast
    qed
    moreover have "packed k \<in> U" using loop_invD(5) [OF I'] k(2) 1(3) by auto
    ultimately show ?thesis using 1 st by (auto simp: moved_def)
  next
    case 2
    have all: "k \<in> S" if "m0 k \<noteq> None" "bdb_view content bh k \<noteq> None" "key_file k = File_db" for k
    proof -
      have ok: "key_ok k" using that(2) by (auto simp: bdb_view_def content_view_def split: if_splits)
      then have "packed k \<in> packed ` S" using that 2(2) start seen f by (auto simp: view_content)
      then show ?thesis using seen(2) ok packed_inject by blast
    qed
    then have "scan_spec now w m0 (bdb_view content bh) (set A) (set Tr)"
      by (intro scan_done [OF loop_invD(2) [OF I'] w]) auto
    then show ?thesis using 2(1) st by (simp add: greydb_codes)
  qed
qed

lemma scan_loop_correct:
  assumes "loop_inv check now w m0 U sv start c S A Tr st" and "0 < w" and "bc_curr itr = [c]"
    and "scan_loop L check now w itr st = Some (r, st')"
  shows "r = GREYDB_OK \<and> bdb_ready content backup (fst st') \<and> bdb_saved backup (fst st') = sv \<and>
    (\<exists>A' Tr'. scan_lists (\<lambda>s. check s = uint AF_INET6) start A' Tr' (snd st') \<and>
       scan_spec now w m0 (bdb_view content (fst st')) (set A') (set Tr'))"
  using assms
proof (induction "card (U - c_seen c)" arbitrary: c S A Tr st itr rule: less_induct)
  case less
  obtain ret kv itr' where n: "Mod_db_itr_next L (fst st) itr = Some (ret, kv, itr')"
    using less.prems(4) by (subst (asm) scan_loop.simps) (auto simp: bind_eq_Some_conv)
  have fin: "finite U" using less.prems(1) by (simp add: loop_inv_def)
  from scan_round [OF less.prems(1-3) n] consider
      "ret \<noteq> GREYDB_FOUND" "scan_spec now w m0 (bdb_view content (fst st)) (set A) (set Tr)"
    | k v c' where "ret = GREYDB_FOUND" "kv = Some (k, v)" "bc_curr itr' = [c']" "packed k \<in> U - c_seen c"
        "c_seen c' = insert (packed k) (c_seen c)"
        "\<And>stop st'. scan_entry L check now w itr' k v st = Some (stop, st') \<Longrightarrow>
           stop = None \<and> (\<exists>A' Tr'. loop_inv check now w m0 U sv start c' (insert k S) A' Tr' st')" by blast
  then show ?case
  proof cases
    case 1
    then have "r = GREYDB_OK" "st' = st"
      using less.prems(4) n by (subst (asm) scan_loop.simps, simp)+
    then show ?thesis using 1(2) less.prems(1) by (auto simp: loop_inv_def)
  next
    case 2
    obtain stop st1 where e: "scan_entry L check now w itr' k v st = Some (stop, st1)"
      using less.prems(4) n 2(1,2) by (subst (asm) scan_loop.simps) (auto simp: bind_eq_Some_conv)
    from 2(6) [OF e] obtain A1 Tr1 where s: "stop = None" "loop_inv check now w m0 U sv start c' (insert k S) A1 Tr1 st1"
      by blast
    have "scan_loop L check now w itr' st1 = Some (r, st')"
      using less.prems(4) n 2(1,2) e s(1) by (subst (asm) scan_loop.simps) simp
    moreover have "U - c_seen c' \<subset> U - c_seen c" using 2(4,5) by auto
    then have "card (U - c_seen c') < card (U - c_seen c)" using fin by (simp add: psubset_card_mono)
    ultimately show ?thesis using less.hyps [OF _ s(2) less.prems(2) 2(3)] by blast
  qed
qed

lemma finite_view_keys: "finite {k. bdb_view content bh k \<noteq> None \<and> key_file k = f}"
proof (rule finite_imageD)
  have "packed ` {k. bdb_view content bh k \<noteq> None \<and> key_file k = f} \<subseteq> dom (content (bh_env bh) f)"
    by (auto simp: bdb_view_def content_view_def split: if_splits)
  then show "finite (packed ` {k. bdb_view content bh k \<noteq> None \<and> key_file k = f})"
    using finite_content finite_subset by blast
  show "inj_on packed {k. bdb_view content bh k \<noteq> None \<and> key_file k = f}"
    using packed_inject by (auto simp: inj_on_def bdb_view_def content_view_def split: if_splits)
qed

definition scan_keys :: "'e bdb_handle \<Rightarrow> char list set" where
  "scan_keys bh = packed ` {k. bdb_view content bh k \<noteq> None \<and> key_file k = File_db} \<union>
     (\<lambda>k. case k of KEY_TUPLE t \<Rightarrow> packed (KEY_IP (gt_ip t)) | _ \<Rightarrow> []) ` {k. bdb_view content bh k \<noteq> None \<and> key_file k = File_db}"

lemma open_cursor_driver:
  assumes "open_cursor L bh f = Some c" and "bdb_ready content backup bh"
  shows "c_file c = f" and "c_start c = dom (content (bh_env bh) f)" and "c_seen c = {}"
proof -
  have "lib_cursor L f (bh_txn bh) (bh_env bh) = (0, c)"
    using assms(1) by (auto simp: open_cursor_def split: if_splits prod.splits)
  then show "c_file c = f" "c_start c = dom (content (bh_env bh) f)" "c_seen c = {}"
    using lib_cursor assms(2) by (auto simp: bdb_defs)
qed

lemma content_dom:
  assumes "bdb_ready content backup bh"
  shows "dom (content (bh_env bh) f) = {packed k |k. key_ok k \<and> key_file k = f \<and> bdb_view content bh k \<noteq> None}"
proof -
  have wf: "content_wf (content (bh_env bh))" using assms by (simp add: bdb_defs)
  show ?thesis
    using content_wf_view [OF wf] by (fastforce simp: view_content bdb_view_def content_view_def)
qed

lemma loop_inv_start:
  assumes "open_cursor L bh File_db = Some c" and "bdb_ready content backup bh"
  shows "loop_inv check now w (bdb_view content bh) (scan_keys bh) (bdb_saved backup bh)
    (W, W6, T) c {} [] [] (bh, W, W6, T)"
proof -
  have "packed k \<in> scan_keys bh" if "key_file k = File_db" "bdb_view content bh k \<noteq> None" for k
    using that by (auto simp: scan_keys_def)
  moreover have "packed (KEY_IP (gt_ip t)) \<in> scan_keys bh" if "bdb_view content bh (KEY_TUPLE t) \<noteq> None" for t
    unfolding scan_keys_def using that by (intro UnI2 image_eqI [of _ _ "KEY_TUPLE t"]) auto
  moreover have "finite (scan_keys bh)" using finite_view_keys by (simp add: scan_keys_def)
  ultimately show ?thesis
    using open_cursor_driver [OF assms] assms(2) content_dom [OF assms(2)] scan_inv_start
    by (auto simp: loop_inv_def scan_lists_def)
qed

lemma entries_itr: "Mod_db_get_itr L bh DB_ENTRIES = map_option (\<lambda>c. \<lparr>bc_curr = [c], itr_current = - 1\<rparr>) (open_cursor L bh File_db)"
  by (cases "open_cursor L bh File_db") (simp_all add: Mod_db_get_itr_def DB_ENTRIES_def DB_SPAMTRAPS_def DB_DOMAINS_def)

lemma domains_itr: "Mod_db_get_itr L bh DB_DOMAINS = map_option (\<lambda>c. \<lparr>bc_curr = [c], itr_current = - 1\<rparr>) (open_cursor L bh File_domains)"
  by (cases "open_cursor L bh File_domains") (simp_all add: Mod_db_get_itr_def DB_ENTRIES_def DB_SPAMTRAPS_def DB_DOMAINS_def)

lemma scan_driver:
  assumes "Mod_scan_db L check bh now W W6 T w = Some (r, bh', W', W6', T')" and "bdb_ready content backup bh" and "0 < w"
  shows "r = GREYDB_OK \<and> bdb_ready content backup bh' \<and> bdb_saved backup bh' = bdb_saved backup bh \<and>
    (\<exists>A Tr. scan_lists (\<lambda>s. check s = uint AF_INET6) (W, W6, T) A Tr (W', W6', T') \<and>
       scan_spec now w (bdb_view content bh) (bdb_view content bh') (set A) (set Tr))"
proof -
  obtain c where c: "open_cursor L bh File_db = Some c"
    and l: "scan_loop L check now w \<lparr>bc_curr = [c], itr_current = - 1\<rparr> (bh, W, W6, T) = Some (r, bh', W', W6', T')"
    using assms(1) by (auto simp: Mod_scan_db_def entries_itr bind_eq_Some_conv)
  from scan_loop_correct [OF loop_inv_start [OF c assms(2)] assms(3) _ l] show ?thesis by simp
qed

text \<open>The walk over the permitted domains.\<close>

lemma partial_dom_loop_correct:
  assumes "bdb_ready content backup bh" and "bc_curr itr = [c]" and "c_file c = File_domains"
    and "c_start c = dom (content (bh_env bh) File_domains)" and "c_seen c = packed ` KEY_DOM ` S" and "\<forall>d\<in>S. NUL \<notin> set d"
    and "m \<longleftrightarrow> (\<exists>d\<in>S. dom_matches part d)" and "S \<subseteq> {d. bdb_view content bh (KEY_DOM d) \<noteq> None}"
    and "partial_dom_loop L bh part itr m = Some res"
  shows "res \<longleftrightarrow> (\<exists>d. bdb_view content bh (KEY_DOM d) \<noteq> None \<and> dom_matches part d)"
  using assms
proof (induction "card ({d. bdb_view content bh (KEY_DOM d) \<noteq> None} - S)" arbitrary: c S itr m rule: less_induct)
  case less
  let ?D = "{d. bdb_view content bh (KEY_DOM d) \<noteq> None}"
  have "?D = (\<lambda>k. case k of KEY_DOM d \<Rightarrow> d | _ \<Rightarrow> []) ` {k. bdb_view content bh k \<noteq> None \<and> key_file k = File_domains}"
  proof -
    have "k \<in> range KEY_DOM" if "bdb_view content bh k \<noteq> None" "key_file k = File_domains" for k
      using that by (cases k) auto
    then show ?thesis by (force simp: image_iff)
  qed
  then have fin: "finite ?D" using finite_view_keys [of bh File_domains] by simp
  obtain ret kv itr' where n: "Mod_db_itr_next L bh itr = Some (ret, kv, itr')"
    using less.prems(9) by (subst (asm) partial_dom_loop.simps) (auto simp: bind_eq_Some_conv)
  from next_driver [OF n less.prems(1,2)] consider
      k v c' where "ret = GREYDB_FOUND" "kv = Some (k, v)" "bdb_view content bh k = Some v" "packed k \<notin> c_seen c"
        "key_ok k" "key_file k = File_domains" "bc_curr itr' = [c']" "c_seen c' = insert (packed k) (c_seen c)"
        "c_file c' = File_domains" "c_start c' = c_start c"
    | "ret = GREYDB_NOT_FOUND" "c_start c \<inter> dom (content (bh_env bh) (c_file c)) \<subseteq> c_seen c"
    using less.prems(3) by auto
  then show ?case
  proof cases
    case 1
    obtain d where d: "k = KEY_DOM d" "NUL \<notin> set d" using 1(5,6) by (cases k) auto
    have rec: "partial_dom_loop L bh part itr' (dom_matches part d \<or> m) = Some res"
      using less.prems(9) n 1(1,2) d(1) by (subst (asm) partial_dom_loop.simps) (simp add: greydb_codes)
    have "d \<in> ?D - S" using 1(3,4) d less.prems(5) by auto
    then have "?D - insert d S \<subset> ?D - S" by auto
    then have "card (?D - insert d S) < card (?D - S)" using fin by (simp add: psubset_card_mono)
    then show ?thesis
      by (rule less.hyps [OF _ less.prems(1) 1(7,9) _ _ _ _ _ rec]) (use 1 d less.prems in auto)
  next
    case 2
    have "d \<in> S" if "bdb_view content bh (KEY_DOM d) \<noteq> None" for d
    proof -
      have ok: "key_ok (KEY_DOM d)" using that by (auto simp: bdb_view_def content_view_def split: if_splits)
      then have "packed (KEY_DOM d) \<in> packed ` KEY_DOM ` S"
        using that 2(2) less.prems(3-5) view_content [OF ok, of bh] by auto
      then show ?thesis using ok less.prems(6) packed_inject by (metis DB_key.inject(4) imageE key_ok.simps(3))
    qed
    moreover have "res = m" using less.prems(9) n 2(1) by (subst (asm) partial_dom_loop.simps) simp
    ultimately show ?thesis using less.prems(7,8) by blast
  qed
qed

lemma partial_driver:
  assumes "Mod_db_get L bh (KEY_DOM_PART s) = Some (r, vo)" and "bdb_ready content backup bh"
  shows "r = GREYDB_FOUND \<and> (\<exists>d. bdb_view content bh (KEY_DOM d) \<noteq> None \<and> dom_matches s d) \<or>
    r = GREYDB_NOT_FOUND \<and> (\<forall>d. bdb_view content bh (KEY_DOM d) \<noteq> None \<longrightarrow> \<not> dom_matches s d)"
proof -
  obtain c res where c: "open_cursor L bh File_domains = Some c"
    and l: "partial_dom_loop L bh s \<lparr>bc_curr = [c], itr_current = - 1\<rparr> False = Some res"
    and r: "r = (if res then GREYDB_FOUND else GREYDB_NOT_FOUND)"
    using assms(1) by (auto simp: Mod_db_get_def check_partial_dom_def domains_itr bind_eq_Some_conv)
  have "res \<longleftrightarrow> (\<exists>d. bdb_view content bh (KEY_DOM d) \<noteq> None \<and> dom_matches s d)"
    by (rule partial_dom_loop_correct [OF assms(2) _ _ _ _ _ _ _ l, of c "{}"]) (use open_cursor_driver [OF c assms(2)] in auto)
  then show ?thesis unfolding r by (cases res) (simp_all only: if_True if_False, blast+)
qed

lemma open_driver:
  assumes "Mod_db_open L bh fl = Some bh'" and "bdb_inv content backup bh"
  shows "bdb_ready content backup bh' \<and> bdb_view content bh' = bdb_view content bh \<and> bdb_saved backup bh' = bdb_saved backup bh"
proof (cases "bh_open bh")
  case True
  then show ?thesis using assms by (simp add: Mod_db_open_def bdb_ready_def)
next
  case False
  then obtain e where e: "lib_open L (bh_env bh) fl = (0, e)" and bh': "bh' = bh\<lparr>bh_env := e, bh_open := True\<rparr>"
    using assms(1) by (auto simp: Mod_db_open_def Let_def split: prod.splits if_splits)
  show ?thesis using lib_open [OF e] assms(2) bh' by (simp add: bdb_defs)
qed

lemma txn_driver:
  assumes "bdb_ready content backup bh"
  shows "Mod_db_start_txn L bh = Some (r, bh') \<Longrightarrow> bdb_saved backup bh = None \<Longrightarrow>
      bdb_ready content backup bh' \<and> bdb_view content bh' = bdb_view content bh \<and>
      bdb_saved backup bh' = Some (bdb_view content bh)"
    and "Mod_db_commit_txn L bh = Some (r, bh') \<Longrightarrow> bdb_saved backup bh = Some m \<Longrightarrow>
      bdb_ready content backup bh' \<and> bdb_view content bh' = bdb_view content bh \<and> bdb_saved backup bh' = None"
    and "Mod_db_rollback_txn L bh = Some (r, bh') \<Longrightarrow>
      bdb_ready content backup bh' \<and> bdb_saved backup bh' = None \<and>
      bdb_view content bh' = (case bdb_saved backup bh of None \<Rightarrow> bdb_view content bh | Some m \<Rightarrow> m)"
  using assms lib_begin [of "bh_env bh"] lib_commit [of "bh_env bh"] lib_abort [of "bh_env bh"]
  by (auto simp: Mod_db_start_txn_def Mod_db_commit_txn_def Mod_db_rollback_txn_def bdb_defs
      split: prod.splits if_splits option.splits)

end

text \<open>The driver meets the contract of the database interface.\<close>

lemmas driver_fields = DB_dispatch bdb_driver_def DB_handle_T.simps

sublocale bdb_library \<subseteq> drv: greydb "bdb_driver L check" "bdb_inv content backup" "bdb_ready content backup"
  "bdb_view content" "bdb_saved backup" "\<lambda>s. check s = uint AF_INET6" key_ok "\<lambda>now m. True" for check
proof
  fix h h' k v r vo f s now wexp W W6 T W' W6' T' m
  show "bdb_ready content backup h \<Longrightarrow> bdb_inv content backup h" by (simp add: bdb_ready_def)
  show "key_ok k \<Longrightarrow> key_ok k" .
  show "key_ok (KEY_TUPLE gt) \<Longrightarrow> key_ok (KEY_IP (gt_ip gt)) \<and> key_ok (KEY_MAIL (gt_to gt))" for gt by simp
  show "bdb_ready content backup h \<Longrightarrow> bdb_view content h k = Some v \<Longrightarrow> key_ok k \<and> val_type v = DB_VAL_GREY"
    by (auto simp: bdb_defs content_view_def content_wf_def split: if_splits)
  show "DB_open (bdb_driver L check) h f = Some h' \<Longrightarrow> bdb_inv content backup h \<Longrightarrow>
      bdb_ready content backup h' \<and> bdb_view content h' = bdb_view content h \<and> bdb_saved backup h' = bdb_saved backup h"
    using open_driver by (simp add: driver_fields)
  show "DB_start_txn (bdb_driver L check) h = Some (r, h') \<Longrightarrow> bdb_ready content backup h \<Longrightarrow> bdb_saved backup h = None \<Longrightarrow>
      bdb_ready content backup h' \<and> bdb_view content h' = bdb_view content h \<and>
      bdb_saved backup h' = Some (bdb_view content h)"
    using txn_driver(1) [of h r h'] by (simp add: driver_fields)
  show "DB_commit_txn (bdb_driver L check) h = Some (r, h') \<Longrightarrow> bdb_ready content backup h \<Longrightarrow> bdb_saved backup h = Some m \<Longrightarrow>
      bdb_ready content backup h' \<and> bdb_view content h' = bdb_view content h \<and> bdb_saved backup h' = None"
    using txn_driver(2) [of h r h' m] by (simp add: driver_fields)
  show "DB_rollback_txn (bdb_driver L check) h = Some (r, h') \<Longrightarrow> bdb_ready content backup h \<Longrightarrow>
      bdb_ready content backup h' \<and>
      bdb_view content h' = (case bdb_saved backup h of None \<Rightarrow> bdb_view content h | Some m \<Rightarrow> m) \<and> bdb_saved backup h' = None"
    using txn_driver(3) [of h r h'] by (simp add: driver_fields)
  show "DB_get (bdb_driver L check) h k = Some (r, vo) \<Longrightarrow> bdb_ready content backup h \<Longrightarrow> key_ok k \<Longrightarrow>
      r = GREYDB_FOUND \<and> vo = bdb_view content h k \<and> vo \<noteq> None \<or> r = GREYDB_NOT_FOUND \<and> bdb_view content h k = None \<or> r = GREYDB_ERR"
    using get_driver [of h k r vo] by (simp add: driver_fields) blast
  show "DB_get (bdb_driver L check) h (KEY_DOM_PART s) = Some (r, vo) \<Longrightarrow> bdb_ready content backup h \<Longrightarrow>
      r = GREYDB_FOUND \<and> (\<exists>d. bdb_view content h (KEY_DOM d) \<noteq> None \<and> dom_matches s d) \<or>
      r = GREYDB_NOT_FOUND \<and> (\<forall>d. bdb_view content h (KEY_DOM d) \<noteq> None \<longrightarrow> \<not> dom_matches s d) \<or> r = GREYDB_ERR"
    using partial_driver [of h s r vo] by (simp add: driver_fields) blast
  show "DB_put (bdb_driver L check) h k v = Some (r, h') \<Longrightarrow> bdb_ready content backup h \<Longrightarrow> key_ok k \<Longrightarrow> entry_key k \<Longrightarrow>
      val_type v = DB_VAL_GREY \<Longrightarrow> bdb_ready content backup h' \<and> bdb_saved backup h' = bdb_saved backup h \<and>
      (r = GREYDB_OK \<and> bdb_view content h' = (bdb_view content h)(k \<mapsto> v) \<or> r = GREYDB_ERR \<and> bdb_view content h' = bdb_view content h)"
    using put_driver [of h k v r h'] by (simp add: driver_fields)
  show "DB_del (bdb_driver L check) h k = Some (r, h') \<Longrightarrow> bdb_ready content backup h \<Longrightarrow> key_ok k \<Longrightarrow>
      bdb_ready content backup h' \<and> bdb_saved backup h' = bdb_saved backup h \<and>
      (r = GREYDB_OK \<and> bdb_view content h' = (bdb_view content h)(k := None) \<or>
       r = GREYDB_NOT_FOUND \<and> bdb_view content h k = None \<and> bdb_view content h' = bdb_view content h \<or>
       r = GREYDB_ERR \<and> bdb_view content h' = bdb_view content h)"
    using del_driver [of h k r h'] by (auto simp: driver_fields)
  show "DB_scan (bdb_driver L check) h now W W6 T wexp = Some (r, h', W', W6', T') \<Longrightarrow> bdb_ready content backup h \<Longrightarrow> 0 < wexp \<Longrightarrow> True \<Longrightarrow>
      bdb_ready content backup h' \<and> bdb_saved backup h' = bdb_saved backup h \<and>
      (r = GREYDB_OK \<longrightarrow> (\<exists>A Tr. scan_lists (\<lambda>s. check s = uint AF_INET6) (W, W6, T) A Tr (W', W6', T') \<and>
         scan_spec now wexp (bdb_view content h) (bdb_view content h') (set A) (set Tr)))"
    using scan_driver [of check h now W W6 T wexp r h' W' W6' T'] by (simp add: driver_fields)
qed

section \<open>A library whose calls succeed\<close>

context bdb_live
begin

lemma get_total:
  assumes "bdb_ready content backup bh" and "key_ok k"
  shows "\<exists>r vo. Mod_db_get L bh k = Some (r, vo) \<and> r \<noteq> GREYDB_ERR"
proof -
  obtain r v where g: "lib_get L (key_file k) (bh_txn bh) (packed k) (bh_env bh) = (r, v)" by fastforce
  then have "r \<in> {0, lib_notfound L}" using get_ok by (metis fst_conv)
  then show ?thesis
    using assms g pack_packed [OF assms(2)] by (cases k) (auto simp: Mod_db_get_def bdb_ready_def greydb_codes)
qed

lemma put_total:
  assumes "bdb_ready content backup bh" and "key_ok k"
  shows "\<exists>bh'. Mod_db_put L bh k v = Some (GREYDB_OK, bh')"
  using assms put_ok by (auto simp: Mod_db_put_def pack_packed bdb_ready_def split: prod.splits) (metis fst_conv)

lemma del_total:
  assumes "bdb_ready content backup bh" and "key_ok k"
  shows "Mod_db_del L bh k \<noteq> None"
proof -
  obtain r e where d: "lib_del L (key_file k) (bh_txn bh) (packed k) (bh_env bh) = (r, e)" by fastforce
  then have "r \<in> {0, lib_notfound L}" using del_ok by (metis fst_conv)
  then show ?thesis using assms d by (auto simp: Mod_db_del_def pack_packed bdb_ready_def)
qed

lemma cursor_total: "bdb_ready content backup bh \<Longrightarrow> \<exists>c. open_cursor L bh f = Some c"
  using cursor_ok [of f "bh_txn bh" "bh_env bh"] by (auto simp: open_cursor_def bdb_ready_def split: prod.splits)

lemma next_total:
  assumes "bdb_ready content backup bh" and "bc_curr itr = [c]"
  shows "Mod_db_itr_next L bh itr \<noteq> None"
proof -
  obtain r b v c' where n: "lib_c_next L c (bh_env bh) = (r, b, v, c')" by (metis prod_cases4)
  then have r: "r \<in> {0, lib_notfound L}" using next_ok by (metis fst_conv)
  show ?thesis
  proof (cases "r = 0")
    case True
    then have "content (bh_env bh) (c_file c) b = Some v" using lib_next n by blast
    then obtain k where "key_ok k" "b = packed k" using content_wf_view assms(1) by (metis bdb_inv_def bdb_ready_def)
    then show ?thesis using n True assms(2) by (simp add: Mod_db_itr_next_def unpack_packed)
  next
    case False
    then show ?thesis using n r assms(2) by (simp add: Mod_db_itr_next_def)
  qed
qed

lemma del_curr_total:
  assumes "bc_curr itr = [c]" and "c_at c = Some (packed k)" and "c_file c = key_file k" and "bdb_view content bh k \<noteq> None"
  shows "Mod_db_itr_del_curr L bh itr \<noteq> None"
proof -
  have "key_ok k" using assms(4) by (auto simp: bdb_view_def content_view_def split: if_splits)
  then have "content (bh_env bh) (c_file c) (packed k) \<noteq> None" using assms(3,4) view_content by auto
  then have "fst (lib_c_del L c (bh_env bh)) = 0" using c_del_ok assms(2) by blast
  then show ?thesis using assms(1) by (auto simp: Mod_db_itr_del_curr_def split: prod.splits)
qed

lemma addr_state_total: "bdb_ready content backup bh \<Longrightarrow> NUL \<notin> set s \<Longrightarrow> \<exists>x. DB_addr_state (Mod_db_get L bh) s = Some x"
proof -
  assume a: "bdb_ready content backup bh" "NUL \<notin> set s"
  obtain r vo where g: "Mod_db_get L bh (KEY_IP s) = Some (r, vo)" using get_total [OF a(1), of "KEY_IP s"] a(2) by auto
  then show ?thesis using get_driver [OF g a(1)] a(2) by (auto simp: DB_addr_state_def greydb_codes)
qed

lemma scan_entry_total:
  assumes ready: "bdb_ready content backup bh" and mv: "moved c itr' c' k" and k: "bdb_view content bh k = Some v"
  shows "scan_entry L check now w itr' k v (bh, ls) \<noteq> None"
proof -
  have del: "Mod_db_itr_del_curr L bh1 itr' \<noteq> None" if "bdb_view content bh1 k \<noteq> None" for bh1
    using del_curr_total [of itr' c' k bh1] mv that by (simp add: moved_def)
  show ?thesis
  proof (cases "\<exists>t. k = KEY_TUPLE t")
    case True
    then obtain t where t: "k = KEY_TUPLE t" by blast
    have nul: "NUL \<notin> set (gt_ip t)" using mv t by (simp add: moved_def)
    obtain x where x: "DB_addr_state (Mod_db_get L bh) (gt_ip t) = Some x" using addr_state_total [OF ready nul] by blast
    obtain ls1 where a: "add_white check (gt_ip t) (bh, ls) = (bh, ls1)"
      by (cases ls; cases "check (gt_ip t) = uint AF_INET6") (auto simp: add_white_def)
    let ?wv = "\<lparr>val_type = DB_VAL_GREY, val_gd = val_gd v\<lparr>gd_expire := now + w\<rparr>\<rparr>"
    obtain bh1 where p: "Mod_db_put L bh (KEY_IP (gt_ip t)) ?wv = Some (GREYDB_OK, bh1)"
      using put_total [OF ready, of "KEY_IP (gt_ip t)"] nul by auto
    have "bdb_view content bh1 k \<noteq> None" using put_driver [OF p ready] nul k t by simp
    then show ?thesis
      using del [of bh] del [of bh1] k x a p t by (auto simp: scan_entry_def Let_def split: prod.splits)
  next
    case False
    then show ?thesis
      using del [of bh] k by (cases k) (auto simp: scan_entry_def add_white_def Let_def split: prod.splits)
  qed
qed

lemma scan_loop_total:
  assumes "loop_inv check now w m0 U sv start c S A Tr st" and "0 < w" and "bc_curr itr = [c]"
  shows "scan_loop L check now w itr st \<noteq> None"
  using assms
proof (induction "card (U - c_seen c)" arbitrary: c S A Tr st itr rule: less_induct)
  case less
  obtain bh ls where st: "st = (bh, ls)" by (metis surj_pair)
  have ready: "bdb_ready content backup bh" using loop_invD(1) less.prems(1) st by blast
  obtain ret kv itr' where n: "Mod_db_itr_next L (fst st) itr = Some (ret, kv, itr')"
    using next_total [OF ready less.prems(3)] st by (auto simp: not_None_eq)
  have fin: "finite U" using less.prems(1) by (simp add: loop_inv_def)
  show ?case
  proof (cases "ret = GREYDB_FOUND")
    case False
    then show ?thesis using n by (subst scan_loop.simps) simp
  next
    case True
    with scan_round [OF less.prems(1-3) n] obtain k v c' where kv: "kv = Some (k, v)" "bc_curr itr' = [c']"
        "packed k \<in> U - c_seen c" "c_seen c' = insert (packed k) (c_seen c)" "moved c itr' c' k" "bdb_view content bh k = Some v"
      and inv: "\<forall>stop st'. scan_entry L check now w itr' k v st = Some (stop, st') \<longrightarrow>
           stop = None \<and> (\<exists>A' Tr'. loop_inv check now w m0 U sv start c' (insert k S) A' Tr' st')"
      using st by auto
    obtain stop st1 where e: "scan_entry L check now w itr' k v st = Some (stop, st1)"
      using scan_entry_total [OF ready kv(5,6), of check now w ls] st by (auto simp: not_None_eq)
    from inv [rule_format, OF e] obtain A1 Tr1 where s: "stop = None" "loop_inv check now w m0 U sv start c' (insert k S) A1 Tr1 st1" by blast
    have "U - c_seen c' \<subset> U - c_seen c" using kv(3,4) by auto
    then have "card (U - c_seen c') < card (U - c_seen c)" using fin by (simp add: psubset_card_mono)
    then have "scan_loop L check now w itr' st1 \<noteq> None" using less.hyps [OF _ s(2) less.prems(2) kv(2)] by blast
    then show ?thesis using n True kv(1) e s(1) by (subst scan_loop.simps) simp
  qed
qed

lemma scan_total:
  assumes "bdb_ready content backup bh" and "0 < w"
  shows "\<exists>bh' W' W6' T'. Mod_scan_db L check bh now W W6 T w = Some (GREYDB_OK, bh', W', W6', T')"
proof -
  obtain c where c: "open_cursor L bh File_db = Some c" using cursor_total assms(1) by blast
  obtain r st' where l: "scan_loop L check now w \<lparr>bc_curr = [c], itr_current = - 1\<rparr> (bh, W, W6, T) = Some (r, st')"
    using scan_loop_total [OF loop_inv_start [OF c assms(1)] assms(2)] by fastforce
  moreover have "r = GREYDB_OK" using scan_loop_correct [OF loop_inv_start [OF c assms(1)] assms(2) _ l] by simp
  ultimately show ?thesis
    using c by (cases st') (auto simp: Mod_scan_db_def entries_itr)
qed

lemma partial_dom_loop_total:
  assumes "bdb_ready content backup bh" and "bc_curr itr = [c]" and "c_file c = File_domains"
  shows "partial_dom_loop L bh part itr m \<noteq> None"
  using assms
proof (induction "card (dom (content (bh_env bh) File_domains) - c_seen c)" arbitrary: c itr m rule: less_induct)
  case less
  let ?D = "dom (content (bh_env bh) File_domains)"
  obtain ret kv itr' where n: "Mod_db_itr_next L bh itr = Some (ret, kv, itr')"
    using next_total [OF less.prems(1,2)] by (auto simp: not_None_eq)
  show ?case
  proof (cases "ret = GREYDB_NOT_FOUND")
    case True
    then show ?thesis using n by (subst partial_dom_loop.simps) simp
  next
    case False
    with next_driver [OF n less.prems(1,2)] less.prems(3) obtain k v c' where k: "kv = Some (k, v)" "key_ok k"
        "bdb_view content bh k = Some v" "bc_curr itr' = [c']" "packed k \<notin> c_seen c" "key_file k = File_domains"
        "c_seen c' = insert (packed k) (c_seen c)" "c_file c' = File_domains" by auto
    have "packed k \<in> ?D" using k(2,3,6) view_content by auto
    then have "?D - c_seen c' \<subset> ?D - c_seen c" using k(5,7) by auto
    then have "card (?D - c_seen c') < card (?D - c_seen c)" using finite_content by (simp add: psubset_card_mono)
    then have "partial_dom_loop L bh part itr' m' \<noteq> None" for m' using less.hyps [OF _ less.prems(1) k(4,8)] by blast
    moreover obtain s where "k = KEY_DOM s" using k(2,6) by (cases k) auto
    ultimately show ?thesis using n False k(1) by (subst partial_dom_loop.simps) simp
  qed
qed

lemma partial_total:
  assumes "bdb_ready content backup bh"
  shows "\<exists>r vo. Mod_db_get L bh (KEY_DOM_PART s) = Some (r, vo) \<and> r \<noteq> GREYDB_ERR"
proof -
  obtain c where c: "open_cursor L bh File_domains = Some c" using cursor_total assms by blast
  moreover obtain m where "partial_dom_loop L bh s \<lparr>bc_curr = [c], itr_current = - 1\<rparr> False = Some m"
    using partial_dom_loop_total [OF assms _ open_cursor_driver(1) [OF c assms]] by fastforce
  ultimately show ?thesis by (auto simp: Mod_db_get_def check_partial_dom_def domains_itr greydb_codes)
qed

lemma txn_total:
  assumes "bdb_inv content backup bh"
  shows "Mod_db_open L bh f \<noteq> None" and "Mod_db_start_txn L bh \<noteq> None" and "Mod_db_commit_txn L bh \<noteq> None"
  using open_ok [of "bh_env bh" f] begin_ok [of "bh_env bh"] commit_ok [of "bh_env bh"]
  by (auto simp: Mod_db_open_def Mod_db_start_txn_def Mod_db_commit_txn_def split: prod.splits)

end

sublocale bdb_live \<subseteq> drv: greydb_live "bdb_driver L check" "bdb_inv content backup" "bdb_ready content backup"
  "bdb_view content" "bdb_saved backup" "\<lambda>s. check s = uint AF_INET6" key_ok "\<lambda>now m. True" for check
proof
  fix h f m k s v now wexp W W6 T
  show "bdb_inv content backup h \<Longrightarrow> DB_open (bdb_driver L check) h f \<noteq> None"
    using txn_total(1) by (simp add: driver_fields)
  show "bdb_ready content backup h \<Longrightarrow> bdb_saved backup h = None \<Longrightarrow> DB_start_txn (bdb_driver L check) h \<noteq> None"
    using txn_total(2) by (simp add: driver_fields bdb_ready_def)
  show "bdb_ready content backup h \<Longrightarrow> bdb_saved backup h = Some m \<Longrightarrow> DB_commit_txn (bdb_driver L check) h \<noteq> None"
    using txn_total(3) by (simp add: driver_fields bdb_ready_def)
  show "bdb_ready content backup h \<Longrightarrow> key_ok k \<or> k = KEY_DOM_PART s \<Longrightarrow>
      \<exists>r vo. DB_get (bdb_driver L check) h k = Some (r, vo) \<and> r \<noteq> GREYDB_ERR"
    using get_total [of h k] partial_total [of h s] by (auto simp: driver_fields)
  show "bdb_ready content backup h \<Longrightarrow> key_ok k \<Longrightarrow> entry_key k \<Longrightarrow> val_type v = DB_VAL_GREY \<Longrightarrow>
      \<exists>h'. DB_put (bdb_driver L check) h k v = Some (GREYDB_OK, h')"
    using put_total by (simp add: driver_fields)
  show "bdb_ready content backup h \<Longrightarrow> key_ok k \<Longrightarrow> \<exists>r h'. DB_del (bdb_driver L check) h k = Some (r, h') \<and> r \<noteq> GREYDB_ERR"
    using del_total [of h k] del_driver [of h k] by (fastforce simp: driver_fields greydb_codes)
  show "bdb_ready content backup h \<Longrightarrow> 0 < wexp \<Longrightarrow> True \<Longrightarrow>
      \<exists>h' W' W6' T'. DB_scan (bdb_driver L check) h now W W6 T wexp = Some (GREYDB_OK, h', W', W6', T')"
    using scan_total by (simp add: driver_fields)
qed

sublocale bdb_live \<subseteq> drv: greydb_admin "bdb_driver L check" "bdb_inv content backup" "bdb_ready content backup"
  "bdb_view content" "bdb_saved backup" "\<lambda>s. check s = uint AF_INET6" key_ok "\<lambda>now m. True" for check
proof
  fix h h' k v r
  show "DB_put (bdb_driver L check) h k v = Some (r, h') \<Longrightarrow> bdb_ready content backup h \<Longrightarrow> key_ok k \<Longrightarrow>
      val_type v = DB_VAL_GREY \<Longrightarrow> bdb_ready content backup h' \<and> bdb_saved backup h' = bdb_saved backup h \<and>
      (r = GREYDB_OK \<and> bdb_view content h' = (bdb_view content h)(k \<mapsto> v) \<or> r = GREYDB_ERR \<and> bdb_view content h' = bdb_view content h)"
    using put_driver [of h k v r h'] by (simp add: driver_fields)
  show "bdb_ready content backup h \<Longrightarrow> key_ok k \<Longrightarrow> val_type v = DB_VAL_GREY \<Longrightarrow>
      \<exists>h'. DB_put (bdb_driver L check) h k v = Some (GREYDB_OK, h')"
    using put_total by (simp add: driver_fields)
qed

context bdb_library
begin

lemma drv_contract: "greydb (bdb_driver L check) (bdb_inv content backup) (bdb_ready content backup)
    (bdb_view content) (bdb_saved backup) (\<lambda>s. check s = uint AF_INET6) key_ok (\<lambda>now m. True)"
  by unfold_locales

end

context bdb_live
begin

lemma drv_live: "greydb_live (bdb_driver L check) (bdb_inv content backup) (bdb_ready content backup)
    (bdb_view content) (bdb_saved backup) (\<lambda>s. check s = uint AF_INET6) key_ok (\<lambda>now m. True)"
  by unfold_locales

lemma drv_admin: "greydb_admin (bdb_driver L check) (bdb_inv content backup) (bdb_ready content backup)
    (bdb_view content) (bdb_saved backup) (\<lambda>s. check s = uint AF_INET6) key_ok (\<lambda>now m. True)"
  by unfold_locales

end

section \<open>An instance of the library\<close>

text \<open>
  Files kept in memory as association lists, with a copy made when a transaction begins. A cursor
  walks over the keys its file had when it was opened. It instantiates the parameter and shows that
  the laws can hold.
\<close>

record mem_env =
  mem_files :: "bdb_file \<Rightarrow> (char list \<times> DB_val) list"
  mem_backup :: "(bdb_file \<Rightarrow> (char list \<times> DB_val) list) option"

record mem_cursor =
  mc_file :: bdb_file
  mc_start :: "char list list"
  mc_seen :: "char list list"

definition mem_content :: "mem_env \<Rightarrow> bdb_content" where
  "mem_content e f = map_of (mem_files e f)"

definition mem_zero :: DB_val where
  "mem_zero = \<lparr>val_type = 0, val_gd = \<lparr>gd_first = 0, gd_pass = 0, gd_expire = 0, gd_bcount = 0, gd_pcount = 0\<rparr>\<rparr>"

definition mem_set :: "bdb_file \<Rightarrow> char list \<Rightarrow> DB_val option \<Rightarrow> mem_env \<Rightarrow> mem_env" where
  "mem_set f k x e = e\<lparr>mem_files := (mem_files e)(f :=
     (case x of None \<Rightarrow> [] | Some v \<Rightarrow> [(k, v)]) @ filter (\<lambda>p. fst p \<noteq> k) (mem_files e f))\<rparr>"

definition mem_lib :: "(mem_env, mem_cursor) bdb_lib" where
  "mem_lib =
     \<lparr>lib_notfound = - 30988,
      lib_open = \<lambda>e fl. (0, e),
      lib_txn_begin = \<lambda>e. (0, e\<lparr>mem_backup := Some (mem_files e)\<rparr>),
      lib_txn_commit = \<lambda>e. (0, e\<lparr>mem_backup := None\<rparr>),
      lib_txn_abort = \<lambda>e. (0, case mem_backup e of None \<Rightarrow> e | Some m \<Rightarrow> e\<lparr>mem_files := m, mem_backup := None\<rparr>),
      lib_put = \<lambda>f x k v e. (0, mem_set f k (Some v) e),
      lib_get = \<lambda>f x k e. (case map_of (mem_files e f) k of None \<Rightarrow> (- 30988, mem_zero) | Some v \<Rightarrow> (0, v)),
      lib_del = \<lambda>f x k e. (case map_of (mem_files e f) k of None \<Rightarrow> (- 30988, e) | Some v \<Rightarrow> (0, mem_set f k None e)),
      lib_cursor = \<lambda>f x e. (0, \<lparr>mc_file = f, mc_start = map fst (mem_files e f), mc_seen = []\<rparr>),
      lib_c_next = \<lambda>c e. (case find (\<lambda>k. k \<notin> set (mc_seen c) \<and> map_of (mem_files e (mc_file c)) k \<noteq> None) (mc_start c) of
          None \<Rightarrow> (- 30988, [], mem_zero, c)
        | Some k \<Rightarrow> (0, k, the (map_of (mem_files e (mc_file c)) k), c\<lparr>mc_seen := k # mc_seen c\<rparr>)),
      lib_c_put = \<lambda>c v e. (case mc_seen c of [] \<Rightarrow> (22, e) | k # ks \<Rightarrow> (0, mem_set (mc_file c) k (Some v) e)),
      lib_c_del = \<lambda>c e. (case mc_seen c of [] \<Rightarrow> (22, e) | k # ks \<Rightarrow> (0, mem_set (mc_file c) k None e))\<rparr>"

definition mem_at :: "mem_cursor \<Rightarrow> char list option" where
  "mem_at c = (case mc_seen c of [] \<Rightarrow> None | k # ks \<Rightarrow> Some k)"

lemma mem_set_content: "mem_content (mem_set f k x e) = (mem_content e)(f := (mem_content e f)(k := x))"
proof -
  have "map_of (filter (\<lambda>p. fst p \<noteq> k) xs) = (map_of xs)(k := None)" for xs :: "(char list \<times> DB_val) list"
    by (induction xs) (auto simp: fun_eq_iff)
  then show ?thesis by (cases x) (auto simp: mem_content_def mem_set_def fun_eq_iff)
qed

lemma mem_set_backup [simp]: "mem_backup (mem_set f k x e) = mem_backup e"
  by (simp add: mem_set_def)

definition mem_backup_content :: "mem_env \<Rightarrow> bdb_content option" where
  "mem_backup_content e = map_option (\<lambda>m f. map_of (m f)) (mem_backup e)"

lemma mem_simps:
  "map_of (mem_files e f) k = mem_content e f k"
  "mem_content (e\<lparr>mem_backup := b\<rparr>) = mem_content e"
  "mem_content (e\<lparr>mem_files := m, mem_backup := b\<rparr>) = (\<lambda>f. map_of (m f))"
  "mem_content (e\<lparr>mem_files := m\<rparr>) = (\<lambda>f. map_of (m f))"
  "fst ` set (mem_files e f) = dom (mem_content e f)"
  "mem_backup_content e = map_option (\<lambda>m f. map_of (m f)) (mem_backup e)"
  "(\<lambda>f. map_of (mem_files e f)) = mem_content e"
  by (auto simp: mem_content_def fun_eq_iff dom_map_of_conv_image_fst mem_backup_content_def)

interpretation mem: bdb_live mem_lib mem_content mem_backup_content mc_file "set \<circ> mc_start" "set \<circ> mc_seen" mem_at
proof
  show "lib_notfound mem_lib \<noteq> 0" by (simp add: mem_lib_def)
  show "finite (dom (mem_content e f))" for e f by (simp add: mem_content_def finite_dom_map_of)
  show "lib_c_next mem_lib c e = (0, k, v, c') \<Longrightarrow>
      mem_content e (mc_file c) k = Some v \<and> k \<notin> (set \<circ> mc_seen) c \<and> mem_at c' = Some k \<and>
      (set \<circ> mc_seen) c' = insert k ((set \<circ> mc_seen) c) \<and> mc_file c' = mc_file c \<and> (set \<circ> mc_start) c' = (set \<circ> mc_start) c"
    for c e k v c'
    by (auto simp: mem_lib_def mem_content_def mem_at_def find_Some_iff split: option.splits)
  show "lib_c_next mem_lib c e = (lib_notfound mem_lib, k, v, c') \<Longrightarrow>
      (set \<circ> mc_start) c \<inter> dom (mem_content e (mc_file c)) \<subseteq> (set \<circ> mc_seen) c" for c e k v c'
    by (auto simp: mem_lib_def mem_content_def find_None_iff split: option.splits)
qed (auto simp: mem_lib_def mem_set_content mem_simps mem_at_def split: option.splits list.splits)

text \<open>A handle on files in memory with the given entries.\<close>

definition mem_handle :: "(DB_key \<times> DB_val) list \<Rightarrow> mem_env bdb_handle" where
  "mem_handle kvs =
     \<lparr>bh_env = \<lparr>mem_files = (\<lambda>f. map (\<lambda>(k, v). (packed k, v)) (filter (\<lambda>(k, v). key_file k = f) kvs)), mem_backup = None\<rparr>,
      bh_open = False, bh_txn = False\<rparr>"

lemma mem_handle_inv:
  assumes "\<forall>(k, v)\<in>set kvs. key_ok k \<and> val_type v = DB_VAL_GREY"
  shows "bdb_inv mem_content mem_backup_content (mem_handle kvs)" and "bdb_saved mem_backup_content (mem_handle kvs) = None"
proof -
  have "val_type v = DB_VAL_GREY \<and> (\<exists>k. key_ok k \<and> key_file k = f \<and> b = packed k)"
    if "mem_content (bh_env (mem_handle kvs)) f b = Some v" for f b v
  proof -
    have "(b, v) \<in> set (mem_files (bh_env (mem_handle kvs)) f)"
      using map_of_SomeD that by (simp add: mem_content_def)
    then obtain k where "(k, v) \<in> set kvs" "key_file k = f" "b = packed k"
      by (auto simp: mem_handle_def)
    then show ?thesis using assms by blast
  qed
  then have "content_wf (mem_content (bh_env (mem_handle kvs)))" unfolding content_wf_def by blast
  then show "bdb_inv mem_content mem_backup_content (mem_handle kvs)" "bdb_saved mem_backup_content (mem_handle kvs) = None"
    by (simp_all add: bdb_inv_def bdb_saved_def mem_backup_content_def mem_handle_def)
qed

lemma mem_handle_view:
  assumes "\<forall>(k, v)\<in>set kvs. key_ok k" and "key_ok k"
  shows "bdb_view mem_content (mem_handle kvs) k = map_of kvs k"
proof -
  have "map_of (map (\<lambda>(k, v). (packed k, v)) (filter (\<lambda>(j, v). key_file j = key_file k) kvs)) (packed k) = map_of kvs k"
    using assms(1)
  proof (induction kvs)
    case (Cons kv kvs)
    obtain j v where "kv = (j, v)" by fastforce
    then show ?case using Cons packed_inject [of j k] assms(2) by (cases "j = k") simp_all
  qed simp
  then show ?thesis using assms(2) by (simp add: bdb_view_def content_view_def mem_content_def mem_handle_def)
qed

section \<open>Properties\<close>

text \<open>
  The packed form of a key determines it: \<open>unpack_key\<close> returns every address, spamtrap, domain
  and tuple key that \<open>pack_key\<close> packed, and different keys have different packed forms.
\<close>

theorem pack_key_roundtrip:
  assumes "key_ok k"
  shows "Option.bind (pack_key k) unpack_key = Some k \<and> (\<forall>j. key_ok j \<longrightarrow> pack_key j = pack_key k \<longrightarrow> j = k)"
proof -
  have "j = k" if "key_ok j" "pack_key j = pack_key k" for j
    using that unpack_pack_key [OF assms] unpack_pack_key [OF that(1)] by auto
  then show ?thesis using unpack_pack_key [OF assms] by auto
qed

text \<open>The statement at a tuple with empty components.\<close>

theorem pack_key_roundtrip_witness:
  "Option.bind (pack_key (KEY_TUPLE \<lparr>gt_ip = ''192.0.2.1'', gt_helo = [], gt_from = [], gt_to = ''x''\<rparr>)) unpack_key =
     Some (KEY_TUPLE \<lparr>gt_ip = ''192.0.2.1'', gt_helo = [], gt_from = [], gt_to = ''x''\<rparr>)"
  using pack_key_roundtrip [of "KEY_TUPLE \<lparr>gt_ip = ''192.0.2.1'', gt_helo = [], gt_from = [], gt_to = ''x''\<rparr>"]
  by (simp add: NUL_def)

text \<open>
  C10. The Berkeley DB driver implements the database interface: on a library that keeps its
  documented laws and whose calls succeed, its functions keep the handle's invariant, \<open>db_put\<close>,
  \<open>db_get\<close> and \<open>db_del\<close> act on the view as on a map from keys to values, partial domains are looked
  up by suffix, an aborted transaction restores the view at its start, and no operation fails or ends
  the process.
\<close>

theorem bdb_driver_refines:
  assumes "bdb_live L content backup c_file c_start c_seen c_at"
  shows "greydb_live (bdb_driver L check) (bdb_inv content backup) (bdb_ready content backup)
    (bdb_view content) (bdb_saved backup) (\<lambda>s. check s = uint AF_INET6) key_ok (\<lambda>now m. True)"
  using bdb_live.drv_live [OF assms] .

text \<open>C10 on files in memory.\<close>

theorem bdb_driver_refines_witness:
  "greydb_live (bdb_driver mem_lib (\<lambda>s. 2)) (bdb_inv mem_content mem_backup_content) (bdb_ready mem_content mem_backup_content)
    (bdb_view mem_content) (bdb_saved mem_backup_content) (\<lambda>s. 2 = uint AF_INET6) key_ok (\<lambda>now m. True)"
  using bdb_driver_refines [OF mem.bdb_live_axioms, of "\<lambda>s. 2"] .

text \<open>
  C9. The scan of the Berkeley DB driver ends and does what it has to, whatever the order in which
  the library returns the entries: the traplist gets exactly the addresses with a trap that has not
  expired; none of them is whitelisted; every address with a valid white entry, and every address
  of a tuple past its pass time that has no trap entry, is whitelisted, the latter with an
  address entry made from such a tuple and valid for the white expiry time; whatever is whitelisted has one of these reasons and
  has a valid white entry afterwards. The entry of an address is left as it was, unless it has expired and goes or is renewed by such a tuple of the address; a tuple is left
  as it was, unless it has expired or its address was whitelisted, and goes; no expired
  entry is left; spam traps and domains stay.
\<close>

theorem Mod_scan_db_exact:
  assumes "bdb_live L content backup c_file c_start c_seen c_at" and "bdb_ready content backup bh" and "0 < white_exp"
  shows "\<exists>bh' W' W6' T' A Tr.
    Mod_scan_db L check bh now W W6 T white_exp = Some (GREYDB_OK, bh', W', W6', T') \<and> bdb_ready content backup bh' \<and>
    scan_lists (\<lambda>s. check s = uint AF_INET6) (W, W6, T) A Tr (W', W6', T') \<and>
    scan_spec now white_exp (bdb_view content bh) (bdb_view content bh') (set A) (set Tr)"
proof -
  obtain bh' W' W6' T' where s: "Mod_scan_db L check bh now W W6 T white_exp = Some (GREYDB_OK, bh', W', W6', T')"
    using bdb_live.scan_total [OF assms] by blast
  then show ?thesis
    using bdb_library.scan_driver [OF bdb_live.axioms(1) [OF assms(1)] s assms(2,3)] by blast
qed

text \<open>The example: one tuple past its pass time.\<close>

definition example_tuple :: Grey_tuple where
  "example_tuple = \<lparr>gt_ip = ''192.0.2.1'', gt_helo = ''h'', gt_from = ''f'', gt_to = ''t''\<rparr>"

definition example_val :: DB_val where
  "example_val = \<lparr>val_type = DB_VAL_GREY, val_gd = \<lparr>gd_first = 0, gd_pass = 1600, gd_expire = 14400, gd_bcount = 2, gd_pcount = 0\<rparr>\<rparr>"

lemma example_tuple_ok: "key_ok (KEY_TUPLE example_tuple)"
  by (simp add: example_tuple_def NUL_def)

text \<open>C9 on a database with one tuple past its pass time.\<close>

theorem Mod_scan_db_exact_witness:
  "\<exists>bh bh' W' W6' T'. Mod_scan_db mem_lib (\<lambda>s. 2) bh 1700 List_create List_create List_create 60 = Some (GREYDB_OK, bh', W', W6', T') \<and>
     bdb_view mem_content bh (KEY_TUPLE example_tuple) = Some example_val \<and> ''192.0.2.1'' \<in> set (list_head W')"
proof -
  let ?bh = "(mem_handle [(KEY_TUPLE example_tuple, example_val)])\<lparr>bh_open := True\<rparr>"
  have view: "bdb_view mem_content ?bh k = (if k = KEY_TUPLE example_tuple then Some example_val else None)" if "key_ok k" for k
    using mem_handle_view [of "[(KEY_TUPLE example_tuple, example_val)]" k] example_tuple_ok that by (simp add: bdb_view_def)
  have "bdb_ready mem_content mem_backup_content ?bh"
    using mem_handle_inv(1) [of "[(KEY_TUPLE example_tuple, example_val)]"] example_tuple_ok
    by (simp add: bdb_ready_def bdb_inv_def example_val_def)
  from Mod_scan_db_exact [OF mem.bdb_live_axioms this, of 60 "\<lambda>s. 2" 1700 List_create List_create List_create]
  obtain bh' W' W6' T' A Tr where s: "Mod_scan_db mem_lib (\<lambda>s. 2) ?bh 1700 List_create List_create List_create 60 = Some (GREYDB_OK, bh', W', W6', T')"
      "scan_lists (\<lambda>s. 2 = uint AF_INET6) (List_create, List_create, List_create) A Tr (W', W6', T')"
      "scan_spec 1700 60 (bdb_view mem_content ?bh) (bdb_view mem_content bh') (set A) (set Tr)" by auto
  have "ip_passes 1700 (bdb_view mem_content ?bh) ''192.0.2.1''"
    using view [OF example_tuple_ok] unfolding ip_passes_def
    by (intro exI [of _ example_tuple]) (simp add: example_tuple_def example_val_def val_passes_def val_expired_def)
  then have "''192.0.2.1'' \<in> set A"
    using scan_specD(3) [OF s(3)] view [of "KEY_IP ''192.0.2.1''"] by (simp add: NUL_def)
  then have "''192.0.2.1'' \<in> set (list_head W')"
    using s(2) by (auto simp: scan_lists_def AF_INET6_def)
  then show ?thesis using s(1) view [OF example_tuple_ok]
    by (intro exI [of _ ?bh] exI [of _ bh'] exI [of _ W'] exI [of _ W6'] exI [of _ T']) simp
qed

end
