(* ===== verification/Grey.thy ===== *)
theory Grey
  imports Greyd Bdb
begin

text \<open>
  Models \<open>src/src/grey.c\<close>, the greylisting engine: its setup from the configuration, the permitted
  domains, the trap check, the processing of grey, trap and white messages, the reader that parses
  them from the pipe of the main process and the scan that updates the traplist and the firewall.

  The database is reached through the functions \<open>D\<close> of its handle. The current time is an argument.
  The pipes to the firewall and the main process are the text written so far, \<open>None\<close> when they are
  closed; synchronisation messages are collected in a list when there is a sync engine. The SPF
  library and \<open>IP_check_addr\<close>'s resolver are parameters. Forking, signals and privileges are not
  modelled.
\<close>

section \<open>The greylister\<close>

datatype sync_msg = Msg_trapped string int int int | Msg_update Grey_tuple int

record 'h Greylister_T =
  gl_config :: Config_T
  gl_shutdown :: bool
  gl_low_prio_mx :: "string option"
  gl_traplist_name :: string
  gl_traplist_msg :: string
  gl_whitelist_name :: string
  gl_whitelist_name_ipv6 :: string
  gl_whitelist :: "string List_T"
  gl_whitelist_ipv6 :: "string List_T"
  gl_traplist :: "string List_T"
  gl_domains :: "string List_T"
  gl_trap_out :: "string option"
  gl_fw_out :: "string option"
  gl_startup :: int
  gl_grey_exp :: int
  gl_trap_exp :: int
  gl_white_exp :: int
  gl_pass_time :: int
  gl_db :: 'h
  gl_syncer :: "sync_msg list option"
  gl_spf_server :: bool

definition GREY_MAX_MAIL :: nat where "GREY_MAX_MAIL = 1024"
definition GREY_MSG_GREY :: int where "GREY_MSG_GREY = 1"
definition GREY_MSG_TRAP :: int where "GREY_MSG_TRAP = 2"
definition GREY_MSG_WHITE :: int where "GREY_MSG_WHITE = 3"
definition GREY_PASSTIME :: int where "GREY_PASSTIME = 60 * 25"
definition GREY_GREYEXP :: int where "GREY_GREYEXP = 60 * 60 * 4"
definition GREY_WHITEEXP :: int where "GREY_WHITEEXP = 60 * 60 * 24 * 36"
definition GREY_TRAPEXP :: int where "GREY_TRAPEXP = 60 * 60 * 24"
definition GREY_TRAP_NAME :: string where "GREY_TRAP_NAME = ''greyd-greytrap''"
definition GREY_TRAP_MSG :: string where "GREY_TRAP_MSG = ''Your address %A has mailed to spamtraps here''"
definition GREY_WHITE_NAME :: string where "GREY_WHITE_NAME = ''greyd-whitelist''"
definition GREY_WHITE_NAME_IPV6 :: string where "GREY_WHITE_NAME_IPV6 = ''greyd-whitelist-ipv6''"

lemmas grey_msgs = GREY_MSG_GREY_def GREY_MSG_TRAP_def GREY_MSG_WHITE_def

section \<open>Permitted domains\<close>

text \<open>\<open>fgets\<close>: up to \<open>n\<close> characters of the stream, ending with the first newline.\<close>

fun fgets :: "nat \<Rightarrow> string \<Rightarrow> string \<times> string" where
  "fgets 0 cs = ([], cs)"
| "fgets (Suc n) [] = ([], [])"
| "fgets (Suc n) (c # cs) =
     (if c = CHR 0x0A then ([c], cs) else (let (l, rest) = fgets n cs in (c # l, rest)))"

lemma fgets_split: "fgets n cs = (l, rest) \<Longrightarrow> cs = l @ rest"
  by (induction n cs arbitrary: l rest rule: fgets.induct) (auto split: if_splits prod.splits)

lemma fgets_progress: "cs \<noteq> [] \<Longrightarrow> length (snd (fgets (Suc n) cs)) < length cs"
  using fgets_split by (cases cs) (auto split: prod.splits, fastforce)

text \<open>The loop that moves \<open>dp\<close> back over white space, and the line that is left.\<close>

fun trim_back :: "string \<Rightarrow> nat \<Rightarrow> int" where
  "trim_back line 0 = - 1"
| "trim_back line (Suc p) = (if p > 0 \<and> char_isspace (line ! p) then trim_back line p else int p)"

definition domain_line :: "string \<Rightarrow> nat \<Rightarrow> string option" where
  "domain_line line newline =
     (let dp = trim_back line newline in
      if dp = 0 then None
      else (let s = dropWhile char_isspace (take (nat (dp + 1)) line) in
            if s = [] \<or> hd s = CHR ''#'' then None else Some s))"

definition newline_pos :: "string \<Rightarrow> nat option" where
  "newline_pos line =
     (let s = c_str line in if CHR 0x0A \<in> set s then Some (length (takeWhile (\<lambda>c. c \<noteq> CHR 0x0A) s)) else None)"

function load_lines :: "string \<Rightarrow> bool \<Rightarrow> string List_T \<Rightarrow> string List_T" where
  "load_lines cs overflow domains =
     (if cs = [] then domains
      else (let (line, rest) = fgets (GREY_MAX_MAIL - 1) cs in
            case newline_pos line of
              None \<Rightarrow> load_lines rest True domains
            | Some p \<Rightarrow>
                if overflow then load_lines rest False domains
                else (case domain_line line p of
                        None \<Rightarrow> load_lines rest False domains
                      | Some d \<Rightarrow> load_lines rest False (List_insert_after domains d))))"
  by pat_completeness auto
termination
proof (relation "measure (\<lambda>(cs, ov, ds). length cs)", goal_cases)
  case 1
  then show ?case by simp
qed (use fgets_progress [of _ "GREY_MAX_MAIL - 2"] in \<open>auto simp: GREY_MAX_MAIL_def numeral_eq_Suc
      simp del: fgets.simps dest!: arg_cong [of _ _ snd]\<close>)

declare load_lines.simps [simp del]

text \<open>\<open>fopen\<close> yields the contents of a file that can be opened.\<close>

definition Grey_load_domains :: "(string \<Rightarrow> string option) \<Rightarrow> 'h Greylister_T \<Rightarrow> 'h Greylister_T option" where
  "Grey_load_domains fopen greylister =
     do { f \<leftarrow> Config_get_str (gl_config greylister) ''permitted_domains'' (Some ''grey'') None;
          Some (case Option.bind f fopen of
                  None \<Rightarrow> greylister
                | Some contents \<Rightarrow>
                    greylister\<lparr>gl_domains := load_lines contents False (snd (List_remove_all (gl_domains greylister)))\<rparr>) }"

text \<open>\<open>Grey_setup\<close>; the database handle is made later and is an argument.\<close>

definition Grey_setup :: "(string \<Rightarrow> string option) \<Rightarrow> Config_T \<Rightarrow> 'h \<Rightarrow> 'h Greylister_T option" where
  "Grey_setup fopen config db =
     do { tn \<leftarrow> Config_get_str config ''traplist_name'' (Some ''grey'') (Some GREY_TRAP_NAME);
          tm \<leftarrow> Config_get_str config ''traplist_message'' (Some ''grey'') (Some GREY_TRAP_MSG);
          wn \<leftarrow> Config_get_str config ''whitelist_name'' (Some ''grey'') (Some GREY_WHITE_NAME);
          wn6 \<leftarrow> Config_get_str config ''whitelist_name_ipv6'' (Some ''grey'') (Some GREY_WHITE_NAME_IPV6);
          ge \<leftarrow> Config_get_int config ''grey_expiry'' (Some ''grey'') GREY_GREYEXP;
          we \<leftarrow> Config_get_int config ''white_expiry'' (Some ''grey'') GREY_WHITEEXP;
          te \<leftarrow> Config_get_int config ''trap_expiry'' (Some ''grey'') GREY_TRAPEXP;
          pt \<leftarrow> Config_get_int config ''pass_time'' (Some ''grey'') GREY_PASSTIME;
          mx \<leftarrow> Config_get_str config ''low_prio_mx'' None (Some ''grey'');
          tn' \<leftarrow> tn; tm' \<leftarrow> tm; wn' \<leftarrow> wn; wn6' \<leftarrow> wn6;
          Grey_load_domains fopen
            \<lparr>gl_config = config, gl_shutdown = False, gl_low_prio_mx = mx, gl_traplist_name = tn', gl_traplist_msg = tm',
             gl_whitelist_name = wn', gl_whitelist_name_ipv6 = wn6', gl_whitelist = List_create,
             gl_whitelist_ipv6 = List_create, gl_traplist = List_create, gl_domains = List_create,
             gl_trap_out = None, gl_fw_out = None, gl_startup = - 1, gl_grey_exp = ge, gl_trap_exp = te,
             gl_white_exp = we, gl_pass_time = pt, gl_db = db, gl_syncer = None, gl_spf_server = False\<rparr> }"

section \<open>Traps and SPF\<close>

text \<open>0 for a spamtrap, 1 for no trap, -1 for a database error.\<close>

definition trap_check :: "'h DB_handle_T \<Rightarrow> 'h Greylister_T \<Rightarrow> string \<Rightarrow> int option" where
  "trap_check D greylister to =
     (let listed = List_size (Some (gl_domains greylister)) > 0;
          m = (listed \<and> (\<exists>domain\<in>set (list_head (gl_domains greylister)). dom_matches to domain))
      in do { dbp \<leftarrow> (if m then Some 0 else Config_get_int (gl_config greylister) ''db_permitted_domains'' (Some ''grey'') 0);
              m' \<leftarrow> (if \<not> m \<and> dbp \<noteq> 0
                     then do { (ret, val) \<leftarrow> DB_get D (gl_db greylister) (KEY_DOM_PART to); Some (ret = GREYDB_FOUND) }
                     else Some m);
              if (listed \<or> \<not> m \<and> dbp \<noteq> 0) \<and> \<not> m' then Some 0
              else do { (ret, val) \<leftarrow> DB_get D (gl_db greylister) (KEY_MAIL to);
                        Some (if ret = GREYDB_FOUND then 0 else if ret = GREYDB_NOT_FOUND then 1 else - 1) } })"

datatype SPF_result = SPF_PASS | SPF_NEUTRAL | SPF_NONE | SPF_SOFTFAIL | SPF_FAIL | SPF_OTHER

text \<open>The SPF library: whether a request accepts its address, sender and host name, and the result.\<close>

record spf_lib =
  spf_set_ipv4 :: "string \<Rightarrow> bool"
  spf_set_from :: "string \<Rightarrow> bool"
  spf_set_helo :: "string \<Rightarrow> bool"
  spf_query :: "string \<Rightarrow> string \<Rightarrow> string \<Rightarrow> SPF_result"

definition spf_lookup :: "spf_lib \<Rightarrow> 'h Greylister_T \<Rightarrow> Grey_tuple \<Rightarrow> int option" where
  "spf_lookup spf greylister gt =
     (if \<not> gl_spf_server greylister then Some 1
      else if \<not> spf_set_ipv4 spf (gt_ip gt) \<or> \<not> spf_set_from spf (gt_from gt) \<or> \<not> spf_set_helo spf (gt_helo gt) then Some (- 1)
      else case spf_query spf (gt_ip gt) (gt_from gt) (gt_helo gt) of
        SPF_PASS \<Rightarrow> Some 0
      | SPF_NEUTRAL \<Rightarrow> Some 1
      | SPF_NONE \<Rightarrow> Some 1
      | SPF_SOFTFAIL \<Rightarrow>
          do { t \<leftarrow> Config_get_int (gl_config greylister) ''trap_on_softfail'' (Some ''spf'') 1;
               Some (if t = 0 then 1 else 2) }
      | SPF_FAIL \<Rightarrow> Some 2
      | SPF_OTHER \<Rightarrow> Some (- 1))"

section \<open>Grey messages\<close>

definition grey_val :: "Grey_data \<Rightarrow> DB_val" where
  "grey_val gd = \<lparr>val_type = DB_VAL_GREY, val_gd = gd\<rparr>"

definition rollback :: "'h DB_handle_T \<Rightarrow> 'h Greylister_T \<Rightarrow> 'h Greylister_T option" where
  "rollback D greylister = do { (r, h) \<leftarrow> DB_rollback_txn D (gl_db greylister); Some (greylister\<lparr>gl_db := h\<rparr>) }"

text \<open>The sync message and the commit at the end of a successful update.\<close>

definition grey_finish :: "'h DB_handle_T \<Rightarrow> 'h Greylister_T \<Rightarrow> Grey_tuple \<Rightarrow> bool \<Rightarrow> int \<Rightarrow> bool \<Rightarrow> int \<Rightarrow> 'h Greylister_T option" where
  "grey_finish D greylister gt sync now spamtrap expire =
     (let g1 = (case gl_syncer greylister of
                  Some out \<Rightarrow>
                    if sync
                    then greylister\<lparr>gl_syncer := Some (out @ [if spamtrap then Msg_trapped (gt_ip gt) now (now + expire) 0
                                                              else Msg_update gt now])\<rparr>
                    else greylister
                | None \<Rightarrow> greylister)
      in do { (r, h) \<leftarrow> DB_commit_txn D (gl_db g1); Some (g1\<lparr>gl_db := h\<rparr>) })"

definition low_prio_hit :: "'h Greylister_T \<Rightarrow> bool \<Rightarrow> string \<Rightarrow> int \<Rightarrow> bool" where
  "low_prio_hit greylister sync dst_ip now \<longleftrightarrow>
     sync \<and> gl_low_prio_mx greylister = Some dst_ip \<and> gl_startup greylister + 60 < now"

text \<open>The transaction: insert a new entry or update the one seen before.\<close>

definition grey_update :: "'h DB_handle_T \<Rightarrow> 'h Greylister_T \<Rightarrow> Grey_tuple \<Rightarrow> bool \<Rightarrow> string \<Rightarrow> int \<Rightarrow> bool \<Rightarrow> int \<Rightarrow> DB_key
    \<Rightarrow> 'h Greylister_T option" where
  "grey_update D greylister gt sync dst_ip now spamtrap expire key =
     do { (r, h) \<leftarrow> DB_start_txn D (gl_db greylister);
          (ret, val) \<leftarrow> DB_get D h key;
          if ret = GREYDB_NOT_FOUND
          then (let low = low_prio_hit greylister sync dst_ip now;
                    spamtrap' = (spamtrap \<or> low);
                    expire' = (if low then gl_trap_exp greylister else expire);
                    key' = (if low then KEY_IP (gt_ip gt) else key);
                    gd = \<lparr>gd_first = now, gd_pass = now + expire', gd_expire = now + expire', gd_bcount = 1,
                          gd_pcount = (if spamtrap' then - 1 else 0)\<rparr>
                in do { (ret2, h2) \<leftarrow> DB_put D h key' (grey_val gd);
                        if ret2 = GREYDB_OK
                        then grey_finish D (greylister\<lparr>gl_db := h2\<rparr>) gt sync now spamtrap' expire'
                        else rollback D (greylister\<lparr>gl_db := h2\<rparr>) })
          else if ret = GREYDB_FOUND
          then do { v \<leftarrow> val;
                    (let gd0 = val_gd v;
                         gd1 = gd0\<lparr>gd_bcount := wrap_int (gd_bcount gd0 + 1), gd_pcount := (if spamtrap then - 1 else 0)\<rparr>;
                         gd = (if gd_first gd0 + gl_pass_time greylister < now then gd1\<lparr>gd_pass := now\<rparr> else gd1)
                     in do { (ret2, h2) \<leftarrow> DB_put D h key (v\<lparr>val_gd := gd\<rparr>);
                             if ret2 = GREYDB_OK
                             then grey_finish D (greylister\<lparr>gl_db := h2\<rparr>) gt sync now spamtrap expire
                             else rollback D (greylister\<lparr>gl_db := h2\<rparr>) }) }
          else rollback D (greylister\<lparr>gl_db := h\<rparr>) }"

text \<open>An SPF pass that whitelists the address at once; it runs outside a transaction.\<close>

definition spf_whitelist :: "'h DB_handle_T \<Rightarrow> 'h Greylister_T \<Rightarrow> Grey_tuple \<Rightarrow> int \<Rightarrow> 'h Greylister_T option" where
  "spf_whitelist D greylister gt now =
     do { (ret, h) \<leftarrow> DB_put D (gl_db greylister) (KEY_IP (gt_ip gt))
            (grey_val \<lparr>gd_first = now, gd_pass = now, gd_expire = now + gl_white_exp greylister, gd_bcount = 0, gd_pcount = 0\<rparr>);
          if ret = GREYDB_OK then Some (greylister\<lparr>gl_db := h\<rparr>) else rollback D (greylister\<lparr>gl_db := h\<rparr>) }"

text \<open>\<open>process_grey\<close>; \<open>spf\<close> is \<open>None\<close> when the program is built without SPF.\<close>

definition process_grey :: "'h DB_handle_T \<Rightarrow> spf_lib option \<Rightarrow> 'h Greylister_T \<Rightarrow> Grey_tuple \<Rightarrow> bool \<Rightarrow> string \<Rightarrow> int
    \<Rightarrow> 'h Greylister_T option" where
  "process_grey D spf greylister gt sync dst_ip now =
     do { h \<leftarrow> DB_open D (gl_db greylister) 0;
          let g = greylister\<lparr>gl_db := h\<rparr> in
          do { tc \<leftarrow> trap_check D g (gt_to gt);
               if tc = 1
               then (case spf of
                       Some lib \<Rightarrow>
                         if sync
                         then do { spfres \<leftarrow> spf_lookup lib g gt;
                                   wp \<leftarrow> (if spfres = 0 then Config_get_int (gl_config g) ''whitelist_on_pass'' (Some ''spf'') 0 else Some 0);
                                   if spfres = 0 \<and> wp \<noteq> 0 then spf_whitelist D g gt now
                                   else if spfres = 2
                                   then grey_update D g gt sync dst_ip now True (gl_trap_exp g) (KEY_IP (gt_ip gt))
                                   else grey_update D g gt sync dst_ip now False (gl_grey_exp g) (KEY_TUPLE gt) }
                         else grey_update D g gt sync dst_ip now False (gl_grey_exp g) (KEY_TUPLE gt)
                     | None \<Rightarrow> grey_update D g gt sync dst_ip now False (gl_grey_exp g) (KEY_TUPLE gt))
               else if tc = 0
               then grey_update D g gt sync dst_ip now True (gl_trap_exp g) (KEY_IP (gt_ip gt))
               else rollback D g } }"

section \<open>Trap and white messages\<close>

definition LONG_MAX :: int where "LONG_MAX = 2 ^ 63 - 1"
definition LONG_MIN :: int where "LONG_MIN = - (2 ^ 63)"

fun take_digits :: "string \<Rightarrow> int \<Rightarrow> int \<times> string" where
  "take_digits [] n = (n, [])"
| "take_digits (c # cs) n = (if isdigit_c (char_code c) then take_digits cs (n * 10 + (char_code c - 48)) else (n, c # cs))"

text \<open>\<open>strtol\<close> to base 10: the value, the rest of the string and whether the value is out of range.\<close>

definition strtol :: "string \<Rightarrow> int \<times> string \<times> bool" where
  "strtol s =
     (let s1 = dropWhile char_isspace s;
          (neg, s2) = (case s1 of c # r \<Rightarrow> if c = CHR ''-'' then (True, r) else if c = CHR ''+'' then (False, r) else (False, s1)
                       | [] \<Rightarrow> (False, s1))
      in if s2 \<noteq> [] \<and> isdigit_c (char_code (hd s2))
         then (let (v, rest) = take_digits s2 0; x = (if neg then - v else v)
               in if x > LONG_MAX then (LONG_MAX, rest, True) else if x < LONG_MIN then (LONG_MIN, rest, True) else (x, rest, False))
         else (0, s, False))"

lemma strtol_range: "strtol s = (x, rest, True) \<Longrightarrow> x = LONG_MAX \<or> x = LONG_MIN"
  by (auto simp: strtol_def Let_def split: prod.splits list.splits if_splits)

definition process_non_grey :: "'h DB_handle_T \<Rightarrow> 'h Greylister_T \<Rightarrow> bool \<Rightarrow> string \<Rightarrow> string \<Rightarrow> string \<Rightarrow> bool \<Rightarrow> bool \<Rightarrow> int
    \<Rightarrow> 'h Greylister_T option" where
  "process_non_grey D greylister spamtrap ip source expires sync delete now =
     (let (expire, en, erange) = strtol expires in
      if \<not> delete \<and> (expire = 0 \<or> expires = [] \<or> en \<noteq> [] \<or> erange \<and> (expire = LONG_MAX \<or> expire = LONG_MIN))
      then Some greylister
      else do { h0 \<leftarrow> DB_open D (gl_db greylister) 0;
                (r, h) \<leftarrow> DB_start_txn D h0;
                (ret, val) \<leftarrow> DB_get D h (KEY_IP ip);
                if ret = GREYDB_NOT_FOUND \<or> ret = GREYDB_FOUND
                then do { h2 \<leftarrow>
                            (if ret = GREYDB_NOT_FOUND
                             then if delete then Some h
                                  else map_option snd (DB_put D h (KEY_IP ip)
                                         (grey_val \<lparr>gd_first = now, gd_pass = (if spamtrap then expire else now), gd_expire = expire,
                                                    gd_bcount = 0, gd_pcount = (if spamtrap then - 1 else 0)\<rparr>))
                             else if delete then map_option snd (DB_del D h (KEY_IP ip))
                                  else do { v \<leftarrow> val;
                                            map_option snd (DB_put D h (KEY_IP ip)
                                              (v\<lparr>val_gd :=
                                                   (if spamtrap then (val_gd v)\<lparr>gd_pcount := - 1, gd_bcount := wrap_int (gd_bcount (val_gd v) + 1)\<rparr>
                                                    else (val_gd v)\<lparr>gd_pcount := wrap_int (gd_pcount (val_gd v) + 1)\<rparr>)\<rparr>)) });
                          (r2, h3) \<leftarrow> DB_commit_txn D h2;
                          Some (greylister\<lparr>gl_db := h3\<rparr>) }
                else rollback D (greylister\<lparr>gl_db := h\<rparr>) })"

section \<open>Messages and the reader\<close>

text \<open>A message is handled (0), or has an unknown type (-1).\<close>

definition process_message :: "'h DB_handle_T \<Rightarrow> spf_lib option \<Rightarrow> 'h Greylister_T \<Rightarrow> Config_T \<Rightarrow> int
    \<Rightarrow> (int \<times> 'h Greylister_T) option" where
  "process_message D spf greylister message now =
     do { type \<leftarrow> Config_get_int message ''type'' None (- 1);
          dst \<leftarrow> Config_get_str message ''dst_ip'' None (Some []);
          sync \<leftarrow> Config_get_int message ''sync'' None 1;
          if type = GREY_MSG_GREY
          then do { ip \<leftarrow> Config_get_str message ''ip'' None None;
                    helo \<leftarrow> Config_get_str message ''helo'' None None;
                    from \<leftarrow> Config_get_str message ''from'' None None;
                    to \<leftarrow> Config_get_str message ''to'' None None;
                    case (ip, helo, from, to) of
                      (Some i, Some h, Some f, Some t) \<Rightarrow>
                        do { dst_ip \<leftarrow> dst;
                             g \<leftarrow> process_grey D spf greylister \<lparr>gt_ip = i, gt_helo = h, gt_from = f, gt_to = t\<rparr> (sync \<noteq> 0) dst_ip now;
                             Some (0, g) }
                    | _ \<Rightarrow> Some (0, greylister) }
          else if type = GREY_MSG_TRAP \<or> type = GREY_MSG_WHITE
          then do { ip \<leftarrow> Config_get_str message ''ip'' None None;
                    source \<leftarrow> Config_get_str message ''source'' None None;
                    expires \<leftarrow> Config_get_str message ''expires'' None None;
                    delete \<leftarrow> Config_get_int message ''delete'' None 0;
                    case (ip, source, expires) of
                      (Some i, Some s, Some e) \<Rightarrow>
                        do { g \<leftarrow> process_non_grey D greylister (type = GREY_MSG_TRAP) i s e (sync \<noteq> 0) (delete \<noteq> 0) now;
                             Some (0, g) }
                    | _ \<Rightarrow> Some (0, greylister) }
          else Some (- 1, greylister) }"

text \<open>
  The loop of \<open>Grey_start_reader\<close>. \<open>clock\<close> gives the time at which a message is handled. The reader
  ends on a shutdown request, a parse error or a message of unknown type; the stream reports no
  read errors.
\<close>

partial_function (option) reader_loop :: "'h DB_handle_T \<Rightarrow> spf_lib option \<Rightarrow> (string \<Rightarrow> string list option) \<Rightarrow> (nat \<Rightarrow> int)
    \<Rightarrow> nat \<Rightarrow> Config_parser_T \<Rightarrow> 'h Greylister_T \<Rightarrow> 'h Greylister_T option" where
  "reader_loop D spf glob clock n parser greylister =
     (if gl_shutdown greylister then Some greylister
      else do { (ok, p) \<leftarrow> Config_parser_start glob parser Config_create;
                if ok
                then do { (r, g) \<leftarrow> process_message D spf greylister (cp_config p) (clock n);
                          if r = - 1 then Some g
                          else reader_loop D spf glob clock (n + 1) p g }
                else Some greylister })"

definition Grey_start_reader :: "'h DB_handle_T \<Rightarrow> spf_lib option \<Rightarrow> (string \<Rightarrow> string list option) \<Rightarrow> (nat \<Rightarrow> int)
    \<Rightarrow> Lexer_T \<Rightarrow> int \<Rightarrow> int \<Rightarrow> 'h Greylister_T \<Rightarrow> 'h Greylister_T option" where
  "Grey_start_reader D spf glob clock lexer sectype tok greylister =
     reader_loop D spf glob clock 0 (message_parser lexer sectype tok) greylister"

section \<open>The scanner\<close>

definition replace_text :: "string \<Rightarrow> u16 \<Rightarrow> string list \<Rightarrow> string" where
  "replace_text name af ips =
     ''type='' @ quoted ''replace'' @ [CHR 0x0A] @ ''name='' @ quoted name @ [CHR 0x0A] @
     ''af='' @ dec_digits (unat af) @ [CHR 0x0A] @ ''ips=['' @ print_items ips True @ '']'' @ [CHR 0x0A] @ ''%'' @ [CHR 0x0A]"

definition update_firewall :: "'h Greylister_T \<Rightarrow> u16 \<Rightarrow> 'h Greylister_T" where
  "update_firewall greylister af =
     (let (name, ips) = (if af = AF_INET then (gl_whitelist_name greylister, gl_whitelist greylister)
                         else (gl_whitelist_name_ipv6 greylister, gl_whitelist_ipv6 greylister))
      in case gl_fw_out greylister of
           None \<Rightarrow> greylister
         | Some out \<Rightarrow>
             if List_size (Some ips) > 0
             then greylister\<lparr>gl_fw_out := Some (out @ replace_text name af (list_head ips))\<rparr>
             else greylister)"

definition clear_lists :: "'h Greylister_T \<Rightarrow> 'h Greylister_T" where
  "clear_lists greylister =
     greylister\<lparr>gl_whitelist := snd (List_remove_all (gl_whitelist greylister)),
                gl_whitelist_ipv6 := snd (List_remove_all (gl_whitelist_ipv6 greylister)),
                gl_traplist := snd (List_remove_all (gl_traplist greylister))\<rparr>"

text \<open>The traplist message; writing it to a closed stream is undefined, an empty list writes nothing.\<close>

definition send_traplist :: "(string \<Rightarrow> int) \<Rightarrow> string \<Rightarrow> string \<Rightarrow> string List_T \<Rightarrow> string option \<Rightarrow> string option option" where
  "send_traplist check name msg T out =
     (if List_size (Some T) > 0 then map_option (\<lambda>s. Some (s @ Greyd_send_config check name msg T)) out else Some out)"

definition Grey_scan_db :: "'h DB_handle_T \<Rightarrow> (string \<Rightarrow> int) \<Rightarrow> 'h Greylister_T \<Rightarrow> int \<Rightarrow> (int \<times> 'h Greylister_T) option" where
  "Grey_scan_db D check greylister now =
     do { h0 \<leftarrow> DB_open D (gl_db greylister) 0;
          (r, h) \<leftarrow> DB_start_txn D h0;
          (ret, h1, W, W6, T) \<leftarrow> DB_scan D h now (gl_whitelist greylister) (gl_whitelist_ipv6 greylister)
             (gl_traplist greylister) (gl_white_exp greylister);
          let g = greylister\<lparr>gl_db := h1, gl_whitelist := W, gl_whitelist_ipv6 := W6, gl_traplist := T\<rparr> in
          if ret \<noteq> GREYDB_OK
          then do { (r2, h2) \<leftarrow> DB_rollback_txn D h1; Some (- 1, (clear_lists g)\<lparr>gl_db := h2\<rparr>) }
          else do { (r2, h2) \<leftarrow> DB_commit_txn D h1;
                    trap_out \<leftarrow> send_traplist check (gl_traplist_name g) (gl_traplist_msg g) T (gl_trap_out g);
                    let g1 = g\<lparr>gl_db := h2, gl_trap_out := trap_out\<rparr>;
                        g2 = update_firewall g1 AF_INET in
                    do { v6 \<leftarrow> Config_get_int (gl_config g) ''enable_ipv6'' None 0;
                         Some (0, clear_lists (if v6 \<noteq> 0 then update_firewall g2 AF_INET6 else g2)) } } }"

section \<open>The greylister against the contract of the database\<close>

text \<open>The entry a grey message leaves: the key and value that replace or extend the view \<open>m\<close>.\<close>

definition grey_entry :: "'h Greylister_T \<Rightarrow> Grey_tuple \<Rightarrow> bool \<Rightarrow> string \<Rightarrow> int \<Rightarrow> bool \<Rightarrow> int \<Rightarrow> DB_key \<Rightarrow> db_view \<Rightarrow> DB_key \<times> DB_val" where
  "grey_entry g gt sync dst_ip now spamtrap expire key m =
     (case m key of
        None \<Rightarrow>
          (let low = low_prio_hit g sync dst_ip now; e = (if low then gl_trap_exp g else expire)
           in (if low then KEY_IP (gt_ip gt) else key,
               grey_val \<lparr>gd_first = now, gd_pass = now + e, gd_expire = now + e, gd_bcount = 1,
                         gd_pcount = (if spamtrap \<or> low then - 1 else 0)\<rparr>))
      | Some v \<Rightarrow>
          (key, v\<lparr>val_gd := (val_gd v)\<lparr>gd_bcount := wrap_int (gd_bcount (val_gd v) + 1), gd_pcount := (if spamtrap then - 1 else 0),
                    gd_pass := (if gd_first (val_gd v) + gl_pass_time g < now then now else gd_pass (val_gd v))\<rparr>\<rparr>))"

text \<open>A greylister whose configuration, names, times and streams are those of another.\<close>

definition same_setup :: "'h Greylister_T \<Rightarrow> 'h Greylister_T \<Rightarrow> bool" where
  "same_setup g' g \<longleftrightarrow> g' = g\<lparr>gl_db := gl_db g', gl_syncer := gl_syncer g'\<rparr>"

lemma same_setup_refl [simp]: "same_setup g g"
  and same_setup_db [simp]: "same_setup (g\<lparr>gl_db := h\<rparr>) g"
  and same_setup_sync [simp]: "same_setup (g\<lparr>gl_syncer := s, gl_db := h\<rparr>) g"
  by (cases g; simp add: same_setup_def)+

lemma same_setup_trans: "same_setup g2 g1 \<Longrightarrow> same_setup g1 g \<Longrightarrow> same_setup g2 g"
  by (cases g; cases g1; cases g2) (simp add: same_setup_def)

lemma same_setup_fields:
  assumes "same_setup g' g"
  shows "gl_config g' = gl_config g" "gl_domains g' = gl_domains g" "gl_low_prio_mx g' = gl_low_prio_mx g"
    "gl_pass_time g' = gl_pass_time g" "gl_white_exp g' = gl_white_exp g" "gl_grey_exp g' = gl_grey_exp g"
    "gl_trap_exp g' = gl_trap_exp g" "gl_fw_out g' = gl_fw_out g" "gl_trap_out g' = gl_trap_out g"
    "gl_whitelist g' = gl_whitelist g" "gl_whitelist_ipv6 g' = gl_whitelist_ipv6 g" "gl_traplist g' = gl_traplist g"
    "gl_whitelist_name g' = gl_whitelist_name g" "gl_startup g' = gl_startup g" "gl_shutdown g' = gl_shutdown g"
  by (subst assms [unfolded same_setup_def], simp)+

lemma grey_finish_cases:
  assumes "grey_finish D g gt sync now spamtrap expire = Some g'"
  obtains r h where "DB_commit_txn D (gl_db g) = Some (r, h)" and "gl_db g' = h" and "same_setup g' g"
  using assms by (auto simp: grey_finish_def Let_def bind_eq_Some_conv split: option.splits if_splits)

context greydb
begin

lemma rollback_contract:
  assumes "rollback D g = Some g'" and "ready (gl_db g)"
  shows "ready (gl_db g') \<and> saved (gl_db g') = None \<and> same_setup g' g \<and>
    view (gl_db g') = (case saved (gl_db g) of None \<Rightarrow> view (gl_db g) | Some m \<Rightarrow> m)"
proof -
  obtain r h where h: "DB_rollback_txn D (gl_db g) = Some (r, h)" "g' = g\<lparr>gl_db := h\<rparr>"
    using assms(1) by (auto simp: rollback_def bind_eq_Some_conv)
  then show ?thesis using rollback_law [OF h(1) assms(2)] by simp
qed

text \<open>Writing an entry inside a transaction and ending the transaction.\<close>

lemma put_finish:
  assumes "do { (r, h2) \<leftarrow> DB_put D h k (v :: DB_val);
                if r = GREYDB_OK then grey_finish D (g\<lparr>gl_db := h2\<rparr>) gt sync now spamtrap expire
                else rollback D (g\<lparr>gl_db := h2\<rparr>) } = Some g'"
    and "ready h" and "saved h = Some m" and "view h = m" and "ok k" and "entry_key k" and "val_type v = DB_VAL_GREY"
  shows "ready (gl_db g') \<and> saved (gl_db g') = None \<and> same_setup g' g \<and>
    (view (gl_db g') = m(k \<mapsto> v) \<or> fst (the (DB_put D h k v)) = GREYDB_ERR \<and> view (gl_db g') = m)"
proof -
  obtain r h2 where p: "DB_put D h k v = Some (r, h2)" using assms(1) by (auto simp: bind_eq_Some_conv)
  note pl = put_law [OF p assms(2,5-7)]
  show ?thesis
  proof (cases "r = GREYDB_OK")
    case True
    then have v2: "view h2 = m(k \<mapsto> v)" using pl assms(4) by (auto simp: greydb_codes)
    obtain r3 h3 where c: "DB_commit_txn D (gl_db (g\<lparr>gl_db := h2\<rparr>)) = Some (r3, h3)" "gl_db g' = h3" "same_setup g' (g\<lparr>gl_db := h2\<rparr>)"
      using assms(1) p True by (auto elim: grey_finish_cases)
    have "ready h3 \<and> view h3 = view h2 \<and> saved h3 = None"
      using commit_law [of h2 r3 h3 m] c(1) pl assms(3) by simp
    then show ?thesis using c(2,3) v2 same_setup_trans same_setup_db by metis
  next
    case False
    then have "rollback D (g\<lparr>gl_db := h2\<rparr>) = Some g'" using assms(1) p by simp
    from rollback_contract [OF this] pl assms(3) p False show ?thesis
      using same_setup_trans same_setup_db by (fastforce simp: greydb_codes)
  qed
qed

lemma grey_update_contract:
  assumes "grey_update D g gt sync dst_ip now spamtrap expire key = Some g'" and "ready (gl_db g)"
    and "saved (gl_db g) = None" and "ok key" and "ok (KEY_TUPLE gt)"
    and "(k, v) = grey_entry g gt sync dst_ip now spamtrap expire key (view (gl_db g))" and "entry_key key"
  shows "ready (gl_db g') \<and> saved (gl_db g') = None \<and> same_setup g' g \<and>
    (view (gl_db g') = (view (gl_db g))(k \<mapsto> v) \<or> view (gl_db g') = view (gl_db g))"
proof -
  obtain r h where s: "DB_start_txn D (gl_db g) = Some (r, h)"
    using assms(1) by (auto simp: grey_update_def bind_eq_Some_conv)
  obtain ret val where g: "DB_get D h key = Some (ret, val)"
    using assms(1) s by (auto simp: grey_update_def bind_eq_Some_conv)
  note sl = start_law [OF s assms(2,3)]
  from get_law [OF g _ assms(4)] sl consider
      "ret = GREYDB_NOT_FOUND" "view (gl_db g) key = None" "ret \<noteq> GREYDB_FOUND"
    | w where "ret = GREYDB_FOUND" "ret \<noteq> GREYDB_NOT_FOUND" "val = Some w" "view (gl_db g) key = Some w"
    | "ret = GREYDB_ERR" "ret \<noteq> GREYDB_FOUND" "ret \<noteq> GREYDB_NOT_FOUND"
    by (auto simp: greydb_codes)
  then show ?thesis
  proof cases
    case 1
    then have kv: "ok k" "entry_key k" "val_type v = DB_VAL_GREY"
      using assms(4-7) ok_tuple [OF assms(5)] by (auto simp: grey_entry_def Let_def grey_val_def split: if_splits)
    have "do { (r, h2) \<leftarrow> DB_put D h k v;
               if r = GREYDB_OK
               then grey_finish D (g\<lparr>gl_db := h2\<rparr>) gt sync now (spamtrap \<or> low_prio_hit g sync dst_ip now)
                      (if low_prio_hit g sync dst_ip now then gl_trap_exp g else expire)
               else rollback D (g\<lparr>gl_db := h2\<rparr>) } = Some g'"
      using assms(1,6) s g 1 by (simp add: grey_update_def grey_entry_def Let_def)
    from put_finish [OF this] sl kv show ?thesis by blast
  next
    case (2 w)
    have w: "val_type w = DB_VAL_GREY" using view_ok [OF assms(2) 2(4)] by simp
    have kv: "k = key" "v = w\<lparr>val_gd := (val_gd w)\<lparr>gd_bcount := wrap_int (gd_bcount (val_gd w) + 1), gd_pcount := (if spamtrap then - 1 else 0),
                    gd_pass := (if gd_first (val_gd w) + gl_pass_time g < now then now else gd_pass (val_gd w))\<rparr>\<rparr>"
      using assms(6) 2(4) by (auto simp: grey_entry_def)
    have "do { (r, h2) \<leftarrow> DB_put D h key v;
               if r = GREYDB_OK then grey_finish D (g\<lparr>gl_db := h2\<rparr>) gt sync now spamtrap expire
               else rollback D (g\<lparr>gl_db := h2\<rparr>) } = Some g'"
      using assms(1) s g 2 unfolding kv(2)
      by (cases spamtrap; cases "gd_first (val_gd w) + gl_pass_time g < now") (simp_all add: grey_update_def Let_def cong: if_cong)
    moreover have "val_type v = DB_VAL_GREY" using kv(2) w by simp
    ultimately show ?thesis using put_finish [of h key v g] sl assms(4,7) kv(1) by blast
  next
    case 3
    then have "rollback D (g\<lparr>gl_db := h\<rparr>) = Some g'" using assms(1) s g by (simp add: grey_update_def)
    from rollback_contract [OF this] sl show ?thesis using same_setup_trans same_setup_db by fastforce
  qed
qed

text \<open>The whole handler of a grey message: at most the entry of the tuple or of its address changes.\<close>

lemma process_grey_contract:
  assumes "process_grey D spf g gt sync dst_ip now = Some g'" and "inv (gl_db g)" and "saved (gl_db g) = None"
    and "ok (KEY_TUPLE gt)"
  shows "ready (gl_db g') \<and> saved (gl_db g') = None \<and> same_setup g' g \<and>
    (\<forall>k. k \<noteq> KEY_TUPLE gt \<and> k \<noteq> KEY_IP (gt_ip gt) \<longrightarrow> view (gl_db g') k = view (gl_db g) k)"
proof -
  obtain h where h: "DB_open D (gl_db g) 0 = Some h" using assms(1) by (auto simp: process_grey_def bind_eq_Some_conv)
  have o: "ready h" "view h = view (gl_db g)" "saved h = None" using open_law [OF h assms(2)] assms(3) by auto
  let ?g = "g\<lparr>gl_db := h\<rparr>"
  have ok: "ok (KEY_IP (gt_ip gt))" using ok_tuple [OF assms(4)] by simp
  have upd: ?thesis if "grey_update D ?g gt sync dst_ip now s e k0 = Some g'" "k0 = KEY_TUPLE gt \<or> k0 = KEY_IP (gt_ip gt)" for s e k0
  proof -
    obtain k v where kv: "(k, v) = grey_entry ?g gt sync dst_ip now s e k0 (view (gl_db ?g))" by (metis surj_pair)
    moreover have "k = KEY_TUPLE gt \<or> k = KEY_IP (gt_ip gt)"
      using kv that(2) by (auto simp: grey_entry_def Let_def split: option.splits if_splits)
    moreover have "ok k0" "entry_key k0" using that(2) assms(4) ok by auto
    ultimately show ?thesis
      using grey_update_contract [OF that(1) _ _ _ assms(4) kv] o same_setup_trans [OF _ same_setup_db]
      by (auto simp: fun_upd_other)
  qed
  have roll: ?thesis if "rollback D g1 = Some g'" "ready (gl_db g1)" "saved (gl_db g1) = None" "same_setup g1 g"
      "\<forall>k. k \<noteq> KEY_IP (gt_ip gt) \<longrightarrow> view (gl_db g1) k = view (gl_db g) k" for g1
    using rollback_contract [OF that(1,2)] that(3-5) same_setup_trans by (auto simp: fun_eq_iff)
  have spfw: ?thesis if sw: "spf_whitelist D ?g gt now = Some g'"
  proof -
    obtain r h2 where p: "DB_put D h (KEY_IP (gt_ip gt)) (grey_val \<lparr>gd_first = now, gd_pass = now, gd_expire = now + gl_white_exp g, gd_bcount = 0, gd_pcount = 0\<rparr>) = Some (r, h2)"
      using sw by (auto simp: spf_whitelist_def bind_eq_Some_conv)
    have pl: "ready h2 \<and> saved h2 = None \<and> (\<forall>k. k \<noteq> KEY_IP (gt_ip gt) \<longrightarrow> view h2 k = view (gl_db g) k)"
      using put_law [OF p o(1) ok] o by (auto simp: grey_val_def)
    have "g' = ?g\<lparr>gl_db := h2\<rparr> \<or> rollback D (?g\<lparr>gl_db := h2\<rparr>) = Some g'"
      using sw p by (auto simp: spf_whitelist_def split: if_splits)
    then show ?thesis using roll [of "g\<lparr>gl_db := h2\<rparr>"] pl by auto
  qed
  show ?thesis
    using assms(1) h upd spfw roll [of ?g] o
    by (auto simp: process_grey_def Let_def bind_eq_Some_conv split: if_splits option.splits)
qed

end

text \<open>Who is trapped: a recipient outside the permitted domains, or one that is a spamtrap.\<close>

definition trap_addr :: "string list \<Rightarrow> bool \<Rightarrow> db_view \<Rightarrow> string \<Rightarrow> bool" where
  "trap_addr domains db_domains m to \<longleftrightarrow>
     (domains \<noteq> [] \<or> db_domains) \<and>
       \<not> ((\<exists>d\<in>set domains. dom_matches to d) \<or> db_domains \<and> (\<exists>d. m (KEY_DOM d) \<noteq> None \<and> dom_matches to d)) \<or>
     m (KEY_MAIL to) \<noteq> None"

text \<open>A sender on first contact: the tuple is stored with its pass time equal to its expiry.\<close>

definition first_contact :: "'h Greylister_T \<Rightarrow> db_view \<Rightarrow> Grey_tuple \<Rightarrow> string \<Rightarrow> bool" where
  "first_contact g m gt dst_ip \<longleftrightarrow>
     m (KEY_TUPLE gt) = None \<and> m (KEY_IP (gt_ip gt)) = None \<and> gl_low_prio_mx g \<noteq> Some dst_ip \<and> key_ok (KEY_TUPLE gt) \<and>
     List_wf (gl_domains g) \<and>
     (\<exists>dbp. Config_get_int (gl_config g) ''db_permitted_domains'' (Some ''grey'') 0 = Some dbp \<and>
        \<not> trap_addr (list_head (gl_domains g)) (dbp \<noteq> 0) m (gt_to gt))"

lemma first_contact_ok: "first_contact g m gt dst_ip \<Longrightarrow> key_ok (KEY_TUPLE gt)"
  by (simp add: first_contact_def)

definition grey_gd :: "'h Greylister_T \<Rightarrow> int \<Rightarrow> Grey_data" where
  "grey_gd g t = \<lparr>gd_first = t, gd_pass = t + gl_grey_exp g, gd_expire = t + gl_grey_exp g, gd_bcount = 1, gd_pcount = 0\<rparr>"

text \<open>The entry of an address after a trap or white message: the update of the entry \<open>old\<close>.\<close>

definition non_grey_entry :: "bool \<Rightarrow> int \<Rightarrow> bool \<Rightarrow> int \<Rightarrow> DB_val option \<Rightarrow> DB_val option" where
  "non_grey_entry spamtrap expire delete now old =
     (if delete then None
      else case old of
        None \<Rightarrow> Some (grey_val \<lparr>gd_first = now, gd_pass = (if spamtrap then expire else now), gd_expire = expire,
                               gd_bcount = 0, gd_pcount = (if spamtrap then - 1 else 0)\<rparr>)
      | Some v \<Rightarrow> Some (v\<lparr>val_gd :=
          (if spamtrap then (val_gd v)\<lparr>gd_pcount := - 1, gd_bcount := wrap_int (gd_bcount (val_gd v) + 1)\<rparr>
           else (val_gd v)\<lparr>gd_pcount := wrap_int (gd_pcount (val_gd v) + 1)\<rparr>)\<rparr>))"

definition expires_ok :: "string \<Rightarrow> bool" where
  "expires_ok s \<longleftrightarrow> s \<noteq> [] \<and> fst (strtol s) \<noteq> 0 \<and> fst (snd (strtol s)) = [] \<and> \<not> snd (snd (strtol s))"

context greydb_live
begin

lemma start_total: "ready h \<Longrightarrow> saved h = None \<Longrightarrow>
    \<exists>r h'. DB_start_txn D h = Some (r, h') \<and> ready h' \<and> view h' = view h \<and> saved h' = Some (view h)"
  using start_live [of h] start_law [of h] by fastforce

lemma commit_total: "ready h \<Longrightarrow> saved h = Some m \<Longrightarrow>
    \<exists>r h'. DB_commit_txn D h = Some (r, h') \<and> ready h' \<and> view h' = view h \<and> saved h' = None"
  using commit_live [of h m] commit_law [of h _ _ m] by fastforce

lemma open_total: "inv h \<Longrightarrow> \<exists>h'. DB_open D h f = Some h' \<and> ready h' \<and> view h' = view h \<and> saved h' = saved h"
  using open_live [of h f] open_law [of h f] by fastforce

lemma get_total: "ready h \<Longrightarrow> ok k \<Longrightarrow>
    \<exists>vo. DB_get D h k = Some (if view h k = None then GREYDB_NOT_FOUND else GREYDB_FOUND, vo) \<and> (view h k \<noteq> None \<longrightarrow> vo = view h k)"
  using get_live [of h k] get_law [of h k] by fastforce

lemma put_total: "ready h \<Longrightarrow> ok k \<Longrightarrow> entry_key k \<Longrightarrow> val_type v = DB_VAL_GREY \<Longrightarrow>
    \<exists>h'. DB_put D h k v = Some (GREYDB_OK, h') \<and> ready h' \<and> saved h' = saved h \<and> view h' = (view h)(k \<mapsto> v)"
  using put_live [of h k v] put_law [of h k v GREYDB_OK] by (fastforce simp: greydb_codes)

lemma finish_total:
  assumes "ready (gl_db g)" and "saved (gl_db g) = Some m"
  shows "\<exists>g'. grey_finish D g gt sync now spamtrap expire = Some g' \<and> ready (gl_db g') \<and> saved (gl_db g') = None \<and>
    view (gl_db g') = view (gl_db g) \<and> same_setup g' g"
proof -
  obtain r h where h: "DB_commit_txn D (gl_db g) = Some (r, h)" "ready h" "view h = view (gl_db g)" "saved h = None"
    using commit_total [OF assms] by blast
  then show ?thesis by (auto simp: grey_finish_def Let_def split: option.splits)
qed

lemma grey_update_total:
  assumes "ready (gl_db g)" and "saved (gl_db g) = None" and "ok key" and "ok (KEY_TUPLE gt)"
    and kv: "(k, v) = grey_entry g gt sync dst_ip now spamtrap expire key (view (gl_db g))" and ek: "entry_key key"
  shows "\<exists>g'. grey_update D g gt sync dst_ip now spamtrap expire key = Some g' \<and> ready (gl_db g') \<and>
    saved (gl_db g') = None \<and> same_setup g' g \<and> view (gl_db g') = (view (gl_db g))(k \<mapsto> v)"
proof -
  obtain r h where s: "DB_start_txn D (gl_db g) = Some (r, h)" "ready h" "view h = view (gl_db g)" "saved h = Some (view (gl_db g))"
    using start_total [OF assms(1,2)] by blast
  have kok: "ok k" "entry_key k" "val_type v = DB_VAL_GREY"
    using kv ek assms(3) ok_tuple [OF assms(4)] view_ok [OF assms(1)]
    by (auto simp: grey_entry_def Let_def grey_val_def split: option.splits if_splits)
  obtain h2 where p: "DB_put D h k v = Some (GREYDB_OK, h2)" "ready h2" "saved h2 = Some (view (gl_db g))" "view h2 = (view (gl_db g))(k \<mapsto> v)"
    using put_total [OF s(2) kok] s(3,4) by auto
  have fin: "\<exists>g'. grey_finish D (g\<lparr>gl_db := h2\<rparr>) gt sync now sp e = Some g' \<and> ready (gl_db g') \<and> saved (gl_db g') = None \<and>
      view (gl_db g') = (view (gl_db g))(k \<mapsto> v) \<and> same_setup g' g" for sp e
    using finish_total [of "g\<lparr>gl_db := h2\<rparr>" "view (gl_db g)" gt sync now sp e] p(2-4) same_setup_trans [OF _ same_setup_db]
    by auto
  obtain vo where g: "DB_get D h key = Some (if view (gl_db g) key = None then GREYDB_NOT_FOUND else GREYDB_FOUND, vo)"
    "view (gl_db g) key \<noteq> None \<Longrightarrow> vo = view (gl_db g) key"
    using get_total [OF s(2) assms(3)] s(3) by auto
  show ?thesis
  proof (cases "view (gl_db g) key")
    case None
    have "grey_update D g gt sync dst_ip now spamtrap expire key =
        grey_finish D (g\<lparr>gl_db := h2\<rparr>) gt sync now (spamtrap \<or> low_prio_hit g sync dst_ip now)
          (if low_prio_hit g sync dst_ip now then gl_trap_exp g else expire)"
      using s(1) g None p(1) kv
      by (cases spamtrap; cases "low_prio_hit g sync dst_ip now")
         (simp_all add: grey_update_def grey_entry_def Let_def cong: if_cong)
    then show ?thesis using fin by metis
  next
    case (Some w)
    have kv2: "k = key" "v = w\<lparr>val_gd := (val_gd w)\<lparr>gd_bcount := wrap_int (gd_bcount (val_gd w) + 1), gd_pcount := (if spamtrap then - 1 else 0),
                    gd_pass := (if gd_first (val_gd w) + gl_pass_time g < now then now else gd_pass (val_gd w))\<rparr>\<rparr>"
      using kv Some by (auto simp: grey_entry_def)
    have "grey_update D g gt sync dst_ip now spamtrap expire key = grey_finish D (g\<lparr>gl_db := h2\<rparr>) gt sync now spamtrap expire"
      using s(1) g Some p(1) unfolding kv2
      by (cases spamtrap; cases "gd_first (val_gd w) + gl_pass_time g < now")
         (simp_all add: grey_update_def Let_def greydb_codes cong: if_cong)
    then show ?thesis using fin by metis
  qed
qed

lemma trap_check_total:
  assumes "ready (gl_db g)" and "ok (KEY_MAIL to)" and "List_wf (gl_domains g)"
    and "Config_get_int (gl_config g) ''db_permitted_domains'' (Some ''grey'') 0 = Some dbp"
  shows "trap_check D g to = Some (if trap_addr (list_head (gl_domains g)) (dbp \<noteq> 0) (view (gl_db g)) to then 0 else 1)"
proof -
  have sz: "List_size (Some (gl_domains g)) > 0 \<longleftrightarrow> list_head (gl_domains g) \<noteq> []" using assms(3) by (simp add: List_wf_def)
  obtain r vo where p: "DB_get D (gl_db g) (KEY_DOM_PART to) = Some (r, vo)" "r \<noteq> GREYDB_ERR"
    using get_live [OF assms(1), of "KEY_DOM_PART to" to] by auto
  then have part: "DB_get D (gl_db g) (KEY_DOM_PART to) = Some (r, vo)"
      "r = GREYDB_FOUND \<longleftrightarrow> (\<exists>d. view (gl_db g) (KEY_DOM d) \<noteq> None \<and> dom_matches to d)"
    using get_part_law [OF p(1) assms(1)] by (simp, metis greydb_codes(2,4) zero_neq_numeral)
  obtain vo2 where mail: "DB_get D (gl_db g) (KEY_MAIL to) =
      Some (if view (gl_db g) (KEY_MAIL to) = None then GREYDB_NOT_FOUND else GREYDB_FOUND, vo2)"
    using get_total [OF assms(1), of "KEY_MAIL to"] assms(2) by auto
  show ?thesis
    using sz part mail assms(4) by (auto simp: trap_check_def trap_addr_def Let_def greydb_codes)
qed

lemma grey_entry_db [simp]: "grey_entry (g\<lparr>gl_db := h\<rparr>) gt sync dst_ip now s e k m = grey_entry g gt sync dst_ip now s e k m"
  by (cases "m k") (simp_all add: grey_entry_def low_prio_hit_def Let_def)

text \<open>A grey message when SPF is not in use: the entry that is written.\<close>

lemma process_grey_total:
  assumes "inv (gl_db g)" and "saved (gl_db g) = None" and "ok (KEY_TUPLE gt)" and "List_wf (gl_domains g)"
    and "Config_get_int (gl_config g) ''db_permitted_domains'' (Some ''grey'') 0 = Some dbp"
    and tr: "tr = trap_addr (list_head (gl_domains g)) (dbp \<noteq> 0) (view (gl_db g)) (gt_to gt)"
    and kv: "(k, v) = grey_entry g gt sync dst_ip now tr (if tr then gl_trap_exp g else gl_grey_exp g)
      (if tr then KEY_IP (gt_ip gt) else KEY_TUPLE gt) (view (gl_db g))"
  shows "\<exists>g'. process_grey D None g gt sync dst_ip now = Some g' \<and> ready (gl_db g') \<and> saved (gl_db g') = None \<and>
    same_setup g' g \<and> view (gl_db g') = (view (gl_db g))(k \<mapsto> v)"
proof -
  obtain h where h: "DB_open D (gl_db g) 0 = Some h" "ready h" "view h = view (gl_db g)" "saved h = None"
    using open_total [OF assms(1)] assms(2) by auto
  let ?g = "g\<lparr>gl_db := h\<rparr>"
  have tc: "trap_check D ?g (gt_to gt) = Some (if tr then 0 else 1)"
    using trap_check_total [of ?g "gt_to gt" dbp] h ok_tuple [OF assms(3)] assms(4,5) tr by simp
  have "\<exists>g'. grey_update D ?g gt sync dst_ip now tr (if tr then gl_trap_exp g else gl_grey_exp g)
      (if tr then KEY_IP (gt_ip gt) else KEY_TUPLE gt) = Some g' \<and> ready (gl_db g') \<and>
    saved (gl_db g') = None \<and> same_setup g' ?g \<and> view (gl_db g') = (view (gl_db g))(k \<mapsto> v)"
    using grey_update_total [of ?g "if tr then KEY_IP (gt_ip gt) else KEY_TUPLE gt" gt k v sync dst_ip now tr] h(2-4) assms(3) ok_tuple [OF assms(3)] kv
    by (auto simp: h(3))
  then show ?thesis
    using h(1) tc same_setup_trans [OF _ same_setup_db] by (cases tr) (auto simp: process_grey_def)
qed

text \<open>Trap and white messages.\<close>

lemma del_total: "ready h \<Longrightarrow> ok k \<Longrightarrow>
    \<exists>r h'. DB_del D h k = Some (r, h') \<and> ready h' \<and> saved h' = saved h \<and> view h' = (view h)(k := None)"
  using del_live [of h k] del_law [of h k] by fastforce

lemma process_non_grey_total:
  assumes "inv (gl_db g)" and "saved (gl_db g) = None" and ok: "ok (KEY_IP ip)" and "delete \<or> expires_ok expires"
  shows "\<exists>g'. process_non_grey D g spamtrap ip source expires sync delete now = Some g' \<and> ready (gl_db g') \<and>
    saved (gl_db g') = None \<and> same_setup g' g \<and>
    view (gl_db g') = (view (gl_db g))(KEY_IP ip := non_grey_entry spamtrap (fst (strtol expires)) delete now (view (gl_db g) (KEY_IP ip)))"
proof -
  let ?m = "view (gl_db g)" and ?k = "KEY_IP ip"
  let ?e = "non_grey_entry spamtrap (fst (strtol expires)) delete now (?m ?k)"
  obtain expire en er where st: "strtol expires = (expire, en, er)" by (metis surj_pair)
  obtain h0 where o: "DB_open D (gl_db g) 0 = Some h0" "ready h0" "view h0 = ?m" "saved h0 = None"
    using open_total [OF assms(1)] assms(2) by auto
  obtain r h where s: "DB_start_txn D h0 = Some (r, h)" "ready h" "view h = ?m" "saved h = Some ?m"
    using start_total [OF o(2,4)] o(3) by auto
  obtain vo where get: "DB_get D h ?k = Some (if ?m ?k = None then GREYDB_NOT_FOUND else GREYDB_FOUND, vo)" "?m ?k \<noteq> None \<longrightarrow> vo = ?m ?k"
    using get_total [OF s(2) ok] s(3) by auto
  have fin: "\<exists>r' h'. DB_commit_txn D h2 = Some (r', h') \<and> ready h' \<and> view h' = view h2 \<and> saved h' = None"
    if "ready h2" "saved h2 = saved h" for h2 using commit_total [OF that(1)] that(2) s(4) by metis
  have put: "\<exists>h2. DB_put D h ?k v = Some (GREYDB_OK, h2) \<and> ready h2 \<and> saved h2 = saved h \<and> view h2 = ?m(?k := ?e)"
    if "?e = Some v" for v
  proof -
    have "val_type v = DB_VAL_GREY"
      using that view_ok [OF s(2)] s(3) by (auto simp: non_grey_entry_def grey_val_def split: if_splits option.splits)
    then show ?thesis using put_total [OF s(2) ok] s(3) that by auto
  qed
  obtain r2 h2 where del: "DB_del D h ?k = Some (r2, h2)" "ready h2" "saved h2 = saved h" "view h2 = ?m(?k := None)"
    using del_total [OF s(2) ok] s(3) by auto
  show ?thesis
  proof (cases delete)
    case True
    show ?thesis
    proof (cases "?m ?k")
      case None
      obtain r3 h3 where c: "DB_commit_txn D h = Some (r3, h3)" "ready h3" "view h3 = ?m" "saved h3 = None" using fin [OF s(2)] s(3) by auto
      then show ?thesis using True None st o(1) s(1) get
        by (auto simp: process_non_grey_def non_grey_entry_def fun_upd_idem)
    next
      case (Some v)
      obtain r3 h3 where c: "DB_commit_txn D h2 = Some (r3, h3)" "ready h3" "view h3 = ?m(?k := None)" "saved h3 = None"
        using fin [OF del(2,3)] del(4) by auto
      then show ?thesis using True Some st o(1) s(1) get del(1)
        by (auto simp: process_non_grey_def non_grey_entry_def greydb_codes)
    qed
  next
    case False
    then obtain v where v: "?e = Some v" by (cases "?m ?k") (simp_all add: non_grey_entry_def)
    obtain h4 where p: "DB_put D h ?k v = Some (GREYDB_OK, h4)" "ready h4" "saved h4 = saved h" "view h4 = ?m(?k := ?e)"
      using put [OF v] by blast
    obtain r5 h5 where c: "DB_commit_txn D h4 = Some (r5, h5)" "ready h5" "view h5 = ?m(?k := ?e)" "saved h5 = None"
      using fin [OF p(2,3)] p(4) by auto
    have "process_non_grey D g spamtrap ip source expires sync delete now = Some (g\<lparr>gl_db := h5\<rparr>)"
      using False assms(4) st o(1) s(1) get p(1) c(1) v
      by (cases "?m ?k"; cases spamtrap)
         (auto simp: process_non_grey_def non_grey_entry_def expires_ok_def greydb_codes)
    then show ?thesis using c(2-4) by auto
  qed
qed

text \<open>A scan: what it writes to the database, the firewall and the main process.\<close>

lemma Grey_scan_db_with:
  assumes "inv (gl_db g)" and "saved (gl_db g) = None"
    and "list_head (gl_whitelist g) = []" and "list_head (gl_whitelist_ipv6 g) = []" and "list_head (gl_traplist g) = []"
    and "List_wf (gl_whitelist g)" and "List_wf (gl_whitelist_ipv6 g)" and "List_wf (gl_traplist g)"
    and "Config_get_int (gl_config g) ''enable_ipv6'' None 0 = Some e6" and "gl_trap_out g = Some tout" and "gl_fw_out g = Some fout"
    and scan: "\<And>h. ready h \<Longrightarrow> view h = view (gl_db g) \<Longrightarrow> saved h = Some (view (gl_db g)) \<Longrightarrow>
      \<exists>h1 W W6 T A Tr. DB_scan D h now (gl_whitelist g) (gl_whitelist_ipv6 g) (gl_traplist g) (gl_white_exp g) = Some (GREYDB_OK, h1, W, W6, T) \<and>
        ready h1 \<and> saved h1 = saved h \<and> scan_lists v6 (gl_whitelist g, gl_whitelist_ipv6 g, gl_traplist g) A Tr (W, W6, T) \<and> P (view h1) A Tr"
  shows "\<exists>g' A Tr. Grey_scan_db D check g now = Some (0, g') \<and> ready (gl_db g') \<and> saved (gl_db g') = None \<and>
    P (view (gl_db g')) A Tr \<and>
    gl_fw_out g' = Some (fout @
      (let ips = filter (\<lambda>s. \<not> v6 s) A in if ips = [] then [] else replace_text (gl_whitelist_name g) AF_INET ips) @
      (let ips = filter v6 A in if ips = [] \<or> e6 = 0 then [] else replace_text (gl_whitelist_name_ipv6 g) AF_INET6 ips)) \<and>
    (\<exists>T. list_head T = Tr \<and> List_wf T \<and>
       gl_trap_out g' = Some (tout @ Greyd_send_config check (gl_traplist_name g) (gl_traplist_msg g) T)) \<and>
    list_head (gl_whitelist g') = [] \<and> list_head (gl_whitelist_ipv6 g') = [] \<and> list_head (gl_traplist g') = []"
proof -
  obtain h0 where o: "DB_open D (gl_db g) 0 = Some h0" "ready h0" "view h0 = view (gl_db g)" "saved h0 = None"
    using open_total [OF assms(1)] assms(2) by auto
  obtain r1 h where s: "DB_start_txn D h0 = Some (r1, h)" "ready h" "view h = view (gl_db g)" "saved h = Some (view (gl_db g))"
    using start_total [OF o(2,4)] o(3) by auto
  obtain h1 W W6 T A Tr where sc: "DB_scan D h now (gl_whitelist g) (gl_whitelist_ipv6 g) (gl_traplist g) (gl_white_exp g) = Some (GREYDB_OK, h1, W, W6, T)"
      "ready h1" "saved h1 = saved h" and sp: "scan_lists v6 (gl_whitelist g, gl_whitelist_ipv6 g, gl_traplist g) A Tr (W, W6, T)" "P (view h1) A Tr"
    using scan [OF s(2-4)] by blast
  obtain r2 h2 where c: "DB_commit_txn D h1 = Some (r2, h2)" "ready h2" "view h2 = view h1" "saved h2 = None"
    using commit_total [of h1 "view (gl_db g)"] sc(2,3) s(4) by auto
  have l: "list_head W = filter (\<lambda>s. \<not> v6 s) A" "list_head W6 = filter v6 A" "list_head T = Tr"
    "List_wf W" "List_wf W6" "List_wf T" using sp(1) assms(3-8) by (auto simp: scan_lists_def)
  then have sizes: "List_size (Some W) > 0 \<longleftrightarrow> filter (\<lambda>s. \<not> v6 s) A \<noteq> []" "List_size (Some W6) > 0 \<longleftrightarrow> filter v6 A \<noteq> []"
    "List_size (Some T) > 0 \<longleftrightarrow> Tr \<noteq> []" by (auto simp: List_wf_def)
  define trap where "trap = Some (tout @ Greyd_send_config check (gl_traplist_name g) (gl_traplist_msg g) T)"
  have tr: "send_traplist check (gl_traplist_name g) (gl_traplist_msg g) T (gl_trap_out g) = Some trap"
    using assms(10) by (simp add: trap_def send_traplist_def Greyd_send_config_def)
  define g1 where "g1 = g\<lparr>gl_whitelist := W, gl_whitelist_ipv6 := W6, gl_traplist := T, gl_db := h2, gl_trap_out := trap\<rparr>"
  define g2 where "g2 = update_firewall g1 AF_INET"
  define g3 where "g3 = clear_lists (if e6 \<noteq> 0 then update_firewall g2 AF_INET6 else g2)"
  have scan: "Grey_scan_db D check g now = Some (0, g3)"
    using o(1) s(1) sc(1) c(1) tr assms(9) by (simp add: Grey_scan_db_def Let_def g1_def g2_def g3_def)
  have af: "AF_INET6 \<noteq> AF_INET" by (simp add: AF_INET_def AF_INET6_def)
  have fw: "gl_fw_out g3 = Some (fout @
      (let ips = filter (\<lambda>s. \<not> v6 s) A in if ips = [] then [] else replace_text (gl_whitelist_name g) AF_INET ips) @
      (let ips = filter v6 A in if ips = [] \<or> e6 = 0 then [] else replace_text (gl_whitelist_name_ipv6 g) AF_INET6 ips))"
    using assms(11) l(1,2) sizes af
    by (simp add: g3_def g2_def g1_def update_firewall_def clear_lists_def Let_def)
  have rest: "gl_db g3 = h2" "gl_trap_out g3 = trap" "list_head (gl_whitelist g3) = []" "list_head (gl_whitelist_ipv6 g3) = []"
      "list_head (gl_traplist g3) = []"
    using assms(11) by (auto simp: g3_def g2_def g1_def update_firewall_def clear_lists_def List_remove_all_def Let_def)
  show ?thesis
    using scan fw rest c sp(2) l(3,6) unfolding trap_def by (intro exI [of _ g3] exI [of _ A] exI [of _ Tr]) auto
qed

lemma Grey_scan_db_total:
  assumes "inv (gl_db g)" and "saved (gl_db g) = None" and "0 < gl_white_exp g"
    and "list_head (gl_whitelist g) = []" and "list_head (gl_whitelist_ipv6 g) = []" and "list_head (gl_traplist g) = []"
    and "List_wf (gl_whitelist g)" and "List_wf (gl_whitelist_ipv6 g)" and "List_wf (gl_traplist g)"
    and "Config_get_int (gl_config g) ''enable_ipv6'' None 0 = Some e6" and "gl_trap_out g = Some tout" and "gl_fw_out g = Some fout"
    and "scannable now (view (gl_db g))"
  shows "\<exists>g' A Tr. Grey_scan_db D check g now = Some (0, g') \<and> ready (gl_db g') \<and> saved (gl_db g') = None \<and>
    scan_spec now (gl_white_exp g) (view (gl_db g)) (view (gl_db g')) (set A) (set Tr) \<and>
    gl_fw_out g' = Some (fout @
      (let ips = filter (\<lambda>s. \<not> v6 s) A in if ips = [] then [] else replace_text (gl_whitelist_name g) AF_INET ips) @
      (let ips = filter v6 A in if ips = [] \<or> e6 = 0 then [] else replace_text (gl_whitelist_name_ipv6 g) AF_INET6 ips)) \<and>
    (\<exists>T. list_head T = Tr \<and> List_wf T \<and>
       gl_trap_out g' = Some (tout @ Greyd_send_config check (gl_traplist_name g) (gl_traplist_msg g) T)) \<and>
    list_head (gl_whitelist g') = [] \<and> list_head (gl_whitelist_ipv6 g') = [] \<and> list_head (gl_traplist g') = []"
proof (rule Grey_scan_db_with [OF assms(1,2,4-12), where P = "\<lambda>m A Tr. scan_spec now (gl_white_exp g) (view (gl_db g)) m (set A) (set Tr)"])
  fix h assume h: "ready h" "view h = view (gl_db g)" "saved h = Some (view (gl_db g))"
  have "scannable now (view h)" using assms(13) h(2) by simp
  moreover obtain h1 W W6 T where sc: "DB_scan D h now (gl_whitelist g) (gl_whitelist_ipv6 g) (gl_traplist g) (gl_white_exp g) = Some (GREYDB_OK, h1, W, W6, T)"
    using scan_live [OF h(1) assms(3) calculation] by metis
  ultimately show "\<exists>h1 W W6 T A Tr. DB_scan D h now (gl_whitelist g) (gl_whitelist_ipv6 g) (gl_traplist g) (gl_white_exp g) = Some (GREYDB_OK, h1, W, W6, T) \<and>
      ready h1 \<and> saved h1 = saved h \<and> scan_lists v6 (gl_whitelist g, gl_whitelist_ipv6 g, gl_traplist g) A Tr (W, W6, T) \<and>
      scan_spec now (gl_white_exp g) (view (gl_db g)) (view h1) (set A) (set Tr)"
    using scan_law [OF sc h(1) assms(3)] h(2) by auto
qed

lemma first_message:
  assumes "inv (gl_db g)" and "saved (gl_db g) = None" and "first_contact g (view (gl_db g)) gt dst_ip"
    and "ok (KEY_TUPLE gt)"
  shows "\<exists>g1. process_grey D None g gt sync dst_ip t0 = Some g1 \<and> ready (gl_db g1) \<and> saved (gl_db g1) = None \<and>
    same_setup g1 g \<and> view (gl_db g1) = (view (gl_db g))(KEY_TUPLE gt \<mapsto> grey_val (grey_gd g t0))"
proof -
  obtain dbp where d: "Config_get_int (gl_config g) ''db_permitted_domains'' (Some ''grey'') 0 = Some dbp"
    "\<not> trap_addr (list_head (gl_domains g)) (dbp \<noteq> 0) (view (gl_db g)) (gt_to gt)"
    using assms(3) by (auto simp: first_contact_def)
  have ok: "ok (KEY_TUPLE gt)" "List_wf (gl_domains g)" using assms(3,4) by (simp_all add: first_contact_def)
  have kv: "(KEY_TUPLE gt, grey_val (grey_gd g t0)) = grey_entry g gt sync dst_ip t0 False
      (if False then gl_trap_exp g else gl_grey_exp g) (if False then KEY_IP (gt_ip gt) else KEY_TUPLE gt) (view (gl_db g))"
    using assms(3) by (simp add: first_contact_def grey_entry_def low_prio_hit_def grey_gd_def Let_def)
  show ?thesis using process_grey_total [OF assms(1,2) ok d(1) _ kv] d(2) by blast
qed

lemma retry_message:
  assumes "inv (gl_db g)" and "saved (gl_db g) = None" and "first_contact g0 m0 gt dst_ip" and "same_setup g g0"
    and "view (gl_db g) = m0(KEY_TUPLE gt \<mapsto> grey_val gd)" and "gd_first gd + gl_pass_time g < t1"
    and "ok (KEY_TUPLE gt)"
  shows "\<exists>g2. process_grey D None g gt sync dst_ip t1 = Some g2 \<and> ready (gl_db g2) \<and> saved (gl_db g2) = None \<and>
    same_setup g2 g \<and>
    view (gl_db g2) = m0(KEY_TUPLE gt \<mapsto> grey_val (gd\<lparr>gd_bcount := wrap_int (gd_bcount gd + 1), gd_pcount := 0, gd_pass := t1\<rparr>))"
proof -
  note f = same_setup_fields [OF assms(4)]
  obtain dbp where d: "Config_get_int (gl_config g) ''db_permitted_domains'' (Some ''grey'') 0 = Some dbp"
    "\<not> trap_addr (list_head (gl_domains g)) (dbp \<noteq> 0) (view (gl_db g)) (gt_to gt)"
    using assms(3,5) f by (auto simp: first_contact_def trap_addr_def)
  let ?v = "grey_val (gd\<lparr>gd_bcount := wrap_int (gd_bcount gd + 1), gd_pcount := 0, gd_pass := t1\<rparr>)"
  have ok: "ok (KEY_TUPLE gt)" "List_wf (gl_domains g)" using assms(3,7) f by (simp_all add: first_contact_def)
  have kv: "(KEY_TUPLE gt, ?v) = grey_entry g gt sync dst_ip t1 False
      (if False then gl_trap_exp g else gl_grey_exp g) (if False then KEY_IP (gt_ip gt) else KEY_TUPLE gt) (view (gl_db g))"
    using assms(5,6) by (simp add: grey_entry_def grey_val_def)
  show ?thesis using process_grey_total [OF assms(1,2) ok d(1) _ kv] d(2) assms(5) by (simp only: fun_upd_upd)
qed

end

text \<open>The scan lists of a greylister between two scans, and its open streams.\<close>

definition scanner_idle :: "'h Greylister_T \<Rightarrow> bool" where
  "scanner_idle g \<longleftrightarrow> gl_whitelist g = List_create \<and> gl_whitelist_ipv6 g = List_create \<and> gl_traplist g = List_create \<and>
     0 < gl_white_exp g \<and> gl_trap_out g \<noteq> None \<and> gl_fw_out g \<noteq> None \<and>
     Config_get_int (gl_config g) ''enable_ipv6'' None 0 \<noteq> None"

lemma scanner_idle_same: "same_setup g' g \<Longrightarrow> scanner_idle g' = scanner_idle g"
  using same_setup_fields [of g' g] by (simp add: scanner_idle_def)

text \<open>The text the firewall process receives when the IPv4 addresses \<open>ips\<close> are whitelisted.\<close>

definition fw_told :: "'h Greylister_T \<Rightarrow> 'h Greylister_T \<Rightarrow> string list \<Rightarrow> bool" where
  "fw_told g g' ips \<longleftrightarrow> (\<exists>out rest. gl_fw_out g = Some out \<and>
     gl_fw_out g' = Some (out @ (if ips = [] then [] else replace_text (gl_whitelist_name g) AF_INET ips) @ rest))"

lemma fw_told_same: "same_setup g1 g \<Longrightarrow> fw_told g1 g2 ips = fw_told g g2 ips"
  unfolding fw_told_def by (simp only: same_setup_fields(8,13))

context greydb_live
begin

lemma scan_total:
  assumes "inv (gl_db g)" and "saved (gl_db g) = None" and "scanner_idle g" and "scannable now (view (gl_db g))"
  shows "\<exists>g' A Tr. Grey_scan_db D check g now = Some (0, g') \<and> ready (gl_db g') \<and> saved (gl_db g') = None \<and>
    scan_spec now (gl_white_exp g) (view (gl_db g)) (view (gl_db g')) (set A) (set Tr) \<and>
    fw_told g g' (filter (\<lambda>s. \<not> v6 s) A)"
proof -
  obtain tout fout e6 where o: "gl_trap_out g = Some tout" "gl_fw_out g = Some fout"
    "Config_get_int (gl_config g) ''enable_ipv6'' None 0 = Some e6" using assms(3) by (auto simp: scanner_idle_def)
  have l: "0 < gl_white_exp g" "list_head (gl_whitelist g) = []" "list_head (gl_whitelist_ipv6 g) = []" "list_head (gl_traplist g) = []"
    "List_wf (gl_whitelist g)" "List_wf (gl_whitelist_ipv6 g)" "List_wf (gl_traplist g)"
    using assms(3) by (auto simp: scanner_idle_def List_create_def List_wf_def)
  from Grey_scan_db_total [OF assms(1,2) l o(3,1,2) assms(4)] obtain g' A Tr where
    g': "Grey_scan_db D check g now = Some (0, g')" "ready (gl_db g')" "saved (gl_db g') = None"
      "scan_spec now (gl_white_exp g) (view (gl_db g)) (view (gl_db g')) (set A) (set Tr)"
      "gl_fw_out g' = Some (fout @
        (let ips = filter (\<lambda>s. \<not> v6 s) A in if ips = [] then [] else replace_text (gl_whitelist_name g) AF_INET ips) @
        (let ips = filter v6 A in if ips = [] \<or> e6 = 0 then [] else replace_text (gl_whitelist_name_ipv6 g) AF_INET6 ips))"
    by blast
  then have "fw_told g g' (filter (\<lambda>s. \<not> v6 s) A)" using o(2) by (auto simp: fw_told_def Let_def)
  then show ?thesis using g'(1-4) by blast
qed

text \<open>A scan of which \<open>P\<close> is known, whatever the contract says of it.\<close>

lemma scan_total_with:
  assumes "inv (gl_db g)" and "saved (gl_db g) = None" and idle: "scanner_idle g"
    and scan: "\<And>h. ready h \<Longrightarrow> view h = view (gl_db g) \<Longrightarrow> saved h = Some (view (gl_db g)) \<Longrightarrow>
      \<exists>h1 W W6 T A Tr. DB_scan D h now (gl_whitelist g) (gl_whitelist_ipv6 g) (gl_traplist g) (gl_white_exp g) = Some (GREYDB_OK, h1, W, W6, T) \<and>
        ready h1 \<and> saved h1 = saved h \<and> scan_lists v6 (gl_whitelist g, gl_whitelist_ipv6 g, gl_traplist g) A Tr (W, W6, T) \<and> P (view h1) A Tr"
  shows "\<exists>g' A Tr. Grey_scan_db D check g now = Some (0, g') \<and> ready (gl_db g') \<and> saved (gl_db g') = None \<and>
    P (view (gl_db g')) A Tr \<and> fw_told g g' (filter (\<lambda>s. \<not> v6 s) A)"
proof -
  obtain tout fout e6 where o: "gl_trap_out g = Some tout" "gl_fw_out g = Some fout"
    "Config_get_int (gl_config g) ''enable_ipv6'' None 0 = Some e6" using idle by (auto simp: scanner_idle_def)
  have l: "list_head (gl_whitelist g) = []" "list_head (gl_whitelist_ipv6 g) = []" "list_head (gl_traplist g) = []"
    "List_wf (gl_whitelist g)" "List_wf (gl_whitelist_ipv6 g)" "List_wf (gl_traplist g)"
    using idle by (auto simp: scanner_idle_def List_create_def List_wf_def)
  from Grey_scan_db_with [OF assms(1,2) l o(3,1,2) scan, of check] o(2) show ?thesis
    by (fastforce simp: fw_told_def Let_def)
qed

text \<open>Two messages.\<close>

lemma retried:
  assumes "inv (gl_db g)" and "saved (gl_db g) = None" and fc: "first_contact g (view (gl_db g)) gt dst_ip"
    and t: "t0 + gl_pass_time g < t1" and ok: "ok (KEY_TUPLE gt)"
  shows "\<exists>g1 g2. process_grey D None g gt sync dst_ip t0 = Some g1 \<and> process_grey D None g1 gt sync dst_ip t1 = Some g2 \<and>
    ready (gl_db g2) \<and> saved (gl_db g2) = None \<and> same_setup g2 g \<and>
    view (gl_db g2) = (view (gl_db g))(KEY_TUPLE gt \<mapsto> grey_val ((grey_gd g t0)\<lparr>gd_bcount := wrap_int (gd_bcount (grey_gd g t0) + 1), gd_pcount := 0, gd_pass := t1\<rparr>))"
proof -
  obtain g1 where 1: "process_grey D None g gt sync dst_ip t0 = Some g1" "ready (gl_db g1)" "saved (gl_db g1) = None"
    "same_setup g1 g" "view (gl_db g1) = (view (gl_db g))(KEY_TUPLE gt \<mapsto> grey_val (grey_gd g t0))"
    using first_message [OF assms(1-3) ok] by blast
  have "gd_first (grey_gd g t0) + gl_pass_time g1 < t1" using t same_setup_fields(4) [OF 1(4)] by (simp add: grey_gd_def)
  from retry_message [OF ready_inv [OF 1(2)] 1(3) fc 1(4,5) this ok] show ?thesis using 1(1) same_setup_trans [OF _ 1(4)] by blast
qed

text \<open>Two messages and a scan.\<close>

lemma lifecycle:
  assumes "inv (gl_db g)" and "saved (gl_db g) = None" and fc: "first_contact g (view (gl_db g)) gt dst_ip" and idle: "scanner_idle g"
    and t: "t0 + gl_pass_time g < t1" "t1 \<le> t2" "t2 < t0 + gl_grey_exp g" and v4: "\<not> v6 (gt_ip gt)"
    and ok: "ok (KEY_TUPLE gt)" and sc: "scannable t2 (view (gl_db g))"
  shows "\<exists>g1 g2 g3 ips v. process_grey D None g gt sync dst_ip t0 = Some g1 \<and>
    process_grey D None g1 gt sync dst_ip t1 = Some g2 \<and> Grey_scan_db D check g2 t2 = Some (0, g3) \<and>
    fw_told g g3 ips \<and> gt_ip gt \<in> set ips \<and>
    view (gl_db g3) (KEY_IP (gt_ip gt)) = Some v \<and> gd_expire (val_gd v) = t2 + gl_white_exp g \<and> gd_pcount (val_gd v) \<ge> 0 \<and>
    view (gl_db g3) (KEY_TUPLE gt) = None"
proof -
  let ?m = "view (gl_db g)"
  let ?gd = "(grey_gd g t0)\<lparr>gd_bcount := wrap_int (gd_bcount (grey_gd g t0) + 1), gd_pcount := 0, gd_pass := t1\<rparr>"
  obtain g1 g2 where 1: "process_grey D None g gt sync dst_ip t0 = Some g1"
    and 2: "process_grey D None g1 gt sync dst_ip t1 = Some g2" "ready (gl_db g2)" "saved (gl_db g2) = None"
      "same_setup g2 g" "view (gl_db g2) = ?m(KEY_TUPLE gt \<mapsto> grey_val ?gd)"
    using retried [OF assms(1-3) t(1) ok] by blast
  have sc2: "scannable t2 (view (gl_db g2))"
    using scannable_tuple [OF sc, of "grey_val ?gd" gt] 2(5) fc by (simp add: grey_val_def first_contact_def)
  note same = 2(4)
  obtain g3 A Tr where 3: "Grey_scan_db D check g2 t2 = Some (0, g3)"
    "scan_spec t2 (gl_white_exp g) (view (gl_db g2)) (view (gl_db g3)) (set A) (set Tr)" "fw_told g2 g3 (filter (\<lambda>s. \<not> v6 s) A)"
    using scan_total [OF ready_inv [OF 2(2)] 2(3)] sc2 idle scanner_idle_same [OF same] same_setup_fields(5) [OF same] by metis
  have ps: "val_passes t2 (grey_val ?gd)" using t by (auto simp: val_passes_def val_expired_def grey_val_def grey_gd_def)
  have m2: "view (gl_db g2) (KEY_TUPLE gt) = Some (grey_val ?gd)" "view (gl_db g2) (KEY_IP (gt_ip gt)) = None"
    using 2(5) fc by (auto simp: first_contact_def)
  then have "ip_passes t2 (view (gl_db g2)) (gt_ip gt)" using ps by (auto simp: ip_passes_def)
  then obtain v where v: "gt_ip gt \<in> set A" "val_passes t2 v" "view (gl_db g3) (KEY_IP (gt_ip gt)) = Some (white_val t2 (gl_white_exp g) v)"
    using scan_specD(3) [OF 3(2), of "gt_ip gt"] m2(2) by auto
  have "view (gl_db g3) (KEY_TUPLE gt) = None \<or> view (gl_db g3) (KEY_TUPLE gt) = Some (grey_val ?gd)"
    using scan_specD(5) [OF 3(2), of gt] m2(1) by metis
  moreover have "view (gl_db g3) (KEY_TUPLE gt) \<noteq> Some (grey_val ?gd)"
    using scan_specD(6) [OF 3(2) _ ps, of gt] m2(2) by auto
  moreover have "fw_told g g3 (filter (\<lambda>s. \<not> v6 s) A)"
    using 3(3) fw_told_same [OF same] by blast
  ultimately show ?thesis
    using 1 2(1) 3(1) v v4
    by (intro exI [of _ g1] exI [of _ g2] exI [of _ g3] exI [of _ "filter (\<lambda>s. \<not> v6 s) A"] exI [of _ "white_val t2 (gl_white_exp g) v"])
       (auto simp: white_val_def val_passes_def)
qed

text \<open>One message and a scan.\<close>

lemma no_retry:
  assumes "inv (gl_db g)" and "saved (gl_db g) = None" and fc: "first_contact g (view (gl_db g)) gt dst_ip" and idle: "scanner_idle g"
    and others: "\<not> ip_passes t (view (gl_db g)) (gt_ip gt)"
    and ok: "ok (KEY_TUPLE gt)" and sc: "scannable t (view (gl_db g))"
  shows "\<exists>g1 g2 A Tr. process_grey D None g gt sync dst_ip t0 = Some g1 \<and> Grey_scan_db D check g1 t = Some (0, g2) \<and>
    scan_spec t (gl_white_exp g) (view (gl_db g1)) (view (gl_db g2)) (set A) (set Tr) \<and> fw_told g g2 (filter (\<lambda>s. \<not> v6 s) A) \<and>
    gt_ip gt \<notin> set A \<and> view (gl_db g2) (KEY_IP (gt_ip gt)) = None"
proof -
  let ?m = "view (gl_db g)"
  obtain g1 where 1: "process_grey D None g gt sync dst_ip t0 = Some g1" "ready (gl_db g1)" "saved (gl_db g1) = None"
    "same_setup g1 g" "view (gl_db g1) = ?m(KEY_TUPLE gt \<mapsto> grey_val (grey_gd g t0))"
    using first_message [OF assms(1,2) fc ok] by blast
  have sc1: "scannable t (view (gl_db g1))"
    using scannable_tuple [OF sc, of "grey_val (grey_gd g t0)" gt] 1(5) fc by (simp add: grey_val_def grey_gd_def first_contact_def)
  obtain g2 A Tr where 2: "Grey_scan_db D check g1 t = Some (0, g2)"
    "scan_spec t (gl_white_exp g) (view (gl_db g1)) (view (gl_db g2)) (set A) (set Tr)" "fw_told g1 g2 (filter (\<lambda>s. \<not> v6 s) A)"
    using scan_total [OF ready_inv [OF 1(2)] 1(3)] sc1 idle scanner_idle_same [OF 1(4)] same_setup_fields(5) [OF 1(4)] by metis
  have "\<not> val_passes t (grey_val (grey_gd g t0))" by (auto simp: val_passes_def val_expired_def grey_val_def grey_gd_def)
  then have "\<not> ip_passes t (view (gl_db g1)) (gt_ip gt)" using others 1(5) by (auto simp: ip_passes_def split: if_splits)
  moreover have m1: "view (gl_db g1) (KEY_IP (gt_ip gt)) = None" using 1(5) fc by (auto simp: first_contact_def)
  ultimately have "gt_ip gt \<notin> set A" using scan_specD(2) [OF 2(2), of "gt_ip gt"] by (auto simp: ip_white_def)
  moreover have "view (gl_db g2) (KEY_IP (gt_ip gt)) = None"
    using scan_specD(4) [OF 2(2), of "gt_ip gt"] m1 calculation by auto
  moreover have "fw_told g g2 (filter (\<lambda>s. \<not> v6 s) A)"
    using 2(3) fw_told_same [OF 1(4)] by blast
  ultimately show ?thesis using 1(1) 2(1,2) by blast
qed

end

end
