(* ===== verification/Greylisting.thy ===== *)
theory Greylisting
  imports Grey
begin

text \<open>
  The promises of greylisting: the engine of \<open>src/src/grey.c\<close> run on the Berkeley DB driver of
  \<open>src/drivers/bdb.c\<close>. The lemmas of \<open>Grey\<close> hold for every database that keeps the contract
  \<open>greydb_live\<close>; the driver keeps it on every library that keeps the laws of \<open>bdb_live\<close>, so the
  properties below assume the laws of the library only.
\<close>

text \<open>A greylister with the default configuration on a database in memory, for the instances.\<close>

definition example_greylister :: "(DB_key \<times> DB_val) list \<Rightarrow> mem_env bdb_handle Greylister_T" where
  "example_greylister kvs =
     \<lparr>gl_config = Config_create, gl_shutdown = False, gl_low_prio_mx = None, gl_traplist_name = GREY_TRAP_NAME,
      gl_traplist_msg = GREY_TRAP_MSG, gl_whitelist_name = GREY_WHITE_NAME, gl_whitelist_name_ipv6 = GREY_WHITE_NAME_IPV6,
      gl_whitelist = List_create, gl_whitelist_ipv6 = List_create, gl_traplist = List_create, gl_domains = List_create,
      gl_trap_out = Some [], gl_fw_out = Some [], gl_startup = 0, gl_grey_exp = GREY_GREYEXP, gl_trap_exp = GREY_TRAPEXP,
      gl_white_exp = GREY_WHITEEXP, gl_pass_time = GREY_PASSTIME, gl_db = mem_handle kvs, gl_syncer = None, gl_spf_server = False\<rparr>"

lemma example_greylister_idle: "scanner_idle (example_greylister kvs)"
  by (simp add: scanner_idle_def example_greylister_def GREY_WHITEEXP_def)

lemma example_greylister_empty:
  "bdb_inv mem_content mem_backup_content (gl_db (example_greylister []))"
  "bdb_saved mem_backup_content (gl_db (example_greylister [])) = None"
  "bdb_view mem_content (gl_db (example_greylister [])) = (\<lambda>k. None)"
  using mem_handle_inv [of "[]"]
  by (auto simp: example_greylister_def bdb_view_def content_view_def mem_content_def mem_handle_def fun_eq_iff)

lemma example_first_contact: "first_contact (example_greylister []) (\<lambda>k. None) example_tuple dst_ip"
  using example_tuple_ok
  by (simp add: first_contact_def example_greylister_def trap_addr_def List_create_def List_wf_def)

section \<open>Properties\<close>

text \<open>
  C1. A sender that retries is let through: when the tuple of a first attempt comes again after the
  pass time, the next scan before the entry expires replaces the tuple by a white entry for the
  address, valid for the white expiry time, and tells the firewall to whitelist the address. Neither
  message nor the scan fails.
\<close>

theorem retry_whitelisted:
  assumes "bdb_live L content backup c_file c_start c_seen c_at"
    and "bdb_inv content backup (gl_db g)" and "bdb_saved backup (gl_db g) = None"
    and "first_contact g (bdb_view content (gl_db g)) gt dst_ip" and "scanner_idle g"
    and "t0 + gl_pass_time g < t1" and "t1 \<le> t2" and "t2 < t0 + gl_grey_exp g" and "check (gt_ip gt) \<noteq> uint AF_INET6"
  shows "\<exists>g1 g2 g3 ips v. process_grey (bdb_driver L check) None g gt sync dst_ip t0 = Some g1 \<and>
    process_grey (bdb_driver L check) None g1 gt sync dst_ip t1 = Some g2 \<and>
    Grey_scan_db (bdb_driver L check) check g2 t2 = Some (0, g3) \<and>
    fw_told g g3 ips \<and> gt_ip gt \<in> set ips \<and>
    bdb_view content (gl_db g3) (KEY_IP (gt_ip gt)) = Some v \<and> gd_expire (val_gd v) = t2 + gl_white_exp g \<and>
    gd_pcount (val_gd v) \<ge> 0 \<and> bdb_view content (gl_db g3) (KEY_TUPLE gt) = None"
  using greydb_live.lifecycle [OF bdb_live.drv_live [OF assms(1), of check] assms(2-9) first_contact_ok [OF assms(4)] TrueI] .

text \<open>C1 for one tuple on an empty database, with the default times.\<close>

theorem retry_whitelisted_witness:
  "\<exists>g1 g2 g3 ips. process_grey (bdb_driver mem_lib (\<lambda>s. 2)) None (example_greylister []) example_tuple True [] 1000 = Some g1 \<and>
     process_grey (bdb_driver mem_lib (\<lambda>s. 2)) None g1 example_tuple True [] 3000 = Some g2 \<and>
     Grey_scan_db (bdb_driver mem_lib (\<lambda>s. 2)) (\<lambda>s. 2) g2 3060 = Some (0, g3) \<and>
     fw_told (example_greylister []) g3 ips \<and> gt_ip example_tuple \<in> set ips"
proof -
  have "first_contact (example_greylister []) (bdb_view mem_content (gl_db (example_greylister []))) example_tuple []"
    using example_first_contact by (simp add: example_greylister_empty)
  from retry_whitelisted [OF mem.bdb_live_axioms example_greylister_empty(1,2) this example_greylister_idle,
      of 1000 3000 3060 "\<lambda>s. 2" True]
  show ?thesis by (auto simp: example_greylister_def GREY_PASSTIME_def GREY_GREYEXP_def AF_INET6_def)
qed

text \<open>
  C2. A sender that does not retry is never let through: after a single attempt no scan, at whatever
  time, whitelists the address or stores an entry for it, unless another tuple of the address has passed.
\<close>

theorem single_attempt_not_whitelisted:
  assumes "bdb_live L content backup c_file c_start c_seen c_at"
    and "bdb_inv content backup (gl_db g)" and "bdb_saved backup (gl_db g) = None"
    and "first_contact g (bdb_view content (gl_db g)) gt dst_ip" and "scanner_idle g"
    and "\<not> ip_passes t (bdb_view content (gl_db g)) (gt_ip gt)"
  shows "\<exists>g1 g2 A Tr. process_grey (bdb_driver L check) None g gt sync dst_ip t0 = Some g1 \<and>
    Grey_scan_db (bdb_driver L check) check g1 t = Some (0, g2) \<and>
    scan_spec t (gl_white_exp g) (bdb_view content (gl_db g1)) (bdb_view content (gl_db g2)) (set A) (set Tr) \<and>
    fw_told g g2 (filter (\<lambda>s. check s \<noteq> uint AF_INET6) A) \<and>
    gt_ip gt \<notin> set A \<and> bdb_view content (gl_db g2) (KEY_IP (gt_ip gt)) = None"
  using greydb_live.no_retry [OF bdb_live.drv_live [OF assms(1), of check] assms(2-6) first_contact_ok [OF assms(4)] TrueI] .

text \<open>C2 for one tuple on an empty database.\<close>

theorem single_attempt_not_whitelisted_witness:
  "\<exists>g1 g2. process_grey (bdb_driver mem_lib (\<lambda>s. 2)) None (example_greylister []) example_tuple True [] 1000 = Some g1 \<and>
     Grey_scan_db (bdb_driver mem_lib (\<lambda>s. 2)) (\<lambda>s. 2) g1 3060 = Some (0, g2) \<and>
     bdb_view mem_content (gl_db g2) (KEY_IP (gt_ip example_tuple)) = None"
proof -
  have "first_contact (example_greylister []) (bdb_view mem_content (gl_db (example_greylister []))) example_tuple []"
    using example_first_contact by (simp add: example_greylister_empty)
  from single_attempt_not_whitelisted [OF mem.bdb_live_axioms example_greylister_empty(1,2) this example_greylister_idle,
      of 3060 "\<lambda>s. 2" True 1000]
  show ?thesis by (simp add: example_greylister_empty ip_passes_def) blast
qed

text \<open>
  C16. A grey message touches only its own entries and closes its transaction: whatever the library
  and the SPF query answer, when \<open>process_grey\<close> returns, no transaction is open, only the entries of
  the tuple and of its address can have changed, and of the greylister only the database handle and
  the synchronisation messages.
\<close>

theorem process_grey_frame:
  assumes "bdb_library L content backup c_file c_start c_seen c_at"
    and "bdb_inv content backup (gl_db g)" and "bdb_saved backup (gl_db g) = None" and "key_ok (KEY_TUPLE gt)"
    and "process_grey (bdb_driver L check) spf g gt sync dst_ip now = Some g'"
  shows "bdb_ready content backup (gl_db g') \<and> bdb_saved backup (gl_db g') = None \<and> same_setup g' g \<and>
    (\<forall>k. k \<noteq> KEY_TUPLE gt \<and> k \<noteq> KEY_IP (gt_ip gt) \<longrightarrow>
       bdb_view content (gl_db g') k = bdb_view content (gl_db g) k)"
  using greydb.process_grey_contract [OF bdb_library.drv_contract [OF assms(1), of check] assms(5,2-4)] .

text \<open>C16 for a first message.\<close>

theorem process_grey_frame_witness:
  "\<exists>g'. process_grey (bdb_driver mem_lib (\<lambda>s. 2)) None (example_greylister []) example_tuple True [] 1000 = Some g' \<and>
     bdb_saved mem_backup_content (gl_db g') = None \<and> bdb_view mem_content (gl_db g') (KEY_MAIL ''x'') = None"
proof -
  have fc: "first_contact (example_greylister []) (bdb_view mem_content (gl_db (example_greylister []))) example_tuple []"
    using example_first_contact by (simp add: example_greylister_empty)
  obtain g' where g': "process_grey (bdb_driver mem_lib (\<lambda>s. 2)) None (example_greylister []) example_tuple True [] 1000 = Some g'"
    using greydb_live.first_message [OF mem.drv_live example_greylister_empty(1,2) fc first_contact_ok [OF fc]] by blast
  show ?thesis
    using process_grey_frame [OF mem.bdb_library_axioms example_greylister_empty(1,2) example_tuple_ok g'] g'
    by (simp add: example_greylister_empty)
qed

text \<open>
  C17. What a grey message stores when SPF is not in use: for a trapped recipient the entry of the
  address with a negative pass count, otherwise the entry of the tuple; a new entry expires after the
  trap or grey time, the entry of a tuple seen before counts the attempt and, after the pass time, is
  marked as passing from now on; a first contact through the low priority MX traps the address.
\<close>

theorem process_grey_exact:
  assumes "bdb_live L content backup c_file c_start c_seen c_at"
    and "bdb_inv content backup (gl_db g)" and "bdb_saved backup (gl_db g) = None"
    and "key_ok (KEY_TUPLE gt)" and "List_wf (gl_domains g)"
    and "Config_get_int (gl_config g) ''db_permitted_domains'' (Some ''grey'') 0 = Some dbp"
    and "tr = trap_addr (list_head (gl_domains g)) (dbp \<noteq> 0) (bdb_view content (gl_db g)) (gt_to gt)"
    and "(k, v) = grey_entry g gt sync dst_ip now tr (if tr then gl_trap_exp g else gl_grey_exp g)
      (if tr then KEY_IP (gt_ip gt) else KEY_TUPLE gt) (bdb_view content (gl_db g))"
  shows "\<exists>g'. process_grey (bdb_driver L check) None g gt sync dst_ip now = Some g' \<and>
    bdb_saved backup (gl_db g') = None \<and> bdb_view content (gl_db g') = (bdb_view content (gl_db g))(k \<mapsto> v)"
  using greydb_live.process_grey_total [OF bdb_live.drv_live [OF assms(1), of check] assms(2-8)] by blast

text \<open>C17 for a first message to an ordinary recipient.\<close>

theorem process_grey_exact_witness:
  "\<exists>g'. process_grey (bdb_driver mem_lib (\<lambda>s. 2)) None (example_greylister []) example_tuple True [] 1000 = Some g' \<and>
     bdb_view mem_content (gl_db g') (KEY_TUPLE example_tuple) =
       Some (grey_val \<lparr>gd_first = 1000, gd_pass = 15400, gd_expire = 15400, gd_bcount = 1, gd_pcount = 0\<rparr>)"
proof -
  let ?v = "grey_val \<lparr>gd_first = 1000, gd_pass = 15400, gd_expire = 15400, gd_bcount = 1, gd_pcount = 0\<rparr>"
  have tr: "False = trap_addr (list_head (gl_domains (example_greylister []))) ((0::int) \<noteq> 0)
      (bdb_view mem_content (gl_db (example_greylister []))) (gt_to example_tuple)"
    by (simp add: trap_addr_def example_greylister_empty) (simp add: example_greylister_def List_create_def)
  have kv: "(KEY_TUPLE example_tuple, ?v) = grey_entry (example_greylister []) example_tuple True [] 1000 False
      (if False then gl_trap_exp (example_greylister []) else gl_grey_exp (example_greylister []))
      (if False then KEY_IP (gt_ip example_tuple) else KEY_TUPLE example_tuple) (bdb_view mem_content (gl_db (example_greylister [])))"
    by (simp add: grey_entry_def example_greylister_empty) (simp add: example_greylister_def low_prio_hit_def GREY_GREYEXP_def)
  show ?thesis
    using process_grey_exact [OF mem.bdb_live_axioms example_greylister_empty(1,2) example_tuple_ok _ _ tr kv, of "\<lambda>s. 2"]
    by (fastforce simp: example_greylister_def List_create_def List_wf_def)
qed

text \<open>
  C32. A trap or white message sets, updates or deletes exactly the entry of its address, in one
  transaction. A message that adds changes nothing when its expiry time is not a non-zero decimal number within the range of a
  long; a message that deletes removes the entry whatever its expiry time is. The comment in \<open>grey.c\<close> that expiry times have to be in the
  future is not what the code does: a time that has passed is stored like any other, and the next scan removes the entry.
\<close>

theorem process_non_grey_exact:
  assumes "bdb_live L content backup c_file c_start c_seen c_at"
    and "bdb_inv content backup (gl_db g)" and "bdb_saved backup (gl_db g) = None" and "key_ok (KEY_IP ip)"
  shows "\<exists>g'. process_non_grey (bdb_driver L check) g spamtrap ip source expires sync delete now = Some g' \<and>
    bdb_saved backup (gl_db g') = None \<and> same_setup g' g \<and>
    bdb_view content (gl_db g') = (if delete \<or> expires_ok expires
       then (bdb_view content (gl_db g))
              (KEY_IP ip := non_grey_entry spamtrap (fst (strtol expires)) delete now (bdb_view content (gl_db g) (KEY_IP ip)))
       else bdb_view content (gl_db g))"
proof (cases "delete \<or> expires_ok expires")
  case True
  then show ?thesis
    using greydb_live.process_non_grey_total [OF bdb_live.drv_live [OF assms(1), of check] assms(2-4) True,
        of spamtrap source sync now] by (simp only: if_True) blast
next
  case False
  then have "process_non_grey (bdb_driver L check) g spamtrap ip source expires sync delete now = Some g"
    using strtol_range [of expires] by (cases "strtol expires") (auto simp: process_non_grey_def expires_ok_def)
  then show ?thesis using False assms(3) by simp
qed

text \<open>C32 for a trap message on an empty database.\<close>

theorem process_non_grey_exact_witness:
  "\<exists>g'. process_non_grey (bdb_driver mem_lib (\<lambda>s. 2)) (example_greylister []) True ''192.0.2.1'' ''src'' ''2000'' True False 1000 = Some g' \<and>
     bdb_view mem_content (gl_db g') (KEY_IP ''192.0.2.1'') =
       Some (grey_val \<lparr>gd_first = 1000, gd_pass = 2000, gd_expire = 2000, gd_bcount = 0, gd_pcount = - 1\<rparr>)"
proof -
  have st: "strtol ''2000'' = (2000, [], False)"
    by (simp add: strtol_def char_isspace_def isspace_c_def isdigit_c_def char_code_def LONG_MAX_def LONG_MIN_def)
  show ?thesis
    using process_non_grey_exact [OF mem.bdb_live_axioms example_greylister_empty(1,2), of "''192.0.2.1''" "\<lambda>s. 2" True "''src''" "''2000''" True False 1000]
    by (fastforce simp: st expires_ok_def non_grey_entry_def example_greylister_empty NUL_def)
qed

text \<open>
  C31. A scan of the greylister: it ends, commits and tells the two other processes exactly what the
  database says. The main process gets the traplist of the addresses with a trap that has not
  expired; the firewall gets the whitelisted IPv4 addresses and, when IPv6 is enabled, the IPv6
  ones; the database changes as the scan specification says.
\<close>

theorem Grey_scan_db_exact:
  assumes "bdb_live L content backup c_file c_start c_seen c_at"
    and "bdb_inv content backup (gl_db g)" and "bdb_saved backup (gl_db g) = None" and "scanner_idle g"
    and "Config_get_int (gl_config g) ''enable_ipv6'' None 0 = Some e6" and "gl_trap_out g = Some tout" and "gl_fw_out g = Some fout"
  shows "\<exists>g' A T. Grey_scan_db (bdb_driver L check) check g now = Some (0, g') \<and>
    bdb_ready content backup (gl_db g') \<and> bdb_saved backup (gl_db g') = None \<and>
    scan_spec now (gl_white_exp g) (bdb_view content (gl_db g)) (bdb_view content (gl_db g')) (set A) (set (list_head T)) \<and>
    gl_fw_out g' = Some (fout @
      (let ips = filter (\<lambda>s. check s \<noteq> uint AF_INET6) A in if ips = [] then [] else replace_text (gl_whitelist_name g) AF_INET ips) @
      (let ips = filter (\<lambda>s. check s = uint AF_INET6) A in
         if ips = [] \<or> e6 = 0 then [] else replace_text (gl_whitelist_name_ipv6 g) AF_INET6 ips)) \<and>
    gl_trap_out g' = Some (tout @ Greyd_send_config check (gl_traplist_name g) (gl_traplist_msg g) T)"
proof -
  have l: "0 < gl_white_exp g" "list_head (gl_whitelist g) = []" "list_head (gl_whitelist_ipv6 g) = []" "list_head (gl_traplist g) = []"
    "List_wf (gl_whitelist g)" "List_wf (gl_whitelist_ipv6 g)" "List_wf (gl_traplist g)"
    using assms(4) by (auto simp: scanner_idle_def List_create_def List_wf_def)
  from greydb_live.Grey_scan_db_total [OF bdb_live.drv_live [OF assms(1), of check] assms(2,3) l assms(5-7) TrueI]
  show ?thesis by blast
qed

text \<open>C31 on an empty database.\<close>

theorem Grey_scan_db_exact_witness:
  "\<exists>g'. Grey_scan_db (bdb_driver mem_lib (\<lambda>s. 2)) (\<lambda>s. 2) (example_greylister []) 1000 = Some (0, g')"
  using Grey_scan_db_exact [OF mem.bdb_live_axioms example_greylister_empty(1,2) example_greylister_idle, of 0 "[]" "[]" "\<lambda>s. 2" 1000]
  by (auto simp: example_greylister_def)

end
