(* ===== verification/Messages.thy ===== *)
theory Messages
  imports Greyd
begin

text \<open>
  The messages of the daemon's processes are read by the configuration parser: lines that assign
  integers, strings and lists of strings to names, ended by a percent sign. This theory shows that
  what one process prints another one parses back, and leaves the stream at the start of the next
  message. The streams are pipes, which the lexer reads as files.
\<close>

section \<open>Tokens of a message\<close>

definition lx :: "Lexer_T \<Rightarrow> char list \<Rightarrow> bool" where
  "lx l cs \<longleftrightarrow> lex_source l = Source_file cs \<and> \<not> seen_end l"

lemma lx_getc:
  assumes "lx l (c # cs)"
  obtains l' where "Lexer_getc l = (char_code c, l')" and "lx l' cs"
  using assms that [of "snd (Lexer_getc l)"] by (auto simp: lx_def Lexer_getc_def Let_def)

lemma lx_reuse:
  assumes "lx l' cs"
  shows "lx (Lexer_reuse_char (l'\<lparr>current_value := v\<rparr>) (char_code c)) (c # cs)"
    and "current_value (Lexer_reuse_char (l'\<lparr>current_value := v\<rparr>) (char_code c)) = v"
  using assms char_code_bounds [of c] to_char_char_code [of c]
  by (auto simp: lx_def Lexer_reuse_char_def Lexer_ungetc_def Let_def simp del: to_char_char_code)

lemma lx_value [simp]: "lx (l\<lparr>current_value := v\<rparr>) cs = lx l cs" "lx (l\<lparr>current_token := t\<rparr>) cs = lx l cs"
  by (simp_all add: lx_def)

text \<open>Characters by their codes.\<close>

lemmas char_codes = char_code_def

definition name_char :: "char \<Rightarrow> bool" where
  "name_char c \<longleftrightarrow> 97 \<le> char_code c \<and> char_code c \<le> 122 \<or> isdigit_c (char_code c) \<or> char_code c = 95"

definition msg_name :: "string \<Rightarrow> bool" where
  "msg_name s \<longleftrightarrow> s \<noteq> [] \<and> isalpha_c (char_code (hd s)) \<and> (\<forall>c\<in>set s. name_char c) \<and> length s \<le> MAX_KEY_LEN \<and>
     name_token s = CONFIG_LEXER_TOK_NAME"

text \<open>A string that can be printed between quotes.\<close>

definition plain :: "string \<Rightarrow> bool" where
  "plain s \<longleftrightarrow> CHR 0x22 \<notin> set s \<and> CHR 0x5c \<notin> set s \<and> NUL \<notin> set s \<and> length s \<le> LEXER_MAX_STR_LEN + 1"

lemma name_char_lower: "name_char c \<Longrightarrow> to_char (tolower_c (char_code c)) = c"
  by (auto simp: name_char_def tolower_c_def isupper_c_def isdigit_c_def)

lemma lex_name_text:
  assumes "lx l (cs @ d # rest)" and "\<forall>c\<in>set cs. name_char c" and "\<not> isalpha_c (char_code d)" and "\<not> isdigit_c (char_code d)"
    and "char_code d \<noteq> 95" and "length s + length cs \<le> LEXER_MAX_STR_LEN"
  shows "\<exists>l'. lex_name l s = (s @ cs, char_code d, l') \<and> lx l' rest"
  using assms
proof (induction cs arbitrary: l s)
  case Nil
  obtain l' where l': "Lexer_getc l = (char_code d, l')" "lx l' rest" using lx_getc [of l d rest] Nil(1) by auto
  then show ?case using Nil by (subst lex_name.simps) simp
next
  case (Cons c cs)
  obtain l1 where l1: "Lexer_getc l = (char_code c, l1)" "lx l1 (cs @ d # rest)" using lx_getc [of l c] Cons(2) by auto
  have nc: "name_char c" using Cons(3) by simp
  then have "isalpha_c (char_code c) \<or> isdigit_c (char_code c) \<or> char_code c = 95"
    by (auto simp: name_char_def isalpha_c_def)
  then have "lex_name l s = lex_name l1 (s @ [c])"
    using l1(1) Cons(7) name_char_lower [OF nc] by (subst lex_name.simps) simp
  then show ?case using Cons.IH [OF l1(2), of "s @ [c]"] Cons(3-7) by simp
qed

lemma lex_string_text:
  assumes "lx l (s @ CHR 0x22 # rest)" and "CHR 0x22 \<notin> set s" and "CHR 0x5c \<notin> set s" and "length t + length s \<le> LEXER_MAX_STR_LEN + 1"
  shows "\<exists>l'. lex_string l False t = (t @ s, 34, l') \<and> lx l' rest"
  using assms
proof (induction s arbitrary: l t)
  case Nil
  have q: "char_code (CHR 0x22) = 34" by (simp add: char_codes)
  obtain l' where l': "Lexer_getc l = (34, l')" "lx l' rest" using lx_getc [of l "CHR 0x22" rest] Nil(1) q by auto
  then show ?case by (subst lex_string.simps) simp
next
  case (Cons c s)
  obtain l1 where l1: "Lexer_getc l = (char_code c, l1)" "lx l1 (s @ CHR 0x22 # rest)" using lx_getc [of l c] Cons(2) by auto
  have "char_code c \<noteq> char_code (CHR 0x22)" "char_code c \<noteq> char_code (CHR 0x5c)" using Cons(3,4) by auto
  then have "char_code c \<noteq> 34" "char_code c \<noteq> 92" "char_code c \<noteq> EOF"
    using char_code_bounds [of c] by (auto simp: char_codes)
  then have "lex_string l False t = lex_string l1 False (t @ [c])"
    using l1(1) Cons(5) by (subst lex_string.simps) simp
  then show ?case using Cons.IH [OF l1(2), of "t @ [c]"] Cons(3-5) by simp
qed

lemma dec_digits_nonempty: "dec_digits n \<noteq> []"
  by (subst dec_digits.simps) simp

lemma char_code_digit: "k < 10 \<Longrightarrow> char_code (char_of (48 + k)) = 48 + int k"
proof -
  assume "k < 10"
  then have "of_char (char_of (48 + k) :: char) = (48 + k :: nat)" by simp
  then show ?thesis unfolding char_code_def by (metis of_char_of of_nat_add of_nat_numeral of_nat_of_char)
qed

lemma dec_digits_hd: "isdigit_c (char_code (hd (dec_digits n)))"
proof (induction n rule: dec_digits.induct)
  case (1 n)
  show ?case
  proof (cases "n < 10")
    case True
    then show ?thesis using char_code_digit [OF True] by (subst dec_digits.simps) (simp add: isdigit_c_def)
  next
    case False
    then show ?thesis using 1 dec_digits_nonempty [of "n div 10"] by (subst dec_digits.simps) simp
  qed
qed

text \<open>Reading decimal digits continues the value read so far.\<close>

lemma lex_int_text:
  assumes "lx l (dec_digits n @ rest)" and "i * 10 ^ length (dec_digits n) + int n < 2 ^ 31" and "0 \<le> i"
  shows "\<exists>l'. lex_int l i = lex_int l' (i * 10 ^ length (dec_digits n) + int n) \<and> lx l' rest"
  using assms
proof (induction n arbitrary: l rest rule: dec_digits.induct)
  case (1 n)
  have step: "\<exists>l'. lex_int l1 j = lex_int l' (j * 10 + int k) \<and> lx l' r"
    if "lx l1 (char_of (48 + k) # r)" "k < 10" "0 \<le> j" "j * 10 + int k < 2 ^ 31" for l1 j k r
  proof -
    from lx_getc [OF that(1)] obtain l' where l': "Lexer_getc l1 = (48 + int k, l')" "lx l' r"
      unfolding char_code_digit [OF \<open>k < 10\<close>] by blast
    have "wrap_int (j * 10 + int k) = j * 10 + int k" using that(3,4) by (intro wrap_int_id) auto
    then have "lex_int l1 j = lex_int l' (j * 10 + int k)"
      using l'(1) that(2) by (subst lex_int.simps) (simp add: isdigit_c_def)
    then show ?thesis using l'(2) by blast
  qed
  show ?case
  proof (cases "n < 10")
    case True
    then have "dec_digits n = [char_of (48 + n)]" by (subst dec_digits.simps) simp
    then show ?thesis using step [of l n rest i] 1 True by simp
  next
    case False
    then have d: "dec_digits n = dec_digits (n div 10) @ [char_of (48 + n mod 10)]" by (subst dec_digits.simps) simp
    let ?i = "i * 10 ^ length (dec_digits (n div 10)) + int (n div 10)"
    have eq: "?i * 10 + int (n mod 10) = i * 10 ^ length (dec_digits n) + int n"
      using d by (simp add: algebra_simps zdiv_int zmod_int)
    have nn: "0 \<le> ?i" using 1(4) by simp
    obtain l1 where l1: "lex_int l i = lex_int l1 ?i" "lx l1 (char_of (48 + n mod 10) # rest)"
      using 1(1) [OF False, of l "char_of (48 + n mod 10) # rest"] 1(2-4) d eq nn by auto
    then show ?thesis using step [OF l1(2) _ nn] eq 1(3) by auto
  qed
qed

text \<open>One token after the other.\<close>

lemma tok_punct:
  assumes "lx l (c # rest)"
    and "(c, tok) \<in> {(CHR 0x0A, CONFIG_LEXER_TOK_EOL), (CHR '','', CONFIG_LEXER_TOK_COMMA), (CHR ''='', CONFIG_LEXER_TOK_EQ),
      (CHR ''['', CONFIG_LEXER_TOK_SQBRACK_L), (CHR '']'', CONFIG_LEXER_TOK_SQBRACK_R), (CHR ''%'', CONFIG_LEXER_TOK_EOF)}"
  shows "\<exists>l'. Config_lexer_next_token l = (tok, l') \<and> lx l' rest"
proof -
  obtain l1 where l1: "Lexer_getc l = (char_code c, l1)" "lx l1 rest" using lx_getc [OF assms(1)] by blast
  have "\<not> seen_end l" using assms(1) by (simp add: lx_def)
  then show ?thesis
    using assms(2) l1
    by (subst Config_lexer_next_token.simps)
       (auto simp: char_codes isdigit_c_def isalpha_c_def isupper_c_def return_tok_def)
qed

lemma tok_space:
  assumes "lx l (CHR '' '' # rest)"
  shows "\<exists>l'. Config_lexer_next_token l = Config_lexer_next_token l' \<and> lx l' rest"
proof -
  have c: "char_code (CHR '' '') = 32" by (simp add: char_codes)
  obtain l1 where l1: "Lexer_getc l = (32, l1)" "lx l1 rest" using lx_getc [OF assms(1)] c by auto
  moreover have "\<not> seen_end l" using assms(1) by (simp add: lx_def)
  ultimately have "Config_lexer_next_token l = Config_lexer_next_token l1"
    by (subst Config_lexer_next_token.simps) (simp add: isdigit_c_def isalpha_c_def isupper_c_def)
  then show ?thesis using l1(2) by blast
qed

lemma tok_name:
  assumes "lx l (s @ d # rest)" and "msg_name s" and "\<not> isalpha_c (char_code d)" and "\<not> isdigit_c (char_code d)" and "char_code d \<noteq> 95"
  shows "\<exists>l'. Config_lexer_next_token l = (CONFIG_LEXER_TOK_NAME, l') \<and> lx l' (d # rest) \<and> current_value l' = Val_s s"
proof -
  obtain c cs where s: "s = c # cs" using assms(2) by (cases s) (auto simp: msg_name_def)
  have c: "isalpha_c (char_code c)" "name_char c" "\<forall>x\<in>set cs. name_char x" "length [c] + length cs \<le> LEXER_MAX_STR_LEN"
    using assms(2) s by (auto simp: msg_name_def MAX_KEY_LEN_def LEXER_MAX_STR_LEN_def)
  obtain l1 where l1: "Lexer_getc l = (char_code c, l1)" "lx l1 (cs @ d # rest)" using lx_getc [of l c] assms(1) s by auto
  obtain l2 where l2: "lex_name l1 [c] = (s, char_code d, l2)" "lx l2 rest"
    using lex_name_text [OF l1(2) c(3) assms(3-5) c(4)] s by auto
  have "\<not> isdigit_c (char_code c)" using c(1) by (auto simp: isalpha_c_def isupper_c_def isdigit_c_def)
  moreover have "\<not> seen_end l" using assms(1) by (simp add: lx_def)
  ultimately have "Config_lexer_next_token l =
      return_tok CONFIG_LEXER_TOK_NAME (Lexer_reuse_char (l2\<lparr>current_value := Val_s s\<rparr>) (char_code d))"
    using l1(1) l2(1) c(1) name_char_lower [OF c(2)] assms(2)
    by (subst Config_lexer_next_token.simps) (simp add: msg_name_def Let_def)
  then show ?thesis using lx_reuse [OF l2(2), of "Val_s s" d] by (simp add: return_tok_def)
qed

lemma tok_int:
  assumes "lx l (dec_digits n @ d # rest)" and "int n < 2 ^ 31" and "\<not> isdigit_c (char_code d)"
  shows "\<exists>l'. Config_lexer_next_token l = (CONFIG_LEXER_TOK_INT, l') \<and> lx l' (d # rest) \<and> current_value l' = Val_i (int n)"
proof -
  obtain c cs where s: "dec_digits n = c # cs" using dec_digits_nonempty by (meson neq_Nil_conv)
  obtain l1 where l1: "Lexer_getc l = (char_code c, l1)" "lx l1 (cs @ d # rest)" using lx_getc [of l c] assms(1) s by auto
  obtain l0 where l0: "lex_int l 0 = lex_int l0 (int n)" "lx l0 (d # rest)" using lex_int_text [of l n "d # rest" 0] assms(1,2) by auto
  have dig: "isdigit_c (char_code c)" using dec_digits_hd [of n] s by simp
  then have "wrap_int (0 * 10 + (char_code c - 48)) = char_code c - 48" by (simp add: isdigit_c_def)
  then have "lex_int l 0 = lex_int l1 (char_code c - 48)" using l1(1) dig by (subst lex_int.simps) simp
  moreover obtain l2 where l2: "Lexer_getc l0 = (char_code d, l2)" "lx l2 rest" using lx_getc [OF l0(2)] by blast
  moreover have "lex_int l0 (int n) = (int n, char_code d, l2)" using l2(1) assms(3) by (subst lex_int.simps) simp
  ultimately have v: "lex_int l1 (char_code c - 48) = (int n, char_code d, l2)" using l0(1) by simp
  have "\<not> seen_end l" using assms(1) by (simp add: lx_def)
  then have "Config_lexer_next_token l =
      return_tok CONFIG_LEXER_TOK_INT (Lexer_reuse_char (l2\<lparr>current_value := Val_i (int n)\<rparr>) (char_code d))"
    using l1(1) v dig by (subst Config_lexer_next_token.simps) simp
  then show ?thesis using lx_reuse [OF l2(2), of "Val_i (int n)" d] by (simp add: return_tok_def)
qed

lemma tok_str:
  assumes "lx l (quoted s @ rest)" and "plain s"
  shows "\<exists>l'. Config_lexer_next_token l = (CONFIG_LEXER_TOK_STR, l') \<and> lx l' rest \<and> current_value l' = Val_s s"
proof -
  have c: "char_code (CHR 0x22) = 34" by (simp add: char_codes)
  obtain l1 where l1: "Lexer_getc l = (34, l1)" "lx l1 (s @ CHR 0x22 # rest)"
    using lx_getc [of l "CHR 0x22"] assms(1) c by (auto simp: quoted_def)
  obtain l2 where l2: "lex_string l1 False [] = (s, 34, l2)" "lx l2 rest"
    using lex_string_text [OF l1(2), of "[]"] assms(2) by (auto simp: plain_def)
  moreover have "\<not> seen_end l" using assms(1) by (simp add: lx_def)
  ultimately have "Config_lexer_next_token l = return_tok CONFIG_LEXER_TOK_STR (l2\<lparr>current_value := Val_s s\<rparr>)"
    using l1(1) by (subst Config_lexer_next_token.simps) (simp add: Let_def isdigit_c_def isalpha_c_def isupper_c_def)
  then show ?thesis using l2(2) by (simp add: return_tok_def)
qed

section \<open>Configurations of a message\<close>

text \<open>A configuration whose default section holds exactly the variables \<open>m\<close>.\<close>

definition msg_config :: "Config_T \<Rightarrow> (string \<rightharpoonup> Config_value) \<Rightarrow> bool" where
  "msg_config c m \<longleftrightarrow> cfg_inv c \<and>
     (\<exists>r. hash_map (cfg_sections c) CONFIG_DEFAULT_SECTION = Some r \<and> r < length (cfg_store c) \<and>
          hash_map (sec_vars (cfg_store c ! r)) = m \<and> CONFIG_SEC_INIT_ENTRIES \<le> hash_size (sec_vars (cfg_store c ! r)))"

lemma msg_lookup:
  assumes "msg_config c m" and "card (dom m) < CONFIG_SEC_INIT_ENTRIES"
  shows "\<exists>r s. Hash_get (cfg_sections c) CONFIG_DEFAULT_SECTION = Some (Some r) \<and> get_sec c r = Some s \<and>
    Config_section_get s var = Some (m var)"
proof -
  obtain r where r: "hash_map (cfg_sections c) CONFIG_DEFAULT_SECTION = Some r" "r < length (cfg_store c)"
      "hash_map (sec_vars (cfg_store c ! r)) = m" "CONFIG_SEC_INIT_ENTRIES \<le> hash_size (sec_vars (cfg_store c ! r))"
    using assms(1) by (auto simp: msg_config_def)
  have inv: "hash_inv (cfg_sections c)" "hash_inv (sec_vars (cfg_store c ! r))"
    using assms(1) r(2) by (auto simp: msg_config_def cfg_inv_def)
  have "num_entries (sec_vars (cfg_store c ! r)) < hash_size (sec_vars (cfg_store c ! r))"
    using hash_entries_card [OF inv(2)] r(3,4) assms(2) by simp
  then have "Hash_get (sec_vars (cfg_store c ! r)) var = Some (m var)"
    using Hash_get_absent [OF inv(2), of var] Hash_get_present [OF inv(2), of var] r(3) by (cases "m var") auto
  then show ?thesis
    using ht.get_present [OF inv(1) r(1)] r(2) by (auto simp: get_sec_def Config_section_get_def)
qed

lemma msg_get:
  assumes "msg_config c m" and "card (dom m) < CONFIG_SEC_INIT_ENTRIES"
  shows "Config_get_int c var None d = Some (case m var of Some (Int_value i) \<Rightarrow> i | _ \<Rightarrow> d)"
    and "Config_get_str c var None x = Some (case m var of Some (Str_value t) \<Rightarrow> Some t | _ \<Rightarrow> x)"
    and "Config_get_list c var None = Some (cv_list (m var))"
  using msg_lookup [OF assms, of var]
  by (auto simp: Config_get_int_def Config_get_str_def Config_get_list_def default_section_def
      Config_section_get_int_def Config_section_get_str_def Config_section_get_list_def)

lemma assign_ok:
  assumes "cp_section p = None" and "msg_config (cp_config p) m" and "length name \<le> MAX_KEY_LEN"
  shows "\<exists>c. assign p name v = Some (p\<lparr>cp_config := c\<rparr>) \<and> msg_config c (m(name \<mapsto> v))"
proof -
  let ?c = "cp_config p"
  obtain r where r: "hash_map (cfg_sections ?c) CONFIG_DEFAULT_SECTION = Some r" "r < length (cfg_store ?c)"
      "hash_map (sec_vars (cfg_store ?c ! r)) = m" "CONFIG_SEC_INIT_ENTRIES \<le> hash_size (sec_vars (cfg_store ?c ! r))"
    using assms(2) by (auto simp: msg_config_def)
  have inv: "cfg_inv ?c" "hash_inv (cfg_sections ?c)" "hash_inv (sec_vars (cfg_store ?c ! r))"
    using assms(2) r(2) by (auto simp: msg_config_def cfg_inv_def)
  obtain h where h: "Hash_insert (sec_vars (cfg_store ?c ! r)) name v = Some h" "hash_inv h" "hash_map h = m(name \<mapsto> v)"
      "hash_size h \<in> {hash_size (sec_vars (cfg_store ?c ! r)), 2 * hash_size (sec_vars (cfg_store ?c ! r))}"
    using Hash_insert_correct [OF inv(3) assms(3), of v] r(3) by metis
  let ?s = "(cfg_store ?c ! r)\<lparr>sec_vars := h\<rparr>"
  let ?d = "?c\<lparr>cfg_store := (cfg_store ?c)[r := ?s]\<rparr>"
  have "current_section p = Some r"
    using assms(1) ht.get_present [OF inv(2) r(1)] by (simp add: current_section_def Config_get_section_def)
  then have "assign p name v = Some (p\<lparr>cp_config := ?d\<rparr>)"
    using r(2) h(1) by (simp add: assign_def update_sec_def get_sec_def Config_section_set_def)
  moreover have "cfg_inv ?d"
    using inv(1) h(2) set_update_subset_insert [of "cfg_store ?c" r ?s] by (auto simp: cfg_inv_def)
  then have "msg_config ?d (m(name \<mapsto> v))" using r h(3,4) by (auto simp: msg_config_def)
  ultimately show ?thesis by blast
qed

lemma default_config:
  "\<exists>c. (do { g \<leftarrow> Config_get_section Config_create CONFIG_DEFAULT_SECTION;
             case g of Some r \<Rightarrow> Some Config_create
             | None \<Rightarrow> (let (r, c) = new_section Config_create CONFIG_DEFAULT_SECTION in Config_add_section c r) }) = Some c \<and>
       msg_config c Map.empty"
proof -
  have l: "length CONFIG_DEFAULT_SECTION \<le> MAX_KEY_LEN" by (simp add: CONFIG_DEFAULT_SECTION_def MAX_KEY_LEN_def)
  have none: "Hash_get (cfg_sections Config_create) CONFIG_DEFAULT_SECTION = Some None"
    using lookup_section [OF Config_create_inv(1,2)] by (simp add: Config_create_def)
  obtain r c where c: "find_or_create Config_create CONFIG_DEFAULT_SECTION = Some (r, c)" "cfg_inv c"
      "hash_map (cfg_sections c) CONFIG_DEFAULT_SECTION = Some r" "r < length (cfg_store c)"
    using find_or_create_ok [OF Config_create_inv(1,2) l] by metis
  have "cfg_store c = [Config_section_create CONFIG_DEFAULT_SECTION]"
    using c(1) none by (auto simp: find_or_create_def new_section_def Config_add_section_def Config_create_def bind_eq_Some_conv)
  then have "msg_config c Map.empty"
    using c(2-4) by (auto simp: msg_config_def Config_section_create_def Hash_create_def hash_map_def)
  then show ?thesis
    using c(1) none by (intro exI [of _ c])
      (auto simp: find_or_create_def Config_get_section_def new_section_def bind_eq_Some_conv)
qed

section \<open>The text of a message and its parse\<close>

datatype msg_value = M_int nat | M_str string | M_list "string list"

fun text_value :: "msg_value \<Rightarrow> string" where
  "text_value (M_int n) = dec_digits n"
| "text_value (M_str s) = quoted s"
| "text_value (M_list ss) = ''['' @ print_items ss True @ '']''"

fun value_of :: "msg_value \<Rightarrow> Config_value" where
  "value_of (M_int n) = Int_value (int n)"
| "value_of (M_str s) = Str_value s"
| "value_of (M_list ss) = List_value (map Str_value ss)"

fun value_ok :: "msg_value \<Rightarrow> bool" where
  "value_ok (M_int n) \<longleftrightarrow> int n < 2 ^ 31"
| "value_ok (M_str s) \<longleftrightarrow> plain s"
| "value_ok (M_list ss) \<longleftrightarrow> ss \<noteq> [] \<and> (\<forall>s\<in>set ss. plain s)"

definition text_line :: "string \<Rightarrow> string \<times> msg_value \<Rightarrow> string" where
  "text_line eq kv = fst kv @ eq @ text_value (snd kv) @ [CHR 0x0A]"

definition message_text :: "string \<Rightarrow> (string \<times> msg_value) list \<Rightarrow> string" where
  "message_text eq kvs = concat (map (text_line eq) kvs) @ ''%'' @ [CHR 0x0A]"

definition message_ok :: "(string \<times> msg_value) list \<Rightarrow> bool" where
  "message_ok kvs \<longleftrightarrow> (\<forall>(k, v)\<in>set kvs. msg_name k \<and> value_ok v)"

definition eq_sign :: "string \<Rightarrow> bool" where
  "eq_sign eq \<longleftrightarrow> eq = ''='' \<or> eq = '' = ''"

text \<open>A parser that has read a token and has \<open>cs\<close> left; \<open>keeps\<close>: nothing else has changed.\<close>

definition at :: "Config_parser_T \<Rightarrow> int \<Rightarrow> char list \<Rightarrow> bool" where
  "at p tok cs \<longleftrightarrow> cp_curr p = tok \<and> lx (cp_lexer p) cs"

definition keeps :: "Config_parser_T \<Rightarrow> Config_parser_T \<Rightarrow> bool" where
  "keeps p p' \<longleftrightarrow> cp_config p' = cp_config p \<and> cp_section p' = cp_section p \<and> cp_value p' = cp_value p"

lemma keeps_trans: "keeps p q \<Longrightarrow> keeps q r \<Longrightarrow> keeps p r"
  by (simp add: keeps_def)

lemma advance_to:
  assumes "Config_lexer_next_token (cp_lexer p) = (tok, l)" and "lx l cs"
  shows "at (cp_advance p) tok cs" and "keeps p (cp_advance p)" and "cp_lexer (cp_advance p) = l"
  using assms by (simp_all add: cp_advance_def at_def keeps_def)

lemma advance_punct:
  assumes "lx (cp_lexer p) (c # rest)"
    and "(c, tok) \<in> {(CHR 0x0A, CONFIG_LEXER_TOK_EOL), (CHR '','', CONFIG_LEXER_TOK_COMMA), (CHR ''='', CONFIG_LEXER_TOK_EQ),
      (CHR ''['', CONFIG_LEXER_TOK_SQBRACK_L), (CHR '']'', CONFIG_LEXER_TOK_SQBRACK_R), (CHR ''%'', CONFIG_LEXER_TOK_EOF)}"
  shows "at (cp_advance p) tok rest" and "keeps p (cp_advance p)"
  using tok_punct [OF assms] advance_to [of p tok] by blast+

lemma advance_str:
  assumes "lx (cp_lexer p) (quoted s @ rest)" and "plain s"
  shows "at (cp_advance p) CONFIG_LEXER_TOK_STR rest" and "keeps p (cp_advance p)" and "lex_str_value (cp_lexer (cp_advance p)) = s"
proof -
  obtain l where l: "Config_lexer_next_token (cp_lexer p) = (CONFIG_LEXER_TOK_STR, l)" "lx l rest" "current_value l = Val_s s"
    using tok_str [OF assms] by blast
  then show "at (cp_advance p) CONFIG_LEXER_TOK_STR rest" "keeps p (cp_advance p)" "lex_str_value (cp_lexer (cp_advance p)) = s"
    using advance_to [OF l(1,2)] assms(2) by (simp_all add: lex_str_value_def plain_def)
qed

lemma accept_other: "at p tok cs \<Longrightarrow> t \<noteq> tok \<Longrightarrow> accept t p = (False, p)"
  by (simp add: at_def accept_def accept_no_advance_def)

lemma accept_this: "at p tok cs \<Longrightarrow> tok \<noteq> CONFIG_LEXER_TOK_EOL \<Longrightarrow> accept tok p = (True, cp_advance p)"
  by (simp add: at_def accept_def accept_no_advance_def)

lemma accept_eol: "at p CONFIG_LEXER_TOK_EOL cs \<Longrightarrow> at (cp_advance p) tok cs' \<Longrightarrow> tok \<noteq> CONFIG_LEXER_TOK_EOL \<Longrightarrow>
    accept CONFIG_LEXER_TOK_EOL p = (True, cp_advance p)"
  by (simp add: at_def accept_def accept_no_advance_def) (subst cp_skip_eols.simps, simp)

lemma at_lx: "at p tok cs \<Longrightarrow> lx (cp_lexer p) cs"
  by (simp add: at_def)

lemma at_upd [simp]: "at (p\<lparr>cp_value := v\<rparr>) tok cs = at p tok cs" "at (p\<lparr>cp_config := c\<rparr>) tok cs = at p tok cs"
  by (simp_all add: at_def)

lemma advance_upd [simp]: "cp_advance (p\<lparr>cp_value := v\<rparr>) = (cp_advance p)\<lparr>cp_value := v\<rparr>"
  "cp_advance (p\<lparr>cp_config := c\<rparr>) = (cp_advance p)\<lparr>cp_config := c\<rparr>"
  by (simp_all add: cp_advance_def split: prod.splits)

lemma list_value_text:
  assumes "lx (cp_lexer p) (quoted s @ rest)" and "plain s" and "cp_value p = Some vs"
  shows "grammar_list_value (cp_advance p) = Some (True, (cp_advance (cp_advance p))\<lparr>cp_value := Some (vs @ [Str_value s])\<rparr>)"
    and "lx (cp_lexer (cp_advance p)) rest"
  using advance_str [OF assms(1,2)] assms(3)
  by (simp_all add: grammar_list_value_def accept_no_advance_def at_def keeps_def config_toks)

lemma list_values_text:
  assumes "lx (cp_lexer q) (print_items ss False @ CHR '']'' # rest)" and "\<forall>s\<in>set ss. plain s" and "cp_value q = Some vs"
  shows "\<exists>p'. grammar_list_values (cp_advance q) = Some (True, p') \<and> at p' CONFIG_LEXER_TOK_SQBRACK_R rest \<and>
    cp_value p' = Some (vs @ map Str_value ss) \<and> cp_config p' = cp_config q \<and> cp_section p' = cp_section q"
  using assms
proof (induction ss arbitrary: q vs)
  case Nil
  have a: "at (cp_advance q) CONFIG_LEXER_TOK_SQBRACK_R rest" "keeps q (cp_advance q)"
    using advance_punct [of q "CHR '']''" rest CONFIG_LEXER_TOK_SQBRACK_R] Nil(1) by auto
  then have "accept CONFIG_LEXER_TOK_COMMA (cp_advance q) = (False, cp_advance q)"
    using accept_other by (simp add: config_toks)
  then show ?case using a Nil(3) by (subst grammar_list_values.simps) (simp add: keeps_def)
next
  case (Cons s ss)
  let ?text = "quoted s @ print_items ss False @ CHR '']'' # rest"
  let ?q1 = "cp_advance q"
  have a: "at ?q1 CONFIG_LEXER_TOK_COMMA ?text" "keeps q ?q1"
    using advance_punct [of q "CHR '',''" ?text CONFIG_LEXER_TOK_COMMA] Cons(2) by auto
  have ps: "plain s" and v1: "cp_value ?q1 = Some vs" using Cons(3,4) a(2) by (auto simp: keeps_def)
  let ?p1 = "cp_advance ?q1"
  have p1: "at ?p1 CONFIG_LEXER_TOK_STR (print_items ss False @ CHR '']'' # rest)" "keeps ?q1 ?p1"
    using advance_str [OF at_lx [OF a(1)] ps] by auto
  have comma: "accept CONFIG_LEXER_TOK_COMMA ?q1 = (True, ?p1)" using accept_this [OF a(1)] by (simp add: config_toks)
  have eol: "and_then (acc CONFIG_LEXER_TOK_EOL) grammar_list_value ?p1 = Some (False, ?p1)"
    using accept_other [OF p1(1), of CONFIG_LEXER_TOK_EOL] by (simp add: and_then_def acc_def config_toks)
  let ?q2 = "?p1\<lparr>cp_value := Some (vs @ [Str_value s])\<rparr>"
  have val: "grammar_list_value ?p1 = Some (True, cp_advance ?q2)" using list_value_text(1) [OF at_lx [OF a(1)] ps v1] by simp
  have "grammar_list_values ?q1 = grammar_list_values (cp_advance ?q2)"
    using comma eol val by (subst grammar_list_values.simps) simp
  moreover have "lx (cp_lexer ?q2) (print_items ss False @ CHR '']'' # rest)" using at_lx [OF p1(1)] by simp
  ultimately show ?case using Cons.IH [of ?q2 "vs @ [Str_value s]"] Cons(3) a(2) p1(2) by (simp add: keeps_def)
qed

lemma list_text:
  assumes "lx (cp_lexer q) (text_value (M_list ss) @ rest)" and "value_ok (M_list ss)"
  shows "\<exists>p1 p'. at (cp_advance q) CONFIG_LEXER_TOK_SQBRACK_L p1 \<and> grammar_list (cp_advance q) = Some (True, cp_advance p') \<and>
    lx (cp_lexer p') rest \<and> cp_value p' = Some (map Str_value ss) \<and> cp_config p' = cp_config q \<and> cp_section p' = cp_section q"
proof -
  obtain s ts where ss: "ss = s # ts" "plain s" "\<forall>t\<in>set ts. plain t" using assms(2) by (cases ss) auto
  let ?text = "quoted s @ print_items ts False @ CHR '']'' # rest"
  let ?p = "cp_advance q"
  have a: "at ?p CONFIG_LEXER_TOK_SQBRACK_L ?text" "keeps q ?p"
    using advance_punct [of q "CHR ''[''" ?text CONFIG_LEXER_TOK_SQBRACK_L] assms(1) ss by auto
  let ?q1 = "?p\<lparr>cp_value := Some []\<rparr>"
  have lb: "accept CONFIG_LEXER_TOK_SQBRACK_L ?p = (True, cp_advance ?p)" using accept_this [OF a(1)] by (simp add: config_toks)
  have t: "lx (cp_lexer ?q1) ?text" using at_lx [OF a(1)] by simp
  let ?p1 = "cp_advance ?q1"
  have p1: "at ?p1 CONFIG_LEXER_TOK_STR (print_items ts False @ CHR '']'' # rest)" "keeps ?q1 ?p1"
    using advance_str [OF t ss(2)] by auto
  let ?q2 = "?p1\<lparr>cp_value := Some [Str_value s]\<rparr>"
  have val: "grammar_list_value ?p1 = Some (True, cp_advance ?q2)" using list_value_text(1) [OF t ss(2)] by simp
  obtain p2 where p2: "grammar_list_values (cp_advance ?q2) = Some (True, p2)" "at p2 CONFIG_LEXER_TOK_SQBRACK_R rest"
      "cp_value p2 = Some (map Str_value ss)" "cp_config p2 = cp_config ?q2" "cp_section p2 = cp_section ?q2"
    using list_values_text [of ?q2 ts rest "[Str_value s]"] at_lx [OF p1(1)] ss by auto
  have stm: "grammar_list_statements ?p1 = Some (True, p2)"
    using val p2(1) by (simp add: grammar_list_statements_def and_then_def)
  have no: "accept CONFIG_LEXER_TOK_EOL ?p1 = (False, ?p1)" "accept CONFIG_LEXER_TOK_EOL p2 = (False, p2)"
      "accept CONFIG_LEXER_TOK_SQBRACK_R p2 = (True, cp_advance p2)"
    using accept_other [OF p1(1)] accept_other [OF p2(2)] accept_this [OF p2(2)] by (simp_all add: config_toks)
  have "grammar_list ?p = Some (True, cp_advance p2)"
    using lb stm no by (simp add: grammar_list_def and_then_def or_else_def acc_def)
  then show ?thesis
    using a p2 p1(2) at_lx [OF p2(2)] by (auto simp: keeps_def)
qed

text \<open>After the name: the sign, the value and the end of the line.\<close>

lemma eq_text:
  assumes "lx (cp_lexer p) (eq @ rest)" and "eq_sign eq"
  shows "\<exists>l. at (cp_advance p) CONFIG_LEXER_TOK_EQ l \<and> keeps p (cp_advance p) \<and>
    (\<exists>l'. Config_lexer_next_token (cp_lexer (cp_advance p)) = Config_lexer_next_token l' \<and> lx l' rest)"
proof (cases "eq = ''=''")
  case True
  then show ?thesis using advance_punct [of p "CHR ''=''" rest CONFIG_LEXER_TOK_EQ] assms(1) at_lx by fastforce
next
  case False
  then have e: "eq = '' = ''" using assms(2) by (simp add: eq_sign_def)
  obtain l1 where l1: "Config_lexer_next_token (cp_lexer p) = Config_lexer_next_token l1" "lx l1 (''= '' @ rest)"
    using tok_space [of "cp_lexer p" "''= '' @ rest"] assms(1) e by auto
  obtain l2 where l2: "Config_lexer_next_token l1 = (CONFIG_LEXER_TOK_EQ, l2)" "lx l2 ('' '' @ rest)"
    using tok_punct [of l1 "CHR ''=''" "'' '' @ rest" CONFIG_LEXER_TOK_EQ] l1(2) by auto
  then show ?thesis
    using advance_to [of p CONFIG_LEXER_TOK_EQ l2 "'' '' @ rest"] tok_space [of l2 rest] l1(1) by auto
qed

lemma advance_lexer: "Config_lexer_next_token (cp_lexer p) = Config_lexer_next_token l \<Longrightarrow> cp_advance (p\<lparr>cp_lexer := l\<rparr>) = cp_advance p"
  by (simp add: cp_advance_def split: prod.splits)

lemma assignment_text:
  assumes "at p CONFIG_LEXER_TOK_NAME (eq @ text_value v @ CHR 0x0A # rest)" and "lex_str_value (cp_lexer p) = name" and "eq_sign eq"
    and "length name \<le> MAX_KEY_LEN" and "value_ok v" and "cp_section p = None" and "msg_config (cp_config p) m"
  shows "\<exists>p'. grammar_assignment p = Some (True, p') \<and> at p' CONFIG_LEXER_TOK_EOL rest \<and> cp_section p' = None \<and>
    msg_config (cp_config p') (m(name \<mapsto> value_of v))"
proof -
  let ?e = "cp_advance p"
  obtain l l' where e: "at ?e CONFIG_LEXER_TOK_EQ l" "keeps p ?e"
      "Config_lexer_next_token (cp_lexer ?e) = Config_lexer_next_token l'" "lx l' (text_value v @ CHR 0x0A # rest)"
    using eq_text [OF at_lx [OF assms(1)] assms(3)] by blast
  let ?q = "?e\<lparr>cp_lexer := l'\<rparr>" and ?p1 = "cp_advance ?e"
  have q: "cp_advance ?q = ?p1" by (rule advance_lexer [OF e(3)])
  have acc: "accept CONFIG_LEXER_TOK_EQ ?e = (True, ?p1)" using accept_this [OF e(1)] by (simp add: config_toks)
  have nm: "accept_no_advance p CONFIG_LEXER_TOK_NAME" "length name \<le> LEXER_MAX_STR_LEN"
    using assms(1,4) by (simp_all add: at_def accept_no_advance_def MAX_KEY_LEN_def LEXER_MAX_STR_LEN_def)
  have cfg: "\<exists>c. assign p0 name w = Some (p0\<lparr>cp_config := c\<rparr>) \<and> msg_config c (m(name \<mapsto> w))"
    if "cp_section p0 = None" "cp_config p0 = cp_config p" for p0 w
    using assign_ok [of p0 m name w] that assms(4,7) by simp
  note base = e(2) assms(6) nm acc
  show ?thesis
  proof (cases v)
    case (M_int n)
    obtain l2 where l2: "Config_lexer_next_token l' = (CONFIG_LEXER_TOK_INT, l2)" "lx l2 (CHR 0x0A # rest)" "current_value l2 = Val_i (int n)"
      using tok_int [of l' n "CHR 0x0A" rest] e(4) M_int assms(5) by (auto simp: isdigit_c_def char_codes)
    have p1: "at ?p1 CONFIG_LEXER_TOK_INT (CHR 0x0A # rest)" "keeps ?e ?p1" "lex_int_value (cp_lexer ?p1) = int n"
      using advance_to [of ?e, OF l2(1) [folded e(3)] l2(2)] l2(3) by (simp_all add: lex_int_value_def)
    obtain c where c: "assign ?p1 name (Int_value (int n)) = Some (?p1\<lparr>cp_config := c\<rparr>)" "msg_config c (m(name \<mapsto> Int_value (int n)))"
      using cfg [of ?p1] p1(2) e(2) assms(6) by (auto simp: keeps_def)
    have eol: "at (cp_advance ?p1) CONFIG_LEXER_TOK_EOL rest" "keeps ?p1 (cp_advance ?p1)"
      using advance_punct [OF at_lx [OF p1(1)], of CONFIG_LEXER_TOK_EOL] by auto
    have "grammar_assignment p = Some (True, (cp_advance ?p1)\<lparr>cp_config := c\<rparr>)"
      using base p1 c(1) assms(2) by (simp add: grammar_assignment_def accept_no_advance_def at_def)
    then show ?thesis using eol p1(2) e(2) assms(6) c(2) M_int by (auto simp: keeps_def)
  next
    case (M_str t)
    have p1: "at ?p1 CONFIG_LEXER_TOK_STR (CHR 0x0A # rest)" "keeps ?q ?p1" "lex_str_value (cp_lexer ?p1) = t"
      using advance_str [of ?q t "CHR 0x0A # rest"] e(4) M_str assms(5) q by auto
    obtain c where c: "assign ?p1 name (Str_value t) = Some (?p1\<lparr>cp_config := c\<rparr>)" "msg_config c (m(name \<mapsto> Str_value t))"
      using cfg [of ?p1] p1(2) e(2) assms(6) by (auto simp: keeps_def)
    have eol: "at (cp_advance ?p1) CONFIG_LEXER_TOK_EOL rest" "keeps ?p1 (cp_advance ?p1)"
      using advance_punct [OF at_lx [OF p1(1)], of CONFIG_LEXER_TOK_EOL] by auto
    have "grammar_assignment p = Some (True, (cp_advance ?p1)\<lparr>cp_config := c\<rparr>)"
      using base p1 c(1) assms(2) by (simp add: grammar_assignment_def accept_no_advance_def at_def config_toks)
    then show ?thesis using eol p1(2) e(2) assms(6) c(2) M_str by (auto simp: keeps_def)
  next
    case (M_list ss)
    obtain l1 p2 where p2: "at ?p1 CONFIG_LEXER_TOK_SQBRACK_L l1" "grammar_list ?p1 = Some (True, cp_advance p2)"
        "lx (cp_lexer p2) (CHR 0x0A # rest)" "cp_value p2 = Some (map Str_value ss)" "cp_config p2 = cp_config p" "cp_section p2 = None"
      using list_text [of ?q ss "CHR 0x0A # rest"] e(2,4) M_list assms(5,6) q by (auto simp: keeps_def)
    have eol: "at (cp_advance p2) CONFIG_LEXER_TOK_EOL rest" "keeps p2 (cp_advance p2)"
      using advance_punct [OF p2(3), of CONFIG_LEXER_TOK_EOL] by auto
    obtain c where c: "assign (cp_advance p2) name (List_value (map Str_value ss)) = Some ((cp_advance p2)\<lparr>cp_config := c\<rparr>)"
        "msg_config c (m(name \<mapsto> List_value (map Str_value ss)))"
      using cfg [of "cp_advance p2"] p2(5,6) eol(2) by (auto simp: keeps_def)
    have "grammar_assignment p = Some (True, (cp_advance p2)\<lparr>cp_config := c, cp_value := None\<rparr>)"
      using base p2 c(1) assms(2) eol(2) by (simp add: grammar_assignment_def accept_no_advance_def at_def config_toks keeps_def)
    then show ?thesis using eol p2(6) c(2) M_list by (auto simp: keeps_def)
  qed
qed

lemma advance_name:
  assumes "lx (cp_lexer p) (name @ eq @ rest)" and "msg_name name" and "eq_sign eq"
  shows "at (cp_advance p) CONFIG_LEXER_TOK_NAME (eq @ rest)" and "keeps p (cp_advance p)" and "lex_str_value (cp_lexer (cp_advance p)) = name"
proof -
  obtain d r where d: "eq @ rest = d # r" "d = CHR ''='' \<or> d = CHR '' ''" using assms(3) by (auto simp: eq_sign_def)
  then have nd: "\<not> isalpha_c (char_code d)" "\<not> isdigit_c (char_code d)" "char_code d \<noteq> 95"
    by (auto simp: char_codes isalpha_c_def isupper_c_def isdigit_c_def)
  obtain l where l: "Config_lexer_next_token (cp_lexer p) = (CONFIG_LEXER_TOK_NAME, l)" "lx l (eq @ rest)" "current_value l = Val_s name"
    using tok_name [of "cp_lexer p" name d r] assms(1,2) d(1) nd by auto
  have "NUL \<notin> set name"
  proof
    assume "NUL \<in> set name"
    then have "name_char NUL" using assms(2) by (auto simp: msg_name_def)
    then show False by (simp add: name_char_def NUL_def char_codes isdigit_c_def)
  qed
  then show "at (cp_advance p) CONFIG_LEXER_TOK_NAME (eq @ rest)" "keeps p (cp_advance p)" "lex_str_value (cp_lexer (cp_advance p)) = name"
    using advance_to [OF l(1,2)] l(3) by (simp_all add: lex_str_value_def)
qed

lemma no_statement:
  assumes "at p CONFIG_LEXER_TOK_EOF cs"
  shows "grammar_statement glob p = Some (False, p)"
proof -
  have "grammar_assignment p = Some (False, p)" "grammar_section_type p = Some (False, p)"
    using assms by (simp_all add: grammar_assignment_def grammar_section_type_def accept_no_advance_def at_def config_toks)
  moreover have "accept CONFIG_LEXER_TOK_INCLUDE p = (False, p)" using accept_other [OF assms] by (simp add: config_toks)
  ultimately show ?thesis
    by (simp add: grammar_statement_def or_else_def grammar_section_def grammar_include_def)
qed

definition msg_vars :: "(string \<times> msg_value) list \<Rightarrow> string \<rightharpoonup> Config_value" where
  "msg_vars kvs = map_of (rev (map (\<lambda>(k, v). (k, value_of v)) kvs))"

lemma msg_vars_Cons: "m ++ msg_vars ((k, v) # kvs) = (m(k \<mapsto> value_of v)) ++ msg_vars kvs"
  by (simp add: msg_vars_def)

lemma line_text:
  assumes "lx (cp_lexer p) (text_line eq (k, v) @ rest)" and "msg_name k" and "value_ok v" and "eq_sign eq"
    and "cp_section p = None" and "msg_config (cp_config p) m"
  shows "\<exists>t p'. at (cp_advance p) CONFIG_LEXER_TOK_NAME t \<and> grammar_statement glob (cp_advance p) = Some (True, p') \<and>
    at p' CONFIG_LEXER_TOK_EOL rest \<and> cp_section p' = None \<and> msg_config (cp_config p') (m(k \<mapsto> value_of v))"
proof -
  let ?t = "text_value v @ CHR 0x0A # rest"
  have a: "at (cp_advance p) CONFIG_LEXER_TOK_NAME (eq @ ?t)" "keeps p (cp_advance p)" "lex_str_value (cp_lexer (cp_advance p)) = k"
    using advance_name [of p k eq ?t] assms(1,2,4) by (simp_all add: text_line_def)
  have "length k \<le> MAX_KEY_LEN" using assms(2) by (simp add: msg_name_def)
  then obtain p' where p': "grammar_assignment (cp_advance p) = Some (True, p')" "at p' CONFIG_LEXER_TOK_EOL rest" "cp_section p' = None"
      "msg_config (cp_config p') (m(k \<mapsto> value_of v))"
    using assignment_text [OF a(1,3) assms(4) _ assms(3), of m] a(2) assms(5,6) by (auto simp: keeps_def)
  then show ?thesis using a(1) by (auto simp: grammar_statement_def or_else_def)
qed

lemma statements_text:
  assumes "at p CONFIG_LEXER_TOK_EOL (message_text eq kvs @ rest)" and "message_ok kvs" and "eq_sign eq" and "cp_section p = None"
    and "msg_config (cp_config p) m"
  shows "\<exists>p'. grammar_statements glob p = Some (True, p') \<and> at p' CONFIG_LEXER_TOK_EOF (CHR 0x0A # rest) \<and> cp_section p' = None \<and>
    msg_config (cp_config p') (m ++ msg_vars kvs)"
  using assms
proof (induction kvs arbitrary: p m)
  case Nil
  have a: "at (cp_advance p) CONFIG_LEXER_TOK_EOF (CHR 0x0A # rest)" "keeps p (cp_advance p)"
    using advance_punct [of p "CHR ''%''" "CHR 0x0A # rest" CONFIG_LEXER_TOK_EOF] at_lx [OF Nil(1)]
    by (auto simp: message_text_def)
  then have "accept CONFIG_LEXER_TOK_EOL p = (True, cp_advance p)" using accept_eol [OF Nil(1)] by (simp add: config_toks)
  then have "grammar_statements glob p = Some (True, cp_advance p)"
    using no_statement [OF a(1), of glob] by (subst grammar_statements.simps) (simp add: and_then_def acc_def)
  then show ?case using a Nil(4,5) by (auto simp: keeps_def msg_vars_def)
next
  case (Cons kv kvs)
  obtain k v where kv: "kv = (k, v)" by fastforce
  let ?rest = "message_text eq kvs @ rest"
  have ok: "msg_name k" "value_ok v" "message_ok kvs" using Cons(3) kv by (auto simp: message_ok_def)
  have t: "lx (cp_lexer p) (text_line eq (k, v) @ ?rest)" using at_lx [OF Cons(2)] kv by (simp add: message_text_def)
  obtain t1 p1 where p1: "at (cp_advance p) CONFIG_LEXER_TOK_NAME t1" "grammar_statement glob (cp_advance p) = Some (True, p1)"
      "at p1 CONFIG_LEXER_TOK_EOL ?rest" "cp_section p1 = None" "msg_config (cp_config p1) (m(k \<mapsto> value_of v))"
    using line_text [OF t ok(1,2) Cons(4,5,6)] by blast
  have "accept CONFIG_LEXER_TOK_EOL p = (True, cp_advance p)" using accept_eol [OF Cons(2) p1(1)] by (simp add: config_toks)
  then have "grammar_statements glob p = grammar_statements glob p1"
    using p1(2) by (subst grammar_statements.simps) (simp add: and_then_def acc_def)
  then show ?case using Cons.IH [OF p1(3) ok(3) Cons(4) p1(4,5)] unfolding kv msg_vars_Cons by (simp only:)
qed

lemma message_parse:
  assumes "lx (cp_lexer parser) (message_text eq kvs @ rest)" and "message_ok kvs" and "kvs \<noteq> []" and "eq_sign eq" and "cp_section parser = None"
  shows "\<exists>p. Config_parser_start glob parser Config_create = Some (True, p) \<and> lx (cp_lexer p) rest \<and> cp_section p = None \<and>
    msg_config (cp_config p) (msg_vars kvs)"
proof -
  obtain c where c: "(do { g \<leftarrow> Config_get_section Config_create CONFIG_DEFAULT_SECTION;
             case g of Some r \<Rightarrow> Some Config_create
             | None \<Rightarrow> (let (r, c) = new_section Config_create CONFIG_DEFAULT_SECTION in Config_add_section c r) }) = Some c"
      "msg_config c Map.empty" using default_config by blast
  obtain k v kvs' where kvs: "kvs = (k, v) # kvs'" using assms(3) by (metis list.exhaust surj_pair)
  let ?p = "parser\<lparr>cp_config := c\<rparr>" and ?rest = "message_text eq kvs' @ rest"
  have ok: "msg_name k" "value_ok v" "message_ok kvs'" using assms(2) kvs by (auto simp: message_ok_def)
  have t: "lx (cp_lexer ?p) (text_line eq (k, v) @ ?rest)" using assms(1) kvs by (simp add: message_text_def)
  have sec: "cp_section ?p = None" and cfg: "msg_config (cp_config ?p) Map.empty" using assms(5) c(2) by simp_all
  obtain t1 p1 where p1: "at (cp_advance ?p) CONFIG_LEXER_TOK_NAME t1" "grammar_statement glob (cp_advance ?p) = Some (True, p1)"
      "at p1 CONFIG_LEXER_TOK_EOL ?rest" "cp_section p1 = None" "msg_config (cp_config p1) (Map.empty(k \<mapsto> value_of v))"
    using line_text [OF t ok(1,2) assms(4) sec cfg] by blast
  obtain p2 where p2: "grammar_statements glob p1 = Some (True, p2)" "at p2 CONFIG_LEXER_TOK_EOF (CHR 0x0A # rest)" "cp_section p2 = None"
      "msg_config (cp_config p2) (Map.empty(k \<mapsto> value_of v) ++ msg_vars kvs')"
    using statements_text [OF p1(3) ok(3) assms(4) p1(4,5)] by blast
  have vars: "Map.empty(k \<mapsto> value_of v) ++ msg_vars kvs' = msg_vars kvs"
    using msg_vars_Cons [of Map.empty k v kvs'] kvs by simp
  have eof: "accept CONFIG_LEXER_TOK_EOF p2 = (True, cp_advance p2)" using accept_this [OF p2(2)] by (simp add: config_toks)
  have fin: "at (cp_advance p2) CONFIG_LEXER_TOK_EOL rest" "keeps p2 (cp_advance p2)"
    using advance_punct [OF at_lx [OF p2(2)], of CONFIG_LEXER_TOK_EOL] by auto
  have "accept CONFIG_LEXER_TOK_EOL (cp_advance ?p) = (False, cp_advance ?p)" using accept_other [OF p1(1)] by (simp add: config_toks)
  moreover have "Config_parser_start glob parser Config_create =
      or_else (and_then (and_then (grammar_statement glob) (grammar_statements glob)) (acc CONFIG_LEXER_TOK_EOF))
        (acc CONFIG_LEXER_TOK_EOF) (snd (accept CONFIG_LEXER_TOK_EOL (cp_advance ?p)))"
    using c(1) unfolding Config_parser_start_def by (auto simp: bind_eq_Some_conv split: option.splits)
  ultimately have "Config_parser_start glob parser Config_create = Some (True, cp_advance p2)"
    using p1(2) p2(1) eof by (simp add: or_else_def and_then_def acc_def)
  then show ?thesis using fin p2(3,4) vars at_lx [OF fin(1)] by (auto simp: keeps_def)
qed

lemma msg_vars_card: "card (dom (msg_vars kvs)) \<le> length kvs"
proof -
  have "card (fst ` set kvs) \<le> length kvs" by (metis card_image_le card_length finite_set le_trans)
  moreover have "dom (msg_vars kvs) = fst ` set kvs"
    by (force simp: msg_vars_def dom_map_of_conv_image_fst image_image case_prod_beta)
  ultimately show ?thesis by simp
qed

lemma msg_vars_get: "length kvs < CONFIG_SEC_INIT_ENTRIES \<Longrightarrow> msg_config c (msg_vars kvs) \<Longrightarrow>
    Config_get_int c var None d = Some (case msg_vars kvs var of Some (Int_value i) \<Rightarrow> i | _ \<Rightarrow> d) \<and>
    Config_get_str c var None x = Some (case msg_vars kvs var of Some (Str_value t) \<Rightarrow> Some t | _ \<Rightarrow> x) \<and>
    Config_get_list c var None = Some (cv_list (msg_vars kvs var))"
  using msg_get [of c "msg_vars kvs"] msg_vars_card [of kvs] by (meson le_less_trans)

text \<open>The names the processes use.\<close>

lemma msg_names [simp]:
  "msg_name ''type''" "msg_name ''dst_ip''" "msg_name ''ip''" "msg_name ''helo''" "msg_name ''from''" "msg_name ''to''"
  "msg_name ''name''" "msg_name ''message''" "msg_name ''ips''" "msg_name ''af''" "msg_name ''dst''" "msg_name ''src''"
  "msg_name ''src_port''" "msg_name ''proxy''" "msg_name ''proxy_port''" "msg_name ''source''" "msg_name ''expires''"
  "msg_name ''sync''" "msg_name ''delete''"
  by (simp_all add: msg_name_def name_char_def isalpha_c_def isupper_c_def isdigit_c_def char_codes MAX_KEY_LEN_def name_token_def)

lemma eq_signs [simp]: "eq_sign ''=''" "eq_sign '' = ''"
  by (simp_all add: eq_sign_def)

lemma send_config_text:
  "List_size (Some ips) > 0 \<Longrightarrow> Greyd_send_config check name msg ips =
     message_text ''='' [(''name'', M_str name), (''message'', M_str msg), (''ips'', M_list (map (send_item check) (list_head ips)))]"
  by (simp add: Greyd_send_config_def message_text_def text_line_def)

text \<open>A blacklist in a message is stored with its addresses, whoever wrote the message.\<close>

lemma process_config_message:
  assumes "lex_source lexer = Source_file (message_text eq [(''name'', M_str name), (''message'', M_str msg), (''ips'', M_list items)] @ rest)"
    and "\<not> seen_end lexer" and "eq_sign eq" and "items \<noteq> []" and "plain name" and "plain msg" and "\<forall>s\<in>set items. plain s"
  shows "Greyd_process_config glob inet_pton (message_parser lexer sectype tok) blacklists =
    do { bl \<leftarrow> add_values inet_pton (map Str_value items) (Blacklist_create name msg BL_STORAGE_TRIE);
         Hash_insert blacklists name bl }"
proof -
  let ?kvs = "[(''name'', M_str name), (''message'', M_str msg), (''ips'', M_list items)]"
  have "lx (cp_lexer (message_parser lexer sectype tok)) (message_text eq ?kvs @ rest)"
    using assms(1,2) by (simp add: lx_def message_parser_def Config_parser_create_def)
  moreover have "message_ok ?kvs" using assms(4-7) by (simp add: message_ok_def)
  ultimately obtain p where p: "Config_parser_start glob (message_parser lexer sectype tok) Config_create = Some (True, p)"
      "msg_config (cp_config p) (msg_vars ?kvs)"
    using message_parse [of "message_parser lexer sectype tok" eq ?kvs rest glob] assms(3)
    by (auto simp: message_parser_def Config_parser_create_def)
  have get: "Config_get_str (cp_config p) ''name'' None None = Some (Some name)"
      "Config_get_str (cp_config p) ''message'' None None = Some (Some msg)"
      "Config_get_list (cp_config p) ''ips'' None = Some (Some (map Str_value items))"
    using msg_vars_get [OF _ p(2), of _ 0 None] by (simp_all add: msg_vars_def CONFIG_SEC_INIT_ENTRIES_def comp_def)
  show ?thesis using p(1) get by (simp add: Greyd_process_config_def)
qed

lemma add_values_names:
  "add_values inet_pton (map Str_value ss) bl = fold_opt (\<lambda>bl s. map_option snd (Blacklist_add inet_pton bl s)) bl ss"
  by (induction ss arbitrary: bl) (auto split: option.splits prod.splits bind_splits)

text \<open>
  An address as it stands in a list that is sent: a network with its prefix length, or a host, which is all of its bits. \<open>check\<close>
  is \<open>IP_check_addr\<close>, and \<open>p\<close> the address the text means.
\<close>

definition sent_ok :: "(u16 \<Rightarrow> string \<Rightarrow> IP_addr option) \<Rightarrow> (string \<Rightarrow> int) \<Rightarrow> u16 \<Rightarrow> nat \<Rightarrow> string \<Rightarrow> IP_addr \<Rightarrow> bool" where
  "sent_ok inet_pton check af mb s p \<longleftrightarrow> plain s \<and>
     (if CHR ''/'' \<in> set s then address_ok inet_pton af mb s p
      else s \<noteq> [] \<and> length s \<le> 39 \<and> inet_pton af s = Some p \<and> length (addr32 p) = 4 \<and> check s = uint af \<and>
        (af = AF_INET \<and> mb = 32 \<and> CHR '':'' \<notin> set s \<or> af = AF_INET6 \<and> mb = 128 \<and> CHR '':'' \<in> set s))"

lemma scan_host:
  assumes "s \<noteq> []" and "length s \<le> 39" and "CHR ''/'' \<notin> set s"
  shows "scan_cidr (s @ CHR ''/'' # n) = map_option (Pair s) (scan_unsigned n)"
proof -
  have all: "takeWhile (\<lambda>c. c \<noteq> CHR ''/'') (s @ zs) = s @ takeWhile (\<lambda>c. c \<noteq> CHR ''/'') zs" for zs
    using assms(3) by (intro takeWhile_append2) auto
  have "takeWhile (\<lambda>c. c \<noteq> CHR ''/'') (take 39 (s @ CHR ''/'' # n)) = s"
  proof (cases "length s = 39")
    case True
    then show ?thesis using all [of "[]"] by simp
  next
    case False
    then obtain k where "39 - length s = Suc k" using assms(2) by (metis Suc_diff_Suc le_neq_implies_less)
    then have "take 39 (s @ CHR ''/'' # n) = s @ CHR ''/'' # take k n" using assms(2) by simp
    then show ?thesis using all by simp
  qed
  then show ?thesis using assms(1) by (simp add: scan_cidr_def)
qed

lemma sent_address_ok:
  assumes "sent_ok inet_pton check af mb s p"
  shows "address_ok inet_pton af mb (send_item check s) p" and "plain (send_item check s)"
proof -
  have n: "scan_unsigned ''32'' = Some 32" "scan_unsigned ''128'' = Some 128"
    by (simp_all add: scan_unsigned_def isdigit_c_def char_code_def char_isspace_def isspace_c_def Let_def)
  show "address_ok inet_pton af mb (send_item check s) p"
  proof (cases "CHR ''/'' \<in> set s")
    case True
    then show ?thesis using assms by (simp add: sent_ok_def send_item_def)
  next
    case False
    then have s: "s \<noteq> []" "length s \<le> 39" using assms by (simp_all add: sent_ok_def)
    have i: "send_item check s = s @ CHR ''/'' # (if af = AF_INET then ''32'' else ''128'')"
      using assms False by (auto simp: sent_ok_def send_item_def AF_INET_def AF_INET6_def)
    have "scan_cidr (send_item check s) = Some (s, if af = AF_INET then 32 else 128)"
      unfolding i scan_host [OF s False] by (simp add: n)
    then show ?thesis using assms False by (auto simp: sent_ok_def address_ok_def prefix_ok_def AF_INET_def AF_INET6_def)
  qed
  show "plain (send_item check s)" using assms by (auto simp: sent_ok_def plain_def send_item_def NUL_def LEXER_MAX_STR_LEN_def)
qed

section \<open>Properties\<close>

text \<open>
  C5. Messages survive the pipe: when the stream starts with the text of a message, whose strings fit
  a token and contain no quotes or backslashes, the parser succeeds, the getters of the
  configuration return exactly the values that were printed, absent variables have their defaults,
  and the stream is left at the first character behind the message.
\<close>

theorem message_roundtrip:
  assumes "lex_source lexer = Source_file (message_text eq kvs @ rest)" and "\<not> seen_end lexer" and "message_ok kvs" and "eq_sign eq"
    and "kvs \<noteq> []" and "length kvs < CONFIG_SEC_INIT_ENTRIES"
  shows "\<exists>p. Config_parser_start glob (message_parser lexer sectype tok) Config_create = Some (True, p) \<and>
    lex_source (cp_lexer p) = Source_file rest \<and> \<not> seen_end (cp_lexer p) \<and>
    (\<forall>var d x. Config_get_int (cp_config p) var None d = Some (case msg_vars kvs var of Some (Int_value i) \<Rightarrow> i | _ \<Rightarrow> d) \<and>
       Config_get_str (cp_config p) var None x = Some (case msg_vars kvs var of Some (Str_value t) \<Rightarrow> Some t | _ \<Rightarrow> x) \<and>
       Config_get_list (cp_config p) var None = Some (cv_list (msg_vars kvs var)))"
proof -
  have "lx (cp_lexer (message_parser lexer sectype tok)) (message_text eq kvs @ rest)"
    using assms(1,2) by (simp add: lx_def message_parser_def Config_parser_create_def)
  from message_parse [OF this assms(3,5,4)] obtain p where
    p: "Config_parser_start glob (message_parser lexer sectype tok) Config_create = Some (True, p)" "lx (cp_lexer p) rest"
      "msg_config (cp_config p) (msg_vars kvs)" by (auto simp: message_parser_def Config_parser_create_def)
  then show ?thesis using msg_vars_get [OF assms(6) p(3)] by (auto simp: lx_def)
qed

text \<open>C5 for a message with an integer, a string and a list.\<close>

theorem message_roundtrip_witness:
  "\<exists>p. Config_parser_start (\<lambda>f. None)
       (message_parser (Lexer_create (Val_i 0) 0 (Source_file (message_text ''='' [(''type'', M_int 3), (''ips'', M_list [''a'', ''b''])] @ ''x''))) 0 0)
       Config_create = Some (True, p) \<and>
     lex_source (cp_lexer p) = Source_file ''x'' \<and> Config_get_int (cp_config p) ''type'' None 0 = Some 3 \<and>
     Config_get_list (cp_config p) ''ips'' None = Some (Some [Str_value ''a'', Str_value ''b''])"
proof -
  let ?kvs = "[(''type'', M_int 3), (''ips'', M_list [''a'', ''b''])]"
  have vars: "msg_vars ?kvs ''type'' = Some (Int_value 3)" "msg_vars ?kvs ''ips'' = Some (List_value [Str_value ''a'', Str_value ''b''])"
    by (simp_all add: msg_vars_def)
  have "message_ok ?kvs" by (simp add: message_ok_def plain_def NUL_def LEXER_MAX_STR_LEN_def)
  from message_roundtrip [OF _ _ this, of "Lexer_create (Val_i 0) 0 (Source_file (message_text ''='' ?kvs @ ''x''))" "''=''" "''x''" "\<lambda>f. None" 0 0]
  show ?thesis using vars by (auto simp: Lexer_create_def CONFIG_SEC_INIT_ENTRIES_def)
qed

text \<open>
  C29. A blacklist sent by one process is in force in the other: processing the text that
  \<open>Greyd_send_config\<close> prints for a list of hosts, or of networks, all of one family and one prefix length, always succeeds. The table of
  blacklists then holds under the name of the list, in place of any older list of that name, a blacklist with that name and message that matches a source address
  exactly if it agrees on the prefix with an address that was sent; all other blacklists of the table stay. A host is sent with all its bits as prefix.
\<close>

theorem sent_blacklist_stored:
  assumes "lex_source lexer = Source_file (Greyd_send_config check name msg ips @ rest)" and "\<not> seen_end lexer"
    and "List_wf ips" and "list_head ips \<noteq> []" and "plain name" and "length name \<le> MAX_KEY_LEN" and "plain msg"
    and "list_all2 (sent_ok inet_pton check af mb) (list_head ips) ps" and "hash_inv blacklists"
  shows "\<exists>h bl. Greyd_process_config glob inet_pton (message_parser lexer sectype tok) blacklists = Some h \<and>
    hash_inv h \<and> hash_map h = (hash_map blacklists)(name \<mapsto> bl) \<and> Hash_get h name = Some (Some bl) \<and>
    bl_name bl = name \<and> bl_message bl = msg \<and>
    (\<forall>q. length (addr32 q) = 4 \<longrightarrow> Blacklist_match bl q af = Some (\<exists>p\<in>set ps. \<forall>i<mb. addr_bit q i = addr_bit p i))"
proof -
  let ?items = "map (send_item check) (list_head ips)"
  have items: "list_all2 (address_ok inet_pton af mb) ?items ps" "\<forall>s\<in>set ?items. plain s"
  proof -
    show "list_all2 (address_ok inet_pton af mb) ?items ps" using assms(8) by (simp add: list_all2_map1 list_all2_mono sent_address_ok(1))
    show "\<forall>s\<in>set ?items. plain s" using assms(8) sent_address_ok(2) by (fastforce simp: list_all2_conv_all_nth in_set_conv_nth)
  qed
  have printed: "Greyd_send_config check name msg ips = message_text ''='' [(''name'', M_str name), (''message'', M_str msg), (''ips'', M_list ?items)]"
    using send_config_text [of ips check name msg] assms(3,4) by (simp add: List_wf_def)
  obtain bl where bl: "add_values inet_pton (map Str_value ?items) (Blacklist_create name msg BL_STORAGE_TRIE) = Some bl"
      "bl_name bl = name" "bl_message bl = msg"
      "\<forall>q. length (addr32 q) = 4 \<longrightarrow> Blacklist_match bl q af = Some (\<exists>p\<in>set ps. \<forall>i<mb. addr_bit q i = addr_bit p i)"
    using uniform_by_name [OF items(1), of name msg] unfolding add_values_names by blast
  obtain h where h: "Hash_insert blacklists name bl = Some h" "hash_inv h" "hash_map h = (hash_map blacklists)(name \<mapsto> bl)"
    by (rule Hash_insert_correct [OF assms(9,6)])
  have "Greyd_process_config glob inet_pton (message_parser lexer sectype tok) blacklists =
      do { bl \<leftarrow> add_values inet_pton (map Str_value ?items) (Blacklist_create name msg BL_STORAGE_TRIE); Hash_insert blacklists name bl }"
    by (rule process_config_message [OF _ assms(2) eq_signs(1)]) (use assms(1,4,5,7) items(2) printed in simp_all)
  then show ?thesis using bl h ht.get_present [OF h(2), of name bl] by simp
qed

text \<open>C29 for a list of one host.\<close>

theorem sent_blacklist_stored_witness:
  "\<exists>h bl. Greyd_process_config (\<lambda>f. None) example_pton
     (message_parser (Lexer_create (Val_i 0) 0 (Source_file (Greyd_send_config (\<lambda>s. 2) ''greytrap'' ''go away'' \<lparr>list_size = 1, list_head = [''10.1.0.0'']\<rparr>))) 0 0)
     (Hash_create 5) = Some h \<and> Hash_get h ''greytrap'' = Some (Some bl) \<and> bl_message bl = ''go away'' \<and>
     Blacklist_match bl \<lparr>addr32 = [0x0a010000, 0, 0, 0]\<rparr> AF_INET = Some True"
proof -
  let ?ips = "\<lparr>list_size = 1, list_head = [''10.1.0.0'']\<rparr>" and ?p = "\<lparr>addr32 = [0x0a010000, 0, 0, 0]\<rparr>"
  let ?lexer = "Lexer_create (Val_i 0) 0 (Source_file (Greyd_send_config (\<lambda>s. 2) ''greytrap'' ''go away'' ?ips))"
  have "list_all2 (sent_ok example_pton (\<lambda>s. 2) AF_INET 32) (list_head ?ips) [?p]"
    by (simp add: sent_ok_def example_pton_def plain_def NUL_def LEXER_MAX_STR_LEN_def AF_INET_def)
  from sent_blacklist_stored [OF _ _ _ _ _ _ _ this, of ?lexer "''greytrap''" "''go away''" "[]" "Hash_create 5" "\<lambda>f. None" 0 0]
  show ?thesis by (fastforce simp: Lexer_create_def List_wf_def plain_def NUL_def LEXER_MAX_STR_LEN_def MAX_KEY_LEN_def)
qed

end
