(* ===== verification/Reader.thy ===== *)
theory Reader
  imports Greylisting Messages
begin

text \<open>
  The engine's streams put together: the reader of \<open>src/src/grey.c\<close> fed with the messages that the
  main process prints, and the firewall process of \<open>src/src/greyd.c\<close> fed with the updates that
  the scanner prints.
\<close>

section \<open>The reader on a stream of grey messages\<close>

type_synonym grey_msg = "string \<times> Grey_tuple"

definition grey_vars :: "grey_msg \<Rightarrow> (string \<times> msg_value) list" where
  "grey_vars = (\<lambda>(dst, gt).
     [(''type'', M_int 1), (''dst_ip'', M_str dst), (''ip'', M_str (gt_ip gt)), (''helo'', M_str (gt_helo gt)),
      (''from'', M_str (gt_from gt)), (''to'', M_str (gt_to gt))])"

definition grey_msg_ok :: "grey_msg \<Rightarrow> bool" where
  "grey_msg_ok = (\<lambda>(dst, gt). plain dst \<and> plain (gt_ip gt) \<and> plain (gt_helo gt) \<and> plain (gt_from gt) \<and> plain (gt_to gt))"

text \<open>What the reader has to do: one call of \<open>process_grey\<close> after the other.\<close>

fun grey_run :: "'h DB_handle_T \<Rightarrow> spf_lib option \<Rightarrow> (nat \<Rightarrow> int) \<Rightarrow> nat \<Rightarrow> grey_msg list \<Rightarrow> 'h Greylister_T \<Rightarrow> 'h Greylister_T option" where
  "grey_run D spf clock n [] g = Some g"
| "grey_run D spf clock n ((dst, gt) # ms) g =
     do { g' \<leftarrow> process_grey D spf g gt True dst (clock n); grey_run D spf clock (n + 1) ms g' }"

lemma rollback_shutdown: "rollback D g = Some g' \<Longrightarrow> gl_shutdown g' = gl_shutdown g"
  by (auto simp: rollback_def bind_eq_Some_conv)

lemma grey_finish_shutdown: "grey_finish D g gt sync now spamtrap expire = Some g' \<Longrightarrow> gl_shutdown g' = gl_shutdown g"
  by (auto simp: grey_finish_def Let_def bind_eq_Some_conv split: option.splits if_splits)

lemma grey_update_shutdown:
  assumes "grey_update D g gt sync dst now spamtrap expire key = Some g'"
  shows "gl_shutdown g' = gl_shutdown g"
proof -
  obtain r h ret val where h: "DB_start_txn D (gl_db g) = Some (r, h)" "DB_get D h key = Some (ret, val)"
    using assms by (auto simp: grey_update_def bind_eq_Some_conv)
  have put: "gl_shutdown g' = gl_shutdown g"
    if "do { (ret2, h2) \<leftarrow> DB_put D h k v;
             if ret2 = GREYDB_OK then grey_finish D (g\<lparr>gl_db := h2\<rparr>) gt sync now s e else rollback D (g\<lparr>gl_db := h2\<rparr>) } = Some g'"
    for k v s e
    using that by (auto simp: bind_eq_Some_conv dest: rollback_shutdown grey_finish_shutdown split: if_splits)
  show ?thesis
  proof (cases "ret = GREYDB_NOT_FOUND")
    case True
    then show ?thesis using assms h put unfolding grey_update_def Let_def by simp
  next
    case False
    show ?thesis
    proof (cases "ret = GREYDB_FOUND")
      case True
      then show ?thesis using assms h put False unfolding grey_update_def Let_def by (cases val) simp_all
    next
      case f: False
      then have "rollback D (g\<lparr>gl_db := h\<rparr>) = Some g'" using assms h False unfolding grey_update_def by simp
      then show ?thesis by (auto dest: rollback_shutdown)
    qed
  qed
qed

lemma process_grey_shutdown:
  assumes "process_grey D spf g gt sync dst now = Some g'"
  shows "gl_shutdown g' = gl_shutdown g"
proof -
  obtain h where h: "DB_open D (gl_db g) 0 = Some h" using assms by (auto simp: process_grey_def bind_eq_Some_conv)
  let ?g = "g\<lparr>gl_db := h\<rparr>"
  have upd: "gl_shutdown g' = gl_shutdown g" if "grey_update D ?g gt sync dst now s e k = Some g'" for s e k
    using grey_update_shutdown [OF that] by simp
  have rb: "gl_shutdown g' = gl_shutdown g" if "rollback D ?g = Some g'" using rollback_shutdown [OF that] by simp
  have sw: "gl_shutdown g' = gl_shutdown g" if "spf_whitelist D ?g gt now = Some g'"
    using that by (auto simp: spf_whitelist_def bind_eq_Some_conv dest: rollback_shutdown split: if_splits)
  show ?thesis
    using assms h upd rb sw by (auto simp: process_grey_def Let_def bind_eq_Some_conv split: if_splits option.splits)
qed

lemma grey_message_step:
  assumes "lx (cp_lexer parser) (message_text '' = '' (grey_vars (dst, gt)) @ rest)" and "grey_msg_ok (dst, gt)" and "cp_section parser = None"
  shows "\<exists>p. Config_parser_start glob parser Config_create = Some (True, p) \<and> lx (cp_lexer p) rest \<and> cp_section p = None \<and>
    process_message D spf g (cp_config p) now = do { g' \<leftarrow> process_grey D spf g gt True dst now; Some (0, g') }"
proof -
  have ok: "message_ok (grey_vars (dst, gt))" using assms(2) by (simp add: grey_vars_def grey_msg_ok_def message_ok_def)
  obtain p where p: "Config_parser_start glob parser Config_create = Some (True, p)" "lx (cp_lexer p) rest" "cp_section p = None"
      "msg_config (cp_config p) (msg_vars (grey_vars (dst, gt)))"
    using message_parse [OF assms(1) ok _ _ assms(3)] by (auto simp: grey_vars_def)
  have "length (grey_vars (dst, gt)) < CONFIG_SEC_INIT_ENTRIES" by (simp add: grey_vars_def CONFIG_SEC_INIT_ENTRIES_def)
  note get = msg_vars_get [OF this p(4)]
  have "Config_get_int (cp_config p) ''type'' None (- 1) = Some 1" "Config_get_str (cp_config p) ''dst_ip'' None (Some []) = Some (Some dst)"
      "Config_get_int (cp_config p) ''sync'' None 1 = Some 1" "Config_get_str (cp_config p) ''ip'' None None = Some (Some (gt_ip gt))"
      "Config_get_str (cp_config p) ''helo'' None None = Some (Some (gt_helo gt))"
      "Config_get_str (cp_config p) ''from'' None None = Some (Some (gt_from gt))"
      "Config_get_str (cp_config p) ''to'' None None = Some (Some (gt_to gt))"
    by (simp_all add: get) (simp_all add: grey_vars_def msg_vars_def)
  then have "process_message D spf g (cp_config p) now = do { g' \<leftarrow> process_grey D spf g gt True dst now; Some (0, g') }"
    by (cases gt) (simp add: process_message_def grey_msgs)
  then show ?thesis using p(1-3) by blast
qed

text \<open>At the end of the stream the parser yields an empty message, which ends the reader.\<close>

lemma end_of_stream:
  assumes "lx (cp_lexer parser) []" and "cp_section parser = None"
  shows "\<exists>p. Config_parser_start glob parser Config_create = Some (True, p) \<and> process_message D spf g (cp_config p) now = Some (- 1, g)"
proof -
  obtain c where c: "(do { g \<leftarrow> Config_get_section Config_create CONFIG_DEFAULT_SECTION;
             case g of Some r \<Rightarrow> Some Config_create
             | None \<Rightarrow> (let (r, c) = new_section Config_create CONFIG_DEFAULT_SECTION in Config_add_section c r) }) = Some c"
      "msg_config c Map.empty" using default_config by blast
  let ?p = "parser\<lparr>cp_config := c\<rparr>"
  have g: "\<exists>l'. Lexer_getc l = (EOF, l') \<and> lx l' []" if "lx l []" for l
    using that by (simp add: lx_def Lexer_getc_def Let_def)
  have eof: "at (cp_advance q) CONFIG_LEXER_TOK_EOF [] \<and> keeps q (cp_advance q)" if "lx (cp_lexer q) []" for q
  proof -
    from g [OF that] obtain l' where l': "Lexer_getc (cp_lexer q) = (EOF, l')" "lx l' []" by blast
    have "\<not> seen_end (cp_lexer q)" using that by (simp add: lx_def)
    then have "Config_lexer_next_token (cp_lexer q) = (CONFIG_LEXER_TOK_EOF, l')"
      using l'(1) by (subst Config_lexer_next_token.simps) (simp add: isdigit_c_def isalpha_c_def isupper_c_def)
    then show ?thesis using advance_to [of q CONFIG_LEXER_TOK_EOF l' "[]"] l'(2) by simp
  qed
  have a: "at (cp_advance ?p) CONFIG_LEXER_TOK_EOF []" "keeps ?p (cp_advance ?p)" using eof [of ?p] assms(1) by auto
  have b: "keeps (cp_advance ?p) (cp_advance (cp_advance ?p))" using eof [of "cp_advance ?p"] at_lx [OF a(1)] by simp
  have "accept CONFIG_LEXER_TOK_EOL (cp_advance ?p) = (False, cp_advance ?p)"
      "accept CONFIG_LEXER_TOK_EOF (cp_advance ?p) = (True, cp_advance (cp_advance ?p))"
    using accept_other [OF a(1)] accept_this [OF a(1)] by (simp_all add: config_toks)
  moreover have "Config_parser_start glob parser Config_create =
      or_else (and_then (and_then (grammar_statement glob) (grammar_statements glob)) (acc CONFIG_LEXER_TOK_EOF))
        (acc CONFIG_LEXER_TOK_EOF) (snd (accept CONFIG_LEXER_TOK_EOL (cp_advance ?p)))"
    using c(1) unfolding Config_parser_start_def by (auto simp: bind_eq_Some_conv split: option.splits)
  ultimately have s: "Config_parser_start glob parser Config_create = Some (True, cp_advance (cp_advance ?p))"
    using no_statement [OF a(1), of glob] by (simp add: or_else_def and_then_def acc_def)
  have "cp_config (cp_advance (cp_advance ?p)) = c" using a(2) b by (simp add: keeps_def)
  moreover have "process_message D spf g c now = Some (- 1, g)"
    using msg_get [OF c(2)] by (simp add: process_message_def grey_msgs CONFIG_SEC_INIT_ENTRIES_def)
  ultimately show ?thesis using s by auto
qed

lemma reader_loop_grey:
  assumes "lx (cp_lexer parser) (concat (map (\<lambda>m. message_text '' = '' (grey_vars m)) ms))" and "\<forall>m\<in>set ms. grey_msg_ok m"
    and "cp_section parser = None" and "\<not> gl_shutdown g"
  shows "reader_loop D spf glob clock n parser g = grey_run D spf clock n ms g"
  using assms
proof (induction ms arbitrary: parser n g)
  case Nil
  obtain p where p: "Config_parser_start glob parser Config_create = Some (True, p)" "process_message D spf g (cp_config p) (clock n) = Some (- 1, g)"
    using end_of_stream [of parser glob D spf g "clock n"] Nil by auto
  then show ?case using Nil(4) by (subst reader_loop.simps) simp
next
  case (Cons m ms)
  obtain dst gt where m: "m = (dst, gt)" by fastforce
  obtain p where p: "Config_parser_start glob parser Config_create = Some (True, p)"
      "lx (cp_lexer p) (concat (map (\<lambda>m. message_text '' = '' (grey_vars m)) ms))" "cp_section p = None"
      "process_message D spf g (cp_config p) (clock n) = do { g' \<leftarrow> process_grey D spf g gt True dst (clock n); Some (0, g') }"
    using grey_message_step [of parser dst gt "concat (map (\<lambda>m. message_text '' = '' (grey_vars m)) ms)" glob D spf g "clock n"] Cons(2-4) m
    by auto
  show ?case
  proof (cases "process_grey D spf g gt True dst (clock n)")
    case None
    then show ?thesis using p Cons(5) m by (subst reader_loop.simps) simp
  next
    case (Some g')
    then have "reader_loop D spf glob clock n parser g = reader_loop D spf glob clock (n + 1) p g'"
      using p Cons(5) by (subst reader_loop.simps) simp
    then show ?thesis
      using Cons.IH [OF p(2) _ p(3)] Cons(3,5) process_grey_shutdown [OF Some] Some m by simp
  qed
qed

section \<open>Whitelists on their way to the firewall\<close>

lemma replace_text_message:
  "replace_text name af ips =
     message_text ''='' [(''type'', M_str ''replace''), (''name'', M_str name), (''af'', M_int (unat af)), (''ips'', M_list ips)]"
  by (simp add: replace_text_def message_text_def text_line_def)

lemma valid_ips_all: "\<forall>s\<in>set ips. check s \<noteq> - 1 \<Longrightarrow> List_wf wl \<Longrightarrow>
    list_head (valid_ips check (map Str_value ips) wl) = list_head wl @ ips \<and> List_wf (valid_ips check (map Str_value ips) wl)"
proof (induction ips arbitrary: wl)
  case (Cons s ips)
  then have "list_head (valid_ips check (map Str_value ips) (List_insert_after wl s)) = list_head (List_insert_after wl s) @ ips \<and>
      List_wf (valid_ips check (map Str_value ips) (List_insert_after wl s))"
    by (intro Cons.IH) (auto simp: List_wf_def)
  then show ?case using Cons.prems by simp
qed simp

section \<open>Properties\<close>

text \<open>
  C4. The reader handles every message the main process sends, in order and once: on a stream of
  grey messages as \<open>con.c\<close> prints them, the reader runs \<open>process_grey\<close> for one tuple after the other
  and ends at the end of the stream, or fails only where one of these runs does.
\<close>

theorem reader_handles_messages:
  assumes "lex_source lexer = Source_file (concat (map (\<lambda>m. message_text '' = '' (grey_vars m)) ms))" and "\<not> seen_end lexer"
    and "\<forall>m\<in>set ms. grey_msg_ok m" and "\<not> gl_shutdown g"
  shows "Grey_start_reader D spf glob clock lexer sectype tok g = grey_run D spf clock 0 ms g"
  unfolding Grey_start_reader_def
  using assms by (intro reader_loop_grey) (auto simp: lx_def message_parser_def Config_parser_create_def)

text \<open>C4 for a stream with one message on an empty database, whose tuple is stored.\<close>

theorem reader_handles_messages_witness:
  "\<exists>g'. Grey_start_reader (bdb_driver mem_lib (\<lambda>s. 2)) None (\<lambda>f. None) (\<lambda>n. 1000)
       (Lexer_create (Val_i 0) 0 (Source_file (message_text '' = '' (grey_vars ([], example_tuple))))) 0 0 (example_greylister []) = Some g' \<and>
     bdb_view mem_content (gl_db g') (KEY_TUPLE example_tuple) = Some (grey_val (grey_gd (example_greylister []) 1000))"
proof -
  have fc: "first_contact (example_greylister []) (bdb_view mem_content (gl_db (example_greylister []))) example_tuple []"
    using example_first_contact by (simp add: example_greylister_empty)
  obtain g' where g': "process_grey (bdb_driver mem_lib (\<lambda>s. 2)) None (example_greylister []) example_tuple True [] 1000 = Some g'"
      "bdb_view mem_content (gl_db g') = (bdb_view mem_content (gl_db (example_greylister [])))
         (KEY_TUPLE example_tuple \<mapsto> grey_val (grey_gd (example_greylister []) 1000))"
    using greydb_live.first_message [OF mem.drv_live example_greylister_empty(1,2) fc first_contact_ok [OF fc]] by blast
  have ok: "\<forall>m\<in>set [([], example_tuple)]. grey_msg_ok m"
    by (simp add: grey_msg_ok_def example_tuple_def plain_def NUL_def LEXER_MAX_STR_LEN_def)
  have "Grey_start_reader (bdb_driver mem_lib (\<lambda>s. 2)) None (\<lambda>f. None) (\<lambda>n. 1000)
       (Lexer_create (Val_i 0) 0 (Source_file (message_text '' = '' (grey_vars ([], example_tuple))))) 0 0 (example_greylister []) = Some g'"
    using reader_handles_messages [OF _ _ ok, of "Lexer_create (Val_i 0) 0 (Source_file (message_text '' = '' (grey_vars ([], example_tuple))))"
        "example_greylister []" "bdb_driver mem_lib (\<lambda>s. 2)" None "\<lambda>f. None" "\<lambda>n. 1000" 0 0] g'(1)
    by (simp add: Lexer_create_def) (simp add: example_greylister_def)
  then show ?thesis using g'(2) by simp
qed

text \<open>
  C30. The firewall process replaces its set by exactly the addresses the scanner whitelists: parsing
  the text that \<open>update_firewall\<close> prints and processing the message gives one replacement, of the set of
  that name and family, by those addresses.
\<close>

theorem firewall_gets_whitelist:
  assumes "lex_source lexer = Source_file (replace_text name af ips @ rest)" and "\<not> seen_end lexer"
    and "plain name" and "ips \<noteq> []" and "\<forall>s\<in>set ips. plain s \<and> check_addr fw s \<noteq> - 1"
  shows "\<exists>p. Config_parser_start glob (message_parser lexer sectype tok) Config_create = Some (True, p) \<and>
    Greyd_process_fw_message fw (cp_config p) = Some [Fw_replace name ips (sint af)] \<and> lex_source (cp_lexer p) = Source_file rest"
proof -
  let ?kvs = "[(''type'', M_str ''replace''), (''name'', M_str name), (''af'', M_int (unat af)), (''ips'', M_list ips)]"
  have "int (unat af) < 2 ^ 16" using uint_lt2p [of af] by simp
  then have ok: "message_ok ?kvs"
    using assms(3-5) by (simp add: message_ok_def) (simp add: plain_def NUL_def LEXER_MAX_STR_LEN_def)
  have "lx (cp_lexer (message_parser lexer sectype tok)) (message_text ''='' ?kvs @ rest)"
    using assms(1,2) by (simp add: lx_def message_parser_def Config_parser_create_def replace_text_message)
  from message_parse [OF this ok] obtain p where p: "Config_parser_start glob (message_parser lexer sectype tok) Config_create = Some (True, p)"
      "lx (cp_lexer p) rest" "msg_config (cp_config p) (msg_vars ?kvs)"
    by (auto simp: message_parser_def Config_parser_create_def)
  have "length ?kvs < CONFIG_SEC_INIT_ENTRIES" by (simp add: CONFIG_SEC_INIT_ENTRIES_def)
  note get = msg_vars_get [OF this p(3)]
  have vars: "Config_get_str (cp_config p) ''type'' None None = Some (Some ''replace'')"
      "Config_get_str (cp_config p) ''name'' None (Some []) = Some (Some name)"
      "Config_get_int (cp_config p) ''af'' None (uint AF_INET) = Some (int (unat af))"
      "Config_get_list (cp_config p) ''ips'' None = Some (Some (map Str_value ips))"
    by (simp_all add: get) (simp_all add: msg_vars_def)
  have wl: "list_head (valid_ips (check_addr fw) (map Str_value ips) List_create) = ips"
      "List_size (Some (valid_ips (check_addr fw) (map Str_value ips) List_create)) > 0"
    using valid_ips_all [of ips "check_addr fw" List_create] assms(4,5) by (auto simp: List_wf_def List_create_def)
  have "sint (word_of_int (int (unat af)) :: 16 word) = sint af" by simp
  then have "Greyd_process_fw_message fw (cp_config p) = Some [Fw_replace name ips (sint af)]"
    using vars wl by (simp add: Greyd_process_fw_message_def)
  then show ?thesis using p(1,2) by (auto simp: lx_def)
qed

text \<open>C30 for one address.\<close>

theorem firewall_gets_whitelist_witness:
  "\<exists>p. Config_parser_start (\<lambda>f. None)
       (message_parser (Lexer_create (Val_i 0) 0 (Source_file (replace_text ''white'' 2 [''192.0.2.1'']))) 0 0) Config_create = Some (True, p) \<and>
     Greyd_process_fw_message \<lparr>getaddrinfo = \<lambda>s. None, lookup_orig_dst = \<lambda>a b. None, getnameinfo = \<lambda>a. None, check_addr = \<lambda>s. 2\<rparr>
       (cp_config p) = Some [Fw_replace ''white'' [''192.0.2.1''] 2]"
  using firewall_gets_whitelist [of "Lexer_create (Val_i 0) 0 (Source_file (replace_text ''white'' 2 [''192.0.2.1'']))" "''white''" 2 "[''192.0.2.1'']" "[]"
      "\<lparr>getaddrinfo = \<lambda>s. None, lookup_orig_dst = \<lambda>a b. None, getnameinfo = \<lambda>a. None, check_addr = \<lambda>s. 2\<rparr>" "\<lambda>f. None" 0 0]
  by (auto simp: Lexer_create_def plain_def NUL_def LEXER_MAX_STR_LEN_def)

end
