(* ===== verification/Connection.thy ===== *)
theory Connection
  imports Reader Utils
begin

text \<open>
  Models \<open>src/src/con.c\<close>, the SMTP conversation of the daemon with one client: the state machine of a
  connection, its buffers, the stuttered output, the reply built from the messages of the blacklists
  that hold the client, the proxy protocol header, and what it tells the greylister and asks the
  firewall process.

  Character arrays are the list of their characters. Memory that \<open>realloc\<close> adds to the output buffer has
  no specified content; it is NUL here and is never read before it is written. Allocations
  succeed. The results of system calls and of the C library's address functions are parameters.
  Log output is not modelled, nor the options of the socket.
\<close>

section \<open>Connections and the state of the daemon\<close>

definition CON_BL_SUMMARY_SIZE :: nat where "CON_BL_SUMMARY_SIZE = 80"
definition CON_BL_SUMMARY_ETC :: string where "CON_BL_SUMMARY_ETC = '' ...''"
definition CON_BUF_SIZE :: nat where "CON_BUF_SIZE = 8192"
definition CON_REMOTE_END_SIZE :: nat where "CON_REMOTE_END_SIZE = 5"
definition CON_GREY_STUTTER :: int where "CON_GREY_STUTTER = 10"
definition CON_STUTTER :: int where "CON_STUTTER = 1"
definition CON_OUT_BUF_SIZE :: nat where "CON_OUT_BUF_SIZE = 8192"
definition CON_CLIENT_TOLERENCE :: int where "CON_CLIENT_TOLERENCE = 5"
definition CON_ERROR_CODE :: string where "CON_ERROR_CODE = ''450''"
definition CON_MAX_BAD_CMD :: int where "CON_MAX_BAD_CMD = 20"
definition GREYD_BANNER :: string where "GREYD_BANNER = ''greyd IP-based SPAM blocker''"

definition CON_STATE_PROXY_IN :: int where "CON_STATE_PROXY_IN = - 3"
definition CON_STATE_PROXY_OUT :: int where "CON_STATE_PROXY_OUT = - 2"
definition CON_STATE_BANNER_IN :: int where "CON_STATE_BANNER_IN = - 1"
definition CON_STATE_BANNER_OUT :: int where "CON_STATE_BANNER_OUT = 0"
definition CON_STATE_HELO_IN :: int where "CON_STATE_HELO_IN = 1"
definition CON_STATE_HELO_OUT :: int where "CON_STATE_HELO_OUT = 2"
definition CON_STATE_MAIL_IN :: int where "CON_STATE_MAIL_IN = 3"
definition CON_STATE_MAIL_OUT :: int where "CON_STATE_MAIL_OUT = 4"
definition CON_STATE_RCPT_IN :: int where "CON_STATE_RCPT_IN = 5"
definition CON_STATE_RCPT_OUT :: int where "CON_STATE_RCPT_OUT = 6"
definition CON_STATE_DATA_IN :: int where "CON_STATE_DATA_IN = 50"
definition CON_STATE_DATA_OUT :: int where "CON_STATE_DATA_OUT = 60"
definition CON_STATE_MESSAGE :: int where "CON_STATE_MESSAGE = 70"
definition CON_STATE_REPLY :: int where "CON_STATE_REPLY = 98"
definition CON_STATE_CLOSE :: int where "CON_STATE_CLOSE = 99"

lemmas con_states = CON_STATE_PROXY_IN_def CON_STATE_PROXY_OUT_def CON_STATE_BANNER_IN_def CON_STATE_BANNER_OUT_def
  CON_STATE_HELO_IN_def CON_STATE_HELO_OUT_def CON_STATE_MAIL_IN_def CON_STATE_MAIL_OUT_def CON_STATE_RCPT_IN_def
  CON_STATE_RCPT_OUT_def CON_STATE_DATA_IN_def CON_STATE_DATA_OUT_def CON_STATE_MESSAGE_def CON_STATE_REPLY_def CON_STATE_CLOSE_def

text \<open>
  \<open>struct Con\<close>. A pointer into a buffer is an index; \<open>con_out_buf\<close> is \<open>None\<close> for NULL, and has
  \<open>con_out_size\<close> characters otherwise.
\<close>

record Con =
  con_fd :: int
  con_state :: int
  con_last_state :: int
  con_src :: sockaddr
  con_src_addr :: string
  con_dst_addr :: string
  con_helo :: "char list"
  con_mail :: "char list"
  con_rcpt :: "char list"
  con_blacklists :: "Blacklist_T List_T option"
  con_lists :: "string option"
  con_r :: int
  con_w :: int
  con_s :: int
  con_in_buf :: "char list"
  con_in_p :: nat
  con_in_remaining :: int
  con_r_end_chars :: string
  con_out_buf :: "char list option"
  con_out_p :: nat
  con_out_remaining :: int
  con_data_lines :: int
  con_data_body :: bool
  con_stutter :: int
  con_bad_cmd :: int
  con_seen_cr :: bool

text \<open>\<open>con->out_size\<close> is the number of characters allocated.\<close>

definition con_out_size :: "Con \<Rightarrow> nat" where
  "con_out_size con = (case con_out_buf con of None \<Rightarrow> 0 | Some b \<Rightarrow> length b)"

record Greyd_state =
  gs_config :: Config_T
  gs_slow_until :: int
  gs_cons :: "Con list"
  gs_max_cons :: int
  gs_max_black :: int
  gs_clients :: int
  gs_black_clients :: int
  gs_grey_out :: string
  gs_fw_out :: string
  gs_blacklists :: "Blacklist_T Hash_T"
  gs_proxy_protocol_enabled :: bool
  gs_permitted_proxies :: Blacklist_T

text \<open>
  The environment: \<open>ctime\<close>, the local address of a socket, numeric address names, the firewall process's
  answer to a lookup (\<open>None\<close> when there is none within the timeout), whether the request could be
  flushed, address conversion, and what the parser leaves uninitialised.
\<close>

record con_env =
  ce_ctime :: "int \<Rightarrow> string"
  ce_getsockname :: "int \<Rightarrow> sockaddr option"
  ce_getnameinfo :: "sockaddr \<Rightarrow> string option"
  ce_fflush :: bool
  ce_fw_reply :: "string \<Rightarrow> string option"
  ce_inet_pton :: "u16 \<Rightarrow> string \<Rightarrow> IP_addr option"
  ce_inet_ntop :: "u16 \<Rightarrow> IP_addr \<Rightarrow> string"
  ce_glob :: "string \<Rightarrow> string list option"
  ce_lexer_value :: Lexer_token_value
  ce_lexer_tok :: int
  ce_uninit_addr :: IP_addr

section \<open>Strings\<close>

definition match :: "char list \<Rightarrow> string \<Rightarrow> bool" where
  "match a b \<longleftrightarrow> match_prefix_nocase (c_str a) b"

text \<open>
  \<open>strsep\<close> on the string that starts at index \<open>i\<close> of a buffer: the first delimiter is overwritten with
  NUL; the index behind it, or \<open>None\<close> when there was none.
\<close>

definition strsep :: "char list \<Rightarrow> nat \<Rightarrow> char set \<Rightarrow> char list \<times> nat option" where
  "strsep buf i delims =
     (let j = i + length (takeWhile (\<lambda>c. c \<noteq> NUL \<and> c \<notin> delims) (drop i buf))
      in if j < length buf \<and> buf ! j \<noteq> NUL then (buf[j := NUL], Some (j + 1)) else (buf, None))"

definition skip_blanks :: "char list \<Rightarrow> nat \<Rightarrow> nat" where
  "skip_blanks buf i = i + length (takeWhile (\<lambda>c. c = CHR '' '' \<or> c = CHR 0x09) (drop i buf))"

text \<open>The common end of \<open>get_helo\<close> and \<open>set_log\<close>: the word at index \<open>i\<close> of \<open>f\<close> is copied to \<open>p\<close> and cut.\<close>

definition copy_word :: "char list \<Rightarrow> nat \<Rightarrow> char list \<Rightarrow> nat \<Rightarrow> (char list \<times> char list) option" where
  "copy_word p len f i =
     (let (f', fn) = strsep f i {CHR '' '', CHR 0x09}; ws = {CHR '' '', CHR 0x09, CHR 0x0A, CHR 0x0D}
      in do { (slen, p1) \<leftarrow> sstrncpy p (c_str (drop i f')) len;
              let (p2, n) = strsep p1 0 ws in
              case n of
                None \<Rightarrow> Some (p2, f')
              | Some k \<Rightarrow> (let (p3, m) = strsep p2 k ws in Some (p3[k := NUL], f')) })"

definition get_helo :: "char list \<Rightarrow> nat \<Rightarrow> char list \<Rightarrow> (char list \<times> char list) option" where
  "get_helo p len f = copy_word p len f (skip_blanks f 4)"

definition set_log :: "char list \<Rightarrow> nat \<Rightarrow> char list \<Rightarrow> (char list \<times> char list) option" where
  "set_log p len f =
     (let (f1, n) = strsep f 0 {CHR '':''}
      in case n of
           None \<Rightarrow> Some (p[0 := NUL], f1)
         | Some k \<Rightarrow> copy_word p len f1 (skip_blanks f1 k))"

section \<open>The proxy protocol\<close>

definition PROXY_OK :: int where "PROXY_OK = 0"
definition PROXY_UNKNOWN :: int where "PROXY_UNKNOWN = 1"
definition PROXY_ERROR :: int where "PROXY_ERROR = 2"

text \<open>The tokens that \<open>strtok\<close> with a blank as delimiter yields.\<close>

function tokens :: "string \<Rightarrow> string list" where
  "tokens s =
     (let t = dropWhile (\<lambda>c. c = CHR '' '') s
      in if t = [] then [] else takeWhile (\<lambda>c. c \<noteq> CHR '' '') t # tokens (dropWhile (\<lambda>c. c \<noteq> CHR '' '') t))"
  by pat_completeness auto
termination
proof (relation "measure length", goal_cases)
  case (2 s t)
  have "length t \<le> length s" using 2(1) by (simp add: length_dropWhile_le)
  moreover have "hd t \<noteq> CHR '' ''" using hd_dropWhile [of "\<lambda>c. c = CHR '' ''" s] 2 by simp
  then have "length (dropWhile (\<lambda>c. c \<noteq> CHR '' '') t) < length t"
    using 2(2) length_dropWhile_le [of "\<lambda>c. c \<noteq> CHR '' ''" "tl t"] by (cases t) auto
  ultimately show ?case by simp
qed simp

declare tokens.simps [simp del]

definition parse_proxy_protocol_header :: "con_env \<Rightarrow> string \<Rightarrow> string \<Rightarrow> string \<Rightarrow> int \<times> string \<times> string" where
  "parse_proxy_protocol_header E src dst v1_orig_header =
     (case tl (tokens v1_orig_header) of
        [] \<Rightarrow> (PROXY_ERROR, src, dst)
      | fam # ts \<Rightarrow>
          if fam = ''UNKNOWN'' then (PROXY_UNKNOWN, src, dst)
          else if fam = ''TCP4'' \<or> fam = ''TCP6''
          then (let af = (if fam = ''TCP4'' then AF_INET else AF_INET6) in
                case ts of
                  [] \<Rightarrow> (PROXY_ERROR, src, dst)
                | a # ts' \<Rightarrow>
                    (case ce_inet_pton E af a of
                       None \<Rightarrow> (PROXY_ERROR, src, dst)
                     | Some ip \<Rightarrow>
                         (let src' = ce_inet_ntop E af ip in
                          case ts' of
                            [] \<Rightarrow> (PROXY_ERROR, src', dst)
                          | d # _ \<Rightarrow>
                              (case ce_inet_pton E af d of
                                 None \<Rightarrow> (PROXY_ERROR, src', dst)
                               | Some ip' \<Rightarrow> (PROXY_OK, src', ce_inet_ntop E af ip')))))
          else (PROXY_ERROR, src, dst))"

definition allow_proxy :: "con_env \<Rightarrow> Con \<Rightarrow> Greyd_state \<Rightarrow> bool option" where
  "allow_proxy E con st =
     (let (af, proxy) = IP_sockaddr_to_addr (con_src con) (ce_uninit_addr E)
      in Blacklist_match (gs_permitted_proxies st) proxy (word_of_int af))"

section \<open>Output\<close>

definition Con_grow_out_buf :: "Con \<Rightarrow> Con" where
  "Con_grow_out_buf con =
     con\<lparr>con_out_buf := Some ((case con_out_buf con of None \<Rightarrow> [] | Some b \<Rightarrow> b) @ replicate CON_OUT_BUF_SIZE NUL)\<rparr>"

text \<open>\<open>snprintf\<close> of a text at an index of a buffer.\<close>

definition snprintf_at :: "char list \<Rightarrow> nat \<Rightarrow> nat \<Rightarrow> string \<Rightarrow> char list option" where
  "snprintf_at buf i n text = (if n = 0 then Some buf else buf_write buf i (take (n - 1) text @ [NUL]))"

text \<open>Printing a reply to the output buffer, pointing the output at it, and both.\<close>

definition print_out :: "Con \<Rightarrow> string \<Rightarrow> Con option" where
  "print_out con text =
     do { buf \<leftarrow> con_out_buf con;
          buf' \<leftarrow> snprintf_at buf 0 (con_out_size con) text;
          Some (con\<lparr>con_out_buf := Some buf'\<rparr>) }"

definition point_out :: "Con \<Rightarrow> Con option" where
  "point_out con =
     do { buf \<leftarrow> con_out_buf con; Some (con\<lparr>con_out_p := 0, con_out_remaining := int (length (c_str buf))\<rparr>) }"

definition put_out :: "Con \<Rightarrow> string \<Rightarrow> Con option" where
  "put_out con text = do { con1 \<leftarrow> print_out con text; point_out con1 }"

text \<open>Subtraction of \<open>size_t\<close> values.\<close>

definition usub :: "nat \<Rightarrow> nat \<Rightarrow> nat" where
  "usub a b = (a + 2 ^ 64 - b mod 2 ^ 64) mod 2 ^ 64"

text \<open>One character of the format string: what is written, and the character that stays saved.\<close>

definition format_char :: "Con \<Rightarrow> char list \<Rightarrow> nat \<Rightarrow> nat \<Rightarrow> char \<Rightarrow> char \<Rightarrow> (char list \<times> nat \<times> char) option" where
  "format_char con buf off appended saved c =
     (let i = off + appended in
      if c = CHR 0x5c \<or> c = CHR ''%''
      then if saved = NUL then Some (buf, appended, c)
           else do { b \<leftarrow> buf_write buf i [saved, NUL]; Some (b, appended + 1, NUL) }
      else if c = CHR ''n'' \<and> saved = CHR 0x5c
      then do { b \<leftarrow> buf_write buf i [CHR 0x0A, NUL]; Some (b, appended + 1, NUL) }
      else if c = CHR ''A'' \<and> saved = CHR ''%''
      then do { b \<leftarrow> buf_write buf i (take INET6_ADDRSTRLEN (con_src_addr con @ replicate INET6_ADDRSTRLEN NUL));
                let n = length (c_str (drop i b)) in
                do { b' \<leftarrow> buf_write b (i + n) [NUL]; Some (b', appended + n, NUL) } }
      else if saved \<noteq> NUL
      then do { b \<leftarrow> buf_write buf i [saved, c, NUL]; Some (b, appended + 2, NUL) }
      else do { b \<leftarrow> buf_write buf i [c, NUL]; Some (b, appended + 1, NUL) })"

text \<open>The loop over the format string, with the locals \<open>error_str_len\<close>, \<open>appended\<close> and \<open>*last_line_cont\<close>.\<close>

fun append_loop :: "string \<Rightarrow> nat \<Rightarrow> string \<Rightarrow> char \<Rightarrow> nat \<Rightarrow> nat \<Rightarrow> nat \<Rightarrow> Con \<Rightarrow> (nat \<times> nat \<times> Con) option" where
  "append_loop error_code off [] saved len appended cont con = Some (appended, cont, con)"
| "append_loop error_code off (c # cs) saved len appended cont con =
     (let full = (appended \<ge> usub len (INET6_ADDRSTRLEN + (length error_code + 1) + 1));
          con1 = (if full then Con_grow_out_buf con else con);
          len1 = (if full then usub (con_out_size con1) (off + appended) else len)
      in do { buf \<leftarrow> con_out_buf con1;
              prev \<leftarrow> nth_opt buf (off + appended - 1);
              (buf1, appended1, cont1) \<leftarrow>
                (if prev = CHR 0x0A
                 then do { b \<leftarrow> (if cont \<noteq> 0 then buf_write buf cont [CHR ''-''] else Some buf);
                           b' \<leftarrow> snprintf_at b (off + appended) len1 (error_code @ '' '');
                           let n = length (c_str (drop (off + appended) b')) in
                           Some (b', appended + n, off + appended + n - 1) }
                 else Some (buf, appended, cont));
              (buf2, appended2, saved2) \<leftarrow> format_char con1 buf1 off appended1 saved c;
              append_loop error_code off cs saved2 len1 appended2 cont1 (con1\<lparr>con_out_buf := Some buf2\<rparr>) })"

definition Con_append_error_string :: "Con \<Rightarrow> nat \<Rightarrow> string \<Rightarrow> string \<Rightarrow> nat \<Rightarrow> (nat \<times> nat \<times> Con) option" where
  "Con_append_error_string con off fmt error_code last_line_cont =
     (let cont = (if off = 0 then 0 else last_line_cont) in
      do { buf \<leftarrow> con_out_buf con;
           buf1 \<leftarrow> (if cont \<noteq> 0 then buf_write buf cont [CHR ''-''] else Some buf);
           let con1 = con\<lparr>con_out_buf := Some buf1\<rparr>;
               len = usub (con_out_size con1) off;
               full = len < length error_code + 1;
               con2 = (if full then Con_grow_out_buf con1 else con1);
               len2 = (if full then usub (con_out_size con2) off else len) in
           do { buf2 \<leftarrow> con_out_buf con2;
                buf3 \<leftarrow> snprintf_at buf2 off len2 (error_code @ '' '');
                let appended = length (c_str (drop off buf3)) in
                append_loop error_code off fmt NUL len2 appended (off + appended - 1) (con2\<lparr>con_out_buf := Some buf3\<rparr>) } })"

fun reply_loop :: "string \<Rightarrow> Blacklist_T list \<Rightarrow> nat \<Rightarrow> nat \<Rightarrow> Con \<Rightarrow> Con option" where
  "reply_loop error_code [] off cont con = Some con"
| "reply_loop error_code (bl # bls) off cont con =
     (let remaining = int (con_out_size con) - int off in
      do { (appended, cont1, con1) \<leftarrow> Con_append_error_string con off (bl_message bl) error_code cont;
           let off1 = off + appended in
           do { buf \<leftarrow> con_out_buf con1;
                prev \<leftarrow> nth_opt buf (off1 - 1);
                if prev \<noteq> CHR 0x0A
                then (let con2 = (if remaining - int appended < 1 then Con_grow_out_buf con1 else con1) in
                      do { buf2 \<leftarrow> con_out_buf con2;
                           buf3 \<leftarrow> buf_write buf2 off1 [CHR 0x0A, NUL];
                           reply_loop error_code bls (off1 + 1) cont1
                             (con2\<lparr>con_out_buf := Some buf3, con_out_p := 0, con_out_remaining := int (length (c_str buf3))\<rparr>) })
                else reply_loop error_code bls off1 cont1 con1 } })"

definition Con_build_reply :: "Con \<Rightarrow> string \<Rightarrow> Con option" where
  "Con_build_reply con error_code =
     (case con_blacklists con of
        Some bls \<Rightarrow>
          if List_size (Some bls) > 0 then reply_loop error_code (list_head bls) 0 0 con
          else put_out con (''451 Temporary failure, please try again later.'' @ [CHR 0x0D, CHR 0x0A])
      | None \<Rightarrow> put_out con (''451 Temporary failure, please try again later.'' @ [CHR 0x0D, CHR 0x0A]))"

section \<open>Closing and summarising\<close>

definition Con_close :: "Con \<Rightarrow> Greyd_state \<Rightarrow> Con \<times> Greyd_state" where
  "Con_close con st =
     (let con1 = con\<lparr>con_fd := - 1, con_lists := None\<rparr>; st1 = st\<lparr>gs_slow_until := 0\<rparr>;
          black = List_size (con_blacklists con1) > 0;
          con2 = (if black then con1\<lparr>con_blacklists := map_option (snd \<circ> List_remove_all) (con_blacklists con1)\<rparr> else con1);
          st2 = (if black then st1\<lparr>gs_black_clients := gs_black_clients st1 - 1\<rparr> else st1);
          con3 = (if con_out_buf con2 \<noteq> None then con2\<lparr>con_out_buf := None, con_out_p := 0\<rparr> else con2)
      in (con3, st2\<lparr>gs_clients := gs_clients st2 - 1\<rparr>))"

text \<open>The loop over the lists; the buffer holds \<open>CON_BL_SUMMARY_SIZE + 1\<close> characters.\<close>

fun summarize_loop :: "Blacklist_T list \<Rightarrow> bool \<Rightarrow> char list \<Rightarrow> char list option" where
  "summarize_loop [] first out = Some out"
| "summarize_loop (bl # bls) first out =
     (if length (c_str out) + length (bl_name bl) + 1 \<ge> CON_BL_SUMMARY_SIZE - length CON_BL_SUMMARY_ETC
      then map_option snd (sstrncat out CON_BL_SUMMARY_ETC (CON_BL_SUMMARY_SIZE + 1))
      else do { out1 \<leftarrow> (if first then Some out else map_option snd (sstrncat out '' '' (CON_BL_SUMMARY_SIZE + 1)));
                out2 \<leftarrow> map_option snd (sstrncat out1 (bl_name bl) (CON_BL_SUMMARY_SIZE + 1));
                summarize_loop bls False out2 })"

definition Con_summarize_lists :: "Con \<Rightarrow> string option option" where
  "Con_summarize_lists con =
     (case con_blacklists con of
        None \<Rightarrow> Some None
      | Some bls \<Rightarrow>
          if List_size (Some bls) = 0 then Some None
          else map_option (\<lambda>b. Some (c_str b)) (summarize_loop (list_head bls) True (replicate (CON_BL_SUMMARY_SIZE + 1) NUL)))"

section \<open>The original destination\<close>

definition nat_request :: "string \<Rightarrow> nat \<Rightarrow> string \<Rightarrow> nat \<Rightarrow> string" where
  "nat_request src src_port proxy proxy_port =
     ''type='' @ quoted ''nat'' @ [CHR 0x0A] @ ''src='' @ quoted src @ [CHR 0x0A] @ ''src_port='' @ dec_digits src_port @ [CHR 0x0A] @
     ''proxy='' @ quoted proxy @ [CHR 0x0A] @ ''proxy_port='' @ dec_digits proxy_port @ [CHR 0x0A] @ ''%'' @ [CHR 0x0A]"

definition Con_get_orig_dst :: "con_env \<Rightarrow> Con \<Rightarrow> Greyd_state \<Rightarrow> (Con \<times> Greyd_state) option" where
  "Con_get_orig_dst E con st =
     (if gs_proxy_protocol_enabled st then Some (con, st)
      else case ce_getsockname E (con_fd con) of
        None \<Rightarrow> Some (con, st)
      | Some ss_proxy \<Rightarrow>
          (case ce_getnameinfo E ss_proxy of
             None \<Rightarrow> Some (con, st)
           | Some proxy \<Rightarrow>
               (let req = nat_request (con_src_addr con) (sa_port (con_src con)) proxy (sa_port ss_proxy);
                    st1 = st\<lparr>gs_fw_out := gs_fw_out st @ req\<rparr> in
                if \<not> ce_fflush E then Some (con, st1)
                else (let con1 = con\<lparr>con_dst_addr := []\<rparr> in
                      case ce_fw_reply E req of
                        None \<Rightarrow> Some (con1, st1)
                      | Some text \<Rightarrow>
                          (let lexer = Lexer_create (ce_lexer_value E) (ce_lexer_tok E) (Lexer_source_create_from_fd text) in
                           do { (ok, p) \<leftarrow> Config_parser_start (ce_glob E) (message_parser lexer (ce_lexer_tok E) (ce_lexer_tok E)) Config_create;
                                if ok
                                then do { d \<leftarrow> Config_get_str (cp_config p) ''dst'' None (Some []);
                                          dst \<leftarrow> d;
                                          Some (con1\<lparr>con_dst_addr := take (INET6_ADDRSTRLEN - 1) dst\<rparr>, st1) }
                                else Some (con1, st1) })))))"

section \<open>The state machine\<close>

definition Con_black :: "Con \<Rightarrow> bool" where
  "Con_black con \<longleftrightarrow> List_size (con_blacklists con) > 0"

text \<open>The three endings of a step: wait for input, print a reply and wait for it to be written.\<close>

definition wait_input :: "Con \<Rightarrow> int \<Rightarrow> int \<Rightarrow> Con" where
  "wait_input con next now =
     con\<lparr>con_in_p := 0, con_in_remaining := int CON_BUF_SIZE - 1, con_last_state := con_state con, con_state := next, con_r := now\<rparr>"

definition answer :: "Con \<Rightarrow> string \<Rightarrow> int \<Rightarrow> int \<Rightarrow> Con option" where
  "answer con text next now =
     do { con1 \<leftarrow> put_out con text;
          Some (con1\<lparr>con_last_state := con_state con1, con_state := next, con_w := now + con_stutter con1\<rparr>) }"

text \<open>Label \<open>done\<close>, also \<open>CON_STATE_REPLY\<close>.\<close>

definition next_done :: "string \<Rightarrow> Con \<Rightarrow> Greyd_state \<Rightarrow> int \<Rightarrow> (Con \<times> Greyd_state) option" where
  "next_done error_code con st now =
     do { con1 \<leftarrow> Con_build_reply con error_code;
          Some (con1\<lparr>con_w := now + con_stutter con1, con_last_state := con_state con1, con_state := CON_STATE_CLOSE\<rparr>, st) }"

text \<open>Label \<open>start\<close>, also \<open>CON_STATE_BANNER_IN\<close>.\<close>

definition next_start :: "con_env \<Rightarrow> string option \<Rightarrow> Con \<Rightarrow> Greyd_state \<Rightarrow> int \<Rightarrow> (Con \<times> Greyd_state) option" where
  "next_start E hostname con st now =
     do { h \<leftarrow> hostname;
          b \<leftarrow> Config_get_str (gs_config st) ''banner'' None (Some GREYD_BANNER);
          banner \<leftarrow> b;
          con1 \<leftarrow> answer con (''220 '' @ h @ '' ESMTP '' @ banner @ ''; '' @ butlast (ce_ctime E now) @ [CHR 0x0D, CHR 0x0A])
            CON_STATE_BANNER_OUT now;
          Some (con1, st) }"

text \<open>Label \<open>spam\<close>, also \<open>CON_STATE_DATA_IN\<close>.\<close>

definition next_spam :: "string \<Rightarrow> bool \<Rightarrow> Con \<Rightarrow> Greyd_state \<Rightarrow> int \<Rightarrow> (Con \<times> Greyd_state) option" where
  "next_spam error_code greylist con st now =
     (if match (con_in_buf con) ''DATA''
      then do { con1 \<leftarrow> put_out con (''354 End data with <CR><LF>.<CR><LF>'' @ [CHR 0x0D, CHR 0x0A]);
                let con2 = con1\<lparr>con_state := CON_STATE_DATA_OUT, con_in_p := 0, con_in_remaining := int CON_BUF_SIZE - 1,
                                con_w := now + con_stutter con1\<rparr> in
                if greylist \<and> \<not> Con_black con2
                then next_done error_code (con2\<lparr>con_last_state := con_state con2, con_state := CON_STATE_REPLY\<rparr>) st now
                else Some (con2, st) }
      else (let noop = match (con_in_buf con) ''NOOP''
            in do { con1 \<leftarrow> print_out con ((if noop then ''250 OK'' else ''500 Command unrecognized'') @ [CHR 0x0D, CHR 0x0A]);
                    let con2 = (if noop then con1 else con1\<lparr>con_bad_cmd := con_bad_cmd con1 + 1\<rparr>) in
                    if \<not> noop \<and> con_bad_cmd con2 > CON_MAX_BAD_CMD
                    then next_done error_code (con2\<lparr>con_last_state := con_state con2, con_state := CON_STATE_REPLY\<rparr>) st now
                    else do { con3 \<leftarrow> point_out con2;
                              Some (con3\<lparr>con_state := con_last_state con3, con_in_p := 0, con_in_remaining := int CON_BUF_SIZE - 1,
                                         con_w := now + con_stutter con3\<rparr>, st) } }))"

text \<open>Label \<open>rcpt\<close>, also \<open>CON_STATE_RCPT_IN\<close>.\<close>

definition grey_report :: "Con \<Rightarrow> string" where
  "grey_report con =
     ''type = '' @ show_int GREY_MSG_GREY @ [CHR 0x0A] @ ''dst_ip = '' @ quoted (con_dst_addr con) @ [CHR 0x0A] @
     ''ip = '' @ quoted (con_src_addr con) @ [CHR 0x0A] @ ''helo = '' @ quoted (c_str (con_helo con)) @ [CHR 0x0A] @
     ''from = '' @ quoted (c_str (con_mail con)) @ [CHR 0x0A] @ ''to = '' @ quoted (c_str (con_rcpt con)) @ [CHR 0x0A] @
     ''%'' @ [CHR 0x0A]"

definition next_rcpt :: "con_env \<Rightarrow> string \<Rightarrow> bool \<Rightarrow> Con \<Rightarrow> Greyd_state \<Rightarrow> int \<Rightarrow> (Con \<times> Greyd_state) option" where
  "next_rcpt E error_code greylist con st now =
     (if match (con_in_buf con) ''RCPT''
      then do { (email, f) \<leftarrow> set_log (replicate GREY_MAX_MAIL NUL) GREY_MAX_MAIL (con_in_buf con);
                rcpt \<leftarrow> normalize_email_addr (c_str email) (con_rcpt con) (int (length (con_rcpt con)));
                con1 \<leftarrow> answer (con\<lparr>con_in_buf := f, con_rcpt := rcpt\<rparr>) (''250 OK'' @ [CHR 0x0D, CHR 0x0A]) CON_STATE_RCPT_OUT now;
                if c_str (con_mail con1) \<noteq> [] \<and> c_str (con_rcpt con1) \<noteq> [] \<and> greylist \<and> \<not> Con_black con1
                then do { (con2, st1) \<leftarrow> Con_get_orig_dst E con1 st;
                          Some (con2, st1\<lparr>gs_grey_out := gs_grey_out st1 @ grey_report con2\<rparr>) }
                else Some (con1, st) }
      else next_spam error_code greylist con st now)"

text \<open>Label \<open>mail\<close>, also \<open>CON_STATE_MAIL_IN\<close>.\<close>

definition next_mail :: "con_env \<Rightarrow> string \<Rightarrow> bool \<Rightarrow> Con \<Rightarrow> Greyd_state \<Rightarrow> int \<Rightarrow> (Con \<times> Greyd_state) option" where
  "next_mail E error_code greylist con st now =
     (if match (con_in_buf con) ''MAIL''
      then do { (email, f) \<leftarrow> set_log (replicate GREY_MAX_MAIL NUL) GREY_MAX_MAIL (con_in_buf con);
                mail \<leftarrow> normalize_email_addr (c_str email) (con_mail con) (int (length (con_mail con)));
                con1 \<leftarrow> answer (con\<lparr>con_in_buf := f, con_mail := mail\<rparr>) (''250 OK'' @ [CHR 0x0D, CHR 0x0A]) CON_STATE_MAIL_OUT now;
                Some (con1, st) }
      else next_rcpt E error_code greylist con st now)"

definition next_helo :: "con_env \<Rightarrow> string option \<Rightarrow> string \<Rightarrow> bool \<Rightarrow> Con \<Rightarrow> Greyd_state \<Rightarrow> int \<Rightarrow> (Con \<times> Greyd_state) option" where
  "next_helo E hostname error_code greylist con st now =
     (if match (con_in_buf con) ''HELO'' \<or> match (con_in_buf con) ''EHLO''
      then do { (helo, f) \<leftarrow> get_helo ((con_helo con)[0 := NUL]) (length (con_helo con)) (con_in_buf con);
                let con1 = con\<lparr>con_helo := helo, con_in_buf := f\<rparr> in
                do { con2 \<leftarrow> (if c_str helo = []
                              then answer con1 (''501 Syntax: '' @ (if match f ''HELO'' then ''HELO'' else ''EHLO'') @ '' hostname'' @ [CHR 0x0D, CHR 0x0A])
                                     CON_STATE_BANNER_OUT now
                              else do { h \<leftarrow> hostname; answer con1 (''250 '' @ h @ [CHR 0x0D, CHR 0x0A]) CON_STATE_HELO_OUT now });
                     Some (con2, st) } }
      else next_mail E error_code greylist con st now)"

definition next_proxy :: "con_env \<Rightarrow> string option \<Rightarrow> string \<Rightarrow> Con \<Rightarrow> Greyd_state \<Rightarrow> int \<Rightarrow> (Con \<times> Greyd_state) option" where
  "next_proxy E hostname error_code con st now =
     do { allowed \<leftarrow> (if match (con_in_buf con) ''PROXY'' then allow_proxy E con st else Some False);
          if allowed
          then (let (ret, src, dst) = parse_proxy_protocol_header E (con_src_addr con) (con_dst_addr con) (c_str (con_in_buf con));
                    con1 = con\<lparr>con_src_addr := src, con_dst_addr := dst\<rparr>
                in if ret = PROXY_OK then next_start E hostname con1 st now else next_done error_code con1 st now)
          else next_done error_code con st now }"

text \<open>
  The loop over the lines of the message body: \<open>p\<close> is the start of the current line, \<open>q\<close> the current
  character. The result tells whether the body has ended, which is a lone dot or its tenth line.
\<close>

function body_loop :: "char list \<Rightarrow> nat \<Rightarrow> nat \<Rightarrow> nat \<Rightarrow> bool \<Rightarrow> int \<Rightarrow> (bool \<times> char list \<times> bool \<times> int) option" where
  "body_loop buf in_p p q body n =
     (if q \<le> in_p
      then do { c \<leftarrow> nth_opt buf q;
                if c = CHR 0x0A \<or> q = in_p
                then (let b1 = buf[q := NUL];
                          b2 = (if q > p \<and> b1 ! (q - 1) = CHR 0x0D then b1[q - 1 := NUL] else b1);
                          line = c_str (drop p b2);
                          n1 = (if line \<noteq> ''.'' \<and> body then n + 1 else n)
                      in if line = ''.'' \<or> body \<and> n1 \<ge> 10 then Some (True, b2, body, n1)
                         else body_loop b2 in_p (q + 1) (q + 2) (body \<or> line = []) n1)
                else body_loop buf in_p p (q + 1) body n }
      else Some (False, buf, body, n))"
  by pat_completeness auto
termination by (relation "measure (\<lambda>(buf, in_p, p, q, body, n). in_p + 1 - q)") auto

declare body_loop.simps [simp del]

definition next_message :: "string \<Rightarrow> Con \<Rightarrow> Greyd_state \<Rightarrow> int \<Rightarrow> (Con \<times> Greyd_state) option" where
  "next_message error_code con st now =
     do { (ended, buf, body, n) \<leftarrow> body_loop (con_in_buf con) (con_in_p con) 0 0 (con_data_body con) (con_data_lines con);
          let con1 = con\<lparr>con_in_buf := buf, con_data_body := body, con_data_lines := n\<rparr> in
          if ended
          then next_done error_code (con1\<lparr>con_last_state := con_state con1, con_state := CON_STATE_REPLY\<rparr>) st now
          else Some (con1\<lparr>con_in_p := 0, con_in_remaining := int CON_BUF_SIZE - 1, con_r := now\<rparr>, st) }"

definition Con_next_state :: "con_env \<Rightarrow> Con \<Rightarrow> int \<Rightarrow> Greyd_state \<Rightarrow> (Con \<times> Greyd_state) option" where
  "Con_next_state E con now st =
     do { hostname \<leftarrow> Config_get_str (gs_config st) ''hostname'' None None;
          ec \<leftarrow> Config_get_str (gs_config st) ''error_code'' None (Some CON_ERROR_CODE);
          error_code \<leftarrow> ec;
          enable \<leftarrow> Config_get_int (gs_config st) ''enable'' (Some ''grey'') 1;
          let greylist = (enable \<noteq> 0); s = con_state con in
          if match (con_in_buf con) ''QUIT'' \<and> s < CON_STATE_CLOSE
          then do { h \<leftarrow> hostname; con1 \<leftarrow> answer con (''221 '' @ h @ [CHR 0x0D, CHR 0x0A]) CON_STATE_CLOSE now; Some (con1, st) }
          else if match (con_in_buf con) ''RSET'' \<and> s > CON_STATE_HELO_OUT \<and> s < CON_STATE_DATA_IN
          then do { con1 \<leftarrow> answer con (''250 OK'' @ [CHR 0x0D, CHR 0x0A]) CON_STATE_HELO_OUT now; Some (con1, st) }
          else if s = CON_STATE_PROXY_IN then Some (wait_input con CON_STATE_PROXY_OUT now, st)
          else if s = CON_STATE_PROXY_OUT then next_proxy E hostname error_code con st now
          else if s = CON_STATE_BANNER_IN then next_start E hostname con st now
          else if s = CON_STATE_BANNER_OUT then Some (wait_input con CON_STATE_HELO_IN now, st)
          else if s = CON_STATE_HELO_IN then next_helo E hostname error_code greylist con st now
          else if s = CON_STATE_HELO_OUT then Some (wait_input con CON_STATE_MAIL_IN now, st)
          else if s = CON_STATE_MAIL_IN then next_mail E error_code greylist con st now
          else if s = CON_STATE_MAIL_OUT then Some (wait_input con CON_STATE_RCPT_IN now, st)
          else if s = CON_STATE_RCPT_IN then next_rcpt E error_code greylist con st now
          else if s = CON_STATE_RCPT_OUT then Some (wait_input con CON_STATE_RCPT_IN now, st)
          else if s = CON_STATE_DATA_IN then next_spam error_code greylist con st now
          else if s = CON_STATE_DATA_OUT then Some (wait_input con CON_STATE_MESSAGE now, st)
          else if s = CON_STATE_MESSAGE then next_message error_code con st now
          else if s = CON_STATE_REPLY then next_done error_code con st now
          else if s = CON_STATE_CLOSE then Some (Con_close con st)
          else None }"

section \<open>Events\<close>

text \<open>The blacklists that hold the client's address, copied without their entries.\<close>

fun client_lists :: "con_env \<Rightarrow> Greyd_state \<Rightarrow> sockaddr \<Rightarrow> string list \<Rightarrow> Blacklist_T List_T \<Rightarrow> Blacklist_T List_T option" where
  "client_lists E st src [] bls = Some bls"
| "client_lists E st src (name # names) bls =
     do { b \<leftarrow> Hash_get (gs_blacklists st) name;
          blacklist \<leftarrow> b;
          hit \<leftarrow> Blacklist_match blacklist (snd (IP_sockaddr_to_addr src (ce_uninit_addr E))) (sa_family src);
          client_lists E st src names
            (if hit then List_insert_after bls (Blacklist_create name (bl_message blacklist) BL_STORAGE_TRIE) else bls) }"

definition zero_con :: Con where
  "zero_con =
     \<lparr>con_fd = 0, con_state = 0, con_last_state = 0, con_src = \<lparr>sa_family = 0, sa_words = [0, 0, 0, 0], sa_port = 0\<rparr>,
      con_src_addr = [], con_dst_addr = [], con_helo = replicate GREY_MAX_MAIL NUL, con_mail = replicate GREY_MAX_MAIL NUL,
      con_rcpt = replicate GREY_MAX_MAIL NUL, con_blacklists = None, con_lists = None, con_r = 0, con_w = 0, con_s = 0,
      con_in_buf = replicate CON_BUF_SIZE NUL, con_in_p = 0, con_in_remaining = 0, con_r_end_chars = [], con_out_buf = None,
      con_out_p = 0, con_out_remaining = 0, con_data_lines = 0, con_data_body = False, con_stutter = 0, con_bad_cmd = 0,
      con_seen_cr = False\<rparr>"

definition Con_init :: "con_env \<Rightarrow> int \<Rightarrow> sockaddr \<Rightarrow> int \<Rightarrow> Greyd_state \<Rightarrow> (Con \<times> Greyd_state) option" where
  "Con_init E fd src now st =
     (let con0 = (Con_grow_out_buf zero_con)\<lparr>con_blacklists := Some List_create, con_fd := fd\<rparr> in
      do { enable \<leftarrow> Config_get_int (gs_config st) ''enable'' (Some ''grey'') 1;
           gstutter \<leftarrow> Config_get_int (gs_config st) ''stutter'' (Some ''grey'') CON_GREY_STUTTER;
           stutter \<leftarrow> Config_get_int (gs_config st) ''stutter'' None CON_STUTTER;
           addr \<leftarrow> ce_getnameinfo E src;
           let greylist = (sint (word_of_int enable :: 16 word) \<noteq> 0);
               con1 = con0\<lparr>con_stutter := (if greylist \<and> sint (word_of_int gstutter :: 16 word) = 0 then 0 else stutter),
                           con_src := src, con_src_addr := addr, con_r_end_chars := [CHR 0x0A]\<rparr> in
           do { bls \<leftarrow> (case Hash_keys (gs_blacklists st) of
                          None \<Rightarrow> Some List_create
                        | Some names \<Rightarrow> client_lists E st src (list_head names) List_create);
                let con2 = con1\<lparr>con_blacklists := Some bls\<rparr>; st1 = st\<lparr>gs_clients := gs_clients st + 1\<rparr>;
                    black = Con_black con2;
                    st2 = (if black then st1\<lparr>gs_black_clients := gs_black_clients st1 + 1\<rparr> else st1) in
                do { ls \<leftarrow> (if black then Con_summarize_lists con2 else Some None);
                     let con3 = con2\<lparr>con_lists := ls,
                                     con_stutter := (if black \<and> greylist \<and> gs_black_clients st2 > gs_max_black st2 then 0
                                                     else con_stutter con2),
                                     con_out_p := 0, con_out_remaining := 0, con_in_p := 0, con_in_remaining := 0,
                                     con_state := (if gs_proxy_protocol_enabled st then CON_STATE_PROXY_IN else CON_STATE_BANNER_IN),
                                     con_s := now\<rparr> in
                     Con_next_state E con3 now st2 } } })"

text \<open>
  \<open>Con_handle_read\<close>; \<open>input\<close> is what \<open>read\<close> returns: \<open>None\<close> for an error, otherwise at most
  \<open>in_remaining\<close> characters, and none at the end of the stream.
\<close>

definition trim_eol :: "char list \<Rightarrow> nat \<Rightarrow> nat" where
  "trim_eol buf p = length (rev (dropWhile (\<lambda>c. c = CHR 0x0D \<or> c = CHR 0x0A) (rev (take p buf))))"

definition Con_handle_read :: "con_env \<Rightarrow> Con \<Rightarrow> int \<Rightarrow> Greyd_state \<Rightarrow> string option \<Rightarrow> (Con \<times> Greyd_state) option" where
  "Con_handle_read E con now st input =
     do { (con1, st1, ended) \<leftarrow>
            (if con_r con \<noteq> 0
             then (case input of
                     None \<Rightarrow> (let (c, s) = Con_close con st in Some (c, s, False))
                   | Some [] \<Rightarrow> (let (c, s) = Con_close con st in Some (c, s, False))
                   | Some cs \<Rightarrow>
                       do { buf \<leftarrow> buf_write (con_in_buf con) (con_in_p con) (cs @ [NUL]);
                            let e = (con_r_end_chars con \<noteq> [] \<and> (\<exists>c\<in>set (c_str (drop (con_in_p con) buf)). c \<in> set (con_r_end_chars con))) in
                            Some (con\<lparr>con_in_buf := buf, con_in_p := con_in_p con + length cs,
                                      con_in_remaining := con_in_remaining con - int (length cs)\<rparr>, st, e) })
             else Some (con, st, False));
          if ended \<or> con_in_remaining con1 = 0
          then (let p = trim_eol (con_in_buf con1) (con_in_p con1) in
                do { buf \<leftarrow> buf_write (con_in_buf con1) p [NUL];
                     Con_next_state E (con1\<lparr>con_in_p := p, con_in_buf := buf, con_r := 0\<rparr>) now st1 })
          else Some (con1, st1) }"

text \<open>
  \<open>Con_handle_write\<close>; \<open>cr\<close> is the result of writing a carriage return, \<open>nwritten\<close> maps the number of
  characters to be written to the number that \<open>write\<close> accepts, or -1.
\<close>

definition Con_handle_write :: "con_env \<Rightarrow> Con \<Rightarrow> int \<Rightarrow> Greyd_state \<Rightarrow> int \<Rightarrow> (int \<Rightarrow> int) \<Rightarrow> (Con \<times> Greyd_state) option" where
  "Con_handle_write E con now st cr nwritten =
     do { enable \<leftarrow> Config_get_int (gs_config st) ''enable'' (Some ''grey'') 1;
          gstutter \<leftarrow> Config_get_int (gs_config st) ''stutter'' (Some ''grey'') CON_GREY_STUTTER;
          let con0 = (if con_stutter con \<noteq> 0 \<and> enable \<noteq> 0 \<and> \<not> Con_black con \<and> now - con_s con > gstutter
                      then con\<lparr>con_stutter := 0\<rparr> else con) in
          do { (con1, st1) \<leftarrow>
                 (if con_w con0 \<noteq> 0
                  then do { buf \<leftarrow> con_out_buf con0;
                            c \<leftarrow> nth_opt buf (con_out_p con0);
                            if c = CHR 0x0A \<and> \<not> con_seen_cr con0 \<and> cr \<le> 0
                            then Some (Con_close con0 st)
                            else (let con2 = con0\<lparr>con_seen_cr := (c = CHR 0x0D)\<rparr>;
                                      within_max = (gs_clients st + CON_CLIENT_TOLERENCE < gs_max_cons st);
                                      n = nwritten (if within_max \<and> con_stutter con2 \<noteq> 0 then 1 else con_out_remaining con2)
                                  in Some (if n \<le> 0 then Con_close con2 st
                                           else (con2\<lparr>con_out_p := con_out_p con2 + nat n, con_out_remaining := con_out_remaining con2 - n\<rparr>, st))) }
                  else Some (con0, st));
               let con3 = con1\<lparr>con_w := now + con_stutter con1\<rparr> in
               if con_out_remaining con3 = 0 then Con_next_state E (con3\<lparr>con_w := 0\<rparr>) now st1 else Some (con3, st1) } }"

text \<open>\<open>Con_accept\<close>: what \<open>accept\<close> returned, with the error when it failed.\<close>

datatype accept_error = Acc_interrupted | Acc_no_files | Acc_other

definition Con_accept :: "con_env \<Rightarrow> int \<Rightarrow> accept_error \<Rightarrow> sockaddr \<Rightarrow> int \<Rightarrow> Greyd_state \<Rightarrow> Greyd_state option" where
  "Con_accept E fd err addr now st =
     (if fd = - 1
      then (case err of
              Acc_interrupted \<Rightarrow> Some st
            | Acc_no_files \<Rightarrow> Some (st\<lparr>gs_slow_until := now + 1\<rparr>)
            | Acc_other \<Rightarrow> None)
      else (let i = length (takeWhile (\<lambda>c. con_fd c \<noteq> - 1) (take (nat (gs_max_cons st)) (gs_cons st)))
            in if int i = gs_max_cons st then Some (st\<lparr>gs_slow_until := 0\<rparr>)
               else do { (con, st1) \<leftarrow> Con_init E fd addr now st;
                         Some (st1\<lparr>gs_cons := (gs_cons st1)[i := con]\<rparr>) }))"

end
