(* ===== verification/Con_Reply.thy ===== *)
theory Con_Reply
  imports Connection
begin

text \<open>
  The rejection that a blacklisted client is sent. \<open>Con_append_error_string\<close> expands the escapes of one
  message into the output buffer and turns each line into a line of a multi-line SMTP reply, going
  back to change the separator of a line when another one follows; \<open>Con_build_reply\<close> does so for
  every list that holds the client. Here the two are shown to print, for messages that fit the
  buffer, the reference form \<open>smtp_lines\<close> of the expanded text.
\<close>

section \<open>The reference\<close>

text \<open>What a character of a message contributes, and the character that is saved after it.\<close>

definition fmt_step :: "string \<Rightarrow> char \<Rightarrow> char \<Rightarrow> string \<times> char" where
  "fmt_step addr saved c =
     (if c = CHR 0x5c \<or> c = CHR ''%'' then if saved = NUL then ([], c) else ([saved], NUL)
      else if c = CHR ''n'' \<and> saved = CHR 0x5c then ([CHR 0x0A], NUL)
      else if c = CHR ''A'' \<and> saved = CHR ''%'' then (addr, NUL)
      else if saved \<noteq> NUL then ([saved, c], NUL) else ([c], NUL))"

fun expand :: "string \<Rightarrow> char \<Rightarrow> string \<Rightarrow> string" where
  "expand addr saved [] = []"
| "expand addr saved (c # cs) = fst (fmt_step addr saved c) @ expand addr (snd (fmt_step addr saved c)) cs"

text \<open>Every escape is completed.\<close>

fun balanced :: "char \<Rightarrow> string \<Rightarrow> bool" where
  "balanced saved [] = (saved = NUL)"
| "balanced saved (c # cs) = balanced (snd (fmt_step [] saved c)) cs"

lemma fmt_step_saved: "snd (fmt_step addr saved c) = snd (fmt_step [] saved c)"
  by (simp add: fmt_step_def)

text \<open>The multi-line reply with a text: a dash after the code on every line but the last.\<close>

function smtp_lines :: "string \<Rightarrow> string \<Rightarrow> string" where
  "smtp_lines code t =
     (let l = takeWhile (\<lambda>c. c \<noteq> CHR 0x0A) t; rest = drop (length l + 1) t
      in if rest = [] then code @ '' '' @ l @ [CHR 0x0A] else code @ ''-'' @ l @ [CHR 0x0A] @ smtp_lines code rest)"
  by pat_completeness auto
termination by (relation "measure (\<lambda>(code, t). length t)") auto

declare smtp_lines.simps [simp del]

definition end_line :: "string \<Rightarrow> string" where
  "end_line s = (if s \<noteq> [] \<and> last s = CHR 0x0A then s else s @ [CHR 0x0A])"

definition reply_text :: "string \<Rightarrow> string list \<Rightarrow> string" where
  "reply_text addr msgs = concat (map (\<lambda>m. end_line (expand addr NUL m)) msgs)"

section \<open>Lines under construction\<close>

text \<open>Finished lines, the line in progress, and whether its end has been written.\<close>

type_synonym lines = "string list \<times> string \<times> bool"

definition open_line :: "lines \<Rightarrow> lines" where
  "open_line = (\<lambda>(ls, l, closed). if closed then (ls @ [l], [], False) else (ls, l, False))"

definition add_char :: "lines \<Rightarrow> char \<Rightarrow> lines" where
  "add_char st c = (case open_line st of (ls, l, _) \<Rightarrow> if c = CHR 0x0A then (ls, l, True) else (ls, l @ [c], False))"

definition done_lines :: "string \<Rightarrow> string list \<Rightarrow> string" where
  "done_lines code ls = concat (map (\<lambda>l. code @ ''-'' @ l @ [CHR 0x0A]) ls)"

definition lines_text :: "string \<Rightarrow> lines \<Rightarrow> string" where
  "lines_text code = (\<lambda>(ls, l, closed). done_lines code ls @ code @ '' '' @ l @ (if closed then [CHR 0x0A] else []))"

definition lines_cont :: "string \<Rightarrow> lines \<Rightarrow> nat" where
  "lines_cont code = (\<lambda>(ls, l, closed). length (done_lines code ls) + length code)"

lemma add_char_open [simp]: "add_char (open_line st) c = add_char st c"
  by (cases st) (simp add: add_char_def open_line_def)

lemma add_text_open: "t \<noteq> [] \<Longrightarrow> foldl add_char (open_line st) t = foldl add_char st t"
  by (cases t) simp_all

lemma smtp_lines_add:
  assumes "t \<noteq> []" and "last t = CHR 0x0A" and "CHR 0x0A \<notin> set l"
  shows "lines_text code (foldl add_char (ls, l, False) t) = done_lines code ls @ smtp_lines code (l @ t)"
  using assms
proof (induction t arbitrary: ls l)
  case (Cons c t)
  have add_nl: "add_char (ls, l, False) (CHR 0x0A) = (ls, l, True)" by (simp add: add_char_def open_line_def)
  have tw: "takeWhile (\<lambda>c. c \<noteq> CHR 0x0A) (l @ CHR 0x0A # t) = l" using Cons(4) by (simp add: takeWhile_append)
  show ?case
  proof (cases "c = CHR 0x0A")
    case True
    show ?thesis
    proof (cases "t = []")
      case nil: True
      then show ?thesis using True tw
        by (simp add: lines_text_def add_char_def open_line_def) (subst smtp_lines.simps, simp)
    next
      case False
      have "foldl add_char (ls, l, True) t = foldl add_char (open_line (ls, l, True)) t" using add_text_open [OF False] by metis
      moreover have "foldl add_char (open_line (ls, l, True)) t = foldl add_char (ls @ [l], [], False) t" by (simp add: open_line_def)
      moreover have "foldl add_char (ls, l, True) t = foldl add_char (ls, l, False) (c # t)" using True add_nl by simp
      ultimately have "lines_text code (foldl add_char (ls, l, False) (c # t)) = done_lines code (ls @ [l]) @ smtp_lines code t"
        using Cons.IH [OF False, of "[]" "ls @ [l]"] Cons(3) False by simp
      moreover have "smtp_lines code (l @ CHR 0x0A # t) = code @ ''-'' @ l @ [CHR 0x0A] @ smtp_lines code t"
        using tw False by (subst smtp_lines.simps) simp
      ultimately show ?thesis using True by (simp add: done_lines_def)
    qed
  next
    case False
    then have "t \<noteq> []" using Cons(3) by auto
    then have "lines_text code (foldl add_char (ls, l @ [c], False) t) = done_lines code ls @ smtp_lines code ((l @ [c]) @ t)"
      using Cons.IH [of "l @ [c]" ls] Cons(3,4) False by simp
    moreover have "add_char (ls, l, False) c = (ls, l @ [c], False)" using False by (simp add: add_char_def open_line_def)
    ultimately show ?thesis by simp
  qed
qed simp

text \<open>An escape sequence writes at most one line end, as its last character.\<close>

definition add_piece :: "lines \<Rightarrow> string \<Rightarrow> lines" where
  "add_piece st e = foldl add_char (open_line st) e"

fun fmt_lines :: "string \<Rightarrow> char \<Rightarrow> string \<Rightarrow> lines \<Rightarrow> lines" where
  "fmt_lines addr saved [] st = st"
| "fmt_lines addr saved (c # cs) st = fmt_lines addr (snd (fmt_step addr saved c)) cs (add_piece st (fst (fmt_step addr saved c)))"

lemma expand_nonempty: "balanced saved cs \<Longrightarrow> cs \<noteq> [] \<Longrightarrow> addr \<noteq> [] \<Longrightarrow> expand addr saved cs \<noteq> []"
proof (induction cs arbitrary: saved)
  case (Cons c cs)
  show ?case
  proof (cases "fst (fmt_step addr saved c) = []")
    case True
    then have "snd (fmt_step addr saved c) = c \<and> c \<noteq> NUL" using Cons(4) by (auto simp: fmt_step_def NUL_def split: if_splits)
    moreover have "balanced (snd (fmt_step addr saved c)) cs" using Cons(2) fmt_step_saved [of addr saved c] by simp
    ultimately have "cs \<noteq> []" "expand addr (snd (fmt_step addr saved c)) cs \<noteq> []"
      using Cons.IH [of "snd (fmt_step addr saved c)"] Cons(4) by (cases cs; simp)+
    then show ?thesis by simp
  qed simp
qed simp

lemma fmt_lines_expand:
  "balanced saved cs \<Longrightarrow> addr \<noteq> [] \<Longrightarrow> fmt_lines addr saved cs st = foldl add_char st (expand addr saved cs)"
proof (induction cs arbitrary: saved st)
  case (Cons c cs)
  let ?e = "fst (fmt_step addr saved c)" and ?s = "snd (fmt_step addr saved c)"
  have b: "balanced ?s cs" using Cons(2) fmt_step_saved [of addr saved c] by simp
  have IH: "fmt_lines addr saved (c # cs) st = foldl add_char (add_piece st ?e) (expand addr ?s cs)"
    using Cons.IH [OF b Cons(3)] by simp
  show ?case
  proof (cases "?e = []")
    case True
    then have "?s \<noteq> NUL" using Cons(3) by (auto simp: fmt_step_def NUL_def split: if_splits)
    then have "cs \<noteq> []" using b by auto
    then have "expand addr ?s cs \<noteq> []" using expand_nonempty [OF b _ Cons(3)] by simp
    then show ?thesis using IH True add_text_open by (simp add: add_piece_def)
  next
    case False
    then show ?thesis using IH add_text_open [OF False] by (simp add: add_piece_def)
  qed
qed simp

section \<open>The buffer holds the lines\<close>

text \<open>A buffer of \<open>n\<close> characters that holds a text and its terminator.\<close>

definition buf_holds :: "nat \<Rightarrow> char list \<Rightarrow> string \<Rightarrow> bool" where
  "buf_holds n buf t \<longleftrightarrow> length buf = n \<and> (\<exists>rest. buf = t @ NUL # rest)"

lemma buf_holds_c_str: "buf_holds n buf t \<Longrightarrow> NUL \<notin> set t \<Longrightarrow> c_str buf = t"
  by (auto simp: buf_holds_def)

lemma buf_holds_last: "buf_holds n buf t \<Longrightarrow> t \<noteq> [] \<Longrightarrow> nth_opt buf (length t - 1) = Some (last t)"
  by (auto simp: buf_holds_def nth_opt_def nth_append last_conv_nth)

lemma buf_holds_write:
  assumes "buf_holds n buf t" and "length t + length e < n"
  shows "\<exists>b. buf_write buf (length t) (e @ [NUL]) = Some b \<and> buf_holds n b (t @ e)"
  using assms by (auto simp: buf_holds_def buf_write_def)

lemma buf_holds_pad:
  assumes "buf_holds n buf t" and "length t + k \<le> n" and "length e < k" and "NUL \<notin> set e"
  shows "\<exists>b b'. buf_write buf (length t) (take k (e @ replicate k NUL)) = Some b \<and> length (c_str (drop (length t) b)) = length e \<and>
    buf_write b (length t + length e) [NUL] = Some b' \<and> buf_holds n b' (t @ e)"
proof -
  have tk: "take k (e @ replicate k NUL) = e @ NUL # replicate (k - length e - 1) NUL"
    using assms(3) by (simp add: min_def Suc_diff_Suc replicate_Suc [symmetric] del: replicate_Suc)
  obtain rest where buf: "buf = t @ NUL # rest" "length buf = n" using assms(1) by (auto simp: buf_holds_def)
  let ?b = "t @ (e @ NUL # replicate (k - length e - 1) NUL) @ drop k (NUL # rest)"
  have "length (e @ NUL # replicate (k - length e - 1) NUL) = k" using assms(3) by simp
  then have w: "buf_write buf (length t) (take k (e @ replicate k NUL)) = Some ?b"
    using buf assms(2) unfolding tk by (simp add: buf_write_def)
  moreover have "c_str (drop (length t) ?b) = e" using assms(4) by simp
  moreover have "buf_write ?b (length t + length e) [NUL] = Some ?b" using buf assms(2,3) by (simp add: buf_write_def)
  moreover have "buf_holds n ?b (t @ e)" using buf assms(2,3) by (simp add: buf_holds_def)
  ultimately show ?thesis by (intro exI [of _ ?b]) simp
qed

lemma format_char_ok:
  assumes "buf_holds n buf t" and "off + appended = length t" and "length t + INET6_ADDRSTRLEN \<le> n"
    and "NUL \<notin> set (con_src_addr con)" and "length (con_src_addr con) < INET6_ADDRSTRLEN"
  shows "\<exists>b. format_char con buf off appended saved c =
      Some (b, appended + length (fst (fmt_step (con_src_addr con) saved c)), snd (fmt_step (con_src_addr con) saved c)) \<and>
    buf_holds n b (t @ fst (fmt_step (con_src_addr con) saved c))"
proof -
  have n: "length t + 3 < n" using assms(3) by (simp add: INET6_ADDRSTRLEN_def)
  note w = buf_holds_write [OF assms(1)]
  obtain b1 where b1: "buf_write buf (length t) [saved, NUL] = Some b1" "buf_holds n b1 (t @ [saved])" using w [of "[saved]"] n by auto
  obtain b2 where b2: "buf_write buf (length t) [CHR 0x0A, NUL] = Some b2" "buf_holds n b2 (t @ [CHR 0x0A])" using w [of "[CHR 0x0A]"] n by auto
  obtain b3 where b3: "buf_write buf (length t) [saved, c, NUL] = Some b3" "buf_holds n b3 (t @ [saved, c])" using w [of "[saved, c]"] n by auto
  obtain b4 where b4: "buf_write buf (length t) [c, NUL] = Some b4" "buf_holds n b4 (t @ [c])" using w [of "[c]"] n by auto
  obtain b b5 where b5: "buf_write buf (length t) (take INET6_ADDRSTRLEN (con_src_addr con @ replicate INET6_ADDRSTRLEN NUL)) = Some b"
      "length (c_str (drop (length t) b)) = length (con_src_addr con)"
      "buf_write b (length t + length (con_src_addr con)) [NUL] = Some b5" "buf_holds n b5 (t @ con_src_addr con)"
    using buf_holds_pad [OF assms(1,3,5,4)] by blast
  show ?thesis
    using b1 b2 b3 b4 b5 assms(1,2) by (simp add: format_char_def fmt_step_def Let_def)
qed

text \<open>The loop, while there is room.\<close>

definition addr_ok :: "string \<Rightarrow> bool" where
  "addr_ok addr \<longleftrightarrow> addr \<noteq> [] \<and> NUL \<notin> set addr \<and> CHR 0x0A \<notin> set addr \<and> length addr < INET6_ADDRSTRLEN"

definition code_ok :: "string \<Rightarrow> bool" where
  "code_ok code \<longleftrightarrow> code \<noteq> [] \<and> NUL \<notin> set code \<and> CHR 0x0A \<notin> set code"

fun lines_ok :: "lines \<Rightarrow> bool" where
  "lines_ok (ls, l, closed) \<longleftrightarrow> CHR 0x0A \<notin> set l \<and> NUL \<notin> set l \<and> (\<forall>x\<in>set ls. NUL \<notin> set x)"

lemma lines_text_nonempty [simp]: "lines_text code st \<noteq> []"
  by (cases st) (simp add: lines_text_def)

lemma lines_text_last: "lines_ok st \<Longrightarrow> last (lines_text code st) = CHR 0x0A \<longleftrightarrow> snd (snd st)"
  by (cases st) (auto simp: lines_text_def last_append dest: last_in_set)

lemma lines_text_NUL: "lines_ok st \<Longrightarrow> code_ok code \<Longrightarrow> NUL \<notin> set (lines_text code st)"
  by (cases st) (auto simp: lines_text_def done_lines_def code_ok_def NUL_def)

text \<open>Opening a line turns the blank after the last code into a dash and writes the code again.\<close>

lemma open_line_text:
  assumes "buf_holds n buf (lines_text code (ls, l, True))" and "length (lines_text code (ls, l, True)) + length code + 1 < n"
    and "NUL \<notin> set code" and "length code + 2 \<le> len"
  shows "\<exists>b b'. buf_write buf (lines_cont code (ls, l, True)) [CHR ''-''] = Some b \<and>
    snprintf_at b (length (lines_text code (ls, l, True))) len (code @ '' '') = Some b' \<and>
    length (c_str (drop (length (lines_text code (ls, l, True))) b')) = length code + 1 \<and>
    buf_holds n b' (lines_text code (ls @ [l], [], False))"
proof -
  let ?t = "lines_text code (ls, l, True)"
  obtain rest where buf: "buf = ?t @ NUL # rest" "length buf = n" using assms(1) by (auto simp: buf_holds_def)
  let ?u = "done_lines code (ls @ [l])"
  have u: "?u = done_lines code ls @ code @ ''-'' @ l @ [CHR 0x0A]" by (simp add: done_lines_def)
  have lu: "length ?u = length ?t" unfolding u by (simp add: lines_text_def)
  have "buf_write buf (lines_cont code (ls, l, True)) [CHR ''-''] = Some (?u @ NUL # rest)"
    using buf unfolding u by (simp add: buf_write_def lines_text_def lines_cont_def)
  moreover have h: "buf_holds n (?u @ NUL # rest) ?u" using buf lu by (simp add: buf_holds_def)
  obtain b' where b': "buf_write (?u @ NUL # rest) (length ?u) ((code @ '' '') @ [NUL]) = Some b'" "buf_holds n b' (?u @ code @ '' '')"
    using buf_holds_write [OF h, of "code @ '' ''"] assms(2) lu by auto
  have "snprintf_at (?u @ NUL # rest) (length ?t) len (code @ '' '') = Some b'"
    using b'(1) assms(4) lu by (simp add: snprintf_at_def)
  moreover obtain rest' where "b' = (?u @ code @ '' '') @ NUL # rest'" using b'(2) by (auto simp: buf_holds_def)
  then have "drop (length ?t) b' = (code @ '' '') @ NUL # rest'" using lu by simp
  then have "c_str (drop (length ?t) b') = code @ '' ''" using assms(3) c_str_append_NUL [of "code @ '' ''" rest'] by (simp add: NUL_def)
  moreover have "lines_text code (ls @ [l], [], False) = ?u @ code @ '' ''" by (simp add: lines_text_def)
  ultimately show ?thesis using b'(2) by auto
qed

lemma piece_text:
  assumes "CHR 0x0A \<notin> set (butlast e)" and "lines_ok (ls, l, False)" and "NUL \<notin> set e"
  shows "lines_text code (foldl add_char (ls, l, False) e) = lines_text code (ls, l, False) @ e \<and>
    lines_cont code (foldl add_char (ls, l, False) e) = lines_cont code (ls, l, False) \<and> lines_ok (foldl add_char (ls, l, False) e)"
  using assms
proof (induction e arbitrary: l)
  case (Cons c e)
  show ?case
  proof (cases "c = CHR 0x0A")
    case True
    then have "e = []" using Cons(2) by (cases e) auto
    then show ?thesis using True Cons(3) by (simp add: add_char_def open_line_def lines_text_def lines_cont_def)
  next
    case False
    have "CHR 0x0A \<notin> set (butlast e)" using Cons(2) by (cases e) auto
    moreover have "add_char (ls, l, False) c = (ls, l @ [c], False)" using False by (simp add: add_char_def open_line_def)
    ultimately show ?thesis using Cons.IH [of "l @ [c]"] Cons(3,4) False by (simp add: lines_text_def lines_cont_def)
  qed
qed simp

definition saved_ok :: "char \<Rightarrow> bool" where
  "saved_ok s \<longleftrightarrow> s = NUL \<or> s = CHR 0x5c \<or> s = CHR ''%''"

lemma fmt_step_ok:
  assumes "addr_ok addr" and "saved_ok saved" and "c \<noteq> NUL"
  shows "CHR 0x0A \<notin> set (butlast (fst (fmt_step addr saved c)))" and "NUL \<notin> set (fst (fmt_step addr saved c))"
    and "saved_ok (snd (fmt_step addr saved c))"
  using assms by (auto simp: addr_ok_def saved_ok_def fmt_step_def NUL_def dest: in_set_butlastD)

lemma open_line_ok: "lines_ok st \<Longrightarrow> lines_ok (open_line st)"
  by (cases st) (auto simp: open_line_def)

lemma open_line_length: "length (lines_text code st) \<le> length (lines_text code (open_line st))"
  by (cases st) (auto simp: open_line_def lines_text_def done_lines_def)

lemma piece_length:
  assumes "CHR 0x0A \<notin> set (butlast e)" and "lines_ok st" and "NUL \<notin> set e"
  shows "lines_text code (add_piece st e) = lines_text code (open_line st) @ e" and "lines_ok (add_piece st e)"
    and "lines_cont code (add_piece st e) = lines_cont code (open_line st)"
proof -
  obtain ls0 l0 c where st: "st = (ls0, l0, c)" by (cases st) auto
  obtain ls l where o: "open_line st = (ls, l, False)" unfolding st by (cases c) (auto simp: open_line_def)
  then have "lines_ok (ls, l, False)" using open_line_ok [OF assms(2)] by simp
  from piece_text [OF assms(1) this assms(3)] o show "lines_text code (add_piece st e) = lines_text code (open_line st) @ e"
      "lines_ok (add_piece st e)" "lines_cont code (add_piece st e) = lines_cont code (open_line st)"
    by (simp_all add: add_piece_def)
qed

lemma fmt_lines_grows:
  "addr_ok addr \<Longrightarrow> saved_ok saved \<Longrightarrow> NUL \<notin> set cs \<Longrightarrow> lines_ok st \<Longrightarrow>
   length (lines_text code st) \<le> length (lines_text code (fmt_lines addr saved cs st)) \<and> lines_ok (fmt_lines addr saved cs st)"
proof (induction cs arbitrary: saved st)
  case (Cons c cs)
  have c: "c \<noteq> NUL" "NUL \<notin> set cs" using Cons(4) by auto
  note e = fmt_step_ok [OF Cons(2,3) c(1)]
  note p = piece_length [OF e(1) Cons(5) e(2)]
  have "length (lines_text code st) \<le> length (lines_text code (add_piece st (fst (fmt_step addr saved c))))"
    using p(1) open_line_length [of code st] by simp
  then show ?case using Cons.IH [OF Cons(2) e(3) c(2) p(2)] by simp
qed simp

lemma append_loop_ok:
  assumes "addr_ok (con_src_addr con)" and "code_ok code" and "con_out_buf con = Some buf" and "buf_holds n buf (lines_text code st)"
    and "off + appended = length (lines_text code st)" and "1 \<le> appended" and "n < 2 ^ 63" and "lines_ok st" and "NUL \<notin> set fmt" and "saved_ok saved"
    and "length (lines_text code (fmt_lines (con_src_addr con) saved fmt st)) + INET6_ADDRSTRLEN + length code + 2 < n"
  shows "\<exists>b a. append_loop code off fmt saved (n - off) appended (lines_cont code st) con =
      Some (a, lines_cont code (fmt_lines (con_src_addr con) saved fmt st), con\<lparr>con_out_buf := Some b\<rparr>) \<and>
    buf_holds n b (lines_text code (fmt_lines (con_src_addr con) saved fmt st)) \<and> 1 \<le> a \<and>
    off + a = length (lines_text code (fmt_lines (con_src_addr con) saved fmt st))"
  using assms
proof (induction fmt arbitrary: saved st appended con buf)
  case Nil
  then show ?case by (intro exI [of _ buf]) simp
next
  case (Cons c cs)
  let ?a = "con_src_addr con"
  let ?e = "fst (fmt_step ?a saved c)" and ?s = "snd (fmt_step ?a saved c)"
  have c: "c \<noteq> NUL" "NUL \<notin> set cs" using Cons(10) by auto
  note e = fmt_step_ok [OF Cons(2,11) c(1)]
  note p = piece_length [OF e(1) Cons(9) e(2)]
  let ?st = "add_piece st ?e"
  have grow: "length (lines_text code ?st) \<le> length (lines_text code (fmt_lines ?a ?s cs ?st))"
    using fmt_lines_grows [OF Cons(2) e(3) c(2) p(2)] by blast
  have room: "length (lines_text code (open_line st)) + length ?e + INET6_ADDRSTRLEN + length code + 2 < n"
    using Cons(12) grow p(1) by simp
  have room0: "length (lines_text code st) + INET6_ADDRSTRLEN + length code + 2 < n"
    using room open_line_length [of code st] by simp
  have k: "INET6_ADDRSTRLEN + (length code + 1) + 1 \<le> n - off" "n - off < 2 ^ 63" using Cons(6,8) room0 by auto
  have us: "usub (n - off) (INET6_ADDRSTRLEN + (length code + 1) + 1) = n - off - (INET6_ADDRSTRLEN + (length code + 1) + 1)"
    using k by (simp add: usub_def mod_if)
  have nf: "\<not> appended \<ge> usub (n - off) (INET6_ADDRSTRLEN + (length code + 1) + 1)"
    using us Cons(6) room0 by simp
  have prev: "nth_opt buf (off + appended - 1) = Some (last (lines_text code st))"
    using buf_holds_last [OF Cons(5)] Cons(6) by simp
  have addr: "NUL \<notin> set ?a" "length ?a < INET6_ADDRSTRLEN" using Cons(2) by (simp_all add: addr_ok_def)
  obtain b0 a0 where b0: "(if last (lines_text code st) = CHR 0x0A
      then do { b \<leftarrow> (if lines_cont code st \<noteq> 0 then buf_write buf (lines_cont code st) [CHR ''-''] else Some buf);
                b' \<leftarrow> snprintf_at b (off + appended) (n - off) (code @ '' '');
                let m = length (c_str (drop (off + appended) b')) in Some (b', appended + m, off + appended + m - 1) }
      else Some (buf, appended, lines_cont code st)) = Some (b0, a0, lines_cont code (open_line st))"
      "buf_holds n b0 (lines_text code (open_line st))" "off + a0 = length (lines_text code (open_line st))"
  proof (cases "snd (snd st)")
    case True
    then obtain ls l where st: "st = (ls, l, True)" by (cases st) auto
    have o: "open_line st = (ls @ [l], [], False)" using st by (simp add: open_line_def)
    have cont: "lines_cont code st \<noteq> 0" using st Cons(3) by (simp add: lines_cont_def code_ok_def)
    have len: "length (lines_text code st) + length code + 1 < n" using room0 by simp
    obtain b b' where b: "buf_write buf (lines_cont code st) [CHR ''-''] = Some b"
        "snprintf_at b (length (lines_text code st)) (n - off) (code @ '' '') = Some b'"
        "length (c_str (drop (length (lines_text code st)) b')) = length code + 1"
        "buf_holds n b' (lines_text code (open_line st))"
      using open_line_text [of n buf code ls l "n - off"] Cons(3,5) st len k(1) o by (auto simp: code_ok_def)
    have lo: "length (lines_text code (open_line st)) = length (lines_text code st) + length code + 1"
      using st o by (simp add: lines_text_def done_lines_def)
    have lc: "lines_cont code (open_line st) = length (lines_text code st) + length code"
      using st o by (simp add: lines_cont_def lines_text_def done_lines_def)
    show ?thesis
      using that [of b' "appended + (length code + 1)"] b cont lines_text_last [OF Cons(9), of code] True Cons(6) lo lc by simp
  next
    case False
    then have "open_line st = st" by (cases st) (simp add: open_line_def)
    then show ?thesis using that [of buf appended] False lines_text_last [OF Cons(9), of code] Cons(5,6) by simp
  qed
  have room1: "length (lines_text code (open_line st)) + INET6_ADDRSTRLEN \<le> n" using room by simp
  obtain b1 where b1: "format_char con b0 off a0 saved c = Some (b1, a0 + length ?e, ?s)" "buf_holds n b1 (lines_text code (open_line st) @ ?e)"
    using format_char_ok [OF b0(2,3) room1 addr, of saved c] by blast
  let ?con = "con\<lparr>con_out_buf := Some b1\<rparr>"
  have step: "append_loop code off (c # cs) saved (n - off) appended (lines_cont code st) con =
      append_loop code off cs ?s (n - off) (a0 + length ?e) (lines_cont code ?st) ?con"
    unfolding append_loop.simps(2) Let_def if_not_P [OF nf] Cons(4) Option.bind.simps prev b0(1) [unfolded Let_def] prod.case b1(1) p(3)
    by (rule refl)
  have "a0 \<ge> 1" using b0(3) Cons(6,7) open_line_length [of code st] by linarith
  have "\<exists>b a. append_loop code off cs ?s (n - off) (a0 + length ?e) (lines_cont code ?st) ?con =
      Some (a, lines_cont code (fmt_lines (con_src_addr ?con) ?s cs ?st), ?con\<lparr>con_out_buf := Some b\<rparr>) \<and>
    buf_holds n b (lines_text code (fmt_lines (con_src_addr ?con) ?s cs ?st)) \<and> 1 \<le> a \<and>
    off + a = length (lines_text code (fmt_lines (con_src_addr ?con) ?s cs ?st))"
    by (rule Cons.IH) (use Cons(2,3,8,12) b1(2) p(1,2) b0(3) \<open>a0 \<ge> 1\<close> c(2) e(3) in simp_all)
  then show ?case using step by simp
qed

section \<open>One message and all messages\<close>

definition at_end :: "nat \<Rightarrow> char list \<Rightarrow> string \<Rightarrow> lines \<Rightarrow> nat \<Rightarrow> nat \<Rightarrow> bool" where
  "at_end n buf code st off cont \<longleftrightarrow>
     length buf = n \<and>
     (off = 0 \<and> st = ([], [], False) \<or>
      buf_holds n buf (lines_text code st) \<and> off = length (lines_text code st) \<and> cont = lines_cont code st \<and> snd (snd st) \<and> lines_ok st)"

lemma start_message:
  assumes "at_end n buf code st off cont" and "code_ok code" and "n < 2 ^ 63"
    and "length (lines_text code (open_line st)) + INET6_ADDRSTRLEN + length code + 2 < n" and "con_out_buf con = Some buf"
  shows "\<exists>b. Con_append_error_string con off fmt code cont =
      append_loop code off fmt NUL (n - off) (length code + 1) (lines_cont code (open_line st)) (con\<lparr>con_out_buf := Some b\<rparr>) \<and>
    buf_holds n b (lines_text code (open_line st)) \<and> off + (length code + 1) = length (lines_text code (open_line st)) \<and> lines_ok (open_line st)"
proof -
  have sz: "con_out_size con = n" using assms(1,5) by (auto simp: at_end_def con_out_size_def)
  show ?thesis
  proof (cases "off = 0")
    case True
    have ln: "length (lines_text code st) \<noteq> 0" for st by simp
    then have st: "st = ([], [], False)" using assms(1) True unfolding at_end_def by force
    then have o: "open_line st = ([], [], False)" "lines_text code (open_line st) = code @ '' ''" "lines_cont code (open_line st) = length code"
      by (simp_all add: open_line_def lines_text_def done_lines_def lines_cont_def)
    have n: "length code + 2 < n" using assms(4) o(2) by simp
    then have "\<exists>b. snprintf_at buf 0 n (code @ '' '') = Some b \<and> buf_holds n b (code @ '' '')"
      using assms(1) by (auto simp: snprintf_at_def buf_write_def buf_holds_def at_end_def)
    then obtain b where b: "snprintf_at buf 0 n (code @ '' '') = Some b" "buf_holds n b (code @ '' '')" by blast
    have c: "c_str b = code @ '' ''" using buf_holds_c_str [OF b(2)] assms(2) by (simp add: code_ok_def NUL_def)
    have "usub n 0 = n" using assms(3) by (simp add: usub_def)
    then show ?thesis
      using True b c o n assms(5) sz
      by (auto simp: Con_append_error_string_def Let_def con_out_size_def)
  next
    case False
    then obtain ls l where st: "st = (ls, l, True)" and h: "buf_holds n buf (lines_text code st)" "off = length (lines_text code st)"
        "cont = lines_cont code st" "lines_ok st"
      using assms(1) unfolding at_end_def by (cases st) auto
    have o: "open_line st = (ls @ [l], [], False)" using st by (simp add: open_line_def)
    have lo: "length (lines_text code (open_line st)) = off + (length code + 1)" and lc: "lines_cont code (open_line st) = off + length code"
      using st o h(2) by (simp_all add: lines_text_def done_lines_def lines_cont_def)
    have us: "usub n off = n - off" using assms(3,4) lo by (simp add: usub_def mod_if)
    have room: "off + length code + 1 < n" "length code + 2 \<le> n - off" "\<not> n - off < length code + 1" using assms(4) lo by auto
    obtain b b' where b: "buf_write buf cont [CHR ''-''] = Some b" "snprintf_at b off (n - off) (code @ '' '') = Some b'"
        "length (c_str (drop off b')) = length code + 1" "buf_holds n b' (lines_text code (open_line st))"
      using open_line_text [of n buf code ls l "n - off"] h st room assms(2) o by (auto simp: code_ok_def)
    have "length b = n" using b(1) buf_write_length assms(1) by (auto simp: at_end_def)
    then have sz': "con_out_size (con\<lparr>con_out_buf := Some b\<rparr>) = n" by (simp add: con_out_size_def)
    have "cont \<noteq> 0" using h(3) st assms(2) by (simp add: lines_cont_def code_ok_def)
    then have "Con_append_error_string con off fmt code cont =
        append_loop code off fmt NUL (n - off) (length code + 1) (off + length code) (con\<lparr>con_out_buf := Some b'\<rparr>)"
      using False b(1-3) sz' us room(3) assms(5) by (simp add: Con_append_error_string_def Let_def)
    then show ?thesis using b(4) lo lc open_line_ok [OF h(4)] by (intro exI [of _ b']) simp
  qed
qed

lemma message_appended:
  assumes "at_end n buf code st off cont" and "code_ok code" and "n < 2 ^ 63" and "addr_ok (con_src_addr con)" and "con_out_buf con = Some buf"
    and "NUL \<notin> set fmt" and "st1 = fmt_lines (con_src_addr con) NUL fmt (open_line st)"
    and "length (lines_text code st1) + INET6_ADDRSTRLEN + length code + 2 < n" and "lines_ok st"
  shows "\<exists>b a. Con_append_error_string con off fmt code cont = Some (a, lines_cont code st1, con\<lparr>con_out_buf := Some b\<rparr>) \<and>
    buf_holds n b (lines_text code st1) \<and> off + a = length (lines_text code st1) \<and> lines_ok st1"
proof -
  have sv: "saved_ok NUL" by (simp add: saved_ok_def)
  have g: "length (lines_text code (open_line st)) \<le> length (lines_text code st1)" "lines_ok st1"
    using fmt_lines_grows [OF assms(4) sv assms(6) open_line_ok [OF assms(9)], of code] assms(7) by auto
  obtain b0 where b0: "Con_append_error_string con off fmt code cont =
      append_loop code off fmt NUL (n - off) (length code + 1) (lines_cont code (open_line st)) (con\<lparr>con_out_buf := Some b0\<rparr>)"
      "buf_holds n b0 (lines_text code (open_line st))" "off + (length code + 1) = length (lines_text code (open_line st))"
      "lines_ok (open_line st)"
    using start_message [OF assms(1-3) _ assms(5), of fmt] g(1) assms(8) by auto
  have "\<exists>b a. append_loop code off fmt NUL (n - off) (length code + 1) (lines_cont code (open_line st)) (con\<lparr>con_out_buf := Some b0\<rparr>) =
      Some (a, lines_cont code st1, con\<lparr>con_out_buf := Some b0\<rparr>\<lparr>con_out_buf := Some b\<rparr>) \<and> buf_holds n b (lines_text code st1) \<and> 1 \<le> a \<and>
      off + a = length (lines_text code st1)"
    using append_loop_ok [of "con\<lparr>con_out_buf := Some b0\<rparr>" code b0 n "open_line st" off "length code + 1" fmt NUL]
      assms(2-4,6-8) b0(2-4) sv by simp
  then show ?thesis using b0(1) g(2) by auto
qed

definition add_message :: "string \<Rightarrow> lines \<Rightarrow> string \<Rightarrow> lines" where
  "add_message addr st m = (let st1 = fmt_lines addr NUL m (open_line st) in if snd (snd st1) then st1 else add_char st1 (CHR 0x0A))"

definition ends_line :: "string \<Rightarrow> string \<Rightarrow> bool" where
  "ends_line addr m \<longleftrightarrow> expand addr NUL m \<noteq> [] \<and> last (expand addr NUL m) = CHR 0x0A"

lemma closed_text: "t \<noteq> [] \<Longrightarrow> snd (snd (foldl add_char st t)) \<longleftrightarrow> last t = CHR 0x0A"
proof (induction t arbitrary: st)
  case (Cons c t)
  obtain ls l b where "open_line st = (ls, l, b)" by (cases "open_line st") auto
  then show ?case using Cons by (cases "t = []") (simp_all add: add_char_def)
qed simp

lemma add_message_text:
  assumes "balanced NUL m" and "addr \<noteq> []"
  shows "snd (snd (fmt_lines addr NUL m (open_line st))) = ends_line addr m"
    and "add_message addr st m = foldl add_char st (end_line (expand addr NUL m))"
proof -
  let ?e = "expand addr NUL m"
  have f: "fmt_lines addr NUL m (open_line st) = foldl add_char (open_line st) ?e" by (rule fmt_lines_expand [OF assms])
  show c: "snd (snd (fmt_lines addr NUL m (open_line st))) = ends_line addr m"
  proof (cases "?e = []")
    case True
    then show ?thesis using f by (cases st) (simp add: ends_line_def open_line_def)
  next
    case False
    then show ?thesis using f closed_text [OF False] by (simp add: ends_line_def)
  qed
  have "end_line ?e = (if ends_line addr m then ?e else ?e @ [CHR 0x0A])" by (simp add: end_line_def ends_line_def)
  then show "add_message addr st m = foldl add_char st (end_line ?e)"
    using c f add_text_open [of ?e st] by (cases "?e = []") (auto simp: add_message_def Let_def ends_line_def)
qed

lemma add_messages_text:
  "\<forall>m\<in>set ms. balanced NUL m \<Longrightarrow> addr \<noteq> [] \<Longrightarrow> foldl (add_message addr) st ms = foldl add_char st (reply_text addr ms)"
  by (induction ms arbitrary: st) (auto simp: reply_text_def add_message_text(2))

lemma close_line:
  assumes "lines_ok st" and "\<not> snd (snd st)"
  shows "lines_text code (add_char st (CHR 0x0A)) = lines_text code st @ [CHR 0x0A]" and "lines_ok (add_char st (CHR 0x0A))"
    and "lines_cont code (add_char st (CHR 0x0A)) = lines_cont code st" and "snd (snd (add_char st (CHR 0x0A)))"
  using assms by (cases st; simp add: add_char_def open_line_def lines_text_def lines_cont_def)+

lemma add_message_ok:
  assumes "addr_ok addr" and "NUL \<notin> set m" and "lines_ok st"
  shows "lines_ok (add_message addr st m)" and "snd (snd (add_message addr st m))"
    and "length (lines_text code (fmt_lines addr NUL m (open_line st))) \<le> length (lines_text code (add_message addr st m))"
    and "length (lines_text code st) \<le> length (lines_text code (add_message addr st m))"
proof -
  have g: "length (lines_text code (open_line st)) \<le> length (lines_text code (fmt_lines addr NUL m (open_line st)))"
      "lines_ok (fmt_lines addr NUL m (open_line st))"
    using fmt_lines_grows [OF assms(1) _ assms(2) open_line_ok [OF assms(3)], of NUL code] by (auto simp: saved_ok_def)
  then show "lines_ok (add_message addr st m)" "snd (snd (add_message addr st m))"
      "length (lines_text code (fmt_lines addr NUL m (open_line st))) \<le> length (lines_text code (add_message addr st m))"
      "length (lines_text code st) \<le> length (lines_text code (add_message addr st m))"
    using close_line [OF g(2)] open_line_length [of code st] by (auto simp: add_message_def Let_def)
qed

lemma add_messages_ok:
  "addr_ok addr \<Longrightarrow> \<forall>m\<in>set ms. NUL \<notin> set m \<Longrightarrow> lines_ok st \<Longrightarrow>
   lines_ok (foldl (add_message addr) st ms) \<and>
   length (lines_text code st) \<le> length (lines_text code (foldl (add_message addr) st ms))"
proof (induction ms arbitrary: st)
  case (Cons m ms)
  then show ?case using add_message_ok(1) [OF Cons(2) _ Cons(4), of m] add_message_ok(4) [OF Cons(2) _ Cons(4), of m code] by fastforce
qed simp

lemma reply_loop_ok:
  assumes "at_end n buf code st off cont" and "code_ok code" and "n < 2 ^ 63" and "addr_ok (con_src_addr con)" and "con_out_buf con = Some buf"
    and "\<forall>bl\<in>set bls. NUL \<notin> set (bl_message bl) \<and> balanced NUL (bl_message bl)"
    and "st' = foldl (add_message (con_src_addr con)) st (map bl_message bls)"
    and "length (lines_text code st') + INET6_ADDRSTRLEN + length code + 2 < n" and "lines_ok st"
  shows "\<exists>b p r. reply_loop code bls off cont con = Some (con\<lparr>con_out_buf := Some b, con_out_p := p, con_out_remaining := r\<rparr>) \<and>
    length b = n \<and> (bls \<noteq> [] \<longrightarrow> buf_holds n b (lines_text code st')) \<and>
    (bls \<noteq> [] \<and> \<not> ends_line (con_src_addr con) (bl_message (last bls)) \<longrightarrow> p = 0 \<and> r = int (length (lines_text code st'))) \<and>
    ((\<forall>bl\<in>set bls. ends_line (con_src_addr con) (bl_message bl)) \<longrightarrow> p = con_out_p con \<and> r = con_out_remaining con)"
  using assms
proof (induction bls arbitrary: con buf st off cont)
  case Nil
  then show ?case
    by (intro exI [of _ buf] exI [of _ "con_out_p con"] exI [of _ "con_out_remaining con"]) (simp add: at_end_def)
next
  case (Cons bl bls)
  let ?a = "con_src_addr con" and ?m = "bl_message bl"
  define st1 where "st1 = fmt_lines ?a NUL ?m (open_line st)"
  define st2 where "st2 = add_message ?a st ?m"
  have m: "NUL \<notin> set ?m" "balanced NUL ?m" "?a \<noteq> []" using Cons(5,7) by (auto simp: addr_ok_def)
  have c1: "snd (snd st1) = ends_line ?a ?m" using add_message_text(1) [OF m(2,3)] by (simp add: st1_def)
  have st': "st' = foldl (add_message ?a) st2 (map bl_message bls)" using Cons(8) by (simp add: st2_def)
  note am = add_message_ok [OF Cons(5) m(1) Cons(10)]
  have ok2: "lines_ok st2" "snd (snd st2)" using am(1,2) by (simp_all add: st2_def)
  have le: "length (lines_text code st1) \<le> length (lines_text code st2)" "length (lines_text code st2) \<le> length (lines_text code st')"
    using am(3) add_messages_ok [OF Cons(5) _ ok2(1), of "map bl_message bls" code] Cons(7) st' by (auto simp: st1_def st2_def)
  have room1: "length (lines_text code st1) + INET6_ADDRSTRLEN + length code + 2 < n" using Cons(9) le by linarith
  obtain b a where ba: "Con_append_error_string con off ?m code cont = Some (a, lines_cont code st1, con\<lparr>con_out_buf := Some b\<rparr>)"
      "buf_holds n b (lines_text code st1)" "off + a = length (lines_text code st1)" "lines_ok st1"
    using message_appended [OF Cons(2-6) m(1) st1_def room1 Cons(10)] by blast
  have prev: "nth_opt b (off + a - 1) = Some (last (lines_text code st1))"
    using buf_holds_last [OF ba(2)] ba(3) by simp
  have nl: "last (lines_text code st1) = CHR 0x0A \<longleftrightarrow> ends_line ?a ?m" using lines_text_last [OF ba(4)] c1 by simp
  have sz: "con_out_size con = n" using Cons(2,6) by (auto simp: at_end_def con_out_size_def)
  obtain b2 p r where b2: "reply_loop code (bl # bls) off cont con =
        reply_loop code bls (length (lines_text code st2)) (lines_cont code st2) (con\<lparr>con_out_buf := Some b2, con_out_p := p, con_out_remaining := r\<rparr>)"
      "buf_holds n b2 (lines_text code st2)"
      "ends_line ?a ?m \<longrightarrow> p = con_out_p con \<and> r = con_out_remaining con"
      "\<not> ends_line ?a ?m \<longrightarrow> p = 0 \<and> r = int (length (lines_text code st2))"
  proof (cases "ends_line ?a ?m")
    case True
    then have "st2 = st1" using c1 by (simp add: st1_def st2_def add_message_def Let_def)
    then show ?thesis
      using that [where ?b2.0 = b and p = "con_out_p con" and r = "con_out_remaining con"] ba prev nl True by (simp add: Let_def)
  next
    case False
    have nc: "\<not> snd (snd st1)" using c1 False by simp
    have s2: "st2 = add_char st1 (CHR 0x0A)" using nc by (simp add: st1_def st2_def add_message_def Let_def)
    note cl = close_line [OF ba(4) nc]
    have rem: "\<not> int n - int off - int a < 1" using ba(3) room1 by linarith
    obtain b3 where b3: "buf_write b (length (lines_text code st1)) ([CHR 0x0A] @ [NUL]) = Some b3" "buf_holds n b3 (lines_text code st1 @ [CHR 0x0A])"
      using buf_holds_write [OF ba(2), of "[CHR 0x0A]"] room1 by auto
    have cs: "c_str b3 = lines_text code st2"
      using buf_holds_c_str [OF b3(2)] cl(1,2) s2 lines_text_NUL [OF cl(2) Cons(3)] by simp
    show ?thesis
      using that [where ?b2.0 = b3 and p = 0 and r = "int (length (lines_text code st2))"] ba(1,3) prev nl False rem sz b3 cs cl(1,3) s2 by (simp add: Let_def)
  qed
  have ae: "at_end n b2 code st2 (length (lines_text code st2)) (lines_cont code st2)"
    using b2(2) ok2 by (simp add: at_end_def buf_holds_def)
  let ?con = "con\<lparr>con_out_buf := Some b2, con_out_p := p, con_out_remaining := r\<rparr>"
  have "\<exists>b p' r'. reply_loop code bls (length (lines_text code st2)) (lines_cont code st2) ?con =
      Some (?con\<lparr>con_out_buf := Some b, con_out_p := p', con_out_remaining := r'\<rparr>) \<and>
    length b = n \<and> (bls \<noteq> [] \<longrightarrow> buf_holds n b (lines_text code st')) \<and>
    (bls \<noteq> [] \<and> \<not> ends_line (con_src_addr ?con) (bl_message (last bls)) \<longrightarrow> p' = 0 \<and> r' = int (length (lines_text code st'))) \<and>
    ((\<forall>bl\<in>set bls. ends_line (con_src_addr ?con) (bl_message bl)) \<longrightarrow> p' = con_out_p ?con \<and> r' = con_out_remaining ?con)"
    by (rule Cons.IH [OF ae]) (use Cons(3-5,7,9) st' ok2(1) in simp_all)
  then obtain b' p' r' where f: "reply_loop code bls (length (lines_text code st2)) (lines_cont code st2) ?con =
      Some (con\<lparr>con_out_buf := Some b', con_out_p := p', con_out_remaining := r'\<rparr>)" "length b' = n"
    "bls \<noteq> [] \<longrightarrow> buf_holds n b' (lines_text code st')"
    "bls \<noteq> [] \<and> \<not> ends_line ?a (bl_message (last bls)) \<longrightarrow> p' = 0 \<and> r' = int (length (lines_text code st'))"
    "(\<forall>bl\<in>set bls. ends_line ?a (bl_message bl)) \<longrightarrow> p' = p \<and> r' = r" by auto
  show ?case
  proof (cases "bls = []")
    case True
    then have "reply_loop code (bl # bls) off cont con = Some ?con" "st' = st2" using b2(1) st' by simp_all
    moreover have "length b2 = n" using b2(2) by (simp add: buf_holds_def)
    ultimately show ?thesis using b2(2-4) True by (intro exI [of _ b2] exI [of _ p] exI [of _ r]) simp
  next
    case False
    then show ?thesis using f b2(1,3) by (intro exI [of _ b'] exI [of _ p'] exI [of _ r']) simp
  qed
qed

text \<open>What a connection has to satisfy for its reply to fit the buffer.\<close>

definition reply_fits :: "nat \<Rightarrow> string \<Rightarrow> string \<Rightarrow> Blacklist_T list \<Rightarrow> bool" where
  "reply_fits n code addr bls \<longleftrightarrow> bls \<noteq> [] \<and> code_ok code \<and> addr_ok addr \<and> n < 2 ^ 63 \<and>
     (\<forall>bl\<in>set bls. NUL \<notin> set (bl_message bl) \<and> balanced NUL (bl_message bl)) \<and>
     length (smtp_lines code (reply_text addr (map bl_message bls))) + INET6_ADDRSTRLEN + length code + 2 < n"

lemma reply_text_lines:
  assumes "ms \<noteq> []" and "\<forall>m\<in>set ms. balanced NUL m" and "addr \<noteq> []"
  shows "lines_text code (foldl (add_message addr) ([], [], False) ms) = smtp_lines code (reply_text addr ms)"
proof -
  have e: "end_line x \<noteq> []" "last (end_line x) = CHR 0x0A" for x by (auto simp: end_line_def)
  then have "reply_text addr ms \<noteq> []" "last (reply_text addr ms) = CHR 0x0A"
    using assms(1) by (cases ms rule: rev_cases; simp add: reply_text_def)+
  then show ?thesis
    using smtp_lines_add [of "reply_text addr ms" "[]" code "[]"] add_messages_text [OF assms(2,3)] by (simp add: done_lines_def)
qed

lemma build_reply_black:
  assumes "con_out_buf con = Some buf" and "con_blacklists con = Some l" and "List_wf l"
    and "reply_fits (length buf) code (con_src_addr con) (list_head l)"
  shows "\<exists>b p r. Con_build_reply con code = Some (con\<lparr>con_out_buf := Some b, con_out_p := p, con_out_remaining := r\<rparr>) \<and>
    buf_holds (length buf) b (smtp_lines code (reply_text (con_src_addr con) (map bl_message (list_head l)))) \<and>
    NUL \<notin> set (smtp_lines code (reply_text (con_src_addr con) (map bl_message (list_head l)))) \<and>
    (\<not> ends_line (con_src_addr con) (bl_message (last (list_head l))) \<longrightarrow>
       p = 0 \<and> r = int (length (smtp_lines code (reply_text (con_src_addr con) (map bl_message (list_head l)))))) \<and>
    ((\<forall>bl\<in>set (list_head l). ends_line (con_src_addr con) (bl_message bl)) \<longrightarrow> p = con_out_p con \<and> r = con_out_remaining con)"
proof -
  let ?bls = "list_head l" and ?a = "con_src_addr con"
  let ?st = "foldl (add_message ?a) ([], [], False) (map bl_message ?bls)"
  have f: "?bls \<noteq> []" "code_ok code" "addr_ok ?a" "length buf < 2 ^ 63" "\<forall>bl\<in>set ?bls. NUL \<notin> set (bl_message bl) \<and> balanced NUL (bl_message bl)"
    using assms(4) by (auto simp: reply_fits_def)
  have a: "?a \<noteq> []" using f(3) by (simp add: addr_ok_def)
  have t: "lines_text code ?st = smtp_lines code (reply_text ?a (map bl_message ?bls))"
    using reply_text_lines [OF _ _ a] f(1,5) by auto
  have lo: "lines_ok ?st" using add_messages_ok [OF f(3), of "map bl_message ?bls" "([], [], False)" code] f(5) by auto
  have "List_size (Some l) > 0" using assms(3) f(1) by (simp add: List_wf_def)
  then have "Con_build_reply con code = reply_loop code ?bls 0 0 con" using assms(2) by (simp add: Con_build_reply_def)
  moreover have ae: "at_end (length buf) buf code ([], [], False) 0 0" by (simp add: at_end_def)
  have "length (lines_text code ?st) + INET6_ADDRSTRLEN + length code + 2 < length buf" using assms(4) t by (simp add: reply_fits_def)
  ultimately show ?thesis
    using reply_loop_ok [OF ae f(2,4,3) assms(1) f(5) refl] f(1) t lines_text_NUL [OF lo f(2)] by auto
qed

section \<open>Properties\<close>

text \<open>
  C6. The rejection of a blacklisted client: when the messages fit the buffer, \<open>Con_build_reply\<close> prints
  the multi-line SMTP reply with the expanded messages of all its lists, one after the other: every
  line starts with the code, followed by a dash on all lines but the last. All of it is sent when the
  last message does not end with a line break.
\<close>

theorem blacklist_reply_exact:
  assumes "con_out_buf con = Some buf" and "con_blacklists con = Some l" and "List_wf l"
    and "reply_fits (length buf) code (con_src_addr con) (list_head l)"
  shows "\<exists>con' b. Con_build_reply con code = Some con' \<and> con_out_buf con' = Some b \<and> length b = length buf \<and>
    c_str b = smtp_lines code (reply_text (con_src_addr con) (map bl_message (list_head l))) \<and>
    (\<not> ends_line (con_src_addr con) (bl_message (last (list_head l))) \<longrightarrow>
       con_out_p con' = 0 \<and> con_out_remaining con' = int (length (c_str b)))"
  using build_reply_black [OF assms] buf_holds_c_str by (fastforce simp: buf_holds_def)

text \<open>The example: a client on one list.\<close>

definition example_list :: "string \<Rightarrow> Blacklist_T" where
  "example_list msg = Blacklist_create ''spam'' msg BL_STORAGE_TRIE"

definition example_con :: "string \<Rightarrow> Con" where
  "example_con msg = (Con_grow_out_buf zero_con)\<lparr>con_src_addr := ''192.0.2.1'', con_blacklists := Some \<lparr>list_size = 1, list_head = [example_list msg]\<rparr>\<rparr>"

lemma example_con_fields [simp]:
  "con_out_buf (example_con msg) = Some (replicate CON_OUT_BUF_SIZE NUL)" "con_src_addr (example_con msg) = ''192.0.2.1''"
  "con_blacklists (example_con msg) = Some \<lparr>list_size = 1, list_head = [example_list msg]\<rparr>" "bl_message (example_list msg) = msg"
  "con_out_p (example_con msg) = 0" "con_out_remaining (example_con msg) = 0"
  by (simp_all add: example_con_def Con_grow_out_buf_def zero_con_def example_list_def Blacklist_create_def Let_def
      BL_STORAGE_TRIE_def BL_STORAGE_LIST_def)

text \<open>C6 for a client on one list with a message of two lines.\<close>

theorem blacklist_reply_exact_witness:
  "\<exists>con' b. Con_build_reply (example_con (''Spam from %A'' @ [CHR 0x5c] @ ''nGo away'')) ''450'' = Some con' \<and> con_out_buf con' = Some b \<and>
     c_str b = ''450-Spam from 192.0.2.1'' @ [CHR 0x0A] @ ''450 Go away'' @ [CHR 0x0A]"
proof -
  let ?m = "''Spam from %A'' @ [CHR 0x5c] @ ''nGo away''" and ?a = "''192.0.2.1''"
  have x: "reply_text ?a [?m] = ''Spam from 192.0.2.1'' @ [CHR 0x0A] @ ''Go away'' @ [CHR 0x0A]"
    by (simp add: reply_text_def end_line_def fmt_step_def NUL_def)
  have r: "smtp_lines ''450'' (reply_text ?a [?m]) = ''450-Spam from 192.0.2.1'' @ [CHR 0x0A] @ ''450 Go away'' @ [CHR 0x0A]"
    unfolding x by (subst smtp_lines.simps, simp, subst smtp_lines.simps, simp)
  have "reply_fits CON_OUT_BUF_SIZE ''450'' ?a [example_list ?m]"
    using r by (simp add: reply_fits_def code_ok_def addr_ok_def NUL_def fmt_step_def CON_OUT_BUF_SIZE_def INET6_ADDRSTRLEN_def)
  then show ?thesis
    using blacklist_reply_exact [of "example_con ?m" "replicate CON_OUT_BUF_SIZE NUL" _ "''450''"] r by (auto simp: List_wf_def)
qed

text \<open>
  When the messages of all lists end with a line break, nothing of the reply is sent: the output
  position and the number of characters left to send stay what they were, although the reply stands
  in the buffer.
\<close>

theorem blacklist_reply_unsent:
  assumes "con_out_buf con = Some buf" and "con_blacklists con = Some l" and "List_wf l"
    and "reply_fits (length buf) code (con_src_addr con) (list_head l)"
    and "\<forall>bl\<in>set (list_head l). ends_line (con_src_addr con) (bl_message bl)"
  shows "\<exists>con'. Con_build_reply con code = Some con' \<and> con_out_p con' = con_out_p con \<and> con_out_remaining con' = con_out_remaining con"
  using build_reply_black [OF assms(1-4)] assms(5) by fastforce

text \<open>The statement for one list.\<close>

theorem blacklist_reply_unsent_witness:
  "\<exists>con'. Con_build_reply (example_con (''Go away'' @ [CHR 0x0A])) ''450'' = Some con' \<and> con_out_remaining con' = 0"
proof -
  let ?m = "''Go away'' @ [CHR 0x0A]" and ?a = "''192.0.2.1''"
  have x: "reply_text ?a [?m] = ''Go away'' @ [CHR 0x0A]"
    by (simp add: reply_text_def end_line_def fmt_step_def NUL_def)
  have r: "smtp_lines ''450'' (reply_text ?a [?m]) = ''450 Go away'' @ [CHR 0x0A]"
    unfolding x by (subst smtp_lines.simps, simp)
  have "reply_fits CON_OUT_BUF_SIZE ''450'' ?a [example_list ?m]"
    using r by (simp add: reply_fits_def code_ok_def addr_ok_def NUL_def fmt_step_def CON_OUT_BUF_SIZE_def INET6_ADDRSTRLEN_def)
  moreover have "ends_line ?a ?m" by (simp add: ends_line_def fmt_step_def NUL_def)
  ultimately show ?thesis
    using blacklist_reply_unsent [of "example_con ?m" "replicate CON_OUT_BUF_SIZE NUL" _ "''450''"] by (auto simp: List_wf_def)
qed

end
