(* ===== verification/Con_Safety.thy ===== *)
theory Con_Safety
  imports Con_Reply
begin

text \<open>
  The safety of a connection: an invariant of its buffers, cursors and state that every event
  preserves. While it holds, no step of the state machine reads or writes outside a buffer, reaches an
  illegal state or dereferences NULL, whatever the client sends and the system calls return; the
  step either leaves the connection waiting for input or with output to send, or closes it.
\<close>

section \<open>Strings in buffers\<close>

text \<open>A buffer of a given size whose content is a C string.\<close>

definition str_buf :: "nat \<Rightarrow> char list \<Rightarrow> bool" where
  "str_buf n b \<longleftrightarrow> length b = n \<and> 0 < n \<and> NUL \<in> set b"

lemma strsep_keeps:
  assumes "strsep buf i d = (buf', k)"
  shows "length buf' = length buf" and "buf ! j = NUL \<Longrightarrow> j < length buf \<Longrightarrow> buf' ! j = NUL" and "NUL \<in> set buf \<Longrightarrow> NUL \<in> set buf'"
    and "k = Some m \<Longrightarrow> m \<le> length buf"
proof -
  show len: "length buf' = length buf" using assms by (auto simp: strsep_def Let_def split: if_splits)
  show nul: "buf' ! j = NUL" if "buf ! j = NUL" "j < length buf" for j
    using assms that by (auto simp: strsep_def Let_def nth_list_update split: if_splits)
  show "NUL \<in> set buf'" if "NUL \<in> set buf" using that nul len by (metis in_set_conv_nth)
  show "k = Some m \<Longrightarrow> m \<le> length buf" using assms by (auto simp: strsep_def Let_def split: if_splits)
qed

lemma str_buf_c_str: "str_buf n b \<Longrightarrow> length (c_str b) < n"
proof -
  assume b: "str_buf n b"
  have "c_str b \<noteq> b"
  proof
    assume "c_str b = b"
    moreover have "NUL \<notin> set (c_str b)" by (rule c_str_no_NUL)
    ultimately show False using b by (simp add: str_buf_def)
  qed
  then have "dropWhile (\<lambda>c. c \<noteq> NUL) b \<noteq> []" unfolding c_str_def by (metis append_Nil2 takeWhile_dropWhile_id)
  then show ?thesis using b takeWhile_dropWhile_id [of "\<lambda>c. c \<noteq> NUL" b]
    by (metis c_str_def length_append length_greater_0_conv less_add_same_cancel1 str_buf_def)
qed

lemma c_str_short_NUL: "length (c_str b) < length b \<Longrightarrow> NUL \<in> set b"
  by (metis c_str_id less_irrefl)

lemma copy_word_ok:
  assumes "str_buf n p"
  obtains p' f' where "copy_word p n f i = Some (p', f')" and "str_buf n p'" and "length f' = length f"
    and "\<And>j. f ! j = NUL \<Longrightarrow> j < length f \<Longrightarrow> f' ! j = NUL"
proof -
  obtain f' fn where f: "strsep f i {CHR '' '', CHR 0x09} = (f', fn)" by fastforce
  have "\<exists>d. sstrncpy p (c_str (drop i f')) n = Some (length (c_str (drop i f')), d) \<and> length d = length p \<and>
      c_str d = take (n - 1) (c_str (drop i f')) \<and> drop n d = drop n p"
    using sstrncpy_spec [of n p "c_str (drop i f')"] assms by (simp add: str_buf_def)
  then obtain d where d: "sstrncpy p (c_str (drop i f')) n = Some (length (c_str (drop i f')), d)" "length d = n"
      "c_str d = take (n - 1) (c_str (drop i f'))" using assms by (auto simp: str_buf_def)
  have "length (c_str d) \<le> n - 1" unfolding d(3) by simp
  moreover have "0 < n" using assms by (simp add: str_buf_def)
  ultimately have "length (c_str d) < length d" unfolding d(2) by linarith
  then have sd: "str_buf n d" using c_str_short_NUL d(2) assms by (simp add: str_buf_def)
  let ?ws = "{CHR '' '', CHR 0x09, CHR 0x0A, CHR 0x0D}"
  obtain p2 k where p2: "strsep d 0 ?ws = (p2, k)" by fastforce
  have s2: "str_buf n p2" using strsep_keeps(1,3) [OF p2] sd by (simp add: str_buf_def)
  show ?thesis
  proof (cases k)
    case None
    then have "copy_word p n f i = Some (p2, f')" using f d(1) p2 by (simp add: copy_word_def)
    then show ?thesis using that s2 strsep_keeps(1,2) [OF f] by blast
  next
    case (Some m)
    obtain p3 k' where p3: "strsep p2 m ?ws = (p3, k')" by fastforce
    have "str_buf n (p3[m := NUL])"
      using strsep_keeps(1,3) [OF p3] s2 set_update_subset_insert [of p3 m NUL]
      by (cases "m < length p3") (auto simp: str_buf_def set_update_memI list_update_beyond)
    moreover have "copy_word p n f i = Some (p3[m := NUL], f')" using f d(1) p2 p3 Some by (simp add: copy_word_def)
    ultimately show ?thesis using that strsep_keeps(1,2) [OF f] by blast
  qed
qed

lemma set_log_ok:
  assumes "str_buf n p"
  obtains p' f' where "set_log p n f = Some (p', f')" and "str_buf n p'" and "length f' = length f"
    and "\<And>j. f ! j = NUL \<Longrightarrow> j < length f \<Longrightarrow> f' ! j = NUL"
proof -
  obtain f1 k where f: "strsep f 0 {CHR '':''} = (f1, k)" by fastforce
  show ?thesis
  proof (cases k)
    case None
    have "str_buf n (p[0 := NUL])" using assms by (auto simp: str_buf_def set_update_memI)
    moreover have "set_log p n f = Some (p[0 := NUL], f1)" using f None by (simp add: set_log_def)
    ultimately show ?thesis using that strsep_keeps(1,2) [OF f] by blast
  next
    case (Some m)
    obtain p' f' where c: "copy_word p n f1 (skip_blanks f1 m) = Some (p', f')" "str_buf n p'" "length f' = length f1"
        "\<And>j. f1 ! j = NUL \<Longrightarrow> j < length f1 \<Longrightarrow> f' ! j = NUL"
      using copy_word_ok [OF assms] by metis
    then have "set_log p n f = Some (p', f')" using f Some by (simp add: set_log_def)
    moreover have "f' ! j = NUL" if "f ! j = NUL" "j < length f" for j
      using c(3,4) strsep_keeps(1,2) [OF f] that by metis
    ultimately show ?thesis using that [of p' f'] c(2,3) strsep_keeps(1) [OF f] by simp
  qed
qed

lemma normalize_ok:
  assumes "length addr < n" and "length buf = n"
  shows "\<exists>b. normalize_email_addr addr buf (int n) = Some b \<and> str_buf n b"
proof -
  have "length (normal_chars addr) \<le> length addr"
    using length_filter_le [of addr_char_ok "tl addr"] length_tl [of addr] length_filter_le [of addr_char_ok addr]
    by (auto simp: normal_chars_def strip_angle_def)
  then have k: "length (normal_chars addr) < n" using assms(1) by simp
  have "length ((normal_chars addr @ drop (length (normal_chars addr)) buf)[n - 1 := NUL]) = n" using k assms(2) by simp
  then show ?thesis
    using normalize_email_addr_spec [OF k] assms(2) k by (auto simp: str_buf_def intro!: set_update_memI)
qed

lemma nul_update: "xs ! j = NUL \<Longrightarrow> xs[k := NUL] ! j = NUL"
  by (metis list_update_beyond not_le nth_list_update_eq nth_list_update_neq)

lemma body_loop_ok:
  assumes "in_p < length buf" and "p \<le> q" and "q \<le> in_p + 2"
  shows "\<exists>e b body' n'. body_loop buf in_p p q body n = Some (e, b, body', n') \<and> length b = length buf \<and>
    (\<forall>j<length buf. buf ! j = NUL \<longrightarrow> b ! j = NUL)"
  using assms
proof (induction buf in_p p q body n rule: body_loop.induct)
  case (1 buf in_p p q body n)
  show ?case
  proof (cases "q \<le> in_p")
    case False
    then have "body_loop buf in_p p q body n = Some (False, buf, body, n)" by (subst body_loop.simps) simp
    then show ?thesis by blast
  next
    case True
    then have c: "nth_opt buf q = Some (buf ! q)" using 1(3) by simp
    show ?thesis
    proof (cases "buf ! q = CHR 0x0A \<or> q = in_p")
      case False
      then have "body_loop buf in_p p q body n = body_loop buf in_p p (q + 1) body n"
        using c True by (subst body_loop.simps) simp
      then show ?thesis using 1(2) [OF True c False] 1(3-5) True by simp
    next
      case nl: True
      let ?b1 = "buf[q := NUL]"
      let ?b2 = "if q > p \<and> ?b1 ! (q - 1) = CHR 0x0D then ?b1[q - 1 := NUL] else ?b1"
      let ?line = "c_str (drop p ?b2)"
      let ?n1 = "if ?line \<noteq> ''.'' \<and> body then n + 1 else n"
      have keep: "length ?b2 = length buf" "\<forall>j<length buf. buf ! j = NUL \<longrightarrow> ?b2 ! j = NUL" by (auto intro: nul_update)
      have eq: "body_loop buf in_p p q body n = (if ?line = ''.'' \<or> body \<and> ?n1 \<ge> 10 then Some (True, ?b2, body, ?n1)
          else body_loop ?b2 in_p (q + 1) (q + 2) (body \<or> ?line = []) ?n1)"
        using c True nl by (subst body_loop.simps) (simp only: Option.bind.simps Let_def if_True simp_thms)
      show ?thesis
      proof (cases "?line = ''.'' \<or> body \<and> ?n1 \<ge> 10")
        case e: True
        show ?thesis unfolding eq if_P [OF e] using keep by blast
      next
        case e: False
        have "\<exists>e b body' n'. body_loop ?b2 in_p (q + 1) (q + 2) (body \<or> ?line = []) ?n1 = Some (e, b, body', n') \<and>
            length b = length ?b2 \<and> (\<forall>j<length ?b2. ?b2 ! j = NUL \<longrightarrow> b ! j = NUL)"
          by (rule 1(1) [OF True c nl refl refl refl refl e]) (use 1(3) keep(1) True in simp_all)
        then show ?thesis unfolding eq if_not_P [OF e] using keep by metis
      qed
    qed
  qed
qed

section \<open>The invariant\<close>

definition con_valid_state :: "int \<Rightarrow> bool" where
  "con_valid_state s \<longleftrightarrow>
     s \<in> {CON_STATE_PROXY_IN, CON_STATE_PROXY_OUT, CON_STATE_BANNER_IN, CON_STATE_BANNER_OUT, CON_STATE_HELO_IN, CON_STATE_HELO_OUT,
          CON_STATE_MAIL_IN, CON_STATE_MAIL_OUT, CON_STATE_RCPT_IN, CON_STATE_RCPT_OUT, CON_STATE_DATA_IN, CON_STATE_DATA_OUT,
          CON_STATE_MESSAGE, CON_STATE_REPLY, CON_STATE_CLOSE}"

lemmas valid_state_simps = con_valid_state_def con_states

lemma valid_states [simp]:
  "con_valid_state CON_STATE_PROXY_IN" "con_valid_state CON_STATE_PROXY_OUT" "con_valid_state CON_STATE_BANNER_IN"
  "con_valid_state CON_STATE_BANNER_OUT" "con_valid_state CON_STATE_HELO_IN" "con_valid_state CON_STATE_HELO_OUT"
  "con_valid_state CON_STATE_MAIL_IN" "con_valid_state CON_STATE_MAIL_OUT" "con_valid_state CON_STATE_RCPT_IN"
  "con_valid_state CON_STATE_RCPT_OUT" "con_valid_state CON_STATE_DATA_IN" "con_valid_state CON_STATE_DATA_OUT"
  "con_valid_state CON_STATE_MESSAGE" "con_valid_state CON_STATE_REPLY" "con_valid_state CON_STATE_CLOSE"
  by (simp_all add: con_valid_state_def)

text \<open>
  The lists of a client: none, or their messages fit the output buffer, whatever the address that
  \<open>%A\<close> stands for, and the last does not end with a line break.
\<close>

definition lists_ok :: "string \<Rightarrow> Blacklist_T List_T \<Rightarrow> bool" where
  "lists_ok code l \<longleftrightarrow> List_wf l \<and>
     (list_head l \<noteq> [] \<longrightarrow> (\<forall>addr. addr_ok addr \<longrightarrow> reply_fits CON_OUT_BUF_SIZE code addr (list_head l) \<and>
                                          \<not> ends_line addr (bl_message (last (list_head l)))))"

definition con_base :: "string \<Rightarrow> Con \<Rightarrow> bool" where
  "con_base code con \<longleftrightarrow>
     str_buf CON_BUF_SIZE (con_in_buf con) \<and> str_buf GREY_MAX_MAIL (con_helo con) \<and> str_buf GREY_MAX_MAIL (con_mail con) \<and>
     str_buf GREY_MAX_MAIL (con_rcpt con) \<and> (\<exists>b. con_out_buf con = Some b \<and> length b = CON_OUT_BUF_SIZE) \<and>
     con_in_p con < CON_BUF_SIZE \<and> (\<exists>l. con_blacklists con = Some l \<and> lists_ok code l) \<and> addr_ok (con_src_addr con) \<and>
     con_valid_state (con_state con) \<and> con_valid_state (con_last_state con) \<and> 0 \<le> con_stutter con \<and> con_fd con \<noteq> - 1"

definition con_reads :: "Con \<Rightarrow> bool" where
  "con_reads con \<longleftrightarrow> con_r con \<noteq> 0 \<and> con_w con = 0 \<and> 0 < con_in_remaining con \<and> int (con_in_p con) + con_in_remaining con < int CON_BUF_SIZE"

definition con_writes :: "Con \<Rightarrow> bool" where
  "con_writes con \<longleftrightarrow> con_w con \<noteq> 0 \<and> con_r con = 0 \<and> 0 < con_out_remaining con \<and>
     int (con_out_p con) + con_out_remaining con \<le> int CON_OUT_BUF_SIZE"

text \<open>A connection between two events is closed, waits for input or has output to send.\<close>

definition con_ok :: "string \<Rightarrow> Con \<Rightarrow> bool" where
  "con_ok code con \<longleftrightarrow> con_fd con = - 1 \<or> con_base code con \<and> (con_reads con \<or> con_writes con)"

text \<open>
  What the connections rely on: a configuration that can be read and names the host, permitted proxies
  that were set at startup by \<open>Greyd_set_proxy_protocol_permitted_proxies\<close> from some list of the
  configuration (or from none, as when the proxy protocol is off and the list is not used), numeric
  addresses from \<open>inet_ntop\<close>, and the firewall process answering with its message.
\<close>

definition env_ok :: "con_env \<Rightarrow> Greyd_state \<Rightarrow> string \<Rightarrow> bool" where
  "env_ok E st code \<longleftrightarrow>
     Config_get_str (gs_config st) ''error_code'' None (Some CON_ERROR_CODE) = Some (Some code) \<and> code_ok code \<and>
     (\<exists>h. Config_get_str (gs_config st) ''hostname'' None None = Some (Some h)) \<and>
     (\<exists>b. Config_get_str (gs_config st) ''banner'' None (Some GREYD_BANNER) = Some (Some b)) \<and>
     (\<exists>n. Config_get_int (gs_config st) ''enable'' (Some ''grey'') 1 = Some n) \<and>
     (\<exists>n. Config_get_int (gs_config st) ''stutter'' (Some ''grey'') CON_GREY_STUTTER = Some n) \<and>
     (\<exists>cidrs. Greyd_set_proxy_protocol_permitted_proxies (ce_inet_pton E) cidrs = Some (gs_permitted_proxies st)) \<and>
     (\<forall>af ip. addr_ok (ce_inet_ntop E af ip)) \<and>
     (\<forall>req text. ce_fw_reply E req = Some text \<longrightarrow> (\<exists>d. plain d \<and> text = message_text ''='' [(''dst'', M_str d)]))"

text \<open>
  What a step does to the state of the daemon: it writes to the pipes; the configuration, the counts of
  the clients and the rest stay.
\<close>

definition step_ok :: "string \<Rightarrow> Con \<Rightarrow> Greyd_state \<Rightarrow> (Con \<times> Greyd_state) option \<Rightarrow> bool" where
  "step_ok code con st res \<longleftrightarrow>
     (\<exists>con' g f. res = Some (con', st\<lparr>gs_grey_out := gs_grey_out st @ g, gs_fw_out := gs_fw_out st @ f\<rparr>) \<and> con_base code con' \<and>
        (con_reads con' \<or> con_writes con') \<and> con_fd con' = con_fd con \<and> con_blacklists con' = con_blacklists con)"

lemma step_okI:
  "res = Some (con', st) \<Longrightarrow> con_base code con' \<Longrightarrow> con_reads con' \<or> con_writes con' \<Longrightarrow> con_fd con' = con_fd con \<Longrightarrow>
     con_blacklists con' = con_blacklists con \<Longrightarrow> step_ok code con st res"
  unfolding step_ok_def by (intro exI [of _ con'] exI [of _ "[]"]) simp

text \<open>A step begins with neither time set.\<close>

definition con_idle :: "string \<Rightarrow> Con \<Rightarrow> bool" where
  "con_idle code con \<longleftrightarrow> con_base code con \<and> con_r con = 0 \<and> con_w con = 0"

section \<open>The steps keep the invariant\<close>

lemma wait_input_ok:
  assumes "con_idle code con" and "con_valid_state next" and "0 < now"
  shows "step_ok code con st (Some (wait_input con next now, st))"
  by (rule step_okI [OF refl]) (use assms in \<open>auto simp: wait_input_def con_idle_def con_base_def con_reads_def CON_BUF_SIZE_def\<close>)

lemma print_out_ok:
  assumes "con_out_buf con = Some b" and "length b = CON_OUT_BUF_SIZE"
  obtains b' where "print_out con msg = Some (con\<lparr>con_out_buf := Some b'\<rparr>)" and "length b' = CON_OUT_BUF_SIZE"
    and "msg \<noteq> [] \<and> hd msg \<noteq> NUL \<longrightarrow> c_str b' \<noteq> []"
proof -
  let ?n = "CON_OUT_BUF_SIZE"
  let ?t = "take (?n - 1) msg @ [NUL]"
  have n: "1 < ?n" by (simp add: CON_OUT_BUF_SIZE_def)
  have le: "length ?t \<le> length b" using n assms(2) by simp
  then have "snprintf_at b 0 (con_out_size con) msg = Some (?t @ drop (length ?t) b)"
    using assms n by (simp add: snprintf_at_def con_out_size_def buf_write_def)
  moreover have "c_str (?t @ drop (length ?t) b) \<noteq> []" if "msg \<noteq> []" "hd msg \<noteq> NUL"
    using that n by (cases msg) (simp_all add: c_str_def take_Cons')
  moreover have "length (?t @ drop (length ?t) b) = ?n" using le assms(2) by simp
  ultimately show ?thesis using that [of "?t @ drop (length ?t) b"] assms by (simp add: print_out_def)
qed

lemma put_out_ok:
  assumes "con_out_buf con = Some b" and "length b = CON_OUT_BUF_SIZE" and "msg \<noteq> []" and "hd msg \<noteq> NUL"
  obtains b' k where "put_out con msg = Some (con\<lparr>con_out_buf := Some b', con_out_p := 0, con_out_remaining := k\<rparr>)"
    and "length b' = CON_OUT_BUF_SIZE" and "0 < k" and "k \<le> int CON_OUT_BUF_SIZE"
proof -
  from print_out_ok [OF assms(1,2), of msg] obtain b' where b: "print_out con msg = Some (con\<lparr>con_out_buf := Some b'\<rparr>)"
      "length b' = CON_OUT_BUF_SIZE" "c_str b' \<noteq> []" using assms(3,4) by metis
  then have "put_out con msg = Some (con\<lparr>con_out_buf := Some b', con_out_p := 0, con_out_remaining := int (length (c_str b'))\<rparr>)"
    by (simp add: put_out_def point_out_def)
  moreover have "length (c_str b') \<le> CON_OUT_BUF_SIZE" using length_c_str [of "b'"] b(2) by simp
  ultimately show ?thesis using that b(2,3) by simp
qed

lemma answer_ok:
  assumes "con_idle code con" and "con_valid_state next" and "0 < now" and "msg \<noteq> []" and "hd msg \<noteq> NUL"
  obtains con' where "answer con msg next now = Some con'" and "con_base code con'" and "con_writes con'" and "con_fd con' = con_fd con"
    and "con_blacklists con' = con_blacklists con"
proof -
  obtain b where b: "con_out_buf con = Some b" "length b = CON_OUT_BUF_SIZE" using assms(1) by (auto simp: con_idle_def con_base_def)
  obtain b' k where k: "put_out con msg = Some (con\<lparr>con_out_buf := Some b', con_out_p := 0, con_out_remaining := k\<rparr>)"
      "length b' = CON_OUT_BUF_SIZE" "0 < k" "k \<le> int CON_OUT_BUF_SIZE" using put_out_ok [OF b assms(4,5)] by metis
  let ?c = "con\<lparr>con_out_buf := Some b', con_out_p := 0, con_out_remaining := k, con_last_state := con_state con, con_state := next,
    con_w := now + con_stutter con\<rparr>"
  have "answer con msg next now = Some ?c" using k(1) by (simp add: answer_def)
  moreover have "con_base code ?c" "con_writes ?c"
    using assms(1-3) k(2-4) by (auto simp: con_idle_def con_base_def con_writes_def)
  ultimately show ?thesis using that by simp
qed

lemma answer_step:
  assumes "con_idle code con" and "con_valid_state next" and "0 < now" and "msg \<noteq> []" and "hd msg \<noteq> NUL"
  shows "step_ok code con st (do { con1 \<leftarrow> answer con msg next now; Some (con1, st) })"
proof -
  from answer_ok [OF assms] obtain con' where "answer con msg next now = Some con'" "con_base code con'" "con_writes con'"
    "con_fd con' = con_fd con" "con_blacklists con' = con_blacklists con" by blast
  then show ?thesis by (intro step_okI [of _ con']) simp_all
qed

lemma build_reply_ok:
  assumes "con_base code con"
  obtains b k where "Con_build_reply con code = Some (con\<lparr>con_out_buf := Some b, con_out_p := 0, con_out_remaining := k\<rparr>)"
    and "length b = CON_OUT_BUF_SIZE" and "0 < k" and "k \<le> int CON_OUT_BUF_SIZE"
proof -
  obtain b l where b: "con_out_buf con = Some b" "length b = CON_OUT_BUF_SIZE" and l: "con_blacklists con = Some l" "lists_ok code l"
    using assms by (auto simp: con_base_def)
  have a: "addr_ok (con_src_addr con)" using assms by (simp add: con_base_def)
  show ?thesis
  proof (cases "list_head l = []")
    case True
    then have "Con_build_reply con code = put_out con (''451 Temporary failure, please try again later.'' @ [CHR 0x0D, CHR 0x0A])"
      using l by (simp add: Con_build_reply_def lists_ok_def List_wf_def)
    then show ?thesis
      using put_out_ok [OF b, of "''451 Temporary failure, please try again later.'' @ [CHR 0x0D, CHR 0x0A]"] that
      by (fastforce simp: NUL_def)
  next
    case False
    let ?t = "smtp_lines code (reply_text (con_src_addr con) (map bl_message (list_head l)))"
    have f: "reply_fits (length b) code (con_src_addr con) (list_head l)" "\<not> ends_line (con_src_addr con) (bl_message (last (list_head l)))"
      "List_wf l" using l(2) False a b(2) by (auto simp: lists_ok_def)
    obtain b' p r where r: "Con_build_reply con code = Some (con\<lparr>con_out_buf := Some b', con_out_p := p, con_out_remaining := r\<rparr>)"
        "buf_holds (length b) b' ?t" "p = 0 \<and> r = int (length ?t)"
      using build_reply_black [OF b(1) l(1) f(3,1)] f(2) by auto
    have "?t \<noteq> []"
      using reply_text_lines [of "map bl_message (list_head l)" "con_src_addr con" code] False f(1)
      by (auto simp: reply_fits_def addr_ok_def)
    moreover have "length ?t < length b" using f(1) by (simp add: reply_fits_def)
    moreover have "length b' = length b" using r(2) by (simp add: buf_holds_def)
    ultimately show ?thesis using that r(1,3) b(2) by simp
  qed
qed

lemma next_done_ok:
  assumes "con_base code con" and "con_r con = 0" and "0 < now"
  shows "step_ok code con st (next_done code con st now)"
proof -
  from build_reply_ok [OF assms(1)] obtain b k
    where k: "Con_build_reply con code = Some (con\<lparr>con_out_buf := Some b, con_out_p := 0, con_out_remaining := k\<rparr>)"
      "length b = CON_OUT_BUF_SIZE" "0 < k" "k \<le> int CON_OUT_BUF_SIZE" by metis
  let ?c = "con\<lparr>con_out_buf := Some b, con_out_p := 0, con_out_remaining := k, con_w := now + con_stutter con, con_last_state := con_state con,
    con_state := CON_STATE_CLOSE\<rparr>"
  have "next_done code con st now = Some (?c, st)" using k(1) by (simp add: next_done_def)
  moreover have "con_base code ?c" "con_writes ?c"
    using assms k(2-4) by (auto simp: con_base_def con_writes_def)
  ultimately show ?thesis by (intro step_okI [of _ ?c]) simp_all
qed

lemma next_done_reply:
  assumes "con_base code con" and "con_r con = 0" and "0 < now"
  shows "step_ok code con st (next_done code (con\<lparr>con_last_state := con_state con, con_state := CON_STATE_REPLY\<rparr>) st now)"
proof -
  let ?c = "con\<lparr>con_last_state := con_state con, con_state := CON_STATE_REPLY\<rparr>"
  have "step_ok code ?c st (next_done code ?c st now)"
    by (rule next_done_ok) (use assms in \<open>auto simp: con_base_def\<close>)
  then show ?thesis by (simp add: step_ok_def)
qed

lemma next_start_ok:
  assumes "con_idle code con" and "env_ok E st code" and "0 < now" and "hostname = Some h"
  shows "step_ok code con st (next_start E hostname con st now)"
proof -
  obtain b where "Config_get_str (gs_config st) ''banner'' None (Some GREYD_BANNER) = Some (Some b)" using assms(2) by (auto simp: env_ok_def)
  moreover have "hd (''220 '' @ x) \<noteq> NUL" for x by (simp add: NUL_def)
  ultimately show ?thesis
    using answer_step [OF assms(1) _ assms(3), of CON_STATE_BANNER_OUT
        "''220 '' @ h @ '' ESMTP '' @ b @ ''; '' @ butlast (ce_ctime E now) @ [CHR 0x0D, CHR 0x0A]" st] assms(4)
    by (simp add: next_start_def)
qed

lemma step_ok_trans:
  "step_ok code con1 st res \<Longrightarrow> con_fd con1 = con_fd con \<Longrightarrow> con_blacklists con1 = con_blacklists con \<Longrightarrow> step_ok code con st res"
  by (simp add: step_ok_def)

lemma next_spam_ok:
  assumes "con_idle code con" and "0 < now"
  shows "step_ok code con st (next_spam code greylist con st now)"
proof -
  obtain b where b: "con_out_buf con = Some b" "length b = CON_OUT_BUF_SIZE" using assms(1) by (auto simp: con_idle_def con_base_def)
  have base: "con_base code con" "con_r con = 0" using assms(1) by (simp_all add: con_idle_def)
  show ?thesis
  proof (cases "match (con_in_buf con) ''DATA''")
    case True
    let ?m = "''354 End data with <CR><LF>.<CR><LF>'' @ [CHR 0x0D, CHR 0x0A]"
    have "?m \<noteq> []" "hd ?m \<noteq> NUL" by (simp_all add: NUL_def)
    then obtain b' k where k: "put_out con ?m = Some (con\<lparr>con_out_buf := Some b', con_out_p := 0, con_out_remaining := k\<rparr>)"
        "length b' = CON_OUT_BUF_SIZE" "0 < k" "k \<le> int CON_OUT_BUF_SIZE" by (rule put_out_ok [OF b])
    let ?c = "con\<lparr>con_out_buf := Some b', con_out_p := 0, con_out_remaining := k, con_state := CON_STATE_DATA_OUT, con_in_p := 0,
      con_in_remaining := int CON_BUF_SIZE - 1, con_w := now + con_stutter con\<rparr>"
    have c: "con_base code ?c" "con_r ?c = 0" "con_writes ?c"
      using base assms(2) k(2-4) by (auto simp: con_base_def con_writes_def CON_BUF_SIZE_def)
    have eq: "next_spam code greylist con st now =
        (if greylist \<and> \<not> Con_black ?c then next_done code (?c\<lparr>con_last_state := con_state ?c, con_state := CON_STATE_REPLY\<rparr>) st now
         else Some (?c, st))"
      unfolding next_spam_def Let_def if_P [OF True] k(1) by simp
    show ?thesis
    proof (cases "greylist \<and> \<not> Con_black ?c")
      case t: True
      have "step_ok code ?c st (next_done code (?c\<lparr>con_last_state := con_state ?c, con_state := CON_STATE_REPLY\<rparr>) st now)"
        by (rule next_done_reply [OF c(1,2) assms(2)])
      then show ?thesis unfolding eq if_P [OF t] by (rule step_ok_trans) simp_all
    next
      case t: False
      show ?thesis unfolding eq if_not_P [OF t] by (rule step_okI [OF refl c(1)]) (use c(3) in simp_all)
    qed
  next
    case False
    define noop where "noop = match (con_in_buf con) ''NOOP''"
    let ?m = "(if noop then ''250 OK'' else ''500 Command unrecognized'') @ [CHR 0x0D, CHR 0x0A]"
    have m: "?m \<noteq> []" "hd ?m \<noteq> NUL" by (simp_all add: NUL_def)
    obtain b' where p: "print_out con ?m = Some (con\<lparr>con_out_buf := Some b'\<rparr>)" "length b' = CON_OUT_BUF_SIZE"
        "?m \<noteq> [] \<and> hd ?m \<noteq> NUL \<longrightarrow> c_str b' \<noteq> []" by (rule print_out_ok [OF b])
    have c_str: "c_str b' \<noteq> []" using p(3) m by blast
    let ?c = "(con\<lparr>con_out_buf := Some b'\<rparr>)\<lparr>con_bad_cmd := (if noop then con_bad_cmd con else con_bad_cmd con + 1)\<rparr>"
    let ?d = "?c\<lparr>con_out_p := 0, con_out_remaining := int (length (c_str b')), con_state := con_last_state con, con_in_p := 0,
      con_in_remaining := int CON_BUF_SIZE - 1, con_w := now + con_stutter con\<rparr>"
    have c: "con_base code ?c" "con_r ?c = 0" using base p(2) by (auto simp: con_base_def)
    have "length (c_str b') \<le> CON_OUT_BUF_SIZE" using length_c_str [of "b'"] p(2) by simp
    then have d: "con_base code ?d" "con_writes ?d"
      using base assms(2) p(2) c_str by (auto simp: con_base_def con_writes_def CON_BUF_SIZE_def)
    have eq: "next_spam code greylist con st now =
        (if \<not> noop \<and> con_bad_cmd ?c > CON_MAX_BAD_CMD then next_done code (?c\<lparr>con_last_state := con_state ?c, con_state := CON_STATE_REPLY\<rparr>) st now
         else Some (?d, st))"
      unfolding next_spam_def Let_def if_not_P [OF False] noop_def [symmetric] p(1) by (simp add: point_out_def)
    show ?thesis
    proof (cases "\<not> noop \<and> con_bad_cmd ?c > CON_MAX_BAD_CMD")
      case t: True
      have "step_ok code ?c st (next_done code (?c\<lparr>con_last_state := con_state ?c, con_state := CON_STATE_REPLY\<rparr>) st now)"
        by (rule next_done_reply [OF c assms(2)])
      then show ?thesis unfolding eq if_P [OF t] by (rule step_ok_trans) simp_all
    next
      case t: False
      show ?thesis unfolding eq if_not_P [OF t] by (rule step_okI [OF refl d(1)]) (use d(2) in simp_all)
    qed
  qed
qed

lemma orig_dst_ok:
  assumes "env_ok E st code"
  shows "\<exists>con' f. Con_get_orig_dst E con st = Some (con', st\<lparr>gs_fw_out := gs_fw_out st @ f\<rparr>) \<and> (\<exists>d. con' = con\<lparr>con_dst_addr := d\<rparr>)"
proof -
  have same: "\<exists>con' f. Some (con, st) = Some (con', st\<lparr>gs_fw_out := gs_fw_out st @ f\<rparr>) \<and> (\<exists>d. con' = con\<lparr>con_dst_addr := d\<rparr>)"
    by (intro exI [of _ con] exI [of _ "[]"] conjI exI [of _ "con_dst_addr con"]) simp_all
  show ?thesis
  proof (cases "gs_proxy_protocol_enabled st \<or> ce_getsockname E (con_fd con) = None")
    case True
    then show ?thesis using same by (auto simp: Con_get_orig_dst_def)
  next
    case False
    then obtain ss where ss: "ce_getsockname E (con_fd con) = Some ss" by auto
    show ?thesis
    proof (cases "ce_getnameinfo E ss")
      case None
      then show ?thesis using same ss False by (simp add: Con_get_orig_dst_def)
    next
      case (Some proxy)
      define req where "req = nat_request (con_src_addr con) (sa_port (con_src con)) proxy (sa_port ss)"
      let ?st = "st\<lparr>gs_fw_out := gs_fw_out st @ req\<rparr>" and ?con = "con\<lparr>con_dst_addr := []\<rparr>"
      have sent: "\<exists>con' f. Some (con1, ?st) = Some (con', st\<lparr>gs_fw_out := gs_fw_out st @ f\<rparr>) \<and> (\<exists>d. con' = con\<lparr>con_dst_addr := d\<rparr>)"
        if "con1 = con\<lparr>con_dst_addr := d\<rparr>" for con1 d using that by blast
      show ?thesis
      proof (cases "ce_fflush E \<and> ce_fw_reply E req \<noteq> None")
        case f: False
        have "Con_get_orig_dst E con st = Some (if ce_fflush E then ?con else con, ?st)"
          using f ss Some False by (auto simp: Con_get_orig_dst_def req_def [symmetric] Let_def)
        then show ?thesis using sent [of ?con "[]"] sent [of con "con_dst_addr con"] by (cases "ce_fflush E") simp_all
      next
        case t: True
        then obtain d where d: "plain d" "ce_fw_reply E req = Some (message_text ''='' [(''dst'', M_str d)])"
          using assms by (force simp: env_ok_def)
        let ?lexer = "Lexer_create (ce_lexer_value E) (ce_lexer_tok E) (Lexer_source_create_from_fd (message_text ''='' [(''dst'', M_str d)] @ []))"
        have ok: "message_ok [(''dst'', M_str d)]" using d(1) by (simp add: message_ok_def)
        let ?q = "message_parser ?lexer (ce_lexer_tok E) (ce_lexer_tok E)"
        have "lx (cp_lexer ?q) (message_text ''='' [(''dst'', M_str d)] @ [])" "cp_section ?q = None"
          by (simp_all add: lx_def message_parser_def Config_parser_create_def Lexer_create_def Lexer_source_create_from_fd_def)
        from message_parse [OF this(1) ok _ _ this(2)] obtain p
          where p: "Config_parser_start (ce_glob E) ?q Config_create = Some (True, p)" "msg_config (cp_config p) (msg_vars [(''dst'', M_str d)])"
          by auto
        have "Config_get_str (cp_config p) ''dst'' None (Some []) = Some (Some d)"
          using msg_vars_get [OF _ p(2)] by (simp add: CONFIG_SEC_INIT_ENTRIES_def msg_vars_def)
        then have "Con_get_orig_dst E con st = Some (?con\<lparr>con_dst_addr := take (INET6_ADDRSTRLEN - 1) d\<rparr>, ?st)"
          using t d(2) p(1) ss Some False by (simp add: Con_get_orig_dst_def req_def [symmetric] Let_def)
        then show ?thesis using sent [of "?con\<lparr>con_dst_addr := take (INET6_ADDRSTRLEN - 1) d\<rparr>"] by simp
      qed
    qed
  qed
qed

lemma str_buf_keep:
  assumes "str_buf n f" and "length f' = length f" and "\<And>j. f ! j = NUL \<Longrightarrow> j < length f \<Longrightarrow> f' ! j = NUL"
  shows "str_buf n f'"
proof -
  obtain j where "j < length f" "f ! j = NUL" using assms(1) by (auto simp: str_buf_def in_set_conv_nth)
  then show ?thesis using assms by (metis in_set_conv_nth str_buf_def)
qed

text \<open>The address of a \<open>MAIL\<close> or \<open>RCPT\<close> command.\<close>

lemma email_ok:
  assumes "str_buf CON_BUF_SIZE f" and "str_buf GREY_MAX_MAIL old"
  obtains email f' addr where "set_log (replicate GREY_MAX_MAIL NUL) GREY_MAX_MAIL f = Some (email, f')"
    and "normalize_email_addr (c_str email) old (int (length old)) = Some addr"
    and "str_buf CON_BUF_SIZE f'" and "str_buf GREY_MAX_MAIL addr"
proof -
  have "str_buf GREY_MAX_MAIL (replicate GREY_MAX_MAIL NUL)" using assms(2) by (simp add: str_buf_def)
  from set_log_ok [OF this, of f] obtain email f' where e: "set_log (replicate GREY_MAX_MAIL NUL) GREY_MAX_MAIL f = Some (email, f')"
      "str_buf GREY_MAX_MAIL email" "length f' = length f" "\<And>j. f ! j = NUL \<Longrightarrow> j < length f \<Longrightarrow> f' ! j = NUL" by metis
  have l: "length old = GREY_MAX_MAIL" using assms(2) by (simp add: str_buf_def)
  obtain addr where "normalize_email_addr (c_str email) old (int (length old)) = Some addr" "str_buf GREY_MAX_MAIL addr"
    using normalize_ok [OF str_buf_c_str [OF e(2)] l] l by auto
  then show ?thesis using that e(1) str_buf_keep [OF assms(1) e(3,4)] by metis
qed

lemma idle_bufs:
  assumes "con_idle code con"
  shows "str_buf CON_BUF_SIZE (con_in_buf con)" and "str_buf GREY_MAX_MAIL (con_helo con)" and "str_buf GREY_MAX_MAIL (con_mail con)"
    and "str_buf GREY_MAX_MAIL (con_rcpt con)"
  using assms by (simp_all add: con_idle_def con_base_def)

lemma ok_250: "''250 OK'' @ [CHR 0x0D, CHR 0x0A] \<noteq> []" "hd (''250 OK'' @ [CHR 0x0D, CHR 0x0A]) \<noteq> NUL"
  by (simp_all add: NUL_def)

lemma next_rcpt_ok:
  assumes "con_idle code con" and "0 < now" and "env_ok E st code"
  shows "step_ok code con st (next_rcpt E code greylist con st now)"
proof (cases "match (con_in_buf con) ''RCPT''")
  case False
  then show ?thesis using next_spam_ok [OF assms(1,2)] by (simp add: next_rcpt_def)
next
  case True
  obtain email f addr where e: "set_log (replicate GREY_MAX_MAIL NUL) GREY_MAX_MAIL (con_in_buf con) = Some (email, f)"
      "normalize_email_addr (c_str email) (con_rcpt con) (int (length (con_rcpt con))) = Some addr"
      "str_buf CON_BUF_SIZE f" "str_buf GREY_MAX_MAIL addr"
    using email_ok [OF idle_bufs(1,4) [OF assms(1)]] by metis
  let ?c = "con\<lparr>con_in_buf := f, con_rcpt := addr\<rparr>"
  have "con_idle code ?c" using assms(1) e(3,4) by (auto simp: con_idle_def con_base_def)
  from answer_ok [OF this valid_states(10) assms(2) ok_250] obtain c1
    where c1: "answer ?c (''250 OK'' @ [CHR 0x0D, CHR 0x0A]) CON_STATE_RCPT_OUT now = Some c1"
      "con_base code c1" "con_writes c1" "con_fd c1 = con_fd con" "con_blacklists c1 = con_blacklists con" by auto
  obtain c2 g d where c2: "Con_get_orig_dst E c1 st = Some (c2, st\<lparr>gs_fw_out := gs_fw_out st @ g\<rparr>)" "c2 = c1\<lparr>con_dst_addr := d\<rparr>"
    using orig_dst_ok [OF assms(3)] by metis
  have b2: "con_base code c2" "con_writes c2" using c1(2,3) c2(2) by (auto simp: con_base_def con_writes_def)
  let ?grey = "c_str (con_mail c1) \<noteq> [] \<and> c_str (con_rcpt c1) \<noteq> [] \<and> greylist \<and> \<not> Con_black c1"
  let ?st = "st\<lparr>gs_fw_out := gs_fw_out st @ g\<rparr>"
  have eq: "next_rcpt E code greylist con st now =
      (if ?grey then Some (c2, ?st\<lparr>gs_grey_out := gs_grey_out st @ grey_report c2\<rparr>) else Some (c1, st))"
    unfolding next_rcpt_def if_P [OF True] e(1) Option.bind.simps prod.case e(2) c1(1) c2(1) by simp
  show ?thesis
  proof (cases ?grey)
    case g: True
    have "next_rcpt E code greylist con st now =
        Some (c2, st\<lparr>gs_grey_out := gs_grey_out st @ grey_report c2, gs_fw_out := gs_fw_out st @ g\<rparr>)"
      unfolding eq if_P [OF g] by simp
    then show ?thesis unfolding step_ok_def using b2 c1(4,5) c2(2) by auto
  next
    case g: False
    show ?thesis unfolding eq if_not_P [OF g] by (rule step_okI [OF refl c1(2)]) (use c1(3-5) in simp_all)
  qed
qed

lemma next_mail_ok:
  assumes "con_idle code con" and "0 < now" and "env_ok E st code"
  shows "step_ok code con st (next_mail E code greylist con st now)"
proof (cases "match (con_in_buf con) ''MAIL''")
  case False
  then show ?thesis using next_rcpt_ok [OF assms] by (simp add: next_mail_def)
next
  case True
  obtain email f addr where e: "set_log (replicate GREY_MAX_MAIL NUL) GREY_MAX_MAIL (con_in_buf con) = Some (email, f)"
      "normalize_email_addr (c_str email) (con_mail con) (int (length (con_mail con))) = Some addr"
      "str_buf CON_BUF_SIZE f" "str_buf GREY_MAX_MAIL addr"
    using email_ok [OF idle_bufs(1,3) [OF assms(1)]] by metis
  let ?c = "con\<lparr>con_in_buf := f, con_mail := addr\<rparr>"
  have "con_idle code ?c" using assms(1) e(3,4) by (auto simp: con_idle_def con_base_def)
  from answer_step [OF this valid_states(8) assms(2) ok_250, of st]
  have "step_ok code ?c st (next_mail E code greylist con st now)"
    unfolding next_mail_def if_P [OF True] e(1) Option.bind.simps prod.case e(2) .
  then show ?thesis by (rule step_ok_trans) simp_all
qed

lemma helo_ok:
  assumes "str_buf CON_BUF_SIZE f" and "str_buf GREY_MAX_MAIL old"
  obtains helo f' where "get_helo (old[0 := NUL]) (length old) f = Some (helo, f')" and "str_buf GREY_MAX_MAIL helo" and "str_buf CON_BUF_SIZE f'"
proof -
  have s: "str_buf GREY_MAX_MAIL (old[0 := NUL])" using assms(2) by (auto simp: str_buf_def set_update_memI)
  have l: "length old = GREY_MAX_MAIL" using assms(2) by (simp add: str_buf_def)
  from copy_word_ok [OF s, of f "skip_blanks f 4"] obtain p f' where "copy_word (old[0 := NUL]) GREY_MAX_MAIL f (skip_blanks f 4) = Some (p, f')"
      "str_buf GREY_MAX_MAIL p" "length f' = length f" "\<And>j. f ! j = NUL \<Longrightarrow> j < length f \<Longrightarrow> f' ! j = NUL" by metis
  then show ?thesis using that [of p "f'"] str_buf_keep [OF assms(1), of "f'"] l by (simp add: get_helo_def)
qed

lemma next_helo_ok:
  assumes "con_idle code con" and "0 < now" and "env_ok E st code" and "hostname = Some h"
  shows "step_ok code con st (next_helo E hostname code greylist con st now)"
proof (cases "match (con_in_buf con) ''HELO'' \<or> match (con_in_buf con) ''EHLO''")
  case False
  then show ?thesis using next_mail_ok [OF assms(1-3)] by (simp add: next_helo_def)
next
  case True
  obtain helo f where e: "get_helo ((con_helo con)[0 := NUL]) (length (con_helo con)) (con_in_buf con) = Some (helo, f)"
      "str_buf GREY_MAX_MAIL helo" "str_buf CON_BUF_SIZE f"
    using helo_ok [OF idle_bufs(1,2) [OF assms(1)]] by metis
  let ?c = "con\<lparr>con_helo := helo, con_in_buf := f\<rparr>"
  have c: "con_idle code ?c" using assms(1) e(2,3) by (auto simp: con_idle_def con_base_def)
  let ?a = "if c_str helo = [] then answer ?c (''501 Syntax: '' @ (if match f ''HELO'' then ''HELO'' else ''EHLO'') @ '' hostname'' @ [CHR 0x0D, CHR 0x0A])
      CON_STATE_BANNER_OUT now else answer ?c (''250 '' @ h @ [CHR 0x0D, CHR 0x0A]) CON_STATE_HELO_OUT now"
  have "step_ok code ?c st (do { c2 \<leftarrow> ?a; Some (c2, st) })"
  proof (cases "c_str helo = []")
    case e: True
    show ?thesis unfolding if_P [OF e] by (rule answer_step [OF c _ assms(2)]) (simp_all add: NUL_def)
  next
    case e: False
    show ?thesis unfolding if_not_P [OF e] by (rule answer_step [OF c _ assms(2)]) (simp_all add: NUL_def)
  qed
  then have "step_ok code ?c st (next_helo E hostname code greylist con st now)"
    unfolding next_helo_def if_P [OF True] e(1) Option.bind.simps prod.case assms(4) Let_def .
  then show ?thesis by (rule step_ok_trans) simp_all
qed

text \<open>A blacklist in list storage, all of whose entries lie in its block of memory.\<close>

definition list_readable :: "Blacklist_T \<Rightarrow> bool" where
  "list_readable bl \<longleftrightarrow> bl_type bl = BL_STORAGE_LIST \<and> (\<exists>b. bl_entries bl = Some b \<and> bl_count bl \<le> blk_cap b)"

lemma list_readable_add:
  assumes "list_readable bl" and "Blacklist_add inet_pton bl address = Some (ret, bl')"
  shows "list_readable bl'"
proof -
  have "bl_type bl = BL_STORAGE_LIST" "bl_type (grow_entries bl) = bl_type bl"
    using assms(1) by (simp_all add: list_readable_def grow_entries_def Let_def)
  then show ?thesis
    using assms(2) by (auto simp: Blacklist_add_def list_readable_def BL_STORAGE_LIST_def BL_STORAGE_TRIE_def Let_def write_entry_def
        bind_eq_Some_conv split: prod.splits if_splits)
qed

lemma list_readable_values: "list_readable bl \<Longrightarrow> add_values inet_pton vs bl = Some bl' \<Longrightarrow> list_readable bl'"
  by (induction vs arbitrary: bl) (auto simp: bind_eq_Some_conv split: option.splits dest: list_readable_add)

lemma permitted_readable:
  assumes "Greyd_set_proxy_protocol_permitted_proxies inet_pton cidrs = Some bl"
  shows "list_readable bl"
proof -
  have "list_readable (Blacklist_create ''permitted-proxies'' ''permitted upstream proxies'' BL_STORAGE_LIST)"
    by (simp add: list_readable_def Blacklist_create_def Let_def)
  then show ?thesis
    using assms list_readable_values
    by (auto simp: Greyd_set_proxy_protocol_permitted_proxies_def Let_def split: option.splits if_splits)
qed

lemma match_entries_total: "i + n \<le> blk_cap b \<Longrightarrow> \<exists>r. match_entries (Some b) a af i n = Some r"
  by (induction n arbitrary: i) (auto simp: read_entry_def)

lemma list_readable_match:
  assumes "list_readable bl"
  obtains r where "Blacklist_match bl a af = Some r"
proof -
  obtain b where b: "bl_type bl = BL_STORAGE_LIST" "bl_entries bl = Some b" "bl_count bl \<le> blk_cap b"
    using assms by (auto simp: list_readable_def)
  then show thesis
    using match_entries_total [of 0 "bl_count bl" b a af] that
    by (auto simp: Blacklist_match_def BL_STORAGE_LIST_def BL_STORAGE_TRIE_def)
qed

lemma proxy_match:
  assumes "env_ok E st code"
  obtains b where "allow_proxy E con st = Some b"
proof -
  have "list_readable (gs_permitted_proxies st)" using assms permitted_readable by (auto simp: env_ok_def)
  then have "\<exists>r. Blacklist_match (gs_permitted_proxies st) a af = Some r" for a af by (metis list_readable_match)
  then show ?thesis using that by (cases "IP_sockaddr_to_addr (con_src con) (ce_uninit_addr E)") (auto simp: allow_proxy_def)
qed

lemma proxy_header_ok:
  assumes "\<And>af ip. addr_ok (ce_inet_ntop E af ip)" and "addr_ok src" and "parse_proxy_protocol_header E src dst hdr = (ret, src', dst')"
  shows "addr_ok src'"
  using assms(2,3) unfolding parse_proxy_protocol_header_def
  by (auto simp: assms(1) Let_def split: list.splits if_splits option.splits)

lemma next_proxy_ok:
  assumes "con_idle code con" and "0 < now" and "env_ok E st code" and "hostname = Some h"
  shows "step_ok code con st (next_proxy E hostname code con st now)"
proof -
  have base: "con_base code con" "con_r con = 0" using assms(1) by (simp_all add: con_idle_def)
  obtain allowed where a: "(if match (con_in_buf con) ''PROXY'' then allow_proxy E con st else Some False) = Some allowed"
    using proxy_match [OF assms(3), of con] by (metis (full_types))
  show ?thesis
  proof (cases allowed)
    case False
    then show ?thesis using next_done_ok [OF base assms(2), of st] a by (simp add: next_proxy_def)
  next
    case True
    obtain ret src dst where p: "parse_proxy_protocol_header E (con_src_addr con) (con_dst_addr con) (c_str (con_in_buf con)) = (ret, src, dst)"
      using prod_cases3 by blast
    have "addr_ok src" using proxy_header_ok [OF _ _ p] assms(3) base(1) by (simp add: env_ok_def con_base_def)
    then have c: "con_idle code (con\<lparr>con_src_addr := src, con_dst_addr := dst\<rparr>)" using assms(1) by (auto simp: con_idle_def con_base_def)
    let ?c = "con\<lparr>con_src_addr := src, con_dst_addr := dst\<rparr>"
    have "next_proxy E hostname code con st now =
        (if ret = PROXY_OK then next_start E hostname ?c st now else next_done code ?c st now)"
      using a p True by (simp add: next_proxy_def)
    moreover have "step_ok code ?c st (next_start E hostname ?c st now)" by (rule next_start_ok [OF c assms(3,2,4)])
    moreover have "step_ok code ?c st (next_done code ?c st now)"
      by (rule next_done_ok) (use c assms(2) in \<open>simp_all add: con_idle_def\<close>)
    ultimately have "step_ok code ?c st (next_proxy E hostname code con st now)" by simp
    then show ?thesis by (rule step_ok_trans) simp_all
  qed
qed

lemma next_message_ok:
  assumes "con_idle code con" and "0 < now"
  shows "step_ok code con st (next_message code con st now)"
proof -
  have b: "str_buf CON_BUF_SIZE (con_in_buf con)" "con_in_p con < CON_BUF_SIZE" using assms(1) by (simp_all add: con_idle_def con_base_def)
  then have "con_in_p con < length (con_in_buf con)" by (simp add: str_buf_def)
  from body_loop_ok [OF this, of 0 0 "con_data_body con" "con_data_lines con"] obtain e buf body n
    where l: "body_loop (con_in_buf con) (con_in_p con) 0 0 (con_data_body con) (con_data_lines con) = Some (e, buf, body, n)"
      "length buf = length (con_in_buf con)" "\<forall>j<length (con_in_buf con). con_in_buf con ! j = NUL \<longrightarrow> buf ! j = NUL" by auto
  have "str_buf CON_BUF_SIZE buf" using str_buf_keep [OF b(1) l(2)] l(3) by blast
  then have c: "con_idle code (con\<lparr>con_in_buf := buf, con_data_body := body, con_data_lines := n\<rparr>)"
    using assms(1) by (auto simp: con_idle_def con_base_def)
  let ?c = "con\<lparr>con_in_buf := buf, con_data_body := body, con_data_lines := n\<rparr>"
  let ?d = "?c\<lparr>con_in_p := 0, con_in_remaining := int CON_BUF_SIZE - 1, con_r := now\<rparr>"
  show ?thesis
  proof (cases e)
    case True
    have "step_ok code ?c st (next_done code (?c\<lparr>con_last_state := con_state ?c, con_state := CON_STATE_REPLY\<rparr>) st now)"
      by (rule next_done_reply) (use c assms(2) in \<open>simp_all add: con_idle_def\<close>)
    then have "step_ok code ?c st (next_message code con st now)" using l(1) True by (simp add: next_message_def)
    then show ?thesis by (rule step_ok_trans) simp_all
  next
    case False
    have d: "con_base code ?d" "con_reads ?d" using c assms(2) by (auto simp: con_idle_def con_base_def con_reads_def CON_BUF_SIZE_def)
    have "next_message code con st now = Some (?d, st)" using l(1) False by (simp add: next_message_def)
    then show ?thesis by (rule step_okI [OF _ d(1)]) (use d(2) in simp_all)
  qed
qed

text \<open>The step of the state machine: it keeps the invariant, or closes the connection in its last state.\<close>

lemma next_state_ok:
  assumes "con_idle code con" and "0 < now" and "env_ok E st code"
  shows "step_ok code con st (Con_next_state E con now st) \<or>
    con_state con = CON_STATE_CLOSE \<and> Con_next_state E con now st = Some (Con_close con st)"
proof -
  obtain h n where c: "Config_get_str (gs_config st) ''hostname'' None None = Some (Some h)"
      "Config_get_str (gs_config st) ''error_code'' None (Some CON_ERROR_CODE) = Some (Some code)"
      "Config_get_int (gs_config st) ''enable'' (Some ''grey'') 1 = Some n"
    using assms(3) by (auto simp: env_ok_def)
  have v: "con_valid_state (con_state con)" using assms(1) by (simp add: con_idle_def con_base_def)
  have quit: "step_ok code con st (do { con1 \<leftarrow> answer con (''221 '' @ h @ [CHR 0x0D, CHR 0x0A]) CON_STATE_CLOSE now; Some (con1, st) })"
    by (rule answer_step [OF assms(1) _ assms(2)]) (simp_all add: NUL_def)
  have rset: "step_ok code con st (do { con1 \<leftarrow> answer con (''250 OK'' @ [CHR 0x0D, CHR 0x0A]) CON_STATE_HELO_OUT now; Some (con1, st) })"
    by (rule answer_step [OF assms(1) _ assms(2) ok_250]) simp
  have fin: "step_ok code con st (next_done code con st now)"
    by (rule next_done_ok) (use assms(1,2) in \<open>simp_all add: con_idle_def\<close>)
  note steps = quit rset fin wait_input_ok [OF assms(1) _ assms(2), of _ st] next_proxy_ok [OF assms refl, where h = h] next_start_ok [OF assms(1,3,2) refl, where h = h]
    next_helo_ok [OF assms refl, where h = h and greylist = "n \<noteq> 0"] next_mail_ok [OF assms, where greylist = "n \<noteq> 0"]
    next_rcpt_ok [OF assms, where greylist = "n \<noteq> 0"] next_spam_ok [OF assms(1,2), where st = st and greylist = "n \<noteq> 0"] next_message_ok [OF assms(1,2), of st]
  show ?thesis
    unfolding Con_next_state_def c Option.bind.simps Let_def
    using v steps unfolding con_valid_state_def by (auto simp: con_states)
qed

section \<open>Events\<close>

text \<open>What an event does: a step, or the connection is closed and the counts of the clients are taken back.\<close>

definition event_ok :: "string \<Rightarrow> Con \<Rightarrow> Greyd_state \<Rightarrow> (Con \<times> Greyd_state) option \<Rightarrow> bool" where
  "event_ok code con st res \<longleftrightarrow>
     step_ok code con st res \<or> (\<exists>con'. res = Some (con', snd (Con_close con st)) \<and> con_fd con' = - 1)"

lemma close_state: "con_blacklists con1 = con_blacklists con \<Longrightarrow> snd (Con_close con1 st) = snd (Con_close con st)"
  by (simp add: Con_close_def Let_def)

lemma close_fd [simp]: "con_fd (fst (Con_close con st)) = - 1"
  by (simp add: Con_close_def Let_def)

lemma close_keeps [simp]: "con_in_remaining (fst (Con_close con st)) = con_in_remaining con"
  "con_out_remaining (fst (Con_close con st)) = con_out_remaining con"
  by (simp_all add: Con_close_def Let_def)

lemma event_step: "step_ok code con1 st res \<or> c \<and> res = Some (Con_close con1 st) \<Longrightarrow> con_fd con1 = con_fd con \<Longrightarrow>
    con_blacklists con1 = con_blacklists con \<Longrightarrow> event_ok code con st res"
  using step_ok_trans [of code con1 st res con] close_state [of con1 con st] close_fd [of con1 st]
  by (cases "Con_close con1 st") (auto simp: event_ok_def)

lemma event_close: "res = Some (con', snd (Con_close con1 st)) \<Longrightarrow> con_fd con' = - 1 \<Longrightarrow>
    con_blacklists con1 = con_blacklists con \<Longrightarrow> event_ok code con st res"
  using close_state [of con1 con st] by (auto simp: event_ok_def)

lemma handle_read_ok:
  assumes "con_base code con" and "con_reads con" and "0 < now" and "env_ok E st code"
    and "\<forall>cs. input = Some cs \<longrightarrow> int (length cs) \<le> con_in_remaining con"
  shows "event_ok code con st (Con_handle_read E con now st input)"
proof (cases "input = None \<or> input = Some []")
  case True
  have r: "con_r con \<noteq> 0" "con_in_remaining con \<noteq> 0" using assms(2) by (auto simp: con_reads_def)
  obtain c s where c: "Con_close con st = (c, s)" by fastforce
  have "con_in_remaining c \<noteq> 0" using close_keeps(1) [of con st] r(2) c by simp
  then have "Con_handle_read E con now st input = Some (c, s)" using True r(1) c by (auto simp: Con_handle_read_def)
  then show ?thesis using c close_fd [of con st] by (intro event_close [of _ c con]) simp_all
next
  case False
  then obtain cs where cs: "input = Some cs" "cs \<noteq> []" by auto
  have b: "length (con_in_buf con) = CON_BUF_SIZE" using assms(1) by (simp add: con_base_def str_buf_def)
  have r: "con_r con \<noteq> 0" "con_w con = 0" using assms(2) by (auto simp: con_reads_def)
  have le: "int (length cs) \<le> con_in_remaining con" using assms(5) cs(1) by simp
  then have l: "con_in_p con + length cs < CON_BUF_SIZE" using assms(2) by (simp add: con_reads_def)
  define buf where "buf = take (con_in_p con) (con_in_buf con) @ (cs @ [NUL]) @ drop (con_in_p con + length (cs @ [NUL])) (con_in_buf con)"
  have w: "buf_write (con_in_buf con) (con_in_p con) (cs @ [NUL]) = Some buf"
    using l b by (simp add: buf_write_def buf_def)
  have lb: "str_buf CON_BUF_SIZE buf" using l b by (simp add: buf_def str_buf_def)
  define e where "e \<longleftrightarrow> con_r_end_chars con \<noteq> [] \<and> (\<exists>c\<in>set (c_str (drop (con_in_p con) buf)). c \<in> set (con_r_end_chars con))"
  let ?c = "con\<lparr>con_in_buf := buf, con_in_p := con_in_p con + length cs, con_in_remaining := con_in_remaining con - int (length cs)\<rparr>"
  have c: "con_base code ?c" using assms(1) lb l by (auto simp: con_base_def)
  have eq: "Con_handle_read E con now st input = (if e \<or> con_in_remaining ?c = 0
      then (let p = trim_eol (con_in_buf ?c) (con_in_p ?c) in
            do { b \<leftarrow> buf_write (con_in_buf ?c) p [NUL]; Con_next_state E (?c\<lparr>con_in_p := p, con_in_buf := b, con_r := 0\<rparr>) now st })
      else Some (?c, st))"
    unfolding Con_handle_read_def if_P [OF r(1)] cs(1)
    using w cs(2) by (cases cs) (simp_all add: e_def [symmetric] Let_def)
  show ?thesis
  proof (cases "e \<or> con_in_remaining ?c = 0")
    case False
    then have "con_reads ?c" using assms(2) le cs(2) by (auto simp: con_reads_def)
    then have "step_ok code con st (Some (?c, st))" by (intro step_okI [OF refl c]) simp_all
    then show ?thesis unfolding eq if_not_P [OF False] by (simp add: event_ok_def)
  next
    case True
    define p where "p = trim_eol (con_in_buf ?c) (con_in_p ?c)"
    have "p \<le> con_in_p ?c"
      using length_dropWhile_le [of "\<lambda>c. c = CHR 0x0D \<or> c = CHR 0x0A" "rev (take (con_in_p ?c) (con_in_buf ?c))"]
      by (simp add: p_def trim_eol_def)
    then have p: "p < CON_BUF_SIZE" using l by simp
    let ?b = "take p buf @ [NUL] @ drop (p + 1) buf"
    have wb: "buf_write buf p [NUL] = Some ?b" using p lb by (simp add: buf_write_def str_buf_def)
    have "str_buf CON_BUF_SIZE ?b" using p lb by (simp add: str_buf_def)
    then have i: "con_idle code (?c\<lparr>con_in_p := p, con_in_buf := ?b, con_r := 0\<rparr>)"
      using c p r(2) by (auto simp: con_idle_def con_base_def)
    have "Con_handle_read E con now st input = Con_next_state E (?c\<lparr>con_in_p := p, con_in_buf := ?b, con_r := 0\<rparr>) now st"
      unfolding eq if_P [OF True] p_def [symmetric] Let_def using wb by simp
    then show ?thesis using event_step [OF next_state_ok [OF i assms(3,4)], of con] by simp
  qed
qed

lemma handle_write_ok:
  assumes "con_base code con" and "con_writes con" and "0 < now" and "env_ok E st code" and "\<And>k. 0 < k \<Longrightarrow> nwritten k \<le> k"
  shows "event_ok code con st (Con_handle_write E con now st cr nwritten)"
proof -
  obtain n s where cfg: "Config_get_int (gs_config st) ''enable'' (Some ''grey'') 1 = Some n"
      "Config_get_int (gs_config st) ''stutter'' (Some ''grey'') CON_GREY_STUTTER = Some s" using assms(4) by (auto simp: env_ok_def)
  obtain buf where buf: "con_out_buf con = Some buf" "length buf = CON_OUT_BUF_SIZE" using assms(1) by (auto simp: con_base_def)
  have w: "con_w con \<noteq> 0" "con_r con = 0" "0 < con_out_remaining con" "con_out_p con < length buf"
    using assms(2) buf(2) by (auto simp: con_writes_def)
  define con0 where "con0 = (if con_stutter con \<noteq> 0 \<and> n \<noteq> 0 \<and> \<not> Con_black con \<and> now - con_s con > s then con\<lparr>con_stutter := 0\<rparr> else con)"
  have con0: "con_base code con0" "con_writes con0" "con_r con0 = 0" "con_out_buf con0 = Some buf" "con_out_p con0 = con_out_p con" "con_w con0 \<noteq> 0"
      "con_out_remaining con0 = con_out_remaining con" "con_fd con0 = con_fd con" "con_blacklists con0 = con_blacklists con"
    using assms(1,2) w(1,2) buf(1) by (auto simp: con0_def con_base_def con_writes_def)
  let ?c = "buf ! con_out_p con"
  have nth: "nth_opt buf (con_out_p con0) = Some ?c" using w(4) con0(5) by simp
  let ?con2 = "con0\<lparr>con_seen_cr := (?c = CHR 0x0D)\<rparr>"
  define k where "k = nwritten (if gs_clients st + CON_CLIENT_TOLERENCE < gs_max_cons st \<and> con_stutter ?con2 \<noteq> 0 then 1 else con_out_remaining ?con2)"
  let ?con4 = "?con2\<lparr>con_out_p := con_out_p ?con2 + nat k, con_out_remaining := con_out_remaining ?con2 - k\<rparr>"
  let ?res = "\<lambda>(con1, st1). let con3 = con1\<lparr>con_w := now + con_stutter con1\<rparr> in
    if con_out_remaining con3 = 0 then Con_next_state E (con3\<lparr>con_w := 0\<rparr>) now st1 else Some (con3, st1)"
  have eq: "Con_handle_write E con now st cr nwritten =
      ?res (if ?c = CHR 0x0A \<and> \<not> con_seen_cr con0 \<and> cr \<le> 0 then Con_close con0 st
            else if k \<le> 0 then Con_close ?con2 st else (?con4, st))"
    unfolding Con_handle_write_def cfg Option.bind.simps con0_def [symmetric] Let_def if_P [OF con0(6)] con0(4) nth k_def
    by (simp split: prod.splits)
  have closed: "event_ok code con st (?res (Con_close con1 st))"
    if "con_blacklists con1 = con_blacklists con" "con_out_remaining con1 = con_out_remaining con" for con1
  proof -
    obtain c s where c: "Con_close con1 st = (c, s)" by fastforce
    have "con_out_remaining c \<noteq> 0" "con_fd c = - 1" using close_keeps(2) [of con1 st] close_fd [of con1 st] that(2) w(3) c by simp_all
    then have "?res (Con_close con1 st) = Some (c\<lparr>con_w := now + con_stutter c\<rparr>, s)" using c by simp
    then show ?thesis using that(1) c \<open>con_fd c = - 1\<close> by (intro event_close [of _ "c\<lparr>con_w := now + con_stutter c\<rparr>" con1]) simp_all
  qed
  consider (cr) "?c = CHR 0x0A \<and> \<not> con_seen_cr con0 \<and> cr \<le> 0" | (fail) "\<not> (?c = CHR 0x0A \<and> \<not> con_seen_cr con0 \<and> cr \<le> 0)" "k \<le> 0"
    | (sent) "\<not> (?c = CHR 0x0A \<and> \<not> con_seen_cr con0 \<and> cr \<le> 0)" "\<not> k \<le> 0" by blast
  then show ?thesis
  proof cases
    case cr
    show ?thesis unfolding eq if_P [OF cr] by (rule closed) (use con0 in simp_all)
  next
    case fail
    show ?thesis unfolding eq if_not_P [OF fail(1)] if_P [OF fail(2)] by (rule closed) (use con0 in simp_all)
  next
    case sent
    have "k \<le> con_out_remaining con" using assms(5) [of 1] assms(5) [OF w(3)] w(3) con0(7) unfolding k_def by (simp split: if_splits)
    then have k: "0 < k" "k \<le> con_out_remaining con" using sent(2) by simp_all
    let ?con3 = "?con4\<lparr>con_w := now + con_stutter ?con4\<rparr>"
    have b: "con_base code ?con3" "con_w ?con3 \<noteq> 0" "con_fd ?con3 = con_fd con" "con_blacklists ?con3 = con_blacklists con"
      using con0 assms(3) by (auto simp: con_base_def)
    have eq3: "Con_handle_write E con now st cr nwritten =
        (if con_out_remaining ?con3 = 0 then Con_next_state E (?con3\<lparr>con_w := 0\<rparr>) now st else Some (?con3, st))"
      unfolding eq if_not_P [OF sent(1)] if_not_P [OF sent(2)] by (simp add: Let_def)
    show ?thesis
    proof (cases "con_out_remaining ?con3 = 0")
      case True
      have "con_idle code (?con3\<lparr>con_w := 0\<rparr>)" using b(1) con0(3) by (auto simp: con_idle_def con_base_def)
      from event_step [OF next_state_ok [OF this assms(3,4)], of con] show ?thesis unfolding eq3 if_P [OF True] using con0(8,9) by simp
    next
      case False
      then have "con_writes ?con3" using con0 k b(2) by (auto simp: con_writes_def)
      then have "step_ok code con st (Some (?con3, st))" using b by (intro step_okI [OF refl b(1)]) simp_all
      then show ?thesis unfolding eq3 if_not_P [OF False] by (simp add: event_ok_def)
    qed
  qed
qed

section \<open>Properties\<close>

lemma event_ok_con: "event_ok code con st res \<Longrightarrow> \<exists>con' st'. res = Some (con', st') \<and> con_ok code con' \<and> con_fd con' \<in> {con_fd con, - 1}"
  by (auto simp: event_ok_def step_ok_def con_ok_def)

text \<open>
  C7. A connection cannot be broken by what the client sends: from an open connection in its invariant,
  which is waiting for input or has output to send, reading at most as many characters as there is
  room for, or a failed read, and writing any part of what is offered, or a failed write, never
  reads or writes outside a buffer, meets a state that does not exist or uses a NULL pointer; the
  connection is closed or again in its invariant. What the operator configures is restricted, in the
  invariant and in \<open>env_ok\<close>: the replies made of the messages of the client's blacklists fit the output buffer, and
  the last message does not end with a line break (such a reply is never sent: \<open>blacklist_reply_unsent\<close>).
\<close>

theorem connection_safe:
  assumes "con_base code con" and "env_ok E st code" and "0 < now"
  shows "(con_reads con \<and> (\<forall>cs. input = Some cs \<longrightarrow> int (length cs) \<le> con_in_remaining con) \<longrightarrow>
       (\<exists>con' st'. Con_handle_read E con now st input = Some (con', st') \<and> con_ok code con' \<and> con_fd con' \<in> {con_fd con, - 1})) \<and>
     (con_writes con \<and> (\<forall>k>0. nwritten k \<le> k) \<longrightarrow>
       (\<exists>con' st'. Con_handle_write E con now st cr nwritten = Some (con', st') \<and> con_ok code con' \<and> con_fd con' \<in> {con_fd con, - 1}))"
  using event_ok_con [OF handle_read_ok [OF assms(1) _ assms(3,2)]] event_ok_con [OF handle_write_ok [OF assms(1) _ assms(3,2)]]
  by (intro conjI impI) blast+

text \<open>The example: a configuration that names the host, no permitted proxies, and a connection that waits for \<open>HELO\<close>.\<close>

definition the_or :: "'a \<Rightarrow> 'a option \<Rightarrow> 'a" where
  "the_or d x = (case x of None \<Rightarrow> d | Some y \<Rightarrow> y)"

definition example_vars :: "Config_value Hash_T" where
  "example_vars = the_or (Hash_create 0) (Hash_insert (Hash_create CONFIG_SEC_INIT_ENTRIES) ''hostname'' (Str_value ''mx''))"

definition example_config :: Config_T where
  "example_config = Config_create\<lparr>cfg_store := [(Config_section_create CONFIG_DEFAULT_SECTION)\<lparr>sec_vars := example_vars\<rparr>],
     cfg_sections := the_or (Hash_create 0) (Hash_insert (Hash_create CONFIG_INIT_SECTIONS) CONFIG_DEFAULT_SECTION 0)\<rparr>"

lemma one_insert:
  fixes v :: 'v
  assumes "length k \<le> MAX_KEY_LEN" and "0 < n"
  obtains h where "Hash_insert (Hash_create n) k v = Some h" and "hash_inv h" and "hash_map h = [k \<mapsto> v]" and "n \<le> hash_size h"
proof -
  have i: "hash_inv (Hash_create n :: 'v Hash_T)" "hash_map (Hash_create n :: 'v Hash_T) = Map.empty"
    using assms(2) by (auto simp: Hash_create_def hash_inv_def hash_map_def)
  obtain h where h: "Hash_insert (Hash_create n) k v = Some h" "hash_inv h" "hash_map h = (hash_map (Hash_create n))(k \<mapsto> v)"
      "entries h \<noteq> None" "hash_size h \<in> {hash_size (Hash_create n :: 'v Hash_T), 2 * hash_size (Hash_create n :: 'v Hash_T)}"
    by (rule Hash_insert_correct [OF i(1) assms(1), of v])
  show ?thesis by (rule that [OF h(1,2)]) (use h(3,5) i(2) in \<open>auto simp: Hash_create_def\<close>)
qed

lemma example_config_get:
  "Config_get_str example_config ''hostname'' None x = Some (Some ''mx'')"
  "var \<noteq> ''hostname'' \<Longrightarrow> Config_get_str example_config var None x = Some x"
  "var \<noteq> ''hostname'' \<Longrightarrow> Config_get_int example_config var None d = Some d"
  "Config_get_int example_config var (Some ''grey'') d = Some d"
proof -
  have l: "length ''hostname'' \<le> MAX_KEY_LEN" "length CONFIG_DEFAULT_SECTION \<le> MAX_KEY_LEN"
    by (simp_all add: MAX_KEY_LEN_def CONFIG_DEFAULT_SECTION_def)
  have z: "0 < CONFIG_SEC_INIT_ENTRIES" "0 < CONFIG_INIT_SECTIONS" by (simp_all add: CONFIG_SEC_INIT_ENTRIES_def CONFIG_INIT_SECTIONS_def)
  obtain v where v: "example_vars = v" "hash_inv v" "hash_map v = [''hostname'' \<mapsto> Str_value ''mx'']" "CONFIG_SEC_INIT_ENTRIES \<le> hash_size v"
    by (rule one_insert [OF l(1) z(1), of "Str_value ''mx''"]) (simp add: example_vars_def the_or_def)
  obtain h where h: "cfg_sections example_config = h" "hash_inv h" "hash_map h = [CONFIG_DEFAULT_SECTION \<mapsto> 0]" "CONFIG_INIT_SECTIONS \<le> hash_size h"
    by (rule one_insert [OF l(2) z(2), of "0::nat"]) (simp add: example_config_def the_or_def)
  have store: "cfg_store example_config = [(Config_section_create CONFIG_DEFAULT_SECTION)\<lparr>sec_vars := v\<rparr>]"
    using v(1) by (simp add: example_config_def)
  have inv: "cfg_inv example_config"
    using h(1-3) v(2) by (auto simp: cfg_inv_def store inj_on_def split: if_splits)
  then have m: "msg_config example_config [''hostname'' \<mapsto> Str_value ''mx'']"
    using h(1,3) v(3,4) store by (auto simp: msg_config_def)
  have c: "card (dom [''hostname'' \<mapsto> Str_value ''mx'']) < CONFIG_SEC_INIT_ENTRIES" by (simp add: CONFIG_SEC_INIT_ENTRIES_def)
  show "Config_get_str example_config ''hostname'' None x = Some (Some ''mx'')"
    "var \<noteq> ''hostname'' \<Longrightarrow> Config_get_str example_config var None x = Some x"
    "var \<noteq> ''hostname'' \<Longrightarrow> Config_get_int example_config var None d = Some d"
    using msg_get [OF m c] by auto
  have "hash_map h ''grey'' = None" "num_entries h < hash_size h"
    using h(3,4) hash_entries_card [OF h(2)] by (simp_all add: CONFIG_DEFAULT_SECTION_def CONFIG_INIT_SECTIONS_def)
  then have "Hash_get (cfg_sections example_config) ''grey'' = Some None" using Hash_get_absent [OF h(2)] h(1) by simp
  then show "Config_get_int example_config var (Some ''grey'') d = Some d" by (simp add: Config_get_int_def default_section_def)
qed

definition example_daemon :: "Con list \<Rightarrow> Greyd_state" where
  "example_daemon cons =
     \<lparr>gs_config = example_config, gs_slow_until = 0, gs_cons = cons, gs_max_cons = int (length cons), gs_max_black = 2,
      gs_clients = int (length (filter (\<lambda>c. con_fd c \<noteq> - 1) cons)), gs_black_clients = 0, gs_grey_out = [], gs_fw_out = [],
      gs_blacklists = Hash_create 10, gs_proxy_protocol_enabled = False,
      gs_permitted_proxies = Blacklist_create ''permitted-proxies'' ''permitted upstream proxies'' BL_STORAGE_LIST\<rparr>"

definition example_env :: con_env where
  "example_env =
     \<lparr>ce_ctime = (\<lambda>t. ''Thu Jan  1 00:00:00 1970'' @ [CHR 0x0A]), ce_getsockname = (\<lambda>fd. None), ce_getnameinfo = (\<lambda>a. Some ''192.0.2.1''),
      ce_fflush = True, ce_fw_reply = (\<lambda>r. None), ce_inet_pton = (\<lambda>af a. None), ce_inet_ntop = (\<lambda>af a. ''192.0.2.1''),
      ce_glob = (\<lambda>f. None), ce_lexer_value = Val_i 0, ce_lexer_tok = 0, ce_uninit_addr = zero_addr\<rparr>"

definition example_reading :: Con where
  "example_reading = (Con_grow_out_buf zero_con)\<lparr>con_fd := 7, con_src_addr := ''192.0.2.1'', con_blacklists := Some List_create,
     con_state := CON_STATE_HELO_IN, con_in_remaining := int CON_BUF_SIZE - 1, con_r := 1, con_r_end_chars := [CHR 0x0A]\<rparr>"

lemma example_serves: "env_ok example_env (example_daemon cons) CON_ERROR_CODE"
proof -
  have "Greyd_set_proxy_protocol_permitted_proxies (ce_inet_pton example_env) None = Some (gs_permitted_proxies (example_daemon cons))"
    by (simp add: Greyd_set_proxy_protocol_permitted_proxies_def example_daemon_def Let_def)
  then show ?thesis
    unfolding env_ok_def by (intro conjI exI, simp_all add: example_daemon_def example_env_def example_config_get code_ok_def
        CON_ERROR_CODE_def NUL_def addr_ok_def INET6_ADDRSTRLEN_def)
qed

lemma example_reading_base: "con_base CON_ERROR_CODE example_reading" "con_reads example_reading" "con_in_remaining example_reading = 8191"
  by (simp_all add: con_base_def con_reads_def example_reading_def Con_grow_out_buf_def zero_con_def str_buf_def lists_ok_def List_create_def
      List_wf_def addr_ok_def NUL_def INET6_ADDRSTRLEN_def CON_BUF_SIZE_def CON_OUT_BUF_SIZE_def GREY_MAX_MAIL_def valid_state_simps)

text \<open>C7 for a connection that is sent a command.\<close>

theorem connection_safe_witness:
  "\<exists>con' st'. Con_handle_read example_env example_reading 5 (example_daemon [example_reading]) (Some (''HELO x'' @ [CHR 0x0A])) =
     Some (con', st') \<and> con_ok CON_ERROR_CODE con'"
proof -
  have "int (length (''HELO x'' @ [CHR 0x0A])) \<le> con_in_remaining example_reading" unfolding example_reading_base(3) by simp
  then have r: "con_reads example_reading \<and>
      (\<forall>cs. Some (''HELO x'' @ [CHR 0x0A]) = Some cs \<longrightarrow> int (length cs) \<le> con_in_remaining example_reading)"
    using example_reading_base(2) by simp
  have "(0::int) < 5" by simp
  from mp [OF conjunct1 [OF connection_safe [OF example_reading_base(1) example_serves this]] r] show ?thesis by blast
qed

end
