(* ===== verification/Sync.thy ===== *)
theory Sync
  imports Reader
begin

text \<open>
  Models \<open>src/src/sync.c\<close>, which tells other hosts of changes to the database: the packets that announce
  a grey tuple or an address, their authentication, and the receiver, which checks a packet and prints
  its entries as messages for the greylister.

  A packet is the list of its bytes, as characters. An IPv4 address is its value in host order.
  \<open>HMAC\<close> of OpenSSL, \<open>SHA1\<close>, \<open>inet_addr\<close> and the resolver are parameters. Opening and binding the socket,
  joining the multicast group (\<open>Sync_start\<close>) and closing are system calls and not modelled.
\<close>

section \<open>The engine\<close>

definition SYNC_VERSION :: nat where "SYNC_VERSION = 2"
definition SYNC_VERIFY_MSG :: int where "SYNC_VERIFY_MSG = 1"
definition SYNC_HMAC_LEN :: nat where "SYNC_HMAC_LEN = 20"
definition SYNC_MAXSIZE :: nat where "SYNC_MAXSIZE = 1408"
definition SYNC_KEY :: string where "SYNC_KEY = ''/etc/greyd/greyd.key''"
definition SYNC_END :: nat where "SYNC_END = 0"
definition SYNC_GREY :: nat where "SYNC_GREY = 1"
definition SYNC_WHITE :: nat where "SYNC_WHITE = 2"
definition SYNC_TRAPPED :: nat where "SYNC_TRAPPED = 3"
definition SYNC_DEL_WHITE :: nat where "SYNC_DEL_WHITE = 4"
definition SYNC_DEL_TRAPPED :: nat where "SYNC_DEL_TRAPPED = 5"
definition GREYD_SYNC_PORT :: int where "GREYD_SYNC_PORT = 8025"
definition GREYLISTING_ENABLED :: int where "GREYLISTING_ENABLED = 1"

lemmas sync_types = SYNC_END_def SYNC_GREY_def SYNC_WHITE_def SYNC_TRAPPED_def SYNC_DEL_WHITE_def SYNC_DEL_TRAPPED_def

text \<open>\<open>SYNC_ALIGN\<close>: up to a multiple of 16. The sizes of the packed structs.\<close>

definition SYNC_ALIGN :: "nat \<Rightarrow> nat" where
  "SYNC_ALIGN p = (p + 15) div 16 * 16"

definition sizeof_Sync_hdr :: nat where "sizeof_Sync_hdr = 32"
definition sizeof_Sync_tlv_hdr :: nat where "sizeof_Sync_tlv_hdr = 4"
definition sizeof_Sync_tlv_grey :: nat where "sizeof_Sync_tlv_grey = 18"
definition sizeof_Sync_tlv_addr :: nat where "sizeof_Sync_tlv_addr = 16"

lemmas sync_sizes = sizeof_Sync_hdr_def sizeof_Sync_tlv_hdr_def sizeof_Sync_tlv_grey_def sizeof_Sync_tlv_addr_def

text \<open>\<open>struct Sync_host\<close> with its address and port, and the engine.\<close>

record Sync_host =
  sh_name :: string
  sh_addr :: "u32 \<times> nat"

record Sync_engine_T =
  sy_config :: Config_T
  sy_port :: nat
  sy_sync_fd :: int
  sy_send_mcast :: int
  sy_sync_in :: u32
  sy_sync_out :: "u32 \<times> nat"
  sy_sync_key :: "char list"
  sy_sync_counter :: int
  sy_sync_hosts :: "Sync_host List_T"
  sy_iface :: "string option"

section \<open>Setting up\<close>

text \<open>\<open>Sync_add_host\<close>: the first IPv4 address of the name, as the resolver answers; \<open>EINVAL\<close> otherwise.\<close>

definition EINVAL :: int where "EINVAL = 22"

definition Sync_add_host :: "(string \<Rightarrow> (u16 \<times> u32) list option) \<Rightarrow> Sync_engine_T \<Rightarrow> string \<Rightarrow> int \<times> Sync_engine_T" where
  "Sync_add_host resolve engine name =
     (case resolve name of
        None \<Rightarrow> (EINVAL, engine)
      | Some res \<Rightarrow>
          (case filter (\<lambda>(af, a). af = AF_INET) res of
             [] \<Rightarrow> (EINVAL, engine)
           | (af, a) # _ \<Rightarrow>
               (0, engine\<lparr>sy_sync_hosts := List_insert_after (sy_sync_hosts engine) \<lparr>sh_name = name, sh_addr = (a, sy_port engine)\<rparr>\<rparr>)))"

text \<open>The loop over the configured hosts: what is not the name of a host is the interface.\<close>

fun add_hosts :: "(string \<Rightarrow> (u16 \<times> u32) list option) \<Rightarrow> Config_value list \<Rightarrow> Sync_engine_T \<Rightarrow> Sync_engine_T" where
  "add_hosts resolve [] engine = engine"
| "add_hosts resolve (val # vals) engine =
     (case cv_str (Some val) of
        None \<Rightarrow> add_hosts resolve vals engine
      | Some name \<Rightarrow>
          (let (ret, engine1) = Sync_add_host resolve engine name
           in add_hosts resolve vals (if ret \<noteq> 0 then engine1\<lparr>sy_iface := Some name\<rparr> else engine1)))"

text \<open>The digest in hexadecimal.\<close>

definition hex_digit :: "nat \<Rightarrow> char" where
  "hex_digit n = ''0123456789abcdef'' ! n"

definition hex_key :: "char list \<Rightarrow> char list" where
  "hex_key digest = concat (map (\<lambda>c. [hex_digit (of_char c div 16), hex_digit (of_char c mod 16)]) (take 20 digest)) @ [NUL]"

text \<open>
  What reading the key file gives: no such file, an error, or its content; \<open>None\<close> in the result is NULL.
\<close>

datatype key_file_result = Key_absent | Key_error | Key_content "char list"

definition Sync_init :: "(string \<Rightarrow> (u16 \<times> u32) list option) \<Rightarrow> (string \<Rightarrow> key_file_result) \<Rightarrow> (char list \<Rightarrow> char list) \<Rightarrow> Config_T
    \<Rightarrow> Sync_engine_T option option" where
  "Sync_init resolve read_key sha1 config =
     do { enable \<leftarrow> Config_get_int config ''enable'' (Some ''sync'') 0;
          if enable = 0 then Some None
          else do { port \<leftarrow> Config_get_int config ''port'' (Some ''sync'') GREYD_SYNC_PORT;
                    hosts \<leftarrow> Config_get_list config ''hosts'' (Some ''sync'');
                    let engine = \<lparr>sy_config = config, sy_port = nat (port mod 65536), sy_sync_fd = - 1, sy_send_mcast = 0, sy_sync_in = 0,
                                  sy_sync_out = (0, 0), sy_sync_key = replicate 41 NUL, sy_sync_counter = 0,
                                  sy_sync_hosts = List_create, sy_iface = None\<rparr>;
                        engine1 = (case hosts of None \<Rightarrow> engine | Some l \<Rightarrow> add_hosts resolve l engine)
                    in do { verify \<leftarrow> Config_get_int config ''verify'' (Some ''sync'') SYNC_VERIFY_MSG;
                            if verify = 0 then Some (Some engine1)
                            else do { path \<leftarrow> Config_get_str config ''key'' (Some ''sync'') (Some SYNC_KEY);
                                      key_path \<leftarrow> path;
                                      case read_key key_path of
                                        Key_absent \<Rightarrow> Some (Some engine1)
                                      | Key_error \<Rightarrow> Some None
                                      | Key_content cs \<Rightarrow> Some (Some (engine1\<lparr>sy_sync_key := hex_key (sha1 cs)\<rparr>)) } } } }"

section \<open>Packets\<close>

text \<open>Numbers in network order, and reading them from a buffer.\<close>

definition net16 :: "nat \<Rightarrow> char list" where
  "net16 n = [char_of (n div 256), char_of n]"

definition net32 :: "nat \<Rightarrow> char list" where
  "net32 n = net16 (n div 65536) @ net16 n"

definition get16 :: "char list \<Rightarrow> nat \<Rightarrow> nat option" where
  "get16 buf i = do { a \<leftarrow> nth_opt buf i; b \<leftarrow> nth_opt buf (i + 1); Some (of_char a * 256 + of_char b) }"

definition get32 :: "char list \<Rightarrow> nat \<Rightarrow> nat option" where
  "get32 buf i = do { a \<leftarrow> get16 buf i; b \<leftarrow> get16 buf (i + 2); Some (a * 65536 + b) }"

text \<open>A \<open>time_t\<close> or a counter as 32 bits.\<close>

definition net_int :: "int \<Rightarrow> char list" where
  "net_int n = net32 (nat (n mod 2 ^ 32))"

text \<open>\<open>struct Sync_hdr\<close> and the packet around its entries: header, entries and end marker, with the HMAC of all of it.\<close>

definition Sync_hdr :: "int \<Rightarrow> nat \<Rightarrow> char list \<Rightarrow> char list" where
  "Sync_hdr counter len mac = [char_of SYNC_VERSION, char_of (unat AF_INET)] @ net16 len @ net_int counter @ mac @ replicate 4 NUL"

definition sync_packet :: "(char list \<Rightarrow> char list \<Rightarrow> char list) \<Rightarrow> Sync_engine_T \<Rightarrow> nat \<Rightarrow> char list \<Rightarrow> char list" where
  "sync_packet hmac engine len tlvs =
     (let body = tlvs @ net16 SYNC_END @ net16 sizeof_Sync_tlv_hdr;
          hdr = Sync_hdr (sy_sync_counter engine) len
      in hdr (hmac (sy_sync_key engine) (hdr (replicate SYNC_HMAC_LEN NUL) @ body)) @ body)"

text \<open>\<open>send_sync_message\<close>: the datagrams sent, each with the address it goes to.\<close>

definition send_sync_message :: "Sync_engine_T \<Rightarrow> char list \<Rightarrow> ((u32 \<times> nat) \<times> char list) list" where
  "send_sync_message engine msg =
     (if sy_send_mcast engine \<noteq> 0 then [(sy_sync_out engine, msg)] else []) @
     map (\<lambda>host. (sh_addr host, msg)) (list_head (sy_sync_hosts engine))"

text \<open>The length fields are 16 bits wide.\<close>

definition Sync_update :: "(char list \<Rightarrow> char list \<Rightarrow> char list) \<Rightarrow> (string \<Rightarrow> u32) \<Rightarrow> Sync_engine_T \<Rightarrow> Grey_tuple \<Rightarrow> int
    \<Rightarrow> Sync_engine_T \<times> ((u32 \<times> nat) \<times> char list) list" where
  "Sync_update hmac inet_addr engine gt now =
     (let fromlen = (length (gt_from gt) + 1) mod 65536;
          tolen = (length (gt_to gt) + 1) mod 65536;
          helolen = (length (gt_helo gt) + 1) mod 65536;
          sglen = (sizeof_Sync_tlv_grey + fromlen + tolen + helolen) mod 65536;
          padlen = SYNC_ALIGN sglen - sglen;
          entry = net16 SYNC_GREY @ net16 (sglen + padlen) @ net_int now @ net32 (unat (inet_addr (gt_ip gt))) @
                  net16 fromlen @ net16 tolen @ net16 helolen @
                  take fromlen (gt_from gt @ [NUL]) @ take tolen (gt_to gt @ [NUL]) @ take helolen (gt_helo gt @ [NUL]) @ replicate padlen NUL;
          msg = sync_packet hmac engine (sizeof_Sync_hdr + sglen + padlen + sizeof_Sync_tlv_hdr) entry
      in (engine\<lparr>sy_sync_counter := wrap_int (sy_sync_counter engine + 1)\<rparr>, send_sync_message engine msg))"

definition send_address :: "(char list \<Rightarrow> char list \<Rightarrow> char list) \<Rightarrow> (string \<Rightarrow> u32) \<Rightarrow> Sync_engine_T \<Rightarrow> string \<Rightarrow> int \<Rightarrow> int \<Rightarrow> nat
    \<Rightarrow> Sync_engine_T \<times> ((u32 \<times> nat) \<times> char list) list" where
  "send_address hmac inet_addr engine ip now expire type =
     (let entry = net16 type @ net16 sizeof_Sync_tlv_addr @ net_int now @ net_int expire @ net32 (unat (inet_addr ip));
          msg = sync_packet hmac engine (sizeof_Sync_hdr + sizeof_Sync_tlv_addr + sizeof_Sync_tlv_hdr) entry
      in (engine\<lparr>sy_sync_counter := wrap_int (sy_sync_counter engine + 1)\<rparr>, send_sync_message engine msg))"

definition Sync_white :: "(char list \<Rightarrow> char list \<Rightarrow> char list) \<Rightarrow> (string \<Rightarrow> u32) \<Rightarrow> Sync_engine_T \<Rightarrow> string \<Rightarrow> int \<Rightarrow> int \<Rightarrow> bool
    \<Rightarrow> Sync_engine_T \<times> ((u32 \<times> nat) \<times> char list) list" where
  "Sync_white hmac inet_addr engine ip now expire delete =
     send_address hmac inet_addr engine ip now expire (if delete then SYNC_DEL_WHITE else SYNC_WHITE)"

definition Sync_trapped :: "(char list \<Rightarrow> char list \<Rightarrow> char list) \<Rightarrow> (string \<Rightarrow> u32) \<Rightarrow> Sync_engine_T \<Rightarrow> string \<Rightarrow> int \<Rightarrow> int \<Rightarrow> bool
    \<Rightarrow> Sync_engine_T \<times> ((u32 \<times> nat) \<times> char list) list" where
  "Sync_trapped hmac inet_addr engine ip now expire delete =
     send_address hmac inet_addr engine ip now expire (if delete then SYNC_DEL_TRAPPED else SYNC_TRAPPED)"

section \<open>Receiving\<close>

text \<open>\<open>%s\<close> of a pointer into the buffer: \<open>None\<close> when it would be read past the end.\<close>

definition buf_string :: "char list \<Rightarrow> nat \<Rightarrow> string option" where
  "buf_string buf i = (if NUL \<in> set (drop i buf) then Some (c_str (drop i buf)) else None)"

definition sync_grey_text :: "string \<Rightarrow> string \<Rightarrow> string \<Rightarrow> string \<Rightarrow> string" where
  "sync_grey_text ip helo from to =
     ''type = '' @ show_int GREY_MSG_GREY @ [CHR 0x0A] @ ''sync = 0'' @ [CHR 0x0A] @ ''ip = '' @ quoted ip @ [CHR 0x0A] @
     ''helo = '' @ quoted helo @ [CHR 0x0A] @ ''from = '' @ quoted from @ [CHR 0x0A] @ ''to = '' @ quoted to @ [CHR 0x0A] @
     ''%'' @ [CHR 0x0A]"

definition sync_addr_text :: "int \<Rightarrow> string \<Rightarrow> string \<Rightarrow> nat \<Rightarrow> bool \<Rightarrow> string" where
  "sync_addr_text type ip source expire delete =
     ''type = '' @ show_int type @ [CHR 0x0A] @ ''sync = 0'' @ [CHR 0x0A] @ ''ip = '' @ quoted ip @ [CHR 0x0A] @
     ''source = '' @ quoted source @ [CHR 0x0A] @ ''expires = '' @ quoted (dec_digits expire) @ [CHR 0x0A] @
     ''delete = '' @ (if delete then ''1'' else ''0'') @ [CHR 0x0A] @ ''%'' @ [CHR 0x0A]"

text \<open>
  The loop over the entries, with the locals \<open>p\<close>, \<open>len\<close> and \<open>delete\<close>; the result is what has been
  written to the greylister. \<open>len\<close> starts as the length of the whole packet, though \<open>p\<close> starts behind
  the header. An entry that is truncated or of an unknown type ends the loop, as the end marker does.
\<close>

function recv_loop :: "Config_T \<Rightarrow> string \<Rightarrow> char list \<Rightarrow> nat \<Rightarrow> nat \<Rightarrow> bool \<Rightarrow> string \<Rightarrow> string option" where
  "recv_loop config src_ip buf p len delete out =
     (if len < sizeof_Sync_tlv_hdr then Some out
      else do { tlen \<leftarrow> get16 buf (p + 2);
                if len < tlen then Some out
                else do { type \<leftarrow> get16 buf p;
                          if type = SYNC_GREY
                          then do { fromlen \<leftarrow> get16 buf (p + 12); tolen \<leftarrow> get16 buf (p + 14); helolen \<leftarrow> get16 buf (p + 16);
                                    if sizeof_Sync_tlv_grey + fromlen + tolen + helolen > tlen then Some out
                                    else do { ip \<leftarrow> get32 buf (p + 8);
                                              from \<leftarrow> buf_string buf (p + 18);
                                              to \<leftarrow> buf_string buf (p + 18 + fromlen);
                                              helo \<leftarrow> buf_string buf (p + 18 + fromlen + tolen);
                                              enable \<leftarrow> Config_get_int config ''enable'' (Some ''grey'') GREYLISTING_ENABLED;
                                              recv_loop config src_ip buf (p + tlen) (len - tlen) delete
                                                (if enable \<noteq> 0 then out @ sync_grey_text (inet_ntoa (of_nat ip)) helo from to else out) } }
                          else if type = SYNC_DEL_WHITE \<or> type = SYNC_WHITE \<or> type = SYNC_DEL_TRAPPED \<or> type = SYNC_TRAPPED
                          then (let delete' = (delete \<or> type = SYNC_DEL_WHITE \<or> type = SYNC_DEL_TRAPPED);
                                    msg = (if type = SYNC_DEL_WHITE \<or> type = SYNC_WHITE then GREY_MSG_WHITE else GREY_MSG_TRAP)
                                in if sizeof_Sync_tlv_addr \<noteq> tlen then Some out
                                   else do { ip \<leftarrow> get32 buf (p + 12);
                                             expire \<leftarrow> get32 buf (p + 8);
                                             enable \<leftarrow> Config_get_int config ''enable'' (Some ''grey'') GREYLISTING_ENABLED;
                                             recv_loop config src_ip buf (p + tlen) (len - tlen) delete'
                                               (if enable \<noteq> 0 then out @ sync_addr_text msg (inet_ntoa (of_nat ip)) src_ip expire delete' else out) })
                          else Some out } })"
  by pat_completeness auto
termination
  by (relation "measure (\<lambda>(config, src_ip, buf, p, len, delete, out). len)") (auto simp: sync_sizes)

declare recv_loop.simps [simp del]

text \<open>\<open>Sync_recv\<close>: the sender's address and the datagram that \<open>recvfrom\<close> delivers.\<close>

definition Sync_recv :: "(char list \<Rightarrow> char list \<Rightarrow> char list) \<Rightarrow> Sync_engine_T \<Rightarrow> u32 \<Rightarrow> char list \<Rightarrow> string \<Rightarrow> string option" where
  "Sync_recv hmac engine addr datagram grey_out =
     (let data = take SYNC_MAXSIZE datagram; buf = data @ replicate (SYNC_MAXSIZE - length data) NUL in
      if data = [] then Some grey_out
      else if addr \<noteq> 0 \<and> sy_sync_in engine = addr then Some grey_out
      else if length data < sizeof_Sync_hdr then Some grey_out
      else do { v \<leftarrow> nth_opt buf 0;
                af \<leftarrow> nth_opt buf 1;
                len \<leftarrow> get16 buf 2;
                if of_char v \<noteq> SYNC_VERSION \<or> of_char af \<noteq> unat AF_INET \<or> length data < len then Some grey_out
                else (let mac = take SYNC_HMAC_LEN (drop 8 buf);
                          buf1 = take 8 buf @ replicate SYNC_HMAC_LEN NUL @ drop (8 + SYNC_HMAC_LEN) buf
                      in if mac \<noteq> hmac (sy_sync_key engine) (take len buf1) then Some grey_out
                         else recv_loop (sy_config engine) (inet_ntoa addr) buf1 sizeof_Sync_hdr len False grey_out) })"

section \<open>Reading what was packed\<close>

lemma net_lengths [simp]: "length (net16 n) = 2" "length (net32 n) = 4" "length (net_int i) = 4"
  by (simp_all add: net16_def net32_def net_int_def)

lemma get16_append [simp]: "get16 (xs @ ys) (length xs + i) = get16 ys i"
  by (cases "i < length ys"; cases "i + 1 < length ys") (simp_all add: get16_def nth_opt_def nth_append)

lemma get32_append [simp]: "get32 (xs @ ys) (length xs + i) = get32 ys i"
  using get16_append [of xs ys "i + 2"] by (simp add: get32_def add.assoc)

lemma get16_net16 [simp]: "get16 (net16 n @ ys) 0 = Some (n mod 65536)"
proof -
  have "n mod 65536 = n div 256 mod 256 * 256 + n mod 256" using mod_mult2_eq [of n 256 256] by simp
  then show ?thesis by (simp add: get16_def net16_def)
qed

lemma get32_net32 [simp]: "get32 (net32 n @ ys) 0 = Some (n mod 2 ^ 32)"
proof -
  have "get16 (net16 (n div 65536) @ net16 n @ ys) (length (net16 (n div 65536)) + 0) = get16 (net16 n @ ys) 0"
    by (rule get16_append)
  then have "get16 (net16 (n div 65536) @ net16 n @ ys) 2 = Some (n mod 65536)" by simp
  moreover have "n mod 2 ^ 32 = n div 65536 mod 65536 * 65536 + n mod 65536" using mod_mult2_eq [of n 65536 65536] by simp
  ultimately show ?thesis by (simp add: get32_def net32_def numeral_2_eq_2)
qed

text \<open>Reading at an offset behind a prefix of known length.\<close>

lemma get16_at: "i = length xs \<Longrightarrow> get16 (xs @ net16 n @ ys) i = Some (n mod 65536)"
  using get16_append [of xs "net16 n @ ys" 0] by simp

lemma get32_at: "i = length xs \<Longrightarrow> get32 (xs @ net32 n @ ys) i = Some (n mod 2 ^ 32)"
  using get32_append [of xs "net32 n @ ys" 0] by simp

lemma buf_string_at: "i = length xs \<Longrightarrow> NUL \<notin> set s \<Longrightarrow> buf_string (xs @ s @ [NUL] @ ys) i = Some s"
  by (simp add: buf_string_def)

lemma Sync_hdr_length [simp]: "length mac = 20 \<Longrightarrow> length (Sync_hdr counter len mac) = 32"
  by (simp add: Sync_hdr_def)

text \<open>The receiver accepts a packet that a holder of its key has sealed, unless it is longer than its buffer.\<close>

definition sealed :: "(char list \<Rightarrow> char list \<Rightarrow> char list) \<Rightarrow> Sync_engine_T \<Rightarrow> nat \<Rightarrow> char list \<Rightarrow> char list" where
  "sealed hmac engine len body =
     (let hdr = Sync_hdr (sy_sync_counter engine) len
      in hdr (hmac (sy_sync_key engine) (hdr (replicate SYNC_HMAC_LEN NUL) @ body)) @ body)"

lemma sync_packet_sealed: "sync_packet hmac engine len tlvs = sealed hmac engine len (tlvs @ net16 SYNC_END @ net16 4)"
  by (simp add: sync_packet_def sealed_def sync_sizes Let_def)

lemma recv_sealed:
  assumes "\<And>k m. length (hmac k m) = 20" and "sy_sync_key receiver = sy_sync_key sender" and "addr = 0 \<or> sy_sync_in receiver \<noteq> addr"
    and "length body + 32 = len" and "len < 65536"
  shows "Sync_recv hmac receiver addr (sealed hmac sender len body) out =
    (if len \<le> SYNC_MAXSIZE
     then recv_loop (sy_config receiver) (inet_ntoa addr)
       (Sync_hdr (sy_sync_counter sender) len (replicate 20 NUL) @ body @ replicate (SYNC_MAXSIZE - len) NUL) 32 len False out
     else Some out)"
proof -
  define F where "F = [char_of SYNC_VERSION, char_of (unat AF_INET)] @ net16 len @ net_int (sy_sync_counter sender)"
  define mac where "mac = hmac (sy_sync_key sender) (F @ replicate 20 NUL @ replicate 4 NUL @ body)"
  define data where "data = take SYNC_MAXSIZE (F @ mac @ replicate 4 NUL @ body)"
  define buf where "buf = data @ replicate (SYNC_MAXSIZE - length data) NUL"
  have hdr: "Sync_hdr (sy_sync_counter sender) len m = F @ m @ replicate 4 NUL" for m by (simp add: Sync_hdr_def F_def)
  have pkt: "sealed hmac sender len body = F @ mac @ replicate 4 NUL @ body"
    by (simp add: sealed_def hdr mac_def SYNC_HMAC_LEN_def Let_def)
  have l: "length mac = 20" "length F = 8" "length body + 32 = len" "length (F @ mac @ replicate 4 NUL @ body) = len"
    using assms(1,4) by (simp_all add: mac_def F_def)
  have F8: "\<exists>xs. data = F @ xs" using l(2) by (simp add: data_def SYNC_MAXSIZE_def)
  have reads: "nth_opt buf 0 = Some (char_of SYNC_VERSION)" "nth_opt buf 1 = Some (char_of (unat AF_INET))" "get16 buf 2 = Some len"
    using F8 assms(5) get16_at [of 2 "[char_of SYNC_VERSION, char_of (unat AF_INET)]" len]
    by (auto simp: buf_def F_def)
  have head: "of_char (char_of SYNC_VERSION :: char) = SYNC_VERSION" "of_char (char_of (unat AF_INET) :: char) = unat AF_INET"
    by (simp_all add: SYNC_VERSION_def AF_INET_def)
  have ne: "data \<noteq> []" "\<not> length data < sizeof_Sync_hdr" using l by (auto simp: data_def SYNC_MAXSIZE_def sync_sizes)
  have recv: "Sync_recv hmac receiver addr (sealed hmac sender len body) out =
      (if length data < len then Some out
       else if take 20 (drop 8 buf) \<noteq> hmac (sy_sync_key sender) (take len (take 8 buf @ replicate 20 NUL @ drop 28 buf)) then Some out
       else recv_loop (sy_config receiver) (inet_ntoa addr) (take 8 buf @ replicate 20 NUL @ drop 28 buf) sizeof_Sync_hdr len False out)"
    using assms(2,3) reads ne head
    unfolding Sync_recv_def pkt data_def [symmetric] buf_def [symmetric] Let_def SYNC_HMAC_LEN_def by auto
  show ?thesis
  proof (cases "len \<le> SYNC_MAXSIZE")
    case True
    have data: "data = F @ mac @ replicate 4 NUL @ body" using l(4) True by (simp add: data_def)
    have buf: "buf = F @ mac @ replicate 4 NUL @ body @ replicate (SYNC_MAXSIZE - len) NUL" using l(4) by (simp add: buf_def data)
    have parts: "take 20 (drop 8 buf) = mac"
      "take 8 buf @ replicate 20 NUL @ drop 28 buf = F @ replicate 20 NUL @ replicate 4 NUL @ body @ replicate (SYNC_MAXSIZE - len) NUL"
      using l(1,2) by (simp_all add: buf)
    have "take len (F @ replicate 20 NUL @ replicate 4 NUL @ body @ replicate (SYNC_MAXSIZE - len) NUL) =
        F @ replicate 20 NUL @ replicate 4 NUL @ body" using l(2,3) by simp
    then have m: "\<not> take 20 (drop 8 buf) \<noteq> hmac (sy_sync_key sender) (take len (take 8 buf @ replicate 20 NUL @ drop 28 buf))"
      unfolding parts mac_def by simp
    have nl: "\<not> length data < len" using l(4) data by simp
    have "Sync_recv hmac receiver addr (sealed hmac sender len body) out = recv_loop (sy_config receiver) (inet_ntoa addr)
        (F @ replicate 20 NUL @ replicate 4 NUL @ body @ replicate (SYNC_MAXSIZE - len) NUL) sizeof_Sync_hdr len False out"
      unfolding parts(2) [symmetric] using recv nl m by presburger
    then show ?thesis using True by (simp add: hdr sizeof_Sync_hdr_def)
  next
    case False
    then have "length data < len" using l(4) by (simp add: data_def)
    then show ?thesis using False by (simp add: recv)
  qed
qed

lemma recv_packet:
  assumes "\<And>k m. length (hmac k m) = 20" and "sy_sync_key receiver = sy_sync_key sender" and "addr = 0 \<or> sy_sync_in receiver \<noteq> addr"
    and "len = 36 + length tlvs" and "len \<le> SYNC_MAXSIZE"
  shows "Sync_recv hmac receiver addr (sync_packet hmac sender len tlvs) out =
    recv_loop (sy_config receiver) (inet_ntoa addr)
      (Sync_hdr (sy_sync_counter sender) len (replicate 20 NUL) @ tlvs @ net16 SYNC_END @ net16 4 @ replicate (SYNC_MAXSIZE - len) NUL)
      32 len False out"
  using recv_sealed [OF assms(1-3), where len = len and body = "tlvs @ net16 SYNC_END @ net16 4" and out = out] assms(4,5)
  by (simp add: sync_packet_sealed SYNC_MAXSIZE_def)

text \<open>The entries of the packets, read by the loop.\<close>

lemma recv_end: "p = length H \<Longrightarrow> recv_loop config src (H @ net16 SYNC_END @ net16 4 @ ys) p len delete out = Some out"
  using get16_at [of p H SYNC_END "net16 4 @ ys"] get16_at [of "p + 2" "H @ net16 SYNC_END" 4 ys]
  by (subst recv_loop.simps) (simp add: sync_types)

lemma recv_grey:
  assumes "p = length H" and "tlen = 18 + (length from + 1) + (length to + 1) + (length helo + 1) + pad" and "tlen < 65536" and "tlen \<le> len"
    and "NUL \<notin> set from" and "NUL \<notin> set to" and "NUL \<notin> set helo"
    and "Config_get_int config ''enable'' (Some ''grey'') GREYLISTING_ENABLED = Some enable" and "enable \<noteq> 0"
  shows "recv_loop config src (H @ (net16 SYNC_GREY @ net16 tlen @ net_int now @ net32 (unat ip) @ net16 (length from + 1) @
      net16 (length to + 1) @ net16 (length helo + 1) @ (from @ [NUL]) @ (to @ [NUL]) @ (helo @ [NUL]) @ replicate pad NUL) @ ys) p len delete out =
    recv_loop config src (H @ (net16 SYNC_GREY @ net16 tlen @ net_int now @ net32 (unat ip) @ net16 (length from + 1) @
      net16 (length to + 1) @ net16 (length helo + 1) @ (from @ [NUL]) @ (to @ [NUL]) @ (helo @ [NUL]) @ replicate pad NUL) @ ys)
      (p + tlen) (len - tlen) delete (out @ sync_grey_text (inet_ntoa ip) helo from to)"
proof -
  define f t h where "f = length from + 1" and "t = length to + 1" and "h = length helo + 1"
  define buf where "buf = H @ (net16 SYNC_GREY @ net16 tlen @ net_int now @ net32 (unat ip) @ net16 f @
      net16 t @ net16 h @ (from @ [NUL]) @ (to @ [NUL]) @ (helo @ [NUL]) @ replicate pad NUL) @ ys"
  have lt: "f < 65536" "t < 65536" "h < 65536" using assms(2,3) by (simp_all add: f_def t_def h_def)
  have r: "get16 buf p = Some SYNC_GREY" "get16 buf (p + 2) = Some tlen" "get32 buf (p + 8) = Some (unat ip)"
    "get16 buf (p + 12) = Some f" "get16 buf (p + 14) = Some t" "get16 buf (p + 16) = Some h"
    using get16_at [of p H SYNC_GREY] get16_at [of "p + 2" "H @ net16 SYNC_GREY" tlen]
      get32_at [of "p + 8" "H @ net16 SYNC_GREY @ net16 tlen @ net_int now" "unat ip"]
      get16_at [of "p + 12" "H @ net16 SYNC_GREY @ net16 tlen @ net_int now @ net32 (unat ip)" f]
      get16_at [of "p + 14" "H @ net16 SYNC_GREY @ net16 tlen @ net_int now @ net32 (unat ip) @ net16 f" t]
      get16_at [of "p + 16" "H @ net16 SYNC_GREY @ net16 tlen @ net_int now @ net32 (unat ip) @ net16 f @ net16 t" h]
      assms(1,3) lt unat_u32_less [of ip] by (simp_all add: buf_def sync_types)
  let ?S = "H @ net16 SYNC_GREY @ net16 tlen @ net_int now @ net32 (unat ip) @ net16 f @ net16 t @ net16 h"
  have strs: "buf_string buf (p + 18) = Some from" "buf_string buf (p + 18 + f) = Some to" "buf_string buf (p + 18 + f + t) = Some helo"
    using buf_string_at [of "p + 18" ?S "from" "(to @ [NUL]) @ (helo @ [NUL]) @ replicate pad NUL @ ys"]
      buf_string_at [of "p + 18 + f" "?S @ from @ [NUL]" to "(helo @ [NUL]) @ replicate pad NUL @ ys"]
      buf_string_at [of "p + 18 + f + t" "?S @ (from @ [NUL]) @ to @ [NUL]" helo "replicate pad NUL @ ys"] assms(1,5-7)
    by (simp_all add: buf_def f_def t_def)
  have len: "\<not> len < sizeof_Sync_tlv_hdr" "\<not> len < tlen" "\<not> sizeof_Sync_tlv_grey + f + t + h > tlen" using assms(2,4)
    by (simp_all add: sync_sizes f_def t_def h_def)
  have "recv_loop config src buf p len delete out =
      recv_loop config src buf (p + tlen) (len - tlen) delete (out @ sync_grey_text (inet_ntoa ip) helo from to)"
    by (subst recv_loop.simps) (simp add: r strs len assms(8,9) del: add_2_eq_Suc')
  then show ?thesis by (simp add: buf_def f_def t_def h_def)
qed

lemma recv_addr:
  assumes "p = length H" and "16 \<le> len" and "type \<in> {SYNC_WHITE, SYNC_DEL_WHITE, SYNC_TRAPPED, SYNC_DEL_TRAPPED}"
    and "Config_get_int config ''enable'' (Some ''grey'') GREYLISTING_ENABLED = Some enable" and "enable \<noteq> 0"
    and "delete' \<longleftrightarrow> delete \<or> type = SYNC_DEL_WHITE \<or> type = SYNC_DEL_TRAPPED"
  shows "recv_loop config src (H @ (net16 type @ net16 16 @ net_int now @ net_int expire @ net32 (unat ip)) @ ys) p len delete out =
    recv_loop config src (H @ (net16 type @ net16 16 @ net_int now @ net_int expire @ net32 (unat ip)) @ ys) (p + 16) (len - 16) delete'
      (out @ sync_addr_text (if type = SYNC_DEL_WHITE \<or> type = SYNC_WHITE then GREY_MSG_WHITE else GREY_MSG_TRAP) (inet_ntoa ip) src
         (nat (expire mod 2 ^ 32)) delete')"
proof -
  define buf where "buf = H @ (net16 type @ net16 16 @ net_int now @ net_int expire @ net32 (unat ip)) @ ys"
  have "type < 65536" using assms(3) by (auto simp: sync_types)
  then have r: "get16 buf p = Some type" "get16 buf (p + 2) = Some 16" "get32 buf (p + 12) = Some (unat ip)"
    "get32 buf (p + 8) = Some (nat (expire mod 2 ^ 32))"
    using get16_at [of p H type] get16_at [of "p + 2" "H @ net16 type" 16]
      get32_at [of "p + 12" "H @ net16 type @ net16 16 @ net_int now @ net_int expire" "unat ip"]
      get32_at [of "p + 8" "H @ net16 type @ net16 16 @ net_int now" "nat (expire mod 2 ^ 32)"] assms(1) unat_u32_less [of ip]
    by (simp_all add: buf_def net_int_def)
  have ty: "type \<noteq> SYNC_GREY" "type = SYNC_DEL_WHITE \<or> type = SYNC_WHITE \<or> type = SYNC_DEL_TRAPPED \<or> type = SYNC_TRAPPED"
    using assms(3) by (auto simp: sync_types)
  have "recv_loop config src buf p len delete out =
    recv_loop config src buf (p + 16) (len - 16) delete'
      (out @ sync_addr_text (if type = SYNC_DEL_WHITE \<or> type = SYNC_WHITE then GREY_MSG_WHITE else GREY_MSG_TRAP) (inet_ntoa ip) src
         (nat (expire mod 2 ^ 32)) delete')"
    using assms(2,5)
    by (subst recv_loop.simps) (simp only: r assms(4,6) ty(1) if_P [OF ty(2)] Option.bind.simps sync_sizes Let_def, simp)
  then show ?thesis by (simp add: buf_def)
qed

section \<open>The messages written for the greylister\<close>

definition sync_grey_vars :: "Grey_tuple \<Rightarrow> (string \<times> msg_value) list" where
  "sync_grey_vars gt =
     [(''type'', M_int 1), (''sync'', M_int 0), (''ip'', M_str (gt_ip gt)), (''helo'', M_str (gt_helo gt)),
      (''from'', M_str (gt_from gt)), (''to'', M_str (gt_to gt))]"

definition sync_addr_vars :: "bool \<Rightarrow> string \<Rightarrow> string \<Rightarrow> nat \<Rightarrow> bool \<Rightarrow> (string \<times> msg_value) list" where
  "sync_addr_vars trap ip source expire delete =
     [(''type'', M_int (if trap then 2 else 3)), (''sync'', M_int 0), (''ip'', M_str ip), (''source'', M_str source),
      (''expires'', M_str (dec_digits expire)), (''delete'', M_int (if delete then 1 else 0))]"

lemma digits_small: "dec_digits 0 = ''0''" "dec_digits 1 = ''1''" "dec_digits (Suc 0) = ''1''" "dec_digits 2 = ''2''" "dec_digits 3 = ''3''"
  by (simp_all add: dec_digits.simps char_of_def bit_0)

lemma sync_grey_message: "sync_grey_text (gt_ip gt) (gt_helo gt) (gt_from gt) (gt_to gt) = message_text '' = '' (sync_grey_vars gt)"
  by (simp add: sync_grey_text_def message_text_def sync_grey_vars_def text_line_def grey_msgs show_int_def digits_small)

lemma sync_addr_message: "sync_addr_text (if trap then GREY_MSG_TRAP else GREY_MSG_WHITE) ip source expire delete =
    message_text '' = '' (sync_addr_vars trap ip source expire delete)"
  by (simp add: sync_addr_text_def message_text_def sync_addr_vars_def text_line_def grey_msgs show_int_def digits_small)

text \<open>How the greylister handles them.\<close>

lemma sync_grey_handled:
  assumes "lx (cp_lexer parser) (message_text '' = '' (sync_grey_vars gt) @ rest)" and "grey_msg_ok ([], gt)" and "cp_section parser = None"
  shows "\<exists>p. Config_parser_start glob parser Config_create = Some (True, p) \<and> lx (cp_lexer p) rest \<and>
    process_message D spf g (cp_config p) now = do { g' \<leftarrow> process_grey D spf g gt False [] now; Some (0, g') }"
proof -
  have ok: "message_ok (sync_grey_vars gt)" using assms(2) by (simp add: sync_grey_vars_def grey_msg_ok_def message_ok_def)
  obtain p where p: "Config_parser_start glob parser Config_create = Some (True, p)" "lx (cp_lexer p) rest"
      "msg_config (cp_config p) (msg_vars (sync_grey_vars gt))"
    using message_parse [OF assms(1) ok _ _ assms(3)] by (auto simp: sync_grey_vars_def)
  have "length (sync_grey_vars gt) < CONFIG_SEC_INIT_ENTRIES" by (simp add: sync_grey_vars_def CONFIG_SEC_INIT_ENTRIES_def)
  note get = msg_vars_get [OF this p(3)]
  have "Config_get_int (cp_config p) ''type'' None (- 1) = Some 1" "Config_get_str (cp_config p) ''dst_ip'' None (Some []) = Some (Some [])"
      "Config_get_int (cp_config p) ''sync'' None 1 = Some 0" "Config_get_str (cp_config p) ''ip'' None None = Some (Some (gt_ip gt))"
      "Config_get_str (cp_config p) ''helo'' None None = Some (Some (gt_helo gt))"
      "Config_get_str (cp_config p) ''from'' None None = Some (Some (gt_from gt))"
      "Config_get_str (cp_config p) ''to'' None None = Some (Some (gt_to gt))"
    by (simp_all add: get) (simp_all add: sync_grey_vars_def msg_vars_def)
  then have "process_message D spf g (cp_config p) now = do { g' \<leftarrow> process_grey D spf g gt False [] now; Some (0, g') }"
    by (cases gt) (simp add: process_message_def grey_msgs)
  then show ?thesis using p(1,2) by blast
qed

lemma sync_addr_handled:
  assumes "lx (cp_lexer parser) (message_text '' = '' (sync_addr_vars trap ip source expire delete) @ rest)"
    and "plain ip" and "plain source" and "plain (dec_digits expire)" and "cp_section parser = None"
  shows "\<exists>p. Config_parser_start glob parser Config_create = Some (True, p) \<and> lx (cp_lexer p) rest \<and>
    process_message D spf g (cp_config p) now =
      do { g' \<leftarrow> process_non_grey D g trap ip source (dec_digits expire) False delete now; Some (0, g') }"
proof -
  let ?vars = "sync_addr_vars trap ip source expire delete"
  have ok: "message_ok ?vars" using assms(2-4) by (simp add: sync_addr_vars_def message_ok_def)
  obtain p where p: "Config_parser_start glob parser Config_create = Some (True, p)" "lx (cp_lexer p) rest"
      "msg_config (cp_config p) (msg_vars ?vars)"
    using message_parse [OF assms(1) ok _ _ assms(5)] by (auto simp: sync_addr_vars_def)
  have "length ?vars < CONFIG_SEC_INIT_ENTRIES" by (simp add: sync_addr_vars_def CONFIG_SEC_INIT_ENTRIES_def)
  note get = msg_vars_get [OF this p(3)]
  have "Config_get_int (cp_config p) ''type'' None (- 1) = Some (if trap then 2 else 3)"
      "Config_get_str (cp_config p) ''dst_ip'' None (Some []) = Some (Some [])"
      "Config_get_int (cp_config p) ''sync'' None 1 = Some 0" "Config_get_str (cp_config p) ''ip'' None None = Some (Some ip)"
      "Config_get_str (cp_config p) ''source'' None None = Some (Some source)"
      "Config_get_str (cp_config p) ''expires'' None None = Some (Some (dec_digits expire))"
      "Config_get_int (cp_config p) ''delete'' None 0 = Some (if delete then 1 else 0)"
    by (simp_all add: get) (simp_all add: sync_addr_vars_def msg_vars_def)
  then have "process_message D spf g (cp_config p) now =
      do { g' \<leftarrow> process_non_grey D g trap ip source (dec_digits expire) False delete now; Some (0, g') }"
    by (cases trap; cases delete) (simp_all add: process_message_def grey_msgs)
  then show ?thesis using p(1,2) by blast
qed

text \<open>Numbers and addresses in decimal are plain.\<close>

lemma digits_plain: "set (dec_digits n) \<subseteq> {char_of (48 + k) |k. k < (10::nat)}"
proof (induction n rule: dec_digits.induct)
  case (1 n)
  show ?case
  proof (cases "n < 10")
    case True
    then have "char_of (48 + n) \<in> {char_of (48 + k) |k. k < (10::nat)}" by blast
    then show ?thesis using True by (subst dec_digits.simps) simp
  next
    case False
    have "n mod 10 < 10" by simp
    then have "char_of (48 + n mod 10) \<in> {char_of (48 + k) |k. k < (10::nat)}" by blast
    then show ?thesis using 1 [OF False] False by (subst dec_digits.simps) simp
  qed
qed

lemma digits_length: "n < 10 ^ Suc k \<Longrightarrow> length (dec_digits n) \<le> Suc k"
proof (induction k arbitrary: n)
  case (Suc k)
  show ?case
  proof (cases "n < 10")
    case True
    then show ?thesis by (subst dec_digits.simps) simp
  next
    case False
    have "n div 10 < 10 ^ Suc k" using Suc.prems by (simp add: less_mult_imp_div_less)
    then show ?thesis using Suc.IH [of "n div 10"] False by (subst dec_digits.simps) simp
  qed
qed (subst dec_digits.simps, simp)

lemma digit_chars: "c \<in> {char_of (48 + k) |k. k < (10::nat)} \<Longrightarrow> c \<noteq> CHR 0x22 \<and> c \<noteq> CHR 0x5c \<and> c \<noteq> NUL"
proof -
  assume "c \<in> {char_of (48 + k) |k. k < (10::nat)}"
  then obtain k :: nat where k: "c = char_of (48 + k)" "k < 10" by blast
  then have "of_char c = 48 + k" by simp
  then show ?thesis using k(2) by (auto simp: NUL_def)
qed

lemma plain_digits: "n < 2 ^ 32 \<Longrightarrow> plain (dec_digits n)"
  using digits_plain [of n] digit_chars digits_length [of n 9] by (fastforce simp: plain_def LEXER_MAX_STR_LEN_def)

lemma plain_inet_ntoa [simp]: "plain (inet_ntoa a)"
proof -
  have b: "unat (x AND 255 :: u32) < 10 ^ Suc 2" for x
    using word_and_le1 [of x 255] by (simp add: word_le_nat_alt)
  have d: "c \<in> set (dec_digits n) \<Longrightarrow> c \<noteq> CHR 0x22 \<and> c \<noteq> CHR 0x5c \<and> c \<noteq> NUL" for c n
    using digits_plain [of n] digit_chars by blast
  note l = digits_length [OF b]
  have "length (inet_ntoa a) \<le> 15"
    using l [of "drop_bit 24 a"] l [of "drop_bit 16 a"] l [of "drop_bit 8 a"] l [of a] by (simp add: inet_ntoa_def)
  then show ?thesis using d by (auto simp: plain_def inet_ntoa_def LEXER_MAX_STR_LEN_def NUL_def)
qed

text \<open>
  The packets of an announcement of an address: the number of the packets is counted, one goes to the multicast group, when there is one, and one to
  every host, and a host that shares the key writes one message, with the kind, the time of expiry and the flag of the announcement.
\<close>

definition sync_destinations :: "Sync_engine_T \<Rightarrow> (u32 \<times> nat) list" where
  "sync_destinations engine = (if sy_send_mcast engine \<noteq> 0 then [sy_sync_out engine] else []) @ map sh_addr (list_head (sy_sync_hosts engine))"

definition announces :: "(char list \<Rightarrow> char list \<Rightarrow> char list) \<Rightarrow> char list \<Rightarrow> char list \<Rightarrow> bool \<Rightarrow> string \<Rightarrow> int \<Rightarrow> bool \<Rightarrow> bool" where
  "announces hmac key pkt trap ip expire delete \<longleftrightarrow>
     (\<forall>receiver addr enable out. sy_sync_key receiver = key \<and> (addr = 0 \<or> sy_sync_in receiver \<noteq> addr) \<and>
        Config_get_int (sy_config receiver) ''enable'' (Some ''grey'') GREYLISTING_ENABLED = Some enable \<and> enable \<noteq> 0 \<longrightarrow>
        Sync_recv hmac receiver addr pkt out =
          Some (out @ message_text '' = '' (sync_addr_vars trap ip (inet_ntoa addr) (nat (expire mod 2 ^ 32)) delete)))"

lemma sync_address_received:
  assumes "\<And>k m. length (hmac k m) = 20" and "sy_sync_key receiver = sy_sync_key sender" and "addr = 0 \<or> sy_sync_in receiver \<noteq> addr"
    and "Config_get_int (sy_config receiver) ''enable'' (Some ''grey'') GREYLISTING_ENABLED = Some enable" and "enable \<noteq> 0"
    and "(dest, pkt) \<in> set (snd ((if trap then Sync_trapped else Sync_white) hmac inet_addr sender ip now expire delete))"
  shows "Sync_recv hmac receiver addr pkt out =
    Some (out @ message_text '' = '' (sync_addr_vars trap (inet_ntoa (inet_addr ip)) (inet_ntoa addr) (nat (expire mod 2 ^ 32)) delete))"
proof -
  define type where "type = (if trap then if delete then SYNC_DEL_TRAPPED else SYNC_TRAPPED else if delete then SYNC_DEL_WHITE else SYNC_WHITE)"
  define e where "e = net16 type @ net16 16 @ net_int now @ net_int expire @ net32 (unat (inet_addr ip))"
  have pkt: "pkt = sync_packet hmac sender 52 e"
    using assms(6) by (auto simp: Sync_trapped_def Sync_white_def send_address_def send_sync_message_def Let_def sync_sizes e_def type_def split: if_splits)
  have le: "length e = 16" by (simp add: e_def)
  let ?H = "Sync_hdr (sy_sync_counter sender) 52 (replicate 20 NUL)" and ?T = "replicate (SYNC_MAXSIZE - 52) NUL"
  let ?exp = "nat (expire mod 2 ^ 32)"
  let ?msg = "sync_addr_text (if type = SYNC_DEL_WHITE \<or> type = SYNC_WHITE then GREY_MSG_WHITE else GREY_MSG_TRAP) (inet_ntoa (inet_addr ip)) (inet_ntoa addr) ?exp delete"
  have ty: "type \<in> {SYNC_WHITE, SYNC_DEL_WHITE, SYNC_TRAPPED, SYNC_DEL_TRAPPED}"
    "delete \<longleftrightarrow> False \<or> type = SYNC_DEL_WHITE \<or> type = SYNC_DEL_TRAPPED" "type = SYNC_DEL_WHITE \<or> type = SYNC_WHITE \<longleftrightarrow> \<not> trap"
    by (auto simp: type_def sync_types)
  have h: "32 = length ?H" "16 \<le> (52::nat)" by simp_all
  have "Sync_recv hmac receiver addr pkt out =
      recv_loop (sy_config receiver) (inet_ntoa addr) (?H @ e @ net16 SYNC_END @ net16 4 @ ?T) 32 52 False out"
    using recv_packet [OF assms(1-3), where len = 52 and tlvs = e and out = out] le by (simp add: pkt SYNC_MAXSIZE_def)
  also have "\<dots> = recv_loop (sy_config receiver) (inet_ntoa addr) (?H @ e @ net16 SYNC_END @ net16 4 @ ?T) (32 + 16) (52 - 16) delete (out @ ?msg)"
    using recv_addr [OF h ty(1) assms(4,5) ty(2), where src = "inet_ntoa addr" and now = now and expire = expire and
        ip = "inet_addr ip" and ys = "net16 SYNC_END @ net16 4 @ ?T" and out = out]
    unfolding e_def [symmetric] .
  also have "\<dots> = Some (out @ ?msg)" using recv_end [of "32 + 16" "?H @ e"] le by simp
  also have "?msg = message_text '' = '' (sync_addr_vars trap (inet_ntoa (inet_addr ip)) (inet_ntoa addr) ?exp delete)"
    using sync_addr_message [of trap "inet_ntoa (inet_addr ip)" "inet_ntoa addr" ?exp delete] ty(3) by (cases trap) simp_all
  finally show ?thesis .
qed

lemma sync_address_announced:
  assumes "\<And>k m. length (hmac k m) = 20" and "(if trap then Sync_trapped else Sync_white) hmac inet_addr engine ip now expire delete = (engine', packets)"
  shows "engine' = engine\<lparr>sy_sync_counter := wrap_int (sy_sync_counter engine + 1)\<rparr>" and "map fst packets = sync_destinations engine"
    and "\<forall>(dest, pkt)\<in>set packets. announces hmac (sy_sync_key engine) pkt trap (inet_ntoa (inet_addr ip)) expire delete"
proof -
  show "engine' = engine\<lparr>sy_sync_counter := wrap_int (sy_sync_counter engine + 1)\<rparr>" "map fst packets = sync_destinations engine"
    using assms(2) by (auto simp: Sync_trapped_def Sync_white_def send_address_def send_sync_message_def sync_destinations_def Let_def o_def split: if_splits)
  show "\<forall>(dest, pkt)\<in>set packets. announces hmac (sy_sync_key engine) pkt trap (inet_ntoa (inet_addr ip)) expire delete"
  proof (clarify, unfold announces_def, intro allI impI, elim conjE)
    fix dest pkt addr enable out and receiver :: Sync_engine_T
    assume "(dest, pkt) \<in> set packets" "sy_sync_key receiver = sy_sync_key engine" "addr = 0 \<or> sy_sync_in receiver \<noteq> addr"
      "Config_get_int (sy_config receiver) ''enable'' (Some ''grey'') GREYLISTING_ENABLED = Some enable" "enable \<noteq> 0"
    moreover from this(1) have "(dest, pkt) \<in> set (snd ((if trap then Sync_trapped else Sync_white) hmac inet_addr engine ip now expire delete))"
      by (simp only: assms(2) snd_conv)
    ultimately show "Sync_recv hmac receiver addr pkt out =
        Some (out @ message_text '' = '' (sync_addr_vars trap (inet_ntoa (inet_addr ip)) (inet_ntoa addr) (nat (expire mod 2 ^ 32)) delete))"
      by (intro sync_address_received [OF assms(1)])
  qed
qed

section \<open>Properties\<close>

text \<open>The packet of a tuple, when its strings are not longer than the parser of the messages allows.\<close>

lemma update_packet:
  assumes "(dest, pkt) \<in> set (snd (Sync_update hmac inet_addr sender gt now))"
    and "length (gt_from gt) + length (gt_to gt) + length (gt_helo gt) < 60000"
  obtains pad where
    "pkt = sync_packet hmac sender (36 + (18 + (length (gt_from gt) + 1) + (length (gt_to gt) + 1) + (length (gt_helo gt) + 1) + pad))
       (net16 SYNC_GREY @ net16 (18 + (length (gt_from gt) + 1) + (length (gt_to gt) + 1) + (length (gt_helo gt) + 1) + pad) @
        net_int now @ net32 (unat (inet_addr (gt_ip gt))) @ net16 (length (gt_from gt) + 1) @ net16 (length (gt_to gt) + 1) @
        net16 (length (gt_helo gt) + 1) @ (gt_from gt @ [NUL]) @ (gt_to gt @ [NUL]) @ (gt_helo gt @ [NUL]) @ replicate pad NUL)"
    and "pad \<le> 15"
proof -
  let ?f = "length (gt_from gt) + 1" and ?t = "length (gt_to gt) + 1" and ?h = "length (gt_helo gt) + 1"
  define sglen where "sglen = 18 + ?f + ?t + ?h"
  define pad where "pad = SYNC_ALIGN sglen - sglen"
  have m: "?f mod 65536 = ?f" "?t mod 65536 = ?t" "?h mod 65536 = ?h" "(18 + ?f + ?t + ?h) mod 65536 = sglen"
    using assms(2) by (simp_all add: sglen_def)
  have le: "pad \<le> 15"
    using div_times_less_eq_dividend [of "sglen + 15" 16] by (simp add: pad_def SYNC_ALIGN_def)
  have "pkt = sync_packet hmac sender (32 + sglen + pad + 4)
      (net16 SYNC_GREY @ net16 (sglen + pad) @ net_int now @ net32 (unat (inet_addr (gt_ip gt))) @ net16 ?f @ net16 ?t @ net16 ?h @
        take ?f (gt_from gt @ [NUL]) @ take ?t (gt_to gt @ [NUL]) @ take ?h (gt_helo gt @ [NUL]) @ replicate pad NUL)"
    using assms(1) unfolding Sync_update_def Let_def sync_sizes m
    by (auto simp: send_sync_message_def pad_def split: if_splits)
  moreover have "32 + sglen + pad + 4 = 36 + (sglen + pad)" by simp
  ultimately show ?thesis using that [of pad] le by (simp add: sglen_def)
qed

lemma plain_length: "plain s \<Longrightarrow> length s \<le> LEXER_MAX_STR_LEN + 1"
  by (simp add: plain_def)

text \<open>The examples: an engine with one peer, a code that is the same for every packet, and an address.\<close>

definition example_engine :: Sync_engine_T where
  "example_engine =
     \<lparr>sy_config = Config_create, sy_port = 8025, sy_sync_fd = 5, sy_send_mcast = 0, sy_sync_in = 0, sy_sync_out = (0, 0),
      sy_sync_key = replicate 41 NUL, sy_sync_counter = 7,
      sy_sync_hosts = \<lparr>list_size = 1, list_head = [\<lparr>sh_name = ''peer'', sh_addr = (0xC0000202, 8025)\<rparr>]\<rparr>, sy_iface = None\<rparr>"

definition example_hmac :: "char list \<Rightarrow> char list \<Rightarrow> char list" where
  "example_hmac k m = replicate 20 (CHR ''x'')"

definition example_ip :: string where
  "example_ip = inet_ntoa 0xC0000201"

lemma example_hmac_length: "length (example_hmac k m) = 20"
  by (simp add: example_hmac_def)

lemma example_enabled: "Config_get_int (sy_config example_engine) ''enable'' (Some ''grey'') GREYLISTING_ENABLED = Some 1"
  "sy_sync_in example_engine \<noteq> 0xC0000203"
  by (simp_all add: example_engine_def GREYLISTING_ENABLED_def)

lemma example_sends: "send_sync_message example_engine msg = [((0xC0000202, 8025), msg)]"
  by (simp add: send_sync_message_def example_engine_def)

text \<open>
  C18. A tuple that one host announces reaches the greylister of another that shares its key: the
  receiver accepts the packet of \<open>Sync_update\<close> and writes one message, which the reader handles as a
  call of \<open>process_grey\<close> with the same tuple that is not announced again.
\<close>

theorem sync_reaches_greylister:
  assumes "\<And>k m. length (hmac k m) = 20" and "sy_sync_key receiver = sy_sync_key sender" and "addr = 0 \<or> sy_sync_in receiver \<noteq> addr"
    and "Config_get_int (sy_config receiver) ''enable'' (Some ''grey'') GREYLISTING_ENABLED = Some enable" and "enable \<noteq> 0"
    and "grey_msg_ok ([], gt)" and "inet_ntoa (inet_addr (gt_ip gt)) = gt_ip gt"
    and "(dest, pkt) \<in> set (snd (Sync_update hmac inet_addr sender gt now))"
  shows "\<exists>msg. Sync_recv hmac receiver addr pkt out = Some (out @ msg) \<and>
    (\<forall>lexer rest. lex_source lexer = Source_file (msg @ rest) \<and> \<not> seen_end lexer \<longrightarrow>
       (\<exists>p. Config_parser_start glob (message_parser lexer sectype tok) Config_create = Some (True, p) \<and>
          lex_source (cp_lexer p) = Source_file rest \<and>
          process_message D spf g (cp_config p) now' = do { g' \<leftarrow> process_grey D spf g gt False [] now'; Some (0, g') }))"
proof -
  have pl: "plain (gt_ip gt)" "plain (gt_helo gt)" "plain (gt_from gt)" "plain (gt_to gt)" using assms(6) by (simp_all add: grey_msg_ok_def)
  note l = plain_length [OF pl(2)] plain_length [OF pl(3)] plain_length [OF pl(4)]
  have sum: "length (gt_from gt) + length (gt_to gt) + length (gt_helo gt) < 60000" using l by (simp add: LEXER_MAX_STR_LEN_def)
  obtain pad where pad: "pkt = sync_packet hmac sender (36 + (18 + (length (gt_from gt) + 1) + (length (gt_to gt) + 1) + (length (gt_helo gt) + 1) + pad))
       (net16 SYNC_GREY @ net16 (18 + (length (gt_from gt) + 1) + (length (gt_to gt) + 1) + (length (gt_helo gt) + 1) + pad) @
        net_int now @ net32 (unat (inet_addr (gt_ip gt))) @ net16 (length (gt_from gt) + 1) @ net16 (length (gt_to gt) + 1) @
        net16 (length (gt_helo gt) + 1) @ (gt_from gt @ [NUL]) @ (gt_to gt @ [NUL]) @ (gt_helo gt @ [NUL]) @ replicate pad NUL)" "pad \<le> 15"
    by (rule update_packet [OF assms(8) sum])
  define tlen where "tlen = 18 + (length (gt_from gt) + 1) + (length (gt_to gt) + 1) + (length (gt_helo gt) + 1) + pad"
  define e where "e = net16 SYNC_GREY @ net16 tlen @
        net_int now @ net32 (unat (inet_addr (gt_ip gt))) @ net16 (length (gt_from gt) + 1) @ net16 (length (gt_to gt) + 1) @
        net16 (length (gt_helo gt) + 1) @ (gt_from gt @ [NUL]) @ (gt_to gt @ [NUL]) @ (gt_helo gt @ [NUL]) @ replicate pad NUL"
  have pkt: "pkt = sync_packet hmac sender (36 + tlen) e" using pad(1) unfolding tlen_def e_def .
  have le: "length e = tlen" by (simp add: e_def tlen_def)
  have small: "tlen \<le> 1000" using l pad(2) by (simp add: tlen_def LEXER_MAX_STR_LEN_def)
  let ?H = "Sync_hdr (sy_sync_counter sender) (36 + tlen) (replicate 20 NUL)" and ?T = "replicate (SYNC_MAXSIZE - (36 + tlen)) NUL"
  let ?msg = "sync_grey_text (gt_ip gt) (gt_helo gt) (gt_from gt) (gt_to gt)"
  have nul: "NUL \<notin> set (gt_from gt)" "NUL \<notin> set (gt_to gt)" "NUL \<notin> set (gt_helo gt)" using pl by (simp_all add: plain_def)
  have h: "32 = length ?H" "tlen < 65536" "tlen \<le> 36 + tlen" using small by simp_all
  have "Sync_recv hmac receiver addr pkt out =
      recv_loop (sy_config receiver) (inet_ntoa addr) (?H @ e @ net16 SYNC_END @ net16 4 @ ?T) 32 (36 + tlen) False out"
    using recv_packet [OF assms(1-3), where len = "36 + tlen" and tlvs = e and out = out] le small by (simp add: pkt SYNC_MAXSIZE_def)
  also have "\<dots> = recv_loop (sy_config receiver) (inet_ntoa addr) (?H @ e @ net16 SYNC_END @ net16 4 @ ?T) (32 + tlen) (36 + tlen - tlen) False
      (out @ ?msg)"
    using recv_grey [OF h(1) tlen_def h(2,3) nul assms(4,5), where src = "inet_ntoa addr" and now = now and
        ip = "inet_addr (gt_ip gt)" and ys = "net16 SYNC_END @ net16 4 @ ?T" and delete = False and out = out]
    unfolding e_def [symmetric] assms(7) .
  also have "\<dots> = Some (out @ ?msg)"
    using recv_end [of "32 + tlen" "?H @ e"] le by simp
  finally have r: "Sync_recv hmac receiver addr pkt out = Some (out @ message_text '' = '' (sync_grey_vars gt))"
    by (simp add: sync_grey_message)
  have "\<exists>p. Config_parser_start glob (message_parser lexer sectype tok) Config_create = Some (True, p) \<and>
          lex_source (cp_lexer p) = Source_file rest \<and>
          process_message D spf g (cp_config p) now' = do { g' \<leftarrow> process_grey D spf g gt False [] now'; Some (0, g') }"
    if "lex_source lexer = Source_file (message_text '' = '' (sync_grey_vars gt) @ rest)" "\<not> seen_end lexer" for lexer rest
  proof -
    have "lx (cp_lexer (message_parser lexer sectype tok)) (message_text '' = '' (sync_grey_vars gt) @ rest)"
        "cp_section (message_parser lexer sectype tok) = None"
      using that by (simp_all add: lx_def message_parser_def Config_parser_create_def)
    from sync_grey_handled [OF this(1) assms(6) this(2), where glob = glob and D = D and spf = spf and g = g and now = now'] show ?thesis by (auto simp: lx_def)
  qed
  then show ?thesis using r by blast
qed

text \<open>C18 for the announcement of one host to another.\<close>

theorem sync_reaches_greylister_witness:
  "\<exists>dest pkt msg. (dest, pkt) \<in> set (snd (Sync_update example_hmac (\<lambda>s. 0xC0000201) example_engine
       \<lparr>gt_ip = example_ip, gt_helo = ''mx'', gt_from = ''a@b'', gt_to = ''c@d''\<rparr> 100)) \<and>
     Sync_recv example_hmac example_engine 0xC0000203 pkt [] = Some msg"
proof -
  let ?gt = "\<lparr>gt_ip = example_ip, gt_helo = ''mx'', gt_from = ''a@b'', gt_to = ''c@d''\<rparr>"
  have gt: "grey_msg_ok ([], ?gt)" "inet_ntoa 0xC0000201 = gt_ip ?gt"
    by (simp_all add: grey_msg_ok_def example_ip_def) (simp_all add: plain_def NUL_def LEXER_MAX_STR_LEN_def)
  obtain dest pkt where p: "(dest, pkt) \<in> set (snd (Sync_update example_hmac (\<lambda>s. 0xC0000201) example_engine ?gt 100))"
    by (simp add: Sync_update_def Let_def example_sends)
  have "0xC0000203 = (0::u32) \<or> sy_sync_in example_engine \<noteq> 0xC0000203" using example_enabled(2) by simp
  from sync_reaches_greylister [OF example_hmac_length refl this example_enabled(1) one_neq_zero gt p, of "[]"] p show ?thesis by blast
qed

text \<open>
  C19. An address that one host announces as white or trapped, or announces the deletion of, reaches the
  greylister of another that shares its key as one call of \<open>process_non_grey\<close> with the same address,
  kind and time of expiry, which is not announced again.
\<close>

theorem sync_address_reaches_greylister:
  assumes "\<And>k m. length (hmac k m) = 20" and "sy_sync_key receiver = sy_sync_key sender" and "addr = 0 \<or> sy_sync_in receiver \<noteq> addr"
    and "Config_get_int (sy_config receiver) ''enable'' (Some ''grey'') GREYLISTING_ENABLED = Some enable" and "enable \<noteq> 0"
    and "inet_ntoa (inet_addr ip) = ip"
    and "(dest, pkt) \<in> set (snd ((if trap then Sync_trapped else Sync_white) hmac inet_addr sender ip now expire delete))"
  shows "\<exists>msg. Sync_recv hmac receiver addr pkt out = Some (out @ msg) \<and>
    (\<forall>lexer rest. lex_source lexer = Source_file (msg @ rest) \<and> \<not> seen_end lexer \<longrightarrow>
       (\<exists>p. Config_parser_start glob (message_parser lexer sectype tok) Config_create = Some (True, p) \<and>
          lex_source (cp_lexer p) = Source_file rest \<and>
          process_message D spf g (cp_config p) now' =
            do { g' \<leftarrow> process_non_grey D g trap ip (inet_ntoa addr) (dec_digits (nat (expire mod 2 ^ 32))) False delete now';
                 Some (0, g') }))"
proof -
  let ?exp = "nat (expire mod 2 ^ 32)"
  have r: "Sync_recv hmac receiver addr pkt out = Some (out @ message_text '' = '' (sync_addr_vars trap ip (inet_ntoa addr) ?exp delete))"
    using sync_address_received [OF assms(1-5,7)] unfolding assms(6) .
  have pl: "plain ip" "plain (dec_digits ?exp)"
    using plain_inet_ntoa [of "inet_addr ip"] assms(6) plain_digits [of ?exp] by (simp_all add: nat_less_iff)
  have "\<exists>p. Config_parser_start glob (message_parser lexer sectype tok) Config_create = Some (True, p) \<and>
          lex_source (cp_lexer p) = Source_file rest \<and>
          process_message D spf g (cp_config p) now' =
            do { g' \<leftarrow> process_non_grey D g trap ip (inet_ntoa addr) (dec_digits ?exp) False delete now'; Some (0, g') }"
    if "lex_source lexer = Source_file (message_text '' = '' (sync_addr_vars trap ip (inet_ntoa addr) ?exp delete) @ rest)" "\<not> seen_end lexer"
    for lexer rest
  proof -
    have "lx (cp_lexer (message_parser lexer sectype tok)) (message_text '' = '' (sync_addr_vars trap ip (inet_ntoa addr) ?exp delete) @ rest)"
        "cp_section (message_parser lexer sectype tok) = None"
      using that by (simp_all add: lx_def message_parser_def Config_parser_create_def)
    from sync_addr_handled [OF this(1) pl(1) plain_inet_ntoa pl(2) this(2), where glob = glob and D = D and spf = spf and g = g and now = now']
    show ?thesis by (auto simp: lx_def)
  qed
  then show ?thesis using r by blast
qed

text \<open>C19 for an address that is trapped.\<close>

theorem sync_address_reaches_greylister_witness:
  "\<exists>dest pkt msg. (dest, pkt) \<in> set (snd (Sync_trapped example_hmac (\<lambda>s. 0xC0000201) example_engine example_ip 100 86500 False)) \<and>
     Sync_recv example_hmac example_engine 0xC0000203 pkt [] = Some msg"
proof -
  obtain dest pkt where p: "(dest, pkt) \<in> set (snd (Sync_trapped example_hmac (\<lambda>s. 0xC0000201) example_engine example_ip 100 86500 False))"
    by (simp add: Sync_trapped_def send_address_def Let_def example_sends)
  then have q: "(dest, pkt) \<in> set (snd ((if True then Sync_trapped else Sync_white) example_hmac (\<lambda>s. 0xC0000201) example_engine example_ip 100 86500 False))"
    by simp
  have "0xC0000203 = (0::u32) \<or> sy_sync_in example_engine \<noteq> 0xC0000203" using example_enabled(2) by simp
  moreover have "inet_ntoa 0xC0000201 = example_ip" by (simp add: example_ip_def)
  ultimately show ?thesis
    using sync_address_reaches_greylister [OF example_hmac_length refl _ example_enabled(1) one_neq_zero _ q, where addr = "0xC0000203" and out = "[]"] p by blast
qed

text \<open>
  C20. A packet without the right code is ignored: unless its HMAC is that of its contents under the
  receiver's key, nothing is written to the greylister and nothing outside the buffer is read.
\<close>

theorem sync_rejects_forged:
  assumes "get16 datagram 2 = Some len"
    and "take 20 (drop 8 datagram) \<noteq> hmac (sy_sync_key receiver) (take len (take 8 datagram @ replicate 20 NUL @ drop 28 datagram))"
    and "length datagram \<le> SYNC_MAXSIZE"
  shows "Sync_recv hmac receiver addr datagram out = Some out"
proof (cases "length datagram < 32 \<or> length datagram < len")
  case True
  have "datagram \<noteq> []" using assms(1) by (auto simp: get16_def nth_opt_def)
  then have "nth_opt (datagram @ xs) 0 \<noteq> None" "nth_opt (datagram @ xs) 1 \<noteq> None" "get16 (datagram @ xs) 2 = Some len" for xs
    using assms(1) by (auto simp: get16_def nth_opt_def nth_append bind_eq_Some_conv split: if_splits)
  then show ?thesis using True assms(3) by (auto simp: Sync_recv_def sync_sizes Let_def)
next
  case False
  let ?buf = "datagram @ replicate (SYNC_MAXSIZE - length datagram) NUL"
  have g: "get16 ?buf 2 = Some len" "take 8 ?buf = take 8 datagram" "take 20 (drop 8 ?buf) = take 20 (drop 8 datagram)"
    using assms(1) False by (auto simp: get16_def nth_opt_def nth_append bind_eq_Some_conv split: if_splits)
  have "take len (take 8 ?buf @ replicate 20 NUL @ drop 28 ?buf) = take len (take 8 datagram @ replicate 20 NUL @ drop 28 datagram)"
    using False by simp
  then show ?thesis using False assms(2,3) g
    by (auto simp: Sync_recv_def sync_sizes Let_def SYNC_HMAC_LEN_def)
qed

text \<open>C20 for a packet of zeros with a length of 40.\<close>

theorem sync_rejects_forged_witness:
  "Sync_recv example_hmac example_engine 1 ([CHR 0x02, CHR 0x02, NUL, char_of (40::nat)] @ replicate 36 NUL) ''x'' = Some ''x''"
proof (rule sync_rejects_forged)
  show "get16 ([CHR 0x02, CHR 0x02, NUL, char_of (40::nat)] @ replicate 36 NUL) 2 = Some 40"
    by (simp add: get16_def nth_opt_def NUL_def)
qed (simp_all add: example_hmac_def SYNC_MAXSIZE_def NUL_def)

text \<open>The flag for deletions is never taken back: an addition behind a deletion arrives as a deletion.\<close>

definition addr_entry :: "nat \<Rightarrow> int \<Rightarrow> int \<Rightarrow> u32 \<Rightarrow> char list" where
  "addr_entry type now expire ip = net16 type @ net16 16 @ net_int now @ net_int expire @ net32 (unat ip)"

lemma addr_entry_length [simp]: "length (addr_entry type now expire ip) = 16"
  by (simp add: addr_entry_def)

theorem sync_delete_sticky:
  assumes "\<And>k m. length (hmac k m) = 20" and "sy_sync_key receiver = sy_sync_key sender" and "addr = 0 \<or> sy_sync_in receiver \<noteq> addr"
    and "Config_get_int (sy_config receiver) ''enable'' (Some ''grey'') GREYLISTING_ENABLED = Some enable" and "enable \<noteq> 0"
  shows "Sync_recv hmac receiver addr (sync_packet hmac sender 68 (addr_entry SYNC_DEL_WHITE now e1 ip1 @ addr_entry SYNC_WHITE now e2 ip2)) out =
    Some (out @ sync_addr_text GREY_MSG_WHITE (inet_ntoa ip1) (inet_ntoa addr) (nat (e1 mod 2 ^ 32)) True @
      sync_addr_text GREY_MSG_WHITE (inet_ntoa ip2) (inet_ntoa addr) (nat (e2 mod 2 ^ 32)) True)"
proof -
  let ?H = "Sync_hdr (sy_sync_counter sender) 68 (replicate 20 NUL)" and ?T = "net16 SYNC_END @ net16 4 @ replicate (SYNC_MAXSIZE - 68) NUL"
  let ?a = "addr_entry SYNC_DEL_WHITE now e1 ip1" and ?b = "addr_entry SYNC_WHITE now e2 ip2"
  let ?m1 = "sync_addr_text GREY_MSG_WHITE (inet_ntoa ip1) (inet_ntoa addr) (nat (e1 mod 2 ^ 32)) True"
    and ?m2 = "sync_addr_text GREY_MSG_WHITE (inet_ntoa ip2) (inet_ntoa addr) (nat (e2 mod 2 ^ 32)) True"
  have "Sync_recv hmac receiver addr (sync_packet hmac sender 68 (?a @ ?b)) out =
      recv_loop (sy_config receiver) (inet_ntoa addr) (?H @ ?a @ ?b @ ?T) 32 68 False out"
    using recv_packet [OF assms(1-3), where len = 68 and tlvs = "?a @ ?b" and out = out] by (simp add: SYNC_MAXSIZE_def)
  also have "\<dots> = recv_loop (sy_config receiver) (inet_ntoa addr) (?H @ ?a @ ?b @ ?T) 48 52 True (out @ ?m1)"
    using recv_addr [where p = 32 and H = ?H and len = 68 and type = SYNC_DEL_WHITE and delete = False and delete' = True and
        src = "inet_ntoa addr" and now = now and expire = e1 and ip = ip1 and ys = "?b @ ?T" and out = out, OF _ _ _ assms(4,5)]
    by (simp add: addr_entry_def)
  also have "\<dots> = recv_loop (sy_config receiver) (inet_ntoa addr) (?H @ ?a @ ?b @ ?T) 64 36 True ((out @ ?m1) @ ?m2)"
    using recv_addr [where p = 48 and H = "?H @ ?a" and len = 52 and type = SYNC_WHITE and delete = True and delete' = True and
        src = "inet_ntoa addr" and now = now and expire = e2 and ip = ip2 and ys = ?T and out = "out @ ?m1", OF _ _ _ assms(4,5)]
    by (simp add: addr_entry_def)
  also have "\<dots> = Some ((out @ ?m1) @ ?m2)"
    using recv_end [of 64 "?H @ ?a @ ?b" "sy_config receiver" "inet_ntoa addr" "replicate (SYNC_MAXSIZE - 68) NUL" 36 True "(out @ ?m1) @ ?m2"] by simp
  finally show ?thesis by simp
qed

text \<open>Any number of entries, one after the other.\<close>

lemma recv_addrs:
  assumes "Config_get_int config ''enable'' (Some ''grey'') GREYLISTING_ENABLED = Some enable" and "enable \<noteq> 0"
  shows "p = length H \<Longrightarrow> \<exists>out'. recv_loop config src (H @ concat (replicate n (addr_entry SYNC_WHITE now expire ip)) @ ys) p (16 * n + k) False out =
    recv_loop config src (H @ concat (replicate n (addr_entry SYNC_WHITE now expire ip)) @ ys) (p + 16 * n) k False out'"
proof (induction n arbitrary: p H out)
  case (Suc n)
  let ?e = "addr_entry SYNC_WHITE now expire ip"
  obtain out1 where s: "recv_loop config src (H @ ?e @ concat (replicate n ?e) @ ys) p (16 * Suc n + k) False out =
      recv_loop config src (H @ ?e @ concat (replicate n ?e) @ ys) (p + 16) (16 * n + k) False out1"
    using recv_addr [where p = p and H = H and len = "16 * Suc n + k" and type = SYNC_WHITE and delete = False and delete' = False and
        src = src and now = now and expire = expire and ip = ip and ys = "concat (replicate n ?e) @ ys" and out = out, OF Suc.prems _ _ assms]
    by (auto simp: addr_entry_def sync_types)
  obtain out2 where "recv_loop config src ((H @ ?e) @ concat (replicate n ?e) @ ys) (p + 16) (16 * n + k) False out1 =
      recv_loop config src ((H @ ?e) @ concat (replicate n ?e) @ ys) (p + 16 + 16 * n) k False out2"
    using Suc.IH [of "p + 16" "H @ ?e" out1] Suc.prems by auto
  then show ?case using s by (auto simp: algebra_simps)
qed auto

text \<open>
  The loop takes the length of the whole packet for that of the entries behind the header: on a
  packet of the size of the buffer that is full of entries and has no end marker, sealed by a holder
  of the key, the receiver reads behind its buffer.
\<close>

theorem sync_full_packet_overread:
  assumes "\<And>k m. length (hmac k m) = 20" and "sy_sync_key receiver = sy_sync_key sender" and "addr = 0 \<or> sy_sync_in receiver \<noteq> addr"
    and "Config_get_int (sy_config receiver) ''enable'' (Some ''grey'') GREYLISTING_ENABLED = Some enable" and "enable \<noteq> 0"
  shows "Sync_recv hmac receiver addr (sealed hmac sender SYNC_MAXSIZE (concat (replicate 86 (addr_entry SYNC_WHITE now expire ip)))) out = None"
proof -
  let ?H = "Sync_hdr (sy_sync_counter sender) SYNC_MAXSIZE (replicate 20 NUL)" and ?B = "concat (replicate 86 (addr_entry SYNC_WHITE now expire ip))"
  have l: "length ?B + 32 = SYNC_MAXSIZE" by (simp add: SYNC_MAXSIZE_def length_concat sum_list_replicate)
  have "Sync_recv hmac receiver addr (sealed hmac sender SYNC_MAXSIZE ?B) out =
      recv_loop (sy_config receiver) (inet_ntoa addr) (?H @ ?B @ []) 32 (16 * 86 + 32) False out"
    using recv_sealed [OF assms(1-3) l, where out = out] by (simp add: SYNC_MAXSIZE_def)
  moreover obtain out' where "recv_loop (sy_config receiver) (inet_ntoa addr) (?H @ ?B @ []) 32 (16 * 86 + 32) False out =
      recv_loop (sy_config receiver) (inet_ntoa addr) (?H @ ?B @ []) (32 + 16 * 86) 32 False out'"
    using recv_addrs [OF assms(4,5), of 32 ?H "inet_ntoa addr" 86 now expire ip "[]" 32 out] by (metis Sync_hdr_length length_replicate)
  moreover have "get16 (?H @ ?B @ []) (32 + 16 * 86 + 2) = None" using l by (simp add: get16_def nth_opt_def SYNC_MAXSIZE_def)
  ultimately show ?thesis by (subst (asm) (2) recv_loop.simps) (simp add: sync_sizes)
qed

text \<open>The statement at the example.\<close>

theorem sync_full_packet_overread_witness:
  "Sync_recv example_hmac example_engine 0 (sealed example_hmac example_engine SYNC_MAXSIZE
     (concat (replicate 86 (addr_entry SYNC_WHITE 100 200 5)))) [] = None"
  by (rule sync_full_packet_overread [OF example_hmac_length refl _ example_enabled(1)]) simp_all

end
