(* ===== verification/Daemon_Safety.thy ===== *)
theory Daemon_Safety
  imports Daemon
begin

text \<open>
  Shows that the event loop of the daemon keeps its state in order: the blacklists stay searchable
  tries, every connection stays in its invariant, the descriptors stay distinct and the counts of the
  clients are those of the open connections, whatever the clients send and in whatever order the
  events arrive.
\<close>

section \<open>The blacklists of the daemon\<close>

definition blacklist_ok :: "Blacklist_T \<Rightarrow> bool" where
  "blacklist_ok bl \<longleftrightarrow> bl_type bl = BL_STORAGE_TRIE \<and> (\<exists>t. bl_trie bl = Some t \<and> trie_ok 36 t)"

definition blacklists_ok :: "Blacklist_T Hash_T \<Rightarrow> bool" where
  "blacklists_ok h \<longleftrightarrow> hash_inv h \<and> (\<forall>name bl. hash_map h name = Some bl \<longrightarrow> NUL \<notin> set name \<and> blacklist_ok bl)"

text \<open>An address with a prefix length, as the other processes write it.\<close>

definition item_ok :: "string \<Rightarrow> bool" where
  "item_ok s \<longleftrightarrow> plain s \<and> (\<exists>parsed w. scan_cidr s = Some (parsed, w) \<and> w \<noteq> 0 \<and> unat w \<le> IP_MAX_MASKBITS)"

definition resolver_ok :: "(u16 \<Rightarrow> string \<Rightarrow> IP_addr option) \<Rightarrow> bool" where
  "resolver_ok inet_pton \<longleftrightarrow> (\<forall>af s p. inet_pton af s = Some p \<longrightarrow> length (addr32 p) = 4)"

lemma zero_addr_length [simp]: "length (addr32 zero_addr) = 4"
  by (simp add: zero_addr_def)

lemma item_key:
  assumes "item_ok s" and "resolver_ok inet_pton" and "IP_str_to_addr_mask inet_pton s 0 = (ret, n, m, af)"
  shows "cmp_trie_entry (trie_entry_bytes af n m) (trie_entry_bytes af n m) = Some 0"
proof -
  obtain parsed w where s: "scan_cidr s = Some (parsed, w)" "w \<noteq> 0" "unat w \<le> IP_MAX_MASKBITS" using assms(1) by (auto simp: item_ok_def)
  have af: "af = AF_INET \<or> af = AF_INET6"
    using assms(3) s by (auto simp: IP_str_to_addr_mask_def Let_def split: if_splits option.splits)
  have "n = zero_addr \<and> m = zero_addr \<or> (\<exists>af p. inet_pton af parsed = Some p \<and>
      n = \<lparr>addr32 = map2 (AND) (addr32 p) (prefix_mask (unat w))\<rparr> \<and> m = \<lparr>addr32 = prefix_mask (unat w)\<rparr>)"
    using assms(3) s by (auto simp: IP_str_to_addr_mask_def Let_def split: if_splits option.splits)
  then consider "n = zero_addr" "m = zero_addr"
    | p :: IP_addr where "length (addr32 p) = 4" "n = \<lparr>addr32 = map2 (AND) (addr32 p) (prefix_mask (unat w))\<rparr>" "m = \<lparr>addr32 = prefix_mask (unat w)\<rparr>"
    using assms(2) unfolding resolver_ok_def by blast
  then show ?thesis
  proof cases
    case 1
    then show ?thesis using cmp_trie_entry_bytes [of n m n af af m] af by (auto simp: IP_match_addr_def zero_addr_def)
  next
    case 2
    have l: "length (prefix_mask (unat w)) = 4" using s(3) by (simp add: prefix_mask_length IP_MAX_MASKBITS_def)
    have "IP_match_addr n m n af"
      using af 2 l by (auto simp: IP_match_addr_def and.assoc)
    then show ?thesis using cmp_trie_entry_bytes [of n m n af af m] 2 l by simp
  qed
qed

lemma add_ok:
  assumes "blacklist_ok bl" and "item_ok s" and "resolver_ok inet_pton"
  obtains ret bl' where "Blacklist_add inet_pton bl s = Some (ret, bl')" and "blacklist_ok bl'"
proof -
  obtain ret n m af where k: "IP_str_to_addr_mask inet_pton s 0 = (ret, n, m, af)" using prod_cases4 by blast
  obtain t where t: "bl_type bl = BL_STORAGE_TRIE" "bl_trie bl = Some t" "trie_ok 36 t" using assms(1) by (auto simp: blacklist_ok_def)
  let ?k = "trie_entry_bytes af n m"
  have "length k' = 36" if "k' \<in> trie_keys (Some t)" for k'
    using t(3) that trie_inv_key_length [of 36 "Some t" k'] by (cases "t = Trie_create None") (auto simp: trie_ok_def Trie_create_def)
  moreover have "length ?k = 36" by simp
  ultimately have "\<forall>k'\<in>trie_keys (Some t). \<exists>c. cmp_trie_entry k' ?k = Some c \<and> (c = 0 \<or> k' \<noteq> ?k)"
    using item_key [OF assms(2,3) k] by (auto simp: cmp_trie_entry_def)
  from Trie_insert_spec [where cmp = cmp_trie_entry, OF t(3) _ _ this] obtain t' where "Trie_insert cmp_trie_entry t ?k = Some t'" "trie_ok 36 t'" by auto
  then show ?thesis using that t k by (auto simp: Blacklist_add_def blacklist_ok_def)
qed

lemma add_values_ok:
  assumes "resolver_ok inet_pton"
  shows "blacklist_ok bl \<Longrightarrow> \<forall>s\<in>set items. item_ok s \<Longrightarrow> \<exists>bl'. add_values inet_pton (map Str_value items) bl = Some bl' \<and> blacklist_ok bl'"
proof (induction items arbitrary: bl)
  case (Cons s items)
  obtain ret bl' where "Blacklist_add inet_pton bl s = Some (ret, bl')" "blacklist_ok bl'"
    by (rule add_ok [OF Cons.prems(1) _ assms, of s]) (use Cons.prems(2) in simp)
  then show ?case using Cons by simp
qed simp

text \<open>A message that names a blacklist and its addresses, as the setup program and the greylister print it.\<close>

definition config_text_ok :: "string \<Rightarrow> bool" where
  "config_text_ok text \<longleftrightarrow>
     (\<exists>check name msg ips. text = Greyd_send_config check name msg ips \<and> List_wf ips \<and> list_head ips \<noteq> [] \<and>
        plain name \<and> length name \<le> MAX_KEY_LEN \<and> plain msg \<and> (\<forall>s\<in>set (list_head ips). item_ok (send_item check s)))"

lemma serve_config_ok:
  assumes "config_text_ok text" and "blacklists_ok (gs_blacklists st)" and "resolver_ok (ce_inet_pton E)"
  obtains h where "serve_config E text st = Some (st\<lparr>gs_blacklists := h\<rparr>)" and "blacklists_ok h"
proof -
  obtain check name msg ips where t: "text = Greyd_send_config check name msg ips" "List_wf ips" "list_head ips \<noteq> []" "plain name"
      "length name \<le> MAX_KEY_LEN" "plain msg" "\<forall>s\<in>set (map (send_item check) (list_head ips)). item_ok s"
    using assms(1) by (auto simp: config_text_ok_def)
  let ?items = "map (send_item check) (list_head ips)"
  have b: "blacklist_ok (Blacklist_create name msg BL_STORAGE_TRIE)"
    by (simp add: blacklist_ok_def Blacklist_create_def Let_def trie_ok_def BL_STORAGE_LIST_def BL_STORAGE_TRIE_def)
  obtain bl where bl: "add_values (ce_inet_pton E) (map Str_value ?items) (Blacklist_create name msg BL_STORAGE_TRIE) = Some bl" "blacklist_ok bl"
    using add_values_ok [OF assms(3) b t(7)] by blast
  obtain h where h: "Hash_insert (gs_blacklists st) name bl = Some h" "hash_inv h" "hash_map h = (hash_map (gs_blacklists st))(name \<mapsto> bl)"
    by (rule Hash_insert_correct [of "gs_blacklists st" name bl]) (use assms(2) t(5) in \<open>simp_all add: blacklists_ok_def\<close>)
  let ?lexer = "Lexer_create (ce_lexer_value E) (ce_lexer_tok E) (Lexer_source_create_from_fd text)"
  have "List_size (Some ips) > 0" using t(2,3) by (simp add: List_wf_def)
  then have "lex_source ?lexer = Source_file (message_text ''='' [(''name'', M_str name), (''message'', M_str msg), (''ips'', M_list ?items)] @ [])"
    "\<not> seen_end ?lexer" using t(1) by (simp_all add: Lexer_create_def Lexer_source_create_from_fd_def send_config_text)
  from process_config_message [OF this eq_signs(1) _ t(4,6), of "ce_glob E" "ce_inet_pton E" "ce_lexer_tok E" "ce_lexer_tok E" "gs_blacklists st"]
  have "serve_config E text st = Some (st\<lparr>gs_blacklists := h\<rparr>)"
    using t(3,7) bl(1) h(1) by (simp add: serve_config_def Let_def item_ok_def)
  moreover have "blacklists_ok h" using assms(2) h(2,3) bl(2) t(4) by (auto simp: blacklists_ok_def plain_def)
  ultimately show ?thesis by (rule that)
qed

section \<open>The table of connections\<close>

definition is_open :: "Con \<Rightarrow> bool" where
  "is_open con \<longleftrightarrow> con_fd con \<noteq> - 1"

definition nopen :: "Con \<Rightarrow> int" where
  "nopen con = (if is_open con then 1 else 0)"

definition nblack :: "Con \<Rightarrow> int" where
  "nblack con = (if is_open con \<and> Con_black con then 1 else 0)"

text \<open>What serving a connection leaves alone.\<close>

definition same_daemon :: "Greyd_state \<Rightarrow> Greyd_state \<Rightarrow> bool" where
  "same_daemon st st' \<longleftrightarrow>
     gs_config st' = gs_config st \<and> gs_cons st' = gs_cons st \<and> gs_max_cons st' = gs_max_cons st \<and> gs_max_black st' = gs_max_black st \<and>
     gs_blacklists st' = gs_blacklists st \<and> gs_proxy_protocol_enabled st' = gs_proxy_protocol_enabled st \<and>
     gs_permitted_proxies st' = gs_permitted_proxies st"

lemma same_daemon_trans: "same_daemon st st' \<Longrightarrow> same_daemon st' st'' \<Longrightarrow> same_daemon st st''"
  by (simp add: same_daemon_def)

lemma same_daemon_env: "same_daemon st st' \<Longrightarrow> env_ok E st' code \<longleftrightarrow> env_ok E st code"
  by (simp add: same_daemon_def env_ok_def)

text \<open>A connection is served: it is in its invariant again, and the counts follow it.\<close>

definition con_served :: "string \<Rightarrow> Con \<Rightarrow> Greyd_state \<Rightarrow> Con \<Rightarrow> Greyd_state \<Rightarrow> bool" where
  "con_served code con st con' st' \<longleftrightarrow>
     con_ok code con' \<and> con_fd con' \<in> {con_fd con, - 1} \<and> same_daemon st st' \<and>
     gs_clients st' = gs_clients st + nopen con' - nopen con \<and> gs_black_clients st' = gs_black_clients st + nblack con' - nblack con"

definition cons_served :: "string \<Rightarrow> Con list \<Rightarrow> Greyd_state \<Rightarrow> Con list \<Rightarrow> Greyd_state \<Rightarrow> bool" where
  "cons_served code cons st cons' st' \<longleftrightarrow>
     (\<forall>con\<in>set cons'. con_ok code con) \<and> list_all2 (\<lambda>con con'. con_fd con' \<in> {con_fd con, - 1}) cons cons' \<and> same_daemon st st' \<and>
     gs_clients st' = gs_clients st + sum_list (map nopen cons') - sum_list (map nopen cons) \<and>
     gs_black_clients st' = gs_black_clients st + sum_list (map nblack cons') - sum_list (map nblack cons)"

lemma served_refl: "con_ok code con \<Longrightarrow> con_served code con st con st"
  by (simp add: con_served_def same_daemon_def)

lemma served_trans: "con_served code con st con1 st1 \<Longrightarrow> con_served code con1 st1 con' st' \<Longrightarrow> con_served code con st con' st'"
  by (auto simp: con_served_def same_daemon_def)

lemma served_Nil: "cons_served code [] st [] st"
  by (simp add: cons_served_def same_daemon_def)

lemma served_Cons: "con_served code con st con' st1 \<Longrightarrow> cons_served code cons st1 cons' st' \<Longrightarrow>
    cons_served code (con # cons) st (con' # cons') st'"
  by (auto simp: con_served_def cons_served_def same_daemon_def)

lemma close_served:
  assumes "is_open con" and "Con_close con st = (con', st')"
  shows "con_served code con st con' st'" and "con_fd con' = - 1"
  using assms by (auto simp: Con_close_def Let_def con_served_def con_ok_def same_daemon_def nopen_def nblack_def is_open_def Con_black_def split: if_splits)

lemma event_served:
  assumes "event_ok code con st res" and "is_open con"
  obtains con' st' where "res = Some (con', st')" and "con_served code con st con' st'"
    and "con_fd con' = con_fd con \<Longrightarrow> con_reads con' \<or> con_writes con'"
proof -
  from assms(1) consider (step) "step_ok code con st res" | (close) con' where "res = Some (con', snd (Con_close con st))" "con_fd con' = - 1"
    unfolding event_ok_def by blast
  then show ?thesis
  proof cases
    case step
    then obtain con' g f where s: "res = Some (con', st\<lparr>gs_grey_out := gs_grey_out st @ g, gs_fw_out := gs_fw_out st @ f\<rparr>)" "con_base code con'"
        "con_reads con' \<or> con_writes con'" "con_fd con' = con_fd con" "con_blacklists con' = con_blacklists con"
      unfolding step_ok_def by blast
    show ?thesis
      by (rule that [OF s(1)]) (use s in \<open>auto simp: con_served_def con_ok_def same_daemon_def nopen_def nblack_def is_open_def Con_black_def\<close>)
  next
    case close
    obtain c s where c: "Con_close con st = (c, s)" by fastforce
    have "con_served code con st c s" by (rule close_served(1) [OF assms(2) c])
    then have "con_served code con st con' s" using close(2) close_served(2) [OF assms(2) c]
      by (auto simp: con_served_def con_ok_def nopen_def nblack_def is_open_def)
    then show ?thesis using that [of con' s] close c assms(2) by (simp add: is_open_def)
  qed
qed

lemma served_ends: "con_served code con st con' st' \<Longrightarrow> \<not> is_open con \<Longrightarrow> \<not> is_open con'"
  by (auto simp: con_served_def is_open_def)

section \<open>What is polled\<close>

definition expired :: "int \<Rightarrow> Con \<Rightarrow> bool" where
  "expired now con \<longleftrightarrow> con_r con \<noteq> 0 \<and> con_r con + MAX_TIME \<le> now \<or> con_w con \<noteq> 0 \<and> con_w con + MAX_TIME \<le> now"

definition con_entry :: "int \<Rightarrow> Con \<Rightarrow> pollfd" where
  "con_entry now con =
     (if con_r con \<noteq> 0 then \<lparr>pf_fd = con_fd con, pf_in = True, pf_out = False\<rparr>
      else if con_w con \<noteq> 0 \<and> con_w con \<le> now then \<lparr>pf_fd = con_fd con, pf_in = False, pf_out = True\<rparr> else unset_pollfd)"

definition closed :: "Con \<Rightarrow> Con" where
  "closed con = fst (Con_close con (undefined\<lparr>gs_black_clients := 0\<rparr>))"

lemma fst_close: "fst (Con_close con st) = closed con"
  by (simp add: Con_close_def closed_def Let_def)

lemma closed_fd [simp]: "con_fd (closed con) = - 1"
  by (simp add: closed_def)

lemma prepare_con_closed: "\<not> is_open con \<Longrightarrow> prepare_con now m con st fds writers = (con, st, fds, writers)"
  by (simp add: prepare_con_def is_open_def Let_def)

lemma prepare_con_expired:
  assumes "con_ok code con" and "is_open con" and "expired now con"
  shows "prepare_con now m con st fds writers = (closed con, snd (Con_close con st), fds, writers)"
  using assms fst_close [of con st]
  by (cases "Con_close con st") (auto simp: prepare_con_def is_open_def Let_def con_ok_def con_reads_def con_writes_def expired_def)

lemma prepare_con_waits:
  assumes "con_ok code con" and "is_open con" and "\<not> expired now con" and "fds ! slot m (con_fd con) = unset_pollfd"
    and "slot m (con_fd con) < length fds"
  shows "prepare_con now m con st fds writers = (con, st, fds[slot m (con_fd con) := con_entry now con], writers \<or> con_w con \<noteq> 0)"
  using assms list_update_id [of fds "slot m (con_fd con)"]
  by (auto simp: prepare_con_def is_open_def Let_def con_ok_def con_reads_def con_writes_def expired_def con_entry_def unset_pollfd_def)

definition aged :: "int \<Rightarrow> Con \<Rightarrow> Con" where
  "aged now con = (if is_open con \<and> expired now con then closed con else con)"

definition slots_free :: "int \<Rightarrow> Con list \<Rightarrow> pollfd list \<Rightarrow> bool" where
  "slots_free m cons fds \<longleftrightarrow> distinct (map (slot m \<circ> con_fd) (filter is_open cons)) \<and>
     (\<forall>con\<in>set cons. is_open con \<longrightarrow> slot m (con_fd con) < length fds \<and> fds ! slot m (con_fd con) = unset_pollfd)"

lemma prepare_con_spec:
  assumes "con_ok code con" and "is_open con \<longrightarrow> fds ! slot m (con_fd con) = unset_pollfd \<and> slot m (con_fd con) < length fds"
  obtains st' where "prepare_con now m con st fds writers =
      (aged now con, st', if is_open (aged now con) then fds[slot m (con_fd con) := con_entry now con] else fds,
       writers \<or> is_open (aged now con) \<and> con_w con \<noteq> 0)"
    and "con_served code con st (aged now con) st'" and "gs_slow_until st' \<in> {gs_slow_until st, 0}"
proof -
  consider "\<not> is_open con" | "is_open con" "expired now con" | "is_open con" "\<not> expired now con" by blast
  then show ?thesis
  proof cases
    case 1
    then show ?thesis using that [of st] prepare_con_closed [OF 1] served_refl [OF assms(1)] by (simp add: aged_def)
  next
    case 2
    obtain s where s: "Con_close con st = (closed con, s)" using fst_close [of con st] by (cases "Con_close con st") simp
    have "gs_slow_until s = 0" using s by (auto simp: Con_close_def Let_def)
    then show ?thesis
      using that [of s] prepare_con_expired [OF assms(1) 2] close_served(1) [OF 2(1) s] s 2 by (simp add: aged_def) (simp add: is_open_def)
  next
    case 3
    then show ?thesis using that [of st] prepare_con_waits [OF assms(1) 3] assms(2) served_refl [OF assms(1)] by (simp add: aged_def)
  qed
qed

lemma prepare_cons_spec:
  assumes "\<forall>con\<in>set cons. con_ok code con" and "slots_free m cons fds"
  shows "\<exists>st' fds'. prepare_cons now m cons st fds writers =
      (map (aged now) cons, st', fds', writers \<or> (\<exists>con\<in>set (map (aged now) cons). is_open con \<and> con_w con \<noteq> 0)) \<and>
    cons_served code cons st (map (aged now) cons) st' \<and> length fds' = length fds \<and>
    (\<forall>con\<in>set (map (aged now) cons). is_open con \<longrightarrow> fds' ! slot m (con_fd con) = con_entry now con) \<and>
    (\<forall>i. (\<forall>con\<in>set (map (aged now) cons). is_open con \<longrightarrow> slot m (con_fd con) \<noteq> i) \<longrightarrow> fds' ! i = fds ! i)"
  using assms
proof (induction cons arbitrary: st fds writers)
  case Nil
  then show ?case by (simp add: served_Nil)
next
  case (Cons con cons)
  have open_aged: "is_open (aged now c) \<Longrightarrow> is_open c \<and> aged now c = c" for c by (simp add: aged_def is_open_def split: if_splits)
  have free: "distinct (map (slot m \<circ> con_fd) (filter is_open (con # cons)))"
      "\<And>c. c \<in> set (con # cons) \<Longrightarrow> is_open c \<Longrightarrow> slot m (con_fd c) < length fds \<and> fds ! slot m (con_fd c) = unset_pollfd"
    using Cons.prems(2) unfolding slots_free_def by blast+
  define fds1 where "fds1 = (if is_open (aged now con) then fds[slot m (con_fd con) := con_entry now con] else fds)"
  define w1 where "w1 = (writers \<or> is_open (aged now con) \<and> con_w con \<noteq> 0)"
  obtain st1 where c: "prepare_con now m con st fds writers = (aged now con, st1, fds1, w1)" "con_served code con st (aged now con) st1"
    unfolding fds1_def w1_def
    by (rule prepare_con_spec [of code con fds m now st writers]) (use Cons.prems(1) free(2) [of con] in auto)
  have other: "slot m (con_fd c) \<noteq> slot m (con_fd con)" if "c \<in> set cons" "is_open c" "is_open con" for c
    using free(1) that by (auto simp: image_iff)
  have "distinct (map (slot m \<circ> con_fd) (filter is_open cons))" using free(1) by (simp split: if_splits)
  moreover have "slot m (con_fd c) < length fds1 \<and> fds1 ! slot m (con_fd c) = unset_pollfd" if "c \<in> set cons" "is_open c" for c
    using free(2) [of c] that other [OF that, symmetric] open_aged [of con] by (simp add: fds1_def)
  ultimately have "slots_free m cons fds1" by (simp add: slots_free_def)
  then obtain st' fds' where r: "prepare_cons now m cons st1 fds1 w1 =
        (map (aged now) cons, st', fds', w1 \<or> (\<exists>con\<in>set (map (aged now) cons). is_open con \<and> con_w con \<noteq> 0))"
      "cons_served code cons st1 (map (aged now) cons) st'" "length fds' = length fds1"
      "\<forall>con\<in>set (map (aged now) cons). is_open con \<longrightarrow> fds' ! slot m (con_fd con) = con_entry now con"
      "\<forall>i. (\<forall>con\<in>set (map (aged now) cons). is_open con \<longrightarrow> slot m (con_fd con) \<noteq> i) \<longrightarrow> fds' ! i = fds1 ! i"
    using Cons.IH [of fds1 st1 w1] Cons.prems(1) by auto
  have mine: "fds' ! slot m (con_fd (aged now con)) = con_entry now (aged now con)" if "is_open (aged now con)"
  proof -
    have a: "is_open con" "aged now con = con" using open_aged [OF that] by simp_all
    have "\<forall>c\<in>set (map (aged now) cons). is_open c \<longrightarrow> slot m (con_fd c) \<noteq> slot m (con_fd con)"
      using other [OF _ _ a(1)] open_aged by fastforce
    then have "fds' ! slot m (con_fd con) = fds1 ! slot m (con_fd con)" using r(5) by blast
    then show ?thesis using a that free(2) [of con] by (simp add: fds1_def)
  qed
  have rest: "fds1 ! i = fds ! i" if "is_open (aged now con) \<longrightarrow> slot m (con_fd (aged now con)) \<noteq> i" for i
    using that open_aged [of con] by (auto simp: fds1_def nth_list_update_neq)
  have all: "prepare_cons now m (con # cons) st fds writers = (map (aged now) (con # cons), st', fds',
      writers \<or> (\<exists>con\<in>set (map (aged now) (con # cons)). is_open con \<and> con_w con \<noteq> 0))"
    using c(1) r(1) open_aged [of con] by (auto simp: w1_def)
  have len: "length fds' = length fds" using r(3) by (simp add: fds1_def)
  have served: "cons_served code (con # cons) st (map (aged now) (con # cons)) st'" using served_Cons [OF c(2) r(2)] by simp
  have "\<forall>con\<in>set (map (aged now) (con # cons)). is_open con \<longrightarrow> fds' ! slot m (con_fd con) = con_entry now con"
    using r(4) mine by simp
  moreover have "\<forall>i. (\<forall>con\<in>set (map (aged now) (con # cons)). is_open con \<longrightarrow> slot m (con_fd con) \<noteq> i) \<longrightarrow> fds' ! i = fds ! i"
    using r(5) rest by simp
  ultimately show ?case using all len served by blast
qed

section \<open>Serving the connections\<close>

text \<open>
  What \<open>poll\<close> promises: an event is reported only for a descriptor of the array, and data or room only
  when it was asked for. What \<open>read\<close> and \<open>write\<close> promise: not more than there is room for, or than is offered.
\<close>

definition poll_ok :: "(nat \<Rightarrow> poll_event) \<Rightarrow> pollfd list \<Rightarrow> bool" where
  "poll_ok ev fds \<longleftrightarrow> (\<forall>i<length fds.
     (ev_in (ev i) \<longrightarrow> 0 \<le> pf_fd (fds ! i) \<and> pf_in (fds ! i)) \<and> (ev_out (ev i) \<longrightarrow> 0 \<le> pf_fd (fds ! i) \<and> pf_out (fds ! i)) \<and>
     (ev_err (ev i) \<longrightarrow> 0 \<le> pf_fd (fds ! i)))"

definition io_ok :: "daemon_tick \<Rightarrow> Con list \<Rightarrow> bool" where
  "io_ok T cons \<longleftrightarrow> 0 < dt_now T \<and> (\<forall>fd. \<forall>k>0. dt_write T fd k \<le> k) \<and>
     (\<forall>con\<in>set cons. is_open con \<longrightarrow> (\<forall>cs. dt_read T (con_fd con) = Some cs \<longrightarrow> int (length cs) \<le> con_in_remaining con))"

text \<open>The events of a connection fit what it waits for.\<close>

definition events_fit :: "int \<Rightarrow> (nat \<Rightarrow> poll_event) \<Rightarrow> Con \<Rightarrow> bool" where
  "events_fit m ev con \<longleftrightarrow> is_open con \<longrightarrow>
     (ev_in (ev (slot m (con_fd con))) \<longrightarrow> con_reads con) \<and> (ev_out (ev (slot m (con_fd con))) \<longrightarrow> con_writes con)"

lemma serve_con_ok:
  assumes "con_ok code con" and "events_fit m ev con" and "io_ok T (con # cons)" and "env_ok E st code"
  obtains con' st' where "serve_con E T m ev con st = Some (con', st')" and "con_served code con st con' st'"
proof -
  let ?e = "ev (slot m (con_fd con))"
  consider (shut) "\<not> is_open con" | (failed) "is_open con" "ev_err ?e" | (reading) "is_open con" "\<not> ev_err ?e" "ev_in ?e"
    | (sending) "is_open con" "\<not> ev_err ?e" "\<not> ev_in ?e" "ev_out ?e" | (idle) "is_open con" "\<not> ev_err ?e" "\<not> ev_in ?e" "\<not> ev_out ?e" by blast
  then show ?thesis
  proof cases
    case shut
    then show ?thesis using that [OF _ served_refl [OF assms(1)]] by (simp add: serve_con_def is_open_def)
  next
    case failed
    obtain c s where c: "Con_close con st = (c, s)" by fastforce
    have "serve_con E T m ev con st = Some (c, s)" using failed c close_served(2) [OF failed(1) c] by (simp add: serve_con_def is_open_def)
    then show ?thesis using that close_served(1) [OF failed(1) c] by blast
  next
    case reading
    have r: "con_reads con" "con_base code con" using reading assms(1,2) by (auto simp: events_fit_def con_ok_def is_open_def)
    have io: "0 < dt_now T" "\<forall>cs. dt_read T (con_fd con) = Some cs \<longrightarrow> int (length cs) \<le> con_in_remaining con"
      using assms(3) reading(1) by (simp_all add: io_ok_def)
    obtain c s where c: "Con_handle_read E con (dt_now T) st (dt_read T (con_fd con)) = Some (c, s)" "con_served code con st c s"
      by (rule event_served [OF handle_read_ok [OF r(2,1) io(1) assms(4) io(2)] reading(1)])
    have "\<not> con_writes con" using r(1) by (auto simp: con_reads_def con_writes_def)
    then have "\<not> ev_out ?e" using assms(2) reading(1) by (simp add: events_fit_def)
    moreover have "con_fd c = con_fd con \<or> con_fd c = - 1" using c(2) by (auto simp: con_served_def)
    ultimately have "serve_con E T m ev con st = Some (c, s)" using reading c(1) by (auto simp: serve_con_def is_open_def)
    then show ?thesis using that c(2) by blast
  next
    case sending
    have w: "con_writes con" "con_base code con" using sending assms(1,2) by (auto simp: events_fit_def con_ok_def is_open_def)
    have io: "0 < dt_now T" "\<And>k. 0 < k \<Longrightarrow> dt_write T (con_fd con) k \<le> k" using assms(3) by (simp_all add: io_ok_def)
    obtain c s where c: "Con_handle_write E con (dt_now T) st (dt_cr T (con_fd con)) (dt_write T (con_fd con)) = Some (c, s)"
        "con_served code con st c s"
      by (rule event_served [OF handle_write_ok [OF w(2,1) io(1) assms(4) io(2)] sending(1)])
    have "serve_con E T m ev con st = Some (c, s)" using sending c(1) by (simp add: serve_con_def is_open_def)
    then show ?thesis using that c(2) by blast
  next
    case idle
    then show ?thesis using that [OF _ served_refl [OF assms(1)]] by (simp add: serve_con_def is_open_def)
  qed
qed

lemma serve_cons_ok:
  assumes "\<forall>con\<in>set cons. con_ok code con \<and> events_fit m ev con" and "io_ok T cons" and "env_ok E st code"
  shows "\<exists>cons' st'. serve_cons E T m ev cons st = Some (cons', st') \<and> cons_served code cons st cons' st'"
  using assms
proof (induction cons arbitrary: st)
  case (Cons con cons)
  obtain c s where c: "serve_con E T m ev con st = Some (c, s)" "con_served code con st c s"
    by (rule serve_con_ok [OF _ _ Cons.prems(2,3)]) (use Cons.prems(1) in auto)
  have "env_ok E s code" using c(2) Cons.prems(3) same_daemon_env [of st s] by (simp add: con_served_def)
  moreover have "io_ok T cons" using Cons.prems(2) by (simp add: io_ok_def)
  ultimately obtain cs s' where "serve_cons E T m ev cons s = Some (cs, s')" "cons_served code cons s cs s'"
    using Cons.IH Cons.prems(1) by fastforce
  then show ?case using c served_Cons [OF c(2)] by simp
qed (simp add: served_Nil)

section \<open>Accepting a client\<close>

lemma summarize_ok:
  "length out = CON_BL_SUMMARY_SIZE + 1 \<Longrightarrow> strnlen out (CON_BL_SUMMARY_SIZE + 1) < CON_BL_SUMMARY_SIZE + 1 \<Longrightarrow>
     \<forall>bl\<in>set bls. NUL \<notin> set (bl_name bl) \<Longrightarrow> \<exists>out'. summarize_loop bls first out = Some out'"
proof (induction bls arbitrary: first out)
  case (Cons bl bls)
  have cat: "\<exists>d. map_option snd (sstrncat dst src (CON_BL_SUMMARY_SIZE + 1)) = Some d \<and> length d = CON_BL_SUMMARY_SIZE + 1 \<and>
      strnlen d (CON_BL_SUMMARY_SIZE + 1) < CON_BL_SUMMARY_SIZE + 1"
    if "length dst = CON_BL_SUMMARY_SIZE + 1" "strnlen dst (CON_BL_SUMMARY_SIZE + 1) < CON_BL_SUMMARY_SIZE + 1" "NUL \<notin> set src" for dst src
    using sstrncat_spec [of "CON_BL_SUMMARY_SIZE + 1" dst src] that by (auto simp: strnlen_def)
  obtain out1 where o1: "(if first then Some out else map_option snd (sstrncat out '' '' (CON_BL_SUMMARY_SIZE + 1))) = Some out1"
      "length out1 = CON_BL_SUMMARY_SIZE + 1" "strnlen out1 (CON_BL_SUMMARY_SIZE + 1) < CON_BL_SUMMARY_SIZE + 1"
    using cat [OF Cons.prems(1,2), of "'' ''"] Cons.prems(1,2) by (cases first) (auto simp: NUL_def)
  obtain out2 where o2: "map_option snd (sstrncat out1 (bl_name bl) (CON_BL_SUMMARY_SIZE + 1)) = Some out2"
      "length out2 = CON_BL_SUMMARY_SIZE + 1" "strnlen out2 (CON_BL_SUMMARY_SIZE + 1) < CON_BL_SUMMARY_SIZE + 1"
    using cat [OF o1(2,3), of "bl_name bl"] Cons.prems(3) by auto
  obtain out3 where "map_option snd (sstrncat out CON_BL_SUMMARY_ETC (CON_BL_SUMMARY_SIZE + 1)) = Some out3"
    using cat [OF Cons.prems(1,2), of CON_BL_SUMMARY_ETC] by (auto simp: CON_BL_SUMMARY_ETC_def NUL_def)
  moreover obtain out4 where "summarize_loop bls False out2 = Some out4" using Cons.IH [OF o2(2,3)] Cons.prems(3) by auto
  ultimately show ?case unfolding summarize_loop.simps o1(1) Option.bind.simps o2(1) by auto
qed simp

lemma Con_summarize_ok:
  assumes "con_blacklists con = Some l" and "\<forall>bl\<in>set (list_head l). NUL \<notin> set (bl_name bl)"
  shows "\<exists>s. Con_summarize_lists con = Some s"
  using summarize_ok [of "replicate (CON_BL_SUMMARY_SIZE + 1) NUL" "list_head l" True] assms
  by (auto simp: Con_summarize_lists_def strnlen_def c_str_def)

lemma client_lists_ok:
  assumes "blacklists_ok (gs_blacklists st)"
  shows "set names \<subseteq> dom (hash_map (gs_blacklists st)) \<Longrightarrow> \<forall>bl\<in>set (list_head bls). NUL \<notin> set (bl_name bl) \<Longrightarrow>
     \<exists>bls'. client_lists E st src names bls = Some bls' \<and> (\<forall>bl\<in>set (list_head bls'). NUL \<notin> set (bl_name bl))"
proof (induction names arbitrary: bls)
  case (Cons name names)
  obtain bl where bl: "hash_map (gs_blacklists st) name = Some bl" using Cons.prems(1) by auto
  then have ok: "NUL \<notin> set name" "blacklist_ok bl" using assms by (auto simp: blacklists_ok_def)
  obtain hit where hit: "Blacklist_match bl (snd (IP_sockaddr_to_addr src (ce_uninit_addr E))) (sa_family src) = Some hit"
    using ok(2) Blacklist_match_total unfolding blacklist_ok_def by metis
  have get: "Hash_get (gs_blacklists st) name = Some (Some bl)"
    using Hash_get_present bl assms by (auto simp: blacklists_ok_def)
  let ?bls = "if hit then List_insert_after bls (Blacklist_create name (bl_message bl) BL_STORAGE_TRIE) else bls"
  have "\<forall>bl\<in>set (list_head ?bls). NUL \<notin> set (bl_name bl)"
    using Cons.prems(2) ok(1) by (auto simp: Blacklist_create_def Let_def)
  then show ?case using Cons.IH [of ?bls] Cons.prems(1) get hit by simp
qed simp

text \<open>
  What the daemon relies on, and what it needs of a client: its address has a name and the messages of
  the lists that hold it fit the output buffer.
\<close>

definition greyd_ok :: "con_env \<Rightarrow> Greyd_state \<Rightarrow> string \<Rightarrow> bool" where
  "greyd_ok E st code \<longleftrightarrow> env_ok E st code \<and> (\<exists>n\<ge>0. Config_get_int (gs_config st) ''stutter'' None CON_STUTTER = Some n) \<and>
     resolver_ok (ce_inet_pton E) \<and> blacklists_ok (gs_blacklists st)"

definition client_ok :: "con_env \<Rightarrow> Greyd_state \<Rightarrow> string \<Rightarrow> sockaddr \<Rightarrow> bool" where
  "client_ok E st code src \<longleftrightarrow> (\<exists>addr. ce_getnameinfo E src = Some addr \<and> addr_ok addr) \<and>
     (\<forall>names bls. Hash_keys (gs_blacklists st) = Some names \<longrightarrow> client_lists E st src (list_head names) List_create = Some bls \<longrightarrow> lists_ok code bls)"

lemma Con_init_ok:
  assumes "greyd_ok E st code" and "client_ok E st code src" and "0 < now" and "fd \<noteq> - 1"
  obtains con st' where "Con_init E fd src now st = Some (con, st')" and "con_ok code con" and "con_fd con = fd" and "same_daemon st st'"
    and "gs_clients st' = gs_clients st + nopen con" and "gs_black_clients st' = gs_black_clients st + nblack con"
proof -
  obtain enable gstutter stutter addr where c: "Config_get_int (gs_config st) ''enable'' (Some ''grey'') 1 = Some enable"
      "Config_get_int (gs_config st) ''stutter'' (Some ''grey'') CON_GREY_STUTTER = Some gstutter"
      "Config_get_int (gs_config st) ''stutter'' None CON_STUTTER = Some stutter" "0 \<le> stutter" "ce_getnameinfo E src = Some addr" "addr_ok addr"
    using assms(1,2) by (auto simp: greyd_ok_def env_ok_def client_ok_def)
  have bl: "blacklists_ok (gs_blacklists st)" and env: "env_ok E st code" using assms(1) by (simp_all add: greyd_ok_def)
  obtain bls where bls: "(case Hash_keys (gs_blacklists st) of None \<Rightarrow> Some List_create
        | Some names \<Rightarrow> client_lists E st src (list_head names) List_create) = Some bls" "lists_ok code bls"
      "\<forall>bl\<in>set (list_head bls). NUL \<notin> set (bl_name bl)"
  proof (cases "Hash_keys (gs_blacklists st)")
    case None
    have "lists_ok code List_create" by (simp add: lists_ok_def List_create_def List_wf_def)
    then show ?thesis using that [of List_create] None by (simp add: List_create_def)
  next
    case (Some names)
    have "set (list_head names) \<subseteq> dom (hash_map (gs_blacklists st))"
      using Hash_keys_correct [of "gs_blacklists st"] bl Some by (simp add: blacklists_ok_def)
    from client_lists_ok [OF bl this, of List_create E src] obtain bls' where
      "client_lists E st src (list_head names) List_create = Some bls'" "\<forall>bl\<in>set (list_head bls'). NUL \<notin> set (bl_name bl)"
      by (auto simp: List_create_def)
    then show ?thesis using that [of bls'] Some assms(2) by (auto simp: client_ok_def)
  qed
  define con1 where "con1 = ((Con_grow_out_buf zero_con)\<lparr>con_blacklists := Some List_create, con_fd := fd\<rparr>)
     \<lparr>con_stutter := (if sint (word_of_int enable :: 16 word) \<noteq> 0 \<and> sint (word_of_int gstutter :: 16 word) = 0 then 0 else stutter),
      con_src := src, con_src_addr := addr, con_r_end_chars := [CHR 0x0A]\<rparr>"
  define con2 where "con2 = con1\<lparr>con_blacklists := Some bls\<rparr>"
  define st1 where "st1 = st\<lparr>gs_clients := gs_clients st + 1\<rparr>"
  define st2 where "st2 = (if Con_black con2 then st1\<lparr>gs_black_clients := gs_black_clients st1 + 1\<rparr> else st1)"
  obtain ls where ls: "(if Con_black con2 then Con_summarize_lists con2 else Some None) = Some ls"
  proof (cases "Con_black con2")
    case True
    have "con_blacklists con2 = Some bls" by (simp add: con2_def)
    from Con_summarize_ok [OF this bls(3)] show ?thesis using that True by auto
  qed simp
  define con3 where "con3 = con2\<lparr>con_lists := ls,
      con_stutter := (if Con_black con2 \<and> sint (word_of_int enable :: 16 word) \<noteq> 0 \<and> gs_black_clients st2 > gs_max_black st2 then 0 else con_stutter con2),
      con_out_p := 0, con_out_remaining := 0, con_in_p := 0, con_in_remaining := 0,
      con_state := (if gs_proxy_protocol_enabled st then CON_STATE_PROXY_IN else CON_STATE_BANNER_IN), con_s := now\<rparr>"
  have eq: "Con_init E fd src now st = Con_next_state E con3 now st2"
    unfolding Con_init_def Let_def c(1,2,3,5) Option.bind.simps con1_def [symmetric] bls(1) st1_def [symmetric] con2_def [symmetric]
      st2_def [symmetric] ls con3_def [symmetric] ..
  have con3: "con_idle code con3" "con_fd con3 = fd" "Con_black con3 = Con_black con2" "con_state con3 \<noteq> CON_STATE_CLOSE"
    using c(4,6) bls(2) assms(4)
    by (simp_all add: con_idle_def con_base_def con3_def con2_def con1_def Con_grow_out_buf_def zero_con_def str_buf_def Con_black_def valid_state_simps
        NUL_def CON_BUF_SIZE_def CON_OUT_BUF_SIZE_def GREY_MAX_MAIL_def)
  have st2: "same_daemon st st2" "gs_clients st2 = gs_clients st + 1" "gs_black_clients st2 = gs_black_clients st + (if Con_black con2 then 1 else 0)"
    by (simp_all add: st2_def st1_def same_daemon_def)
  have "step_ok code con3 st2 (Con_next_state E con3 now st2)"
    using next_state_ok [OF con3(1) assms(3), of E st2] env same_daemon_env [OF st2(1)] con3(4) by blast
  then obtain con g f where s: "Con_next_state E con3 now st2 = Some (con, st2\<lparr>gs_grey_out := gs_grey_out st2 @ g, gs_fw_out := gs_fw_out st2 @ f\<rparr>)"
      "con_base code con" "con_reads con \<or> con_writes con" "con_fd con = con_fd con3" "con_blacklists con = con_blacklists con3"
    unfolding step_ok_def by blast
  show ?thesis
    by (rule that [OF eq [unfolded s(1)]])
       (use s con3 st2 assms(4) in \<open>auto simp: con_ok_def same_daemon_def nopen_def nblack_def is_open_def Con_black_def\<close>)
qed

lemma sum_list_update:
  fixes f :: "'a \<Rightarrow> int"
  shows "i < length xs \<Longrightarrow> sum_list (map f (xs[i := x])) = sum_list (map f xs) + f x - f (xs ! i)"
  by (induction xs arbitrary: i) (auto split: nat.splits)

section \<open>The invariant of the daemon\<close>

definition other_fds :: "daemon_socks \<Rightarrow> int \<Rightarrow> int set" where
  "other_fds S cfg_fd = {ds_main S, ds_main6 S, ds_cfg S, ds_trap S, ds_sync S, cfg_fd}"

definition open_fds :: "Con list \<Rightarrow> int list" where
  "open_fds cons = map con_fd (filter is_open cons)"

lemma open_fds_simps [simp]: "open_fds [] = []" "open_fds (con # cons) = (if con_fd con = - 1 then open_fds cons else con_fd con # open_fds cons)"
  by (simp_all add: open_fds_def is_open_def)

text \<open>The descriptors of the clients are distinct, positive and not those of the other sockets.\<close>

definition fds_ok :: "daemon_socks \<Rightarrow> int \<Rightarrow> Con list \<Rightarrow> bool" where
  "fds_ok S cfg_fd cons \<longleftrightarrow> distinct (map con_fd (filter is_open cons)) \<and>
     (\<forall>con\<in>set cons. is_open con \<longrightarrow> 0 < con_fd con \<and> con_fd con \<notin> other_fds S cfg_fd)"

text \<open>The table has its size, its connections are in their invariant and the counts are those of the table.\<close>

definition table_ok :: "con_env \<Rightarrow> string \<Rightarrow> Greyd_state \<Rightarrow> bool" where
  "table_ok E code st \<longleftrightarrow> greyd_ok E st code \<and> 0 \<le> gs_max_cons st \<and> int (length (gs_cons st)) = gs_max_cons st \<and>
     (\<forall>con\<in>set (gs_cons st). con_ok code con) \<and>
     gs_clients st = sum_list (map nopen (gs_cons st)) \<and> gs_black_clients st = sum_list (map nblack (gs_cons st))"

definition daemon_ok :: "con_env \<Rightarrow> daemon_socks \<Rightarrow> string \<Rightarrow> int \<times> Greyd_state \<Rightarrow> bool" where
  "daemon_ok E S code = (\<lambda>(cfg_fd, st). table_ok E code st \<and> (cfg_fd = - 1 \<or> 0 < cfg_fd) \<and> fds_ok S cfg_fd (gs_cons st))"

lemma same_daemon_greyd: "same_daemon st st' \<Longrightarrow> greyd_ok E st' code \<longleftrightarrow> greyd_ok E st code"
  by (simp add: greyd_ok_def same_daemon_env) (simp add: same_daemon_def)

lemma table_ok_slow [simp]: "table_ok E code (st\<lparr>gs_slow_until := t\<rparr>) \<longleftrightarrow> table_ok E code st"
  "table_ok E code (st\<lparr>gs_grey_out := g\<rparr>) \<longleftrightarrow> table_ok E code st"
  by (simp_all add: table_ok_def greyd_ok_def env_ok_def)

lemma table_served:
  assumes "table_ok E code st" and "cons_served code (gs_cons st) st cons' st'"
  shows "table_ok E code (st'\<lparr>gs_cons := cons'\<rparr>)"
proof -
  have s: "same_daemon st (st'\<lparr>gs_cons := gs_cons st\<rparr>)" "length cons' = length (gs_cons st)"
    using assms(2) by (auto simp: cons_served_def same_daemon_def dest: list_all2_lengthD)
  have "greyd_ok E (st'\<lparr>gs_cons := gs_cons st\<rparr>) code" using same_daemon_greyd [OF s(1)] assms(1) by (simp add: table_ok_def)
  then have "greyd_ok E (st'\<lparr>gs_cons := cons'\<rparr>) code" by (simp add: greyd_ok_def env_ok_def)
  then show ?thesis using assms s(2) by (simp add: table_ok_def cons_served_def same_daemon_def)
qed

lemma fds_served:
  assumes "list_all2 (\<lambda>con con'. con_fd con' \<in> {con_fd con, - 1}) cons cons'" and "fds_ok S cfg_fd cons"
  shows "fds_ok S cfg_fd cons'"
proof -
  have s: "set (open_fds cons') \<subseteq> set (open_fds cons) \<and> (distinct (open_fds cons) \<longrightarrow> distinct (open_fds cons'))"
    using assms(1) by (induction rule: list_all2_induct) auto
  have "con_fd con' \<in> set (open_fds cons)" if "con' \<in> set cons'" "is_open con'" for con'
    using s that by (auto simp: open_fds_def)
  then have "0 < con_fd con' \<and> con_fd con' \<notin> other_fds S cfg_fd" if "con' \<in> set cons'" "is_open con'" for con'
    using that assms(2) by (fastforce simp: open_fds_def fds_ok_def)
  then show ?thesis using s assms(2) by (simp add: fds_ok_def open_fds_def)
qed

text \<open>A socket is accepted with a descriptor that nothing else uses.\<close>

definition accept_ok :: "con_env \<Rightarrow> Greyd_state \<Rightarrow> string \<Rightarrow> int \<times> accept_error \<times> sockaddr \<Rightarrow> bool" where
  "accept_ok E st code = (\<lambda>(fd, err, addr). if fd = - 1 then err \<noteq> Acc_other else client_ok E st code addr)"

definition fresh :: "daemon_socks \<Rightarrow> int \<Rightarrow> Con list \<Rightarrow> int \<Rightarrow> bool" where
  "fresh S cfg_fd cons fd \<longleftrightarrow> fd = - 1 \<or> 0 < fd \<and> fd \<notin> other_fds S cfg_fd \<and> (\<forall>con\<in>set cons. con_fd con \<noteq> fd)"

lemma Con_accept_ok:
  assumes "table_ok E code st" and "accept_ok E st code (fd, err, addr)" and "0 < now" and "fresh S cfg_fd (gs_cons st) fd"
    and "fds_ok S cfg_fd (gs_cons st)"
  obtains st' where "Con_accept E fd err addr now st = Some st'" and "table_ok E code st'" and "fds_ok S cfg_fd (gs_cons st')"
    and "gs_blacklists st' = gs_blacklists st" and "\<And>con. con \<in> set (gs_cons st') \<Longrightarrow> con_fd con = fd \<or> con \<in> set (gs_cons st)"
proof (cases "fd = - 1")
  case True
  then show ?thesis using that [of st] that [of "st\<lparr>gs_slow_until := now + 1\<rparr>"] assms by (cases err) (auto simp: Con_accept_def accept_ok_def)
next
  case False
  define i where "i = length (takeWhile is_open (gs_cons st))"
  have "int (length (gs_cons st)) = gs_max_cons st" using assms(1) by (simp add: table_ok_def)
  then have len: "nat (gs_max_cons st) = length (gs_cons st)" by simp
  have i: "i = length (takeWhile (\<lambda>c. con_fd c \<noteq> - 1) (take (nat (gs_max_cons st)) (gs_cons st)))"
    using len by (simp add: i_def is_open_def [abs_def])
  show ?thesis
  proof (cases "int i = gs_max_cons st")
    case full: True
    then show ?thesis using that [of "st\<lparr>gs_slow_until := 0\<rparr>"] assms False i by (simp add: Con_accept_def Let_def)
  next
    case free: False
    have "i \<le> length (gs_cons st)" by (simp add: i_def length_takeWhile_le)
    then have il: "i < length (gs_cons st)" using free assms(1) by (simp add: table_ok_def)
    then have shut: "\<not> is_open (gs_cons st ! i)" using nth_length_takeWhile [of is_open "gs_cons st"] by (simp add: i_def)
    have g: "greyd_ok E st code" "client_ok E st code addr" using assms(1,2) False by (simp_all add: table_ok_def accept_ok_def)
    obtain con st1 where c: "Con_init E fd addr now st = Some (con, st1)" "con_ok code con" "con_fd con = fd" "same_daemon st st1"
        "gs_clients st1 = gs_clients st + nopen con" "gs_black_clients st1 = gs_black_clients st + nblack con"
      by (rule Con_init_ok [OF g assms(3) False])
    let ?st = "st1\<lparr>gs_cons := (gs_cons st)[i := con]\<rparr>"
    have eq: "Con_accept E fd err addr now st = Some ?st"
      using False free c(1,4) by (simp add: Con_accept_def i [symmetric] Let_def same_daemon_def)
    have sub: "set ((gs_cons st)[i := con]) \<subseteq> insert con (set (gs_cons st))" by (rule set_update_subset_insert)
    have "greyd_ok E st1 code" using g(1) same_daemon_greyd [OF c(4)] by simp
    then have "greyd_ok E ?st code" by (simp add: greyd_ok_def env_ok_def)
    then have t: "table_ok E code ?st"
      using assms(1) c sub il shut by (auto simp: table_ok_def same_daemon_def sum_list_update nopen_def nblack_def)
    have fr: "0 < fd" "fd \<notin> other_fds S cfg_fd" "\<forall>con\<in>set (gs_cons st). con_fd con \<noteq> fd" using assms(4) False by (simp_all add: fresh_def)
    have "distinct (map con_fd (filter is_open ((gs_cons st)[i := con])))"
    proof -
      have u: "(gs_cons st)[i := con] = take i (gs_cons st) @ con # drop (Suc i) (gs_cons st)" by (rule upd_conv_take_nth_drop [OF il])
      have v: "gs_cons st = take i (gs_cons st) @ gs_cons st ! i # drop (Suc i) (gs_cons st)" by (rule id_take_nth_drop [OF il])
      have "filter is_open (gs_cons st) = filter is_open (take i (gs_cons st)) @ filter is_open (drop (Suc i) (gs_cons st))"
        using shut by (subst v) simp
      then have d: "distinct (map con_fd (filter is_open (take i (gs_cons st))) @ map con_fd (filter is_open (drop (Suc i) (gs_cons st))))"
        using assms(5) by (simp add: fds_ok_def)
      have "con_fd c \<noteq> fd" if "c \<in> set (take i (gs_cons st)) \<or> c \<in> set (drop (Suc i) (gs_cons st))" for c
        using fr(3) that in_set_takeD in_set_dropD by fast
      then have n: "fd \<notin> set (map con_fd (filter is_open (take i (gs_cons st))))"
          "fd \<notin> set (map con_fd (filter is_open (drop (Suc i) (gs_cons st))))" by auto
      have "map con_fd (filter is_open ((gs_cons st)[i := con])) =
          map con_fd (filter is_open (take i (gs_cons st))) @ fd # map con_fd (filter is_open (drop (Suc i) (gs_cons st)))"
        unfolding u using c(3) False by (simp add: is_open_def)
      then show ?thesis using d n by (simp del: set_map set_filter)
    qed
    then have f: "fds_ok S cfg_fd (gs_cons ?st)" using assms(5) sub fr c(3) by (auto simp: fds_ok_def)
    show ?thesis by (rule that [OF eq t f]) (use c(3,4) sub in \<open>auto simp: same_daemon_def\<close>)
  qed
qed

section \<open>The beginning of a turn\<close>

lemma foldl_max_fd_ge: "m \<le> foldl (\<lambda>m con. if con_fd con \<noteq> - 1 then max m (con_fd con) else m) m cons"
proof (induction cons arbitrary: m)
  case (Cons c cons)
  show ?case using Cons.IH [of "max m (con_fd c)"] Cons.IH [of m] by auto
qed simp

lemma foldl_max_fd_con:
  "con \<in> set cons \<Longrightarrow> is_open con \<Longrightarrow> con_fd con \<le> foldl (\<lambda>m con. if con_fd con \<noteq> - 1 then max m (con_fd con) else m) m cons"
proof (induction cons arbitrary: m)
  case (Cons c cons)
  then show ?case using foldl_max_fd_ge [of "max m (con_fd c)" cons] by (auto simp: is_open_def)
qed simp

lemma max_fd_ge:
  "ds_main S \<le> max_fd S cons" "ds_cfg S \<le> max_fd S cons" "ds_trap S \<le> max_fd S cons" "0 < ds_main6 S \<Longrightarrow> ds_main6 S \<le> max_fd S cons"
  "0 < ds_sync S \<Longrightarrow> ds_sync S \<le> max_fd S cons" "con \<in> set cons \<Longrightarrow> is_open con \<Longrightarrow> con_fd con \<le> max_fd S cons"
  unfolding max_fd_def Let_def using foldl_max_fd_con
  by (auto intro: order_trans [OF _ foldl_max_fd_ge])

lemma slot_le: "0 < fd \<Longrightarrow> fd \<le> m \<Longrightarrow> slot m fd = (if fd = m then 0 else nat fd)"
  by (simp add: slot_def)

lemma slot_inj: "0 < fd \<Longrightarrow> fd \<le> m \<Longrightarrow> 0 < fd' \<Longrightarrow> fd' \<le> m \<Longrightarrow> slot m fd = slot m fd' \<longleftrightarrow> fd = fd'"
  by (auto simp: slot_le)

lemma slot_less: "0 < fd \<Longrightarrow> fd \<le> m \<Longrightarrow> slot m fd < nat m + 1"
  by (auto simp: slot_le)

lemma poll_in_nth: "0 < fd \<Longrightarrow> fd \<le> m \<Longrightarrow> 0 < fd' \<Longrightarrow> fd' \<le> m \<Longrightarrow> fd \<noteq> fd' \<Longrightarrow> poll_in m fd' fds ! slot m fd = fds ! slot m fd"
  using slot_inj [of fd' m fd] by (simp add: poll_in_def nth_list_update_neq)

lemma poll_in_length [simp]: "length (poll_in m fd fds) = length fds"
  by (simp add: poll_in_def)

definition socks_ok :: "daemon_socks \<Rightarrow> bool" where
  "socks_ok S \<longleftrightarrow> 0 < ds_main S \<and> 0 < ds_cfg S"

lemma prepare_socks_nth:
  assumes "socks_ok S" and "0 < fd" and "fd \<le> m" and "fd \<notin> other_fds S cfg_fd" and "m = max_fd S cons"
    and "cfg_fd = - 1 \<or> 0 < cfg_fd \<and> cfg_fd \<le> m"
  shows "prepare_socks S m cfg_fd slow fds ! slot m fd = fds ! slot m fd" and "length (prepare_socks S m cfg_fd slow fds) = length fds"
  using assms max_fd_ge(1-5) [of S cons]
  by (auto simp: prepare_socks_def Let_def poll_in_nth other_fds_def socks_ok_def)

text \<open>What a turn asks of \<open>poll\<close>: each connection that is not closed for its age has its place in the array.\<close>

lemma turn_prepare_ok:
  assumes "socks_ok S" and "daemon_ok E S code (cfg_fd, st)" and "cfg_fd \<le> max_fd S (gs_cons st)"
    and "turn_prepare S now (cfg_fd, st) = (m, st', fds, timeout)"
  shows "table_ok E code st'" and "fds_ok S cfg_fd (gs_cons st')" and "gs_cons st' = map (aged now) (gs_cons st)"
    and "con \<in> set (gs_cons st') \<Longrightarrow> is_open con \<Longrightarrow> fds ! slot m (con_fd con) = con_entry now con \<and> slot m (con_fd con) < length fds"
    and "timeout = poll_timeout (\<exists>con\<in>set (gs_cons st'). is_open con \<and> con_w con \<noteq> 0) (gs_slow_until st')" and "m = max_fd S (gs_cons st)"
proof -
  have d: "table_ok E code st" "cfg_fd = - 1 \<or> 0 < cfg_fd" "fds_ok S cfg_fd (gs_cons st)" using assms(2) by (auto simp: daemon_ok_def)
  let ?m = "max_fd S (gs_cons st)"
  have range: "0 < con_fd con \<and> con_fd con \<le> ?m \<and> con_fd con \<notin> other_fds S cfg_fd" if "con \<in> set (gs_cons st)" "is_open con" for con
    using d(3) max_fd_ge(6) [OF that, of S] that by (simp add: fds_ok_def)
  have "inj_on (slot ?m) {fd. 0 < fd \<and> fd \<le> ?m}" using slot_inj by (auto simp: inj_on_def)
  then have "inj_on (slot ?m) (set (map con_fd (filter is_open (gs_cons st))))" by (rule inj_on_subset) (use range in auto)
  then have dist: "distinct (map (slot ?m \<circ> con_fd) (filter is_open (gs_cons st)))"
    using d(3) distinct_map [of "slot ?m" "map con_fd (filter is_open (gs_cons st))"] by (simp add: fds_ok_def)
  have "slots_free ?m (gs_cons st) (replicate (nat ?m + 1) unset_pollfd)"
    unfolding slots_free_def using dist range slot_less [of _ ?m] by (auto simp del: replicate_Suc)
  from prepare_cons_spec [OF _ this, of code now st False] d(1) obtain st1 fds1 where p:
      "prepare_cons now ?m (gs_cons st) st (replicate (nat ?m + 1) unset_pollfd) False =
        (map (aged now) (gs_cons st), st1, fds1, \<exists>con\<in>set (map (aged now) (gs_cons st)). is_open con \<and> con_w con \<noteq> 0)"
      "cons_served code (gs_cons st) st (map (aged now) (gs_cons st)) st1" "length fds1 = nat ?m + 1"
      "\<forall>con\<in>set (map (aged now) (gs_cons st)). is_open con \<longrightarrow> fds1 ! slot ?m (con_fd con) = con_entry now con"
    by (auto simp: table_ok_def simp del: replicate_Suc)
  have r: "m = ?m" "st' = st1\<lparr>gs_cons := map (aged now) (gs_cons st)\<rparr>" "fds = prepare_socks S ?m cfg_fd (gs_slow_until st1) fds1"
      "timeout = poll_timeout (\<exists>con\<in>set (map (aged now) (gs_cons st)). is_open con \<and> con_w con \<noteq> 0) (gs_slow_until st1)"
    using assms(4) unfolding turn_prepare_def Let_def prod.case p(1) by (auto simp del: set_map bex_simps)
  show "table_ok E code st'" unfolding r(2) by (rule table_served [OF d(1) p(2)])
  show f: "fds_ok S cfg_fd (gs_cons st')" using fds_served [OF _ d(3)] p(2) by (simp add: r(2) cons_served_def)
  show "gs_cons st' = map (aged now) (gs_cons st)" "m = ?m" by (simp_all add: r(1,2))
  show "timeout = poll_timeout (\<exists>con\<in>set (gs_cons st'). is_open con \<and> con_w con \<noteq> 0) (gs_slow_until st')" by (simp add: r(2,4))
  assume con: "con \<in> set (gs_cons st')" "is_open con"
  then have c: "con \<in> set (gs_cons st)" by (auto simp: r(2) aged_def is_open_def split: if_splits)
  have "cfg_fd = - 1 \<or> 0 < cfg_fd \<and> cfg_fd \<le> ?m" using d(2) assms(3) by auto
  note nth = prepare_socks_nth [OF assms(1) _ _ _ refl this, of "con_fd con" "gs_slow_until st1" fds1]
  have "con \<in> set (map (aged now) (gs_cons st))" using con(1) by (simp add: r(2))
  then have "fds1 ! slot ?m (con_fd con) = con_entry now con" using p(4) con(2) by blast
  then show "fds ! slot m (con_fd con) = con_entry now con \<and> slot m (con_fd con) < length fds"
    unfolding r(1,3) using nth range [OF c con(2)] p(3) slot_less [of "con_fd con" ?m] by simp
qed

section \<open>The rest of a turn\<close>

lemma turn_clients_ok:
  assumes "table_ok E code st" and "fds_ok S cfg_fd (gs_cons st)" and "io_ok T (gs_cons st)" and "\<forall>con\<in>set (gs_cons st). events_fit m ev con"
  obtains st' where "turn_clients E T m ev st = Some st'" and "table_ok E code st'" and "fds_ok S cfg_fd (gs_cons st')"
proof -
  define st1 where "st1 = (if gs_slow_until st \<noteq> 0 \<and> gs_slow_until st \<le> dt_now T then st\<lparr>gs_slow_until := 0\<rparr> else st)"
  have t: "table_ok E code st1" "gs_cons st1 = gs_cons st" using assms(1) by (simp_all add: st1_def)
  then have "\<forall>con\<in>set (gs_cons st1). con_ok code con \<and> events_fit m ev con" "env_ok E st1 code"
    using assms(4) by (auto simp: table_ok_def greyd_ok_def)
  moreover have "io_ok T (gs_cons st1)" using assms(3) t(2) by simp
  ultimately obtain cons' st' where
    s: "serve_cons E T m ev (gs_cons st1) st1 = Some (cons', st')" "cons_served code (gs_cons st1) st1 cons' st'"
    using serve_cons_ok [of "gs_cons st1" code m ev T E st1] by blast
  have "fds_ok S cfg_fd cons'" using fds_served [OF _ assms(2)] s(2) t(2) by (auto simp: cons_served_def)
  then show ?thesis
    using that [of "st'\<lparr>gs_cons := cons'\<rparr>"] table_served [OF t(1) s(2)] s(1) by (simp add: turn_clients_def st1_def [symmetric] Let_def)
qed

lemma serve_main_ok:
  assumes "table_ok E code st" and "accept_ok E st code accepted" and "0 < dt_accept_now T" and "fresh S cfg_fd (gs_cons st) (fst accepted)"
    and "fds_ok S cfg_fd (gs_cons st)"
  obtains stop st' where "serve_main E T m ev sock accepted st = Some (stop, st')" and "table_ok E code st'" and "fds_ok S cfg_fd (gs_cons st')"
    and "gs_blacklists st' = gs_blacklists st" and "\<And>con. con \<in> set (gs_cons st') \<Longrightarrow> con_fd con = fst accepted \<or> con \<in> set (gs_cons st)"
proof -
  obtain fd err addr where a: "accepted = (fd, err, addr)" using prod_cases3 by blast
  show ?thesis
  proof (cases "ev_in (ev (slot m sock))")
    case True
    obtain st' where "Con_accept E fd err addr (dt_accept_now T) st = Some st'" "table_ok E code st'" "fds_ok S cfg_fd (gs_cons st')"
        "gs_blacklists st' = gs_blacklists st" "\<And>con. con \<in> set (gs_cons st') \<Longrightarrow> con_fd con = fd \<or> con \<in> set (gs_cons st)"
      by (rule Con_accept_ok [OF assms(1) _ assms(3) _ assms(5), of fd err addr]) (use assms(2,4) a in auto)
    then show ?thesis using that [of False st'] True a by (simp add: serve_main_def Let_def)
  next
    case False
    then show ?thesis using that [of "ev_err (ev (slot m sock))" st] assms a by (simp add: serve_main_def Let_def)
  qed
qed

lemma client_ok_cong:
  assumes "gs_blacklists st' = gs_blacklists st"
  shows "client_ok E st' code src \<longleftrightarrow> client_ok E st code src"
proof -
  have "client_lists E st' src names bls = client_lists E st src names bls" for names bls
    by (induction names arbitrary: bls) (simp_all add: assms)
  then show ?thesis using assms by (simp add: client_ok_def)
qed

lemma serve_config_table:
  assumes "table_ok E code st" and "config_text_ok text"
  obtains st' where "serve_config E text st = Some st'" and "table_ok E code st'" and "gs_cons st' = gs_cons st"
proof -
  have g: "blacklists_ok (gs_blacklists st)" "resolver_ok (ce_inet_pton E)" using assms(1) by (simp_all add: table_ok_def greyd_ok_def)
  obtain h where "serve_config E text st = Some (st\<lparr>gs_blacklists := h\<rparr>)" "blacklists_ok h" by (rule serve_config_ok [OF assms(2) g])
  then show ?thesis using that [of "st\<lparr>gs_blacklists := h\<rparr>"] assms(1) by (simp add: table_ok_def greyd_ok_def env_ok_def)
qed

text \<open>
  What the sockets of a turn deliver: acceptable clients and configurations with fresh descriptors,
  messages that the setup program or the greylister has written, and a packet the receiver can take in.
\<close>

definition arrivals_ok :: "con_env \<Rightarrow> (char list \<Rightarrow> char list \<Rightarrow> char list) \<Rightarrow> Sync_engine_T option \<Rightarrow> daemon_socks \<Rightarrow> string \<Rightarrow> daemon_tick
    \<Rightarrow> int \<Rightarrow> Greyd_state \<Rightarrow> bool" where
  "arrivals_ok E hmac syncer S code T cfg_fd st \<longleftrightarrow> 0 < dt_accept_now T \<and>
     accept_ok E st code (dt_accept T) \<and> fresh S cfg_fd (gs_cons st) (fst (dt_accept T)) \<and>
     accept_ok E st code (dt_accept6 T) \<and> fresh S cfg_fd (gs_cons st) (fst (dt_accept6 T)) \<and>
     (fst (dt_cfg_accept T) = - 1 \<longrightarrow> fst (snd (dt_cfg_accept T)) \<noteq> Acc_other) \<and> fresh S cfg_fd (gs_cons st) (fst (dt_cfg_accept T)) \<and>
     (fst (dt_accept6 T) = - 1 \<or> fst (dt_accept6 T) \<noteq> fst (dt_accept T)) \<and>
     (fst (dt_cfg_accept T) = - 1 \<or> fst (dt_cfg_accept T) \<noteq> fst (dt_accept T) \<and> fst (dt_cfg_accept T) \<noteq> fst (dt_accept6 T)) \<and>
     config_text_ok (dt_cfg_text T) \<and> config_text_ok (dt_trap_text T) \<and>
     (\<forall>engine. syncer = Some engine \<longrightarrow> (\<forall>out. Sync_recv hmac engine (fst (dt_sync T)) (snd (dt_sync T)) out \<noteq> None))"

lemma fresh_more:
  assumes "fresh S cfg_fd (gs_cons st) fd" and "\<And>con. con \<in> set (gs_cons st') \<Longrightarrow> con_fd con = fd' \<or> con \<in> set (gs_cons st)"
    and "fd = - 1 \<or> fd \<noteq> fd'"
  shows "fresh S cfg_fd (gs_cons st') fd"
  using assms unfolding fresh_def by fastforce

lemma serve_cfg_sock_ok:
  assumes "table_ok E code st" and "cfg_fd = - 1 \<or> 0 < cfg_fd" and "fds_ok S cfg_fd (gs_cons st)" and "config_text_ok (dt_cfg_text T)"
    and "fst (dt_cfg_accept T) = - 1 \<longrightarrow> fst (snd (dt_cfg_accept T)) \<noteq> Acc_other" and "fresh S cfg_fd (gs_cons st) (fst (dt_cfg_accept T))"
  obtains stop cfg_fd' st' where "serve_cfg_sock E S T m ev cfg_fd st = Some (stop, cfg_fd', st')" and "daemon_ok E S code (cfg_fd', st')"
proof -
  obtain fd err port where a: "dt_cfg_accept T = (fd, err, port)" using prod_cases3 by blast
  obtain st1 where s: "serve_config E (dt_cfg_text T) st = Some st1" "table_ok E code st1" "gs_cons st1 = gs_cons st"
    by (rule serve_config_table [OF assms(1,4)])
  have less: "fds_ok S (- 1) (gs_cons st)" using assms(3) by (auto simp: fds_ok_def other_fds_def)
  have more: "fds_ok S fd (gs_cons st)" "0 < fd" if "fd \<noteq> - 1"
    using assms(3,6) that a by (auto simp: fds_ok_def other_fds_def fresh_def is_open_def)
  have ok: "daemon_ok E S code (cfg_fd, st)" "daemon_ok E S code (- 1, st)" "daemon_ok E S code (- 1, st1)" "fd \<noteq> - 1 \<Longrightarrow> daemon_ok E S code (fd, st)"
      "daemon_ok E S code (- 1, st\<lparr>gs_slow_until := t\<rparr>)" "daemon_ok E S code (- 1, st1\<lparr>gs_slow_until := t\<rparr>)" for t
    using assms(1-3) less more s(2,3) by (auto simp: daemon_ok_def)
  have "\<exists>stop cfg_fd' st'. serve_cfg_sock E S T m ev cfg_fd st = Some (stop, cfg_fd', st') \<and> daemon_ok E S code (cfg_fd', st')"
    using ok assms(5) a s(1)
    by (cases err; cases "fd = - 1"; cases "port \<ge> IPPORT_RESERVED"; cases "ev_in (ev (slot m (ds_cfg S)))"; cases "ev_err (ev (slot m (ds_cfg S)))";
        cases "cfg_fd > 0 \<and> ev_in (ev (slot m cfg_fd))") (simp_all add: serve_cfg_sock_def Let_def ex_bool_eq)
  then show ?thesis using that by blast
qed

lemma turn_socks_ok:
  assumes "daemon_ok E S code (cfg_fd, st)" and "arrivals_ok E hmac syncer S code T cfg_fd st"
  obtains stop cfg_fd' st' where "turn_socks E hmac syncer S T m ev cfg_fd st = Some (stop, cfg_fd', st')" and "daemon_ok E S code (cfg_fd', st')"
proof -
  have d: "table_ok E code st" "cfg_fd = - 1 \<or> 0 < cfg_fd" "fds_ok S cfg_fd (gs_cons st)" using assms(1) by (auto simp: daemon_ok_def)
  let ?a = "dt_accept T" and ?a6 = "dt_accept6 T" and ?ac = "dt_cfg_accept T"
  have a: "0 < dt_accept_now T" "accept_ok E st code ?a" "fresh S cfg_fd (gs_cons st) (fst ?a)" "accept_ok E st code ?a6"
      "fresh S cfg_fd (gs_cons st) (fst ?a6)" "fst ?ac = - 1 \<longrightarrow> fst (snd ?ac) \<noteq> Acc_other" "fresh S cfg_fd (gs_cons st) (fst ?ac)"
      "fst ?a6 = - 1 \<or> fst ?a6 \<noteq> fst ?a" "fst ?ac = - 1 \<or> fst ?ac \<noteq> fst ?a" "fst ?ac = - 1 \<or> fst ?ac \<noteq> fst ?a6"
      "config_text_ok (dt_cfg_text T)" "config_text_ok (dt_trap_text T)"
      "\<forall>engine. syncer = Some engine \<longrightarrow> (\<forall>out. Sync_recv hmac engine (fst (dt_sync T)) (snd (dt_sync T)) out \<noteq> None)"
    using assms(2) unfolding arrivals_ok_def by blast+
  obtain stop1 st1 where s1: "serve_main E T m ev (ds_main S) (dt_accept T) st = Some (stop1, st1)" "table_ok E code st1"
      "fds_ok S cfg_fd (gs_cons st1)" "gs_blacklists st1 = gs_blacklists st"
      "\<And>con. con \<in> set (gs_cons st1) \<Longrightarrow> con_fd con = fst (dt_accept T) \<or> con \<in> set (gs_cons st)"
    using serve_main_ok [OF d(1) a(2,1,3) d(3)] by blast
  have acc6: "accept_ok E st1 code (dt_accept6 T)" using a(4) client_ok_cong [OF s1(4)] by (auto simp: accept_ok_def)
  note f6 = fresh_more [OF a(5) s1(5) a(8)]
  obtain stop2 st2 where s2: "(if ds_main6 S > 0 then serve_main E T m ev (ds_main6 S) (dt_accept6 T) st1 else Some (False, st1)) = Some (stop2, st2)"
      "table_ok E code st2" "fds_ok S cfg_fd (gs_cons st2)"
      "\<And>con. con \<in> set (gs_cons st2) \<Longrightarrow> con_fd con = fst (dt_accept6 T) \<or> con \<in> set (gs_cons st1)"
  proof (cases "ds_main6 S > 0")
    case True
    obtain stop2 st2 where "serve_main E T m ev (ds_main6 S) (dt_accept6 T) st1 = Some (stop2, st2)" "table_ok E code st2" "fds_ok S cfg_fd (gs_cons st2)"
        "\<And>con. con \<in> set (gs_cons st2) \<Longrightarrow> con_fd con = fst (dt_accept6 T) \<or> con \<in> set (gs_cons st1)"
      using serve_main_ok [OF s1(2) acc6 a(1) f6 s1(3)] by blast
    then show ?thesis using that True by simp
  next
    case False
    then show ?thesis by (intro that [of False st1]) (use s1 in simp_all)
  qed
  have f: "fresh S cfg_fd (gs_cons st2) (fst (dt_cfg_accept T))"
    by (rule fresh_more [OF fresh_more [OF a(7) s1(5) a(9)] s2(4) a(10)])
  obtain stop3 cfg st3 where s3: "serve_cfg_sock E S T m ev cfg_fd st2 = Some (stop3, cfg, st3)" "daemon_ok E S code (cfg, st3)"
    using serve_cfg_sock_ok [OF s2(2) d(2) s2(3) a(11,6) f] by blast
  obtain st' where s': "serve_config E (dt_trap_text T) st3 = Some st'" "table_ok E code st'" "gs_cons st' = gs_cons st3"
    using serve_config_table [OF _ a(12)] s3(2) unfolding daemon_ok_def by blast
  have "daemon_ok E S code (cfg, st')" using s3(2) s'(2,3) by (simp add: daemon_ok_def)
  then have "\<exists>stop4 st4. serve_trap E S T m ev st3 = Some (stop4, st4) \<and> daemon_ok E S code (cfg, st4)"
    using s3(2) s'(1) by (simp add: serve_trap_def Let_def ex_bool_eq)
  then obtain stop4 st4 where s4: "serve_trap E S T m ev st3 = Some (stop4, st4)" "daemon_ok E S code (cfg, st4)" by blast
  have "daemon_ok E S code (cfg, st4\<lparr>gs_grey_out := out\<rparr>)" for out using s4(2) by (simp add: daemon_ok_def)
  moreover obtain addr datagram where "dt_sync T = (addr, datagram)" by fastforce
  ultimately have "\<exists>stop5 st5. serve_sync hmac syncer S T m ev st4 = Some (stop5, st5) \<and> daemon_ok E S code (cfg, st5)"
    using a(13) [rule_format, of _ "gs_grey_out st4"] s4(2)
    by (cases syncer) (auto simp: serve_sync_def Let_def split: bind_splits)
  then obtain stop5 st5 where s5: "serve_sync hmac syncer S T m ev st4 = Some (stop5, st5)" "daemon_ok E S code (cfg, st5)" by blast
  have ok: "daemon_ok E S code (cfg_fd, st1)" "daemon_ok E S code (cfg_fd, st2)" using s1(2,3) s2(2,3) d(2) by (auto simp: daemon_ok_def)
  show ?thesis
    using that ok s3(2) s4(2) s5(2)
    unfolding turn_socks_def s1(1) Option.bind.simps prod.case s2(1) s3(1) s4(1) s5(1)
    by (cases stop1; cases stop2; cases stop3; cases stop4) auto
qed

section \<open>The loop\<close>

text \<open>
  What the system calls of a turn are relied on for: \<open>poll\<close>, \<open>read\<close> and \<open>write\<close> keep their contracts,
  what arrives is acceptable, and the descriptor of an open configuration connection is not larger
  than those the array is made for.
\<close>

definition tick_ok :: "con_env \<Rightarrow> (char list \<Rightarrow> char list \<Rightarrow> char list) \<Rightarrow> Sync_engine_T option \<Rightarrow> daemon_socks \<Rightarrow> string \<Rightarrow> daemon_tick
    \<Rightarrow> int \<times> Greyd_state \<Rightarrow> bool" where
  "tick_ok E hmac syncer S code T = (\<lambda>(cfg_fd, st).
     io_ok T (gs_cons st) \<and> cfg_fd \<le> max_fd S (gs_cons st) \<and>
     (\<forall>fds timeout ev. dt_poll T fds timeout = Poll_events ev \<longrightarrow> poll_ok ev fds) \<and>
     (let (m, st1, fds, timeout) = turn_prepare S (dt_now T) (cfg_fd, st)
      in case dt_poll T fds timeout of
           Poll_events ev \<Rightarrow> (case turn_clients E T m ev st1 of None \<Rightarrow> True | Some st2 \<Rightarrow> arrivals_ok E hmac syncer S code T cfg_fd st2)
         | _ \<Rightarrow> True))"

lemma daemon_turn_ok:
  assumes "socks_ok S" and "daemon_ok E S code c" and "tick_ok E hmac syncer S code T c"
  obtains stop c' where "daemon_turn E hmac syncer S T c = Some (stop, c')" and "daemon_ok E S code c'"
proof -
  obtain cfg_fd st where c: "c = (cfg_fd, st)" by fastforce
  obtain m st1 fds timeout where p: "turn_prepare S (dt_now T) (cfg_fd, st) = (m, st1, fds, timeout)" using prod_cases4 by blast
  have t: "io_ok T (gs_cons st)" "cfg_fd \<le> max_fd S (gs_cons st)" "\<And>ev. dt_poll T fds timeout = Poll_events ev \<Longrightarrow> poll_ok ev fds"
    using assms(3) by (auto simp: tick_ok_def c)
  note pr = turn_prepare_ok [OF assms(1) assms(2) [unfolded c] t(2) p]
  have cfg: "cfg_fd = - 1 \<or> 0 < cfg_fd" using assms(2) by (simp add: daemon_ok_def c)
  have d1: "daemon_ok E S code (cfg_fd, st1)" using pr(1,2) cfg by (simp add: daemon_ok_def)
  show ?thesis
  proof (cases "dt_poll T fds timeout")
    case (Poll_events ev)
    have fit: "events_fit m ev con" if con: "con \<in> set (gs_cons st1)" for con
    proof -
      have "con_ok code con" using pr(1) con by (simp add: table_ok_def)
      moreover have "is_open con \<Longrightarrow> (ev_in (ev (slot m (con_fd con))) \<longrightarrow> pf_in (con_entry (dt_now T) con)) \<and>
          (ev_out (ev (slot m (con_fd con))) \<longrightarrow> pf_out (con_entry (dt_now T) con))"
        using t(3) [OF Poll_events] pr(4) [OF con] unfolding poll_ok_def by auto
      ultimately show ?thesis
        by (auto simp: events_fit_def con_ok_def is_open_def con_entry_def unset_pollfd_def con_reads_def con_writes_def split: if_splits)
    qed
    have "io_ok T (gs_cons st1)" using t(1) by (auto simp: io_ok_def pr(3) aged_def is_open_def split: if_splits)
    from turn_clients_ok [OF pr(1,2) this] fit obtain st2 where s2: "turn_clients E T m ev st1 = Some st2" "table_ok E code st2"
        "fds_ok S cfg_fd (gs_cons st2)" by blast
    have "arrivals_ok E hmac syncer S code T cfg_fd st2" using assms(3) Poll_events s2(1) by (simp add: tick_ok_def c p)
    moreover have "daemon_ok E S code (cfg_fd, st2)" using s2(2,3) cfg by (simp add: daemon_ok_def)
    ultimately obtain stop cfg' st' where "turn_socks E hmac syncer S T m ev cfg_fd st2 = Some (stop, cfg', st')" "daemon_ok E S code (cfg', st')"
      using turn_socks_ok by blast
    then show ?thesis using that Poll_events s2(1) by (simp add: daemon_turn_def c p)
  next
    case Poll_interrupted
    show ?thesis by (rule that [OF _ d1, of False]) (simp add: daemon_turn_def c p Poll_interrupted)
  next
    case Poll_failed
    show ?thesis by (rule that [OF _ d1, of True]) (simp add: daemon_turn_def c p Poll_failed)
  qed
qed

text \<open>The states of the loop, from the start with no client and no configuration connection.\<close>

inductive daemon_reaches :: "con_env \<Rightarrow> (char list \<Rightarrow> char list \<Rightarrow> char list) \<Rightarrow> Sync_engine_T option \<Rightarrow> daemon_socks \<Rightarrow> string \<Rightarrow> Greyd_state
    \<Rightarrow> int \<times> Greyd_state \<Rightarrow> bool" for E hmac syncer S code st where
  start: "daemon_reaches E hmac syncer S code st (- 1, st)"
| turn: "daemon_reaches E hmac syncer S code st c \<Longrightarrow> tick_ok E hmac syncer S code T c \<Longrightarrow> daemon_turn E hmac syncer S T c = Some (False, c')
    \<Longrightarrow> daemon_reaches E hmac syncer S code st c'"

text \<open>What is configured before the loop begins.\<close>

definition setup_ok :: "con_env \<Rightarrow> Greyd_state \<Rightarrow> string \<Rightarrow> bool" where
  "setup_ok E st code \<longleftrightarrow> env_ok E st code \<and> (\<exists>n\<ge>0. Config_get_int (gs_config st) ''stutter'' None CON_STUTTER = Some n) \<and>
     resolver_ok (ce_inet_pton E) \<and> 0 \<le> gs_max_cons st"

lemma empty_table_ok: "0 < n \<Longrightarrow> blacklists_ok (Hash_create n)"
  by (simp add: blacklists_ok_def Hash_create_def hash_inv_def hash_map_def)

lemma init_daemon_ok:
  assumes "setup_ok E st code"
  shows "daemon_ok E S code (- 1, init_daemon st)"
proof -
  have "env_ok E (init_daemon st) code = env_ok E st code" by (simp add: env_ok_def init_daemon_def)
  then have "greyd_ok E (init_daemon st) code"
    using assms empty_table_ok [of NUM_BLACKLISTS] by (simp add: greyd_ok_def setup_ok_def init_daemon_def NUM_BLACKLISTS_def)
  then have "table_ok E code (init_daemon st)"
    using assms by (auto simp: table_ok_def init_daemon_def setup_ok_def con_ok_def nopen_def nblack_def is_open_def sum_list_replicate)
  then show ?thesis by (simp add: daemon_ok_def fds_ok_def init_daemon_def is_open_def)
qed

lemma daemon_reaches_ok:
  assumes "daemon_reaches E hmac syncer S code st c" and "socks_ok S" and "daemon_ok E S code (- 1, st)"
  shows "daemon_ok E S code c"
  using assms(1)
proof (induction rule: daemon_reaches.induct)
  case (turn c T c')
  then show ?case using daemon_turn_ok [OF assms(2) turn.IH turn.hyps(2)] by (metis option.inject prod.inject)
qed (rule assms(3))

lemma count_bounds:
  "0 \<le> sum_list (map nblack cons)" "sum_list (map nblack cons) \<le> sum_list (map nopen cons)" "sum_list (map nopen cons) \<le> int (length cons)"
  by (induction cons) (auto simp: nblack_def nopen_def)

lemma close_all_counts:
  "gs_clients (snd (close_all cons st)) = gs_clients st - sum_list (map nopen cons) \<and>
   gs_black_clients (snd (close_all cons st)) = gs_black_clients st - sum_list (map nblack cons) \<and>
   (\<forall>con\<in>set (fst (close_all cons st)). \<not> is_open con)"
proof (induction cons arbitrary: st)
  case (Cons con cons)
  show ?case
  proof (cases "is_open con")
    case True
    obtain c s where c: "Con_close con st = (c, s)" by fastforce
    note served = close_served(1) [OF True c, of CON_ERROR_CODE] close_served(2) [OF True c]
    show ?thesis using True c served Cons.IH [of s]
      by (auto simp: is_open_def con_served_def nopen_def nblack_def split: prod.splits)
  next
    case False
    then show ?thesis using Cons.IH [of st] by (auto simp: is_open_def nopen_def nblack_def split: prod.splits)
  qed
qed simp

section \<open>Properties\<close>

text \<open>
  C8. The daemon keeps running and keeps its table in order: in every state that its loop reaches by
  turns that satisfy \<open>tick_ok\<close>, whatever the clients send and whichever events \<open>poll\<close> reports, the table has
  its size, every connection is in its invariant, the descriptors of the clients are distinct, the
  counts are those of the open and of the open blacklisted connections, and the next turn that satisfies
  \<open>tick_ok\<close> does not end in undefined behaviour; the shutdown closes every connection and takes both counts
  back to zero. \<open>tick_ok\<close> restricts what does not come from clients: the system calls keep their contracts
  (no more is read than asked for, no more written than offered, a new descriptor is not one in use, a client's address is numeric); a
  text on the configuration socket or the trap pipe is a message printed by \<open>Greyd_send_config\<close>, as \<open>greyd-setup\<close> and the scanner send it; the replies made of the messages of a client's
  blacklists fit the output buffer and the last does not end with a line break (\<open>blacklist_reply_unsent\<close> shows
  what happens then); the descriptor of a configuration connection is not above those the array for \<open>poll\<close> is made for
  (\<open>config_slot_collision\<close>); and no sync datagram makes \<open>Sync_recv\<close> read behind its buffer (\<open>sync_full_packet_overread\<close>).
\<close>

theorem daemon_loop_safe:
  assumes "setup_ok E st code" and "socks_ok S" and "daemon_reaches E hmac syncer S code (init_daemon st) (cfg_fd, st')"
  shows "int (length (gs_cons st')) = gs_max_cons st' \<and> (\<forall>con\<in>set (gs_cons st'). con_ok code con) \<and>
    distinct (map con_fd (filter is_open (gs_cons st'))) \<and> gs_clients st' = int (length (filter is_open (gs_cons st'))) \<and>
    gs_black_clients st' = int (length (filter (\<lambda>con. is_open con \<and> Con_black con) (gs_cons st'))) \<and>
    (\<forall>T. tick_ok E hmac syncer S code T (cfg_fd, st') \<longrightarrow> daemon_turn E hmac syncer S T (cfg_fd, st') \<noteq> None) \<and>
    gs_clients (daemon_shutdown st') = 0 \<and> gs_black_clients (daemon_shutdown st') = 0 \<and>
    (\<forall>con\<in>set (gs_cons (daemon_shutdown st')). \<not> is_open con)"
proof -
  have d: "daemon_ok E S code (cfg_fd, st')" by (rule daemon_reaches_ok [OF assms(3,2) init_daemon_ok [OF assms(1)]])
  then have t: "table_ok E code st'" "fds_ok S cfg_fd (gs_cons st')" by (simp_all add: daemon_ok_def)
  have counts: "sum_list (map nopen cons) = int (length (filter is_open cons))"
      "sum_list (map nblack cons) = int (length (filter (\<lambda>con. is_open con \<and> Con_black con) cons))" for cons
    by (induction cons) (simp_all add: nopen_def nblack_def)
  have "daemon_turn E hmac syncer S T (cfg_fd, st') \<noteq> None" if "tick_ok E hmac syncer S code T (cfg_fd, st')" for T
    using daemon_turn_ok [OF assms(2) d that] by blast
  moreover have "gs_clients (daemon_shutdown st') = 0" "gs_black_clients (daemon_shutdown st') = 0"
      "\<forall>con\<in>set (gs_cons (daemon_shutdown st')). \<not> is_open con"
    using close_all_counts [of "gs_cons st'" st'] t(1)
    by (cases "close_all (gs_cons st') st'"; simp add: daemon_shutdown_def table_ok_def)+
  ultimately show ?thesis using t counts by (simp add: table_ok_def fds_ok_def)
qed

text \<open>The example: a daemon with two places, whose listening socket reports a client.\<close>

definition example_socks :: daemon_socks where
  "example_socks = \<lparr>ds_main = 3, ds_main6 = 0, ds_cfg = 4, ds_trap = 5, ds_sync = 0\<rparr>"

definition example_message :: string where
  "example_message = Greyd_send_config (\<lambda>s. 2) ''greytrap'' ''go away'' \<lparr>list_size = 1, list_head = [''192.0.2.1'']\<rparr>"

definition example_tick :: daemon_tick where
  "example_tick =
     \<lparr>dt_now = 5,
      dt_poll = (\<lambda>fds timeout. Poll_events (\<lambda>i. \<lparr>ev_in = (i = 3 \<and> pf_in (fds ! i) \<and> 0 \<le> pf_fd (fds ! i)), ev_out = False, ev_err = False\<rparr>)),
      dt_read = (\<lambda>fd. None), dt_cr = (\<lambda>fd. 1), dt_write = (\<lambda>fd k. k),
      dt_accept = (9, Acc_interrupted, \<lparr>sa_family = AF_INET, sa_words = [0, 0, 0, 0], sa_port = 25\<rparr>),
      dt_accept6 = (- 1, Acc_interrupted, \<lparr>sa_family = AF_INET, sa_words = [0, 0, 0, 0], sa_port = 25\<rparr>), dt_accept_now = 5,
      dt_cfg_accept = (- 1, Acc_interrupted, 0), dt_cfg_text = example_message, dt_trap_text = example_message, dt_sync = (0, [])\<rparr>"

definition example_start :: Greyd_state where
  "example_start = init_daemon ((example_daemon [])\<lparr>gs_max_cons := 2\<rparr>)"

lemma example_message_ok: "config_text_ok example_message"
proof -
  have i: "send_item (\<lambda>s. 2) ''192.0.2.1'' = ''192.0.2.1/32''" by (simp add: send_item_def AF_INET_def)
  have "scan_cidr ''192.0.2.1/32'' = Some (''192.0.2.1'', 32)"
    by (simp add: scan_cidr_def scan_unsigned_def isdigit_c_def char_code_def char_isspace_def isspace_c_def Let_def)
  then have "item_ok ''192.0.2.1/32''" by (simp add: item_ok_def plain_def NUL_def LEXER_MAX_STR_LEN_def IP_MAX_MASKBITS_def)
  then show ?thesis unfolding config_text_ok_def example_message_def
    by (intro exI [of _ "\<lambda>s. 2"] exI [of _ "''greytrap''"] exI [of _ "''go away''"] exI [of _ "\<lparr>list_size = 1, list_head = [''192.0.2.1'']\<rparr>"])
       (simp add: i List_wf_def plain_def NUL_def LEXER_MAX_STR_LEN_def MAX_KEY_LEN_def)
qed

lemma example_setup: "setup_ok example_env ((example_daemon [])\<lparr>gs_max_cons := 2\<rparr>) CON_ERROR_CODE" "socks_ok example_socks"
proof -
  have "env_ok example_env ((example_daemon [])\<lparr>gs_max_cons := 2\<rparr>) CON_ERROR_CODE"
    using example_serves [of "[]"] by (simp add: env_ok_def)
  then show "setup_ok example_env ((example_daemon [])\<lparr>gs_max_cons := 2\<rparr>) CON_ERROR_CODE" "socks_ok example_socks"
    by (simp_all add: setup_ok_def example_daemon_def example_config_get CON_STUTTER_def resolver_ok_def example_env_def socks_ok_def example_socks_def)
qed

lemma example_start_cons: "gs_cons example_start = [zero_con\<lparr>con_fd := - 1\<rparr>, zero_con\<lparr>con_fd := - 1\<rparr>]"
  by (simp add: example_start_def init_daemon_def example_daemon_def numeral_2_eq_2)

lemma example_turn_prepare: "turn_prepare example_socks 5 (- 1, example_start) =
    (5, example_start, prepare_socks example_socks 5 (- 1) 0 (unset_pollfd # replicate 5 unset_pollfd), - 1)"
proof -
  have m: "max_fd example_socks (gs_cons example_start) = 5" by (simp add: max_fd_def example_socks_def example_start_cons)
  have s: "gs_slow_until example_start = 0" by (simp add: example_start_def init_daemon_def)
  have p: "prepare_cons 5 5 (gs_cons example_start) example_start fds False = (gs_cons example_start, example_start, fds, False)" for fds
    by (simp add: example_start_cons prepare_con_def)
  show ?thesis by (simp add: turn_prepare_def m p s poll_timeout_def)
qed

lemma example_turn_clients: "turn_clients example_env example_tick m ev example_start = Some example_start"
  by (simp add: turn_clients_def example_start_cons serve_con_def) (simp add: example_start_def init_daemon_def example_daemon_def numeral_2_eq_2)

lemma example_tick_ok: "tick_ok example_env example_hmac None example_socks CON_ERROR_CODE example_tick (- 1, example_start)"
proof -
  have "Hash_keys (Hash_create NUM_BLACKLISTS :: Blacklist_T Hash_T) = None" by (simp add: Hash_keys_def Hash_create_def)
  then have "accept_ok example_env example_start CON_ERROR_CODE (dt_accept example_tick)"
    by (simp add: accept_ok_def example_tick_def client_ok_def example_env_def addr_ok_def NUL_def INET6_ADDRSTRLEN_def
        example_start_def init_daemon_def)
  then have "arrivals_ok example_env example_hmac None example_socks CON_ERROR_CODE example_tick (- 1) example_start"
    using example_message_ok
    by (simp add: arrivals_ok_def example_tick_def accept_ok_def fresh_def other_fds_def example_socks_def example_start_cons)
  moreover have "poll_ok ev fds" if "dt_poll example_tick fds timeout = Poll_events ev" for fds timeout ev
    using that by (auto simp: example_tick_def poll_ok_def)
  moreover have "io_ok example_tick (gs_cons example_start)" by (simp add: io_ok_def example_tick_def example_start_cons is_open_def)
  moreover have "dt_now example_tick = 5" "max_fd example_socks (gs_cons example_start) = 5"
    by (simp_all add: example_tick_def max_fd_def example_socks_def example_start_cons)
  ultimately show ?thesis
    using example_turn_prepare example_turn_clients by (simp add: tick_ok_def split: poll_result.splits)
qed

text \<open>The loop goes on while no socket reports an error.\<close>

lemma serve_goes_on:
  assumes "\<And>i. \<not> ev_err (ev i)"
  shows "serve_main E T m ev sock accepted st = Some (stop, st') \<Longrightarrow> \<not> stop"
    and "serve_cfg_sock E S T m ev cfg_fd st = Some (stop, cfg_fd', st') \<Longrightarrow> \<not> stop"
    and "serve_trap E S T m ev st = Some (stop, st') \<Longrightarrow> \<not> stop"
    and "serve_sync hmac syncer S T m ev st = Some (stop, st') \<Longrightarrow> \<not> stop"
  using assms
  by (auto simp: serve_main_def serve_cfg_sock_def serve_trap_def serve_sync_def Let_def bind_eq_Some_conv
      split: prod.splits if_splits accept_error.splits option.splits)

lemma example_turn:
  obtains cfg_fd st where "daemon_turn example_env example_hmac None example_socks example_tick (- 1, example_start) = Some (False, cfg_fd, st)"
proof -
  have d: "daemon_ok example_env example_socks CON_ERROR_CODE (- 1, example_start)"
    unfolding example_start_def by (rule init_daemon_ok [OF example_setup(1)])
  from daemon_turn_ok [OF example_setup(2) d example_tick_ok] obtain stop c where
    t: "daemon_turn example_env example_hmac None example_socks example_tick (- 1, example_start) = Some (stop, c)" by blast
  have n: "dt_now example_tick = 5" by (simp add: example_tick_def)
  obtain ev where ev: "dt_poll example_tick (prepare_socks example_socks 5 (- 1) 0 (unset_pollfd # replicate 5 unset_pollfd)) (- 1) = Poll_events ev"
      "\<And>i. \<not> ev_err (ev i)" by (simp add: example_tick_def)
  have "turn_socks example_env example_hmac None example_socks example_tick 5 ev (- 1) example_start = Some (stop, c)"
    using t ev(1) by (simp add: daemon_turn_def n example_turn_prepare example_turn_clients)
  then have "\<not> stop"
    by (cases c) (auto simp: turn_socks_def bind_eq_Some_conv split: if_splits dest: serve_goes_on [OF ev(2)])
  then show ?thesis using that t by (cases c) simp
qed

text \<open>C8 for the daemon of the example after a turn that accepts a client.\<close>

theorem daemon_loop_safe_witness:
  "\<exists>cfg_fd st. daemon_turn example_env example_hmac None example_socks example_tick (- 1, example_start) = Some (False, cfg_fd, st) \<and>
     gs_clients st = int (length (filter is_open (gs_cons st))) \<and> gs_clients (daemon_shutdown st) = 0"
proof -
  obtain cfg_fd st where t: "daemon_turn example_env example_hmac None example_socks example_tick (- 1, example_start) = Some (False, cfg_fd, st)"
    by (rule example_turn)
  have "daemon_reaches example_env example_hmac None example_socks CON_ERROR_CODE example_start (cfg_fd, st)"
    by (rule daemon_reaches.turn [OF daemon_reaches.start example_tick_ok t])
  from daemon_loop_safe [OF example_setup this [unfolded example_start_def]] show ?thesis using t by blast
qed

text \<open>
  C21. What the loop waits for: in a state of the invariant it closes exactly the connections that have
  waited 400 seconds for input or with output. Every other connection has a place of its own in the array
  for \<open>poll\<close>: the entry there asks for input exactly when the connection waits for a command, and for room exactly when its
  output is due; a connection whose output is not yet due is left out, its entry holds no descriptor.
  While there is output to stutter, or the daemon is slowed down, \<open>poll\<close> returns within a second, otherwise it may
  wait forever. As in \<open>tick_ok\<close> the descriptor of a configuration connection is not above those the array is made for.
\<close>

theorem turn_polls_connections:
  assumes "socks_ok S" and "daemon_ok E S code (cfg_fd, st)" and "cfg_fd \<le> max_fd S (gs_cons st)"
  shows "\<exists>st' fds. turn_prepare S now (cfg_fd, st) = (max_fd S (gs_cons st), st', fds,
      if (\<exists>con\<in>set (gs_cons st'). is_open con \<and> con_w con \<noteq> 0) \<or> gs_slow_until st' \<noteq> 0 then 1000 else - 1) \<and>
    map con_fd (gs_cons st') = map (\<lambda>con. if con_r con \<noteq> 0 \<and> con_r con + 400 \<le> now \<or> con_w con \<noteq> 0 \<and> con_w con + 400 \<le> now then - 1 else con_fd con) (gs_cons st) \<and>
    (\<forall>con\<in>set (gs_cons st'). is_open con \<longrightarrow> con \<in> set (gs_cons st) \<and> slot (max_fd S (gs_cons st)) (con_fd con) < length fds \<and>
       (con_reads con \<noteq> con_writes con) \<and>
       fds ! slot (max_fd S (gs_cons st)) (con_fd con) =
         \<lparr>pf_fd = (if con_reads con \<or> con_w con \<le> now then con_fd con else - 1),
          pf_in = con_reads con, pf_out = (con_writes con \<and> con_w con \<le> now)\<rparr>) \<and>
    distinct (map (slot (max_fd S (gs_cons st)) \<circ> con_fd) (filter is_open (gs_cons st'))) \<and>
    gs_clients st' = int (length (filter is_open (gs_cons st')))"
proof -
  let ?m = "max_fd S (gs_cons st)"
  obtain m st' fds timeout where p: "turn_prepare S now (cfg_fd, st) = (m, st', fds, timeout)" using prod_cases4 by blast
  note pr = turn_prepare_ok [OF assms p]
  have to: "timeout = (if (\<exists>con\<in>set (gs_cons st'). is_open con \<and> con_w con \<noteq> 0) \<or> gs_slow_until st' \<noteq> 0 then 1000 else - 1)"
    by (simp add: pr(5) poll_timeout_def POLL_TIMEOUT_def)
  have fd: "con_fd (aged now con) = (if con_r con \<noteq> 0 \<and> con_r con + 400 \<le> now \<or> con_w con \<noteq> 0 \<and> con_w con + 400 \<le> now then - 1 else con_fd con)" for con
    by (simp add: aged_def expired_def MAX_TIME_def is_open_def)
  have here: "con \<in> set (gs_cons st) \<and> slot ?m (con_fd con) < length fds \<and> (con_reads con \<noteq> con_writes con) \<and>
      fds ! slot ?m (con_fd con) = \<lparr>pf_fd = (if con_reads con \<or> con_w con \<le> now then con_fd con else - 1),
          pf_in = con_reads con, pf_out = (con_writes con \<and> con_w con \<le> now)\<rparr>"
    if con: "con \<in> set (gs_cons st')" "is_open con" for con
  proof -
    have "con \<in> set (gs_cons st)" using con pr(3) by (auto simp: aged_def is_open_def split: if_splits)
    moreover have "con_ok code con" using pr(1) con(1) by (simp add: table_ok_def)
    ultimately show ?thesis
      using pr(4) [OF con] con(2) unfolding pr(6)
      by (auto simp: con_entry_def con_ok_def con_reads_def con_writes_def unset_pollfd_def is_open_def)
  qed
  have range: "0 < con_fd con \<and> con_fd con \<le> ?m" if "con \<in> set (gs_cons st')" "is_open con" for con
    using pr(2) that max_fd_ge(6) [of con "gs_cons st" S] here [OF that] by (simp add: fds_ok_def)
  have "inj_on (slot ?m) (set (map con_fd (filter is_open (gs_cons st'))))" using range slot_inj by (fastforce simp: inj_on_def)
  then have places: "distinct (map (slot ?m \<circ> con_fd) (filter is_open (gs_cons st')))"
    using pr(2) distinct_map [of "slot ?m" "map con_fd (filter is_open (gs_cons st'))"] by (simp add: fds_ok_def)
  have "sum_list (map nopen cons) = int (length (filter is_open cons))" for cons by (induction cons) (simp_all add: nopen_def)
  then have "gs_clients st' = int (length (filter is_open (gs_cons st')))" using pr(1) by (simp add: table_ok_def)
  moreover have "map con_fd (gs_cons st') = map (\<lambda>con. if con_r con \<noteq> 0 \<and> con_r con + 400 \<le> now \<or> con_w con \<noteq> 0 \<and> con_w con + 400 \<le> now
      then - 1 else con_fd con) (gs_cons st)" by (simp add: pr(3) fd comp_def)
  ultimately show ?thesis using p pr(6) to here places by (intro exI [of _ st'] exI [of _ fds]) simp
qed

text \<open>C21 for the start of the example.\<close>

theorem turn_polls_connections_witness:
  "\<exists>st' fds. turn_prepare example_socks 5 (- 1, example_start) = (5, st', fds, - 1) \<and> gs_clients st' = 0"
proof -
  have d: "daemon_ok example_env example_socks CON_ERROR_CODE (- 1, example_start)"
    unfolding example_start_def by (rule init_daemon_ok [OF example_setup(1)])
  have m: "max_fd example_socks (gs_cons example_start) = 5" by (simp add: max_fd_def example_socks_def example_start_cons)
  have s: "gs_slow_until example_start = 0" by (simp add: example_start_def init_daemon_def)
  from turn_polls_connections [OF example_setup(2) d, of 5] show ?thesis
    unfolding m example_turn_prepare by (simp add: example_start_cons is_open_def s)
qed

lemma prepare_cons_keeps:
  "prepare_cons now m cons st fds writers = (cons', st', fds', writers') \<Longrightarrow>
     length fds' = length fds \<and> (gs_slow_until st = 0 \<longrightarrow> gs_slow_until st' = 0)"
proof (induction cons arbitrary: st fds writers cons' st' fds' writers')
  case (Cons con cons)
  obtain c1 st1 fds1 w1 where p: "prepare_con now m con st fds writers = (c1, st1, fds1, w1)" using prod_cases4 by blast
  then have "length fds1 = length fds \<and> (gs_slow_until st = 0 \<longrightarrow> gs_slow_until st1 = 0)"
    by (auto simp: prepare_con_def Con_close_def Let_def split: if_splits)
  moreover obtain cs2 st2 fds2 w2 where q: "prepare_cons now m cons st1 fds1 w1 = (cs2, st2, fds2, w2)" using prod_cases4 by blast
  ultimately show ?case using Cons.IH [OF q] Cons.prems p q by auto
qed simp

text \<open>
  The array is not made for the configuration connection: when its descriptor is larger than all
  the others, its place, the remainder by the largest of those, can be the place of a client. Then the
  entry of the client is overwritten and \<open>poll\<close> is not asked for the client at all, whose events the
  daemon then takes from the entry of the configuration connection.
\<close>

theorem config_slot_collision:
  assumes "socks_ok S" and "daemon_ok E S code (cfg_fd, st)" and "gs_slow_until st = 0" and "0 < cfg_fd"
    and "con \<in> set (gs_cons st)" and "is_open con" and "cfg_fd mod max_fd S (gs_cons st) = con_fd con mod max_fd S (gs_cons st)"
    and "turn_prepare S now (cfg_fd, st) = (m, st', fds, timeout)"
  shows "max_fd S (gs_cons st) < cfg_fd \<and> fds ! slot m (con_fd con) = \<lparr>pf_fd = cfg_fd, pf_in = True, pf_out = False\<rparr>"
proof -
  let ?m = "max_fd S (gs_cons st)"
  have r: "0 < con_fd con" "con_fd con \<le> ?m" "con_fd con \<notin> other_fds S cfg_fd"
    using assms(2,5,6) max_fd_ge(6) [OF assms(5,6), of S] by (auto simp: daemon_ok_def fds_ok_def)
  have s: "slot ?m cfg_fd = slot ?m (con_fd con)" using assms(7) by (simp add: slot_def)
  have big: "?m < cfg_fd"
  proof (rule ccontr)
    assume "\<not> ?m < cfg_fd"
    then have "cfg_fd = con_fd con" using slot_inj [of cfg_fd ?m "con_fd con"] s assms(4) r by simp
    then show False using r(3) by (simp add: other_fds_def)
  qed
  obtain cons1 st1 fds1 w where p: "prepare_cons now ?m (gs_cons st) st (replicate (nat ?m + 1) unset_pollfd) False = (cons1, st1, fds1, w)"
    using prod_cases4 by blast
  have k: "length fds1 = nat ?m + 1" "gs_slow_until st1 = 0" using prepare_cons_keeps [OF p] assms(3) by simp_all
  have f: "m = ?m" "fds = prepare_socks S ?m cfg_fd 0 fds1"
    using assms(8) p k(2) unfolding turn_prepare_def Let_def prod.case p by auto
  have "slot ?m (con_fd con) < length fds1" using slot_less [OF r(1,2)] k(1) by simp
  then have e: "poll_in ?m cfg_fd fs ! slot ?m (con_fd con) = \<lparr>pf_fd = cfg_fd, pf_in = True, pf_out = False\<rparr>" if "length fs = length fds1" for fs
    using that s by (simp add: poll_in_def)
  show ?thesis
    unfolding f using big r assms(4) max_fd_ge(1-5) [of S "gs_cons st"]
    by (auto simp: prepare_socks_def Let_def poll_in_nth other_fds_def e)
qed

text \<open>The statement for a client at descriptor 7 and a configuration connection at 14.\<close>

theorem config_slot_collision_witness:
  "\<exists>st' fds. turn_prepare example_socks 5 (14, example_daemon [example_reading]) = (7, st', fds, - 1) \<and>
     fds ! slot 7 (con_fd example_reading) = \<lparr>pf_fd = 14, pf_in = True, pf_out = False\<rparr>"
proof -
  let ?st = "example_daemon [example_reading]"
  have fd: "con_fd example_reading = 7" "con_r example_reading = 1" "con_w example_reading = 0" "\<not> Con_black example_reading"
    by (simp_all add: example_reading_def Con_grow_out_buf_def zero_con_def Con_black_def List_create_def)
  have g: "gs_cons ?st = [example_reading]" "gs_slow_until ?st = 0" by (simp_all add: example_daemon_def)
  have "greyd_ok example_env ?st CON_ERROR_CODE"
    using example_serves [of "[example_reading]"] empty_table_ok [of 10]
    by (simp add: greyd_ok_def example_config_get CON_STUTTER_def resolver_ok_def example_env_def) (simp add: example_daemon_def example_config_get)
  then have d: "daemon_ok example_env example_socks CON_ERROR_CODE (14, ?st)"
    using example_reading_base fd
    by (simp add: daemon_ok_def table_ok_def fds_ok_def g con_ok_def) (simp add: example_daemon_def nopen_def nblack_def is_open_def other_fds_def example_socks_def)
  have m: "max_fd example_socks (gs_cons ?st) = 7" by (simp add: max_fd_def example_socks_def g fd)
  obtain m st' fds timeout where p: "turn_prepare example_socks 5 (14, ?st) = (m, st', fds, timeout)" using prod_cases4 by blast
  have "m = 7 \<and> timeout = - 1"
    using p unfolding turn_prepare_def prod.case m g(1) Let_def
    by (simp add: prepare_con_def fd MAX_TIME_def poll_timeout_def g(2)) (use m g(1) in auto)
  moreover have "fds ! slot m (con_fd example_reading) = \<lparr>pf_fd = 14, pf_in = True, pf_out = False\<rparr>"
    using config_slot_collision [OF example_setup(2) d g(2) _ _ _ _ p, of example_reading] m by (simp add: g fd is_open_def)
  ultimately show ?thesis using p by blast
qed

end
