(* ===== verification/Greydb_Tool.thy ===== *)
theory Greydb_Tool
  imports Greylisting Sync
begin

text \<open>
  Models \<open>src/src/main_greydb.c\<close>, the tool that lists the database and adds or deletes entries by hand,
  and shows what it does to the database, that the listing is complete, and that the greylister acts on
  a spam trap that was added. Its options are in \<open>Tool_Options\<close>; opening the database and the sync engine is not
  modelled; \<open>warnx\<close> writes to the terminal.
\<close>

section \<open>The tool\<close>

datatype entry_type = TYPE_WHITE | TYPE_TRAPHIT | TYPE_SPAMTRAP | TYPE_DOMAIN

datatype db_action = ACTION_LIST | ACTION_DEL | ACTION_ADD

text \<open>A line of \<open>db_list\<close> for an entry.\<close>

definition bars :: "string list \<Rightarrow> string" where
  "bars ss = (case ss of [] \<Rightarrow> [] | s # rest \<Rightarrow> s @ concat (map (\<lambda>t. ''|'' @ t) rest)) @ [CHR 0x0A]"

fun list_line :: "DB_key \<Rightarrow> Grey_data \<Rightarrow> string" where
  "list_line (KEY_TUPLE gt) gd = bars [''GREY'', gt_ip gt, gt_helo gt, gt_from gt, gt_to gt, show_int (gd_first gd), show_int (gd_pass gd),
     show_int (gd_expire gd), show_int (gd_bcount gd), show_int (gd_pcount gd)]"
| "list_line (KEY_MAIL s) gd = bars [''SPAMTRAP'', s]"
| "list_line (KEY_DOM s) gd = bars [''DOMAIN'', s]"
| "list_line (KEY_IP s) gd =
     (if gd_pcount gd = - 1 then bars [''TRAPPED'', s, show_int (gd_expire gd)]
      else bars [''WHITE'', s, [], [], show_int (gd_first gd), show_int (gd_pass gd), show_int (gd_expire gd),
             show_int (gd_bcount gd), show_int (gd_pcount gd)])"
| "list_line (KEY_DOM_PART s) gd = []"

text \<open>\<open>db_list\<close> on the Berkeley DB driver: what is printed.\<close>

partial_function (option) list_loop :: "('e, 'c) bdb_lib \<Rightarrow> 'e bdb_handle \<Rightarrow> 'c bdb_cursor \<Rightarrow> string \<Rightarrow> string option" where
  "list_loop L bh itr out =
     do { (ret, kv, itr') \<leftarrow> Mod_db_itr_next L bh itr;
          if ret \<noteq> GREYDB_NOT_FOUND
          then do { (key, val) \<leftarrow> kv; list_loop L bh itr' (out @ list_line key (val_gd val)) }
          else Some out }"

definition db_list :: "('e, 'c) bdb_lib \<Rightarrow> 'e bdb_handle \<Rightarrow> string option" where
  "db_list L bh = do { itr \<leftarrow> Mod_db_get_itr L bh (DB_ENTRIES OR DB_SPAMTRAPS OR DB_DOMAINS); list_loop L bh itr [] }"

text \<open>The key of an argument: \<open>Some None\<close> for an argument that is refused.\<close>

definition update_key :: "(u16 \<Rightarrow> string \<Rightarrow> bool) \<Rightarrow> string \<Rightarrow> entry_type \<Rightarrow> DB_key option option" where
  "update_key getaddrinfo_numeric ip type =
     (let normalized = map_option c_str (normalize_email_addr ip (replicate GREY_MAX_MAIL NUL) (int GREY_MAX_MAIL)) in
      case type of
        TYPE_SPAMTRAP \<Rightarrow> map_option (\<lambda>addr. if CHR ''@'' \<in> set addr then Some (KEY_MAIL addr) else None) normalized
      | TYPE_DOMAIN \<Rightarrow> map_option (\<lambda>addr. Some (KEY_DOM addr)) normalized
      | _ \<Rightarrow> Some (if IP_check_addr getaddrinfo_numeric ip = - 1 then None else Some (KEY_IP ip)))"

text \<open>The two switches over the type; a new domain gets another count than one that is added again.\<close>

definition typed_entry :: "entry_type \<Rightarrow> int \<Rightarrow> int \<Rightarrow> int \<Rightarrow> int \<Rightarrow> Grey_data \<Rightarrow> Grey_data" where
  "typed_entry type now white_expiry trap_expiry domain_count gd =
     (case type of
        TYPE_WHITE \<Rightarrow> gd\<lparr>gd_pass := now, gd_expire := now + white_expiry\<rparr>
      | TYPE_TRAPHIT \<Rightarrow> gd\<lparr>gd_expire := now + trap_expiry, gd_pcount := - 1\<rparr>
      | TYPE_SPAMTRAP \<Rightarrow> gd\<lparr>gd_expire := 0, gd_pcount := - 2\<rparr>
      | TYPE_DOMAIN \<Rightarrow> gd\<lparr>gd_expire := 0, gd_pcount := domain_count\<rparr>)"

definition zero_gd :: Grey_data where
  "zero_gd = \<lparr>gd_first = 0, gd_pass = 0, gd_expire = 0, gd_bcount = 0, gd_pcount = 0\<rparr>"

definition update_sync :: "(char list \<Rightarrow> char list \<Rightarrow> char list) \<Rightarrow> (string \<Rightarrow> u32) \<Rightarrow> Sync_engine_T option \<Rightarrow> entry_type \<Rightarrow> string \<Rightarrow> int \<Rightarrow> int
    \<Rightarrow> db_action \<Rightarrow> Sync_engine_T option \<times> ((u32 \<times> nat) \<times> char list) list" where
  "update_sync hmac inet_addr syncer type ip now expire action =
     (case (syncer, type) of
        (Some engine, TYPE_WHITE) \<Rightarrow> apfst Some (Sync_white hmac inet_addr engine ip now expire (action = ACTION_DEL))
      | (Some engine, TYPE_TRAPHIT) \<Rightarrow> apfst Some (Sync_trapped hmac inet_addr engine ip now expire (action = ACTION_DEL))
      | _ \<Rightarrow> (syncer, []))"

text \<open>The result, the database, the sync engine and the packets it sends.\<close>

type_synonym 'h update_result = "int \<times> 'h \<times> Sync_engine_T option \<times> ((u32 \<times> nat) \<times> char list) list"

definition update_rollback :: "'h DB_handle_T \<Rightarrow> 'h \<Rightarrow> Sync_engine_T option \<Rightarrow> 'h update_result option" where
  "update_rollback D h syncer = do { (r, h') \<leftarrow> DB_rollback_txn D h; Some (1, h', syncer, []) }"

definition db_update :: "'h DB_handle_T \<Rightarrow> (u16 \<Rightarrow> string \<Rightarrow> bool) \<Rightarrow> (char list \<Rightarrow> char list \<Rightarrow> char list) \<Rightarrow> (string \<Rightarrow> u32) \<Rightarrow> int
    \<Rightarrow> 'h \<Rightarrow> string \<Rightarrow> db_action \<Rightarrow> entry_type \<Rightarrow> Sync_engine_T option \<Rightarrow> int \<Rightarrow> int \<Rightarrow> 'h update_result option" where
  "db_update D getaddrinfo_numeric hmac inet_addr now db ip action type syncer white_expiry trap_expiry =
     do { k \<leftarrow> update_key getaddrinfo_numeric ip type;
          case k of
            None \<Rightarrow> Some (1, db, syncer, [])
          | Some key \<Rightarrow>
              do { (r0, h) \<leftarrow> DB_start_txn D db;
                   (ok, gd, h') \<leftarrow>
                     (if action = ACTION_DEL
                      then do { (ret, h') \<leftarrow> DB_del D h key; Some (ret \<noteq> GREYDB_NOT_FOUND \<and> ret \<noteq> GREYDB_ERR, zero_gd, h') }
                      else do { (ret, val) \<leftarrow> DB_get D h key;
                                if ret = GREYDB_FOUND \<or> ret = GREYDB_NOT_FOUND
                                then do { gd \<leftarrow> (if ret = GREYDB_FOUND
                                               then map_option (\<lambda>v. typed_entry type now white_expiry trap_expiry (- 3)
                                                      ((val_gd v)\<lparr>gd_pcount := wrap_int (gd_pcount (val_gd v) + 1)\<rparr>)) val
                                               else Some (typed_entry type now white_expiry trap_expiry (- 2) (zero_gd\<lparr>gd_first := now, gd_bcount := 1\<rparr>)));
                                          (ret', h') \<leftarrow> DB_put D h key (grey_val gd);
                                          Some (ret' = GREYDB_OK, gd, h') }
                                else Some (False, zero_gd, h) });
                   if ok
                   then do { (r1, h'') \<leftarrow> DB_commit_txn D h';
                             let (syncer', packets) = update_sync hmac inet_addr syncer type ip now (gd_expire gd) action in
                             Some (0, h'', syncer', packets) }
                   else update_rollback D h' syncer } }"

text \<open>The loop of \<open>main\<close> over the arguments: the number of failures.\<close>

fun update_args :: "'h DB_handle_T \<Rightarrow> (u16 \<Rightarrow> string \<Rightarrow> bool) \<Rightarrow> (char list \<Rightarrow> char list \<Rightarrow> char list) \<Rightarrow> (string \<Rightarrow> u32) \<Rightarrow> int
    \<Rightarrow> 'h \<Rightarrow> string list \<Rightarrow> db_action \<Rightarrow> entry_type \<Rightarrow> Sync_engine_T option \<Rightarrow> int \<Rightarrow> int \<Rightarrow> 'h update_result option" where
  "update_args D numeric hmac inet_addr now db [] action type syncer wexp texp = Some (0, db, syncer, [])"
| "update_args D numeric hmac inet_addr now db (arg # args) action type syncer wexp texp =
     (if arg = [] then update_args D numeric hmac inet_addr now db args action type syncer wexp texp
      else do { (ret, db', syncer', packets) \<leftarrow> db_update D numeric hmac inet_addr now db arg action type syncer wexp texp;
                (rest, db'', syncer'', packets') \<leftarrow> update_args D numeric hmac inet_addr now db' args action type syncer' wexp texp;
                Some (ret + rest, db'', syncer'', packets @ packets') })"

section \<open>What an update does\<close>

text \<open>The entry an update leaves under its key.\<close>

definition updated_entry :: "db_action \<Rightarrow> entry_type \<Rightarrow> int \<Rightarrow> int \<Rightarrow> int \<Rightarrow> DB_val option \<Rightarrow> DB_val option" where
  "updated_entry action type now white_expiry trap_expiry old =
     (if action = ACTION_DEL then None
      else Some (grey_val (case old of
          None \<Rightarrow> typed_entry type now white_expiry trap_expiry (- 2) (zero_gd\<lparr>gd_first := now, gd_bcount := 1\<rparr>)
        | Some v \<Rightarrow> typed_entry type now white_expiry trap_expiry (- 3) ((val_gd v)\<lparr>gd_pcount := wrap_int (gd_pcount (val_gd v) + 1)\<rparr>))))"

lemma update_key_ok: "update_key numeric ip type = Some (Some k) \<Longrightarrow> NUL \<notin> set ip \<Longrightarrow> key_ok k"
  by (auto simp: update_key_def Let_def split: entry_type.splits if_splits)

context greydb_admin
begin

lemma put_any_total: "ready h \<Longrightarrow> ok k \<Longrightarrow> val_type v = DB_VAL_GREY \<Longrightarrow>
    \<exists>h'. DB_put D h k v = Some (GREYDB_OK, h') \<and> ready h' \<and> saved h' = saved h \<and> view h' = (view h)(k \<mapsto> v)"
  using put_any_live [of h k v] put_any_law [of h k v GREYDB_OK] by (fastforce simp: greydb_codes)

lemma rollback_total:
  assumes "DB_rollback_txn D h \<noteq> None" and "ready h" and "saved h = Some m"
  shows "\<exists>h'. update_rollback D h syncer = Some (1, h', syncer, []) \<and> ready h' \<and> saved h' = None \<and> view h' = m"
  using assms(1) rollback_law [OF _ assms(2)] assms(3) by (fastforce simp: update_rollback_def)

lemma db_update_total:
  assumes "ready h" and "saved h = None" and key: "update_key numeric ip type = Some (Some k)" and ok: "ok k"
    and undo: "\<And>h. ready h \<Longrightarrow> DB_rollback_txn D h \<noteq> None"
  shows "\<exists>ret h' syncer' packets. db_update D numeric hmac inet_addr now h ip action type syncer wexp texp = Some (ret, h', syncer', packets) \<and>
    ready h' \<and> saved h' = None \<and>
    view h' = (view h)(k := updated_entry action type now wexp texp (view h k)) \<and>
    (ret = 1 \<and> action = ACTION_DEL \<and> view h k = None \<and> syncer' = syncer \<and> packets = [] \<or>
     ret = 0 \<and> (syncer', packets) = update_sync hmac inet_addr syncer type ip now
       (case updated_entry action type now wexp texp (view h k) of None \<Rightarrow> 0 | Some v \<Rightarrow> gd_expire (val_gd v)) action)"
proof -
  let ?m = "view h"
  obtain r0 h0 where s: "DB_start_txn D h = Some (r0, h0)" "ready h0" "view h0 = ?m" "saved h0 = Some ?m"
    using start_total [OF assms(1,2)] by blast
  have fin: "\<exists>r' h'. DB_commit_txn D h2 = Some (r', h') \<and> ready h' \<and> view h' = view h2 \<and> saved h' = None"
    if "ready h2" "saved h2 = saved h0" for h2 using commit_total [OF that(1)] that(2) s(4) by metis
  show ?thesis
  proof (cases "action = ACTION_DEL")
    case True
    obtain r1 h1 where d: "DB_del D h0 k = Some (r1, h1)" "r1 \<noteq> GREYDB_ERR" using del_live [OF s(2) ok] by blast
    have l: "ready h1" "saved h1 = saved h0" "r1 = GREYDB_OK \<and> view h1 = ?m(k := None) \<or> r1 = GREYDB_NOT_FOUND \<and> ?m k = None \<and> view h1 = ?m"
      using del_law [OF d(1) s(2) ok] d(2) s(3) by auto
    show ?thesis
    proof (cases "r1 = GREYDB_NOT_FOUND")
      case nf: True
      obtain h2 where b: "update_rollback D h1 syncer = Some (1, h2, syncer, [])" "ready h2" "saved h2 = None" "view h2 = ?m"
        using rollback_total [OF undo l(1)] l(1,2) s(4) by metis
      have m: "?m k = None" using nf l(3) by (auto simp: greydb_codes)
      have "db_update D numeric hmac inet_addr now h ip action type syncer wexp texp = Some (1, h2, syncer, [])"
        using True nf s(1) d key b(1) by (simp add: db_update_def)
      then show ?thesis using b(2-4) m True by (auto simp: updated_entry_def)
    next
      case found: False
      obtain r2 h2 where c: "DB_commit_txn D h1 = Some (r2, h2)" "ready h2" "view h2 = ?m(k := None)" "saved h2 = None"
        using fin [OF l(1,2)] l(3) found by auto
      obtain sy ps where u: "update_sync hmac inet_addr syncer type ip now 0 action = (sy, ps)" by fastforce
      have "db_update D numeric hmac inet_addr now h ip action type syncer wexp texp = Some (0, h2, sy, ps)"
        using True found d s(1) key c(1) u by (simp add: db_update_def zero_gd_def)
      then show ?thesis using True c(2-4) u by (simp add: updated_entry_def)
    qed
  next
    case False
    obtain vo where get: "DB_get D h0 k = Some (if ?m k = None then GREYDB_NOT_FOUND else GREYDB_FOUND, vo)" "?m k \<noteq> None \<longrightarrow> vo = ?m k"
      using get_total [OF s(2) ok] s(3) by auto
    obtain gd where gd: "updated_entry action type now wexp texp (?m k) = Some (grey_val gd)"
        "(if ?m k = None then Some (typed_entry type now wexp texp (- 2) (zero_gd\<lparr>gd_first := now, gd_bcount := 1\<rparr>))
          else map_option (\<lambda>v. typed_entry type now wexp texp (- 3) ((val_gd v)\<lparr>gd_pcount := wrap_int (gd_pcount (val_gd v) + 1)\<rparr>)) vo) = Some gd"
      using False get(2) by (cases "?m k") (auto simp: updated_entry_def)
    have "val_type (grey_val gd) = DB_VAL_GREY" by (simp add: grey_val_def)
    then obtain h1 where p: "DB_put D h0 k (grey_val gd) = Some (GREYDB_OK, h1)" "ready h1" "saved h1 = saved h0" "view h1 = ?m(k \<mapsto> grey_val gd)"
      using put_any_total [OF s(2) ok] s(3) by metis
    obtain r2 h2 where c: "DB_commit_txn D h1 = Some (r2, h2)" "ready h2" "view h2 = ?m(k \<mapsto> grey_val gd)" "saved h2 = None"
      using fin [OF p(2,3)] p(4) by auto
    obtain sy ps where u: "update_sync hmac inet_addr syncer type ip now (gd_expire gd) action = (sy, ps)" by fastforce
    have "db_update D numeric hmac inet_addr now h ip action type syncer wexp texp = Some (0, h2, sy, ps)"
      using False get(1) gd(2) p(1) s(1) key c(1) u by (cases "?m k") (auto simp: db_update_def greydb_codes)
    then show ?thesis using False c(2-4) u gd(1) by (simp add: grey_val_def)
  qed
qed

end

section \<open>The listing\<close>

context bdb_library
begin

text \<open>The keys that a cursor has still to return.\<close>

definition to_come :: "'e bdb_handle \<Rightarrow> 'c \<Rightarrow> DB_key set" where
  "to_come bh c = {k. key_ok k \<and> key_file k = c_file c \<and> bdb_view content bh k \<noteq> None \<and> packed k \<notin> c_seen c}"

lemma view_key_ok: "bdb_view content bh k \<noteq> None \<Longrightarrow> key_ok k"
  by (auto simp: bdb_view_def content_view_def split: if_splits)

lemma to_come_finite: "finite (to_come bh c)"
  by (rule finite_subset [OF _ finite_view_keys [of bh "c_file c"]]) (auto simp: to_come_def)

abbreviation line_of :: "'e bdb_handle \<Rightarrow> DB_key \<Rightarrow> string" where
  "line_of bh k \<equiv> (case bdb_view content bh k of None \<Rightarrow> [] | Some v \<Rightarrow> list_line k (val_gd v))"

end

context bdb_live
begin

lemma cursor_step:
  assumes "bdb_ready content backup bh" and "c_start c = dom (content (bh_env bh) (c_file c))"
  obtains b v c' where "lib_c_next L c (bh_env bh) = (lib_notfound L, b, v, c')" and "to_come bh c = {}"
  | k v c' where "lib_c_next L c (bh_env bh) = (0, packed k, v, c')" and "k \<in> to_come bh c" and "bdb_view content bh k = Some v"
    and "to_come bh c' = to_come bh c - {k}" and "c_file c' = c_file c" and "c_start c' = c_start c"
proof -
  obtain r b v c' where n: "lib_c_next L c (bh_env bh) = (r, b, v, c')" by (metis prod_cases4)
  have r: "r = 0 \<or> r = lib_notfound L" using next_ok [of c "bh_env bh"] n by auto
  show ?thesis
  proof (cases "r = 0")
    case True
    have nx: "content (bh_env bh) (c_file c) b = Some v" "b \<notin> c_seen c" "c_seen c' = insert b (c_seen c)" "c_file c' = c_file c" "c_start c' = c_start c"
      using lib_next [of c "bh_env bh" b v c'] n True by auto
    have wf: "content_wf (content (bh_env bh))" using assms(1) by (simp add: bdb_defs)
    obtain k where k: "key_ok k" "key_file k = c_file c" "b = packed k" using content_wf_view [OF wf nx(1)] by blast
    have v: "bdb_view content bh k = Some v" using k nx(1) by (simp add: view_content)
    have "to_come bh c' = to_come bh c - {k}" using nx(3,4) k packed_inject by (auto simp: to_come_def)
    then show ?thesis using that(2) [of k v c'] n True k nx v by (simp add: to_come_def)
  next
    case False
    then have e: "c_start c \<inter> dom (content (bh_env bh) (c_file c)) \<subseteq> c_seen c" using lib_end [of c "bh_env bh" b v c'] n r by simp
    have "packed k \<in> c_seen c" if "key_ok k" "key_file k = c_file c" "bdb_view content bh k \<noteq> None" for k
      using e assms(2) that view_content [OF that(1), of bh] by auto
    then have "to_come bh c = {}" unfolding to_come_def by blast
    then show ?thesis using that(1) [of b v c'] n r False by simp
  qed
qed

lemma list_loop_spec:
  assumes "bdb_ready content backup bh" and "\<forall>c\<in>set cs. c_start c = dom (content (bh_env bh) (c_file c))" and "distinct (map c_file cs)"
  shows "\<exists>ks. list_loop L bh \<lparr>bc_curr = cs, itr_current = cur\<rparr> out = Some (out @ concat (map (line_of bh) ks)) \<and> distinct ks \<and>
    set ks = (\<Union>c\<in>set cs. to_come bh c)"
  using assms(2,3)
proof (induction cs arbitrary: cur out)
  case Nil
  then show ?case by (subst list_loop.simps) (simp add: Mod_db_itr_next_def)
next
  case (Cons c cs)
  from Cons.prems show ?case
  proof (induction "card (to_come bh c)" arbitrary: c cur out rule: less_induct)
    case less
    have rest: "\<exists>ks. list_loop L bh \<lparr>bc_curr = cs, itr_current = cur\<rparr> out = Some (out @ concat (map (line_of bh) ks)) \<and> distinct ks \<and>
        set ks = (\<Union>c\<in>set cs. to_come bh c)" for cur out using Cons.IH less.prems by simp
    have "c_start c = dom (content (bh_env bh) (c_file c))" using less.prems(1) by simp
    from cursor_step [OF assms(1) this] show ?case
    proof cases
      case (1 b v c')
      have "list_loop L bh \<lparr>bc_curr = c # cs, itr_current = cur\<rparr> out = list_loop L bh \<lparr>bc_curr = cs, itr_current = cur\<rparr> out"
        using 1(1) notfound by (subst (1 2) list_loop.simps) (simp add: Mod_db_itr_next_def)
      then show ?thesis using rest [of cur out] 1(2) by simp
    next
      case (2 k v c')
      have "card (to_come bh c') < card (to_come bh c)" using 2(2,4) to_come_finite [of bh c] by (simp only: card_Diff1_less)
      from less.hyps [OF this, of "cur + 1" "out @ list_line k (val_gd v)"] 2(5,6) less.prems obtain ks where
        ks: "list_loop L bh \<lparr>bc_curr = c' # cs, itr_current = cur + 1\<rparr> (out @ list_line k (val_gd v)) =
            Some ((out @ list_line k (val_gd v)) @ concat (map (line_of bh) ks))" "distinct ks"
          "set ks = to_come bh c' \<union> (\<Union>c\<in>set cs. to_come bh c)" by auto
      have u: "unpack_key (packed k) = Some k" using 2(2) unpack_packed by (simp add: to_come_def)
      have "list_loop L bh \<lparr>bc_curr = c # cs, itr_current = cur\<rparr> out =
          list_loop L bh \<lparr>bc_curr = c' # cs, itr_current = cur + 1\<rparr> (out @ list_line k (val_gd v))"
        using 2(1) u by (subst list_loop.simps) (simp add: Mod_db_itr_next_def greydb_codes)
      moreover have "k \<notin> (\<Union>c\<in>set cs. to_come bh c)" using 2(2) less.prems(2) by (auto simp: to_come_def)
      ultimately show ?thesis using ks 2(2-4) by (intro exI [of _ "k # ks"]) auto
    qed
  qed
qed

lemma db_list_total:
  assumes "bdb_ready content backup bh"
  shows "\<exists>ks. db_list L bh = Some (concat (map (line_of bh) ks)) \<and> distinct ks \<and> set ks = dom (bdb_view content bh)"
proof -
  obtain c1 c2 c3 where c: "open_cursor L bh File_db = Some c1" "open_cursor L bh File_spamtraps = Some c2" "open_cursor L bh File_domains = Some c3"
    using cursor_total [OF assms] by metis
  note o = open_cursor_driver [OF c(1) assms] open_cursor_driver [OF c(2) assms] open_cursor_driver [OF c(3) assms]
  have i: "Mod_db_get_itr L bh (DB_ENTRIES OR DB_SPAMTRAPS OR DB_DOMAINS) = Some \<lparr>bc_curr = [c1, c2, c3], itr_current = - 1\<rparr>"
    using c by (simp add: Mod_db_get_itr_def DB_ENTRIES_def DB_SPAMTRAPS_def DB_DOMAINS_def)
  have "to_come bh c1 \<union> to_come bh c2 \<union> to_come bh c3 = dom (bdb_view content bh)"
  proof -
    have "key_file k \<in> {File_db, File_spamtraps, File_domains}" for k by (cases k) auto
    then show ?thesis using o view_key_ok [of bh] by (auto simp: to_come_def)
  qed
  then show ?thesis
    using list_loop_spec [OF assms, of "[c1, c2, c3]" "- 1" "[]"] o i by (auto simp: db_list_def Un_assoc)
qed

end

section \<open>Properties\<close>

lemma bdb_rollback: "DB_rollback_txn (bdb_driver L check) h \<noteq> None"
  by (auto simp: driver_fields Mod_db_rollback_txn_def Let_def split: prod.splits)

lemma bdb_update:
  assumes "bdb_live L content backup c_file c_start c_seen c_at" and "bdb_ready content backup h" and "bdb_saved backup h = None"
    and "update_key numeric ip type = Some (Some k)" and "NUL \<notin> set ip"
  shows "\<exists>ret h' syncer' packets.
    db_update (bdb_driver L check) numeric hmac inet_addr now h ip action type syncer wexp texp = Some (ret, h', syncer', packets) \<and>
    bdb_ready content backup h' \<and> bdb_saved backup h' = None \<and>
    bdb_view content h' = (bdb_view content h)(k := updated_entry action type now wexp texp (bdb_view content h k)) \<and>
    (ret = 1 \<and> action = ACTION_DEL \<and> bdb_view content h k = None \<and> syncer' = syncer \<and> packets = [] \<or>
     ret = 0 \<and> (syncer', packets) = update_sync hmac inet_addr syncer type ip now
       (case updated_entry action type now wexp texp (bdb_view content h k) of None \<Rightarrow> 0 | Some v \<Rightarrow> gd_expire (val_gd v)) action)"
  using greydb_admin.db_update_total [OF bdb_live.drv_admin [OF assms(1), of check] assms(2-4) update_key_ok [OF assms(4,5)] bdb_rollback] by blast

text \<open>
  What an accepted argument names, the entry an update leaves, field by field, and what the other hosts are told, said without the operations of the tool. A
  host that has no IPv4 address is announced as what \<open>inet_addr\<close> makes of it.
\<close>

definition accepted :: "(u16 \<Rightarrow> string \<Rightarrow> bool) \<Rightarrow> string \<Rightarrow> entry_type \<Rightarrow> DB_key \<Rightarrow> bool" where
  "accepted numeric ip type k \<longleftrightarrow> NUL \<notin> set ip \<and>
     (if type \<in> {TYPE_WHITE, TYPE_TRAPHIT} then numeric (if CHR '':'' \<in> set ip then AF_INET6 else AF_INET) ip \<and> k = KEY_IP ip
      else length ip < GREY_MAX_MAIL \<and>
        (if type = TYPE_SPAMTRAP then CHR ''@'' \<in> set (normal_chars ip) \<and> k = KEY_MAIL (normal_chars ip) else k = KEY_DOM (normal_chars ip)))"

definition entry_written :: "entry_type \<Rightarrow> int \<Rightarrow> int \<Rightarrow> int \<Rightarrow> DB_val option \<Rightarrow> Grey_data" where
  "entry_written type now wexp texp old =
     \<lparr>gd_first = (case old of None \<Rightarrow> now | Some v \<Rightarrow> gd_first (val_gd v)),
      gd_pass = (if type = TYPE_WHITE then now else case old of None \<Rightarrow> 0 | Some v \<Rightarrow> gd_pass (val_gd v)),
      gd_expire = (if type = TYPE_WHITE then now + wexp else if type = TYPE_TRAPHIT then now + texp else 0),
      gd_bcount = (case old of None \<Rightarrow> 1 | Some v \<Rightarrow> gd_bcount (val_gd v)),
      gd_pcount = (if type = TYPE_WHITE then (case old of None \<Rightarrow> 0 | Some v \<Rightarrow> wrap_int (gd_pcount (val_gd v) + 1))
        else if type = TYPE_TRAPHIT then - 1 else if type = TYPE_DOMAIN \<and> old \<noteq> None then - 3 else - 2)\<rparr>"

definition hosts_told :: "(char list \<Rightarrow> char list \<Rightarrow> char list) \<Rightarrow> (string \<Rightarrow> u32) \<Rightarrow> Sync_engine_T option \<Rightarrow> entry_type \<Rightarrow> string \<Rightarrow> int \<Rightarrow> bool
    \<Rightarrow> Sync_engine_T option \<Rightarrow> ((u32 \<times> nat) \<times> char list) list \<Rightarrow> bool" where
  "hosts_told hmac inet_addr syncer type ip expire delete syncer' packets \<longleftrightarrow>
     (if syncer = None \<or> type \<notin> {TYPE_WHITE, TYPE_TRAPHIT} then syncer' = syncer \<and> packets = []
      else \<exists>engine. syncer = Some engine \<and> syncer' = Some (engine\<lparr>sy_sync_counter := wrap_int (sy_sync_counter engine + 1)\<rparr>) \<and>
        map fst packets = sync_destinations engine \<and>
        (\<forall>(dest, pkt)\<in>set packets. announces hmac (sy_sync_key engine) pkt (type = TYPE_TRAPHIT) (inet_ntoa (inet_addr ip)) expire delete))"

lemma accepted_key: "accepted numeric ip type k \<Longrightarrow> update_key numeric ip type = Some (Some k)"
  by (cases type) (auto simp: accepted_def update_key_def IP_check_addr_def AF_INET_def AF_INET6_def normalize_zeroed Let_def split: if_splits)

lemma updated_fields:
  "updated_entry action type now wexp texp old =
     (if action = ACTION_DEL then None else Some (grey_val (entry_written type now wexp texp old)))"
proof (cases old)
  case None
  then show ?thesis by (cases type) (simp_all add: updated_entry_def typed_entry_def zero_gd_def entry_written_def)
next
  case (Some v)
  then show ?thesis by (cases type; cases "val_gd v") (simp_all add: updated_entry_def typed_entry_def entry_written_def)
qed

lemma update_told:
  assumes "\<And>k m. length (hmac k m) = 20" and "update_sync hmac inet_addr syncer type ip now expire action = (syncer', packets)"
  shows "hosts_told hmac inet_addr syncer type ip expire (action = ACTION_DEL) syncer' packets"
proof (cases "syncer = None \<or> type \<notin> {TYPE_WHITE, TYPE_TRAPHIT}")
  case True
  then show ?thesis using assms(2) by (cases syncer; cases type) (simp_all add: hosts_told_def update_sync_def)
next
  case False
  then obtain engine where e: "syncer = Some engine" "type = TYPE_WHITE \<or> type = TYPE_TRAPHIT" by auto
  have t: "apfst Some ((if type = TYPE_TRAPHIT then Sync_trapped else Sync_white) hmac inet_addr engine ip now expire (action = ACTION_DEL)) = (syncer', packets)"
    using assms(2) e by (auto simp: update_sync_def)
  then obtain engine' where s: "syncer' = Some engine'"
      "(if type = TYPE_TRAPHIT then Sync_trapped else Sync_white) hmac inet_addr engine ip now expire (action = ACTION_DEL) = (engine', packets)"
    by (cases "(if type = TYPE_TRAPHIT then Sync_trapped else Sync_white) hmac inet_addr engine ip now expire (action = ACTION_DEL)") simp
  show ?thesis using sync_address_announced [OF assms(1) s(2)] s(1) e by (auto simp: hosts_told_def)
qed

text \<open>
  C36. \<open>greydb -a\<close> and \<open>greydb -d\<close>: an argument that is accepted changes exactly the entry of its key. It is deleted, or written with the
  times and the counts of its type. The tool fails only for the deletion of an entry that does not exist, which changes nothing and is not announced. When it
  succeeds and has a sync engine, each of its hosts, and the multicast group when it sends there, is sent one packet for an address that was white or trapped, which
  a host with the same key turns into the message with that kind, time of expiry and deletion; nothing is sent for spam traps and domains.
\<close>

theorem db_update_exact:
  assumes "bdb_live L content backup c_file c_start c_seen c_at" and "bdb_ready content backup h" and "bdb_saved backup h = None"
    and "accepted numeric ip type k" and "action \<noteq> ACTION_LIST" and "\<And>k m. length (hmac k m) = 20"
  shows "\<exists>ret h' syncer' packets.
    db_update (bdb_driver L check) numeric hmac inet_addr now h ip action type syncer wexp texp = Some (ret, h', syncer', packets) \<and>
    bdb_ready content backup h' \<and> bdb_saved backup h' = None \<and>
    bdb_view content h' = (bdb_view content h)(k :=
      if action = ACTION_DEL then None else Some (grey_val (entry_written type now wexp texp (bdb_view content h k)))) \<and>
    (ret = 1 \<and> action = ACTION_DEL \<and> bdb_view content h k = None \<and> syncer' = syncer \<and> packets = [] \<or>
     ret = 0 \<and> hosts_told hmac inet_addr syncer type ip
       (if action = ACTION_DEL then 0 else gd_expire (entry_written type now wexp texp (bdb_view content h k))) (action = ACTION_DEL) syncer' packets)"
proof -
  let ?old = "bdb_view content h k"
  let ?new = "if action = ACTION_DEL then None else Some (grey_val (entry_written type now wexp texp ?old))"
  have "NUL \<notin> set ip" using assms(4) by (simp add: accepted_def)
  from bdb_update [OF assms(1-3) accepted_key [OF assms(4)] this, of check hmac inet_addr now action syncer wexp texp]
  obtain ret h' syncer' packets where
    u: "db_update (bdb_driver L check) numeric hmac inet_addr now h ip action type syncer wexp texp = Some (ret, h', syncer', packets)"
      "bdb_ready content backup h'" "bdb_saved backup h' = None" "bdb_view content h' = (bdb_view content h)(k := ?new)"
    and r: "ret = 1 \<and> action = ACTION_DEL \<and> ?old = None \<and> syncer' = syncer \<and> packets = [] \<or>
      ret = 0 \<and> update_sync hmac inet_addr syncer type ip now (case ?new of None \<Rightarrow> 0 | Some v \<Rightarrow> gd_expire (val_gd v)) action = (syncer', packets)"
    unfolding updated_fields by metis
  have e: "(case ?new of None \<Rightarrow> 0 | Some v \<Rightarrow> gd_expire (val_gd v)) =
      (if action = ACTION_DEL then 0 else gd_expire (entry_written type now wexp texp ?old))" by (simp add: grey_val_def)
  have "hosts_told hmac inet_addr syncer type ip (if action = ACTION_DEL then 0 else gd_expire (entry_written type now wexp texp ?old))
      (action = ACTION_DEL) syncer' packets" if "ret = 0" using r that update_told [OF assms(6)] unfolding e by simp
  then show ?thesis using u r by blast
qed

lemma example_handle:
  "bdb_ready mem_content mem_backup_content ((mem_handle [])\<lparr>bh_open := True\<rparr>)"
  "bdb_saved mem_backup_content ((mem_handle [])\<lparr>bh_open := True\<rparr>) = None"
  "bdb_view mem_content ((mem_handle [])\<lparr>bh_open := True\<rparr>) = (\<lambda>k. None)"
  using example_greylister_empty by (simp_all add: example_greylister_def bdb_defs)

text \<open>C36 for a white address on an empty database and an engine with one host.\<close>

theorem db_update_exact_witness:
  "\<exists>h' syncer' packets. db_update (bdb_driver mem_lib (\<lambda>s. 2)) (\<lambda>af s. True) example_hmac (\<lambda>s. 0) 1000 ((mem_handle [])\<lparr>bh_open := True\<rparr>) ''192.0.2.1''
       ACTION_ADD TYPE_WHITE (Some example_engine) 500 300 = Some (0, h', syncer', packets) \<and>
     bdb_view mem_content h' (KEY_IP ''192.0.2.1'') =
       Some (grey_val \<lparr>gd_first = 1000, gd_pass = 1000, gd_expire = 1500, gd_bcount = 1, gd_pcount = 0\<rparr>) \<and>
     map fst packets = [(0xC0000202, 8025)]"
proof -
  have "accepted (\<lambda>af s. True) ''192.0.2.1'' TYPE_WHITE (KEY_IP ''192.0.2.1'')" by (simp add: accepted_def NUL_def)
  from db_update_exact [OF mem.bdb_live_axioms example_handle(1,2) this, where action = ACTION_ADD and hmac = example_hmac and check = "\<lambda>s. 2"
      and inet_addr = "\<lambda>s. 0" and now = 1000 and syncer = "Some example_engine" and wexp = 500 and texp = 300, OF _ example_hmac_length]
  show ?thesis by (fastforce simp: entry_written_def example_handle(3) hosts_told_def sync_destinations_def example_engine_def)
qed

text \<open>
  C37. The listing is complete: \<open>greydb\<close> without options ends and prints exactly one line for every entry of
  the database, with the fields of its kind.
\<close>

theorem db_list_exact:
  assumes "bdb_live L content backup c_file c_start c_seen c_at" and "bdb_ready content backup bh"
  shows "\<exists>ks. db_list L bh = Some (concat (map (\<lambda>k. case bdb_view content bh k of None \<Rightarrow> [] | Some v \<Rightarrow> list_line k (val_gd v)) ks)) \<and>
    distinct ks \<and> set ks = dom (bdb_view content bh)"
  by (rule bdb_live.db_list_total [OF assms])

text \<open>C37 for a database with one spam trap.\<close>

theorem db_list_exact_witness:
  "db_list mem_lib ((mem_handle [(KEY_MAIL ''a@b'', grey_val (zero_gd\<lparr>gd_pcount := - 2\<rparr>))])\<lparr>bh_open := True\<rparr>) =
     Some (''SPAMTRAP|a@b'' @ [CHR 0x0A])"
proof -
  let ?kvs = "[(KEY_MAIL ''a@b'', grey_val (zero_gd\<lparr>gd_pcount := - 2\<rparr>))]"
  have kv: "\<forall>(k, v)\<in>set ?kvs. key_ok k \<and> val_type v = DB_VAL_GREY" by (simp add: NUL_def grey_val_def)
  have r: "bdb_ready mem_content mem_backup_content ((mem_handle ?kvs)\<lparr>bh_open := True\<rparr>)"
    using mem_handle_inv [of ?kvs] kv by (simp add: bdb_defs)
  have v: "bdb_view mem_content ((mem_handle ?kvs)\<lparr>bh_open := True\<rparr>) = [KEY_MAIL ''a@b'' \<mapsto> grey_val (zero_gd\<lparr>gd_pcount := - 2\<rparr>)]"
  proof
    fix k
    show "bdb_view mem_content ((mem_handle ?kvs)\<lparr>bh_open := True\<rparr>) k = [KEY_MAIL ''a@b'' \<mapsto> grey_val (zero_gd\<lparr>gd_pcount := - 2\<rparr>)] k"
      using mem_handle_view [of ?kvs k] kv by (cases "key_ok k") (auto simp: bdb_view_def content_view_def)
  qed
  obtain ks where ks: "db_list mem_lib ((mem_handle ?kvs)\<lparr>bh_open := True\<rparr>) =
      Some (concat (map (\<lambda>k. case [KEY_MAIL ''a@b'' \<mapsto> grey_val (zero_gd\<lparr>gd_pcount := - 2\<rparr>)] k of None \<Rightarrow> [] | Some v \<Rightarrow> list_line k (val_gd v)) ks))"
      "distinct ks" "set ks = {KEY_MAIL ''a@b''}"
    using db_list_exact [OF mem.bdb_live_axioms r] unfolding v by auto
  then have "ks = [KEY_MAIL ''a@b'']" by (cases ks) (auto simp: subset_singleton_iff)
  then show ?thesis using ks(1) by (simp add: grey_val_def bars_def)
qed

text \<open>
  C35. A spam trap that is added catches: after \<open>greydb -T -a\<close> with an address, in whatever case and
  with or without angle brackets, the greylister traps every client that wants to send to it, whatever
  was known of the client before.
\<close>

theorem spamtrap_catches:
  assumes "bdb_live L content backup c_file c_start c_seen c_at" and "bdb_ready content backup h" and "bdb_saved backup h = None"
    and "NUL \<notin> set addr" and "length addr < GREY_MAX_MAIL" and "CHR ''@'' \<in> set (normal_chars addr)"
    and "List_wf (gl_domains g)" and "Config_get_int (gl_config g) ''db_permitted_domains'' (Some ''grey'') 0 = Some dbp"
    and "key_ok (KEY_TUPLE gt)" and "gt_to gt = normal_chars addr"
  shows "\<exists>h' g' v.
    db_update (bdb_driver L check) numeric hmac inet_addr now h addr ACTION_ADD TYPE_SPAMTRAP syncer wexp texp = Some (0, h', syncer, []) \<and>
    process_grey (bdb_driver L check) None (g\<lparr>gl_db := h'\<rparr>) gt sync dst_ip now' = Some g' \<and>
    bdb_saved backup (gl_db g') = None \<and> bdb_view content (gl_db g') (KEY_IP (gt_ip gt)) = Some v \<and> gd_pcount (val_gd v) = - 1"
proof -
  have k: "update_key numeric addr TYPE_SPAMTRAP = Some (Some (KEY_MAIL (normal_chars addr)))"
    unfolding update_key_def Let_def normalize_zeroed [OF assms(4,5)] using assms(6) by simp
  obtain h' where u: "db_update (bdb_driver L check) numeric hmac inet_addr now h addr ACTION_ADD TYPE_SPAMTRAP syncer wexp texp = Some (0, h', syncer, [])"
      "bdb_ready content backup h'" "bdb_saved backup h' = None" "bdb_view content h' (KEY_MAIL (normal_chars addr)) \<noteq> None"
  proof -
    have y: "update_sync hmac inet_addr syncer TYPE_SPAMTRAP addr now e ACTION_ADD = (syncer, [])" for e
      by (cases syncer) (simp_all add: update_sync_def)
    show ?thesis
      using bdb_update [OF assms(1-3) k assms(4), of check hmac inet_addr now ACTION_ADD syncer wexp texp] that
      unfolding y by (auto simp: updated_entry_def)
  qed
  let ?g = "g\<lparr>gl_db := h'\<rparr>"
  have tr: "True = trap_addr (list_head (gl_domains ?g)) (dbp \<noteq> 0) (bdb_view content (gl_db ?g)) (gt_to gt)"
    using u(4) assms(10) by (simp add: trap_addr_def)
  obtain v where v: "(KEY_IP (gt_ip gt), v) = grey_entry ?g gt sync dst_ip now' True (if True then gl_trap_exp ?g else gl_grey_exp ?g)
      (if True then KEY_IP (gt_ip gt) else KEY_TUPLE gt) (bdb_view content (gl_db ?g))" "gd_pcount (val_gd v) = - 1"
    by (cases "bdb_view content h' (KEY_IP (gt_ip gt))") (simp_all add: grey_entry_def grey_val_def Let_def)
  have inv: "bdb_inv content backup (gl_db ?g)" "bdb_saved backup (gl_db ?g) = None" "List_wf (gl_domains ?g)"
      "Config_get_int (gl_config ?g) ''db_permitted_domains'' (Some ''grey'') 0 = Some dbp"
    using u(2,3) assms(7,8) by (simp_all add: bdb_ready_def)
  from greydb_live.process_grey_total [OF bdb_live.drv_live [OF assms(1), of check] inv(1,2) assms(9) inv(3,4) tr v(1)]
  show ?thesis using u(1) v(2) by fastforce
qed

text \<open>C35 for a trap in capitals.\<close>

theorem spamtrap_catches_witness:
  "\<exists>h' g'. db_update (bdb_driver mem_lib (\<lambda>s. 2)) (\<lambda>af s. True) example_hmac (\<lambda>s. 0) 1000 ((mem_handle [])\<lparr>bh_open := True\<rparr>) ''<TRAP@b>'' ACTION_ADD
       TYPE_SPAMTRAP None 500 300 = Some (0, h', None, []) \<and>
     process_grey (bdb_driver mem_lib (\<lambda>s. 2)) None ((example_greylister [])\<lparr>gl_db := h'\<rparr>) (example_tuple\<lparr>gt_to := ''trap@b''\<rparr>) True [] 2000 = Some g'"
proof -
  have n: "normal_chars ''<TRAP@b>'' = ''trap@b''" by code_simp
  have g: "List_wf (gl_domains (example_greylister []))"
      "Config_get_int (gl_config (example_greylister [])) ''db_permitted_domains'' (Some ''grey'') 0 = Some 0"
    by (simp_all add: example_greylister_def List_create_def List_wf_def)
  have t: "key_ok (KEY_TUPLE (example_tuple\<lparr>gt_to := ''trap@b''\<rparr>))" "gt_to (example_tuple\<lparr>gt_to := ''trap@b''\<rparr>) = normal_chars ''<TRAP@b>''"
    using example_tuple_ok by (simp_all add: NUL_def n)
  from spamtrap_catches [OF mem.bdb_live_axioms example_handle(1,2) _ _ _ g t, where check = "\<lambda>s. 2" and numeric = "\<lambda>af s. True"
      and hmac = example_hmac and inet_addr = "\<lambda>s. 0" and now = 1000 and syncer = None and wexp = 500 and texp = 300 and sync = True and dst_ip = "[]" and now' = 2000]
  show ?thesis by (fastforce simp: NUL_def GREY_MAX_MAIL_def n)
qed

end
