(* ===== verification/Grey_Runs.thy ===== *)
theory Grey_Runs
  imports Greylisting
begin

text \<open>
  The greylister over time: the messages that its reader handles and the scans of its scanner
  (\<open>Grey_start_scanner\<close> of \<open>src/src/grey.c\<close>), in any order, each in a transaction of its own, and the
  promise of greylisting as an invariant of all such runs: no address is whitelisted that has not retried,
  unless a white message named it.
\<close>

section \<open>Runs\<close>

text \<open>
  The reader and the scanner are two processes that share the database and nothing else that either reads
  here: the reader uses the setup of the greylister and its synchronisation, the scanner the setup, the scan
  lists and the two streams. One greylister therefore stands for both.
\<close>

datatype grey_event = Grey_message Grey_tuple bool string int
  | Non_grey_message bool string string string bool bool int
  | Scan_at int

definition run_event :: "'h DB_handle_T \<Rightarrow> (string \<Rightarrow> int) \<Rightarrow> 'h Greylister_T \<Rightarrow> grey_event \<Rightarrow> 'h Greylister_T option" where
  "run_event D check g ev =
     (case ev of
        Grey_message gt sync dst_ip now \<Rightarrow> process_grey D None g gt sync dst_ip now
      | Non_grey_message spamtrap ip source expires sync delete now \<Rightarrow>
          process_non_grey D g spamtrap ip source expires sync delete now
      | Scan_at now \<Rightarrow> map_option snd (Grey_scan_db D check g now))"

definition run_events :: "'h DB_handle_T \<Rightarrow> (string \<Rightarrow> int) \<Rightarrow> 'h Greylister_T \<Rightarrow> grey_event list \<Rightarrow> 'h Greylister_T option" where
  "run_events D check = fold_opt (run_event D check)"

definition event_ok :: "grey_event \<Rightarrow> bool" where
  "event_ok ev \<longleftrightarrow> (case ev of Grey_message gt sync dst_ip now \<Rightarrow> key_ok (KEY_TUPLE gt)
     | Non_grey_message spamtrap ip source expires sync delete now \<Rightarrow> key_ok (KEY_IP ip) | Scan_at now \<Rightarrow> True)"

text \<open>Two messages of one tuple, in this order, the second after the pass time.\<close>

definition tuple_retried :: "int \<Rightarrow> grey_event list \<Rightarrow> Grey_tuple \<Rightarrow> bool" where
  "tuple_retried pass_time evs gt \<longleftrightarrow> (\<exists>us sync0 dst0 t0 vs sync1 dst1 t1 ws.
     evs = us @ Grey_message gt sync0 dst0 t0 # vs @ Grey_message gt sync1 dst1 t1 # ws \<and> t0 + pass_time < t1)"

definition address_retried :: "int \<Rightarrow> grey_event list \<Rightarrow> string \<Rightarrow> bool" where
  "address_retried pass_time evs ip \<longleftrightarrow> (\<exists>gt. gt_ip gt = ip \<and> tuple_retried pass_time evs gt)"

text \<open>A white message for the address, from the log watcher or a synchronised host.\<close>

definition told_white :: "grey_event list \<Rightarrow> string \<Rightarrow> bool" where
  "told_white evs ip \<longleftrightarrow> (\<exists>source expires sync now. Non_grey_message False ip source expires sync False now \<in> set evs)"

definition address_earned :: "int \<Rightarrow> grey_event list \<Rightarrow> string \<Rightarrow> bool" where
  "address_earned pass_time evs ip \<longleftrightarrow> address_retried pass_time evs ip \<or> told_white evs ip"

lemma tuple_retried_append: "tuple_retried p evs gt \<Longrightarrow> tuple_retried p (evs @ later) gt"
  unfolding tuple_retried_def by force

lemma address_earned_append: "address_earned p evs ip \<Longrightarrow> address_earned p (evs @ later) ip"
  unfolding address_earned_def address_retried_def told_white_def using tuple_retried_append by fastforce

lemma retried_now:
  assumes "Grey_message gt sync0 dst0 t0 \<in> set evs" and "t0 + p < t1"
  shows "tuple_retried p (evs @ [Grey_message gt sync1 dst1 t1]) gt"
  using split_list [OF assms(1)] assms(2) unfolding tuple_retried_def by fastforce

section \<open>What the entries say of the past\<close>

text \<open>
  The entry of a tuple is as old as a message of the tuple, and passes only when the tuple has retried;
  an address whose entry is not a trap has retried or is the subject of a white message.
\<close>

definition tuple_history :: "int \<Rightarrow> grey_event list \<Rightarrow> db_view \<Rightarrow> bool" where
  "tuple_history p evs m \<longleftrightarrow> (\<forall>gt v. m (KEY_TUPLE gt) = Some v \<longrightarrow>
     (\<exists>sync dst. Grey_message gt sync dst (gd_first (val_gd v)) \<in> set evs) \<and>
     (gd_pass (val_gd v) = gd_expire (val_gd v) \<or> tuple_retried p evs gt))"

definition address_history :: "int \<Rightarrow> grey_event list \<Rightarrow> db_view \<Rightarrow> bool" where
  "address_history p evs m \<longleftrightarrow> (\<forall>ip v. m (KEY_IP ip) = Some v \<longrightarrow> 0 \<le> gd_pcount (val_gd v) \<longrightarrow> address_earned p evs ip)"

lemma history_white:
  assumes "tuple_history p evs m" and "address_history p evs m" and "ip_passes now m ip \<or> ip_white now m ip"
  shows "address_earned p evs ip"
  using assms(3)
proof
  assume "ip_passes now m ip"
  then obtain gt v where v: "m (KEY_TUPLE gt) = Some v" "gt_ip gt = ip" "val_passes now v" by (auto simp: ip_passes_def)
  then have "gd_pass (val_gd v) \<noteq> gd_expire (val_gd v)" by (auto simp: val_passes_def val_expired_def)
  then show ?thesis using assms(1) v(1,2) by (auto simp: tuple_history_def address_earned_def address_retried_def)
next
  assume "ip_white now m ip"
  then show ?thesis using assms(2) by (auto simp: ip_white_def val_passes_def address_history_def)
qed

lemma history_scan:
  assumes "tuple_history p evs m" and "address_history p evs m" and "scan_spec now wexp m m' A T"
  shows "tuple_history p (evs @ [Scan_at now]) m'" and "address_history p (evs @ [Scan_at now]) m'"
    and "ip \<in> A \<Longrightarrow> address_earned p evs ip"
proof -
  show white: "address_earned p evs ip" if "ip \<in> A" for ip
    using scan_specD(2) [OF assms(3) that] history_white [OF assms(1,2)] by blast
  have "m' (KEY_TUPLE gt) = Some v \<Longrightarrow> m (KEY_TUPLE gt) = Some v" for gt v
    using scan_specD(5) [OF assms(3), of gt] by auto
  then show "tuple_history p (evs @ [Scan_at now]) m'"
    using assms(1) tuple_retried_append unfolding tuple_history_def by fastforce
  have "address_earned p evs s" if "m' (KEY_IP s) = Some v" "0 \<le> gd_pcount (val_gd v)" for s v
    using scan_specD(4) [OF assms(3), of s]
  proof (elim disjE)
    assume "m' (KEY_IP s) = m (KEY_IP s)"
    then show ?thesis using that assms(2) unfolding address_history_def by metis
  qed (use that white in auto)
  then show "address_history p (evs @ [Scan_at now]) m'"
    using address_earned_append unfolding address_history_def by blast
qed

lemma history_message:
  assumes "tuple_history (gl_pass_time g) evs m" and "address_history (gl_pass_time g) evs m"
    and "(k, v) = grey_entry g gt sync dst_ip now tr e (if tr then KEY_IP (gt_ip gt) else KEY_TUPLE gt) m"
  shows "tuple_history (gl_pass_time g) (evs @ [Grey_message gt sync dst_ip now]) (m(k \<mapsto> v))"
    and "address_history (gl_pass_time g) (evs @ [Grey_message gt sync dst_ip now]) (m(k \<mapsto> v))"
proof -
  let ?p = "gl_pass_time g" and ?ev = "Grey_message gt sync dst_ip now"
  have ip: "gd_pcount (val_gd v) = - 1" if "k = KEY_IP s" for s
    using that assms(3) by (auto simp: grey_entry_def Let_def grey_val_def split: option.splits if_splits)
  show "address_history ?p (evs @ [?ev]) (m(k \<mapsto> v))"
    using assms(2) address_earned_append ip unfolding address_history_def by auto
  have tup: "gt' = gt \<and> (\<exists>sync dst. Grey_message gt sync dst (gd_first (val_gd v)) \<in> set (evs @ [?ev])) \<and>
      (gd_pass (val_gd v) = gd_expire (val_gd v) \<or> tuple_retried ?p (evs @ [?ev]) gt)" if k: "k = KEY_TUPLE gt'" for gt'
  proof (cases "m (KEY_TUPLE gt)")
    case None
    then show ?thesis using k assms(3) by (auto simp: grey_entry_def Let_def grey_val_def split: option.splits if_splits)
  next
    case (Some w)
    have v: "gt' = gt" "gd_first (val_gd v) = gd_first (val_gd w)" "gd_expire (val_gd v) = gd_expire (val_gd w)"
        "gd_pass (val_gd v) = (if gd_first (val_gd w) + ?p < now then now else gd_pass (val_gd w))"
      using k assms(3) Some by (auto simp: grey_entry_def Let_def split: option.splits if_splits)
    obtain s d where w: "Grey_message gt s d (gd_first (val_gd w)) \<in> set evs"
        "gd_pass (val_gd w) = gd_expire (val_gd w) \<or> tuple_retried ?p evs gt"
      using assms(1) Some unfolding tuple_history_def by blast
    then show ?thesis using v retried_now [OF w(1), of ?p now sync dst_ip] tuple_retried_append by auto
  qed
  show "tuple_history ?p (evs @ [?ev]) (m(k \<mapsto> v))"
  proof -
    have "(\<exists>sync dst. Grey_message gt' sync dst (gd_first (val_gd v')) \<in> set (evs @ [?ev])) \<and>
        (gd_pass (val_gd v') = gd_expire (val_gd v') \<or> tuple_retried ?p (evs @ [?ev]) gt')"
      if "(m(k \<mapsto> v)) (KEY_TUPLE gt') = Some v'" for gt' v'
    proof (cases "k = KEY_TUPLE gt'")
      case True
      then show ?thesis using tup [OF True] that by auto
    next
      case False
      then have "m (KEY_TUPLE gt') = Some v'" using that by simp
      then show ?thesis using assms(1) tuple_retried_append unfolding tuple_history_def by fastforce
    qed
    then show ?thesis unfolding tuple_history_def by blast
  qed
qed

lemma history_non_grey:
  assumes "tuple_history p evs m" and "address_history p evs m" and "delete \<or> expires_ok expires"
  shows "tuple_history p (evs @ [Non_grey_message spamtrap ip source expires sync delete now])
      (m(KEY_IP ip := non_grey_entry spamtrap e delete now (m (KEY_IP ip))))"
    and "address_history p (evs @ [Non_grey_message spamtrap ip source expires sync delete now])
      (m(KEY_IP ip := non_grey_entry spamtrap e delete now (m (KEY_IP ip))))"
proof -
  let ?ev = "Non_grey_message spamtrap ip source expires sync delete now"
  show "tuple_history p (evs @ [?ev]) (m(KEY_IP ip := non_grey_entry spamtrap e delete now (m (KEY_IP ip))))"
    using assms(1) tuple_retried_append unfolding tuple_history_def by fastforce
  have "address_earned p (evs @ [?ev]) ip"
    if "non_grey_entry spamtrap e delete now (m (KEY_IP ip)) = Some v" "0 \<le> gd_pcount (val_gd v)" for v
  proof -
    have "\<not> delete" "\<not> spamtrap" using that by (auto simp: non_grey_entry_def grey_val_def split: option.splits if_splits)
    then show ?thesis by (auto simp: address_earned_def told_white_def)
  qed
  then show "address_history p (evs @ [?ev]) (m(KEY_IP ip := non_grey_entry spamtrap e delete now (m (KEY_IP ip))))"
    using assms(2) address_earned_append unfolding address_history_def by auto
qed

lemma history_ignored:
  assumes "tuple_history p evs m" and "address_history p evs m"
  shows "tuple_history p (evs @ [ev]) m" and "address_history p (evs @ [ev]) m"
  using assms tuple_retried_append address_earned_append unfolding tuple_history_def address_history_def by fastforce+

section \<open>Every run\<close>

text \<open>A scan leaves the setup of the greylister and its lists ready for the next.\<close>

lemma List_remove_all_create [simp]: "snd (List_remove_all l) = List_create"
  by (cases l) (simp add: List_remove_all_def List_create_def)

definition same_times :: "'h Greylister_T \<Rightarrow> 'h Greylister_T \<Rightarrow> bool" where
  "same_times g' g \<longleftrightarrow> gl_config g' = gl_config g \<and> gl_domains g' = gl_domains g \<and> gl_pass_time g' = gl_pass_time g \<and>
     gl_white_exp g' = gl_white_exp g"

lemma same_times_setup: "same_setup g' g \<Longrightarrow> same_times g' g"
  by (simp add: same_times_def same_setup_fields)

lemma same_times_trans: "same_times g2 g1 \<Longrightarrow> same_times g1 g \<Longrightarrow> same_times g2 g"
  by (simp add: same_times_def)

lemma update_firewall_fields:
  "gl_config (update_firewall g af) = gl_config g" "gl_domains (update_firewall g af) = gl_domains g"
  "gl_pass_time (update_firewall g af) = gl_pass_time g" "gl_white_exp (update_firewall g af) = gl_white_exp g"
  "gl_trap_out (update_firewall g af) = gl_trap_out g" "gl_fw_out (update_firewall g af) = None \<longleftrightarrow> gl_fw_out g = None"
  by (simp_all add: update_firewall_def Let_def split: option.split)

lemma clear_lists_idle:
  "scanner_idle (clear_lists g) \<longleftrightarrow> 0 < gl_white_exp g \<and> gl_trap_out g \<noteq> None \<and> gl_fw_out g \<noteq> None \<and>
     Config_get_int (gl_config g) ''enable_ipv6'' None 0 \<noteq> None"
  "same_times (clear_lists g) g' = same_times g g'" "gl_trap_out (clear_lists g) = gl_trap_out g"
  by (simp_all add: scanner_idle_def clear_lists_def same_times_def)

lemma Grey_scan_db_idle:
  assumes "scanner_idle g" and "Grey_scan_db D check g now = Some (0, g')" and "gl_trap_out g' \<noteq> None"
  shows "scanner_idle g' \<and> same_times g' g"
proof -
  obtain g1 :: "'a Greylister_T" where g1: "g' = clear_lists g1" "same_times g1 g" "gl_white_exp g1 = gl_white_exp g"
      "gl_fw_out g1 \<noteq> None"
    using assms(1,2)
    by (auto simp: Grey_scan_db_def Let_def Option.bind_eq_Some_conv same_times_def update_firewall_fields scanner_idle_def
        simp del: not_None_eq split: if_splits)
  then show ?thesis using assms(1,3) by (simp add: clear_lists_idle) (simp add: scanner_idle_def same_times_def)
qed

text \<open>The setup a run starts from and keeps.\<close>

definition run_setup :: "'h Greylister_T \<Rightarrow> bool" where
  "run_setup g \<longleftrightarrow> scanner_idle g \<and> List_wf (gl_domains g) \<and>
     Config_get_int (gl_config g) ''db_permitted_domains'' (Some ''grey'') 0 \<noteq> None"

lemma run_setup_keep: "run_setup g \<Longrightarrow> scanner_idle g' \<Longrightarrow> same_times g' g \<Longrightarrow> run_setup g'"
  by (simp add: run_setup_def same_times_def)

context greydb_live
begin

lemma run_event_step:
  assumes "inv (gl_db g)" and "saved (gl_db g) = None" and "run_setup g" and "event_ok ev"
    and "tuple_history (gl_pass_time g) evs (view (gl_db g))" and "address_history (gl_pass_time g) evs (view (gl_db g))"
    and ok_all: "\<And>k. key_ok k \<Longrightarrow> ok k" and scan_all: "\<And>now m. scannable now m"
  shows "\<exists>g'. run_event D check g ev = Some g' \<and> inv (gl_db g') \<and> saved (gl_db g') = None \<and> run_setup g' \<and> same_times g' g \<and>
    tuple_history (gl_pass_time g) (evs @ [ev]) (view (gl_db g')) \<and> address_history (gl_pass_time g) (evs @ [ev]) (view (gl_db g'))"
proof (cases ev)
  case (Grey_message gt sync dst_ip now)
  obtain dbp where dbp: "Config_get_int (gl_config g) ''db_permitted_domains'' (Some ''grey'') 0 = Some dbp" "List_wf (gl_domains g)"
    using assms(3) by (auto simp: run_setup_def)
  define tr where "tr = trap_addr (list_head (gl_domains g)) (dbp \<noteq> 0) (view (gl_db g)) (gt_to gt)"
  obtain k v where kv: "(k, v) = grey_entry g gt sync dst_ip now tr (if tr then gl_trap_exp g else gl_grey_exp g)
      (if tr then KEY_IP (gt_ip gt) else KEY_TUPLE gt) (view (gl_db g))" by (metis surj_pair)
  have "ok (KEY_TUPLE gt)" using ok_all assms(4) Grey_message by (simp add: event_ok_def)
  from process_grey_total [OF assms(1,2) this dbp(2,1) tr_def kv] obtain g' where
    g': "process_grey D None g gt sync dst_ip now = Some g'" "ready (gl_db g')" "saved (gl_db g') = None" "same_setup g' g"
      "view (gl_db g') = (view (gl_db g))(k \<mapsto> v)" by blast
  show ?thesis
    using g' history_message [OF assms(5,6) kv] ready_inv same_times_setup [OF g'(4)] scanner_idle_same [OF g'(4)] assms(3)
      run_setup_keep [of g g'] Grey_message by (auto simp: run_event_def run_setup_def)
next
  case (Non_grey_message spamtrap ip source expires sync delete now)
  have ok: "ok (KEY_IP ip)" using ok_all assms(4) Non_grey_message by (simp add: event_ok_def)
  show ?thesis
  proof (cases "delete \<or> expires_ok expires")
    case True
    from process_non_grey_total [OF assms(1,2) ok True, of spamtrap source sync now] obtain g' where
      g': "process_non_grey D g spamtrap ip source expires sync delete now = Some g'" "ready (gl_db g')" "saved (gl_db g') = None"
        "same_setup g' g" "view (gl_db g') = (view (gl_db g))(KEY_IP ip :=
           non_grey_entry spamtrap (fst (strtol expires)) delete now (view (gl_db g) (KEY_IP ip)))" by blast
    show ?thesis
      using g' history_non_grey [OF assms(5,6) True] ready_inv same_times_setup [OF g'(4)] scanner_idle_same [OF g'(4)] assms(3)
        run_setup_keep [of g g'] Non_grey_message by (auto simp: run_event_def run_setup_def)
  next
    case False
    then have "process_non_grey D g spamtrap ip source expires sync delete now = Some g"
      using strtol_range [of expires] by (cases "strtol expires") (auto simp: process_non_grey_def expires_ok_def)
    then show ?thesis
      using assms(1-3) history_ignored [OF assms(5,6)] Non_grey_message by (simp add: run_event_def same_times_def)
  qed
next
  case (Scan_at now)
  have idle: "scanner_idle g" using assms(3) by (simp add: run_setup_def)
  obtain tout fout e6 where o: "gl_trap_out g = Some tout" "gl_fw_out g = Some fout"
    "Config_get_int (gl_config g) ''enable_ipv6'' None 0 = Some e6" using idle by (auto simp: scanner_idle_def)
  have l: "0 < gl_white_exp g" "list_head (gl_whitelist g) = []" "list_head (gl_whitelist_ipv6 g) = []" "list_head (gl_traplist g) = []"
    "List_wf (gl_whitelist g)" "List_wf (gl_whitelist_ipv6 g)" "List_wf (gl_traplist g)"
    using idle by (auto simp: scanner_idle_def List_create_def List_wf_def)
  from Grey_scan_db_total [OF assms(1,2) l o(3,1,2) scan_all, of check now] obtain g' A T where
    g': "Grey_scan_db D check g now = Some (0, g')" "ready (gl_db g')" "saved (gl_db g') = None"
      "scan_spec now (gl_white_exp g) (view (gl_db g)) (view (gl_db g')) (set A) (set T)" "gl_trap_out g' \<noteq> None" by blast
  show ?thesis
    using g' history_scan [OF assms(5,6) g'(4)] ready_inv Grey_scan_db_idle [OF idle g'(1,5)] run_setup_keep [OF assms(3), of g'] Scan_at
    by (auto simp: run_event_def)
qed

lemma run_events_total:
  assumes "inv (gl_db g)" and "saved (gl_db g) = None" and "run_setup g" and "\<forall>ev\<in>set evs. event_ok ev"
    and "tuple_history (gl_pass_time g) [] (view (gl_db g))" and "address_history (gl_pass_time g) [] (view (gl_db g))"
    and ok_all: "\<And>k. key_ok k \<Longrightarrow> ok k" and scan_all: "\<And>now m. scannable now m"
  shows "\<exists>g'. run_events D check g evs = Some g' \<and> inv (gl_db g') \<and> saved (gl_db g') = None \<and> run_setup g' \<and> same_times g' g \<and>
    tuple_history (gl_pass_time g) evs (view (gl_db g')) \<and> address_history (gl_pass_time g) evs (view (gl_db g'))"
  using assms(4)
proof (induction evs rule: rev_induct)
  case Nil
  then show ?case using assms by (auto simp: run_events_def same_times_def)
next
  case (snoc ev evs)
  then obtain g1 where g1: "run_events D check g evs = Some g1" "inv (gl_db g1)" "saved (gl_db g1) = None" "run_setup g1" "same_times g1 g"
    "tuple_history (gl_pass_time g) evs (view (gl_db g1))" "address_history (gl_pass_time g) evs (view (gl_db g1))" by auto
  have p: "gl_pass_time g1 = gl_pass_time g" using g1(5) by (simp add: same_times_def)
  have "event_ok ev" using snoc.prems by simp
  from run_event_step [OF g1(2-4) this g1(6,7) [folded p] ok_all scan_all] show ?case
    using g1(1) p same_times_trans [OF _ g1(5)] by (auto simp: run_events_def fold_opt_append)
qed

lemma scan_told:
  assumes "inv (gl_db g)" and "saved (gl_db g) = None" and "run_setup g"
    and "tuple_history p evs (view (gl_db g))" and "address_history p evs (view (gl_db g))"
    and scan_all: "\<And>now m. scannable now m"
  shows "\<exists>g' out A. Grey_scan_db D check g now = Some (0, g') \<and> gl_fw_out g = Some out \<and>
    gl_fw_out g' = Some (out @
      (let ips = filter (\<lambda>s. \<not> v6 s) A in if ips = [] then [] else replace_text (gl_whitelist_name g) AF_INET ips) @
      (let ips = filter v6 A in if ips = [] \<or> Config_get_int (gl_config g) ''enable_ipv6'' None 0 = Some 0
         then [] else replace_text (gl_whitelist_name_ipv6 g) AF_INET6 ips)) \<and>
    (\<forall>s\<in>set A. address_earned p evs s)"
proof -
  have idle: "scanner_idle g" using assms(3) by (simp add: run_setup_def)
  obtain tout fout e6 where o: "gl_trap_out g = Some tout" "gl_fw_out g = Some fout"
    "Config_get_int (gl_config g) ''enable_ipv6'' None 0 = Some e6" using idle by (auto simp: scanner_idle_def)
  have l: "0 < gl_white_exp g" "list_head (gl_whitelist g) = []" "list_head (gl_whitelist_ipv6 g) = []" "list_head (gl_traplist g) = []"
    "List_wf (gl_whitelist g)" "List_wf (gl_whitelist_ipv6 g)" "List_wf (gl_traplist g)"
    using idle by (auto simp: scanner_idle_def List_create_def List_wf_def)
  from Grey_scan_db_total [OF assms(1,2) l o(3,1,2) scan_all, of check now] obtain g' A T where
    g': "Grey_scan_db D check g now = Some (0, g')"
      "scan_spec now (gl_white_exp g) (view (gl_db g)) (view (gl_db g')) (set A) (set T)"
      "gl_fw_out g' = Some (fout @
        (let ips = filter (\<lambda>s. \<not> v6 s) A in if ips = [] then [] else replace_text (gl_whitelist_name g) AF_INET ips) @
        (let ips = filter v6 A in if ips = [] \<or> e6 = 0 then [] else replace_text (gl_whitelist_name_ipv6 g) AF_INET6 ips))" by blast
  then show ?thesis using o(2,3) history_scan(3) [OF assms(4,5) g'(2)] by auto
qed

end

section \<open>Properties\<close>

text \<open>
  C3. Only senders that retried are let through. The database starts with no entry of an address and no
  tuple. Whatever grey, trap and white messages come and whenever the scanner runs in between, none of
  it fails, and at whatever time the next scan runs, the whitelists it sends to the firewall process
  hold only addresses with a tuple that was seen twice, the second time more than the pass time after the first,
  and addresses for which a white message came.
\<close>

theorem whitelisted_have_retried:
  assumes "bdb_live L content backup c_file c_start c_seen c_at"
    and "bdb_inv content backup (gl_db g)" and "bdb_saved backup (gl_db g) = None" and "run_setup g"
    and "\<forall>ev\<in>set evs. event_ok ev"
    and "\<forall>gt. bdb_view content (gl_db g) (KEY_TUPLE gt) = None" and "\<forall>ip. bdb_view content (gl_db g) (KEY_IP ip) = None"
  shows "\<exists>g1. run_events (bdb_driver L check) check g evs = Some g1 \<and>
    (\<forall>t. \<exists>g2 out A. Grey_scan_db (bdb_driver L check) check g1 t = Some (0, g2) \<and> gl_fw_out g1 = Some out \<and>
       gl_fw_out g2 = Some (out @
         (let ips = filter (\<lambda>s. check s \<noteq> uint AF_INET6) A in
            if ips = [] then [] else replace_text (gl_whitelist_name g1) AF_INET ips) @
         (let ips = filter (\<lambda>s. check s = uint AF_INET6) A in
            if ips = [] \<or> Config_get_int (gl_config g1) ''enable_ipv6'' None 0 = Some 0
            then [] else replace_text (gl_whitelist_name_ipv6 g1) AF_INET6 ips)) \<and>
       (\<forall>ip\<in>set A. address_earned (gl_pass_time g) evs ip))"
proof -
  note live = bdb_live.drv_live [OF assms(1), of check]
  have start: "tuple_history (gl_pass_time g) [] (bdb_view content (gl_db g))"
    "address_history (gl_pass_time g) [] (bdb_view content (gl_db g))"
    using assms(6,7) by (simp_all add: tuple_history_def address_history_def)
  obtain g1 where g1: "run_events (bdb_driver L check) check g evs = Some g1" "bdb_inv content backup (gl_db g1)"
    "bdb_saved backup (gl_db g1) = None" "run_setup g1" "tuple_history (gl_pass_time g) evs (bdb_view content (gl_db g1))"
    "address_history (gl_pass_time g) evs (bdb_view content (gl_db g1))"
    using greydb_live.run_events_total [OF live assms(2-5) start, of check] by blast
  show ?thesis using g1(1) greydb_live.scan_told [OF live g1(2-6), of check] by blast
qed

text \<open>C3 for a tuple that retries with a scan in between, with the default times.\<close>

theorem whitelisted_have_retried_witness:
  "\<exists>g1. run_events (bdb_driver mem_lib (\<lambda>s. 2)) (\<lambda>s. 2) (example_greylister [])
      [Grey_message example_tuple True [] 1000, Scan_at 1060, Grey_message example_tuple True [] 3000] = Some g1 \<and>
    (\<exists>g2. Grey_scan_db (bdb_driver mem_lib (\<lambda>s. 2)) (\<lambda>s. 2) g1 3060 = Some (0, g2))"
proof -
  have "run_setup (example_greylister [])"
    using example_greylister_idle [of "[]"] by (simp add: run_setup_def example_greylister_def List_create_def List_wf_def)
  moreover have "\<forall>ev\<in>set [Grey_message example_tuple True [] 1000, Scan_at 1060, Grey_message example_tuple True [] 3000]. event_ok ev"
    using example_tuple_ok by (simp add: event_ok_def)
  moreover have "\<forall>gt. bdb_view mem_content (gl_db (example_greylister [])) (KEY_TUPLE gt) = None"
    and "\<forall>ip. bdb_view mem_content (gl_db (example_greylister [])) (KEY_IP ip) = None" by (simp_all add: example_greylister_empty)
  ultimately show ?thesis
    using whitelisted_have_retried [OF mem.bdb_live_axioms example_greylister_empty(1,2), of _ "\<lambda>s. 2"] by blast
qed

end
