(* ===== verification/Greylogd.thy ===== *)
theory Greylogd
  imports Grey_Runs Sync
begin

text \<open>
  Models the loop of \<open>src/src/main_greylogd.c\<close>, the daemon that whitelists the addresses the firewall logs,
  and shows that a logged address stays whitelisted until its expiry time has passed. Its options are in \<open>Tool_Options\<close>; becoming a
  daemon and the capture of the log by the firewall driver are not modelled: the batches of addresses and
  the times they arrive at are arguments.
\<close>

section \<open>The daemon\<close>

text \<open>A database, the sync engine when changes are announced, and the packets that were sent.\<close>

type_synonym 'h log_state = "'h \<times> Sync_engine_T option \<times> ((u32 \<times> nat) \<times> char list) list"

text \<open>The two cases of the switch that store an entry: a new one has passed now.\<close>

definition log_val :: "int \<Rightarrow> int \<Rightarrow> DB_val option \<Rightarrow> DB_val" where
  "log_val now white_expiry old =
     (let val = (case old of
          None \<Rightarrow> \<lparr>val_type = DB_VAL_GREY, val_gd = \<lparr>gd_first = now, gd_pass = now, gd_expire = 0, gd_bcount = 0, gd_pcount = 0\<rparr>\<rparr>
        | Some v \<Rightarrow> v)
      in val\<lparr>val_gd := (val_gd val)\<lparr>gd_pcount := wrap_int (gd_pcount (val_gd val) + 1), gd_expire := now + white_expiry\<rparr>\<rparr>)"

text \<open>The jump to \<open>shutdown\<close> out of an open transaction.\<close>

definition log_failed :: "'h DB_handle_T \<Rightarrow> 'h log_state \<Rightarrow> (bool \<times> 'h log_state) option" where
  "log_failed D st = (case st of (h, syncer, packets) \<Rightarrow> do { (r, h') \<leftarrow> DB_rollback_txn D h; Some (False, h', syncer, packets) })"

text \<open>The body of \<open>LIST_EACH\<close>; the result is \<open>False\<close> when the daemon has to end.\<close>

definition log_entry :: "'h DB_handle_T \<Rightarrow> (char list \<Rightarrow> char list \<Rightarrow> char list) \<Rightarrow> (string \<Rightarrow> u32) \<Rightarrow> int \<Rightarrow> int
    \<Rightarrow> 'h log_state \<Rightarrow> string \<Rightarrow> (bool \<times> 'h log_state) option" where
  "log_entry D hmac inet_addr white_expiry now st ip = (case st of (h, syncer, packets) \<Rightarrow>
     do { let key = KEY_IP ip;
          (r0, h1) \<leftarrow> DB_start_txn D h;
          (ret, val) \<leftarrow> DB_get D h1 key;
          if ret = GREYDB_NOT_FOUND \<or> ret = GREYDB_FOUND
          then do { val' \<leftarrow> (if ret = GREYDB_NOT_FOUND then Some (log_val now white_expiry None)
                         else map_option (\<lambda>v. log_val now white_expiry (Some v)) val);
                    (ret', h2) \<leftarrow> DB_put D h1 key val';
                    if ret' \<noteq> GREYDB_OK then log_failed D (h2, syncer, packets)
                    else do { let (syncer', sent) = (case syncer of None \<Rightarrow> (None, [])
                                | Some engine \<Rightarrow> apfst Some (Sync_white hmac inet_addr engine ip now (now + white_expiry) False));
                              (r1, h3) \<leftarrow> DB_commit_txn D h2;
                              Some (True, h3, syncer', packets @ sent) } }
          else log_failed D (h1, syncer, packets) })"

fun log_entries :: "'h DB_handle_T \<Rightarrow> (char list \<Rightarrow> char list \<Rightarrow> char list) \<Rightarrow> (string \<Rightarrow> u32) \<Rightarrow> int \<Rightarrow> int
    \<Rightarrow> 'h log_state \<Rightarrow> string list \<Rightarrow> (bool \<times> 'h log_state) option" where
  "log_entries D hmac inet_addr white_expiry now st [] = Some (True, st)"
| "log_entries D hmac inet_addr white_expiry now st (ip # ips) =
     do { (ok, st') \<leftarrow> log_entry D hmac inet_addr white_expiry now st ip;
          if ok then log_entries D hmac inet_addr white_expiry now st' ips else Some (False, st') }"

text \<open>
  The loop: a batch is the result of a call of \<open>FW_capture_log\<close>, with the time at which it returned. The
  batches end when a signal sets \<open>Greylogd_shutdown\<close>.
\<close>

fun log_loop :: "'h DB_handle_T \<Rightarrow> (char list \<Rightarrow> char list \<Rightarrow> char list) \<Rightarrow> (string \<Rightarrow> u32) \<Rightarrow> int
    \<Rightarrow> 'h log_state \<Rightarrow> (int \<times> string List_T option) list \<Rightarrow> 'h log_state option" where
  "log_loop D hmac inet_addr white_expiry st [] = Some st"
| "log_loop D hmac inet_addr white_expiry st ((now, batch) # batches) =
     (if batch \<noteq> None \<and> List_size batch > 0
      then do { (ok, st') \<leftarrow> log_entries D hmac inet_addr white_expiry now st (list_head (the batch));
                if ok then log_loop D hmac inet_addr white_expiry st' batches else Some st' }
      else log_loop D hmac inet_addr white_expiry st batches)"

section \<open>What it leaves in the database\<close>

text \<open>One logged address, and the addresses of the batches in the order they arrive.\<close>

definition logged :: "int \<Rightarrow> int \<times> string \<Rightarrow> db_view \<Rightarrow> db_view" where
  "logged white_expiry = (\<lambda>(now, ip) m. m(KEY_IP ip \<mapsto> log_val now white_expiry (m (KEY_IP ip))))"

definition arrivals :: "(int \<times> string List_T option) list \<Rightarrow> (int \<times> string) list" where
  "arrivals batches = concat (map (\<lambda>(now, batch). case batch of None \<Rightarrow> [] | Some l \<Rightarrow> map (Pair now) (list_head l)) batches)"

lemma arrivals_simps [simp]:
  "arrivals [] = []"
  "arrivals ((now, None) # batches) = arrivals batches"
  "arrivals ((now, Some l) # batches) = map (Pair now) (list_head l) @ arrivals batches"
  by (simp_all add: arrivals_def)

lemma logged_fold_other: "\<forall>(t, s)\<in>set xs. k \<noteq> KEY_IP s \<Longrightarrow> fold (logged white_expiry) xs m k = m k"
  by (induction xs arbitrary: m) (auto simp: logged_def)

context greydb_live
begin

lemma log_entry_total:
  assumes "ready h" and "saved h = None" and "ok (KEY_IP ip)"
  shows "\<exists>h' syncer' packets'. log_entry D hmac inet_addr wexp now (h, syncer, packets) ip = Some (True, h', syncer', packets') \<and>
    ready h' \<and> saved h' = None \<and> view h' = logged wexp (now, ip) (view h)"
proof -
  let ?k = "KEY_IP ip"
  obtain r0 h1 where s: "DB_start_txn D h = Some (r0, h1)" "ready h1" "view h1 = view h" "saved h1 = Some (view h)"
    using start_total [OF assms(1,2)] by blast
  obtain vo where get: "DB_get D h1 ?k = Some (if view h ?k = None then GREYDB_NOT_FOUND else GREYDB_FOUND, vo)" "view h ?k \<noteq> None \<longrightarrow> vo = view h ?k"
    using get_total [OF s(2) assms(3)] s(3) by auto
  have "val_type (log_val now wexp (view h ?k)) = DB_VAL_GREY"
    using view_ok [OF assms(1), of ?k] by (auto simp: log_val_def Let_def split: option.splits)
  then obtain h2 where p: "DB_put D h1 ?k (log_val now wexp (view h ?k)) = Some (GREYDB_OK, h2)" "ready h2" "saved h2 = saved h1"
      "view h2 = (view h)(?k \<mapsto> log_val now wexp (view h ?k))"
    using put_total [OF s(2) assms(3)] s(3) by (metis entry_key.simps(1))
  obtain r1 h3 where c: "DB_commit_txn D h2 = Some (r1, h3)" "ready h3" "view h3 = view h2" "saved h3 = None"
    using commit_total [OF p(2)] p(3) s(4) by metis
  obtain sy sent where y: "(case syncer of None \<Rightarrow> (None, [])
      | Some engine \<Rightarrow> apfst Some (Sync_white hmac inet_addr engine ip now (now + wexp) False)) = (sy, sent)" by fastforce
  have "log_entry D hmac inet_addr wexp now (h, syncer, packets) ip = Some (True, h3, sy, packets @ sent)"
    using s(1) get p(1) c(1) y by (cases "view h ?k") (auto simp: log_entry_def greydb_codes)
  then show ?thesis using c p(4) by (simp add: logged_def)
qed

lemma log_entries_total:
  assumes "ready h" and "saved h = None" and "\<forall>ip\<in>set ips. ok (KEY_IP ip)"
  shows "\<exists>h' syncer' packets'. log_entries D hmac inet_addr wexp now (h, syncer, packets) ips = Some (True, h', syncer', packets') \<and>
    ready h' \<and> saved h' = None \<and> view h' = fold (logged wexp) (map (Pair now) ips) (view h)"
  using assms
proof (induction ips arbitrary: h syncer packets)
  case (Cons ip ips)
  obtain h1 sy1 ps1 where 1: "log_entry D hmac inet_addr wexp now (h, syncer, packets) ip = Some (True, h1, sy1, ps1)"
      "ready h1" "saved h1 = None" "view h1 = logged wexp (now, ip) (view h)"
    using log_entry_total [OF Cons.prems(1,2), of ip] Cons.prems(3) by fastforce
  show ?case using Cons.IH [OF 1(2,3), of sy1 ps1] Cons.prems(3) 1(1,4) by simp
qed simp

lemma log_loop_total:
  assumes "ready h" and "saved h = None" and "\<forall>(t, l)\<in>set batches. \<forall>b. l = Some b \<longrightarrow> List_wf b"
    and "\<forall>(t, ip)\<in>set (arrivals batches). ok (KEY_IP ip)"
  shows "\<exists>h' syncer' packets'. log_loop D hmac inet_addr wexp (h, syncer, packets) batches = Some (h', syncer', packets') \<and>
    ready h' \<and> saved h' = None \<and> view h' = fold (logged wexp) (arrivals batches) (view h)"
  using assms
proof (induction batches arbitrary: h syncer packets)
  case (Cons b batches)
  obtain now batch where b: "b = (now, batch)" by fastforce
  show ?case
  proof (cases "batch = None \<or> list_head (the batch) = []")
    case True
    then show ?thesis using Cons.IH [OF Cons.prems(1,2)] Cons.prems(3,4) by (cases batch) (auto simp: b List_wf_def)
  next
    case False
    then obtain l where l: "batch = Some l" "list_head l \<noteq> []" by auto
    obtain h1 sy1 ps1 where 1: "log_entries D hmac inet_addr wexp now (h, syncer, packets) (list_head l) = Some (True, h1, sy1, ps1)"
        "ready h1" "saved h1 = None" "view h1 = fold (logged wexp) (map (Pair now) (list_head l)) (view h)"
    proof -
      have "\<forall>ip\<in>set (list_head l). ok (KEY_IP ip)" using Cons.prems(4) by (simp add: b l(1) ball_Un)
      from log_entries_total [OF Cons.prems(1,2) this, of hmac inet_addr wexp now syncer packets] show ?thesis using that by blast
    qed
    have "List_wf l" using Cons.prems(3) by (simp add: b l(1))
    then have "0 < list_size l" using l(2) by (simp add: List_wf_def)
    then have step: "log_loop D hmac inet_addr wexp (h, syncer, packets) (b # batches) = log_loop D hmac inet_addr wexp (h1, sy1, ps1) batches"
      using 1(1) by (simp add: b l(1))
    have "\<forall>(t, l)\<in>set batches. \<forall>b. l = Some b \<longrightarrow> List_wf b" "\<forall>(t, ip)\<in>set (arrivals batches). ok (KEY_IP ip)"
      using Cons.prems(3,4) by (simp_all add: b l(1))
    from Cons.IH [OF 1(2,3) this, of sy1 ps1] show ?thesis unfolding step 1(4) by (simp add: b l(1))
  qed
qed simp

end

section \<open>Batches and scans in any order\<close>

text \<open>
  What happens to the database of a host that runs \<open>greylogd\<close> and the greylister's scanner: the
  daemon handles some batches, or the scanner runs. A run is a sequence of these; the state is the
  greylister, whose database the daemon shares, the daemon's sync engine and the packets it sent.
\<close>

datatype log_event = Logged "(int \<times> string List_T option) list" | Scanned int

type_synonym 'h host_state = "'h Greylister_T \<times> Sync_engine_T option \<times> ((u32 \<times> nat) \<times> char list) list"

fun host_event :: "'h DB_handle_T \<Rightarrow> (string \<Rightarrow> int) \<Rightarrow> (char list \<Rightarrow> char list \<Rightarrow> char list) \<Rightarrow> (string \<Rightarrow> u32) \<Rightarrow> int
    \<Rightarrow> 'h host_state \<Rightarrow> log_event \<Rightarrow> 'h host_state option" where
  "host_event D check hmac inet_addr white_expiry (g, syncer, packets) (Logged batches) =
     do { (h, syncer', packets') \<leftarrow> log_loop D hmac inet_addr white_expiry (gl_db g, syncer, packets) batches;
          Some (g\<lparr>gl_db := h\<rparr>, syncer', packets') }"
| "host_event D check hmac inet_addr white_expiry (g, syncer, packets) (Scanned now) =
     do { (ret, g') \<leftarrow> Grey_scan_db D check g now; Some (g', syncer, packets) }"

definition host_run :: "'h DB_handle_T \<Rightarrow> (string \<Rightarrow> int) \<Rightarrow> (char list \<Rightarrow> char list \<Rightarrow> char list) \<Rightarrow> (string \<Rightarrow> u32) \<Rightarrow> int
    \<Rightarrow> 'h host_state \<Rightarrow> log_event list \<Rightarrow> 'h host_state option" where
  "host_run D check hmac inet_addr white_expiry = fold_opt (host_event D check hmac inet_addr white_expiry)"

fun event_arrivals :: "log_event \<Rightarrow> (int \<times> string) list" where
  "event_arrivals (Logged batches) = arrivals batches"
| "event_arrivals (Scanned now) = []"

fun event_times :: "log_event \<Rightarrow> int list" where
  "event_times (Logged batches) = map fst (arrivals batches)"
| "event_times (Scanned now) = [now]"

fun event_wf :: "log_event \<Rightarrow> bool" where
  "event_wf (Logged batches) \<longleftrightarrow> (\<forall>(t, l)\<in>set batches. \<forall>b. l = Some b \<longrightarrow> List_wf b) \<and> (\<forall>(t, s)\<in>set (arrivals batches). key_ok (KEY_IP s))"
| "event_wf (Scanned now) \<longleftrightarrow> True"

text \<open>
  The entry of an address and the tuples it has: \<open>n\<close> more arrivals cannot wrap its counter, and it does not
  pass only after \<open>now\<close>. It is white when it has not expired \<open>white_expiry\<close> after an arrival at \<open>t0\<close>.
\<close>

definition entry_small :: "int \<Rightarrow> nat \<Rightarrow> string \<Rightarrow> db_view \<Rightarrow> bool" where
  "entry_small now n ip m \<longleftrightarrow> int n < 2 ^ 31 \<and>
     (\<forall>v. m (KEY_IP ip) = Some v \<longrightarrow> - 1 \<le> gd_pcount (val_gd v) \<and> gd_pass (val_gd v) \<le> now \<and> gd_pcount (val_gd v) + int n < 2 ^ 31) \<and>
     (\<forall>t v. m (KEY_TUPLE t) = Some v \<and> gt_ip t = ip \<longrightarrow> gd_pcount (val_gd v) + int n < 2 ^ 31)"

definition entry_white :: "int \<Rightarrow> string \<Rightarrow> db_view \<Rightarrow> bool" where
  "entry_white until ip m \<longleftrightarrow> (\<exists>v. m (KEY_IP ip) = Some v \<and> 0 \<le> gd_pcount (val_gd v) \<and> until \<le> gd_expire (val_gd v))"

lemma logged_small:
  assumes "entry_small now (Suc n) ip m" and "t \<le> now"
  shows "entry_small now n ip (logged wexp (t, s) m)"
  using assms by (cases "m (KEY_IP ip)") (fastforce simp: entry_small_def logged_def log_val_def Let_def)+

lemma logged_white:
  assumes "entry_small now (Suc n) ip m" and "t0 \<le> t" and "s = ip \<or> entry_white (t0 + wexp) ip m"
  shows "entry_white (t0 + wexp) ip (logged wexp (t, s) m)"
  using assms by (cases "m (KEY_IP ip)") (auto simp: entry_small_def entry_white_def logged_def log_val_def Let_def)

lemma logged_all:
  assumes "entry_small now (length xs + n) ip m" and "\<forall>(t, s)\<in>set xs. t \<le> now" and "sorted (map fst xs)"
  shows "entry_small now n ip (fold (logged wexp) xs m) \<and>
    ((t0, ip) \<in> set xs \<or> entry_white (t0 + wexp) ip m \<and> (\<forall>(t, s)\<in>set xs. t0 \<le> t) \<longrightarrow>
       entry_white (t0 + wexp) ip (fold (logged wexp) xs m))"
  using assms
proof (induction xs arbitrary: m)
  case (Cons x xs)
  obtain t s where x: "x = (t, s)" by fastforce
  have small: "entry_small now (Suc (length xs + n)) ip m" using Cons.prems(1) by simp
  have "t \<le> now" using Cons.prems(2) by (simp add: x)
  then have IH: "entry_small now n ip (fold (logged wexp) xs (logged wexp x m)) \<and>
    ((t0, ip) \<in> set xs \<or> entry_white (t0 + wexp) ip (logged wexp x m) \<and> (\<forall>(t, s)\<in>set xs. t0 \<le> t) \<longrightarrow>
       entry_white (t0 + wexp) ip (fold (logged wexp) xs (logged wexp x m)))"
    using Cons.IH [OF logged_small [OF small, of t wexp s, folded x]] Cons.prems(2,3) by simp
  have "\<forall>(t', s')\<in>set xs. t \<le> t'" using Cons.prems(3) by (auto simp: x)
  then show ?case using IH logged_white [OF small, of t0 t s wexp, folded x] by (auto simp: x)
qed simp

lemma scan_small_white:
  assumes "entry_small now n ip m" and "scan_spec s white_exp m m' A T" and "s \<le> now"
  shows "entry_small now n ip m'"
    and "entry_white until ip m \<Longrightarrow> s < until \<Longrightarrow> until \<le> s + white_exp \<Longrightarrow> entry_white until ip m'"
proof -
  note k = scan_specD(4) [OF assms(2), of ip]
  have tup: "m' (KEY_TUPLE t) = Some v \<Longrightarrow> m (KEY_TUPLE t) = Some v" for t v
    using scan_specD(5) [OF assms(2), of t] by auto
  have new: "- 1 \<le> gd_pcount (val_gd (white_val s white_exp v)) \<and> gd_pass (val_gd (white_val s white_exp v)) \<le> now \<and>
      gd_pcount (val_gd (white_val s white_exp v)) + int n < 2 ^ 31"
    if "m (KEY_TUPLE t) = Some v" "gt_ip t = ip" "val_passes s v" for t v
  proof -
    have "gd_pcount (val_gd v) + int n < 2 ^ 31" using assms(1) that(1,2) unfolding entry_small_def by blast
    then show ?thesis using that(3) assms(3) by (simp add: white_val_def val_passes_def)
  qed
  have "- 1 \<le> gd_pcount (val_gd w) \<and> gd_pass (val_gd w) \<le> now \<and> gd_pcount (val_gd w) + int n < 2 ^ 31" if "m' (KEY_IP ip) = Some w" for w
    using k
  proof (elim disjE conjE exE)
    assume "m' (KEY_IP ip) = m (KEY_IP ip)"
    then show ?thesis using assms(1) that by (simp add: entry_small_def)
  next
    fix t v assume "m (KEY_TUPLE t) = Some v" "gt_ip t = ip" "val_passes s v" "m' (KEY_IP ip) = Some (white_val s white_exp v)"
    then show ?thesis using new that by simp
  qed (use that in simp)
  moreover have "\<forall>t v. m' (KEY_TUPLE t) = Some v \<and> gt_ip t = ip \<longrightarrow> gd_pcount (val_gd v) + int n < 2 ^ 31"
    using assms(1) tup unfolding entry_small_def by blast
  ultimately show "entry_small now n ip m'" using assms(1) unfolding entry_small_def by blast
  show "entry_white until ip m'" if "entry_white until ip m" "s < until" "until \<le> s + white_exp"
    using k that by (auto simp: entry_white_def white_val_def val_passes_def val_expired_def)
qed

context greydb_live
begin

lemma host_run_keeps:
  assumes "ready (gl_db g)" and "saved (gl_db g) = None" and "scanner_idle g" and "wexp \<le> gl_white_exp g"
    and "\<forall>ev\<in>set evs. event_wf ev" and "sorted (concat (map event_times evs))" and "\<forall>t\<in>set (concat (map event_times evs)). t \<le> now"
    and "now < t0 + wexp" and "entry_small now (length (concat (map event_arrivals evs))) ip (view (gl_db g))"
    and "entry_white (t0 + wexp) ip (view (gl_db g)) \<and> (\<forall>t\<in>set (concat (map event_times evs)). t0 \<le> t) \<or>
      (t0, ip) \<in> set (concat (map event_arrivals evs))"
    and ok_all: "\<And>k. key_ok k \<Longrightarrow> ok k" and scan_all: "\<And>now m. scannable now m"
  shows "\<exists>g' syncer' packets'. host_run D check hmac inet_addr wexp (g, syncer, packets) evs = Some (g', syncer', packets') \<and>
    ready (gl_db g') \<and> saved (gl_db g') = None \<and> scanner_idle g' \<and> entry_small now 0 ip (view (gl_db g')) \<and>
    entry_white (t0 + wexp) ip (view (gl_db g'))"
  using assms(1-10)
proof (induction evs arbitrary: g syncer packets)
  case Nil
  then show ?case by (auto simp: host_run_def)
next
  case (Cons ev evs)
  let ?m = "view (gl_db g)" and ?rest = "concat (map event_times evs)"
  have later: "t \<le> t'" if "t \<in> set (event_times ev)" "t' \<in> set ?rest" for t t'
    using Cons.prems(6) that by (auto simp: sorted_append)
  have rest: "sorted ?rest" "\<forall>t\<in>set ?rest. t \<le> now" "\<forall>ev\<in>set evs. event_wf ev"
    using Cons.prems(5-7) by (auto simp: sorted_append)
  have after: "(t0, ip) \<in> set (event_arrivals ev) \<Longrightarrow> \<forall>t\<in>set ?rest. t0 \<le> t"
    using later by (cases ev) force+
  show ?case
  proof (cases ev)
    case (Logged batches)
    let ?xs = "arrivals batches"
    have wf: "\<forall>(t, l)\<in>set batches. \<forall>b. l = Some b \<longrightarrow> List_wf b" "\<forall>(t, s)\<in>set ?xs. ok (KEY_IP s)"
      using Cons.prems(5) ok_all by (auto simp: Logged)
    obtain h' sy ps where h: "log_loop D hmac inet_addr wexp (gl_db g, syncer, packets) batches = Some (h', sy, ps)"
        "ready h'" "saved h' = None" "view h' = fold (logged wexp) ?xs ?m"
      using log_loop_total [OF Cons.prems(1,2) wf, of hmac inet_addr wexp syncer packets] by blast
    have times: "\<forall>(t, s)\<in>set ?xs. t \<le> now" "sorted (map fst ?xs)"
      using Cons.prems(6,7) by (force simp: Logged sorted_append)+
    have "entry_small now (length ?xs + length (concat (map event_arrivals evs))) ip ?m" using Cons.prems(9) by (simp add: Logged)
    note all = logged_all [OF this times, of wexp t0, folded h(4)]
    have due: "entry_white (t0 + wexp) ip ?m \<and> (\<forall>(t, s)\<in>set ?xs. t0 \<le> t) \<and> (\<forall>t\<in>set ?rest. t0 \<le> t) \<or>
        (t0, ip) \<in> set ?xs \<or> (t0, ip) \<in> set (concat (map event_arrivals evs))"
    proof -
      have pt: "(\<forall>(t, s)\<in>set ?xs. t0 \<le> t) \<longleftrightarrow> (\<forall>t\<in>fst ` set ?xs. t0 \<le> t)" by force
      show ?thesis using Cons.prems(10) unfolding pt by (auto simp: Logged ball_Un)
    qed
    have "entry_white (t0 + wexp) ip (view h') \<and> (\<forall>t\<in>set ?rest. t0 \<le> t) \<or> (t0, ip) \<in> set (concat (map event_arrivals evs))"
      using due all after by (auto simp: Logged)
    then show ?thesis
      using Cons.IH [of "g\<lparr>gl_db := h'\<rparr>" sy ps] h rest Cons.prems(3,4,8) all
      by (simp add: Logged host_run_def scanner_idle_def)
  next
    case (Scanned s)
    have idle: "scanner_idle g" by (rule Cons.prems(3))
    obtain tout fout e6 where o: "gl_trap_out g = Some tout" "gl_fw_out g = Some fout"
      "Config_get_int (gl_config g) ''enable_ipv6'' None 0 = Some e6" using idle by (auto simp: scanner_idle_def)
    have l: "0 < gl_white_exp g" "list_head (gl_whitelist g) = []" "list_head (gl_whitelist_ipv6 g) = []" "list_head (gl_traplist g) = []"
      "List_wf (gl_whitelist g)" "List_wf (gl_whitelist_ipv6 g)" "List_wf (gl_traplist g)"
      using idle by (auto simp: scanner_idle_def List_create_def List_wf_def)
    from Grey_scan_db_total [OF ready_inv [OF Cons.prems(1)] Cons.prems(2) l o(3,1,2) scan_all, of check s] obtain g' A T where
      g': "Grey_scan_db D check g s = Some (0, g')" "ready (gl_db g')" "saved (gl_db g') = None"
        "scan_spec s (gl_white_exp g) ?m (view (gl_db g')) (set A) (set T)" "gl_trap_out g' \<noteq> None" by blast
    have keep: "scanner_idle g'" "gl_white_exp g' = gl_white_exp g"
      using Grey_scan_db_idle [OF idle g'(1,5)] by (simp_all add: same_times_def)
    have s: "s \<le> now" using Cons.prems(7) by (simp add: Scanned)
    have small: "entry_small now (length (concat (map event_arrivals evs))) ip ?m" using Cons.prems(9) by (simp add: Scanned)
    note sc = scan_small_white [OF small g'(4) s]
    have "entry_white (t0 + wexp) ip (view (gl_db g')) \<and> (\<forall>t\<in>set ?rest. t0 \<le> t) \<or> (t0, ip) \<in> set (concat (map event_arrivals evs))"
      using Cons.prems(4,8,10) sc(2) [of "t0 + wexp"] s by (auto simp: Scanned)
    then show ?thesis
      using Cons.IH [of g' syncer packets] g' keep rest Cons.prems(4,8) sc(1)
      by (simp add: Scanned host_run_def)
  qed
qed

end

section \<open>Properties\<close>

text \<open>
  C34. Logged addresses stay white. The host handles batches of logged addresses and runs scans in any
  order, as long as time does not go back; neither ever fails. Every scan less than the white expiry time
  after some arrival of an address sends the firewall process a whitelist that holds the address, even when
  it was unknown or trapped before the arrival: the whitelist of the IPv4 addresses or, for an
  IPv6 address and when IPv6 is enabled, that of the IPv6 addresses. Scans in between do not take the address off, nor does one that
  renews its entry, since the scanner's white expiry time, which it reads from the same variable of the
  configuration, is at least that of the daemon. What is assumed of the start: the entry of the address, if there is one, does not pass only
  in the future, and the counters of its entry and its tuples do not wrap.
\<close>

theorem logged_stays_white:
  assumes "bdb_live L content backup c_file c_start c_seen c_at"
    and "bdb_ready content backup (gl_db g)" and "bdb_saved backup (gl_db g) = None" and "scanner_idle g" and "wexp \<le> gl_white_exp g"
    and "\<forall>ev\<in>set evs. event_wf ev" and "sorted (concat (map event_times evs) @ [now])"
    and "(t0, ip) \<in> set (concat (map event_arrivals evs))" and "now < t0 + wexp"
    and "entry_small now (length (concat (map event_arrivals evs))) ip (bdb_view content (gl_db g))"
  shows "\<exists>g1 syncer' packets' g2 out A.
    host_run (bdb_driver L check) check hmac inet_addr wexp (g, syncer, packets) evs = Some (g1, syncer', packets') \<and>
    Grey_scan_db (bdb_driver L check) check g1 now = Some (0, g2) \<and> gl_fw_out g1 = Some out \<and>
    gl_fw_out g2 = Some (out @
      (let ips = filter (\<lambda>s. check s \<noteq> uint AF_INET6) A in
         if ips = [] then [] else replace_text (gl_whitelist_name g1) AF_INET ips) @
      (let ips = filter (\<lambda>s. check s = uint AF_INET6) A in
         if ips = [] \<or> Config_get_int (gl_config g1) ''enable_ipv6'' None 0 = Some 0
         then [] else replace_text (gl_whitelist_name_ipv6 g1) AF_INET6 ips)) \<and>
    ip \<in> set A"
proof -
  note live = bdb_live.drv_live [OF assms(1), of check]
  have times: "sorted (concat (map event_times evs))" "\<forall>t\<in>set (concat (map event_times evs)). t \<le> now"
    using assms(7) by (auto simp: sorted_append)
  from greydb_live.host_run_keeps [OF live assms(2-6) times assms(9,10), of check hmac inet_addr syncer packets]
  obtain g1 sy ps where g1: "host_run (bdb_driver L check) check hmac inet_addr wexp (g, syncer, packets) evs = Some (g1, sy, ps)"
      "bdb_ready content backup (gl_db g1)" "bdb_saved backup (gl_db g1) = None" "scanner_idle g1"
      "entry_small now 0 ip (bdb_view content (gl_db g1))" "entry_white (t0 + wexp) ip (bdb_view content (gl_db g1))"
    using assms(8) by blast
  obtain tout fout e6 where o: "gl_trap_out g1 = Some tout" "gl_fw_out g1 = Some fout"
    "Config_get_int (gl_config g1) ''enable_ipv6'' None 0 = Some e6" using g1(4) by (auto simp: scanner_idle_def)
  have l: "0 < gl_white_exp g1" "list_head (gl_whitelist g1) = []" "list_head (gl_whitelist_ipv6 g1) = []" "list_head (gl_traplist g1) = []"
    "List_wf (gl_whitelist g1)" "List_wf (gl_whitelist_ipv6 g1)" "List_wf (gl_traplist g1)"
    using g1(4) by (auto simp: scanner_idle_def List_create_def List_wf_def)
  have inv: "bdb_inv content backup (gl_db g1)" using g1(2) by (simp add: bdb_ready_def)
  from greydb_live.Grey_scan_db_total [OF live inv g1(3) l o(3,1,2), of check now] obtain g2 A T where
    g2: "Grey_scan_db (bdb_driver L check) check g1 now = Some (0, g2)"
      "scan_spec now (gl_white_exp g1) (bdb_view content (gl_db g1)) (bdb_view content (gl_db g2)) (set A) (set T)"
      "gl_fw_out g2 = Some (fout @
        (let ips = filter (\<lambda>s. \<not> check s = uint AF_INET6) A in if ips = [] then [] else replace_text (gl_whitelist_name g1) AF_INET ips) @
        (let ips = filter (\<lambda>s. check s = uint AF_INET6) A in if ips = [] \<or> e6 = 0 then [] else replace_text (gl_whitelist_name_ipv6 g1) AF_INET6 ips))"
    by auto
  have "ip_white now (bdb_view content (gl_db g1)) ip"
    using g1(5,6) assms(9) by (auto simp: entry_small_def entry_white_def ip_white_def val_passes_def val_expired_def)
  then have "ip \<in> set A" using g2(2) unfolding scan_spec_def by (elim conjE) simp
  then show ?thesis using g1(1) g2(1,3) o(2,3) by auto
qed

text \<open>C34 for one logged address on an empty database, with a scan before and one after it.\<close>

theorem logged_stays_white_witness:
  "\<exists>g1 sy ps g2 out A. host_run (bdb_driver mem_lib (\<lambda>s. 2)) (\<lambda>s. 2) example_hmac (\<lambda>s. 0) 500
       ((example_greylister [])\<lparr>gl_db := (mem_handle [])\<lparr>bh_open := True\<rparr>\<rparr>, Some example_engine, [])
       [Scanned 1050, Logged [(1100, Some (List_insert_after List_create ''192.0.2.1''))], Scanned 1300] = Some (g1, sy, ps) \<and>
     Grey_scan_db (bdb_driver mem_lib (\<lambda>s. 2)) (\<lambda>s. 2) g1 1599 = Some (0, g2) \<and>
     gl_fw_out g2 = Some (out @ replace_text (gl_whitelist_name g1) AF_INET A) \<and> ''192.0.2.1'' \<in> set A"
proof -
  let ?g = "(example_greylister [])\<lparr>gl_db := (mem_handle [])\<lparr>bh_open := True\<rparr>\<rparr>"
  let ?evs = "[Scanned 1050, Logged [(1100, Some (List_insert_after List_create ''192.0.2.1''))], Scanned 1300]"
  have e: "bdb_ready mem_content mem_backup_content (gl_db ?g)" "bdb_saved mem_backup_content (gl_db ?g) = None"
      "bdb_view mem_content (gl_db ?g) = (\<lambda>k. None)"
    using example_greylister_empty by (simp_all add: example_greylister_def bdb_defs)
  have i: "scanner_idle ?g" using example_greylister_idle [of "[]"] by (simp add: scanner_idle_def)
  have w: "(500 :: int) \<le> gl_white_exp ?g" by (simp add: example_greylister_def GREY_WHITEEXP_def)
  have f: "\<forall>ev\<in>set ?evs. event_wf ev" by (simp add: NUL_def)
  have t: "sorted (concat (map event_times ?evs) @ [1599])" "(1100, ''192.0.2.1'') \<in> set (concat (map event_arrivals ?evs))"
    by (simp_all add: List_create_def List_insert_after_def)
  have s: "entry_small 1599 (length (concat (map event_arrivals ?evs))) ''192.0.2.1'' (bdb_view mem_content (gl_db ?g))"
    unfolding e(3) by (simp add: entry_small_def List_create_def List_insert_after_def)
  have n: "(1599 :: int) < 1100 + 500" by simp
  show ?thesis
    using logged_stays_white [OF mem.bdb_live_axioms e(1,2) i w f t n s, of "\<lambda>s. 2" example_hmac "\<lambda>s. 0" "Some example_engine" "[]"]
    by (fastforce simp: AF_INET6_def)
qed

end
