(* ===== verification/Spamd_Parser.thy ===== *)
theory Spamd_Parser
  imports Lexer Blacklist_Match
begin

text \<open>
  Models \<open>src/src/spamd_lexer.c\<close> and \<open>src/src/spamd_parser.c\<close>: the tokeniser and the recursive
  descent parser for feeds of addresses, address ranges and CIDR blocks, which are added to a
  blacklist as ranges. Every function of the parser threads the parser state; \<open>None\<close> is the
  undefined behaviour of \<open>IP_cidr_to_range\<close> and \<open>Blacklist_add_range\<close>.
\<close>

section \<open>The tokeniser\<close>

definition SPAMD_LEXER_MAX_INT6 :: int where "SPAMD_LEXER_MAX_INT6 = 32"
definition SPAMD_LEXER_MAX_INT8 :: int where "SPAMD_LEXER_MAX_INT8 = 255"
definition SPAMD_LEXER_TOK_DOT :: int where "SPAMD_LEXER_TOK_DOT = 100"
definition SPAMD_LEXER_TOK_INT6 :: int where "SPAMD_LEXER_TOK_INT6 = 101"
definition SPAMD_LEXER_TOK_INT8 :: int where "SPAMD_LEXER_TOK_INT8 = 102"
definition SPAMD_LEXER_TOK_DASH :: int where "SPAMD_LEXER_TOK_DASH = 103"
definition SPAMD_LEXER_TOK_SLASH :: int where "SPAMD_LEXER_TOK_SLASH = 104"
definition SPAMD_LEXER_TOK_EOF :: int where "SPAMD_LEXER_TOK_EOF = 105"
definition SPAMD_LEXER_TOK_EOL :: int where "SPAMD_LEXER_TOK_EOL = 106"

lemmas spamd_toks = SPAMD_LEXER_TOK_DOT_def SPAMD_LEXER_TOK_INT6_def SPAMD_LEXER_TOK_INT8_def
  SPAMD_LEXER_TOK_DASH_def SPAMD_LEXER_TOK_SLASH_def SPAMD_LEXER_TOK_EOF_def SPAMD_LEXER_TOK_EOL_def

function spamd_digits :: "Lexer_T \<Rightarrow> int \<Rightarrow> int \<times> int \<times> Lexer_T" where
  "spamd_digits lexer i =
     (let (c, l1) = Lexer_getc lexer in
      if isdigit_c c
      then (let j = i * 10 + (c - 48) in
            if j > SPAMD_LEXER_MAX_INT8 then (i, c, l1) else spamd_digits l1 j)
      else (i, c, l1))"
  by pat_completeness auto
termination
  by (relation "measure (\<lambda>(l, i). length (lex_todo l))")
     (auto dest: Lexer_getc_shrinks [OF sym] simp: isdigit_c_def)

declare spamd_digits.simps [simp del]

function Spamd_lexer_next_token :: "Lexer_T \<Rightarrow> int \<times> Lexer_T" where
  "Spamd_lexer_next_token lexer =
     (if seen_end lexer then (SPAMD_LEXER_TOK_EOF, lexer)
      else (let (c, l1) = Lexer_getc lexer in
        if isdigit_c c
        then (let (i, c', l2) = spamd_digits l1 (c - 48);
                  l3 = Lexer_reuse_char (l2\<lparr>current_value := Val_i i\<rparr>) c'
              in return_tok (if i \<le> SPAMD_LEXER_MAX_INT6 then SPAMD_LEXER_TOK_INT6 else SPAMD_LEXER_TOK_INT8) l3)
        else if c = 32 \<or> c = 9 \<or> c = 13 then Spamd_lexer_next_token l1
        else if c = 35
        then (let (c', l2) = skip_comment l1 in Spamd_lexer_next_token (Lexer_reuse_char l2 c'))
        else if c = 10 then return_tok SPAMD_LEXER_TOK_EOL l1
        else if c = 46 then return_tok SPAMD_LEXER_TOK_DOT l1
        else if c = 45 then return_tok SPAMD_LEXER_TOK_DASH l1
        else if c = 47 then return_tok SPAMD_LEXER_TOK_SLASH l1
        else (SPAMD_LEXER_TOK_EOF, l1)))"
  by pat_completeness auto
termination
  by (relation "measure (\<lambda>l. length (lex_todo l))")
     (auto dest!: Lexer_getc_shrinks [OF sym] skip_comment_reuse [OF sym])

declare Spamd_lexer_next_token.simps [simp del]

lemma spamd_digits_spec:
  "spamd_digits l i = (v, c, l') \<Longrightarrow> \<exists>l0. Lexer_getc l0 = (c, l') \<and> length (lex_todo l0) \<le> length (lex_todo l)"
proof (induction l i rule: spamd_digits.induct)
  case (1 l i)
  obtain k l1 where g: "Lexer_getc l = (k, l1)" by fastforce
  show ?case
  proof (cases "isdigit_c k \<and> \<not> i * 10 + (k - 48) > SPAMD_LEXER_MAX_INT8")
    case True
    then have "spamd_digits l1 (i * 10 + (k - 48)) = (v, c, l')"
      using 1(2) g by (subst (asm) spamd_digits.simps) (simp add: Let_def)
    then show ?thesis using 1(1) [OF g [symmetric] refl _ refl] True Lexer_getc_le [OF g] by fastforce
  next
    case False
    then have "c = k \<and> l' = l1" using 1(2) g by (subst (asm) spamd_digits.simps) (auto simp: Let_def split: if_splits)
    then show ?thesis using g by blast
  qed
qed

text \<open>Every token except the end consumes at least one character.\<close>

lemma Spamd_lexer_progress:
  "Spamd_lexer_next_token l = (tok, l') \<Longrightarrow>
   length (lex_todo l') + (if tok = SPAMD_LEXER_TOK_EOF then 0 else 1) \<le> length (lex_todo l)"
proof (induction l rule: Spamd_lexer_next_token.induct)
  case (1 l)
  show ?case
  proof (cases "seen_end l")
    case True
    then show ?thesis using 1(3) by (subst (asm) Spamd_lexer_next_token.simps) auto
  next
    case False
    obtain c l1 where g: "Lexer_getc l = (c, l1)" by fastforce
    note le = Lexer_getc_le [OF g] and lt = Lexer_getc_shrinks [OF g]
    consider "isdigit_c c" | "c = 32 \<or> c = 9 \<or> c = 13" | "c = 35"
      | "\<not> isdigit_c c" "c \<noteq> 32 \<and> c \<noteq> 9 \<and> c \<noteq> 13" "c \<noteq> 35" by blast
    then show ?thesis
    proof cases
      case 1
      obtain i c' l2 where d: "spamd_digits l1 (c - 48) = (i, c', l2)" by (metis prod_cases3)
      obtain l0 where "Lexer_getc l0 = (c', l2)" "length (lex_todo l0) \<le> length (lex_todo l1)"
        using spamd_digits_spec [OF d] by blast
      then have "length (lex_todo (Lexer_reuse_char (l2\<lparr>current_value := Val_i i\<rparr>) c')) \<le> length (lex_todo l1)"
        using Lexer_reuse_char_le [of l0 c' l2]
        by (auto simp: Lexer_reuse_char_def Lexer_ungetc_def lex_todo_def Let_def split: if_splits)
      then show ?thesis
        using 1 \<open>Spamd_lexer_next_token l = (tok, l')\<close> False g d lt
        by (subst (asm) Spamd_lexer_next_token.simps) (auto simp: Let_def return_tok_def lex_todo_def isdigit_c_def)
    next
      case 2
      then have "Spamd_lexer_next_token l1 = (tok, l')"
        using \<open>Spamd_lexer_next_token l = (tok, l')\<close> False g
        by (subst (asm) Spamd_lexer_next_token.simps) (auto simp: isdigit_c_def)
      then show ?thesis using "1.IH"(1) [OF False g [symmetric] refl _ 2] 2 le by (auto simp: isdigit_c_def)
    next
      case 3
      obtain c' l2 where s: "skip_comment l1 = (c', l2)" by fastforce
      have "Spamd_lexer_next_token (Lexer_reuse_char l2 c') = (tok, l')"
        using \<open>Spamd_lexer_next_token l = (tok, l')\<close> False g 3 s
        by (subst (asm) Spamd_lexer_next_token.simps) (auto simp: isdigit_c_def)
      then show ?thesis
        using "1.IH"(2) [OF False g [symmetric] refl _ _ 3 s [symmetric] refl] 3 le skip_comment_reuse [OF s]
        by (auto simp: isdigit_c_def)
    next
      case 4
      then show ?thesis
        using \<open>Spamd_lexer_next_token l = (tok, l')\<close> False g le lt
        by (subst (asm) Spamd_lexer_next_token.simps)
           (auto simp: return_tok_def lex_todo_def spamd_toks split: if_splits)
    qed
  qed
qed

section \<open>The parser\<close>

definition SPAMD_PARSER_IPV4_QUADS :: nat where "SPAMD_PARSER_IPV4_QUADS = 4"

record Spamd_parser_T =
  sp_start :: "u8 list"
  sp_end :: "u8 list"
  sp_lexer :: Lexer_T
  sp_blacklist :: Blacklist_T
  sp_type :: int
  sp_curr :: int

definition advance :: "Spamd_parser_T \<Rightarrow> Spamd_parser_T" where
  "advance p = (let (tok, l) = Spamd_lexer_next_token (sp_lexer p) in p\<lparr>sp_curr := tok, sp_lexer := l\<rparr>)"

definition spamd_left :: "Spamd_parser_T \<Rightarrow> nat" where
  "spamd_left p = length (lex_todo (sp_lexer p)) + (if sp_curr p = SPAMD_LEXER_TOK_EOF then 0 else 1)"

lemma advance_le: "spamd_left (advance p) \<le> length (lex_todo (sp_lexer p))"
  using Spamd_lexer_progress [of "sp_lexer p"]
  by (auto simp: advance_def spamd_left_def split: prod.splits)

lemma advance_less: "sp_curr p \<noteq> SPAMD_LEXER_TOK_EOF \<Longrightarrow> spamd_left (advance p) < spamd_left p"
  using advance_le [of p] by (simp add: spamd_left_def)

lemma advance_left: "spamd_left (advance p) \<le> spamd_left p"
  using advance_le [of p] by (simp add: spamd_left_def)

function skip_eols :: "Spamd_parser_T \<Rightarrow> Spamd_parser_T" where
  "skip_eols p = (if sp_curr p = SPAMD_LEXER_TOK_EOL then skip_eols (advance p) else p)"
  by pat_completeness auto
termination
  by (relation "measure spamd_left") (auto intro!: advance_less simp: spamd_toks)

declare skip_eols.simps [simp del]

definition tok_accept_no_advance :: "Spamd_parser_T \<Rightarrow> int \<Rightarrow> bool" where
  "tok_accept_no_advance p tok \<longleftrightarrow> tok = sp_curr p"

definition tok_accept :: "Spamd_parser_T \<Rightarrow> int \<Rightarrow> bool \<times> Spamd_parser_T" where
  "tok_accept p tok =
     (if tok_accept_no_advance p tok
      then (True, if tok = SPAMD_LEXER_TOK_EOL then skip_eols (advance p) else advance p)
      else (False, p))"

definition tok_int :: "Lexer_T \<Rightarrow> int" where
  "tok_int l = (case current_value l of Val_i i \<Rightarrow> i | Val_s s \<Rightarrow> 0)"

text \<open>The loop of \<open>grammar_address\<close> at quad \<open>i\<close>, with \<open>n\<close> quads to go.\<close>

fun address_loop :: "bool \<Rightarrow> nat \<Rightarrow> nat \<Rightarrow> Spamd_parser_T \<Rightarrow> bool \<times> Spamd_parser_T" where
  "address_loop start 0 i p = (True, p)"
| "address_loop start (Suc n) i p =
     (if tok_accept_no_advance p SPAMD_LEXER_TOK_INT6 \<or> tok_accept_no_advance p SPAMD_LEXER_TOK_INT8
      then (let v = word_of_int (tok_int (sp_lexer p));
                p1 = (if start then p\<lparr>sp_start := (sp_start p)[i := v]\<rparr> else p\<lparr>sp_end := (sp_end p)[i := v]\<rparr>);
                p2 = advance p1
            in if i < SPAMD_PARSER_IPV4_QUADS - 1
               then (let (ok, p3) = tok_accept p2 SPAMD_LEXER_TOK_DOT
                     in if ok then address_loop start n (i + 1) p3 else (False, p3))
               else address_loop start n (i + 1) p2)
      else (False, p))"

definition grammar_address :: "Spamd_parser_T \<Rightarrow> bool \<Rightarrow> bool \<times> Spamd_parser_T" where
  "grammar_address p start = address_loop start SPAMD_PARSER_IPV4_QUADS 0 p"

text \<open>The range of an entry, end exclusive, and the parser after it; \<open>Some None\<close> is a syntax error.\<close>

definition entry_range :: "Spamd_parser_T \<Rightarrow> ((u32 \<times> u32) option \<times> Spamd_parser_T) option" where
  "entry_range p =
     (let (ok, p1) = tok_accept p SPAMD_LEXER_TOK_SLASH in
      if ok
      then if tok_accept_no_advance p1 SPAMD_LEXER_TOK_INT6
           then do { (st, en) \<leftarrow> IP_cidr_to_range \<lparr>cidr_addr = bytes_word (sp_start p1) 0,
                                                  cidr_bits = nat (tok_int (sp_lexer p1))\<rparr>;
                     Some (Some (st, en + 1), advance p1) }
           else Some (None, p1)
      else (let (ok2, p2) = tok_accept p1 SPAMD_LEXER_TOK_DASH in
        if ok2
        then (let (ok3, p3) = grammar_address p2 False in
              if ok3 then Some (Some (bytes_word (sp_start p3) 0, bytes_word (sp_end p3) 0 + 1), p3)
              else Some (None, p3))
        else Some (Some (bytes_word (sp_start p2) 0, bytes_word (sp_start p2) 0 + 1), p2)))"

definition grammar_entry :: "Spamd_parser_T \<Rightarrow> (bool \<times> Spamd_parser_T) option" where
  "grammar_entry p =
     (let (ok, p1) = grammar_address p True in
      if ok
      then do { (r, p2) \<leftarrow> entry_range p1;
                case r of
                  None \<Rightarrow> Some (False, p2)
                | Some (st, en) \<Rightarrow>
                    do { bl \<leftarrow> Blacklist_add_range (sp_blacklist p2) st en (sp_type p2);
                         Some (True, p2\<lparr>sp_blacklist := bl\<rparr>) } }
      else Some (False, p1))"

lemma skip_eols_left: "spamd_left (skip_eols p) \<le> spamd_left p"
proof (induction p rule: skip_eols.induct)
  case (1 p)
  then show ?case
    using advance_left [of p] by (subst skip_eols.simps) auto
qed

lemma tok_accept_left: "tok_accept p tok = (ok, p') \<Longrightarrow> spamd_left p' \<le> spamd_left p"
  using skip_eols_left [of "advance p"] advance_left [of p] by (auto simp: tok_accept_def split: if_splits)

lemma tok_accept_less: "tok_accept p tok = (True, p') \<Longrightarrow> tok \<noteq> SPAMD_LEXER_TOK_EOF \<Longrightarrow> spamd_left p' < spamd_left p"
  using skip_eols_left [of "advance p"] advance_less [of p]
  by (auto simp: tok_accept_def tok_accept_no_advance_def split: if_splits)

lemma spamd_left_upd [simp]:
  "spamd_left (p\<lparr>sp_start := x\<rparr>) = spamd_left p" "spamd_left (p\<lparr>sp_end := x\<rparr>) = spamd_left p"
  "spamd_left (p\<lparr>sp_blacklist := bl\<rparr>) = spamd_left p"
  by (simp_all add: spamd_left_def)

lemma address_loop_left: "address_loop start n i p = (ok, p') \<Longrightarrow> spamd_left p' \<le> spamd_left p"
proof (induction start n i p arbitrary: ok p' rule: address_loop.induct)
  case (2 start n i p)
  let ?v = "word_of_int (tok_int (sp_lexer p)) :: u8"
  let ?p1 = "if start then p\<lparr>sp_start := (sp_start p)[i := ?v]\<rparr> else p\<lparr>sp_end := (sp_end p)[i := ?v]\<rparr>"
  have a: "spamd_left (advance ?p1) \<le> spamd_left p" using advance_left [of ?p1] by (auto split: if_splits)
  show ?case
  proof (cases "tok_accept_no_advance p SPAMD_LEXER_TOK_INT6 \<or> tok_accept_no_advance p SPAMD_LEXER_TOK_INT8")
    case tok: True
    obtain ok1 p3 where t: "tok_accept (advance ?p1) SPAMD_LEXER_TOK_DOT = (ok1, p3)" by fastforce
    have le: "spamd_left p3 \<le> spamd_left p" using tok_accept_left [OF t] a by simp
    show ?thesis
    proof (cases "i < SPAMD_PARSER_IPV4_QUADS - 1")
      case True
      then have "if ok1 then address_loop start n (i + 1) p3 = (ok, p') else p' = p3"
        using 2(3) tok t by (simp add: Let_def split: if_splits)
      then show ?thesis using 2(1) [OF tok refl refl refl True t [symmetric] refl] le by (auto split: if_splits)
    next
      case False
      then have "address_loop start n (i + 1) (advance ?p1) = (ok, p')" using 2(3) tok by (simp add: Let_def)
      then show ?thesis using 2(2) [OF tok refl refl refl False] a by fastforce
    qed
  qed (use 2(3) in simp)
qed simp

lemma entry_range_left: "entry_range p = Some (r, p') \<Longrightarrow> spamd_left p' \<le> spamd_left p"
proof -
  assume E: "entry_range p = Some (r, p')"
  obtain ok1 p1 where 1: "tok_accept p SPAMD_LEXER_TOK_SLASH = (ok1, p1)" by fastforce
  obtain ok2 p2 where 2: "tok_accept p1 SPAMD_LEXER_TOK_DASH = (ok2, p2)" by fastforce
  obtain ok3 p3 where 3: "grammar_address p2 False = (ok3, p3)" by fastforce
  have "spamd_left p1 \<le> spamd_left p" "spamd_left p2 \<le> spamd_left p1" "spamd_left p3 \<le> spamd_left p2"
    "spamd_left (advance p1) \<le> spamd_left p1"
    using tok_accept_left [OF 1] tok_accept_left [OF 2] advance_left [of p1]
      address_loop_left [OF 3 [unfolded grammar_address_def]] by auto
  moreover have "p' \<in> {p1, p2, p3, advance p1}"
    using E 1 2 3 by (auto simp: entry_range_def Let_def split: if_splits bind_splits prod.splits)
  ultimately show ?thesis by auto
qed

lemma grammar_entry_left: "grammar_entry p = Some (ok, p') \<Longrightarrow> spamd_left p' \<le> spamd_left p"
proof -
  assume E: "grammar_entry p = Some (ok, p')"
  obtain ok1 p1 where 1: "grammar_address p True = (ok1, p1)" by fastforce
  have le: "spamd_left p1 \<le> spamd_left p" using address_loop_left [OF 1 [unfolded grammar_address_def]] .
  show ?thesis
    using E 1 le entry_range_left [of p1]
    by (fastforce simp: grammar_entry_def bind_eq_Some_conv split: if_splits option.splits prod.splits)
qed

function grammar_entries :: "Spamd_parser_T \<Rightarrow> (bool \<times> Spamd_parser_T) option" where
  "grammar_entries p =
     (case tok_accept p SPAMD_LEXER_TOK_EOL of
        (False, p1) \<Rightarrow> Some (True, p1)
      | (True, p1) \<Rightarrow>
          (case grammar_entry p1 of
             None \<Rightarrow> None
           | Some (False, p2) \<Rightarrow> Some (True, p2)
           | Some (True, p2) \<Rightarrow>
               (case grammar_entries p2 of None \<Rightarrow> None | Some (ok, p3) \<Rightarrow> Some (True, p3))))"
  by pat_completeness auto
termination
  by (relation "measure spamd_left")
     (auto dest!: tok_accept_less [OF sym] grammar_entry_left simp: spamd_toks)

declare grammar_entries.simps [simp del]

text \<open>\<open>Spamd_parser_create\<close>: the arrays and the current token start out unset and are parameters.\<close>

definition Spamd_parser_create :: "u8 list \<Rightarrow> u8 list \<Rightarrow> int \<Rightarrow> Lexer_T \<Rightarrow> Blacklist_T \<Rightarrow> Spamd_parser_T" where
  "Spamd_parser_create st en tok lexer bl =
     \<lparr>sp_start = st, sp_end = en, sp_lexer = lexer, sp_blacklist = bl, sp_type = 0, sp_curr = tok\<rparr>"

definition Spamd_parser_start :: "Spamd_parser_T \<Rightarrow> Blacklist_T \<Rightarrow> int \<Rightarrow> (bool \<times> Spamd_parser_T) option" where
  "Spamd_parser_start parser blacklist type =
     (let p0 = advance (parser\<lparr>sp_blacklist := blacklist, sp_type := type\<rparr>);
          p1 = snd (tok_accept p0 SPAMD_LEXER_TOK_EOL)
      in do { (e, p2) \<leftarrow> grammar_entry p1;
              if e
              then do { (es, p3) \<leftarrow> grammar_entries p2;
                        (let (ok, p4) = tok_accept p3 SPAMD_LEXER_TOK_EOF
                         in if es \<and> ok then Some (True, p4) else Some (tok_accept p4 SPAMD_LEXER_TOK_EOF)) }
              else Some (tok_accept p2 SPAMD_LEXER_TOK_EOF) })"

section \<open>Tokens of a printed feed\<close>

text \<open>A lexer in front of a text: either its source holds it, or the end was seen and it is empty.\<close>

definition ready :: "Lexer_T \<Rightarrow> char list \<Rightarrow> bool" where
  "ready l cs \<longleftrightarrow> lex_todo l = cs \<and> (seen_end l \<longrightarrow> cs = [])"

definition digit_char :: "char \<Rightarrow> bool" where
  "digit_char c \<longleftrightarrow> isdigit_c (char_code c)"

definition no_digit :: "char list \<Rightarrow> bool" where
  "no_digit cs \<longleftrightarrow> cs = [] \<or> (\<not> digit_char (hd cs) \<and> char_code (hd cs) < 128)"

lemma dec_value_append: "dec_value n (xs @ [c]) = 10 * dec_value n xs + (of_char c - 48)"
  by (induction xs arbitrary: n) auto

lemma dec_digits_value: "dec_value 0 (dec_digits n) = n"
proof (induction n rule: dec_digits.induct)
  case (1 n)
  then show ?case by (subst dec_digits.simps) (simp add: dec_value_append)
qed

lemma digit_char_digit: "d < 10 \<Longrightarrow> digit_char (char_of (48 + d :: nat))"
proof -
  assume "d < 10"
  moreover have "char_code (char_of (48 + d)) = int (of_char (char_of (48 + d) :: char))"
    by (simp only: char_code_def of_nat_of_char)
  ultimately show ?thesis by (simp add: digit_char_def isdigit_c_def)
qed

lemma dec_digits_all: "list_all digit_char (dec_digits n)"
proof (induction n rule: dec_digits.induct)
  case (1 n)
  then show ?case by (subst dec_digits.simps) (simp add: digit_char_digit)
qed

lemma dec_digits_not_Nil [simp]: "dec_digits n \<noteq> []"
  by (subst dec_digits.simps) simp

lemma dec_value_ge: "n \<le> dec_value n ds"
proof (induction ds arbitrary: n)
  case (Cons d ds)
  have "n \<le> 10 * n + (of_char d - 48)" by simp
  also have "\<dots> \<le> dec_value n (d # ds)" using Cons.IH [of "10 * n + (of_char d - 48)"] by simp
  finally show ?case .
qed simp

lemma digit_code: "digit_char c \<Longrightarrow> char_code c - 48 = int (of_char c - 48) \<and> char_code c < 128 \<and> isdigit_c (char_code c)"
proof -
  assume "digit_char c"
  moreover have "char_code c = int (of_char c)" by (simp only: char_code_def of_nat_of_char)
  ultimately show ?thesis by (auto simp: digit_char_def isdigit_c_def)
qed

lemma spamd_digits_text:
  assumes "list_all digit_char ds" and "no_digit cs" and "dec_value v ds \<le> 255"
    and "lex_todo l = ds @ cs" and "\<not> seen_end l"
  shows "\<exists>c l1 l2. spamd_digits l (int v) = (int (dec_value v ds), c, l2) \<and> Lexer_getc l1 = (c, l2) \<and>
           lex_todo l1 = cs \<and> \<not> seen_end l1 \<and> \<not> isdigit_c c"
  using assms(1,3-5)
proof (induction ds arbitrary: v l)
  case Nil
  obtain c l2 where g: "Lexer_getc l = (c, l2)" by fastforce
  have "\<not> isdigit_c c"
  proof (cases cs)
    case Nil
    then show ?thesis using Lexer_getc_end [of l] g \<open>lex_todo l = [] @ cs\<close> by (auto simp: isdigit_c_def)
  next
    case (Cons k ks)
    then have "lex_todo l = k # ks" "char_code k < 128" using assms(2) \<open>lex_todo l = [] @ cs\<close>
      by (auto simp: no_digit_def)
    then have "c = char_code k" using Lexer_getc_ascii [of l k ks] g by (metis prod.inject)
    then show ?thesis using assms(2) Cons by (simp add: no_digit_def digit_char_def)
  qed
  moreover from this g have "spamd_digits l (int v) = (int v, c, l2)"
    by (subst spamd_digits.simps) simp
  ultimately show ?case using g Nil by auto
next
  case (Cons d ds)
  have d: "char_code d - 48 = int (of_char d - 48)" "char_code d < 128" "isdigit_c (char_code d)"
    using digit_code Cons.prems(1) by auto
  obtain l' where g: "Lexer_getc l = (char_code d, l')" "lex_todo l' = ds @ cs" "\<not> seen_end l'"
    using Lexer_getc_ascii [of l d "ds @ cs"] Cons.prems(3,4) d(2) by auto
  let ?v = "10 * v + (of_char d - 48)"
  have "?v \<le> 255" using dec_value_ge [of ?v ds] Cons.prems(2) by simp
  then have "spamd_digits l (int v) = spamd_digits l' (int ?v)"
    using g(1) d by (subst spamd_digits.simps) (simp add: SPAMD_LEXER_MAX_INT8_def Let_def mult.commute)
  then show ?case using Cons.IH [of ?v l'] Cons.prems g by simp
qed

lemma next_token_int:
  assumes "ready l (dec_digits n @ cs)" and "no_digit cs" and "n \<le> 255"
  shows "\<exists>l'. Spamd_lexer_next_token l =
           (if n \<le> 32 then SPAMD_LEXER_TOK_INT6 else SPAMD_LEXER_TOK_INT8, l') \<and> ready l' cs \<and> tok_int l' = int n"
proof -
  obtain d ds where dd: "dec_digits n = d # ds" by (meson dec_digits_not_Nil list.exhaust)
  have se: "\<not> seen_end l" and td: "lex_todo l = d # ds @ cs" using assms(1) dd by (auto simp: ready_def)
  have d: "char_code d - 48 = int (of_char d - 48)" "char_code d < 128" "isdigit_c (char_code d)"
    using digit_code [of d] dec_digits_all [of n] dd by auto
  obtain l1 where g: "Lexer_getc l = (char_code d, l1)" "lex_todo l1 = ds @ cs" "\<not> seen_end l1"
    using Lexer_getc_ascii [OF td d(2)] se by metis
  have v: "dec_value (of_char d - 48) ds = n" using dec_digits_value [of n] by (simp add: dd)
  obtain c l2 l3 where s: "spamd_digits l1 (int (of_char d - 48)) = (int n, c, l3)" "Lexer_getc l2 = (c, l3)"
    "lex_todo l2 = cs" "\<not> seen_end l2" "\<not> isdigit_c c"
    using spamd_digits_text [of ds cs "of_char d - 48" l1] dec_digits_all [of n] assms(2,3) g dd v by auto
  let ?l = "Lexer_reuse_char (l3\<lparr>current_value := Val_i (int n)\<rparr>) c"
  have r: "ready ?l cs"
  proof (cases cs)
    case Nil
    then have "c = EOF" "lex_source l3 = lex_source l2" using Lexer_getc_end [of l2] s(2,3) by auto
    then show ?thesis using s(3) Nil by (simp add: ready_def Lexer_reuse_char_def lex_todo_def)
  next
    case (Cons k ks)
    then have k: "lex_todo l2 = k # ks" "char_code k < 128" using assms(2) s(3) by (auto simp: no_digit_def)
    then have "c = char_code k" using Lexer_getc_ascii [OF k] s(2) by (metis prod.inject)
    then have c: "0 \<le> c" using char_code_bounds [of k] by simp
    then show ?thesis
      using Lexer_ungetc_todo(1,2) [OF s(2) c] s(3,4)
      by (auto simp: ready_def Lexer_reuse_char_def Lexer_ungetc_def lex_todo_def Let_def split: if_splits)
  qed
  have "tok_int ?l = int n"
    by (simp add: tok_int_def Lexer_reuse_char_def Lexer_ungetc_def Let_def)
  then show ?thesis
    using se g(1) d s(1) r
    by (subst Spamd_lexer_next_token.simps)
       (auto simp: return_tok_def SPAMD_LEXER_MAX_INT6_def ready_def lex_todo_def tok_int_def Let_def)
qed

lemma next_token_char:
  assumes "ready l (c # cs)" and "(c, tok) \<in> {(CHR ''.'', SPAMD_LEXER_TOK_DOT), (CHR ''-'', SPAMD_LEXER_TOK_DASH),
      (CHR ''/'', SPAMD_LEXER_TOK_SLASH), (CHR 0x0A, SPAMD_LEXER_TOK_EOL)}"
  shows "\<exists>l'. Spamd_lexer_next_token l = (tok, l') \<and> ready l' cs"
proof -
  have se: "\<not> seen_end l" and td: "lex_todo l = c # cs" using assms(1) by (auto simp: ready_def)
  have code: "char_code c < 128" using assms(2) by (auto simp: char_code_def)
  obtain l1 where g: "Lexer_getc l = (char_code c, l1)" "lex_todo l1 = cs" "\<not> seen_end l1"
    using Lexer_getc_ascii [OF td code] se by metis
  show ?thesis
    using assms(2) se g
    by (subst Spamd_lexer_next_token.simps)
       (auto simp: return_tok_def ready_def lex_todo_def char_code_def isdigit_c_def)
qed

lemma next_token_end: "ready l [] \<Longrightarrow> \<exists>l'. Spamd_lexer_next_token l = (SPAMD_LEXER_TOK_EOF, l') \<and> ready l' []"
  using Lexer_getc_end [of l]
  by (subst Spamd_lexer_next_token.simps) (auto simp: ready_def isdigit_c_def lex_todo_def)

section \<open>Parsing a printed feed\<close>

text \<open>The text in front of the parser, its current token included.\<close>

definition sees :: "Spamd_parser_T \<Rightarrow> char list \<Rightarrow> bool" where
  "sees p cs \<longleftrightarrow> (\<exists>l. ready l cs \<and> Spamd_lexer_next_token l = (sp_curr p, sp_lexer p))"

lemma advance_fields [simp]:
  "sp_start (advance p) = sp_start p" "sp_end (advance p) = sp_end p"
  "sp_blacklist (advance p) = sp_blacklist p" "sp_type (advance p) = sp_type p"
  by (simp_all add: advance_def split: prod.splits)

lemma sees_advance: "ready (sp_lexer p) cs \<Longrightarrow> sees (advance p) cs"
  unfolding sees_def advance_def by (intro exI [of _ "sp_lexer p"]) (simp split: prod.splits)

lemma sees_int:
  assumes "sees p (dec_digits n @ cs)" and "no_digit cs" and "n \<le> 255"
  shows "sp_curr p = (if n \<le> 32 then SPAMD_LEXER_TOK_INT6 else SPAMD_LEXER_TOK_INT8)"
    and "tok_int (sp_lexer p) = int n" and "ready (sp_lexer p) cs"
  using assms next_token_int unfolding sees_def by fastforce+

lemma sees_char:
  assumes "sees p (c # cs)" and "(c, tok) \<in> {(CHR ''.'', SPAMD_LEXER_TOK_DOT), (CHR ''-'', SPAMD_LEXER_TOK_DASH),
      (CHR ''/'', SPAMD_LEXER_TOK_SLASH), (CHR 0x0A, SPAMD_LEXER_TOK_EOL)}"
  shows "sp_curr p = tok" and "ready (sp_lexer p) cs"
  using assms next_token_char [OF _ assms(2), of _ cs] unfolding sees_def by fastforce+

lemma sees_end: "sees p [] \<Longrightarrow> sp_curr p = SPAMD_LEXER_TOK_EOF \<and> ready (sp_lexer p) []"
  using next_token_end unfolding sees_def by fastforce

lemma no_digit_char [simp]: "\<not> digit_char c \<Longrightarrow> char_code c < 128 \<Longrightarrow> no_digit (c # cs)"
  by (simp add: no_digit_def)

lemma no_digit_seps [simp]:
  "no_digit []" "no_digit (CHR ''.'' # cs)" "no_digit (CHR ''-'' # cs)" "no_digit (CHR ''/'' # cs)"
  "no_digit (CHR 0x0A # cs)"
  by (simp_all add: no_digit_def digit_char_def isdigit_c_def char_code_def)

definition quad :: "u32 \<Rightarrow> nat \<Rightarrow> nat" where
  "quad a k = unat (drop_bit (24 - 8 * k) a AND 255)"

lemma quad_le: "quad a k \<le> 255"
proof -
  have "drop_bit (24 - 8 * k) a AND 255 \<le> (255 :: u32)" by (rule word_and_le1)
  then show ?thesis by (simp add: quad_def word_le_nat_alt)
qed

definition set_quad :: "bool \<Rightarrow> nat \<Rightarrow> u8 \<Rightarrow> Spamd_parser_T \<Rightarrow> Spamd_parser_T" where
  "set_quad start i v p =
     (if start then p\<lparr>sp_start := (sp_start p)[i := v]\<rparr> else p\<lparr>sp_end := (sp_end p)[i := v]\<rparr>)"

lemma set_quad_lexer [simp]: "sp_lexer (set_quad start i v p) = sp_lexer p" "sp_curr (set_quad start i v p) = sp_curr p"
  by (simp_all add: set_quad_def)

lemma address_loop_quad:
  assumes "sees p (dec_digits n @ CHR ''.'' # cs)" and "n \<le> 255" and "i < 3"
  shows "\<exists>p'. address_loop start (Suc k) i p = address_loop start k (i + 1) p' \<and> sees p' cs \<and>
           (\<exists>t l. p' = (set_quad start i (of_nat n) p)\<lparr>sp_curr := t, sp_lexer := l\<rparr>)"
proof -
  note si = sees_int [OF assms(1) no_digit_seps(2) assms(2)]
  let ?p1 = "set_quad start i (of_nat n) p"
  have s2: "sees (advance ?p1) (CHR ''.'' # cs)" using sees_advance [of ?p1] si(3) by simp
  note sc = sees_char [OF s2, of SPAMD_LEXER_TOK_DOT]
  have s3: "sees (advance (advance ?p1)) cs" using sees_advance [of "advance ?p1"] sc by simp
  have "address_loop start (Suc k) i p = address_loop start k (i + 1) (advance (advance ?p1))"
    using si(1,2) sc(1) assms(3)
    by (auto simp: tok_accept_def tok_accept_no_advance_def set_quad_def SPAMD_PARSER_IPV4_QUADS_def Let_def
        spamd_toks split: if_splits)
  moreover have "\<exists>t l. advance (advance ?p1) = ?p1\<lparr>sp_curr := t, sp_lexer := l\<rparr>"
    by (simp add: advance_def split: prod.splits) metis
  ultimately show ?thesis using s3 by blast
qed

lemma address_loop_last:
  assumes "sees p (dec_digits n @ cs)" and "no_digit cs" and "n \<le> 255"
  shows "\<exists>p'. address_loop start (Suc 0) 3 p = (True, p') \<and> sees p' cs \<and>
           (\<exists>t l. p' = (set_quad start 3 (of_nat n) p)\<lparr>sp_curr := t, sp_lexer := l\<rparr>)"
proof -
  note si = sees_int [OF assms]
  let ?p1 = "set_quad start 3 (of_nat n) p"
  have s2: "sees (advance ?p1) cs" using sees_advance [of ?p1] si(3) by simp
  have "address_loop start (Suc 0) 3 p = (True, advance ?p1)"
    using si(1,2) by (auto simp: tok_accept_no_advance_def set_quad_def SPAMD_PARSER_IPV4_QUADS_def Let_def)
  moreover have "\<exists>t l. advance ?p1 = ?p1\<lparr>sp_curr := t, sp_lexer := l\<rparr>"
    by (simp add: advance_def split: prod.splits) metis
  ultimately show ?thesis using s2 by blast
qed

lemma inet_ntoa_quads:
  "inet_ntoa a = dec_digits (quad a 0) @ CHR ''.'' # dec_digits (quad a 1) @ CHR ''.'' # dec_digits (quad a 2) @
     CHR ''.'' # dec_digits (quad a 3)"
  by (simp add: inet_ntoa_def quad_def)

lemma quad_byte: "(of_nat (quad a k) :: u8) = ucast (drop_bit (24 - 8 * k) a)"
proof -
  have m: "(255 :: u32) = mask 8" by (simp add: mask_eq_exp_minus_1)
  have "(of_nat (quad a k) :: u8) = ucast (drop_bit (24 - 8 * k) a AND 255)"
    unfolding quad_def by (rule of_nat_unat)
  also have "\<dots> = ucast (drop_bit (24 - 8 * k) a)"
    unfolding m by (rule bit_word_eqI) (auto simp: bit_simps possible_bit_word)
  finally show ?thesis .
qed

lemma quads_word:
  "length bs = 4 \<Longrightarrow>
   bytes_word (bs[0 := of_nat (quad a 0), 1 := of_nat (quad a 1), 2 := of_nat (quad a 2), 3 := of_nat (quad a 3)]) 0 = a"
  by (rule bytes_word_bytes) (simp_all add: quad_byte numeral_2_eq_2 numeral_3_eq_3)

lemma grammar_address_text:
  assumes "sees p (inet_ntoa a @ cs)" and "no_digit cs"
  shows "\<exists>p'. grammar_address p start = (True, p') \<and> sees p' cs \<and>
     (\<exists>t l. p' = (if start then p\<lparr>sp_start := (sp_start p)[0 := of_nat (quad a 0), 1 := of_nat (quad a 1),
                                    2 := of_nat (quad a 2), 3 := of_nat (quad a 3)]\<rparr>
              else p\<lparr>sp_end := (sp_end p)[0 := of_nat (quad a 0), 1 := of_nat (quad a 1),
                                    2 := of_nat (quad a 2), 3 := of_nat (quad a 3)]\<rparr>)\<lparr>sp_curr := t, sp_lexer := l\<rparr>)"
proof -
  have s0: "sees p (dec_digits (quad a 0) @ CHR ''.'' # dec_digits (quad a 1) @ CHR ''.'' # dec_digits (quad a 2) @
     CHR ''.'' # dec_digits (quad a 3) @ cs)" using assms(1) by (simp add: inet_ntoa_quads)
  obtain p1 t1 l1 where 1: "address_loop start (Suc (Suc (Suc (Suc 0)))) 0 p = address_loop start (Suc (Suc (Suc 0))) 1 p1"
    "sees p1 (dec_digits (quad a 1) @ CHR ''.'' # dec_digits (quad a 2) @ CHR ''.'' # dec_digits (quad a 3) @ cs)"
    "p1 = (set_quad start 0 (of_nat (quad a 0)) p)\<lparr>sp_curr := t1, sp_lexer := l1\<rparr>"
    using address_loop_quad [OF s0 quad_le, of 0 start "Suc (Suc (Suc 0))"] by (auto simp del: address_loop.simps)
  obtain p2 t2 l2 where 2: "address_loop start (Suc (Suc (Suc 0))) 1 p1 = address_loop start (Suc (Suc 0)) 2 p2"
    "sees p2 (dec_digits (quad a 2) @ CHR ''.'' # dec_digits (quad a 3) @ cs)"
    "p2 = (set_quad start 1 (of_nat (quad a 1)) p1)\<lparr>sp_curr := t2, sp_lexer := l2\<rparr>"
    using address_loop_quad [OF 1(2) quad_le, of 1 start "Suc (Suc 0)"]
    by (auto simp: numeral_2_eq_2 simp del: address_loop.simps)
  obtain p3 t3 l3 where 3: "address_loop start (Suc (Suc 0)) 2 p2 = address_loop start (Suc 0) 3 p3"
    "sees p3 (dec_digits (quad a 3) @ cs)"
    "p3 = (set_quad start 2 (of_nat (quad a 2)) p2)\<lparr>sp_curr := t3, sp_lexer := l3\<rparr>"
    using address_loop_quad [OF 2(2) quad_le, of 2 start "Suc 0"] by (auto simp del: address_loop.simps)
  obtain p4 t4 l4 where 4: "address_loop start (Suc 0) 3 p3 = (True, p4)" "sees p4 cs"
    "p4 = (set_quad start 3 (of_nat (quad a 3)) p3)\<lparr>sp_curr := t4, sp_lexer := l4\<rparr>"
    using address_loop_last [OF 3(2) assms(2) quad_le, of start] by (auto simp del: address_loop.simps)
  have "grammar_address p start = (True, p4)"
    using 1(1) 2(1) 3(1) 4(1)
    by (simp add: grammar_address_def SPAMD_PARSER_IPV4_QUADS_def numeral_eq_Suc del: address_loop.simps)
  then show ?thesis
    using 4(2) by (cases start) (auto simp: 1(3) 2(3) 3(3) 4(3) set_quad_def)
qed

text \<open>The entries of a feed, how they are written, and the range each stands for.\<close>

datatype feed_entry = Single u32 | Cidr u32 nat | Range u32 u32

fun print_entry :: "feed_entry \<Rightarrow> string" where
  "print_entry (Single a) = inet_ntoa a"
| "print_entry (Cidr a b) = inet_ntoa a @ CHR ''/'' # dec_digits b"
| "print_entry (Range a b) = inet_ntoa a @ CHR ''-'' # inet_ntoa b"

fun feed_range :: "feed_entry \<Rightarrow> u32 \<times> u32" where
  "feed_range (Single a) = (a, a + 1)"
| "feed_range (Cidr a b) = (a, a + push_bit (32 - b) 1)"
| "feed_range (Range a b) = (a, b + 1)"

fun feed_ok :: "feed_entry \<Rightarrow> bool" where
  "feed_ok (Cidr a b) \<longleftrightarrow> 1 \<le> b \<and> b \<le> 32"
| "feed_ok _ \<longleftrightarrow> True"

fun print_feed :: "feed_entry list \<Rightarrow> string" where
  "print_feed [] = []"
| "print_feed (e # es) = print_entry e @ CHR 0x0A # print_feed es"

definition quads_ready :: "Spamd_parser_T \<Rightarrow> bool" where
  "quads_ready p \<longleftrightarrow> length (sp_start p) = 4 \<and> length (sp_end p) = 4"

lemma grammar_address_start:
  assumes "sees p (inet_ntoa a @ cs)" and "no_digit cs" and "quads_ready p"
  obtains p' where "grammar_address p True = (True, p')" and "sees p' cs" and "bytes_word (sp_start p') 0 = a"
    and "quads_ready p'" and "sp_blacklist p' = sp_blacklist p" and "sp_type p' = sp_type p"
  using grammar_address_text [OF assms(1,2), of True] assms(3) quads_word [of "sp_start p" a]
  by (auto simp: quads_ready_def)

lemma grammar_address_end:
  assumes "sees p (inet_ntoa a @ cs)" and "no_digit cs" and "quads_ready p"
  obtains p' where "grammar_address p False = (True, p')" and "sees p' cs" and "bytes_word (sp_end p') 0 = a"
    and "sp_start p' = sp_start p" and "quads_ready p'" and "sp_blacklist p' = sp_blacklist p" and "sp_type p' = sp_type p"
  using grammar_address_text [OF assms(1,2), of False] assms(3) quads_word [of "sp_end p" a]
  by (auto simp: quads_ready_def)

lemma tok_accept_seen: "sp_curr p = tok \<Longrightarrow> tok \<noteq> SPAMD_LEXER_TOK_EOL \<Longrightarrow> tok_accept p tok = (True, advance p)"
  and tok_accept_other: "sp_curr p \<noteq> tok \<Longrightarrow> tok_accept p tok = (False, p)"
  by (auto simp: tok_accept_def tok_accept_no_advance_def)

lemma quads_ready_advance [simp]: "quads_ready (advance p) = quads_ready p"
  by (simp add: quads_ready_def)

lemma grammar_entry_via:
  assumes "grammar_address p True = (True, p1)" and "entry_range p1 = Some (Some (st, en), p2)"
    and "Blacklist_add_range (sp_blacklist p2) st en (sp_type p2) = Some bl"
  shows "grammar_entry p = Some (True, p2\<lparr>sp_blacklist := bl\<rparr>)"
  using assms by (simp add: grammar_entry_def)

lemma entry_range_text:
  assumes "sees p (drop (length (inet_ntoa a)) (print_entry e) @ CHR 0x0A # cs)" and "feed_ok e" and "quads_ready p"
    and "bytes_word (sp_start p) 0 = a" and "fst (feed_range e) = a"
  obtains p' where "entry_range p = Some (Some (feed_range e), p')" and "sees p' (CHR 0x0A # cs)"
    and "quads_ready p'" and "sp_blacklist p' = sp_blacklist p" and "sp_type p' = sp_type p"
proof (cases e)
  case (Single b)
  then have s: "sees p (CHR 0x0A # cs)" using assms(1,5) by simp
  then have "sp_curr p = SPAMD_LEXER_TOK_EOL" by (rule sees_char) simp
  then have "entry_range p = Some (Some (feed_range e), p)"
    using Single assms(4,5) by (simp add: entry_range_def tok_accept_other spamd_toks)
  then show ?thesis using that s assms(3) by blast
next
  case (Cidr b n)
  then have s: "sees p (CHR ''/'' # dec_digits n @ CHR 0x0A # cs)" using assms(1,5) by simp
  note sc = sees_char [OF s, of SPAMD_LEXER_TOK_SLASH]
  have s1: "sees (advance p) (dec_digits n @ CHR 0x0A # cs)" using sees_advance sc by simp
  have n: "1 \<le> n" "n \<le> 32" using assms(2) Cidr by auto
  note si = sees_int [OF s1 no_digit_seps(5)]
  have s2: "sees (advance (advance p)) (CHR 0x0A # cs)" using sees_advance si(3) n by simp
  have "entry_range p = Some (Some (feed_range e), advance (advance p))"
    using Cidr assms(4,5) sc si(1,2) n
    by (simp add: entry_range_def tok_accept_seen tok_accept_no_advance_def IP_cidr_to_range_def shl_one_range spamd_toks)
  then show ?thesis using that s2 assms(3) by simp
next
  case (Range b c)
  then have s: "sees p (CHR ''-'' # inet_ntoa c @ CHR 0x0A # cs)" using assms(1,5) by simp
  note sc = sees_char [OF s, of SPAMD_LEXER_TOK_DASH]
  have s1: "sees (advance p) (inet_ntoa c @ CHR 0x0A # cs)" using sees_advance sc by simp
  obtain p3 where p3: "grammar_address (advance p) False = (True, p3)" "sees p3 (CHR 0x0A # cs)"
    "bytes_word (sp_end p3) 0 = c" "sp_start p3 = sp_start p" "quads_ready p3"
    "sp_blacklist p3 = sp_blacklist p" "sp_type p3 = sp_type p"
    using grammar_address_end [OF s1 no_digit_seps(5)] assms(3) by auto
  have "entry_range p = Some (Some (feed_range e), p3)"
    using Range assms(4,5) sc p3(1,3,4)
    by (simp add: entry_range_def tok_accept_seen tok_accept_other spamd_toks)
  then show ?thesis using that p3 by blast
qed

lemma print_entry_address:
  "print_entry e = inet_ntoa (fst (feed_range e)) @ drop (length (inet_ntoa (fst (feed_range e)))) (print_entry e)"
  by (cases e) auto

lemma entry_rest_no_digit:
  "no_digit (drop (length (inet_ntoa (fst (feed_range e)))) (print_entry e) @ CHR 0x0A # cs)"
  by (cases e) auto

lemma grammar_entry_text:
  assumes "sees p (print_entry e @ CHR 0x0A # cs)" and "feed_ok e" and "quads_ready p"
    and "Blacklist_add_range (sp_blacklist p) (fst (feed_range e)) (snd (feed_range e)) (sp_type p) = Some bl"
  obtains p' where "grammar_entry p = Some (True, p')" and "sees p' (CHR 0x0A # cs)" and "quads_ready p'"
    and "sp_blacklist p' = bl" and "sp_type p' = sp_type p"
proof -
  let ?a = "fst (feed_range e)"
  have s: "sees p (inet_ntoa ?a @ drop (length (inet_ntoa ?a)) (print_entry e) @ CHR 0x0A # cs)"
    using assms(1) print_entry_address [of e] by (metis append.assoc)
  obtain p1 where p1: "grammar_address p True = (True, p1)"
    "sees p1 (drop (length (inet_ntoa ?a)) (print_entry e) @ CHR 0x0A # cs)"
    "bytes_word (sp_start p1) 0 = ?a" "quads_ready p1" "sp_blacklist p1 = sp_blacklist p" "sp_type p1 = sp_type p"
    by (rule grammar_address_start [OF s entry_rest_no_digit assms(3)])
  obtain p2 where p2: "entry_range p1 = Some (Some (feed_range e), p2)" "sees p2 (CHR 0x0A # cs)" "quads_ready p2"
    "sp_blacklist p2 = sp_blacklist p1" "sp_type p2 = sp_type p1"
    by (rule entry_range_text [OF p1(2) assms(2) p1(4,3) refl])
  have "grammar_entry p = Some (True, p2\<lparr>sp_blacklist := bl\<rparr>)"
    by (rule grammar_entry_via [OF p1(1), of "fst (feed_range e)" "snd (feed_range e)"]) (use p1 p2 assms(4) in simp_all)
  moreover have "sees (p2\<lparr>sp_blacklist := bl\<rparr>) (CHR 0x0A # cs)" "quads_ready (p2\<lparr>sp_blacklist := bl\<rparr>)"
    using p2(2,3) by (auto simp: sees_def quads_ready_def)
  ultimately show thesis using that p1 p2 by simp
qed

definition add_feed :: "int \<Rightarrow> Blacklist_T \<Rightarrow> feed_entry list \<Rightarrow> Blacklist_T option" where
  "add_feed type bl es =
     fold_opt (\<lambda>bl e. Blacklist_add_range bl (fst (feed_range e)) (snd (feed_range e)) type) bl es"

lemma sees_feed_curr: "sees p (print_feed es) \<Longrightarrow> sp_curr p \<noteq> SPAMD_LEXER_TOK_EOL"
proof (cases es)
  case Nil
  then show "sees p (print_feed es) \<Longrightarrow> ?thesis" using sees_end [of p] by (auto simp: spamd_toks)
next
  case (Cons e es')
  let ?a = "fst (feed_range e)"
  assume "sees p (print_feed es)"
  then have "sees p (dec_digits (quad ?a 0) @ CHR ''.'' # dec_digits (quad ?a 1) @ CHR ''.'' # dec_digits (quad ?a 2) @
     CHR ''.'' # dec_digits (quad ?a 3) @ drop (length (inet_ntoa ?a)) (print_entry e) @ CHR 0x0A # print_feed es')"
    using Cons print_entry_address [of e] inet_ntoa_quads [of ?a] by (metis append.assoc append_Cons print_feed.simps(2))
  from sees_int(1) [OF this no_digit_seps(2) quad_le] show ?thesis by (simp add: spamd_toks)
qed

lemma skip_eols_none: "sp_curr p \<noteq> SPAMD_LEXER_TOK_EOL \<Longrightarrow> skip_eols p = p"
  by (subst skip_eols.simps) simp

lemma tok_accept_eol:
  assumes "sees p (CHR 0x0A # print_feed es)"
  shows "tok_accept p SPAMD_LEXER_TOK_EOL = (True, advance p)" and "sees (advance p) (print_feed es)"
proof -
  note sc = sees_char [OF assms, of SPAMD_LEXER_TOK_EOL]
  show s: "sees (advance p) (print_feed es)" using sees_advance sc(2) by simp
  show "tok_accept p SPAMD_LEXER_TOK_EOL = (True, advance p)"
    using sc(1) skip_eols_none [OF sees_feed_curr [OF s]] by (simp add: tok_accept_def tok_accept_no_advance_def)
qed

lemma grammar_entry_end: "sees p [] \<Longrightarrow> grammar_entry p = Some (False, p)"
  using sees_end [of p]
  by (simp add: grammar_entry_def grammar_address_def SPAMD_PARSER_IPV4_QUADS_def numeral_eq_Suc
      tok_accept_no_advance_def spamd_toks)

lemma grammar_entries_text:
  assumes "sees p (CHR 0x0A # print_feed es)" and "list_all feed_ok es" and "quads_ready p"
    and "add_feed (sp_type p) (sp_blacklist p) es = Some bl"
  shows "\<exists>p'. grammar_entries p = Some (True, p') \<and> sees p' [] \<and> sp_blacklist p' = bl"
  using assms
proof (induction es arbitrary: p)
  case Nil
  note te = tok_accept_eol [OF Nil(1)]
  then have "grammar_entry (advance p) = Some (False, advance p)" using grammar_entry_end by simp
  then show ?case
    using te Nil(4) by (subst grammar_entries.simps) (simp add: add_feed_def)
next
  case (Cons e es)
  note te = tok_accept_eol [OF Cons.prems(1)]
  obtain bl1 where bl1: "Blacklist_add_range (sp_blacklist p) (fst (feed_range e)) (snd (feed_range e)) (sp_type p) = Some bl1"
    "add_feed (sp_type p) bl1 es = Some bl"
    using Cons.prems(4) by (auto simp: add_feed_def bind_eq_Some_conv)
  obtain p1 where p1: "grammar_entry (advance p) = Some (True, p1)" "sees p1 (CHR 0x0A # print_feed es)"
    "quads_ready p1" "sp_blacklist p1 = bl1" "sp_type p1 = sp_type p"
    using grammar_entry_text [of "advance p" e "print_feed es" bl1] te(2) Cons.prems(2,3) bl1(1) by auto
  obtain p' where "grammar_entries p1 = Some (True, p')" "sees p' []" "sp_blacklist p' = bl"
    using Cons.IH [OF p1(2)] Cons.prems(2) p1(3,4,5) bl1(2) by auto
  then show ?case using te(1) p1(1) by (subst grammar_entries.simps) simp
qed

lemma Spamd_parser_start_text:
  assumes "ready (sp_lexer parser) (print_feed es)" and "es \<noteq> []" and "list_all feed_ok es" and "quads_ready parser"
    and "add_feed type blacklist es = Some bl"
  shows "\<exists>p'. Spamd_parser_start parser blacklist type = Some (True, p') \<and> sp_blacklist p' = bl"
proof -
  obtain e es' where es: "es = e # es'" using assms(2) by (cases es) auto
  let ?p0 = "advance (parser\<lparr>sp_blacklist := blacklist, sp_type := type\<rparr>)"
  have s0: "sees ?p0 (print_feed es)" using sees_advance assms(1) by simp
  have q0: "quads_ready ?p0" using assms(4) by (simp add: quads_ready_def)
  have t0: "tok_accept ?p0 SPAMD_LEXER_TOK_EOL = (False, ?p0)"
    using sees_feed_curr [OF s0] by (simp add: tok_accept_other)
  obtain bl1 where bl1: "Blacklist_add_range blacklist (fst (feed_range e)) (snd (feed_range e)) type = Some bl1"
    "add_feed type bl1 es' = Some bl"
    using assms(5) es by (auto simp: add_feed_def bind_eq_Some_conv)
  obtain p1 where p1: "grammar_entry ?p0 = Some (True, p1)" "sees p1 (CHR 0x0A # print_feed es')"
    "quads_ready p1" "sp_blacklist p1 = bl1" "sp_type p1 = type"
    using grammar_entry_text [of ?p0 e "print_feed es'" bl1] s0 q0 assms(3) bl1(1) es by auto
  obtain p2 where p2: "grammar_entries p1 = Some (True, p2)" "sees p2 []" "sp_blacklist p2 = bl"
    using grammar_entries_text [OF p1(2)] assms(3) es p1(3,4,5) bl1(2) by auto
  have "tok_accept p2 SPAMD_LEXER_TOK_EOF = (True, advance p2)"
    using sees_end [OF p2(2)] by (auto intro!: tok_accept_seen simp: spamd_toks)
  then show ?thesis
    using t0 p1(1) p2(1,3) by (auto simp: Spamd_parser_start_def Let_def)
qed

text \<open>The addresses an entry names, and how they relate to the range with an exclusive end.\<close>

fun feed_addrs :: "feed_entry \<Rightarrow> u32 set" where
  "feed_addrs (Single a) = {a}"
| "feed_addrs (Cidr a b) = {x. a \<le> x \<and> unat x < unat a + 2 ^ (32 - b)}"
| "feed_addrs (Range a b) = {a..b}"

lemma unat_Suc: "w \<noteq> 0xffffffff \<Longrightarrow> unat (w + 1 :: u32) = Suc (unat w)"
proof -
  assume "w \<noteq> 0xffffffff"
  then have "unat w \<noteq> unat (0xffffffff :: u32)" by (metis word_unat_eq_iff)
  then have "Suc (unat w) < 2 ^ 32" using unat_u32_less [of w] by simp
  then show ?thesis by (simp add: unat_word_ariths)
qed

lemma feed_range_addrs:
  assumes "feed_ok e" and "0xffffffff \<notin> feed_addrs e"
  shows "{x. fst (feed_range e) \<le> x \<and> x < snd (feed_range e)} = feed_addrs e"
proof (cases e)
  case (Single a)
  then have "unat (a + 1) = Suc (unat a)" using assms(2) by (auto intro: unat_Suc)
  then show ?thesis using Single by (auto simp: word_le_nat_alt word_less_nat_alt word_unat_eq_iff)
next
  case (Cidr a b)
  then have b: "1 \<le> b" "b \<le> 32" using assms(1) by auto
  have "unat a + 2 ^ (32 - b) < 2 ^ 32"
    using assms(2) Cidr unat_u32_less [of a] by (auto simp: word_le_nat_alt)
  then have "unat (a + push_bit (32 - b) 1) = unat a + 2 ^ (32 - b)"
    using unat_push_one [of "32 - b"] b by (simp add: unat_word_ariths)
  then show ?thesis using Cidr by (auto simp: word_le_nat_alt word_less_nat_alt)
next
  case (Range a b)
  show ?thesis
  proof (cases "b = 0xffffffff")
    case True
    then have "a \<le> b" using unat_u32_less [of a] by (simp add: word_le_nat_alt)
    then show ?thesis using assms(2) Range True by simp
  next
    case False
    then show ?thesis using Range unat_Suc [OF False] by (auto simp: word_le_nat_alt word_less_nat_alt)
  qed
qed

definition typed_range :: "int \<Rightarrow> feed_entry \<Rightarrow> u32 \<times> u32 \<times> int" where
  "typed_range type e = (fst (feed_range e), snd (feed_range e), type)"

lemma add_feed_ranges:
  "length es + 2 * length fs < BLACKLIST_INIT_SIZE \<Longrightarrow>
   add_feed type (list_of_ranges name message es) fs =
   Some (list_of_ranges name message (es @ concat (map range_entries (map (typed_range type) fs))))"
proof (induction fs arbitrary: es)
  case (Cons f fs)
  have len: "length (range_entries (typed_range type f)) \<le> 2" by (simp add: range_entries_def split: prod.splits)
  show ?case
    using Cons.IH [of "es @ range_entries (typed_range type f)"] Cons.prems len
      add_range_entries [of es name message "fst (feed_range f)" "snd (feed_range f)" type]
    by (simp add: add_feed_def typed_range_def)
qed (simp add: add_feed_def)

lemma in_feed_ranges:
  assumes "list_all feed_ok (bs @ ws)" and "\<forall>e\<in>set (bs @ ws). 0xffffffff \<notin> feed_addrs e"
  shows "in_black (map (typed_range BL_TYPE_BLACK) bs @ map (typed_range BL_TYPE_WHITE) ws) x \<longleftrightarrow>
           x \<in> \<Union> (feed_addrs ` set bs)"
    and "in_white (map (typed_range BL_TYPE_BLACK) bs @ map (typed_range BL_TYPE_WHITE) ws) x \<longleftrightarrow>
           x \<in> \<Union> (feed_addrs ` set ws)"
proof -
  have "\<forall>e\<in>set (bs @ ws). x \<in> feed_addrs e \<longleftrightarrow> fst (feed_range e) \<le> x \<and> x < snd (feed_range e)"
    using feed_range_addrs assms by (fastforce simp: list_all_iff)
  then show "in_black (map (typed_range BL_TYPE_BLACK) bs @ map (typed_range BL_TYPE_WHITE) ws) x \<longleftrightarrow>
           x \<in> \<Union> (feed_addrs ` set bs)"
    and "in_white (map (typed_range BL_TYPE_BLACK) bs @ map (typed_range BL_TYPE_WHITE) ws) x \<longleftrightarrow>
           x \<in> \<Union> (feed_addrs ` set ws)"
    by (auto simp: in_black_def in_white_def typed_range_def BL_TYPE_BLACK_def BL_TYPE_WHITE_def bex_Un)
qed

section \<open>Properties\<close>

text \<open>
  C28. Parsing inverts printing: a feed of addresses, CIDR blocks and ranges, written one per line, is
  accepted from every kind of source, and the entries it adds to the list are exactly the ranges of
  the feed, in order.
\<close>

theorem Spamd_parser_roundtrip:
  assumes "ready (sp_lexer parser) (print_feed es)" and "es \<noteq> []" and "list_all feed_ok es" and "quads_ready parser"
    and "add_feed type blacklist es = Some bl"
  shows "\<exists>p'. Spamd_parser_start parser blacklist type = Some (True, p') \<and> sp_blacklist p' = bl"
  by (rule Spamd_parser_start_text [OF assms])

text \<open>A parser at the start of a text.\<close>

definition text_parser :: "char list \<Rightarrow> Spamd_parser_T" where
  "text_parser cs =
     Spamd_parser_create [0, 0, 0, 0] [0, 0, 0, 0] 0
       (Lexer_create (Val_i 0) 0 (Lexer_source_create_from_str cs)) (Blacklist_create [] [] BL_STORAGE_LIST)"

lemma text_parser_ready: "ready (sp_lexer (text_parser cs)) cs" "quads_ready (text_parser cs)"
  by (simp_all add: text_parser_def ready_def lex_todo_def Lexer_create_def Lexer_source_create_from_str_def
      Spamd_parser_create_def quads_ready_def)

text \<open>C28 at a feed with one entry of each kind.\<close>

theorem Spamd_parser_roundtrip_witness:
  "\<exists>p' bl. add_feed BL_TYPE_BLACK (Blacklist_create ''a'' ''b'' BL_STORAGE_LIST)
        [Single 0x01020304, Cidr 0x0a000000 8, Range 5 9] = Some bl \<and>
      Spamd_parser_start (text_parser (print_feed [Single 0x01020304, Cidr 0x0a000000 8, Range 5 9]))
        (Blacklist_create ''a'' ''b'' BL_STORAGE_LIST) BL_TYPE_BLACK = Some (True, p') \<and> sp_blacklist p' = bl"
proof -
  let ?es = "[Single 0x01020304, Cidr 0x0a000000 8, Range 5 9]"
  obtain bl where bl: "add_feed BL_TYPE_BLACK (Blacklist_create ''a'' ''b'' BL_STORAGE_LIST) ?es = Some bl"
    using add_feed_ranges [of "[]" ?es BL_TYPE_BLACK "''a''" "''b''"]
    by (simp add: create_list_of_ranges BLACKLIST_INIT_SIZE_def)
  have "list_all feed_ok ?es" by simp
  from Spamd_parser_roundtrip [OF text_parser_ready(1) _ this text_parser_ready(2) bl] bl show ?thesis by blast
qed

text \<open>
  From the feeds to the firewall: after parsing a feed of black entries and a feed of white
  entries into one list, the collapsed list consists of CIDR strings whose blocks contain exactly the
  addresses named in the black feed and not in the white one, provided that no entry reaches
  255.255.255.255.
\<close>

theorem feeds_collapse_exact:
  assumes "ready (sp_lexer P) (print_feed bs)" and "quads_ready P"
    and "ready (sp_lexer Q) (print_feed ws)" and "quads_ready Q"
    and "bs \<noteq> []" and "ws \<noteq> []" and "list_all feed_ok (bs @ ws)"
    and "\<forall>e\<in>set (bs @ ws). 0xffffffff \<notin> feed_addrs e" and "\<exists>e\<in>set bs. feed_addrs e \<noteq> {}"
    and "2 * (length bs + length ws) < BLACKLIST_INIT_SIZE" and "qsort_spec qsort cmp_ipv4_entry"
  shows "\<exists>p q bl' cidrs cs.
     Spamd_parser_start P (Blacklist_create name message BL_STORAGE_LIST) BL_TYPE_BLACK = Some (True, p) \<and>
     Spamd_parser_start Q (sp_blacklist p) BL_TYPE_WHITE = Some (True, q) \<and>
     Blacklist_collapse qsort (sp_blacklist q) = Some (bl', Some cidrs) \<and>
     list_head cidrs = map IP_cidr_to_str cs \<and>
     \<Union> (cidr_set ` set cs) = \<Union> (feed_addrs ` set bs) - \<Union> (feed_addrs ` set ws)"
proof -
  let ?br = "map (typed_range BL_TYPE_BLACK) bs" and ?wr = "map (typed_range BL_TYPE_WHITE) ws"
  let ?be = "concat (map range_entries ?br)"
  have len: "length ?be \<le> 2 * length bs"
    by (induction bs) (auto simp: range_entries_def split: prod.splits)
  have add1: "add_feed BL_TYPE_BLACK (Blacklist_create name message BL_STORAGE_LIST) bs =
      Some (list_of_ranges name message ?be)"
    using add_feed_ranges [of "[]" bs] assms(10) by (simp add: create_list_of_ranges)
  have add2: "add_feed BL_TYPE_WHITE (list_of_ranges name message ?be) ws =
      Some (list_of_ranges name message (concat (map range_entries (?br @ ?wr))))"
    using add_feed_ranges [of ?be ws BL_TYPE_WHITE name message] assms(10) len by simp
  obtain p where p: "Spamd_parser_start P (Blacklist_create name message BL_STORAGE_LIST) BL_TYPE_BLACK = Some (True, p)"
    "sp_blacklist p = list_of_ranges name message ?be"
    using Spamd_parser_start_text [OF assms(1,5) _ assms(2) add1] assms(7) by auto
  obtain q where q: "Spamd_parser_start Q (sp_blacklist p) BL_TYPE_WHITE = Some (True, q)"
    "sp_blacklist q = list_of_ranges name message (concat (map range_entries (?br @ ?wr)))"
    using Spamd_parser_start_text [OF assms(3,6) _ assms(4) add2] assms(7) p(2) by auto
  obtain e where e: "e \<in> set bs" "feed_addrs e \<noteq> {}" using assms(9) by blast
  then have "\<exists>x. fst (feed_range e) \<le> x \<and> x < snd (feed_range e)"
    using feed_range_addrs [of e] assms(7,8) by (auto simp: list_all_iff)
  then have "fst (feed_range e) \<le> snd (feed_range e) \<and> snd (feed_range e) \<noteq> 0"
    by (auto simp: word_le_nat_alt word_less_nat_alt)
  then have ex: "\<exists>(st, en, type)\<in>set (?br @ ?wr). st \<le> en \<and> en \<noteq> 0"
    using e(1) by (intro bexI [of _ "typed_range BL_TYPE_BLACK e"]) (auto simp: typed_range_def)
  obtain bl' cidrs cs where c: "Blacklist_collapse qsort (sp_blacklist q) = Some (bl', Some cidrs)"
    "list_head cidrs = map IP_cidr_to_str cs"
    "\<Union> (cidr_set ` set cs) = {x. in_black (?br @ ?wr) x \<and> \<not> in_white (?br @ ?wr) x}"
    using collapse_ranges [OF assms(11) _ ex, of name message] assms(10) q(2) by auto
  have "{x. in_black (?br @ ?wr) x \<and> \<not> in_white (?br @ ?wr) x} =
      \<Union> (feed_addrs ` set bs) - \<Union> (feed_addrs ` set ws)"
    by (auto simp only: in_feed_ranges [OF assms(7,8)])
  then show ?thesis using p(1) q(1) c by auto
qed

text \<open>The statement at the feeds 10.0.0.0/8 and 10.1.0.0-10.1.0.9.\<close>

theorem feeds_collapse_exact_witness:
  "\<exists>p q bl' cidrs cs.
     Spamd_parser_start (text_parser (print_feed [Cidr 0x0a000000 8])) (Blacklist_create ''a'' ''b'' BL_STORAGE_LIST)
       BL_TYPE_BLACK = Some (True, p) \<and>
     Spamd_parser_start (text_parser (print_feed [Range 0x0a010000 0x0a010009])) (sp_blacklist p) BL_TYPE_WHITE =
       Some (True, q) \<and>
     Blacklist_collapse (\<lambda>cmp. sort_key s_addr) (sp_blacklist q) = Some (bl', Some cidrs) \<and>
     list_head cidrs = map IP_cidr_to_str cs \<and>
     \<Union> (cidr_set ` set cs) = feed_addrs (Cidr 0x0a000000 8) - {0x0a010000..0x0a010009}"
proof -
  have "sorted_wrt (\<lambda>a b. cmp_ipv4_entry a b \<le> 0) (sort_key s_addr xs)" for xs
    using sorted_sort_key [of s_addr xs] unfolding sorted_map
    by (rule sorted_wrt_mono_rel [rotated]) (auto simp: cmp_ipv4_entry_def)
  then have q: "qsort_spec (\<lambda>cmp. sort_key s_addr) cmp_ipv4_entry" by (simp add: qsort_spec_def)
  have ne: "feed_addrs (Cidr 0x0a000000 8) \<noteq> {}" by (auto intro: exI [of _ "0x0a000000"])
  have top: "0xffffffff \<notin> feed_addrs (Cidr 0x0a000000 8)" "0xffffffff \<notin> feed_addrs (Range 0x0a010000 0x0a010009)"
    by simp_all
  show ?thesis
    using feeds_collapse_exact [OF text_parser_ready text_parser_ready, of "[Cidr 0x0a000000 8]"
        "[Range 0x0a010000 0x0a010009]" "\<lambda>cmp. sort_key s_addr" "''a''" "''b''"] q ne top
    by (simp add: BLACKLIST_INIT_SIZE_def del: print_feed.simps feed_addrs.simps(2))
qed

text \<open>
  An entry that ends at 255.255.255.255 is lost: its exclusive end wraps to 0, so that the range
  is ignored unless it starts at 0.0.0.0.
\<close>

theorem top_entry_ignored:
  assumes "a \<noteq> 0"
  shows "Blacklist_add_range bl (fst (feed_range (Range a 0xffffffff))) (snd (feed_range (Range a 0xffffffff))) type = Some bl"
  using assms by (simp add: Blacklist_add_range_def word_less_nat_alt unat_gt_0)

text \<open>The statement at the upper half of the address space.\<close>

theorem top_entry_ignored_witness:
  "Blacklist_add_range (Blacklist_create ''a'' ''b'' BL_STORAGE_LIST) (fst (feed_range (Range 0x80000000 0xffffffff)))
     (snd (feed_range (Range 0x80000000 0xffffffff))) 1 = Some (Blacklist_create ''a'' ''b'' BL_STORAGE_LIST)"
  using top_entry_ignored [of "0x80000000"] by simp

end
