(* ===== verification/Greyd_Setup.thy ===== *)
theory Greyd_Setup
  imports Spamd_Parser Messages
begin

text \<open>
  Models \<open>src/src/main_greyd_setup.c\<close>, the program that fetches the configured lists, subtracts from each
  blacklist the whitelists that follow it, and sends the result to greyd and, in blacklisting only mode, to
  the firewall. Files, commands, the decompression of their output, the firewall and the connection to
  greyd are parameters. \<open>None\<close> is undefined behaviour or an exit with an error.
\<close>

section \<open>The environment\<close>

text \<open>
  What the program is run in: the decompressed content of a file and output of a command, if it can be
  opened or run; the firewall, if it can be opened; whether the configuration port can be connected to;
  and what \<open>malloc\<close> leaves in a parser.
\<close>

record setup_env =
  se_open :: "string \<Rightarrow> char list option"
  se_child :: "string list \<Rightarrow> char list option"
  se_fw_replace :: "(string \<Rightarrow> string list \<Rightarrow> u16 \<Rightarrow> int) option"
  se_connect :: "int \<Rightarrow> bool"
  se_check_addr :: "string \<Rightarrow> int"
  se_qsort :: "(Blacklist_entry \<Rightarrow> Blacklist_entry \<Rightarrow> int) \<Rightarrow> Blacklist_entry list \<Rightarrow> Blacklist_entry list"
  se_start :: "u8 list"
  se_end :: "u8 list"
  se_token :: int
  se_value :: Lexer_token_value

definition DEFAULT_CURL :: string where "DEFAULT_CURL = ''/bin/curl''"
definition DEFAULT_MSG :: string where "DEFAULT_MSG = ''You have been blacklisted...''"
definition GREYD_BLACKLIST :: string where "GREYD_BLACKLIST = ''greyd-blacklist''"
definition GREYD_CFG_PORT :: int where "GREYD_CFG_PORT = 8026"

section \<open>Fetching a list\<close>

definition open_child :: "setup_env \<Rightarrow> string list \<Rightarrow> char list option" where
  "open_child E argv = (if argv = [] then None else se_child E argv)"

definition file_get :: "setup_env \<Rightarrow> string \<Rightarrow> string option \<Rightarrow> string option \<Rightarrow> char list option" where
  "file_get E url curl_path proxy =
     (case curl_path of
        None \<Rightarrow> None
      | Some curl \<Rightarrow> open_child E ([curl, ''-s''] @ (case proxy of None \<Rightarrow> [url] | Some p \<Rightarrow> [''--proxy'', p, url])))"

text \<open>\<open>strncmp(method, METHOD_X, strlen(METHOD_X)) == 0\<close>.\<close>

definition has_method :: "string \<Rightarrow> string \<Rightarrow> bool" where
  "has_method method m \<longleftrightarrow> take (length m) method = m"

text \<open>
  \<open>strsep\<close> with blanks and tabs as delimiters: the word, and the rest unless there was no delimiter. The
  loop that fills \<open>argv\<close> ends when the string is used up or only the last element of the array is left;
  \<open>room\<close> is the number of elements before it.
\<close>

definition cut_word :: "string \<Rightarrow> string \<times> string option" where
  "cut_word s =
     (let w = takeWhile (\<lambda>c. c \<noteq> CHR '' '' \<and> c \<noteq> CHR 0x09) s
      in (w, if length w < length s then Some (drop (length w + 1) s) else None))"

function exec_words :: "nat \<Rightarrow> string option \<Rightarrow> string list" where
  "exec_words room file =
     (case (room, file) of
        (Suc n, Some s) \<Rightarrow>
          (let (w, rest) = cut_word s in if w \<noteq> [] then w # exec_words n rest else exec_words (Suc n) rest)
      | _ \<Rightarrow> [])"
  by pat_completeness auto
termination
  by (relation "measure (\<lambda>(room, file). case file of None \<Rightarrow> 0 | Some s \<Rightarrow> Suc (length s))")
     (auto simp: cut_word_def Let_def split: if_splits)

declare exec_words.simps [simp del]

text \<open>
  The source of a list, decompressed, with the configuration afterwards: \<open>strsep\<close> cuts the string in the
  configuration behind its first word. An array for an empty command has no element for the final \<open>NULL\<close>.
\<close>

definition fetch_list :: "setup_env \<Rightarrow> secref \<Rightarrow> Config_T \<Rightarrow> (char list option \<times> Config_T) option" where
  "fetch_list E r config =
     do { section \<leftarrow> get_sec config r;
          method \<leftarrow> Config_section_get_str section ''method'' None;
          file \<leftarrow> Config_section_get_str section ''file'' None;
          case file of
            None \<Rightarrow> Some (None, config)
          | Some f \<Rightarrow>
             (case method of
                None \<Rightarrow> Some (se_open E f, config)
              | Some m \<Rightarrow>
                  if has_method m ''file'' then Some (se_open E f, config)
                  else if has_method m ''http'' \<or> has_method m ''ftp''
                  then do { curl_path \<leftarrow> Config_get_str config ''curl_path'' (Some ''setup'') (Some DEFAULT_CURL);
                            curl_proxy \<leftarrow> Config_get_str config ''curl_proxy'' (Some ''setup'') None;
                            Some (file_get E (m @ ''://'' @ f) curl_path curl_proxy, config) }
                  else if has_method m ''exec''
                  then (if f = [] then None
                        else do { config' \<leftarrow> (if length f > 1 then update_sec config r (\<lambda>s. Config_section_set_str s ''file'' (fst (cut_word f)))
                                              else Some config);
                                  Some (open_child E (exec_words (length f - 1) (Some f)), config') })
                  else Some (None, config)) }"

definition get_parser :: "setup_env \<Rightarrow> secref \<Rightarrow> Config_T \<Rightarrow> (Spamd_parser_T option \<times> Config_T) option" where
  "get_parser E r config =
     do { (input, config') \<leftarrow> fetch_list E r config;
          Some (map_option (\<lambda>text. Spamd_parser_create (se_start E) (se_end E) (se_token E)
                  (Lexer_create (se_value E) (se_token E) (Lexer_source_create_from_gz text)) (Blacklist_create [] [] BL_STORAGE_LIST)) input,
                config') }"

section \<open>Sending a list\<close>

text \<open>
  The program: its configuration, the list that is being filled, the blocks for the firewall, what the
  firewall was given, and the port and text of each connection to greyd.
\<close>

record setup_state =
  ss_config :: Config_T
  ss_blacklist :: "Blacklist_T option"
  ss_cidrs :: "string List_T"
  ss_fw :: "(string \<times> string list) list"
  ss_sent :: "(int \<times> string) list"

definition send_blacklist :: "setup_env \<Rightarrow> bool \<Rightarrow> bool \<Rightarrow> setup_state \<Rightarrow> Blacklist_T \<Rightarrow> setup_state option" where
  "send_blacklist E greyonly final_list st blacklist =
     do { cfg_port \<leftarrow> Config_get_int (ss_config st) ''config_port'' None GREYD_CFG_PORT;
          (bl, cidrs) \<leftarrow> Blacklist_collapse (se_qsort E) blacklist;
          st1 \<leftarrow> (if greyonly then Some st
                 else do { c \<leftarrow> cidrs;
                           let all_cidrs = fold (\<lambda>cidr l. List_insert_after l cidr) (list_head c) (ss_cidrs st);
                           let st' = st\<lparr>ss_cidrs := all_cidrs\<rparr>;
                           if final_list
                           then do { fw_replace \<leftarrow> se_fw_replace E;
                                     if fw_replace GREYD_BLACKLIST (list_head all_cidrs) AF_INET < 0 then None
                                     else Some (st'\<lparr>ss_fw := ss_fw st @ [(GREYD_BLACKLIST, list_head all_cidrs)]\<rparr>) }
                           else Some st' });
          if se_connect E cfg_port
          then Some (st1\<lparr>ss_sent := ss_sent st1 @
                 [(cfg_port, case cidrs of None \<Rightarrow> [] | Some c \<Rightarrow> Greyd_send_config (se_check_addr E) (bl_name bl) (bl_message bl) c)]\<rparr>)
          else None }"

section \<open>The lists in order\<close>

text \<open>The common end of the loop body: a list that cannot be fetched is left out.\<close>

definition load_list :: "setup_env \<Rightarrow> secref \<Rightarrow> int \<Rightarrow> setup_state \<Rightarrow> setup_state option" where
  "load_list E r bltype st =
     do { (parser, config) \<leftarrow> get_parser E r (ss_config st);
          case parser of
            None \<Rightarrow> Some (st\<lparr>ss_config := config\<rparr>)
          | Some p \<Rightarrow> do { bl \<leftarrow> ss_blacklist st;
                         (ok, p') \<leftarrow> Spamd_parser_start p bl bltype;
                         Some (st\<lparr>ss_config := config, ss_blacklist := Some (sp_blacklist p')\<rparr>) } }"

definition setup_list :: "setup_env \<Rightarrow> bool \<Rightarrow> bool \<Rightarrow> setup_state \<Rightarrow> Config_value \<Rightarrow> setup_state option" where
  "setup_list E greyonly dryrun st val =
     (case cv_str (Some val) of
        None \<Rightarrow> Some st
      | Some list_name \<Rightarrow>
          do { black \<leftarrow> Config_get_blacklist (ss_config st) list_name;
               case black of
                 Some r \<Rightarrow>
                   do { st1 \<leftarrow> (case ss_blacklist st of None \<Rightarrow> Some st
                              | Some bl \<Rightarrow> if dryrun then Some st else send_blacklist E greyonly False st bl);
                        section \<leftarrow> get_sec (ss_config st1) r;
                        message \<leftarrow> Config_section_get_str section ''message'' (Some DEFAULT_MSG);
                        msg \<leftarrow> message;
                        load_list E r BL_TYPE_BLACK (st1\<lparr>ss_blacklist := Some (Blacklist_create list_name msg BL_STORAGE_LIST)\<rparr>) }
               | None \<Rightarrow>
                   do { white \<leftarrow> Config_get_whitelist (ss_config st) list_name;
                        case white of
                          Some r \<Rightarrow> if ss_blacklist st \<noteq> None then load_list E r BL_TYPE_WHITE st else Some st
                        | None \<Rightarrow> Some st } })"

text \<open>\<open>main\<close>, after the options \<open>-b\<close> (not \<open>greyonly\<close>) and \<open>-n\<close> and the configuration file have been read.\<close>

definition setup_main :: "setup_env \<Rightarrow> bool \<Rightarrow> bool \<Rightarrow> Config_T \<Rightarrow> setup_state option" where
  "setup_main E greyonly dryrun config0 =
     do { config \<leftarrow> Config_set_int config0 ''drop_privs'' None 0;
          lists \<leftarrow> Config_get_list config ''lists'' (Some ''setup'');
          vals \<leftarrow> lists;
          if vals = [] then None
          else do { st \<leftarrow> fold_opt (setup_list E greyonly dryrun)
                      \<lparr>ss_config = config, ss_blacklist = None, ss_cidrs = List_create, ss_fw = [], ss_sent = []\<rparr> vals;
                    case ss_blacklist st of
                      None \<Rightarrow> Some st
                    | Some bl \<Rightarrow> if dryrun then Some st else send_blacklist E greyonly True st bl } }"

section \<open>What it sends\<close>

text \<open>
  A blacklist of the configuration with the whitelists that follow it: the names, the message, and the
  entries of the feeds.
\<close>

record list_group =
  lg_name :: string
  lg_message :: string
  lg_black :: "feed_entry list"
  lg_whites :: "(string \<times> feed_entry list) list"

definition group_vals :: "list_group \<Rightarrow> Config_value list" where
  "group_vals g = Str_value (lg_name g) # map (\<lambda>(n, ws). Str_value n) (lg_whites g)"

definition group_white :: "list_group \<Rightarrow> feed_entry list" where
  "group_white g = concat (map snd (lg_whites g))"

definition group_addrs :: "list_group \<Rightarrow> u32 set" where
  "group_addrs g = \<Union> (feed_addrs ` set (lg_black g)) - \<Union> (feed_addrs ` set (group_white g))"

text \<open>The source of a list delivers a feed.\<close>

definition delivers :: "setup_env \<Rightarrow> Config_T \<Rightarrow> secref \<Rightarrow> feed_entry list \<Rightarrow> bool" where
  "delivers E c r es \<longleftrightarrow> fetch_list E r c = Some (Some (print_feed es), c) \<and> es \<noteq> [] \<and> list_all feed_ok es \<and>
     (\<forall>e\<in>set es. 0xffffffff \<notin> feed_addrs e)"

definition group_ok :: "setup_env \<Rightarrow> Config_T \<Rightarrow> list_group \<Rightarrow> bool" where
  "group_ok E c g \<longleftrightarrow>
     (\<exists>r s. Config_get_blacklist c (lg_name g) = Some (Some r) \<and> get_sec c r = Some s \<and>
        Config_section_get_str s ''message'' (Some DEFAULT_MSG) = Some (Some (lg_message g)) \<and> delivers E c r (lg_black g)) \<and>
     (\<forall>(n, ws)\<in>set (lg_whites g). Config_get_blacklist c n = Some None \<and>
        (\<exists>r. Config_get_whitelist c n = Some (Some r) \<and> delivers E c r ws)) \<and>
     (\<exists>e\<in>set (lg_black g). feed_addrs e \<noteq> {}) \<and> 2 * (length (lg_black g) + length (group_white g)) < BLACKLIST_INIT_SIZE"

definition group_ranges :: "list_group \<Rightarrow> (u32 \<times> u32 \<times> int) list" where
  "group_ranges g = map (typed_range BL_TYPE_BLACK) (lg_black g) @ map (typed_range BL_TYPE_WHITE) (group_white g)"

definition group_list :: "list_group \<Rightarrow> Blacklist_T" where
  "group_list g = list_of_ranges (lg_name g) (lg_message g) (concat (map range_entries (group_ranges g)))"

lemma range_entries_length: "length (concat (map range_entries rs)) \<le> 2 * length rs"
  by (induction rs) (auto simp: range_entries_def split: prod.splits)

lemma load_list_delivers:
  assumes "delivers E c r es" and "length (se_start E) = 4" and "length (se_end E) = 4"
    and "ss_config st = c" and "ss_blacklist st = Some (list_of_ranges n m xs)" and "length xs + 2 * length es < BLACKLIST_INIT_SIZE"
  shows "load_list E r type st =
    Some (st\<lparr>ss_blacklist := Some (list_of_ranges n m (xs @ concat (map range_entries (map (typed_range type) es))))\<rparr>)"
proof -
  let ?p = "Spamd_parser_create (se_start E) (se_end E) (se_token E)
      (Lexer_create (se_value E) (se_token E) (Lexer_source_create_from_gz (print_feed es))) (Blacklist_create [] [] BL_STORAGE_LIST)"
  have p: "ready (sp_lexer ?p) (print_feed es)" "quads_ready ?p"
    using assms(2,3) by (simp_all add: ready_def lex_todo_def Lexer_create_def Lexer_source_create_from_gz_def
        Spamd_parser_create_def quads_ready_def)
  have es: "es \<noteq> []" "list_all feed_ok es" using assms(1) by (simp_all add: delivers_def)
  obtain p' where p': "Spamd_parser_start ?p (list_of_ranges n m xs) type = Some (True, p')"
      "sp_blacklist p' = list_of_ranges n m (xs @ concat (map range_entries (map (typed_range type) es)))"
    using Spamd_parser_start_text [OF p(1) es p(2) add_feed_ranges [OF assms(6)]] by blast
  have g: "get_parser E r c = Some (Some ?p, c)" using assms(1) by (simp add: get_parser_def delivers_def)
  show ?thesis using g p' assms(4,5) by (simp add: load_list_def)
qed

lemma load_whites:
  assumes "\<forall>(n, ws)\<in>set whites. Config_get_blacklist c n = Some None \<and> (\<exists>r. Config_get_whitelist c n = Some (Some r) \<and> delivers E c r ws)"
    and "length (se_start E) = 4" and "length (se_end E) = 4"
    and "ss_config st = c" and "ss_blacklist st = Some (list_of_ranges n m (concat (map range_entries rs)))"
    and "2 * (length rs + length (concat (map snd whites))) < BLACKLIST_INIT_SIZE"
  shows "fold_opt (setup_list E greyonly dryrun) st (map (\<lambda>(n, ws). Str_value n) whites) =
    Some (st\<lparr>ss_blacklist := Some (list_of_ranges n m
      (concat (map range_entries (rs @ map (typed_range BL_TYPE_WHITE) (concat (map snd whites))))))\<rparr>)"
  using assms(1,4-6)
proof (induction whites arbitrary: st rs)
  case Nil
  then show ?case by (cases st) simp
next
  case (Cons w whites)
  obtain name ws where w: "w = (name, ws)" by fastforce
  obtain r where r: "Config_get_blacklist c name = Some None" "Config_get_whitelist c name = Some (Some r)" "delivers E c r ws"
    using Cons.prems(1) by (auto simp: w)
  let ?st = "st\<lparr>ss_blacklist := Some (list_of_ranges n m (concat (map range_entries (rs @ map (typed_range BL_TYPE_WHITE) ws))))\<rparr>"
  have "length (concat (map range_entries rs)) + 2 * length ws < BLACKLIST_INIT_SIZE"
    using range_entries_length [of rs] Cons.prems(4) by (simp add: w)
  from load_list_delivers [OF r(3) assms(2,3) Cons.prems(2,3) this]
  have "setup_list E greyonly dryrun st (Str_value name) = Some ?st"
    using r(1,2) Cons.prems(2,3) by (simp add: setup_list_def)
  then show ?case using Cons.IH [of ?st "rs @ map (typed_range BL_TYPE_WHITE) ws"] Cons.prems by (simp add: w)
qed

lemma load_group:
  assumes "group_ok E c g" and "length (se_start E) = 4" and "length (se_end E) = 4" and "ss_config st' = c"
    and before: "(case ss_blacklist st of None \<Rightarrow> Some st
      | Some bl \<Rightarrow> if dryrun then Some st else send_blacklist E greyonly False st bl) = Some st'" and "ss_config st = c"
  shows "fold_opt (setup_list E greyonly dryrun) st (group_vals g) = Some (st'\<lparr>ss_blacklist := Some (group_list g)\<rparr>)"
proof -
  obtain r s where r: "Config_get_blacklist c (lg_name g) = Some (Some r)" "get_sec c r = Some s"
      "Config_section_get_str s ''message'' (Some DEFAULT_MSG) = Some (Some (lg_message g))" "delivers E c r (lg_black g)"
    using assms(1) by (auto simp: group_ok_def)
  have room: "2 * (length (lg_black g) + length (concat (map snd (lg_whites g)))) < BLACKLIST_INIT_SIZE"
    using assms(1) by (simp add: group_ok_def group_white_def)
  let ?br = "map (typed_range BL_TYPE_BLACK) (lg_black g)"
  let ?st0 = "st'\<lparr>ss_blacklist := Some (list_of_ranges (lg_name g) (lg_message g) [])\<rparr>"
  let ?st1 = "st'\<lparr>ss_blacklist := Some (list_of_ranges (lg_name g) (lg_message g) (concat (map range_entries ?br)))\<rparr>"
  have "load_list E r BL_TYPE_BLACK ?st0 = Some ?st1"
    using load_list_delivers [OF r(4) assms(2,3), of ?st0] assms(4) room by simp
  then have first: "setup_list E greyonly dryrun st (Str_value (lg_name g)) = Some ?st1"
    using before r(1-3) assms(4,6) by (simp add: setup_list_def create_list_of_ranges)
  have whites: "\<forall>(n, ws)\<in>set (lg_whites g). Config_get_blacklist c n = Some None \<and> (\<exists>r. Config_get_whitelist c n = Some (Some r) \<and> delivers E c r ws)"
    using assms(1) by (simp add: group_ok_def)
  have c1: "ss_config ?st1 = c" using assms(4) by simp
  have room': "2 * (length ?br + length (concat (map snd (lg_whites g)))) < BLACKLIST_INIT_SIZE" using room by simp
  have bl: "ss_blacklist ?st1 = Some (list_of_ranges (lg_name g) (lg_message g) (concat (map range_entries ?br)))" by simp
  show ?thesis
    using first load_whites [OF whites assms(2,3) c1 bl room']
    by (simp add: group_vals_def group_list_def group_ranges_def group_white_def)
qed

text \<open>What is sent for a list of the configuration.\<close>

definition collapsed :: "list_group \<Rightarrow> string List_T \<Rightarrow> bool" where
  "collapsed g l \<longleftrightarrow> List_wf l \<and> (\<exists>cs. list_head l = map IP_cidr_to_str cs \<and> \<Union> (cidr_set ` set cs) = group_addrs g)"

lemma group_collapse:
  assumes "group_ok E c g" and "qsort_spec qsort cmp_ipv4_entry"
  shows "\<exists>bl l. Blacklist_collapse qsort (group_list g) = Some (bl, Some l) \<and> collapsed g l \<and>
    bl_name bl = lg_name g \<and> bl_message bl = lg_message g"
proof -
  have feeds: "list_all feed_ok (lg_black g @ group_white g)" "\<forall>e\<in>set (lg_black g @ group_white g). 0xffffffff \<notin> feed_addrs e"
  proof -
    have ok: "list_all feed_ok es \<and> (\<forall>e\<in>set es. 0xffffffff \<notin> feed_addrs e)" if "\<exists>r. delivers E c r es" for es
      using that by (auto simp: delivers_def)
    have "\<exists>r. delivers E c r (lg_black g)" using assms(1) unfolding group_ok_def by (elim conjE exE) blast
    note black = ok [OF this]
    have "\<exists>r. delivers E c r (snd p)" if "p \<in> set (lg_whites g)" for p
      using assms(1) that unfolding group_ok_def by (cases p) fastforce
    note white = ok [OF this]
    show "list_all feed_ok (lg_black g @ group_white g)" "\<forall>e\<in>set (lg_black g @ group_white g). 0xffffffff \<notin> feed_addrs e"
      using black white by (fastforce simp: group_white_def list_all_iff)+
  qed
  have room: "2 * length (group_ranges g) < BLACKLIST_INIT_SIZE" using assms(1) by (simp add: group_ok_def group_ranges_def)
  obtain e where e: "e \<in> set (lg_black g)" "feed_addrs e \<noteq> {}" using assms(1) by (auto simp: group_ok_def)
  then have "\<exists>x. fst (feed_range e) \<le> x \<and> x < snd (feed_range e)"
    using feed_range_addrs [of e] feeds by (auto simp: list_all_iff)
  then have "fst (feed_range e) \<le> snd (feed_range e) \<and> snd (feed_range e) \<noteq> 0"
    by (auto simp: word_le_nat_alt word_less_nat_alt)
  then have ex: "\<exists>(st, en, type)\<in>set (group_ranges g). st \<le> en \<and> en \<noteq> 0"
    using e(1) by (intro bexI [of _ "typed_range BL_TYPE_BLACK e"]) (auto simp: typed_range_def group_ranges_def)
  obtain bl l cs where c: "Blacklist_collapse qsort (group_list g) = Some (bl, Some l)" "list_head l = map IP_cidr_to_str cs"
      "\<Union> (cidr_set ` set cs) = {x. in_black (group_ranges g) x \<and> \<not> in_white (group_ranges g) x}"
    using collapse_ranges [OF assms(2) room ex, of "lg_name g" "lg_message g"] by (auto simp: group_list_def)
  have "\<Union> (cidr_set ` set cs) = group_addrs g"
    unfolding c(3) group_addrs_def group_ranges_def by (auto simp only: in_feed_ranges [OF feeds])
  moreover have "bl_name bl = lg_name g \<and> bl_message bl = lg_message g"
    using c(1) by (auto simp: Blacklist_collapse_def Let_def bind_eq_Some_conv group_list_def list_of_ranges_def Blacklist_create_def split: if_splits)
  ultimately show ?thesis using c(1,2) Blacklist_collapse_wf [OF c(1)] by (auto simp: collapsed_def)
qed

definition fw_works :: "setup_env \<Rightarrow> bool" where
  "fw_works E \<longleftrightarrow> (\<exists>f. se_fw_replace E = Some f \<and> (\<forall>ips. 0 \<le> f GREYD_BLACKLIST ips AF_INET))"

definition group_text :: "setup_env \<Rightarrow> list_group \<Rightarrow> string List_T \<Rightarrow> string" where
  "group_text E g l = Greyd_send_config (se_check_addr E) (lg_name g) (lg_message g) l"

lemma fold_insert_after [simp]: "list_head (fold (\<lambda>x l. List_insert_after l x) xs l) = list_head l @ xs"
  by (induction xs arbitrary: l) simp_all

lemma send_group:
  assumes "group_ok E c g" and "qsort_spec (se_qsort E) cmp_ipv4_entry" and "ss_config st = c"
    and "Config_get_int c ''config_port'' None GREYD_CFG_PORT = Some port" and "se_connect E port"
    and "greyonly \<or> \<not> final \<or> fw_works E"
  shows "\<exists>l st'. send_blacklist E greyonly final st (group_list g) = Some st' \<and> collapsed g l \<and> ss_config st' = c \<and>
    ss_blacklist st' = ss_blacklist st \<and> ss_sent st' = ss_sent st @ [(port, group_text E g l)] \<and>
    list_head (ss_cidrs st') = list_head (ss_cidrs st) @ (if greyonly then [] else list_head l) \<and>
    ss_fw st' = ss_fw st @ (if greyonly \<or> \<not> final then [] else [(GREYD_BLACKLIST, list_head (ss_cidrs st'))])"
proof -
  obtain bl l where l: "Blacklist_collapse (se_qsort E) (group_list g) = Some (bl, Some l)" "collapsed g l"
      "bl_name bl = lg_name g" "bl_message bl = lg_message g"
    using group_collapse [OF assms(1,2)] by blast
  show ?thesis
  proof (cases "greyonly \<or> \<not> final")
    case True
    then show ?thesis using l assms(3-5) by (intro exI [of _ l], cases greyonly) (simp_all add: send_blacklist_def group_text_def)
  next
    case False
    then obtain f where "se_fw_replace E = Some f" "\<forall>ips. 0 \<le> f GREYD_BLACKLIST ips AF_INET"
      using assms(6) by (auto simp: fw_works_def)
    then show ?thesis using False l assms(3-5) by (intro exI [of _ l]) (simp add: send_blacklist_def group_text_def not_less [symmetric])
  qed
qed

text \<open>The loop over the lists of groups: all but the last are sent when the next one begins.\<close>

lemma setup_groups:
  assumes "\<forall>g\<in>set (g # gs). group_ok E c g" and "qsort_spec (se_qsort E) cmp_ipv4_entry"
    and "length (se_start E) = 4" and "length (se_end E) = 4"
    and "Config_get_int c ''config_port'' None GREYD_CFG_PORT = Some port" and "se_connect E port"
    and "ss_config st = c" and "ss_blacklist st = Some (group_list g)"
  shows "\<exists>ls st'. fold_opt (setup_list E greyonly False) st (concat (map group_vals gs)) = Some st' \<and>
    list_all2 collapsed (butlast (g # gs)) ls \<and> ss_config st' = c \<and> ss_blacklist st' = Some (group_list (last (g # gs))) \<and>
    ss_sent st' = ss_sent st @ map (\<lambda>(g, l). (port, group_text E g l)) (zip (butlast (g # gs)) ls) \<and>
    list_head (ss_cidrs st') = list_head (ss_cidrs st) @ (if greyonly then [] else concat (map list_head ls)) \<and> ss_fw st' = ss_fw st"
  using assms(1,7,8)
proof (induction gs arbitrary: g st)
  case Nil
  then show ?case by simp
next
  case (Cons g' gs)
  obtain l st1 where 1: "send_blacklist E greyonly False st (group_list g) = Some st1" "collapsed g l" "ss_config st1 = c"
      "ss_sent st1 = ss_sent st @ [(port, group_text E g l)]" "ss_fw st1 = ss_fw st"
      "list_head (ss_cidrs st1) = list_head (ss_cidrs st) @ (if greyonly then [] else list_head l)"
    using send_group [OF _ assms(2) Cons.prems(2) assms(5,6), of g greyonly False] Cons.prems(1) by auto
  have ok: "group_ok E c g'" using Cons.prems(1) by simp
  let ?st = "st1\<lparr>ss_blacklist := Some (group_list g')\<rparr>"
  have step: "fold_opt (setup_list E greyonly False) st (group_vals g') = Some ?st"
    using load_group [OF ok assms(3,4) 1(3) _ Cons.prems(2)] 1(1) Cons.prems(3) by simp
  have "\<forall>g\<in>set (g' # gs). group_ok E c g" "ss_config ?st = c" "ss_blacklist ?st = Some (group_list g')"
    using Cons.prems(1) 1(3) by simp_all
  from Cons.IH [OF this] obtain ls st' where 2: "fold_opt (setup_list E greyonly False) ?st (concat (map group_vals gs)) = Some st'"
      "list_all2 collapsed (butlast (g' # gs)) ls" "ss_config st' = c" "ss_blacklist st' = Some (group_list (last (g' # gs)))"
      "ss_sent st' = ss_sent ?st @ map (\<lambda>(g, l). (port, group_text E g l)) (zip (butlast (g' # gs)) ls)"
      "list_head (ss_cidrs st') = list_head (ss_cidrs ?st) @ (if greyonly then [] else concat (map list_head ls))" "ss_fw st' = ss_fw ?st"
    by blast
  show ?case
    using step 1(2,4-6) 2 by (intro exI [of _ "l # ls"] exI [of _ st']) (simp add: fold_opt_append)
qed

section \<open>Properties\<close>

text \<open>
  C33. What \<open>greyd-setup\<close> sends: when the sources of the configured lists deliver feeds, each blacklist is sent to greyd once, by itself and in order,
  with its name and message, as CIDR blocks that hold exactly the addresses of its feed that are in none of the whitelists between it and the next
  blacklist; in blacklisting only mode the firewall table is replaced once, by the blocks of all blacklists. This is the code's rule and, for lists in which
  every blacklist has a whitelist behind it, also that of \<open>greyd.conf(5)\<close>. For consecutive blacklists the manual says otherwise: that they are merged, and that the whitelist
  behind them applies to all of them. The code sends them one by one and applies the whitelist to the last one only.
\<close>

theorem setup_sends_exact:
  assumes "Config_set_int config ''drop_privs'' None 0 = Some c"
    and "Config_get_list c ''lists'' (Some ''setup'') = Some (Some (concat (map group_vals gs)))" and "gs \<noteq> []"
    and "\<forall>g\<in>set gs. group_ok E c g" and "qsort_spec (se_qsort E) cmp_ipv4_entry"
    and "length (se_start E) = 4" and "length (se_end E) = 4"
    and "Config_get_int c ''config_port'' None GREYD_CFG_PORT = Some port" and "se_connect E port" and "greyonly \<or> fw_works E"
  shows "\<exists>ls st. setup_main E greyonly False config = Some st \<and> list_all2 collapsed gs ls \<and>
    ss_sent st = map (\<lambda>(g, l). (port, group_text E g l)) (zip gs ls) \<and>
    ss_fw st = (if greyonly then [] else [(GREYD_BLACKLIST, concat (map list_head ls))])"
proof -
  obtain g gs' where gs: "gs = g # gs'" using assms(3) by (cases gs) auto
  let ?init = "\<lparr>ss_config = c, ss_blacklist = None, ss_cidrs = List_create, ss_fw = [], ss_sent = []\<rparr>"
  let ?st = "?init\<lparr>ss_blacklist := Some (group_list g)\<rparr>"
  have start: "fold_opt (setup_list E greyonly False) ?init (group_vals g) = Some ?st"
    using load_group [of E c g ?init ?init False greyonly] assms(4,6,7) gs by simp
  obtain ls st' where s: "fold_opt (setup_list E greyonly False) ?st (concat (map group_vals gs')) = Some st'"
      "list_all2 collapsed (butlast gs) ls" "ss_config st' = c" "ss_blacklist st' = Some (group_list (last gs))"
      "ss_sent st' = map (\<lambda>(g, l). (port, group_text E g l)) (zip (butlast gs) ls)"
      "list_head (ss_cidrs st') = (if greyonly then [] else concat (map list_head ls))" "ss_fw st' = []"
    using setup_groups [of g gs' E c port ?st greyonly] assms(4-9) by (auto simp: gs)
  obtain l st where f: "send_blacklist E greyonly True st' (group_list (last gs)) = Some st" "collapsed (last gs) l"
      "ss_sent st = ss_sent st' @ [(port, group_text E (last gs) l)]"
      "list_head (ss_cidrs st) = list_head (ss_cidrs st') @ (if greyonly then [] else list_head l)"
      "ss_fw st = ss_fw st' @ (if greyonly then [] else [(GREYD_BLACKLIST, list_head (ss_cidrs st))])"
    using send_group [OF _ assms(5) s(3) assms(8,9), of "last gs" greyonly True] assms(3,4,10) by auto
  have vals: "concat (map group_vals gs) \<noteq> []" by (simp add: gs group_vals_def)
  have "fold_opt (setup_list E greyonly False) ?init (concat (map group_vals gs)) = Some st'"
    using s(1) by (simp only: gs list.map concat.simps fold_opt_append start Option.bind.simps)
  then have main: "setup_main E greyonly False config = Some st"
    using assms(1,2) vals s(4) f(1) by (simp add: setup_main_def)
  have split: "gs = butlast gs @ [last gs]" using assms(3) by simp
  have len: "length ls = length (butlast gs)" by (rule list_all2_lengthD [OF s(2), symmetric])
  have all: "list_all2 collapsed gs (ls @ [l])" by (subst split) (rule list_all2_appendI [OF s(2)], simp add: f(2))
  have "zip gs (ls @ [l]) = zip (butlast gs) ls @ [(last gs, l)]" by (subst split) (simp add: zip_append len)
  then show ?thesis using main all s(5-7) f(3-5) by (intro exI [of _ "ls @ [l]"] exI [of _ st]) simp
qed

text \<open>A blacklist and a whitelist in files, and a configuration that names them, for the instance.\<close>

definition example_group :: list_group where
  "example_group = \<lparr>lg_name = ''b'', lg_message = DEFAULT_MSG, lg_black = [Cidr 0x0a000000 8],
     lg_whites = [(''w'', [Range 0x0a010000 0x0a010009])]\<rparr>"

definition example_setup_env :: setup_env where
  "example_setup_env =
     \<lparr>se_open = (\<lambda>f. Some (print_feed (if f = ''black'' then [Cidr 0x0a000000 8] else [Range 0x0a010000 0x0a010009]))),
      se_child = (\<lambda>argv. None), se_fw_replace = Some (\<lambda>name ips af. int (length ips)), se_connect = (\<lambda>port. port = 8026),
      se_check_addr = (\<lambda>s. uint AF_INET), se_qsort = (\<lambda>cmp. sort_key s_addr),
      se_start = replicate 4 0, se_end = replicate 4 0, se_token = 0, se_value = Val_i 0\<rparr>"

lemma table_of:
  assumes "length kvs < n" and "\<forall>(k, v)\<in>set kvs. length k \<le> MAX_KEY_LEN"
  shows "\<exists>h. hash_inv h \<and> hash_map h = map_of kvs \<and> n \<le> hash_size h"
  using assms
proof (induction kvs)
  case Nil
  then show ?case by (intro exI [of _ "Hash_create n"]) (simp add: Hash_create_def hash_inv_def hash_map_def)
next
  case (Cons kv kvs)
  obtain k v where kv: "kv = (k, v)" by fastforce
  obtain h where h: "hash_inv h" "hash_map h = map_of kvs" "n \<le> hash_size h" using Cons by auto
  have "length k \<le> MAX_KEY_LEN" using Cons.prems(2) by (simp add: kv)
  from Hash_insert_correct [OF h(1) this, of v] obtain h' where
    "hash_inv h'" "hash_map h' = (hash_map h)(k \<mapsto> v)" "hash_size h' \<in> {hash_size h, 2 * hash_size h}" by blast
  then show ?case using h(2,3) by (intro exI [of _ h']) (auto simp: kv)
qed

lemma table_get:
  assumes "hash_inv h" and "hash_map h = map_of kvs" and "length kvs < hash_size h"
  shows "Hash_get h k = Some (map_of kvs k)"
proof -
  have "num_entries h \<le> length kvs"
    using hash_entries_card [OF assms(1)] card_length [of "map fst kvs"] by (simp add: assms(2) dom_map_of_conv_image_fst)
  then show ?thesis
    using Hash_get_present [OF assms(1), of k] Hash_get_absent [OF assms(1), of k] assms(2,3) by (cases "map_of kvs k") auto
qed

lemma small_table: "length kvs < 8 \<Longrightarrow> \<forall>(k, v)\<in>set kvs. length k \<le> MAX_KEY_LEN \<Longrightarrow> \<exists>h. hash_inv h \<and> (\<forall>k. Hash_get h k = Some (map_of kvs k))"
  using table_of [of kvs 8] table_get [of _ kvs] by fastforce

lemma example_setup_config:
  "\<exists>config c. Config_set_int config ''drop_privs'' None 0 = Some c \<and>
     Config_get_list c ''lists'' (Some ''setup'') = Some (Some (concat (map group_vals [example_group]))) \<and>
     group_ok example_setup_env c example_group \<and> Config_get_int c ''config_port'' None GREYD_CFG_PORT = Some 8026"
proof -
  let ?lists = "[(''lists'', List_value [Str_value ''b'', Str_value ''w''])]"
  obtain hs where hs: "\<forall>k. Hash_get hs k = Some (map_of [(''default'', 0 :: secref), (''setup'', 1)] k)"
    using small_table [of "[(''default'', 0 :: secref), (''setup'', 1)]"] by (auto simp: MAX_KEY_LEN_def)
  obtain hb where hb: "\<forall>k. Hash_get hb k = Some (map_of [(''b'', 2 :: secref)] k)"
    using small_table [of "[(''b'', 2 :: secref)]"] by (auto simp: MAX_KEY_LEN_def)
  obtain hw where hw: "\<forall>k. Hash_get hw k = Some (map_of [(''w'', 3 :: secref)] k)"
    using small_table [of "[(''w'', 3 :: secref)]"] by (auto simp: MAX_KEY_LEN_def)
  obtain vs where vs: "\<forall>k. Hash_get vs k = Some (map_of ?lists k)"
    using small_table [of ?lists] by (auto simp: MAX_KEY_LEN_def)
  obtain vb where vb: "\<forall>k. Hash_get vb k = Some (map_of [(''file'', Str_value ''black'')] k)"
    using small_table [of "[(''file'', Str_value ''black'')]"] by (auto simp: MAX_KEY_LEN_def)
  obtain vw where vw: "\<forall>k. Hash_get vw k = Some (map_of [(''file'', Str_value ''white'')] k)"
    using small_table [of "[(''file'', Str_value ''white'')]"] by (auto simp: MAX_KEY_LEN_def)
  obtain vd where vd: "Hash_insert (Hash_create 25) ''drop_privs'' (Int_value 0) = Some vd" "Hash_get vd ''config_port'' = Some None"
  proof -
    have t: "hash_inv (Hash_create 25 :: Config_value Hash_T)" "length ''drop_privs'' \<le> MAX_KEY_LEN" by (simp_all add: MAX_KEY_LEN_def)
    obtain h where h: "Hash_insert (Hash_create 25) ''drop_privs'' (Int_value 0) = Some h" "hash_inv h"
        "hash_map h = (hash_map (Hash_create 25))(''drop_privs'' \<mapsto> Int_value 0)" "hash_size h \<in> {hash_size (Hash_create 25 :: Config_value Hash_T), 2 * hash_size (Hash_create 25 :: Config_value Hash_T)}"
      by (rule Hash_insert_correct [OF t, of "Int_value 0"]) blast
    have "hash_map h = map_of [(''drop_privs'', Int_value 0)]" using h(3) by simp
    moreover have "1 < hash_size h" using h(4) by (auto simp: Hash_create_def)
    ultimately have "Hash_get h ''config_port'' = Some None" using table_get [OF h(2), of "[(''drop_privs'', Int_value 0)]" "''config_port''"] by simp
    then show ?thesis using that h(1) by blast
  qed
  let ?config = "\<lparr>cfg_store = [\<lparr>sec_name = ''default'', sec_vars = Hash_create 25\<rparr>, \<lparr>sec_name = ''setup'', sec_vars = vs\<rparr>,
        \<lparr>sec_name = ''b'', sec_vars = vb\<rparr>, \<lparr>sec_name = ''w'', sec_vars = vw\<rparr>],
      cfg_sections = hs, cfg_blacklists = hb, cfg_whitelists = hw, cfg_processed_includes = Hash_create 3, cfg_includes = Queue_create\<rparr>"
  let ?c = "?config\<lparr>cfg_store := (cfg_store ?config)[0 := \<lparr>sec_name = ''default'', sec_vars = vd\<rparr>]\<rparr>"
  note get = get_sec_def Config_section_get_str_def Config_section_get_list_def Config_section_get_int_def Config_section_get_def default_section_def
  have set: "Config_set_int ?config ''drop_privs'' None 0 = Some ?c"
    using hs vd(1) by (simp add: Config_set_int_def find_or_create_def update_sec_def Config_section_set_int_def Config_section_set_def get
        CONFIG_DEFAULT_SECTION_def)
  have lists: "Config_get_list ?c ''lists'' (Some ''setup'') = Some (Some (concat (map group_vals [example_group])))"
    using hs vs by (simp add: Config_get_list_def get example_group_def group_vals_def)
  have port: "Config_get_int ?c ''config_port'' None GREYD_CFG_PORT = Some 8026"
    using hs vd(2) by (simp add: Config_get_int_def get CONFIG_DEFAULT_SECTION_def GREYD_CFG_PORT_def)
  have b: "get_sec ?c 2 = Some \<lparr>sec_name = ''b'', sec_vars = vb\<rparr>" "get_sec ?c 3 = Some \<lparr>sec_name = ''w'', sec_vars = vw\<rparr>"
    by (simp_all add: get_sec_def nth_opt_def)
  have del: "delivers example_setup_env ?c 2 (lg_black example_group)" "delivers example_setup_env ?c 3 [Range 0x0a010000 0x0a010009]"
    using vb vw b by (simp_all add: delivers_def fetch_list_def Config_section_get_str_def Config_section_get_def example_setup_env_def
        example_group_def del: print_feed.simps)
  have "feed_addrs (Cidr 0x0a000000 8) \<noteq> {}" by (auto intro: exI [of _ "0x0a000000"])
  then have "group_ok example_setup_env ?c example_group"
    using del b hb hw vb
    by (simp add: group_ok_def example_group_def group_white_def BLACKLIST_INIT_SIZE_def Config_get_blacklist_def Config_get_whitelist_def
        Config_section_get_str_def Config_section_get_def del: feed_addrs.simps)
  then show ?thesis using set lists port by blast
qed

text \<open>C33 for one blacklist, 10.0.0.0/8, and the whitelist 10.1.0.0-10.1.0.9, in blacklisting only mode.\<close>

theorem setup_sends_exact_witness:
  "\<exists>config l cs st. setup_main example_setup_env False False config = Some st \<and> List_wf l \<and> list_head l = map IP_cidr_to_str cs \<and>
     \<Union> (cidr_set ` set cs) = feed_addrs (Cidr 0x0a000000 8) - {0x0a010000..0x0a010009} \<and>
     ss_sent st = [(8026, Greyd_send_config (\<lambda>s. uint AF_INET) ''b'' DEFAULT_MSG l)] \<and> ss_fw st = [(GREYD_BLACKLIST, list_head l)]"
proof -
  obtain config c where c: "Config_set_int config ''drop_privs'' None 0 = Some c"
      "Config_get_list c ''lists'' (Some ''setup'') = Some (Some (concat (map group_vals [example_group])))"
      "group_ok example_setup_env c example_group" "Config_get_int c ''config_port'' None GREYD_CFG_PORT = Some 8026"
    using example_setup_config by blast
  have "sorted_wrt (\<lambda>a b. cmp_ipv4_entry a b \<le> 0) (sort_key s_addr xs)" for xs
    using sorted_sort_key [of s_addr xs] unfolding sorted_map
    by (rule sorted_wrt_mono_rel [rotated]) (auto simp: cmp_ipv4_entry_def)
  then have q: "qsort_spec (se_qsort example_setup_env) cmp_ipv4_entry" by (simp add: qsort_spec_def example_setup_env_def)
  have E: "length (se_start example_setup_env) = 4" "length (se_end example_setup_env) = 4" "se_connect example_setup_env 8026"
      "False \<or> fw_works example_setup_env" by (simp_all add: example_setup_env_def fw_works_def)
  have ok: "\<forall>g\<in>set [example_group]. group_ok example_setup_env c g" using c(3) by simp
  from setup_sends_exact [OF c(1,2) _ ok q E(1,2) c(4) E(3,4)] obtain l st where
    "setup_main example_setup_env False False config = Some st" "collapsed example_group l"
    "ss_sent st = [(8026, group_text example_setup_env example_group l)]" "ss_fw st = [(GREYD_BLACKLIST, list_head l)]"
    by (auto simp: list_all2_Cons1)
  then show ?thesis
    by (auto simp: collapsed_def group_text_def group_addrs_def group_white_def example_group_def example_setup_env_def
        simp del: feed_addrs.simps(2))
qed

section \<open>Commands, and lists that cannot be fetched\<close>

text \<open>The words of a command: the parts between blanks and tabs that are not empty.\<close>

fun split_blanks :: "string \<Rightarrow> string list" where
  "split_blanks [] = [[]]"
| "split_blanks (c # cs) =
     (if c = CHR '' '' \<or> c = CHR 0x09 then [] # split_blanks cs
      else (c # hd (split_blanks cs)) # tl (split_blanks cs))"

definition command_words :: "string \<Rightarrow> string list" where
  "command_words s = filter (\<lambda>w. w \<noteq> []) (split_blanks s)"

lemma split_blanks_not_Nil [simp]: "split_blanks s \<noteq> []"
  by (cases s) simp_all

lemma split_blanks_cut: "split_blanks s = fst (cut_word s) # (case snd (cut_word s) of None \<Rightarrow> [] | Some rest \<Rightarrow> split_blanks rest)"
  by (induction s) (auto simp: cut_word_def Let_def split: if_splits)

lemma words_bound: "2 * length (command_words s) \<le> length s + 1 \<and> (hd (split_blanks s) = [] \<longrightarrow> 2 * length (command_words s) \<le> length s)"
proof (induction s)
  case (Cons c s)
  then show ?case by (cases "split_blanks s") (auto simp: command_words_def split: if_splits)
qed (simp add: command_words_def)

lemma exec_words_end [simp]: "exec_words room None = []" "exec_words 0 s = []"
  by (cases room) (simp_all add: exec_words.simps)

lemma exec_words_room: "length (command_words s) \<le> room \<Longrightarrow> exec_words room (Some s) = command_words s"
proof (induction "length s" arbitrary: s room rule: less_induct)
  case less
  obtain w rest where w: "cut_word s = (w, rest)" by fastforce
  have words: "command_words s = (if w \<noteq> [] then [w] else []) @ (case rest of None \<Rightarrow> [] | Some t \<Rightarrow> command_words t)"
    using split_blanks_cut [of s] w by (simp add: command_words_def split: option.split)
  have shorter: "length t < length s" if "rest = Some t" for t using w that by (auto simp: cut_word_def Let_def split: if_splits)
  show ?case
  proof (cases rest)
    case None
    then show ?thesis using words w less.prems by (cases room) (simp_all add: exec_words.simps [of "Suc n" for n])
  next
    case (Some t)
    show ?thesis
    proof (cases room)
      case 0
      then show ?thesis using less.prems by simp
    next
      case (Suc n)
      then show ?thesis using less.hyps [OF shorter [OF Some], of n] less.hyps [OF shorter [OF Some], of room] words w Some less.prems
        by (subst exec_words.simps) (cases "w = []", simp_all)
    qed
  qed
qed

text \<open>
  The array for the arguments of a command has room for all its words when the command has two
  characters or more; a command of one character is not run at all.
\<close>

theorem exec_words_exact: "1 < length s \<Longrightarrow> exec_words (length s - 1) (Some s) = command_words s"
  using words_bound [of s] by (intro exec_words_room) linarith

theorem short_command_not_run: "open_child E (exec_words (length [c] - 1) (Some [c])) = None"
  by (simp add: exec_words.simps open_child_def)

text \<open>
  In blacklisting only mode a blacklist that cannot be fetched is not ignored, as the warning says: it
  stays empty, its collapse is \<open>NULL\<close>, and the loop over the blocks dereferences it.
\<close>

theorem unfetched_list_fatal:
  assumes "Config_set_int config ''drop_privs'' None 0 = Some c"
    and "Config_get_list c ''lists'' (Some ''setup'') = Some (Some [Str_value name])"
    and "Config_get_blacklist c name = Some (Some r)" and "fetch_list E r c = Some (None, c')"
  shows "setup_main E False False config = None"
  using assms
  by (auto simp: setup_main_def setup_list_def load_list_def get_parser_def send_blacklist_def Blacklist_collapse_def Blacklist_create_def
      bind_eq_None_conv bind_eq_Some_conv)

end
