(* ===== verification/Config_Load.thy ===== *)
theory Config_Load
  imports Messages
begin

text \<open>
  Models \<open>Config_load_file\<close> of \<open>src/src/greyd_config.c\<close>: a configuration file is parsed into the
  configuration, and then the files it includes, unless they have been loaded before. The files and the
  expansion of their names are parameters. The table of the files that have been loaded starts with three
  slots and is not grown by lookups; when it is full every name seems to be in it, so that never more
  than three files are loaded.
\<close>

section \<open>Loading files\<close>

text \<open>The contents of the files that can be opened, the names a pattern expands to, and what is left uninitialised.\<close>

record load_env =
  le_read :: "string \<Rightarrow> char list option"
  le_glob :: "string \<Rightarrow> string list option"
  le_value :: Lexer_token_value
  le_token :: int

text \<open>The part of \<open>Config_load_file\<close> for a file; a file that cannot be opened or parsed ends the program.\<close>

definition load_one :: "load_env \<Rightarrow> Config_T \<Rightarrow> string \<Rightarrow> Config_T option" where
  "load_one E config file =
     do { contents \<leftarrow> le_read E file;
          (ok, p) \<leftarrow> Config_parser_start (le_glob E)
             (Config_parser_create (Lexer_create (le_value E) (le_token E) (Lexer_source_create_from_file contents)) Config_create
                (le_token E) (le_token E)) config;
          if ok then do { h \<leftarrow> Hash_insert (cfg_processed_includes (cp_config p)) file 1;
                          Some ((cp_config p)\<lparr>cfg_processed_includes := h\<rparr>) }
          else None }"

text \<open>\<open>file\<close> is \<open>None\<close> for the loop over the includes that are left: a round of the loop and the rounds after it.\<close>

partial_function (option) Config_load_file :: "load_env \<Rightarrow> Config_T \<Rightarrow> string option \<Rightarrow> Config_T option" where
  "Config_load_file E config file =
     do { config1 \<leftarrow> (case file of None \<Rightarrow> Some config | Some f \<Rightarrow> load_one E config f);
          if Queue_size (cfg_includes config1) > 0
          then (let (incl, q) = Queue_dequeue (cfg_includes config1); config2 = config1\<lparr>cfg_includes := q\<rparr>
                in case incl of
                     None \<Rightarrow> None
                   | Some f \<Rightarrow>
                       do { count \<leftarrow> Hash_get (cfg_processed_includes config2) f;
                            config3 \<leftarrow> (if count = None then Config_load_file E config2 (Some f) else Some config2);
                            Config_load_file E config3 None })
          else Some config1 }"

section \<open>The parser does not touch the table\<close>

definition keeps_seen :: "grammar \<Rightarrow> bool" where
  "keeps_seen f \<longleftrightarrow> (\<forall>p ok p'. f p = Some (ok, p') \<longrightarrow> cfg_processed_includes (cp_config p') = cfg_processed_includes (cp_config p))"

abbreviation seen :: "Config_parser_T \<Rightarrow> int Hash_T" where
  "seen p \<equiv> cfg_processed_includes (cp_config p)"

lemma keeps_seenD: "keeps_seen f \<Longrightarrow> f p = Some (ok, p') \<Longrightarrow> seen p' = seen p"
  unfolding keeps_seen_def by blast

lemma seen_advance [simp]: "cp_config (cp_advance p) = cp_config p"
  by (simp add: cp_advance_def split: prod.split)

lemma seen_skip_eols [simp]: "cp_config (cp_skip_eols p) = cp_config p"
  by (induction p rule: cp_skip_eols.induct) (subst cp_skip_eols.simps, simp)

lemma seen_accept: "accept tok p = (ok, p') \<Longrightarrow> cp_config p' = cp_config p"
  by (auto simp: accept_def split: if_splits)

lemma keeps_acc [simp]: "keeps_seen (acc tok)"
  by (auto simp: keeps_seen_def acc_def dest: seen_accept)

lemma keeps_and [simp]: "keeps_seen f \<Longrightarrow> keeps_seen g \<Longrightarrow> keeps_seen (and_then f g)"
  unfolding keeps_seen_def and_then_def by (fastforce simp: bind_eq_Some_conv split: if_splits)

lemma keeps_or [simp]: "keeps_seen f \<Longrightarrow> keeps_seen g \<Longrightarrow> keeps_seen (or_else f g)"
  unfolding keeps_seen_def or_else_def by (fastforce simp: bind_eq_Some_conv split: if_splits)

lemma keeps_list_value [simp]: "keeps_seen grammar_list_value"
  by (auto simp: keeps_seen_def grammar_list_value_def bind_eq_Some_conv split: if_splits)

lemma keeps_list_values [simp]: "keeps_seen grammar_list_values"
proof -
  have "grammar_list_values p = Some (ok, p') \<Longrightarrow> seen p' = seen p" for p ok p'
  proof (induction p rule: grammar_list_values.induct)
    case (1 p)
    obtain ok1 p1 where a: "accept CONFIG_LEXER_TOK_COMMA p = (ok1, p1)" by fastforce
    show ?case
    proof (cases ok1)
      case False
      then show ?thesis using 1(3) a seen_accept [OF a] by (subst (asm) grammar_list_values.simps) auto
    next
      case True
      obtain ok2 p2 where b: "and_then (acc CONFIG_LEXER_TOK_EOL) grammar_list_value p1 = Some (ok2, p2)"
        using 1(3) a True by (subst (asm) grammar_list_values.simps) (auto split: option.splits)
      have same: "seen p2 = seen p"
        using keeps_seenD [OF keeps_and [OF keeps_acc keeps_list_value] b] seen_accept [OF a] by simp
      show ?thesis
      proof (cases ok2)
        case t: True
        then have "grammar_list_values p2 = Some (ok, p')"
          using 1(3) a True b by (subst (asm) grammar_list_values.simps) auto
        then show ?thesis using 1(1) [OF a [symmetric] _ b refl] True t same by auto
      next
        case f: False
        obtain ok3 p3 where v: "grammar_list_value p2 = Some (ok3, p3)"
          using 1(3) a True b f by (subst (asm) grammar_list_values.simps) (auto split: option.splits)
        have "seen p3 = seen p2" using keeps_seenD [OF keeps_list_value v] .
        then show ?thesis
          using 1(2) [OF a [symmetric] _ b refl _ v refl] 1(3) a True b f v same
          by (subst (asm) grammar_list_values.simps) (auto split: bool.splits)
      qed
    qed
  qed
  then show ?thesis by (simp add: keeps_seen_def)
qed

lemma keeps_list [simp]: "keeps_seen grammar_list"
proof -
  let ?f = "and_then (or_else (and_then (acc CONFIG_LEXER_TOK_EOL) grammar_list_statements) grammar_list_statements)
      (or_else (and_then (acc CONFIG_LEXER_TOK_EOL) (acc CONFIG_LEXER_TOK_SQBRACK_R)) (acc CONFIG_LEXER_TOK_SQBRACK_R))"
  have f: "keeps_seen ?f" by (simp add: grammar_list_statements_def)
  have "seen p' = seen p" if H: "grammar_list p = Some (ok, p')" for p ok p'
  proof -
    obtain b p1 where a: "accept CONFIG_LEXER_TOK_SQBRACK_L p = (b, p1)" by fastforce
    then show ?thesis
      using H seen_accept [OF a] keeps_seenD [OF f, of "p1\<lparr>cp_value := Some []\<rparr>" ok p']
      by (auto simp: grammar_list_def split: if_splits)
  qed
  then show ?thesis by (simp add: keeps_seen_def)
qed

lemma assign_seen: "assign p varname v = Some p' \<Longrightarrow> seen p' = seen p"
  by (auto simp: assign_def update_sec_def bind_eq_Some_conv)

lemma keeps_assignment [simp]: "keeps_seen grammar_assignment"
proof -
  have "seen p' = seen p" if H: "grammar_assignment p = Some (ok, p')" for p ok p'
  proof -
    obtain ok1 p1 where a: "accept CONFIG_LEXER_TOK_EQ (cp_advance p) = (ok1, p1)" by fastforce
    show ?thesis
      using H a seen_accept [OF a]
      by (auto simp: grammar_assignment_def Let_def bind_eq_Some_conv dest!: assign_seen keeps_seenD [OF keeps_list] split: if_splits)
  qed
  then show ?thesis by (simp add: keeps_seen_def)
qed

lemma keeps_section_assignments [simp]: "keeps_seen grammar_section_assignments"
proof -
  have "grammar_section_assignments p = Some (ok, p') \<Longrightarrow> seen p' = seen p" for p ok p'
  proof (induction p rule: grammar_section_assignments.induct)
    case (1 p)
    obtain b p0 where p0: "accept CONFIG_LEXER_TOK_COMMA p = (b, p0)" by fastforce
    obtain y p1 where y: "and_then (acc CONFIG_LEXER_TOK_EOL) grammar_assignment p0 = Some (y, p1)"
      using 1(2) p0 by (subst (asm) grammar_section_assignments.simps) (auto split: option.splits)
    have same: "seen p1 = seen p"
      using keeps_seenD [OF keeps_and [OF keeps_acc keeps_assignment] y] seen_accept [OF p0] by simp
    show ?case
    proof (cases y)
      case True
      then have "grammar_section_assignments p1 = Some (ok, p')"
        using 1(2) p0 y by (subst (asm) grammar_section_assignments.simps) simp
      then show ?thesis using 1(1) [of "(y, p1)" y p1] y True p0 same by simp
    next
      case False
      then show ?thesis using 1(2) p0 y same by (subst (asm) grammar_section_assignments.simps) simp
    qed
  qed
  then show ?thesis by (simp add: keeps_seen_def)
qed

lemma keeps_section_type [simp]: "keeps_seen grammar_section_type"
  by (auto simp: keeps_seen_def grammar_section_type_def split: if_splits)

lemma keeps_section_body [simp]: "keeps_seen section_body"
  by (simp add: section_body_def grammar_section_statements_def)

lemma open_section_seen: "open_section p secname = Some p' \<Longrightarrow> seen p' = seen p"
  by (auto simp: open_section_def Let_def new_section_def Config_add_section_def Config_add_blacklist_def Config_add_whitelist_def
      bind_eq_Some_conv split: if_splits)

lemma keeps_section [simp]: "keeps_seen grammar_section"
proof -
  have "seen p' = seen p" if H: "grammar_section p = Some (ok, p')" for p ok p'
  proof -
    obtain ok1 p1 where t: "grammar_section_type p = Some (ok1, p1)"
      using H by (auto simp: grammar_section_def bind_eq_Some_conv)
    obtain a2 p2 where 2: "accept CONFIG_LEXER_TOK_EOL (cp_advance p1) = (a2, p2)" by fastforce
    obtain a3 p3 where 3: "accept CONFIG_LEXER_TOK_BRACKET_L p2 = (a3, p3)" by fastforce
    obtain a4 p4 where 4: "accept CONFIG_LEXER_TOK_EOL p3 = (a4, p4)" by fastforce
    have same: "seen p1 = seen p" "seen p3 = seen p1" "seen p4 = seen p3"
      using keeps_seenD [OF keeps_section_type t] seen_accept [OF 2] seen_accept [OF 3] seen_accept [OF 4] by simp_all
    have "p' = p1 \<or> p' = p3 \<or> (\<exists>p5 okc p6. open_section p4 (lex_str_value (cp_lexer p1)) = Some p5 \<and>
        section_body p5 = Some (okc, p6) \<and> seen p' = seen p6)"
      using H t 2 3 4 by (auto simp: grammar_section_def Let_def bind_eq_Some_conv split: if_splits)
    then show ?thesis using same by (auto dest!: open_section_seen keeps_seenD [OF keeps_section_body])
  qed
  then show ?thesis by (simp add: keeps_seen_def)
qed

lemma enqueue_seen: "enqueue_includes ms c = Some c' \<Longrightarrow> cfg_processed_includes c' = cfg_processed_includes c"
  by (induction ms arbitrary: c) (auto simp: bind_eq_Some_conv split: if_splits)

lemma keeps_include [simp]: "keeps_seen (grammar_include glob)"
  by (auto simp: keeps_seen_def grammar_include_def Config_add_include_def bind_eq_Some_conv
      dest!: seen_accept enqueue_seen split: if_splits prod.splits option.splits)

lemma keeps_statements [simp]: "keeps_seen (grammar_statements glob)"
proof -
  have "grammar_statements glob p = Some (ok, p') \<Longrightarrow> seen p' = seen p" for p ok p'
  proof (induction glob p rule: grammar_statements.induct)
    case (1 glob p)
    let ?f = "and_then (acc CONFIG_LEXER_TOK_EOL) (grammar_statement glob)"
    have f: "keeps_seen ?f" by (simp add: grammar_statement_def)
    obtain y p1 where y: "?f p = Some (y, p1)"
      using 1(2) by (subst (asm) grammar_statements.simps) (auto split: option.splits)
    show ?case
    proof (cases y)
      case True
      then have "grammar_statements glob p1 = Some (ok, p')" using 1(2) y by (subst (asm) grammar_statements.simps) simp
      then show ?thesis using 1(1) [OF y refl] True keeps_seenD [OF f y] by simp
    next
      case False
      then show ?thesis using 1(2) y keeps_seenD [OF f y] by (subst (asm) grammar_statements.simps) simp
    qed
  qed
  then show ?thesis by (simp add: keeps_seen_def)
qed

lemma parser_start_seen:
  assumes "Config_parser_start glob parser config = Some (ok, p)"
  shows "seen p = cfg_processed_includes config"
proof -
  let ?f = "or_else (and_then (and_then (grammar_statement glob) (grammar_statements glob)) (acc CONFIG_LEXER_TOK_EOF)) (acc CONFIG_LEXER_TOK_EOF)"
  have f: "keeps_seen ?f" by (simp add: grammar_statement_def)
  obtain g :: "secref option" and config1 where "(case g of Some r \<Rightarrow> Some config
        | None \<Rightarrow> (let (r, c) = new_section config CONFIG_DEFAULT_SECTION in Config_add_section c r)) = Some config1" and
      c: "?f (snd (accept CONFIG_LEXER_TOK_EOL (cp_advance (parser\<lparr>cp_config := config1\<rparr>)))) = Some (ok, p)"
    using assms unfolding Config_parser_start_def bind_eq_Some_conv by (elim exE conjE) (rule that)
  then have same: "cfg_processed_includes config1 = cfg_processed_includes config"
    by (auto simp: Config_add_section_def new_section_def bind_eq_Some_conv split: option.splits)
  obtain b p1 where "accept CONFIG_LEXER_TOK_EOL (cp_advance (parser\<lparr>cp_config := config1\<rparr>)) = (b, p1)" by fastforce
  then show ?thesis using keeps_seenD [OF f c] same seen_accept [of CONFIG_LEXER_TOK_EOL _ b p1] by fastforce
qed

section \<open>The table is never larger than it was created\<close>

definition load_table :: "int Hash_T \<Rightarrow> bool" where
  "load_table h \<longleftrightarrow> hash_size h = CONFIG_INIT_INCLUDES \<and> num_entries h \<le> CONFIG_INIT_INCLUDES \<and>
     (case entries h of None \<Rightarrow> num_entries h = 0 | Some es \<Rightarrow> length es = CONFIG_INIT_INCLUDES \<and> num_entries h = length (filter occ es))"

lemma load_table_get:
  assumes "load_table h" and "Hash_get h k = Some None"
  shows "num_entries h < CONFIG_INIT_INCLUDES"
proof (cases "entries h")
  case None
  then show ?thesis using assms(1) by (simp add: load_table_def CONFIG_INIT_INCLUDES_def)
next
  case (Some es)
  obtain i e where "nth_opt es i = Some e" "entry_v e = None"
    using assms(2) Some by (auto simp: Hash_get_def bind_eq_Some_conv)
  then have "es ! i \<in> set es" "\<not> occ (es ! i)" by (auto simp: nth_opt_def occ_def split: if_splits)
  then have "length (filter occ es) < length es" by (rule length_filter_less)
  then show ?thesis using assms(1) Some by (simp add: load_table_def)
qed

lemma load_table_store:
  assumes "load_table h" and "entries h \<noteq> None" and "num_entries h < CONFIG_INIT_INCLUDES" and "Hash_store h k v = Some h'"
  shows "load_table h'"
proof -
  obtain es i where es: "entries h = Some es" and i: "i < length es" and
    h': "h' = h\<lparr>num_entries := (if entry_v (es ! i) \<noteq> None then num_entries h else num_entries h + 1),
      entries := Some (es[i := \<lparr>entry_k = take MAX_KEY_LEN k, entry_v = Some v\<rparr>])\<rparr>"
    using assms(2,4) by (auto simp: Hash_store_def nth_opt_def bind_eq_Some_conv split: if_splits)
  let ?e = "\<lparr>entry_k = take MAX_KEY_LEN k, entry_v = Some v\<rparr>"
  have "length (filter occ (es[i := ?e])) = (if entry_v (es ! i) \<noteq> None then length (filter occ es) else length (filter occ es) + 1)"
    using card_index_update [OF i, of occ ?e] card_index_same [OF i, of occ ?e] by (simp add: occ_def)
  then show ?thesis using assms(1,3) es h' by (simp add: load_table_def)
qed

lemma load_table_insert:
  assumes "load_table h" and "num_entries h < CONFIG_INIT_INCLUDES" and "Hash_insert h k v = Some h'"
  shows "load_table h'"
proof -
  let ?h = "if entries h = None then Hash_create_entries h else h"
  have "load_table ?h" "entries ?h \<noteq> None" "num_entries ?h < CONFIG_INIT_INCLUDES"
    using assms(1,2) by (auto simp: load_table_def Hash_create_entries_def CONFIG_INIT_INCLUDES_def)
  moreover have "Hash_store ?h k v = Some h'"
    using assms by (auto simp: Hash_insert_def numeral_2_eq_2 Hash_insert_d.simps load_table_def split: if_splits)
  ultimately show ?thesis by (rule load_table_store)
qed

lemma load_one_table:
  assumes "load_one E config f = Some config'" and "load_table (cfg_processed_includes config)"
    and "num_entries (cfg_processed_includes config) < CONFIG_INIT_INCLUDES"
  shows "load_table (cfg_processed_includes config')"
  using assms load_table_insert by (auto simp: load_one_def bind_eq_Some_conv dest!: parser_start_seen split: if_splits)

lemma load_file_table:
  assumes "Config_load_file E config file = Some config'"
  shows "load_table (cfg_processed_includes config) \<and> (file \<noteq> None \<longrightarrow> num_entries (cfg_processed_includes config) < CONFIG_INIT_INCLUDES) \<longrightarrow>
    load_table (cfg_processed_includes config')"
proof (rule Config_load_file.raw_induct [OF _ assms, where P = "\<lambda>E c f c'. load_table (cfg_processed_includes c) \<and>
    (f \<noteq> None \<longrightarrow> num_entries (cfg_processed_includes c) < CONFIG_INIT_INCLUDES) \<longrightarrow> load_table (cfg_processed_includes c')"])
  fix load E c f c'
  assume IH: "\<And>E c f c'. load E c f = Some c' \<Longrightarrow> load_table (cfg_processed_includes c) \<and>
        (f \<noteq> None \<longrightarrow> num_entries (cfg_processed_includes c) < CONFIG_INIT_INCLUDES) \<longrightarrow> load_table (cfg_processed_includes c')"
    and run: "do { config1 \<leftarrow> (case f of None \<Rightarrow> Some c | Some f \<Rightarrow> load_one E c f);
          if Queue_size (cfg_includes config1) > 0
          then (let (incl, q) = Queue_dequeue (cfg_includes config1); config2 = config1\<lparr>cfg_includes := q\<rparr>
                in case incl of
                     None \<Rightarrow> None
                   | Some f \<Rightarrow>
                       do { count \<leftarrow> Hash_get (cfg_processed_includes config2) f;
                            config3 \<leftarrow> (if count = None then load E config2 (Some f) else Some config2);
                            load E config3 None })
          else Some config1 } = Some c'"
  show "load_table (cfg_processed_includes c) \<and> (f \<noteq> None \<longrightarrow> num_entries (cfg_processed_includes c) < CONFIG_INIT_INCLUDES) \<longrightarrow>
      load_table (cfg_processed_includes c')"
  proof
    assume pre: "load_table (cfg_processed_includes c) \<and> (f \<noteq> None \<longrightarrow> num_entries (cfg_processed_includes c) < CONFIG_INIT_INCLUDES)"
    obtain c1 where c1: "(case f of None \<Rightarrow> Some c | Some f \<Rightarrow> load_one E c f) = Some c1" using run by (auto simp: bind_eq_Some_conv)
    then have t1: "load_table (cfg_processed_includes c1)" using pre load_one_table by (auto split: option.splits)
    obtain incl q where d: "Queue_dequeue (cfg_includes c1) = (incl, q)" by fastforce
    let ?c2 = "c1\<lparr>cfg_includes := q\<rparr>"
    show "load_table (cfg_processed_includes c')"
    proof (cases "Queue_size (cfg_includes c1) > 0")
      case False
      then show ?thesis using run c1 t1 by simp
    next
      case True
      then have step: "(case incl of None \<Rightarrow> None | Some g \<Rightarrow> do { count \<leftarrow> Hash_get (cfg_processed_includes ?c2) g;
          config3 \<leftarrow> (if count = None then load E ?c2 (Some g) else Some ?c2); load E config3 None }) = Some c'"
        using run unfolding c1 by (simp only: Option.bind.simps if_True d Let_def prod.case)
      obtain g where i: "incl = Some g" using step by (cases incl) simp_all
      obtain count c3 where g: "Hash_get (cfg_processed_includes ?c2) g = Some count"
          "(if count = None then load E ?c2 (Some g) else Some ?c2) = Some c3" "load E c3 None = Some c'"
        using step unfolding i option.case bind_eq_Some_conv by (elim exE conjE) (rule that)
      have "load_table (cfg_processed_includes c3)"
      proof (cases "count = None")
        case True
        then show ?thesis using IH [of E ?c2 "Some g" c3] g(1,2) t1 load_table_get by simp
      next
        case False
        then show ?thesis using g(2) t1 by auto
      qed
      then show ?thesis using IH [OF g(3)] by simp
    qed
  qed
qed

text \<open>Loading a file is loading it alone and then what is in the queue.\<close>

lemma load_then_rest: "Config_load_file E c (Some f) = Option.bind (load_one E c f) (\<lambda>c'. Config_load_file E c' None)"
  by (subst Config_load_file.simps, cases "load_one E c f") (simp_all add: Config_load_file.simps [of E _ None])

section \<open>A full table answers every lookup\<close>

definition table_full :: "int Hash_T \<Rightarrow> bool" where
  "table_full h \<longleftrightarrow> load_table h \<and> num_entries h = CONFIG_INIT_INCLUDES"

lemma full_get: "table_full h \<Longrightarrow> \<exists>v. Hash_get h k = Some (Some v)"
proof -
  assume "table_full h"
  then obtain es where es: "entries h = Some es" "length es = hash_size h" "0 < hash_size h" "length (filter occ es) = length es"
    by (auto simp: table_full_def load_table_def CONFIG_INIT_INCLUDES_def split: option.splits)
  obtain i where i: "Hash_find_entry h k = Some (i mod hash_size h)" using Hash_find_entry_spec [OF es(1-3)] by metis
  have "i mod hash_size h < length es" using es(2,3) by simp
  moreover from this have "occ (es ! (i mod hash_size h))" using es(4) by (metis length_filter_less less_irrefl nth_mem)
  ultimately show ?thesis using es(1) i by (auto simp: Hash_get_def nth_opt_def occ_def)
qed

text \<open>The includes that are left in the queue, and those of any file, are taken to be loaded.\<close>

lemma full_enqueue: "table_full (cfg_processed_includes c) \<Longrightarrow> enqueue_includes ms c = Some c"
proof (induction ms)
  case (Cons m ms)
  then show ?case using full_get [OF Cons.prems, of m] by auto
qed simp

lemma full_drain:
  assumes "table_full (cfg_processed_includes c)" and "queue_wf (cfg_includes c)"
  shows "\<exists>q. Config_load_file E c None = Some (c\<lparr>cfg_includes := q\<rparr>) \<and> queue_elems q = [] \<and> queue_wf q"
  using assms
proof (induction "queue_elems (cfg_includes c)" arbitrary: c)
  case Nil
  then have "Config_load_file E c None = Some (c\<lparr>cfg_includes := cfg_includes c\<rparr>)"
    by (subst Config_load_file.simps) (simp add: lq.siz)
  then show ?case using Nil by metis
next
  case (Cons x xs)
  obtain q where q: "Queue_dequeue (cfg_includes c) = (Some x, q)" "queue_elems q = xs" "queue_wf q"
    using lq.deq_Cons [OF Cons.prems(2) Cons.hyps(2) [symmetric]] lq.deq_wf [OF Cons.prems(2)] by (metis prod.collapse snd_conv)
  obtain v where v: "Hash_get (cfg_processed_includes c) x = Some (Some v)" using full_get [OF Cons.prems(1)] by blast
  let ?c = "c\<lparr>cfg_includes := q\<rparr>"
  have "Config_load_file E c None = Config_load_file E ?c None"
    using q(1) v Cons.hyps(2) [symmetric] by (subst Config_load_file.simps) (simp add: lq.siz [OF Cons.prems(2)])
  moreover have "\<exists>q'. Config_load_file E ?c None = Some (?c\<lparr>cfg_includes := q'\<rparr>) \<and> queue_elems q' = [] \<and> queue_wf q'"
    using Cons.hyps(1) [of ?c] q Cons.prems(1) by simp
  ultimately show ?case by simp
qed

section \<open>Properties\<close>

text \<open>
  However many files a configuration includes, at most three different files are loaded, the main file among them:
  when three have been loaded, the table that records them is full, and no include statement adds a file.
\<close>

theorem config_loads_three_files:
  assumes "Config_load_file E Config_create (Some file) = Some config"
  shows "num_entries (cfg_processed_includes config) \<le> 3 \<and>
    (num_entries (cfg_processed_includes config) = 3 \<longrightarrow> (\<forall>glob pattern. Config_add_include glob config pattern = Some config))"
proof -
  have "load_table (cfg_processed_includes Config_create)" "num_entries (cfg_processed_includes Config_create) < CONFIG_INIT_INCLUDES"
    by (simp_all add: load_table_def Config_create_def Hash_create_def CONFIG_INIT_INCLUDES_def)
  then have t: "load_table (cfg_processed_includes config)" using load_file_table [OF assms] by simp
  then have "table_full (cfg_processed_includes config)" if "num_entries (cfg_processed_includes config) = 3"
    using that by (simp add: table_full_def CONFIG_INIT_INCLUDES_def)
  then show ?thesis
    using t full_enqueue by (auto simp: load_table_def CONFIG_INIT_INCLUDES_def Config_add_include_def split: option.split)
qed

text \<open>A main file that includes four files, which are empty.\<close>

definition example_load_env :: load_env where
  "example_load_env =
     \<lparr>le_read = (\<lambda>f. Some ((if f = ''main'' then ''include '' @ quoted ''x'' else []) @ ''%'')),
      le_glob = (\<lambda>p. Some [''a'', ''b'', ''c'', ''d'']), le_value = Val_i 0, le_token = 0\<rparr>"

lemma tok_include:
  assumes "lx l (''include '' @ rest)"
  shows "\<exists>l'. Config_lexer_next_token l = (CONFIG_LEXER_TOK_INCLUDE, l') \<and> lx l' (CHR '' '' # rest)"
proof -
  obtain l1 where l1: "Lexer_getc l = (char_code (CHR ''i''), l1)" "lx l1 (''nclude'' @ CHR '' '' # rest)"
    using lx_getc [of l "CHR ''i''"] assms by auto
  have nm: "\<forall>c\<in>set ''nclude''. name_char c" by (simp add: name_char_def char_codes isalpha_c_def isupper_c_def isdigit_c_def)
  have sp: "\<not> isalpha_c (char_code (CHR '' ''))" "\<not> isdigit_c (char_code (CHR '' ''))" "char_code (CHR '' '') \<noteq> 95"
    by (simp_all add: char_codes isalpha_c_def isupper_c_def isdigit_c_def)
  have len: "length ''i'' + length ''nclude'' \<le> LEXER_MAX_STR_LEN" by (simp add: LEXER_MAX_STR_LEN_def)
  obtain l2 where l2: "lex_name l1 ''i'' = (''i'' @ ''nclude'', char_code (CHR '' ''), l2)" "lx l2 rest"
    using lex_name_text [OF l1(2) nm sp len] by blast
  have i: "isalpha_c (char_code (CHR ''i''))" "\<not> isdigit_c (char_code (CHR ''i''))" "to_char (tolower_c (char_code (CHR ''i''))) = CHR ''i''"
    using name_char_lower [of "CHR ''i''"] by (simp_all add: name_char_def char_codes isalpha_c_def isupper_c_def isdigit_c_def)
  have "\<not> seen_end l" using assms by (simp add: lx_def)
  then have "Config_lexer_next_token l =
      return_tok CONFIG_LEXER_TOK_INCLUDE (Lexer_reuse_char (l2\<lparr>current_value := Val_s ''include''\<rparr>) (char_code (CHR '' '')))"
    using l1(1) l2(1) i by (subst Config_lexer_next_token.simps) (simp add: Let_def name_token_def)
  then show ?thesis using lx_reuse [OF l2(2), of "Val_s ''include''" "CHR '' ''"] by (simp add: return_tok_def)
qed

lemma load_nothing:
  assumes "le_read E f = Some ''%''" and "Config_get_section c CONFIG_DEFAULT_SECTION = Some (Some r)"
  shows "load_one E c f = map_option (\<lambda>h. c\<lparr>cfg_processed_includes := h\<rparr>) (Hash_insert (cfg_processed_includes c) f 1)"
proof -
  let ?p = "(Config_parser_create (Lexer_create (le_value E) (le_token E) (Lexer_source_create_from_file ''%'')) Config_create
      (le_token E) (le_token E))\<lparr>cp_config := c\<rparr>"
  have "lx (cp_lexer ?p) (CHR ''%'' # [])"
    by (simp add: lx_def Config_parser_create_def Lexer_create_def Lexer_source_create_from_file_def)
  from advance_punct [OF this, of CONFIG_LEXER_TOK_EOF] have p: "at (cp_advance ?p) CONFIG_LEXER_TOK_EOF []" by simp
  have "accept CONFIG_LEXER_TOK_EOL (cp_advance ?p) = (False, cp_advance ?p)" using accept_other [OF p] by (simp add: config_toks)
  moreover have "grammar_statement (le_glob E) (cp_advance ?p) = Some (False, cp_advance ?p)" using no_statement [OF p] .
  moreover have "accept CONFIG_LEXER_TOK_EOF (cp_advance ?p) = (True, cp_advance (cp_advance ?p))"
    using accept_this [OF p] by (simp add: config_toks)
  ultimately have "Config_parser_start (le_glob E) (Config_parser_create (Lexer_create (le_value E) (le_token E)
      (Lexer_source_create_from_file ''%'')) Config_create (le_token E) (le_token E)) c = Some (True, cp_advance (cp_advance ?p))"
    using assms(2) by (simp add: Config_parser_start_def or_else_def and_then_def acc_def del: advance_upd)
  moreover have "cp_config (cp_advance (cp_advance ?p)) = c" by (simp del: advance_upd)
  ultimately show ?thesis using assms(1) by (cases "Hash_insert (cfg_processed_includes c) f 1") (simp_all add: load_one_def)
qed

lemma load_main:
  "\<exists>c r h. load_one example_load_env Config_create ''main'' = Some c \<and> Config_get_section c CONFIG_DEFAULT_SECTION = Some (Some r) \<and>
     Hash_insert (Hash_create CONFIG_INIT_INCLUDES) ''main'' 1 = Some h \<and> cfg_processed_includes c = h \<and>
     queue_wf (cfg_includes c) \<and> queue_elems (cfg_includes c) = [''a'', ''b'', ''c'', ''d'']"
proof -
  let ?E = example_load_env
  let ?parser = "Config_parser_create (Lexer_create (Val_i 0) 0 (Lexer_source_create_from_file (''include '' @ quoted ''x'' @ ''%''))) Config_create 0 0"
  obtain c0 where c0: "(do { g \<leftarrow> Config_get_section Config_create CONFIG_DEFAULT_SECTION;
             case g of Some r \<Rightarrow> Some Config_create
             | None \<Rightarrow> (let (r, c) = new_section Config_create CONFIG_DEFAULT_SECTION in Config_add_section c r) }) = Some c0"
      "msg_config c0 Map.empty" using default_config by blast
  then have same: "cfg_processed_includes c0 = Hash_create CONFIG_INIT_INCLUDES" "cfg_includes c0 = Queue_create"
    by (auto simp: Config_add_section_def new_section_def Config_create_def bind_eq_Some_conv split: option.splits)
  obtain r where r: "Config_get_section c0 CONFIG_DEFAULT_SECTION = Some (Some r)"
  proof -
    obtain r where "hash_inv (cfg_sections c0)" "hash_map (cfg_sections c0) CONFIG_DEFAULT_SECTION = Some r"
      using c0(2) by (auto simp: msg_config_def cfg_inv_def)
    from ht.get_present [OF this] show ?thesis using that by (simp add: Config_get_section_def)
  qed
  define q where "q = foldl Queue_enqueue Queue_create [''a'', ''b'', ''c'', ''d'']"
  have q: "queue_wf q" "queue_elems q = [''a'', ''b'', ''c'', ''d'']"
    using lq.foldl_enq [OF lq.emp(2), of "[''a'', ''b'', ''c'', ''d'']"] unfolding q_def by (simp_all add: lq.emp(1))
  have incl: "Config_add_include (le_glob ?E) c0 ''x'' = Some (c0\<lparr>cfg_includes := q\<rparr>)"
    using same by (simp add: Config_add_include_def example_load_env_def q_def Hash_get_def Hash_create_def)
  let ?p = "?parser\<lparr>cp_config := c0\<rparr>"
  define p1 where "p1 = cp_advance ?p"
  have "lx (cp_lexer ?p) (''include '' @ quoted ''x'' @ ''%'')"
    by (simp add: lx_def Config_parser_create_def Lexer_create_def Lexer_source_create_from_file_def)
  from tok_include [OF this] obtain l where "Config_lexer_next_token (cp_lexer ?p) = (CONFIG_LEXER_TOK_INCLUDE, l)" "lx l (CHR '' '' # quoted ''x'' @ ''%'')"
    by blast
  from advance_to [OF this] have p1: "at p1 CONFIG_LEXER_TOK_INCLUDE (CHR '' '' # quoted ''x'' @ ''%'')" "cp_config p1 = c0"
    unfolding p1_def by (simp_all add: keeps_def)
  define p2 where "p2 = cp_advance p1"
  have p2: "at p2 CONFIG_LEXER_TOK_STR ''%''" "lex_str_value (cp_lexer p2) = ''x''" "cp_config p2 = c0"
  proof -
    obtain l' where l': "Config_lexer_next_token (cp_lexer p1) = Config_lexer_next_token l'" "lx l' (quoted ''x'' @ ''%'')"
      using tok_space [OF at_lx [OF p1(1)]] by blast
    have eq: "p2 = cp_advance (p1\<lparr>cp_lexer := l'\<rparr>)" unfolding p2_def by (rule advance_lexer [OF l'(1), symmetric])
    have pl: "plain ''x''" by (simp add: plain_def NUL_def LEXER_MAX_STR_LEN_def)
    show "at p2 CONFIG_LEXER_TOK_STR ''%''" "lex_str_value (cp_lexer p2) = ''x''" "cp_config p2 = c0"
      using advance_str [of "p1\<lparr>cp_lexer := l'\<rparr>" "''x''" "''%''"] l'(2) pl p1(2) unfolding eq by (simp_all add: keeps_def)
  qed
  define p3 where "p3 = cp_advance (p2\<lparr>cp_config := c0\<lparr>cfg_includes := q\<rparr>\<rparr>)"
  have p3: "at p3 CONFIG_LEXER_TOK_EOF []" "cp_config p3 = c0\<lparr>cfg_includes := q\<rparr>"
    using advance_punct [of "p2\<lparr>cp_config := c0\<lparr>cfg_includes := q\<rparr>\<rparr>" "CHR ''%''" "[]" CONFIG_LEXER_TOK_EOF] at_lx [OF p2(1)]
    unfolding p3_def by (simp_all add: keeps_def)
  have no: "accept CONFIG_LEXER_TOK_EOL p1 = (False, p1)" "accept CONFIG_LEXER_TOK_EOL p3 = (False, p3)"
    using accept_other [OF p1(1)] accept_other [OF p3(1)] by (simp_all add: config_toks)
  have stmt: "grammar_statement (le_glob ?E) p1 = Some (True, p3)"
  proof -
    have "grammar_assignment p1 = Some (False, p1)" "grammar_section_type p1 = Some (False, p1)"
      using p1(1) by (simp_all add: grammar_assignment_def grammar_section_type_def accept_no_advance_def at_def config_toks)
    moreover have "accept CONFIG_LEXER_TOK_INCLUDE p1 = (True, p2)" using accept_this [OF p1(1)] by (simp add: config_toks p2_def)
    ultimately show ?thesis using p2 incl
      by (simp add: grammar_statement_def or_else_def grammar_section_def grammar_include_def accept_no_advance_def at_def p3_def del: advance_upd)
  qed
  let ?f = "or_else (and_then (and_then (grammar_statement (le_glob ?E)) (grammar_statements (le_glob ?E))) (acc CONFIG_LEXER_TOK_EOF)) (acc CONFIG_LEXER_TOK_EOF)"
  have "grammar_statements (le_glob ?E) p3 = Some (True, p3)"
    using no(2) no_statement [OF p3(1)] by (subst grammar_statements.simps) (simp add: and_then_def acc_def)
  moreover have "accept CONFIG_LEXER_TOK_EOF p3 = (True, cp_advance p3)" using accept_this [OF p3(1)] by (simp add: config_toks)
  ultimately have f: "?f p1 = Some (True, cp_advance p3)"
    using stmt by (simp add: or_else_def and_then_def acc_def)
  have start: "Config_parser_start (le_glob ?E) ?parser Config_create = ?f (snd (accept CONFIG_LEXER_TOK_EOL p1))"
    using c0(1) unfolding p1_def by (auto simp: Config_parser_start_def bind_eq_Some_conv)
  have parse: "Config_parser_start (le_glob ?E) ?parser Config_create = Some (True, cp_advance p3)"
    unfolding start no(1) snd_conv by (rule f)
  have "hash_inv (Hash_create CONFIG_INIT_INCLUDES :: int Hash_T)" "length ''main'' \<le> MAX_KEY_LEN"
    by (simp_all add: MAX_KEY_LEN_def CONFIG_INIT_INCLUDES_def)
  from Hash_insert_correct [OF this, of 1] obtain h where h: "Hash_insert (Hash_create CONFIG_INIT_INCLUDES) ''main'' (1::int) = Some h" by blast
  have "load_one ?E Config_create ''main'' = Some (c0\<lparr>cfg_includes := q, cfg_processed_includes := h\<rparr>)"
    using parse p3(2) same(1) h by (simp add: load_one_def example_load_env_def)
  then show ?thesis using r q h by (intro exI [of _ "c0\<lparr>cfg_includes := q, cfg_processed_includes := h\<rparr>"]) (simp add: Config_get_section_def)
qed

text \<open>The statement for the main file that includes four: the third and the fourth are dropped.\<close>

theorem config_loads_three_files_witness:
  "\<exists>config. Config_load_file example_load_env Config_create (Some ''main'') = Some config \<and>
     dom (hash_map (cfg_processed_includes config)) = {''main'', ''a'', ''b''} \<and> num_entries (cfg_processed_includes config) = 3 \<and>
     queue_elems (cfg_includes config) = [] \<and> (\<forall>glob pattern. Config_add_include glob config pattern = Some config)"
proof -
  let ?E = example_load_env
  have empty: "le_read ?E f = Some ''%''" if "f \<noteq> ''main''" for f using that by (simp add: example_load_env_def)
  have size: "hash_inv (Hash_create CONFIG_INIT_INCLUDES :: int Hash_T)" "hash_size (Hash_create CONFIG_INIT_INCLUDES :: int Hash_T) = 3"
    using Hash_create_inv [of CONFIG_INIT_INCLUDES] by (simp_all add: CONFIG_INIT_INCLUDES_def Hash_create_def)
  obtain c r h1 where c: "load_one ?E Config_create ''main'' = Some c" "Config_get_section c CONFIG_DEFAULT_SECTION = Some (Some r)"
      "Hash_insert (Hash_create CONFIG_INIT_INCLUDES) ''main'' 1 = Some h1" "cfg_processed_includes c = h1"
      "queue_wf (cfg_includes c)" "queue_elems (cfg_includes c) = [''a'', ''b'', ''c'', ''d'']" using load_main by blast
  have step: "\<exists>h'. Hash_insert h k 1 = Some h' \<and> hash_inv h' \<and> load_table h' \<and> hash_map h' = (hash_map h)(k \<mapsto> 1)"
    if "hash_inv h" "load_table h" "num_entries h < 3" "length k \<le> MAX_KEY_LEN" for h :: "int Hash_T" and k
    using Hash_insert_correct [OF that(1,4), of 1] load_table_insert [OF that(2)] that(3) by (metis CONFIG_INIT_INCLUDES_def)
  have main: "h1' = h1" if "Hash_insert (Hash_create CONFIG_INIT_INCLUDES) ''main'' 1 = Some h1'" for h1' using that c(3) by simp
  have t0: "load_table (Hash_create CONFIG_INIT_INCLUDES :: int Hash_T)" "num_entries (Hash_create CONFIG_INIT_INCLUDES :: int Hash_T) < 3"
    by (simp_all add: load_table_def Hash_create_def CONFIG_INIT_INCLUDES_def)
  have short: "length ''main'' \<le> MAX_KEY_LEN" "length ''a'' \<le> MAX_KEY_LEN" "length ''b'' \<le> MAX_KEY_LEN" by (simp_all add: MAX_KEY_LEN_def)
  have h1: "hash_inv h1" "load_table h1" "hash_map h1 = [''main'' \<mapsto> 1]"
    using step [OF size(1) t0 short(1)] main by auto
  have n1: "num_entries h1 = 1" using hash_entries_card [OF h1(1)] h1(3) by simp
  obtain h2 where h2: "Hash_insert h1 ''a'' 1 = Some h2" "hash_inv h2" "load_table h2" "hash_map h2 = [''main'' \<mapsto> 1, ''a'' \<mapsto> 1]"
    using step [OF h1(1,2) _ short(2)] n1 h1(3) by auto
  have n2: "num_entries h2 = 2" using hash_entries_card [OF h2(2)] h2(4) by simp
  obtain h3 where h3: "Hash_insert h2 ''b'' 1 = Some h3" "hash_inv h3" "load_table h3" "hash_map h3 = [''main'' \<mapsto> 1, ''a'' \<mapsto> 1, ''b'' \<mapsto> 1]"
    using step [OF h2(2,3) _ short(3)] n2 h2(4) by auto
  have n3: "num_entries h3 = 3" using hash_entries_card [OF h3(2)] h3(4) by simp
  have get: "Hash_get h1 ''a'' = Some None" "Hash_get h2 ''b'' = Some None"
    using Hash_get_absent [OF h1(1), of "''a''"] Hash_get_absent [OF h2(2), of "''b''"] h1(2,3) h2(3,4) n1 n2
    by (simp_all add: load_table_def CONFIG_INIT_INCLUDES_def)
  obtain q1 where q1: "Queue_dequeue (cfg_includes c) = (Some ''a'', q1)" "queue_elems q1 = [''b'', ''c'', ''d'']" "queue_wf q1"
    using lq.deq_Cons [OF c(5,6)] lq.deq_wf [OF c(5)] by (metis prod.collapse snd_conv)
  obtain q2 where q2: "Queue_dequeue q1 = (Some ''b'', q2)" "queue_elems q2 = [''c'', ''d'']" "queue_wf q2"
    using lq.deq_Cons [OF q1(3,2)] lq.deq_wf [OF q1(3)] by (metis prod.collapse snd_conv)
  let ?c2 = "c\<lparr>cfg_includes := q1, cfg_processed_includes := h2\<rparr>" and ?c3 = "c\<lparr>cfg_includes := q2, cfg_processed_includes := h3\<rparr>"
  have full: "table_full h3" using h3(3) n3 by (simp add: table_full_def CONFIG_INIT_INCLUDES_def)
  obtain q3 where q3: "Config_load_file ?E ?c3 None = Some (?c3\<lparr>cfg_includes := q3\<rparr>)" "queue_elems q3 = []" "queue_wf q3"
    using full_drain [of ?c3 ?E] full q2(3) by auto
  let ?c = "c\<lparr>cfg_includes := q3, cfg_processed_includes := h3\<rparr>"
  have load: "load_one ?E (c\<lparr>cfg_includes := q1\<rparr>) ''a'' = Some ?c2" "load_one ?E (?c2\<lparr>cfg_includes := q2\<rparr>) ''b'' = Some ?c3"
    using load_nothing [OF empty, of "''a''" "c\<lparr>cfg_includes := q1\<rparr>" r] load_nothing [OF empty, of "''b''" "?c2\<lparr>cfg_includes := q2\<rparr>" r]
      c(2,4) h2(1) h3(1) by (simp_all add: Config_get_section_def)
  have empty_queue: "Config_load_file ?E ?c None = Some ?c"
    using q3(2) lq.siz [OF q3(3)] by (subst Config_load_file.simps) simp
  have b: "Config_load_file ?E (?c2\<lparr>cfg_includes := q2\<rparr>) (Some ''b'') = Some ?c" using load(2) q3(1) by (simp add: load_then_rest)
  have "Config_load_file ?E ?c2 None = Some ?c"
    using b empty_queue get(2) q1(2) q2(1) lq.siz [OF q1(3)] by (subst Config_load_file.simps) simp
  then have a: "Config_load_file ?E (c\<lparr>cfg_includes := q1\<rparr>) (Some ''a'') = Some ?c" using load(1) by (simp add: load_then_rest)
  have "Config_load_file ?E c None = Some ?c"
    using a empty_queue get(1) c(4,6) q1(1) lq.siz [OF c(5)] by (subst Config_load_file.simps) simp
  then have loaded: "Config_load_file ?E Config_create (Some ''main'') = Some ?c" using c(1) by (simp add: load_then_rest)
  have "dom (hash_map h3) = {''main'', ''a'', ''b''}" using h3(4) by auto
  then show ?thesis
    using config_loads_three_files [OF loaded] loaded n3 q3(2) by (intro exI [of _ ?c]) simp
qed

end
