(* ===== verification/Sql.thy ===== *)
theory Sql
  imports Prelude "HOL-Library.Multiset"
begin

text \<open>
  The statements of SQL that the database drivers of \<open>src/drivers/\<close> execute, as syntax trees, and their
  documented meaning. The engine that runs them is not part of the repository: the drivers are verified
  against laws that relate the engine to this meaning (theory \<open>Sqlite\<close>).

  A table is a list of rows, but the engine may visit the rows in any order, so the laws speak of some
  permutation of them. No condition of the drivers is a text. Conditions are three-valued: a comparison with NULL is NULL, and a row is selected
  when its condition is a number other than zero.
\<close>

section \<open>Syntax\<close>

datatype sql_value = SNull | SInt int | SText string

text \<open>\<open>Param n\<close> is the \<open>n\<close>-th question mark of the statement. \<open>In_query\<close> is \<open>e IN (SELECT ...)\<close>.\<close>

datatype sql_expr = Lit sql_value | Param nat | Col string | Eq sql_expr sql_expr | Le sql_expr sql_expr
  | Like sql_expr sql_expr | Cat sql_expr sql_expr | Not sql_expr | And sql_expr sql_expr | In_query sql_expr sql_query
and sql_query = Select "sql_expr list" string sql_expr | Union sql_query sql_query | Limit nat sql_query

datatype sql_conflict = Or_ignore | Or_replace

datatype sql_stmt = Begin | Commit | Rollback | Create_table string "string list" "string list"
  | Insert sql_conflict string "string list" "sql_expr list" | Delete string sql_expr
  | Update sql_conflict string "(string \<times> sql_expr) list" sql_expr | Query sql_query

section \<open>Tables\<close>

type_synonym sql_row = "sql_value list"

record sql_table =
  tab_cols :: "string list"
  tab_key :: "string list"
  tab_rows :: "sql_row list"

type_synonym sql_db = "string \<rightharpoonup> sql_table"

definition cell :: "string list \<Rightarrow> sql_row \<Rightarrow> string \<Rightarrow> sql_value" where
  "cell cols row c = (case map_of (zip cols row) c of None \<Rightarrow> SNull | Some v \<Rightarrow> v)"

definition row_key :: "sql_table \<Rightarrow> sql_row \<Rightarrow> sql_value list" where
  "row_key t row = map (cell (tab_cols t) row) (tab_key t)"

section \<open>Expressions\<close>

text \<open>Patterns: \<open>%\<close> stands for any characters, \<open>_\<close> for one; the case of ASCII letters does not matter.\<close>

fun like :: "string \<Rightarrow> string \<Rightarrow> bool" where
  "like [] t = (t = [])"
| "like (c # p) t =
     (if c = CHR ''%'' then like p t \<or> (case t of [] \<Rightarrow> False | d # t' \<Rightarrow> like (c # p) t')
      else case t of [] \<Rightarrow> False | d # t' \<Rightarrow> (c = CHR ''_'' \<or> char_tolower c = char_tolower d) \<and> like p t')"

text \<open>Numbers come before texts, texts are compared byte by byte.\<close>

fun text_le :: "string \<Rightarrow> string \<Rightarrow> bool" where
  "text_le [] t = True"
| "text_le (c # s) [] = False"
| "text_le (c # s) (d # t) = (char_code c < char_code d \<or> c = d \<and> text_le s t)"

fun value_le :: "sql_value \<Rightarrow> sql_value \<Rightarrow> bool" where
  "value_le (SInt i) (SInt j) = (i \<le> j)"
| "value_le (SInt i) (SText t) = True"
| "value_le (SText s) (SText t) = text_le s t"
| "value_le _ _ = False"

definition truth :: "bool \<Rightarrow> sql_value" where
  "truth b = SInt (if b then 1 else 0)"

definition holds :: "sql_value \<Rightarrow> bool" where
  "holds v \<longleftrightarrow> (\<exists>i. v = SInt i \<and> i \<noteq> 0)"

definition fails :: "sql_value \<Rightarrow> bool" where
  "fails v \<longleftrightarrow> (\<exists>t. v = SText t) \<or> v = SInt 0"

lemma holds_code [simp, code]:
  "holds (SInt i) \<longleftrightarrow> i \<noteq> 0" "holds SNull \<longleftrightarrow> False" "holds (SText t) \<longleftrightarrow> False" "holds (truth b) \<longleftrightarrow> b"
  by (simp_all add: holds_def truth_def)

lemma fails_code [simp, code]:
  "fails (SInt i) \<longleftrightarrow> i = 0" "fails SNull \<longleftrightarrow> False" "fails (SText t) \<longleftrightarrow> True" "fails (truth b) \<longleftrightarrow> \<not> b"
  by (simp_all add: fails_def truth_def)

definition compared :: "(sql_value \<Rightarrow> sql_value \<Rightarrow> bool) \<Rightarrow> sql_value \<Rightarrow> sql_value \<Rightarrow> sql_value" where
  "compared f v w = (if v = SNull \<or> w = SNull then SNull else truth (f v w))"

fun text_of :: "sql_value \<Rightarrow> string" where
  "text_of (SText s) = s"
| "text_of (SInt i) = (if i < 0 then CHR ''-'' # dec_digits (nat (- i)) else dec_digits (nat i))"
| "text_of SNull = []"

definition negated :: "sql_value \<Rightarrow> sql_value" where
  "negated v = (if holds v then truth False else if fails v then truth True else SNull)"

definition conj_value :: "sql_value \<Rightarrow> sql_value \<Rightarrow> sql_value" where
  "conj_value v w = (if fails v \<or> fails w then truth False else if holds v \<and> holds w then truth True else SNull)"

definition among :: "sql_value \<Rightarrow> sql_value list \<Rightarrow> sql_value" where
  "among v ws = (if ws = [] then truth False else if v = SNull then SNull else if v \<in> set ws then truth True
     else if SNull \<in> set ws then SNull else truth False)"

lemma holds_simps [simp]:
  "holds (negated v) \<longleftrightarrow> fails v" "fails (negated v) \<longleftrightarrow> holds v"
  "holds (conj_value v w) \<longleftrightarrow> holds v \<and> holds w" "fails (conj_value v w) \<longleftrightarrow> fails v \<or> fails w"
  "holds (compared f v w) \<longleftrightarrow> v \<noteq> SNull \<and> w \<noteq> SNull \<and> f v w" "fails (compared f v w) \<longleftrightarrow> v \<noteq> SNull \<and> w \<noteq> SNull \<and> \<not> f v w"
  by (auto simp: negated_def conj_value_def compared_def holds_def fails_def truth_def)

text \<open>\<open>args\<close> are the bound parameters, \<open>row\<close> is the row at hand of a table with the columns \<open>cols\<close>.\<close>

primrec eval :: "(nat \<Rightarrow> sql_value) \<Rightarrow> sql_db \<Rightarrow> sql_expr \<Rightarrow> string list \<Rightarrow> sql_row \<Rightarrow> sql_value"
  and rows_of :: "(nat \<Rightarrow> sql_value) \<Rightarrow> sql_db \<Rightarrow> sql_query \<Rightarrow> sql_row list" where
  "eval args db (Lit v) cols row = v"
| "eval args db (Param n) cols row = args n"
| "eval args db (Col c) cols row = cell cols row c"
| "eval args db (Eq a b) cols row = compared (=) (eval args db a cols row) (eval args db b cols row)"
| "eval args db (Le a b) cols row = compared value_le (eval args db a cols row) (eval args db b cols row)"
| "eval args db (Like a p) cols row =
     compared (\<lambda>v w. like (text_of w) (text_of v)) (eval args db a cols row) (eval args db p cols row)"
| "eval args db (Cat a b) cols row =
     (let v = eval args db a cols row; w = eval args db b cols row
      in if v = SNull \<or> w = SNull then SNull else SText (text_of v @ text_of w))"
| "eval args db (Not a) cols row = negated (eval args db a cols row)"
| "eval args db (And a b) cols row = conj_value (eval args db a cols row) (eval args db b cols row)"
| "eval args db (In_query a q) cols row = among (eval args db a cols row) (map hd (rows_of args db q))"
| "rows_of args db (Select es t cond) =
     (case db t of
        None \<Rightarrow> []
      | Some tab \<Rightarrow> map (\<lambda>row. map (\<lambda>f. f (tab_cols tab) row) (map (eval args db) es))
                      (filter (\<lambda>row. holds (eval args db cond (tab_cols tab) row)) (tab_rows tab)))"
| "rows_of args db (Union p q) = remdups (rows_of args db p @ rows_of args db q)"
| "rows_of args db (Limit n q) = take n (rows_of args db q)"

section \<open>Statements\<close>

definition insert_row :: "sql_conflict \<Rightarrow> sql_table \<Rightarrow> sql_row list \<Rightarrow> sql_row \<Rightarrow> sql_row list" where
  "insert_row c t rows r =
     (if c = Or_ignore \<and> row_key t r \<in> row_key t ` set rows then rows
      else filter (\<lambda>x. row_key t x \<noteq> row_key t r) rows @ [r])"

text \<open>
  An update visits the rows that satisfied the condition at its start one after the other; a row that has
  been replaced is gone when its turn comes.
\<close>

function update_rows :: "sql_conflict \<Rightarrow> sql_table \<Rightarrow> (sql_row \<Rightarrow> bool) \<Rightarrow> (sql_row \<Rightarrow> sql_row) \<Rightarrow> sql_row list \<Rightarrow> sql_row list \<Rightarrow> sql_row list" where
  "update_rows c t cond f seen [] = seen"
| "update_rows c t cond f seen (r # rows) =
     (if \<not> cond r then update_rows c t cond f (seen @ [r]) rows
      else if c = Or_ignore \<and> row_key t (f r) \<in> row_key t ` (set seen \<union> set rows) then update_rows c t cond f (seen @ [r]) rows
      else update_rows c t cond f (filter (\<lambda>x. row_key t x \<noteq> row_key t (f r)) seen @ [f r])
             (filter (\<lambda>x. row_key t x \<noteq> row_key t (f r)) rows))"
  by pat_completeness auto
termination by (relation "measure (\<lambda>(c, t, cond, f, seen, rows). length rows)") (auto simp: le_imp_less_Suc)

definition assign_row :: "(nat \<Rightarrow> sql_value) \<Rightarrow> sql_db \<Rightarrow> string list \<Rightarrow> (string \<times> sql_expr) list \<Rightarrow> sql_row \<Rightarrow> sql_row" where
  "assign_row args db cols sets row =
     map (\<lambda>c. case map_of sets c of None \<Rightarrow> cell cols row c | Some e \<Rightarrow> eval args db e cols row) cols"

text \<open>The statements on tables; those of transactions are laws of the engine.\<close>

fun exec :: "(nat \<Rightarrow> sql_value) \<Rightarrow> sql_db \<Rightarrow> sql_stmt \<Rightarrow> sql_db" where
  "exec args db (Create_table t cols key) =
     (if db t = None then db(t \<mapsto> \<lparr>tab_cols = cols, tab_key = key, tab_rows = []\<rparr>) else db)"
| "exec args db (Insert c t cols es) =
     (case db t of
        None \<Rightarrow> db
      | Some tab \<Rightarrow>
          db(t \<mapsto> tab\<lparr>tab_rows := insert_row c tab (tab_rows tab) (map (cell cols (map (\<lambda>e. eval args db e [] []) es)) (tab_cols tab))\<rparr>))"
| "exec args db (Delete t cond) =
     (case db t of
        None \<Rightarrow> db
      | Some tab \<Rightarrow> db(t \<mapsto> tab\<lparr>tab_rows := filter (\<lambda>r. \<not> holds (eval args db cond (tab_cols tab) r)) (tab_rows tab)\<rparr>))"
| "exec args db (Update c t sets cond) =
     (case db t of
        None \<Rightarrow> db
      | Some tab \<Rightarrow>
          db(t \<mapsto> tab\<lparr>tab_rows := update_rows c tab (\<lambda>r. holds (eval args db cond (tab_cols tab) r))
                                  (assign_row args db (tab_cols tab) sets) [] (tab_rows tab)\<rparr>))"
| "exec args db _ = db"

text \<open>The same tables with their rows in another order.\<close>

definition same_rows :: "sql_db \<Rightarrow> sql_db \<Rightarrow> bool" where
  "same_rows db db' \<longleftrightarrow> (\<forall>t. rel_option (\<lambda>a b. tab_cols a = tab_cols b \<and> tab_key a = tab_key b \<and> mset (tab_rows a) = mset (tab_rows b)) (db t) (db' t))"

lemma same_rows_refl [simp]: "same_rows db db"
  by (simp add: same_rows_def option.rel_refl)

section \<open>Patterns\<close>

lemma like_Cons:
  "like [] t \<longleftrightarrow> t = []"
  "like (CHR ''%'' # p) [] \<longleftrightarrow> like p []"
  "like (CHR ''%'' # p) (d # t) \<longleftrightarrow> like p (d # t) \<or> like (CHR ''%'' # p) t"
  "c \<noteq> CHR ''%'' \<Longrightarrow> c \<noteq> CHR ''_'' \<Longrightarrow>
     like (c # p) t \<longleftrightarrow> (case t of [] \<Rightarrow> False | d # t' \<Rightarrow> char_tolower c = char_tolower d \<and> like p t')"
  by (subst like.simps, simp split: list.split)+

declare like.simps [simp del]

lemma like_literal: "CHR ''%'' \<notin> set p \<Longrightarrow> CHR ''_'' \<notin> set p \<Longrightarrow> like p t = casecmp_eq t p"
  by (induction p arbitrary: t) (auto simp: like_Cons casecmp_eq_def split: list.splits)

lemma like_any: "like (CHR ''%'' # p) t \<longleftrightarrow> (\<exists>n\<le>length t. like p (drop n t))"
proof (induction t)
  case Nil
  then show ?case by (simp add: like_Cons)
next
  case (Cons c t)
  have "(\<exists>n\<le>length (c # t). like p (drop n (c # t))) \<longleftrightarrow> like p (c # t) \<or> (\<exists>n\<le>length t. like p (drop n t))"
    by (metis Suc_le_mono drop0 drop_Suc_Cons le0 length_Cons not0_implies_Suc)
  then show ?case using Cons by (simp add: like_Cons)
qed

end
