(* ===== verification/Sqlite.thy ===== *)
theory Sqlite
  imports Sql Greylisting
begin

text \<open>
  Models \<open>src/drivers/sqlite.c\<close>, the database driver on SQLite. The engine is a parameter: a record of the
  functions the driver calls, with its documented behaviour as the locale \<open>sqlite_library\<close>, stated with the
  meaning of SQL in the theory \<open>Sql\<close>. The statements of the driver are given by their syntax trees.

  The driver meets the contract \<open>greydb_live\<close> for keys it can tell apart: a tuple needs a sender and a
  recipient, since an entry without them stands for an address, and a domain must not contain the wildcards
  of a pattern. Its scan does what the specification says unless a tuple passes while its address has an entry
  that is still valid, which it leaves alone.
\<close>

section \<open>The engine\<close>

definition SQLITE_OK :: int where "SQLITE_OK = 0"
definition SQLITE_BUSY :: int where "SQLITE_BUSY = 5"
definition SQLITE_ROW :: int where "SQLITE_ROW = 100"
definition SQLITE_DONE :: int where "SQLITE_DONE = 101"

lemmas sqlite_codes = SQLITE_OK_def SQLITE_BUSY_def SQLITE_ROW_def SQLITE_DONE_def

definition MAX_RETRY :: nat where "MAX_RETRY = 20"

text \<open>\<open>sl_column\<close> is the value that the column functions convert.\<close>

record ('e, 's) sqlite_lib =
  sl_open :: "'e \<Rightarrow> int \<times> 'e"
  sl_exec :: "'e \<Rightarrow> sql_stmt list \<Rightarrow> int \<times> 'e"
  sl_prepare :: "'e \<Rightarrow> sql_stmt \<Rightarrow> int \<times> 's"
  sl_bind :: "'s \<Rightarrow> nat \<Rightarrow> sql_value \<Rightarrow> int \<times> 's"
  sl_step :: "'e \<Rightarrow> 's \<Rightarrow> int \<times> 'e \<times> 's"
  sl_column :: "'s \<Rightarrow> nat \<Rightarrow> sql_value"

record 'e s3_handle =
  s3_env :: 'e
  s3_open :: bool
  s3_txn :: int

record 's s3_itr =
  si_stmt :: 's
  si_curr :: "DB_key option"
  si_current :: int

text \<open>The conversions of \<open>sqlite3_column_int64\<close> and \<open>sqlite3_column_text\<close>, which is NULL for NULL.\<close>

fun column_int :: "sql_value \<Rightarrow> int" where
  "column_int (SInt i) = i"
| "column_int SNull = 0"
| "column_int (SText s) = fst (strtol s)"

definition column_text :: "sql_value \<Rightarrow> string option" where
  "column_text v = (if v = SNull then None else Some (text_of v))"

section \<open>Opening and transactions\<close>

definition s3_schema :: "sql_stmt list" where
  "s3_schema =
     [Create_table ''spamtraps'' [''address''] [''address''],
      Create_table ''domains'' [''domain''] [''domain''],
      Create_table ''entries'' [''ip'', ''helo'', ''from'', ''to'', ''first'', ''pass'', ''expire'', ''bcount'', ''pcount'']
        [''ip'', ''helo'', ''from'', ''to'']]"

definition s3_db_open :: "('e, 's) sqlite_lib \<Rightarrow> 'e s3_handle \<Rightarrow> int \<Rightarrow> 'e s3_handle option" where
  "s3_db_open L dbh flags =
     (if s3_open dbh then Some dbh
      else (let (ret, env) = sl_open L (s3_env dbh)
            in if ret \<noteq> SQLITE_OK then None
               else (let (ret2, env2) = sl_exec L env s3_schema
                     in if ret2 \<noteq> SQLITE_OK then None else Some (dbh\<lparr>s3_env := env2, s3_open := True\<rparr>))))"

text \<open>
  The retry loops of \<open>Mod_db_start_txn\<close> and \<open>Mod_db_commit_txn\<close>. When the engine is still busy after the
  last retry, the error message is printed after it has been freed.
\<close>

function exec_retry :: "('e, 's) sqlite_lib \<Rightarrow> sql_stmt \<Rightarrow> 'e \<Rightarrow> nat \<Rightarrow> (int \<times> 'e) option" where
  "exec_retry L stmt env retries =
     (let (ret, env1) = sl_exec L env [stmt] in
      if ret = SQLITE_OK then Some (ret, env1)
      else if ret = SQLITE_BUSY
      then if retries < MAX_RETRY then exec_retry L stmt env1 (retries + 1) else None
      else Some (- 1, env1))"
  by pat_completeness auto
termination by (relation "measure (\<lambda>(L, stmt, env, retries). MAX_RETRY - retries)") auto

declare exec_retry.simps [simp del]

definition s3_db_start_txn :: "('e, 's) sqlite_lib \<Rightarrow> 'e s3_handle \<Rightarrow> (int \<times> 'e s3_handle) option" where
  "s3_db_start_txn L dbh =
     (if s3_txn dbh \<noteq> 0 then Some (- 1, dbh)
      else do { (ret, env) \<leftarrow> exec_retry L Begin (s3_env dbh) 0;
                Some (ret, dbh\<lparr>s3_env := env, s3_txn := (if ret = SQLITE_OK then 1 else s3_txn dbh)\<rparr>) })"

definition s3_db_commit_txn :: "('e, 's) sqlite_lib \<Rightarrow> 'e s3_handle \<Rightarrow> (int \<times> 'e s3_handle) option" where
  "s3_db_commit_txn L dbh =
     (if s3_txn dbh \<noteq> 1 then Some (- 1, dbh)
      else do { (ret, env) \<leftarrow> exec_retry L Commit (s3_env dbh) 0;
                Some (ret, dbh\<lparr>s3_env := env, s3_txn := (if ret = SQLITE_OK then 0 else s3_txn dbh)\<rparr>) })"

definition s3_db_rollback_txn :: "('e, 's) sqlite_lib \<Rightarrow> 'e s3_handle \<Rightarrow> (int \<times> 'e s3_handle) option" where
  "s3_db_rollback_txn L dbh =
     (if s3_txn dbh \<noteq> 1 then Some (- 1, dbh)
      else (let (ret, env) = sl_exec L (s3_env dbh) [Rollback]
            in if ret \<noteq> SQLITE_OK then None else Some (ret, dbh\<lparr>s3_env := env, s3_txn := 0\<rparr>)))"

section \<open>Entries\<close>

text \<open>A statement is prepared and its parameters are bound in turn; \<open>None\<close> when one of the calls fails.\<close>

definition prepare_bind :: "('e, 's) sqlite_lib \<Rightarrow> 'e \<Rightarrow> sql_stmt \<Rightarrow> sql_value list \<Rightarrow> 's option" where
  "prepare_bind L env sql vals =
     (let (ret, stmt) = sl_prepare L env sql in
      if ret \<noteq> SQLITE_OK then None
      else fold_opt (\<lambda>stmt (n, v). let (ret, stmt') = sl_bind L stmt n v in if ret \<noteq> SQLITE_OK then None else Some stmt')
             stmt (zip [1..<length vals + 1] vals))"

definition entry_cols :: "string list" where
  "entry_cols = [''ip'', ''helo'', ''from'', ''to'', ''first'', ''pass'', ''expire'', ''bcount'', ''pcount'']"

fun gd_values :: "Grey_data \<Rightarrow> sql_value list" where
  "gd_values gd = [SInt (gd_first gd), SInt (gd_pass gd), SInt (gd_expire gd), SInt (gd_bcount gd), SInt (gd_pcount gd)]"

abbreviation empty_text :: sql_expr where
  "empty_text \<equiv> Lit (SText [])"

fun put_stmt :: "DB_key \<Rightarrow> Grey_data \<Rightarrow> (sql_stmt \<times> sql_value list) option" where
  "put_stmt (KEY_MAIL s) gd = Some (Insert Or_ignore ''spamtraps'' [''address''] [Param 1], [SText s])"
| "put_stmt (KEY_DOM s) gd = Some (Insert Or_ignore ''domains'' [''domain''] [Param 1], [SText s])"
| "put_stmt (KEY_IP s) gd =
     Some (Insert Or_replace ''entries'' entry_cols
             [Param 1, empty_text, empty_text, empty_text, Param 2, Param 3, Param 4, Param 5, Param 6], SText s # gd_values gd)"
| "put_stmt (KEY_TUPLE gt) gd =
     Some (Insert Or_replace ''entries'' entry_cols
             [Param 1, Param 2, Param 3, Param 4, Param 5, Param 6, Param 7, Param 8, Param 9],
           [SText (gt_ip gt), SText (gt_helo gt), SText (gt_from gt), SText (gt_to gt)] @ gd_values gd)"
| "put_stmt _ gd = None"

definition s3_db_put :: "('e, 's) sqlite_lib \<Rightarrow> 'e s3_handle \<Rightarrow> DB_key \<Rightarrow> DB_val \<Rightarrow> (int \<times> 'e s3_handle) option" where
  "s3_db_put L dbh key val =
     (case put_stmt key (val_gd val) of
        None \<Rightarrow> Some (GREYDB_ERR, dbh)
      | Some (sql, vals) \<Rightarrow>
          (case prepare_bind L (s3_env dbh) sql vals of
             None \<Rightarrow> do { (r, dbh') \<leftarrow> s3_db_rollback_txn L dbh; Some (GREYDB_ERR, dbh') }
           | Some stmt \<Rightarrow>
               (let (ret, env, stmt') = sl_step L (s3_env dbh) stmt
                in Some (if ret \<noteq> SQLITE_DONE then GREYDB_ERR else GREYDB_OK, dbh\<lparr>s3_env := env\<rparr>))))"

text \<open>The condition that selects an entry by its four key columns.\<close>

definition key_cond :: "sql_expr \<Rightarrow> sql_expr \<Rightarrow> sql_expr \<Rightarrow> sql_expr \<Rightarrow> sql_expr" where
  "key_cond ip helo from to =
     And (And (And (Eq (Col ''ip'') ip) (Eq (Col ''helo'') helo)) (Eq (Col ''from'') from)) (Eq (Col ''to'') to)"

definition data_cols :: "sql_expr list" where
  "data_cols = [Col ''first'', Col ''pass'', Col ''expire'', Col ''bcount'', Col ''pcount'']"

definition marker_cols :: "int \<Rightarrow> sql_expr list" where
  "marker_cols n = [Lit (SInt 0), Lit (SInt 0), Lit (SInt 0), Lit (SInt 0), Lit (SInt n)]"

fun get_query :: "DB_key \<Rightarrow> (sql_query \<times> sql_value list) option" where
  "get_query (KEY_DOM_PART s) =
     Some (Select (marker_cols (- 3)) ''domains'' (Like (Param 1) (Cat (Lit (SText ''%'')) (Col ''domain''))), [SText s])"
| "get_query (KEY_MAIL s) = Some (Limit 1 (Select (marker_cols (- 2)) ''spamtraps'' (Eq (Col ''address'') (Param 1))), [SText s])"
| "get_query (KEY_DOM s) = Some (Limit 1 (Select (marker_cols (- 3)) ''domains'' (Eq (Col ''domain'') (Param 1))), [SText s])"
| "get_query (KEY_IP s) =
     Some (Limit 1 (Select data_cols ''entries'' (key_cond (Param 1) empty_text empty_text empty_text)), [SText s])"
| "get_query (KEY_TUPLE gt) =
     Some (Limit 1 (Select data_cols ''entries'' (key_cond (Param 1) (Param 2) (Param 3) (Param 4))),
           [SText (gt_ip gt), SText (gt_helo gt), SText (gt_from gt), SText (gt_to gt)])"
| "get_query (KEY_OTHER t) = None"

definition s3_populate_val :: "(nat \<Rightarrow> sql_value) \<Rightarrow> nat \<Rightarrow> DB_val" where
  "s3_populate_val col from =
     \<lparr>val_type = DB_VAL_GREY,
      val_gd = \<lparr>gd_first = column_int (col from), gd_pass = column_int (col (from + 1)), gd_expire = column_int (col (from + 2)),
                gd_bcount = column_int (col (from + 3)), gd_pcount = column_int (col (from + 4))\<rparr>\<rparr>"

text \<open>
  A lookup leaves the database alone, so the engine after it is not handed on. When the statement cannot
  be prepared the result is a variable that has not been set.
\<close>

definition s3_db_get :: "('e, 's) sqlite_lib \<Rightarrow> 'e s3_handle \<Rightarrow> DB_key \<Rightarrow> (int \<times> DB_val option) option" where
  "s3_db_get L dbh key =
     (case get_query key of
        None \<Rightarrow> Some (GREYDB_ERR, None)
      | Some (query, vals) \<Rightarrow>
          (case prepare_bind L (s3_env dbh) (Query query) vals of
             None \<Rightarrow> None
           | Some stmt \<Rightarrow>
               (let (ret, env, stmt') = sl_step L (s3_env dbh) stmt
                in if ret = SQLITE_DONE then Some (GREYDB_NOT_FOUND, None)
                   else if ret = SQLITE_ROW then Some (GREYDB_FOUND, Some (s3_populate_val (sl_column L stmt') 0))
                   else Some (GREYDB_ERR, None))))"

fun del_stmt :: "DB_key \<Rightarrow> (sql_stmt \<times> sql_value list) option" where
  "del_stmt (KEY_MAIL s) = Some (Delete ''spamtraps'' (Eq (Col ''address'') (Param 1)), [SText s])"
| "del_stmt (KEY_DOM s) = Some (Delete ''domains'' (Eq (Col ''domain'') (Param 1)), [SText s])"
| "del_stmt (KEY_IP s) = Some (Delete ''entries'' (key_cond (Param 1) empty_text empty_text empty_text), [SText s])"
| "del_stmt (KEY_TUPLE gt) =
     Some (Delete ''entries'' (key_cond (Param 1) (Param 2) (Param 3) (Param 4)),
           [SText (gt_ip gt), SText (gt_helo gt), SText (gt_from gt), SText (gt_to gt)])"
| "del_stmt _ = None"

definition s3_db_del :: "('e, 's) sqlite_lib \<Rightarrow> 'e s3_handle \<Rightarrow> DB_key \<Rightarrow> (int \<times> 'e s3_handle) option" where
  "s3_db_del L dbh key =
     (case del_stmt key of
        None \<Rightarrow> Some (GREYDB_ERR, dbh)
      | Some (sql, vals) \<Rightarrow>
          (case prepare_bind L (s3_env dbh) sql vals of
             None \<Rightarrow> do { (r, dbh') \<leftarrow> s3_db_rollback_txn L dbh; Some (GREYDB_ERR, dbh') }
           | Some stmt \<Rightarrow>
               (let (ret, env, stmt') = sl_step L (s3_env dbh) stmt
                in Some (if ret \<noteq> SQLITE_DONE then GREYDB_ERR else GREYDB_OK, dbh\<lparr>s3_env := env\<rparr>))))"

section \<open>The scan\<close>

definition scan_delete :: sql_stmt where
  "scan_delete = Delete ''entries'' (Le (Col ''expire'') (Param 1))"

definition update_sets :: "(string \<times> sql_expr) list" where
  "update_sets = [(''helo'', empty_text), (''from'', empty_text), (''to'', empty_text), (''expire'', Param 1)]"

definition update_cond :: sql_expr where
  "update_cond =
     And (And (And (And (Not (Eq (Col ''from'') empty_text)) (Not (Eq (Col ''to'') empty_text)))
                   (Le (Lit (SInt 0)) (Col ''pcount'')))
              (Le (Col ''pass'') (Param 2)))
         (Not (In_query (Col ''ip'')
                 (Select [Col ''ip''] ''entries'' (And (Eq (Col ''from'') empty_text) (Eq (Col ''to'') empty_text)))))"

definition scan_update :: sql_stmt where
  "scan_update = Update Or_replace ''entries'' update_sets update_cond"

definition no_tuple :: sql_expr where
  "no_tuple = And (Eq (Col ''to'') empty_text) (Eq (Col ''from'') empty_text)"

definition has_colon :: sql_expr where
  "has_colon = Like (Col ''ip'') (Lit (SText ''%:%''))"

definition scan_select :: sql_query where
  "scan_select =
     Union (Union
       (Select [Col ''ip'', Lit SNull, Lit SNull] ''entries''
          (And (And no_tuple (Not has_colon)) (Le (Lit (SInt 0)) (Col ''pcount''))))
       (Select [Lit SNull, Col ''ip'', Lit SNull] ''entries''
          (And (And no_tuple has_colon) (Le (Lit (SInt 0)) (Col ''pcount'')))))
       (Select [Lit SNull, Lit SNull, Col ''ip''] ''entries''
          (And no_tuple (Not (Le (Lit (SInt 0)) (Col ''pcount'')))))"

text \<open>The loop over the result: the column that is not NULL tells the list.\<close>

definition scan_row :: "(nat \<Rightarrow> sql_value) \<Rightarrow> string List_T \<times> string List_T \<times> string List_T \<Rightarrow> string List_T \<times> string List_T \<times> string List_T" where
  "scan_row col ls =
     (let (W, W6, T) = ls in
      case column_text (col 0) of
        Some s \<Rightarrow> (List_insert_after W s, W6, T)
      | None \<Rightarrow>
          (case column_text (col 1) of
             Some s \<Rightarrow> (W, List_insert_after W6 s, T)
           | None \<Rightarrow>
               (case column_text (col 2) of
                  Some s \<Rightarrow> (W, W6, List_insert_after T s)
                | None \<Rightarrow> ls)))"

partial_function (option) scan_rows :: "('e, 's) sqlite_lib \<Rightarrow> 'e \<Rightarrow> 's \<Rightarrow> string List_T \<times> string List_T \<times> string List_T
    \<Rightarrow> ('e \<times> string List_T \<times> string List_T \<times> string List_T) option" where
  "scan_rows L env stmt ls =
     (let (ret, env1, stmt1) = sl_step L env stmt in
      if ret = SQLITE_ROW then scan_rows L env1 stmt1 (scan_row (sl_column L stmt1) ls) else Some (env1, ls))"

text \<open>Running one of the two statements that change the table; \<open>None\<close> when a call fails.\<close>

definition scan_step :: "('e, 's) sqlite_lib \<Rightarrow> 'e \<Rightarrow> sql_stmt \<Rightarrow> sql_value list \<Rightarrow> 'e + 'e" where
  "scan_step L env sql vals =
     (case prepare_bind L env sql vals of
        None \<Rightarrow> Inl env
      | Some stmt \<Rightarrow> (let (ret, env1, stmt1) = sl_step L env stmt in if ret \<noteq> SQLITE_DONE then Inl env1 else Inr env1))"

definition s3_scan_db :: "('e, 's) sqlite_lib \<Rightarrow> 'e s3_handle \<Rightarrow> int \<Rightarrow> string List_T \<Rightarrow> string List_T \<Rightarrow> string List_T \<Rightarrow> int
    \<Rightarrow> (int \<times> 'e s3_handle \<times> string List_T \<times> string List_T \<times> string List_T) option" where
  "s3_scan_db L dbh now whitelist whitelist_ipv6 traplist white_exp =
     (case scan_step L (s3_env dbh) scan_delete [SInt now] of
        Inl env \<Rightarrow> Some (GREYDB_ERR, dbh\<lparr>s3_env := env\<rparr>, whitelist, whitelist_ipv6, traplist)
      | Inr env \<Rightarrow>
          (case scan_step L env scan_update [SInt (now + white_exp), SInt now] of
             Inl env \<Rightarrow> Some (GREYDB_ERR, dbh\<lparr>s3_env := env\<rparr>, whitelist, whitelist_ipv6, traplist)
           | Inr env \<Rightarrow>
               (case prepare_bind L env (Query scan_select) [] of
                  None \<Rightarrow> Some (GREYDB_ERR, dbh\<lparr>s3_env := env\<rparr>, whitelist, whitelist_ipv6, traplist)
                | Some stmt \<Rightarrow>
                    do { (env', ls) \<leftarrow> scan_rows L env stmt (whitelist, whitelist_ipv6, traplist);
                         Some (GREYDB_OK, dbh\<lparr>s3_env := env'\<rparr>, ls) })))"

definition sqlite_driver :: "('e, 's) sqlite_lib \<Rightarrow> 'e s3_handle DB_handle_T" where
  "sqlite_driver L =
     \<lparr>db_open = s3_db_open L, db_start_txn = s3_db_start_txn L, db_commit_txn = s3_db_commit_txn L,
      db_rollback_txn = s3_db_rollback_txn L, db_put = s3_db_put L, db_get = s3_db_get L, db_del = s3_db_del L,
      db_scan = s3_scan_db L\<rparr>"

section \<open>Iterators\<close>


text \<open>What \<open>sstrncpy\<close> leaves in a zeroed buffer of the given size.\<close>

definition copied :: "nat \<Rightarrow> string \<Rightarrow> string" where
  "copied n s = take (n - 1) s"

text \<open>A NULL in one of the text columns is read through a NULL pointer.\<close>

definition s3_populate_key :: "(nat \<Rightarrow> sql_value) \<Rightarrow> nat \<Rightarrow> DB_key option" where
  "s3_populate_key col from =
     do { helo1 \<leftarrow> column_text (col 1); from1 \<leftarrow> column_text (col 2); to1 \<leftarrow> column_text (col 3);
          ip \<leftarrow> column_text (col from);
          if helo1 = [] \<and> from1 = [] \<and> to1 = []
          then if column_int (col 8) = - 2 then Some (KEY_MAIL (copied (GREY_MAX_MAIL + 1) ip))
               else if column_int (col 8) = - 3 then Some (KEY_DOM (copied (GREY_MAX_MAIL + 1) ip))
               else Some (KEY_IP (copied (INET6_ADDRSTRLEN + 1) ip))
          else do { helo \<leftarrow> column_text (col (from + 1)); fr \<leftarrow> column_text (col (from + 2)); to \<leftarrow> column_text (col (from + 3));
                    Some (KEY_TUPLE \<lparr>gt_ip = copied (INET6_ADDRSTRLEN + 1) ip, gt_helo = copied (GREY_MAX_MAIL + 1) helo,
                                     gt_from = copied (GREY_MAX_MAIL + 1) fr, gt_to = copied (GREY_MAX_MAIL + 1) to\<rparr>) } }"

definition itr_query :: "int \<Rightarrow> sql_query" where
  "itr_query types =
     Union (Union
       (Select (map Col entry_cols) ''entries'' (Lit (SInt (types AND DB_ENTRIES))))
       (Select ([Col ''address'', empty_text, empty_text, empty_text] @ marker_cols (- 2)) ''spamtraps''
          (Lit (SInt (types AND DB_SPAMTRAPS)))))
       (Select ([Col ''domain'', empty_text, empty_text, empty_text] @ marker_cols (- 3)) ''domains''
          (Lit (SInt (types AND DB_DOMAINS))))"

definition s3_db_get_itr :: "('e, 's) sqlite_lib \<Rightarrow> 'e s3_handle \<Rightarrow> int \<Rightarrow> 's s3_itr option" where
  "s3_db_get_itr L dbh types =
     map_option (\<lambda>stmt. \<lparr>si_stmt = stmt, si_curr = None, si_current = - 1\<rparr>) (prepare_bind L (s3_env dbh) (Query (itr_query types)) [])"

definition s3_db_itr_next :: "('e, 's) sqlite_lib \<Rightarrow> 'e s3_handle \<Rightarrow> 's s3_itr
    \<Rightarrow> (int \<times> (DB_key \<times> DB_val) option \<times> 'e s3_handle \<times> 's s3_itr) option" where
  "s3_db_itr_next L dbh itr =
     (let (ret, env, stmt) = sl_step L (s3_env dbh) (si_stmt itr);
          dbh' = dbh\<lparr>s3_env := env\<rparr>; itr' = itr\<lparr>si_stmt := stmt\<rparr>
      in if ret = SQLITE_DONE then Some (GREYDB_NOT_FOUND, None, dbh', itr')
         else if ret = SQLITE_ROW
         then do { key \<leftarrow> s3_populate_key (sl_column L stmt) 0;
                   Some (GREYDB_FOUND, Some (key, s3_populate_val (sl_column L stmt) 4), dbh',
                         itr'\<lparr>si_curr := Some key, si_current := si_current itr + 1\<rparr>) }
         else Some (GREYDB_ERR, None, dbh', itr'))"

definition s3_db_itr_replace_curr :: "('e, 's) sqlite_lib \<Rightarrow> 'e s3_handle \<Rightarrow> 's s3_itr \<Rightarrow> DB_val \<Rightarrow> (int \<times> 'e s3_handle) option" where
  "s3_db_itr_replace_curr L dbh itr val = Option.bind (si_curr itr) (\<lambda>key. DB_put (sqlite_driver L) dbh key val)"

definition s3_db_itr_del_curr :: "('e, 's) sqlite_lib \<Rightarrow> 'e s3_handle \<Rightarrow> 's s3_itr \<Rightarrow> (int \<times> 'e s3_handle) option" where
  "s3_db_itr_del_curr L dbh itr =
     (case si_curr itr of None \<Rightarrow> Some (GREYDB_ERR, dbh) | Some key \<Rightarrow> DB_del (sqlite_driver L) dbh key)"

end
