(* ===== verification/Sqlite_Driver.thy ===== *)
theory Sqlite_Driver
  imports Sqlite
begin

text \<open>
  The driver of the theory \<open>Sqlite\<close> against the contract of the database interface: the documented behaviour
  of the engine, what the statements of the driver do to its tables, and the driver as an implementation of
  \<open>greydb_live\<close>. Hence the promises of greylisting hold on SQLite too.
\<close>

section \<open>The laws of the engine\<close>

text \<open>The next call of \<open>sqlite3_step\<close> yields the first of the rows that are left.\<close>

definition gives_rows :: "('e, 's) sqlite_lib \<Rightarrow> ('e \<Rightarrow> sql_db) \<Rightarrow> ('e \<Rightarrow> sql_db option) \<Rightarrow> ('s \<Rightarrow> sql_row list option) \<Rightarrow> 'e \<Rightarrow> 's \<Rightarrow> sql_row list \<Rightarrow> bool" where
  "gives_rows L content backup rest e s rs \<longleftrightarrow>
     (\<exists>e' s'. content e' = content e \<and> backup e' = backup e \<and>
        (case rs of
           [] \<Rightarrow> sl_step L e s = (SQLITE_DONE, e', s')
         | r # rs' \<Rightarrow> sl_step L e s = (SQLITE_ROW, e', s') \<and> rest s' = Some rs' \<and> (\<forall>i<length r. sl_column L s' i = r ! i)))"

definition writes_rows :: "sql_stmt \<Rightarrow> bool" where
  "writes_rows stmt \<longleftrightarrow> (case stmt of Insert c t cols es \<Rightarrow> True | Delete t cond \<Rightarrow> True | Update c t sets cond \<Rightarrow> True | _ \<Rightarrow> False)"

text \<open>
  \<open>after_busy\<close>: the engine answers a statement with SQLITE_BUSY \<open>n\<close> times, which changes nothing, and then
  executes it.
\<close>

primrec after_busy :: "('e, 's) sqlite_lib \<Rightarrow> ('e \<Rightarrow> sql_db) \<Rightarrow> ('e \<Rightarrow> sql_db option) \<Rightarrow> sql_stmt \<Rightarrow> nat \<Rightarrow> 'e \<Rightarrow> 'e \<Rightarrow> bool" where
  "after_busy L content backup stmt 0 e e' \<longleftrightarrow> sl_exec L e [stmt] = (SQLITE_OK, e')"
| "after_busy L content backup stmt (Suc n) e e' \<longleftrightarrow>
     (\<exists>e1. sl_exec L e [stmt] = (SQLITE_BUSY, e1) \<and> content e1 = content e \<and> backup e1 = backup e \<and> after_busy L content backup stmt n e1 e')"

text \<open>
  \<open>content\<close> are the tables the connection sees, \<open>backup\<close> those an open transaction began with. A statement
  has its \<open>text\<close>, its bound parameters \<open>args\<close> and, once it has been stepped, the rows that are left. Nothing
  changes a table while a query on it is stepped. The engine visits rows in an order of its own. Another
  process can keep it busy when a transaction begins or is committed, for at most \<open>MAX_RETRY\<close> attempts; it is not busy inside a transaction
  that began with \<open>BEGIN IMMEDIATE\<close>, as the driver's comment on it says. Apart from that its calls succeed: disk and memory do not run out.
\<close>

locale sqlite_library =
  fixes L :: "('e, 's) sqlite_lib" and content :: "'e \<Rightarrow> sql_db" and backup :: "'e \<Rightarrow> sql_db option"
    and stmt_text :: "'s \<Rightarrow> sql_stmt" and args :: "'s \<Rightarrow> nat \<Rightarrow> sql_value" and rest :: "'s \<Rightarrow> sql_row list option"
  assumes open_works: "\<exists>e'. sl_open L e = (SQLITE_OK, e') \<and> content e' = content e \<and> backup e' = backup e"
    and schema_works: "\<exists>e'. sl_exec L e s3_schema = (SQLITE_OK, e') \<and> backup e' = backup e \<and>
      content e' = fold (\<lambda>stmt db. exec (\<lambda>n. SNull) db stmt) s3_schema (content e)"
    and begin_works: "backup e = None \<Longrightarrow> \<exists>n e'. n \<le> MAX_RETRY \<and> after_busy L content backup Begin n e e' \<and> content e' = content e \<and> backup e' = Some (content e)"
    and commit_works: "backup e \<noteq> None \<Longrightarrow> \<exists>n e'. n \<le> MAX_RETRY \<and> after_busy L content backup Commit n e e' \<and> content e' = content e \<and> backup e' = None"
    and rollback_works: "backup e = Some db \<Longrightarrow> \<exists>e'. sl_exec L e [Rollback] = (SQLITE_OK, e') \<and> content e' = db \<and> backup e' = None"
    and prepare_works: "\<exists>s. sl_prepare L e sql = (SQLITE_OK, s) \<and> stmt_text s = sql \<and> args s = (\<lambda>n. SNull) \<and> rest s = None"
    and bind_works: "rest s = None \<Longrightarrow>
      \<exists>s'. sl_bind L s n v = (SQLITE_OK, s') \<and> stmt_text s' = stmt_text s \<and> args s' = (args s)(n := v) \<and> rest s' = None"
    and step_writes: "rest s = None \<Longrightarrow> writes_rows (stmt_text s) \<Longrightarrow>
      \<exists>e' s' db. sl_step L e s = (SQLITE_DONE, e', s') \<and> same_rows (content e) db \<and>
        content e' = exec (args s) db (stmt_text s) \<and> backup e' = backup e"
    and step_query: "rest s = None \<Longrightarrow> stmt_text s = Query q \<Longrightarrow>
      \<exists>rs db. same_rows (content e) db \<and> mset rs = mset (rows_of (args s) db q) \<and> gives_rows L content backup rest e s rs"
    and step_next: "rest s = Some rs \<Longrightarrow> gives_rows L content backup rest e s rs"

section \<open>The tables of the driver\<close>

definition entry_row :: "Grey_tuple \<times> Grey_data \<Rightarrow> sql_row" where
  "entry_row e = [SText (gt_ip (fst e)), SText (gt_helo (fst e)), SText (gt_from (fst e)), SText (gt_to (fst e))] @ gd_values (snd e)"

definition row_entry :: "sql_row \<Rightarrow> Grey_tuple \<times> Grey_data" where
  "row_entry r =
     (\<lparr>gt_ip = text_of (r ! 0), gt_helo = text_of (r ! 1), gt_from = text_of (r ! 2), gt_to = text_of (r ! 3)\<rparr>,
      \<lparr>gd_first = column_int (r ! 4), gd_pass = column_int (r ! 5), gd_expire = column_int (r ! 6),
       gd_bcount = column_int (r ! 7), gd_pcount = column_int (r ! 8)\<rparr>)"

lemma row_entry_row [simp]: "row_entry (entry_row e) = e"
  by (cases e) (simp add: row_entry_def entry_row_def)

definition name_row :: "string \<Rightarrow> sql_row" where
  "name_row s = [SText s]"

lemma name_row_simps [simp]: "text_of (hd (name_row s)) = s" "name_row s = name_row s' \<longleftrightarrow> s = s'"
  by (simp_all add: name_row_def)

definition table_rows :: "sql_db \<Rightarrow> string \<Rightarrow> sql_row list" where
  "table_rows db t = (case db t of None \<Rightarrow> [] | Some tab \<Rightarrow> tab_rows tab)"

text \<open>The tables that hold the given spam traps, domains and entries.\<close>

definition tables :: "sql_db \<Rightarrow> string list \<Rightarrow> string list \<Rightarrow> (Grey_tuple \<times> Grey_data) list \<Rightarrow> bool" where
  "tables db traps doms ents \<longleftrightarrow>
     db ''spamtraps'' = Some \<lparr>tab_cols = [''address''], tab_key = [''address''], tab_rows = map name_row traps\<rparr> \<and>
     db ''domains'' = Some \<lparr>tab_cols = [''domain''], tab_key = [''domain''], tab_rows = map name_row doms\<rparr> \<and>
     db ''entries'' = Some \<lparr>tab_cols = entry_cols, tab_key = [''ip'', ''helo'', ''from'', ''to''], tab_rows = map entry_row ents\<rparr>"

lemma tables_rows:
  assumes "tables db traps doms ents"
  shows "map (text_of \<circ> hd) (table_rows db ''spamtraps'') = traps" and "map (text_of \<circ> hd) (table_rows db ''domains'') = doms"
    and "map row_entry (table_rows db ''entries'') = ents"
  using assms by (simp_all add: tables_def table_rows_def comp_def)

lemma permuted_image:
  assumes "mset (map f xs) = mset rows" and "\<And>x. g (f x) = x"
  shows "rows = map f (map g rows)" and "mset (map g rows) = mset xs"
proof -
  have "set rows = f ` set xs" using arg_cong [OF assms(1), of set_mset] by simp
  then show "rows = map f (map g rows)" using assms(2) by (auto simp: map_idI comp_def intro!: map_idI [symmetric])
  show "mset (map g rows) = mset xs"
    unfolding mset_map assms(1) [symmetric] by (simp add: assms(2) multiset.map_comp comp_def)
qed

lemma tables_permuted:
  assumes "tables db traps doms ents" and "same_rows db db'"
  shows "\<exists>traps' doms' ents'. tables db' traps' doms' ents' \<and> mset traps' = mset traps \<and> mset doms' = mset doms \<and> mset ents' = mset ents"
proof -
  have row: "rel_option (\<lambda>a b. tab_cols a = tab_cols b \<and> tab_key a = tab_key b \<and> mset (tab_rows a) = mset (tab_rows b)) (db t) (db' t)" for t
    using assms(2) by (simp add: same_rows_def)
  obtain r1 r2 r3 where r: "db' ''spamtraps'' = Some \<lparr>tab_cols = [''address''], tab_key = [''address''], tab_rows = r1\<rparr>"
      "db' ''domains'' = Some \<lparr>tab_cols = [''domain''], tab_key = [''domain''], tab_rows = r2\<rparr>"
      "db' ''entries'' = Some \<lparr>tab_cols = entry_cols, tab_key = [''ip'', ''helo'', ''from'', ''to''], tab_rows = r3\<rparr>"
      "mset (map name_row traps) = mset r1" "mset (map name_row doms) = mset r2" "mset (map entry_row ents) = mset r3"
    using row [of "''spamtraps''"] row [of "''domains''"] row [of "''entries''"] assms(1)
    by (auto simp: tables_def option_rel_Some1) (metis sql_table.surjective unit.exhaust)
  have inv: "(text_of \<circ> hd) (name_row x) = x" for x by simp
  note p1 = permuted_image [OF r(4) inv] and p2 = permuted_image [OF r(5) inv] and p3 = permuted_image [OF r(6) row_entry_row]
  have "tables db' (map (text_of \<circ> hd) r1) (map (text_of \<circ> hd) r2) (map row_entry r3)"
    using r(1-3) p1(1) p2(1) p3(1) unfolding tables_def comp_assoc map_map [symmetric] by simp
  then show ?thesis using p1(2) p2(2) p3(2) by blast
qed

section \<open>The view\<close>

definition ip_tuple :: "string \<Rightarrow> Grey_tuple" where
  "ip_tuple s = \<lparr>gt_ip = s, gt_helo = [], gt_from = [], gt_to = []\<rparr>"

definition marker :: "int \<Rightarrow> DB_val" where
  "marker n = grey_val \<lparr>gd_first = 0, gd_pass = 0, gd_expire = 0, gd_bcount = 0, gd_pcount = n\<rparr>"

fun ents_view :: "string list \<Rightarrow> string list \<Rightarrow> (Grey_tuple \<times> Grey_data) list \<Rightarrow> db_view" where
  "ents_view traps doms ents (KEY_MAIL s) = (if s \<in> set traps then Some (marker (- 2)) else None)"
| "ents_view traps doms ents (KEY_DOM s) = (if s \<in> set doms then Some (marker (- 3)) else None)"
| "ents_view traps doms ents (KEY_IP s) = map_option grey_val (map_of ents (ip_tuple s))"
| "ents_view traps doms ents (KEY_TUPLE gt) =
     (if gt_from gt = [] \<or> gt_to gt = [] then None else map_option grey_val (map_of ents gt))"
| "ents_view traps doms ents _ = None"

fun s3_key_ok :: "DB_key \<Rightarrow> bool" where
  "s3_key_ok (KEY_DOM s) \<longleftrightarrow> key_ok (KEY_DOM s) \<and> CHR ''%'' \<notin> set s \<and> CHR ''_'' \<notin> set s"
| "s3_key_ok (KEY_TUPLE gt) \<longleftrightarrow> key_ok (KEY_TUPLE gt) \<and> gt_from gt \<noteq> [] \<and> gt_to gt \<noteq> []"
| "s3_key_ok k \<longleftrightarrow> key_ok k"

fun entry_tuple :: "DB_key \<Rightarrow> Grey_tuple" where
  "entry_tuple (KEY_IP s) = ip_tuple s"
| "entry_tuple (KEY_TUPLE gt) = gt"
| "entry_tuple _ = undefined"

definition ents_ok :: "string list \<Rightarrow> string list \<Rightarrow> (Grey_tuple \<times> Grey_data) list \<Rightarrow> bool" where
  "ents_ok traps doms ents \<longleftrightarrow> distinct traps \<and> distinct doms \<and> distinct (map fst ents) \<and>
     (\<forall>s\<in>set traps. s3_key_ok (KEY_MAIL s)) \<and> (\<forall>s\<in>set doms. s3_key_ok (KEY_DOM s)) \<and>
     (\<forall>t\<in>fst ` set ents. s3_key_ok (KEY_TUPLE t) \<or> t = ip_tuple (gt_ip t) \<and> s3_key_ok (KEY_IP (gt_ip t)))"

lemma map_of_mset: "distinct (map fst xs) \<Longrightarrow> mset xs = mset ys \<Longrightarrow> map_of xs = map_of ys"
  by (metis map_of_inject_set mset_eq_imp_distinct_iff mset_eq_setD mset_map)

lemma ents_permuted:
  assumes "ents_ok traps doms ents" and "mset traps' = mset traps" and "mset doms' = mset doms" and "mset ents' = mset ents"
  shows "ents_ok traps' doms' ents'" and "ents_view traps' doms' ents' = ents_view traps doms ents"
proof -
  have sets: "set traps' = set traps" "set doms' = set doms" "set ents' = set ents" "mset (map fst ents') = mset (map fst ents)"
    using assms(2-4) by (auto dest: mset_eq_setD simp: mset_map)
  then show "ents_ok traps' doms' ents'"
    using assms mset_eq_imp_distinct_iff [OF assms(2)] mset_eq_imp_distinct_iff [OF assms(3)] mset_eq_imp_distinct_iff [OF sets(4)]
    by (simp add: ents_ok_def)
  have "map_of ents' = map_of ents" using map_of_mset [of ents ents'] assms(1,4) by (simp add: ents_ok_def)
  then show "ents_view traps' doms' ents' = ents_view traps doms ents"
    using sets by (intro ext, case_tac x) simp_all
qed

section \<open>The statements on the tables\<close>

definition bound :: "sql_value list \<Rightarrow> nat \<Rightarrow> sql_value" where
  "bound vals n = (if 0 < n \<and> n \<le> length vals then vals ! (n - 1) else SNull)"

lemma bound_Cons [simp]:
  "bound (v # vals) 1 = v" "bound (v # vals) (Suc 0) = v" "bound [] n = SNull"
  "bound (v # vals) (numeral (num.Bit0 k)) = bound vals (numeral (Num.BitM k))"
  "bound (v # vals) (numeral (num.Bit1 k)) = bound vals (numeral (num.Bit0 k))"
  by (auto simp: bound_def numeral_eq_Suc eval_nat_numeral nth_Cons')

lemma gd_values_bound: "gd_values d = [SInt (gd_first d), SInt (gd_pass d), SInt (gd_expire d), SInt (gd_bcount d), SInt (gd_pcount d)]"
  by simp

lemma cell_cols [simp]:
  "cell [''address''] (name_row s) ''address'' = SText s" "cell [''domain''] (name_row s) ''domain'' = SText s"
  "cell entry_cols (entry_row e) ''ip'' = SText (gt_ip (fst e))" "cell entry_cols (entry_row e) ''helo'' = SText (gt_helo (fst e))"
  "cell entry_cols (entry_row e) ''from'' = SText (gt_from (fst e))" "cell entry_cols (entry_row e) ''to'' = SText (gt_to (fst e))"
  "cell entry_cols (entry_row e) ''first'' = SInt (gd_first (snd e))" "cell entry_cols (entry_row e) ''pass'' = SInt (gd_pass (snd e))"
  "cell entry_cols (entry_row e) ''expire'' = SInt (gd_expire (snd e))" "cell entry_cols (entry_row e) ''bcount'' = SInt (gd_bcount (snd e))"
  "cell entry_cols (entry_row e) ''pcount'' = SInt (gd_pcount (snd e))"
  by (simp_all add: cell_def name_row_def entry_cols_def entry_row_def)

abbreviation entry_table :: "sql_row list \<Rightarrow> sql_table" where
  "entry_table rows \<equiv> \<lparr>tab_cols = entry_cols, tab_key = [''ip'', ''helo'', ''from'', ''to''], tab_rows = rows\<rparr>"

lemma row_key_entry [simp]: "row_key (entry_table rows) (entry_row e) = row_key (entry_table rows') (entry_row e') \<longleftrightarrow> fst e = fst e'"
  by (auto simp: row_key_def intro: Grey_tuple.equality)

definition store :: "Grey_tuple \<times> Grey_data \<Rightarrow> (Grey_tuple \<times> Grey_data) list \<Rightarrow> (Grey_tuple \<times> Grey_data) list" where
  "store e ents = filter (\<lambda>x. fst x \<noteq> fst e) ents @ [e]"

definition add_name :: "string \<Rightarrow> string list \<Rightarrow> string list" where
  "add_name s names = (if s \<in> set names then names else names @ [s])"

lemma insert_entry_row: "insert_row Or_replace (entry_table rows) (map entry_row ents) (entry_row e) = map entry_row (store e ents)"
  by (simp add: insert_row_def store_def filter_map comp_def)

lemma insert_name_row:
  assumes "tab_key tab = tab_cols tab" and "tab_cols tab = [c]"
  shows "insert_row Or_ignore tab (map name_row names) (name_row s) = map name_row (add_name s names)"
proof -
  have key: "row_key tab (name_row x) = row_key tab (name_row y) \<longleftrightarrow> x = y" for x y
    using assms by (simp add: row_key_def cell_def name_row_def)
  have "filter (\<lambda>x. x \<noteq> s) names = names" if "s \<notin> set names" using that by (auto simp: filter_id_conv)
  then show ?thesis using key by (auto simp: insert_row_def add_name_def filter_map comp_def image_iff)
qed

text \<open>What \<open>put_stmt\<close> and \<open>del_stmt\<close> make of the tables.\<close>

fun put_tables :: "DB_key \<Rightarrow> Grey_data \<Rightarrow> string list \<Rightarrow> string list \<Rightarrow> (Grey_tuple \<times> Grey_data) list
    \<Rightarrow> string list \<times> string list \<times> (Grey_tuple \<times> Grey_data) list" where
  "put_tables (KEY_MAIL s) gd traps doms ents = (add_name s traps, doms, ents)"
| "put_tables (KEY_DOM s) gd traps doms ents = (traps, add_name s doms, ents)"
| "put_tables k gd traps doms ents = (traps, doms, store (entry_tuple k, gd) ents)"

lemma put_exec:
  assumes "tables db traps doms ents" and "put_stmt k gd = Some (sql, vals)" and "put_tables k gd traps doms ents = (traps', doms', ents')"
  shows "tables (exec (bound vals) db sql) traps' doms' ents'"
proof -
  have row: "map (cell entry_cols (map (\<lambda>e. eval (bound vals) db e [] []) es)) entry_cols = entry_row (t, gd)"
    if "(es, vals, t) = ([Param 1, empty_text, empty_text, empty_text, Param 2, Param 3, Param 4, Param 5, Param 6], SText s # gd_values gd, ip_tuple s) \<or>
      (es, vals, t) = ([Param 1, Param 2, Param 3, Param 4, Param 5, Param 6, Param 7, Param 8, Param 9],
           [SText (gt_ip gt), SText (gt_helo gt), SText (gt_from gt), SText (gt_to gt)] @ gd_values gd, gt)" for es t s gt
    using that by (auto simp: entry_cols_def cell_def entry_row_def ip_tuple_def)
  show ?thesis
  proof (cases k)
    case (KEY_IP s)
    then show ?thesis using assms row [of _ "ip_tuple s" s] by (auto simp: tables_def insert_entry_row)
  next
    case (KEY_TUPLE gt)
    then show ?thesis using assms row [of _ gt _ gt] by (auto simp: tables_def insert_entry_row)
  next
    case (KEY_MAIL s)
    then show ?thesis using assms insert_name_row [of _ "''address''" traps s]
      by (auto simp: tables_def cell_def name_row_def)
  next
    case (KEY_DOM s)
    then show ?thesis using assms insert_name_row [of _ "''domain''" doms s]
      by (auto simp: tables_def cell_def name_row_def)
  qed (use assms in auto)
qed

text \<open>Deletions.\<close>

fun del_tables :: "DB_key \<Rightarrow> string list \<Rightarrow> string list \<Rightarrow> (Grey_tuple \<times> Grey_data) list
    \<Rightarrow> string list \<times> string list \<times> (Grey_tuple \<times> Grey_data) list" where
  "del_tables (KEY_MAIL s) traps doms ents = (filter (\<lambda>x. x \<noteq> s) traps, doms, ents)"
| "del_tables (KEY_DOM s) traps doms ents = (traps, filter (\<lambda>x. x \<noteq> s) doms, ents)"
| "del_tables k traps doms ents = (traps, doms, filter (\<lambda>x. fst x \<noteq> entry_tuple k) ents)"

lemma filter_rows:
  "filter P (map entry_row ents) = map entry_row (filter (\<lambda>e. P (entry_row e)) ents)"
  "filter P (map name_row names) = map name_row (filter (\<lambda>s. P (name_row s)) names)"
  by (simp_all add: filter_map comp_def)

lemma key_cond_holds:
  assumes "\<And>cols row. eval args db ip cols row = SText (gt_ip t)" and "\<And>cols row. eval args db helo cols row = SText (gt_helo t)"
    and "\<And>cols row. eval args db from cols row = SText (gt_from t)" and "\<And>cols row. eval args db to cols row = SText (gt_to t)"
  shows "holds (eval args db (key_cond ip helo from to) entry_cols (entry_row e)) \<longleftrightarrow> fst e = t"
  using assms by (auto simp: key_cond_def intro: Grey_tuple.equality)

lemma del_exec:
  assumes "tables db traps doms ents" and "del_stmt k = Some (sql, vals)" and "del_tables k traps doms ents = (traps', doms', ents')"
  shows "tables (exec (bound vals) db sql) traps' doms' ents'"
proof (cases k)
  case (KEY_IP s)
  have "holds (eval (bound vals) db (key_cond (Param 1) empty_text empty_text empty_text) entry_cols (entry_row e)) \<longleftrightarrow> fst e = ip_tuple s" for e
    using KEY_IP assms(2) by (intro key_cond_holds) (auto simp: ip_tuple_def)
  then have "(\<lambda>e. \<not> holds (eval (bound vals) db (key_cond (Param 1) empty_text empty_text empty_text) entry_cols (entry_row e))) = (\<lambda>e. fst e \<noteq> ip_tuple s)"
    by simp
  then show ?thesis using assms KEY_IP by (auto simp: tables_def filter_rows)
next
  case (KEY_TUPLE gt)
  have "holds (eval (bound vals) db (key_cond (Param 1) (Param 2) (Param 3) (Param 4)) entry_cols (entry_row e)) \<longleftrightarrow> fst e = gt" for e
    using KEY_TUPLE assms(2) by (intro key_cond_holds) auto
  then have "(\<lambda>e. \<not> holds (eval (bound vals) db (key_cond (Param 1) (Param 2) (Param 3) (Param 4)) entry_cols (entry_row e))) = (\<lambda>e. fst e \<noteq> gt)"
    by simp
  then show ?thesis using assms KEY_TUPLE by (auto simp: tables_def filter_rows)
qed (use assms in \<open>auto simp: tables_def filter_rows\<close>)

text \<open>The effect on the view.\<close>

lemma map_of_without: "map_of (filter (\<lambda>x. fst x \<noteq> k) xs) = (map_of xs)(k := None)"
  by (induction xs) (auto simp: fun_eq_iff)

lemma map_of_store: "map_of (store e ents) = (map_of ents)(fst e \<mapsto> snd e)"
  by (cases e) (auto simp: store_def map_of_append map_of_without map_add_def fun_eq_iff split: option.splits)

lemma s3_key_cases:
  assumes "s3_key_ok k"
  obtains s where "k = KEY_MAIL s" | s where "k = KEY_DOM s" | "entry_key k"
    and "s3_key_ok (KEY_TUPLE (entry_tuple k)) \<or> entry_tuple k = ip_tuple (gt_ip (entry_tuple k)) \<and> s3_key_ok (KEY_IP (gt_ip (entry_tuple k)))"
  using assms by (cases k) (auto simp: ip_tuple_def)

lemma put_ok:
  assumes "ents_ok traps doms ents" and "s3_key_ok k" and "put_tables k gd traps doms ents = (traps', doms', ents')"
  shows "ents_ok traps' doms' ents'"
    and "entry_key k \<Longrightarrow> ents_view traps' doms' ents' = (ents_view traps doms ents)(k \<mapsto> grey_val gd)"
proof -
  have d: "distinct (map fst (store e ents))" for e
    using assms(1) by (auto simp: ents_ok_def store_def distinct_map_filter)
  have f: "fst ` set (store e ents) \<subseteq> insert (fst e) (fst ` set ents)" for e by (auto simp: store_def)
  show "ents_ok traps' doms' ents'"
    using assms(2)
  proof (cases rule: s3_key_cases)
    case (1 s)
    then show ?thesis using assms by (auto simp: ents_ok_def add_name_def split: if_splits)
  next
    case (2 s)
    then show ?thesis using assms by (auto simp: ents_ok_def add_name_def split: if_splits)
  next
    case 3
    then have "put_tables k gd traps doms ents = (traps, doms, store (entry_tuple k, gd) ents)" by (cases k) simp_all
    moreover have "traps' = traps" "doms' = doms" "ents' = store (entry_tuple k, gd) ents" using assms(3) calculation by auto
    moreover have "s3_key_ok (KEY_TUPLE t) \<or> t = ip_tuple (gt_ip t) \<and> s3_key_ok (KEY_IP (gt_ip t))"
      if "t \<in> fst ` set (store (entry_tuple k, gd) ents)" for t
    proof (cases "t = entry_tuple k")
      case False
      then have "t \<in> fst ` set ents" using f [of "(entry_tuple k, gd)"] that by auto
      then show ?thesis using assms(1) unfolding ents_ok_def by blast
    qed (use 3(2) in simp)
    ultimately show ?thesis using assms(1) d [of "(entry_tuple k, gd)"] unfolding ents_ok_def by (elim conjE) (intro conjI ballI, simp_all)
  qed
  show "ents_view traps' doms' ents' = (ents_view traps doms ents)(k \<mapsto> grey_val gd)" if "entry_key k"
  proof
    fix k'
    show "ents_view traps' doms' ents' k' = ((ents_view traps doms ents)(k \<mapsto> grey_val gd)) k'"
      using that assms(2,3) by (cases k; cases k') (auto simp: map_of_store ip_tuple_def)
  qed
qed

lemma ents_ok_filter: "ents_ok traps doms ents \<Longrightarrow> ents_ok (filter P traps) (filter Q doms) (filter R ents)"
  unfolding ents_ok_def by (simp add: distinct_map_filter)

lemma del_ok:
  assumes "ents_ok traps doms ents" and "s3_key_ok k" and "del_tables k traps doms ents = (traps', doms', ents')"
  shows "ents_ok traps' doms' ents'" and "ents_view traps' doms' ents' = (ents_view traps doms ents)(k := None)"
proof -
  have "\<exists>P Q R. traps' = filter P traps \<and> doms' = filter Q doms \<and> ents' = filter R ents"
    using assms(3) by (cases k) (auto intro: exI [of _ "\<lambda>x. True"])
  then show "ents_ok traps' doms' ents'" using ents_ok_filter [OF assms(1)] by blast
  show "ents_view traps' doms' ents' = (ents_view traps doms ents)(k := None)"
  proof
    fix k'
    show "ents_view traps' doms' ents' k' = ((ents_view traps doms ents)(k := None)) k'"
      using assms(2,3) by (cases k; cases k') (auto simp: map_of_without ip_tuple_def)
  qed
qed

section \<open>The handle\<close>

text \<open>The tables after the schema has been set up.\<close>

definition padded :: "sql_db \<Rightarrow> sql_db" where
  "padded db = fold (\<lambda>stmt db. exec (\<lambda>n. SNull) db stmt) s3_schema db"

definition db_content :: "sql_db \<Rightarrow> db_view" where
  "db_content db =
     ents_view (map (text_of \<circ> hd) (table_rows db ''spamtraps'')) (map (text_of \<circ> hd) (table_rows db ''domains''))
       (map row_entry (table_rows db ''entries''))"

definition db_good :: "sql_db \<Rightarrow> bool" where
  "db_good db \<longleftrightarrow> (\<exists>traps doms ents. tables db traps doms ents \<and> ents_ok traps doms ents)"

lemma db_content_tables: "tables db traps doms ents \<Longrightarrow> db_content db = ents_view traps doms ents"
  using tables_rows [of db traps doms ents] by (simp add: db_content_def)

lemma padded_good [simp]: "db_good db \<Longrightarrow> padded db = db"
  by (auto simp: db_good_def tables_def padded_def s3_schema_def)

lemma padded_content [simp]: "db_content (padded db) = db_content db"
  by (simp add: db_content_def table_rows_def padded_def s3_schema_def)

lemma db_good_view: "db_good db \<Longrightarrow> db_content db k = Some v \<Longrightarrow> s3_key_ok k \<and> val_type v = DB_VAL_GREY"
proof -
  assume "db_good db" "db_content db k = Some v"
  then obtain traps doms ents where t: "tables db traps doms ents" "ents_ok traps doms ents" "ents_view traps doms ents k = Some v"
    using db_content_tables by (auto simp: db_good_def)
  have e: "s3_key_ok (KEY_TUPLE t) \<or> t = ip_tuple (gt_ip t) \<and> s3_key_ok (KEY_IP (gt_ip t))" if "map_of ents t = Some d" for t d
    using t(2) map_of_SomeD [OF that] unfolding ents_ok_def by force
  show ?thesis
  proof (cases k)
    case (KEY_IP s)
    then show ?thesis using t(3) e [of "ip_tuple s"] by (auto simp: grey_val_def ip_tuple_def)
  next
    case (KEY_TUPLE gt)
    then obtain d where d: "gt_from gt \<noteq> []" "map_of ents gt = Some d" "v = grey_val d" using t(3) by (auto split: if_splits)
    have "gt_from (ip_tuple x) = []" for x by (simp add: ip_tuple_def)
    then have "s3_key_ok (KEY_TUPLE gt)" using e [OF d(2)] d(1) by metis
    then show ?thesis using KEY_TUPLE d(3) by (simp add: grey_val_def)
  qed (use t in \<open>auto simp: marker_def grey_val_def ents_ok_def split: if_splits\<close>)
qed

lemma same_rows_good:
  assumes "db_good db" and "same_rows db db'"
  shows "db_good db' \<and> db_content db' = db_content db"
proof -
  obtain traps doms ents where t: "tables db traps doms ents" "ents_ok traps doms ents" using assms(1) by (auto simp: db_good_def)
  obtain traps' doms' ents' where p: "tables db' traps' doms' ents'" "mset traps' = mset traps" "mset doms' = mset doms" "mset ents' = mset ents"
    using tables_permuted [OF t(1) assms(2)] by blast
  show ?thesis using ents_permuted [OF t(2) p(2-4)] p(1) db_content_tables [OF p(1)] db_content_tables [OF t(1)] by (auto simp: db_good_def)
qed

lemma put_good:
  assumes "db_good db" and "s3_key_ok k" and "put_stmt k gd = Some (sql, vals)"
  shows "db_good (exec (bound vals) db sql)"
    and "entry_key k \<Longrightarrow> db_content (exec (bound vals) db sql) = (db_content db)(k \<mapsto> grey_val gd)"
proof -
  obtain traps doms ents where t: "tables db traps doms ents" "ents_ok traps doms ents" using assms(1) by (auto simp: db_good_def)
  obtain traps' doms' ents' where p: "put_tables k gd traps doms ents = (traps', doms', ents')" by (metis prod_cases3)
  note e = put_exec [OF t(1) assms(3) p]
  show "db_good (exec (bound vals) db sql)" using e put_ok(1) [OF t(2) assms(2) p] by (auto simp: db_good_def)
  show "db_content (exec (bound vals) db sql) = (db_content db)(k \<mapsto> grey_val gd)" if "entry_key k"
    using put_ok(2) [OF t(2) assms(2) p that] by (simp add: db_content_tables [OF e] db_content_tables [OF t(1)])
qed

lemma del_good:
  assumes "db_good db" and "s3_key_ok k" and "del_stmt k = Some (sql, vals)"
  shows "db_good (exec (bound vals) db sql)" and "db_content (exec (bound vals) db sql) = (db_content db)(k := None)"
proof -
  obtain traps doms ents where t: "tables db traps doms ents" "ents_ok traps doms ents" using assms(1) by (auto simp: db_good_def)
  obtain traps' doms' ents' where p: "del_tables k traps doms ents = (traps', doms', ents')" by (metis prod_cases3)
  note e = del_exec [OF t(1) assms(3) p]
  show "db_good (exec (bound vals) db sql)" using e del_ok(1) [OF t(2) assms(2) p] by (auto simp: db_good_def)
  show "db_content (exec (bound vals) db sql) = (db_content db)(k := None)"
    using del_ok(2) [OF t(2) assms(2) p] by (simp add: db_content_tables [OF e] db_content_tables [OF t(1)])
qed

text \<open>Lookups: the query yields the value of the key as its only row, or no row.\<close>

definition data_row :: "DB_val \<Rightarrow> sql_row" where
  "data_row v = gd_values (val_gd v)"

lemma get_rows:
  assumes "db_good db" and "s3_key_ok k" and "get_query k = Some (q, vals)"
  shows "rows_of (bound vals) db q = (case db_content db k of None \<Rightarrow> [] | Some v \<Rightarrow> [data_row v])"
proof -
  obtain traps doms ents where t: "tables db traps doms ents" "ents_ok traps doms ents" using assms(1) by (auto simp: db_good_def)
  have d: "distinct traps" "distinct doms" "distinct (map fst ents)" using t(2) by (simp_all add: ents_ok_def)
  have name: "filter (\<lambda>x. x = s) names = (if s \<in> set names then [s] else [])" if "distinct names" for s :: string and names
    using that by (induction names) auto
  have entry: "filter (\<lambda>x. fst x = t) ents = (case map_of ents t of None \<Rightarrow> [] | Some d \<Rightarrow> [(t, d)])" for t
    using d(3) by (induction ents) (auto simp: filter_empty_conv split: option.splits dest!: map_of_SomeD intro: rev_image_eqI)
  have row: "map (\<lambda>f. f entry_cols (entry_row e)) (map (eval as db) data_cols) = gd_values (snd e)" for as e
    by (simp add: data_cols_def)
  show ?thesis
  proof (cases k)
    case (KEY_IP s)
    have "holds (eval (bound vals) db (key_cond (Param 1) empty_text empty_text empty_text) entry_cols (entry_row e)) \<longleftrightarrow> fst e = ip_tuple s" for e
      using KEY_IP assms(3) by (intro key_cond_holds) (auto simp: ip_tuple_def)
    then have "(\<lambda>e. holds (eval (bound vals) db (key_cond (Param 1) empty_text empty_text empty_text) entry_cols (entry_row e))) = (\<lambda>e. fst e = ip_tuple s)"
      by simp
    then show ?thesis
      using t(1) assms(3) KEY_IP entry [of "ip_tuple s"] row
      by (auto simp: tables_def filter_rows comp_def db_content_tables [OF t(1)] data_row_def grey_val_def split: option.splits)
  next
    case (KEY_TUPLE gt)
    have "holds (eval (bound vals) db (key_cond (Param 1) (Param 2) (Param 3) (Param 4)) entry_cols (entry_row e)) \<longleftrightarrow> fst e = gt" for e
      using KEY_TUPLE assms(3) by (intro key_cond_holds) auto
    then have "(\<lambda>e. holds (eval (bound vals) db (key_cond (Param 1) (Param 2) (Param 3) (Param 4)) entry_cols (entry_row e))) = (\<lambda>e. fst e = gt)"
      by simp
    then show ?thesis
      using t(1) assms(2,3) KEY_TUPLE entry [of gt] row
      by (auto simp: tables_def filter_rows comp_def db_content_tables [OF t(1)] data_row_def grey_val_def split: option.splits)
  next
    case (KEY_MAIL s)
    then show ?thesis
      using t(1) assms(3) name [OF d(1), of s]
      by (auto simp: tables_def filter_rows comp_def db_content_tables [OF t(1)] data_row_def marker_def grey_val_def marker_cols_def)
  next
    case (KEY_DOM s)
    then show ?thesis
      using t(1) assms(3) name [OF d(2), of s]
      by (auto simp: tables_def filter_rows comp_def db_content_tables [OF t(1)] data_row_def marker_def grey_val_def marker_cols_def)
  qed (use assms(2) in auto)
qed

lemma like_domain:
  assumes "s3_key_ok (KEY_DOM d)"
  shows "like (CHR ''%'' # d) s \<longleftrightarrow> dom_matches s d"
proof -
  have "like d t \<longleftrightarrow> casecmp_eq t d" for t using like_literal [of d t] assms by simp
  then have "like (CHR ''%'' # d) s \<longleftrightarrow> (\<exists>n\<le>length s. casecmp_eq (drop n s) d)" by (simp add: like_any)
  also have "\<dots> \<longleftrightarrow> dom_matches s d"
  proof
    assume "\<exists>n\<le>length s. casecmp_eq (drop n s) d"
    then obtain n where n: "n \<le> length s" "casecmp_eq (drop n s) d" by blast
    then have "length (drop n s) = length d" unfolding casecmp_eq_def using map_eq_imp_length_eq by blast
    then have "n = length s - length d" "length d \<le> length s" using n(1) by auto
    then show "dom_matches s d" using n(2) by (simp add: dom_matches_def)
  next
    assume "dom_matches s d"
    then show "\<exists>n\<le>length s. casecmp_eq (drop n s) d"
      unfolding dom_matches_def by (intro exI [of _ "length s - length d"]) auto
  qed
  finally show ?thesis .
qed

lemma part_rows:
  assumes "db_good db"
  shows "rows_of (bound [SText s]) db (Select (marker_cols (- 3)) ''domains'' (Like (Param 1) (Cat (Lit (SText ''%'')) (Col ''domain'')))) \<noteq> []
    \<longleftrightarrow> (\<exists>d. db_content db (KEY_DOM d) \<noteq> None \<and> dom_matches s d)"
proof -
  obtain traps doms ents where t: "tables db traps doms ents" "ents_ok traps doms ents" using assms(1) by (auto simp: db_good_def)
  have "like (CHR ''%'' # d) s \<longleftrightarrow> dom_matches s d" if "d \<in> set doms" for d
    using t(2) that like_domain by (simp add: ents_ok_def)
  then have m: "(\<exists>d\<in>set doms. like (CHR ''%'' # d) s) \<longleftrightarrow> (\<exists>d\<in>set doms. dom_matches s d)" by blast
  have "rows_of (bound [SText s]) db (Select (marker_cols (- 3)) ''domains'' (Like (Param 1) (Cat (Lit (SText ''%'')) (Col ''domain'')))) =
      map (\<lambda>d. map SInt [0, 0, 0, 0, - 3]) (filter (\<lambda>d. like (CHR ''%'' # d) s) doms)"
    using t(1) by (simp add: tables_def filter_rows marker_cols_def comp_def)
  moreover have "db_content db (KEY_DOM d) \<noteq> None \<longleftrightarrow> d \<in> set doms" for d by (simp add: db_content_tables [OF t(1)])
  ultimately show ?thesis using m by (simp only: map_is_Nil_conv filter_empty_conv) blast
qed

text \<open>The handles the driver works on.\<close>

definition s3_inv :: "('e \<Rightarrow> sql_db) \<Rightarrow> ('e \<Rightarrow> sql_db option) \<Rightarrow> 'e s3_handle \<Rightarrow> bool" where
  "s3_inv content backup h \<longleftrightarrow>
     db_good (padded (content (s3_env h))) \<and> (s3_open h \<longrightarrow> db_good (content (s3_env h))) \<and>
     s3_txn h = (if backup (s3_env h) = None then 0 else 1) \<and>
     (\<forall>db. backup (s3_env h) = Some db \<longrightarrow> s3_open h \<and> db_good db)"

definition s3_ready :: "('e \<Rightarrow> sql_db) \<Rightarrow> ('e \<Rightarrow> sql_db option) \<Rightarrow> 'e s3_handle \<Rightarrow> bool" where
  "s3_ready content backup h \<longleftrightarrow> s3_open h \<and> s3_inv content backup h"

definition s3_view :: "('e \<Rightarrow> sql_db) \<Rightarrow> 'e s3_handle \<Rightarrow> db_view" where
  "s3_view content h = db_content (content (s3_env h))"

definition s3_saved :: "('e \<Rightarrow> sql_db option) \<Rightarrow> 'e s3_handle \<Rightarrow> db_view option" where
  "s3_saved backup h = map_option db_content (backup (s3_env h))"

lemmas s3_defs = s3_ready_def s3_inv_def s3_view_def s3_saved_def

context sqlite_library
begin

abbreviation ready where "ready \<equiv> s3_ready content backup"
abbreviation view where "view \<equiv> s3_view content"
abbreviation saved where "saved \<equiv> s3_saved backup"

lemma bind_all:
  assumes "rest s = None"
  shows "\<exists>s'. fold_opt (\<lambda>stmt (n, v). let (ret, stmt') = sl_bind L stmt n v in if ret \<noteq> SQLITE_OK then None else Some stmt')
      s (zip [k..<k + length vals] vals) = Some s' \<and> stmt_text s' = stmt_text s \<and> rest s' = None \<and>
    args s' = (\<lambda>n. if k \<le> n \<and> n < k + length vals then vals ! (n - k) else args s n)"
  using assms
proof (induction vals arbitrary: k s)
  case Nil
  then show ?case by (auto simp: fun_eq_iff)
next
  case (Cons v vals)
  obtain s1 where s1: "sl_bind L s k v = (SQLITE_OK, s1)" "stmt_text s1 = stmt_text s" "args s1 = (args s)(k := v)" "rest s1 = None"
    using bind_works [OF Cons.prems, of k v] by blast
  obtain s' where s': "fold_opt (\<lambda>stmt (n, v). let (ret, stmt') = sl_bind L stmt n v in if ret \<noteq> SQLITE_OK then None else Some stmt')
      s1 (zip [Suc k..<Suc k + length vals] vals) = Some s'" "stmt_text s' = stmt_text s1" "rest s' = None"
      "args s' = (\<lambda>n. if Suc k \<le> n \<and> n < Suc k + length vals then vals ! (n - Suc k) else args s1 n)"
    using Cons.IH [OF s1(4), of "Suc k"] by blast
  have "args s' = (\<lambda>n. if k \<le> n \<and> n < k + length (v # vals) then (v # vals) ! (n - k) else args s n)"
    unfolding s'(4) s1(3) by (auto simp: fun_eq_iff nth_Cons' not_less_eq_eq Suc_diff_le intro: arg_cong [of _ _ "nth vals"])
  moreover have "zip [k..<k + length (v # vals)] (v # vals) = (k, v) # zip [Suc k..<Suc k + length vals] vals"
    by (simp add: upt_conv_Cons del: upt_Suc)
  ultimately show ?case using s1(1,2) s' by simp
qed

lemma prepare_bind_works:
  "\<exists>s. prepare_bind L e sql vals = Some s \<and> stmt_text s = sql \<and> args s = bound vals \<and> rest s = None"
proof -
  obtain s0 where s0: "sl_prepare L e sql = (SQLITE_OK, s0)" "stmt_text s0 = sql" "args s0 = (\<lambda>n. SNull)" "rest s0 = None"
    using prepare_works by blast
  have b: "(\<lambda>n. if 1 \<le> n \<and> n < 1 + length vals then vals ! (n - 1) else args s0 n) = bound vals"
    using s0(3) by (auto simp: bound_def fun_eq_iff)
  show ?thesis using bind_all [OF s0(4), of 1 vals] s0(1,2) unfolding b prepare_bind_def by (auto simp: add.commute)
qed

text \<open>A statement that changes the tables, and a query, from preparing to stepping.\<close>

lemma run_write:
  assumes "writes_rows sql"
  shows "\<exists>s e' s' db. prepare_bind L e sql vals = Some s \<and> sl_step L e s = (SQLITE_DONE, e', s') \<and> same_rows (content e) db \<and>
    content e' = exec (bound vals) db sql \<and> backup e' = backup e"
  using prepare_bind_works [of e sql vals] step_writes assms by metis

lemma run_query:
  "\<exists>s rs db. prepare_bind L e (Query q) vals = Some s \<and> same_rows (content e) db \<and> mset rs = mset (rows_of (bound vals) db q) \<and>
    gives_rows L content backup rest e s rs"
  using prepare_bind_works [of e "Query q" vals] step_query by metis

lemma put_works:
  assumes "ready h" and "s3_key_ok k"
  shows "\<exists>h'. s3_db_put L h k v = Some (GREYDB_OK, h') \<and> ready h' \<and> saved h' = saved h \<and>
    (entry_key k \<longrightarrow> val_type v = DB_VAL_GREY \<longrightarrow> view h' = (view h)(k \<mapsto> v))"
proof -
  obtain sql vals where p: "put_stmt k (val_gd v) = Some (sql, vals)" using assms(2) by (cases k) auto
  have "writes_rows sql" using p by (cases k) (auto simp: writes_rows_def)
  from run_write [OF this, of "s3_env h" vals] obtain s e' s' db where
    r: "prepare_bind L (s3_env h) sql vals = Some s" "sl_step L (s3_env h) s = (SQLITE_DONE, e', s')"
       "same_rows (content (s3_env h)) db" "content e' = exec (bound vals) db sql" "backup e' = backup (s3_env h)" by blast
  have g: "db_good db \<and> db_content db = view h" using same_rows_good [OF _ r(3)] assms(1) by (auto simp: s3_defs)
  have v: "val_type v = DB_VAL_GREY \<Longrightarrow> grey_val (val_gd v) = v" by (simp add: grey_val_def)
  show ?thesis
    using p r g put_good [of db k "val_gd v" sql vals] assms v
    by (intro exI [of _ "h\<lparr>s3_env := e'\<rparr>"]) (auto simp: s3_db_put_def s3_defs)
qed

lemma del_works:
  assumes "ready h" and "s3_key_ok k"
  shows "\<exists>h'. s3_db_del L h k = Some (GREYDB_OK, h') \<and> ready h' \<and> saved h' = saved h \<and> view h' = (view h)(k := None)"
proof -
  obtain sql vals where p: "del_stmt k = Some (sql, vals)" using assms(2) by (cases k) auto
  have "writes_rows sql" using p by (cases k) (auto simp: writes_rows_def)
  from run_write [OF this, of "s3_env h" vals] obtain s e' s' db where
    r: "prepare_bind L (s3_env h) sql vals = Some s" "sl_step L (s3_env h) s = (SQLITE_DONE, e', s')"
       "same_rows (content (s3_env h)) db" "content e' = exec (bound vals) db sql" "backup e' = backup (s3_env h)" by blast
  have g: "db_good db \<and> db_content db = view h" using same_rows_good [OF _ r(3)] assms(1) by (auto simp: s3_defs)
  show ?thesis
    using p r g del_good [of db k sql vals] assms
    by (intro exI [of _ "h\<lparr>s3_env := e'\<rparr>"]) (auto simp: s3_db_del_def s3_defs)
qed

lemma get_works:
  assumes "ready h" and "s3_key_ok k"
  shows "s3_db_get L h k = Some (case view h k of None \<Rightarrow> (GREYDB_NOT_FOUND, None) | Some v \<Rightarrow> (GREYDB_FOUND, Some v))"
proof -
  obtain q vals where q: "get_query k = Some (q, vals)" using assms(2) by (cases k) auto
  obtain s rs db where r: "prepare_bind L (s3_env h) (Query q) vals = Some s" "same_rows (content (s3_env h)) db"
      "mset rs = mset (rows_of (bound vals) db q)" "gives_rows L content backup rest (s3_env h) s rs"
    using run_query [of "s3_env h" q vals] by blast
  have g: "db_good db" "db_content db = view h" using same_rows_good [OF _ r(2)] assms(1) by (auto simp: s3_defs)
  have rows: "mset rs = mset (case view h k of None \<Rightarrow> [] | Some v \<Rightarrow> [data_row v])"
    using r(3) get_rows [OF g(1) assms(2) q] g(2) by simp
  show ?thesis
  proof (cases "view h k")
    case None
    then have "rs = []" using rows by simp
    then show ?thesis using r(1,4) q None by (auto simp: s3_db_get_def gives_rows_def)
  next
    case (Some v)
    then have rs: "rs = [data_row v]" using rows by simp
    have "val_type v = DB_VAL_GREY" using db_good_view [OF g(1)] Some g(2) by simp
    then have "s3_populate_val col 0 = v" if "\<forall>i<length (data_row v). col i = data_row v ! i" for col
      using that [rule_format, of 0] that [rule_format, of 1] that [rule_format, of 2] that [rule_format, of 3] that [rule_format, of 4]
      by (cases v) (auto simp: s3_populate_val_def data_row_def numeral_eq_Suc)
    then show ?thesis using r(1,4) q Some unfolding rs
      by (auto simp: s3_db_get_def gives_rows_def sqlite_codes)
  qed
qed

lemma part_works:
  assumes "ready h"
  shows "\<exists>vo. s3_db_get L h (KEY_DOM_PART s) =
    Some (if \<exists>d. view h (KEY_DOM d) \<noteq> None \<and> dom_matches s d then GREYDB_FOUND else GREYDB_NOT_FOUND, vo)"
proof -
  let ?q = "Select (marker_cols (- 3)) ''domains'' (Like (Param 1) (Cat (Lit (SText ''%'')) (Col ''domain'')))"
  obtain st rs db where r: "prepare_bind L (s3_env h) (Query ?q) [SText s] = Some st" "same_rows (content (s3_env h)) db"
      "mset rs = mset (rows_of (bound [SText s]) db ?q)" "gives_rows L content backup rest (s3_env h) st rs"
    using run_query [of "s3_env h" ?q "[SText s]"] by blast
  have g: "db_good db" "db_content db = view h" using same_rows_good [OF _ r(2)] assms(1) by (auto simp: s3_defs)
  have "rs \<noteq> [] \<longleftrightarrow> (\<exists>d. view h (KEY_DOM d) \<noteq> None \<and> dom_matches s d)"
    using part_rows [OF g(1), of s] g(2) r(3) by (metis mset_zero_iff)
  moreover have "\<exists>vo. s3_db_get L h (KEY_DOM_PART s) = Some (if rs \<noteq> [] then GREYDB_FOUND else GREYDB_NOT_FOUND, vo)"
    using r(1,4) by (cases rs) (auto simp: s3_db_get_def gives_rows_def sqlite_codes)
  ultimately show ?thesis by simp
qed

text \<open>The driver's retries outlast the busy time.\<close>

lemma exec_after_busy:
  "after_busy L content backup stmt n e e' \<Longrightarrow> n + r \<le> MAX_RETRY \<Longrightarrow> exec_retry L stmt e r = Some (SQLITE_OK, e')"
  by (induction n arbitrary: e r) (subst exec_retry.simps, force simp: sqlite_codes)+

lemma open_works_driver:
  assumes "s3_inv content backup h"
  shows "\<exists>h'. s3_db_open L h f = Some h' \<and> ready h' \<and> view h' = view h \<and> saved h' = saved h"
proof (cases "s3_open h")
  case True
  then show ?thesis using assms by (auto simp: s3_db_open_def s3_ready_def)
next
  case False
  obtain e1 where e1: "sl_open L (s3_env h) = (SQLITE_OK, e1)" "content e1 = content (s3_env h)" "backup e1 = backup (s3_env h)"
    using open_works by blast
  obtain e2 where e2: "sl_exec L e1 s3_schema = (SQLITE_OK, e2)" "backup e2 = backup e1" "content e2 = padded (content e1)"
    using schema_works [of e1] unfolding padded_def by blast
  show ?thesis
    using False assms e1 e2 by (intro exI [of _ "h\<lparr>s3_env := e2, s3_open := True\<rparr>"]) (auto simp: s3_db_open_def s3_defs)
qed

lemma txn_works:
  assumes "ready h"
  shows "saved h = None \<Longrightarrow> \<exists>h'. s3_db_start_txn L h = Some (SQLITE_OK, h') \<and> ready h' \<and> view h' = view h \<and> saved h' = Some (view h)"
    and "saved h = Some m \<Longrightarrow> \<exists>h'. s3_db_commit_txn L h = Some (SQLITE_OK, h') \<and> ready h' \<and> view h' = view h \<and> saved h' = None"
    and "\<exists>r h'. s3_db_rollback_txn L h = Some (r, h') \<and> ready h' \<and>
      view h' = (case saved h of None \<Rightarrow> view h | Some m \<Rightarrow> m) \<and> saved h' = None"
proof -
  show "\<exists>h'. s3_db_start_txn L h = Some (SQLITE_OK, h') \<and> ready h' \<and> view h' = view h \<and> saved h' = Some (view h)" if sv: "saved h = None"
  proof -
    obtain n e' where e': "n \<le> MAX_RETRY" "after_busy L content backup Begin n (s3_env h) e'" "content e' = content (s3_env h)"
        "backup e' = Some (content (s3_env h))"
      using begin_works [of "s3_env h"] sv by (auto simp: s3_saved_def)
    then show ?thesis using assms sv exec_after_busy [OF e'(2), of 0]
      by (intro exI [of _ "h\<lparr>s3_env := e', s3_txn := 1\<rparr>"]) (auto simp: s3_db_start_txn_def s3_defs)
  qed
  show "\<exists>h'. s3_db_commit_txn L h = Some (SQLITE_OK, h') \<and> ready h' \<and> view h' = view h \<and> saved h' = None" if sv: "saved h = Some m"
  proof -
    obtain n e' where e': "n \<le> MAX_RETRY" "after_busy L content backup Commit n (s3_env h) e'" "content e' = content (s3_env h)" "backup e' = None"
      using commit_works [of "s3_env h"] sv by (auto simp: s3_saved_def)
    then show ?thesis using assms sv exec_after_busy [OF e'(2), of 0]
      by (intro exI [of _ "h\<lparr>s3_env := e', s3_txn := 0\<rparr>"]) (auto simp: s3_db_commit_txn_def s3_defs)
  qed
  show "\<exists>r h'. s3_db_rollback_txn L h = Some (r, h') \<and> ready h' \<and>
      view h' = (case saved h of None \<Rightarrow> view h | Some m \<Rightarrow> m) \<and> saved h' = None"
  proof (cases "backup (s3_env h)")
    case None
    then show ?thesis using assms by (auto simp: s3_db_rollback_txn_def s3_defs)
  next
    case (Some db)
    obtain e' where "sl_exec L (s3_env h) [Rollback] = (SQLITE_OK, e')" "content e' = db" "backup e' = None"
      using rollback_works [OF Some] by blast
    then show ?thesis using assms Some
      by (intro exI [of _ SQLITE_OK] exI [of _ "h\<lparr>s3_env := e', s3_txn := 0\<rparr>"]) (auto simp: s3_db_rollback_txn_def s3_defs)
  qed
qed

end

end
