(* ===== verification/Sqlite_Scan.thy ===== *)
theory Sqlite_Scan
  imports Sqlite_Driver
begin

text \<open>
  The scan of the SQLite driver, which is three statements, against the specification of a scan; with the
  lemmas of \<open>Sqlite_Driver\<close> the driver meets the whole contract of the database interface.
\<close>

section \<open>The update as a sequence of assignments\<close>

fun upd_entries :: "(Grey_tuple \<times> Grey_data \<Rightarrow> bool) \<Rightarrow> (Grey_tuple \<times> Grey_data \<Rightarrow> Grey_tuple \<times> Grey_data)
    \<Rightarrow> (Grey_tuple \<times> Grey_data) list \<Rightarrow> (Grey_tuple \<times> Grey_data) list \<Rightarrow> (Grey_tuple \<times> Grey_data) list" where
  "upd_entries cond f seen [] = seen"
| "upd_entries cond f seen (e # es) = upd_entries cond f (if cond e then store (f e) seen else seen @ [e]) es"

text \<open>No entry still to be visited has the key of an updated one, so none is replaced before its turn.\<close>

lemma update_entries:
  assumes "\<And>e. cond' (entry_row e) = cond e" and "\<And>e. f' (entry_row e) = entry_row (f e)"
    and "\<forall>e\<in>set es. cond e \<longrightarrow> (\<forall>x\<in>set es. fst x \<noteq> fst (f e))"
  shows "update_rows Or_replace (entry_table rows) cond' f' (map entry_row seen) (map entry_row es) = map entry_row (upd_entries cond f seen es)"
  using assms(3)
proof (induction es arbitrary: seen)
  case (Cons e es)
  have keep: "filter (\<lambda>x. row_key (entry_table rows) x \<noteq> row_key (entry_table rows) (entry_row (f e))) (map entry_row es) = map entry_row es"
    if "cond e" using Cons.prems that by (auto simp: filter_id_conv)
  have seen: "filter (\<lambda>x. row_key (entry_table rows) x \<noteq> row_key (entry_table rows) (entry_row (f e))) (map entry_row seen) @ [entry_row (f e)]
      = map entry_row (store (f e) seen)"
    by (simp add: store_def filter_map comp_def)
  show ?case
    using Cons.IH [of "store (f e) seen"] Cons.IH [of "seen @ [e]"] Cons.prems keep seen by (simp add: assms(1,2))
qed simp

lemma upd_distinct:
  assumes "distinct (map fst seen)" and "distinct (map fst es)" and "fst ` set seen \<inter> fst ` set es = {}"
    and "\<forall>e\<in>set es. cond e \<longrightarrow> (\<forall>x\<in>set es. fst x \<noteq> fst (f e))"
  shows "distinct (map fst (upd_entries cond f seen es)) \<and>
    map_of (upd_entries cond f seen es) =
      fold (\<lambda>e m. if cond e then m(fst (f e) \<mapsto> snd (f e)) else m(fst e \<mapsto> snd e)) es (map_of seen)"
  using assms
proof (induction es arbitrary: seen)
  case (Cons e es)
  show ?case
  proof (cases "cond e")
    case True
    have "distinct (map fst (store (f e) seen))" using Cons.prems(1) by (auto simp: store_def distinct_map_filter)
    moreover have "fst ` set (store (f e) seen) \<inter> fst ` set es = {}" using Cons.prems(3,4) True by (auto simp: store_def)
    moreover have "distinct (map fst es)" "\<forall>e\<in>set es. cond e \<longrightarrow> (\<forall>x\<in>set es. fst x \<noteq> fst (f e))" using Cons.prems(2,4) by auto
    ultimately show ?thesis using Cons.IH [of "store (f e) seen"] True unfolding map_of_store by (simp del: fun_upd_apply)
  next
    case False
    have new: "fst e \<notin> fst ` set seen" using Cons.prems(3) by auto
    then have "map_of seen (fst e) = None" by (simp add: map_of_eq_None_iff)
    then have "map_of (seen @ [e]) = (map_of seen)(fst e \<mapsto> snd e)"
      by (cases e) (auto simp: map_of_append map_add_def fun_eq_iff split: option.splits)
    moreover have "fst ` set (seen @ [e]) \<inter> fst ` set es = {}" "distinct (map fst (seen @ [e]))" "distinct (map fst es)"
        "\<forall>e\<in>set es. cond e \<longrightarrow> (\<forall>x\<in>set es. fst x \<noteq> fst (f e))"
      using Cons.prems new by auto
    ultimately show ?thesis using Cons.IH [of "seen @ [e]"] False by (simp del: fun_upd_apply map_of_append)
  qed
qed simp

lemma fold_assign:
  shows "k \<notin> g ` set es \<Longrightarrow> fold (\<lambda>e m. m(g e \<mapsto> h e)) es m k = m k"
    and "k \<in> g ` set es \<Longrightarrow> \<exists>e\<in>set es. g e = k \<and> fold (\<lambda>e m. m(g e \<mapsto> h e)) es m k = Some (h e)"
proof -
  show out: "k \<notin> g ` set es \<Longrightarrow> fold (\<lambda>e m. m(g e \<mapsto> h e)) es m k = m k" for es m
    by (induction es arbitrary: m) auto
  show "k \<in> g ` set es \<Longrightarrow> \<exists>e\<in>set es. g e = k \<and> fold (\<lambda>e m. m(g e \<mapsto> h e)) es m k = Some (h e)"
  proof (induction es arbitrary: m)
    case (Cons e es)
    show ?case
    proof (cases "k \<in> g ` set es")
      case True
      then show ?thesis using Cons.IH [of "m(g e \<mapsto> h e)"] by (auto simp del: fun_upd_apply)
    next
      case False
      then have "g e = k" using Cons.prems by auto
      then show ?thesis using out [OF False, of "m(g e \<mapsto> h e)"] by (intro bexI [of _ e]) (auto simp del: fun_upd_apply simp add: fun_upd_same)
    qed
  qed simp
qed

section \<open>The update on the view\<close>

text \<open>A tuple that the update turns into an entry of its address.\<close>

definition tuple_due :: "int \<Rightarrow> db_view \<Rightarrow> Grey_tuple \<Rightarrow> DB_val \<Rightarrow> bool" where
  "tuple_due now m t v \<longleftrightarrow> m (KEY_TUPLE t) = Some v \<and> 0 \<le> gd_pcount (val_gd v) \<and> gd_pass (val_gd v) \<le> now \<and> m (KEY_IP (gt_ip t)) = None"

lemma ents_view_ok:
  assumes "ents_ok traps doms ents" and "(t, d) \<in> set ents"
  shows "s3_key_ok (KEY_TUPLE t) \<and> ents_view traps doms ents (KEY_TUPLE t) = Some (grey_val d) \<or>
    t = ip_tuple (gt_ip t) \<and> s3_key_ok (KEY_IP (gt_ip t)) \<and> ents_view traps doms ents (KEY_IP (gt_ip t)) = Some (grey_val d)"
proof -
  have "map_of ents t = Some d" using assms by (simp add: ents_ok_def)
  moreover have "s3_key_ok (KEY_TUPLE t) \<or> t = ip_tuple (gt_ip t) \<and> s3_key_ok (KEY_IP (gt_ip t))"
    using assms unfolding ents_ok_def by force
  ultimately show ?thesis by (auto simp: ip_tuple_def)
qed

section \<open>The first statement: expired entries\<close>

definition without_expired :: "int \<Rightarrow> db_view \<Rightarrow> db_view" where
  "without_expired now m k =
     (case m k of None \<Rightarrow> None | Some v \<Rightarrow> if entry_key k \<and> gd_expire (val_gd v) \<le> now then None else Some v)"

lemma map_of_filter_value:
  "distinct (map fst xs) \<Longrightarrow> map_of (filter (\<lambda>x. P (snd x)) xs) k = (case map_of xs k of None \<Rightarrow> None | Some d \<Rightarrow> if P d then Some d else None)"
proof (induction xs)
  case (Cons x xs)
  have "map_of xs (fst x) = None" using Cons.prems by (simp add: map_of_eq_None_iff)
  then show ?case using Cons by (cases x) (auto split: option.splits)
qed simp

lemma delete_good:
  assumes "db_good db"
  shows "db_good (exec (bound [SInt now]) db scan_delete)"
    and "db_content (exec (bound [SInt now]) db scan_delete) = without_expired now (db_content db)"
proof -
  obtain traps doms ents where t: "tables db traps doms ents" "ents_ok traps doms ents" using assms(1) by (auto simp: db_good_def)
  let ?ents = "filter (\<lambda>x. \<not> gd_expire (snd x) \<le> now) ents"
  have e: "tables (exec (bound [SInt now]) db scan_delete) traps doms ?ents"
    using t(1) by (simp add: tables_def scan_delete_def filter_rows)
  have ok: "ents_ok traps doms ?ents" using ents_ok_filter [OF t(2), of "\<lambda>x. True" "\<lambda>x. True"] by simp
  show "db_good (exec (bound [SInt now]) db scan_delete)" using e ok by (auto simp: db_good_def)
  have d: "distinct (map fst ents)" using t(2) by (simp add: ents_ok_def)
  have "ents_view traps doms ?ents k = without_expired now (ents_view traps doms ents) k" for k
    using map_of_filter_value [OF d, of "\<lambda>d. \<not> gd_expire d \<le> now"]
    by (cases k) (auto simp: without_expired_def marker_def grey_val_def split: option.splits)
  then show "db_content (exec (bound [SInt now]) db scan_delete) = without_expired now (db_content db)"
    by (simp add: db_content_tables [OF e] db_content_tables [OF t(1)] fun_eq_iff)
qed

section \<open>The second statement: tuples that pass\<close>

definition due :: "int \<Rightarrow> (Grey_tuple \<times> Grey_data) list \<Rightarrow> Grey_tuple \<times> Grey_data \<Rightarrow> bool" where
  "due now ents e \<longleftrightarrow> gt_from (fst e) \<noteq> [] \<and> gt_to (fst e) \<noteq> [] \<and> 0 \<le> gd_pcount (snd e) \<and> gd_pass (snd e) \<le> now \<and>
     (\<forall>x\<in>set ents. gt_from (fst x) = [] \<and> gt_to (fst x) = [] \<longrightarrow> gt_ip (fst x) \<noteq> gt_ip (fst e))"

definition whitened :: "int \<Rightarrow> Grey_tuple \<times> Grey_data \<Rightarrow> Grey_tuple \<times> Grey_data" where
  "whitened expire e = (ip_tuple (gt_ip (fst e)), (snd e)\<lparr>gd_expire := expire\<rparr>)"

lemma fails_among: "fails (among (SText s) (map (\<lambda>e. SText (g e)) xs)) \<longleftrightarrow> s \<notin> g ` set xs"
  by (auto simp: among_def)

lemma ip_tuple_simps [simp]: "gt_ip (ip_tuple s) = s" "gt_helo (ip_tuple s) = []" "gt_from (ip_tuple s) = []" "gt_to (ip_tuple s) = []"
  by (simp_all add: ip_tuple_def)

lemma update_exec:
  assumes "tables db traps doms ents" and "ents_ok traps doms ents"
  shows "tables (exec (bound [SInt expire, SInt now]) db scan_update) traps doms
    (upd_entries (due now ents) (whitened expire) [] ents)"
    and "\<forall>e\<in>set ents. due now ents e \<longrightarrow> (\<forall>x\<in>set ents. fst x \<noteq> fst (whitened expire e))"
proof -
  let ?as = "bound [SInt expire, SInt now]"
  show sep: "\<forall>e\<in>set ents. due now ents e \<longrightarrow> (\<forall>x\<in>set ents. fst x \<noteq> fst (whitened expire e))"
    by (auto simp: due_def whitened_def ip_tuple_def)
  have sets: "assign_row ?as db entry_cols update_sets (entry_row e) = entry_row (whitened expire e)" for e
    by (auto simp: update_sets_def assign_row_def entry_cols_def entry_row_def whitened_def ip_tuple_def cell_def)
  have cond: "holds (eval ?as db update_cond entry_cols (entry_row e)) \<longleftrightarrow> due now ents e" for e
  proof -
    have "map hd (rows_of ?as db (Select [Col ''ip''] ''entries'' (And (Eq (Col ''from'') empty_text) (Eq (Col ''to'') empty_text)))) =
        map (\<lambda>x. SText (gt_ip (fst x))) (filter (\<lambda>x. gt_from (fst x) = [] \<and> gt_to (fst x) = []) ents)"
      using assms(1) by (simp add: tables_def filter_rows comp_def)
    then have q: "fails (among (SText s) (map hd (rows_of ?as db (Select [Col ''ip''] ''entries'' (And (Eq (Col ''from'') empty_text) (Eq (Col ''to'') empty_text)))))) \<longleftrightarrow>
        s \<notin> (\<lambda>x. gt_ip (fst x)) ` set (filter (\<lambda>x. gt_from (fst x) = [] \<and> gt_to (fst x) = []) ents)" for s
      by (simp only: fails_among)
    have i: "(\<forall>x\<in>set ents. gt_from (fst x) = [] \<and> gt_to (fst x) = [] \<longrightarrow> gt_ip (fst x) \<noteq> s) \<longleftrightarrow>
        s \<notin> (\<lambda>x. gt_ip (fst x)) ` set (filter (\<lambda>x. gt_from (fst x) = [] \<and> gt_to (fst x) = []) ents)" for s
      by force
    show ?thesis unfolding due_def i by (simp add: update_cond_def q conj_ac del: rows_of.simps set_filter)
  qed
  show "tables (exec ?as db scan_update) traps doms (upd_entries (due now ents) (whitened expire) [] ents)"
    using assms(1) update_entries [of "\<lambda>r. holds (eval ?as db update_cond entry_cols r)" "due now ents" "assign_row ?as db entry_cols update_sets" "whitened expire" ents
        "map entry_row ents" "[]", OF cond sets sep]
    by (simp add: tables_def scan_update_def)
qed

lemma update_good:
  fixes db now expire
  defines "db' \<equiv> exec (bound [SInt expire, SInt now]) db scan_update" and "m \<equiv> db_content db"
  assumes "db_good db"
  shows "db_good db'"
    and "db_content db' (KEY_TUPLE t) = (if \<exists>v. tuple_due now m t v then None else m (KEY_TUPLE t))"
    and "\<exists>t v. tuple_due now m t v \<and> gt_ip t = s \<Longrightarrow> \<exists>t v. tuple_due now m t v \<and> gt_ip t = s \<and>
      db_content db' (KEY_IP s) = Some (v\<lparr>val_gd := (val_gd v)\<lparr>gd_expire := expire\<rparr>\<rparr>)"
    and "\<nexists>t v. tuple_due now m t v \<and> gt_ip t = s \<Longrightarrow> db_content db' (KEY_IP s) = m (KEY_IP s)"
    and "db_content db' (KEY_MAIL s) = m (KEY_MAIL s)" and "db_content db' (KEY_DOM s) = m (KEY_DOM s)"
proof -
  obtain traps doms ents where t: "tables db traps doms ents" "ents_ok traps doms ents" using assms(3) by (auto simp: db_good_def)
  let ?f = "whitened expire" and ?c = "due now ents"
  let ?ents = "upd_entries ?c ?f [] ents" and ?g = "\<lambda>e. if ?c e then fst (?f e) else fst e" and ?h = "\<lambda>e. if ?c e then snd (?f e) else snd e"
  note x = update_exec [OF t, where expire = expire and now = now]
  have d: "distinct (map fst ents)" using t(2) by (simp add: ents_ok_def)
  have up: "distinct (map fst ?ents)" "map_of ?ents = fold (\<lambda>e m. if ?c e then m(fst (?f e) \<mapsto> snd (?f e)) else m(fst e \<mapsto> snd e)) ents Map.empty"
    using upd_distinct [OF _ d _ x(2), of "[]"] by auto
  have "map_of ?ents = fold (\<lambda>e m. m(?g e \<mapsto> ?h e)) ents Map.empty"
    unfolding up(2) by (intro arg_cong [of _ _ "\<lambda>f. fold f ents Map.empty"] ext) (simp del: fun_upd_apply)
  then have look: "k \<notin> ?g ` set ents \<Longrightarrow> map_of ?ents k = None"
    "k \<in> ?g ` set ents \<Longrightarrow> \<exists>e\<in>set ents. ?g e = k \<and> map_of ?ents k = Some (?h e)" for k
    using fold_assign(1) [of k ?g ents ?h Map.empty] fold_assign(2) [of k ?g ents ?h Map.empty] by simp_all
  have of: "map_of ents (fst e) = Some (snd e)" if "e \<in> set ents" for e
    using map_of_is_SomeI [OF d, of "fst e" "snd e"] that by simp
  have keys: "fst e = ip_tuple (gt_ip (fst e)) \<and> s3_key_ok (KEY_IP (gt_ip (fst e))) \<or> s3_key_ok (KEY_TUPLE (fst e))" if "e \<in> set ents" for e
    using t(2) that unfolding ents_ok_def by blast
  have ip: "gt_from (fst e) = [] \<and> gt_to (fst e) = [] \<longleftrightarrow> fst e = ip_tuple (gt_ip (fst e))" if "e \<in> set ents" for e
    using keys [OF that] ip_tuple_simps s3_key_ok.simps(2) by metis
  have mt: "m (KEY_TUPLE u) = (if gt_from u = [] \<or> gt_to u = [] then None else map_option grey_val (map_of ents u))"
      "m (KEY_IP s) = map_option grey_val (map_of ents (ip_tuple s))" for u s
    by (simp_all add: m_def db_content_tables [OF t(1)])
  have free: "(\<forall>x\<in>set ents. gt_from (fst x) = [] \<and> gt_to (fst x) = [] \<longrightarrow> gt_ip (fst x) \<noteq> s) \<longleftrightarrow> map_of ents (ip_tuple s) = None" for s
    using ip by (force simp: map_of_eq_None_iff ip_tuple_def)
  have due: "tuple_due now m u v \<longleftrightarrow> (\<exists>d. (u, d) \<in> set ents \<and> ?c (u, d) \<and> v = grey_val d)" for u v
    unfolding tuple_due_def due_def free fst_conv snd_conv using of mt
    by (auto simp: grey_val_def dest: map_of_SomeD split: if_splits)
  show "db_good db'"
  proof -
    have "s3_key_ok (KEY_TUPLE k) \<or> k = ip_tuple (gt_ip k) \<and> s3_key_ok (KEY_IP (gt_ip k))" if "k \<in> fst ` set ?ents" for k
    proof -
      have "k \<in> ?g ` set ents" using look(1) [of k] that by (auto simp: map_of_eq_None_iff)
      then obtain e where e: "e \<in> set ents" "k = ?g e" by blast
      then show ?thesis using keys [OF e(1)] by (auto simp: whitened_def ip_tuple_def due_def)
    qed
    then have "ents_ok traps doms ?ents" using t(2) up(1) by (simp only: ents_ok_def) blast
    then show ?thesis using x(1) unfolding db'_def db_good_def by blast
  qed
  have view: "db_content db' = ents_view traps doms ?ents" unfolding db'_def by (rule db_content_tables [OF x(1)])
  show "db_content db' (KEY_MAIL s) = m (KEY_MAIL s)" "db_content db' (KEY_DOM s) = m (KEY_DOM s)"
    by (simp_all add: view m_def db_content_tables [OF t(1)])
  show "db_content db' (KEY_TUPLE u) = (if \<exists>v. tuple_due now m u v then None else m (KEY_TUPLE u))" for u
  proof (cases "gt_from u = [] \<or> gt_to u = []")
    case True
    then show ?thesis using mt by (simp add: view)
  next
    case False
    then have g: "?g e = u \<longleftrightarrow> \<not> ?c e \<and> fst e = u" for e by (auto simp: whitened_def ip_tuple_def)
    have img: "u \<in> ?g ` set ents \<longleftrightarrow> (\<exists>e\<in>set ents. \<not> ?c e \<and> fst e = u)"
      unfolding image_iff eq_commute [of u] by (rule bex_cong [OF refl g])
    show ?thesis
    proof (cases "map_of ents u")
      case None
      then have "u \<notin> ?g ` set ents" unfolding img by (auto simp: map_of_eq_None_iff)
      then show ?thesis using look(1) [of u] None mt False by (simp add: view)
    next
      case (Some d)
      then have mem: "(u, d) \<in> set ents" by (rule map_of_SomeD)
      then have uniq: "e = (u, d)" if "e \<in> set ents" "fst e = u" for e using of [OF that(1)] that(2) Some by (cases e) simp
      show ?thesis
      proof (cases "?c (u, d)")
        case True
        have "?c e" if "e \<in> set ents" "fst e = u" for e unfolding uniq [OF that] by (rule True)
        then have "u \<notin> ?g ` set ents" unfolding img by blast
        moreover have "tuple_due now m u (grey_val d)" unfolding due using True mem by blast
        ultimately show ?thesis using look(1) [of u] by (auto simp: view)
      next
        case no: False
        have "u \<in> ?g ` set ents" unfolding img by (rule bexI [OF _ mem]) (simp add: no)
        then obtain e where e: "e \<in> set ents" "?g e = u" "map_of ?ents u = Some (?h e)" using look(2) [of u] by blast
        have n: "\<not> ?c e" "fst e = u" using e(2) unfolding g by auto
        have "map_of ?ents u = Some d" using e(3) n(1) uniq [OF e(1) n(2)] by simp
        moreover have "\<not> tuple_due now m u v" for v using due no uniq by force
        ultimately show ?thesis using Some mt False by (simp add: view)
      qed
    qed
  qed
  have gip: "?g e = ip_tuple s \<longleftrightarrow> ?c e \<and> gt_ip (fst e) = s \<or> \<not> ?c e \<and> fst e = ip_tuple s" for e s
    by (auto simp: whitened_def ip_tuple_def)
  show "\<exists>u v. tuple_due now m u v \<and> gt_ip u = s \<and> db_content db' (KEY_IP s) = Some (v\<lparr>val_gd := (val_gd v)\<lparr>gd_expire := expire\<rparr>\<rparr>)"
    if ex: "\<exists>u v. tuple_due now m u v \<and> gt_ip u = s" for s
  proof -
    obtain u d where u: "(u, d) \<in> set ents" "?c (u, d)" "gt_ip u = s" using ex due by blast
    then have none: "map_of ents (ip_tuple s) = None" using free by (simp add: due_def)
    have "?g (u, d) = ip_tuple s" unfolding gip using u by simp
    then have "ip_tuple s \<in> ?g ` set ents" using u(1) by (rule image_eqI [OF sym])
    then obtain e where e: "e \<in> set ents" "?g e = ip_tuple s" "map_of ?ents (ip_tuple s) = Some (?h e)" using look(2) by blast
    have "fst e \<noteq> ip_tuple s" using of [OF e(1)] none by auto
    then have c: "?c e" "gt_ip (fst e) = s" using e(2) unfolding gip by blast+
    then have "tuple_due now m (fst e) (grey_val (snd e))" unfolding due using e(1) by (intro exI [of _ "snd e"]) simp
    then show ?thesis
      using e(3) c by (intro exI [of _ "fst e"] exI [of _ "grey_val (snd e)"]) (simp add: view whitened_def grey_val_def)
  qed
  show "db_content db' (KEY_IP s) = m (KEY_IP s)" if ex: "\<nexists>u v. tuple_due now m u v \<and> gt_ip u = s" for s
  proof -
    have g: "?g e = ip_tuple s \<longleftrightarrow> fst e = ip_tuple s" if "e \<in> set ents" for e
    proof -
      have "\<not> (?c e \<and> gt_ip (fst e) = s)"
      proof
        assume a: "?c e \<and> gt_ip (fst e) = s"
        have "tuple_due now m (fst e) (grey_val (snd e))" unfolding due using that a by (intro exI [of _ "snd e"]) simp
        then show False using a ex by blast
      qed
      moreover have "\<not> ?c e" if "fst e = ip_tuple s" using that by (simp add: due_def ip_tuple_def)
      ultimately show ?thesis using gip [of e s] by blast
    qed
    have img: "ip_tuple s \<in> ?g ` set ents \<longleftrightarrow> (\<exists>e\<in>set ents. fst e = ip_tuple s)"
      unfolding image_iff eq_commute [of "ip_tuple s"] by (rule bex_cong [OF refl g])
    show ?thesis
    proof (cases "map_of ents (ip_tuple s)")
      case None
      then have "ip_tuple s \<notin> ?g ` set ents" unfolding img by (force simp: map_of_eq_None_iff)
      then show ?thesis using look(1) None mt by (simp add: view)
    next
      case (Some d)
      then have "ip_tuple s \<in> ?g ` set ents" unfolding img using map_of_SomeD [OF Some] by force
      then obtain e where e: "e \<in> set ents" "fst e = ip_tuple s" "map_of ?ents (ip_tuple s) = Some (?h e)" using look(2) g by blast
      then have "snd e = d" "\<not> ?c e" using of [OF e(1)] Some by (simp_all add: due_def ip_tuple_def)
      then show ?thesis using e(3) Some mt by (simp add: view)
    qed
  qed
qed

section \<open>The three statements against the specification\<close>

text \<open>
  The entries for which the statements do what a scan has to do: only the greylister's own values, no entry
  of an address that is white before its time, and no tuple that passes while its address has an entry that
  is white and still valid.
\<close>

definition s3_scannable :: "int \<Rightarrow> db_view \<Rightarrow> bool" where
  "s3_scannable now m \<longleftrightarrow>
     (\<forall>k v. m k = Some v \<and> entry_key k \<longrightarrow> - 1 \<le> gd_pcount (val_gd v)) \<and>
     (\<forall>s v. m (KEY_IP s) = Some v \<and> 0 \<le> gd_pcount (val_gd v) \<longrightarrow> gd_pass (val_gd v) \<le> now) \<and>
     (\<forall>t v v'. m (KEY_TUPLE t) = Some v \<and> val_passes now v \<and> m (KEY_IP (gt_ip t)) = Some v' \<and> \<not> val_expired now v' \<longrightarrow> val_trap v')"

lemma s3_scannable_tuple:
  "s3_scannable now m \<Longrightarrow> - 1 \<le> gd_pcount (val_gd v) \<Longrightarrow> m (KEY_IP (gt_ip gt)) = None \<Longrightarrow> s3_scannable now (m(KEY_TUPLE gt \<mapsto> v))"
  by (auto simp: s3_scannable_def)

text \<open>The addresses that the last statement finds white, and those it finds trapped.\<close>

definition white_ips :: "db_view \<Rightarrow> string set" where
  "white_ips m = {s. \<exists>v. m (KEY_IP s) = Some v \<and> 0 \<le> gd_pcount (val_gd v)}"

definition trap_ips :: "db_view \<Rightarrow> string set" where
  "trap_ips m = {s. \<exists>v. m (KEY_IP s) = Some v \<and> gd_pcount (val_gd v) < 0}"

definition updated :: "int \<Rightarrow> int \<Rightarrow> db_view \<Rightarrow> db_view \<Rightarrow> bool" where
  "updated now expire m m' \<longleftrightarrow>
     (\<forall>t. m' (KEY_TUPLE t) = (if \<exists>v. tuple_due now m t v then None else m (KEY_TUPLE t))) \<and>
     (\<forall>s. (\<exists>t v. tuple_due now m t v \<and> gt_ip t = s) \<longrightarrow> (\<exists>t v. tuple_due now m t v \<and> gt_ip t = s \<and>
        m' (KEY_IP s) = Some (v\<lparr>val_gd := (val_gd v)\<lparr>gd_expire := expire\<rparr>\<rparr>))) \<and>
     (\<forall>s. (\<nexists>t v. tuple_due now m t v \<and> gt_ip t = s) \<longrightarrow> m' (KEY_IP s) = m (KEY_IP s)) \<and>
     (\<forall>s. m' (KEY_MAIL s) = m (KEY_MAIL s) \<and> m' (KEY_DOM s) = m (KEY_DOM s))"

lemma update_updated:
  "db_good db \<Longrightarrow> updated now expire (db_content db) (db_content (exec (bound [SInt expire, SInt now]) db scan_update))"
  unfolding updated_def using update_good(2-6) [of db] by blast

lemma scan_meets_spec:
  assumes m: "s3_scannable now m" "\<forall>k v. m k = Some v \<longrightarrow> val_type v = DB_VAL_GREY" and w: "0 < wexp"
    and up: "updated now (now + wexp) (without_expired now m) m'"
  shows "scan_spec now wexp m m' (white_ips m') (trap_ips m')"
proof -
  let ?m = "without_expired now m"
  have low: "- 1 \<le> gd_pcount (val_gd v)" if "m k = Some v" "entry_key k" for k v using m(1) that by (auto simp: s3_scannable_def)
  have early: "gd_pass (val_gd v) \<le> now" if "m (KEY_IP s) = Some v" "0 \<le> gd_pcount (val_gd v)" for s v
    using m(1) that by (auto simp: s3_scannable_def)
  have held: "val_trap v'" if "m (KEY_TUPLE t) = Some v" "val_passes now v" "m (KEY_IP (gt_ip t)) = Some v'" "\<not> val_expired now v'" for t v v'
    using m(1) that unfolding s3_scannable_def by blast
  have left: "?m k = Some v \<longleftrightarrow> m k = Some v \<and> \<not> val_expired now v" if "entry_key k" for k v
    using low [of k] that by (force simp: without_expired_def val_expired_def split: option.splits)
  have none: "?m k = None \<longleftrightarrow> (\<forall>v. m k = Some v \<longrightarrow> val_expired now v)" if "entry_key k" for k
    using left [OF that] by (metis not_None_eq option.inject)
  have gone: "?m k = m k \<or> ?m k = None \<and> (\<exists>v. m k = Some v \<and> val_expired now v)" if "entry_key k" for k
    using left [OF that] none [OF that] by (metis not_None_eq)
  have due: "tuple_due now ?m t v \<longleftrightarrow> m (KEY_TUPLE t) = Some v \<and> val_passes now v \<and> ?m (KEY_IP (gt_ip t)) = None" for t v
    unfolding tuple_due_def val_passes_def using left [of "KEY_TUPLE t" v] by auto
  have tup: "m' (KEY_TUPLE t) = (if \<exists>v. tuple_due now ?m t v then None else ?m (KEY_TUPLE t))" for t
    using up by (simp add: updated_def)
  have new: "\<exists>t v. tuple_due now ?m t v \<and> gt_ip t = s \<and> m' (KEY_IP s) = Some (white_val now wexp v)"
    if ex: "\<exists>t v. tuple_due now ?m t v \<and> gt_ip t = s" for s
  proof -
    obtain t v where t: "tuple_due now ?m t v" "gt_ip t = s" "m' (KEY_IP s) = Some (v\<lparr>val_gd := (val_gd v)\<lparr>gd_expire := now + wexp\<rparr>\<rparr>)"
      using up ex unfolding updated_def by metis
    moreover have "val_type v = DB_VAL_GREY" using m(2) t(1) due by blast
    ultimately show ?thesis by (intro exI [of _ t] exI [of _ v]) (simp add: white_val_def)
  qed
  have old: "m' (KEY_IP s) = ?m (KEY_IP s)" if "\<nexists>t v. tuple_due now ?m t v \<and> gt_ip t = s" for s
    using up that unfolding updated_def by blast
  have ip: "(\<exists>t v. m (KEY_TUPLE t) = Some v \<and> gt_ip t = s \<and> val_passes now v \<and> ?m (KEY_IP s) = None \<and> m' (KEY_IP s) = Some (white_val now wexp v)) \<or>
      (\<nexists>t v. tuple_due now ?m t v \<and> gt_ip t = s) \<and> m' (KEY_IP s) = ?m (KEY_IP s)" for s
    using new [of s] old [of s] due by blast
  have white: "\<not> val_expired now (white_val now wexp v)" "gd_pcount (val_gd (white_val now wexp v)) = gd_pcount (val_gd v)" for v
    using w by (simp_all add: white_val_def val_expired_def)
  have psD: "\<not> val_expired now v" "0 \<le> gd_pcount (val_gd v)" if "val_passes now v" for v using that by (simp_all add: val_passes_def)
  have hasw: "s \<in> white_ips m'" if "m' (KEY_IP s) = Some (white_val now wexp v)" "val_passes now v" for s v
    using that white(2) psD(2) by (auto simp: white_ips_def)
  have trapped: "ip_trapped now m s \<longleftrightarrow> s \<in> trap_ips m'" for s
    using ip [of s]
  proof
    assume "\<exists>t v. m (KEY_TUPLE t) = Some v \<and> gt_ip t = s \<and> val_passes now v \<and> ?m (KEY_IP s) = None \<and> m' (KEY_IP s) = Some (white_val now wexp v)"
    then show ?thesis using none [of "KEY_IP s"] by (auto simp: ip_trapped_def trap_ips_def white(2) dest: psD(2))
  next
    assume "(\<nexists>t v. tuple_due now ?m t v \<and> gt_ip t = s) \<and> m' (KEY_IP s) = ?m (KEY_IP s)"
    then show ?thesis using left [of "KEY_IP s"] low [of "KEY_IP s"] by (force simp: ip_trapped_def trap_ips_def val_trap_def)
  qed
  have whitelisted: "\<not> ip_trapped now m s \<and> (ip_passes now m s \<or> ip_white now m s)" if wh: "s \<in> white_ips m'" for s
    using ip [of s]
  proof
    assume "\<exists>t v. m (KEY_TUPLE t) = Some v \<and> gt_ip t = s \<and> val_passes now v \<and> ?m (KEY_IP s) = None \<and> m' (KEY_IP s) = Some (white_val now wexp v)"
    then show ?thesis using none [of "KEY_IP s"] by (auto simp: ip_trapped_def ip_passes_def)
  next
    assume "(\<nexists>t v. tuple_due now ?m t v \<and> gt_ip t = s) \<and> m' (KEY_IP s) = ?m (KEY_IP s)"
    then obtain v where "m (KEY_IP s) = Some v" "\<not> val_expired now v" "0 \<le> gd_pcount (val_gd v)"
      using left [of "KEY_IP s"] wh by (auto simp: white_ips_def)
    then show ?thesis using early by (auto simp: ip_trapped_def ip_white_def val_passes_def val_trap_def)
  qed
  have stays: "s \<in> white_ips m'" if iw: "ip_white now m s" for s
  proof -
    obtain v where v: "m (KEY_IP s) = Some v" "val_passes now v" using iw by (auto simp: ip_white_def)
    then have "?m (KEY_IP s) = Some v" using left [of "KEY_IP s" v] psD(1) by simp
    then show ?thesis using ip [of s] psD(2) [OF v(2)] by (auto simp: white_ips_def)
  qed
  have passes: "s \<in> white_ips m' \<and> (\<exists>t v. m (KEY_TUPLE t) = Some v \<and> gt_ip t = s \<and> val_passes now v \<and> m' (KEY_IP s) = Some (white_val now wexp v))"
    if ps: "ip_passes now m s" and nt: "\<forall>v. m (KEY_IP s) = Some v \<longrightarrow> \<not> val_trap v" for s
  proof -
    obtain t v where t: "m (KEY_TUPLE t) = Some v" "gt_ip t = s" "val_passes now v" using ps by (auto simp: ip_passes_def)
    then have "?m (KEY_IP s) = None" using held [OF t(1,3)] nt none [of "KEY_IP s"] by auto
    then have "tuple_due now ?m t v" using t due by simp
    then show ?thesis using new [of s] t(2) due hasw by metis
  qed
  have valid: "\<not> val_expired now v" if mk: "m' k = Some v" and "\<exists>s. k = KEY_IP s \<or> (\<exists>t. k = KEY_TUPLE t)" for k v
    using that(2)
  proof (elim exE disjE)
    show ?thesis if "k = KEY_IP s" for s using ip [of s] left [of "KEY_IP s" v] white(1) mk [unfolded that] by auto
    show ?thesis if "k = KEY_TUPLE t" for t using tup [of t] left [of "KEY_TUPLE t" v] mk [unfolded that] by (simp split: if_splits)
  qed
  have same: "m' (KEY_IP s) = m (KEY_IP s)" if "ip_trapped now m s" for s
    using ip [of s] left [of "KEY_IP s"] none [of "KEY_IP s"] that by (auto simp: ip_trapped_def)
  have ips: "m' (KEY_IP s) = m (KEY_IP s) \<or> m' (KEY_IP s) = None \<and> (\<exists>v. m (KEY_IP s) = Some v \<and> val_expired now v) \<or>
      s \<in> white_ips m' \<and> (\<exists>t v. m (KEY_TUPLE t) = Some v \<and> gt_ip t = s \<and> val_passes now v \<and> m' (KEY_IP s) = Some (white_val now wexp v))" for s
  proof (cases "\<exists>t v. tuple_due now ?m t v \<and> gt_ip t = s")
    case True
    then show ?thesis using new [of s] hasw due by blast
  next
    case False
    then show ?thesis using old [of s] gone [of "KEY_IP s"] by auto
  qed
  have listed: "ip_white now m' s" if wh: "s \<in> white_ips m'" for s
    using ip [of s]
  proof
    assume "\<exists>t v. m (KEY_TUPLE t) = Some v \<and> gt_ip t = s \<and> val_passes now v \<and> ?m (KEY_IP s) = None \<and> m' (KEY_IP s) = Some (white_val now wexp v)"
    then show ?thesis using white_val_passes [OF w] by (auto simp: ip_white_def)
  next
    assume "(\<nexists>t v. tuple_due now ?m t v \<and> gt_ip t = s) \<and> m' (KEY_IP s) = ?m (KEY_IP s)"
    then obtain v where "m' (KEY_IP s) = Some v" "m (KEY_IP s) = Some v" "\<not> val_expired now v" "0 \<le> gd_pcount (val_gd v)"
      using left [of "KEY_IP s"] wh by (auto simp: white_ips_def)
    then show ?thesis using early by (auto simp: ip_white_def val_passes_def)
  qed
  have tups: "m' (KEY_TUPLE t) = m (KEY_TUPLE t) \<or>
      m' (KEY_TUPLE t) = None \<and> (\<exists>v. m (KEY_TUPLE t) = Some v \<and> (val_expired now v \<or> val_passes now v \<and> gt_ip t \<in> white_ips m'))" for t
  proof (cases "\<exists>v. tuple_due now ?m t v")
    case True
    then obtain v where v: "tuple_due now ?m t v" by blast
    then have "gt_ip t \<in> white_ips m'" using new [of "gt_ip t"] due hasw by blast
    then show ?thesis using v due tup [of t] True by auto
  next
    case False
    then show ?thesis using tup [of t] gone [of "KEY_TUPLE t"] by auto
  qed
  have kept: "\<exists>v'. m (KEY_IP (gt_ip t)) = Some v' \<and> val_trap v'" if mt: "m' (KEY_TUPLE t) = Some v" and ps: "val_passes now v" for t v
  proof -
    have "\<nexists>v. tuple_due now ?m t v" "?m (KEY_TUPLE t) = Some v" using mt tup [of t] by (simp_all split: if_splits)
    then have t: "m (KEY_TUPLE t) = Some v" "\<not> tuple_due now ?m t v" using left [of "KEY_TUPLE t" v] by simp_all
    then obtain v' where "?m (KEY_IP (gt_ip t)) = Some v'" using due ps by auto
    then show ?thesis using held [OF t(1) ps] left [of "KEY_IP (gt_ip t)"] by auto
  qed
  have names: "m' (KEY_MAIL d) = m (KEY_MAIL d) \<and> m' (KEY_DOM d) = m (KEY_DOM d)" for d
    using up by (simp add: updated_def without_expired_def split: option.splits)
  show ?thesis
    unfolding scan_spec_def using trapped whitelisted stays passes valid same ips listed tups kept names
    by (intro conjI allI ballI impI) (blast | simp)+
qed

section \<open>The third statement: the lists\<close>

lemma tolower_colon: "char_tolower CHR '':'' = char_tolower c \<longleftrightarrow> c = CHR '':''"
proof
  have id: "tolower_c (char_code CHR '':'') = 58" by (simp add: tolower_c_def isupper_c_def char_code_def)
  assume "char_tolower CHR '':'' = char_tolower c"
  then have "(of_char (char_of (58 :: int)) :: int) = of_char (char_of (tolower_c (char_code c)))"
    by (simp add: char_tolower_def to_char_def id)
  then have "tolower_c (char_code c) mod 256 = 58" by simp
  moreover have "0 \<le> tolower_c (char_code c)" "tolower_c (char_code c) < 256"
    using char_code_bounds [of c] by (auto simp: tolower_c_def isupper_c_def)
  ultimately have "tolower_c (char_code c) = 58" by simp
  then have "char_code c = char_code CHR '':''"
    by (simp add: tolower_c_def isupper_c_def char_code_def split: if_splits)
  then show "c = CHR '':''" by simp
qed simp

lemma like_colon: "like ''%:%'' s \<longleftrightarrow> CHR '':'' \<in> set s"
proof -
  have any: "like ''%'' t" for t by (auto simp: like_any like_Cons)
  have "like '':%'' t \<longleftrightarrow> (\<exists>t'. t = CHR '':'' # t')" for t
    using any by (auto simp: like_Cons tolower_colon split: list.splits)
  then have "like ''%:%'' s \<longleftrightarrow> (\<exists>n\<le>length s. \<exists>t. drop n s = CHR '':'' # t)"
    unfolding like_any by blast
  also have "\<dots> \<longleftrightarrow> CHR '':'' \<in> set s"
  proof
    assume "\<exists>n\<le>length s. \<exists>t. drop n s = CHR '':'' # t"
    then show "CHR '':'' \<in> set s" by (metis list.set_intros(1) set_drop_subset subsetD)
  next
    assume "CHR '':'' \<in> set s"
    then obtain xs ys where "s = xs @ CHR '':'' # ys" by (meson split_list)
    then show "\<exists>n\<le>length s. \<exists>t. drop n s = CHR '':'' # t" by (intro exI [of _ "length xs"]) simp
  qed
  finally show ?thesis .
qed

definition list_row :: "nat \<Rightarrow> string \<Rightarrow> sql_row" where
  "list_row n s = map (\<lambda>i. if i = n then SText s else SNull) [0, 1, 2]"

definition select_rows :: "(string \<Rightarrow> bool) \<Rightarrow> db_view \<Rightarrow> sql_row set" where
  "select_rows v6 m = list_row 0 ` {s \<in> white_ips m. \<not> v6 s} \<union> list_row 1 ` {s \<in> white_ips m. v6 s} \<union> list_row 2 ` trap_ips m"

lemma scan_select_rows:
  assumes "db_good db"
  shows "set (rows_of as db scan_select) = select_rows (\<lambda>s. CHR '':'' \<in> set s) (db_content db)" and "distinct (rows_of as db scan_select)"
proof -
  obtain traps doms ents where t: "tables db traps doms ents" "ents_ok traps doms ents" using assms by (auto simp: db_good_def)
  have d: "distinct (map fst ents)" using t(2) by (simp add: ents_ok_def)
  let ?v6 = "\<lambda>s. CHR '':'' \<in> set s"
  let ?ip = "\<lambda>e. gt_to (fst e) = [] \<and> gt_from (fst e) = []"
  have ip: "e \<in> set ents \<and> ?ip e \<longleftrightarrow> fst e = ip_tuple (gt_ip (fst e)) \<and> map_of ents (fst e) = Some (snd e)" for e
  proof -
    have mem: "e \<in> set ents \<longleftrightarrow> map_of ents (fst e) = Some (snd e)" by (simp add: map_of_eq_Some_iff [OF d])
    have "s3_key_ok (KEY_TUPLE (fst e)) \<or> fst e = ip_tuple (gt_ip (fst e))" if "e \<in> set ents"
      using t(2) that unfolding ents_ok_def by blast
    then show ?thesis unfolding mem using ip_tuple_simps s3_key_ok.simps(2) by metis
  qed
  have ips: "(\<lambda>e. gt_ip (fst e)) ` set (filter (\<lambda>e. ?ip e \<and> P (gt_ip (fst e)) (snd e)) ents) = {s. \<exists>d. map_of ents (ip_tuple s) = Some d \<and> P s d}" for P
  proof (intro set_eqI iffI)
    fix s assume "s \<in> (\<lambda>e. gt_ip (fst e)) ` set (filter (\<lambda>e. ?ip e \<and> P (gt_ip (fst e)) (snd e)) ents)"
    then obtain e where e: "s = gt_ip (fst e)" "e \<in> set ents" "?ip e" "P (gt_ip (fst e)) (snd e)" by auto
    then show "s \<in> {s. \<exists>d. map_of ents (ip_tuple s) = Some d \<and> P s d}" using ip [of e] by (metis (mono_tags, lifting) mem_Collect_eq)
  next
    fix s assume "s \<in> {s. \<exists>d. map_of ents (ip_tuple s) = Some d \<and> P s d}"
    then obtain d where d: "map_of ents (ip_tuple s) = Some d" "P s d" by blast
    then have "(ip_tuple s, d) \<in> set ents" by (blast dest: map_of_SomeD)
    then show "s \<in> (\<lambda>e. gt_ip (fst e)) ` set (filter (\<lambda>e. ?ip e \<and> P (gt_ip (fst e)) (snd e)) ents)"
      using d(2) by (intro image_eqI [of _ _ "(ip_tuple s, d)"]) simp_all
  qed
  have sel: "rows_of as db (Select [Col ''ip'', Lit SNull, Lit SNull] ''entries'' (And (And no_tuple (Not has_colon)) (Le (Lit (SInt 0)) (Col ''pcount'')))) =
      map (\<lambda>e. list_row 0 (gt_ip (fst e))) (filter (\<lambda>e. ?ip e \<and> \<not> ?v6 (gt_ip (fst e)) \<and> 0 \<le> gd_pcount (snd e)) ents)"
    "rows_of as db (Select [Lit SNull, Col ''ip'', Lit SNull] ''entries'' (And (And no_tuple has_colon) (Le (Lit (SInt 0)) (Col ''pcount'')))) =
      map (\<lambda>e. list_row 1 (gt_ip (fst e))) (filter (\<lambda>e. ?ip e \<and> ?v6 (gt_ip (fst e)) \<and> 0 \<le> gd_pcount (snd e)) ents)"
    "rows_of as db (Select [Lit SNull, Lit SNull, Col ''ip''] ''entries'' (And no_tuple (Not (Le (Lit (SInt 0)) (Col ''pcount''))))) =
      map (\<lambda>e. list_row 2 (gt_ip (fst e))) (filter (\<lambda>e. ?ip e \<and> gd_pcount (snd e) < 0) ents)"
    using t(1) by (simp_all add: tables_def filter_rows no_tuple_def has_colon_def like_colon list_row_def comp_def conj_assoc not_le)
  have img: "set (map (\<lambda>e. list_row n (gt_ip (fst e))) xs) = list_row n ` (\<lambda>e. gt_ip (fst e)) ` set xs" for n and xs :: "(Grey_tuple \<times> Grey_data) list"
    by (simp add: image_image)
  have sets: "{s. \<exists>d. map_of ents (ip_tuple s) = Some d \<and> \<not> ?v6 s \<and> 0 \<le> gd_pcount d} = {s \<in> white_ips (db_content db). \<not> ?v6 s}"
    "{s. \<exists>d. map_of ents (ip_tuple s) = Some d \<and> ?v6 s \<and> 0 \<le> gd_pcount d} = {s \<in> white_ips (db_content db). ?v6 s}"
    "{s. \<exists>d. map_of ents (ip_tuple s) = Some d \<and> gd_pcount d < 0} = trap_ips (db_content db)"
    by (auto simp: white_ips_def trap_ips_def db_content_tables [OF t(1)] grey_val_def)
  show "set (rows_of as db scan_select) = select_rows ?v6 (db_content db)"
    unfolding scan_select_def rows_of.simps(2) set_remdups set_append sel img select_rows_def
    using ips [of "\<lambda>s d. \<not> ?v6 s \<and> 0 \<le> gd_pcount d"] ips [of "\<lambda>s d. ?v6 s \<and> 0 \<le> gd_pcount d"] ips [of "\<lambda>s d. gd_pcount d < 0"]
    by (simp only: sets)
  show "distinct (rows_of as db scan_select)" by (simp add: scan_select_def)
qed

section \<open>The loop over the rows\<close>

definition row_white :: "sql_row \<Rightarrow> string list" where
  "row_white r = (if r ! 0 \<noteq> SNull then [text_of (r ! 0)] else if r ! 1 \<noteq> SNull then [text_of (r ! 1)] else [])"

definition row_trap :: "sql_row \<Rightarrow> string list" where
  "row_trap r = (if r ! 0 = SNull \<and> r ! 1 = SNull then [text_of (r ! 2)] else [])"

lemma list_row_simps [simp]:
  "length (list_row n s) = 3" "n < 3 \<Longrightarrow> i < 3 \<Longrightarrow> list_row n s ! i = (if i = n then SText s else SNull)"
  by (auto simp: list_row_def less_Suc_eq numeral_eq_Suc)

lemma scan_lists_refl: "scan_lists v6 ls [] [] ls"
  by (cases ls) (simp add: scan_lists_def)

lemma scan_lists_trans: "scan_lists v6 a A T b \<Longrightarrow> scan_lists v6 b A' T' c \<Longrightarrow> scan_lists v6 a (A @ A') (T @ T') c"
  by (cases a; cases b; cases c) (simp add: scan_lists_def)

lemma scan_row_lists:
  assumes "r = list_row 0 s \<and> \<not> v6 s \<or> r = list_row 1 s \<and> v6 s \<or> r = list_row 2 s" and "\<forall>i<3. col i = r ! i"
  shows "scan_lists v6 ls (row_white r) (row_trap r) (scan_row col ls)"
proof -
  have "col 0 = r ! 0" "col 1 = r ! 1" "col 2 = r ! 2" using assms(2) by simp_all
  then show ?thesis using assms(1)
    by (cases ls) (auto simp: scan_lists_def scan_row_def row_white_def row_trap_def column_text_def Let_def)
qed

lemma lists_of_rows:
  assumes "set rs = select_rows v6 m"
  shows "set (concat (map row_white rs)) = white_ips m" and "set (concat (map row_trap rs)) = trap_ips m"
proof -
  have r: "row_white (list_row 0 s) = [s]" "row_white (list_row 1 s) = [s]" "row_white (list_row 2 s) = []"
    "row_trap (list_row 0 s) = []" "row_trap (list_row 1 s) = []" "row_trap (list_row 2 s) = [s]" for s
    by (simp_all add: row_white_def row_trap_def)
  show "set (concat (map row_white rs)) = white_ips m" "set (concat (map row_trap rs)) = trap_ips m"
    unfolding set_concat set_map assms select_rows_def image_Un Union_Un_distrib image_image r by auto
qed

context sqlite_library
begin

lemma scan_rows_lists:
  assumes "\<forall>r\<in>set rs. \<exists>s. r = list_row 0 s \<and> \<not> v6 s \<or> r = list_row 1 s \<and> v6 s \<or> r = list_row 2 s"
    and "gives_rows L content backup rest e s rs"
  shows "\<exists>e' ls'. scan_rows L e s ls = Some (e', ls') \<and> content e' = content e \<and> backup e' = backup e \<and>
    scan_lists v6 ls (concat (map row_white rs)) (concat (map row_trap rs)) ls'"
  using assms
proof (induction rs arbitrary: e s ls)
  case Nil
  then obtain e' s' where "sl_step L e s = (SQLITE_DONE, e', s')" "content e' = content e" "backup e' = backup e"
    by (auto simp: gives_rows_def)
  then show ?case by (subst scan_rows.simps) (simp add: sqlite_codes scan_lists_refl)
next
  case (Cons r rs)
  obtain e1 s1 where s1: "sl_step L e s = (SQLITE_ROW, e1, s1)" "content e1 = content e" "backup e1 = backup e" "rest s1 = Some rs"
      "\<forall>i<length r. sl_column L s1 i = r ! i"
    using Cons.prems(2) by (auto simp: gives_rows_def)
  obtain t where t: "r = list_row 0 t \<and> \<not> v6 t \<or> r = list_row 1 t \<and> v6 t \<or> r = list_row 2 t" using Cons.prems(1) by auto
  then have "length r = 3" by auto
  then have one: "scan_lists v6 ls (row_white r) (row_trap r) (scan_row (sl_column L s1) ls)" using scan_row_lists [where r = r and s = t and ?v6.0 = v6, OF t] s1(5) by simp
  obtain e' ls' where "scan_rows L e1 s1 (scan_row (sl_column L s1) ls) = Some (e', ls')" "content e' = content e1" "backup e' = backup e1"
      "scan_lists v6 (scan_row (sl_column L s1) ls) (concat (map row_white rs)) (concat (map row_trap rs)) ls'"
    using Cons.IH [OF _ step_next [OF s1(4)], of e1 "scan_row (sl_column L s1) ls"] Cons.prems(1) by (metis list.set_intros(2))
  moreover have "scan_rows L e s ls = scan_rows L e1 s1 (scan_row (sl_column L s1) ls)"
    by (subst scan_rows.simps) (simp add: s1(1))
  moreover have "concat (map row_white (r # rs)) = row_white r @ concat (map row_white rs)"
    "concat (map row_trap (r # rs)) = row_trap r @ concat (map row_trap rs)" by simp_all
  ultimately show ?case using s1(2,3) scan_lists_trans [OF one] by metis
qed

lemma scan_runs:
  assumes "ready h"
  shows "\<exists>h' W' W6' T' A Tr. s3_scan_db L h now W W6 T wexp = Some (GREYDB_OK, h', W', W6', T') \<and> ready h' \<and> saved h' = saved h \<and>
    updated now (now + wexp) (without_expired now (view h)) (view h') \<and>
    set A = white_ips (view h') \<and> set Tr = trap_ips (view h') \<and> scan_lists (\<lambda>s. CHR '':'' \<in> set s) (W, W6, T) A Tr (W', W6', T')"
proof -
  let ?v6 = "\<lambda>s. CHR '':'' \<in> set s"
  obtain s1 e1 s1' db1 where 1: "prepare_bind L (s3_env h) scan_delete [SInt now] = Some s1" "sl_step L (s3_env h) s1 = (SQLITE_DONE, e1, s1')"
      "same_rows (content (s3_env h)) db1" "content e1 = exec (bound [SInt now]) db1 scan_delete" "backup e1 = backup (s3_env h)"
    using run_write [of scan_delete "s3_env h" "[SInt now]"] by (auto simp: writes_rows_def scan_delete_def)
  have g: "db_good (content (s3_env h))" using assms(1) by (simp add: s3_defs)
  have g1: "db_good (content e1)" "db_content (content e1) = without_expired now (view h)"
    using same_rows_good [OF g 1(3)] delete_good [of db1 now] by (simp_all add: 1(4) s3_view_def)
  obtain s2 e2 s2' db2 where 2: "prepare_bind L e1 scan_update [SInt (now + wexp), SInt now] = Some s2" "sl_step L e1 s2 = (SQLITE_DONE, e2, s2')"
      "same_rows (content e1) db2" "content e2 = exec (bound [SInt (now + wexp), SInt now]) db2 scan_update" "backup e2 = backup e1"
    using run_write [of scan_update e1 "[SInt (now + wexp), SInt now]"] by (auto simp: writes_rows_def scan_update_def)
  have g2: "db_good (content e2)" "updated now (now + wexp) (without_expired now (view h)) (db_content (content e2))"
    using same_rows_good [OF g1(1) 2(3)] update_good(1) [of db2] update_updated [of db2 now "now + wexp"] by (simp_all add: 2(4) g1(2))
  obtain s3 rs db3 where 3: "prepare_bind L e2 (Query scan_select) [] = Some s3" "same_rows (content e2) db3"
      "mset rs = mset (rows_of (bound []) db3 scan_select)" "gives_rows L content backup rest e2 s3 rs"
    using run_query [of e2 scan_select "[]"] by blast
  have rows: "set rs = select_rows ?v6 (db_content (content e2))"
    using scan_select_rows(1) [of db3 "bound []"] same_rows_good [OF g2(1) 3(2)] mset_eq_setD [OF 3(3)] by simp
  have kinds: "\<forall>r\<in>set rs. \<exists>s. r = list_row 0 s \<and> \<not> ?v6 s \<or> r = list_row 1 s \<and> ?v6 s \<or> r = list_row 2 s"
    unfolding rows select_rows_def by blast
  obtain e3 W' W6' T' where 4: "scan_rows L e2 s3 (W, W6, T) = Some (e3, W', W6', T')" "content e3 = content e2" "backup e3 = backup e2"
      "scan_lists ?v6 (W, W6, T) (concat (map row_white rs)) (concat (map row_trap rs)) (W', W6', T')"
    using scan_rows_lists [OF kinds 3(4)] by (metis prod_cases3)
  let ?h = "h\<lparr>s3_env := e3\<rparr>"
  have "s3_scan_db L h now W W6 T wexp = Some (GREYDB_OK, ?h, W', W6', T')"
    by (simp add: s3_scan_db_def scan_step_def 1(1,2) 2(1,2) 3(1) 4(1))
  moreover have "ready ?h" "saved ?h = saved h"
    using assms(1) g2(1) 1(5) 2(5) 4(2,3) by (simp_all add: s3_defs)
  moreover have "updated now (now + wexp) (without_expired now (view h)) (view ?h)"
    "set (concat (map row_white rs)) = white_ips (view ?h)" "set (concat (map row_trap rs)) = trap_ips (view ?h)"
    using g2(2) lists_of_rows [OF rows] by (simp_all add: s3_view_def 4(2))
  ultimately show ?thesis using 4(4) by blast
qed

lemma scan_works:
  assumes "ready h" and w: "0 < wexp" and sc: "s3_scannable now (view h)"
  shows "\<exists>h' W' W6' T' A Tr. s3_scan_db L h now W W6 T wexp = Some (GREYDB_OK, h', W', W6', T') \<and> ready h' \<and> saved h' = saved h \<and>
    scan_lists (\<lambda>s. CHR '':'' \<in> set s) (W, W6, T) A Tr (W', W6', T') \<and> scan_spec now wexp (view h) (view h') (set A) (set Tr)"
proof -
  have grey: "\<forall>k v. view h k = Some v \<longrightarrow> val_type v = DB_VAL_GREY"
    using assms(1) db_good_view [of "content (s3_env h)"] by (auto simp: s3_defs)
  then show ?thesis using scan_runs [OF assms(1), of now W W6 T wexp] scan_meets_spec [OF sc grey w] by metis
qed

text \<open>The driver meets the contract.\<close>

lemma drv_live:
  "greydb_live (sqlite_driver L) (s3_inv content backup) (s3_ready content backup) (s3_view content) (s3_saved backup)
    (\<lambda>s. CHR '':'' \<in> set s) s3_key_ok s3_scannable"
proof
  note D = DB_dispatch sqlite_driver_def DB_handle_T.simps
  fix h h' :: "'e s3_handle" and k :: DB_key and v :: DB_val and vo :: "DB_val option" and r f now wexp :: int
    and m :: db_view and gt :: Grey_tuple and s :: string and W W6 T W' W6' T' :: "string List_T"
  show "ready h \<Longrightarrow> s3_inv content backup h" by (simp add: s3_ready_def)
  show "s3_key_ok k \<Longrightarrow> key_ok k" by (cases k) simp_all
  show "s3_key_ok (KEY_TUPLE gt) \<Longrightarrow> s3_key_ok (KEY_IP (gt_ip gt)) \<and> s3_key_ok (KEY_MAIL (gt_to gt))" by simp
  show "ready h \<Longrightarrow> view h k = Some v \<Longrightarrow> s3_key_ok k \<and> val_type v = DB_VAL_GREY"
    using db_good_view [of "content (s3_env h)" k v] by (simp add: s3_defs)
  show "s3_scannable now m \<Longrightarrow> - 1 \<le> gd_pcount (val_gd v) \<Longrightarrow> m (KEY_IP (gt_ip gt)) = None \<Longrightarrow> s3_scannable now (m(KEY_TUPLE gt \<mapsto> v))"
    by (rule s3_scannable_tuple)
  show "DB_open (sqlite_driver L) h f = Some h' \<Longrightarrow> s3_inv content backup h \<Longrightarrow> ready h' \<and> view h' = view h \<and> saved h' = saved h"
    and "s3_inv content backup h \<Longrightarrow> DB_open (sqlite_driver L) h f \<noteq> None"
    using open_works_driver [of h f] unfolding D by auto
  show "DB_start_txn (sqlite_driver L) h = Some (r, h') \<Longrightarrow> ready h \<Longrightarrow> saved h = None \<Longrightarrow> ready h' \<and> view h' = view h \<and> saved h' = Some (view h)"
    and "ready h \<Longrightarrow> saved h = None \<Longrightarrow> DB_start_txn (sqlite_driver L) h \<noteq> None"
    using txn_works(1) [of h] unfolding D by auto
  show "DB_commit_txn (sqlite_driver L) h = Some (r, h') \<Longrightarrow> ready h \<Longrightarrow> saved h = Some m \<Longrightarrow> ready h' \<and> view h' = view h \<and> saved h' = None"
    and "ready h \<Longrightarrow> saved h = Some m \<Longrightarrow> DB_commit_txn (sqlite_driver L) h \<noteq> None"
    using txn_works(2) [of h m] unfolding D by auto
  show "DB_rollback_txn (sqlite_driver L) h = Some (r, h') \<Longrightarrow> ready h \<Longrightarrow>
      ready h' \<and> view h' = (case saved h of None \<Rightarrow> view h | Some m \<Rightarrow> m) \<and> saved h' = None"
    using txn_works(3) [of h] unfolding D by auto
  show "DB_get (sqlite_driver L) h k = Some (r, vo) \<Longrightarrow> ready h \<Longrightarrow> s3_key_ok k \<Longrightarrow>
      r = GREYDB_FOUND \<and> vo = view h k \<and> vo \<noteq> None \<or> r = GREYDB_NOT_FOUND \<and> view h k = None \<or> r = GREYDB_ERR"
    using get_works [of h k] unfolding D by (auto split: option.splits)
  show "DB_get (sqlite_driver L) h (KEY_DOM_PART s) = Some (r, vo) \<Longrightarrow> ready h \<Longrightarrow>
      r = GREYDB_FOUND \<and> (\<exists>d. view h (KEY_DOM d) \<noteq> None \<and> dom_matches s d) \<or>
      r = GREYDB_NOT_FOUND \<and> (\<forall>d. view h (KEY_DOM d) \<noteq> None \<longrightarrow> \<not> dom_matches s d) \<or> r = GREYDB_ERR"
  proof -
    let ?P = "\<exists>d. view h (KEY_DOM d) \<noteq> None \<and> dom_matches s d"
    assume "DB_get (sqlite_driver L) h (KEY_DOM_PART s) = Some (r, vo)" and "ready h"
    then have "r = (if ?P then GREYDB_FOUND else GREYDB_NOT_FOUND)" using part_works [of h s] unfolding D by force
    then have "?P \<and> r = GREYDB_FOUND \<or> \<not> ?P \<and> r = GREYDB_NOT_FOUND" by presburger
    then show ?thesis by blast
  qed
  show "ready h \<Longrightarrow> s3_key_ok k \<or> k = KEY_DOM_PART s \<Longrightarrow> \<exists>r vo. DB_get (sqlite_driver L) h k = Some (r, vo) \<and> r \<noteq> GREYDB_ERR"
    using get_works [of h k] part_works [of h s] unfolding D by (auto simp: greydb_codes split: option.splits)
  show "DB_put (sqlite_driver L) h k v = Some (r, h') \<Longrightarrow> ready h \<Longrightarrow> s3_key_ok k \<Longrightarrow> entry_key k \<Longrightarrow> val_type v = DB_VAL_GREY \<Longrightarrow>
      ready h' \<and> saved h' = saved h \<and> (r = GREYDB_OK \<and> view h' = (view h)(k \<mapsto> v) \<or> r = GREYDB_ERR \<and> view h' = view h)"
    and "ready h \<Longrightarrow> s3_key_ok k \<Longrightarrow> entry_key k \<Longrightarrow> val_type v = DB_VAL_GREY \<Longrightarrow> \<exists>h'. DB_put (sqlite_driver L) h k v = Some (GREYDB_OK, h')"
    using put_works [of h k v] unfolding D by auto
  show "DB_del (sqlite_driver L) h k = Some (r, h') \<Longrightarrow> ready h \<Longrightarrow> s3_key_ok k \<Longrightarrow>
      ready h' \<and> saved h' = saved h \<and> (r = GREYDB_OK \<and> view h' = (view h)(k := None) \<or>
       r = GREYDB_NOT_FOUND \<and> view h k = None \<and> view h' = view h \<or> r = GREYDB_ERR \<and> view h' = view h)"
    and "ready h \<Longrightarrow> s3_key_ok k \<Longrightarrow> \<exists>r h'. DB_del (sqlite_driver L) h k = Some (r, h') \<and> r \<noteq> GREYDB_ERR"
    using del_works [of h k] unfolding D by (auto simp: greydb_codes)
  show "DB_scan (sqlite_driver L) h now W W6 T wexp = Some (r, h', W', W6', T') \<Longrightarrow> ready h \<Longrightarrow> 0 < wexp \<Longrightarrow> s3_scannable now (view h) \<Longrightarrow>
      ready h' \<and> saved h' = saved h \<and> (r = GREYDB_OK \<longrightarrow> (\<exists>A Tr. scan_lists (\<lambda>s. CHR '':'' \<in> set s) (W, W6, T) A Tr (W', W6', T') \<and>
         scan_spec now wexp (view h) (view h') (set A) (set Tr)))"
    and "ready h \<Longrightarrow> 0 < wexp \<Longrightarrow> s3_scannable now (view h) \<Longrightarrow>
      \<exists>h' W' W6' T'. DB_scan (sqlite_driver L) h now W W6 T wexp = Some (GREYDB_OK, h', W', W6', T')"
    using scan_works [of h wexp now W W6 T] unfolding D by fastforce+
qed

end

sublocale sqlite_library \<subseteq> s3: greydb_live "sqlite_driver L" "s3_inv content backup" "s3_ready content backup" "s3_view content"
  "s3_saved backup" "\<lambda>s. CHR '':'' \<in> set s" s3_key_ok s3_scannable
  by (rule drv_live)

end
