(* ===== verification/Sqlite_Greylisting.thy ===== *)
theory Sqlite_Greylisting
  imports Sqlite_Scan
begin

text \<open>
  What holds of the database and of greylisting on SQLite: the properties of \<open>src/drivers/sqlite.c\<close>, on every
  engine that keeps the laws of \<open>sqlite_library\<close>, and an engine in memory that keeps them, for the instances.
\<close>

section \<open>An engine in memory\<close>

text \<open>Another process keeps it busy at every first attempt to begin a transaction.\<close>

record smem_env =
  sm_db :: sql_db
  sm_busy :: bool
  sm_backup :: "sql_db option"

record smem_stmt =
  ss_text :: sql_stmt
  ss_args :: "nat \<Rightarrow> sql_value"
  ss_rest :: "sql_row list option"
  ss_row :: sql_row

fun smem_exec1 :: "smem_env \<Rightarrow> sql_stmt \<Rightarrow> int \<times> smem_env" where
  "smem_exec1 e Begin =
     (if sm_busy e then (SQLITE_BUSY, e\<lparr>sm_busy := False\<rparr>)
      else if sm_backup e = None then (SQLITE_OK, e\<lparr>sm_backup := Some (sm_db e), sm_busy := True\<rparr>) else (1, e))"
| "smem_exec1 e Commit = (if sm_backup e = None then (1, e) else (SQLITE_OK, e\<lparr>sm_backup := None\<rparr>))"
| "smem_exec1 e Rollback = (case sm_backup e of None \<Rightarrow> (1, e) | Some db \<Rightarrow> (SQLITE_OK, e\<lparr>sm_db := db, sm_backup := None\<rparr>))"
| "smem_exec1 e stmt = (SQLITE_OK, e\<lparr>sm_db := exec (\<lambda>n. SNull) (sm_db e) stmt\<rparr>)"

fun smem_exec :: "smem_env \<Rightarrow> sql_stmt list \<Rightarrow> int \<times> smem_env" where
  "smem_exec e [] = (SQLITE_OK, e)"
| "smem_exec e (stmt # stmts) = (let (ret, e') = smem_exec1 e stmt in if ret \<noteq> SQLITE_OK then (ret, e') else smem_exec e' stmts)"

fun smem_rows :: "smem_env \<Rightarrow> smem_stmt \<Rightarrow> sql_row list \<Rightarrow> int \<times> smem_env \<times> smem_stmt" where
  "smem_rows e s [] = (SQLITE_DONE, e, s\<lparr>ss_rest := Some []\<rparr>)"
| "smem_rows e s (r # rs) = (SQLITE_ROW, e, s\<lparr>ss_rest := Some rs, ss_row := r\<rparr>)"

definition smem_step :: "smem_env \<Rightarrow> smem_stmt \<Rightarrow> int \<times> smem_env \<times> smem_stmt" where
  "smem_step e s =
     (case ss_rest s of
        Some rs \<Rightarrow> smem_rows e s rs
      | None \<Rightarrow>
          (case ss_text s of
             Query q \<Rightarrow> smem_rows e s (rows_of (ss_args s) (sm_db e) q)
           | stmt \<Rightarrow> (SQLITE_DONE, e\<lparr>sm_db := exec (ss_args s) (sm_db e) stmt\<rparr>, s\<lparr>ss_rest := Some []\<rparr>)))"

definition smem_lib :: "(smem_env, smem_stmt) sqlite_lib" where
  "smem_lib =
     \<lparr>sl_open = \<lambda>e. (SQLITE_OK, e), sl_exec = smem_exec,
      sl_prepare = \<lambda>e sql. (SQLITE_OK, \<lparr>ss_text = sql, ss_args = \<lambda>n. SNull, ss_rest = None, ss_row = []\<rparr>),
      sl_bind = \<lambda>s n v. (SQLITE_OK, s\<lparr>ss_args := (ss_args s)(n := v)\<rparr>), sl_step = smem_step,
      sl_column = \<lambda>s i. if i < length (ss_row s) then ss_row s ! i else SNull\<rparr>"

lemma smem_gives: "smem_step e s = smem_rows e s rs \<Longrightarrow> gives_rows smem_lib sm_db sm_backup ss_rest e s rs"
  by (cases rs) (auto simp: gives_rows_def smem_lib_def)

interpretation smem: sqlite_library smem_lib sm_db sm_backup ss_text ss_args ss_rest
proof
  fix e :: smem_env and s :: smem_stmt and q rs stmt v n
  show "\<exists>e'. sl_exec smem_lib e s3_schema = (SQLITE_OK, e') \<and> sm_backup e' = sm_backup e \<and>
      sm_db e' = fold (\<lambda>stmt db. exec (\<lambda>n. SNull) db stmt) s3_schema (sm_db e)"
    by (simp add: smem_lib_def s3_schema_def del: exec.simps)
  show "ss_rest s = None \<Longrightarrow> writes_rows (ss_text s) \<Longrightarrow> \<exists>e' s' db. sl_step smem_lib e s = (SQLITE_DONE, e', s') \<and> same_rows (sm_db e) db \<and>
      sm_db e' = exec (ss_args s) db (ss_text s) \<and> sm_backup e' = sm_backup e"
    by (auto simp: smem_lib_def smem_step_def writes_rows_def split: sql_stmt.splits intro!: exI [of _ "sm_db e"])
  show "ss_rest s = None \<Longrightarrow> ss_text s = Query q \<Longrightarrow> \<exists>rs db. same_rows (sm_db e) db \<and> mset rs = mset (rows_of (ss_args s) db q) \<and>
      gives_rows smem_lib sm_db sm_backup ss_rest e s rs"
    by (intro exI [of _ "rows_of (ss_args s) (sm_db e) q"] exI [of _ "sm_db e"]) (simp add: smem_gives smem_step_def)
  show "ss_rest s = Some rs \<Longrightarrow> gives_rows smem_lib sm_db sm_backup ss_rest e s rs"
    by (simp add: smem_gives smem_step_def)
  show "sm_backup e = None \<Longrightarrow> \<exists>n e'. n \<le> MAX_RETRY \<and> after_busy smem_lib sm_db sm_backup Begin n e e' \<and> sm_db e' = sm_db e \<and> sm_backup e' = Some (sm_db e)"
    by (intro exI [of _ "if sm_busy e then 1 else 0"] exI [of _ "e\<lparr>sm_busy := True, sm_backup := Some (sm_db e)\<rparr>"])
      (simp add: smem_lib_def MAX_RETRY_def sqlite_codes)
  show "sm_backup e \<noteq> None \<Longrightarrow> \<exists>n e'. n \<le> MAX_RETRY \<and> after_busy smem_lib sm_db sm_backup Commit n e e' \<and> sm_db e' = sm_db e \<and> sm_backup e' = None"
    by (intro exI [of _ 0] exI [of _ "e\<lparr>sm_backup := None\<rparr>"]) (simp add: smem_lib_def)
qed (auto simp: smem_lib_def)

text \<open>An empty database, and a greylister with the default configuration on it.\<close>

definition smem_handle :: "smem_env s3_handle" where
  "smem_handle = \<lparr>s3_env = \<lparr>sm_db = Map.empty, sm_busy = True, sm_backup = None\<rparr>, s3_open = False, s3_txn = 0\<rparr>"

lemma smem_handle_empty:
  "s3_inv sm_db sm_backup smem_handle" "s3_saved sm_backup smem_handle = None" "s3_view sm_db smem_handle = (\<lambda>k. None)"
proof -
  have "tables (padded Map.empty) [] [] []" by (simp add: tables_def padded_def s3_schema_def entry_cols_def)
  then have t: "db_good (padded Map.empty)" unfolding db_good_def by (intro exI conjI) (assumption, simp add: ents_ok_def)
  show "s3_inv sm_db sm_backup smem_handle" "s3_saved sm_backup smem_handle = None" using t by (simp_all add: s3_defs smem_handle_def)
  have "ents_view [] [] [] k = None" for k by (cases k) simp_all
  then show "s3_view sm_db smem_handle = (\<lambda>k. None)" by (simp add: s3_view_def smem_handle_def db_content_def table_rows_def fun_eq_iff)
qed

definition smem_greylister :: "smem_env s3_handle Greylister_T" where
  "smem_greylister =
     \<lparr>gl_config = Config_create, gl_shutdown = False, gl_low_prio_mx = None, gl_traplist_name = GREY_TRAP_NAME,
      gl_traplist_msg = GREY_TRAP_MSG, gl_whitelist_name = GREY_WHITE_NAME, gl_whitelist_name_ipv6 = GREY_WHITE_NAME_IPV6,
      gl_whitelist = List_create, gl_whitelist_ipv6 = List_create, gl_traplist = List_create, gl_domains = List_create,
      gl_trap_out = Some [], gl_fw_out = Some [], gl_startup = 0, gl_grey_exp = GREY_GREYEXP, gl_trap_exp = GREY_TRAPEXP,
      gl_white_exp = GREY_WHITEEXP, gl_pass_time = GREY_PASSTIME, gl_db = smem_handle, gl_syncer = None, gl_spf_server = False\<rparr>"

lemma smem_greylister_ready:
  "s3_inv sm_db sm_backup (gl_db smem_greylister)" "s3_saved sm_backup (gl_db smem_greylister) = None"
  "s3_view sm_db (gl_db smem_greylister) = (\<lambda>k. None)" "scanner_idle smem_greylister"
  "first_contact smem_greylister (\<lambda>k. None) example_tuple dst_ip"
  using smem_handle_empty example_tuple_ok
  by (simp_all add: smem_greylister_def scanner_idle_def GREY_WHITEEXP_def first_contact_def trap_addr_def List_create_def List_wf_def)

section \<open>A busy engine\<close>

text \<open>While the engine stays busy a transaction neither starts nor fails: the 21st attempt prints a message that has been freed.\<close>

lemma busy_retry:
  assumes "\<And>e. fst (sl_exec L e [stmt]) = SQLITE_BUSY"
  shows "exec_retry L stmt e n = None"
proof (induction "MAX_RETRY - n" arbitrary: e n rule: less_induct)
  case less
  obtain e' where e': "sl_exec L e [stmt] = (SQLITE_BUSY, e')" using assms [of e] by (metis prod.collapse)
  show ?case
  proof (cases "n < MAX_RETRY")
    case True
    then have "exec_retry L stmt e' (n + 1) = None" by (intro less) simp
    then show ?thesis using e' True by (subst exec_retry.simps) (simp add: sqlite_codes)
  next
    case False
    then show ?thesis using e' by (subst exec_retry.simps) (simp add: sqlite_codes)
  qed
qed

lemma start_txn_busy_undefined:
  assumes "\<And>e. fst (sl_exec L e [Begin]) = SQLITE_BUSY" and "s3_txn h = 0"
  shows "s3_db_start_txn L h = None"
  using busy_retry [OF assms(1)] assms(2) by (simp add: s3_db_start_txn_def)

section \<open>Listing\<close>

text \<open>The strings of a key fit into the buffers of an iterator.\<close>

fun key_fits :: "DB_key \<Rightarrow> bool" where
  "key_fits (KEY_IP s) \<longleftrightarrow> length s \<le> INET6_ADDRSTRLEN"
| "key_fits (KEY_MAIL s) \<longleftrightarrow> length s \<le> GREY_MAX_MAIL"
| "key_fits (KEY_DOM s) \<longleftrightarrow> length s \<le> GREY_MAX_MAIL"
| "key_fits (KEY_TUPLE gt) \<longleftrightarrow> length (gt_ip gt) \<le> INET6_ADDRSTRLEN \<and> length (gt_helo gt) \<le> GREY_MAX_MAIL \<and>
     length (gt_from gt) \<le> GREY_MAX_MAIL \<and> length (gt_to gt) \<le> GREY_MAX_MAIL"
| "key_fits _ \<longleftrightarrow> True"

definition itr_row :: "sql_row \<Rightarrow> DB_key option \<times> DB_val" where
  "itr_row r = (s3_populate_key (\<lambda>i. r ! i) 0, s3_populate_val (\<lambda>i. r ! i) 4)"

definition marker_row :: "int \<Rightarrow> string \<Rightarrow> sql_row" where
  "marker_row n s = map SText [s, [], [], []] @ map SInt [0, 0, 0, 0, n]"

lemma itr_row_decoded:
  "key_fits (KEY_MAIL s) \<Longrightarrow> itr_row (marker_row (- 2) s) = (Some (KEY_MAIL s), marker (- 2))"
  "key_fits (KEY_DOM s) \<Longrightarrow> itr_row (marker_row (- 3) s) = (Some (KEY_DOM s), marker (- 3))"
  "t = ip_tuple s \<Longrightarrow> key_fits (KEY_IP s) \<Longrightarrow> - 1 \<le> gd_pcount d \<Longrightarrow> itr_row (entry_row (t, d)) = (Some (KEY_IP s), grey_val d)"
  "gt_from t \<noteq> [] \<Longrightarrow> key_fits (KEY_TUPLE t) \<Longrightarrow> itr_row (entry_row (t, d)) = (Some (KEY_TUPLE t), grey_val d)"
  by (simp_all add: itr_row_def marker_row_def entry_row_def s3_populate_key_def s3_populate_val_def column_text_def copied_def
      marker_def grey_val_def)

lemma itr_rows:
  assumes "tables db traps doms ents"
  shows "set (rows_of as db (itr_query 7)) = entry_row ` set ents \<union> marker_row (- 2) ` set traps \<union> marker_row (- 3) ` set doms"
proof -
  have all: "(7 :: int) AND DB_ENTRIES = 1" "(7 :: int) AND DB_SPAMTRAPS = 2" "(7 :: int) AND DB_DOMAINS = 4"
    by (simp_all add: DB_ENTRIES_def DB_SPAMTRAPS_def DB_DOMAINS_def)
  have "map (\<lambda>f. f entry_cols (entry_row e)) (map (eval as db) (map Col entry_cols)) = entry_row e" for e
    by (simp add: entry_cols_def cell_def entry_row_def)
  then show ?thesis using assms unfolding itr_query_def all
    by (simp add: tables_def marker_cols_def marker_row_def name_row_def cell_def image_image comp_def)
qed

section \<open>Properties\<close>

text \<open>
  C11. The SQLite driver keeps the contract of the database interface: on every engine that keeps the laws of
  \<open>sqlite_library\<close>, in whatever order it visits rows and even when another process keeps it busy at the beginning or the end of a
  transaction for up to 20 attempts each time, its put, get, delete, scan and transactions act on one finite map from keys
  to entries like those of the specification, and none of them fails or ends the process. The laws are of an engine
  whose calls succeed otherwise; what an engine does that stays busy longer is \<open>start_txn_busy_undefined\<close>. The keys are those the driver can tell
  apart; the scan is the specified one on the entries for which \<open>s3_scannable\<close> holds (what it does on any entries
  is \<open>sqlite_scan_exact\<close>).
\<close>

theorem sqlite_driver_refines:
  assumes "sqlite_library L content backup stmt_text args rest"
  shows "greydb_live (sqlite_driver L) (s3_inv content backup) (s3_ready content backup) (s3_view content) (s3_saved backup)
    (\<lambda>s. CHR '':'' \<in> set s) s3_key_ok s3_scannable"
  using sqlite_library.drv_live [OF assms] .

text \<open>C11 on the engine in memory.\<close>

theorem sqlite_driver_refines_witness:
  "greydb_live (sqlite_driver smem_lib) (s3_inv sm_db sm_backup) (s3_ready sm_db sm_backup) (s3_view sm_db) (s3_saved sm_backup)
    (\<lambda>s. CHR '':'' \<in> set s) s3_key_ok s3_scannable"
  using sqlite_driver_refines [OF smem.sqlite_library_axioms] .

text \<open>
  C12. On SQLite too a sender that retries is let through: when the tuple of a first attempt from an IPv4 address, with a sender and a
  recipient, comes again after the pass time, the next scan before the entry expires replaces the tuple by a white entry
  for the address, valid for the white expiry time, and tells the firewall to whitelist the address. Nothing is
  assumed of the entries of other addresses. The engine is one that keeps the laws of \<open>sqlite_library\<close>.
\<close>

theorem sqlite_retry_whitelisted:
  assumes "sqlite_library L content backup stmt_text args rest"
    and "s3_inv content backup (gl_db g)" and "s3_saved backup (gl_db g) = None"
    and "first_contact g (s3_view content (gl_db g)) gt dst_ip" and "scanner_idle g"
    and "t0 + gl_pass_time g < t1" and "t1 \<le> t2" and "t2 < t0 + gl_grey_exp g" and "CHR '':'' \<notin> set (gt_ip gt)"
    and "gt_from gt \<noteq> []" and "gt_to gt \<noteq> []"
  shows "\<exists>g1 g2 g3 ips v. process_grey (sqlite_driver L) None g gt sync dst_ip t0 = Some g1 \<and>
    process_grey (sqlite_driver L) None g1 gt sync dst_ip t1 = Some g2 \<and>
    Grey_scan_db (sqlite_driver L) check g2 t2 = Some (0, g3) \<and> fw_told g g3 ips \<and> gt_ip gt \<in> set ips \<and>
    s3_view content (gl_db g3) (KEY_IP (gt_ip gt)) = Some v \<and> gd_expire (val_gd v) = t2 + gl_white_exp g \<and>
    gd_pcount (val_gd v) \<ge> 0 \<and> s3_view content (gl_db g3) (KEY_TUPLE gt) = None"
proof -
  note live = sqlite_library.drv_live [OF assms(1)]
  let ?m = "s3_view content (gl_db g)" and ?v6 = "\<lambda>s. CHR '':'' \<in> set s"
  let ?gd = "(grey_gd g t0)\<lparr>gd_bcount := wrap_int (gd_bcount (grey_gd g t0) + 1), gd_pcount := 0, gd_pass := t1\<rparr>"
  have "s3_key_ok (KEY_TUPLE gt)" using first_contact_ok [OF assms(4)] assms(10,11) by simp
  from greydb_live.retried [OF live assms(2-4,6) this, of sync] obtain g1 g2 where
    1: "process_grey (sqlite_driver L) None g gt sync dst_ip t0 = Some g1" and
    2: "process_grey (sqlite_driver L) None g1 gt sync dst_ip t1 = Some g2" "s3_ready content backup (gl_db g2)"
      "s3_saved backup (gl_db g2) = None" "same_setup g2 g" "s3_view content (gl_db g2) = ?m(KEY_TUPLE gt \<mapsto> grey_val ?gd)" by blast
  let ?m2 = "s3_view content (gl_db g2)"
  have idle: "scanner_idle g2" using assms(5) scanner_idle_same [OF 2(4)] by simp
  have inv: "s3_inv content backup (gl_db g2)" using 2(2) by (simp add: s3_ready_def)
  have white: "gl_white_exp g2 = gl_white_exp g" by (rule same_setup_fields(5) [OF 2(4)])
  define P where "P = (\<lambda>m A (Tr :: string list). updated t2 (t2 + gl_white_exp g) (without_expired t2 ?m2) m \<and> set A = white_ips m)"
  have "\<exists>g3 A Tr. Grey_scan_db (sqlite_driver L) check g2 t2 = Some (0, g3) \<and> s3_ready content backup (gl_db g3) \<and> s3_saved backup (gl_db g3) = None \<and>
      P (s3_view content (gl_db g3)) A Tr \<and> fw_told g2 g3 (filter (\<lambda>s. \<not> ?v6 s) A)"
  proof (rule greydb_live.scan_total_with [OF live inv 2(3) idle])
    fix h assume h: "s3_ready content backup h" "s3_view content h = ?m2"
    from sqlite_library.scan_runs [OF assms(1) h(1), of t2 "gl_whitelist g2" "gl_whitelist_ipv6 g2" "gl_traplist g2" "gl_white_exp g2"]
    show "\<exists>h1 W W6 T A Tr. DB_scan (sqlite_driver L) h t2 (gl_whitelist g2) (gl_whitelist_ipv6 g2) (gl_traplist g2) (gl_white_exp g2) = Some (GREYDB_OK, h1, W, W6, T) \<and>
        s3_ready content backup h1 \<and> s3_saved backup h1 = s3_saved backup h \<and>
        scan_lists ?v6 (gl_whitelist g2, gl_whitelist_ipv6 g2, gl_traplist g2) A Tr (W, W6, T) \<and> P (s3_view content h1) A Tr"
      unfolding P_def white h(2) by (fastforce simp: DB_dispatch sqlite_driver_def)
  qed
  then obtain g3 A where 3: "Grey_scan_db (sqlite_driver L) check g2 t2 = Some (0, g3)" "fw_told g2 g3 (filter (\<lambda>s. \<not> ?v6 s) A)"
    and up: "updated t2 (t2 + gl_white_exp g) (without_expired t2 ?m2) (s3_view content (gl_db g3))" "set A = white_ips (s3_view content (gl_db g3))"
    unfolding P_def by blast
  have "?m2 (KEY_TUPLE gt) = Some (grey_val ?gd)" "?m2 (KEY_IP (gt_ip gt)) = None"
    using 2(5) assms(4) by (auto simp: first_contact_def)
  then have due: "tuple_due t2 (without_expired t2 ?m2) gt (grey_val ?gd)"
    using assms(7,8) by (simp add: tuple_due_def without_expired_def grey_val_def grey_gd_def)
  then obtain t v where v: "tuple_due t2 (without_expired t2 ?m2) t v" "s3_view content (gl_db g3) (KEY_IP (gt_ip gt)) =
      Some (v\<lparr>val_gd := (val_gd v)\<lparr>gd_expire := t2 + gl_white_exp g\<rparr>\<rparr>)"
    using up(1) unfolding updated_def by metis
  have "s3_view content (gl_db g3) (KEY_TUPLE gt) = None" using up(1) due unfolding updated_def by metis
  moreover have "gt_ip gt \<in> set A" using v unfolding up(2) white_ips_def by (auto simp: tuple_due_def)
  moreover have "fw_told g g3 (filter (\<lambda>s. \<not> ?v6 s) A)" using 3(2) fw_told_same [OF 2(4)] by blast
  ultimately show ?thesis
    using 1 2(1) 3(1) v assms(9)
    by (intro exI [of _ g1] exI [of _ g2] exI [of _ g3] exI [of _ "filter (\<lambda>s. \<not> ?v6 s) A"]
        exI [of _ "v\<lparr>val_gd := (val_gd v)\<lparr>gd_expire := t2 + gl_white_exp g\<rparr>\<rparr>"]) (auto simp: tuple_due_def)
qed

text \<open>
  C12 for one tuple with the default times, on an empty database of the engine in memory, which is busy at the first
  attempt to begin each transaction.
\<close>

theorem sqlite_retry_whitelisted_witness:
  "\<exists>g1 g2 g3 ips. process_grey (sqlite_driver smem_lib) None smem_greylister example_tuple True [] 1000 = Some g1 \<and>
     process_grey (sqlite_driver smem_lib) None g1 example_tuple True [] 3000 = Some g2 \<and>
     Grey_scan_db (sqlite_driver smem_lib) (\<lambda>s. 2) g2 3060 = Some (0, g3) \<and>
     fw_told smem_greylister g3 ips \<and> gt_ip example_tuple \<in> set ips"
proof -
  have "first_contact smem_greylister (s3_view sm_db (gl_db smem_greylister)) example_tuple []"
    using smem_greylister_ready by simp
  from sqlite_retry_whitelisted [OF smem.sqlite_library_axioms smem_greylister_ready(1,2) this smem_greylister_ready(4),
      of 1000 3000 3060 True "\<lambda>s. 2"]
  show ?thesis by (auto simp: smem_greylister_def GREY_PASSTIME_def GREY_GREYEXP_def example_tuple_def)
qed

text \<open>
  C13. The scan of the SQLite driver ends and does exactly this, on any entries: expired entries go; then every tuple that
  is past its pass time, is no trap and whose address has no entry left becomes the entry of its address with the new
  expiry time (one of them where there are several), while a tuple whose address still has an entry stays; the lists get
  each address with an entry, trapped or white by the sign of its count, the white ones by the colon in their text.
\<close>

theorem sqlite_scan_exact:
  assumes "sqlite_library L content backup stmt_text args rest" and "s3_ready content backup h"
  shows "\<exists>h' W' W6' T' A Tr. s3_scan_db L h now W W6 T white_exp = Some (GREYDB_OK, h', W', W6', T') \<and>
    s3_ready content backup h' \<and> s3_saved backup h' = s3_saved backup h \<and>
    updated now (now + white_exp) (without_expired now (s3_view content h)) (s3_view content h') \<and>
    set A = white_ips (s3_view content h') \<and> set Tr = trap_ips (s3_view content h') \<and>
    scan_lists (\<lambda>s. CHR '':'' \<in> set s) (W, W6, T) A Tr (W', W6', T')"
  using sqlite_library.scan_runs [OF assms] .

text \<open>C13 on the empty database after it has been opened.\<close>

theorem sqlite_scan_exact_witness:
  "\<exists>h h' W' W6' T' A Tr. s3_db_open smem_lib smem_handle 0 = Some h \<and>
     s3_scan_db smem_lib h 100 List_create List_create List_create 500 = Some (GREYDB_OK, h', W', W6', T') \<and>
     set A = white_ips (s3_view sm_db h') \<and> scan_lists (\<lambda>s. CHR '':'' \<in> set s) (List_create, List_create, List_create) A Tr (W', W6', T')"
proof -
  obtain h where "s3_db_open smem_lib smem_handle 0 = Some h" "s3_ready sm_db sm_backup h"
    using smem.open_works_driver [OF smem_handle_empty(1)] by blast
  then show ?thesis using sqlite_scan_exact [OF smem.sqlite_library_axioms, of h 100 List_create List_create List_create 500] by blast
qed

text \<open>
  C14. What an iterator over all tables decodes from its rows is what the tables hold: each key, with the value a lookup
  of the key yields, and nothing else, when the strings of the keys fit the buffers of the iterator.
\<close>

theorem sqlite_listing_roundtrip:
  assumes "db_good db" and "\<forall>k v. db_content db k = Some v \<longrightarrow> key_fits k \<and> (entry_key k \<longrightarrow> - 1 \<le> gd_pcount (val_gd v))"
  shows "itr_row ` set (rows_of as db (itr_query 7)) = {(Some k, v) | k v. db_content db k = Some v}"
proof -
  obtain traps doms ents where t: "tables db traps doms ents" "ents_ok traps doms ents" using assms(1) by (auto simp: db_good_def)
  note view = db_content_tables [OF t(1)]
  have fits: "key_fits k" "entry_key k \<Longrightarrow> - 1 \<le> gd_pcount (val_gd v)" if "ents_view traps doms ents k = Some v" for k v
    using assms(2) that by (auto simp: view)
  have ent: "\<exists>k. itr_row (entry_row e) = (Some k, v) \<and> ents_view traps doms ents k = Some v" if "e \<in> set ents" "v = grey_val (snd e)" for e v
  proof -
    obtain u d where e: "e = (u, d)" by (cases e)
    then have mem: "(u, d) \<in> set ents" using that(1) by simp
    show ?thesis
      using ents_view_ok [OF t(2) mem]
    proof (elim disjE conjE)
      assume "s3_key_ok (KEY_TUPLE u)" and v: "ents_view traps doms ents (KEY_TUPLE u) = Some (grey_val d)"
      then show ?thesis using itr_row_decoded(4) [of u d] fits(1) [OF v] that(2) e by auto
    next
      assume "u = ip_tuple (gt_ip u)" and v: "ents_view traps doms ents (KEY_IP (gt_ip u)) = Some (grey_val d)"
      then show ?thesis using itr_row_decoded(3) [of u "gt_ip u" d] fits [OF v] that(2) e by (auto simp: grey_val_def)
    qed
  qed
  have listed: "(Some k, v) \<in> itr_row ` (entry_row ` set ents \<union> marker_row (- 2) ` set traps \<union> marker_row (- 3) ` set doms)"
    if kv: "ents_view traps doms ents k = Some v" for k v
  proof (cases k)
    case (KEY_MAIL s)
    then have s: "s \<in> set traps" "v = marker (- 2)" using kv by (auto split: if_splits)
    then have "itr_row (marker_row (- 2) s) = (Some k, v)" using itr_row_decoded(1) [of s] fits(1) [OF kv] KEY_MAIL by simp
    then show ?thesis using s(1) by (metis UnI1 UnI2 image_eqI)
  next
    case (KEY_DOM s)
    then have s: "s \<in> set doms" "v = marker (- 3)" using kv by (auto split: if_splits)
    then have "itr_row (marker_row (- 3) s) = (Some k, v)" using itr_row_decoded(2) [of s] fits(1) [OF kv] KEY_DOM by simp
    then show ?thesis using s(1) by (metis UnI1 UnI2 image_eqI)
  next
    case (KEY_IP s)
    then obtain d where d: "map_of ents (ip_tuple s) = Some d" "v = grey_val d" using kv by auto
    then have "itr_row (entry_row (ip_tuple s, d)) = (Some k, v)"
      using itr_row_decoded(3) [OF refl, of s d] fits [OF kv] KEY_IP by (simp add: grey_val_def)
    then show ?thesis using map_of_SomeD [OF d(1)] by (metis UnI1 image_eqI)
  next
    case (KEY_TUPLE u)
    then obtain d where d: "map_of ents u = Some d" "v = grey_val d" "gt_from u \<noteq> []" using kv by (auto split: if_splits)
    then have "itr_row (entry_row (u, d)) = (Some k, v)" using itr_row_decoded(4) [of u d] fits(1) [OF kv] KEY_TUPLE by simp
    then show ?thesis using map_of_SomeD [OF d(1)] by (metis UnI1 image_eqI)
  qed (use kv in simp_all)
  show ?thesis
    unfolding itr_rows [OF t(1)] view
  proof (intro equalityI subsetI)
    fix x assume "x \<in> itr_row ` (entry_row ` set ents \<union> marker_row (- 2) ` set traps \<union> marker_row (- 3) ` set doms)"
    then consider e where "e \<in> set ents" "x = itr_row (entry_row e)" | s where "s \<in> set traps" "x = itr_row (marker_row (- 2) s)"
      | s where "s \<in> set doms" "x = itr_row (marker_row (- 3) s)" by blast
    then show "x \<in> {(Some k, v) | k v. ents_view traps doms ents k = Some v}"
    proof cases
      case 1
      then show ?thesis using ent [OF 1(1) refl] by auto
    next
      case 2
      then show ?thesis using itr_row_decoded(1) [of s] fits(1) [of "KEY_MAIL s"] by auto
    next
      case 3
      then show ?thesis using itr_row_decoded(2) [of s] fits(1) [of "KEY_DOM s"] by auto
    qed
  qed (use listed in blast)
qed

text \<open>A spam trap, a white address and a tuple.\<close>

definition example_db :: sql_db where
  "example_db =
     [''spamtraps'' \<mapsto> \<lparr>tab_cols = [''address''], tab_key = [''address''], tab_rows = [name_row ''trap@a'']\<rparr>,
      ''domains'' \<mapsto> \<lparr>tab_cols = [''domain''], tab_key = [''domain''], tab_rows = []\<rparr>,
      ''entries'' \<mapsto> entry_table (map entry_row
         [(ip_tuple ''192.0.2.1'', \<lparr>gd_first = 1, gd_pass = 2, gd_expire = 3, gd_bcount = 4, gd_pcount = 5\<rparr>),
          (example_tuple, \<lparr>gd_first = 1, gd_pass = 9, gd_expire = 9, gd_bcount = 1, gd_pcount = 0\<rparr>)])]"

lemma example_db_tables:
  "\<exists>ents. tables example_db [''trap@a''] [] ents \<and> ents_ok [''trap@a''] [] ents \<and>
     (\<forall>e\<in>set ents. key_fits (KEY_IP (gt_ip (fst e))) \<and> key_fits (KEY_TUPLE (fst e)) \<and> 0 \<le> gd_pcount (snd e))"
proof -
  let ?ents = "[(ip_tuple ''192.0.2.1'', \<lparr>gd_first = 1, gd_pass = 2, gd_expire = 3, gd_bcount = 4, gd_pcount = 5\<rparr>),
    (example_tuple, \<lparr>gd_first = 1, gd_pass = 9, gd_expire = 9, gd_bcount = 1, gd_pcount = 0\<rparr>)]"
  have "tables example_db [''trap@a''] [] ?ents" by (simp add: tables_def example_db_def)
  moreover have "ents_ok [''trap@a''] [] ?ents" by (simp add: ents_ok_def NUL_def ip_tuple_def example_tuple_def)
  moreover have "\<forall>e\<in>set ?ents. key_fits (KEY_IP (gt_ip (fst e))) \<and> key_fits (KEY_TUPLE (fst e)) \<and> 0 \<le> gd_pcount (snd e)"
    by (simp add: example_tuple_def INET6_ADDRSTRLEN_def GREY_MAX_MAIL_def)
  ultimately show ?thesis by blast
qed

text \<open>C14 for the example.\<close>

theorem sqlite_listing_roundtrip_witness:
  "itr_row ` set (rows_of (\<lambda>n. SNull) example_db (itr_query 7)) = {(Some k, v) | k v. db_content example_db k = Some v} \<and>
    db_content example_db (KEY_MAIL ''trap@a'') = Some (marker (- 2))"
proof -
  obtain ents where t: "tables example_db [''trap@a''] [] ents" "ents_ok [''trap@a''] [] ents"
    and fit: "\<forall>e\<in>set ents. key_fits (KEY_IP (gt_ip (fst e))) \<and> key_fits (KEY_TUPLE (fst e)) \<and> 0 \<le> gd_pcount (snd e)"
    using example_db_tables by blast
  have "db_good example_db" using t by (auto simp: db_good_def)
  moreover have "key_fits k \<and> (entry_key k \<longrightarrow> - 1 \<le> gd_pcount (val_gd v))" if "db_content example_db k = Some v" for k v
    using that fit unfolding db_content_tables [OF t(1)]
    by (cases k) (fastforce simp: GREY_MAX_MAIL_def grey_val_def split: if_splits dest!: map_of_SomeD)+
  ultimately show ?thesis
    using sqlite_listing_roundtrip [of example_db "\<lambda>n. SNull"] by (simp add: db_content_tables [OF t(1)])
qed

end
