(* ===== verification/Mysql.thy ===== *)
theory Mysql
  imports Sqlite
begin

text \<open>
  Models \<open>src/drivers/mysql.c\<close>, the database driver on MySQL. It prints its statements as texts, into which it
  puts the strings of keys, some of which clients choose, between quotes and after escaping them. The client
  library is a parameter: a record of the functions the driver calls.

  What is shown is what the driver itself has to ensure: that the server reads the statement that was meant,
  with the strings as they are, and what the driver makes of answers and errors. What a server does with the
  statements is not modelled (unlike for SQLite, comparisons depend on the collation of the schema).
\<close>

section \<open>The library\<close>

text \<open>A result has the number of its columns and its rows; a column that is NULL is \<open>None\<close>.\<close>

record my_result =
  mr_fields :: nat
  mr_rows :: "string option list list"

record 'e mysql_lib =
  my_connect :: "'e \<Rightarrow> bool \<times> 'e"
  my_query :: "'e \<Rightarrow> string \<Rightarrow> int \<times> 'e"
  my_commit :: "'e \<Rightarrow> int \<times> 'e"
  my_rollback :: "'e \<Rightarrow> int \<times> 'e"
  my_store :: "'e \<Rightarrow> my_result option"
  my_escape :: "string \<Rightarrow> string"

text \<open>The name of the host is stored escaped.\<close>

record 'e mysql_handle =
  mh_env :: 'e
  mh_host :: string
  mh_txn :: int
  mh_connected :: bool

record mysql_itr =
  mi_res :: "my_result option"
  mi_curr :: "DB_key option"
  mi_current :: int
  mi_size :: nat

section \<open>Printing statements\<close>

datatype print_arg = Str_arg string | Int_arg int

text \<open>\<open>asprintf\<close> for the directives of the driver; any other directive is undefined.\<close>

fun asprintf :: "string \<Rightarrow> print_arg list \<Rightarrow> string option" where
  "asprintf [] args = Some []"
| "asprintf (c # f) args =
     (if c \<noteq> CHR ''%'' then map_option ((#) c) (asprintf f args)
      else case args of
        [] \<Rightarrow> None
      | Str_arg s # args' \<Rightarrow>
          (case f of CHR ''s'' # f' \<Rightarrow> map_option ((@) s) (asprintf f' args') | _ \<Rightarrow> None)
      | Int_arg i # args' \<Rightarrow>
          (case f of
             CHR ''d'' # f' \<Rightarrow> map_option ((@) (text_of (SInt i))) (asprintf f' args')
           | CHR ''l'' # CHR ''l'' # CHR ''d'' # f' \<Rightarrow> map_option ((@) (text_of (SInt i))) (asprintf f' args')
           | _ \<Rightarrow> None))"

fun data_args :: "Grey_data \<Rightarrow> print_arg list" where
  "data_args gd = [Int_arg (gd_first gd), Int_arg (gd_pass gd), Int_arg (gd_expire gd), Int_arg (gd_bcount gd), Int_arg (gd_pcount gd)]"

fun tuple_args :: "(string \<Rightarrow> string) \<Rightarrow> Grey_tuple \<Rightarrow> print_arg list" where
  "tuple_args esc gt = [Str_arg (esc (gt_ip gt)), Str_arg (esc (gt_helo gt)), Str_arg (esc (gt_from gt)), Str_arg (esc (gt_to gt))]"

abbreviation quote :: string where
  "quote \<equiv> [CHR 0x27]"

abbreviation quotes :: string where
  "quotes \<equiv> [CHR 0x27, CHR 0x27]"

text \<open>The templates of the statements and what is printed into them.\<close>

fun my_put_stmt :: "(string \<Rightarrow> string) \<Rightarrow> string \<Rightarrow> DB_key \<Rightarrow> Grey_data \<Rightarrow> (string \<times> print_arg list) option" where
  "my_put_stmt esc host (KEY_MAIL s) gd = Some (''INSERT IGNORE INTO spamtraps(address) VALUES (\\'%s\\')'', [Str_arg (esc s)])"
| "my_put_stmt esc host (KEY_DOM s) gd = Some (''INSERT IGNORE INTO domains(domain) VALUES (\\'%s\\')'', [Str_arg (esc s)])"
| "my_put_stmt esc host (KEY_IP s) gd =
     Some (''REPLACE INTO entries (`ip`, `helo`, `from`, `to`,  `first`, `pass`, `expire`, `bcount`, `pcount`, `greyd_host`) VALUES (\\'%s\\', '' @ quotes @ '', '' @ quotes @ '', '' @ quotes @ '', %lld, %lld, %lld, %d, %d, \\'%s\\')'',
           [Str_arg (esc s)] @ data_args gd @ [Str_arg host])"
| "my_put_stmt esc host (KEY_TUPLE gt) gd =
     Some (''REPLACE INTO entries (`ip`, `helo`, `from`, `to`,  `first`, `pass`, `expire`, `bcount`, `pcount`, `greyd_host`) VALUES (\\'%s\\', \\'%s\\', \\'%s\\', \\'%s\\', %lld, %lld, %lld, %d, %d, \\'%s\\')'',
           tuple_args esc gt @ data_args gd @ [Str_arg host])"
| "my_put_stmt esc host _ gd = None"

fun my_get_stmt :: "(string \<Rightarrow> string) \<Rightarrow> DB_key \<Rightarrow> (string \<times> print_arg list) option" where
  "my_get_stmt esc (KEY_DOM_PART s) =
     Some (''SELECT 0, 0, 0, 0, -3 FROM domains WHERE \\'%s\\' LIKE CONCAT(\\'%\\', domain)'', [Str_arg (esc s)])"
| "my_get_stmt esc (KEY_DOM s) = Some (''SELECT 0, 0, 0, 0, -3 FROM domains WHERE `domain`=\\'%s\\' LIMIT 1'', [Str_arg (esc s)])"
| "my_get_stmt esc (KEY_MAIL s) = Some (''SELECT 0, 0, 0, 0, -2 FROM spamtraps WHERE `address`=\\'%s\\' LIMIT 1'', [Str_arg (esc s)])"
| "my_get_stmt esc (KEY_IP s) =
     Some (''SELECT `first`, `pass`, `expire`, `bcount`, `pcount` FROM entries WHERE `ip`=\\'%s\\' AND `helo`='' @ quotes @ '' AND `from`='' @ quotes @ '' AND `to`='' @ quotes @ '' LIMIT 1'',
           [Str_arg (esc s)])"
| "my_get_stmt esc (KEY_TUPLE gt) =
     Some (''SELECT `first`, `pass`, `expire`, `bcount`, `pcount` FROM entries WHERE `ip`=\\'%s\\' AND `helo`=\\'%s\\' AND `from`=\\'%s\\' AND `to`=\\'%s\\' LIMIT 1'',
           tuple_args esc gt)"
| "my_get_stmt esc (KEY_OTHER t) = None"

fun my_del_stmt :: "(string \<Rightarrow> string) \<Rightarrow> DB_key \<Rightarrow> (string \<times> print_arg list) option" where
  "my_del_stmt esc (KEY_MAIL s) = Some (''DELETE FROM spamtraps WHERE `address`=\\'%s'' @ quote, [Str_arg (esc s)])"
| "my_del_stmt esc (KEY_DOM s) = Some (''DELETE FROM domains WHERE `domain`=\\'%s'' @ quote, [Str_arg (esc s)])"
| "my_del_stmt esc (KEY_IP s) =
     Some (''DELETE FROM entries WHERE `ip`=\\'%s\\' AND `helo`='' @ quotes @ '' AND `from`='' @ quotes @ '' AND `to`='' @ quotes, [Str_arg (esc s)])"
| "my_del_stmt esc (KEY_TUPLE gt) =
     Some (''DELETE FROM entries WHERE `ip`=\\'%s\\' AND `helo`=\\'%s\\' AND `from`=\\'%s\\' AND `to`=\\'%s\\' '', tuple_args esc gt)"
| "my_del_stmt esc _ = None"

section \<open>Opening and transactions\<close>

definition my_db_init :: "'e mysql_lib \<Rightarrow> 'e \<Rightarrow> string \<Rightarrow> 'e mysql_handle" where
  "my_db_init L env hostname = \<lparr>mh_env = env, mh_host = my_escape L hostname, mh_txn = 0, mh_connected = False\<rparr>"

definition my_db_open :: "'e mysql_lib \<Rightarrow> 'e mysql_handle \<Rightarrow> int \<Rightarrow> 'e mysql_handle option" where
  "my_db_open L dbh flags =
     (if mh_connected dbh then Some dbh
      else (let (ok, env) = my_connect L (mh_env dbh) in if \<not> ok then None else Some (dbh\<lparr>mh_env := env, mh_connected := True\<rparr>)))"

definition my_db_start_txn :: "'e mysql_lib \<Rightarrow> 'e mysql_handle \<Rightarrow> (int \<times> 'e mysql_handle) option" where
  "my_db_start_txn L dbh =
     (if mh_txn dbh \<noteq> 0 then Some (- 1, dbh)
      else (let (ret, env) = my_query L (mh_env dbh) ''START TRANSACTION''
            in if ret \<noteq> 0 then None else Some (ret, dbh\<lparr>mh_env := env, mh_txn := 1\<rparr>)))"

definition my_db_commit_txn :: "'e mysql_lib \<Rightarrow> 'e mysql_handle \<Rightarrow> (int \<times> 'e mysql_handle) option" where
  "my_db_commit_txn L dbh =
     (if mh_txn dbh \<noteq> 1 then Some (- 1, dbh)
      else (let (ret, env) = my_commit L (mh_env dbh) in if ret \<noteq> 0 then None else Some (0, dbh\<lparr>mh_env := env, mh_txn := 0\<rparr>)))"

definition my_db_rollback_txn :: "'e mysql_lib \<Rightarrow> 'e mysql_handle \<Rightarrow> (int \<times> 'e mysql_handle) option" where
  "my_db_rollback_txn L dbh =
     (if mh_txn dbh \<noteq> 1 then Some (- 1, dbh)
      else (let (ret, env) = my_rollback L (mh_env dbh) in if ret \<noteq> 0 then None else Some (0, dbh\<lparr>mh_env := env, mh_txn := 0\<rparr>)))"

section \<open>Entries\<close>

text \<open>A statement that changes the tables: printed, sent, and on an error the transaction is rolled back.\<close>

definition my_write :: "'e mysql_lib \<Rightarrow> 'e mysql_handle \<Rightarrow> (string \<times> print_arg list) option \<Rightarrow> (int \<times> 'e mysql_handle) option" where
  "my_write L dbh stmt =
     (case stmt of
        None \<Rightarrow> Some (GREYDB_ERR, dbh)
      | Some (tmpl, args) \<Rightarrow>
          do { sql \<leftarrow> asprintf tmpl args;
               let (ret, env) = my_query L (mh_env dbh) sql in
               if ret \<noteq> 0 then do { (r, dbh') \<leftarrow> my_db_rollback_txn L (dbh\<lparr>mh_env := env\<rparr>); Some (GREYDB_ERR, dbh') }
               else Some (GREYDB_OK, dbh\<lparr>mh_env := env\<rparr>) })"

definition my_db_put :: "'e mysql_lib \<Rightarrow> 'e mysql_handle \<Rightarrow> DB_key \<Rightarrow> DB_val \<Rightarrow> (int \<times> 'e mysql_handle) option" where
  "my_db_put L dbh key val = my_write L dbh (my_put_stmt (my_escape L) (mh_host dbh) key (val_gd val))"

definition my_db_del :: "'e mysql_lib \<Rightarrow> 'e mysql_handle \<Rightarrow> DB_key \<Rightarrow> (int \<times> 'e mysql_handle) option" where
  "my_db_del L dbh key = my_write L dbh (my_del_stmt (my_escape L) key)"

text \<open>\<open>atoi\<close>; on a NULL column it reads through a NULL pointer. Numbers that do not fit an int wrap.\<close>

definition my_atoi :: "string option \<Rightarrow> int option" where
  "my_atoi col = map_option (\<lambda>s. wrap_int (fst (strtol s))) col"

definition my_col :: "string option list \<Rightarrow> nat \<Rightarrow> string option" where
  "my_col row i = Option.bind (nth_opt row i) (\<lambda>c. c)"

definition my_populate_val :: "string option list \<Rightarrow> nat \<Rightarrow> DB_val option" where
  "my_populate_val row from =
     do { first \<leftarrow> my_atoi (my_col row from); pass \<leftarrow> my_atoi (my_col row (from + 1)); expire \<leftarrow> my_atoi (my_col row (from + 2));
          bcount \<leftarrow> my_atoi (my_col row (from + 3)); pcount \<leftarrow> my_atoi (my_col row (from + 4));
          Some \<lparr>val_type = DB_VAL_GREY,
                val_gd = \<lparr>gd_first = first, gd_pass = pass, gd_expire = expire, gd_bcount = bcount, gd_pcount = pcount\<rparr>\<rparr> }"

definition my_db_get :: "'e mysql_lib \<Rightarrow> 'e mysql_handle \<Rightarrow> DB_key \<Rightarrow> (int \<times> DB_val option) option" where
  "my_db_get L dbh key =
     (case my_get_stmt (my_escape L) key of
        None \<Rightarrow> Some (GREYDB_ERR, None)
      | Some (tmpl, args) \<Rightarrow>
          do { sql \<leftarrow> asprintf tmpl args;
               let (ret, env) = my_query L (mh_env dbh) sql in
               if ret \<noteq> 0 then Some (GREYDB_NOT_FOUND, None)
               else (case my_store L env of
                       None \<Rightarrow> Some (GREYDB_NOT_FOUND, None)
                     | Some result \<Rightarrow>
                         (if mr_fields result = 5 \<and> length (mr_rows result) = 1
                          then do { val \<leftarrow> my_populate_val (hd (mr_rows result)) 0; Some (GREYDB_FOUND, Some val) }
                          else Some (GREYDB_NOT_FOUND, None))) })"

section \<open>The scan\<close>

text \<open>The expired entries and those that pass are chosen by the clock of the server.\<close>

definition my_scan_delete :: "string \<Rightarrow> string \<times> print_arg list" where
  "my_scan_delete host = (''DELETE FROM entries WHERE expire <= UNIX_TIMESTAMP() AND `greyd_host`=\\'%s'' @ quote, [Str_arg host])"

definition my_scan_update :: "int \<Rightarrow> string \<Rightarrow> string \<times> print_arg list" where
  "my_scan_update expire host =
     (''UPDATE IGNORE entries e LEFT JOIN entries g ON g.`ip`=e.`ip` AND g.`to`='' @ quotes @ '' AND g.`from`='' @ quotes @
      '' SET e.`helo` = '' @ quotes @ '', e.`from` = '' @ quotes @ '', e.`to` = '' @ quotes @ '', e.`expire` = %lld WHERE e.`from` <> '' @
      quotes @ '' AND e.`to` <> '' @ quotes @
      '' AND e.`pcount` >= 0 AND g.`ip` IS NULL AND e.`pass` <= UNIX_TIMESTAMP() AND e.`greyd_host`=\\'%s'' @ quote,
      [Int_arg expire, Str_arg host])"

definition my_scan_select :: string where
  "my_scan_select =
     ''SELECT `ip`, NULL, NULL FROM entries             '' @
     ''        WHERE `to`='' @ quotes @ '' AND `from`='' @ quotes @ '' AND `ip` NOT LIKE \\'%:%\\'             AND `pcount` >= 0                               '' @
     ''        UNION                                               '' @
     ''        SELECT NULL, `ip`, NULL FROM entries                '' @
     ''        WHERE `to`='' @ quotes @ '' AND `from`='' @ quotes @ '' AND `ip` LIKE \\'%:%\\'                 AND `pcount` >= 0                               '' @
     ''        UNION                                               '' @
     ''        SELECT NULL, NULL, `ip` FROM entries                '' @
     ''        WHERE `to`='' @ quotes @ '' AND `from`='' @ quotes @ '' AND `pcount` < 0''"

definition my_scan_row :: "string option list \<Rightarrow> string List_T \<times> string List_T \<times> string List_T \<Rightarrow> string List_T \<times> string List_T \<times> string List_T" where
  "my_scan_row row ls =
     (let (W, W6, T) = ls in
      case my_col row 0 of
        Some s \<Rightarrow> (List_insert_after W s, W6, T)
      | None \<Rightarrow>
          (case my_col row 1 of
             Some s \<Rightarrow> (W, List_insert_after W6 s, T)
           | None \<Rightarrow> (case my_col row 2 of Some s \<Rightarrow> (W, W6, List_insert_after T s) | None \<Rightarrow> ls)))"

text \<open>
  An error jumps behind the initialisation of the pointer to the result, which is then read, so it is
  undefined.
\<close>

definition my_scan_db :: "'e mysql_lib \<Rightarrow> 'e mysql_handle \<Rightarrow> int \<Rightarrow> string List_T \<Rightarrow> string List_T \<Rightarrow> string List_T \<Rightarrow> int
    \<Rightarrow> (int \<times> 'e mysql_handle \<times> string List_T \<times> string List_T \<times> string List_T) option" where
  "my_scan_db L dbh now whitelist whitelist_ipv6 traplist white_exp =
     do { sql1 \<leftarrow> case my_scan_delete (mh_host dbh) of (tmpl, args) \<Rightarrow> asprintf tmpl args;
          let (ret1, env1) = my_query L (mh_env dbh) sql1 in
          if ret1 \<noteq> 0 then None
          else do {
            sql2 \<leftarrow> case my_scan_update (now + white_exp) (mh_host dbh) of (tmpl, args) \<Rightarrow> asprintf tmpl args;
            let (ret2, env2) = my_query L env1 sql2 in
            if ret2 \<noteq> 0 then None
            else (let (ret3, env3) = my_query L env2 my_scan_select in
                  if ret3 \<noteq> 0 then None
                  else (let rows = (case my_store L env3 of None \<Rightarrow> [] | Some result \<Rightarrow> mr_rows result)
                        in Some (GREYDB_OK, dbh\<lparr>mh_env := env3\<rparr>, fold my_scan_row rows (whitelist, whitelist_ipv6, traplist)))) } }"

definition mysql_driver :: "'e mysql_lib \<Rightarrow> 'e mysql_handle DB_handle_T" where
  "mysql_driver L =
     \<lparr>db_open = my_db_open L, db_start_txn = my_db_start_txn L, db_commit_txn = my_db_commit_txn L,
      db_rollback_txn = my_db_rollback_txn L, db_put = my_db_put L, db_get = my_db_get L, db_del = my_db_del L,
      db_scan = my_scan_db L\<rparr>"

section \<open>Iterators\<close>

definition my_itr_stmt :: "int \<Rightarrow> string \<times> print_arg list" where
  "my_itr_stmt types =
     (''SELECT `ip`, `helo`, `from`, `to`, `first`, `pass`, `expire`, `bcount`, `pcount` FROM entries WHERE %d UNION SELECT `address`, '' @
      quotes @ '', '' @ quotes @ '', '' @ quotes @ '', 0, 0, 0, 0, -2 FROM spamtraps WHERE %d UNION SELECT `domain`, '' @
      quotes @ '', '' @ quotes @ '', '' @ quotes @ '', 0, 0, 0, 0, -3 FROM domains WHERE %d'',
      [Int_arg (types AND DB_ENTRIES), Int_arg (types AND DB_SPAMTRAPS), Int_arg (types AND DB_DOMAINS)])"

definition my_db_get_itr :: "'e mysql_lib \<Rightarrow> 'e mysql_handle \<Rightarrow> int \<Rightarrow> (mysql_itr \<times> 'e mysql_handle) option" where
  "my_db_get_itr L dbh types =
     do { sql \<leftarrow> case my_itr_stmt types of (tmpl, args) \<Rightarrow> asprintf tmpl args;
          let (ret, env) = my_query L (mh_env dbh) sql in
          if ret \<noteq> 0 then None
          else do { result \<leftarrow> my_store L env;
                    Some (\<lparr>mi_res = Some result, mi_curr = None, mi_current = - 1, mi_size = length (mr_rows result)\<rparr>, dbh\<lparr>mh_env := env\<rparr>) } }"

definition my_populate_key :: "string option list \<Rightarrow> nat \<Rightarrow> DB_key option" where
  "my_populate_key row from =
     do { helo1 \<leftarrow> my_col row 1; from1 \<leftarrow> my_col row 2; to1 \<leftarrow> my_col row 3;
          if helo1 = [] \<and> from1 = [] \<and> to1 = []
          then do { count \<leftarrow> my_atoi (my_col row 8); ip \<leftarrow> my_col row from;
                    Some (if count = - 2 then KEY_MAIL (copied (GREY_MAX_MAIL + 1) ip)
                          else if count = - 3 then KEY_DOM (copied (GREY_MAX_MAIL + 1) ip)
                          else KEY_IP (copied (INET6_ADDRSTRLEN + 1) ip)) }
          else do { ip \<leftarrow> my_col row from; helo \<leftarrow> my_col row (from + 1); fr \<leftarrow> my_col row (from + 2); to \<leftarrow> my_col row (from + 3);
                    Some (KEY_TUPLE \<lparr>gt_ip = copied (INET6_ADDRSTRLEN + 1) ip, gt_helo = copied (GREY_MAX_MAIL + 1) helo,
                                     gt_from = copied (GREY_MAX_MAIL + 1) fr, gt_to = copied (GREY_MAX_MAIL + 1) to\<rparr>) } }"

definition my_db_itr_next :: "mysql_itr \<Rightarrow> (int \<times> (DB_key \<times> DB_val) option \<times> mysql_itr) option" where
  "my_db_itr_next itr =
     (case mi_res itr of
        None \<Rightarrow> Some (GREYDB_NOT_FOUND, None, itr)
      | Some result \<Rightarrow>
          (case mr_rows result of
             [] \<Rightarrow> Some (GREYDB_NOT_FOUND, None, itr)
           | row # rows \<Rightarrow>
               do { key \<leftarrow> my_populate_key row 0; val \<leftarrow> my_populate_val row 4;
                    Some (GREYDB_FOUND, Some (key, val),
                          itr\<lparr>mi_res := Some (result\<lparr>mr_rows := rows\<rparr>), mi_curr := Some key, mi_current := mi_current itr + 1\<rparr>) }))"

definition my_db_itr_replace_curr :: "'e mysql_lib \<Rightarrow> 'e mysql_handle \<Rightarrow> mysql_itr \<Rightarrow> DB_val \<Rightarrow> (int \<times> 'e mysql_handle) option" where
  "my_db_itr_replace_curr L dbh itr val = Option.bind (mi_curr itr) (\<lambda>key. DB_put (mysql_driver L) dbh key val)"

definition my_db_itr_del_curr :: "'e mysql_lib \<Rightarrow> 'e mysql_handle \<Rightarrow> mysql_itr \<Rightarrow> (int \<times> 'e mysql_handle) option" where
  "my_db_itr_del_curr L dbh itr =
     (case (mi_res itr, mi_curr itr) of (Some result, Some key) \<Rightarrow> DB_del (mysql_driver L) dbh key | _ \<Rightarrow> Some (GREYDB_ERR, dbh))"

end
