(* ===== verification/Mysql_Text.thy ===== *)
theory Mysql_Text
  imports Mysql
begin

text \<open>
  How a MySQL server reads the texts that the driver of the theory \<open>Mysql\<close> prints, and the properties of the
  driver: no string of a key can change a statement, and what becomes of answers and errors.
\<close>

section \<open>Reading a statement\<close>

text \<open>
  A statement is read as characters and quoted literals. In a literal a backslash escapes the next
  character and a doubled quote stands for one. The templates have no other quotes and no comments.
\<close>

datatype my_token = Tok char | Lit_tok string

fun unescaped :: "char \<Rightarrow> string" where
  "unescaped c =
     (if c = CHR ''0'' then [NUL] else if c = CHR ''n'' then [CHR 10] else if c = CHR ''r'' then [CHR 13] else if c = CHR ''t'' then [CHR 9]
      else if c = CHR ''b'' then [CHR 8] else if c = CHR ''Z'' then [CHR 26]
      else if c = CHR ''%'' \<or> c = CHR ''_'' then [CHR 0x5C, c] else [c])"

declare unescaped.simps [simp del]

text \<open>The literal behind an opening quote, and what follows it; \<open>None\<close> when it is not closed.\<close>

fun my_literal :: "string \<Rightarrow> (string \<times> string) option" where
  "my_literal [] = None"
| "my_literal [c] = (if c = CHR 0x27 then Some ([], []) else None)"
| "my_literal (c # d # cs) =
     (if c = CHR 0x5C then map_option (\<lambda>(s, r). (unescaped d @ s, r)) (my_literal cs)
      else if c = CHR 0x27 then
        (if d = CHR 0x27 then map_option (\<lambda>(s, r). (CHR 0x27 # s, r)) (my_literal cs) else Some ([], d # cs))
      else map_option (\<lambda>(s, r). (c # s, r)) (my_literal (d # cs)))"

lemma map_option_snd: "map_option f x = Some (s, r) \<Longrightarrow> (\<And>p. snd (f p) = snd p) \<Longrightarrow> \<exists>s'. x = Some (s', r)"
  by (cases x) (auto, metis snd_conv surj_pair)

lemma my_literal_shorter: "my_literal cs = Some (s, r) \<Longrightarrow> length r < length cs"
proof (induction cs arbitrary: s r rule: my_literal.induct)
  case (3 c d cs)
  consider "c = CHR 0x5C" | "c = CHR 0x27" "d = CHR 0x27" | "c = CHR 0x27" "d \<noteq> CHR 0x27" | "c \<noteq> CHR 0x5C" "c \<noteq> CHR 0x27" by blast
  then show ?case
  proof cases
    case 1
    then have "map_option (\<lambda>(s, r). (unescaped d @ s, r)) (my_literal cs) = Some (s, r)" using "3.prems" by simp
    then have "\<exists>s'. my_literal cs = Some (s', r)" by (rule map_option_snd) (simp add: split_beta)
    then show ?thesis using "3.IH"(1) [OF 1] by force
  next
    case 2
    then have "map_option (\<lambda>(s, r). (CHR 0x27 # s, r)) (my_literal cs) = Some (s, r)" using "3.prems" by simp
    then have "\<exists>s'. my_literal cs = Some (s', r)" by (rule map_option_snd) (simp add: split_beta)
    then show ?thesis using "3.IH"(2) 2 by force
  next
    case 3
    then show ?thesis using "3.prems" by simp
  next
    case 4
    then have "map_option (\<lambda>(s, r). (c # s, r)) (my_literal (d # cs)) = Some (s, r)" using "3.prems" by simp
    then have "\<exists>s'. my_literal (d # cs) = Some (s', r)" by (rule map_option_snd) (simp add: split_beta)
    then show ?thesis using "3.IH"(3) 4 by force
  qed
qed (simp_all split: if_splits)

function my_tokens :: "string \<Rightarrow> my_token list option" where
  "my_tokens [] = Some []"
| "my_tokens (c # cs) =
     (if c = CHR 0x27 then
        (case my_literal cs of None \<Rightarrow> None | Some (s, r) \<Rightarrow> map_option ((#) (Lit_tok s)) (my_tokens r))
      else map_option ((#) (Tok c)) (my_tokens cs))"
  by pat_completeness auto
termination by (relation "measure length") (auto dest: my_literal_shorter)

text \<open>The documented behaviour of \<open>mysql_real_escape_string\<close>: what it makes of a string, closed by a quote, is read as the string.\<close>

locale mysql_escaping =
  fixes esc :: "string \<Rightarrow> string"
  assumes esc_read: "NUL \<notin> set s \<Longrightarrow> r = [] \<or> hd r \<noteq> CHR 0x27 \<Longrightarrow> my_literal (esc s @ CHR 0x27 # r) = Some (s, r)"

section \<open>The tokens that were meant\<close>

text \<open>
  Reading the template itself: a quoted \<open>%s\<close> is the literal of its argument as it is, \<open>%d\<close> and \<open>%lld\<close> are digits.
  A template in which a string is printed outside of quotes, or a literal touches another, has no tokens.
\<close>

definition no_quote :: "string \<Rightarrow> bool" where
  "no_quote f \<longleftrightarrow> f = [] \<or> hd f \<noteq> CHR 0x27 \<and> hd f \<noteq> CHR ''%''"

function tmpl_tokens :: "string \<Rightarrow> print_arg list \<Rightarrow> my_token list option" where
  "tmpl_tokens [] args = Some []"
| "tmpl_tokens (c # f) args =
     (if c = CHR 0x27 then
        (if take 3 f = ''%s'' @ quote \<and> no_quote (drop 3 f) then
           (case args of Str_arg s # args' \<Rightarrow> map_option ((#) (Lit_tok s)) (tmpl_tokens (drop 3 f) args') | _ \<Rightarrow> None)
         else if take 1 f = quote \<and> no_quote (drop 1 f) then map_option ((#) (Lit_tok [])) (tmpl_tokens (drop 1 f) args)
         else None)
      else if c = CHR ''%'' then
        (case args of
           Int_arg i # args' \<Rightarrow>
             (if take 1 f = ''d'' then map_option ((@) (map Tok (text_of (SInt i)))) (tmpl_tokens (drop 1 f) args')
              else if take 3 f = ''lld'' then map_option ((@) (map Tok (text_of (SInt i)))) (tmpl_tokens (drop 3 f) args')
              else None)
         | _ \<Rightarrow> None)
      else map_option ((#) (Tok c)) (tmpl_tokens f args))"
  by pat_completeness auto
termination by (relation "measure (\<lambda>(f, args). length f)") auto

fun escaped_arg :: "(string \<Rightarrow> string) \<Rightarrow> print_arg \<Rightarrow> print_arg" where
  "escaped_arg esc (Str_arg s) = Str_arg (esc s)"
| "escaped_arg esc (Int_arg i) = Int_arg i"

fun arg_ok :: "print_arg \<Rightarrow> bool" where
  "arg_ok (Str_arg s) \<longleftrightarrow> NUL \<notin> set s"
| "arg_ok (Int_arg i) \<longleftrightarrow> True"

lemma dec_digits_not_quote: "CHR 0x27 \<notin> set (text_of (SInt i))"
proof -
  have d: "char_of (48 + k) \<noteq> CHR 0x27" if "k < 10" for k :: nat
  proof
    assume "char_of (48 + k) = CHR 0x27"
    then have "of_char (char_of (48 + k) :: char) = (39 :: nat)" by simp
    then show False using that by simp
  qed
  have "CHR 0x27 \<notin> set (dec_digits n)" for n
  proof (induction n rule: dec_digits.induct)
    case (1 n)
    then show ?case using d [of n] d [of "n mod 10"] by (subst dec_digits.simps) auto
  qed
  then show ?thesis by simp
qed

lemma tokens_plain: "CHR 0x27 \<notin> set s \<Longrightarrow> my_tokens (s @ r) = map_option ((@) (map Tok s)) (my_tokens r)"
  by (induction s) (auto simp: option.map_comp comp_def map_option_case split: option.splits)

context mysql_escaping
begin

lemma printed_tokens:
  assumes "tmpl_tokens f args = Some toks" and "\<forall>a\<in>set args. arg_ok a"
  shows "\<exists>sql. asprintf f (map (escaped_arg esc) args) = Some sql \<and> my_tokens sql = Some toks \<and>
    (no_quote f \<longrightarrow> sql = [] \<or> hd sql \<noteq> CHR 0x27)"
  using assms
proof (induction f args arbitrary: toks rule: tmpl_tokens.induct)
  case (1 args)
  then show ?case by (simp add: no_quote_def)
next
  case (2 c f args)
  have ok: "\<forall>a\<in>set args'. arg_ok a" if "args = a # args'" for a args' using "2.prems"(2) that by simp
  show ?case
  proof (cases "c = CHR 0x27")
    case quo: True
    show ?thesis
    proof (cases "take 3 f = ''%s'' @ quote \<and> no_quote (drop 3 f)")
      case True
      obtain f' where f: "f = ''%s'' @ quote @ f'" "no_quote f'" using True append_take_drop_id [of 3 f] by (metis append.assoc)
      obtain s args' toks' where a: "args = Str_arg s # args'" "toks = Lit_tok s # toks'" "tmpl_tokens f' args' = Some toks'"
        using "2.prems"(1) True quo f by (auto simp: split: list.splits print_arg.splits)
      obtain sql where sql: "asprintf f' (map (escaped_arg esc) args') = Some sql" "my_tokens sql = Some toks'" "sql = [] \<or> hd sql \<noteq> CHR 0x27"
        using "2.IH"(1) [OF quo True a(1) refl, of toks'] a(3) ok [OF a(1)] f by auto
      have "my_literal (esc s @ CHR 0x27 # sql) = Some (s, sql)" using esc_read [OF _ sql(3)] "2.prems"(2) a(1) by simp
      then show ?thesis using quo f a sql by (simp add: no_quote_def)
    next
      case False
      then have e: "take 1 f = quote" "no_quote (drop 1 f)" using "2.prems"(1) quo by (simp_all split: if_splits)
      then obtain f' where f: "f = quote @ f'" "no_quote f'" using append_take_drop_id [of 1 f] by metis
      obtain toks' where a: "toks = Lit_tok [] # toks'" "tmpl_tokens f' args = Some toks'" using "2.prems"(1) False quo f by auto
      obtain sql where sql: "asprintf f' (map (escaped_arg esc) args) = Some sql" "my_tokens sql = Some toks'" "sql = [] \<or> hd sql \<noteq> CHR 0x27"
        using "2.IH"(2) [OF quo False, of toks'] e a(2) "2.prems"(2) f by auto
      have "my_literal (CHR 0x27 # sql) = Some ([], sql)" using sql(3) by (cases sql) simp_all
      then show ?thesis using quo f a sql by (simp add: no_quote_def)
    qed
  next
    case nq: False
    show ?thesis
    proof (cases "c = CHR ''%''")
      case pc: True
      obtain i args' where a: "args = Int_arg i # args'" using "2.prems"(1) nq pc by (auto split: list.splits print_arg.splits)
      let ?d = "text_of (SInt i)"
      have fin: ?thesis if "f = dir @ f'" "dir = ''d'' \<or> dir = ''lld''" "tmpl_tokens f' args' = Some toks'" "toks = map Tok ?d @ toks'"
          "\<exists>sql. asprintf f' (map (escaped_arg esc) args') = Some sql \<and> my_tokens sql = Some toks'" for dir f' toks'
      proof -
        from that(5) obtain sql where sql: "asprintf f' (map (escaped_arg esc) args') = Some sql" "my_tokens sql = Some toks'" by blast
        have "asprintf (c # f) (map (escaped_arg esc) args) = Some (?d @ sql)" using that(1,2) a pc sql(1) by auto
        moreover have "my_tokens (?d @ sql) = Some toks" unfolding tokens_plain [OF dec_digits_not_quote] using sql(2) that(4) by simp
        ultimately show ?thesis using pc by (simp add: no_quote_def)
      qed
      show ?thesis
      proof (cases "take 1 f = ''d''")
        case True
        obtain f' where f: "f = ''d'' @ f'" using True append_take_drop_id [of 1 f] by metis
        obtain toks' where t: "toks = map Tok ?d @ toks'" "tmpl_tokens f' args' = Some toks'" using "2.prems"(1) nq pc a f by auto
        show ?thesis using fin [OF f _ t(2,1)] "2.IH"(3) [OF nq pc a refl True, of toks'] t(2) ok [OF a] f by auto
      next
        case False
        then have "take 3 f = ''lld''" using "2.prems"(1) nq pc a by (auto split: if_splits)
        then obtain f' where f: "f = ''lld'' @ f'" using append_take_drop_id [of 3 f] by metis
        obtain toks' where t: "toks = map Tok ?d @ toks'" "tmpl_tokens f' args' = Some toks'" using "2.prems"(1) nq pc a f False by auto
        show ?thesis using fin [OF f _ t(2,1)] "2.IH"(4) [OF nq pc a refl False, of toks'] t(2) ok [OF a] f by auto
      qed
    next
      case False
      obtain toks' where t: "toks = Tok c # toks'" "tmpl_tokens f args = Some toks'" using "2.prems"(1) nq False by auto
      obtain sql where "asprintf f (map (escaped_arg esc) args) = Some sql" "my_tokens sql = Some toks'"
        using "2.IH"(5) [OF nq False t(2) "2.prems"(2)] by blast
      then show ?thesis using nq False t(1) by simp
    qed
  qed
qed

end

text \<open>The escapes that the manual documents.\<close>

definition my_escape_char :: "char \<Rightarrow> string" where
  "my_escape_char c =
     (if c = NUL then [CHR 0x5C, CHR ''0''] else if c = CHR 10 then [CHR 0x5C, CHR ''n''] else if c = CHR 13 then [CHR 0x5C, CHR ''r'']
      else if c = CHR 26 then [CHR 0x5C, CHR ''Z''] else if c = CHR 0x5C \<or> c = CHR 0x27 \<or> c = CHR 0x22 then [CHR 0x5C, c] else [c])"

definition documented_escape :: "string \<Rightarrow> string" where
  "documented_escape s = concat (map my_escape_char s)"

lemma escape_char_read: "my_literal (my_escape_char c @ cs) = map_option (\<lambda>(s, r). (c # s, r)) (my_literal cs)"
proof (cases "c = NUL \<or> c = CHR 10 \<or> c = CHR 13 \<or> c = CHR 26 \<or> c = CHR 0x5C \<or> c = CHR 0x27 \<or> c = CHR 0x22")
  case True
  then show ?thesis by (elim disjE) (simp_all add: my_escape_char_def unescaped.simps NUL_def)
next
  case False
  then show ?thesis by (cases cs) (simp_all add: my_escape_char_def)
qed

interpretation documented: mysql_escaping documented_escape
proof
  fix s r :: string
  assume "r = [] \<or> hd r \<noteq> CHR 0x27"
  then have e: "my_literal (CHR 0x27 # r) = Some ([], r)" by (cases r) simp_all
  show "my_literal (documented_escape s @ CHR 0x27 # r) = Some (s, r)"
    by (induction s) (simp_all add: documented_escape_def e escape_char_read)
qed

section \<open>The statements of the driver\<close>

fun key_args_ok :: "(string \<times> print_arg list) option \<Rightarrow> bool" where
  "key_args_ok None \<longleftrightarrow> True"
| "key_args_ok (Some (tmpl, args)) \<longleftrightarrow> (\<forall>a\<in>set args. arg_ok a) \<and> tmpl_tokens tmpl args \<noteq> None"

lemma stmt_tokens:
  assumes "key_ok k" and "NUL \<notin> set host"
  shows "key_args_ok (my_put_stmt (\<lambda>s. s) host k gd)"
    and "key_args_ok (my_get_stmt (\<lambda>s. s) k)"
    and "key_args_ok (my_del_stmt (\<lambda>s. s) k)"
    and "key_args_ok (Some (my_scan_delete host))"
    and "key_args_ok (Some (my_scan_update expire host))"
proof -
  note S = no_quote_def my_scan_delete_def my_scan_update_def
  show "key_args_ok (my_put_stmt (\<lambda>s. s) host k gd)" using assms by (cases k) (simp_all add: S)
  show "key_args_ok (my_get_stmt (\<lambda>s. s) k)" using assms by (cases k) (simp_all add: S)
  show "key_args_ok (my_del_stmt (\<lambda>s. s) k)" using assms by (cases k) (simp_all add: S)
  show "key_args_ok (Some (my_scan_delete host))" using assms by (simp add: S)
  show "key_args_ok (Some (my_scan_update expire host))" using assms by (simp add: S)
qed

section \<open>Numbers\<close>

lemma take_digits_append:
  "\<forall>c\<in>set ds. isdigit_c (char_code c) \<Longrightarrow> take_digits (ds @ cs) m = take_digits cs (fst (take_digits ds m))"
  by (induction ds arbitrary: m) auto

lemma digit_code_text: "k < 10 \<Longrightarrow> char_code (char_of (48 + k)) = 48 + int k"
proof -
  assume "k < 10"
  then have "of_char (char_of (48 + k) :: char) = (48 + k :: nat)" by simp
  then show ?thesis unfolding char_code_def by (metis of_char_of of_nat_add of_nat_numeral of_nat_of_char)
qed

lemma digits_text: "\<forall>c\<in>set (dec_digits n). isdigit_c (char_code c)"
proof (induction n rule: dec_digits.induct)
  case (1 n)
  then show ?case using digit_code_text [of n] digit_code_text [of "n mod 10"] by (subst dec_digits.simps) (auto simp: isdigit_c_def)
qed

lemma take_digits_text: "take_digits (dec_digits n) 0 = (int n, [])"
proof (induction n rule: dec_digits.induct)
  case (1 n)
  show ?case
  proof (cases "n < 10")
    case True
    then show ?thesis using digit_code_text [of n] by (subst dec_digits.simps) (simp add: isdigit_c_def)
  next
    case False
    then have "take_digits (dec_digits n) 0 = take_digits [char_of (48 + n mod 10)] (int (n div 10))"
      using 1 take_digits_append [OF digits_text [of "n div 10"], of "[char_of (48 + n mod 10)]" 0] by (subst dec_digits.simps) simp
    then show ?thesis using digit_code_text [of "n mod 10"] by (simp add: isdigit_c_def zdiv_int zmod_int)
  qed
qed

lemma strtol_text:
  assumes "LONG_MIN \<le> i" and "i \<le> LONG_MAX"
  shows "strtol (text_of (SInt i)) = (i, [], False)"
proof -
  obtain d ds where d: "dec_digits (nat \<bar>i\<bar>) = d # ds" by (cases "dec_digits (nat \<bar>i\<bar>)") (auto simp: dec_digits.simps split: if_splits)
  then have dig: "isdigit_c (char_code d)" using digits_text [of "nat \<bar>i\<bar>"] by simp
  have t: "take_digits (d # ds) 0 = (\<bar>i\<bar>, [])" using take_digits_text [of "nat \<bar>i\<bar>"] d by simp
  have sp: "\<not> char_isspace d" "d \<noteq> CHR ''-''" "d \<noteq> CHR ''+''" "\<not> char_isspace CHR ''-''"
    using dig by (auto simp: char_isspace_def isspace_c_def isdigit_c_def char_code_def)
  show ?thesis
    using t sp dig d assms by (cases "i < 0") (simp_all add: strtol_def Let_def)
qed

text \<open>Times are printed with 64 bits and read back with 32.\<close>

lemma my_atoi_text: "LONG_MIN \<le> i \<Longrightarrow> i \<le> LONG_MAX \<Longrightarrow> my_atoi (Some (text_of (SInt i))) = Some (wrap_int i)"
  by (simp add: my_atoi_def strtol_text del: text_of.simps)

section \<open>Properties\<close>

lemma escaped_stmts:
  "my_put_stmt esc (esc host) k gd = map_option (\<lambda>(t, a). (t, map (escaped_arg esc) a)) (my_put_stmt (\<lambda>s. s) host k gd)"
  "my_get_stmt esc k = map_option (\<lambda>(t, a). (t, map (escaped_arg esc) a)) (my_get_stmt (\<lambda>s. s) k)"
  "my_del_stmt esc k = map_option (\<lambda>(t, a). (t, map (escaped_arg esc) a)) (my_del_stmt (\<lambda>s. s) k)"
  "Some (my_scan_delete (esc host)) = map_option (\<lambda>(t, a). (t, map (escaped_arg esc) a)) (Some (my_scan_delete host))"
  "Some (my_scan_update expire (esc host)) = map_option (\<lambda>(t, a). (t, map (escaped_arg esc) a)) (Some (my_scan_update expire host))"
  by ((cases k; simp add: my_scan_delete_def my_scan_update_def); fail)+

lemma stmts_defined: "key_ok k \<Longrightarrow> my_put_stmt esc host k gd \<noteq> None \<and> my_get_stmt esc k \<noteq> None \<and> my_del_stmt esc k \<noteq> None"
  by (cases k) simp_all

text \<open>
  C15. No string of a key or of the configuration changes a statement of the MySQL driver: whatever the strings are, the
  text that is printed for a put, a get, a delete or a scan is read by the server as the template of the statement
  with each string as one literal in its place, character by character.
\<close>

theorem mysql_statements_safe:
  assumes "mysql_escaping esc" and "key_ok k" and "NUL \<notin> set host"
    and "(stmt, plain) \<in> {(my_put_stmt esc (esc host) k gd, my_put_stmt (\<lambda>s. s) host k gd),
      (my_get_stmt esc k, my_get_stmt (\<lambda>s. s) k), (my_del_stmt esc k, my_del_stmt (\<lambda>s. s) k),
      (Some (my_scan_delete (esc host)), Some (my_scan_delete host)),
      (Some (my_scan_update expire (esc host)), Some (my_scan_update expire host))}"
  shows "\<exists>tmpl args raw sql toks. stmt = Some (tmpl, args) \<and> plain = Some (tmpl, raw) \<and>
    asprintf tmpl args = Some sql \<and> my_tokens sql = Some toks \<and> tmpl_tokens tmpl raw = Some toks"
proof -
  have "stmt = map_option (\<lambda>(t, a). (t, map (escaped_arg esc) a)) plain \<and> plain \<noteq> None \<and> key_args_ok plain"
    using assms(4) escaped_stmts(1) [of esc host k gd] escaped_stmts(2,3) [of esc k] escaped_stmts(4) [of esc host] escaped_stmts(5) [of expire esc host]
      stmts_defined [OF assms(2)] stmt_tokens [OF assms(2,3)]
    by (elim insertE emptyE) (simp_all only: prod.inject simp_thms option.distinct)
  then obtain tmpl raw toks where p: "plain = Some (tmpl, raw)" "stmt = Some (tmpl, map (escaped_arg esc) raw)"
      "\<forall>a\<in>set raw. arg_ok a" "tmpl_tokens tmpl raw = Some toks"
    by auto
  then show ?thesis using mysql_escaping.printed_tokens [OF assms(1) p(4,3)] by blast
qed

text \<open>C15 for a client that puts a quote into its HELO, with the escapes of the manual.\<close>

theorem mysql_statements_safe_witness:
  "\<exists>sql toks. asprintf (fst (the (my_del_stmt documented_escape (KEY_TUPLE (example_tuple\<lparr>gt_helo := CHR 0x27 # ''; x''\<rparr>)))))
      (snd (the (my_del_stmt documented_escape (KEY_TUPLE (example_tuple\<lparr>gt_helo := CHR 0x27 # ''; x''\<rparr>))))) = Some sql \<and>
    my_tokens sql = Some toks \<and> Lit_tok (CHR 0x27 # ''; x'') \<in> set toks"
proof -
  let ?k = "KEY_TUPLE (example_tuple\<lparr>gt_helo := CHR 0x27 # ''; x''\<rparr>)"
  have "key_ok ?k" by (simp add: example_tuple_def NUL_def)
  from mysql_statements_safe [OF documented.mysql_escaping_axioms this, where host = "[]" and stmt = "my_del_stmt documented_escape ?k"
      and plain = "my_del_stmt (\<lambda>s. s) ?k"]
  obtain tmpl args raw sql toks where t: "my_del_stmt documented_escape ?k = Some (tmpl, args)" "my_del_stmt (\<lambda>s. s) ?k = Some (tmpl, raw)"
    "asprintf tmpl args = Some sql" "my_tokens sql = Some toks" "tmpl_tokens tmpl raw = Some toks" by auto
  have "Lit_tok (CHR 0x27 # ''; x'') \<in> set toks" using t(2,5) by (auto simp: no_quote_def)
  then show ?thesis using t(1,3,4) by (intro exI [of _ sql] exI [of _ toks]) (simp only: option.sel fst_conv snd_conv simp_thms)
qed

text \<open>
  C40. The MySQL driver prints times with 64 bits and reads them back with 32: of an entry whose numbers are printed and
  returned as decimal texts, each number is read modulo \<open>2 ^ 32\<close>, as it is only if it fits an \<open>int\<close>.
\<close>

theorem mysql_values_wrap:
  assumes "\<forall>i\<in>{gd_first gd, gd_pass gd, gd_expire gd, gd_bcount gd, gd_pcount gd}. LONG_MIN \<le> i \<and> i \<le> LONG_MAX"
  shows "my_populate_val (map (\<lambda>i. Some (text_of (SInt i))) [gd_first gd, gd_pass gd, gd_expire gd, gd_bcount gd, gd_pcount gd]) 0 =
    Some \<lparr>val_type = DB_VAL_GREY,
          val_gd = \<lparr>gd_first = wrap_int (gd_first gd), gd_pass = wrap_int (gd_pass gd), gd_expire = wrap_int (gd_expire gd),
                    gd_bcount = wrap_int (gd_bcount gd), gd_pcount = wrap_int (gd_pcount gd)\<rparr>\<rparr>"
  using assms by (simp add: my_populate_val_def my_col_def nth_opt_def my_atoi_text numeral_eq_Suc del: text_of.simps)

text \<open>C40 for an entry that expires in January 2038: it is read back as expired since 1901.\<close>

theorem mysql_values_wrap_witness:
  "\<exists>v. my_populate_val (map (\<lambda>i. Some (text_of (SInt i))) [1, 1, 2147483648, 1, 0]) 0 = Some v \<and> gd_expire (val_gd v) = - 2147483648"
proof -
  have "wrap_int 2147483648 = - 2147483648" by (simp add: wrap_int_def)
  then show ?thesis
    using mysql_values_wrap [of "\<lparr>gd_first = 1, gd_pass = 1, gd_expire = 2147483648, gd_bcount = 1, gd_pcount = 0\<rparr>"]
    by (simp add: LONG_MIN_def LONG_MAX_def del: text_of.simps)
qed

section \<open>Errors\<close>

text \<open>The pattern of a partial domain contains a percent sign, which \<open>asprintf\<close> takes for a directive.\<close>

lemma mysql_part_undefined: "my_db_get L h (KEY_DOM_PART s) = None"
  by (simp add: my_db_get_def map_option_case split: option.splits)

text \<open>A lookup that the server refuses is the same as one that finds nothing.\<close>

lemma mysql_get_refused:
  assumes "\<And>sql. fst (my_query L (mh_env h) sql) \<noteq> 0" and "my_db_get L h k = Some (r, v)"
  shows "(r, v) = (GREYDB_NOT_FOUND, None) \<or> my_get_stmt (my_escape L) k = None"
proof (cases "my_get_stmt (my_escape L) k")
  case (Some stmt)
  then obtain sql where "asprintf (fst stmt) (snd stmt) = Some sql" using assms(2) by (cases stmt) (auto simp: my_db_get_def split: bind_splits)
  then show ?thesis using Some assms(2) assms(1) [of sql] by (cases stmt) (simp add: my_db_get_def split_beta)
qed simp

lemma mysql_scan_refused:
  assumes "\<And>env sql. fst (my_query L env sql) \<noteq> 0"
  shows "my_scan_db L h now W W6 T white_exp = None"
  by (cases "asprintf (fst (my_scan_delete (mh_host h))) (snd (my_scan_delete (mh_host h)))")
     (simp_all add: my_scan_db_def split_beta Let_def assms)

end
