(* ===== verification/Config_Merge.thy ===== *)
theory Config_Merge
  imports Config_Load
begin

text \<open>
  Shows what \<open>Config_merge\<close> of \<open>src/src/greyd_config.c\<close> does: on the variables it is the overriding of the
  maps, section by section, as long as the section table of the target has room for the sections of both. The
  programs use it to lay the options of the command line over the configuration file.
\<close>

section \<open>Overriding\<close>

text \<open>The variables of a configuration laid over those of another.\<close>

definition laid_over :: "(string \<Rightarrow> string \<rightharpoonup> Config_value) \<Rightarrow> (string \<Rightarrow> string \<rightharpoonup> Config_value) \<Rightarrow> string \<Rightarrow> string \<rightharpoonup> Config_value" where
  "laid_over base over sec = base sec ++ over sec"

text \<open>The names of the sections, and the room for a set of names in the table.\<close>

definition cfg_names :: "Config_T \<Rightarrow> string set" where
  "cfg_names c = dom (hash_map (cfg_sections c))"

definition room_for :: "Config_T \<Rightarrow> string set \<Rightarrow> bool" where
  "room_for c names \<longleftrightarrow> finite names \<and> card (cfg_names c \<union> names) \<le> hash_size (cfg_sections c)"

lemma Config_value_clone_id [simp]: "Config_value_clone v = v"
proof (induction v)
  case (List_value l)
  have "fold (\<lambda>v acc. acc @ [Config_value_clone v]) l acc = acc @ l" for acc
    using List_value by (induction l arbitrary: acc) auto
  then show ?case by simp
qed simp_all

lemma finite_dom_hash: "finite (dom (hash_map h))"
  by (simp add: hash_map_def slots_map_def finite_dom_map_of split: option.split)

lemma room_safe:
  assumes "cfg_inv c" and "room_for c names" and "sec \<in> names"
  shows "lookup_safe c sec"
proof (cases "sec \<in> cfg_names c")
  case True
  then show ?thesis by (auto simp: lookup_safe_def cfg_names_def)
next
  case False
  have n: "num_entries (cfg_sections c) = card (cfg_names c)"
    using hash_entries_card [of "cfg_sections c"] assms(1) by (simp add: cfg_names_def cfg_inv_def)
  have fin: "finite (cfg_names c \<union> names)"
    using assms(1,2) finite_dom_hash by (simp add: cfg_names_def cfg_inv_def room_for_def)
  have "card (cfg_names c) < card (cfg_names c \<union> names)"
    using False assms(3) fin by (intro psubset_card_mono) auto
  then show ?thesis using n assms(2) by (simp add: lookup_safe_def room_for_def)
qed

section \<open>Steps\<close>

lemma restrict_dom: "m |` dom m = m"
  by (rule ext) (simp add: restrict_map_def domIff)

lemma map_add_twice [simp]: "m ++ n ++ n = m ++ n"
  by (rule ext) (simp add: map_add_def split: option.split)

lemma section_vars:
  assumes "cfg_inv c" and "hash_map (cfg_sections c) sec = Some r"
  shows "hash_map (sec_vars (cfg_store c ! r)) = cfg_abs c sec"
  using assms by (auto simp: cfg_inv_def cfg_abs_def)

lemma update_sec_ok:
  assumes "cfg_inv c" and "hash_map (cfg_sections c) sec = Some r"
    and "f (cfg_store c ! r) = Some s'" and "hash_inv (sec_vars s')"
  obtains c' where "update_sec c r f = Some c'" and "cfg_inv c'" and "cfg_sections c' = cfg_sections c"
    and "cfg_abs c' = (cfg_abs c)(sec := hash_map (sec_vars s'))" and "cfg_store c' = (cfg_store c)[r := s']"
proof -
  have r: "r < length (cfg_store c)" using assms(1,2) by (auto simp: cfg_inv_def)
  let ?c' = "c\<lparr>cfg_store := (cfg_store c)[r := s']\<rparr>"
  have "cfg_abs ?c' = (cfg_abs c)(sec := hash_map (sec_vars s'))"
  proof (rule ext)
    fix x
    show "cfg_abs ?c' x = ((cfg_abs c)(sec := hash_map (sec_vars s'))) x"
  proof (cases "x = sec")
    case True
    then show ?thesis using assms(2) r by (auto simp: cfg_abs_def fun_eq_iff)
  next
    case False
    then have "hash_map (cfg_sections c) x \<noteq> Some r" using assms(1,2) by (auto simp: cfg_inv_def inj_on_def dom_def)
    then show ?thesis using False by (auto simp: cfg_abs_def fun_eq_iff split: option.splits)
  qed
  qed
  moreover have "cfg_inv ?c'"
    using assms(1,4) set_update_subset_insert [of "cfg_store c" r s'] by (auto simp: cfg_inv_def)
  moreover have "update_sec c r f = Some ?c'" using assms(3) r by (simp add: update_sec_def get_sec_def nth_opt_def)
  moreover have "cfg_sections ?c' = cfg_sections c" "cfg_store ?c' = (cfg_store c)[r := s']" by simp_all
  ultimately show ?thesis using that [of ?c'] by blast
qed

text \<open>The section and what is known of the table afterwards.\<close>

lemma find_or_create_names:
  assumes "cfg_inv c" and "lookup_safe c sec" and "length sec \<le> MAX_KEY_LEN"
  obtains r c1 where "find_or_create c sec = Some (r, c1)" and "cfg_inv c1" and "cfg_abs c1 = cfg_abs c"
    and "hash_map (cfg_sections c1) sec = Some r" and "r < length (cfg_store c1)"
    and "cfg_names c1 = insert sec (cfg_names c)" and "hash_size (cfg_sections c) \<le> hash_size (cfg_sections c1)"
    and "set (cfg_store c1) \<subseteq> insert (Config_section_create sec) (set (cfg_store c))"
proof -
  obtain r c1 where f: "find_or_create c sec = Some (r, c1)" "cfg_inv c1" "cfg_abs c1 = cfg_abs c"
    "hash_map (cfg_sections c1) sec = Some r" "r < length (cfg_store c1)"
    using find_or_create_ok [OF assms] by blast
  have g: "Hash_get (cfg_sections c) sec = Some (hash_map (cfg_sections c) sec)" using lookup_section [OF assms(1,2)] .
  have "cfg_names c1 = insert sec (cfg_names c) \<and> hash_size (cfg_sections c) \<le> hash_size (cfg_sections c1) \<and>
      set (cfg_store c1) \<subseteq> insert (Config_section_create sec) (set (cfg_store c))"
  proof (cases "hash_map (cfg_sections c) sec")
    case (Some r')
    then show ?thesis using f(1) g by (auto simp: find_or_create_def cfg_names_def)
  next
    case None
    obtain h where h: "Hash_insert (cfg_sections c) sec (length (cfg_store c)) = Some h"
      "hash_map h = (hash_map (cfg_sections c))(sec \<mapsto> length (cfg_store c))"
      "hash_size h \<in> {hash_size (cfg_sections c), 2 * hash_size (cfg_sections c)}"
      using Hash_insert_correct [of "cfg_sections c" sec "length (cfg_store c)" thesis] assms(1,3) unfolding cfg_inv_def by blast
    then have "c1 = c\<lparr>cfg_store := cfg_store c @ [Config_section_create sec], cfg_sections := h\<rparr>"
      using f(1) g None
      by (simp add: find_or_create_def new_section_def Config_add_section_def get_sec_def nth_opt_def Config_section_create_def)
    then show ?thesis using h by (auto simp: cfg_names_def)
  qed
  then show ?thesis using that f by blast
qed

lemma stored_key_short:
  assumes "hash_inv h" and "hash_map h k = Some v"
  shows "length k \<le> MAX_KEY_LEN"
proof (cases "entries h")
  case None
  then show ?thesis using assms(2) by (simp add: hash_map_def)
next
  case (Some es)
  then obtain p where p: "p < length es" "entry_k (es ! p) = k" "entry_v (es ! p) = Some v"
    using hash_map_Some_iff [OF assms(1) Some] assms(2) by (auto simp: in_set_conv_nth)
  then show ?thesis using slots_okD(2) [of es p] assms(1) Some by (auto simp: hash_inv_def occ_def)
qed

lemma merge_vars_ok:
  assumes "hash_inv (sec_vars fs)" and "hash_inv (sec_vars to)" and "set ks \<subseteq> dom (hash_map (sec_vars fs))"
  shows "\<exists>to'. merge_vars fs ks to = Some to' \<and> hash_inv (sec_vars to') \<and>
           hash_map (sec_vars to') = hash_map (sec_vars to) ++ (hash_map (sec_vars fs) |` set ks)"
  using assms(2,3)
proof (induction ks arbitrary: to)
  case (Cons k ks)
  obtain v where v: "hash_map (sec_vars fs) k = Some v" using Cons.prems(2) by auto
  have g: "Hash_get (sec_vars fs) k = Some (Some v)" using ht.get_present [OF assms(1) v] .
  obtain t1 where t1: "Config_section_set to k v = Some t1" "hash_inv (sec_vars t1)"
    "hash_map (sec_vars t1) = (hash_map (sec_vars to))(k \<mapsto> v)"
    using cs.put_ok [OF Cons.prems(1) stored_key_short [OF assms(1) v]] by blast
  have "(hash_map (sec_vars to))(k \<mapsto> v) ++ (hash_map (sec_vars fs) |` set ks) =
      hash_map (sec_vars to) ++ (hash_map (sec_vars fs) |` set (k # ks))"
    using v by (auto simp: fun_eq_iff map_add_def restrict_map_def split: option.split)
  moreover obtain t' where "merge_vars fs ks t1 = Some t'" "hash_inv (sec_vars t')"
    "hash_map (sec_vars t') = hash_map (sec_vars t1) ++ (hash_map (sec_vars fs) |` set ks)"
    using Cons.IH [OF t1(2)] Cons.prems(2) by auto
  ultimately show ?case using g t1(1,3) by (intro exI [of _ t']) (simp del: fun_upd_apply)
qed simp

lemma merge_sections_ok:
  assumes "cfg_inv from" and "cfg_inv c" and "set ks \<subseteq> cfg_names from" and "room_for c (set ks)"
  shows "\<exists>c'. merge_sections from ks c = Some c' \<and> cfg_inv c' \<and> cfg_names c' = cfg_names c \<union> set ks \<and>
           hash_size (cfg_sections c) \<le> hash_size (cfg_sections c') \<and>
           (\<forall>sec. cfg_abs c' sec = (if sec \<in> set ks then cfg_abs c sec ++ cfg_abs from sec else cfg_abs c sec))"
  using assms(2-)
proof (induction ks arbitrary: c)
  case (Cons k ks)
  obtain fr where fr: "hash_map (cfg_sections from) k = Some fr" using Cons.prems(2) by (auto simp: cfg_names_def)
  then have frr: "fr < length (cfg_store from)" using assms(1) by (auto simp: cfg_inv_def)
  let ?fs = "cfg_store from ! fr"
  have fs: "hash_inv (sec_vars ?fs)" "hash_map (sec_vars ?fs) = cfg_abs from k"
    using section_vars [OF assms(1) fr] assms(1) frr by (auto simp: cfg_inv_def)
  have g: "Hash_get (cfg_sections from) k = Some (Some fr)" "get_sec from fr = Some ?fs"
    using ht.get_present fr assms(1) frr by (auto simp: cfg_inv_def get_sec_def nth_opt_def)
  have klen: "length k \<le> MAX_KEY_LEN" using stored_key_short fr assms(1) by (auto simp: cfg_inv_def)
  obtain r c1 where c1: "find_or_create c k = Some (r, c1)" "cfg_inv c1" "cfg_abs c1 = cfg_abs c"
    "hash_map (cfg_sections c1) k = Some r" "r < length (cfg_store c1)"
    "cfg_names c1 = insert k (cfg_names c)" "hash_size (cfg_sections c) \<le> hash_size (cfg_sections c1)"
    "set (cfg_store c1) \<subseteq> insert (Config_section_create k) (set (cfg_store c))"
    by (rule find_or_create_names [OF Cons.prems(1) room_safe [OF Cons.prems(1,3) list.set_intros(1)] klen])
  have abs1: "hash_map (sec_vars (cfg_store c1 ! r)) = cfg_abs c k" "hash_inv (sec_vars (cfg_store c1 ! r))"
    using section_vars [OF c1(2,4)] c1(2,3,5) by (auto simp: cfg_inv_def)
  obtain c2 where c2: "(case Hash_keys (sec_vars ?fs) of None \<Rightarrow> Some c1
      | Some section_keys \<Rightarrow> update_sec c1 r (merge_vars ?fs (list_head section_keys))) = Some c2"
    "cfg_inv c2" "cfg_sections c2 = cfg_sections c1" "cfg_abs c2 = (cfg_abs c)(k := cfg_abs c k ++ cfg_abs from k)"
  proof (cases "Hash_keys (sec_vars ?fs)")
    case None
    then have "cfg_abs from k = Map.empty" using Hash_keys_correct [OF fs(1)] fs(2) by simp
    then show thesis using that [of c1] None c1(2,3) by simp
  next
    case (Some section_keys)
    then have ks: "set (list_head section_keys) = dom (cfg_abs from k)" using Hash_keys_correct [OF fs(1)] fs(2) by simp
    obtain s' where s': "merge_vars ?fs (list_head section_keys) (cfg_store c1 ! r) = Some s'" "hash_inv (sec_vars s')"
      "hash_map (sec_vars s') = cfg_abs c k ++ cfg_abs from k"
      using merge_vars_ok [OF fs(1) abs1(2), of "list_head section_keys"] ks fs(2) abs1(1) by (auto simp: restrict_dom)
    obtain c' where "update_sec c1 r (merge_vars ?fs (list_head section_keys)) = Some c'" "cfg_inv c'"
      "cfg_sections c' = cfg_sections c1" "cfg_abs c' = (cfg_abs c1)(k := hash_map (sec_vars s'))"
      using update_sec_ok [where f = "merge_vars ?fs (list_head section_keys)", OF c1(2,4) s'(1,2)] by blast
    then show thesis using that [of c'] Some s'(3) c1(3) by simp
  qed
  have names2: "cfg_names c2 = insert k (cfg_names c)" using c2(3) c1(6) by (simp add: cfg_names_def)
  have "room_for c2 (set ks)"
    using Cons.prems(3) names2 c2(3) c1(7) by (auto simp: room_for_def)
  then obtain c' where "merge_sections from ks c2 = Some c'" "cfg_inv c'" "cfg_names c' = cfg_names c2 \<union> set ks"
    "hash_size (cfg_sections c2) \<le> hash_size (cfg_sections c')"
    "\<forall>sec. cfg_abs c' sec = (if sec \<in> set ks then cfg_abs c2 sec ++ cfg_abs from sec else cfg_abs c2 sec)"
    using Cons.IH [OF c2(2)] Cons.prems(2) by auto
  moreover have "merge_sections from (k # ks) c = merge_sections from ks c2" using c1(1) g c2(1) by simp
  ultimately show ?case using c2(3,4) c1(7) names2 by (intro exI [of _ c']) auto
qed auto

lemma merge_laid_over:
  assumes "cfg_inv config" and "cfg_inv from" and "room_for config (cfg_names from)"
  shows "\<exists>config'. Config_merge config from = Some config' \<and> cfg_inv config' \<and>
           cfg_abs config' = laid_over (cfg_abs config) (cfg_abs from) \<and> cfg_names config' = cfg_names config \<union> cfg_names from"
proof (cases "Hash_keys (cfg_sections from)")
  case None
  then have "hash_map (cfg_sections from) = Map.empty" using Hash_keys_correct [of "cfg_sections from"] assms(2)
    by (simp add: cfg_inv_def)
  then show ?thesis using None assms(1) by (auto simp: Config_merge_def laid_over_def cfg_abs_def [of "from"] map_add_def cfg_names_def fun_eq_iff)
next
  case (Some keys)
  then have k: "set (list_head keys) = cfg_names from" using Hash_keys_correct [of "cfg_sections from"] assms(2)
    by (simp add: cfg_inv_def cfg_names_def)
  then obtain c' where c': "merge_sections from (list_head keys) config = Some c'" "cfg_inv c'"
    "cfg_names c' = cfg_names config \<union> cfg_names from"
    "\<And>sec. cfg_abs c' sec = (if sec \<in> cfg_names from then cfg_abs config sec ++ cfg_abs from sec else cfg_abs config sec)"
    using merge_sections_ok [OF assms(2,1), of "list_head keys"] assms(3) by auto
  have "cfg_abs from sec = Map.empty" if "sec \<notin> cfg_names from" for sec
    using that by (auto simp: cfg_abs_def cfg_names_def fun_eq_iff split: option.split)
  then have "cfg_abs c' = laid_over (cfg_abs config) (cfg_abs from)"
    using c'(4) by (intro ext) (simp add: laid_over_def)
  then show ?thesis using c'(1-3) Some by (simp add: Config_merge_def)
qed

end
