(* ===== verification/Options.thy ===== *)
theory Options
  imports Grey Config_Merge
begin

text \<open>
  What the programs use of the C library to read their command lines: \<open>getopt\<close>, \<open>atoi\<close> and \<open>sscanf\<close>; and
  configurations that hold options, which are small enough for every lookup in them to be right.
\<close>

section \<open>getopt\<close>

text \<open>Whether an option takes an argument; \<open>None\<close> when the option string does not have it.\<close>

fun takes_arg :: "string \<Rightarrow> char \<Rightarrow> bool option" where
  "takes_arg [] c = None"
| "takes_arg (x # xs) c =
     (if x = c \<and> c \<noteq> CHR '':'' \<and> c \<noteq> CHR '';'' then Some (xs \<noteq> [] \<and> hd xs = CHR '':'') else takes_arg xs c)"

definition is_option :: "string \<Rightarrow> bool" where
  "is_option a \<longleftrightarrow> length a > 1 \<and> hd a = CHR ''-''"

text \<open>
  The options with their arguments in the order in which \<open>getopt\<close> returns them, and the other arguments. The
  third argument is the rest of the word that is being read. Arguments that are not options are passed over,
  unless \<open>posix\<close> behaviour is asked for; \<open>?\<close> stands for an unknown option or one without its argument.
\<close>

function getopt :: "bool \<Rightarrow> string \<Rightarrow> string \<Rightarrow> string list \<Rightarrow> (char \<times> string) list \<times> string list" where
  "getopt posix spec [] [] = ([], [])"
| "getopt posix spec [] (a # as) =
     (if a = ''--'' then ([], as)
      else if is_option a then getopt posix spec (tl a) as
      else if posix then ([], a # as) else apsnd ((#) a) (getopt posix spec [] as))"
| "getopt posix spec (c # cs) as =
     (case takes_arg spec c of
        None \<Rightarrow> apfst ((#) (CHR ''?'', [])) (getopt posix spec cs as)
      | Some False \<Rightarrow> apfst ((#) (c, [])) (getopt posix spec cs as)
      | Some True \<Rightarrow>
          if cs \<noteq> [] then apfst ((#) (c, cs)) (getopt posix spec [] as)
          else (case as of [] \<Rightarrow> ([(CHR ''?'', [])], []) | a # as' \<Rightarrow> apfst ((#) (c, a)) (getopt posix spec [] as')))"
  by pat_completeness auto
termination
  by (relation "measure (\<lambda>(posix, spec, cs, as). length cs + sum_list (map (Suc \<circ> length) as))") auto

section \<open>Numbers\<close>

definition atoi :: "string \<Rightarrow> int" where
  "atoi s = wrap_int (fst (strtol s))"

definition ULLONG_MAX :: int where "ULLONG_MAX = 2 ^ 64 - 1"

text \<open>The directive \<open>%llu\<close>: the number read and the rest of the text; a minus sign negates modulo \<open>2 ^ 64\<close>.\<close>

definition scan_llu :: "string \<Rightarrow> (int \<times> string) option" where
  "scan_llu s =
     (let s1 = dropWhile char_isspace s;
          (neg, s2) = (case s1 of c # r \<Rightarrow> if c = CHR ''-'' then (True, r) else if c = CHR ''+'' then (False, r) else (False, s1)
                       | [] \<Rightarrow> (False, s1))
      in if s2 \<noteq> [] \<and> isdigit_c (char_code (hd s2))
         then (let (v, rest) = take_digits s2 0
               in Some (if v > ULLONG_MAX then ULLONG_MAX else if neg then (- v) mod 2 ^ 64 else v, rest))
         else None)"

text \<open>\<open>sscanf\<close> with \<open>%llu:%llu:%llu\<close>; \<open>None\<close> unless it returns 3.\<close>

definition skip_colon :: "string \<Rightarrow> string option" where
  "skip_colon s = (case s of c # r \<Rightarrow> if c = CHR '':'' then Some r else None | [] \<Rightarrow> None)"

definition scan_times :: "string \<Rightarrow> (int \<times> int \<times> int) option" where
  "scan_times s =
     do { (a, s1) \<leftarrow> scan_llu s; s2 \<leftarrow> skip_colon s1; (b, s3) \<leftarrow> scan_llu s2; s4 \<leftarrow> skip_colon s3;
          (c, s5) \<leftarrow> scan_llu s4; Some (a, b, c) }"

text \<open>What becomes of a program that reads its command line: the usage message, another error, or it goes on.\<close>

datatype 'a started = Usage | Stopped | Started 'a

section \<open>Small configurations\<close>

text \<open>The variables that options set.\<close>

definition opt_vars :: "string list" where
  "opt_vars =
     [''daemonize'', ''error_code'', ''enable_ipv6'', ''bind_address'', ''bind_address_ipv6'', ''max_cons_black'', ''max_cons'',
      ''port'', ''greyd_pidfile'', ''greylogd_pidfile'', ''debug'', ''enable'', ''pass_time'', ''grey_expiry'', ''white_expiry'',
      ''hostname'', ''stutter'', ''low_prio_mx'', ''banner'', ''verbose'', ''window'', ''hosts'', ''track_outbound'']"

definition opt_secs :: "string list" where
  "opt_secs = [''default'', ''grey'', ''sync'', ''firewall'']"

definition small_sec :: "Config_section_T \<Rightarrow> bool" where
  "small_sec s \<longleftrightarrow> dom (hash_map (sec_vars s)) \<subseteq> set opt_vars \<and> CONFIG_SEC_INIT_ENTRIES \<le> hash_size (sec_vars s)"

definition opts_ok :: "Config_T \<Rightarrow> bool" where
  "opts_ok c \<longleftrightarrow> cfg_inv c \<and> cfg_names c \<subseteq> set opt_secs \<and> CONFIG_INIT_SECTIONS \<le> hash_size (cfg_sections c) \<and>
     (\<forall>s\<in>set (cfg_store c). small_sec s)"

text \<open>One variable set, as an operation on the map of the variables.\<close>

definition set_var :: "string \<Rightarrow> string \<Rightarrow> Config_value \<Rightarrow> (string \<Rightarrow> string \<rightharpoonup> Config_value) \<Rightarrow> string \<Rightarrow> string \<rightharpoonup> Config_value" where
  "set_var sec var v m = m(sec := (m sec)(var \<mapsto> v))"

lemma opts_create: "opts_ok Config_create"
  using Config_create_inv(1) by (auto simp: opts_ok_def Config_create_def cfg_names_def Hash_create_def hash_map_def)

lemma opt_name_short: "sec \<in> set opt_secs \<Longrightarrow> length sec \<le> MAX_KEY_LEN" "var \<in> set opt_vars \<Longrightarrow> length var \<le> MAX_KEY_LEN"
  by (auto simp: opt_secs_def opt_vars_def MAX_KEY_LEN_def)

lemma opts_room:
  assumes "opts_ok c"
  shows "room_for c (set opt_secs)"
proof -
  have "card (cfg_names c \<union> set opt_secs) \<le> 4"
    using assms card_length [of opt_secs] by (simp add: opts_ok_def Un_absorb1) (simp add: opt_secs_def)
  then show ?thesis using assms by (simp add: room_for_def opts_ok_def CONFIG_INIT_SECTIONS_def)
qed

lemma section_set_size:
  assumes "hash_inv (sec_vars s)" and "length var \<le> MAX_KEY_LEN"
  obtains s' where "Config_section_set s var v = Some s'" and "hash_inv (sec_vars s')"
    and "hash_map (sec_vars s') = (hash_map (sec_vars s))(var \<mapsto> v)" and "hash_size (sec_vars s) \<le> hash_size (sec_vars s')"
proof -
  obtain h where h: "Hash_insert (sec_vars s) var v = Some h" "hash_inv h" "hash_map h = (hash_map (sec_vars s))(var \<mapsto> v)"
    "hash_size h \<in> {hash_size (sec_vars s), 2 * hash_size (sec_vars s)}"
    by (rule Hash_insert_correct [OF assms])
  then have "hash_size (sec_vars s) \<le> hash_size h" by auto
  then show ?thesis using that [of "s\<lparr>sec_vars := h\<rparr>"] h(1-3) by (simp add: Config_section_set_def)
qed

text \<open>A section of a small configuration is found or created, and updating it keeps the configuration small.\<close>

lemma opts_section:
  assumes "opts_ok c" and "sec \<in> set opt_secs"
  obtains r c1 where "find_or_create c sec = Some (r, c1)" and "opts_ok c1" and "cfg_abs c1 = cfg_abs c"
    and "hash_map (cfg_sections c1) sec = Some r" and "r < length (cfg_store c1)"
proof -
  have inv: "cfg_inv c" using assms(1) by (simp add: opts_ok_def)
  obtain r c1 where c1: "find_or_create c sec = Some (r, c1)" "cfg_inv c1" "cfg_abs c1 = cfg_abs c"
    "hash_map (cfg_sections c1) sec = Some r" "r < length (cfg_store c1)"
    "cfg_names c1 = insert sec (cfg_names c)" "hash_size (cfg_sections c) \<le> hash_size (cfg_sections c1)"
    "set (cfg_store c1) \<subseteq> insert (Config_section_create sec) (set (cfg_store c))"
    by (rule find_or_create_names [OF inv room_safe [OF inv opts_room [OF assms(1)] assms(2)] opt_name_short(1) [OF assms(2)]])
  have "small_sec (Config_section_create sec)" by (simp add: small_sec_def Config_section_create_def Hash_create_def hash_map_def)
  then have "\<forall>s\<in>set (cfg_store c1). small_sec s" using c1(8) assms(1) unfolding opts_ok_def by blast
  then have "opts_ok c1" using c1(2,6,7) assms by (simp add: opts_ok_def)
  then show ?thesis using that c1(1,3-5) by blast
qed

lemma opts_set_value:
  assumes "opts_ok c" and "sec \<in> set opt_secs" and "var \<in> set opt_vars"
  shows "\<exists>c'. set_value c var sec v = Some c' \<and> opts_ok c' \<and> cfg_abs c' = set_var sec var v (cfg_abs c)"
proof -
  obtain r c1 where c1: "find_or_create c sec = Some (r, c1)" "opts_ok c1" "cfg_abs c1 = cfg_abs c"
    "hash_map (cfg_sections c1) sec = Some r" "r < length (cfg_store c1)"
    by (rule opts_section [OF assms(1,2)])
  let ?s = "cfg_store c1 ! r"
  have s: "hash_inv (sec_vars ?s)" "small_sec ?s" and inv: "cfg_inv c1"
    using c1(2,5) by (auto simp: opts_ok_def cfg_inv_def)
  obtain s' where s': "Config_section_set ?s var v = Some s'" "hash_inv (sec_vars s')"
    "hash_map (sec_vars s') = (hash_map (sec_vars ?s))(var \<mapsto> v)" "hash_size (sec_vars ?s) \<le> hash_size (sec_vars s')"
    by (rule section_set_size [OF s(1) opt_name_short(2) [OF assms(3)]])
  obtain c' where c': "update_sec c1 r (\<lambda>s. Config_section_set s var v) = Some c'" "cfg_inv c'" "cfg_sections c' = cfg_sections c1"
    "cfg_abs c' = (cfg_abs c1)(sec := hash_map (sec_vars s'))" "cfg_store c' = (cfg_store c1)[r := s']"
    by (rule update_sec_ok [where f = "\<lambda>s. Config_section_set s var v", OF inv c1(4) s'(1,2)])
  have "small_sec s'" using s(2) s'(3,4) assms(3) by (auto simp: small_sec_def)
  then have "\<forall>s\<in>set (cfg_store c'). small_sec s"
    using c1(2) c'(5) set_update_subset_insert [of "cfg_store c1" r s'] unfolding opts_ok_def by auto
  then have "opts_ok c'" using c1(2) c'(2,3) by (simp add: opts_ok_def cfg_names_def)
  moreover have "hash_map (sec_vars ?s) = cfg_abs c sec" using section_vars [OF inv c1(4)] c1(3) by simp
  ultimately show ?thesis using c1(1,3) c'(1,4) s'(3) by (auto simp: set_value_def set_var_def)
qed

lemma opts_set_int:
  assumes "opts_ok c" and "default_section sec \<in> set opt_secs" and "var \<in> set opt_vars"
  shows "\<exists>c'. Config_set_int c var sec i = Some c' \<and> opts_ok c' \<and> cfg_abs c' = set_var (default_section sec) var (Int_value i) (cfg_abs c)"
  using opts_set_value [OF assms, of "Int_value i"] by (simp add: Config_set_int_def set_value_def Config_section_set_int_def)

lemma opts_set_str:
  assumes "opts_ok c" and "default_section sec \<in> set opt_secs" and "var \<in> set opt_vars"
  shows "\<exists>c'. Config_set_str c var sec x = Some c' \<and> opts_ok c' \<and> cfg_abs c' = set_var (default_section sec) var (Str_value x) (cfg_abs c)"
  using opts_set_value [OF assms, of "Str_value x"] by (simp add: Config_set_str_def set_value_def Config_section_set_str_def)

text \<open>A lookup in a small section is right.\<close>

lemma small_get:
  assumes "hash_inv (sec_vars s)" and "small_sec s"
  shows "Config_section_get s var = Some (hash_map (sec_vars s) var)"
proof -
  have "card (dom (hash_map (sec_vars s))) \<le> card (set opt_vars)"
    using assms(2) by (intro card_mono) (simp_all add: small_sec_def)
  also have "\<dots> \<le> 23" using card_length [of opt_vars] by (simp add: opt_vars_def)
  finally have "num_entries (sec_vars s) < hash_size (sec_vars s)"
    using hash_entries_card [OF assms(1)] assms(2) by (simp add: small_sec_def CONFIG_SEC_INIT_ENTRIES_def)
  then show ?thesis
    using Hash_get_absent [OF assms(1)] Hash_get_present [OF assms(1)]
    by (cases "hash_map (sec_vars s) var") (simp_all add: Config_section_get_def)
qed

text \<open>A string appended to the list that a variable holds, on the map.\<close>

definition append_var :: "string \<Rightarrow> string \<Rightarrow> string \<Rightarrow> (string \<Rightarrow> string \<rightharpoonup> Config_value) \<Rightarrow> string \<Rightarrow> string \<rightharpoonup> Config_value" where
  "append_var sec var x m =
     set_var sec var (List_value ((case cv_list (m sec var) of None \<Rightarrow> [] | Some vs \<Rightarrow> vs) @ [Str_value x])) m"

definition append_str :: "string \<Rightarrow> string \<Rightarrow> Config_section_T \<Rightarrow> Config_section_T option" where
  "append_str varname str s =
     do { v \<leftarrow> Config_section_get s varname;
          s1 \<leftarrow> (if v = None then Config_section_set s varname (List_value []) else Some s);
          l \<leftarrow> Config_section_get_list s1 varname;
          case l of None \<Rightarrow> None
          | Some vs \<Rightarrow> Config_section_set s1 varname (List_value (vs @ [Str_value str])) }"

lemma append_list_append_str:
  "Config_append_list_str c var sec x = do { (ref, c1) \<leftarrow> find_or_create c sec; update_sec c1 ref (append_str var x) }"
  by (simp add: Config_append_list_str_def append_str_def [abs_def])

lemma append_str_ok:
  assumes "hash_inv (sec_vars s)" and "small_sec s" and "var \<in> set opt_vars"
    and "hash_map (sec_vars s) var = None \<or> hash_map (sec_vars s) var = Some (List_value vs)"
  shows "\<exists>s'. append_str var x s = Some s' \<and> hash_inv (sec_vars s') \<and> small_sec s' \<and> hash_map (sec_vars s') =
           (hash_map (sec_vars s))(var \<mapsto> List_value ((case cv_list (hash_map (sec_vars s) var) of None \<Rightarrow> [] | Some vs \<Rightarrow> vs) @ [Str_value x]))"
proof -
  have set: "\<exists>s'. Config_section_set t var v = Some s' \<and> hash_inv (sec_vars s') \<and> small_sec s' \<and>
      hash_map (sec_vars s') = (hash_map (sec_vars t))(var \<mapsto> v)"
    if t: "hash_inv (sec_vars t)" "small_sec t" for t v
  proof -
    obtain s' where s': "Config_section_set t var v = Some s'" "hash_inv (sec_vars s')"
      "hash_map (sec_vars s') = (hash_map (sec_vars t))(var \<mapsto> v)" "hash_size (sec_vars t) \<le> hash_size (sec_vars s')"
      by (rule section_set_size [OF t(1) opt_name_short(2) [OF assms(3)]])
    then have "small_sec s'" using t(2) assms(3) by (auto simp: small_sec_def)
    then show ?thesis using s'(1-3) by blast
  qed
  show ?thesis
  proof (cases "hash_map (sec_vars s) var")
    case None
    obtain s1 where s1: "Config_section_set s var (List_value []) = Some s1" "hash_inv (sec_vars s1)" "small_sec s1"
      "hash_map (sec_vars s1) = (hash_map (sec_vars s))(var \<mapsto> List_value [])"
      using set [OF assms(1,2)] by blast
    obtain s' where s': "Config_section_set s1 var (List_value [Str_value x]) = Some s'" "hash_inv (sec_vars s')" "small_sec s'"
      "hash_map (sec_vars s') = (hash_map (sec_vars s1))(var \<mapsto> List_value [Str_value x])"
      using set [OF s1(2,3)] by blast
    then show ?thesis
      using None s1 small_get [OF assms(1,2)] small_get [OF s1(2,3)] by (simp add: append_str_def Config_section_get_list_def)
  next
    case (Some v)
    then have v: "v = List_value vs" using assms(4) by simp
    obtain s' where "Config_section_set s var (List_value (vs @ [Str_value x])) = Some s'" "hash_inv (sec_vars s')" "small_sec s'"
      "hash_map (sec_vars s') = (hash_map (sec_vars s))(var \<mapsto> List_value (vs @ [Str_value x]))"
      using set [OF assms(1,2)] by blast
    then show ?thesis
      using Some v small_get [OF assms(1,2)] by (simp add: append_str_def Config_section_get_list_def)
  qed
qed

text \<open>The variable holds a list or nothing.\<close>

definition list_var :: "string \<Rightarrow> string \<Rightarrow> (string \<Rightarrow> string \<rightharpoonup> Config_value) \<Rightarrow> bool" where
  "list_var sec var m \<longleftrightarrow> m sec var = None \<or> (\<exists>vs. m sec var = Some (List_value vs))"

lemma opts_append:
  assumes "opts_ok c" and "sec \<in> set opt_secs" and "var \<in> set opt_vars" and "list_var sec var (cfg_abs c)"
  shows "\<exists>c'. Config_append_list_str c var sec x = Some c' \<and> opts_ok c' \<and> cfg_abs c' = append_var sec var x (cfg_abs c)"
proof -
  obtain r c1 where c1: "find_or_create c sec = Some (r, c1)" "opts_ok c1" "cfg_abs c1 = cfg_abs c"
    "hash_map (cfg_sections c1) sec = Some r" "r < length (cfg_store c1)"
    by (rule opts_section [OF assms(1,2)])
  let ?s = "cfg_store c1 ! r"
  have s: "hash_inv (sec_vars ?s)" "small_sec ?s" and inv: "cfg_inv c1"
    using c1(2,5) by (auto simp: opts_ok_def cfg_inv_def)
  have v: "hash_map (sec_vars ?s) = cfg_abs c sec" using section_vars [OF inv c1(4)] c1(3) by simp
  obtain vs where "hash_map (sec_vars ?s) var = None \<or> hash_map (sec_vars ?s) var = Some (List_value vs)"
    using assms(4) v by (auto simp: list_var_def)
  then obtain s' where s': "append_str var x ?s = Some s'" "hash_inv (sec_vars s')" "small_sec s'" "hash_map (sec_vars s') =
      (cfg_abs c sec)(var \<mapsto> List_value ((case cv_list (cfg_abs c sec var) of None \<Rightarrow> [] | Some vs \<Rightarrow> vs) @ [Str_value x]))"
    using append_str_ok [OF s assms(3)] v by auto
  obtain c' where c': "update_sec c1 r (append_str var x) = Some c'" "cfg_inv c'" "cfg_sections c' = cfg_sections c1"
    "cfg_abs c' = (cfg_abs c1)(sec := hash_map (sec_vars s'))" "cfg_store c' = (cfg_store c1)[r := s']"
    by (rule update_sec_ok [where f = "append_str var x", OF inv c1(4) s'(1,2)])
  have "\<forall>s\<in>set (cfg_store c'). small_sec s"
    using c1(2) s'(3) c'(5) set_update_subset_insert [of "cfg_store c1" r s'] unfolding opts_ok_def by auto
  then have "opts_ok c'" using c1(2) c'(2,3) by (simp add: opts_ok_def cfg_names_def)
  then show ?thesis using c1(1,3) c'(1,4) s'(4) by (simp add: append_list_append_str append_var_def set_var_def)
qed

end
