(* ===== verification/Daemon_Options.thy ===== *)
theory Daemon_Options
  imports Options Daemon
begin

text \<open>
  Models how \<open>main\<close> of \<open>src/src/main_greyd.c\<close> reads its command line and its configuration: the options, which
  are laid over the configuration file, and the limits on the connections that follow from both; and shows
  which setting wins and how the limits are related. The sockets and processes that \<open>main\<close> then creates are
  not modelled.
\<close>

section \<open>The options\<close>

definition MAX_HOST_NAME :: nat where "MAX_HOST_NAME = 255"
definition PROXY_PROTOCOL_ENABLED :: int where "PROXY_PROTOCOL_ENABLED = 0"
definition SETRLIMIT :: int where "SETRLIMIT = 1"

record greyd_cmd =
  gc_opts :: Config_T
  gc_file :: string
  gc_send :: int
  gc_recv :: int

definition greyd_spec :: string where
  "greyd_spec = ''F456f:l:L:c:B:p:bdG:h:s:S:M:n:vw:y:Y:P:''"

definition cmd_set :: "greyd_cmd \<Rightarrow> Config_T option \<Rightarrow> greyd_cmd started option" where
  "cmd_set cmd opts = map_option (\<lambda>o'. Started (cmd\<lparr>gc_opts := o'\<rparr>)) opts"

text \<open>\<open>-B\<close> and \<open>-c\<close>, \<open>-G\<close> and \<open>-h\<close>.\<close>

definition option_cons :: "int \<Rightarrow> greyd_cmd \<Rightarrow> string \<Rightarrow> string \<Rightarrow> greyd_cmd started option" where
  "option_cons limit cmd var arg =
     (let i = atoi arg in if i > limit then Some Usage else cmd_set cmd (Config_set_int (gc_opts cmd) var None i))"

definition option_G :: "greyd_cmd \<Rightarrow> string \<Rightarrow> greyd_cmd started option" where
  "option_G cmd arg =
     (case scan_times arg of
        None \<Rightarrow> Some Usage
      | Some (pass_time, grey_time, white_time) \<Rightarrow>
          cmd_set cmd (do { o1 \<leftarrow> Config_set_int (gc_opts cmd) ''pass_time'' (Some ''grey'') (wrap_int (pass_time * 60));
                            o2 \<leftarrow> Config_set_int o1 ''grey_expiry'' (Some ''grey'') (wrap_int (grey_time * 60 * 60));
                            Config_set_int o2 ''white_expiry'' (Some ''grey'') (wrap_int (white_time * 60 * 60)) }))"

definition option_h :: "greyd_cmd \<Rightarrow> string \<Rightarrow> greyd_cmd started option" where
  "option_h cmd arg =
     do { (n, hostname) \<leftarrow> sstrncpy (replicate MAX_HOST_NAME NUL) arg MAX_HOST_NAME;
          if n \<ge> MAX_HOST_NAME then Some Usage
          else cmd_set cmd (Config_set_str (gc_opts cmd) ''hostname'' None (c_str hostname)) }"

definition option_stutter :: "greyd_cmd \<Rightarrow> string option \<Rightarrow> int \<Rightarrow> string \<Rightarrow> greyd_cmd started option" where
  "option_stutter cmd sec stutter arg =
     (let i = atoi arg in
      if i < 0 \<or> i > 10 * stutter then Some Usage else cmd_set cmd (Config_set_int (gc_opts cmd) ''stutter'' sec i))"

definition option_w :: "greyd_cmd \<Rightarrow> string \<Rightarrow> greyd_cmd started option" where
  "option_w cmd arg =
     (let i = atoi arg in if i \<le> 0 then Some Usage else cmd_set cmd (Config_set_int (gc_opts cmd) ''window'' None i))"

text \<open>A round of the loop over the options.\<close>

definition greyd_option :: "int \<Rightarrow> greyd_cmd \<Rightarrow> char \<times> string \<Rightarrow> greyd_cmd started option" where
  "greyd_option limit cmd opt =
     (let (option, optarg) = opt; opts = gc_opts cmd in
      if option = CHR ''F'' then cmd_set cmd (Config_set_int opts ''daemonize'' None 0)
      else if option = CHR ''f'' then Some (Started (cmd\<lparr>gc_file := optarg\<rparr>))
      else if option = CHR ''4'' then cmd_set cmd (Config_set_str opts ''error_code'' None ''450'')
      else if option = CHR ''5'' then cmd_set cmd (Config_set_str opts ''error_code'' None ''550'')
      else if option = CHR ''6'' then cmd_set cmd (Config_set_int opts ''enable_ipv6'' None 1)
      else if option = CHR ''l'' then cmd_set cmd (Config_set_str opts ''bind_address'' None optarg)
      else if option = CHR ''L'' then cmd_set cmd (Config_set_str opts ''bind_address_ipv6'' None optarg)
      else if option = CHR ''B'' then option_cons limit cmd ''max_cons_black'' optarg
      else if option = CHR ''c'' then option_cons limit cmd ''max_cons'' optarg
      else if option = CHR ''p'' then cmd_set cmd (Config_set_int opts ''port'' None (atoi optarg))
      else if option = CHR ''P'' then cmd_set cmd (Config_set_str opts ''greyd_pidfile'' None optarg)
      else if option = CHR ''d'' then cmd_set cmd (Config_set_int opts ''debug'' None 1)
      else if option = CHR ''b'' then cmd_set cmd (Config_set_int opts ''enable'' (Some ''grey'') 0)
      else if option = CHR ''G'' then option_G cmd optarg
      else if option = CHR ''h'' then option_h cmd optarg
      else if option = CHR ''s'' then option_stutter cmd None CON_STUTTER optarg
      else if option = CHR ''S'' then option_stutter cmd (Some ''grey'') CON_GREY_STUTTER optarg
      else if option = CHR ''M'' then cmd_set cmd (Config_set_str opts ''low_prio_mx'' (Some ''grey'') optarg)
      else if option = CHR ''n'' then cmd_set cmd (Config_set_str opts ''banner'' None optarg)
      else if option = CHR ''v'' then cmd_set cmd (Config_set_int opts ''verbose'' None 1)
      else if option = CHR ''w'' then option_w cmd optarg
      else if option = CHR ''Y''
      then cmd_set (cmd\<lparr>gc_send := gc_send cmd + 1\<rparr>) (Config_append_list_str opts ''hosts'' ''sync'' optarg)
      else if option = CHR ''y''
      then cmd_set (cmd\<lparr>gc_recv := gc_recv cmd + 1\<rparr>) (Config_set_str opts ''bind_address'' (Some ''sync'') optarg)
      else Some Usage)"

fun greyd_options :: "int \<Rightarrow> (char \<times> string) list \<Rightarrow> greyd_cmd \<Rightarrow> greyd_cmd started option" where
  "greyd_options limit [] cmd = Some (Started cmd)"
| "greyd_options limit (opt # opts) cmd =
     do { r \<leftarrow> greyd_option limit cmd opt;
          case r of Started cmd' \<Rightarrow> greyd_options limit opts cmd' | _ \<Rightarrow> Some r }"

section \<open>The limits and the start\<close>

text \<open>The limits from the options and the file; no more blacklisted connections than all, if there is greylisting.\<close>

definition capped :: "int \<Rightarrow> int \<Rightarrow> int" where
  "capped limit i = (if i > limit then limit else i)"

definition connection_limits :: "int \<Rightarrow> Config_T \<Rightarrow> (int \<times> int) started option" where
  "connection_limits limit config =
     do { i \<leftarrow> Config_get_int config ''max_cons'' None CON_DEFAULT_MAX;
          j \<leftarrow> Config_get_int config ''max_cons_black'' None CON_DEFAULT_MAX;
          enable \<leftarrow> Config_get_int config ''enable'' (Some ''grey'') GREYLISTING_ENABLED;
          let max_cons = capped limit i; max_black = capped limit j in
          Some (if enable = 0 then Started (max_cons, max_cons)
                else if max_black > max_cons then Usage else Started (max_cons, max_black)) }"

text \<open>When the greylister is forked, room for connections to be greylisted is kept.\<close>

definition reserve_grey :: "int \<Rightarrow> int \<Rightarrow> int" where
  "reserve_grey max_cons max_black =
     (let max_black = (if max_black \<ge> max_cons then max_cons - 100 else max_black) in if max_black < 0 then 0 else max_black)"

text \<open>Whether to send to and to receive from other hosts.\<close>

definition sync_peers :: "Config_T \<Rightarrow> int \<Rightarrow> int \<Rightarrow> (int \<times> int) option" where
  "sync_peers config sync_send sync_recv =
     do { hosts \<leftarrow> Config_get_list config ''hosts'' (Some ''sync'');
          bind_address \<leftarrow> Config_get_str config ''bind_address'' (Some ''sync'') None;
          Some (if sync_send = 0 then (case hosts of None \<Rightarrow> 0 | Some l \<Rightarrow> int (length l)) else sync_send,
                if sync_recv = 0 \<and> bind_address \<noteq> None then 1 else sync_recv) }"

text \<open>
  What \<open>main\<close> takes from outside: the host name, the limit of open files, the files, whether the limit on
  descriptors can be set, and address conversion.
\<close>

record start_env =
  se_hostname :: "string option"
  se_file_max :: "int option"
  se_posix :: bool
  se_default_config :: string
  se_load :: load_env
  se_setrlimit :: "int \<Rightarrow> bool"
  se_inet_pton :: "u16 \<Rightarrow> string \<Rightarrow> IP_addr option"

record greyd_started =
  gm_config :: Config_T
  gm_max_files :: int
  gm_max_cons :: int
  gm_max_black :: int
  gm_send :: int
  gm_recv :: int
  gm_proxies :: "Blacklist_T option"

definition start_cmd :: "start_env \<Rightarrow> string \<Rightarrow> greyd_cmd option" where
  "start_cmd E hostname =
     do { opts \<leftarrow> Config_set_str Config_create ''hostname'' None hostname;
          Some \<lparr>gc_opts = opts, gc_file = se_default_config E, gc_send = 0, gc_recv = 0\<rparr> }"

definition greyd_configured :: "start_env \<Rightarrow> int \<Rightarrow> greyd_cmd \<Rightarrow> Config_T \<Rightarrow> greyd_started started option" where
  "greyd_configured E limit cmd config =
     do { (send, recv) \<leftarrow> sync_peers config (gc_send cmd) (gc_recv cmd);
          proxy \<leftarrow> Config_get_int config ''proxy_protocol_enable'' None PROXY_PROTOCOL_ENABLED;
          proxies \<leftarrow> (if proxy \<noteq> 0
                     then do { cidrs \<leftarrow> Config_get_list config ''proxy_protocol_permitted_proxies'' None;
                               bl \<leftarrow> Greyd_set_proxy_protocol_permitted_proxies (se_inet_pton E) cidrs; Some (Some bl) }
                     else Some None);
          limits \<leftarrow> connection_limits limit config;
          case limits of
            Started (max_cons, max_black) \<Rightarrow>
              do { setrlimit \<leftarrow> Config_get_int config ''setrlimit'' None SETRLIMIT;
                   enable \<leftarrow> Config_get_int config ''enable'' (Some ''grey'') GREYLISTING_ENABLED;
                   if setrlimit \<noteq> 0 \<and> \<not> se_setrlimit E (max_cons + 15) then Some Stopped
                   else Some (Started \<lparr>gm_config = config, gm_max_files = limit, gm_max_cons = max_cons,
                                gm_max_black = (if enable = 0 then max_black else reserve_grey max_cons max_black),
                                gm_send = send, gm_recv = recv, gm_proxies = proxies\<rparr>) }
          | _ \<Rightarrow> Some Usage }"

definition greyd_start :: "start_env \<Rightarrow> string list \<Rightarrow> greyd_started started option" where
  "greyd_start E argv =
     (case se_hostname E of
        None \<Rightarrow> Some Stopped
      | Some hostname \<Rightarrow>
          do { cmd0 \<leftarrow> start_cmd E hostname;
               case max_files (se_file_max E) of
                 None \<Rightarrow> Some Stopped
               | Some limit \<Rightarrow>
                   do { r \<leftarrow> greyd_options limit (fst (getopt (se_posix E) greyd_spec [] argv)) cmd0;
                        case r of
                          Started cmd \<Rightarrow>
                            do { config0 \<leftarrow> Config_load_file (se_load E) Config_create (Some (gc_file cmd));
                                 config \<leftarrow> Config_merge config0 (gc_opts cmd);
                                 greyd_configured E limit cmd config }
                        | Usage \<Rightarrow> Some Usage
                        | Stopped \<Rightarrow> Some Stopped } })"

section \<open>What the options mean\<close>

text \<open>The variables that an option sets.\<close>

definition opt_table :: "string \<Rightarrow> (char \<times> (string \<times> string \<times> Config_value) list) list" where
  "opt_table arg =
     [(CHR ''F'', [(''default'', ''daemonize'', Int_value 0)]),
      (CHR ''4'', [(''default'', ''error_code'', Str_value ''450'')]),
      (CHR ''5'', [(''default'', ''error_code'', Str_value ''550'')]),
      (CHR ''6'', [(''default'', ''enable_ipv6'', Int_value 1)]),
      (CHR ''l'', [(''default'', ''bind_address'', Str_value arg)]),
      (CHR ''L'', [(''default'', ''bind_address_ipv6'', Str_value arg)]),
      (CHR ''B'', [(''default'', ''max_cons_black'', Int_value (atoi arg))]),
      (CHR ''c'', [(''default'', ''max_cons'', Int_value (atoi arg))]),
      (CHR ''p'', [(''default'', ''port'', Int_value (atoi arg))]),
      (CHR ''P'', [(''default'', ''greyd_pidfile'', Str_value arg)]),
      (CHR ''d'', [(''default'', ''debug'', Int_value 1)]),
      (CHR ''b'', [(''grey'', ''enable'', Int_value 0)]),
      (CHR ''G'', (case scan_times arg of None \<Rightarrow> []
                   | Some (p, g, w) \<Rightarrow> [(''grey'', ''pass_time'', Int_value (wrap_int (p * 60))),
                                      (''grey'', ''grey_expiry'', Int_value (wrap_int (g * 60 * 60))),
                                      (''grey'', ''white_expiry'', Int_value (wrap_int (w * 60 * 60)))])),
      (CHR ''h'', [(''default'', ''hostname'', Str_value arg)]),
      (CHR ''s'', [(''default'', ''stutter'', Int_value (atoi arg))]),
      (CHR ''S'', [(''grey'', ''stutter'', Int_value (atoi arg))]),
      (CHR ''M'', [(''grey'', ''low_prio_mx'', Str_value arg)]),
      (CHR ''n'', [(''default'', ''banner'', Str_value arg)]),
      (CHR ''v'', [(''default'', ''verbose'', Int_value 1)]),
      (CHR ''w'', [(''default'', ''window'', Int_value (atoi arg))]),
      (CHR ''y'', [(''sync'', ''bind_address'', Str_value arg)])]"

definition opt_effect :: "char \<times> string \<Rightarrow> (string \<Rightarrow> string \<rightharpoonup> Config_value) \<Rightarrow> string \<Rightarrow> string \<rightharpoonup> Config_value" where
  "opt_effect opt m =
     (if fst opt = CHR ''Y'' then append_var ''sync'' ''hosts'' (snd opt) m
      else fold (\<lambda>(sec, var, v). set_var sec var v) (case map_of (opt_table (snd opt)) (fst opt) of None \<Rightarrow> [] | Some l \<Rightarrow> l) m)"

text \<open>A step on the options that succeeds or shows the usage, and has the effect \<open>m\<close> on the variables when it succeeds.\<close>

definition steps_to :: "(string \<Rightarrow> string \<rightharpoonup> Config_value) \<Rightarrow> greyd_cmd started option \<Rightarrow> bool" where
  "steps_to m r \<longleftrightarrow> r = Some Usage \<or> (\<exists>cmd'. r = Some (Started cmd') \<and> opts_ok (gc_opts cmd') \<and> cfg_abs (gc_opts cmd') = m)"

lemma steps_usage [simp]: "steps_to m (Some Usage)"
  by (simp add: steps_to_def)

lemma opt_names [simp]:
  "default_section None = ''default''" "default_section (Some x) = x"
  "''default'' \<in> set opt_secs" "''grey'' \<in> set opt_secs" "''sync'' \<in> set opt_secs"
  by (simp_all add: default_section_def CONFIG_DEFAULT_SECTION_def opt_secs_def)

lemma steps_int:
  assumes "opts_ok c" and "default_section sec \<in> set opt_secs" and "var \<in> set opt_vars"
    and "m = set_var (default_section sec) var (Int_value i) (cfg_abs c)"
  shows "steps_to m (cmd_set cmd (Config_set_int c var sec i))"
  using opts_set_int [OF assms(1-3), of i] assms(4) by (auto simp: steps_to_def cmd_set_def)

lemma steps_str:
  assumes "opts_ok c" and "default_section sec \<in> set opt_secs" and "var \<in> set opt_vars"
    and "m = set_var (default_section sec) var (Str_value x) (cfg_abs c)"
  shows "steps_to m (cmd_set cmd (Config_set_str c var sec x))"
  using opts_set_str [OF assms(1-3), of x] assms(4) by (auto simp: steps_to_def cmd_set_def)

lemma step_G:
  assumes "opts_ok (gc_opts cmd)"
  shows "steps_to (opt_effect (CHR ''G'', arg) (cfg_abs (gc_opts cmd))) (option_G cmd arg)"
proof (cases "scan_times arg")
  case (Some t)
  obtain p g w where t: "t = (p, g, w)" by (cases t)
  have v: "''pass_time'' \<in> set opt_vars" "''grey_expiry'' \<in> set opt_vars" "''white_expiry'' \<in> set opt_vars" by (simp_all add: opt_vars_def)
  have g: "default_section (Some ''grey'') \<in> set opt_secs" by simp
  obtain o1 where o1: "Config_set_int (gc_opts cmd) ''pass_time'' (Some ''grey'') (wrap_int (p * 60)) = Some o1" "opts_ok o1"
    "cfg_abs o1 = set_var ''grey'' ''pass_time'' (Int_value (wrap_int (p * 60))) (cfg_abs (gc_opts cmd))"
    using opts_set_int [OF assms g v(1)] by auto
  obtain o2 where o2: "Config_set_int o1 ''grey_expiry'' (Some ''grey'') (wrap_int (g * 60 * 60)) = Some o2" "opts_ok o2"
    "cfg_abs o2 = set_var ''grey'' ''grey_expiry'' (Int_value (wrap_int (g * 60 * 60))) (cfg_abs o1)"
    using opts_set_int [OF o1(2) g v(2)] by auto
  have "opt_effect (CHR ''G'', arg) (cfg_abs (gc_opts cmd)) = set_var ''grey'' ''white_expiry'' (Int_value (wrap_int (w * 60 * 60))) (cfg_abs o2)"
    by (simp add: opt_effect_def opt_table_def Some t o1(3) o2(3))
  then have "steps_to (opt_effect (CHR ''G'', arg) (cfg_abs (gc_opts cmd)))
      (cmd_set cmd (Config_set_int o2 ''white_expiry'' (Some ''grey'') (wrap_int (w * 60 * 60))))"
    by (intro steps_int o2(2) v(3)) simp_all
  then show ?thesis using o1(1) o2(1) by (simp add: option_G_def Some t)
qed (simp add: option_G_def)

lemma step_h:
  assumes "opts_ok (gc_opts cmd)" and "NUL \<notin> set arg"
  shows "steps_to (opt_effect (CHR ''h'', arg) (cfg_abs (gc_opts cmd))) (option_h cmd arg)"
proof -
  obtain d where d: "sstrncpy (replicate MAX_HOST_NAME NUL) arg MAX_HOST_NAME = Some (length arg, d)"
    "c_str d = take (MAX_HOST_NAME - 1) arg"
    using sstrncpy_spec [of MAX_HOST_NAME "replicate MAX_HOST_NAME NUL" arg] assms(2) by (auto simp: MAX_HOST_NAME_def)
  have "''hostname'' \<in> set opt_vars" by (simp add: opt_vars_def)
  then have "steps_to (opt_effect (CHR ''h'', arg) (cfg_abs (gc_opts cmd))) (cmd_set cmd (Config_set_str (gc_opts cmd) ''hostname'' None arg))"
    by (intro steps_str assms(1)) (simp_all add: opt_effect_def opt_table_def)
  then show ?thesis using d by (simp add: option_h_def)
qed

lemma opt_effects:
  "opt_effect (CHR ''F'', arg) m = set_var ''default'' ''daemonize'' (Int_value 0) m"
  "opt_effect (CHR ''f'', arg) m = m"
  "opt_effect (CHR ''4'', arg) m = set_var ''default'' ''error_code'' (Str_value ''450'') m"
  "opt_effect (CHR ''5'', arg) m = set_var ''default'' ''error_code'' (Str_value ''550'') m"
  "opt_effect (CHR ''6'', arg) m = set_var ''default'' ''enable_ipv6'' (Int_value 1) m"
  "opt_effect (CHR ''l'', arg) m = set_var ''default'' ''bind_address'' (Str_value arg) m"
  "opt_effect (CHR ''L'', arg) m = set_var ''default'' ''bind_address_ipv6'' (Str_value arg) m"
  "opt_effect (CHR ''B'', arg) m = set_var ''default'' ''max_cons_black'' (Int_value (atoi arg)) m"
  "opt_effect (CHR ''c'', arg) m = set_var ''default'' ''max_cons'' (Int_value (atoi arg)) m"
  "opt_effect (CHR ''p'', arg) m = set_var ''default'' ''port'' (Int_value (atoi arg)) m"
  "opt_effect (CHR ''P'', arg) m = set_var ''default'' ''greyd_pidfile'' (Str_value arg) m"
  "opt_effect (CHR ''d'', arg) m = set_var ''default'' ''debug'' (Int_value 1) m"
  "opt_effect (CHR ''b'', arg) m = set_var ''grey'' ''enable'' (Int_value 0) m"
  "opt_effect (CHR ''h'', arg) m = set_var ''default'' ''hostname'' (Str_value arg) m"
  "opt_effect (CHR ''s'', arg) m = set_var ''default'' ''stutter'' (Int_value (atoi arg)) m"
  "opt_effect (CHR ''S'', arg) m = set_var ''grey'' ''stutter'' (Int_value (atoi arg)) m"
  "opt_effect (CHR ''M'', arg) m = set_var ''grey'' ''low_prio_mx'' (Str_value arg) m"
  "opt_effect (CHR ''n'', arg) m = set_var ''default'' ''banner'' (Str_value arg) m"
  "opt_effect (CHR ''v'', arg) m = set_var ''default'' ''verbose'' (Int_value 1) m"
  "opt_effect (CHR ''w'', arg) m = set_var ''default'' ''window'' (Int_value (atoi arg)) m"
  "opt_effect (CHR ''y'', arg) m = set_var ''sync'' ''bind_address'' (Str_value arg) m"
  "opt_effect (CHR ''Y'', arg) m = append_var ''sync'' ''hosts'' arg m"
  by (simp_all add: opt_effect_def opt_table_def)

lemma opt_var_names:
  "''daemonize'' \<in> set opt_vars" "''error_code'' \<in> set opt_vars" "''enable_ipv6'' \<in> set opt_vars" "''bind_address'' \<in> set opt_vars"
  "''bind_address_ipv6'' \<in> set opt_vars" "''max_cons_black'' \<in> set opt_vars" "''max_cons'' \<in> set opt_vars" "''port'' \<in> set opt_vars"
  "''greyd_pidfile'' \<in> set opt_vars" "''debug'' \<in> set opt_vars" "''enable'' \<in> set opt_vars" "''stutter'' \<in> set opt_vars"
  "''low_prio_mx'' \<in> set opt_vars" "''banner'' \<in> set opt_vars" "''verbose'' \<in> set opt_vars" "''window'' \<in> set opt_vars"
  "''hosts'' \<in> set opt_vars" "''hostname'' \<in> set opt_vars"
  by (simp_all add: opt_vars_def)

lemma step_append:
  assumes "opts_ok c" and "list_var ''sync'' ''hosts'' (cfg_abs c)"
  shows "steps_to (append_var ''sync'' ''hosts'' arg (cfg_abs c)) (cmd_set cmd (Config_append_list_str c ''hosts'' ''sync'' arg))"
  using opts_append [OF assms(1) _ _ assms(2), of arg] by (auto simp: steps_to_def cmd_set_def opt_var_names)

lemma step_file:
  "opts_ok (gc_opts cmd) \<Longrightarrow> steps_to (cfg_abs (gc_opts cmd)) (Some (Started (cmd\<lparr>gc_file := arg\<rparr>)))"
  by (simp add: steps_to_def)

lemma step_cons:
  assumes "opts_ok (gc_opts cmd)" and "var \<in> set opt_vars"
  shows "steps_to (set_var ''default'' var (Int_value (atoi arg)) (cfg_abs (gc_opts cmd))) (option_cons limit cmd var arg)"
  unfolding option_cons_def Let_def by (simp add: steps_int [OF assms(1) _ assms(2)])

lemma step_stutter:
  assumes "opts_ok (gc_opts cmd)" and "default_section sec \<in> set opt_secs"
  shows "steps_to (set_var (default_section sec) ''stutter'' (Int_value (atoi arg)) (cfg_abs (gc_opts cmd))) (option_stutter cmd sec k arg)"
  unfolding option_stutter_def Let_def using assms by (simp add: steps_int opt_var_names)

lemma step_w:
  assumes "opts_ok (gc_opts cmd)"
  shows "steps_to (set_var ''default'' ''window'' (Int_value (atoi arg)) (cfg_abs (gc_opts cmd))) (option_w cmd arg)"
  unfolding option_w_def Let_def using assms by (simp add: steps_int opt_var_names)

text \<open>An option that is not in the table ends the program.\<close>

lemma step_unknown: "c \<notin> set ''F456lLBcpPdbGhsSMnvwyYf'' \<Longrightarrow> greyd_option limit cmd (c, arg) = Some Usage"
  by (simp add: greyd_option_def)

lemma step_known:
  assumes "opts_ok (gc_opts cmd)" and "NUL \<notin> set arg" and "list_var ''sync'' ''hosts'' (cfg_abs (gc_opts cmd))"
    and "c \<in> set ''F456lLBcpPdbGhsSMnvwyYf''"
  shows "steps_to (opt_effect (c, arg) (cfg_abs (gc_opts cmd))) (greyd_option limit cmd (c, arg))"
proof -
  note set = steps_int [OF assms(1)] steps_str [OF assms(1)]
  have stutter: "steps_to (set_var ''default'' ''stutter'' (Int_value (atoi arg)) (cfg_abs (gc_opts cmd))) (option_stutter cmd None k arg)"
    "steps_to (set_var ''grey'' ''stutter'' (Int_value (atoi arg)) (cfg_abs (gc_opts cmd))) (option_stutter cmd (Some ''grey'') k arg)" for k
    using step_stutter [OF assms(1), of None] step_stutter [OF assms(1), of "Some ''grey''"] by simp_all
  let ?P = "\<lambda>c. steps_to (opt_effect (c, arg) (cfg_abs (gc_opts cmd))) (greyd_option limit cmd (c, arg))"
  have G: "?P (CHR ''G'')" using step_G [OF assms(1), of arg] by (simp add: greyd_option_def)
  have h: "?P (CHR ''h'')" using step_h [OF assms(1,2)] by (simp add: greyd_option_def)
  have "?P (CHR ''F'')" "?P (CHR ''4'')" "?P (CHR ''5'')" "?P (CHR ''6'')" "?P (CHR ''l'')"
    "?P (CHR ''L'')" "?P (CHR ''B'')" "?P (CHR ''c'')" "?P (CHR ''p'')" "?P (CHR ''P'')"
    "?P (CHR ''d'')" "?P (CHR ''b'')" "?P (CHR ''s'')" "?P (CHR ''S'')" "?P (CHR ''M'')"
    "?P (CHR ''n'')" "?P (CHR ''v'')" "?P (CHR ''w'')" "?P (CHR ''y'')" "?P (CHR ''Y'')"
    "?P (CHR ''f'')"
    unfolding greyd_option_def opt_effects
    by (simp_all add: set opt_var_names step_append [OF assms(1,3)] step_file [OF assms(1)] step_cons [OF assms(1)]
        stutter step_w [OF assms(1)])
  note all = this G h
  have "\<forall>c\<in>set ''F456lLBcpPdbGhsSMnvwyYf''. ?P c"
    unfolding list.set ball_simps(5,7) by (intro conjI TrueI all)
  then show ?thesis using assms(4) by blast
qed

text \<open>Variables that no option in the table sets keep their values.\<close>

lemma opt_table_sets:
  assumes "map_of (opt_table arg) c = Some l" and "(sec, var, v) \<in> set l"
  shows "(sec, var) \<noteq> (''sync'', ''hosts'')" and "(sec, var) = (''default'', ''hostname'') \<Longrightarrow> c = CHR ''h''"
proof -
  have "(c, l) \<in> set (opt_table arg)" using map_of_SomeD [OF assms(1)] .
  then show "(sec, var) \<noteq> (''sync'', ''hosts'')" "(sec, var) = (''default'', ''hostname'') \<Longrightarrow> c = CHR ''h''"
    using assms(2) by (auto simp: opt_table_def split: option.splits)
qed

lemma fold_set_other:
  "\<forall>(sec', var', v)\<in>set l. (sec', var') \<noteq> (sec, var) \<Longrightarrow> fold (\<lambda>(sec, var, v). set_var sec var v) l m sec var = m sec var"
  by (induction l arbitrary: m) (auto simp: set_var_def)

lemma effect_hosts:
  assumes "list_var ''sync'' ''hosts'' m"
  shows "list_var ''sync'' ''hosts'' (opt_effect opt m)"
proof (cases "fst opt = CHR ''Y''")
  case True
  then show ?thesis by (simp add: opt_effect_def append_var_def set_var_def list_var_def)
next
  case False
  have "opt_effect opt m ''sync'' ''hosts'' = m ''sync'' ''hosts''"
  proof (cases "map_of (opt_table (snd opt)) (fst opt)")
    case (Some l)
    then show ?thesis
      using False opt_table_sets(1) [OF Some] by (simp add: opt_effect_def) (intro fold_set_other, fastforce)
  qed (use False in \<open>simp add: opt_effect_def\<close>)
  then show ?thesis using assms by (simp add: list_var_def)
qed

lemma effect_hostname:
  "opt_effect opt m ''default'' ''hostname'' = (if fst opt = CHR ''h'' then Some (Str_value (snd opt)) else m ''default'' ''hostname'')"
proof (cases "fst opt = CHR ''h''")
  case True
  then show ?thesis using opt_effects(14) [of "snd opt" m] by (cases opt) (simp add: set_var_def)
next
  case h: False
  show ?thesis
  proof (cases "fst opt = CHR ''Y''")
    case True
    then show ?thesis by (simp add: opt_effect_def append_var_def set_var_def)
  next
    case False
    show ?thesis
    proof (cases "map_of (opt_table (snd opt)) (fst opt)")
      case (Some l)
      then show ?thesis
        using False h opt_table_sets(2) [OF Some] by (simp add: opt_effect_def) (intro fold_set_other, fastforce)
    qed (use False h in \<open>simp add: opt_effect_def\<close>)
  qed
qed

text \<open>The arguments given to an option.\<close>

definition given :: "(char \<times> string) list \<Rightarrow> char \<Rightarrow> string list" where
  "given opts c = map snd (filter (\<lambda>opt. fst opt = c) opts)"

lemma fold_hostname:
  assumes "m ''default'' ''hostname'' = Some (Str_value x)"
  shows "fold opt_effect opts m ''default'' ''hostname'' = Some (Str_value (last (x # given opts (CHR ''h''))))"
  using assms
proof (induction opts arbitrary: m x)
  case (Cons opt opts)
  let ?x = "if fst opt = CHR ''h'' then snd opt else x"
  have "opt_effect opt m ''default'' ''hostname'' = Some (Str_value ?x)" using Cons.prems by (simp add: effect_hostname)
  then show ?case using Cons.IH [of "opt_effect opt m" ?x] by (simp add: given_def)
qed (simp add: given_def)

lemma greyd_options_effect:
  assumes "opts_ok (gc_opts cmd)" and "\<forall>opt\<in>set opts. NUL \<notin> set (snd opt)" and "list_var ''sync'' ''hosts'' (cfg_abs (gc_opts cmd))"
  shows "steps_to (fold opt_effect opts (cfg_abs (gc_opts cmd))) (greyd_options limit opts cmd)"
  using assms
proof (induction opts arbitrary: cmd)
  case Nil
  then show ?case by (simp add: steps_to_def)
next
  case (Cons opt opts)
  have s: "steps_to (opt_effect opt (cfg_abs (gc_opts cmd))) (greyd_option limit cmd opt)"
  proof (cases "fst opt \<in> set ''F456lLBcpPdbGhsSMnvwyYf''")
    case True
    then show ?thesis using step_known [of cmd "snd opt" "fst opt" limit] Cons.prems by simp
  next
    case False
    then show ?thesis using step_unknown [of "fst opt" limit cmd "snd opt"] by (simp del: list.set)
  qed
  show ?case
  proof (cases "greyd_option limit cmd opt = Some Usage")
    case False
    then obtain cmd' where c: "greyd_option limit cmd opt = Some (Started cmd')" "opts_ok (gc_opts cmd')"
      "cfg_abs (gc_opts cmd') = opt_effect opt (cfg_abs (gc_opts cmd))" using s by (auto simp: steps_to_def)
    then show ?thesis using Cons.IH [of cmd'] Cons.prems effect_hosts by simp
  qed simp
qed

lemma start_cmd_ok:
  "\<exists>cmd. start_cmd E hostname = Some cmd \<and> opts_ok (gc_opts cmd) \<and>
     cfg_abs (gc_opts cmd) = set_var ''default'' ''hostname'' (Str_value hostname) (\<lambda>sec. Map.empty)"
  using opts_set_str [OF opts_create, of None "''hostname''" hostname] Config_create_inv(3)
  by (auto simp: start_cmd_def opt_var_names)

text \<open>The options with which \<open>main\<close> goes on, and the variables they stand for.\<close>

lemma started_opts:
  assumes "start_cmd E hostname = Some cmd0" and "\<forall>opt\<in>set opts. NUL \<notin> set (snd opt)"
    and "greyd_options limit opts cmd0 = Some (Started cmd)"
  shows "opts_ok (gc_opts cmd) \<and> cfg_abs (gc_opts cmd) =
    fold opt_effect opts (set_var ''default'' ''hostname'' (Str_value hostname) (\<lambda>sec. Map.empty))"
proof -
  have c: "opts_ok (gc_opts cmd0)" "cfg_abs (gc_opts cmd0) = set_var ''default'' ''hostname'' (Str_value hostname) (\<lambda>sec. Map.empty)"
    using start_cmd_ok [of E hostname] assms(1) by auto
  then have "list_var ''sync'' ''hosts'' (cfg_abs (gc_opts cmd0))" by (simp add: list_var_def set_var_def)
  from greyd_options_effect [OF c(1) assms(2) this, of limit] show ?thesis using assms(3) c(2) by (simp add: steps_to_def)
qed

lemma options_merge:
  assumes "start_cmd E hostname = Some cmd0" and "\<forall>opt\<in>set opts. NUL \<notin> set (snd opt)"
    and "greyd_options limit opts cmd0 = Some (Started cmd)"
    and "cfg_inv file" and "room_for file (set opt_secs)"
  shows "\<exists>config. Config_merge file (gc_opts cmd) = Some config \<and> cfg_inv config \<and>
           cfg_abs config = laid_over (cfg_abs file)
             (fold opt_effect opts (set_var ''default'' ''hostname'' (Str_value hostname) (\<lambda>sec. Map.empty)))"
proof -
  have o: "opts_ok (gc_opts cmd)" "cfg_abs (gc_opts cmd) =
      fold opt_effect opts (set_var ''default'' ''hostname'' (Str_value hostname) (\<lambda>sec. Map.empty))"
    using started_opts [OF assms(1-3)] by simp_all
  have "card (cfg_names file \<union> cfg_names (gc_opts cmd)) \<le> card (cfg_names file \<union> set opt_secs)"
    using o(1) by (intro card_mono) (auto simp: opts_ok_def cfg_names_def finite_dom_hash)
  then have room: "room_for file (cfg_names (gc_opts cmd))"
    using assms(5) by (simp add: room_for_def cfg_names_def finite_dom_hash)
  show ?thesis using merge_laid_over [OF assms(4) _ room] o by (auto simp: opts_ok_def)
qed

text \<open>Two options that are always accepted, and an empty file.\<close>

lemma example_start:
  "\<exists>cmd0 cmd. start_cmd E ''mx'' = Some cmd0 \<and>
     greyd_options limit [(CHR ''p'', ''25''), (CHR ''p'', ''26'')] cmd0 = Some (Started cmd)"
proof -
  obtain cmd0 where c: "start_cmd E ''mx'' = Some cmd0" "opts_ok (gc_opts cmd0)" using start_cmd_ok by blast
  obtain o1 where o1: "Config_set_int (gc_opts cmd0) ''port'' None (atoi ''25'') = Some o1" "opts_ok o1"
    using opts_set_int [OF c(2), of None "''port''"] by (auto simp: opt_var_names)
  obtain o2 where "Config_set_int o1 ''port'' None (atoi ''26'') = Some o2"
    using opts_set_int [OF o1(2), of None "''port''"] by (auto simp: opt_var_names)
  then show ?thesis using c(1) o1(1) by (simp add: greyd_option_def cmd_set_def)
qed

lemma example_room: "cfg_inv Config_create" "room_for Config_create (set opt_secs)"
  using Config_create_inv(1) opts_room [OF opts_create] by simp_all

lemma atoi_26: "atoi ''26'' = 26"
  by (simp add: atoi_def strtol_def Let_def char_isspace_def isspace_c_def isdigit_c_def char_code_def LONG_MAX_def LONG_MIN_def)

text \<open>An environment.\<close>

definition example_start_env :: start_env where
  "example_start_env =
     \<lparr>se_hostname = Some ''mx'', se_file_max = Some 100000, se_posix = False, se_default_config = ''greyd.conf'',
      se_load = example_load_env, se_setrlimit = (\<lambda>n. n < 1000), se_inet_pton = (\<lambda>af s. None)\<rparr>"

section \<open>Properties\<close>

text \<open>Effects of options on maps that agree but for the host name.\<close>

definition same_but_hostname :: "(string \<Rightarrow> string \<rightharpoonup> Config_value) \<Rightarrow> (string \<Rightarrow> string \<rightharpoonup> Config_value) \<Rightarrow> bool" where
  "same_but_hostname m m' \<longleftrightarrow> (\<forall>sec var. (sec, var) \<noteq> (''default'', ''hostname'') \<longrightarrow> m sec var = m' sec var)"

lemma same_set_var: "same_but_hostname m m' \<Longrightarrow> same_but_hostname (set_var sec var v m) (set_var sec var v m')"
  by (auto simp: same_but_hostname_def set_var_def)

lemma same_opt_effect:
  assumes "same_but_hostname m m'"
  shows "same_but_hostname (opt_effect opt m) (opt_effect opt m')"
proof -
  have "same_but_hostname (fold (\<lambda>(sec, var, v). set_var sec var v) l m) (fold (\<lambda>(sec, var, v). set_var sec var v) l m')" for l
    using assms by (induction l arbitrary: m m') (auto simp: same_set_var)
  moreover have "m ''sync'' ''hosts'' = m' ''sync'' ''hosts''" using assms by (simp add: same_but_hostname_def)
  ultimately show ?thesis using assms by (simp add: opt_effect_def append_var_def same_set_var)
qed

lemma same_opt_effects: "same_but_hostname m m' \<Longrightarrow> same_but_hostname (fold opt_effect opts m) (fold opt_effect opts m')"
  by (induction opts arbitrary: m m') (auto simp: same_opt_effect)

text \<open>
  C26. The command line is laid over the configuration file: once the options have been accepted, merging them into
  a configuration with room for their sections succeeds, and each variable but the host name then has the value that the last
  option that sets it gives it, or that of the file if there is none; \<open>-Y\<close> collects the hosts of all its
  occurrences and replaces those of the file. The host name is that of the last \<open>-h\<close>, if there is one. (Without \<open>-h\<close> the host
  name of the file is not used, against the manual: \<open>hostname_of_file_ignored\<close>.)
\<close>

theorem command_line_over_file:
  assumes "start_cmd E hostname = Some cmd0" and "\<forall>opt\<in>set opts. NUL \<notin> set (snd opt)"
    and "greyd_options limit opts cmd0 = Some (Started cmd)"
    and "cfg_inv file" and "room_for file (set opt_secs)"
  shows "\<exists>config. Config_merge file (gc_opts cmd) = Some config \<and> cfg_inv config \<and>
           (\<forall>sec var. (sec, var) \<noteq> (''default'', ''hostname'') \<longrightarrow>
              cfg_abs config sec var = laid_over (cfg_abs file) (fold opt_effect opts (\<lambda>sec. Map.empty)) sec var) \<and>
           (given opts (CHR ''h'') \<noteq> [] \<longrightarrow>
              cfg_abs config ''default'' ''hostname'' = Some (Str_value (last (given opts (CHR ''h'')))))"
proof -
  let ?named = "set_var ''default'' ''hostname'' (Str_value hostname) (\<lambda>sec. Map.empty)"
  obtain config where config: "Config_merge file (gc_opts cmd) = Some config" "cfg_inv config"
    "cfg_abs config = laid_over (cfg_abs file) (fold opt_effect opts ?named)"
    using options_merge [OF assms] by blast
  have "same_but_hostname ?named (\<lambda>sec. Map.empty)" by (simp add: same_but_hostname_def set_var_def)
  then have "same_but_hostname (fold opt_effect opts ?named) (fold opt_effect opts (\<lambda>sec. Map.empty))" by (rule same_opt_effects)
  then have vars: "cfg_abs config sec var = laid_over (cfg_abs file) (fold opt_effect opts (\<lambda>sec. Map.empty)) sec var"
    if "(sec, var) \<noteq> (''default'', ''hostname'')" for sec var
    using that by (simp add: config(3) laid_over_def same_but_hostname_def map_add_def)
  have "cfg_abs config ''default'' ''hostname'' = Some (Str_value (last (hostname # given opts (CHR ''h''))))"
    by (simp only: config(3) laid_over_def) (rule map_add_find_right, rule fold_hostname, simp add: set_var_def)
  then show ?thesis using config(1,2) vars by auto
qed

text \<open>C26 for an option that is given twice.\<close>

theorem command_line_over_file_witness:
  "\<exists>cmd0 cmd config. start_cmd example_start_env ''mx'' = Some cmd0 \<and>
     greyd_options 600 [(CHR ''p'', ''25''), (CHR ''p'', ''26'')] cmd0 = Some (Started cmd) \<and>
     Config_merge Config_create (gc_opts cmd) = Some config \<and> Config_get_int config ''port'' None 0 = Some 26"
proof -
  let ?opts = "[(CHR ''p'', ''25''), (CHR ''p'', ''26'')]"
  obtain cmd0 cmd where c: "start_cmd example_start_env ''mx'' = Some cmd0" "greyd_options 600 ?opts cmd0 = Some (Started cmd)"
    using example_start [of example_start_env 600] by blast
  have "\<forall>opt\<in>set ?opts. NUL \<notin> set (snd opt)" by (simp add: NUL_def)
  from command_line_over_file [OF c(1) this c(2) example_room] obtain config where config:
    "Config_merge Config_create (gc_opts cmd) = Some config" "cfg_inv config"
    "\<forall>sec var. (sec, var) \<noteq> (''default'', ''hostname'') \<longrightarrow>
       cfg_abs config sec var = laid_over (cfg_abs Config_create) (fold opt_effect ?opts (\<lambda>sec. Map.empty)) sec var" by blast
  then have "cfg_abs config (default_section None) ''port'' = Some (Int_value 26)"
    by (simp add: laid_over_def opt_effects set_var_def atoi_26)
  from get_int [OF config(2) this] show ?thesis using c config(1) by blast
qed

text \<open>
  The host name of the configuration file is never used: whatever the file holds, the daemon takes the argument of
  the last \<open>-h\<close>, or the name of the system if there is none.
\<close>

theorem hostname_of_file_ignored:
  assumes "start_cmd E hostname = Some cmd0" and "\<forall>opt\<in>set opts. NUL \<notin> set (snd opt)"
    and "greyd_options limit opts cmd0 = Some (Started cmd)"
    and "cfg_inv file" and "room_for file (set opt_secs)"
  shows "\<exists>config. Config_merge file (gc_opts cmd) = Some config \<and>
           Config_get_str config ''hostname'' None d = Some (Some (last (hostname # given opts (CHR ''h''))))"
proof -
  obtain config where config: "Config_merge file (gc_opts cmd) = Some config" "cfg_inv config"
    "cfg_abs config = laid_over (cfg_abs file)
       (fold opt_effect opts (set_var ''default'' ''hostname'' (Str_value hostname) (\<lambda>sec. Map.empty)))"
    using options_merge [OF assms] by blast
  have "cfg_abs config (default_section None) ''hostname'' = Some (Str_value (last (hostname # given opts (CHR ''h''))))"
    by (simp only: config(3) laid_over_def opt_names) (rule map_add_find_right, rule fold_hostname, simp add: set_var_def)
  from get_str [OF config(2) this] show ?thesis using config(1) by blast
qed

text \<open>The statement for a file that sets a host name.\<close>

theorem hostname_of_file_ignored_witness:
  "\<exists>base cmd0 cmd config. Config_set_str Config_create ''hostname'' None ''mail.example'' = Some base \<and>
     start_cmd example_start_env ''mx'' = Some cmd0 \<and> greyd_options 600 [(CHR ''p'', ''25''), (CHR ''p'', ''26'')] cmd0 = Some (Started cmd) \<and>
     Config_merge base (gc_opts cmd) = Some config \<and> Config_get_str config ''hostname'' None None = Some (Some ''mx'')"
proof -
  let ?opts = "[(CHR ''p'', ''25''), (CHR ''p'', ''26'')]"
  obtain cmd0 cmd where c: "start_cmd example_start_env ''mx'' = Some cmd0" "greyd_options 600 ?opts cmd0 = Some (Started cmd)"
    using example_start [of example_start_env 600] by blast
  obtain base where base: "Config_set_str Config_create ''hostname'' None ''mail.example'' = Some base" "opts_ok base"
    using opts_set_str [OF opts_create, of None "''hostname''"] by (auto simp: opt_var_names)
  have "\<forall>opt\<in>set ?opts. NUL \<notin> set (snd opt)" "cfg_inv base" using base(2) by (simp_all add: opts_ok_def NUL_def)
  from hostname_of_file_ignored [OF c(1) this(1) c(2) this(2) opts_room [OF base(2)]] show ?thesis
    using base(1) c by (auto simp: given_def)
qed

section \<open>The limits\<close>

lemma limits_cases:
  assumes "connection_limits limit config = Some (Started (max_cons, max_black))"
  shows "max_cons \<le> limit" and "max_black \<le> max_cons"
    and "Config_get_int config ''enable'' (Some ''grey'') GREYLISTING_ENABLED = Some 0 \<Longrightarrow> max_black = max_cons"
  using assms by (auto simp: connection_limits_def capped_def Let_def split: if_splits bind_splits)

lemma reserve_grey_room: "0 \<le> reserve_grey max_cons max_black" "0 < max_cons \<Longrightarrow> reserve_grey max_cons max_black < max_cons"
  by (auto simp: reserve_grey_def Let_def)

text \<open>With greylisting, a maximum below the default and none for blacklisted connections end the daemon.\<close>

lemma maxcon_alone_refused:
  assumes "Config_get_int config ''max_cons'' None CON_DEFAULT_MAX = Some n" and "n < limit" and "limit \<le> CON_DEFAULT_MAX"
    and "Config_get_int config ''max_cons_black'' None CON_DEFAULT_MAX = Some CON_DEFAULT_MAX"
    and "Config_get_int config ''enable'' (Some ''grey'') GREYLISTING_ENABLED = Some e" and "e \<noteq> 0"
  shows "connection_limits limit config = Some Usage"
  using assms by (simp add: connection_limits_def capped_def)

lemma Config_create_get_list: "Config_get_list Config_create var sec = Some None"
  using lookup_section [OF Config_create_inv(1,2), of "default_section sec"]
  by (simp add: Config_get_list_def Config_create_def CONFIG_INIT_SECTIONS_def)

text \<open>
  C39. When the daemon starts, it serves no more connections than the system allows; without greylisting all of them may
  be blacklisted ones, and with greylisting there is room for at least one connection that is not, however
  the options and the file set the maxima.
\<close>

theorem started_limits:
  assumes "greyd_configured E limit cmd config = Some (Started st)"
  shows "gm_max_files st = limit \<and> gm_max_cons st \<le> limit \<and>
    (\<exists>e. Config_get_int (gm_config st) ''enable'' (Some ''grey'') GREYLISTING_ENABLED = Some e \<and>
       (if e = 0 then gm_max_black st = gm_max_cons st
        else 0 \<le> gm_max_black st \<and> (0 < gm_max_cons st \<longrightarrow> gm_max_black st < gm_max_cons st)))"
proof -
  obtain max_cons max_black e where l: "connection_limits limit config = Some (Started (max_cons, max_black))"
    "Config_get_int config ''enable'' (Some ''grey'') GREYLISTING_ENABLED = Some e" "gm_config st = config" "gm_max_files st = limit"
    "gm_max_cons st = max_cons" "gm_max_black st = (if e = 0 then max_black else reserve_grey max_cons max_black)"
    using assms by (auto simp: greyd_configured_def split: bind_splits started.splits if_splits prod.splits)
  then show ?thesis using limits_cases [OF l(1)] reserve_grey_room [of max_cons max_black] by auto
qed

text \<open>C39 for an empty configuration.\<close>

theorem started_limits_witness:
  "\<exists>st. greyd_configured example_start_env 600 \<lparr>gc_opts = Config_create, gc_file = [], gc_send = 0, gc_recv = 0\<rparr> Config_create
          = Some (Started st) \<and> gm_max_cons st = 600 \<and> gm_max_black st = 500 \<and> gm_max_black st < gm_max_cons st"
proof -
  let ?cmd = "\<lparr>gc_opts = Config_create, gc_file = [], gc_send = 0, gc_recv = 0\<rparr>"
  let ?st = "\<lparr>gm_config = Config_create, gm_max_files = 600, gm_max_cons = 600, gm_max_black = 500, gm_send = 0, gm_recv = 0,
      gm_proxies = None\<rparr>"
  have "greyd_configured example_start_env 600 ?cmd Config_create = Some (Started ?st)"
    by (simp add: greyd_configured_def sync_peers_def connection_limits_def Config_create_get_list capped_def reserve_grey_def
        CON_DEFAULT_MAX_def GREYLISTING_ENABLED_def PROXY_PROTOCOL_ENABLED_def SETRLIMIT_def example_start_env_def)
  from this started_limits [OF this] show ?thesis by (auto simp: GREYLISTING_ENABLED_def)
qed

end
