(* ===== verification/Tool_Options.thy ===== *)
theory Tool_Options
  imports Options Greydb_Tool Greyd_Setup Greylogd
begin

text \<open>
  Models how \<open>main\<close> of \<open>src/src/main_greydb.c\<close>, \<open>src/src/main_greylogd.c\<close> and \<open>src/src/main_greyd_setup.c\<close> read
  their command lines and configurations, up to what the loops modelled in the theories of these programs
  start from; and shows which options of the log watcher cannot be used. Opening the database, the firewall and the
  sync engine and becoming a daemon are not modelled.
\<close>

section \<open>The database tool\<close>

record db_cmd =
  dc_opts :: Config_T
  dc_file :: string
  dc_action :: db_action
  dc_type :: entry_type
  dc_send :: int

definition greydb_spec :: string where "greydb_spec = ''adtTDf:Y:''"

definition greydb_option :: "db_cmd \<Rightarrow> char \<times> string \<Rightarrow> db_cmd started option" where
  "greydb_option cmd opt =
     (let (option, optarg) = opt in
      if option = CHR ''a'' then Some (Started (cmd\<lparr>dc_action := ACTION_ADD\<rparr>))
      else if option = CHR ''d'' then Some (Started (cmd\<lparr>dc_action := ACTION_DEL\<rparr>))
      else if option = CHR ''t'' then Some (Started (cmd\<lparr>dc_type := TYPE_TRAPHIT\<rparr>))
      else if option = CHR ''T'' then Some (Started (cmd\<lparr>dc_type := TYPE_SPAMTRAP\<rparr>))
      else if option = CHR ''D'' then Some (Started (cmd\<lparr>dc_type := TYPE_DOMAIN\<rparr>))
      else if option = CHR ''f'' then Some (Started (cmd\<lparr>dc_file := optarg\<rparr>))
      else if option = CHR ''Y''
      then map_option (\<lambda>o'. Started (cmd\<lparr>dc_opts := o', dc_send := dc_send cmd + 1\<rparr>))
             (Config_append_list_str (dc_opts cmd) ''hosts'' ''sync'' optarg)
      else Some Usage)"

fun greydb_options :: "(char \<times> string) list \<Rightarrow> db_cmd \<Rightarrow> db_cmd started option" where
  "greydb_options [] cmd = Some (Started cmd)"
| "greydb_options (opt # opts) cmd =
     do { r \<leftarrow> greydb_option cmd opt; case r of Started cmd' \<Rightarrow> greydb_options opts cmd' | _ \<Rightarrow> Some r }"

text \<open>How many hosts to send to; the list of the configuration counts when there is no option.\<close>

definition send_count :: "Config_T \<Rightarrow> int \<Rightarrow> int option" where
  "send_count config sync_send =
     do { hosts \<leftarrow> Config_get_list config ''hosts'' (Some ''sync'');
          Some (if sync_send = 0 then (case hosts of None \<Rightarrow> 0 | Some l \<Rightarrow> int (length l)) else sync_send) }"

text \<open>What the tool has read when it opens the database, and for updates what it needs from the configuration.\<close>

record db_started =
  dm_config :: Config_T
  dm_action :: db_action
  dm_type :: entry_type
  dm_args :: "string list"
  dm_send :: int
  dm_white_expiry :: int
  dm_trap_expiry :: int

definition greydb_start :: "load_env \<Rightarrow> bool \<Rightarrow> string \<Rightarrow> string list \<Rightarrow> db_started started option" where
  "greydb_start L posix default_config argv =
     (let (opts, args) = getopt posix greydb_spec [] argv in
      do { r \<leftarrow> greydb_options opts \<lparr>dc_opts = Config_create, dc_file = default_config, dc_action = ACTION_LIST, dc_type = TYPE_WHITE,
                 dc_send = 0\<rparr>;
           case r of
             Started cmd \<Rightarrow>
               if dc_action cmd = ACTION_LIST \<and> dc_type cmd \<noteq> TYPE_WHITE then Some Usage
               else do { config0 \<leftarrow> Config_load_file L Config_create (Some (dc_file cmd));
                         config1 \<leftarrow> Config_merge config0 (dc_opts cmd);
                         config2 \<leftarrow> Config_set_int config1 ''syslog_enable'' None 0;
                         config3 \<leftarrow> Config_set_int config2 ''drop_privs'' None 0;
                         if dc_action cmd = ACTION_LIST
                         then Some (Started \<lparr>dm_config = config3, dm_action = ACTION_LIST, dm_type = dc_type cmd, dm_args = args,
                                     dm_send = 0, dm_white_expiry = 0, dm_trap_expiry = 0\<rparr>)
                         else do { config4 \<leftarrow> Config_delete config3 ''bind_address'' (Some ''sync'');
                                   send \<leftarrow> send_count config4 (dc_send cmd);
                                   white_expiry \<leftarrow> Config_get_int config4 ''white_expiry'' (Some ''grey'') GREY_WHITEEXP;
                                   trap_expiry \<leftarrow> Config_get_int config4 ''trap_expiry'' (Some ''grey'') GREY_TRAPEXP;
                                   Some (Started \<lparr>dm_config = config4, dm_action = dc_action cmd, dm_type = dc_type cmd,
                                           dm_args = args, dm_send = send, dm_white_expiry = white_expiry,
                                           dm_trap_expiry = trap_expiry\<rparr>) } }
           | _ \<Rightarrow> Some Usage })"

section \<open>The log watcher\<close>

record logd_cmd =
  lc_opts :: Config_T
  lc_file :: string
  lc_send :: int

definition greylogd_spec :: string where "greylogd_spec = ''DIW:Y:f:P:''"

definition logd_set :: "logd_cmd \<Rightarrow> Config_T option \<Rightarrow> logd_cmd started option" where
  "logd_set cmd opts = map_option (\<lambda>o'. Started (cmd\<lparr>lc_opts := o'\<rparr>)) opts"

definition greylogd_option :: "logd_cmd \<Rightarrow> char \<times> string \<Rightarrow> logd_cmd started option" where
  "greylogd_option cmd opt =
     (let (option, optarg) = opt; opts = lc_opts cmd in
      if option = CHR ''f'' then Some (Started (cmd\<lparr>lc_file := optarg\<rparr>))
      else if option = CHR ''p'' then logd_set cmd (Config_set_int opts ''port'' (Some ''sync'') (atoi optarg))
      else if option = CHR ''P'' then logd_set cmd (Config_set_str opts ''greylogd_pidfile'' None optarg)
      else if option = CHR ''d'' then logd_set cmd (Config_set_int opts ''debug'' None 1)
      else if option = CHR ''I'' then logd_set cmd (Config_set_int opts ''track_outbound'' (Some ''firewall'') 0)
      else if option = CHR ''W''
      then logd_set cmd (Config_set_int opts ''white_expiry'' (Some ''grey'') (wrap_int (atoi optarg * 60 * 60)))
      else if option = CHR ''Y''
      then logd_set (cmd\<lparr>lc_send := lc_send cmd + 1\<rparr>) (Config_append_list_str opts ''hosts'' ''sync'' optarg)
      else Some Usage)"

fun greylogd_options :: "(char \<times> string) list \<Rightarrow> logd_cmd \<Rightarrow> logd_cmd started option" where
  "greylogd_options [] cmd = Some (Started cmd)"
| "greylogd_options (opt # opts) cmd =
     do { r \<leftarrow> greylogd_option cmd opt; case r of Started cmd' \<Rightarrow> greylogd_options opts cmd' | _ \<Rightarrow> Some r }"

text \<open>The configuration, whether to send to other hosts, and the lifetime of the entries the watcher makes.\<close>

definition greylogd_start :: "load_env \<Rightarrow> bool \<Rightarrow> string \<Rightarrow> string list \<Rightarrow> (Config_T \<times> int \<times> int) started option" where
  "greylogd_start L posix default_config argv =
     do { r \<leftarrow> greylogd_options (fst (getopt posix greylogd_spec [] argv))
                \<lparr>lc_opts = Config_create, lc_file = default_config, lc_send = 0\<rparr>;
          case r of
            Started cmd \<Rightarrow>
              do { config0 \<leftarrow> Config_load_file L Config_create (Some (lc_file cmd));
                   config1 \<leftarrow> Config_merge config0 (lc_opts cmd);
                   config2 \<leftarrow> Config_delete config1 ''bind_address'' (Some ''sync'');
                   send \<leftarrow> send_count config2 (lc_send cmd);
                   white_expiry \<leftarrow> Config_get_int config2 ''white_expiry'' (Some ''grey'') GREY_WHITEEXP;
                   Some (Started (config2, send, white_expiry)) }
          | _ \<Rightarrow> Some Usage }"

section \<open>The list setup\<close>

record setup_cmd =
  sc_file :: string
  sc_dryrun :: bool
  sc_debug :: bool
  sc_greyonly :: bool
  sc_daemonize :: bool

definition setup_option :: "setup_cmd \<Rightarrow> char \<times> string \<Rightarrow> setup_cmd started" where
  "setup_option cmd opt =
     (let (option, optarg) = opt in
      if option = CHR ''f'' then Started (cmd\<lparr>sc_file := optarg\<rparr>)
      else if option = CHR ''n'' then Started (cmd\<lparr>sc_dryrun := True\<rparr>)
      else if option = CHR ''d'' then Started (cmd\<lparr>sc_debug := True\<rparr>)
      else if option = CHR ''b'' then Started (cmd\<lparr>sc_greyonly := False\<rparr>)
      else if option = CHR ''D'' then Started (cmd\<lparr>sc_daemonize := True\<rparr>)
      else Usage)"

fun setup_options :: "(char \<times> string) list \<Rightarrow> setup_cmd \<Rightarrow> setup_cmd started" where
  "setup_options [] cmd = Started cmd"
| "setup_options (opt # opts) cmd =
     (case setup_option cmd opt of Started cmd' \<Rightarrow> setup_options opts cmd' | r \<Rightarrow> r)"

definition setup_start :: "setup_env \<Rightarrow> load_env \<Rightarrow> bool \<Rightarrow> string \<Rightarrow> string list \<Rightarrow> setup_state started option" where
  "setup_start E L posix default_config argv =
     (let (opts, args) = getopt posix ''f:bdDn'' [] argv in
      case setup_options opts \<lparr>sc_file = default_config, sc_dryrun = False, sc_debug = False, sc_greyonly = True, sc_daemonize = False\<rparr> of
        Started cmd \<Rightarrow>
          if args \<noteq> [] then Some Usage
          else do { config \<leftarrow> Config_load_file L Config_create (Some (sc_file cmd));
                    map_option Started (setup_main E (sc_greyonly cmd) (sc_dryrun cmd) config) }
      | r \<Rightarrow> Some Usage)"

section \<open>Options of the log watcher\<close>

lemma logd_options_usage: "greylogd_options ((CHR ''?'', arg) # opts) cmd = Some Usage" "greylogd_options ((CHR ''D'', arg) # opts) cmd = Some Usage"
  by (simp_all add: greylogd_option_def)

text \<open>
  The options \<open>-d\<close> and \<open>-p\<close> of the log watcher, which its loop handles and its manual describes, are missing in the option
  string, and \<open>-D\<close> is in the string and not handled: each of them ends the program with the usage message,
  whatever follows.
\<close>

theorem greylogd_options_refused:
  "greylogd_start L posix conf (''-d'' # argv) = Some Usage \<and>
   greylogd_start L posix conf (''-p'' # argv) = Some Usage \<and>
   greylogd_start L posix conf (''-D'' # argv) = Some Usage"
  by (simp_all add: greylogd_start_def is_option_def greylogd_spec_def logd_options_usage del: greylogd_options.simps)

end
