(* ===== verification/Spec2Isabelle.thy ===== *)
theory Spec2Isabelle
  imports Daemon_Safety Greydb_Tool Greylogd Greyd_Setup Config_Load Grey_Runs Sqlite_Greylisting Mysql_Text Daemon_Options Tool_Options
begin

text \<open>
  A model of greyd, a greylisting daemon in C, and the theorems that make it correct.

  \<^bold>\<open>The program.\<close> The main process (\<open>src/src/main_greyd.c\<close>) talks slow SMTP to every client
  (\<open>con.c\<close>), looks the client up in the blacklists it has been sent (\<open>blacklist.c\<close>, \<open>trie.c\<close>,
  \<open>ip.c\<close>) and writes what greylisted clients want to deliver to a pipe. The greylister (\<open>grey.c\<close>)
  reads these messages with the parser of the configuration files (\<open>config_lexer.c\<close>,
  \<open>config_parser.c\<close>, \<open>greyd_config.c\<close>), keeps the tuples in a database (\<open>greydb.c\<close>,
  \<open>drivers/bdb.c\<close> or \<open>drivers/sqlite.c\<close>), scans it for tuples that have passed, sends the whitelist to the firewall process
  (\<open>greyd.c\<close>) and the trapped addresses back to the main process, and exchanges its changes with other
  hosts (\<open>sync.c\<close>). Feeds of blacklists are parsed by \<open>spamd_lexer.c\<close> and \<open>spamd_parser.c\<close> and
  collapsed to CIDR blocks, which \<open>main_greyd_setup.c\<close> does for the configured lists before it sends them to the
  main process. \<open>main_greylogd.c\<close> whitelists the addresses that the firewall logs. \<open>list.c\<close>, \<open>queue.c\<close> and \<open>hash.c\<close> hold the data of all of them.

  \<^bold>\<open>Theories and sources.\<close> Each theory models the files it names, with one definition per function (and
  one per loop or branch of a large function), named as in the code; a struct is a record, a pointer that
  may be NULL an option, an integer whose width matters a word. Undefined behaviour, a failed assertion
  and \<open>exit\<close> are the value \<open>None\<close>: a theorem with a result \<open>Some\<close> excludes them.
    \<^item> \<open>Prelude\<close>: C integers, C strings, character classes, bounded buffers, folds that may fail.
    \<^item> \<open>Linked_List\<close>: \<open>list.c\<close>, \<open>queue.c\<close>. \<open>Hash_Table\<close>: \<open>hash.c\<close>.
    \<^item> \<open>IP\<close>: \<open>ip.c\<close>. \<open>Trie\<close>: \<open>trie.c\<close>. \<open>Utils\<close>: \<open>utils.c\<close>. \<open>Blacklist\<close>, \<open>Blacklist_Match\<close>: \<open>blacklist.c\<close>.
    \<^item> \<open>Lexer\<close>: \<open>lexer.c\<close>, \<open>lexer_source.c\<close>. \<open>Spamd_Parser\<close>: \<open>spamd_lexer.c\<close>, \<open>spamd_parser.c\<close>.
    \<^item> \<open>Config\<close>: \<open>config_value.c\<close>, \<open>config_section.c\<close>, \<open>greyd_config.c\<close>. \<open>Config_Lexer\<close>, \<open>Config_Parser\<close>:
      \<open>config_lexer.c\<close>, \<open>config_parser.c\<close>. \<open>Config_Load\<close>: the loading of files in \<open>greyd_config.c\<close>.
    \<^item> \<open>Greyd\<close>: \<open>greyd.c\<close>, the messages between processes. \<open>Greydb\<close>: \<open>greydb.c\<close> and the contract of a database
      driver. \<open>Bdb\<close>: \<open>drivers/bdb.c\<close>, which meets it. \<open>Grey\<close>: \<open>grey.c\<close>. \<open>Greylisting\<close>: the engine run on the
      Berkeley DB driver. \<open>Grey_Runs\<close>: the engine over any sequence of messages and scans.
    \<^item> \<open>Sql\<close>: the SQL that the drivers use, as syntax trees with their documented meaning. \<open>Sqlite\<close>: \<open>drivers/sqlite.c\<close>.
      \<open>Sqlite_Driver\<close>, \<open>Sqlite_Scan\<close>: it meets the contract too. \<open>Sqlite_Greylisting\<close>: its properties, and the engine run on it.
      \<open>Mysql\<close>: \<open>drivers/mysql.c\<close>. \<open>Mysql_Text\<close>: how a server reads its statements.
    \<^item> \<open>Messages\<close>, \<open>Reader\<close>: the engine's streams, printed by one process and read by another.
    \<^item> \<open>Connection\<close>: \<open>con.c\<close>. \<open>Con_Reply\<close>: the reply to blacklisted clients. \<open>Con_Safety\<close>: no event breaks a connection.
    \<^item> \<open>Sync\<close>: \<open>sync.c\<close>, between two hosts.
    \<^item> \<open>Greydb_Tool\<close>: \<open>main_greydb.c\<close>, the tool that lists and edits the database.
    \<^item> \<open>Greylogd\<close>: the loop of \<open>main_greylogd.c\<close>. \<open>Greyd_Setup\<close>: \<open>main_greyd_setup.c\<close>.
    \<^item> \<open>Daemon\<close>: the event loop of \<open>main_greyd.c\<close>. \<open>Daemon_Safety\<close>: its invariant.
    \<^item> \<open>Config_Merge\<close>: what \<open>Config_merge\<close> of \<open>greyd_config.c\<close> does to the variables. \<open>Options\<close>: \<open>getopt\<close>, the numbers on a
      command line, and configurations that hold options. \<open>Daemon_Options\<close>: the options, the configuration and the limits of
      \<open>main_greyd.c\<close>. \<open>Tool_Options\<close>: the options of the other programs.

  \<^bold>\<open>Interfaces.\<close> A component is used through a locale where another relies on its laws: \<open>fifo\<close> (queues),
  \<open>keyed_store\<close> (the hash table, and the sections of the configuration on top of it), \<open>char_source\<close> (the
  sources of the lexers), \<open>pattern_set\<close> (tries of bytes and of networks), \<open>greydb\<close> and \<open>greydb_live\<close> (a
  database driver, as \<open>grey.c\<close> uses it), \<open>greydb_admin\<close> (as \<open>main_greydb.c\<close> does). Each is interpreted on the definitions that model the code. The
  library of Berkeley DB, which is not part of the repository, is a record of its functions with its
  documented laws as the locales \<open>bdb_library\<close> and \<open>bdb_live\<close>; the driver meets \<open>greydb\<close> under these laws,
  and an instance that keeps the tables in memory shows that they can hold. In the same way \<open>sqlite_library\<close> has the laws
  of SQLite, stated with the meaning of the statements in \<open>Sql\<close> up to the order in which rows are visited: an engine may be busy at the beginning
  and the end of a transaction, for as long as the driver tries again; its instance in memory is busy at the first one. The contract
  has two conditions a driver chooses: \<open>ok\<close>, the keys it can tell apart (SQLite: tuples with a sender and a recipient, as
  \<open>con.c\<close> sends them, and domains without the wildcards of a pattern), and \<open>scannable\<close>, the entries on which its
  scan is the specified one. \<open>mysql_escaping\<close> has the law of the escapes of MySQL.

  \<^bold>\<open>What is shown.\<close>
    \<^item> Greylisting (\<open>Greylisting\<close>, \<open>Grey\<close>, \<open>Bdb\<close>): what a message stores on every branch, what it leaves alone, what
      a scan whitelists, traps, deletes and sends; hence a sender that retries is whitelisted, one that does not never is,
      and over every run the whitelists hold only addresses that retried or were named by a white message (\<open>Grey_Runs\<close>).
    \<^item> The drivers (\<open>Bdb\<close>, \<open>Sqlite_Driver\<close>, \<open>Sqlite_Scan\<close>, \<open>Sqlite_Greylisting\<close>): both are finite maps with transactions; what
      their scans do; the rows of SQLite decode to the keys they stand for;
      no string that a client chooses changes a statement for MySQL.
    \<^item> The tool (\<open>Greydb_Tool\<close>): what it changes and tells other hosts, that its listing is complete, that a spam trap it adds catches.
    \<^item> The log (\<open>Greylogd\<close>): over every interleaving of logged batches and scans an address that is logged is in the whitelists until its expiry time has passed.
    \<^item> The lists (\<open>Greyd_Setup\<close>): each blacklist reaches greyd without the addresses of its whitelists.
    \<^item> Messages (\<open>Messages\<close>, \<open>Reader\<close>, \<open>Sync\<close>): what one process or host writes is what the other reads; every
      message is handled once and in order; a packet without the key is dropped.
    \<^item> Clients (\<open>Con_Safety\<close>, \<open>Con_Reply\<close>, \<open>Daemon_Safety\<close>): an invariant of the connection, of the table of
      connections and of the loop that holds whatever clients send and system calls return; the reply is well-formed SMTP;
      the loop waits for what each connection waits for and closes those that are too old.
    \<^item> Command lines (\<open>Config_Merge\<close>, \<open>Daemon_Options\<close>, \<open>Tool_Options\<close>): options are laid over the configuration file, the last one
      that sets a variable wins; the limits on connections leave room for clients that are not blacklisted.
    \<^item> Addresses (\<open>IP\<close>, \<open>Trie\<close>, \<open>Blacklist\<close>, \<open>Blacklist_Match\<close>, \<open>Spamd_Parser\<close>): ranges, blocks and masks mean the
      addresses they should; collapsing a black and a white feed leaves the difference; lookups find what was added.
    \<^item> Data (\<open>Hash_Table\<close>, \<open>Config\<close>, \<open>Linked_List\<close>, \<open>Utils\<close>): maps, round trips, buffers.
    \<^item> Where the code does not do what it means to, the theorem states what it does: full hash tables, ranges
      up to the last address, mixed prefix lengths, malformed addresses, replies that are not sent, the packets
      that are read past their end, the descriptor of a configuration connection that takes a client's place, lists that
      cannot be fetched, consecutive blacklists, expiry times in the past, includes beyond the third file, the host name of the configuration file.

  \<^bold>\<open>Bounds and termination.\<close> Loops are recursive functions with a measure, mostly the characters, bytes or
  entries that are left. The probe loops of the hash table have the size of the table as fuel: a probe
  visits each slot once. \<open>Hash_insert_d\<close> has the depth of nested resizes as fuel, for which two is
  enough since a table that has been doubled is not full. \<open>IP_range_loop\<close> (one round is \<open>IP_range_step\<close>), the loops over the cursor of
  Berkeley DB, the loading of configuration files and the reader may run on, and are partial functions in \<open>option\<close>: that they return is proved
  as a result \<open>Some\<close> (for the rows of SQLite, \<open>scan_rows\<close>, in \<open>scan_rows_lists\<close>), and that the first does not return for some ranges as an infinite sequence of rounds,
  none of which is undefined. Buffers have the sizes of
  the code. \<open>exec_retry\<close> has 20 retries, as in the code. Times are integers.

  \<^bold>\<open>Relied on.\<close> System calls, the resolver, HMAC and SPF libraries and the firewall are parameters. What is
  relied on is stated where it is used: \<open>env_ok\<close> and \<open>setup_ok\<close> (a readable configuration, permitted
  proxies as \<open>Greyd_set_proxy_protocol_permitted_proxies\<close> makes them, printable addresses), \<open>poll_ok\<close> and \<open>io_ok\<close> (\<open>poll\<close> reports what was asked for, \<open>read\<close> and \<open>write\<close> transfer no more than
  is offered), \<open>arrivals_ok\<close> (descriptors are fresh, the messages of the lists fit the output buffer,
  configurations come from the programs of the repository).

  \<^bold>\<open>Not modelled.\<close> The driver of PostgreSQL, which is that of MySQL in another dialect and undefined for every key, since
  it escapes strings with an uninitialised pointer; what a MySQL server does with the statements; the firewall drivers, which are calls into the kernel; \<open>Sync_start\<close>, opening sockets, forking,
  signals, privileges and logging, which are system calls without state of their own; freeing memory, and allocation failures.
\<close>

end
